(* ===== verification/Prelude.thy ===== *)
theory Prelude
  imports "HOL-Library.Word" "HOL-Library.Char_ord" "HOL-Library.List_Lexorder"
begin

text \<open>
  Shared vocabulary of the development: byte strings, Go error values, results, and the
  generic lemmas that several components use.

  A Go \<open>string\<close> or \<open>[]byte\<close> is a list of bytes, here \<open>char list\<close>. A Go function that
  returns \<open>(T, error)\<close> returns a value of \<open>'a result\<close>: \<open>Inl e\<close> for a non-nil error, \<open>Inr v\<close>
  otherwise. A Go function that returns only \<open>error\<close> returns \<open>error option\<close>, where \<open>None\<close>
  is \<open>nil\<close>, or \<open>unit result\<close> where it is sequenced with others.
\<close>

section \<open>Byte strings and errors\<close>

type_synonym bytes = string
type_synonym u64 = "64 word"

text \<open>
  \<open>Failure m\<close> is \<open>errors.New(m)\<close>; the sentinels the code compares against
  (\<open>queue.ErrFull\<close>, \<open>queue.ErrClosed\<close>, \<open>ctx.Err()\<close>, errors recognised by \<open>os.IsNotExist\<close>
  and \<open>os.ErrPermission\<close>) have constructors of their own; every other operating system error is
  \<open>OSError\<close>.
\<close>

datatype error =
    Failure string
  | ErrFull
  | ErrClosed
  | Canceled
  | NotExist
  | Permission
  | OSError

type_synonym 'a result = "error + 'a"

section \<open>Collections of facts\<close>

named_theorems io_simps "unfolding rules of the file system and of the error plumbing"
named_theorems frame_simps "fields an operation leaves unchanged"
named_theorems inv_intros "preservation of invariants"

section \<open>Results\<close>

fun is_ok :: "'a result \<Rightarrow> bool" where
  "is_ok (Inl _) = False"
| "is_ok (Inr _) = True"

lemma is_ok_iff: "is_ok r \<longleftrightarrow> (\<exists>v. r = Inr v)"
  by (cases r) auto

lemma not_is_ok_iff: "\<not> is_ok r \<longleftrightarrow> (\<exists>e. r = Inl e)"
  by (cases r) auto

section \<open>Lists\<close>

lemma hd_tl_Cons: "xs \<noteq> [] \<Longrightarrow> hd xs = x \<Longrightarrow> xs = x # tl xs"
  by (cases xs) auto

lemma sorted_snoc:
  "sorted xs \<Longrightarrow> (\<And>x. x \<in> set xs \<Longrightarrow> x \<le> y) \<Longrightarrow> sorted (xs @ [y])"
  by (simp add: sorted_append)

lemma sorted_wrt_snoc:
  "sorted_wrt P xs \<Longrightarrow> (\<And>x. x \<in> set xs \<Longrightarrow> P x y) \<Longrightarrow> sorted_wrt P (xs @ [y])"
  by (simp add: sorted_wrt_append)

lemma list_all_filter: "list_all P (filter P xs)"
  by (induction xs) auto

end
