(* ===== verification/GoStrings.thy ===== *)
theory GoStrings
  imports Prelude
begin

text \<open>
  The parts of Go's \<^verbatim>\<open>strings\<close>, \<^verbatim>\<open>strconv\<close>, \<^verbatim>\<open>fmt\<close>, \<^verbatim>\<open>encoding/hex\<close> and \<^verbatim>\<open>unicode/utf8\<close> packages that
  the agent uses, on byte strings.
\<close>

section \<open>Prefixes, suffixes and character sets\<close>

definition ContainsAny :: "bytes \<Rightarrow> char list \<Rightarrow> bool" where
  "ContainsAny s cs = list_ex (\<lambda>c. c \<in> set cs) s"

fun HasPrefix :: "bytes \<Rightarrow> bytes \<Rightarrow> bool" where
  "HasPrefix s [] = True"
| "HasPrefix [] (p # ps) = False"
| "HasPrefix (c # s) (p # ps) = (c = p \<and> HasPrefix s ps)"

definition TrimPrefix :: "bytes \<Rightarrow> bytes \<Rightarrow> bytes" where
  "TrimPrefix s p = (if HasPrefix s p then drop (length p) s else s)"

definition HasSuffix :: "bytes \<Rightarrow> bytes \<Rightarrow> bool" where
  "HasSuffix s p = HasPrefix (rev s) (rev p)"

definition TrimSuffix :: "bytes \<Rightarrow> bytes \<Rightarrow> bytes" where
  "TrimSuffix s p = (if HasSuffix s p then take (length s - length p) s else s)"

lemma HasPrefix_iff: "HasPrefix s p \<longleftrightarrow> (\<exists>t. s = p @ t)"
  by (induction s p rule: HasPrefix.induct) auto

lemma HasSuffix_iff: "HasSuffix s p \<longleftrightarrow> (\<exists>t. s = t @ p)"
proof -
  have "HasSuffix s p \<longleftrightarrow> (\<exists>t. rev s = rev p @ t)" by (simp add: HasSuffix_def HasPrefix_iff)
  also have "\<dots> \<longleftrightarrow> (\<exists>t. s = t @ p)" by (metis rev_append rev_rev_ident)
  finally show ?thesis .
qed

lemma TrimSuffix_append [simp]: "TrimSuffix (s @ p) p = s"
  by (simp add: TrimSuffix_def HasSuffix_iff)

section \<open>White space\<close>

text \<open>The UTF-8 encodings of the runes for which \<^verbatim>\<open>unicode.IsSpace\<close> holds.\<close>

definition space_runes :: "bytes list" where
  "space_runes =
     [[CHR 0x09], [CHR 0x0A], [CHR 0x0B], [CHR 0x0C], [CHR 0x0D], [CHR 0x20],
      [CHR 0xC2, CHR 0x85], [CHR 0xC2, CHR 0xA0], [CHR 0xE1, CHR 0x9A, CHR 0x80],
      [CHR 0xE2, CHR 0x80, CHR 0x80], [CHR 0xE2, CHR 0x80, CHR 0x81], [CHR 0xE2, CHR 0x80, CHR 0x82],
      [CHR 0xE2, CHR 0x80, CHR 0x83], [CHR 0xE2, CHR 0x80, CHR 0x84], [CHR 0xE2, CHR 0x80, CHR 0x85],
      [CHR 0xE2, CHR 0x80, CHR 0x86], [CHR 0xE2, CHR 0x80, CHR 0x87], [CHR 0xE2, CHR 0x80, CHR 0x88],
      [CHR 0xE2, CHR 0x80, CHR 0x89], [CHR 0xE2, CHR 0x80, CHR 0x8A], [CHR 0xE2, CHR 0x80, CHR 0xA8],
      [CHR 0xE2, CHR 0x80, CHR 0xA9], [CHR 0xE2, CHR 0x80, CHR 0xAF], [CHR 0xE2, CHR 0x81, CHR 0x9F],
      [CHR 0xE3, CHR 0x80, CHR 0x80]]"

text \<open>
  \<open>trim_with f s\<close> drops leading white space of \<open>s\<close>, with every space rune read through \<open>f\<close>; \<open>f = rev\<close>
  serves the right end. The fuel is the length of the string: each round drops at least one byte.
\<close>

fun trim_fuel :: "bytes list \<Rightarrow> nat \<Rightarrow> bytes \<Rightarrow> bytes" where
  "trim_fuel sp 0 s = s"
| "trim_fuel sp (Suc n) s =
     (case find (HasPrefix s) sp of None \<Rightarrow> s | Some r \<Rightarrow> trim_fuel sp n (drop (length r) s))"

definition TrimLeftSpace :: "bytes \<Rightarrow> bytes" where
  "TrimLeftSpace s = trim_fuel space_runes (length s) s"

definition TrimRightSpace :: "bytes \<Rightarrow> bytes" where
  "TrimRightSpace s = rev (trim_fuel (map rev space_runes) (length s) (rev s))"

definition TrimSpace :: "bytes \<Rightarrow> bytes" where
  "TrimSpace s = TrimRightSpace (TrimLeftSpace s)"

lemma trim_fuel_nonspace: "find (HasPrefix s) sp = None \<Longrightarrow> trim_fuel sp n s = s"
  by (cases n) auto

lemma trim_fuel_done:
  assumes "[] \<notin> set sp" and "length s \<le> n"
  shows "find (HasPrefix (trim_fuel sp n s)) sp = None"
  using assms
proof (induction sp n s rule: trim_fuel.induct)
  case (1 sp s)
  then show ?case by (auto simp: find_None_iff neq_Nil_conv HasPrefix_iff)
next
  case (2 sp n s)
  show ?case
  proof (cases "find (HasPrefix s) sp")
    case None
    then show ?thesis by simp
  next
    case (Some r)
    then have "r \<in> set sp" "HasPrefix s r" by (auto simp: find_Some_iff)
    then have "r \<noteq> []" "s = r @ drop (length r) s" using 2 by (auto simp: HasPrefix_iff)
    then have "length (drop (length r) s) \<le> n" using "2.prems"
      by (cases r) auto
    with 2 Some show ?thesis by simp
  qed
qed

section \<open>Decimal numerals\<close>

definition digit :: "nat \<Rightarrow> char" where
  "digit d = char_of (48 + d)"

definition digit_val :: "char \<Rightarrow> nat" where
  "digit_val c = of_char c - 48"

definition is_digit :: "char \<Rightarrow> bool" where
  "is_digit c \<longleftrightarrow> 48 \<le> (of_char c :: nat) \<and> (of_char c :: nat) \<le> 57"

fun dec :: "nat \<Rightarrow> bytes" where
  "dec n = (if n < 10 then [digit n] else dec (n div 10) @ [digit (n mod 10)])"

declare dec.simps [simp del]

definition dec_int :: "int \<Rightarrow> bytes" where
  "dec_int i = (if i < 0 then CHR ''-'' # dec (nat (- i)) else dec (nat i))"

text \<open>The value of a string of digits, most significant first.\<close>

definition undec :: "bytes \<Rightarrow> nat" where
  "undec s = foldl (\<lambda>n c. 10 * n + digit_val c) 0 s"

lemma digit_val_digit [simp]: "d < 10 \<Longrightarrow> digit_val (digit d) = d"
  by (simp add: digit_def digit_val_def)

lemma is_digit_digit [simp]: "d < 10 \<Longrightarrow> is_digit (digit d)"
  by (simp add: digit_def is_digit_def)

lemma digit_inj: "a < 10 \<Longrightarrow> b < 10 \<Longrightarrow> digit a = digit b \<Longrightarrow> a = b"
  by (metis digit_val_digit)

lemma digit_less: "a < 10 \<Longrightarrow> b < 10 \<Longrightarrow> digit a < digit b \<longleftrightarrow> a < b"
  by (simp add: digit_def less_char_def)

lemma undec_append: "undec (s @ [c]) = 10 * undec s + digit_val c"
  by (simp add: undec_def)

lemma dec_nonempty [simp]: "dec n \<noteq> []"
  by (subst dec.simps) simp

lemma undec_dec [simp]: "undec (dec n) = n"
proof (induction n rule: dec.induct)
  case (1 n)
  show ?case
  proof (cases "n < 10")
    case True
    then show ?thesis by (simp add: dec.simps [of n] undec_def)
  next
    case False
    with 1 show ?thesis by (simp add: dec.simps [of n] undec_append)
  qed
qed

lemma dec_digits: "list_all is_digit (dec n)"
proof (induction n rule: dec.induct)
  case (1 n)
  then show ?case by (cases "n < 10") (simp_all add: dec.simps [of n])
qed

lemma dec_inj: "dec m = dec n \<Longrightarrow> m = n"
  by (metis undec_dec)

section \<open>Zero-padded numerals\<close>

text \<open>\<open>pad w n\<close> is \<^verbatim>\<open>fmt.Sprintf("%0<w>d", n)\<close> for a non-negative number.\<close>

definition pad :: "nat \<Rightarrow> nat \<Rightarrow> bytes" where
  "pad w n = replicate (w - length (dec n)) (CHR ''0'') @ dec n"

text \<open>The last \<open>w\<close> decimal digits of \<open>n\<close>.\<close>

fun fixed :: "nat \<Rightarrow> nat \<Rightarrow> bytes" where
  "fixed 0 n = []"
| "fixed (Suc w) n = fixed w (n div 10) @ [digit (n mod 10)]"

lemma length_fixed [simp]: "length (fixed w n) = w"
  by (induction w arbitrary: n) auto

lemma digit_0: "digit 0 = CHR ''0''"
  by code_simp

lemma fixed_0: "fixed w 0 = replicate w (CHR ''0'')"
  by (induction w) (simp_all add: digit_0 replicate_append_same)

lemma pad_fixed: "0 < w \<Longrightarrow> n < 10 ^ w \<Longrightarrow> pad w n = fixed w n"
proof (induction w arbitrary: n)
  case (Suc w)
  show ?case
  proof (cases "n < 10")
    case True
    then show ?thesis by (simp add: pad_def dec.simps [of n] fixed_0)
  next
    case False
    then have "0 < w" using Suc.prems by (cases w) auto
    moreover have "n div 10 < 10 ^ w" using Suc.prems by (simp add: less_mult_imp_div_less mult.commute)
    ultimately have "pad w (n div 10) = fixed w (n div 10)" by (rule Suc.IH)
    then show ?thesis using False by (simp add: pad_def dec.simps [of n])
  qed
qed simp

lemma length_pad: "0 < w \<Longrightarrow> n < 10 ^ w \<Longrightarrow> length (pad w n) = w"
  by (simp add: pad_fixed)

lemma undec_pad [simp]: "undec (pad w n) = n"
proof -
  have "foldl (\<lambda>n c. 10 * n + digit_val c) 0 (replicate k (CHR ''0'')) = 0" for k
    by (induction k) (auto simp: digit_val_def)
  then show ?thesis
    using undec_dec [of n] by (simp add: pad_def undec_def foldl_append)
qed

lemma pad_inj: "pad w m = pad w n \<Longrightarrow> m = n"
  by (metis undec_pad)

lemma pad_digits: "list_all is_digit (pad w n)"
  using dec_digits [of n] by (auto simp: pad_def list_all_iff is_digit_def)

text \<open>Lexicographic order of byte strings of equal length, and of padded numerals.\<close>

lemma snoc_less_snoc:
  fixes xs ys :: "'a::linorder list"
  assumes "length xs = length ys"
  shows "xs @ [x] < ys @ [y] \<longleftrightarrow> xs < ys \<or> xs = ys \<and> x < y"
  using assms by (induction xs ys rule: list_induct2) auto

lemma div_mod_less_iff:
  fixes m n :: nat
  shows "m < n \<longleftrightarrow> m div 10 < n div 10 \<or> m div 10 = n div 10 \<and> m mod 10 < n mod 10"
proof -
  have key: "10 * a + b < 10 * c + e \<longleftrightarrow> a < c \<or> a = c \<and> b < e" if "b < 10" "e < 10" for a b c e :: nat
    using that by (cases a c rule: linorder_cases) auto
  show ?thesis
    using key [of "m mod 10" "n mod 10" "m div 10" "n div 10"] by simp
qed

lemma fixed_less: "m < 10 ^ w \<Longrightarrow> n < 10 ^ w \<Longrightarrow> fixed w m < fixed w n \<longleftrightarrow> m < n"
proof (induction w arbitrary: m n)
  case (Suc w)
  have d: "m div 10 < 10 ^ w" "n div 10 < 10 ^ w"
    using Suc.prems by (simp_all add: less_mult_imp_div_less mult.commute)
  have eq: "fixed w (m div 10) = fixed w (n div 10) \<longleftrightarrow> m div 10 = n div 10"
    using Suc.IH [OF d] Suc.IH [OF d(2,1)] by (metis linorder_neqE_nat order_less_irrefl)
  have dig: "digit (m mod 10) < digit (n mod 10) \<longleftrightarrow> m mod 10 < n mod 10"
    by (rule digit_less) simp_all
  have "fixed (Suc w) m < fixed (Suc w) n \<longleftrightarrow> fixed w (m div 10) < fixed w (n div 10)
      \<or> fixed w (m div 10) = fixed w (n div 10) \<and> digit (m mod 10) < digit (n mod 10)"
    unfolding fixed.simps by (rule snoc_less_snoc) simp
  also have "\<dots> \<longleftrightarrow> m div 10 < n div 10 \<or> m div 10 = n div 10 \<and> m mod 10 < n mod 10"
    unfolding dig eq Suc.IH [OF d] by (rule refl)
  also have "\<dots> \<longleftrightarrow> m < n" by (rule div_mod_less_iff [symmetric])
  finally show ?case .
qed simp

lemma pad_less: "m < 10 ^ w \<Longrightarrow> n < 10 ^ w \<Longrightarrow> 0 < w \<Longrightarrow> pad w m < pad w n \<longleftrightarrow> m < n"
  by (simp add: pad_fixed fixed_less)

lemma undec_fixed_digits:
  assumes "list_all is_digit s"
  shows "fixed (length s) (undec s) = s"
  using assms
proof (induction s rule: rev_induct)
  case (snoc c s)
  then have c: "digit_val c < 10" "digit (digit_val c) = c"
    by (auto simp: digit_val_def is_digit_def digit_def)
  from snoc have IH: "fixed (length s) (undec s) = s" by simp
  have "(10 * undec s + digit_val c) div 10 = undec s" "(10 * undec s + digit_val c) mod 10 = digit_val c"
    using c(1) by simp_all
  with IH c(2) show ?case by (simp add: undec_append)
qed simp

lemma undec_bound: "list_all is_digit s \<Longrightarrow> undec s < 10 ^ length s"
proof (induction s rule: rev_induct)
  case (snoc c s)
  then have "digit_val c < 10" "undec s < 10 ^ length s" by (auto simp: digit_val_def is_digit_def)
  then show ?case by (simp add: undec_append)
qed (simp add: undec_def)

lemma pad_undec: "list_all is_digit s \<Longrightarrow> s \<noteq> [] \<Longrightarrow> pad (length s) (undec s) = s"
  by (simp add: pad_fixed undec_bound undec_fixed_digits)

section \<open>Parsing numbers\<close>

definition ParseUint :: "bytes \<Rightarrow> u64 option" where
  "ParseUint s =
     (if s = [] \<or> \<not> list_all is_digit s \<or> 2 ^ 64 \<le> undec s then None else Some (of_nat (undec s)))"

text \<open>The result of \<^verbatim>\<open>ParseInt(s, 10, 64)\<close>, an \<^verbatim>\<open>int64\<close>, is kept as an integer in its range.\<close>

definition ParseInt :: "bytes \<Rightarrow> int option" where
  "ParseInt s =
     (case s of
        [] \<Rightarrow> None
      | c # r \<Rightarrow>
          let neg = (c = CHR ''-''); ds = (if c = CHR ''-'' \<or> c = CHR ''+'' then r else s) in
          if ds = [] \<or> \<not> list_all is_digit ds then None
          else if neg then (if undec ds \<le> 2 ^ 63 then Some (- int (undec ds)) else None)
          else (if undec ds < 2 ^ 63 then Some (int (undec ds)) else None))"

text \<open>
  \<^verbatim>\<open>fmt.Sscanf(s, "%d", &seq)\<close> into a \<^verbatim>\<open>uint64\<close>, for its only use: the result is compared with \<open>s\<close>
  after formatting, so only an unbroken leading run of digits matters.
\<close>

definition Sscan_u64 :: "bytes \<Rightarrow> u64 option" where
  "Sscan_u64 s = ParseUint (takeWhile is_digit s)"

lemma ParseUint_dec [simp]: "n < 2 ^ 64 \<Longrightarrow> ParseUint (dec n) = Some (of_nat n)"
  by (simp add: ParseUint_def dec_digits)

lemma ParseUint_dec_unat [simp]: "ParseUint (dec (unat (w :: u64))) = Some w"
proof -
  have "unat w < 2 ^ 64" using unsigned_less [of w] by simp
  then show ?thesis by (subst ParseUint_dec) simp_all
qed

section \<open>Hexadecimal\<close>

definition hex_digit :: "nat \<Rightarrow> char" where
  "hex_digit d = (if d < 10 then char_of (48 + d) else char_of (87 + d))"

definition is_hex :: "char \<Rightarrow> bool" where
  "is_hex c \<longleftrightarrow> is_digit c \<or> (97 \<le> (of_char c :: nat) \<and> (of_char c :: nat) \<le> 102)
     \<or> (65 \<le> (of_char c :: nat) \<and> (of_char c :: nat) \<le> 70)"

definition hex_val :: "char \<Rightarrow> nat" where
  "hex_val c = (let n = of_char c in if is_digit c then n - 48 else if 97 \<le> n then n - 87 else n - 55)"

fun EncodeToString :: "bytes \<Rightarrow> bytes" where
  "EncodeToString [] = []"
| "EncodeToString (c # s) = hex_digit (of_char c div 16) # hex_digit (of_char c mod 16) # EncodeToString s"

fun DecodeString :: "bytes \<Rightarrow> bytes option" where
  "DecodeString [] = Some []"
| "DecodeString [c] = None"
| "DecodeString (a # b # s) =
     (if is_hex a \<and> is_hex b
      then map_option ((#) (char_of (16 * hex_val a + hex_val b))) (DecodeString s)
      else None)"

lemma hex_digit_is_hex: "d < 16 \<Longrightarrow> is_hex (hex_digit d)"
  by (auto simp: hex_digit_def is_hex_def is_digit_def)

lemma hex_val_digit: "d < 16 \<Longrightarrow> hex_val (hex_digit d) = d"
  by (auto simp: hex_digit_def hex_val_def is_digit_def Let_def)

lemma length_EncodeToString [simp]: "length (EncodeToString s) = 2 * length s"
  by (induction s) auto

lemma EncodeToString_hex: "list_all is_hex (EncodeToString s)"
proof (induction s)
  case (Cons c s)
  have "(of_char c :: nat) div 16 < 16" using nat_of_char_less_256 [of c] by arith
  with Cons show ?case by (simp add: hex_digit_is_hex)
qed simp

lemma DecodeString_Encode: "DecodeString (EncodeToString s) = Some s"
proof (induction s)
  case (Cons c s)
  have "(of_char c :: nat) div 16 < 16" using nat_of_char_less_256 [of c] by arith
  with Cons show ?case by (simp add: hex_digit_is_hex hex_val_digit)
qed simp

lemma DecodeString_Some_length: "DecodeString s = Some b \<Longrightarrow> length s = 2 * length b \<and> list_all is_hex s"
  by (induction s arbitrary: b rule: DecodeString.induct) (auto split: if_splits)

lemma DecodeString_hex: "list_all is_hex s \<Longrightarrow> length s = 2 * n \<Longrightarrow> \<exists>b. DecodeString s = Some b \<and> length b = n"
proof (induction s arbitrary: n rule: DecodeString.induct)
  case (3 a b s)
  then show ?case by (cases n) auto
qed (auto)

section \<open>UTF-8\<close>

definition in_range :: "nat \<Rightarrow> nat \<Rightarrow> char \<Rightarrow> bool" where
  "in_range lo hi c \<longleftrightarrow> lo \<le> of_char c \<and> of_char c \<le> hi"

text \<open>The well-formed encodings of one to four bytes at the front of a string.\<close>

fun rune1 :: "bytes \<Rightarrow> bool" where
  "rune1 (a # _) \<longleftrightarrow> of_char a < (128 :: nat)"
| "rune1 _ \<longleftrightarrow> False"

fun rune2 :: "bytes \<Rightarrow> bool" where
  "rune2 (a # b # _) \<longleftrightarrow> in_range 194 223 a \<and> in_range 128 191 b"
| "rune2 _ \<longleftrightarrow> False"

fun rune3 :: "bytes \<Rightarrow> bool" where
  "rune3 (a # b # c # _) \<longleftrightarrow> in_range 224 239 a
     \<and> in_range (if of_char a = (224 :: nat) then 160 else 128) (if of_char a = (237 :: nat) then 159 else 191) b
     \<and> in_range 128 191 c"
| "rune3 _ \<longleftrightarrow> False"

fun rune4 :: "bytes \<Rightarrow> bool" where
  "rune4 (a # b # c # d # _) \<longleftrightarrow> in_range 240 244 a
     \<and> in_range (if of_char a = (240 :: nat) then 144 else 128) (if of_char a = (244 :: nat) then 143 else 191) b
     \<and> in_range 128 191 c \<and> in_range 128 191 d"
| "rune4 _ \<longleftrightarrow> False"

text \<open>
  The number of bytes of the rune at the front of a string, as \<^verbatim>\<open>utf8.DecodeRune\<close> accepts it; 0 where
  \<^verbatim>\<open>DecodeRune\<close> reports an invalid byte.
\<close>

definition rune_len :: "bytes \<Rightarrow> nat" where
  "rune_len s = (if rune1 s then 1 else if rune2 s then 2 else if rune3 s then 3 else if rune4 s then 4 else 0)"

lemma rune1_shape: "rune1 s \<longleftrightarrow> (\<exists>a r. s = a # r \<and> of_char a < (128 :: nat))"
  by (cases s) auto

lemma rune2_shape: "rune2 s \<longleftrightarrow> (\<exists>a b r. s = a # b # r \<and> rune2 [a, b])"
  by (induction s rule: rune2.induct) auto

lemma rune3_shape: "rune3 s \<longleftrightarrow> (\<exists>a b c r. s = a # b # c # r \<and> rune3 [a, b, c])"
  by (induction s rule: rune3.induct) auto

lemma rune4_shape: "rune4 s \<longleftrightarrow> (\<exists>a b c d r. s = a # b # c # d # r \<and> rune4 [a, b, c, d])"
  by (induction s rule: rune4.induct) auto

lemma rune1_length: "rune1 s \<Longrightarrow> 1 \<le> length s"
  by (auto simp: rune1_shape)

lemma rune2_length: "rune2 s \<Longrightarrow> 2 \<le> length s"
  by (subst (asm) rune2_shape) auto

lemma rune3_length: "rune3 s \<Longrightarrow> 3 \<le> length s"
  by (subst (asm) rune3_shape) auto

lemma rune4_length: "rune4 s \<Longrightarrow> 4 \<le> length s"
  by (subst (asm) rune4_shape) auto

lemmas rune_lengths = rune1_length rune2_length rune3_length rune4_length

lemma rune_len_le: "rune_len s \<le> length s"
  using rune_lengths [of s] by (simp add: rune_len_def)

function utf8_Valid :: "bytes \<Rightarrow> bool" where
  "utf8_Valid s =
     (if s = [] then True else if rune_len s = 0 then False else utf8_Valid (drop (rune_len s) s))"
  by pat_completeness auto
termination
  by (relation "measure length") (auto simp: diff_less)

declare utf8_Valid.simps [simp del]

definition RuneError :: bytes where
  "RuneError = [CHR 0xEF, CHR 0xBF, CHR 0xBD]"

text \<open>
  \<^verbatim>\<open>strings.ToValidUTF8(s, repl)\<close>: every maximal run of invalid bytes becomes one \<open>repl\<close>. The flag says
  that the previous byte was invalid.
\<close>

function to_valid :: "bytes \<Rightarrow> bool \<Rightarrow> bytes \<Rightarrow> bytes" where
  "to_valid repl bad s =
     (if s = [] then []
      else if rune_len s = 0 then (if bad then [] else repl) @ to_valid repl True (tl s)
      else take (rune_len s) s @ to_valid repl False (drop (rune_len s) s))"
  by pat_completeness auto
termination
  by (relation "measure (\<lambda>(_, _, s). length s)") (auto simp: diff_less)

declare to_valid.simps [simp del]

definition ToValidUTF8 :: "bytes \<Rightarrow> bytes \<Rightarrow> bytes" where
  "ToValidUTF8 s repl = to_valid repl False s"

definition encode_rune :: "nat \<Rightarrow> bytes" where
  "encode_rune r =
     (if r < 128 then [char_of r]
      else if r < 2048 then [char_of (192 + r div 64), char_of (128 + r mod 64)]
      else if 55296 \<le> r \<and> r \<le> 57343 \<or> 1114111 < r then RuneError
      else if r < 65536 then [char_of (224 + r div 4096), char_of (128 + r div 64 mod 64), char_of (128 + r mod 64)]
      else [char_of (240 + r div 262144), char_of (128 + r div 4096 mod 64), char_of (128 + r div 64 mod 64),
            char_of (128 + r mod 64)])"

lemma utf8_Valid_Nil [simp]: "utf8_Valid []"
  by (simp add: utf8_Valid.simps)

lemma rune1_iff: "rune1 s \<longleftrightarrow> s \<noteq> [] \<and> of_char (hd s) < (128 :: nat)"
  by (cases s) auto

lemma rune2_lead: "rune2 s \<Longrightarrow> s \<noteq> [] \<and> in_range 194 223 (hd s)"
  by (induction s rule: rune2.induct) auto

lemma rune3_lead: "rune3 s \<Longrightarrow> s \<noteq> [] \<and> in_range 224 239 (hd s)"
  by (induction s rule: rune3.induct) auto

lemma rune4_lead: "rune4 s \<Longrightarrow> s \<noteq> [] \<and> in_range 240 244 (hd s)"
  by (induction s rule: rune4.induct) auto

lemmas rune_leads = rune2_lead rune3_lead rune4_lead

lemma rune2_append: "rune2 s \<Longrightarrow> rune2 (s @ t)"
  by (subst (asm) rune2_shape) auto

lemma rune3_append: "rune3 s \<Longrightarrow> rune3 (s @ t)"
  by (subst (asm) rune3_shape) auto

lemma rune4_append: "rune4 s \<Longrightarrow> rune4 (s @ t)"
  by (subst (asm) rune4_shape) auto

lemmas rune_append = rune2_append rune3_append rune4_append

lemma rune2_take: "rune2 s \<Longrightarrow> rune2 (take 2 s)"
  by (subst (asm) rune2_shape) auto

lemma rune3_take: "rune3 s \<Longrightarrow> rune3 (take 3 s)"
  by (subst (asm) rune3_shape) (auto simp: numeral_3_eq_3)

lemma rune4_take: "rune4 s \<Longrightarrow> rune4 (take 4 s)"
  by (subst (asm) rune4_shape) (auto simp: numeral_eq_Suc)

lemmas rune_take = rune2_take rune3_take rune4_take

text \<open>Two strings with the same first byte, one of which starts with a rune of \<open>k\<close> bytes, agree.\<close>

lemma rune_len_same_lead:
  assumes "hd s = hd t" and "s \<noteq> []" and "t \<noteq> []"
  shows "rune1 s \<Longrightarrow> rune_len t = 1" "rune2 s \<Longrightarrow> rune2 t \<Longrightarrow> rune_len t = 2"
    "rune3 s \<Longrightarrow> rune3 t \<Longrightarrow> rune_len t = 3" "rune4 s \<Longrightarrow> rune4 t \<Longrightarrow> rune_len t = 4"
  using assms by (auto simp: rune_len_def rune1_iff in_range_def dest!: rune_leads)

lemma rune_len_cases:
  assumes "0 < rune_len s"
  obtains "rune1 s" "rune_len s = 1" | "rune2 s" "rune_len s = 2" | "rune3 s" "rune_len s = 3"
    | "rune4 s" "rune_len s = 4"
  using assms by (auto simp: rune_len_def split: if_splits)

lemma rune_len_append: "0 < rune_len s \<Longrightarrow> rune_len (s @ t) = rune_len s"
proof -
  assume r: "0 < rune_len s"
  then have ne: "s \<noteq> []" using rune_len_le [of s] by auto
  then have h: "hd s = hd (s @ t)" "s @ t \<noteq> []" by auto
  from r show ?thesis
    by (cases rule: rune_len_cases) (simp_all add: rune_len_same_lead [OF h(1) ne h(2)] rune_append)
qed

lemma utf8_Valid_append: "utf8_Valid s \<Longrightarrow> utf8_Valid t \<Longrightarrow> utf8_Valid (s @ t)"
proof (induction s rule: utf8_Valid.induct)
  case (1 s)
  show ?case
  proof (cases "s = []")
    case False
    with "1.prems" have r: "0 < rune_len s" "utf8_Valid (drop (rune_len s) s)"
      by (auto simp: utf8_Valid.simps [of s] split: if_splits)
    with False 1 have "utf8_Valid (drop (rune_len s) s @ t)" by simp
    with r False show ?thesis
      using rune_len_le [of s] by (simp add: utf8_Valid.simps [of "s @ t"] rune_len_append)
  qed (use 1 in simp)
qed

lemma utf8_Valid_take: "0 < rune_len s \<Longrightarrow> utf8_Valid (take (rune_len s) s)"
proof -
  assume r: "0 < rune_len s"
  then have ne: "s \<noteq> []" using rune_len_le [of s] by auto
  have "hd s = hd (take (rune_len s) s)" "take (rune_len s) s \<noteq> []" using r ne by auto
  from r rune_len_same_lead [OF this(1) ne this(2)] have "rune_len (take (rune_len s) s) = rune_len s"
    by (cases rule: rune_len_cases) (simp_all add: rune_take)
  with r rune_len_le [of s] show ?thesis by (simp add: utf8_Valid.simps [of "take (rune_len s) s"])
qed

lemma to_valid_Valid: "utf8_Valid repl \<Longrightarrow> utf8_Valid (to_valid repl bad s)"
proof (induction repl bad s rule: to_valid.induct)
  case (1 repl bad s)
  show ?case
  proof (cases "s = []")
    case False
    then show ?thesis
      using 1 by (subst to_valid.simps) (auto intro!: utf8_Valid_append utf8_Valid_take)
  qed (simp add: to_valid.simps)
qed

lemma to_valid_id: "utf8_Valid s \<Longrightarrow> to_valid repl bad s = s"
proof (induction repl bad s rule: to_valid.induct)
  case (1 repl bad s)
  show ?case
  proof (cases "s = []")
    case False
    with "1.prems" have "0 < rune_len s" "utf8_Valid (drop (rune_len s) s)"
      by (auto simp: utf8_Valid.simps [of s] split: if_splits)
    with False 1 show ?thesis by (simp add: to_valid.simps [of repl bad s])
  qed (simp add: to_valid.simps)
qed

lemma ToValidUTF8_Valid: "utf8_Valid repl \<Longrightarrow> utf8_Valid (ToValidUTF8 s repl)"
  by (simp add: ToValidUTF8_def to_valid_Valid)

lemma ToValidUTF8_id: "utf8_Valid s \<Longrightarrow> ToValidUTF8 s repl = s"
  by (simp add: ToValidUTF8_def to_valid_id)

end
