(* ===== verification/Json.thy ===== *)
theory Json
  imports GoStrings "HOL-Library.Monad_Syntax"
begin

text \<open>
  The parts of Go's \<^verbatim>\<open>encoding/json\<close> that the agent uses on bytes it stores: validity, compaction (as
  \<^verbatim>\<open>json.Marshal\<close> does to a \<^verbatim>\<open>RawMessage\<close>, HTML escapes included), and the decoding of objects into
  structs (case-insensitive keys, unknown keys ignored, the last duplicate wins).

  Strings and numbers are kept as the bytes between their delimiters (lexemes), so that printing a
  parsed value gives back its significant bytes.
\<close>

section \<open>Values and lexemes\<close>

datatype json =
    JNull
  | JBool bool
  | JNum bytes
  | JStr bytes
  | JArr "json list"
  | JObj "(bytes \<times> json) list"

definition QUOTE :: char where "QUOTE = CHR 0x22"
definition BSLASH :: char where "BSLASH = CHR 0x5C"

lemmas char_consts = QUOTE_def BSLASH_def

definition is_ws :: "char \<Rightarrow> bool" where
  "is_ws c \<longleftrightarrow> c = CHR 0x20 \<or> c = CHR 0x09 \<or> c = CHR 0x0A \<or> c = CHR 0x0D"

definition skip_ws :: "bytes \<Rightarrow> bytes" where
  "skip_ws s = dropWhile is_ws s"

text \<open>
  The length of the string element (a plain byte or an escape) at the front of a string body, 0 if
  there is none: control characters and the closing quote are no elements.
\<close>

definition elem_len :: "bytes \<Rightarrow> nat" where
  "elem_len s =
     (case s of
        [] \<Rightarrow> 0
      | c # r \<Rightarrow>
          if c = QUOTE \<or> of_char c < (32 :: nat) then 0
          else if c \<noteq> BSLASH then 1
          else if r = [] then 0
          else if hd r \<in> set [QUOTE, BSLASH, CHR ''/'', CHR ''b'', CHR ''f'', CHR ''n'', CHR ''r'', CHR ''t''] then 2
          else if hd r = CHR ''u'' \<and> 5 \<le> length r \<and> list_all is_hex (take 4 (tl r)) then 6
          else 0)"

lemma elem_len_le: "elem_len s \<le> length s"
  by (auto simp: elem_len_def neq_Nil_conv split: list.splits)

lemma elem_len_Nil [simp]: "elem_len [] = 0"
  by (simp add: elem_len_def)

text \<open>\<open>scan_str\<close> starts after the opening quote; it returns the body and what follows the closing quote.\<close>

function scan_str :: "bytes \<Rightarrow> (bytes \<times> bytes) option" where
  "scan_str s =
     (if s = [] then None
      else if hd s = QUOTE then Some ([], tl s)
      else if elem_len s = 0 then None
      else map_option (\<lambda>(b, r). (take (elem_len s) s @ b, r)) (scan_str (drop (elem_len s) s)))"
  by pat_completeness auto
termination
  by (relation "measure length") (auto simp: diff_less)

declare scan_str.simps [simp del]

definition body_ok :: "bytes \<Rightarrow> bool" where
  "body_ok b \<longleftrightarrow> scan_str (b @ [QUOTE]) = Some (b, [])"

definition scan_int :: "bytes \<Rightarrow> (bytes \<times> bytes) option" where
  "scan_int s =
     (case s of
        [] \<Rightarrow> None
      | c # r \<Rightarrow>
          if c = CHR ''0'' then Some ([c], r)
          else if is_digit c then Some (takeWhile is_digit s, dropWhile is_digit s)
          else None)"

definition scan_frac :: "bytes \<Rightarrow> (bytes \<times> bytes) option" where
  "scan_frac s =
     (case s of
        [] \<Rightarrow> Some ([], s)
      | c # r \<Rightarrow>
          if c = CHR ''.'' then
            (if takeWhile is_digit r = [] then None
             else Some (c # takeWhile is_digit r, dropWhile is_digit r))
          else Some ([], s))"

definition scan_exp :: "bytes \<Rightarrow> (bytes \<times> bytes) option" where
  "scan_exp s =
     (case s of
        [] \<Rightarrow> Some ([], s)
      | c # r \<Rightarrow>
          if c = CHR ''e'' \<or> c = CHR ''E'' then
            let sg = (if r \<noteq> [] \<and> (hd r = CHR ''+'' \<or> hd r = CHR ''-'') then [hd r] else []);
                ds = drop (length sg) r
            in if takeWhile is_digit ds = [] then None
               else Some (c # sg @ takeWhile is_digit ds, dropWhile is_digit ds)
          else Some ([], s))"

definition scan_num :: "bytes \<Rightarrow> (bytes \<times> bytes) option" where
  "scan_num s =
     (let sg = (if s \<noteq> [] \<and> hd s = CHR ''-'' then [hd s] else []) in
      do {
        (i, r1) \<leftarrow> scan_int (drop (length sg) s);
        (f, r2) \<leftarrow> scan_frac r1;
        (e, r3) \<leftarrow> scan_exp r2;
        Some (sg @ i @ f @ e, r3)
      })"

definition num_ok :: "bytes \<Rightarrow> bool" where
  "num_ok l \<longleftrightarrow> scan_num l = Some (l, [])"

section \<open>Parsing\<close>

definition eat :: "char \<Rightarrow> bytes \<Rightarrow> bytes option" where
  "eat c s = (case skip_ws s of [] \<Rightarrow> None | x # r \<Rightarrow> if x = c then Some r else None)"

text \<open>
  The nesting limit is \<^verbatim>\<open>maxNestingDepth\<close>: \<open>d\<close> counts the containers that may still be opened. The
  first argument is fuel; \<open>pval_fuel\<close> in \<open>JsonFacts\<close> shows that twice the length of the input is enough.
\<close>

definition maxNestingDepth :: nat where "maxNestingDepth = 10000"

fun pval :: "nat \<Rightarrow> nat \<Rightarrow> bytes \<Rightarrow> (json \<times> bytes) option"
  and pelems :: "nat \<Rightarrow> nat \<Rightarrow> bytes \<Rightarrow> (json list \<times> bytes) option"
  and pmembers :: "nat \<Rightarrow> nat \<Rightarrow> bytes \<Rightarrow> ((bytes \<times> json) list \<times> bytes) option"
where
  "pval 0 d s = None"
| "pval (Suc n) d s =
     (case skip_ws s of
        [] \<Rightarrow> None
      | c # r \<Rightarrow>
          if c = QUOTE then map_option (\<lambda>(b, r'). (JStr b, r')) (scan_str r)
          else if c = CHR ''{'' then
            (if d = 0 then None
             else case eat (CHR ''}'') r of
               Some r' \<Rightarrow> Some (JObj [], r')
             | None \<Rightarrow> map_option (\<lambda>(kvs, r'). (JObj kvs, r')) (pmembers n (d - 1) r))
          else if c = CHR ''['' then
            (if d = 0 then None
             else case eat (CHR '']'') r of
               Some r' \<Rightarrow> Some (JArr [], r')
             | None \<Rightarrow> map_option (\<lambda>(vs, r'). (JArr vs, r')) (pelems n (d - 1) r))
          else if c = CHR ''-'' \<or> is_digit c then map_option (\<lambda>(l, r'). (JNum l, r')) (scan_num (c # r))
          else if HasPrefix (c # r) ''null'' then Some (JNull, drop 4 (c # r))
          else if HasPrefix (c # r) ''true'' then Some (JBool True, drop 4 (c # r))
          else if HasPrefix (c # r) ''false'' then Some (JBool False, drop 5 (c # r))
          else None)"
| "pelems 0 d s = None"
| "pelems (Suc n) d s =
     do {
       (v, r) \<leftarrow> pval n d s;
       (case eat (CHR '','') r of
          Some r' \<Rightarrow> map_option (\<lambda>(vs, r''). (v # vs, r'')) (pelems n d r')
        | None \<Rightarrow> map_option (\<lambda>r'. ([v], r')) (eat (CHR '']'') r))
     }"
| "pmembers 0 d s = None"
| "pmembers (Suc n) d s =
     do {
       r0 \<leftarrow> eat QUOTE s;
       (k, r1) \<leftarrow> scan_str r0;
       r2 \<leftarrow> eat (CHR '':'') r1;
       (v, r3) \<leftarrow> pval n d r2;
       (case eat (CHR '','') r3 of
          Some r4 \<Rightarrow> map_option (\<lambda>(kvs, r5). ((k, v) # kvs, r5)) (pmembers n d r4)
        | None \<Rightarrow> map_option (\<lambda>r4. ([(k, v)], r4)) (eat (CHR ''}'') r3))
     }"

declare pval.simps [simp del] pelems.simps [simp del] pmembers.simps [simp del]

definition json_parse :: "bytes \<Rightarrow> json option" where
  "json_parse s =
     (case pval (2 * length s + 2) maxNestingDepth s of
        None \<Rightarrow> None
      | Some (v, r) \<Rightarrow> if skip_ws r = [] then Some v else None)"

definition json_Valid :: "bytes \<Rightarrow> bool" where
  "json_Valid s \<longleftrightarrow> json_parse s \<noteq> None"

section \<open>Printing and compaction\<close>

fun pr :: "json \<Rightarrow> bytes"
  and pr_elems :: "json list \<Rightarrow> bytes"
  and pr_members :: "(bytes \<times> json) list \<Rightarrow> bytes"
where
  "pr JNull = ''null''"
| "pr (JBool b) = (if b then ''true'' else ''false'')"
| "pr (JNum l) = l"
| "pr (JStr b) = QUOTE # b @ [QUOTE]"
| "pr (JArr vs) = CHR ''['' # pr_elems vs @ [CHR '']'']"
| "pr (JObj kvs) = CHR ''{'' # pr_members kvs @ [CHR ''}'']"
| "pr_elems [] = []"
| "pr_elems (v # vs) = pr v @ (if vs = [] then [] else CHR '','' # pr_elems vs)"
| "pr_members [] = []"
| "pr_members ((k, v) # kvs) =
     QUOTE # k @ [QUOTE, CHR '':''] @ pr v @ (if kvs = [] then [] else CHR '','' # pr_members kvs)"

text \<open>
  The HTML escapes of \<^verbatim>\<open>appendCompact\<close> inside string bodies: the three characters and the line
  separators U+2028 and U+2029.
\<close>

fun html_esc :: "bytes \<Rightarrow> bytes" where
  "html_esc [] = []"
| "html_esc (c # s) =
     (if c = CHR ''<'' then BSLASH # ''u003c'' @ html_esc s
      else if c = CHR ''>'' then BSLASH # ''u003e'' @ html_esc s
      else if c = CHR ''&'' then BSLASH # ''u0026'' @ html_esc s
      else if HasPrefix (c # s) [CHR 0xE2, CHR 0x80, CHR 0xA8] then BSLASH # ''u2028'' @ html_esc (drop 2 s)
      else if HasPrefix (c # s) [CHR 0xE2, CHR 0x80, CHR 0xA9] then BSLASH # ''u2029'' @ html_esc (drop 2 s)
      else c # html_esc s)"

fun jesc :: "json \<Rightarrow> json" where
  "jesc JNull = JNull"
| "jesc (JBool b) = JBool b"
| "jesc (JNum l) = JNum l"
| "jesc (JStr b) = JStr (html_esc b)"
| "jesc (JArr vs) = JArr (map jesc vs)"
| "jesc (JObj kvs) = JObj (map (\<lambda>(k, v). (html_esc k, jesc v)) kvs)"

text \<open>\<^verbatim>\<open>json.Marshal\<close> of a \<^verbatim>\<open>RawMessage\<close>; \<open>None\<close> is its error.\<close>

definition compact :: "bytes \<Rightarrow> bytes option" where
  "compact s = map_option (\<lambda>v. pr (jesc v)) (json_parse s)"

section \<open>Strings\<close>

fun hex4 :: "bytes \<Rightarrow> nat" where
  "hex4 (a # b # c # d # _) = 4096 * hex_val a + 256 * hex_val b + 16 * hex_val c + hex_val d"
| "hex4 _ = 0"

definition is_surr :: "nat \<Rightarrow> bool" where "is_surr r \<longleftrightarrow> 55296 \<le> r \<and> r \<le> 57343"

text \<open>The rune of the escape \<open>\u....\<close> at the front of \<open>s\<close> and the length it takes: surrogate pairs join.\<close>

definition unicode_escape :: "bytes \<Rightarrow> bytes \<times> nat" where
  "unicode_escape s =
     (let r = hex4 (drop 2 s) in
      if \<not> is_surr r then (encode_rune r, 6)
      else
        let t = drop 6 s; r1 = hex4 (drop 2 t) in
        if elem_len t = 6 \<and> r < 56320 \<and> 56320 \<le> r1 \<and> r1 \<le> 57343
        then (encode_rune (65536 + (r - 55296) * 1024 + (r1 - 56320)), 12)
        else (RuneError, 6))"

definition unescape :: "char \<Rightarrow> char" where
  "unescape c =
     (if c = CHR ''b'' then CHR 0x08 else if c = CHR ''f'' then CHR 0x0C else if c = CHR ''n'' then CHR 0x0A
      else if c = CHR ''r'' then CHR 0x0D else if c = CHR ''t'' then CHR 0x09 else c)"

text \<open>Decoding of a string body; invalid UTF-8 becomes U+FFFD.\<close>

function unquote :: "bytes \<Rightarrow> bytes" where
  "unquote s =
     (if s = [] then []
      else if hd s = BSLASH then
        (if elem_len s = 6 then fst (unicode_escape s) @ unquote (drop (snd (unicode_escape s)) s)
         else unescape (hd (tl s)) # unquote (drop 2 s))
      else if rune_len s = 0 then RuneError @ unquote (tl s)
      else take (rune_len s) s @ unquote (drop (rune_len s) s))"
  by pat_completeness auto
termination
  by (relation "measure length") (auto simp: diff_less unicode_escape_def Let_def)

declare unquote.simps [simp del]

text \<open>The encoding of a Go string as a string body, as \<^verbatim>\<open>appendString\<close> writes it with HTML escapes on.\<close>

definition u00 :: "char \<Rightarrow> bytes" where
  "u00 c = BSLASH # ''u00'' @ [hex_digit (of_char c div 16), hex_digit (of_char c mod 16)]"

definition quote_char :: "char \<Rightarrow> bytes" where
  "quote_char c =
     (if c = QUOTE \<or> c = BSLASH then [BSLASH, c]
      else if c = CHR 0x08 then [BSLASH, CHR ''b''] else if c = CHR 0x0C then [BSLASH, CHR ''f'']
      else if c = CHR 0x0A then [BSLASH, CHR ''n''] else if c = CHR 0x0D then [BSLASH, CHR ''r'']
      else if c = CHR 0x09 then [BSLASH, CHR ''t'']
      else if of_char c < (32 :: nat) \<or> c = CHR ''<'' \<or> c = CHR ''>'' \<or> c = CHR ''&'' then u00 c
      else [c])"

function quote_body :: "bytes \<Rightarrow> bytes" where
  "quote_body s =
     (if s = [] then []
      else if rune_len s = 0 then (BSLASH # ''ufffd'') @ quote_body (tl s)
      else if rune_len s = 1 then quote_char (hd s) @ quote_body (tl s)
      else if take 3 s = [CHR 0xE2, CHR 0x80, CHR 0xA8] then (BSLASH # ''u2028'') @ quote_body (drop 3 s)
      else if take 3 s = [CHR 0xE2, CHR 0x80, CHR 0xA9] then (BSLASH # ''u2029'') @ quote_body (drop 3 s)
      else take (rune_len s) s @ quote_body (drop (rune_len s) s))"
  by pat_completeness auto
termination
  by (relation "measure length") (auto simp: diff_less)

declare quote_body.simps [simp del]

section \<open>Objects and structs\<close>

text \<open>The members of the object at the top of valid bytes: the raw bytes of each key body and value.\<close>

fun pfields :: "nat \<Rightarrow> nat \<Rightarrow> bytes \<Rightarrow> ((bytes \<times> bytes) list \<times> bytes) option" where
  "pfields 0 d s = None"
| "pfields (Suc n) d s =
     do {
       r0 \<leftarrow> eat QUOTE s;
       (k, r1) \<leftarrow> scan_str r0;
       r2 \<leftarrow> eat (CHR '':'') r1;
       (v, r3) \<leftarrow> pval n d r2;
       let raw = take (length (skip_ws r2) - length r3) (skip_ws r2);
       (case eat (CHR '','') r3 of
          Some r4 \<Rightarrow> map_option (\<lambda>(kvs, r5). ((k, raw) # kvs, r5)) (pfields n d r4)
        | None \<Rightarrow> map_option (\<lambda>r4. ([(k, raw)], r4)) (eat (CHR ''}'') r3))
     }"

declare pfields.simps [simp del]

text \<open>
  What \<^verbatim>\<open>json.Unmarshal\<close> into a struct sees of its input: \<open>None\<close> where it reports an error before any
  field is looked at (invalid JSON, or a value that is neither an object nor \<open>null\<close>).
\<close>

definition json_fields :: "bytes \<Rightarrow> (bytes \<times> bytes) list option" where
  "json_fields s =
     (case json_parse s of
        Some JNull \<Rightarrow> Some []
      | Some (JObj []) \<Rightarrow> Some []
      | Some (JObj _) \<Rightarrow>
          do { r \<leftarrow> eat (CHR ''{'') s; (kvs, _) \<leftarrow> pfields (2 * length s + 2) (maxNestingDepth - 1) r;
               Some (map (\<lambda>(k, v). (unquote k, v)) kvs) }
      | _ \<Rightarrow> None)"

text \<open>
  Field names match exactly or after \<^verbatim>\<open>foldName\<close>; for the ASCII field names of the agent's structs the
  only non-ASCII letters that fold into them are U+017F (s) and U+212A (k).
\<close>

function fold_name :: "bytes \<Rightarrow> bytes" where
  "fold_name s =
     (if s = [] then []
      else if take 2 s = [CHR 0xC5, CHR 0xBF] then CHR ''S'' # fold_name (drop 2 s)
      else if take 3 s = [CHR 0xE2, CHR 0x84, CHR 0xAA] then CHR ''K'' # fold_name (drop 3 s)
      else (if 97 \<le> (of_char (hd s) :: nat) \<and> of_char (hd s) \<le> (122 :: nat) then char_of (of_char (hd s) - (32 :: nat))
            else hd s) # fold_name (tl s))"
  by pat_completeness auto
termination
  by (relation "measure length") (auto simp: diff_less)

declare fold_name.simps [simp del]

definition match_field :: "bytes list \<Rightarrow> bytes \<Rightarrow> bytes option" where
  "match_field fs k =
     (if k \<in> set fs then Some k else find (\<lambda>f. fold_name f = fold_name k) fs)"

text \<open>
  \<open>set_fields fs upd kvs r\<close> assigns the members in order; \<open>upd\<close> decodes one value into a field, and
  \<open>None\<close> is a type error, which fails the whole call.
\<close>

fun set_fields :: "bytes list \<Rightarrow> (bytes \<Rightarrow> bytes \<Rightarrow> 'r \<Rightarrow> 'r option) \<Rightarrow> (bytes \<times> bytes) list \<Rightarrow> 'r \<Rightarrow> 'r option" where
  "set_fields fs upd [] r = Some r"
| "set_fields fs upd ((k, v) # kvs) r =
     (case match_field fs k of
        None \<Rightarrow> set_fields fs upd kvs r
      | Some f \<Rightarrow> (case upd f v r of None \<Rightarrow> None | Some r' \<Rightarrow> set_fields fs upd kvs r'))"

definition get_u64 :: "bytes \<Rightarrow> u64 \<Rightarrow> u64 option" where
  "get_u64 raw old =
     (case json_parse raw of Some JNull \<Rightarrow> Some old | Some (JNum l) \<Rightarrow> ParseUint l | _ \<Rightarrow> None)"

definition get_int :: "bytes \<Rightarrow> int \<Rightarrow> int option" where
  "get_int raw old =
     (case json_parse raw of Some JNull \<Rightarrow> Some old | Some (JNum l) \<Rightarrow> ParseInt l | _ \<Rightarrow> None)"

definition get_string :: "bytes \<Rightarrow> bytes \<Rightarrow> bytes option" where
  "get_string raw old =
     (case json_parse raw of Some JNull \<Rightarrow> Some old | Some (JStr b) \<Rightarrow> Some (unquote b) | _ \<Rightarrow> None)"

definition get_bool :: "bytes \<Rightarrow> bool \<Rightarrow> bool option" where
  "get_bool raw old =
     (case json_parse raw of Some JNull \<Rightarrow> Some old | Some (JBool b) \<Rightarrow> Some b | _ \<Rightarrow> None)"

end
