(* ===== verification/JsonFacts.thy ===== *)
theory JsonFacts
  imports Json
begin

text \<open>
  Facts about the model of \<^verbatim>\<open>encoding/json\<close>: the parser accepts exactly what it printed, its fuel is
  enough, the HTML escapes are idempotent, and the members of a printed object are read back.
\<close>

section \<open>String bodies\<close>

definition plain :: "char \<Rightarrow> bool" where
  "plain c \<longleftrightarrow> c \<noteq> QUOTE \<and> c \<noteq> BSLASH \<and> 32 \<le> (of_char c :: nat)"

definition esc_chars :: "char list" where
  "esc_chars = [QUOTE, BSLASH, CHR ''/'', CHR ''b'', CHR ''f'', CHR ''n'', CHR ''r'', CHR ''t'']"

inductive elem :: "bytes \<Rightarrow> bool" where
  elem_plain: "plain c \<Longrightarrow> elem [c]"
| elem_esc: "x \<in> set esc_chars \<Longrightarrow> elem [BSLASH, x]"
| elem_u: "list_all is_hex [a, b, c, d] \<Longrightarrow> elem [BSLASH, CHR ''u'', a, b, c, d]"

lemma u_not_esc: "CHR ''u'' \<notin> set esc_chars"
  by (simp add: esc_chars_def char_consts)

lemma plain_not_special: "plain c \<Longrightarrow> c \<noteq> QUOTE \<and> \<not> of_char c < (32 :: nat) \<and> c \<noteq> BSLASH"
  by (simp add: plain_def)

lemma BSLASH_visible: "\<not> of_char BSLASH < (32 :: nat)" "BSLASH \<noteq> QUOTE"
  by (simp_all add: char_consts)

lemma elem_len_elem: "elem e \<Longrightarrow> elem_len (e @ s) = length e"
proof (cases rule: elem.cases, assumption)
  fix c assume "e = [c]" "plain c"
  then show ?thesis by (auto simp: elem_len_def dest: plain_not_special)
next
  fix x assume "e = [BSLASH, x]" "x \<in> set esc_chars"
  then show ?thesis using BSLASH_visible by (auto simp: elem_len_def esc_chars_def)
next
  fix a b c d assume "e = [BSLASH, CHR ''u'', a, b, c, d]" "list_all is_hex [a, b, c, d]"
  then show ?thesis using BSLASH_visible u_not_esc by (auto simp: elem_len_def esc_chars_def numeral_eq_Suc)
qed

lemma list_len_4: "4 \<le> length xs \<Longrightarrow> \<exists>a b c d r. xs = a # b # c # d # r"
  by (cases xs rule: list.exhaust; cases "tl xs"; cases "tl (tl xs)"; cases "tl (tl (tl xs))") auto

lemma elem_take: "0 < elem_len s \<Longrightarrow> elem (take (elem_len s) s)"
proof -
  assume pos: "0 < elem_len s"
  then obtain c r where s: "s = c # r" by (cases s) auto
  show ?thesis
  proof (cases "c = BSLASH")
    case False
    with pos s have "elem_len s = 1" "plain c" by (auto simp: elem_len_def plain_def split: if_splits)
    with s show ?thesis by (simp add: elem_plain)
  next
    case bs: True
    with pos s obtain x t where r: "r = x # t" by (cases r) (auto simp: elem_len_def split: if_splits)
    show ?thesis
    proof (cases "x \<in> set esc_chars")
      case True
      then have "elem_len s = 2" using bs r s BSLASH_visible by (simp add: elem_len_def esc_chars_def)
      with True bs r s show ?thesis by (simp add: elem_esc)
    next
      case False
      with pos bs r s have *: "elem_len s = 6" "x = CHR ''u''" "5 \<le> length r" "list_all is_hex (take 4 t)"
        by (auto simp: elem_len_def esc_chars_def split: if_splits)
      obtain a b c' d r' where "t = a # b # c' # d # r'" using list_len_4[of t] * r by auto
      with * bs r s show ?thesis by (simp add: elem_u)
    qed
  qed
qed

inductive body :: "bytes \<Rightarrow> bool" where
  body_Nil: "body []"
| body_elem: "elem e \<Longrightarrow> body b \<Longrightarrow> body (e @ b)"

lemma elem_nonempty: "elem e \<Longrightarrow> \<exists>c r. e = c # r \<and> c \<noteq> QUOTE"
  by (cases rule: elem.cases, assumption) (auto simp: plain_def BSLASH_visible)

lemma scan_str_quote: "scan_str (QUOTE # r) = Some ([], r)"
  by (subst scan_str.simps) simp

lemma scan_str_elem:
  assumes "elem e" shows "scan_str (e @ s) = map_option (\<lambda>(b, r). (e @ b, r)) (scan_str s)"
proof -
  have "elem_len (e @ s) = length e" using elem_len_elem[OF assms] .
  then show ?thesis
    using elem_nonempty[OF assms] by (subst scan_str.simps) auto
qed

lemma scan_str_body: "body b \<Longrightarrow> scan_str (b @ QUOTE # r) = Some (b, r)"
  by (induction b rule: body.induct) (simp_all add: scan_str_quote scan_str_elem)

lemma scan_str_sound: "scan_str s = Some (b, r) \<Longrightarrow> s = b @ QUOTE # r \<and> body b"
proof (induction s arbitrary: b rule: scan_str.induct)
  case (1 s)
  note eq = 1(2)[unfolded scan_str.simps[of s]]
  consider "s = []" | "s \<noteq> []" "hd s = QUOTE" | "s \<noteq> []" "hd s \<noteq> QUOTE" "elem_len s = 0"
    | "s \<noteq> []" "hd s \<noteq> QUOTE" "0 < elem_len s" by auto
  then show ?case
  proof cases
    case 2
    with eq show ?thesis by (cases s) (auto intro: body_Nil)
  next
    case 4
    with eq obtain b' where b': "scan_str (drop (elem_len s) s) = Some (b', r)" "b = take (elem_len s) s @ b'"
      by auto
    from 1(1)[OF 4(1,2) _ b'(1)] 4(3) have ih: "drop (elem_len s) s = b' @ QUOTE # r" "body b'" by auto
    have "s = take (elem_len s) s @ drop (elem_len s) s" by simp
    with ih(1) b'(2) have "s = b @ QUOTE # r" by simp
    moreover have "body b" unfolding b'(2) by (rule body_elem[OF elem_take[OF 4(3)] ih(2)])
    ultimately show ?thesis by simp
  qed (use eq in auto)
qed

lemma body_ok_iff: "body_ok b \<longleftrightarrow> body b"
  using scan_str_body[of b "[]"] scan_str_sound[of "b @ [QUOTE]" b "[]"] by (auto simp: body_ok_def)

lemma body_plain: "list_all plain b \<Longrightarrow> body b"
proof (induction b)
  case (Cons c b)
  then show ?case using body_elem[OF elem_plain[of c], of b] by simp
qed (simp add: body_Nil)

lemma body_append: "body a \<Longrightarrow> body b \<Longrightarrow> body (a @ b)"
  by (induction a rule: body.induct) (simp_all add: body_elem)

lemma body_plain_tail: "body (c # b) \<Longrightarrow> c \<noteq> BSLASH \<Longrightarrow> body b"
  by (erule body.cases) (auto elim!: elem.cases)

lemma is_hex_plain: "is_hex c \<Longrightarrow> plain c"
  by (auto simp: is_hex_def plain_def char_consts is_digit_def)

section \<open>HTML escapes\<close>

lemma html_esc_u: "BSLASH # ''u003c'' = [BSLASH, CHR ''u'', CHR ''0'', CHR ''0'', CHR ''3'', CHR ''c'']"
  by simp

lemma elem_html [simp]:
  "elem (BSLASH # ''u003c'')" "elem (BSLASH # ''u003e'')" "elem (BSLASH # ''u0026'')"
  "elem (BSLASH # ''u2028'')" "elem (BSLASH # ''u2029'')"
  by (auto intro!: elem_u simp: is_hex_def is_digit_def)

definition html_char :: "char \<Rightarrow> bool" where
  "html_char c \<longleftrightarrow> c = CHR ''<'' \<or> c = CHR ''>'' \<or> c = CHR ''&'' \<or> c = CHR 0xE2"

lemma html_esc_other: "\<not> html_char c \<Longrightarrow> html_esc (c # s) = c # html_esc s"
  by (auto simp: html_char_def)

lemma html_esc_others: "list_all (\<lambda>c. \<not> html_char c) e \<Longrightarrow> html_esc (e @ s) = e @ html_esc s"
  by (induction e) (auto simp: html_esc_other simp del: html_esc.simps)

lemma is_hex_not_html: "is_hex c \<Longrightarrow> \<not> html_char c"
  by (auto simp: is_hex_def html_char_def is_digit_def)

lemma html_esc_head:
  "html_esc s = x # t \<Longrightarrow> x \<noteq> BSLASH \<Longrightarrow> \<exists>s'. s = x # s' \<and> t = html_esc s'"
  by (induction s rule: html_esc.induct) (auto split: if_splits)

lemma html_esc_idem: "html_esc (html_esc s) = html_esc s"
proof (induction s rule: html_esc.induct)
  case (2 c s)
  have bs: "html_esc (BSLASH # h @ t) = BSLASH # h @ html_esc t" if "list_all (\<lambda>c. \<not> html_char c) h" for h t
    using html_esc_others[of "BSLASH # h" t] that by (simp add: html_char_def char_consts)
  have nh: "list_all (\<lambda>c. \<not> html_char c) ''u003c''" "list_all (\<lambda>c. \<not> html_char c) ''u003e''"
    "list_all (\<lambda>c. \<not> html_char c) ''u0026''" "list_all (\<lambda>c. \<not> html_char c) ''u2028''"
    "list_all (\<lambda>c. \<not> html_char c) ''u2029''"
    by (simp_all add: html_char_def)
  have keep: "\<not> HasPrefix (c # html_esc s) [CHR 0xE2, CHR 0x80, x]"
    if "\<not> HasPrefix (c # s) [CHR 0xE2, CHR 0x80, x]" "x \<noteq> BSLASH" for x
  proof
    assume "HasPrefix (c # html_esc s) [CHR 0xE2, CHR 0x80, x]"
    then obtain t where "c = CHR 0xE2" "html_esc s = CHR 0x80 # x # t" by (auto simp: HasPrefix_iff)
    with html_esc_head[of s "CHR 0x80" "x # t"] obtain s' where s': "s = CHR 0x80 # s'" "x # t = html_esc s'"
      by (auto simp: BSLASH_def)
    with html_esc_head[of s' x t] that(2) obtain s'' where "s' = x # s''" by auto
    with s' \<open>c = CHR 0xE2\<close> that(1) show False by simp
  qed
  show ?case
  proof (cases "c = CHR ''<'' \<or> c = CHR ''>'' \<or> c = CHR ''&'' \<or> HasPrefix (c # s) [CHR 0xE2, CHR 0x80, CHR 0xA8]
      \<or> HasPrefix (c # s) [CHR 0xE2, CHR 0x80, CHR 0xA9]")
    case True
    then show ?thesis using 2 bs[OF nh(1)] bs[OF nh(2)] bs[OF nh(3)] bs[OF nh(4)] bs[OF nh(5)]
      by (auto simp del: HasPrefix.simps)
  next
    case False
    then have e: "html_esc (c # s) = c # html_esc s" by (simp del: HasPrefix.simps)
    have "html_esc (c # html_esc s) = c # html_esc (html_esc s)"
      using False keep[of "CHR 0xA8"] keep[of "CHR 0xA9"] by (simp del: HasPrefix.simps add: BSLASH_def)
    with e 2(6) False show ?thesis by (simp del: HasPrefix.simps html_esc.simps)
  qed
qed simp

lemma elem_head_html: "elem e \<Longrightarrow> \<not> html_char (hd e) \<Longrightarrow> list_all (\<lambda>c. \<not> html_char c) e"
  by (erule elem.cases)
    (auto simp: is_hex_not_html, auto simp: esc_chars_def html_char_def char_consts)

lemma elem_head_plain: "elem e \<Longrightarrow> html_char (hd e) \<Longrightarrow> e = [hd e]"
  by (cases rule: elem.cases, assumption) (auto simp: html_char_def char_consts)

lemma elem_last_byte: "elem [CHR 0xE2]" "elem [CHR 0x80]"
  by (auto intro!: elem_plain simp: plain_def char_consts)

lemma body_html: "body b \<Longrightarrow> body (html_esc b)"
proof (induction "length b" arbitrary: b rule: less_induct)
  case less
  show ?case
  proof (cases rule: body.cases[OF less(2)])
    case 1
    then show ?thesis by (simp add: body_Nil)
  next
    case (2 e b')
    have shorter: "length b' < length b" using 2 elem_nonempty[of e] by auto
    then have ih: "body (html_esc b')" using less(1) 2(3) by blast
    show ?thesis
    proof (cases "html_char (hd e)")
      case False
      then have "html_esc b = e @ html_esc b'" using html_esc_others elem_head_html 2(1,2) by simp
      then show ?thesis using body_elem[OF 2(2) ih] by simp
    next
      case True
      then have e: "b = hd e # b'" "elem [hd e]" using elem_head_plain[OF 2(2)] 2(1,2) by auto
      have ih2: "body (html_esc (drop 2 b'))" if "take 2 b' = [CHR 0x80, x]" "x \<noteq> BSLASH" for x
      proof -
        have "b' = take 2 b' @ drop 2 b'" by simp
        then have "b' = CHR 0x80 # x # drop 2 b'" unfolding that(1) by simp
        then obtain t where t: "b' = CHR 0x80 # x # t" by blast
        have "body (x # t)" using body_plain_tail[of "CHR 0x80"] 2(3) t by (simp add: BSLASH_def)
        then have "body t" using body_plain_tail that(2) by blast
        then show ?thesis using less(1)[of t] t shorter by simp
      qed
      have pre: "take 2 b' = [CHR 0x80, x] \<and> hd e = CHR 0xE2" if "HasPrefix (hd e # b') [CHR 0xE2, CHR 0x80, x]" for x
        using that by (auto simp: HasPrefix_iff)
      have E: "html_esc (hd e # b') = (if hd e = CHR ''<'' then (BSLASH # ''u003c'') @ html_esc b'
        else if hd e = CHR ''>'' then (BSLASH # ''u003e'') @ html_esc b'
        else if hd e = CHR ''&'' then (BSLASH # ''u0026'') @ html_esc b'
        else if HasPrefix (hd e # b') [CHR 0xE2, CHR 0x80, CHR 0xA8] then (BSLASH # ''u2028'') @ html_esc (drop 2 b')
        else if HasPrefix (hd e # b') [CHR 0xE2, CHR 0x80, CHR 0xA9] then (BSLASH # ''u2029'') @ html_esc (drop 2 b')
        else [hd e] @ html_esc b')"
        by (simp del: HasPrefix.simps)
      have nb: "CHR 0xA8 \<noteq> BSLASH" "CHR 0xA9 \<noteq> BSLASH" by (simp_all add: BSLASH_def)
      show ?thesis unfolding e(1) E
        using ih e(2) ih2[OF pre[THEN conjunct1] nb(1)] ih2[OF pre[THEN conjunct1] nb(2)]
        by (auto simp del: append.simps HasPrefix.simps intro: body_elem[OF elem_html(1)] body_elem[OF elem_html(2)]
          body_elem[OF elem_html(3)] body_elem[OF elem_html(4)] body_elem[OF elem_html(5)] body_elem)
    qed
  qed
qed

section \<open>Numbers\<close>

definition num_stop :: "bytes \<Rightarrow> bool" where
  "num_stop r \<longleftrightarrow> r = [] \<or> \<not> (is_digit (hd r) \<or> hd r = CHR ''.'' \<or> hd r = CHR ''e'' \<or> hd r = CHR ''E'')"

lemma takeWhile_stop: "list_all P xs \<Longrightarrow> r = [] \<or> \<not> P (hd r) \<Longrightarrow> takeWhile P (xs @ r) = xs \<and> dropWhile P (xs @ r) = r"
  by (induction xs) (cases r; auto)+

lemma list_all_takeWhile: "list_all P (takeWhile P xs)"
  by (induction xs) auto

lemma dropWhile_hd: "dropWhile P xs = [] \<or> \<not> P (hd (dropWhile P xs))"
  by (induction xs) auto

lemma scan_int_sound:
  "scan_int s = Some (i, r) \<Longrightarrow> s = i @ r \<and>
     (i = ''0'' \<or> (i \<noteq> [] \<and> list_all is_digit i \<and> hd i \<noteq> CHR ''0'' \<and> (r = [] \<or> \<not> is_digit (hd r))))"
  using dropWhile_hd[of is_digit s] list_all_takeWhile[of is_digit s]
  by (auto simp: scan_int_def split: list.splits if_splits)

lemma scan_int_complete:
  assumes "i = ''0'' \<or> (i \<noteq> [] \<and> list_all is_digit i \<and> hd i \<noteq> CHR ''0'' \<and> (r = [] \<or> \<not> is_digit (hd r)))"
  shows "scan_int (i @ r) = Some (i, r)"
proof (cases "i = ''0''")
  case False
  then obtain c t where "i = c # t" "list_all is_digit i" "c \<noteq> CHR ''0''" "r = [] \<or> \<not> is_digit (hd r)"
    using assms by (cases i) auto
  then show ?thesis using takeWhile_stop[of is_digit i r] by (simp add: scan_int_def)
qed (simp add: scan_int_def)

definition frac_ok :: "bytes \<Rightarrow> bytes \<Rightarrow> bool" where
  "frac_ok f r \<longleftrightarrow> (f = [] \<and> (r = [] \<or> hd r \<noteq> CHR ''.'')) \<or>
     (\<exists>t. f = CHR ''.'' # t \<and> t \<noteq> [] \<and> list_all is_digit t \<and> (r = [] \<or> \<not> is_digit (hd r)))"

lemma scan_frac_sound: "scan_frac s = Some (f, r) \<Longrightarrow> s = f @ r \<and> frac_ok f r"
  using dropWhile_hd[of is_digit "tl s"] list_all_takeWhile[of is_digit "tl s"]
  by (auto simp: scan_frac_def frac_ok_def split: list.splits if_splits)

lemma scan_frac_complete: "frac_ok f r \<Longrightarrow> scan_frac (f @ r) = Some (f, r)"
proof (cases "f = []")
  case False
  assume "frac_ok f r"
  with False obtain t where "f = CHR ''.'' # t" "t \<noteq> []" "list_all is_digit t" "r = [] \<or> \<not> is_digit (hd r)"
    by (auto simp: frac_ok_def)
  with takeWhile_stop[of is_digit t r] show ?thesis by (simp add: scan_frac_def)
qed (auto simp: scan_frac_def frac_ok_def split: list.splits)

definition exp_ok :: "bytes \<Rightarrow> bytes \<Rightarrow> bool" where
  "exp_ok f r \<longleftrightarrow> (f = [] \<and> (r = [] \<or> (hd r \<noteq> CHR ''e'' \<and> hd r \<noteq> CHR ''E''))) \<or>
     (\<exists>c sg t. f = c # sg @ t \<and> (c = CHR ''e'' \<or> c = CHR ''E'') \<and> (sg = [] \<or> sg = ''+'' \<or> sg = ''-'') \<and>
        t \<noteq> [] \<and> list_all is_digit t \<and> (r = [] \<or> \<not> is_digit (hd r)))"

lemma scan_exp_sound: "scan_exp s = Some (f, r) \<Longrightarrow> s = f @ r \<and> exp_ok f r"
proof -
  assume eq: "scan_exp s = Some (f, r)"
  show ?thesis
  proof (cases "s = [] \<or> (hd s \<noteq> CHR ''e'' \<and> hd s \<noteq> CHR ''E'')")
    case True
    with eq show ?thesis by (cases s) (auto simp: scan_exp_def exp_ok_def)
  next
    case False
    then obtain c s' where s: "s = c # s'" "c = CHR ''e'' \<or> c = CHR ''E''" by (cases s) auto
    define sg where "sg = (if s' \<noteq> [] \<and> (hd s' = CHR ''+'' \<or> hd s' = CHR ''-'') then [hd s'] else [])"
    define ds where "ds = drop (length sg) s'"
    have sg: "sg = [] \<or> sg = ''+'' \<or> sg = ''-''" "s' = sg @ ds"
      by (cases s', auto simp: sg_def ds_def)+
    have "takeWhile is_digit ds \<noteq> []" "f = c # sg @ takeWhile is_digit ds" "r = dropWhile is_digit ds"
      using eq s by (auto simp: scan_exp_def Let_def sg_def[symmetric] ds_def[symmetric] split: if_splits)
    then show ?thesis using s sg dropWhile_hd[of is_digit ds] list_all_takeWhile[of is_digit ds]
      unfolding exp_ok_def by auto
  qed
qed

lemma sign_not_digit: "\<not> is_digit (CHR ''+'')" "\<not> is_digit (CHR ''-'')"
  by (simp_all add: is_digit_def)

lemma scan_exp_complete:
  assumes "exp_ok f r" shows "scan_exp (f @ r) = Some (f, r)"
proof (cases "f = []")
  case True
  with assms show ?thesis by (auto simp: exp_ok_def scan_exp_def split: list.splits)
next
  case False
  with assms obtain c sg t where f: "f = c # sg @ t" "c = CHR ''e'' \<or> c = CHR ''E''"
    "sg = [] \<or> sg = ''+'' \<or> sg = ''-''" "t \<noteq> []" "list_all is_digit t" "r = [] \<or> \<not> is_digit (hd r)"
    by (auto simp: exp_ok_def)
  obtain d t' where t: "t = d # t'" "is_digit d" using f by (cases t) auto
  have tw: "takeWhile is_digit (t @ r) = t" "dropWhile is_digit (t @ r) = r" using takeWhile_stop[OF f(5,6)] by auto
  show ?thesis using f(2,3) tw t sign_not_digit unfolding f(1) by (auto simp: scan_exp_def Let_def)
qed

lemma frac_exp_stop:
  assumes "frac_ok f x" "exp_ok e y" "r = [] \<or> \<not> is_digit (hd r)"
  shows "f @ e @ r = [] \<or> \<not> is_digit (hd (f @ e @ r))"
proof (cases "f = []")
  case True
  show ?thesis
  proof (cases "e = []")
    case False
    with assms(2) have "hd e = CHR ''e'' \<or> hd e = CHR ''E''" by (auto simp: exp_ok_def)
    with True False show ?thesis by (auto simp: is_digit_def)
  qed (use True assms(3) in simp)
next
  case False
  with assms(1) have "hd f = CHR ''.''" by (auto simp: frac_ok_def)
  with False show ?thesis by (simp add: is_digit_def)
qed

lemma frac_ok_stop: "frac_ok f x \<Longrightarrow> exp_ok e y \<Longrightarrow> num_stop r \<Longrightarrow> frac_ok f (e @ r)"
  by (cases "e = []"; cases "f = []") (auto simp: frac_ok_def exp_ok_def num_stop_def is_digit_def)

lemma exp_ok_stop: "exp_ok e y \<Longrightarrow> num_stop r \<Longrightarrow> exp_ok e r"
  by (cases "e = []") (auto simp: exp_ok_def num_stop_def)

lemma scan_num_sound: "scan_num s = Some (l, r) \<Longrightarrow> s = l @ r \<and> num_ok l \<and> l \<noteq> []"
proof -
  define sg where "sg = (if s \<noteq> [] \<and> hd s = CHR ''-'' then [hd s] else [])"
  assume eq: "scan_num s = Some (l, r)"
  then obtain i r1 f r2 e where p: "scan_int (drop (length sg) s) = Some (i, r1)" "scan_frac r1 = Some (f, r2)"
    "scan_exp r2 = Some (e, r)" "l = sg @ i @ f @ e"
    by (auto simp: scan_num_def Let_def sg_def[symmetric] bind_eq_Some_conv)
  note q = scan_int_sound[OF p(1)] scan_frac_sound[OF p(2)] scan_exp_sound[OF p(3)]
  have s: "s = sg @ drop (length sg) s" by (cases s) (auto simp: sg_def)
  with q p(4) have sl: "s = l @ r" by simp
  have stop: "num_stop []" by (simp add: num_stop_def)
  have ee: "exp_ok e []" and fe: "frac_ok f e"
    using exp_ok_stop[OF q(3)[THEN conjunct2] stop] frac_ok_stop[OF q(2)[THEN conjunct2] q(3)[THEN conjunct2] stop]
    by auto
  have ie: "scan_int (i @ f @ e) = Some (i, f @ e)"
    using q(1) frac_exp_stop[OF fe ee, of "[]"] by (intro scan_int_complete) auto
  have i: "i \<noteq> []" "hd i \<noteq> CHR ''-''" using q(1) sign_not_digit by (cases i; auto)+
  have sg': "sg = [] \<or> sg = ''-''" by (auto simp: sg_def)
  have "scan_num (sg @ i @ f @ e) = Some (sg @ i @ f @ e, [])"
    using sg' ie scan_frac_complete[OF fe] scan_exp_complete[OF ee] i
    by (auto simp: scan_num_def Let_def)
  then show ?thesis using sl p(4) i by (simp add: num_ok_def)
qed

lemma scan_num_stop:
  assumes ok: "num_ok l" and st: "num_stop r" shows "scan_num (l @ r) = Some (l, r)"
proof -
  define sg where "sg = (if l \<noteq> [] \<and> hd l = CHR ''-'' then [hd l] else [])"
  obtain i r1 f r2 e where p: "scan_int (drop (length sg) l) = Some (i, r1)" "scan_frac r1 = Some (f, r2)"
    "scan_exp r2 = Some (e, [])" "l = sg @ i @ f @ e"
    using ok by (auto simp: num_ok_def scan_num_def Let_def sg_def[symmetric] bind_eq_Some_conv)
  note q = scan_int_sound[OF p(1)] scan_frac_sound[OF p(2)] scan_exp_sound[OF p(3)]
  have e: "exp_ok e r" "frac_ok f (e @ r)"
    using exp_ok_stop[OF q(3)[THEN conjunct2] st] frac_ok_stop[OF q(2)[THEN conjunct2] q(3)[THEN conjunct2] st]
    by auto
  have "r = [] \<or> \<not> is_digit (hd r)" using st by (auto simp: num_stop_def)
  then have ie: "scan_int (i @ f @ e @ r) = Some (i, f @ e @ r)"
    using q(1) frac_exp_stop[OF e(2,1)] by (intro scan_int_complete) auto
  have i: "i \<noteq> []" "hd i \<noteq> CHR ''-''" using q(1) sign_not_digit by (cases i; auto)+
  have sg': "sg = [] \<or> sg = ''-''" by (auto simp: sg_def)
  show ?thesis unfolding p(4)
    using sg' ie scan_frac_complete[OF e(2)] scan_exp_complete[OF e(1)] i
    by (auto simp: scan_num_def Let_def)
qed

section \<open>The parser\<close>

fun json_wf :: "nat \<Rightarrow> json \<Rightarrow> bool" where
  "json_wf d JNull = True"
| "json_wf d (JBool b) = True"
| "json_wf d (JNum l) = (num_ok l \<and> l \<noteq> [])"
| "json_wf d (JStr b) = body b"
| "json_wf d (JArr vs) = (0 < d \<and> (\<forall>v \<in> set vs. json_wf (d - 1) v))"
| "json_wf d (JObj kvs) = (0 < d \<and> (\<forall>kv \<in> set kvs. body (fst kv) \<and> json_wf (d - 1) (snd kv)))"

lemma skip_ws_length: "length (skip_ws s) \<le> length s"
  by (simp add: skip_ws_def length_dropWhile_le)

lemma eat_length: "eat c s = Some r \<Longrightarrow> length r < length s"
  using skip_ws_length[of s] by (auto simp: eat_def split: list.splits if_splits)

lemma scan_str_length: "scan_str s = Some (b, r) \<Longrightarrow> length r < length s"
  by (drule scan_str_sound) simp

lemma scan_num_length: "scan_num s = Some (l, r) \<Longrightarrow> length r < length s"
  by (drule scan_num_sound) simp

definition ok_val :: "nat \<Rightarrow> bytes \<Rightarrow> json \<Rightarrow> bytes \<Rightarrow> bool" where
  "ok_val d s v r \<longleftrightarrow> json_wf d v \<and> length r < length s \<and>
     (\<forall>m. 2 * (length s - length r) \<le> m \<longrightarrow> pval m d s = Some (v, r))"

definition ok_elems :: "nat \<Rightarrow> bytes \<Rightarrow> json list \<Rightarrow> bytes \<Rightarrow> bool" where
  "ok_elems d s vs r \<longleftrightarrow> (\<forall>v \<in> set vs. json_wf d v) \<and> vs \<noteq> [] \<and> length r < length s \<and>
     (\<forall>m. 2 * (length s - length r) \<le> m \<longrightarrow> pelems m d s = Some (vs, r))"

definition ok_members :: "nat \<Rightarrow> bytes \<Rightarrow> (bytes \<times> json) list \<Rightarrow> bytes \<Rightarrow> bool" where
  "ok_members d s kvs r \<longleftrightarrow> (\<forall>kv \<in> set kvs. body (fst kv) \<and> json_wf d (snd kv)) \<and> kvs \<noteq> [] \<and> length r < length s \<and>
     (\<forall>m. 2 * (length s - length r) \<le> m \<longrightarrow> pmembers m d s = Some (kvs, r))"

lemma ok_elems_step:
  assumes v: "ok_val d s v r1" and r: "if eat (CHR '','') r1 = None then vs = [] \<and> eat (CHR '']'') r1 = Some r
    else \<exists>r2. eat (CHR '','') r1 = Some r2 \<and> ok_elems d r2 vs r"
  shows "ok_elems d s (v # vs) r"
proof (cases "eat (CHR '','') r1")
  case None
  with r have e: "vs = []" "eat (CHR '']'') r1 = Some r" by auto
  show ?thesis unfolding ok_elems_def
  proof (intro conjI allI impI)
    fix m assume "2 * (length s - length r) \<le> m"
    then obtain m' where m': "m = Suc m'" "2 * (length s - length r1) \<le> m'"
      using v eat_length[OF e(2)] by (cases m) (auto simp: ok_val_def)
    then have "pval m' d s = Some (v, r1)" using v by (simp add: ok_val_def)
    then show "pelems m d s = Some (v # vs, r)" using e None by (simp add: m' pelems.simps)
  qed (use v eat_length[OF e(2)] e(1) in \<open>auto simp: ok_val_def\<close>)
next
  case (Some r2)
  with r have e: "ok_elems d r2 vs r" by auto
  note len = eat_length[OF Some]
  show ?thesis unfolding ok_elems_def
  proof (intro conjI allI impI)
    fix m assume m: "2 * (length s - length r) \<le> m"
    then obtain m' where m': "m = Suc m'" "2 * (length s - length r1) \<le> m'" "2 * (length r2 - length r) \<le> m'"
      using v e len by (cases m) (auto simp: ok_val_def ok_elems_def)
    then have "pval m' d s = Some (v, r1)" "pelems m' d r2 = Some (vs, r)" using v e by (simp_all add: ok_val_def ok_elems_def)
    then show "pelems m d s = Some (v # vs, r)" using Some by (simp add: m' pelems.simps)
  qed (use v len e in \<open>auto simp: ok_val_def ok_elems_def\<close>)
qed

lemma ok_members_step:
  assumes k: "eat QUOTE s = Some s0" "scan_str s0 = Some (k, s1)" "eat (CHR '':'') s1 = Some s2"
    and v: "ok_val d s2 v r1" and r: "if eat (CHR '','') r1 = None then kvs = [] \<and> eat (CHR ''}'') r1 = Some r
    else \<exists>r2. eat (CHR '','') r1 = Some r2 \<and> ok_members d r2 kvs r"
  shows "ok_members d s ((k, v) # kvs) r"
proof -
  note kl = eat_length[OF k(1)] scan_str_length[OF k(2)] eat_length[OF k(3)] scan_str_sound[OF k(2)]
  show ?thesis
  proof (cases "eat (CHR '','') r1")
    case None
    with r have e: "kvs = []" "eat (CHR ''}'') r1 = Some r" by auto
    show ?thesis unfolding ok_members_def
    proof (intro conjI allI impI)
      fix m assume "2 * (length s - length r) \<le> m"
      then obtain m' where m': "m = Suc m'" "2 * (length s2 - length r1) \<le> m'"
        using v kl eat_length[OF e(2)] by (cases m) (auto simp: ok_val_def)
      then have "pval m' d s2 = Some (v, r1)" using v by (simp add: ok_val_def)
      then show "pmembers m d s = Some ((k, v) # kvs, r)" using e k None by (simp add: m' pmembers.simps)
    qed (use v kl eat_length[OF e(2)] e(1) in \<open>auto simp: ok_val_def\<close>)
  next
    case (Some r2)
    with r have e: "ok_members d r2 kvs r" by auto
    note len = eat_length[OF Some]
    show ?thesis unfolding ok_members_def
    proof (intro conjI allI impI)
      fix m assume m: "2 * (length s - length r) \<le> m"
      then obtain m' where m': "m = Suc m'" "2 * (length s2 - length r1) \<le> m'" "2 * (length r2 - length r) \<le> m'"
        using v e len kl by (cases m) (auto simp: ok_val_def ok_members_def)
      then have "pval m' d s2 = Some (v, r1)" "pmembers m' d r2 = Some (kvs, r)"
        using v e by (simp_all add: ok_val_def ok_members_def)
      then show "pmembers m d s = Some ((k, v) # kvs, r)" using k Some by (simp add: m' pmembers.simps)
    qed (use v len e kl in \<open>auto simp: ok_val_def ok_members_def\<close>)
  qed
qed

lemma ok_valI:
  assumes "json_wf d v" "length r < length s"
    "\<And>m. 2 * (length s - length r) \<le> Suc m \<Longrightarrow> pval (Suc m) d s = Some (v, r)"
  shows "ok_val d s v r"
  unfolding ok_val_def
proof (intro conjI allI impI)
  fix m assume m: "2 * (length s - length r) \<le> m"
  then obtain m' where "m = Suc m'" using assms(2) by (cases m) auto
  with m assms(3)[of m'] show "pval m d s = Some (v, r)" by simp
qed (use assms in auto)

text \<open>One unfolding of \<open>pval\<close>: an atom does not look at the fuel, a container recurses.\<close>

lemma pval_cases:
  assumes eq: "pval (Suc n) d s = Some (v, r)"
  obtains (atom) "json_wf d v" "length r < length s" "\<And>m. pval (Suc m) d s = Some (v, r)"
  | (arr) s1 vs where "skip_ws s = CHR ''['' # s1" "0 < d" "eat (CHR '']'') s1 = None"
      "pelems n (d - 1) s1 = Some (vs, r)" "v = JArr vs"
      "\<And>m. pval (Suc m) d s = map_option (\<lambda>(vs, r'). (JArr vs, r')) (pelems m (d - 1) s1)"
  | (obj) s1 kvs where "skip_ws s = CHR ''{'' # s1" "0 < d" "eat (CHR ''}'') s1 = None"
      "pmembers n (d - 1) s1 = Some (kvs, r)" "v = JObj kvs"
      "\<And>m. pval (Suc m) d s = map_option (\<lambda>(vs, r'). (JObj vs, r')) (pmembers m (d - 1) s1)"
proof (cases "skip_ws s")
  case Nil
  with eq show ?thesis by (simp add: pval.simps)
next
  case (Cons c s1)
  have len: "length s1 < length s" using skip_ws_length[of s] Cons by simp
  have nq: "CHR ''{'' \<noteq> QUOTE" "CHR ''['' \<noteq> QUOTE" by (simp_all add: QUOTE_def)
  consider "c = QUOTE" | "c = CHR ''{''" | "c = CHR ''[''"
    | "c \<noteq> QUOTE" "c \<noteq> CHR ''{''" "c \<noteq> CHR ''[''" "c = CHR ''-'' \<or> is_digit c"
    | "c \<noteq> QUOTE" "c \<noteq> CHR ''{''" "c \<noteq> CHR ''[''" "\<not> (c = CHR ''-'' \<or> is_digit c)"
    by blast
  then show ?thesis
  proof cases
    case 1
    with eq Cons obtain b where b: "scan_str s1 = Some (b, r)" "v = JStr b" by (auto simp: pval.simps)
    from scan_str_sound[OF b(1)] len have "json_wf d v" "length r < length s" using b(2) by auto
    moreover have "pval (Suc m) d s = Some (v, r)" for m using 1 Cons b by (simp add: pval.simps)
    ultimately show ?thesis by (rule atom)
  next
    case 2
    with eq Cons nq have d: "0 < d" by (auto simp: pval.simps split: if_splits)
    show ?thesis
    proof (cases "eat (CHR ''}'') s1")
      case None
      with eq Cons 2 nq d obtain kvs where "pmembers n (d - 1) s1 = Some (kvs, r)" "v = JObj kvs"
        by (auto simp: pval.simps)
      with obj[OF Cons[unfolded 2] d None] show ?thesis using None Cons 2 nq d by (simp add: pval.simps)
    next
      case (Some r')
      with eq Cons 2 nq d have e: "v = JObj []" "r = r'" by (auto simp: pval.simps)
      with eat_length[OF Some] len have "json_wf d v" "length r < length s" using d by auto
      moreover have "pval (Suc m) d s = Some (v, r)" for m using 2 nq d Cons Some e by (simp add: pval.simps)
      ultimately show ?thesis by (rule atom)
    qed
  next
    case 3
    with eq Cons nq have d: "0 < d" by (auto simp: pval.simps split: if_splits)
    show ?thesis
    proof (cases "eat (CHR '']'') s1")
      case None
      with eq Cons 3 nq d obtain kvs where "pelems n (d - 1) s1 = Some (kvs, r)" "v = JArr kvs"
        by (auto simp: pval.simps)
      with arr[OF Cons[unfolded 3] d None] show ?thesis using None Cons 3 nq d by (simp add: pval.simps)
    next
      case (Some r')
      with eq Cons 3 nq d have e: "v = JArr []" "r = r'" by (auto simp: pval.simps)
      with eat_length[OF Some] len have "json_wf d v" "length r < length s" using d by auto
      moreover have "pval (Suc m) d s = Some (v, r)" for m using 3 nq d Cons Some e by (simp add: pval.simps)
      ultimately show ?thesis by (rule atom)
    qed
  next
    case 4
    with eq Cons obtain l where l: "scan_num (c # s1) = Some (l, r)" "v = JNum l" by (auto simp: pval.simps)
    have "json_wf d v" using scan_num_sound[OF l(1)] l(2) by simp
    moreover have "length r < length s" using scan_num_length[OF l(1)] len by simp
    moreover have "pval (Suc m) d s = Some (v, r)" for m using 4 Cons l by (simp add: pval.simps)
    ultimately show ?thesis by (rule atom)
  next
    case 5
    have step: "pval (Suc m) d s = (if HasPrefix (c # s1) ''null'' then Some (JNull, drop 4 (c # s1))
          else if HasPrefix (c # s1) ''true'' then Some (JBool True, drop 4 (c # s1))
          else if HasPrefix (c # s1) ''false'' then Some (JBool False, drop 5 (c # s1)) else None)" for m
      using Cons 5 by (simp add: pval.simps)
    have "json_wf d v" "length r < length s" using eq len unfolding step by (auto split: if_splits)
    moreover have "pval (Suc m) d s = Some (v, r)" for m using eq unfolding step by simp
    ultimately show ?thesis by (rule atom)
  qed
qed

lemma enough:
  "pval n d s = Some (v, r) \<Longrightarrow> ok_val d s v r"
  "pelems n d s = Some (vs, r) \<Longrightarrow> ok_elems d s vs r"
  "pmembers n d s = Some (kvs, r) \<Longrightarrow> ok_members d s kvs r"
proof (induction n arbitrary: d s v r vs kvs)
  case (Suc n)
  {
    case 1
    then show ?case
    proof (cases rule: pval_cases)
      case (arr s1 vs)
      note ih = Suc.IH(2)[OF arr(4)]
      have len: "length s1 < length s" using skip_ws_length[of s] arr(1) by simp
      show ?thesis
      proof (rule ok_valI)
        fix m assume "2 * (length s - length r) \<le> Suc m"
        then have "2 * (length s1 - length r) \<le> m" using len by simp
        then show "pval (Suc m) d s = Some (v, r)" using ih arr(5,6) by (simp add: ok_elems_def)
      qed (use ih len arr in \<open>auto simp: ok_elems_def\<close>)
    next
      case (obj s1 kvs)
      note ih = Suc.IH(3)[OF obj(4)]
      have len: "length s1 < length s" using skip_ws_length[of s] obj(1) by simp
      show ?thesis
      proof (rule ok_valI)
        fix m assume "2 * (length s - length r) \<le> Suc m"
        then have "2 * (length s1 - length r) \<le> m" using len by simp
        then show "pval (Suc m) d s = Some (v, r)" using ih obj(5,6) by (simp add: ok_members_def)
      qed (use ih len obj in \<open>auto simp: ok_members_def\<close>)
    qed (rule ok_valI)
  next
    case 2
    then obtain v1 r1 where p: "pval n d s = Some (v1, r1)" by (auto simp: pelems.simps bind_eq_Some_conv)
    note ih = Suc.IH(1)[OF p]
    show ?case
    proof (cases "eat (CHR '','') r1")
      case None
      with 2 p have "vs = [v1]" "eat (CHR '']'') r1 = Some r" by (auto simp: pelems.simps)
      with ok_elems_step[OF ih, of "[]" r] None show ?thesis by simp
    next
      case (Some r2)
      with 2 p obtain vs' where vs': "vs = v1 # vs'" "pelems n d r2 = Some (vs', r)"
        by (auto simp: pelems.simps)
      with ok_elems_step[OF ih, of vs' r] Some Suc.IH(2)[OF vs'(2)] show ?thesis by simp
    qed
  next
    case 3
    then obtain s0 k s1 s2 v1 r1 where k: "eat QUOTE s = Some s0" "scan_str s0 = Some (k, s1)"
      "eat (CHR '':'') s1 = Some s2" and p: "pval n d s2 = Some (v1, r1)"
      by (auto simp: pmembers.simps bind_eq_Some_conv)
    note ih = Suc.IH(1)[OF p]
    show ?case
    proof (cases "eat (CHR '','') r1")
      case None
      with 3 k p have "kvs = [(k, v1)]" "eat (CHR ''}'') r1 = Some r" by (auto simp: pmembers.simps)
      with ok_members_step[OF k ih, of "[]" r] None show ?thesis by simp
    next
      case (Some r2)
      with 3 k p obtain vs' where vs': "kvs = (k, v1) # vs'" "pmembers n d r2 = Some (vs', r)"
        by (auto simp: pmembers.simps)
      with ok_members_step[OF k ih, of vs' r] Some Suc.IH(3)[OF vs'(2)] show ?thesis by simp
    qed
  }
qed (simp_all add: pval.simps pelems.simps pmembers.simps)

text \<open>Twice the length of the input is enough fuel: more never changes the answer.\<close>

lemma pval_fuel: "pval n d s = Some (v, r) \<Longrightarrow> 2 * (length s - length r) \<le> m \<Longrightarrow> pval m d s = Some (v, r)"
  using enough(1)[of n d s v r] by (simp add: ok_val_def)

lemma pelems_fuel: "pelems n d s = Some (v, r) \<Longrightarrow> 2 * (length s - length r) \<le> m \<Longrightarrow> pelems m d s = Some (v, r)"
  using enough(2)[of n d s v r] by (simp add: ok_elems_def)

lemma pmembers_fuel: "pmembers n d s = Some (v, r) \<Longrightarrow> 2 * (length s - length r) \<le> m \<Longrightarrow> pmembers m d s = Some (v, r)"
  using enough(3)[of n d s v r] by (simp add: ok_members_def)

lemma pval_wf: "pval n d s = Some (v, r) \<Longrightarrow> json_wf d v"
  using enough(1)[of n d s v r] by (simp add: ok_val_def)

lemma json_parse_wf: "json_parse s = Some v \<Longrightarrow> json_wf maxNestingDepth v"
  by (auto simp: json_parse_def split: option.splits if_splits dest: pval_wf)

lemma json_parseI: "pval n maxNestingDepth s = Some (v, []) \<Longrightarrow> json_parse s = Some v"
  using pval_fuel[of n maxNestingDepth s v "[]" "2 * length s + 2"] by (simp add: json_parse_def skip_ws_def)

section \<open>Parsing what was printed\<close>

lemma num_head: "num_ok l \<Longrightarrow> l \<noteq> [] \<Longrightarrow> \<exists>c t. l = c # t \<and> (c = CHR ''-'' \<or> is_digit c)"
  by (cases l) (auto simp: num_ok_def scan_num_def Let_def scan_int_def bind_eq_Some_conv split: if_splits list.splits simp: is_digit_def)

definition value_head :: "char \<Rightarrow> bool" where
  "value_head c \<longleftrightarrow> \<not> is_ws c \<and> c \<noteq> CHR '']'' \<and> c \<noteq> CHR ''}'' \<and> c \<noteq> CHR '',''"

lemma digit_value_head: "is_digit c \<Longrightarrow> value_head c"
  by (auto simp: value_head_def is_digit_def is_ws_def)

lemma pr_head: "json_wf d v \<Longrightarrow> \<exists>c t. pr v = c # t \<and> value_head c"
proof (cases v)
  case (JNum l)
  assume "json_wf d v"
  with JNum have "\<exists>c t. l = c # t \<and> (c = CHR ''-'' \<or> is_digit c)" by (intro num_head) auto
  then obtain c t where "l = c # t" "c = CHR ''-'' \<or> is_digit c" by blast
  with JNum show ?thesis using digit_value_head[of c] by (auto simp: value_head_def is_ws_def)
qed (auto simp: value_head_def is_ws_def QUOTE_def)

lemma skip_ws_id: "s \<noteq> [] \<Longrightarrow> \<not> is_ws (hd s) \<Longrightarrow> skip_ws s = s"
  by (cases s) (auto simp: skip_ws_def)

lemma eat_same: "\<not> is_ws c \<Longrightarrow> eat c (c # s) = Some s"
  by (simp add: eat_def skip_ws_def)

lemma eat_other: "\<not> is_ws x \<Longrightarrow> x \<noteq> c \<Longrightarrow> eat c (x # s) = None"
  by (simp add: eat_def skip_ws_def)

lemma ws_consts [simp]:
  "\<not> is_ws QUOTE" "\<not> is_ws (CHR '','')" "\<not> is_ws (CHR '':'')" "\<not> is_ws (CHR ''['')" "\<not> is_ws (CHR '']'')"
  "\<not> is_ws (CHR ''{'')" "\<not> is_ws (CHR ''}'')"
  by (simp_all add: is_ws_def QUOTE_def)

lemma skip_ws_pr: "json_wf d v \<Longrightarrow> skip_ws (pr v @ s) = pr v @ s"
  using pr_head[of d v] by (auto simp: skip_ws_def value_head_def)

lemma eat_pr: "json_wf d v \<Longrightarrow> c = CHR '']'' \<or> c = CHR ''}'' \<or> c = CHR '','' \<Longrightarrow> eat c (pr v @ s) = None"
  using pr_head[of d v] by (auto simp: eat_def skip_ws_def value_head_def)

lemma num_stop_seps [simp]:
  "num_stop []" "num_stop (CHR '','' # r)" "num_stop (CHR '']'' # r)" "num_stop (CHR ''}'' # r)"
  by (auto simp: num_stop_def is_digit_def)

lemma pval_atoms:
  "pval (Suc n) d (''null'' @ r) = Some (JNull, r)" "pval (Suc n) d (''true'' @ r) = Some (JBool True, r)"
  "pval (Suc n) d (''false'' @ r) = Some (JBool False, r)"
  by (simp_all add: pval.simps skip_ws_def is_ws_def is_digit_def QUOTE_def)

lemma pval_num:
  assumes "num_ok l" "l \<noteq> []" "num_stop r" shows "pval (Suc n) d (l @ r) = Some (JNum l, r)"
proof -
  obtain c t where l: "l = c # t" and c: "c = CHR ''-'' \<or> is_digit c" using num_head assms by blast
  have "\<not> is_ws c" "c \<noteq> QUOTE" "c \<noteq> CHR ''{''" "c \<noteq> CHR ''[''"
    using c by (auto simp: is_ws_def is_digit_def QUOTE_def)
  then show ?thesis using scan_num_stop[OF assms(1,3)] c unfolding l by (simp add: pval.simps skip_ws_def)
qed

lemma pval_str: "body b \<Longrightarrow> pval (Suc n) d (QUOTE # b @ QUOTE # r) = Some (JStr b, r)"
  using scan_str_body[of b r] by (simp add: pval.simps skip_ws_def)

lemma pelems_last: "pval n d s = Some (v, CHR '']'' # r) \<Longrightarrow> \<exists>m. pelems m d s = Some ([v], r)"
  by (rule exI[of _ "Suc n"]) (simp add: pelems.simps eat_same eat_other)

lemma pelems_more:
  assumes "pval n d s = Some (v, CHR '','' # s')" "pelems n' d s' = Some (vs, r)"
  shows "\<exists>m. pelems m d s = Some (v # vs, r)"
proof -
  let ?m = "2 * (length s + length s')"
  have "pval ?m d s = Some (v, CHR '','' # s')" "pelems ?m d s' = Some (vs, r)"
    using pval_fuel[OF assms(1), of ?m] pelems_fuel[OF assms(2), of ?m] by auto
  then show ?thesis by (intro exI[of _ "Suc ?m"]) (simp add: pelems.simps eat_same)
qed

lemma pmembers_last:
  assumes "pval n d s = Some (v, CHR ''}'' # r)" "body k"
  shows "\<exists>m. pmembers m d (QUOTE # k @ QUOTE # CHR '':'' # s) = Some ([(k, v)], r)"
  using assms by (intro exI[of _ "Suc n"]) (simp add: pmembers.simps eat_same eat_other scan_str_body)

lemma pmembers_more:
  assumes "pval n d s = Some (v, CHR '','' # s')" "pmembers n' d s' = Some (kvs, r)" "body k"
  shows "\<exists>m. pmembers m d (QUOTE # k @ QUOTE # CHR '':'' # s) = Some ((k, v) # kvs, r)"
proof -
  let ?m = "2 * (length s + length s')"
  have "pval ?m d s = Some (v, CHR '','' # s')" "pmembers ?m d s' = Some (kvs, r)"
    using pval_fuel[OF assms(1), of ?m] pmembers_fuel[OF assms(2), of ?m] by auto
  then show ?thesis using assms(3) by (intro exI[of _ "Suc ?m"]) (simp add: pmembers.simps eat_same scan_str_body)
qed

lemma eat_pr_elems: "vs \<noteq> [] \<Longrightarrow> \<forall>v \<in> set vs. json_wf d v \<Longrightarrow> eat (CHR '']'') (pr_elems vs @ s) = None"
  by (cases vs) (auto simp: eat_pr)

lemma eat_pr_members: "kvs \<noteq> [] \<Longrightarrow> eat (CHR ''}'') (pr_members kvs @ s) = None"
  by (cases kvs) (auto simp: eat_other QUOTE_def is_ws_def)

lemma pval_pr:
  "json_wf d v \<Longrightarrow> num_stop rest \<Longrightarrow> \<exists>n. pval n d (pr v @ rest) = Some (v, rest)"
  "vs \<noteq> [] \<Longrightarrow> \<forall>v \<in> set vs. json_wf d v \<Longrightarrow> \<exists>n. pelems n d (pr_elems vs @ CHR '']'' # rest) = Some (vs, rest)"
  "kvs \<noteq> [] \<Longrightarrow> \<forall>kv \<in> set kvs. body (fst kv) \<and> json_wf d (snd kv) \<Longrightarrow>
     \<exists>n. pmembers n d (pr_members kvs @ CHR ''}'' # rest) = Some (kvs, rest)"
proof (induction v and vs and kvs arbitrary: d rest and d rest and d rest rule: pr_pr_elems_pr_members.induct)
  case 1
  show ?case using pval_atoms(1)[of 0 d rest] by auto
next
  case (2 b)
  show ?case using pval_atoms(2,3)[of 0 d rest] by (cases b) auto
next
  case (3 l)
  then show ?case using pval_num[of l rest 0 d] by auto
next
  case (4 b)
  then show ?case using pval_str[of b 0 d rest] by auto
next
  case (5 vs)
  show ?case
  proof (cases "vs = []")
    case True
    with 5 show ?thesis by (intro exI[of _ 1]) (simp add: pval.simps skip_ws_def eat_same QUOTE_def)
  next
    case False
    have "\<forall>v \<in> set vs. json_wf (d - 1) v" using 5(2) by simp
    from 5(1)[OF False this] obtain n where n: "pelems n (d - 1) (pr_elems vs @ CHR '']'' # rest) = Some (vs, rest)" by blast
    have "eat (CHR '']'') (pr_elems vs @ CHR '']'' # rest) = None" using eat_pr_elems False 5(2) by auto
    with n 5(2) show ?thesis by (intro exI[of _ "Suc n"]) (simp add: pval.simps skip_ws_def QUOTE_def)
  qed
next
  case (6 kvs)
  show ?case
  proof (cases "kvs = []")
    case True
    with 6 show ?thesis by (intro exI[of _ 1]) (simp add: pval.simps skip_ws_def eat_same QUOTE_def)
  next
    case False
    have "\<forall>kv \<in> set kvs. body (fst kv) \<and> json_wf (d - 1) (snd kv)" using 6(2) by simp
    from 6(1)[OF False this] obtain n where n: "pmembers n (d - 1) (pr_members kvs @ CHR ''}'' # rest) = Some (kvs, rest)" by blast
    have "eat (CHR ''}'') (pr_members kvs @ CHR ''}'' # rest) = None" using eat_pr_members False by auto
    with n 6(2) show ?thesis by (intro exI[of _ "Suc n"]) (simp add: pval.simps skip_ws_def QUOTE_def)
  qed
next
  case (8 v vs)
  have wf: "json_wf d v" "\<forall>v \<in> set vs. json_wf d v" using 8(4) by auto
  show ?case
  proof (cases "vs = []")
    case True
    obtain n where "pval n d (pr v @ CHR '']'' # rest) = Some (v, CHR '']'' # rest)" using 8(1)[OF wf(1)] by force
    from pelems_last[OF this] True show ?thesis by simp
  next
    case False
    obtain n where n: "pval n d (pr v @ CHR '','' # pr_elems vs @ CHR '']'' # rest) = Some (v, CHR '','' # pr_elems vs @ CHR '']'' # rest)"
      using 8(1)[OF wf(1)] by force
    obtain n' where "pelems n' d (pr_elems vs @ CHR '']'' # rest) = Some (vs, rest)" using 8(2)[OF False False wf(2)] by force
    from pelems_more[OF n this] False show ?thesis by simp
  qed
next
  case (10 k v kvs)
  have wf: "json_wf d v" "body k" "\<forall>kv \<in> set kvs. body (fst kv) \<and> json_wf d (snd kv)" using 10(4) by auto
  show ?case
  proof (cases "kvs = []")
    case True
    obtain n where "pval n d (pr v @ CHR ''}'' # rest) = Some (v, CHR ''}'' # rest)" using 10(1)[OF wf(1)] by force
    from pmembers_last[OF this wf(2)] True show ?thesis by simp
  next
    case False
    obtain n where n: "pval n d (pr v @ CHR '','' # pr_members kvs @ CHR ''}'' # rest) = Some (v, CHR '','' # pr_members kvs @ CHR ''}'' # rest)"
      using 10(1)[OF wf(1)] by force
    obtain n' where "pmembers n' d (pr_members kvs @ CHR ''}'' # rest) = Some (kvs, rest)" using 10(2)[OF False False wf(3)] by force
    from pmembers_more[OF n this wf(2)] False show ?thesis by simp
  qed
qed simp_all

lemma json_parse_pr: "json_wf maxNestingDepth v \<Longrightarrow> json_parse (pr v) = Some v"
  using pval_pr(1)[of maxNestingDepth v "[]"] by (auto intro: json_parseI)

lemma json_wf_mono: "json_wf d v \<Longrightarrow> d \<le> d' \<Longrightarrow> json_wf d' v"
proof (induction d v arbitrary: d' rule: json_wf.induct)
  case (5 d vs)
  then have "0 < d'" "d - 1 \<le> d' - 1" by auto
  with 5 show ?case by auto
next
  case (6 d kvs)
  then have "0 < d'" "d - 1 \<le> d' - 1" by auto
  with 6 show ?case by auto
qed auto

lemma json_wf_jesc: "json_wf d v \<Longrightarrow> json_wf d (jesc v)"
  by (induction d v rule: json_wf.induct) (auto simp: body_html)

lemma jesc_idem: "jesc (jesc v) = jesc v"
  by (induction v rule: jesc.induct) (auto simp: html_esc_idem)

section \<open>Compaction\<close>

text \<open>
  Compaction of valid bytes is valid, denotes the escaped value, and is stable: compacting it again
  changes nothing. The nesting depth is unchanged.
\<close>

lemma compact_parse: "compact s = Some c \<Longrightarrow> json_parse s = Some v \<Longrightarrow> json_parse c = Some (jesc v)"
  by (auto simp: compact_def intro!: json_parse_pr json_wf_jesc dest: json_parse_wf)

lemma compact_Valid: "json_Valid s \<longleftrightarrow> (\<exists>c. compact s = Some c)"
  by (auto simp: json_Valid_def compact_def)

lemma compact_stable: "compact s = Some c \<Longrightarrow> compact c = Some c"
proof -
  assume c: "compact s = Some c"
  then obtain v where "json_parse s = Some v" "c = pr (jesc v)" by (auto simp: compact_def)
  with compact_parse[OF c] show ?thesis by (simp add: compact_def jesc_idem)
qed

lemma compact_is_Valid: "compact s = Some c \<Longrightarrow> json_Valid c"
  using compact_stable compact_Valid by blast

text \<open>Bytes within a nesting depth: what may be embedded in a container.\<close>

definition nested_within :: "nat \<Rightarrow> bytes \<Rightarrow> bool" where
  "nested_within d s \<longleftrightarrow> (case json_parse s of None \<Rightarrow> False | Some v \<Rightarrow> json_wf d v)"

lemma nested_compact: "nested_within d s \<Longrightarrow> compact s = Some c \<Longrightarrow> \<exists>v. json_wf d v \<and> c = pr v \<and> jesc v = v"
  by (auto simp: nested_within_def compact_def jesc_idem intro!: json_wf_jesc split: option.splits)

section \<open>Members\<close>

lemma pfields_pr:
  assumes "kvs \<noteq> []" "\<forall>kv \<in> set kvs. body (fst kv) \<and> json_wf d (snd kv)"
    "2 * length (pr_members kvs @ CHR ''}'' # rest) \<le> n"
  shows "pfields n d (pr_members kvs @ CHR ''}'' # rest) = Some (map (\<lambda>(k, v). (k, pr v)) kvs, rest)"
  using assms
proof (induction kvs arbitrary: n)
  case (Cons kv kvs)
  obtain k v where kv: "kv = (k, v)" by fastforce
  with Cons.prems have wf: "body k" "json_wf d v" by auto
  obtain m where n: "n = Suc m" using Cons.prems(3) by (cases n) auto
  have pv: "pval m d (pr v @ t) = Some (v, t)" if "num_stop t" "2 * length (pr v) \<le> m" for t
    using pval_pr(1)[OF wf(2) that(1)] pval_fuel[of _ d "pr v @ t" v t m] that(2) by auto
  have big: "2 * length (pr v) \<le> m" using Cons.prems(3) by (simp add: kv n)
  show ?case
  proof (cases "kvs = []")
    case True
    then show ?thesis using pv[of "CHR ''}'' # rest"] big wf
      by (simp add: kv n pfields.simps eat_same eat_other scan_str_body skip_ws_pr)
  next
    case False
    have "pfields m d (pr_members kvs @ CHR ''}'' # rest) = Some (map (\<lambda>(k, v). (k, pr v)) kvs, rest)"
      using Cons.IH[OF False, of m] Cons.prems(2,3) False by (simp add: kv n)
    then show ?thesis using pv[of "CHR '','' # pr_members kvs @ CHR ''}'' # rest"] big wf False
      by (simp add: kv n pfields.simps eat_same scan_str_body skip_ws_pr)
  qed
qed simp

lemma json_fields_pr:
  assumes wf: "json_wf maxNestingDepth (JObj kvs)"
  shows "json_fields (pr (JObj kvs)) = Some (map (\<lambda>(k, v). (unquote k, pr v)) kvs)"
proof (cases kvs)
  case Nil
  then show ?thesis using json_parse_pr[OF wf] by (simp add: json_fields_def)
next
  case (Cons kv kvs')
  have pf: "pfields n (maxNestingDepth - 1) (pr_members kvs @ [CHR ''}'']) = Some (map (\<lambda>(k, v). (k, pr v)) kvs, [])"
    if "2 * length (pr_members kvs @ [CHR ''}'']) \<le> n" for n
    using pfields_pr[of kvs "maxNestingDepth - 1" "[]" n] wf Cons that by simp
  have "json_fields (pr (JObj kvs)) =
      do { r \<leftarrow> eat (CHR ''{'') (pr (JObj kvs)); (kvs, _) \<leftarrow> pfields (2 * length (pr (JObj kvs)) + 2) (maxNestingDepth - 1) r;
               Some (map (\<lambda>(k, v). (unquote k, v)) kvs) }"
    using json_parse_pr[OF wf] Cons by (simp add: json_fields_def)
  also have "\<dots> = Some (map (\<lambda>(k, v). (unquote k, pr v)) kvs)"
    using pf[of "2 * length (pr (JObj kvs)) + 2"] by (simp add: eat_same case_prod_beta comp_def)
  finally show ?thesis .
qed

section \<open>Plain text\<close>

definition text_char :: "char \<Rightarrow> bool" where
  "text_char c \<longleftrightarrow> plain c \<and> of_char c < (128 :: nat) \<and> c \<noteq> CHR ''<'' \<and> c \<noteq> CHR ''>'' \<and> c \<noteq> CHR ''&''"

lemma rune_len_ascii: "of_char c < (128 :: nat) \<Longrightarrow> rune_len (c # s) = 1"
  by (simp add: rune_len_def)

lemma unquote_text: "list_all text_char s \<Longrightarrow> unquote s = s"
proof (induction s)
  case (Cons c s)
  then have "c \<noteq> BSLASH" "of_char c < (128 :: nat)" by (auto simp: text_char_def plain_def)
  with Cons show ?case using rune_len_ascii[of c s] by (subst unquote.simps) simp
qed (simp add: unquote.simps)

lemma quote_char_text: "text_char c \<Longrightarrow> quote_char c = [c]"
proof -
  assume c: "text_char c"
  then have "c \<noteq> CHR 0x08" "c \<noteq> CHR 0x0C" "c \<noteq> CHR 0x0A" "c \<noteq> CHR 0x0D" "c \<noteq> CHR 0x09"
    unfolding text_char_def plain_def by (auto simp del: One_nat_def)
  with c show ?thesis unfolding quote_char_def text_char_def plain_def by simp
qed

lemma quote_body_text: "list_all text_char s \<Longrightarrow> quote_body s = s"
proof (induction s)
  case (Cons c s)
  then have "of_char c < (128 :: nat)" by (auto simp: text_char_def)
  with Cons show ?case using rune_len_ascii[of c s] by (subst quote_body.simps) (simp add: quote_char_text)
qed (simp add: quote_body.simps)

lemma text_body: "list_all text_char s \<Longrightarrow> body s"
  by (rule body_plain) (auto simp: list_all_iff text_char_def)

lemma text_html: "list_all text_char s \<Longrightarrow> html_esc s = s"
proof (induction s)
  case (Cons c s)
  then have "\<not> html_char c" by (auto simp: text_char_def html_char_def)
  with Cons show ?case by (simp add: html_esc_other del: html_esc.simps)
qed simp

lemma hex_text: "list_all is_hex s \<Longrightarrow> list_all text_char s"
  by (auto simp: list_all_iff text_char_def is_hex_plain) (auto simp: is_hex_def is_digit_def)

lemma dec_head: "0 < n \<Longrightarrow> hd (dec n) \<noteq> CHR ''0''"
proof (induction n rule: dec.induct)
  case (1 n)
  show ?case
  proof (cases "n < 10")
    case True
    then show ?thesis using digit_inj[of n 0] digit_0 1(2) by (subst dec.simps) auto
  next
    case False
    then show ?thesis using 1(1) by (subst dec.simps) simp
  qed
qed

lemma dec_0: "dec 0 = ''0''"
  by (subst dec.simps) (simp add: digit_0)

lemma num_ok_dec: "num_ok (dec n)"
proof -
  have "dec n = ''0'' \<or> (dec n \<noteq> [] \<and> list_all is_digit (dec n) \<and> hd (dec n) \<noteq> CHR ''0'' \<and> ([] = [] \<or> \<not> is_digit (hd [])))"
    by (cases "n = 0") (auto simp: dec_0 dec_head dec_digits)
  from scan_int_complete[OF this] have si: "scan_int (dec n) = Some (dec n, [])" by simp
  have "hd (dec n) \<noteq> CHR ''-''" using dec_digits[of n] by (cases "dec n") (auto simp: is_digit_def)
  with si show ?thesis by (simp add: num_ok_def scan_num_def Let_def scan_frac_def scan_exp_def)
qed

lemma json_wf_dec: "json_wf d (JNum (dec n))"
  by (simp add: num_ok_dec)

lemma get_u64_dec: "get_u64 (dec (unat w)) old = Some w"
  using json_parse_pr[OF json_wf_dec, of "unat w"] by (simp add: get_u64_def)

lemma ParseInt_dec: "n < 2 ^ 63 \<Longrightarrow> ParseInt (dec n) = Some (int n)"
proof -
  assume n: "n < 2 ^ 63"
  obtain c r where c: "dec n = c # r" using dec_nonempty[of n] by (cases "dec n") auto
  then have "is_digit c" using dec_digits[of n] by simp
  then have "c \<noteq> CHR ''-''" "c \<noteq> CHR ''+''" by (auto simp: is_digit_def)
  with n show ?thesis using dec_digits[of n] undec_dec[of n] unfolding c by (simp add: ParseInt_def Let_def)
qed

lemma get_int_dec: "n < 2 ^ 63 \<Longrightarrow> get_int (dec n) old = Some (int n)"
  using json_parse_pr[OF json_wf_dec, of n] by (simp add: get_int_def ParseInt_dec)

lemma get_string_text: "list_all text_char s \<Longrightarrow> get_string (QUOTE # s @ [QUOTE]) old = Some s"
  using json_parse_pr[of "JStr s"] by (simp add: get_string_def text_body unquote_text)

lemma get_bool_pr: "get_bool (pr (JBool b)) old = Some b"
  using json_parse_pr[of "JBool b"] by (simp add: get_bool_def del: pr.simps)

section \<open>Quoting\<close>

lemma u00_elem: "elem (u00 c)"
proof -
  have "is_hex (CHR ''0'')" by (simp add: is_hex_def is_digit_def)
  moreover have "of_char c div 16 < (16 :: nat)" using nat_of_char_less_256[of c] by (simp add: less_mult_imp_div_less)
  ultimately show ?thesis unfolding u00_def by (auto intro!: elem_u hex_digit_is_hex)
qed

lemma ufffd_elem: "elem (BSLASH # ''ufffd'')"
  by (auto intro!: elem_u simp: is_hex_def is_digit_def)

lemma quote_char_cases:
  obtains (lit) "plain c" "quote_char c = [c]"
  | (esc) x where "x \<in> set esc_chars" "quote_char c = [BSLASH, x]" "unescape x = c"
  | (u00) "quote_char c = u00 c"
proof -
  define special where "special = [QUOTE, BSLASH, CHR 0x08, CHR 0x0C, CHR 0x0A, CHR 0x0D, CHR 0x09]"
  show ?thesis
  proof (cases "c \<in> set special")
    case True
    then consider "c = QUOTE" | "c = BSLASH" | "c = CHR 0x08" | "c = CHR 0x0C" | "c = CHR 0x0A" | "c = CHR 0x0D"
      | "c = CHR 0x09" by (auto simp: special_def)
    then show ?thesis
    proof cases
      case 1 then show ?thesis using esc[of QUOTE] by (simp add: esc_chars_def quote_char_def unescape_def QUOTE_def)
    next
      case 2 then show ?thesis using esc[of BSLASH] by (simp add: esc_chars_def quote_char_def unescape_def BSLASH_def)
    next
      case 3 then show ?thesis using esc[of "CHR ''b''"] by (simp add: esc_chars_def quote_char_def unescape_def char_consts)
    next
      case 4 then show ?thesis using esc[of "CHR ''f''"] by (simp add: esc_chars_def quote_char_def unescape_def char_consts)
    next
      case 5 then show ?thesis using esc[of "CHR ''n''"] by (simp add: esc_chars_def quote_char_def unescape_def char_consts)
    next
      case 6 then show ?thesis using esc[of "CHR ''r''"] by (simp add: esc_chars_def quote_char_def unescape_def char_consts)
    next
      case 7 then show ?thesis using esc[of "CHR ''t''"] by (simp add: esc_chars_def quote_char_def unescape_def char_consts)
    qed
  next
    case False
    then have ns: "c \<noteq> QUOTE" "c \<noteq> BSLASH" "c \<noteq> CHR 0x08" "c \<noteq> CHR 0x0C" "c \<noteq> CHR 0x0A" "c \<noteq> CHR 0x0D"
      "c \<noteq> CHR 0x09" by (auto simp: special_def)
    show ?thesis
    proof (cases "of_char c < (32 :: nat) \<or> c = CHR ''<'' \<or> c = CHR ''>'' \<or> c = CHR ''&''")
      case True
      then have "quote_char c = u00 c" unfolding quote_char_def using ns by simp
      then show ?thesis by (rule u00)
    next
      case False
      then have "quote_char c = [c]" "plain c" unfolding quote_char_def plain_def using ns by simp_all
      then show ?thesis using lit by blast
    qed
  qed
qed

lemma quote_char_elem: "elem (quote_char c)"
  by (rule quote_char_cases[of c]) (auto intro: elem_plain elem_esc u00_elem)

lemma plain_high: "128 \<le> (of_char c :: nat) \<Longrightarrow> plain c"
  by (auto simp: plain_def char_consts)

lemma rune_high: "1 < rune_len s \<Longrightarrow> list_all (\<lambda>c. 128 \<le> (of_char c :: nat)) (take (rune_len s) s)"
proof -
  assume l: "1 < rune_len s"
  then consider "rune2 s" "rune_len s = 2" | "rune3 s" "rune_len s = 3" | "rune4 s" "rune_len s = 4"
    by (auto simp: rune_len_def split: if_splits)
  then show ?thesis
  proof cases
    case 1
    then obtain a b r where "s = a # b # r" "rune2 [a, b]" by (subst (asm) rune2_shape) auto
    with 1 show ?thesis by (simp add: in_range_def)
  next
    case 2
    then obtain a b c r where "s = a # b # c # r" "rune3 [a, b, c]" by (subst (asm) rune3_shape) auto
    with 2 show ?thesis by (auto simp: in_range_def split: if_splits)
  next
    case 3
    then obtain a b c d r where "s = a # b # c # d # r" "rune4 [a, b, c, d]" by (subst (asm) rune4_shape) auto
    with 3 show ?thesis by (auto simp: in_range_def split: if_splits)
  qed
qed

lemma hex_digit_89: "hex_digit 8 = CHR ''8''" "hex_digit 9 = CHR ''9''"
  by code_simp+

lemma quote_body_cases:
  obtains (Nil) "s = []" "quote_body s = []"
  | (bad) "s \<noteq> []" "rune_len s = 0" "quote_body s = (BSLASH # ''ufffd'') @ quote_body (tl s)"
  | (one) "s \<noteq> []" "rune_len s = 1" "quote_body s = quote_char (hd s) @ quote_body (tl s)"
  | (sep) x where "s = [CHR 0xE2, CHR 0x80, x] @ drop 3 s" "rune_len s = 3"
      "quote_body s = (BSLASH # ''u202'' @ [hex_digit (of_char x mod 16 )]) @ quote_body (drop 3 s)" "x = CHR 0xA8 \<or> x = CHR 0xA9"
  | (many) "1 < rune_len s" "quote_body s = take (rune_len s) s @ quote_body (drop (rune_len s) s)"
proof -
  note eq = quote_body.simps[of s]
  have sep3: "rune_len s = 3 \<and> s = [CHR 0xE2, CHR 0x80, x] @ drop 3 s"
    if "take 3 s = [CHR 0xE2, CHR 0x80, x]" "x = CHR 0xA8 \<or> x = CHR 0xA9" for x
  proof -
    have "s = take 3 s @ drop 3 s" by simp
    then have "s = [CHR 0xE2, CHR 0x80, x] @ drop 3 s" using that(1) by simp
    moreover have "rune_len ([CHR 0xE2, CHR 0x80, x] @ drop 3 s) = 3"
      using that(2) by (auto simp: rune_len_def in_range_def)
    ultimately show ?thesis by simp
  qed
  consider "s = []" | "s \<noteq> []" "rune_len s = 0" | "s \<noteq> []" "rune_len s = 1"
    | "1 < rune_len s" "s \<noteq> []" "take 3 s = [CHR 0xE2, CHR 0x80, CHR 0xA8]"
    | "1 < rune_len s" "s \<noteq> []" "take 3 s = [CHR 0xE2, CHR 0x80, CHR 0xA9]" "take 3 s \<noteq> [CHR 0xE2, CHR 0x80, CHR 0xA8]"
    | "1 < rune_len s" "s \<noteq> []" "take 3 s \<noteq> [CHR 0xE2, CHR 0x80, CHR 0xA8]" "take 3 s \<noteq> [CHR 0xE2, CHR 0x80, CHR 0xA9]"
    by (metis less_one linorder_neqE_nat)
  then show ?thesis
  proof cases
    case 1 then show ?thesis using Nil eq by simp
  next
    case 2 then show ?thesis using bad eq by simp
  next
    case 3 then show ?thesis using one eq by simp
  next
    case 4
    then show ?thesis using sep[of "CHR 0xA8"] sep3[of "CHR 0xA8"] eq by (simp add: hex_digit_89)
  next
    case 5
    then show ?thesis using sep[of "CHR 0xA9"] sep3[of "CHR 0xA9"] eq by (simp add: hex_digit_89)
  next
    case 6
    then show ?thesis using many eq by simp
  qed
qed

lemma u202_elem: "x = CHR 0xA8 \<or> x = CHR 0xA9 \<Longrightarrow> elem (BSLASH # ''u202'' @ [hex_digit (of_char x mod 16)])"
  by (auto intro!: elem_u simp: is_hex_def is_digit_def hex_digit_89)

lemma quote_body_body: "body (quote_body s)"
proof (induction "length s" arbitrary: s rule: less_induct)
  case less
  have ih: "body (quote_body (drop k s))" if "0 < k" "s \<noteq> []" for k
    using less[of "drop k s"] that by (simp add: diff_less)
  show ?case
  proof (cases rule: quote_body_cases[of s])
    case Nil
    then show ?thesis by (simp add: body_Nil)
  next
    case bad
    have "body (quote_body (tl s))" using ih[of 1] bad by (simp add: drop_Suc)
    then show ?thesis unfolding bad(3) by (rule body_elem[OF ufffd_elem])
  next
    case one
    have "body (quote_body (tl s))" using ih[of 1] one by (simp add: drop_Suc)
    then show ?thesis unfolding one(3) by (rule body_elem[OF quote_char_elem])
  next
    case (sep x)
    have "s \<noteq> []" using sep(2) by (auto simp: rune_len_def)
    from ih[OF _ this, of 3] show ?thesis unfolding sep(3) by (intro body_elem[OF u202_elem[OF sep(4)]]) simp
  next
    case many
    have "s \<noteq> []" using many(1) by (auto simp: rune_len_def)
    from ih[OF _ this, of "rune_len s"] many(1) have "body (quote_body (drop (rune_len s) s))" by simp
    moreover have "body (take (rune_len s) s)"
      by (rule body_plain) (use rune_high[OF many(1)] in \<open>auto simp: list_all_iff plain_high\<close>)
    ultimately show ?thesis unfolding many(2) by (intro body_append)
  qed
qed

text \<open>Decoding undoes quoting for strings that are valid UTF-8.\<close>

lemma unquote_plain_char: "of_char c < (128 :: nat) \<Longrightarrow> c \<noteq> BSLASH \<Longrightarrow> unquote (c # t) = c # unquote t"
  using rune_len_ascii[of c t] by (subst unquote.simps) simp

lemma unquote_esc: "x \<in> set esc_chars \<Longrightarrow> unquote (BSLASH # x # t) = unescape x # unquote t"
  using elem_len_elem[OF elem_esc, of x t] by (subst unquote.simps) simp

lemma unquote_u:
  assumes "elem (BSLASH # CHR ''u'' # h)" "length h = 4" "\<not> is_surr (hex4 h)"
  shows "unquote ((BSLASH # CHR ''u'' # h) @ t) = encode_rune (hex4 h) @ unquote t"
proof -
  obtain a b c d where h: "h = [a, b, c, d]" using assms(2) list_len_4[of h] by auto
  have "elem_len ((BSLASH # CHR ''u'' # h) @ t) = 6" using elem_len_elem[OF assms(1), of t] assms(2) by simp
  with assms(3) show ?thesis unfolding h by (subst unquote.simps) (simp add: unicode_escape_def Let_def)
qed

lemma hex4_u00: "of_char c < (128 :: nat) \<Longrightarrow> hex4 (drop 2 (u00 c)) = of_char c"
proof -
  assume "of_char c < (128 :: nat)"
  then have "of_char c div 16 < (16 :: nat)" "of_char c mod 16 < (16 :: nat)" by simp_all
  moreover have "hex_val (CHR ''0'') = 0" by (simp add: hex_val_def Let_def is_digit_def)
  ultimately show ?thesis by (simp add: u00_def hex_val_digit mult.commute)
qed

lemma encode_rune_ascii: "of_char c < (128 :: nat) \<Longrightarrow> encode_rune (of_char c) = [c]"
  by (simp add: encode_rune_def)

lemma unquote_u00: "of_char c < (128 :: nat) \<Longrightarrow> unquote (u00 c @ t) = c # unquote t"
proof -
  assume c: "of_char c < (128 :: nat)"
  have u: "u00 c = BSLASH # CHR ''u'' # drop 2 (u00 c)" "length (drop 2 (u00 c)) = 4" by (simp_all add: u00_def)
  have "unquote ((BSLASH # CHR ''u'' # drop 2 (u00 c)) @ t) = encode_rune (hex4 (drop 2 (u00 c))) @ unquote t"
    by (rule unquote_u) (use u u00_elem[of c] c in \<open>simp_all add: hex4_u00 is_surr_def\<close>)
  then show ?thesis using u(1) c by (simp add: hex4_u00 encode_rune_ascii)
qed

lemma unquote_quote_char: "of_char c < (128 :: nat) \<Longrightarrow> unquote (quote_char c @ t) = c # unquote t"
  by (rule quote_char_cases[of c]) (auto simp: unquote_plain_char unquote_esc unquote_u00 plain_def)

lemma char_of_sep: "char_of (226 :: nat) = CHR 0xE2" "char_of (128 :: nat) = CHR 0x80"
    "char_of (168 :: nat) = CHR 0xA8" "char_of (169 :: nat) = CHR 0xA9"
  by (simp_all add: char_of_def bit_0)

lemma unquote_sep:
  "x = CHR 0xA8 \<or> x = CHR 0xA9 \<Longrightarrow>
   unquote ((BSLASH # ''u202'' @ [hex_digit (of_char x mod 16)]) @ t) = [CHR 0xE2, CHR 0x80, x] @ unquote t"
proof -
  assume x: "x = CHR 0xA8 \<or> x = CHR 0xA9"
  define h where "h = ''202'' @ [hex_digit (of_char x mod 16)]"
  have e: "elem (BSLASH # CHR ''u'' # h)" using u202_elem[OF x] by (simp add: h_def)
  have "encode_rune (hex4 h) = [CHR 0xE2, CHR 0x80, x]" "\<not> is_surr (hex4 h)"
    using x by (auto simp: h_def hex_digit_89 hex_val_def Let_def is_digit_def encode_rune_def is_surr_def char_of_sep)
  with unquote_u[OF e] show ?thesis by (simp add: h_def)
qed

lemma unquote_rune: "1 < rune_len s \<Longrightarrow> unquote (take (rune_len s) s @ t) = take (rune_len s) s @ unquote t"
proof -
  assume l: "1 < rune_len s"
  define e where "e = take (rune_len s) s"
  have le: "length e = rune_len s" using rune_len_le[of s] by (simp add: e_def)
  have "rune_len e = rune_len s"
  proof -
    from l consider "rune2 s" "rune_len s = 2" | "rune3 s" "rune_len s = 3" | "rune4 s" "rune_len s = 4"
      by (auto simp: rune_len_def split: if_splits)
    then show ?thesis
    proof cases
      case 1
      then obtain a b r where "s = a # b # r" "rune2 [a, b]" by (subst (asm) rune2_shape) auto
      with 1 show ?thesis by (auto simp: e_def rune_len_def split: if_splits)
    next
      case 2
      then obtain a b c r where "s = a # b # c # r" "rune3 [a, b, c]" by (subst (asm) rune3_shape) auto
      with 2 show ?thesis by (auto simp: e_def rune_len_def split: if_splits)
    next
      case 3
      then obtain a b c d r where "s = a # b # c # d # r" "rune4 [a, b, c, d]" by (subst (asm) rune4_shape) auto
      with 3 show ?thesis by (auto simp: e_def rune_len_def split: if_splits)
    qed
  qed
  then have rl: "rune_len (e @ t) = length e" using rune_len_append[of e t] l le by simp
  have "e \<noteq> []" using le l by auto
  then have hd: "hd (e @ t) \<noteq> BSLASH" "e @ t \<noteq> []"
    using rune_high[OF l] by (cases e; auto simp: e_def[symmetric] BSLASH_def)+
  show ?thesis using hd rl l le \<open>e \<noteq> []\<close> unfolding e_def[symmetric] by (subst unquote.simps) simp
qed

lemma unquote_quote_body: "utf8_Valid s \<Longrightarrow> unquote (quote_body s) = s"
proof (induction "length s" arbitrary: s rule: less_induct)
  case less
  have ih: "unquote (quote_body (drop (rune_len s) s)) = drop (rune_len s) s" if "s \<noteq> []"
  proof -
    have "0 < rune_len s" "utf8_Valid (drop (rune_len s) s)"
      using less(2) that by (subst (asm) utf8_Valid.simps; simp split: if_splits)+
    then show ?thesis using less(1)[of "drop (rune_len s) s"] that by simp
  qed
  show ?case
  proof (cases rule: quote_body_cases[of s])
    case Nil
    then show ?thesis by (simp add: unquote.simps)
  next
    case bad
    with less(2) show ?thesis by (subst (asm) utf8_Valid.simps) simp
  next
    case one
    then obtain c t where s: "s = c # t" by (cases s) auto
    have "of_char c < (128 :: nat)" using one(2) by (auto simp: s rune_len_def split: if_splits)
    then show ?thesis using one ih s by (simp add: unquote_quote_char)
  next
    case (sep x)
    have "s \<noteq> []" using sep(2) by (auto simp: rune_len_def)
    from ih[OF this] sep(2) have "unquote (quote_body (drop 3 s)) = drop 3 s" by simp
    then show ?thesis unfolding sep(3) unquote_sep[OF sep(4)] using sep(1) by simp
  next
    case many
    have "s \<noteq> []" using many(1) by (auto simp: rune_len_def)
    from ih[OF this] show ?thesis unfolding many(2) unquote_rune[OF many(1)] by simp
  qed
qed

end
