(* ===== verification/Sha256.thy ===== *)
theory Sha256
  imports GoStrings
begin

text \<open>
  The hash of \<^verbatim>\<open>crypto/sha256\<close> (FIPS 180-4) on 32-bit words. The components use it
  through \<open>Sum256_hex\<close>, the lower-case hexadecimal digest: a function with 64-character results, whose
  only other assumed strength (no collisions) is named in every statement that needs it.
\<close>

type_synonym u32 = "32 word"

text \<open>
  The standard's constants are the first 32 bits of the fractional parts of roots of the first primes:
  cube roots of 64 primes for the rounds, square roots of eight for the initial state. \<open>root_bits k x b acc\<close>
  extends \<open>acc\<close> by the bits below \<open>b\<close> to the largest number whose \<open>k\<close>-th power is at most \<open>x\<close>.
\<close>

fun root_bits :: "nat \<Rightarrow> int \<Rightarrow> nat \<Rightarrow> int \<Rightarrow> int" where
  "root_bits k x 0 acc = acc"
| "root_bits k x (Suc b) acc = root_bits k x b (if (acc + 2 ^ b) ^ k \<le> x then acc + 2 ^ b else acc)"

definition small_primes :: "int list" where
  "small_primes = filter (\<lambda>n. list_all (\<lambda>d. n mod d \<noteq> 0) [2..n - 1]) [2..311]"

definition root_fraction :: "nat \<Rightarrow> int \<Rightarrow> u32" where
  "root_fraction k p = of_int (root_bits k (p * 2 ^ (32 * k)) 40 0)"

definition sha_k :: "u32 list" where
  "sha_k = map (root_fraction 3) small_primes"

definition sha_init :: "u32 list" where
  "sha_init = map (root_fraction 2) [2, 3, 5, 7, 11, 13, 17, 19]"

definition be_bytes :: "nat \<Rightarrow> int \<Rightarrow> bytes" where
  "be_bytes k n = map (\<lambda>i. char_of (n div 256 ^ (k - 1 - i))) [0..<k]"

definition be_word :: "bytes \<Rightarrow> u32" where
  "be_word s = of_int (foldl (\<lambda>a c. 256 * a + of_char c) 0 s)"

definition sha_pad :: "bytes \<Rightarrow> bytes" where
  "sha_pad s =
     s @ [CHR 0x80] @ replicate ((119 - length s mod 64) mod 64) (CHR 0x00) @ be_bytes 8 (8 * int (length s))"

unbundle bit_operations_syntax

definition rotr :: "nat \<Rightarrow> u32 \<Rightarrow> u32" where
  "rotr n w = drop_bit n w OR push_bit (32 - n) w"

definition sha_schedule_word :: "u32 list \<Rightarrow> u32" where
  "sha_schedule_word w =
     (let n = length w; a = w ! (n - 15); b = w ! (n - 2);
          s0 = rotr 7 a XOR rotr 18 a XOR drop_bit 3 a;
          s1 = rotr 17 b XOR rotr 19 b XOR drop_bit 10 b
      in w ! (n - 16) + s0 + w ! (n - 7) + s1)"

fun sha_extend :: "nat \<Rightarrow> u32 list \<Rightarrow> u32 list" where
  "sha_extend 0 w = w"
| "sha_extend (Suc n) w = sha_extend n (w @ [sha_schedule_word w])"

definition sha_round :: "u32 \<times> u32 \<Rightarrow> u32 list \<Rightarrow> u32 list" where
  "sha_round kw st =
     (let a = st ! 0; b = st ! 1; c = st ! 2; d = st ! 3; e = st ! 4; f = st ! 5; g = st ! 6; h = st ! 7;
          S1 = rotr 6 e XOR rotr 11 e XOR rotr 25 e;
          ch = (e AND f) XOR (NOT e AND g);
          t1 = h + S1 + ch + fst kw + snd kw;
          S0 = rotr 2 a XOR rotr 13 a XOR rotr 22 a;
          maj = (a AND b) XOR (a AND c) XOR (b AND c);
          t2 = S0 + maj
      in [t1 + t2, a, b, c, d + t1, e, f, g])"

definition sha_block :: "bytes \<Rightarrow> u32 list \<Rightarrow> u32 list" where
  "sha_block blk st =
     (let w = sha_extend 48 (map (\<lambda>i. be_word (take 4 (drop (4 * i) blk))) [0..<16])
      in map2 (+) st (fold sha_round (zip sha_k w) st))"

definition sha_blocks :: "bytes \<Rightarrow> bytes list" where
  "sha_blocks s = map (\<lambda>i. take 64 (drop (64 * i) s)) [0..<length s div 64]"

definition Sum256 :: "bytes \<Rightarrow> bytes" where
  "Sum256 s = concat (map (be_bytes 4 \<circ> uint) (fold sha_block (sha_blocks (sha_pad s)) sha_init))"

definition Sum256_hex :: "bytes \<Rightarrow> bytes" where
  "Sum256_hex s = EncodeToString (Sum256 s)"

lemma length_be_bytes [simp]: "length (be_bytes k n) = k"
  by (simp add: be_bytes_def)

lemma length_sha_round: "length (sha_round kw st) = 8"
  by (simp add: sha_round_def Let_def)

lemma length_fold_round: "length st = 8 \<Longrightarrow> length (fold sha_round ks st) = 8"
  by (induction ks arbitrary: st) (simp_all add: length_sha_round)

lemma length_sha_block: "length st = 8 \<Longrightarrow> length (sha_block b st) = 8"
  by (simp add: sha_block_def Let_def length_fold_round)

lemma length_fold_block: "length st = 8 \<Longrightarrow> length (fold sha_block bs st) = 8"
  by (induction bs arbitrary: st) (simp_all add: length_sha_block)

lemma length_Sum256: "length (Sum256 s) = 32"
proof -
  have "length (fold sha_block (sha_blocks (sha_pad s)) sha_init) = 8"
    by (rule length_fold_block) (simp add: sha_init_def)
  then show ?thesis by (simp add: Sum256_def length_concat comp_def map_replicate_const sum_list_replicate)
qed

lemma length_Sum256_hex [simp]: "length (Sum256_hex s) = 64"
  by (simp add: Sum256_hex_def length_Sum256)

lemma Sum256_hex_is_hex: "list_all is_hex (Sum256_hex s)"
  by (simp add: Sum256_hex_def EncodeToString_hex)

lemma Sum256_hex_inj: "Sum256_hex a = Sum256_hex b \<longleftrightarrow> Sum256 a = Sum256 b"
  using DecodeString_Encode by (metis Sum256_hex_def option.inject)

text \<open>Two inputs with one digest: what a statement about distinct digests cannot exclude.\<close>

definition sha_collision :: "bytes \<Rightarrow> bytes \<Rightarrow> bool" where
  "sha_collision a b \<longleftrightarrow> a \<noteq> b \<and> Sum256 a = Sum256 b"

end
