(* ===== verification/Scope.thy ===== *)
theory Scope
  imports JsonFacts Sha256
begin

text \<open>
  Scopes of the spools (\<^verbatim>\<open>src/internal/queue/scope.go\<close>): the identity a spool belongs to, hashed with a
  domain separator per spool kind. The lemmas show which scopes can share a hash.
\<close>

record scope =
  BackendID :: bytes
  OrganizationID :: bytes
  HostID :: bytes
  Account :: bytes
  Region :: bytes

definition scope_values :: "scope \<Rightarrow> bytes list" where
  "scope_values s = [BackendID s, OrganizationID s, HostID s, Account s, Region s]"

text \<open>The check of one value at position \<open>i\<close>; the control bytes are NUL, CR and LF.\<close>

definition bad_value :: "nat \<Rightarrow> bytes \<Rightarrow> bool" where
  "bad_value i v \<longleftrightarrow> 256 < length v \<or> ContainsAny v [CHR 0x00, CHR 0x0D, CHR 0x0A] \<or> (i < 3 \<and> TrimSpace v = [])"

definition scope_ok :: "scope \<Rightarrow> bool" where
  "scope_ok s \<longleftrightarrow> list_all (\<lambda>(i, v). \<not> bad_value i v) (enumerate 0 (scope_values s))"

text \<open>\<^verbatim>\<open>json.Marshal\<close> of a slice of strings.\<close>

definition marshal_strings :: "bytes list \<Rightarrow> bytes" where
  "marshal_strings vs = pr (JArr (map (\<lambda>v. JStr (quote_body v)) vs))"

definition hashScope :: "bytes \<Rightarrow> bytes" where
  "hashScope s = Sum256_hex s"

definition Hash :: "scope \<Rightarrow> bytes result" where
  "Hash s =
     (if scope_ok s then Inr (hashScope (''observe-metrics-scope-v2'' @ [CHR 0x00] @ marshal_strings (scope_values s)))
      else Inl (Failure ''queue_scope_identity_required''))"

definition LogsHash :: "scope \<Rightarrow> bytes result" where
  "LogsHash s =
     (if scope_ok s then Inr (hashScope (''observe-logs-scope-v2'' @ [CHR 0x00] @ marshal_strings (scope_values s)))
      else Inl (Failure ''logs_queue_scope_identity_required''))"

definition legacyHash :: "scope \<Rightarrow> bytes \<Rightarrow> bytes" where
  "legacyHash s endpoint =
     hashScope (endpoint @ [CHR 0x00] @ HostID s @ [CHR 0x00] @ Account s @ [CHR 0x00] @ Region s)"
section \<open>What a hash identifies\<close>

text \<open>The bytes that are hashed.\<close>

definition metrics_preimage :: "scope \<Rightarrow> bytes" where
  "metrics_preimage s = ''observe-metrics-scope-v2'' @ [CHR 0x00] @ marshal_strings (scope_values s)"

definition logs_preimage :: "scope \<Rightarrow> bytes" where
  "logs_preimage s = ''observe-logs-scope-v2'' @ [CHR 0x00] @ marshal_strings (scope_values s)"

lemma Hash_eq: "Hash s = Inr h \<longleftrightarrow> scope_ok s \<and> h = Sum256_hex (metrics_preimage s)"
  by (auto simp: Hash_def metrics_preimage_def hashScope_def)

lemma LogsHash_eq: "LogsHash s = Inr h \<longleftrightarrow> scope_ok s \<and> h = Sum256_hex (logs_preimage s)"
  by (auto simp: LogsHash_def logs_preimage_def hashScope_def)

lemma quote_body_inj: "utf8_Valid a \<Longrightarrow> utf8_Valid b \<Longrightarrow> quote_body a = quote_body b \<Longrightarrow> a = b"
  by (metis unquote_quote_body)

lemma marshal_strings_quoted: "marshal_strings vs = marshal_strings ws \<Longrightarrow> map quote_body vs = map quote_body ws"
proof -
  assume eq: "marshal_strings vs = marshal_strings ws"
  have wf: "json_wf maxNestingDepth (JArr (map (\<lambda>v. JStr (quote_body v)) us))" for us
    by (auto simp: maxNestingDepth_def quote_body_body)
  have "JArr (map (\<lambda>v. JStr (quote_body v)) vs) = JArr (map (\<lambda>v. JStr (quote_body v)) ws)"
    using json_parse_pr[OF wf, of vs] json_parse_pr[OF wf, of ws] eq unfolding marshal_strings_def by (metis option.inject)
  then have "map (\<lambda>v. JStr (quote_body v)) vs = map (\<lambda>v. JStr (quote_body v)) ws" by blast
  then show ?thesis by (induction vs ws rule: list_induct2') auto
qed

lemma marshal_strings_inj:
  "marshal_strings vs = marshal_strings ws \<Longrightarrow> list_all utf8_Valid vs \<Longrightarrow> list_all utf8_Valid ws \<Longrightarrow> vs = ws"
  by (drule marshal_strings_quoted, induction vs ws rule: list_induct2') (auto dest: quote_body_inj)

lemma scope_values_inj: "scope_values s = scope_values t \<Longrightarrow> s = t"
  by (cases s; cases t) (simp add: scope_values_def)

lemma metrics_preimage_inj:
  "metrics_preimage s = metrics_preimage t \<Longrightarrow> list_all utf8_Valid (scope_values s) \<Longrightarrow> list_all utf8_Valid (scope_values t) \<Longrightarrow> s = t"
proof -
  assume eq: "metrics_preimage s = metrics_preimage t"
    and v: "list_all utf8_Valid (scope_values s)" "list_all utf8_Valid (scope_values t)"
  have "marshal_strings (scope_values s) = marshal_strings (scope_values t)"
    using eq by (simp add: metrics_preimage_def)
  from marshal_strings_inj[OF this v] show ?thesis by (rule scope_values_inj)
qed

lemma preimages_differ: "metrics_preimage s \<noteq> logs_preimage t"
  by (simp add: metrics_preimage_def logs_preimage_def)

lemma Hash_same_digest: "Hash s = Inr h \<Longrightarrow> Hash t = Inr h \<Longrightarrow> Sum256 (metrics_preimage s) = Sum256 (metrics_preimage t)"
  by (simp add: Hash_eq Sum256_hex_inj)

lemma scope_hash_length: "Hash s = Inr h \<Longrightarrow> length h = 64 \<and> list_all is_hex h"
  by (auto simp: Hash_eq Sum256_hex_is_hex)

text \<open>
  C30: A metrics spool hash names one deployment and host: two accepted scopes of valid UTF-8 with the same
  hash are equal, or a SHA-256 collision between their two encodings has been found; and no scope's
  metrics hash is a logs hash of any scope without such a collision.
\<close>

theorem Hash_identifies_scope:
  assumes "Hash s = Inr h" "list_all utf8_Valid (scope_values s)" "list_all utf8_Valid (scope_values t)"
  shows "(Hash t = Inr h \<longrightarrow> s = t \<or> sha_collision (metrics_preimage s) (metrics_preimage t))
    \<and> (LogsHash t = Inr h \<longrightarrow> sha_collision (metrics_preimage s) (logs_preimage t))"
proof (intro conjI impI)
  assume "Hash t = Inr h"
  then show "s = t \<or> sha_collision (metrics_preimage s) (metrics_preimage t)"
    using Hash_same_digest[OF assms(1)] metrics_preimage_inj assms(2,3) by (auto simp: sha_collision_def)
next
  assume "LogsHash t = Inr h"
  then have "Sum256 (metrics_preimage s) = Sum256 (logs_preimage t)"
    using assms(1) by (simp add: Hash_eq LogsHash_eq Sum256_hex_inj)
  then show "sha_collision (metrics_preimage s) (logs_preimage t)"
    using preimages_differ by (simp add: sha_collision_def)
qed

definition sample_scope :: scope where
  "sample_scope = \<lparr>BackendID = ''b1'', OrganizationID = ''o1'', HostID = ''h1'', Account = '''', Region = ''eu''\<rparr>"

lemma sample_scope_ok: "scope_ok sample_scope"
  by code_simp

lemma sample_scope_text: "list_all (list_all text_char) (scope_values sample_scope)"
  by code_simp

lemma utf8_text: "list_all text_char s \<Longrightarrow> utf8_Valid s"
proof (induction s)
  case (Cons c s)
  then show ?case using rune_len_ascii[of c s] by (subst utf8_Valid.simps) (simp add: text_char_def)
qed simp

lemma sample_scope_utf8: "list_all utf8_Valid (scope_values sample_scope)"
  using sample_scope_text by (auto simp: list_all_iff intro: utf8_text[unfolded list_all_iff])

definition other_scope :: scope where
  "other_scope = sample_scope\<lparr>HostID := ''h2''\<rparr>"

lemma other_scope_ok: "scope_ok other_scope"
  by code_simp

lemma other_scope_utf8: "list_all utf8_Valid (scope_values other_scope)"
proof -
  have "list_all (list_all text_char) (scope_values other_scope)" by code_simp
  then show ?thesis by (auto simp: list_all_iff intro: utf8_text[unfolded list_all_iff])
qed

text \<open>Two hosts of one deployment have different spool hashes, but for a collision of SHA-256.\<close>

theorem Hash_identifies_scope_witness:
  "is_ok (Hash sample_scope) \<and> is_ok (Hash other_scope)
   \<and> \<not> (Hash other_scope = Hash sample_scope \<and> \<not> sha_collision (metrics_preimage sample_scope) (metrics_preimage other_scope))"
proof -
  have h: "Hash sample_scope = Inr (Sum256_hex (metrics_preimage sample_scope))" using sample_scope_ok by (simp add: Hash_eq)
  have "Hash other_scope = Inr (Sum256_hex (metrics_preimage other_scope))" using other_scope_ok by (simp add: Hash_eq)
  then have o: "is_ok (Hash other_scope)" by (metis is_ok.simps(2))
  have "sample_scope \<noteq> other_scope" by (simp add: other_scope_def sample_scope_def)
  with Hash_identifies_scope[OF h sample_scope_utf8 other_scope_utf8] h o show ?thesis by (metis is_ok.simps(2))
qed

end
