(* ===== verification/Fs.thy ===== *)
theory Fs
  imports Prelude
begin

text \<open>
  The file system calls of the spools (\<^verbatim>\<open>os\<close>, \<^verbatim>\<open>syscall\<close>), on one private directory: what each call does to
  the live directory, which of its effects survive a crash, and how it may fail.

  \<open>fs_dir\<close> is the live directory. \<open>fs_disk\<close> is the directory as the last successful \<^verbatim>\<open>fsync\<close> of it left it
  and \<open>fs_recent\<close> lists the directory entries written since: after a crash each name has one of these
  values (\<open>poss\<close>), and a file whose data was not synced has arbitrary data. \<open>fs_fates\<close> is the script of
  faults: every call consumes one entry (none left means success), so that a statement about all scripts
  is a statement about a fault at any call. \<open>fs_locked\<close> is the \<^verbatim>\<open>flock\<close> on the file \<^verbatim>\<open>lock\<close>.
\<close>

section \<open>Files and directories\<close>

datatype kind = Regular | Symlink | Directory | Special

record inode =
  f_kind :: kind
  f_mode :: nat
  f_uid :: nat
  f_nlink :: nat
  f_data :: bytes
  f_synced :: bool

text \<open>\<open>Fault n\<close>: the call fails; a write has written \<open>n\<close> bytes by then.\<close>

datatype fate = Fine | Fault nat

record fs =
  fs_dir :: "(bytes \<times> inode) list"
  fs_disk :: "(bytes \<times> inode) list"
  fs_recent :: "(bytes \<times> inode option) list"
  fs_fates :: "fate list"
  fs_euid :: nat
  fs_locked :: bool

type_synonym 'a io = "fs \<Rightarrow> 'a result \<times> fs"

fun del :: "bytes \<Rightarrow> (bytes \<times> inode) list \<Rightarrow> (bytes \<times> inode) list" where
  "del n [] = []"
| "del n ((m, f) # d) = (if m = n then del n d else (m, f) # del n d)"

definition ins :: "bytes \<Rightarrow> inode \<Rightarrow> (bytes \<times> inode) list \<Rightarrow> (bytes \<times> inode) list" where
  "ins n f d = del n d @ [(n, f)]"

lemma map_of_del [simp]: "map_of (del n d) m = (if m = n then None else map_of d m)"
  by (induction n d rule: del.induct) auto

lemma map_of_ins [simp]: "map_of (ins n f d) m = (if m = n then Some f else map_of d m)"
  by (auto simp: ins_def map_add_def split: option.splits)

definition live :: "fs \<Rightarrow> bytes \<Rightarrow> inode option" where
  "live s n = map_of (fs_dir s) n"

section \<open>Sequencing\<close>

definition ret :: "'a \<Rightarrow> 'a io" where "ret v s = (Inr v, s)"
definition raise :: "error \<Rightarrow> 'a io" where "raise e s = (Inl e, s)"

definition andThen :: "'a io \<Rightarrow> ('a \<Rightarrow> 'b io) \<Rightarrow> 'b io" where
  "andThen m k s = (case m s of (Inl e, s') \<Rightarrow> (Inl e, s') | (Inr v, s') \<Rightarrow> k v s')"

text \<open>\<open>attempt m\<close> hands the outcome of \<open>m\<close> on as a value, as Go code that inspects \<open>e\<close> does.\<close>

definition attempt :: "'a io \<Rightarrow> 'a result io" where
  "attempt m s = (case m s of (r, s') \<Rightarrow> (Inr r, s'))"

definition fate_of :: "fs \<Rightarrow> fate" where
  "fate_of s = (case fs_fates s of [] \<Rightarrow> Fine | f # _ \<Rightarrow> f)"

definition spend :: "fs \<Rightarrow> fs" where
  "spend s = s\<lparr>fs_fates := tl (fs_fates s)\<rparr>"

text \<open>A call with no effect on the directory beyond its answer.\<close>

definition syscall :: "(fs \<Rightarrow> 'a result \<times> fs) \<Rightarrow> 'a io" where
  "syscall act s = (case fate_of s of Fault _ \<Rightarrow> (Inl OSError, spend s) | Fine \<Rightarrow> act (spend s))"

section \<open>Calls\<close>

definition lstat :: "bytes \<Rightarrow> inode io" where
  "lstat n = syscall (\<lambda>s. case live s n of None \<Rightarrow> (Inl NotExist, s) | Some f \<Rightarrow> (Inr f, s))"

text \<open>\<^verbatim>\<open>os.Stat\<close>; where it would follow a symbolic link out of the directory the model answers with an error.\<close>

definition stat :: "bytes \<Rightarrow> inode io" where
  "stat n = syscall (\<lambda>s. case live s n of None \<Rightarrow> (Inl NotExist, s)
     | Some f \<Rightarrow> if f_kind f = Symlink then (Inl OSError, s) else (Inr f, s))"

text \<open>\<^verbatim>\<open>open(O_RDONLY | O_NOFOLLOW)\<close> and \<^verbatim>\<open>io.ReadAll(io.LimitReader(f, limit))\<close>.\<close>

definition open_read :: "bytes \<Rightarrow> unit io" where
  "open_read n = syscall (\<lambda>s. case live s n of None \<Rightarrow> (Inl NotExist, s)
     | Some f \<Rightarrow> if f_kind f = Symlink then (Inl OSError, s) else (Inr (), s))"

definition read_all :: "bytes \<Rightarrow> nat \<Rightarrow> bytes io" where
  "read_all n limit = syscall (\<lambda>s. case live s n of None \<Rightarrow> (Inl OSError, s)
     | Some f \<Rightarrow> (Inr (take limit (f_data f)), s))"

definition fresh_file :: "fs \<Rightarrow> inode" where
  "fresh_file s = \<lparr>f_kind = Regular, f_mode = 384, f_uid = fs_euid s, f_nlink = 1, f_data = [], f_synced = False\<rparr>"

definition put_entry :: "bytes \<Rightarrow> inode \<Rightarrow> fs \<Rightarrow> fs" where
  "put_entry n f s = s\<lparr>fs_dir := ins n f (fs_dir s), fs_recent := fs_recent s @ [(n, Some f)]\<rparr>"

text \<open>\<^verbatim>\<open>O_CREATE|O_EXCL\<close> with mode 0600 (384).\<close>

definition create_excl :: "bytes \<Rightarrow> unit io" where
  "create_excl n = syscall (\<lambda>s. if live s n \<noteq> None then (Inl OSError, s) else (Inr (), put_entry n (fresh_file s) s))"

text \<open>\<^verbatim>\<open>O_CREATE|O_TRUNC\<close>.\<close>

definition create_trunc :: "bytes \<Rightarrow> unit io" where
  "create_trunc n = syscall (\<lambda>s. case live s n of
       None \<Rightarrow> (Inr (), put_entry n (fresh_file s) s)
     | Some f \<Rightarrow> if f_kind f = Regular then (Inr (), put_entry n (f\<lparr>f_data := [], f_synced := False\<rparr>) s)
                 else (Inl OSError, s))"

definition set_data :: "bytes \<Rightarrow> (inode \<Rightarrow> inode) \<Rightarrow> fs \<Rightarrow> fs" where
  "set_data n g s = (case live s n of None \<Rightarrow> s | Some f \<Rightarrow> put_entry n (g f) s)"

definition write_all :: "bytes \<Rightarrow> bytes \<Rightarrow> unit io" where
  "write_all n d s =
     (case fate_of s of
        Fault k \<Rightarrow> (Inl OSError, set_data n (\<lambda>f. f\<lparr>f_data := f_data f @ take k d, f_synced := False\<rparr>) (spend s))
      | Fine \<Rightarrow> (Inr (), set_data n (\<lambda>f. f\<lparr>f_data := f_data f @ d, f_synced := False\<rparr>) (spend s)))"

definition fsync :: "bytes \<Rightarrow> unit io" where
  "fsync n = syscall (\<lambda>s. (Inr (), set_data n (\<lambda>f. f\<lparr>f_synced := True\<rparr>) s))"

definition close_file :: "unit io" where
  "close_file = syscall (\<lambda>s. (Inr (), s))"

definition rename :: "bytes \<Rightarrow> bytes \<Rightarrow> unit io" where
  "rename old new = syscall (\<lambda>s. case live s old of
       None \<Rightarrow> (Inl NotExist, s)
     | Some f \<Rightarrow>
         if (case live s new of None \<Rightarrow> False | Some g \<Rightarrow> f_kind g = Directory) then (Inl OSError, s)
         else (Inr (), s\<lparr>fs_dir := ins new f (del old (fs_dir s)),
                          fs_recent := fs_recent s @ [(old, None), (new, Some f)]\<rparr>))"

definition remove :: "bytes \<Rightarrow> unit io" where
  "remove n = syscall (\<lambda>s. case live s n of
       None \<Rightarrow> (Inl NotExist, s)
     | Some f \<Rightarrow> if f_kind f = Directory then (Inl OSError, s)
         else (Inr (), s\<lparr>fs_dir := del n (fs_dir s), fs_recent := fs_recent s @ [(n, None)]\<rparr>))"

text \<open>Open the directory and \<^verbatim>\<open>fsync\<close> it: everything in it is durable.\<close>

definition open_dir :: "unit io" where
  "open_dir = syscall (\<lambda>s. (Inr (), s))"

definition fsync_dir :: "unit io" where
  "fsync_dir = syscall (\<lambda>s. (Inr (), s\<lparr>fs_disk := fs_dir s, fs_recent := []\<rparr>))"

definition read_dir :: "bytes list io" where
  "read_dir = syscall (\<lambda>s. (Inr (remdups (map fst (fs_dir s))), s))"

definition flock :: "unit io" where
  "flock = syscall (\<lambda>s. if fs_locked s then (Inl OSError, s) else (Inr (), s\<lparr>fs_locked := True\<rparr>))"

definition unlock :: "fs \<Rightarrow> fs" where
  "unlock s = s\<lparr>fs_locked := False\<rparr>"

section \<open>Crashes\<close>

text \<open>The values a directory entry may have after a crash, and the directories a crash may leave.\<close>

definition poss :: "fs \<Rightarrow> bytes \<Rightarrow> inode option set" where
  "poss s n = insert (map_of (fs_disk s) n) {v. (n, v) \<in> set (fs_recent s)}"

definition survives :: "inode option \<Rightarrow> inode option \<Rightarrow> bool" where
  "survives v w \<longleftrightarrow>
     (case v of
        None \<Rightarrow> w = None
      | Some f \<Rightarrow> (if f_synced f then w = Some f else \<exists>d. w = Some (f\<lparr>f_data := d, f_synced := True\<rparr>)))"

definition crash_image :: "fs \<Rightarrow> (bytes \<Rightarrow> inode option) \<Rightarrow> bool" where
  "crash_image s img \<longleftrightarrow> (\<forall>n. \<exists>v \<in> poss s n. survives v (img n))"

text \<open>A file that is there now and after any crash.\<close>

definition stable :: "fs \<Rightarrow> bytes \<Rightarrow> inode \<Rightarrow> bool" where
  "stable s n f \<longleftrightarrow> live s n = Some f \<and> f_synced f \<and> poss s n = {Some f}"

lemma stable_crash: "stable s n f \<Longrightarrow> crash_image s img \<Longrightarrow> img n = Some f"
  by (auto simp: stable_def crash_image_def survives_def dest: spec[of _ n])

lemma stable_unique: "stable s n f \<Longrightarrow> stable s n g \<Longrightarrow> f = g"
  by (simp add: stable_def)

section \<open>Frames\<close>

text \<open>The names outside \<open>T\<close> keep their entries, live and after a crash.\<close>

definition framed :: "bytes set \<Rightarrow> fs \<Rightarrow> fs \<Rightarrow> bool" where
  "framed T s s' \<longleftrightarrow> fs_euid s' = fs_euid s \<and> fs_locked s' = fs_locked s \<and>
     (\<forall>n. n \<notin> T \<longrightarrow> live s' n = live s n \<and> poss s' n \<subseteq> insert (live s n) (poss s n))"

lemma framed_refl [simp]: "framed T s s"
  by (auto simp: framed_def)

lemma framed_trans: "framed T s1 s2 \<Longrightarrow> framed T s2 s3 \<Longrightarrow> framed T s1 s3"
proof -
  assume a: "framed T s1 s2" "framed T s2 s3"
  have "live s3 n = live s1 n \<and> poss s3 n \<subseteq> insert (live s1 n) (poss s1 n)" if "n \<notin> T" for n
  proof -
    have "live s2 n = live s1 n" "live s3 n = live s2 n" "poss s2 n \<subseteq> insert (live s1 n) (poss s1 n)"
      "poss s3 n \<subseteq> insert (live s2 n) (poss s2 n)" using a that by (auto simp only: framed_def)
    then show ?thesis by auto
  qed
  with a show ?thesis by (simp add: framed_def)
qed

lemma framed_mono: "framed T s s' \<Longrightarrow> T \<subseteq> U \<Longrightarrow> framed U s s'"
  by (auto simp: framed_def)

lemma poss_nonempty: "poss s n \<noteq> {}"
  by (simp add: poss_def)

lemma stable_framed: "stable s n f \<Longrightarrow> framed T s s' \<Longrightarrow> n \<notin> T \<Longrightarrow> stable s' n f"
  using poss_nonempty[of s' n] by (fastforce simp: stable_def framed_def)

lemma live_framed: "framed T s s' \<Longrightarrow> n \<notin> T \<Longrightarrow> live s' n = live s n"
  by (simp add: framed_def)

section \<open>Frames of the calls\<close>

definition frames :: "bytes set \<Rightarrow> 'a io \<Rightarrow> bool" where
  "frames T m \<longleftrightarrow> (\<forall>s. framed T s (snd (m s)))"

lemma framesD: "frames T m \<Longrightarrow> m s = (r, s') \<Longrightarrow> framed T s s'"
  unfolding frames_def by (metis snd_conv)

lemma frames_mono: "frames T m \<Longrightarrow> T \<subseteq> U \<Longrightarrow> frames U m"
  by (auto simp: frames_def intro: framed_mono)

lemma spend_simps [simp]:
  "live (spend s) = live s" "poss (spend s) = poss s" "fs_dir (spend s) = fs_dir s" "fs_euid (spend s) = fs_euid s"
  "fs_locked (spend s) = fs_locked s" "fs_disk (spend s) = fs_disk s" "fs_recent (spend s) = fs_recent s"
  "framed T s (spend s)"
  by (auto simp: spend_def live_def poss_def fun_eq_iff framed_def)

lemma frames_syscall: "(\<And>s. framed T s (snd (act s))) \<Longrightarrow> frames T (syscall act)"
  by (auto simp: frames_def syscall_def split: fate.splits intro: framed_trans[OF spend_simps(8)])

lemma frames_ret [inv_intros]: "frames T (ret v)"
  by (simp add: frames_def ret_def)

lemma frames_raise [inv_intros]: "frames T (raise e)"
  by (simp add: frames_def raise_def)

lemma frames_andThen [inv_intros]:
  assumes "frames T m" "\<And>v. frames T (k v)" shows "frames T (andThen m k)"
  unfolding frames_def
proof
  fix s
  obtain r s1 where m: "m s = (r, s1)" by fastforce
  with assms(1) have "framed T s s1" by (rule framesD)
  moreover have "framed T s1 (snd (k v s1))" for v using assms(2) by (simp add: frames_def)
  ultimately show "framed T s (snd (andThen m k s))"
    using m by (auto simp: andThen_def split: sum.splits intro: framed_trans)
qed

lemma frames_attempt [inv_intros]: "frames T m \<Longrightarrow> frames T (attempt m)"
  by (auto simp: frames_def attempt_def split: prod.splits) (metis snd_conv)

lemma frames_if [inv_intros]: "frames T a \<Longrightarrow> frames T b \<Longrightarrow> frames T (if c then a else b)"
  by simp

lemma frames_result [inv_intros]:
  "(\<And>e. frames T (f e)) \<Longrightarrow> (\<And>v. frames T (g v)) \<Longrightarrow> frames T (case r of Inl e \<Rightarrow> f e | Inr v \<Rightarrow> g v)"
  by (cases r) auto

lemma frames_option [inv_intros]:
  "frames T f \<Longrightarrow> (\<And>v. frames T (g v)) \<Longrightarrow> frames T (case r of None \<Rightarrow> f | Some v \<Rightarrow> g v)"
  by (cases r) auto

lemma put_entry_simps [simp]:
  "live (put_entry n f s) m = (if m = n then Some f else live s m)"
  "poss (put_entry n f s) m = (if m = n then insert (Some f) (poss s m) else poss s m)"
  "fs_euid (put_entry n f s) = fs_euid s" "fs_locked (put_entry n f s) = fs_locked s"
  "fs_disk (put_entry n f s) = fs_disk s"
  by (auto simp: put_entry_def live_def poss_def)

lemma framed_put_entry: "n \<in> T \<Longrightarrow> framed T s (put_entry n f s)"
  by (auto simp: framed_def)

lemma framed_set_data: "n \<in> T \<Longrightarrow> framed T s (set_data n g s)"
  by (auto simp: set_data_def framed_put_entry split: option.splits)

lemma frames_reads [inv_intros]:
  "frames T (lstat n)" "frames T (stat n)" "frames T (open_read n)" "frames T (read_all n k)"
  "frames T close_file" "frames T open_dir" "frames T read_dir"
  unfolding lstat_def stat_def open_read_def read_all_def close_file_def open_dir_def read_dir_def
  by (rule frames_syscall, simp split: option.splits)+

lemma framed_fsync_dir: "framed T s (s\<lparr>fs_disk := fs_dir s, fs_recent := []\<rparr>)"
  by (auto simp: framed_def live_def poss_def)

lemma frames_fsync_dir [inv_intros]: "frames T fsync_dir"
  unfolding fsync_dir_def by (rule frames_syscall) (simp add: framed_fsync_dir)

lemma frames_create [inv_intros]: "n \<in> T \<Longrightarrow> frames T (create_excl n)" "n \<in> T \<Longrightarrow> frames T (create_trunc n)"
  unfolding create_excl_def create_trunc_def
  by (rule frames_syscall, simp add: framed_put_entry split: option.splits)+

lemma frames_fsync [inv_intros]: "n \<in> T \<Longrightarrow> frames T (fsync n)"
  unfolding fsync_def by (rule frames_syscall) (simp add: framed_set_data)

lemma frames_write_all [inv_intros]: "n \<in> T \<Longrightarrow> frames T (write_all n d)"
  by (auto simp: frames_def write_all_def split: fate.splits intro: framed_trans[OF spend_simps(8) framed_set_data])

lemma framed_rename:
  "live s old = Some f \<Longrightarrow> old \<in> T \<Longrightarrow> new \<in> T \<Longrightarrow>
   framed T s (s\<lparr>fs_dir := ins new f (del old (fs_dir s)), fs_recent := fs_recent s @ [(old, None), (new, Some f)]\<rparr>)"
  by (auto simp: framed_def live_def poss_def)

lemma frames_rename [inv_intros]: "old \<in> T \<Longrightarrow> new \<in> T \<Longrightarrow> frames T (rename old new)"
  unfolding rename_def by (rule frames_syscall) (auto simp: framed_rename split: option.splits)

lemma frames_remove [inv_intros]: "n \<in> T \<Longrightarrow> frames T (remove n)"
  unfolding remove_def by (rule frames_syscall) (auto simp: framed_def live_def poss_def split: option.splits)

section \<open>Outcomes of the calls\<close>

lemma andThen_Inr:
  "andThen m k s = (Inr v, s') \<longleftrightarrow> (\<exists>x s1. m s = (Inr x, s1) \<and> k x s1 = (Inr v, s'))"
  by (auto simp: andThen_def split: prod.splits sum.splits)

lemma andThen_Inl:
  "andThen m k s = (Inl e, s') \<longleftrightarrow> m s = (Inl e, s') \<or> (\<exists>x s1. m s = (Inr x, s1) \<and> k x s1 = (Inl e, s'))"
  by (auto simp: andThen_def split: prod.splits sum.splits)

lemma attempt_eq: "attempt m s = (r, s') \<longleftrightarrow> (\<exists>x. r = Inr x \<and> m s = (x, s'))"
  by (auto simp: attempt_def split: prod.splits)

lemma ret_eq [simp]: "ret v s = (r, s') \<longleftrightarrow> r = Inr v \<and> s' = s"
  by (auto simp: ret_def)

lemma raise_eq [simp]: "raise e s = (r, s') \<longleftrightarrow> r = Inl e \<and> s' = s"
  by (auto simp: raise_def)

lemma syscall_Inr: "syscall act s = (Inr v, s') \<Longrightarrow> act (spend s) = (Inr v, s')"
  by (auto simp: syscall_def split: fate.splits)

lemma syscall_cases: "syscall act s = (r, s') \<Longrightarrow> (r = Inl OSError \<and> s' = spend s) \<or> act (spend s) = (r, s')"
  by (auto simp: syscall_def split: fate.splits)

lemma lstat_Inr: "lstat n s = (Inr f, s') \<Longrightarrow> live s n = Some f \<and> s' = spend s"
  unfolding lstat_def by (drule syscall_Inr) (auto split: option.splits)

lemma lstat_state: "lstat n s = (r, s') \<Longrightarrow> s' = spend s"
  unfolding lstat_def by (drule syscall_cases) (auto split: option.splits)

lemma lstat_NotExist: "lstat n s = (Inl NotExist, s') \<Longrightarrow> live s n = None"
  unfolding lstat_def by (drule syscall_cases) (auto split: option.splits)

lemma stat_Inr: "stat n s = (Inr f, s') \<Longrightarrow> live s n = Some f \<and> s' = spend s"
  unfolding stat_def by (drule syscall_Inr) (auto split: option.splits if_splits)

lemma stat_state: "stat n s = (r, s') \<Longrightarrow> s' = spend s"
  unfolding stat_def by (drule syscall_cases) (auto split: option.splits if_splits)

lemma open_read_state: "open_read n s = (r, s') \<Longrightarrow> s' = spend s"
  unfolding open_read_def by (drule syscall_cases) (auto split: option.splits if_splits)

lemma open_read_NotExist: "open_read n s = (Inl NotExist, s') \<Longrightarrow> live s n = None"
  unfolding open_read_def by (drule syscall_cases) (auto split: option.splits if_splits)

lemma read_all_state: "read_all n k s = (r, s') \<Longrightarrow> s' = spend s"
  unfolding read_all_def by (drule syscall_cases) (auto split: option.splits)

lemma read_all_Inr: "read_all n k s = (Inr b, s') \<Longrightarrow> \<exists>f. live s n = Some f \<and> b = take k (f_data f)"
  unfolding read_all_def by (drule syscall_Inr) (auto split: option.splits)

lemma read_all_error: "read_all n k s = (Inl e, s') \<Longrightarrow> e = OSError"
  unfolding read_all_def by (drule syscall_cases) (auto split: option.splits)

lemma close_file_state: "close_file s = (r, s') \<Longrightarrow> s' = spend s"
  unfolding close_file_def by (drule syscall_cases) auto

lemma create_excl_Inr:
  "create_excl n s = (Inr u, s') \<Longrightarrow> live s n = None \<and> s' = put_entry n (fresh_file s) (spend s)"
  unfolding create_excl_def by (drule syscall_Inr) (auto split: if_splits simp: fresh_file_def)

lemma create_excl_Inl: "create_excl n s = (Inl e, s') \<Longrightarrow> s' = spend s \<and> e = OSError"
  unfolding create_excl_def by (drule syscall_cases) (auto split: if_splits)

lemma rename_Inr:
  "rename old new s = (Inr u, s') \<Longrightarrow> old \<noteq> new \<Longrightarrow> \<exists>f. live s old = Some f \<and> live s' new = Some f \<and> live s' old = None
     \<and> poss s' new = insert (Some f) (poss s new) \<and> poss s' old = insert None (poss s old)"
  unfolding rename_def by (drule syscall_Inr) (auto split: option.splits if_splits simp: live_def poss_def)

lemma rename_Inl: "rename old new s = (Inl e, s') \<Longrightarrow> s' = spend s"
  unfolding rename_def by (drule syscall_cases) (auto split: option.splits if_splits)

lemma remove_Inr: "remove n s = (Inr u, s') \<Longrightarrow> live s n \<noteq> None \<and> live s' n = None"
  unfolding remove_def by (drule syscall_Inr) (auto split: option.splits if_splits simp: live_def)

lemma remove_Inl: "remove n s = (Inl e, s') \<Longrightarrow> s' = spend s"
  unfolding remove_def by (drule syscall_cases) (auto split: option.splits if_splits)

lemma fsync_dir_Inr:
  "fsync_dir s = (Inr u, s') \<Longrightarrow> live s' = live s \<and> (\<forall>n. poss s' n = {live s n})"
  unfolding fsync_dir_def by (drule syscall_Inr) (auto simp: live_def poss_def fun_eq_iff)

lemma live_frames_nil: "frames {} m \<Longrightarrow> m s = (r, s') \<Longrightarrow> live s' = live s"
  by (drule framesD, assumption) (auto simp: framed_def fun_eq_iff)

section \<open>Filling a file\<close>

text \<open>\<^verbatim>\<open>f.Write\<close>, \<^verbatim>\<open>f.Sync\<close> unless the write failed, \<^verbatim>\<open>f.Close\<close> in any case; the first error wins.\<close>

definition fill :: "bytes \<Rightarrow> bytes \<Rightarrow> unit io" where
  "fill n d =
     andThen (attempt (andThen (write_all n d) (\<lambda>_. fsync n))) (\<lambda>e.
     andThen (attempt close_file) (\<lambda>ce.
       case e of Inl x \<Rightarrow> raise x | Inr _ \<Rightarrow> (case ce of Inl x \<Rightarrow> raise x | Inr _ \<Rightarrow> ret ())))"

lemma frames_fill [inv_intros]: "n \<in> T \<Longrightarrow> frames T (fill n d)"
  unfolding fill_def by (intro inv_intros)

lemma set_data_live: "live s n = Some f \<Longrightarrow> set_data n g s = put_entry n (g f) s"
  by (simp add: set_data_def)

lemma write_all_Inr:
  "write_all n d s = (Inr u, s') \<Longrightarrow> live s n = Some f \<Longrightarrow> live s' n = Some (f\<lparr>f_data := f_data f @ d, f_synced := False\<rparr>)"
  by (auto simp: write_all_def set_data_live split: fate.splits)

lemma write_all_live: "write_all n d s = (r, s') \<Longrightarrow> live s n \<noteq> None \<Longrightarrow> live s' n \<noteq> None"
  by (auto simp: write_all_def set_data_live split: fate.splits)

lemma fsync_Inr: "fsync n s = (Inr u, s') \<Longrightarrow> live s n = Some f \<Longrightarrow> live s' n = Some (f\<lparr>f_synced := True\<rparr>)"
  unfolding fsync_def by (drule syscall_Inr) (auto simp: set_data_live)

lemma fsync_live: "fsync n s = (r, s') \<Longrightarrow> live s n \<noteq> None \<Longrightarrow> live s' n \<noteq> None"
  unfolding fsync_def by (drule syscall_cases) (auto simp: set_data_live)

lemma fill_Inr:
  assumes "fill n d s = (Inr u, s')" "live s n = Some f"
  shows "live s' n = Some (f\<lparr>f_data := f_data f @ d, f_synced := True\<rparr>)"
proof -
  obtain x s2 where x: "andThen (write_all n d) (\<lambda>_. fsync n) s = (x, s2)" by fastforce
  obtain r s3 where r: "close_file s2 = (r, s3)" by fastforce
  from assms(1) x r have "x = Inr ()" "s3 = s'"
    by (cases x; cases r; simp add: fill_def andThen_def attempt_def raise_def ret_def)+
  with x r obtain s1 where w: "write_all n d s = (Inr (), s1)" "fsync n s1 = (Inr (), s2)" "close_file s2 = (r, s')"
    by (auto simp: andThen_Inr)
  from write_all_Inr[OF w(1) assms(2)] fsync_Inr[OF w(2)] close_file_state[OF w(3)] show ?thesis by simp
qed

end
