(* ===== verification/Durable.thy ===== *)
theory Durable
  imports Prelude
begin

text \<open>
  The queue interface (\<^verbatim>\<open>src/internal/queue/queue.go\<close>) and the contracts of the spools behind it. \<open>pending q\<close> lists the receipts in
  delivery order, \<open>content q n\<close> is the payload that can be read back for a receipt (\<open>None\<close> where the
  record is unreadable) and \<open>stored d\<close> the payload that is kept for an accepted \<open>d\<close>. The laws hold
  whatever fails underneath.
\<close>

text \<open>
  What \<^verbatim>\<open>Next\<close> answers: an item with its receipt, or \<open>Waiting\<close> where it blocks until the next \<^verbatim>\<open>Put\<close>.
\<close>

datatype next_item = Waiting | Item bytes bytes

text \<open>What the delivery side of every spool promises.\<close>

locale delivery_queue =
  fixes fetch :: "error option \<Rightarrow> 'q \<Rightarrow> next_item result \<times> 'q"
    and ack :: "error option \<Rightarrow> bytes \<Rightarrow> 'q \<Rightarrow> unit result \<times> 'q"
    and invar :: "'q \<Rightarrow> bool"
    and pending :: "'q \<Rightarrow> bytes list"
    and content :: "'q \<Rightarrow> bytes \<Rightarrow> bytes option"
  assumes fetch_law: "invar q \<Longrightarrow> fetch c q = (x, q') \<Longrightarrow>
      invar q' \<and> (\<forall>n \<in> set (pending q'). content q' n = content q n) \<and>
      (\<exists>dropped. pending q = dropped @ pending q' \<and> (\<forall>n \<in> set dropped. content q n = None)) \<and>
      (case x of Inr (Item n d) \<Rightarrow> (\<exists>rest. pending q' = n # rest) \<and> content q n = Some d | _ \<Rightarrow> True)"
    and ack_law: "invar q \<Longrightarrow> ack c n q = (y, q') \<Longrightarrow>
      invar q' \<and> (\<forall>m \<in> set (pending q) - {n}. content q' m = content q m) \<and>
      (case y of Inl e \<Rightarrow> pending q' = pending q | Inr _ \<Rightarrow> pending q = n # pending q')"
    and pending_distinct: "invar q \<Longrightarrow> distinct (pending q)"

text \<open>The \<^verbatim>\<open>Durable\<close> interface: what is put is pending at once, behind everything else.\<close>

locale durable_queue = delivery_queue fetch ack invar pending content
  for fetch :: "error option \<Rightarrow> 'q \<Rightarrow> next_item result \<times> 'q"
    and ack :: "error option \<Rightarrow> bytes \<Rightarrow> 'q \<Rightarrow> unit result \<times> 'q"
    and invar :: "'q \<Rightarrow> bool"
    and pending :: "'q \<Rightarrow> bytes list"
    and content :: "'q \<Rightarrow> bytes \<Rightarrow> bytes option" +
  fixes put :: "error option \<Rightarrow> bytes \<Rightarrow> 'q \<Rightarrow> bytes result \<times> 'q"
    and stored :: "bytes \<Rightarrow> bytes option"
  assumes put_law: "invar q \<Longrightarrow> put c d q = (r, q') \<Longrightarrow>
      invar q' \<and> (\<forall>n \<in> set (pending q). content q' n = content q n) \<and>
      (case r of Inl e \<Rightarrow> pending q' = pending q
       | Inr n \<Rightarrow> pending q' = pending q @ [n] \<and> content q' n = stored d)"

text \<open>
  A spool with two-step acceptance: \<open>admit\<close> keeps a payload under an identity, once; \<open>activate\<close> makes it
  pending, wherever its place in the order is. \<open>admitted q\<close> pairs the identities with their receipts. A spool
  that cannot number another record does not \<open>fits\<close>.
\<close>

locale admission_queue = delivery_queue fetch ack invar pending content
  for fetch :: "error option \<Rightarrow> 'q \<Rightarrow> next_item result \<times> 'q"
    and ack :: "error option \<Rightarrow> bytes \<Rightarrow> 'q \<Rightarrow> unit result \<times> 'q"
    and invar :: "'q \<Rightarrow> bool"
    and pending :: "'q \<Rightarrow> bytes list"
    and content :: "'q \<Rightarrow> bytes \<Rightarrow> bytes option" +
  fixes admit :: "error option \<Rightarrow> bytes \<Rightarrow> bytes \<Rightarrow> 'q \<Rightarrow> (bytes \<times> bool) result \<times> 'q"
    and activate :: "error option \<Rightarrow> bytes \<Rightarrow> 'q \<Rightarrow> unit result \<times> 'q"
    and admitted :: "'q \<Rightarrow> (bytes \<times> bytes) list"
    and fits :: "'q \<Rightarrow> bool"
    and stored :: "bytes \<Rightarrow> bytes \<Rightarrow> bytes option"
  assumes admit_law: "invar q \<Longrightarrow> fits q \<Longrightarrow> admit c a d q = (r, q') \<Longrightarrow>
      invar q' \<and> pending q' = pending q \<and> (\<forall>n \<in> snd ` set (admitted q). content q' n = content q n) \<and>
      (case r of
         Inl e \<Rightarrow> admitted q' = admitted q
       | Inr (n, existed) \<Rightarrow>
           if existed then (a, n) \<in> set (admitted q) \<and> admitted q' = admitted q
           else a \<notin> fst ` set (admitted q) \<and> n \<notin> snd ` set (admitted q) \<and> admitted q' = admitted q @ [(a, n)]
              \<and> content q' n = stored a d)"
    and activate_law: "invar q \<Longrightarrow> activate c a q = (y, q') \<Longrightarrow>
      invar q' \<and> admitted q' = admitted q \<and> (\<forall>n \<in> snd ` set (admitted q). content q' n = content q n) \<and>
      set (pending q') = (case y of Inl _ \<Rightarrow> set (pending q)
        | Inr _ \<Rightarrow> set (pending q) \<union> {n. (a, n) \<in> set (admitted q)})"
    and fetch_admitted: "invar q \<Longrightarrow> fetch c q = (x, q') \<Longrightarrow>
      set (admitted q') = {e \<in> set (admitted q). snd e \<notin> set (pending q) - set (pending q')} \<and>
      (\<forall>n \<in> snd ` set (admitted q'). content q' n = content q n)"
    and ack_admitted: "invar q \<Longrightarrow> ack c n q = (y, q') \<Longrightarrow>
      set (admitted q') = (case y of Inl _ \<Rightarrow> set (admitted q) | Inr _ \<Rightarrow> {e \<in> set (admitted q). snd e \<noteq> n}) \<and>
      (\<forall>m \<in> snd ` set (admitted q) - {n}. content q' m = content q m)"
    and admitted_distinct: "invar q \<Longrightarrow> distinct (map fst (admitted q)) \<and> distinct (map snd (admitted q))"
    and pending_admitted: "invar q \<Longrightarrow> set (pending q) \<subseteq> snd ` set (admitted q)"

end
