(* ===== verification/DiskQueue.thy ===== *)
theory DiskQueue
  imports Scope Fs Durable
begin

text \<open>
  The metrics spool (\<^verbatim>\<open>src/internal/queue/disk_linux.go\<close>): a FIFO of records kept one file each in a
  private directory. The record \<open>disk\<close> is the Go struct \<^verbatim>\<open>Disk\<close>, with the directory it owns as \<open>q_fs\<close>;
  every method is a function from the state before to the outcome and the state after. A context is the
  error it has (\<open>None\<close> while it is live).
\<close>

section \<open>Data\<close>

record disk_manifest =
  m_version :: int
  m_scope :: bytes
  m_next :: u64

record disk_record =
  r_version :: int
  r_hash :: bytes
  r_payload :: bytes

record disk =
  q_lock :: bool
  q_manifest :: disk_manifest
  q_names :: "bytes list"
  q_bytes :: int
  q_count :: int
  q_maxBytes :: int
  q_maxItems :: int
  q_closed :: bool
  q_wake :: bool
  q_corrupt :: u64
  q_fs :: fs

definition charge :: "int \<Rightarrow> int" where
  "charge n = ((n + 4095) div 4096) * 4096"

definition rec_name :: "u64 \<Rightarrow> bytes" where
  "rec_name n = pad 20 (unat n) @ ''.rec''"

definition zero_manifest :: disk_manifest where
  "zero_manifest = \<lparr>m_version = 0, m_scope = [], m_next = 0\<rparr>"

definition json_manifest :: "disk_manifest \<Rightarrow> json" where
  "json_manifest m = JObj
     [(''Version'', JNum (dec_int (m_version m))), (''Scope'', JStr (quote_body (m_scope m))),
      (''Next'', JNum (dec (unat (m_next m))))]"

definition marshal_manifest :: "disk_manifest \<Rightarrow> bytes" where
  "marshal_manifest m = pr (json_manifest m)"

definition set_manifest :: "bytes \<Rightarrow> bytes \<Rightarrow> disk_manifest \<Rightarrow> disk_manifest option" where
  "set_manifest f v m =
     (if f = ''Version'' then map_option (\<lambda>x. m\<lparr>m_version := x\<rparr>) (get_int v (m_version m))
      else if f = ''Scope'' then map_option (\<lambda>x. m\<lparr>m_scope := x\<rparr>) (get_string v (m_scope m))
      else map_option (\<lambda>x. m\<lparr>m_next := x\<rparr>) (get_u64 v (m_next m)))"

definition unmarshal_manifest :: "bytes \<Rightarrow> disk_manifest \<Rightarrow> disk_manifest option" where
  "unmarshal_manifest b m =
     (case json_fields b of None \<Rightarrow> None | Some kvs \<Rightarrow> set_fields [''Version'', ''Scope'', ''Next''] set_manifest kvs m)"

text \<open>
  \<^verbatim>\<open>json.Marshal\<close> of a record; the payload is a \<^verbatim>\<open>RawMessage\<close>, compacted again on the way out. The error is
  dropped by the code, which leaves no bytes.
\<close>

definition marshal_record :: "disk_record \<Rightarrow> bytes" where
  "marshal_record r =
     (case compact (r_payload r) of
        None \<Rightarrow> []
      | Some p \<Rightarrow> CHR ''{'' # QUOTE # ''Version'' @ [QUOTE, CHR '':''] @ dec_int (r_version r)
          @ [CHR '','', QUOTE] @ ''Hash'' @ [QUOTE, CHR '':'', QUOTE] @ quote_body (r_hash r)
          @ [QUOTE, CHR '','', QUOTE] @ ''Payload'' @ [QUOTE, CHR '':''] @ p @ [CHR ''}''])"

definition set_record :: "bytes \<Rightarrow> bytes \<Rightarrow> disk_record \<Rightarrow> disk_record option" where
  "set_record f v r =
     (if f = ''Version'' then map_option (\<lambda>x. r\<lparr>r_version := x\<rparr>) (get_int v (r_version r))
      else if f = ''Hash'' then map_option (\<lambda>x. r\<lparr>r_hash := x\<rparr>) (get_string v (r_hash r))
      else Some (r\<lparr>r_payload := v\<rparr>))"

definition unmarshal_record :: "bytes \<Rightarrow> disk_record option" where
  "unmarshal_record b =
     (case json_fields b of
        None \<Rightarrow> None
      | Some kvs \<Rightarrow> set_fields [''Version'', ''Hash'', ''Payload''] set_record kvs
          \<lparr>r_version = 0, r_hash = [], r_payload = []\<rparr>)"

section \<open>Files of the spool\<close>

definition on_fs :: "'a io \<Rightarrow> disk \<Rightarrow> 'a result \<times> disk" where
  "on_fs m q = (case m (q_fs q) of (r, s) \<Rightarrow> (r, q\<lparr>q_fs := s\<rparr>))"

text \<open>Mode 0600 is 384.\<close>

definition unsafe_inode :: "fs \<Rightarrow> inode \<Rightarrow> nat \<Rightarrow> bool" where
  "unsafe_inode s f limit \<longleftrightarrow> f_kind f \<noteq> Regular \<or> f_mode f \<noteq> 384 \<or> f_uid f \<noteq> fs_euid s \<or> f_nlink f \<noteq> 1
     \<or> limit < length (f_data f)"

definition disk_read :: "bytes \<Rightarrow> nat \<Rightarrow> bytes io" where
  "disk_read name limit =
     andThen (lstat name) (\<lambda>f s.
       if unsafe_inode s f limit then raise (Failure ''unsafe or oversized spool file'') s
       else andThen (open_read name) (\<lambda>_.
            andThen (read_all name (limit + 1)) (\<lambda>b.
              if limit < length b then raise (Failure ''spool file grew beyond bound'') else ret b)) s)"

definition syncDir :: "unit io" where
  "syncDir = andThen open_dir (\<lambda>_. fsync_dir)"

text \<open>The deferred \<^verbatim>\<open>os.Remove\<close> of the pending file runs on every path after the file was created.\<close>

definition disk_write :: "bytes \<Rightarrow> bytes \<Rightarrow> unit io" where
  "disk_write name data =
     andThen (create_excl ''.pending'') (\<lambda>_.
     andThen (attempt
        (andThen (fill ''.pending'' data) (\<lambda>_.
         andThen (rename ''.pending'' name) (\<lambda>_. syncDir)))) (\<lambda>e.
     andThen (attempt (remove ''.pending'')) (\<lambda>_.
       case e of Inl x \<Rightarrow> raise x | Inr _ \<Rightarrow> ret ())))"

definition disk_saveManifest :: "disk_manifest \<Rightarrow> unit io" where
  "disk_saveManifest m =
     andThen (disk_write ''manifest.backup'' (marshal_manifest m)) (\<lambda>_.
       disk_write ''manifest.json'' (marshal_manifest m))"

definition decodeRecord :: "bytes \<Rightarrow> bytes result" where
  "decodeRecord b =
     (case unmarshal_record b of
        None \<Rightarrow> Inl (Failure ''corrupt record'')
      | Some r \<Rightarrow>
          if r_version r \<noteq> 1 \<or> \<not> json_Valid (r_payload r) then Inl (Failure ''corrupt record'')
          else if Sum256_hex (r_payload r) \<noteq> r_hash r then Inl (Failure ''record checksum mismatch'')
          else Inr (r_payload r))"

definition quarantine :: "bytes \<Rightarrow> disk \<Rightarrow> unit result \<times> disk" where
  "quarantine name q =
     (case on_fs (rename name (TrimSuffix name ''.rec'' @ ''.bad'')) q of
        (Inl e, q1) \<Rightarrow> (Inl e, q1)
      | (Inr _, q1) \<Rightarrow> on_fs syncDir (q1\<lparr>q_corrupt := q_corrupt q1 + 1\<rparr>))"

section \<open>Operations\<close>

definition Put :: "error option \<Rightarrow> bytes \<Rightarrow> disk \<Rightarrow> bytes result \<times> disk" where
  "Put ctx data q =
     (case ctx of Some e \<Rightarrow> (Inl e, q) | None \<Rightarrow>
      if q_closed q then (Inl (Failure ''spool closed''), q)
      else if 4194304 < length data \<or> \<not> json_Valid data then (Inl (Failure ''invalid spool payload''), q)
      else (case compact data of None \<Rightarrow> (Inl (Failure ''json''), q) | Some normalized \<Rightarrow>
        let b = marshal_record \<lparr>r_version = 1, r_hash = Sum256_hex normalized, r_payload = normalized\<rparr>;
            cost = charge (int (length b))
        in if q_maxItems q \<le> q_count q \<or> q_maxBytes q < q_bytes q + cost then (Inl ErrFull, q)
           else if m_next (q_manifest q) = - 1 then (Inl (Failure ''spool sequence exhausted''), q)
           else
             let name = rec_name (m_next (q_manifest q));
                 q1 = q\<lparr>q_manifest := (q_manifest q)\<lparr>m_next := m_next (q_manifest q) + 1\<rparr>\<rparr>
             in (case on_fs (disk_saveManifest (q_manifest q1)) q1 of
                   (Inl e, q2) \<Rightarrow> (Inl e, q2\<lparr>q_closed := True\<rparr>)
                 | (Inr _, q2) \<Rightarrow>
                     (case on_fs (disk_write name b) q2 of
                        (Inl e, q3) \<Rightarrow> (Inl e, q3\<lparr>q_closed := True\<rparr>)
                      | (Inr _, q3) \<Rightarrow>
                          (Inr name, q3\<lparr>q_names := q_names q3 @ [name], q_count := q_count q3 + 1,
                             q_bytes := q_bytes q3 + cost, q_wake := True\<rparr>)))))"

text \<open>
  \<open>Next\<close> up to the point where it returns (an item or an error) or waits for a put (\<open>Waiting\<close>, with the
  wake-up token consumed). Each round of the loop that does not return drops a quarantined head.
\<close>

function Next :: "error option \<Rightarrow> disk \<Rightarrow> next_item result \<times> disk" where
  "Next ctx q =
     (case ctx of Some e \<Rightarrow> (Inl e, q) | None \<Rightarrow>
      if q_closed q then (Inl (Failure ''spool closed''), q)
      else (case q_names q of
        [] \<Rightarrow> (Inr Waiting, q\<lparr>q_wake := False\<rparr>)
      | name # rest \<Rightarrow>
          (case on_fs (disk_read name 5242880) q of
             (Inl e, q1) \<Rightarrow> (Inl e, q1)
           | (Inr b, q1) \<Rightarrow>
               (case decodeRecord b of
                  Inr data \<Rightarrow> (Inr (Item name data), q1)
                | Inl _ \<Rightarrow>
                    (case quarantine name q1 of
                       (Inl e, q2) \<Rightarrow> (Inl e, q2)
                     | (Inr _, q2) \<Rightarrow> Next ctx (q2\<lparr>q_names := rest\<rparr>))))))"
  by pat_completeness auto
termination
  by (relation "measure (\<lambda>(_, q). length (q_names q))") auto

declare Next.simps [simp del]

definition Ack :: "error option \<Rightarrow> bytes \<Rightarrow> disk \<Rightarrow> unit result \<times> disk" where
  "Ack ctx rid q =
     (case ctx of Some e \<Rightarrow> (Inl e, q) | None \<Rightarrow>
      if q_closed q then (Inl (Failure ''spool closed''), q)
      else if q_names q = [] \<or> hd (q_names q) \<noteq> rid then (Inl (Failure ''receipt is not current FIFO head''), q)
      else (case on_fs (stat rid) q of
        (Inl e, q1) \<Rightarrow> (Inl e, q1)
      | (Inr info, q1) \<Rightarrow>
          (case on_fs (remove rid) q1 of
             (Inl e, q2) \<Rightarrow> (Inl e, q2)
           | (Inr _, q2) \<Rightarrow>
               (case on_fs syncDir q2 of
                  (Inl e, q3) \<Rightarrow> (Inl e, q3\<lparr>q_closed := True\<rparr>)
                | (Inr _, q3) \<Rightarrow>
                    (Inr (), q3\<lparr>q_names := tl (q_names q3), q_count := q_count q3 - 1,
                        q_bytes := q_bytes q3 - charge (int (length (f_data info)))\<rparr>)))))"

definition CloseDisk :: "disk \<Rightarrow> unit result \<times> disk" where
  "CloseDisk q =
     (let q1 = q\<lparr>q_closed := True, q_wake := True\<rparr> in
      if \<not> q_lock q1 then (Inr (), q1)
      else (case on_fs close_file q1 of (r, q2) \<Rightarrow> (r, q2\<lparr>q_lock := False, q_fs := unlock (q_fs q2)\<rparr>)))"

definition Corrupt :: "disk \<Rightarrow> u64" where
  "Corrupt q = q_corrupt q"

end
