(* ===== verification/DiskFacts.thy ===== *)
theory DiskFacts
  imports DiskQueue
begin

section \<open>Records are read back\<close>

lemma dec_int_of_nat: "dec_int (int n) = dec n"
  by (simp add: dec_int_def)

lemma marshal_record_pr:
  assumes "compact (r_payload r) = Some (pr v)"
  shows "marshal_record r = pr (JObj [(''Version'', JNum (dec_int (r_version r))), (''Hash'', JStr (quote_body (r_hash r))), (''Payload'', v)])"
  by (simp add: marshal_record_def assms)

lemma field_names_text:
  "list_all text_char ''Version''" "list_all text_char ''Hash''" "list_all text_char ''Payload''"
  "list_all text_char ''Scope''" "list_all text_char ''Next''"
  by (simp_all add: text_char_def plain_def char_consts)

lemmas field_unquote = field_names_text[THEN unquote_text]
lemmas field_body = field_names_text[THEN text_body]

lemma Sum256_text: "list_all text_char (Sum256_hex s)"
  by (rule hex_text) (rule Sum256_hex_is_hex)

lemma decode_marshal:
  assumes c: "compact data = Some p" and n: "nested_within (maxNestingDepth - 1) data"
  shows "decodeRecord (marshal_record \<lparr>r_version = 1, r_hash = Sum256_hex p, r_payload = p\<rparr>) = Inr p"
proof -
  obtain v where v: "json_wf (maxNestingDepth - 1) v" "p = pr v" using nested_compact[OF n c] by blast
  let ?kvs = "[(''Version'', JNum (dec 1)), (''Hash'', JStr (Sum256_hex p)), (''Payload'', v)]"
  have m: "marshal_record \<lparr>r_version = 1, r_hash = Sum256_hex p, r_payload = p\<rparr> = pr (JObj ?kvs)"
    using marshal_record_pr[of "\<lparr>r_version = 1, r_hash = Sum256_hex p, r_payload = p\<rparr>" v] compact_stable[OF c] v(2)
      dec_int_of_nat[of 1] by (simp add: quote_body_text[OF Sum256_text] del: pr.simps)
  have "json_wf maxNestingDepth (JObj ?kvs)"
    using v(1) by (simp add: num_ok_dec field_body text_body[OF Sum256_text] maxNestingDepth_def)
  define B where "B = pr (JObj ?kvs)"
  from json_fields_pr[OF \<open>json_wf maxNestingDepth (JObj ?kvs)\<close>]
  have f: "json_fields B = Some [(''Version'', dec 1), (''Hash'', QUOTE # Sum256_hex p @ [QUOTE]), (''Payload'', p)]"
    by (simp add: B_def field_unquote v(2) del: pr.simps(6))
  have "unmarshal_record B = Some \<lparr>r_version = 1, r_hash = Sum256_hex p, r_payload = p\<rparr>"
    using get_int_dec[of 1 0] get_string_text[OF Sum256_text]
    by (simp add: unmarshal_record_def f match_field_def set_record_def)
  then show ?thesis using m[folded B_def] compact_is_Valid[OF c] by (simp add: decodeRecord_def)
qed

lemma length_marshal_record:
  assumes "compact p = Some p"
  shows "length (marshal_record \<lparr>r_version = 1, r_hash = Sum256_hex d, r_payload = p\<rparr>) = 98 + length p"
  using assms dec_int_of_nat[of 1] dec.simps[of 1] by (simp add: marshal_record_def quote_body_text[OF Sum256_text])

lemma unmarshal_marshal_manifest:
  assumes "0 \<le> m_version m" "m_version m < 2 ^ 63" "list_all text_char (m_scope m)"
  shows "unmarshal_manifest (marshal_manifest m) m0 = Some m"
proof -
  obtain k where k: "m_version m = int k" "k < 2 ^ 63" using assms(1,2) by (metis nat_0_le nat_less_numeral_power_cancel_iff)
  let ?kvs = "[(''Version'', JNum (dec k)), (''Scope'', JStr (m_scope m)), (''Next'', JNum (dec (unat (m_next m))))]"
  have j: "json_manifest m = JObj ?kvs"
    by (simp add: json_manifest_def k dec_int_of_nat quote_body_text[OF assms(3)])
  have "json_wf maxNestingDepth (JObj ?kvs)"
    by (simp add: num_ok_dec field_body text_body[OF assms(3)] maxNestingDepth_def)
  define B where "B = pr (JObj ?kvs)"
  from json_fields_pr[OF \<open>json_wf maxNestingDepth (JObj ?kvs)\<close>]
  have f: "json_fields B =
      Some [(''Version'', dec k), (''Scope'', QUOTE # m_scope m @ [QUOTE]), (''Next'', dec (unat (m_next m)))]"
    by (simp add: B_def field_unquote del: pr.simps(6))
  have m: "marshal_manifest m = B" by (simp add: marshal_manifest_def j B_def del: pr.simps)
  show ?thesis
    using get_int_dec[OF k(2)] get_string_text[OF assms(3)] get_u64_dec k(1)
    by (simp add: unmarshal_manifest_def m f match_field_def set_manifest_def)
qed

section \<open>Reading and writing under faults\<close>

lemma frames_disk_read [inv_intros]: "frames T (disk_read n k)"
proof -
  have "framed T s (snd (disk_read n k s))" for s
  proof -
    obtain r s1 where l: "lstat n s = (r, s1)" by fastforce
    have fr: "frames T (andThen (open_read n) (\<lambda>_. andThen (read_all n (k + 1)) (\<lambda>b.
              if k < length b then raise (Failure ''spool file grew beyond bound'') else ret b)))"
      by (intro inv_intros)
    have "framed T s s1" using framesD[OF frames_reads(1) l] .
    moreover have "framed T s1 (snd (andThen (open_read n) (\<lambda>_. andThen (read_all n (k + 1)) (\<lambda>b.
              if k < length b then raise (Failure ''spool file grew beyond bound'') else ret b)) s1))"
      using fr by (simp add: frames_def)
    ultimately show ?thesis
      using l by (auto simp: disk_read_def andThen_def raise_def split: sum.splits intro: framed_trans)
  qed
  then show ?thesis by (simp add: frames_def)
qed

lemma frames_syncDir [inv_intros]: "frames T syncDir"
  unfolding syncDir_def by (intro inv_intros)

lemma frames_disk_write [inv_intros]: "frames {''.pending'', n} (disk_write n d)"
  unfolding disk_write_def by (intro inv_intros) auto

lemma frames_disk_saveManifest [inv_intros]:
  "frames {''.pending'', ''manifest.backup'', ''manifest.json''} (disk_saveManifest m)"
  unfolding disk_saveManifest_def
  by (intro inv_intros) (auto intro: frames_mono[OF frames_disk_write])

lemma disk_read_Inr:
  assumes "disk_read n k s = (Inr b, s')"
  shows "\<exists>f. live s n = Some f \<and> b = f_data f \<and> \<not> unsafe_inode s f k"
proof -
  obtain f s1 where l: "lstat n s = (Inr f, s1)" using assms
    by (cases "lstat n s"; cases "fst (lstat n s)") (auto simp: disk_read_def andThen_def)
  note ls = lstat_Inr[OF l]
  have ne: "unsafe_inode s1 f k = unsafe_inode s f k" using ls by (simp add: unsafe_inode_def)
  have ns: "\<not> unsafe_inode s f k" using assms l ne by (auto simp: disk_read_def andThen_def split: if_splits)
  with assms l ne obtain s2 b' where r: "open_read n s1 = (Inr (), s2)" "read_all n (k + 1) s2 = (Inr b', s')" "b = b'"
    by (auto simp: disk_read_def andThen_Inr split: if_splits)
  have "live s2 n = Some f" using open_read_state[OF r(1)] ls by simp
  with read_all_Inr[OF r(2)] r(3) have "b = take (k + 1) (f_data f)" by auto
  with ns ls show ?thesis by (auto simp: unsafe_inode_def)
qed

lemma syncDir_Inr: "syncDir s = (Inr u, s') \<Longrightarrow> live s' = live s \<and> (\<forall>n. poss s' n = {live s n})"
  using frames_reads(6)[of "{}"] live_frames_nil[OF frames_reads(6)]
  by (auto simp: syncDir_def andThen_Inr dest!: fsync_dir_Inr)

lemma syncDir_live: "syncDir s = (r, s') \<Longrightarrow> live s' = live s"
  by (rule live_frames_nil[OF frames_syncDir])

definition new_file :: "fs \<Rightarrow> bytes \<Rightarrow> inode" where
  "new_file s d = (fresh_file s)\<lparr>f_data := d, f_synced := True\<rparr>"

text \<open>The phases of a write: the pending file is created, filled, renamed, the directory synced.\<close>

lemma disk_write_Inr:
  assumes w: "disk_write n d s = (Inr u, s')" and n: "n \<noteq> ''.pending''"
  shows "live s ''.pending'' = None \<and> live s' ''.pending'' = None \<and> stable s' n (new_file s d)
     \<and> (\<forall>m. poss s' m = {live s' m})"
proof -
  from w obtain s1 e s2 where c: "create_excl ''.pending'' s = (Inr (), s1)"
    and e: "andThen (fill ''.pending'' d) (\<lambda>_. andThen (rename ''.pending'' n) (\<lambda>_. syncDir)) s1 = (e, s2)"
    and k: "andThen (attempt (remove ''.pending'')) (\<lambda>_. case e of Inl x \<Rightarrow> raise x | Inr _ \<Rightarrow> ret ()) s2 = (Inr u, s')"
    by (auto simp: disk_write_def andThen_Inr[of "create_excl _"] andThen_Inr[of "attempt _"] attempt_eq)
  obtain x s3 where r: "remove ''.pending'' s2 = (x, s3)" by fastforce
  from k r have es: "e = Inr ()" "s3 = s'"
    by (cases e; simp add: andThen_def attempt_def raise_def ret_def)+
  from e es obtain s4 s5 where f: "fill ''.pending'' d s1 = (Inr (), s4)" "rename ''.pending'' n s4 = (Inr (), s5)"
    "syncDir s5 = (Inr (), s2)" by (auto simp: andThen_Inr)
  note ce = create_excl_Inr[OF c]
  have "live s1 ''.pending'' = Some (fresh_file s)" using ce by (simp add: fresh_file_def)
  from fill_Inr[OF f(1) this] have l4: "live s4 ''.pending'' = Some (new_file s d)"
    by (simp add: new_file_def fresh_file_def)
  have l5: "live s5 n = Some (new_file s d)" "live s5 ''.pending'' = None" using rename_Inr[OF f(2)] n l4 by auto
  note sy = syncDir_Inr[OF f(3)]
  have "x = Inl OSError \<or> x = Inl NotExist"
    using r sy l5(2) unfolding remove_def by (auto dest!: syscall_cases)
  then have "s' = spend s2" using r remove_Inl es(2) by auto
  then show ?thesis using ce sy l5 by (auto simp: stable_def new_file_def)
qed

text \<open>
  Whatever fails, the target of a write holds its old entry or the complete new file, live and after a crash.
\<close>

lemma disk_write_atomic:
  assumes w: "disk_write n d s = (r, s')" and n: "n \<noteq> ''.pending''"
  shows "live s' n \<in> {live s n, Some (new_file s d)} \<and> poss s' n \<subseteq> insert (live s n) (insert (Some (new_file s d)) (poss s n))"
proof -
  have fr: "framed {''.pending''} a b \<Longrightarrow> live b n = live a n \<and> poss b n \<subseteq> insert (live a n) (poss a n)" for a b
    using n by (auto simp: framed_def)
  show ?thesis
  proof (cases "create_excl ''.pending'' s")
    case (Pair x s1)
    show ?thesis
    proof (cases x)
      case (Inl y)
      with w Pair have "s' = s1" by (simp add: disk_write_def andThen_def)
      with create_excl_Inl[OF Pair[unfolded Inl]] show ?thesis by auto
    next
      case (Inr y)
      note ce = create_excl_Inr[OF Pair[unfolded Inr]]
      obtain e s2 where e: "andThen (fill ''.pending'' d) (\<lambda>_. andThen (rename ''.pending'' n) (\<lambda>_. syncDir)) s1 = (e, s2)"
        by fastforce
      obtain z s3 where r: "remove ''.pending'' s2 = (z, s3)" by fastforce
      have s3: "s' = s3" using w Pair Inr e r
        by (cases e) (auto simp: disk_write_def andThen_def attempt_def raise_def ret_def)
      have f3: "framed {''.pending''} s2 s3" by (rule framesD[OF frames_remove r]) simp
      obtain a s4 where f: "fill ''.pending'' d s1 = (a, s4)" by fastforce
      have f4: "framed {''.pending''} s1 s4" by (rule framesD[OF frames_fill f]) simp
      have l1: "live s1 n = live s n" "poss s1 n = poss s n" using ce n by auto
      have l4: "live s4 n = live s n" "poss s4 n \<subseteq> insert (live s n) (poss s n)" using fr[OF f4] l1 by auto
      have goal2: "live s2 n \<in> {live s n, Some (new_file s d)} \<and> poss s2 n \<subseteq> insert (live s n) (insert (Some (new_file s d)) (poss s n))"
      proof (cases a)
        case (Inl y)
        with e f have "s2 = s4" by (simp add: andThen_def)
        with l4 show ?thesis by auto
      next
        case a: (Inr y)
        obtain b s5 where g: "rename ''.pending'' n s4 = (b, s5)" by fastforce
        have "live s1 ''.pending'' = Some (fresh_file s)" using ce by (simp add: fresh_file_def)
        from fill_Inr[OF f[unfolded a] this] have p4: "live s4 ''.pending'' = Some (new_file s d)"
          by (simp add: new_file_def fresh_file_def)
        show ?thesis
        proof (cases b)
          case (Inl y)
          with e f a g have "s2 = s5" by (simp add: andThen_def)
          with rename_Inl[OF g[unfolded Inl]] l4 show ?thesis by auto
        next
          case b: (Inr y)
          have l5: "live s5 n = Some (new_file s d)" "poss s5 n \<subseteq> insert (live s n) (insert (Some (new_file s d)) (poss s n))"
            using rename_Inr[OF g[unfolded b]] n p4 l4 by auto
          obtain c where "syncDir s5 = (c, s2)" using e f a g b by (simp add: andThen_def)
          from framesD[OF frames_syncDir this, of "{}"] l5 show ?thesis by (auto simp: framed_def)
        qed
      qed
      with fr[OF f3] s3 show ?thesis by auto
    qed
  qed
qed

end
