(* ===== verification/DiskInv.thy ===== *)
theory DiskInv
  imports DiskFacts
begin

section \<open>The invariant\<close>

text \<open>
  What an open spool maintains under every script of faults. The names ascend with their sequence
  numbers, below the next one. Every record is \<open>stable\<close>: there now and after any crash. Only the head can
  be missing, when its quarantine renamed it and the directory sync failed. The byte count covers the
  base reserve and every record; the limits hold.
\<close>

definition file_cost :: "disk \<Rightarrow> bytes \<Rightarrow> int" where
  "file_cost q n = (case live (q_fs q) n of None \<Rightarrow> 0 | Some f \<Rightarrow> charge (int (length (f_data f))))"

definition base_cost :: "int \<Rightarrow> int" where
  "base_cost items = 16384 + charge (items * 256)"

definition is_rec :: "u64 \<Rightarrow> bytes \<Rightarrow> bool" where
  "is_rec next n \<longleftrightarrow> (\<exists>k. n = rec_name k \<and> 0 < k \<and> k < next)"

definition held :: "disk \<Rightarrow> bytes \<Rightarrow> bool" where
  "held q n \<longleftrightarrow> (\<exists>f. stable (q_fs q) n f)"

definition open_inv :: "disk \<Rightarrow> bool" where
  "open_inv q \<longleftrightarrow>
     sorted_wrt (<) (q_names q)
   \<and> (\<forall>n \<in> set (q_names q). is_rec (m_next (q_manifest q)) n)
   \<and> 0 < m_next (q_manifest q)
   \<and> (\<forall>n \<in> set (tl (q_names q)). held q n)
   \<and> (q_names q \<noteq> [] \<longrightarrow> held q (hd (q_names q)) \<or> live (q_fs q) (hd (q_names q)) = None)
   \<and> int (length (q_names q)) \<le> q_count q \<and> q_count q \<le> q_maxItems q
   \<and> base_cost (q_maxItems q) + sum_list (map (file_cost q) (q_names q)) \<le> q_bytes q
   \<and> q_bytes q \<le> q_maxBytes q"

lemma rec_name_length: "length (rec_name k) = 24"
proof -
  have "unat k < 2 ^ 64" using unsigned_less[of k] by simp
  then have "unat k < 10 ^ 20" by simp
  then show ?thesis by (simp add: rec_name_def length_pad)
qed

lemma rec_name_inj: "rec_name a = rec_name b \<longleftrightarrow> a = b"
  by (auto simp: rec_name_def word_unat_eq_iff dest: pad_inj)

lemma list_less_append: "length a = length b \<Longrightarrow> (a @ (t :: bytes)) < b @ t \<longleftrightarrow> a < b"
proof (induction a b rule: list_induct2)
  case (Cons x xs y ys)
  then show ?case by (auto simp: Cons_less_Cons)
qed simp

lemma rec_name_less: "rec_name a < rec_name b \<longleftrightarrow> a < b"
proof -
  have lt: "unat k < 10 ^ 20" for k :: u64
  proof -
    have "unat k < 2 ^ 64" using unsigned_less[of k] by simp
    then show ?thesis by simp
  qed
  have "rec_name a < rec_name b \<longleftrightarrow> pad 20 (unat a) < pad 20 (unat b)"
    unfolding rec_name_def using lt by (intro list_less_append) (simp add: length_pad)
  also have "\<dots> \<longleftrightarrow> unat a < unat b" using lt by (intro pad_less) simp_all
  finally show ?thesis by (simp add: word_less_nat_alt)
qed

lemma rec_not_control:
  "rec_name k \<noteq> ''.pending''" "rec_name k \<noteq> ''manifest.backup''" "rec_name k \<noteq> ''manifest.json''"
  "rec_name k \<noteq> rec_name j @ ''.bad''"
proof -
  show "rec_name k \<noteq> ''.pending''" using rec_name_length[of k] by auto
  show "rec_name k \<noteq> ''manifest.backup''" using rec_name_length[of k] by auto
  show "rec_name k \<noteq> ''manifest.json''" using rec_name_length[of k] by auto
  show "rec_name k \<noteq> rec_name j @ ''.bad''" using rec_name_length[of k] rec_name_length[of j] by (metis add_left_imp_eq append.right_neutral append_eq_append_conv length_append list.distinct(1))
qed

definition bad_name :: "u64 \<Rightarrow> bytes" where
  "bad_name k = pad 20 (unat k) @ ''.bad''"

lemma quarantine_target: "TrimSuffix (rec_name k) ''.rec'' @ ''.bad'' = bad_name k"
  by (simp add: rec_name_def bad_name_def)

lemma rec_not_bad: "rec_name j \<noteq> bad_name k"
proof
  assume "rec_name j = bad_name k"
  then have "rev (rec_name j) = rev (bad_name k)" by simp
  then show False by (simp add: rec_name_def bad_name_def)
qed

lemma is_rec_not_control: "is_rec nx n \<Longrightarrow> n \<noteq> ''.pending'' \<and> n \<noteq> ''manifest.backup'' \<and> n \<noteq> ''manifest.json''"
  using rec_not_control by (auto simp: is_rec_def)

lemma is_rec_mono: "is_rec a n \<Longrightarrow> a \<le> b \<Longrightarrow> is_rec b n"
  by (auto simp: is_rec_def rec_name_inj intro: order_less_le_trans)

lemma held_framed: "held q n \<Longrightarrow> framed T (q_fs q) (q_fs q') \<Longrightarrow> n \<notin> T \<Longrightarrow> held q' n"
  unfolding held_def using stable_framed by blast

lemma file_cost_framed: "framed T (q_fs q) (q_fs q') \<Longrightarrow> n \<notin> T \<Longrightarrow> file_cost q' n = file_cost q n"
  by (simp add: file_cost_def live_framed)

lemma file_costs_framed:
  "framed T (q_fs q) (q_fs q') \<Longrightarrow> set ns \<inter> T = {} \<Longrightarrow> map (file_cost q') ns = map (file_cost q) ns"
  using file_cost_framed[of T q q'] by (intro map_cong) auto

lemma charge_nonneg: "0 \<le> n \<Longrightarrow> 0 \<le> charge n"
  by (simp add: charge_def)

lemma file_cost_nonneg: "0 \<le> file_cost q n"
  by (simp add: file_cost_def charge_nonneg split: option.splits)

lemma charge_bounds: "0 \<le> n \<Longrightarrow> n \<le> charge n \<and> charge n < n + 4096 \<and> charge n mod 4096 = 0"
  unfolding charge_def by (auto simp: minus_mod_eq_div_mult[symmetric])

text \<open>A step that touches no queued record and keeps the counters keeps the invariant.\<close>

definition same_counters :: "disk \<Rightarrow> disk \<Rightarrow> bool" where
  "same_counters q q' \<longleftrightarrow> q_names q' = q_names q \<and> q_bytes q' = q_bytes q \<and> q_count q' = q_count q
     \<and> q_maxBytes q' = q_maxBytes q \<and> q_maxItems q' = q_maxItems q"

lemma open_inv_framed:
  assumes "open_inv q" "same_counters q q'" "framed T (q_fs q) (q_fs q')" "set (q_names q) \<inter> T = {}"
    "m_next (q_manifest q) \<le> m_next (q_manifest q')"
  shows "open_inv q'"
proof -
  have h: "held q' n" if "held q n" "n \<in> set (q_names q)" for n
    using held_framed[OF that(1) assms(3)] that(2) assms(4) by blast
  have hd: "q_names q \<noteq> [] \<Longrightarrow> live (q_fs q') (hd (q_names q)) = live (q_fs q) (hd (q_names q))"
    using live_framed[OF assms(3)] assms(4) hd_in_set by blast
  have "\<forall>n \<in> set (tl (q_names q)). held q' n" using assms(1) h list.set_sel(2) by (cases "q_names q") (auto simp: open_inv_def)
  moreover have "q_names q \<noteq> [] \<longrightarrow> held q' (hd (q_names q)) \<or> live (q_fs q') (hd (q_names q)) = None"
    using assms(1) h hd by (auto simp: open_inv_def)
  moreover have "is_rec (m_next (q_manifest q')) n" if "n \<in> set (q_names q)" for n
    using assms(1,5) that is_rec_mono by (auto simp: open_inv_def)
  moreover have "0 < m_next (q_manifest q')" using assms(1,5) by (auto simp: open_inv_def intro: order_less_le_trans)
  ultimately show ?thesis
    using assms(1,2) arg_cong[OF file_costs_framed[OF assms(3,4)], of sum_list]
    unfolding open_inv_def same_counters_def by metis
qed

lemma names_disjoint_control:
  "open_inv q \<Longrightarrow> set (q_names q) \<inter> {''.pending'', ''manifest.backup'', ''manifest.json''} = {}"
  using is_rec_not_control by (fastforce simp: open_inv_def)

lemma on_fs_eq: "on_fs m q = (r, q') \<longleftrightarrow> (\<exists>s. m (q_fs q) = (r, s) \<and> q' = q\<lparr>q_fs := s\<rparr>)"
  by (auto simp: on_fs_def split: prod.splits)

lemma on_fs_framed: "frames T m \<Longrightarrow> on_fs m q = (r, q') \<Longrightarrow> framed T (q_fs q) (q_fs q')"
  by (auto simp: on_fs_eq dest: framesD)

section \<open>Put\<close>

text \<open>What \<open>Put\<close> computes before it touches the directory.\<close>

definition put_record :: "bytes \<Rightarrow> bytes" where
  "put_record normalized = marshal_record \<lparr>r_version = 1, r_hash = Sum256_hex normalized, r_payload = normalized\<rparr>"

lemma Put_cases:
  assumes "Put ctx data q = (r, q')"
  obtains (refused) e where "r = Inl e" "q' = q"
  | (admitted) p q1 s1 r1 where
      "ctx = None" "\<not> q_closed q" "length data \<le> 4194304" "compact data = Some p"
      "q_count q < q_maxItems q" "q_bytes q + charge (int (length (put_record p))) \<le> q_maxBytes q"
      "m_next (q_manifest q) \<noteq> - 1"
      "q1 = q\<lparr>q_manifest := (q_manifest q)\<lparr>m_next := m_next (q_manifest q) + 1\<rparr>\<rparr>"
      "disk_saveManifest (q_manifest q1) (q_fs q) = (r1, s1)"
      "case r1 of Inl e \<Rightarrow> r = Inl e \<and> q' = q1\<lparr>q_fs := s1, q_closed := True\<rparr>
       | Inr _ \<Rightarrow> (\<exists>r2 s2. disk_write (rec_name (m_next (q_manifest q))) (put_record p) s1 = (r2, s2) \<and>
           (case r2 of Inl e \<Rightarrow> r = Inl e \<and> q' = q1\<lparr>q_fs := s2, q_closed := True\<rparr>
            | Inr _ \<Rightarrow> r = Inr (rec_name (m_next (q_manifest q)))
                \<and> q' = q1\<lparr>q_fs := s2, q_names := q_names q @ [rec_name (m_next (q_manifest q))],
                    q_count := q_count q + 1, q_bytes := q_bytes q + charge (int (length (put_record p))), q_wake := True\<rparr>))"
proof -
  define q1 where "q1 = q\<lparr>q_manifest := (q_manifest q)\<lparr>m_next := m_next (q_manifest q) + 1\<rparr>\<rparr>"
  show ?thesis
  proof (cases "ctx = None \<and> \<not> q_closed q \<and> length data \<le> 4194304 \<and> (\<exists>p. compact data = Some p \<and> q_count q < q_maxItems q
      \<and> q_bytes q + charge (int (length (put_record p))) \<le> q_maxBytes q) \<and> m_next (q_manifest q) \<noteq> - 1")
    case False
    then have "\<exists>e. r = Inl e \<and> q' = q" using assms
      by (auto simp: Put_def put_record_def[symmetric] Let_def compact_Valid split: option.splits if_splits)
    then show ?thesis using refused by blast
  next
    case True
    then obtain p where p: "compact data = Some p" "q_count q < q_maxItems q"
      "q_bytes q + charge (int (length (put_record p))) \<le> q_maxBytes q" by blast
    obtain r1 s1 where m: "disk_saveManifest (q_manifest q1) (q_fs q) = (r1, s1)" by fastforce
    obtain r2 s2 where w: "disk_write (rec_name (m_next (q_manifest q))) (put_record p) s1 = (r2, s2)" by fastforce
    have v: "json_Valid data" using p(1) compact_Valid by blast
    show ?thesis
    proof (rule admitted[OF _ _ _ p(1) p(2) p(3) _ q1_def m])
      show "case r1 of Inl e \<Rightarrow> r = Inl e \<and> q' = q1\<lparr>q_fs := s1, q_closed := True\<rparr>
       | Inr _ \<Rightarrow> (\<exists>r2 s2. disk_write (rec_name (m_next (q_manifest q))) (put_record p) s1 = (r2, s2) \<and>
           (case r2 of Inl e \<Rightarrow> r = Inl e \<and> q' = q1\<lparr>q_fs := s2, q_closed := True\<rparr>
            | Inr _ \<Rightarrow> r = Inr (rec_name (m_next (q_manifest q)))
                \<and> q' = q1\<lparr>q_fs := s2, q_names := q_names q @ [rec_name (m_next (q_manifest q))],
                    q_count := q_count q + 1, q_bytes := q_bytes q + charge (int (length (put_record p))), q_wake := True\<rparr>))"
        using assms True p v m w unfolding q1_def
        by (cases r1; cases r2) (auto simp: Put_def put_record_def[symmetric] Let_def on_fs_def)
    qed (use True in auto)
  qed
qed

text \<open>A queue operation's effect on the files that are already queued.\<close>

definition keeps :: "bytes set \<Rightarrow> disk \<Rightarrow> disk \<Rightarrow> bool" where
  "keeps ns q q' \<longleftrightarrow> 
     (\<forall>n \<in> ns. live (q_fs q') n = live (q_fs q) n \<and> (\<forall>f. stable (q_fs q) n f \<longrightarrow> stable (q_fs q') n f))"

lemma keeps_framed: "framed T (q_fs q) (q_fs q') \<Longrightarrow> ns \<inter> T = {} \<Longrightarrow> keeps ns q q'"
  unfolding keeps_def using stable_framed live_framed by blast

lemma next_succ: "m \<noteq> (- 1 :: u64) \<Longrightarrow> m < m + 1"
proof -
  assume "m \<noteq> - 1"
  then have "unat m \<noteq> unat (- 1 :: u64)" by (simp add: word_unat_eq_iff)
  moreover have "unat m \<le> unat (- 1 :: u64)" using word_le_nat_alt[of m "- 1"] by simp
  moreover have "unat (- 1 :: u64) = 2 ^ 64 - 1" by (simp add: unsigned_minus_1_eq_mask mask_eq_exp_minus_1)
  ultimately have "unat m + 1 < 2 ^ 64" by linarith
  then have "unat (m + 1) = unat m + 1" by (simp add: unat_word_ariths)
  then show "m < m + 1" by (simp add: word_less_nat_alt)
qed

lemma open_inv_append:
  assumes inv: "open_inv q" and c: "same_counters q q1" and m: "m_next (q_manifest q1) = m_next (q_manifest q) + 1"
    "m_next (q_manifest q) \<noteq> - 1"
    and fr: "framed T (q_fs q) (q_fs q1)" "set (q_names q) \<inter> T = {}"
    and n: "n = rec_name (m_next (q_manifest q))" "stable (q_fs q1) n f" "cost = charge (int (length (f_data f)))"
    and room: "q_count q < q_maxItems q" "q_bytes q + cost \<le> q_maxBytes q"
  shows "open_inv (q1\<lparr>q_names := q_names q @ [n], q_count := q_count q + 1, q_bytes := q_bytes q + cost, q_wake := w\<rparr>)"
    (is "open_inv ?q2")
proof -
  have lt: "m_next (q_manifest q) < m_next (q_manifest q1)" using m next_succ by simp
  have i1: "open_inv q1" by (rule open_inv_framed[OF inv c fr]) (use lt in simp)
  have nm: "q_names q1 = q_names q" using c by (simp add: same_counters_def)
  have h: "held q1 n" using n(2) by (auto simp: held_def)
  have same: "held ?q2 = held q1" "file_cost ?q2 = file_cost q1" by (simp_all add: held_def file_cost_def fun_eq_iff)
  have "sorted_wrt (<) (q_names q @ [n])"
  proof (rule sorted_wrt_snoc)
    show "x < n" if "x \<in> set (q_names q)" for x
      using inv that rec_name_less unfolding n(1) by (auto simp: open_inv_def is_rec_def)
  qed (use inv in \<open>simp add: open_inv_def\<close>)
  moreover have "is_rec (m_next (q_manifest q1)) n"
    using lt inv n(1) by (auto simp: is_rec_def open_inv_def)
  moreover have "file_cost q1 n = cost" using n(2,3) by (simp add: file_cost_def stable_def)
  moreover have "sum_list (map (file_cost q1) (q_names q)) + base_cost (q_maxItems q) \<le> q_bytes q"
    using i1 c nm by (simp add: open_inv_def same_counters_def)
  ultimately show ?thesis
    using i1 c room h nm unfolding open_inv_def same
    by (cases "q_names q") (auto simp: same_counters_def)
qed

lemma Put_effect:
  assumes inv: "open_inv q" and put: "Put ctx data q = (r, q')"
  shows "open_inv q' \<and> keeps (set (q_names q)) q q' \<and>
    (case r of
       Inl e \<Rightarrow> q_names q' = q_names q \<and> (q' = q \<or> q_closed q')
     | Inr rid \<Rightarrow> \<not> q_closed q' \<and> q_names q' = q_names q @ [rid] \<and>
         (\<exists>p f. compact data = Some p \<and> stable (q_fs q') rid f \<and> f_data f = put_record p \<and>
            f = new_file (q_fs q) (put_record p)))"
proof (cases rule: Put_cases[OF put])
  case (1 e)
  then show ?thesis using inv by (simp add: keeps_def)
next
  case (2 p q1 s1 r1)
  let ?T = "{''.pending'', ''manifest.backup'', ''manifest.json'', rec_name (m_next (q_manifest q))}"
  have new: "rec_name (m_next (q_manifest q)) \<notin> set (q_names q)"
    using inv rec_name_inj by (fastforce simp: open_inv_def is_rec_def)
  have dis: "set (q_names q) \<inter> ?T = {}" using names_disjoint_control[OF inv] new by auto
  have lt: "m_next (q_manifest q) \<le> m_next (q_manifest q1)" using 2(7,8) next_succ by (simp add: order_less_imp_le)
  have f1: "framed ?T (q_fs q) s1"
    by (rule framed_mono[OF framesD[OF frames_disk_saveManifest 2(9)]]) auto
  show ?thesis
  proof (cases r1)
    case (Inl e)
    let ?q = "q1\<lparr>q_fs := s1, q_closed := True\<rparr>"
    have "r = Inl e" "q' = ?q" using 2(10) Inl by auto
    moreover have "open_inv ?q"
      by (rule open_inv_framed[OF inv, where T = ?T]) (use f1 dis lt in \<open>auto simp: same_counters_def 2(8)\<close>)
    moreover have "keeps (set (q_names q)) q ?q" by (rule keeps_framed[OF _ dis]) (use f1 in simp)
    ultimately show ?thesis by (simp add: 2(8))
  next
    case (Inr u)
    then obtain r2 s2 where w: "disk_write (rec_name (m_next (q_manifest q))) (put_record p) s1 = (r2, s2)"
      and out: "case r2 of Inl e \<Rightarrow> r = Inl e \<and> q' = q1\<lparr>q_fs := s2, q_closed := True\<rparr>
            | Inr _ \<Rightarrow> r = Inr (rec_name (m_next (q_manifest q)))
                \<and> q' = q1\<lparr>q_fs := s2, q_names := q_names q @ [rec_name (m_next (q_manifest q))],
                    q_count := q_count q + 1, q_bytes := q_bytes q + charge (int (length (put_record p))), q_wake := True\<rparr>"
      using 2(10) by auto
    have f2: "framed ?T (q_fs q) s2"
      by (rule framed_trans[OF f1], rule framed_mono[OF framesD[OF frames_disk_write w]]) auto
    show ?thesis
    proof (cases r2)
      case (Inl e)
      let ?q = "q1\<lparr>q_fs := s2, q_closed := True\<rparr>"
      have "r = Inl e" "q' = ?q" using out Inl by auto
      moreover have "open_inv ?q"
        by (rule open_inv_framed[OF inv, where T = ?T]) (use f2 dis lt in \<open>auto simp: same_counters_def 2(8)\<close>)
      moreover have "keeps (set (q_names q)) q ?q" by (rule keeps_framed[OF _ dis]) (use f2 in simp)
      ultimately show ?thesis by (simp add: 2(8))
    next
      case (Inr v)
      let ?n = "rec_name (m_next (q_manifest q))"
      have st: "stable s2 ?n (new_file s1 (put_record p))" using disk_write_Inr[OF w[unfolded Inr]] rec_not_control by blast
      have nf: "new_file s1 (put_record p) = new_file (q_fs q) (put_record p)"
        using f1 by (simp add: new_file_def fresh_file_def framed_def)
      have q': "r = Inr ?n" "q' = (q1\<lparr>q_fs := s2\<rparr>)\<lparr>q_names := q_names q @ [?n],
                    q_count := q_count q + 1, q_bytes := q_bytes q + charge (int (length (put_record p))), q_wake := True\<rparr>"
        using out Inr by auto
      have "open_inv q'" unfolding q'(2)
        by (rule open_inv_append[OF inv, where T = ?T and f = "new_file s1 (put_record p)"])
          (use f2 dis st 2 in \<open>auto simp: same_counters_def new_file_def\<close>)
      moreover have "keeps (set (q_names q)) q q'" by (rule keeps_framed[OF _ dis]) (use f2 q'(2) in simp)
      ultimately show ?thesis using q' st nf 2(2,4,8) by (simp add: new_file_def)
    qed
  qed
qed

section \<open>Next\<close>

lemma disk_read_on:
  assumes "on_fs (disk_read n k) q = (r, q1)"
  shows "\<exists>s. q1 = q\<lparr>q_fs := s\<rparr> \<and> framed {} (q_fs q) s"
  using assms framesD[OF frames_disk_read[where T = "{}"]] by (auto simp: on_fs_eq)

lemma framed_empty: "framed {} s s' \<Longrightarrow> framed T s s'"
  by (rule framed_mono) auto

lemma same_counters_fs [simp]: "same_counters q (q\<lparr>q_fs := s\<rparr>)"
  by (simp add: same_counters_def)

lemma open_inv_fs: "open_inv q \<Longrightarrow> framed {} (q_fs q) s \<Longrightarrow> open_inv (q\<lparr>q_fs := s\<rparr>)"
  using open_inv_framed[of q "q\<lparr>q_fs := s\<rparr>" "{}"] by simp

lemma keeps_fs: "framed {} (q_fs q) s \<Longrightarrow> keeps ns q (q\<lparr>q_fs := s\<rparr>)"
  by (rule keeps_framed[where T = "{}"]) simp_all

lemma keeps_trans: "keeps ns q q1 \<Longrightarrow> keeps ns q1 q2 \<Longrightarrow> keeps ns q q2"
  by (simp add: keeps_def)

lemma keeps_mono: "keeps ns q q' \<Longrightarrow> ms \<subseteq> ns \<Longrightarrow> keeps ms q q'"
  by (auto simp: keeps_def)

lemma keeps_held: "keeps ns q q' \<Longrightarrow> m \<in> ns \<Longrightarrow> held q m \<Longrightarrow> held q' m"
  unfolding keeps_def held_def by blast

lemma head_is_rec: "open_inv q \<Longrightarrow> q_names q = n # rest \<Longrightarrow> \<exists>k. n = rec_name k"
  by (auto simp: open_inv_def is_rec_def)

lemma quarantine_effect:
  assumes q: "quarantine n q = (r, q')" and inv: "open_inv q" and names: "q_names q = n # rest"
  shows "q_names q' = n # rest \<and> q_closed q' = q_closed q \<and> keeps (set rest) q q' \<and> open_inv q' \<and>
    (live (q_fs q') n = live (q_fs q) n \<or> live (q_fs q') n = None) \<and>
    (case r of Inl _ \<Rightarrow> True | Inr _ \<Rightarrow> live (q_fs q) n \<noteq> None \<and> open_inv (q'\<lparr>q_names := rest\<rparr>))"
proof -
  obtain k where k: "n = rec_name k" using head_is_rec[OF inv names] by blast
  let ?T = "{n, bad_name k}"
  have dis: "set rest \<inter> ?T = {}"
  proof -
    have "n \<notin> set rest" using inv names by (auto simp: open_inv_def)
    moreover have "bad_name k \<notin> set rest"
    proof
      assume "bad_name k \<in> set rest"
      then have "is_rec (m_next (q_manifest q)) (bad_name k)" using inv names by (simp add: open_inv_def)
      then show False using rec_not_bad by (metis is_rec_def)
    qed
    ultimately show ?thesis by simp
  qed
  obtain r1 s1 where rn: "rename n (bad_name k) (q_fs q) = (r1, s1)" by fastforce
  have f1: "framed ?T (q_fs q) s1" by (rule framesD[OF frames_rename rn]) auto
  have inv_tl: "open_inv (q\<lparr>q_names := rest, q_corrupt := c\<rparr>)" for c
  proof -
    let ?p = "q\<lparr>q_names := rest, q_corrupt := c\<rparr>"
    have same: "held ?p = held q" "file_cost ?p = file_cost q" by (simp_all add: held_def file_cost_def fun_eq_iff)
    have hr: "\<forall>m \<in> set rest. held q m" using inv names by (simp add: open_inv_def)
    have "rest \<noteq> [] \<longrightarrow> held q (hd rest)" "\<forall>m \<in> set (tl rest). held q m" using hr by (cases rest; simp)+
    then show ?thesis using inv names file_cost_nonneg[of q n] unfolding open_inv_def same by simp
  qed
  show ?thesis
  proof (cases r1)
    case (Inl e)
    then have "r = Inl e" "q' = q\<lparr>q_fs := s1\<rparr>"
      using q rn k by (auto simp: quarantine_def on_fs_def quarantine_target)
    moreover have "framed {} (q_fs q) s1" using rename_Inl[OF rn[unfolded Inl]] by simp
    ultimately show ?thesis using inv names open_inv_fs keeps_fs live_framed[of "{}" "q_fs q" s1] by simp
  next
    case (Inr u)
    obtain r2 s2 where sy: "syncDir s1 = (r2, s2)" by fastforce
    have q': "r = r2" "q' = q\<lparr>q_corrupt := q_corrupt q + 1, q_fs := s2\<rparr>"
      using q rn k Inr sy by (auto simp: quarantine_def on_fs_def quarantine_target)
    have fs: "framed ?T (q_fs q) s2" by (rule framed_trans[OF f1 framesD[OF frames_syncDir sy]])
    have nb: "n \<noteq> bad_name k" using k rec_not_bad by simp
    note rr = rename_Inr[OF rn[unfolded Inr] nb]
    have gone: "live s2 n = None" using rr syncDir_live[OF sy] by auto
    have rest_inv: "open_inv (q'\<lparr>q_names := rest\<rparr>)"
      by (rule open_inv_framed[OF inv_tl[of "q_corrupt q + 1"], where T = ?T])
        (use fs dis q'(2) in \<open>simp_all add: same_counters_def\<close>)
    have "keeps (set rest) q q'" by (rule keeps_framed[OF _ dis]) (use fs q'(2) in simp)
    moreover have "open_inv q'"
    proof -
      have fc: "file_cost (q'\<lparr>q_names := rest\<rparr>) = file_cost q'" by (simp add: file_cost_def fun_eq_iff)
      have eqs: "q_names q' = n # rest" "q_bytes q' = q_bytes q" "q_count q' = q_count q" "q_maxItems q' = q_maxItems q"
        "q_maxBytes q' = q_maxBytes q" "q_manifest q' = q_manifest q" using q'(2) names by auto
      have "base_cost (q_maxItems q') + sum_list (map (file_cost q') rest) \<le> q_bytes q'"
        using rest_inv by (simp add: open_inv_def fc)
      moreover have "file_cost q' n = 0" "live (q_fs q') n = None" using gone q'(2) by (simp_all add: file_cost_def)
      moreover have "\<forall>m \<in> set rest. held q' m"
      proof
        fix m assume m: "m \<in> set rest"
        then have "held q m" using inv names by (simp add: open_inv_def)
        with \<open>keeps (set rest) q q'\<close> m show "held q' m" by (rule keeps_held)
      qed
      ultimately show ?thesis using inv names unfolding open_inv_def eqs by simp
    qed
    ultimately show ?thesis using rest_inv rr q' names gone by (cases r2) auto
  qed
qed

text \<open>
  The names \<open>Next\<close> drops are exactly those whose file was readable and did not decode; what it returns is
  the payload of the first record after them.
\<close>

definition undecodable :: "disk \<Rightarrow> bytes \<Rightarrow> bool" where
  "undecodable q n \<longleftrightarrow> (\<exists>f. live (q_fs q) n = Some f \<and> \<not> is_ok (decodeRecord (f_data f)))"

definition lost_or_same :: "disk \<Rightarrow> disk \<Rightarrow> bytes \<Rightarrow> bool" where
  "lost_or_same q q' n \<longleftrightarrow> live (q_fs q') n = live (q_fs q) n \<or> (undecodable q n \<and> live (q_fs q') n = None)"

lemma Next_effect:
  "open_inv q \<Longrightarrow> Next ctx q = (r, q') \<Longrightarrow>
   open_inv q' \<and> q_closed q' = q_closed q \<and>
   (\<exists>dropped. q_names q = dropped @ q_names q' \<and> (\<forall>n \<in> set dropped. undecodable q n) \<and>
      keeps (set (tl (q_names q')) \<union> (case r of Inr (Item n d) \<Rightarrow> {n} | _ \<Rightarrow> {})) q q' \<and>
      (case r of
         Inl e \<Rightarrow> q_names q' \<noteq> [] \<longrightarrow> lost_or_same q q' (hd (q_names q'))
       | Inr Waiting \<Rightarrow> q_names q' = []
       | Inr (Item n d) \<Rightarrow> (\<exists>rest f. q_names q' = n # rest \<and> live (q_fs q) n = Some f \<and> live (q_fs q') n = Some f \<and> decodeRecord (f_data f) = Inr d)))"
proof (induction ctx q arbitrary: r q' rule: Next.induct)
  case (1 ctx q)
  note IH = 1(1) and inv = 1(2)
  note run = 1(3)[unfolded Next.simps[of ctx q]]
  show ?case
  proof (cases "ctx \<noteq> None \<or> q_closed q")
    case True
    with run inv show ?thesis by (cases ctx) (auto simp: keeps_def lost_or_same_def)
  next
    case False
    then have c: "ctx = None" "\<not> q_closed q" by auto
    show ?thesis
    proof (cases "q_names q")
      case Nil
      with run c have "r = Inr Waiting" "q' = q\<lparr>q_wake := False\<rparr>" by auto
      moreover have "open_inv (q\<lparr>q_wake := False\<rparr>)"
        using inv by (rule open_inv_framed[where T = "{}"]) (simp_all add: same_counters_def)
      ultimately show ?thesis using Nil by (simp add: keeps_def)
    next
      case (Cons n rest)
      obtain x q1 where rd: "on_fs (disk_read n 5242880) q = (x, q1)" by fastforce
      obtain s1 where s1: "q1 = q\<lparr>q_fs := s1\<rparr>" "framed {} (q_fs q) s1" using disk_read_on[OF rd] by blast
      have inv1: "open_inv q1" using open_inv_fs[OF inv s1(2)] s1(1) by simp
      have k1: "keeps ns q q1" for ns using keeps_fs[OF s1(2)] s1(1) by simp
      have l1: "live (q_fs q1) = live (q_fs q)" using s1 live_framed[OF s1(2)] by (auto simp: fun_eq_iff)
      show ?thesis
      proof (cases x)
        case (Inl e)
        with run c Cons rd have "r = Inl e" "q' = q1" by auto
        then show ?thesis using inv1 k1 s1(1) Cons l1 by (auto simp: lost_or_same_def)
      next
        case x: (Inr b)
        from rd x obtain f where f: "live (q_fs q) n = Some f" "b = f_data f"
          by (auto simp: on_fs_eq dest: disk_read_Inr)
        show ?thesis
        proof (cases "decodeRecord b")
          case (Inr d)
          with run c Cons rd x have "r = Inr (Item n d)" "q' = q1" by auto
          then show ?thesis using inv1 k1 s1(1) Cons f Inr l1 by auto
        next
          case d: (Inl e)
          obtain y q2 where qu: "quarantine n q1 = (y, q2)" by fastforce
          have n1: "q_names q1 = n # rest" using s1(1) Cons by simp
          note eff = quarantine_effect[OF qu inv1 n1]
          have k2: "keeps (set rest) q q2" using keeps_trans[OF k1] eff by blast
          show ?thesis
          proof (cases y)
            case (Inl e')
            with run c Cons rd x d qu have "r = Inl e'" "q' = q2" by auto
            moreover have "lost_or_same q q2 n" using eff l1 f d by (auto simp: lost_or_same_def undecodable_def)
            ultimately show ?thesis using eff k2 s1(1) Cons by auto
          next
            case y: (Inr u)
            let ?q3 = "q2\<lparr>q_names := rest\<rparr>"
            have rec: "Next ctx ?q3 = (r, q')" using run c Cons rd x d qu y by auto
            have inv3: "open_inv ?q3" using eff y by simp
            have "\<not> is_ok (decodeRecord (f_data f))" using d f by simp
            have live_rest: "live (q_fs q2) m = live (q_fs q) m" if "m \<in> set rest" "held q m" for m
              using k2 that by (auto simp: keeps_def held_def stable_def)
            have heldr: "held q m" if "m \<in> set rest" for m using inv Cons that by (simp add: open_inv_def)
            have ih: "open_inv q' \<and> q_closed q' = q_closed ?q3 \<and>
               (\<exists>dropped. q_names ?q3 = dropped @ q_names q' \<and> (\<forall>n \<in> set dropped. undecodable ?q3 n) \<and>
                  keeps (set (tl (q_names q')) \<union> (case r of Inr (Item n d) \<Rightarrow> {n} | _ \<Rightarrow> {})) ?q3 q' \<and>
                  (case r of
                     Inl e \<Rightarrow> q_names q' \<noteq> [] \<longrightarrow> lost_or_same ?q3 q' (hd (q_names q'))
                   | Inr Waiting \<Rightarrow> q_names q' = []
                   | Inr (Item n d) \<Rightarrow> (\<exists>rest f. q_names q' = n # rest \<and> live (q_fs ?q3) n = Some f \<and> live (q_fs q') n = Some f \<and> decodeRecord (f_data f) = Inr d)))"
              by (rule IH[OF c(1) c(2) Cons rd[symmetric] x d qu[symmetric] y inv3 rec])
            have kept: "q_names q' \<noteq> [] \<Longrightarrow> m \<in> set (q_names q') \<Longrightarrow> m \<in> set rest" for m using ih by auto
            have und: "undecodable ?q3 m \<Longrightarrow> m \<in> set rest \<Longrightarrow> undecodable q m" for m
              using live_rest heldr by (simp add: undecodable_def)
            have los: "lost_or_same q q' m" if "lost_or_same ?q3 q' m" "m \<in> set rest" for m
              using that live_rest heldr by (simp add: lost_or_same_def undecodable_def)
            obtain dropped where dr: "rest = dropped @ q_names q'" "\<forall>m \<in> set dropped. undecodable ?q3 m"
              and ks: "keeps (set (tl (q_names q')) \<union> (case r of Inr (Item n d) \<Rightarrow> {n} | _ \<Rightarrow> {})) ?q3 q'"
              and res: "case r of
                     Inl e \<Rightarrow> q_names q' \<noteq> [] \<longrightarrow> lost_or_same ?q3 q' (hd (q_names q'))
                   | Inr Waiting \<Rightarrow> q_names q' = []
                   | Inr (Item n d) \<Rightarrow> (\<exists>rest f. q_names q' = n # rest \<and> live (q_fs ?q3) n = Some f \<and> live (q_fs q') n = Some f \<and> decodeRecord (f_data f) = Inr d)"
              using ih by auto
            let ?S = "set (tl (q_names q')) \<union> (case r of Inr (Item n d) \<Rightarrow> {n} | _ \<Rightarrow> {})"
            have sub: "?S \<subseteq> set rest"
              using res dr(1) by (cases "q_names q'"; cases r; auto split: next_item.splits)
            have "keeps ?S q q'"
              using keeps_mono[OF k2 sub] ks by (simp add: keeps_def)
            moreover have "\<forall>m \<in> set (n # dropped). undecodable q m"
              using dr und f d by (auto simp: undecodable_def)
            moreover have "q_names q = (n # dropped) @ q_names q'" using Cons dr(1) by simp
            moreover have "case r of
                     Inl e \<Rightarrow> q_names q' \<noteq> [] \<longrightarrow> lost_or_same q q' (hd (q_names q'))
                   | Inr Waiting \<Rightarrow> q_names q' = []
                   | Inr (Item n d) \<Rightarrow> (\<exists>rest f. q_names q' = n # rest \<and> live (q_fs q) n = Some f \<and> live (q_fs q') n = Some f \<and> decodeRecord (f_data f) = Inr d)"
              using res live_rest heldr dr(1) hd_in_set[of "q_names q'"] los[of "hd (q_names q')"]
              by (auto split: sum.splits next_item.splits)
            ultimately show ?thesis using ih eff s1(1) by auto
          qed
        qed
      qed
    qed
  qed
qed

section \<open>Ack\<close>

lemma open_inv_drop_head:
  assumes inv: "open_inv q" and names: "q_names q = n # rest" and dis: "set rest \<inter> T = {}"
    and fr: "framed T (q_fs q) s" and cost: "cost = file_cost q n"
  shows "open_inv (q\<lparr>q_fs := s, q_names := rest, q_count := q_count q - 1, q_bytes := q_bytes q - cost\<rparr>)"
    (is "open_inv ?p")
proof -
  have heldr: "\<forall>m \<in> set rest. held ?p m"
  proof
    fix m assume m: "m \<in> set rest"
    then have "held q m" using inv names by (simp add: open_inv_def)
    moreover have "m \<notin> T" using dis m by blast
    ultimately show "held ?p m" using held_framed[of q m T ?p] fr by simp
  qed
  have hd: "rest \<noteq> [] \<longrightarrow> held ?p (hd rest)" "\<forall>m \<in> set (tl rest). held ?p m" using heldr by (cases rest; simp)+
  have "map (file_cost ?p) rest = map (file_cost q) rest" by (rule file_costs_framed[where T = T]) (use fr dis in simp_all)
  then have c: "sum_list (map (file_cost ?p) rest) = sum_list (map (file_cost q) rest)" by (rule arg_cong)
  have p: "q_names ?p = rest" "q_manifest ?p = q_manifest q" "q_count ?p = q_count q - 1" "q_bytes ?p = q_bytes q - cost"
    "q_maxItems ?p = q_maxItems q" "q_maxBytes ?p = q_maxBytes q" by simp_all
  show ?thesis using inv names hd cost file_cost_nonneg[of q n] unfolding open_inv_def p c by simp
qed

lemma Ack_effect:
  assumes inv: "open_inv q" and ack: "Ack ctx rid q = (r, q')"
  shows "open_inv q' \<and> keeps (set (q_names q) - {rid}) q q' \<and>
    (case r of
       Inl e \<Rightarrow> q_names q' = q_names q \<and> (q_closed q' \<or> keeps (set (q_names q)) q q')
     | Inr _ \<Rightarrow> \<not> q_closed q \<and> q_closed q' = q_closed q \<and> q_names q = rid # q_names q' \<and> live (q_fs q') rid = None \<and> poss (q_fs q') rid = {None})"
proof (cases "ctx = None \<and> \<not> q_closed q \<and> q_names q \<noteq> [] \<and> hd (q_names q) = rid")
  case False
  then have "(\<exists>e. r = Inl e) \<and> q' = q" using ack by (auto simp: Ack_def split: option.splits if_splits)
  then show ?thesis using inv by (auto simp: keeps_def)
next
  case True
  then obtain rest where names: "q_names q = rid # rest" by (cases "q_names q") auto
  have dis: "set rest \<inter> {rid} = {}" using inv names by (auto simp: open_inv_def)
  have rest: "set (q_names q) - {rid} = set rest" using names dis by auto
  obtain x s1 where st: "stat rid (q_fs q) = (x, s1)" by fastforce
  have s1: "s1 = spend (q_fs q)" by (rule stat_state[OF st])
  show ?thesis
  proof (cases x)
    case (Inl e)
    then have "r = Inl e" "q' = q\<lparr>q_fs := s1\<rparr>" using ack True st by (auto simp: Ack_def on_fs_def)
    then show ?thesis using open_inv_fs[OF inv, of s1] keeps_fs[of q s1] s1 by simp
  next
    case x: (Inr info)
    have info: "live (q_fs q) rid = Some info" using stat_Inr[OF st[unfolded x]] by simp
    obtain y s2 where rm: "remove rid s1 = (y, s2)" by fastforce
    show ?thesis
    proof (cases y)
      case (Inl e)
      then have "r = Inl e" "q' = q\<lparr>q_fs := s2\<rparr>" using ack True st x rm by (auto simp: Ack_def on_fs_def)
      moreover have "framed {} (q_fs q) s2" using remove_Inl[OF rm[unfolded Inl]] s1 framed_trans[OF spend_simps(8) spend_simps(8)] by simp
      ultimately show ?thesis using open_inv_fs[OF inv, of s2] keeps_fs[of q s2] by simp
    next
      case y: (Inr u)
      obtain z s3 where sy: "syncDir s2 = (z, s3)" by fastforce
      have f2: "framed {rid} (q_fs q) s2"
        unfolding s1 using framesD[OF frames_remove rm[unfolded s1]] by (auto intro: framed_trans[OF spend_simps(8)])
      have f3: "framed {rid} (q_fs q) s3" by (rule framed_trans[OF f2 framesD[OF frames_syncDir sy]])
      have gone: "live s3 rid = None" using remove_Inr[OF rm[unfolded y]] syncDir_live[OF sy] by simp
      have cost: "charge (int (length (f_data info))) = file_cost q rid" using info by (simp add: file_cost_def)
      show ?thesis
      proof (cases z)
        case (Inl e)
        then have q': "r = Inl e" "q' = q\<lparr>q_fs := s3, q_closed := True\<rparr>"
          using ack True st x rm y sy by (auto simp: Ack_def on_fs_def)
        let ?d = "q\<lparr>q_fs := s3, q_names := rest, q_count := q_count q - 1, q_bytes := q_bytes q - file_cost q rid\<rparr>"
        have d: "open_inv ?d" by (rule open_inv_drop_head[OF inv names dis f3 refl])
        have same: "held ?d = held q'" "file_cost ?d = file_cost q'" by (simp_all add: held_def file_cost_def q'(2) fun_eq_iff)
        have c0: "file_cost q' rid = 0" using gone by (simp add: file_cost_def q'(2))
        have eqs: "q_names q' = rid # rest" "q_manifest q' = q_manifest q" "q_count q' = q_count q" "q_bytes q' = q_bytes q"
          "q_maxItems q' = q_maxItems q" "q_maxBytes q' = q_maxBytes q" using q'(2) names by auto
        have lv: "live (q_fs q') rid = None" using q'(2) gone by simp
        have hr: "\<forall>m \<in> set rest. held q' m"
        proof
          fix m assume m: "m \<in> set rest"
          then have "held q m" using inv names by (simp add: open_inv_def)
          then show "held q' m" by (rule held_framed[where T = "{rid}"]) (use f3 q'(2) m dis in auto)
        qed
        have "open_inv q'"
          using d inv names hr c0 lv file_cost_nonneg[of q rid] unfolding open_inv_def eqs same by simp
        moreover have "keeps (set rest) q q'" by (rule keeps_framed[OF _ dis]) (use f3 q'(2) in simp)
        ultimately show ?thesis using q' rest by simp
      next
        case z: (Inr v)
        then have q': "r = Inr ()" "q' = q\<lparr>q_fs := s3, q_names := rest, q_count := q_count q - 1, q_bytes := q_bytes q - file_cost q rid\<rparr>"
          using ack True st x rm y sy names cost by (auto simp: Ack_def on_fs_def)
        have "open_inv q'" unfolding q'(2) by (rule open_inv_drop_head[OF inv names dis f3 refl])
        moreover have "keeps (set rest) q q'" by (rule keeps_framed[OF _ dis]) (use f3 q'(2) in simp)
        moreover have "poss s3 rid = {None}" using syncDir_Inr[OF sy[unfolded z]] gone by auto
        ultimately show ?thesis using q' names True gone rest by simp
      qed
    qed
  qed
qed

section \<open>A healthy directory\<close>

text \<open>With no faults scripted, calls fail only for reasons in the directory.\<close>

definition healthy :: "fs \<Rightarrow> bool" where
  "healthy s \<longleftrightarrow> fs_fates s = []"

lemma healthy_spend: "healthy s \<Longrightarrow> spend s = s"
  by (cases s) (simp add: healthy_def spend_def)

lemma healthy_syscall: "healthy s \<Longrightarrow> syscall act s = act s"
  using healthy_spend[of s] by (simp add: healthy_def syscall_def fate_of_def)

lemma healthy_put_entry [simp]: "healthy (put_entry n f s) = healthy s"
  by (simp add: healthy_def put_entry_def)

lemma healthy_fill:
  assumes "healthy s" "live s n = Some f"
  shows "\<exists>s'. fill n d s = (Inr (), s') \<and> healthy s'"
proof -
  have w: "write_all n d s = (Inr (), put_entry n (f\<lparr>f_data := f_data f @ d, f_synced := False\<rparr>) s)"
    using assms healthy_spend[OF assms(1)] by (simp add: write_all_def healthy_def fate_of_def set_data_live)
  then show ?thesis using assms
    by (simp add: fill_def andThen_def attempt_def fsync_def close_file_def healthy_syscall set_data_live ret_def)
qed

lemma healthy_syncDir: "healthy s \<Longrightarrow> \<exists>s'. syncDir s = (Inr (), s') \<and> healthy s'"
  by (simp add: syncDir_def andThen_def open_dir_def fsync_dir_def healthy_syscall) (simp add: healthy_def)

definition is_dir :: "fs \<Rightarrow> bytes \<Rightarrow> bool" where
  "is_dir s n \<longleftrightarrow> (\<exists>f. live s n = Some f \<and> f_kind f = Directory)"

lemma healthy_rename:
  assumes "healthy s" "live s old \<noteq> None" "\<not> is_dir s new"
  shows "\<exists>s'. rename old new s = (Inr (), s') \<and> healthy s'"
  using assms by (auto simp: rename_def healthy_syscall is_dir_def split: option.splits) (auto simp: healthy_def)

lemma healthy_disk_write:
  assumes h: "healthy s" and p: "live s ''.pending'' = None" and n: "\<not> is_dir s n" "n \<noteq> ''.pending''"
  shows "\<exists>s'. disk_write n d s = (Inr (), s') \<and> healthy s' \<and> live s' ''.pending'' = None"
proof -
  let ?s1 = "put_entry ''.pending'' (fresh_file s) s"
  have c: "create_excl ''.pending'' s = (Inr (), ?s1)" using h p by (simp add: create_excl_def healthy_syscall)
  obtain s2 where f: "fill ''.pending'' d ?s1 = (Inr (), s2)" "healthy s2"
    using healthy_fill[of ?s1 "''.pending''"] h by auto
  have fr: "framed {''.pending''} ?s1 s2" by (rule framesD[OF frames_fill f(1)]) simp
  have "\<not> is_dir s2 n" using n live_framed[OF fr] by (simp add: is_dir_def)
  moreover have "live s2 ''.pending'' \<noteq> None" using fill_Inr[OF f(1), of "fresh_file s"] by simp
  ultimately obtain s3 where r: "rename ''.pending'' n s2 = (Inr (), s3)" "healthy s3"
    using healthy_rename[OF f(2)] by blast
  obtain s4 where sy: "syncDir s3 = (Inr (), s4)" "healthy s4" using healthy_syncDir[OF r(2)] by blast
  have l: "live s4 ''.pending'' = None" using rename_Inr[OF r(1)] n syncDir_live[OF sy(1)] by auto
  have rm: "remove ''.pending'' s4 = (Inl NotExist, s4)" using l sy(2) by (simp add: remove_def healthy_syscall)
  have "disk_write n d s = (Inr (), s4)"
    using c f r sy rm by (simp add: disk_write_def andThen_def attempt_def ret_def)
  then show ?thesis using l sy(2) by blast
qed

lemma healthy_disk_saveManifest:
  assumes "healthy s" "live s ''.pending'' = None" "\<not> is_dir s ''manifest.backup''" "\<not> is_dir s ''manifest.json''"
  shows "\<exists>s'. disk_saveManifest m s = (Inr (), s') \<and> healthy s' \<and> live s' ''.pending'' = None"
proof -
  obtain s1 where w1: "disk_write ''manifest.backup'' (marshal_manifest m) s = (Inr (), s1)" "healthy s1" "live s1 ''.pending'' = None"
    using healthy_disk_write[OF assms(1,2,3)] by auto
  have fr: "framed {''.pending'', ''manifest.backup''} s s1" by (rule framesD[OF frames_disk_write w1(1)])
  have "\<not> is_dir s1 ''manifest.json''" using assms(4) live_framed[OF fr] by (simp add: is_dir_def)
  then obtain s2 where "disk_write ''manifest.json'' (marshal_manifest m) s1 = (Inr (), s2)" "healthy s2" "live s2 ''.pending'' = None"
    using healthy_disk_write[OF w1(2,3)] by auto
  with w1 show ?thesis by (simp add: disk_saveManifest_def andThen_def)
qed

text \<open>On a healthy directory every payload within the limits is accepted.\<close>

lemma Put_healthy:
  assumes inv: "open_inv q" and h: "healthy (q_fs q)" "live (q_fs q) ''.pending'' = None"
    "\<not> is_dir (q_fs q) ''manifest.backup''" "\<not> is_dir (q_fs q) ''manifest.json''"
    "\<not> is_dir (q_fs q) (rec_name (m_next (q_manifest q)))"
    and c: "\<not> q_closed q" "length data \<le> 4194304" "compact data = Some p" "q_count q < q_maxItems q"
    "q_bytes q + charge (int (length (put_record p))) \<le> q_maxBytes q" "m_next (q_manifest q) \<noteq> - 1"
  shows "\<exists>q'. Put None data q = (Inr (rec_name (m_next (q_manifest q))), q') \<and> healthy (q_fs q') \<and> live (q_fs q') ''.pending'' = None"
proof -
  let ?q1 = "q\<lparr>q_manifest := (q_manifest q)\<lparr>m_next := m_next (q_manifest q) + 1\<rparr>\<rparr>"
  obtain s1 where m: "disk_saveManifest (q_manifest ?q1) (q_fs q) = (Inr (), s1)" "healthy s1" "live s1 ''.pending'' = None"
    using healthy_disk_saveManifest[OF h(1-4)] by blast
  have fr: "framed {''.pending'', ''manifest.backup'', ''manifest.json''} (q_fs q) s1"
    by (rule framesD[OF frames_disk_saveManifest m(1)])
  have "\<not> is_dir s1 (rec_name (m_next (q_manifest q)))" using h(5) live_framed[OF fr] rec_not_control by (simp add: is_dir_def)
  then obtain s2 where w: "disk_write (rec_name (m_next (q_manifest q))) (put_record p) s1 = (Inr (), s2)" "healthy s2"
      "live s2 ''.pending'' = None"
    using healthy_disk_write[OF m(2,3)] rec_not_control by blast
  have "json_Valid data" using c(3) compact_Valid by blast
  then show ?thesis using c m w by (simp add: Put_def put_record_def[symmetric] Let_def on_fs_def)
qed

end
