(* ===== verification/Delivery.thy ===== *)
theory Delivery
  imports Durable
begin

text \<open>
  The metrics capability's workers (\<^verbatim>\<open>src/internal/collectors/metrics.go\<close>, \<open>launch\<close> and \<open>scrape\<close>) over any
  durable queue. The scraping goroutine and the delivery goroutine interleave at their calls on the
  queue, which its mutex makes atomic: \<open>worker_step\<close> has one rule per call. The queue operations are
  arguments; \<open>w_entered\<close>, \<open>w_left\<close> and \<open>w_sent\<close> record what happened, no code reads them.
\<close>

datatype outcome = Accepted | Rejected | Unauthorized | Exhausted | Cancelled

datatype phase = Fetching | Sending bytes bytes | Acking bytes bytes | Stopped

record counters =
  AcceptedRecords :: u64
  QueuedRecords :: u64
  QueueRejected :: u64
  DroppedBatches :: u64
  DeliveredRecords :: u64
  RetriedRecords :: u64
  ExportFailures :: u64
  DeliveryPaused :: u64

record 'q worker =
  w_queue :: 'q
  w_phase :: phase
  w_blocked :: bool
  w_stats :: counters
  w_entered :: "(bytes \<times> bytes option) list"
  w_left :: "(bytes \<times> bytes option) list"
  w_sent :: "(bytes \<times> bytes) set"

section \<open>The scraper\<close>

text \<open>One iteration of the enqueue loop; \<open>True\<close> tells the loop to go on.\<close>

definition enqueue ::
    "(error option \<Rightarrow> bytes \<Rightarrow> 'q \<Rightarrow> bytes result \<times> 'q) \<Rightarrow> (bytes \<Rightarrow> bytes option) \<Rightarrow> error option \<Rightarrow> bytes
     \<Rightarrow> 'q worker \<Rightarrow> bool \<times> 'q worker" where
  "enqueue put stored ctx batch w =
     (let w1 = w\<lparr>w_stats := (w_stats w)\<lparr>AcceptedRecords := AcceptedRecords (w_stats w) + 1\<rparr>\<rparr> in
      case put ctx batch (w_queue w1) of
        (Inr rid, q') \<Rightarrow>
          (True, w1\<lparr>w_queue := q', w_entered := w_entered w1 @ [(rid, stored batch)],
             w_stats := (w_stats w1)\<lparr>QueuedRecords := QueuedRecords (w_stats w1) + 1\<rparr>\<rparr>)
      | (Inl e, q') \<Rightarrow>
          let st = (w_stats w1)\<lparr>QueueRejected := QueueRejected (w_stats w1) + 1, DroppedBatches := DroppedBatches (w_stats w1) + 1\<rparr>
          in if e \<noteq> ErrFull \<and> ctx = None
             then (False, w1\<lparr>w_queue := q', w_blocked := True,
                     w_stats := st\<lparr>ExportFailures := ExportFailures st + 1, DeliveryPaused := 1\<rparr>\<rparr>)
             else (True, w1\<lparr>w_queue := q', w_stats := st\<rparr>))"

text \<open>The loop over the batches of one scrape.\<close>

fun enqueue_all ::
    "(error option \<Rightarrow> bytes \<Rightarrow> 'q \<Rightarrow> bytes result \<times> 'q) \<Rightarrow> (bytes \<Rightarrow> bytes option) \<Rightarrow> error option \<Rightarrow> bytes list
     \<Rightarrow> 'q worker \<Rightarrow> 'q worker" where
  "enqueue_all put stored ctx [] w = w"
| "enqueue_all put stored ctx (b # bs) w =
     (case enqueue put stored ctx b w of (go, w') \<Rightarrow> if go then enqueue_all put stored ctx bs w' else w')"

section \<open>The delivery loop\<close>

definition deliver_next ::
    "(error option \<Rightarrow> 'q \<Rightarrow> next_item result \<times> 'q) \<Rightarrow> ('q \<Rightarrow> bytes list) \<Rightarrow> error option \<Rightarrow> 'q worker \<Rightarrow> 'q worker" where
  "deliver_next fetch pending ctx w =
     (case fetch ctx (w_queue w) of (r, q') \<Rightarrow>
        let dropped = take (length (pending (w_queue w)) - length (pending q')) (pending (w_queue w));
            w1 = w\<lparr>w_queue := q', w_left := w_left w @ map (\<lambda>n. (n, None)) dropped\<rparr>
        in (case r of
              Inl e \<Rightarrow>
                if ctx = None
                then w1\<lparr>w_phase := Stopped, w_blocked := True,
                        w_stats := (w_stats w1)\<lparr>ExportFailures := ExportFailures (w_stats w1) + 1, DeliveryPaused := 1\<rparr>\<rparr>
                else w1\<lparr>w_phase := Stopped\<rparr>
            | Inr Waiting \<Rightarrow> w1
            | Inr (Item rid d) \<Rightarrow> w1\<lparr>w_phase := Sending rid d\<rparr>))"

definition deliver_outcome :: "outcome \<Rightarrow> 'q worker \<Rightarrow> 'q worker" where
  "deliver_outcome out w =
     (case w_phase w of
        Sending rid d \<Rightarrow>
          (case out of
             Accepted \<Rightarrow> w\<lparr>w_phase := Acking rid d, w_sent := insert (rid, d) (w_sent w)\<rparr>
           | Unauthorized \<Rightarrow> w\<lparr>w_phase := Stopped, w_blocked := True, w_stats := (w_stats w)\<lparr>DeliveryPaused := 1\<rparr>\<rparr>
           | Rejected \<Rightarrow> w\<lparr>w_phase := Stopped, w_blocked := True, w_stats := (w_stats w)\<lparr>DeliveryPaused := 1\<rparr>\<rparr>
           | Cancelled \<Rightarrow> w\<lparr>w_phase := Stopped\<rparr>
           | Exhausted \<Rightarrow> w\<lparr>w_phase := Fetching, w_stats := (w_stats w)\<lparr>RetriedRecords := RetriedRecords (w_stats w) + 1\<rparr>\<rparr>)
      | _ \<Rightarrow> w)"

definition deliver_ack ::
    "(error option \<Rightarrow> bytes \<Rightarrow> 'q \<Rightarrow> unit result \<times> 'q) \<Rightarrow> error option \<Rightarrow> 'q worker \<Rightarrow> 'q worker" where
  "deliver_ack ack ctx w =
     (case w_phase w of
        Acking rid d \<Rightarrow>
          (case ack ctx rid (w_queue w) of
             (Inl e, q') \<Rightarrow> w\<lparr>w_queue := q', w_phase := Stopped, w_blocked := True,
                 w_stats := (w_stats w)\<lparr>ExportFailures := ExportFailures (w_stats w) + 1\<rparr>\<rparr>
           | (Inr _, q') \<Rightarrow> w\<lparr>w_queue := q', w_phase := Fetching, w_left := w_left w @ [(rid, Some d)],
                 w_stats := (w_stats w)\<lparr>DeliveredRecords := DeliveredRecords (w_stats w) + 1\<rparr>\<rparr>)
      | _ \<Rightarrow> w)"

text \<open>
  The interleaving. A put happens only while the scraper is not blocked (it may have passed that check
  before the delivery loop blocked it, so the rule does not ask for it). After the cancellation wait of
  an exhausted cycle the loop may also stop.
\<close>

inductive worker_step ::
    "(error option \<Rightarrow> bytes \<Rightarrow> 'q \<Rightarrow> bytes result \<times> 'q) \<Rightarrow> (error option \<Rightarrow> 'q \<Rightarrow> next_item result \<times> 'q)
     \<Rightarrow> (error option \<Rightarrow> bytes \<Rightarrow> 'q \<Rightarrow> unit result \<times> 'q) \<Rightarrow> ('q \<Rightarrow> bytes list) \<Rightarrow> (bytes \<Rightarrow> bytes option)
     \<Rightarrow> 'q worker \<Rightarrow> 'q worker \<Rightarrow> bool"
  for put fetch ack pending stored
where
  step_put: "worker_step put fetch ack pending stored w (snd (enqueue put stored ctx batch w))"
| step_next: "w_phase w = Fetching \<Longrightarrow> worker_step put fetch ack pending stored w (deliver_next fetch pending ctx w)"
| step_outcome: "w_phase w = Sending rid d \<Longrightarrow> worker_step put fetch ack pending stored w (deliver_outcome out w)"
| step_ack: "w_phase w = Acking rid d \<Longrightarrow> worker_step put fetch ack pending stored w (deliver_ack ack ctx w)"
| step_cancel: "w_phase w = Fetching \<Longrightarrow> worker_step put fetch ack pending stored w (w\<lparr>w_phase := Stopped\<rparr>)"

inductive worker_run for put fetch ack pending stored where
  run_start: "worker_run put fetch ack pending stored w w"
| run_more: "worker_run put fetch ack pending stored w w' \<Longrightarrow> worker_step put fetch ack pending stored w' w''
    \<Longrightarrow> worker_run put fetch ack pending stored w w''"

definition zero_counters :: counters where
  "zero_counters = \<lparr>AcceptedRecords = 0, QueuedRecords = 0, QueueRejected = 0, DroppedBatches = 0,
     DeliveredRecords = 0, RetriedRecords = 0, ExportFailures = 0, DeliveryPaused = 0\<rparr>"

text \<open>The workers at launch: the backlog of the queue counts as entered.\<close>

definition launch :: "('q \<Rightarrow> bytes list) \<Rightarrow> ('q \<Rightarrow> bytes \<Rightarrow> bytes option) \<Rightarrow> 'q \<Rightarrow> 'q worker" where
  "launch pending content q =
     \<lparr>w_queue = q, w_phase = Fetching, w_blocked = False, w_stats = zero_counters,
      w_entered = map (\<lambda>n. (n, content q n)) (pending q), w_left = [], w_sent = {}\<rparr>"

section \<open>Delivery only by acceptance\<close>

text \<open>
  What has happened to the records: those that entered are, in order, the ones that left followed by
  the ones that are pending; a record left with its payload accepted by the backend, or because it never
  was readable; a pending record reads as it entered, unless its acceptance could not be recorded.
\<close>

definition accounted :: "('q \<Rightarrow> bytes list) \<Rightarrow> ('q \<Rightarrow> bytes \<Rightarrow> bytes option) \<Rightarrow> 'q worker \<Rightarrow> bool" where
  "accounted pending content w \<longleftrightarrow>
     (\<exists>live_entries.
        w_entered w = w_left w @ live_entries
      \<and> map fst live_entries = pending (w_queue w)
      \<and> (\<forall>(n, v) \<in> set live_entries. content (w_queue w) n = v
            \<or> (w_phase w = Stopped \<and> w_blocked w \<and> (\<exists>d. v = Some d \<and> (n, d) \<in> w_sent w))))
     \<and> (\<forall>(n, v) \<in> set (w_left w). case v of None \<Rightarrow> True | Some d \<Rightarrow> (n, d) \<in> w_sent w)"

context durable_queue
begin

definition phase_ok :: "'q worker \<Rightarrow> bool" where
  "phase_ok w \<longleftrightarrow>
     (case w_phase w of
        Sending n d \<Rightarrow> (\<exists>rest. pending (w_queue w) = n # rest) \<and> content (w_queue w) n = Some d
      | Acking n d \<Rightarrow> (\<exists>rest. pending (w_queue w) = n # rest) \<and> content (w_queue w) n = Some d \<and> (n, d) \<in> w_sent w
      | _ \<Rightarrow> True)"

definition winv :: "'q worker \<Rightarrow> bool" where
  "winv w \<longleftrightarrow> invar (w_queue w) \<and> accounted pending content w \<and> phase_ok w"

lemma winvI:
  assumes "invar (w_queue w)" "phase_ok w" "w_entered w = w_left w @ ls" "map fst ls = pending (w_queue w)"
    "\<And>n v. (n, v) \<in> set ls \<Longrightarrow> content (w_queue w) n = v
        \<or> (w_phase w = Stopped \<and> w_blocked w \<and> (\<exists>d. v = Some d \<and> (n, d) \<in> w_sent w))"
    "\<And>n d. (n, Some d) \<in> set (w_left w) \<Longrightarrow> (n, d) \<in> w_sent w"
  shows "winv w"
  unfolding winv_def accounted_def using assms by (auto split: option.splits intro!: exI[of _ ls])

lemma winvE:
  assumes "winv w"
  obtains ls where "invar (w_queue w)" "phase_ok w" "w_entered w = w_left w @ ls" "map fst ls = pending (w_queue w)"
    "\<And>n v. (n, v) \<in> set ls \<Longrightarrow> content (w_queue w) n = v
        \<or> (w_phase w = Stopped \<and> w_blocked w \<and> (\<exists>d. v = Some d \<and> (n, d) \<in> w_sent w))"
    "\<And>n d. (n, Some d) \<in> set (w_left w) \<Longrightarrow> (n, d) \<in> w_sent w"
proof -
  from assms obtain ls where ls: "w_entered w = w_left w @ ls" "map fst ls = pending (w_queue w)"
    "\<forall>(n, v) \<in> set ls. content (w_queue w) n = v
        \<or> (w_phase w = Stopped \<and> w_blocked w \<and> (\<exists>d. v = Some d \<and> (n, d) \<in> w_sent w))"
    unfolding winv_def accounted_def by blast
  have "(n, d) \<in> w_sent w" if "(n, Some d) \<in> set (w_left w)" for n d
    using assms that unfolding winv_def accounted_def by (auto split: option.splits)
  moreover have "content (w_queue w) n = v
        \<or> (w_phase w = Stopped \<and> w_blocked w \<and> (\<exists>d. v = Some d \<and> (n, d) \<in> w_sent w))" if "(n, v) \<in> set ls" for n v
    using ls(3) that by auto
  ultimately show ?thesis using that[of ls] ls(1,2) assms by (simp add: winv_def)
qed

text \<open>A step that leaves the queue alone and only adds to what was sent.\<close>

lemma winv_same_queue:
  assumes "winv w" "w_queue w' = w_queue w" "w_entered w' = w_entered w" "w_left w' = w_left w" "w_sent w \<subseteq> w_sent w'"
    "phase_ok w'" "w_phase w = Stopped \<and> w_blocked w \<longrightarrow> w_phase w' = Stopped \<and> w_blocked w'"
  shows "winv w'"
proof -
  obtain ls where "invar (w_queue w)" "w_entered w = w_left w @ ls" "map fst ls = pending (w_queue w)"
    "\<And>n v. (n, v) \<in> set ls \<Longrightarrow> content (w_queue w) n = v
        \<or> (w_phase w = Stopped \<and> w_blocked w \<and> (\<exists>d. v = Some d \<and> (n, d) \<in> w_sent w))"
    "\<And>n d. (n, Some d) \<in> set (w_left w) \<Longrightarrow> (n, d) \<in> w_sent w" using assms(1) by (rule winvE) blast
  then show ?thesis using assms by (intro winvI[of w' ls]) (auto, blast+)
qed

lemma winv_put_queue:
  assumes inv: "winv w" and put: "put ctx batch (w_queue w) = (r, q')"
    and w': "w_queue w' = q'" "w_phase w' = w_phase w" "w_left w' = w_left w" "w_sent w' = w_sent w"
      "w_blocked w \<longrightarrow> w_blocked w'"
      "w_entered w' = w_entered w @ (case r of Inl _ \<Rightarrow> [] | Inr rid \<Rightarrow> [(rid, stored batch)])"
  shows "winv w'"
proof -
  obtain ls where ls: "invar (w_queue w)" "phase_ok w" "w_entered w = w_left w @ ls" "map fst ls = pending (w_queue w)"
    "\<And>n v. (n, v) \<in> set ls \<Longrightarrow> content (w_queue w) n = v
        \<or> (w_phase w = Stopped \<and> w_blocked w \<and> (\<exists>d. v = Some d \<and> (n, d) \<in> w_sent w))"
    "\<And>n d. (n, Some d) \<in> set (w_left w) \<Longrightarrow> (n, d) \<in> w_sent w" using inv by (rule winvE) blast
  note law = put_law[OF ls(1) put]
  let ?new = "case r of Inl _ \<Rightarrow> [] | Inr rid \<Rightarrow> [(rid, stored batch)]"
  have pend: "pending q' = pending (w_queue w) @ map fst ?new" using law by (cases r) auto
  have keep: "content q' n = content (w_queue w) n" if "n \<in> set (pending (w_queue w))" for n using law that by blast
  show ?thesis
  proof (rule winvI[of w' "ls @ ?new"])
    show "phase_ok w'" using ls(2) pend keep w'(1,2,4) by (auto simp: phase_ok_def split: phase.splits)
    fix n v assume nv: "(n, v) \<in> set (ls @ ?new)"
    show "content (w_queue w') n = v \<or> (w_phase w' = Stopped \<and> w_blocked w' \<and> (\<exists>d. v = Some d \<and> (n, d) \<in> w_sent w'))"
    proof (cases "(n, v) \<in> set ls")
      case True
      then have "n \<in> set (pending (w_queue w))" using ls(4) by (metis fst_conv image_eqI set_map)
      with True ls(5)[OF True] keep w' show ?thesis by auto
    next
      case False
      with nv law w'(1) show ?thesis by (cases r) auto
    qed
  qed (use ls w' law pend in auto)
qed

lemma winv_enqueue: "winv w \<Longrightarrow> winv (snd (enqueue put stored ctx batch w))"
proof -
  assume inv: "winv w"
  obtain r q' where put: "put ctx batch (w_queue w) = (r, q')" by fastforce
  show ?thesis
    by (rule winv_put_queue[OF inv put]; cases r; simp add: enqueue_def Let_def put)
qed

lemma fst_drop_eq: "map fst ls = a @ b \<Longrightarrow> ls = take (length a) ls @ drop (length a) ls \<and> map fst (take (length a) ls) = a \<and> map fst (drop (length a) ls) = b"
  by (auto simp: take_map[symmetric] drop_map[symmetric])

lemma map_fst_const: "map fst xs = ns \<Longrightarrow> \<forall>(n, v) \<in> set xs. v = c \<Longrightarrow> xs = map (\<lambda>n. (n, c)) ns"
  by (induction xs arbitrary: ns) auto

lemma winv_next: "winv w \<Longrightarrow> w_phase w = Fetching \<Longrightarrow> winv (deliver_next fetch pending ctx w)"
proof -
  assume inv: "winv w" and ph: "w_phase w = Fetching"
  obtain ls where ls: "invar (w_queue w)" "w_entered w = w_left w @ ls" "map fst ls = pending (w_queue w)"
    "\<And>n v. (n, v) \<in> set ls \<Longrightarrow> content (w_queue w) n = v"
    "\<And>n d. (n, Some d) \<in> set (w_left w) \<Longrightarrow> (n, d) \<in> w_sent w" using inv ph by (auto elim!: winvE)
  obtain r q' where f: "fetch ctx (w_queue w) = (r, q')" by fastforce
  note law = fetch_law[OF ls(1) f]
  then obtain dropped where d: "pending (w_queue w) = dropped @ pending q'" "\<forall>n \<in> set dropped. content (w_queue w) n = None" by blast
  define ls1 where "ls1 = take (length dropped) ls"
  define ls2 where "ls2 = drop (length dropped) ls"
  have split: "ls = ls1 @ ls2" "map fst ls1 = dropped" "map fst ls2 = pending q'"
    using fst_drop_eq[OF ls(3)[unfolded d(1)]] by (simp_all add: ls1_def ls2_def)
  have c1: "\<forall>(n, v) \<in> set ls1. v = None"
  proof (clarify)
    fix n v assume nv: "(n, v) \<in> set ls1"
    then have "n \<in> set dropped" using split(2) by (metis fst_conv image_eqI set_map)
    with d(2) ls(4)[of n v] nv split(1) show "v = None" by auto
  qed
  have drop: "take (length (pending (w_queue w)) - length (pending q')) (pending (w_queue w)) = dropped" using d(1) by simp
  let ?w = "deliver_next fetch pending ctx w"
  have fields: "w_queue ?w = q'" "w_entered ?w = w_entered w" "w_left ?w = w_left w @ map (\<lambda>n. (n, None)) dropped"
    "w_sent ?w = w_sent w"
    using f drop by (auto simp: deliver_next_def Let_def split: sum.splits next_item.splits)
  show ?thesis
  proof (rule winvI[of ?w ls2])
    show "phase_ok ?w" using f drop law
      by (auto simp: deliver_next_def Let_def phase_ok_def ph split: sum.splits next_item.splits)
    show "w_entered ?w = w_left ?w @ ls2" using fields ls(2) split map_fst_const[OF split(2) c1] by simp
    fix n v assume nv: "(n, v) \<in> set ls2"
    then have "n \<in> set (pending q')" using split(3) by (metis fst_conv image_eqI set_map)
    then have "content q' n = v" using law ls(4)[of n v] nv split(1) by auto
    then show "content (w_queue ?w) n = v \<or> (w_phase ?w = Stopped \<and> w_blocked ?w \<and> (\<exists>d. v = Some d \<and> (n, d) \<in> w_sent ?w))"
      by (simp add: fields)
  qed (use ls split fields law in auto)
qed

lemma winv_outcome: "winv w \<Longrightarrow> w_phase w = Sending n d \<Longrightarrow> winv (deliver_outcome out w)"
  by (rule winv_same_queue[of w]; cases out; auto simp: deliver_outcome_def winv_def phase_ok_def)

lemma winv_ack: "winv w \<Longrightarrow> w_phase w = Acking n d \<Longrightarrow> winv (deliver_ack ack ctx w)"
proof -
  assume inv: "winv w" and ph: "w_phase w = Acking n d"
  obtain ls where ls: "invar (w_queue w)" "phase_ok w" "w_entered w = w_left w @ ls" "map fst ls = pending (w_queue w)"
    "\<And>n v. (n, v) \<in> set ls \<Longrightarrow> content (w_queue w) n = v"
    "\<And>n d. (n, Some d) \<in> set (w_left w) \<Longrightarrow> (n, d) \<in> w_sent w" using inv ph by (auto elim!: winvE)
  have head: "\<exists>rest. pending (w_queue w) = n # rest" "content (w_queue w) n = Some d" "(n, d) \<in> w_sent w"
    using ls(2) ph by (auto simp: phase_ok_def)
  obtain r q' where a: "ack ctx n (w_queue w) = (r, q')" by fastforce
  note law = ack_law[OF ls(1) a]
  have dist: "distinct (pending (w_queue w))" using pending_distinct ls(1) by blast
  from head(1) ls(4) obtain v ls' where ls': "ls = (n, v) # ls'" by (cases ls) auto
  have v: "v = Some d" using ls(5)[of n v] ls' head(2) by simp
  have other: "m \<in> set (pending (w_queue w)) - {n}" if "(m, u) \<in> set ls'" for m u
  proof -
    have "map fst ls' = tl (pending (w_queue w))" using ls(4) ls' by (metis list.sel(3) list.simps(9))
    then have "m \<in> set (tl (pending (w_queue w)))" using that by (metis fst_conv image_eqI set_map)
    with dist head(1) show ?thesis by auto
  qed
  let ?w = "deliver_ack ack ctx w"
  show ?thesis
  proof (cases r)
    case (Inl e)
    have w: "w_queue ?w = q'" "w_phase ?w = Stopped" "w_blocked ?w" "w_entered ?w = w_entered w" "w_left ?w = w_left w"
      "w_sent ?w = w_sent w" using Inl ph a by (simp_all add: deliver_ack_def)
    show ?thesis
    proof (rule winvI[of ?w ls])
      show "phase_ok ?w" using w(2) by (simp add: phase_ok_def)
      fix m u assume mu: "(m, u) \<in> set ls"
      show "content (w_queue ?w) m = u \<or> (w_phase ?w = Stopped \<and> w_blocked ?w \<and> (\<exists>d. u = Some d \<and> (m, d) \<in> w_sent ?w))"
      proof (cases "(m, u) \<in> set ls'")
        case True
        then show ?thesis using law other[OF True] ls(5)[OF mu] w(1) by auto
      next
        case False
        then show ?thesis using mu ls' v head(3) w by auto
      qed
    qed (use ls law Inl w in auto)
  next
    case (Inr u)
    have w: "w_queue ?w = q'" "w_phase ?w = Fetching" "w_entered ?w = w_entered w" "w_left ?w = w_left w @ [(n, Some d)]"
      "w_sent ?w = w_sent w" using Inr ph a by (simp_all add: deliver_ack_def)
    show ?thesis
    proof (rule winvI[of ?w ls'])
      show "phase_ok ?w" using w(2) by (simp add: phase_ok_def)
      show "w_entered ?w = w_left ?w @ ls'" using w ls(3) ls' v by simp
      show "map fst ls' = pending (w_queue ?w)" using law Inr ls(4) ls' w(1) by simp
      fix m u assume mu: "(m, u) \<in> set ls'"
      have "content q' m = u" using law other[OF mu] ls(5)[of m u] mu ls' by auto
      then show "content (w_queue ?w) m = u \<or> (w_phase ?w = Stopped \<and> w_blocked ?w \<and> (\<exists>d. u = Some d \<and> (m, d) \<in> w_sent ?w))"
        by (simp add: w(1))
    qed (use ls law w head in auto)
  qed
qed

lemma winv_step: "worker_step put fetch ack pending stored w w' \<Longrightarrow> winv w \<Longrightarrow> winv w'"
proof (induction rule: worker_step.induct)
  case (step_cancel w)
  show ?case by (rule winv_same_queue[of w]) (use step_cancel in \<open>auto simp: phase_ok_def\<close>)
qed (auto intro: winv_enqueue winv_next winv_outcome winv_ack)

lemma winv_launch: "invar q \<Longrightarrow> winv (launch pending content q)"
  by (rule winvI[of _ "map (\<lambda>n. (n, content q n)) (pending q)"]) (auto simp: launch_def phase_ok_def comp_def)

lemma winv_run:
  assumes "worker_run put fetch ack pending stored (launch pending content q) w" "invar q" shows "winv w"
  using assms(1)
proof (induction "launch pending content q" w rule: worker_run.induct)
  case run_start
  show ?case using assms(2) by (rule winv_launch)
next
  case (run_more w' w'')
  then show ?case using winv_step by blast
qed

lemma run_accounted:
  "worker_run put fetch ack pending stored (launch pending content q) w \<Longrightarrow> invar q \<Longrightarrow> accounted pending content w"
  using winv_run by (simp add: winv_def)

end

end
