(* ===== verification/DiskContract.thy ===== *)
theory DiskContract
  imports DiskInv Delivery
begin

text \<open>
  The metrics spool keeps the contract of the queue interface, whatever the file system fails to do.
\<close>

definition disk_content :: "disk \<Rightarrow> bytes \<Rightarrow> bytes option" where
  "disk_content q n =
     (case live (q_fs q) n of None \<Rightarrow> None
      | Some f \<Rightarrow> (case decodeRecord (f_data f) of Inl _ \<Rightarrow> None | Inr d \<Rightarrow> Some d))"

definition disk_stored :: "bytes \<Rightarrow> bytes option" where
  "disk_stored d =
     (case compact d of None \<Rightarrow> None
      | Some p \<Rightarrow> (case decodeRecord (put_record p) of Inl _ \<Rightarrow> None | Inr x \<Rightarrow> Some x))"

lemma disk_stored_compact: "nested_within (maxNestingDepth - 1) d \<Longrightarrow> compact d = Some p \<Longrightarrow> disk_stored d = Some p"
  by (simp add: disk_stored_def put_record_def decode_marshal)

lemma keeps_content: "keeps ns q q' \<Longrightarrow> n \<in> ns \<Longrightarrow> disk_content q' n = disk_content q n"
  by (simp add: keeps_def disk_content_def)

lemma undecodable_content: "undecodable q n \<Longrightarrow> disk_content q n = None"
  by (auto simp: undecodable_def disk_content_def split: sum.splits)

interpretation dq: durable_queue Next Ack open_inv q_names disk_content Put disk_stored
proof
  fix c r and q q' :: disk
  assume a: "open_inv q" "Next c q = (r, q')"
  note e = Next_effect[OF a]
  then obtain dropped where d: "q_names q = dropped @ q_names q'" "\<forall>n \<in> set dropped. undecodable q n" by blast
  have "disk_content q' n = disk_content q n" if n: "n \<in> set (q_names q')" for n
  proof (cases "n \<in> set (tl (q_names q')) \<union> (case r of Inr (Item n d) \<Rightarrow> {n} | _ \<Rightarrow> {})")
    case True
    then show ?thesis using e keeps_content by blast
  next
    case False
    with n have h: "n = hd (q_names q')" "q_names q' \<noteq> []" by (cases "q_names q'"; auto)+
    show ?thesis
    proof (cases r)
      case (Inl x)
      then have "lost_or_same q q' n" using e h by auto
      then show ?thesis by (auto simp: lost_or_same_def undecodable_content) (simp_all add: disk_content_def)
    next
      case (Inr x)
      with False h e show ?thesis by (cases x) auto
    qed
  qed
  moreover have "case r of Inr (Item n d) \<Rightarrow> (\<exists>rest. q_names q' = n # rest) \<and> disk_content q n = Some d | _ \<Rightarrow> True"
    using e by (auto simp: disk_content_def split: sum.splits next_item.splits)
  ultimately show "open_inv q' \<and> (\<forall>n \<in> set (q_names q'). disk_content q' n = disk_content q n) \<and>
      (\<exists>dropped. q_names q = dropped @ q_names q' \<and> (\<forall>n \<in> set dropped. disk_content q n = None)) \<and>
      (case r of Inr (Item n d) \<Rightarrow> (\<exists>rest. q_names q' = n # rest) \<and> disk_content q n = Some d | _ \<Rightarrow> True)"
    using e d undecodable_content by blast
next
  fix c n r and q q' :: disk
  assume a: "open_inv q" "Ack c n q = (r, q')"
  note e = Ack_effect[OF a]
  show "open_inv q' \<and> (\<forall>m \<in> set (q_names q) - {n}. disk_content q' m = disk_content q m) \<and>
      (case r of Inl e \<Rightarrow> q_names q' = q_names q | Inr _ \<Rightarrow> q_names q = n # q_names q')"
    using e keeps_content[of "set (q_names q) - {n}" q q'] by (cases r) auto
next
  fix q :: disk
  assume "open_inv q"
  then have "sorted_wrt (<) (q_names q)" by (simp add: open_inv_def)
  then show "distinct (q_names q)" by (simp add: strict_sorted_iff)
next
  fix c d r and q q' :: disk
  assume a: "open_inv q" "Put c d q = (r, q')"
  note e = Put_effect[OF a]
  show "open_inv q' \<and> (\<forall>n \<in> set (q_names q). disk_content q' n = disk_content q n) \<and>
      (case r of Inl e \<Rightarrow> q_names q' = q_names q
       | Inr n \<Rightarrow> q_names q' = q_names q @ [n] \<and> disk_content q' n = disk_stored d)"
    using e keeps_content[of "set (q_names q)" q q']
    by (cases r) (auto simp: disk_content_def disk_stored_def stable_def split: sum.splits)
qed

end
