(* ===== verification/DiskOpen.thy ===== *)
theory DiskOpen
  imports DiskContract
begin

text \<open>
  Opening the metrics spool: the manifest, the transactional upgrade of its scope
  (\<^verbatim>\<open>src/internal/queue/migration_linux.go\<close>) and the scan of the directory (\<open>openDisk\<close> in
  \<^verbatim>\<open>src/internal/queue/disk_linux.go\<close>). Test hooks, which production leaves nil, are left out.
\<close>

section \<open>Scope migration\<close>

record scopeUpgrade =
  u_hash :: bytes
  u_legacy :: bytes

record migration =
  t_version :: int
  t_old :: bytes
  t_new :: bytes
  t_next :: u64

definition json_migration :: "migration \<Rightarrow> json" where
  "json_migration t = JObj
     [(''Version'', JNum (dec_int (t_version t))), (''OldScope'', JStr (quote_body (t_old t))),
      (''NewScope'', JStr (quote_body (t_new t))), (''Next'', JNum (dec (unat (t_next t))))]"

definition marshal_migration :: "migration \<Rightarrow> bytes" where
  "marshal_migration t = pr (json_migration t)"

definition set_migration :: "bytes \<Rightarrow> bytes \<Rightarrow> migration \<Rightarrow> migration option" where
  "set_migration f v t =
     (if f = ''Version'' then map_option (\<lambda>x. t\<lparr>t_version := x\<rparr>) (get_int v (t_version t))
      else if f = ''OldScope'' then map_option (\<lambda>x. t\<lparr>t_old := x\<rparr>) (get_string v (t_old t))
      else if f = ''NewScope'' then map_option (\<lambda>x. t\<lparr>t_new := x\<rparr>) (get_string v (t_new t))
      else map_option (\<lambda>x. t\<lparr>t_next := x\<rparr>) (get_u64 v (t_next t)))"

definition unmarshal_migration :: "bytes \<Rightarrow> migration option" where
  "unmarshal_migration b =
     (case json_fields b of
        None \<Rightarrow> None
      | Some kvs \<Rightarrow> set_fields [''Version'', ''OldScope'', ''NewScope'', ''Next''] set_migration kvs
          \<lparr>t_version = 0, t_old = [], t_new = [], t_next = 0\<rparr>)"

definition scopeHashValid :: "bytes \<Rightarrow> bool" where
  "scopeHashValid s = (case DecodeString s of None \<Rightarrow> False | Some b \<Rightarrow> length b = 32)"

definition manifestValid :: "bytes \<Rightarrow> bool" where
  "manifestValid b =
     (case unmarshal_manifest b zero_manifest of
        None \<Rightarrow> False
      | Some m \<Rightarrow> 0 < m_next m \<and> (m_version m = 1 \<or> m_version m = 2) \<and> scopeHashValid (m_scope m))"

definition create_stage :: "bytes \<Rightarrow> bytes \<Rightarrow> unit io" where
  "create_stage stage b = andThen (create_excl stage) (\<lambda>_. fill stage b)"

definition scopeWrite :: "bytes \<Rightarrow> bytes \<Rightarrow> unit io" where
  "scopeWrite name b =
     (let stage = name @ ''.next'' in
      andThen (attempt (disk_read stage 4096)) (\<lambda>existing.
      andThen
        (case existing of
           Inr x \<Rightarrow> if x \<noteq> b then raise (Failure ''queue_scope_staging_conflict'') else ret ()
         | Inl e \<Rightarrow> if e = NotExist then create_stage stage b else raise e) (\<lambda>_.
      andThen (rename stage name) (\<lambda>_. syncDir))))"

definition finishMigration :: "migration \<Rightarrow> disk_manifest io" where
  "finishMigration tx =
     (let m = \<lparr>m_version = 2, m_scope = t_new tx, m_next = t_next tx\<rparr>; b = marshal_manifest m in
      andThen (scopeWrite ''manifest.backup'' b) (\<lambda>_.
      andThen (scopeWrite ''manifest.json'' b) (\<lambda>_.
      andThen (remove ''migration.json'') (\<lambda>_.
      andThen syncDir (\<lambda>_. ret m)))))"

text \<open>The verification of one control copy against the journal: \<open>Some b\<close> tells whether it counts as valid.\<close>

definition check_control :: "migration \<Rightarrow> bytes \<Rightarrow> bool io" where
  "check_control tx name =
     andThen (attempt (disk_read name 4096)) (\<lambda>r.
       case r of
         Inl _ \<Rightarrow> raise (Failure ''queue_scope_migration_control_unavailable'')
       | Inr b \<Rightarrow>
           if \<not> manifestValid b then ret False
           else (case unmarshal_manifest b zero_manifest of
             None \<Rightarrow> ret False
           | Some m \<Rightarrow>
               if m_next m \<noteq> t_next tx \<or>
                  \<not> ((m_version m = 1 \<and> m_scope m = t_old tx) \<or> (m_version m = 2 \<and> m_scope m = t_new tx))
               then raise (Failure ''queue_scope_migration_conflict'')
               else ret True))"

definition resume_migration :: "bytes \<Rightarrow> scopeUpgrade option \<Rightarrow> disk_manifest io" where
  "resume_migration journal u =
     (case u of None \<Rightarrow> raise (Failure ''queue_scope_migration_requires_v2'') | Some up \<Rightarrow>
      (case unmarshal_migration journal of
         None \<Rightarrow> raise (Failure ''queue_scope_migration_mismatch'')
       | Some tx \<Rightarrow>
           if t_version tx \<noteq> 2 \<or> t_next tx = 0 \<or> \<not> scopeHashValid (t_old tx) \<or> t_new tx \<noteq> u_hash up
           then raise (Failure ''queue_scope_migration_mismatch'')
           else andThen (check_control tx ''manifest.json'') (\<lambda>v1.
                andThen (check_control tx ''manifest.backup'') (\<lambda>v2.
                  if \<not> v1 \<and> \<not> v2 then raise (Failure ''queue_scope_migration_ambiguous'')
                  else finishMigration tx))))"

text \<open>The primary manifest, or the backup where the primary is unreadable or does not parse.\<close>

definition read_manifest :: "bytes result io" where
  "read_manifest =
     andThen (attempt (disk_read ''manifest.json'' 4096)) (\<lambda>r.
       case r of
         Inl _ \<Rightarrow> attempt (disk_read ''manifest.backup'' 4096)
       | Inr raw \<Rightarrow>
           if unmarshal_manifest raw zero_manifest = None then attempt (disk_read ''manifest.backup'' 4096)
           else ret (Inr raw))"

definition begin_migration :: "disk_manifest \<Rightarrow> scopeUpgrade \<Rightarrow> disk_manifest io" where
  "begin_migration m up =
     andThen (attempt (disk_read ''manifest.backup'' 4096)) (\<lambda>r.
       case r of
         Inl _ \<Rightarrow> raise (Failure ''queue_scope_v1_ambiguous'')
       | Inr backup \<Rightarrow>
           if unmarshal_manifest backup zero_manifest \<noteq> Some m then raise (Failure ''queue_scope_v1_ambiguous'')
           else let tx = \<lparr>t_version = 2, t_old = m_scope m, t_new = u_hash up, t_next = m_next m\<rparr> in
             andThen (scopeWrite ''migration.json'' (marshal_migration tx)) (\<lambda>_. finishMigration tx))"

definition accept_manifest :: "bytes \<Rightarrow> bytes \<Rightarrow> scopeUpgrade option \<Rightarrow> disk_manifest io" where
  "accept_manifest raw legacy u =
     (if \<not> manifestValid raw then raise (Failure ''queue_scope_manifest_invalid'')
      else case unmarshal_manifest raw zero_manifest of
        None \<Rightarrow> raise (Failure ''queue_scope_manifest_invalid'')
      | Some m \<Rightarrow>
          (case u of
             None \<Rightarrow> if m_version m \<noteq> 1 \<or> m_scope m \<noteq> legacy then raise (Failure ''queue_scope_mismatch'') else ret m
           | Some up \<Rightarrow>
               if m_version m = 2
               then (if m_scope m \<noteq> u_hash up then raise (Failure ''queue_scope_v2_mismatch'') else ret m)
               else if m_scope m \<noteq> u_legacy up then raise (Failure ''queue_scope_v1_unverified'')
               else begin_migration m up))"

definition fresh_manifest :: "bytes list \<Rightarrow> bytes \<Rightarrow> scopeUpgrade option \<Rightarrow> disk_manifest io" where
  "fresh_manifest entries legacy u =
     (if list_ex (\<lambda>n. n \<noteq> ''lock'') entries then raise (Failure ''missing spool manifest; retain files for recovery'')
      else let m = (case u of
               None \<Rightarrow> \<lparr>m_version = 1, m_scope = legacy, m_next = 1\<rparr>
             | Some up \<Rightarrow> \<lparr>m_version = 2, m_scope = u_hash up, m_next = 1\<rparr>)
           in andThen (disk_saveManifest m) (\<lambda>_. ret m))"

definition check_pending :: "scopeUpgrade option \<Rightarrow> unit io" where
  "check_pending u =
     (case u of None \<Rightarrow> ret () | Some _ \<Rightarrow>
      andThen (attempt (lstat ''.pending'')) (\<lambda>r.
        case r of
          Inr _ \<Rightarrow> raise (Failure ''queue_scope_pending_ambiguous'')
        | Inl e \<Rightarrow> if e = NotExist then ret () else raise e))"

definition loadManifest :: "bytes list \<Rightarrow> bytes \<Rightarrow> scopeUpgrade option \<Rightarrow> disk_manifest io" where
  "loadManifest entries legacy u =
     andThen (check_pending u) (\<lambda>_.
     andThen (attempt (disk_read ''migration.json'' 4096)) (\<lambda>journal.
       case journal of
         Inr j \<Rightarrow> resume_migration j u
       | Inl je \<Rightarrow>
           if je \<noteq> NotExist then raise (Failure ''queue_scope_migration_journal_unsafe'')
           else andThen read_manifest (\<lambda>r.
             case r of
               Inr raw \<Rightarrow> accept_manifest raw legacy u
             | Inl e \<Rightarrow> if e = NotExist then fresh_manifest entries legacy u else raise e)))"

section \<open>Opening\<close>

text \<open>
  What the code asks of the world outside the spool directory: the outcome of \<^verbatim>\<open>Lstat\<close> on the path and each
  of its parents (an error, or whether it is a symbolic link), of \<^verbatim>\<open>MkdirAll\<close>, of \<^verbatim>\<open>Lstat\<close> on the
  directory (is it a directory, its permissions and owner) and of \<^verbatim>\<open>Statfs\<close> (the block size).
\<close>

record spool_env =
  e_components :: "bool result list"
  e_mkdir :: "error option"
  e_dirstat :: "(bool \<times> nat \<times> nat) result"
  e_bsize :: "int result"

fun check_path :: "bool result list \<Rightarrow> error option" where
  "check_path [] = None"
| "check_path (Inr True # cs) = Some (Failure ''spool path contains symlink'')"
| "check_path (Inr False # cs) = check_path cs"
| "check_path (Inl e # cs) = (if e = NotExist then check_path cs else Some e)"

text \<open>The checks before the lock; mode 0700 is 448.\<close>

definition check_spool :: "bytes \<Rightarrow> spool_env \<Rightarrow> bytes \<Rightarrow> int \<Rightarrow> int \<Rightarrow> nat \<Rightarrow> error option" where
  "check_spool dir env scope maxBytes maxItems euid =
     (if \<not> HasPrefix dir ''/'' \<or> scope = [] \<or> maxBytes < 32768 \<or> maxItems < 1 \<or> 1024 < maxItems
      then Some (Failure ''invalid spool options'')
      else case check_path (e_components env) of Some e \<Rightarrow> Some e | None \<Rightarrow>
      (case e_mkdir env of Some e \<Rightarrow> Some e | None \<Rightarrow>
      (case e_dirstat env of Inl e \<Rightarrow> Some e | Inr (dirp, mode, uid) \<Rightarrow>
       if \<not> dirp \<or> mode \<noteq> 448 \<or> uid \<noteq> euid
       then Some (Failure ''spool directory must be owned by current user with mode 0700'')
       else (case e_bsize env of Inl e \<Rightarrow> Some e | Inr bs \<Rightarrow>
             if 4096 < bs then Some (Failure ''spool filesystem allocation units above 4KiB unsupported'') else None))))"

definition open_lock :: "unit io" where
  "open_lock = syscall (\<lambda>s. case live s ''lock'' of
       None \<Rightarrow> (Inr (), put_entry ''lock'' (fresh_file s) s)
     | Some f \<Rightarrow> if f_kind f = Symlink \<or> f_kind f = Directory then (Inl OSError, s) else (Inr (), s))"

definition list_spool :: "bytes list io" where
  "list_spool =
     andThen open_dir (\<lambda>_. andThen read_dir (\<lambda>es.
       if 4096 < length es then raise (Failure ''too many spool entries'') else ret es))"

definition parse_seq :: "bytes \<Rightarrow> u64 \<Rightarrow> u64 option" where
  "parse_seq name next =
     (case Sscan_u64 (take 20 name) of
        None \<Rightarrow> None
      | Some seq \<Rightarrow> if seq = 0 \<or> next \<le> seq \<or> pad 20 (unat seq) \<noteq> take 20 name then None else Some seq)"

text \<open>One entry of the directory.\<close>

definition scan_entry :: "bool \<Rightarrow> bytes \<Rightarrow> disk \<Rightarrow> unit result \<times> disk" where
  "scan_entry upgrade name q =
     (if name = ''lock'' \<or> name = ''manifest.json'' \<or> name = ''manifest.backup'' then (Inr (), q)
      else if name = ''.pending'' then
        (if upgrade then (Inl (Failure ''queue_scope_pending_ambiguous''), q)
         else on_fs (andThen (disk_read name 5242880) (\<lambda>_. remove name)) q)
      else if length name \<noteq> 24 \<or> (drop 20 name \<noteq> ''.rec'' \<and> drop 20 name \<noteq> ''.bad'')
        then (Inl (Failure ''unexpected spool entry; retained''), q)
      else if parse_seq name (m_next (q_manifest q)) = None then (Inl (Failure ''invalid spool sequence''), q)
      else (case on_fs (disk_read name 5242880) q of
              (Inl e, q1) \<Rightarrow> (Inl e, q1)
            | (Inr data, q1) \<Rightarrow>
                let q2 = q1\<lparr>q_count := q_count q1 + 1, q_bytes := q_bytes q1 + charge (int (length data))\<rparr>
                in if HasSuffix name ''.rec''
                   then (if is_ok (decodeRecord data) then (Inr (), q2\<lparr>q_names := q_names q2 @ [name]\<rparr>)
                         else quarantine name q2)
                   else (Inr (), q2\<lparr>q_corrupt := q_corrupt q2 + 1\<rparr>)))"

fun scan_entries :: "bool \<Rightarrow> bytes list \<Rightarrow> disk \<Rightarrow> unit result \<times> disk" where
  "scan_entries upgrade [] q = (Inr (), q)"
| "scan_entries upgrade (n # ns) q =
     (case scan_entry upgrade n q of (Inl e, q1) \<Rightarrow> (Inl e, q1) | (Inr _, q1) \<Rightarrow> scan_entries upgrade ns q1)"

text \<open>A failed open closes the lock file; the result is the queue or the error, and the directory.\<close>

definition failed :: "error \<Rightarrow> fs \<Rightarrow> disk result \<times> fs" where
  "failed e s = (Inl e, unlock s)"

definition finish_open :: "disk \<Rightarrow> disk result \<times> fs" where
  "finish_open q =
     (if q_maxBytes q < q_bytes q \<or> q_maxItems q < q_count q
      then failed (Failure ''existing spool exceeds configured budget; increase budget to drain'') (q_fs q)
      else let q1 = q\<lparr>q_names := sort (q_names q)\<rparr> in
        (case on_fs syncDir q1 of
           (Inl e, q2) \<Rightarrow> failed e (q_fs q2)
         | (Inr _, q2) \<Rightarrow> (Inr q2, q_fs q2)))"

definition openDisk ::
    "bytes \<Rightarrow> spool_env \<Rightarrow> bytes \<Rightarrow> int \<Rightarrow> int \<Rightarrow> scopeUpgrade option \<Rightarrow> fs \<Rightarrow> disk result \<times> fs" where
  "openDisk dir env scope maxBytes maxItems upgrade s0 =
     (case check_spool dir env scope maxBytes maxItems (fs_euid s0) of Some e \<Rightarrow> (Inl e, s0) | None \<Rightarrow>
     (case open_lock s0 of (Inl e, s1) \<Rightarrow> (Inl e, s1) | (Inr _, s1) \<Rightarrow>
     (case flock s1 of (Inl _, s2) \<Rightarrow> (Inl (Failure ''spool already in use''), s2) | (Inr _, s2) \<Rightarrow>
     (case list_spool s2 of (Inl e, s3) \<Rightarrow> failed e s3 | (Inr entries, s3) \<Rightarrow>
     (case loadManifest entries (hashScope scope) upgrade s3 of (Inl e, s4) \<Rightarrow> failed e s4 | (Inr m, s4) \<Rightarrow>
     (case list_spool s4 of (Inl e, s5) \<Rightarrow> failed e s5 | (Inr entries', s5) \<Rightarrow>
        let q = \<lparr>q_lock = True, q_manifest = m, q_names = [],
                 q_bytes = 16384 + charge (maxItems * 256) + (if upgrade = None then 0 else 8192), q_count = 0,
                 q_maxBytes = maxBytes, q_maxItems = maxItems, q_closed = False, q_wake = False, q_corrupt = 0, q_fs = s5\<rparr>
        in (case scan_entries (upgrade \<noteq> None) entries' q of
              (Inl e, q1) \<Rightarrow> failed e (q_fs q1)
            | (Inr _, q1) \<Rightarrow> finish_open q1)))))))"

definition OpenDisk :: "bytes \<Rightarrow> spool_env \<Rightarrow> bytes \<Rightarrow> int \<Rightarrow> int \<Rightarrow> fs \<Rightarrow> disk result \<times> fs" where
  "OpenDisk dir env scope maxBytes maxItems s = openDisk dir env scope maxBytes maxItems None s"

definition OpenScopedDisk :: "bytes \<Rightarrow> spool_env \<Rightarrow> scope \<Rightarrow> bytes \<Rightarrow> int \<Rightarrow> int \<Rightarrow> fs \<Rightarrow> disk result \<times> fs" where
  "OpenScopedDisk dir env sc previousEndpoint maxBytes maxItems s =
     (case Hash sc of
        Inl e \<Rightarrow> (Inl e, s)
      | Inr h \<Rightarrow> openDisk dir env h maxBytes maxItems (Some \<lparr>u_hash = h, u_legacy = legacyHash sc previousEndpoint\<rparr>) s)"

text \<open>A data directory as an installation has it.\<close>

definition sample_env :: spool_env where
  "sample_env = \<lparr>e_components = [Inr False, Inl NotExist, Inr False], e_mkdir = None, e_dirstat = Inr (True, 448, 1000), e_bsize = Inr 4096\<rparr>"

end
