(* ===== verification/OpenFacts.thy ===== *)
theory OpenFacts
  imports DiskOpen
begin

section \<open>What opening may touch\<close>

text \<open>The control files of the spool, with their staging files; no record is among them.\<close>

definition control :: "bytes set" where
  "control = {''lock'', ''.pending'', ''manifest.json'', ''manifest.backup'', ''migration.json'',
     ''manifest.json.next'', ''manifest.backup.next'', ''migration.json.next''}"

lemma control_members [simp]:
  "''lock'' \<in> control" "''.pending'' \<in> control" "''manifest.json'' \<in> control" "''manifest.backup'' \<in> control"
  "''migration.json'' \<in> control" "''manifest.json.next'' \<in> control" "''manifest.backup.next'' \<in> control"
  "''migration.json.next'' \<in> control"
  by (simp_all add: control_def)

lemma length_control: "n \<in> control \<Longrightarrow> length n < 24"
  by (auto simp: control_def)

lemma rec_not_in_control: "rec_name k \<notin> control" "bad_name k \<notin> control"
proof -
  have "unat k < 2 ^ 64" using unsigned_less[of k] by simp
  then have "unat k < 10 ^ 20" by simp
  then have "length (bad_name k) = 24" by (simp add: bad_name_def length_pad)
  then show "bad_name k \<notin> control" using length_control by fastforce
  show "rec_name k \<notin> control" using length_control rec_name_length[of k] by fastforce
qed

lemma frames_create_stage [inv_intros]: "n \<in> T \<Longrightarrow> frames T (create_stage n b)"
  unfolding create_stage_def by (intro inv_intros)

lemma frames_scopeWrite [inv_intros]:
  "n \<in> T \<Longrightarrow> n @ ''.next'' \<in> T \<Longrightarrow> frames T (scopeWrite n b)"
  unfolding scopeWrite_def Let_def by (intro inv_intros)

lemma frames_finishMigration [inv_intros]: "frames control (finishMigration tx)"
  unfolding finishMigration_def Let_def by (intro inv_intros) simp_all

lemma frames_check_control [inv_intros]: "frames T (check_control tx n)"
  unfolding check_control_def by (intro inv_intros)

lemma frames_resume [inv_intros]: "frames control (resume_migration j u)"
  unfolding resume_migration_def by (intro inv_intros)

lemma frames_read_manifest [inv_intros]: "frames T read_manifest"
  unfolding read_manifest_def by (intro inv_intros)

lemma frames_begin [inv_intros]: "frames control (begin_migration m u)"
  unfolding begin_migration_def Let_def by (intro inv_intros) simp_all

lemma frames_accept [inv_intros]: "frames control (accept_manifest raw l u)"
  unfolding accept_manifest_def by (intro inv_intros)

lemma frames_saveManifest_control [inv_intros]: "frames control (disk_saveManifest m)"
  by (rule frames_mono[OF frames_disk_saveManifest]) simp

lemma frames_fresh [inv_intros]: "frames control (fresh_manifest es l u)"
  unfolding fresh_manifest_def Let_def by (intro inv_intros)

lemma frames_check_pending [inv_intros]: "frames T (check_pending u)"
  unfolding check_pending_def by (intro inv_intros)

lemma frames_loadManifest: "frames control (loadManifest es l u)"
  unfolding loadManifest_def by (intro inv_intros)

lemma frames_open_lock: "frames control open_lock"
  unfolding open_lock_def by (rule frames_syscall) (simp add: framed_put_entry split: option.splits)

lemma frames_list_spool: "frames T list_spool"
  unfolding list_spool_def by (intro inv_intros)

text \<open>\<^verbatim>\<open>flock\<close> and \<^verbatim>\<open>unlock\<close> change the lock and no entry.\<close>

definition same_entries :: "bytes set \<Rightarrow> fs \<Rightarrow> fs \<Rightarrow> bool" where
  "same_entries T s s' \<longleftrightarrow> fs_euid s' = fs_euid s \<and>
     (\<forall>n. n \<notin> T \<longrightarrow> live s' n = live s n \<and> poss s' n \<subseteq> insert (live s n) (poss s n))"

lemma same_entries_framed: "framed T s s' \<Longrightarrow> same_entries T s s'"
  by (simp add: framed_def same_entries_def)

lemma same_entries_trans: "same_entries T s1 s2 \<Longrightarrow> same_entries T s2 s3 \<Longrightarrow> same_entries T s1 s3"
proof -
  assume a: "same_entries T s1 s2" "same_entries T s2 s3"
  have "live s3 n = live s1 n \<and> poss s3 n \<subseteq> insert (live s1 n) (poss s1 n)" if "n \<notin> T" for n
  proof -
    have "live s2 n = live s1 n" "live s3 n = live s2 n" "poss s2 n \<subseteq> insert (live s1 n) (poss s1 n)"
      "poss s3 n \<subseteq> insert (live s2 n) (poss s2 n)" using a that by (auto simp only: same_entries_def)
    then show ?thesis by auto
  qed
  with a show ?thesis by (simp add: same_entries_def)
qed

lemma same_entries_mono: "same_entries T s s' \<Longrightarrow> T \<subseteq> U \<Longrightarrow> same_entries U s s'"
  by (auto simp: same_entries_def)

lemma same_entries_refl [simp]: "same_entries T s s"
  by (simp add: same_entries_def subset_insertI)

lemma same_entries_flock: "flock s = (r, s') \<Longrightarrow> same_entries T s s'"
  unfolding flock_def by (drule syscall_cases) (auto simp: same_entries_def live_def poss_def split: if_splits)

lemma same_entries_unlock: "same_entries T s (unlock s)"
  by (auto simp: same_entries_def unlock_def live_def poss_def)

lemma stable_same_entries: "stable s n f \<Longrightarrow> same_entries T s s' \<Longrightarrow> n \<notin> T \<Longrightarrow> stable s' n f"
  using poss_nonempty[of s' n] by (fastforce simp: stable_def same_entries_def)

section \<open>The sequence number of an opened spool\<close>

lemma finishMigration_next: "finishMigration tx s = (Inr m, s') \<Longrightarrow> m_next m = t_next tx"
  by (auto simp: finishMigration_def Let_def andThen_Inr)

lemma begin_migration_next: "begin_migration m u s = (Inr m', s') \<Longrightarrow> m_next m' = m_next m"
  unfolding begin_migration_def Let_def andThen_Inr attempt_eq
  by (elim exE conjE) (auto simp: andThen_Inr split: sum.split_asm if_split_asm dest!: finishMigration_next)

lemma accept_manifest_next: "accept_manifest raw l u s = (Inr m, s') \<Longrightarrow> 0 < m_next m"
  by (auto simp: accept_manifest_def manifestValid_def split: if_splits option.splits dest!: begin_migration_next)

lemma resume_migration_next: "resume_migration j u s = (Inr m, s') \<Longrightarrow> 0 < m_next m"
  by (auto simp: resume_migration_def andThen_Inr word_neq_0_conv split: if_splits option.splits dest!: finishMigration_next)

lemma fresh_manifest_next: "fresh_manifest es l u s = (Inr m, s') \<Longrightarrow> 0 < m_next m"
  by (auto simp: fresh_manifest_def Let_def andThen_Inr split: if_splits option.splits)

lemma loadManifest_next: "loadManifest es l u s = (Inr m, s') \<Longrightarrow> 0 < m_next m"
proof -
  assume load: "loadManifest es l u s = (Inr m, s')"
  then obtain s0 where p: "check_pending u s = (Inr (), s0)" by (auto simp: loadManifest_def andThen_Inr)
  obtain j s1 where d: "disk_read ''migration.json'' 4096 s0 = (j, s1)" by fastforce
  show ?thesis
  proof (cases j)
    case (Inr x)
    with load p d have "resume_migration x u s1 = (Inr m, s')" by (simp add: loadManifest_def andThen_def attempt_def)
    then show ?thesis by (rule resume_migration_next)
  next
    case (Inl je)
    obtain r s2 where rm: "read_manifest s1 = (r, s2)" by fastforce
    from Inl load p d rm obtain raw where r: "r = Inr raw"
      "(case raw of Inr raw \<Rightarrow> accept_manifest raw l u
             | Inl e \<Rightarrow> if e = NotExist then fresh_manifest es l u else raise e) s2 = (Inr m, s')"
      by (cases r) (auto simp: loadManifest_def andThen_def attempt_def split: if_split_asm)
    then show ?thesis by (cases raw) (auto dest: accept_manifest_next fresh_manifest_next split: if_split_asm)
  qed
qed

section \<open>The scan\<close>

text \<open>A record that decodes, and the names a scan may touch: the pending file, quarantined files, files that do not decode.\<close>

definition good :: "fs \<Rightarrow> bytes \<Rightarrow> inode \<Rightarrow> bool" where
  "good s n f \<longleftrightarrow> (\<exists>k. n = rec_name k) \<and> live s n = Some f \<and> is_ok (decodeRecord (f_data f))"

definition touchable :: "fs \<Rightarrow> bytes set" where
  "touchable s = {''.pending''} \<union> range bad_name \<union> {n. \<exists>f. live s n = Some f \<and> \<not> is_ok (decodeRecord (f_data f))}"

lemma good_untouchable: "good s n f \<Longrightarrow> n \<notin> touchable s"
  using rec_not_bad rec_not_control(1) by (fastforce simp: good_def touchable_def)

definition careful :: "fs \<Rightarrow> fs \<Rightarrow> bool" where
  "careful s s' \<longleftrightarrow> fs_euid s' = fs_euid s \<and> fs_locked s' = fs_locked s \<and>
     (\<forall>n f. good s n f \<longrightarrow> good s' n f \<and> poss s' n \<subseteq> insert (Some f) (poss s n)) \<and>
     (\<forall>n f. good s' n f \<longrightarrow> good s n f)"

lemma careful_refl [simp]: "careful s s"
  by (auto simp: careful_def)

lemma careful_framed:
  "framed T s s' \<Longrightarrow> T \<subseteq> touchable s \<Longrightarrow> (\<And>n. n \<in> T \<Longrightarrow> (\<forall>f. \<not> good s' n f)) \<Longrightarrow> careful s s'"
proof -
  assume a: "framed T s s'" "T \<subseteq> touchable s" and b: "\<And>n. n \<in> T \<Longrightarrow> (\<forall>f. \<not> good s' n f)"
  have rev: "good s n f" if g: "good s' n f" for n f
  proof -
    have "n \<notin> T" using b g by blast
    then show ?thesis using a(1) g by (auto simp: framed_def good_def)
  qed
  have "good s' n f \<and> poss s' n \<subseteq> insert (Some f) (poss s n)" if g: "good s n f" for n f
  proof -
    have "n \<notin> T" using good_untouchable[OF g] a(2) by blast
    then have l: "live s' n = live s n" "poss s' n \<subseteq> insert (live s n) (poss s n)" using a(1) by (auto simp: framed_def)
    with g show ?thesis by (auto simp: good_def)
  qed
  then show ?thesis using a(1) rev by (auto simp: careful_def framed_def)
qed

lemma careful_trans: "careful s1 s2 \<Longrightarrow> careful s2 s3 \<Longrightarrow> careful s1 s3"
proof -
  assume a: "careful s1 s2" "careful s2 s3"
  have "good s3 n f \<and> poss s3 n \<subseteq> insert (Some f) (poss s1 n)" if g: "good s1 n f" for n f
  proof -
    have g2: "good s2 n f" "poss s2 n \<subseteq> insert (Some f) (poss s1 n)" using a(1) g by (simp_all add: careful_def)
    then have "good s3 n f" "poss s3 n \<subseteq> insert (Some f) (poss s2 n)" using a(2) by (simp_all add: careful_def)
    with g2 show ?thesis by auto
  qed
  note fwd = this
  have rev: "good s1 n f" if "good s3 n f" for n f
  proof -
    have "good s2 n f" using a(2) that by (simp add: careful_def)
    with a(1) show ?thesis by (simp add: careful_def)
  qed
  have "fs_euid s3 = fs_euid s1" "fs_locked s3 = fs_locked s1" using a by (simp_all add: careful_def)
  then show ?thesis unfolding careful_def
  proof (intro conjI allI impI)
    fix n f assume "good s1 n f"
    then show "good s3 n f" "poss s3 n \<subseteq> insert (Some f) (poss s1 n)" using fwd by blast+
  next
    fix n f assume "good s3 n f"
    then show "good s1 n f" by (rule rev)
  qed
qed

lemma careful_good: "careful s s' \<Longrightarrow> good s n f \<Longrightarrow> good s' n f"
  unfolding careful_def by blast

lemma careful_back: "careful s s' \<Longrightarrow> good s' n f \<Longrightarrow> good s n f"
  unfolding careful_def by blast

lemma careful_poss: "careful s s' \<Longrightarrow> good s n f \<Longrightarrow> poss s' n \<subseteq> insert (Some f) (poss s n)"
  unfolding careful_def by blast

lemma careful_stable: "careful s s' \<Longrightarrow> good s n f \<Longrightarrow> stable s n f \<Longrightarrow> stable s' n f"
proof -
  assume a: "careful s s'" "good s n f" "stable s n f"
  have "poss s' n = {Some f}" using careful_poss[OF a(1,2)] a(3) poss_nonempty[of s' n] by (auto simp: stable_def)
  with careful_good[OF a(1,2)] a(3) show ?thesis by (simp add: stable_def good_def)
qed

lemma parse_seq_rec:
  assumes "parse_seq n next = Some k" "length n = 24" "drop 20 n = ''.rec''"
  shows "n = rec_name k \<and> is_rec next n"
proof -
  have p: "0 < k" "k < next" "pad 20 (unat k) = take 20 n"
    using assms(1) by (auto simp: parse_seq_def word_neq_0_conv not_le split: option.splits if_splits)
  have "n = take 20 n @ drop 20 n" by simp
  then have "n = rec_name k" using p(3) assms(3) by (simp add: rec_name_def)
  with p show ?thesis by (auto simp: is_rec_def)
qed

lemma HasSuffix_drop: "length n = 24 \<Longrightarrow> drop 20 n = ''.rec'' \<or> drop 20 n = ''.bad'' \<Longrightarrow> HasSuffix n ''.rec'' \<longleftrightarrow> drop 20 n = ''.rec''"
proof -
  assume a: "length n = 24" "drop 20 n = ''.rec'' \<or> drop 20 n = ''.bad''"
  have "n = take 20 n @ drop 20 n" by simp
  moreover have "HasSuffix (take 20 n @ ''.rec'') ''.rec''" by (auto simp: HasSuffix_iff)
  moreover have "\<not> HasSuffix (take 20 n @ ''.bad'') ''.rec''"
  proof
    assume "HasSuffix (take 20 n @ ''.bad'') ''.rec''"
    then obtain t where "take 20 n @ ''.bad'' = t @ ''.rec''" by (auto simp: HasSuffix_iff)
    then have "rev (take 20 n @ ''.bad'') = rev (t @ ''.rec'')" by simp
    then show False by simp
  qed
  ultimately show ?thesis using a(2) by metis
qed

definition steady :: "disk \<Rightarrow> disk \<Rightarrow> bool" where
  "steady q q' \<longleftrightarrow> q_manifest q' = q_manifest q \<and> q_maxBytes q' = q_maxBytes q \<and> q_maxItems q' = q_maxItems q
     \<and> q_closed q' = q_closed q \<and> q_lock q' = q_lock q"

lemma steady_refl [simp]: "steady q q"
  by (simp add: steady_def)

text \<open>One entry: skipped, dropped, quarantined, or queued with its cost.\<close>

lemma quarantine_careful:
  assumes "quarantine (rec_name k) q = (r, q')" "live (q_fs q) (rec_name k) = Some f" "\<not> is_ok (decodeRecord (f_data f))"
  shows "careful (q_fs q) (q_fs q') \<and> steady q q' \<and> q_names q' = q_names q \<and> q_count q' = q_count q \<and> q_bytes q' = q_bytes q"
proof -
  obtain r1 s1 where rn: "rename (rec_name k) (bad_name k) (q_fs q) = (r1, s1)" by fastforce
  let ?T = "{rec_name k, bad_name k}"
  have T: "?T \<subseteq> touchable (q_fs q)" using assms(2,3) by (auto simp: touchable_def)
  have ng: "\<forall>g. \<not> good s n g" if "live s (rec_name k) = None \<or> live s (rec_name k) = Some f" "n \<in> ?T" for s n
    using that assms(3) rec_not_bad by (auto simp: good_def)
  have f1: "framed {rec_name k, bad_name k} (q_fs q) s1" by (rule framesD[OF frames_rename rn]) auto
  obtain r2 s2 where sy: "syncDir s1 = (r2, s2)" by fastforce
  have f2: "framed {rec_name k, bad_name k} (q_fs q) s2" by (rule framed_trans[OF f1 framesD[OF frames_syncDir sy]])
  show ?thesis
  proof (cases r1)
    case (Inl e)
    have "live s1 (rec_name k) = Some f" using rename_Inl[OF rn[unfolded Inl]] assms(2) by simp
    then have "careful (q_fs q) s1" by (intro careful_framed[OF f1 T] ng) auto
    then show ?thesis using assms(1) rn Inl by (auto simp: quarantine_def on_fs_def quarantine_target steady_def)
  next
    case (Inr u)
    have "live s2 (rec_name k) = None" using rename_Inr[OF rn[unfolded Inr] rec_not_bad] syncDir_live[OF sy] by auto
    then have "careful (q_fs q) s2" by (intro careful_framed[OF f2 T] ng) auto
    then show ?thesis using assms(1) rn sy Inr by (auto simp: quarantine_def on_fs_def quarantine_target steady_def)
  qed
qed

lemma scan_entry_effect:
  assumes scan: "scan_entry up n q = (r, q')"
  shows "careful (q_fs q) (q_fs q') \<and> steady q q' \<and>
    (case r of Inl _ \<Rightarrow> True | Inr _ \<Rightarrow>
       (q_names q' = q_names q \<and> q_count q \<le> q_count q' \<and> q_bytes q \<le> q_bytes q' \<and> (\<forall>f. \<not> good (q_fs q) n f)) \<or>
       (\<exists>f. q_names q' = q_names q @ [n] \<and> good (q_fs q) n f \<and> is_rec (m_next (q_manifest q)) n \<and>
          q_count q' = q_count q + 1 \<and> q_bytes q' = q_bytes q + charge (int (length (f_data f)))))"
proof -
  consider "n = ''lock'' \<or> n = ''manifest.json'' \<or> n = ''manifest.backup''"
    | "n = ''.pending''"
    | "n \<notin> control" "length n \<noteq> 24 \<or> (drop 20 n \<noteq> ''.rec'' \<and> drop 20 n \<noteq> ''.bad'') \<or> parse_seq n (m_next (q_manifest q)) = None"
    | k where "n \<notin> control" "length n = 24" "drop 20 n = ''.rec'' \<or> drop 20 n = ''.bad''" "parse_seq n (m_next (q_manifest q)) = Some k"
    | "n \<in> control" "n \<noteq> ''.pending''" "\<not> (n = ''lock'' \<or> n = ''manifest.json'' \<or> n = ''manifest.backup'')"
    by (cases "parse_seq n (m_next (q_manifest q))") blast+
  then show ?thesis
  proof cases
    case 1
    then have "\<not> good (q_fs q) n f" for f using rec_not_in_control(1) by (auto simp: good_def) (metis control_members)+
    moreover have "r = Inr ()" "q' = q" using scan 1 by (auto simp: scan_entry_def)
    ultimately show ?thesis by simp
  next
    case 2
    have ng: "\<not> good (q_fs q) n f" for f using rec_not_control(1) 2 by (metis good_def)
    show ?thesis
    proof (cases up)
      case True
      then show ?thesis using scan 2 by (auto simp: scan_entry_def)
    next
      case False
      then have on: "on_fs (andThen (disk_read n 5242880) (\<lambda>_. remove n)) q = (r, q')" using scan 2 by (simp add: scan_entry_def)
      have "frames {n} (andThen (disk_read n 5242880) (\<lambda>_. remove n))" by (intro inv_intros) simp
      from on_fs_framed[OF this on] have "careful (q_fs q) (q_fs q')"
        by (rule careful_framed) (use rec_not_control(1) in \<open>auto simp: 2 touchable_def good_def\<close>, metis rec_not_control(1))
      moreover have "steady q q'" "q_names q' = q_names q" "q_count q' = q_count q" "q_bytes q' = q_bytes q"
        using on by (auto simp: on_fs_eq steady_def)
      ultimately show ?thesis using ng by (simp split: sum.splits)
    qed
  next
    case 3
    then have "\<exists>e. r = Inl e" "q' = q" using scan by (auto simp: scan_entry_def control_def split: if_splits)
    then show ?thesis by auto
  next
    case (4 k)
    have nc: "n \<noteq> ''lock''" "n \<noteq> ''manifest.json''" "n \<noteq> ''manifest.backup''" "n \<noteq> ''.pending''" using 4(1) by auto
    obtain x q1 where rd: "on_fs (disk_read n 5242880) q = (x, q1)" by fastforce
    have unf: "scan_entry up n q = (case on_fs (disk_read n 5242880) q of
              (Inl e, q1) \<Rightarrow> (Inl e, q1)
            | (Inr data, q1) \<Rightarrow>
                let q2 = q1\<lparr>q_count := q_count q1 + 1, q_bytes := q_bytes q1 + charge (int (length data))\<rparr>
                in if HasSuffix n ''.rec''
                   then (if is_ok (decodeRecord data) then (Inr (), q2\<lparr>q_names := q_names q2 @ [n]\<rparr>)
                         else quarantine n q2)
                   else (Inr (), q2\<lparr>q_corrupt := q_corrupt q2 + 1\<rparr>))"
      using 4 nc unfolding scan_entry_def by auto
    obtain s1 where s1: "q1 = q\<lparr>q_fs := s1\<rparr>" "framed {} (q_fs q) s1" using disk_read_on[OF rd] by blast
    have c1: "careful (q_fs q) s1" by (rule careful_framed[OF s1(2)]) simp_all
    have st1: "steady q q1" using s1(1) by (simp add: steady_def)
    show ?thesis
    proof (cases x)
      case (Inl e)
      then have "r = Inl e" "q' = q1" using scan rd unfolding unf by simp_all
      then show ?thesis using c1 s1(1) st1 by simp
    next
      case x: (Inr b)
      from rd x obtain f where f: "live (q_fs q) n = Some f" "b = f_data f" by (auto simp: on_fs_eq dest: disk_read_Inr)
      have l1: "live s1 n = Some f" using live_framed[OF s1(2)] f by simp
      let ?q2 = "q1\<lparr>q_count := q_count q1 + 1, q_bytes := q_bytes q1 + charge (int (length b))\<rparr>"
      have cb: "0 \<le> charge (int (length b))" by (simp add: charge_nonneg)
      note suf = HasSuffix_drop[OF 4(2,3)]
      show ?thesis
      proof (cases "drop 20 n = ''.rec''")
        case False
        then have q': "r = Inr ()" "q' = ?q2\<lparr>q_corrupt := q_corrupt ?q2 + 1\<rparr>" using scan rd x suf unfolding unf by (simp_all add: Let_def)
        have "\<not> good (q_fs q) n g" for g
        proof
          assume "good (q_fs q) n g"
          then obtain j where "n = rec_name j" by (auto simp: good_def)
          then have "HasSuffix n ''.rec''" by (auto simp: rec_name_def HasSuffix_iff)
          with suf False show False by simp
        qed
        then show ?thesis using q' s1(1) c1 cb by (simp add: steady_def)
      next
        case True
        note n = parse_seq_rec[OF 4(4,2) True]
        show ?thesis
        proof (cases "is_ok (decodeRecord b)")
          case ok: True
          then have "r = Inr ()" "q' = ?q2\<lparr>q_names := q_names ?q2 @ [n]\<rparr>"
            using scan rd x suf True unfolding unf by (simp_all add: Let_def)
          then show ?thesis using s1(1) c1 n f ok by (auto simp: steady_def good_def)
        next
          case bad: False
          then have qu: "quarantine n ?q2 = (r, q')"
            using scan rd x suf True unfolding unf by (simp add: Let_def)
          have "careful (q_fs ?q2) (q_fs q') \<and> steady ?q2 q' \<and> q_names q' = q_names ?q2 \<and> q_count q' = q_count ?q2 \<and> q_bytes q' = q_bytes ?q2"
            using quarantine_careful[of k ?q2 r q' f] qu n l1 s1(1) bad f(2) by simp
          moreover have "\<not> good (q_fs q) n g" for g using f bad by (auto simp: good_def)
          ultimately show ?thesis using s1(1) careful_trans[OF c1] cb by (auto simp: steady_def split: sum.splits)
        qed
      qed
    qed
  next
    case 5
    then have "length n \<noteq> 24" using length_control by fastforce
    then have "\<exists>e. r = Inl e" "q' = q" using scan 5 by (auto simp: scan_entry_def split: if_splits)
    then show ?thesis by auto
  qed
qed

lemma good_unique: "good s n f \<Longrightarrow> good s n g \<Longrightarrow> f = g"
  by (auto simp: good_def)

lemma good_cost: "good (q_fs q) n f \<Longrightarrow> file_cost q n = charge (int (length (f_data f)))"
  by (simp add: good_def file_cost_def)

lemma scan_entries_effect:
  "scan_entries up ns q = (r, q') \<Longrightarrow> distinct ns \<Longrightarrow>
   careful (q_fs q) (q_fs q') \<and> steady q q' \<and>
   (is_ok r \<longrightarrow> (\<exists>added. q_names q' = q_names q @ added \<and> set added \<subseteq> set ns \<and> distinct added
      \<and> (\<forall>n \<in> set added. is_rec (m_next (q_manifest q)) n \<and> (\<exists>f. good (q_fs q') n f))
      \<and> (\<forall>n \<in> set ns. \<forall>f. good (q_fs q) n f \<longrightarrow> n \<in> set added)
      \<and> q_count q + int (length added) \<le> q_count q'
      \<and> q_bytes q + sum_list (map (file_cost q') added) \<le> q_bytes q'))"
proof (induction ns arbitrary: q)
  case Nil
  then show ?case by auto
next
  case (Cons n ns)
  obtain x q1 where e: "scan_entry up n q = (x, q1)" by fastforce
  note eff = scan_entry_effect[OF e]
  show ?case
  proof (cases x)
    case (Inl y)
    then show ?thesis using Cons.prems e eff by auto
  next
    case (Inr y)
    then have rec: "scan_entries up ns q1 = (r, q')" "distinct ns" "n \<notin> set ns" using Cons.prems e by auto
    note ih = Cons.IH[OF rec(1,2)]
    have c: "careful (q_fs q) (q_fs q1)" "steady q q1" using eff by auto
    have base: "careful (q_fs q) (q_fs q')" "steady q q'" using c ih careful_trans by (auto simp: steady_def)
    show ?thesis
    proof (cases "is_ok r")
      case False
      then show ?thesis using base by simp
    next
      case True
      then obtain added where a: "q_names q' = q_names q1 @ added" "set added \<subseteq> set ns" "distinct added"
        "\<forall>n \<in> set added. is_rec (m_next (q_manifest q1)) n \<and> (\<exists>f. good (q_fs q') n f)"
        "\<forall>n \<in> set ns. \<forall>f. good (q_fs q1) n f \<longrightarrow> n \<in> set added"
        "q_count q1 + int (length added) \<le> q_count q'" "q_bytes q1 + sum_list (map (file_cost q') added) \<le> q_bytes q'"
        using ih by blast
      have new: "n \<notin> set added" using a(2) rec(3) by blast
      have m: "q_manifest q1 = q_manifest q" using c(2) by (simp add: steady_def)
      have carry: "good (q_fs q1) j g" if "good (q_fs q) j g" for j g using careful_good[OF c(1) that] .
      consider (skip) "q_names q1 = q_names q" "q_count q \<le> q_count q1" "q_bytes q \<le> q_bytes q1" "\<forall>f. \<not> good (q_fs q) n f"
        | (add) f where "q_names q1 = q_names q @ [n]" "good (q_fs q) n f" "is_rec (m_next (q_manifest q)) n"
          "q_count q1 = q_count q + 1" "q_bytes q1 = q_bytes q + charge (int (length (f_data f)))"
        using eff Inr by auto
      then show ?thesis
      proof cases
        case skip
        show ?thesis
        proof (intro conjI base impI exI[of _ added])
          show "\<forall>j \<in> set (n # ns). \<forall>g. good (q_fs q) j g \<longrightarrow> j \<in> set added" using a(5) skip(4) carry by (metis set_ConsD)
        qed (use a skip m in auto)
      next
        case (add f)
        have g: "good (q_fs q') n f" using careful_good[OF base(1) add(2)] .
        show ?thesis
        proof (intro conjI base impI exI[of _ "n # added"])
          show "\<forall>j \<in> set (n # ns). \<forall>g. good (q_fs q) j g \<longrightarrow> j \<in> set (n # added)" using a(5) carry by (metis list.set_intros set_ConsD)
          show "\<forall>j \<in> set (n # added). is_rec (m_next (q_manifest q)) j \<and> (\<exists>f. good (q_fs q') j f)"
            using a(4) add(3) g m by auto
          show "q_bytes q + sum_list (map (file_cost q') (n # added)) \<le> q_bytes q'"
            using a(7) add(5) good_cost[OF g] by simp
        qed (use a add new in auto)
      qed
    qed
  qed
qed

section \<open>Opening as a whole\<close>

text \<open>What opening does to the decodable records: nothing, whatever its outcome.\<close>

definition records_kept :: "fs \<Rightarrow> fs \<Rightarrow> bool" where
  "records_kept s s' \<longleftrightarrow>
     (\<forall>n f. (good s n f \<longleftrightarrow> good s' n f) \<and> (good s n f \<longrightarrow> poss s' n \<subseteq> insert (Some f) (poss s n)))"

lemma records_kept_refl [simp]: "records_kept s s"
  by (auto simp: records_kept_def)

lemma records_kept_careful: "careful s s' \<Longrightarrow> records_kept s s'"
  unfolding records_kept_def using careful_good careful_back careful_poss by blast

lemma records_kept_same_entries: "same_entries control s s' \<Longrightarrow> records_kept s s'"
  unfolding records_kept_def
proof (intro allI conjI impI)
  fix n f
  assume a: "same_entries control s s'"
  have l: "live s' (rec_name k) = live s (rec_name k)" for k using a rec_not_in_control(1) by (simp add: same_entries_def)
  then show "good s n f \<longleftrightarrow> good s' n f" by (auto simp: good_def)
  show "poss s' n \<subseteq> insert (Some f) (poss s n)" if "good s n f"
  proof -
    from that obtain k where "n = rec_name k" "live s n = Some f" by (auto simp: good_def)
    then show ?thesis using a rec_not_in_control(1) by (auto simp: same_entries_def)
  qed
qed

lemma records_kept_trans: "records_kept s1 s2 \<Longrightarrow> records_kept s2 s3 \<Longrightarrow> records_kept s1 s3"
  unfolding records_kept_def by blast

lemma records_kept_unlock: "records_kept s s' \<Longrightarrow> records_kept s (unlock s')"
  using records_kept_trans records_kept_same_entries same_entries_unlock by blast

lemma list_spool_Inr:
  assumes "list_spool s = (Inr es, s')"
  shows "distinct es \<and> (\<forall>n f. live s' n = Some f \<longrightarrow> n \<in> set es)"
proof -
  from assms obtain s1 where "open_dir s = (Inr (), s1)" "read_dir s1 = (Inr es, s')"
    by (auto simp: list_spool_def andThen_Inr split: if_splits)
  then show ?thesis unfolding read_dir_def
    by (auto dest!: syscall_Inr simp: live_def dest: map_of_SomeD) (metis fst_conv image_eqI map_of_SomeD)
qed

text \<open>The stages of a run of \<open>openDisk\<close> that gets as far as the scan.\<close>

definition scan_start :: "disk_manifest \<Rightarrow> scopeUpgrade option \<Rightarrow> int \<Rightarrow> int \<Rightarrow> fs \<Rightarrow> disk" where
  "scan_start m upgrade maxBytes maxItems s =
     \<lparr>q_lock = True, q_manifest = m, q_names = [],
      q_bytes = 16384 + charge (maxItems * 256) + (if upgrade = None then 0 else 8192), q_count = 0,
      q_maxBytes = maxBytes, q_maxItems = maxItems, q_closed = False, q_wake = False, q_corrupt = 0, q_fs = s\<rparr>"

lemma openDisk_cases:
  assumes "openDisk dir env scope maxBytes maxItems upgrade s0 = (r, s')"
  obtains (early) e where "r = Inl e" "records_kept s0 s'"
  | (scanned) m es q1 s5 x where "records_kept s0 s5" "0 < m_next m" "distinct es" "\<forall>n f. live s5 n = Some f \<longrightarrow> n \<in> set es"
      "fs_locked s5" "scan_entries (upgrade \<noteq> None) es (scan_start m upgrade maxBytes maxItems s5) = (x, q1)"
      "case x of Inl e \<Rightarrow> (r, s') = failed e (q_fs q1) | Inr _ \<Rightarrow> (r, s') = finish_open q1"
      "1 \<le> maxItems"
proof -
  note run = assms[unfolded openDisk_def]
  show ?thesis
  proof (cases "check_spool dir env scope maxBytes maxItems (fs_euid s0)")
    case (Some e)
    with run early show ?thesis by auto
  next
    case None
    then have items: "1 \<le> maxItems" by (simp add: check_spool_def split: if_splits)
    obtain r1 s1 where ol: "open_lock s0 = (r1, s1)" by fastforce
    have k1: "same_entries control s0 s1" by (rule same_entries_framed[OF framesD[OF frames_open_lock ol]])
    show ?thesis
    proof (cases r1)
      case (Inl e)
      with run None ol early k1 records_kept_same_entries show ?thesis by auto
    next
      case r1: (Inr u1)
      obtain r2 s2 where fl: "flock s1 = (r2, s2)" by fastforce
      have k2: "same_entries control s0 s2" using same_entries_trans[OF k1 same_entries_flock[OF fl]] .
      show ?thesis
      proof (cases r2)
        case (Inl e)
        with run None ol r1 fl early k2 records_kept_same_entries show ?thesis by auto
      next
        case r2: (Inr u2)
        have lk: "fs_locked s2" using fl r2 unfolding flock_def by (auto dest!: syscall_Inr split: if_splits)
        obtain r3 s3 where l3: "list_spool s2 = (r3, s3)" by fastforce
        have f3: "framed control s2 s3" by (rule framesD[OF frames_list_spool l3])
        have k3: "same_entries control s0 s3" using same_entries_trans[OF k2 same_entries_framed[OF f3]] .
        show ?thesis
        proof (cases r3)
          case (Inl e)
          with run None ol r1 fl r2 l3 early records_kept_unlock[OF records_kept_same_entries[OF k3]] show ?thesis
            by (auto simp: failed_def)
        next
          case r3: (Inr es0)
          obtain r4 s4 where l4: "loadManifest es0 (hashScope scope) upgrade s3 = (r4, s4)" by fastforce
          have f4: "framed control s3 s4" by (rule framesD[OF frames_loadManifest l4])
          have k4: "same_entries control s0 s4" using same_entries_trans[OF k3 same_entries_framed[OF f4]] .
          show ?thesis
          proof (cases r4)
            case (Inl e)
            with run None ol r1 fl r2 l3 r3 l4 early records_kept_unlock[OF records_kept_same_entries[OF k4]] show ?thesis
              by (auto simp: failed_def)
          next
            case r4: (Inr m)
            obtain r5 s5 where l5: "list_spool s4 = (r5, s5)" by fastforce
            have f5: "framed control s4 s5" by (rule framesD[OF frames_list_spool l5])
            have k5: "same_entries control s0 s5" using same_entries_trans[OF k4 same_entries_framed[OF f5]] .
            show ?thesis
            proof (cases r5)
              case (Inl e)
              with run None ol r1 fl r2 l3 r3 l4 r4 l5 early records_kept_unlock[OF records_kept_same_entries[OF k5]]
              show ?thesis by (auto simp: failed_def)
            next
              case r5: (Inr es)
              obtain x q1 where sc: "scan_entries (upgrade \<noteq> None) es (scan_start m upgrade maxBytes maxItems s5) = (x, q1)"
                by fastforce
              have "fs_locked s5" using lk f3 f4 f5 by (simp add: framed_def)
              moreover have "case x of Inl e \<Rightarrow> (r, s') = failed e (q_fs q1) | Inr _ \<Rightarrow> (r, s') = finish_open q1"
                using run None ol r1 fl r2 l3 r3 l4 r4 l5 r5 sc by (cases x) (simp_all add: scan_start_def Let_def)
              ultimately show ?thesis
                using scanned[OF records_kept_same_entries[OF k5] loadManifest_next[OF l4[unfolded r4]] _ _ _ sc]
                  list_spool_Inr[OF l5[unfolded r5]] items by blast
            qed
          qed
        qed
      qed
    qed
  qed
qed

lemma finish_open_effect:
  assumes "finish_open q1 = (r, s')"
  shows "records_kept (q_fs q1) s' \<and>
    (case r of Inl _ \<Rightarrow> True
     | Inr q \<Rightarrow> q_bytes q1 \<le> q_maxBytes q1 \<and> q_count q1 \<le> q_maxItems q1 \<and> q = q1\<lparr>q_names := sort (q_names q1), q_fs := s'\<rparr> \<and> (\<forall>n. poss s' n = {live s' n}) \<and> live s' = live (q_fs q1)
         \<and> fs_locked s' = fs_locked (q_fs q1))"
proof (cases "q_maxBytes q1 < q_bytes q1 \<or> q_maxItems q1 < q_count q1")
  case True
  with assms show ?thesis using records_kept_unlock[OF records_kept_refl] by (auto simp: finish_open_def failed_def)
next
  case False
  obtain x s2 where sy: "syncDir (q_fs q1) = (x, s2)" by fastforce
  have f: "framed control (q_fs q1) s2" by (rule framesD[OF frames_syncDir sy])
  have k: "records_kept (q_fs q1) s2" by (rule records_kept_same_entries[OF same_entries_framed[OF f]])
  show ?thesis
  proof (cases x)
    case (Inl e)
    with assms False sy k records_kept_unlock show ?thesis by (auto simp: finish_open_def failed_def on_fs_def)
  next
    case (Inr u)
    with assms False sy have r: "r = Inr (q1\<lparr>q_names := sort (q_names q1), q_fs := s2\<rparr>)" "s' = s2"
      by (auto simp: finish_open_def on_fs_def)
    then show ?thesis using k False syncDir_Inr[OF sy[unfolded Inr]] f by (auto simp: framed_def)
  qed
qed

lemma opening_records_kept:
  assumes "openDisk dir env scope maxBytes maxItems upgrade s0 = (r, s')" shows "records_kept s0 s'"
proof (cases rule: openDisk_cases[OF assms])
  case (2 m es q1 s5 x)
  note eff = scan_entries_effect[OF 2(6,3)]
  have "records_kept s5 (q_fs q1)" using eff records_kept_careful by (simp add: scan_start_def)
  then have k: "records_kept s0 (q_fs q1)" using records_kept_trans[OF 2(1)] by blast
  show ?thesis
  proof (cases x)
    case (Inl e)
    with 2(7) records_kept_unlock[OF k] show ?thesis by (simp add: failed_def)
  next
    case (Inr u)
    with 2(7) have "finish_open q1 = (r, s')" by simp
    from finish_open_effect[OF this] k show ?thesis using records_kept_trans by blast
  qed
qed

text \<open>A spool directory whose records reached the disk.\<close>

definition settled :: "fs \<Rightarrow> bool" where
  "settled s \<longleftrightarrow> (\<forall>n f. good s n f \<longrightarrow> f_synced f)"

lemma opening_establishes:
  assumes open': "openDisk dir env scope maxBytes maxItems upgrade s0 = (Inr q, s')" and settled: "settled s0"
  shows "open_inv q \<and> q_fs q = s' \<and> \<not> q_closed q \<and> q_lock q \<and> fs_locked s' \<and> q_maxBytes q = maxBytes \<and> q_maxItems q = maxItems
    \<and> set (q_names q) = {n. \<exists>f. good s0 n f}"
proof (cases rule: openDisk_cases[OF open'])
  case (2 m es q1 s5 x)
  let ?q0 = "scan_start m upgrade maxBytes maxItems s5"
  obtain u where x: "x = Inr u" using 2(7) by (cases x) (auto simp: failed_def)
  with 2(7) have fin: "finish_open q1 = (Inr q, s')" by simp
  note eff = scan_entries_effect[OF 2(6,3)] and fe = finish_open_effect[OF fin]
  obtain added where a: "q_names q1 = added" "distinct added"
    "\<forall>n \<in> set added. is_rec (m_next m) n \<and> (\<exists>f. good (q_fs q1) n f)"
    "\<forall>n \<in> set es. \<forall>f. good s5 n f \<longrightarrow> n \<in> set added"
    "int (length added) \<le> q_count q1" "q_bytes ?q0 + sum_list (map (file_cost q1) added) \<le> q_bytes q1"
    using eff x by (auto simp: scan_start_def)
  have st: "q_manifest q1 = m" "q_maxBytes q1 = maxBytes" "q_maxItems q1 = maxItems" "\<not> q_closed q1" "q_lock q1"
    using eff by (simp_all add: steady_def scan_start_def)
  have q: "q = q1\<lparr>q_names := sort added, q_fs := s'\<rparr>" "q_fs q = s'" using fe a(1) by simp_all
  have pl: "\<And>n. poss s' n = {live s' n}" "live s' = live (q_fs q1)" "fs_locked s' = fs_locked (q_fs q1)"
    "q_bytes q1 \<le> q_maxBytes q1" "q_count q1 \<le> q_maxItems q1" using fe by simp_all
  have k: "records_kept s0 s'" by (rule opening_records_kept[OF open'])
  have k1: "records_kept (q_fs q1) s'" using fe by blast
  have car: "careful s5 (q_fs q1)" using eff by (simp add: scan_start_def)
  have goodnames: "\<exists>f. good s' n f" if "n \<in> set added" for n using a(3) that k1 unfolding records_kept_def by blast
  have held: "held q n" if nm: "n \<in> set added" for n
  proof -
    obtain f where f: "good s' n f" using goodnames[OF nm] by blast
    then have "good s0 n f" using k unfolding records_kept_def by blast
    then have "f_synced f" using settled unfolding settled_def by blast
    moreover have "live s' n = Some f" using f by (simp add: good_def)
    ultimately have "stable s' n f" using pl(1) by (simp add: stable_def)
    then show ?thesis using q(2) by (auto simp: held_def)
  qed
  have cost: "file_cost q = file_cost q1" using pl(2) q(2) by (simp add: file_cost_def fun_eq_iff)
  have cb: "0 \<le> q_bytes ?q0 - base_cost maxItems" by (simp add: scan_start_def base_cost_def)
  have sums: "sum_list (map (file_cost q1) (sort added)) = sum_list (map (file_cost q1) added)"
    using a(2) by (simp add: sum_list_distinct_conv_sum_set)
  have eqs: "q_names q = sort added" "q_manifest q = m" "q_count q = q_count q1" "q_maxItems q = maxItems" "q_bytes q = q_bytes q1"
    "q_maxBytes q = maxBytes" using q(1) st by simp_all
  have heads: "\<forall>n \<in> set (tl (sort added)). held q n" "sort added \<noteq> [] \<longrightarrow> held q (hd (sort added))"
  proof -
    show "\<forall>n \<in> set (tl (sort added)). held q n" using held list.set_sel(2)[of "sort added"] by (cases "sort added = []") auto
    show "sort added \<noteq> [] \<longrightarrow> held q (hd (sort added))" using held hd_in_set[of "sort added"] by simp
  qed
  have "open_inv q"
    unfolding open_inv_def eqs cost sums using a(2,3,5,6) heads 2(2) pl(4,5) st cb
    by (simp add: strict_sorted_iff)
  moreover have "set added = {n. \<exists>f. good s0 n f}"
  proof (intro set_eqI iffI; simp)
    fix n assume "n \<in> set added"
    then show "\<exists>f. good s0 n f" using goodnames k unfolding records_kept_def by blast
  next
    fix n assume "\<exists>f. good s0 n f"
    then obtain f where "good s5 n f" using 2(1) unfolding records_kept_def by blast
    then show "n \<in> set added" using a(4) 2(4) by (auto simp: good_def)
  qed
  moreover have "fs_locked s'" using pl(3) car 2(5) by (simp add: careful_def)
  ultimately show ?thesis using q st eqs by simp
qed simp

end
