(* ===== verification/MetricsSpool.thy ===== *)
theory MetricsSpool
  imports OpenFacts
begin

text \<open>
  What the metrics spool promises: durable acceptance, ordered delivery, removal only of the
  acknowledged head, a budget that holds, and opening without loss; with the delivery workers on top.
\<close>

section \<open>Runs\<close>

text \<open>
  Any sequence of calls, with the faults of the file system chosen anew before each of them.
\<close>

inductive disk_step :: "disk \<Rightarrow> disk \<Rightarrow> bool" where
  do_put: "disk_step q (snd (Put ctx data q))"
| do_next: "disk_step q (snd (Next ctx q))"
| do_ack: "disk_step q (snd (Ack ctx rid q))"
| do_close: "disk_step q (snd (CloseDisk q))"
| do_faults: "disk_step q (q\<lparr>q_fs := (q_fs q)\<lparr>fs_fates := script\<rparr>\<rparr>)"

inductive disk_run :: "disk \<Rightarrow> disk \<Rightarrow> bool" for q0 where
  disk_start: "disk_run q0 q0"
| disk_more: "disk_run q0 q \<Longrightarrow> disk_step q q' \<Longrightarrow> disk_run q0 q'"

inductive_cases disk_stepE: "disk_step q q'"

lemma open_inv_same_files:
  assumes "open_inv q" "live (q_fs q') = live (q_fs q)" "poss (q_fs q') = poss (q_fs q)" "same_counters q q'"
    "q_manifest q' = q_manifest q"
  shows "open_inv q'"
proof -
  have "held q' = held q" "file_cost q' = file_cost q"
    using assms(2,3) by (simp_all add: held_def stable_def file_cost_def fun_eq_iff)
  then show ?thesis using assms unfolding open_inv_def same_counters_def by simp
qed

lemma CloseDisk_effect: "open_inv q \<Longrightarrow> CloseDisk q = (r, q') \<Longrightarrow> open_inv q' \<and> q_closed q' \<and> \<not> q_lock q' \<and> q_names q' = q_names q"
proof -
  assume inv: "open_inv q" and c: "CloseDisk q = (r, q')"
  obtain x s where cf: "close_file (q_fs q) = (x, s)" by fastforce
  have s: "live s = live (q_fs q)" "poss s = poss (q_fs q)" using close_file_state[OF cf] by simp_all
  have u: "live (unlock s) = live s" "poss (unlock s) = poss s" by (auto simp: unlock_def live_def poss_def fun_eq_iff)
  from c cf have "q' = (if q_lock q then q\<lparr>q_closed := True, q_wake := True, q_fs := unlock s, q_lock := False\<rparr>
      else q\<lparr>q_closed := True, q_wake := True\<rparr>)"
    by (auto simp: CloseDisk_def Let_def on_fs_def)
  with s u show ?thesis by (auto intro!: open_inv_same_files[OF inv] simp: same_counters_def)
qed

lemma disk_step_inv: "disk_step q q' \<Longrightarrow> open_inv q \<Longrightarrow> open_inv q'"
proof (erule disk_stepE)
  fix ctx data assume "q' = snd (Put ctx data q)" "open_inv q"
  then show ?thesis using Put_effect[of q ctx data "fst (Put ctx data q)"] by simp
next
  fix ctx assume "q' = snd (Next ctx q)" "open_inv q"
  then show ?thesis using Next_effect[of q ctx "fst (Next ctx q)"] by simp
next
  fix ctx rid assume "q' = snd (Ack ctx rid q)" "open_inv q"
  then show ?thesis using Ack_effect[of q ctx rid "fst (Ack ctx rid q)"] by simp
next
  assume "q' = snd (CloseDisk q)" "open_inv q"
  then show ?thesis using CloseDisk_effect[of q "fst (CloseDisk q)"] by simp
next
  fix script assume q': "q' = q\<lparr>q_fs := (q_fs q)\<lparr>fs_fates := script\<rparr>\<rparr>" and inv: "open_inv q"
  show ?thesis unfolding q'
    by (rule open_inv_same_files[OF inv]) (simp_all add: live_def poss_def same_counters_def fun_eq_iff)
qed

lemma disk_run_inv: "disk_run q0 q \<Longrightarrow> open_inv q0 \<Longrightarrow> open_inv q"
  by (induction rule: disk_run.induct) (auto intro: disk_step_inv)

lemma keeps_crash: "keeps ns q q' \<Longrightarrow> n \<in> ns \<Longrightarrow> held q n \<Longrightarrow> crash_image (q_fs q') img \<Longrightarrow> img n = live (q_fs q) n"
  unfolding keeps_def held_def using stable_crash by (metis stable_def)

section \<open>A sample spool\<close>

definition sample_file :: "bytes \<Rightarrow> inode" where
  "sample_file d = \<lparr>f_kind = Regular, f_mode = 384, f_uid = 1000, f_nlink = 1, f_data = d, f_synced = True\<rparr>"

definition sample_fs :: fs where
  "sample_fs = \<lparr>fs_dir = [(''lock'', sample_file [])], fs_disk = [(''lock'', sample_file [])], fs_recent = [], fs_fates = [],
     fs_euid = 1000, fs_locked = True\<rparr>"

definition sample_disk :: disk where
  "sample_disk = \<lparr>q_lock = True, q_manifest = \<lparr>m_version = 2, m_scope = ''s'', m_next = 1\<rparr>, q_names = [],
     q_bytes = 28672, q_count = 0, q_maxBytes = 100000000, q_maxItems = 4, q_closed = False, q_wake = False,
     q_corrupt = 0, q_fs = sample_fs\<rparr>"

lemma sample_open_inv: "open_inv sample_disk"
  by (simp add: open_inv_def sample_disk_def base_cost_def charge_def)

lemma sample_healthy:
  "healthy (q_fs sample_disk)" "live (q_fs sample_disk) ''.pending'' = None" "\<not> is_dir (q_fs sample_disk) n"
  by (simp_all add: healthy_def live_def is_dir_def sample_disk_def sample_fs_def sample_file_def)

lemma one_compact: "compact ''1'' = Some ''1''" "nested_within (maxNestingDepth - 1) ''1''"
proof -
  have w: "json_wf d (JNum ''1'')" for d by (simp add: num_ok_def scan_num_def scan_int_def scan_frac_def scan_exp_def is_digit_def Let_def)
  have p: "json_parse ''1'' = Some (JNum ''1'')" using json_parse_pr[OF w] by simp
  then show "compact ''1'' = Some ''1''" "nested_within (maxNestingDepth - 1) ''1''"
    using w by (simp_all add: compact_def nested_within_def)
qed

lemma put_record_length: "compact p = Some p \<Longrightarrow> length (put_record p) = 98 + length p"
  by (simp add: put_record_def length_marshal_record)

lemma sample_put: "\<exists>q1. Put None ''1'' sample_disk = (Inr (rec_name 1), q1) \<and> healthy (q_fs q1) \<and> live (q_fs q1) ''.pending'' = None"
proof -
  have "\<exists>q'. Put None ''1'' sample_disk = (Inr (rec_name (m_next (q_manifest sample_disk))), q') \<and> healthy (q_fs q') \<and> live (q_fs q') ''.pending'' = None"
    by (rule Put_healthy[OF sample_open_inv sample_healthy(1,2,3,3,3)])
      (auto simp: one_compact put_record_length, auto simp: sample_disk_def charge_def)
  then show ?thesis by (simp add: sample_disk_def)
qed

section \<open>Properties\<close>

text \<open>
  C7: When \<open>Put\<close> reports success, the payload is durable: the new receipt is last in the queue, and after
  a crash at that point, whatever the disk kept, the record is there and decodes to the compacted
  payload, and every record queued before is unchanged. The faults of the file system are arbitrary.
\<close>

theorem Put_is_durable:
  assumes "open_inv q" "Put ctx data q = (Inr rid, q')" "nested_within (maxNestingDepth - 1) data"
  shows "\<exists>p. compact data = Some p \<and> q_names q' = q_names q @ [rid] \<and> open_inv q' \<and>
    (\<forall>img. crash_image (q_fs q') img \<longrightarrow>
       (\<exists>f. img rid = Some f \<and> decodeRecord (f_data f) = Inr p) \<and>
       (\<forall>n \<in> set (q_names q). held q n \<longrightarrow> img n = live (q_fs q) n))"
proof -
  note e = Put_effect[OF assms(1,2)]
  then obtain p f where p: "compact data = Some p" "stable (q_fs q') rid f" "f_data f = put_record p" by auto
  have "decodeRecord (f_data f) = Inr p" using p(1,3) decode_marshal[OF p(1) assms(3)] by (simp add: put_record_def)
  then have "\<forall>img. crash_image (q_fs q') img \<longrightarrow> (\<exists>f. img rid = Some f \<and> decodeRecord (f_data f) = Inr p)"
    using stable_crash[OF p(2)] by auto
  with e p(1) keeps_crash[of "set (q_names q)" q q'] show ?thesis by (intro exI[of _ p]) auto
qed

theorem Put_is_durable_witness:
  "\<exists>rid q'. Put None ''1'' sample_disk = (Inr rid, q') \<and> q_names q' = [rid]
     \<and> (\<forall>img. crash_image (q_fs q') img \<longrightarrow> (\<exists>f. img rid = Some f \<and> decodeRecord (f_data f) = Inr ''1''))"
proof -
  obtain q1 where p: "Put None ''1'' sample_disk = (Inr (rec_name 1), q1)" using sample_put by blast
  have "q_names sample_disk = []" by (simp add: sample_disk_def)
  with Put_is_durable[OF sample_open_inv p one_compact(2)] p show ?thesis by (auto simp: one_compact)
qed

text \<open>
  When \<open>Put\<close> reports an error, nothing that was accepted is harmed: the queue lists the same
  receipts, every record in it survives a crash unchanged, and unless the call changed nothing at all
  the queue is closed to further use.
\<close>

theorem Put_refusal_harms_nothing:
  assumes "open_inv q" "Put ctx data q = (Inl e, q')"
  shows "open_inv q' \<and> q_names q' = q_names q \<and> (q' = q \<or> q_closed q') \<and>
    (\<forall>img. crash_image (q_fs q') img \<longrightarrow> (\<forall>n \<in> set (q_names q). held q n \<longrightarrow> img n = live (q_fs q) n))"
  using Put_effect[OF assms] keeps_crash by auto

definition faulty_disk :: disk where
  "faulty_disk = sample_disk\<lparr>q_fs := sample_fs\<lparr>fs_fates := [Fine, Fault 3]\<rparr>\<rparr>"

lemma faulty_open_inv: "open_inv faulty_disk"
  by (simp add: faulty_disk_def open_inv_def sample_disk_def base_cost_def charge_def)

lemma faulty_put: "\<exists>q'. Put None ''1'' faulty_disk = (Inl OSError, q')"
proof -
  have "\<exists>s'. disk_saveManifest m (sample_fs\<lparr>fs_fates := [Fine, Fault 3]\<rparr>) = (Inl OSError, s')" for m
    by (simp add: disk_saveManifest_def disk_write_def andThen_def attempt_def create_excl_def syscall_def fate_of_def spend_def live_def
        sample_fs_def put_entry_def fresh_file_def ins_def fill_def write_all_def set_data_def raise_def close_file_def split: prod.splits)
  then obtain s' where m: "disk_saveManifest \<lparr>m_version = 2, m_scope = ''s'', m_next = 2\<rparr> (sample_fs\<lparr>fs_fates := [Fine, Fault 3]\<rparr>) = (Inl OSError, s')"
    by blast
  have "length (put_record ''1'') = 99" by (simp add: put_record_length one_compact)
  moreover have "json_Valid ''1''" using one_compact(1) compact_Valid by blast
  ultimately show ?thesis using m
    by (simp add: Put_def put_record_def[symmetric] one_compact faulty_disk_def sample_disk_def charge_def Let_def on_fs_def)
qed

theorem Put_refusal_harms_nothing_witness:
  "\<exists>q'. Put None ''1'' faulty_disk = (Inl OSError, q') \<and> open_inv q' \<and> q_names q' = []"
proof -
  obtain q' where p: "Put None ''1'' faulty_disk = (Inl OSError, q')" using faulty_put by blast
  have "q_names faulty_disk = []" by (simp add: faulty_disk_def sample_disk_def)
  with Put_refusal_harms_nothing[OF faulty_open_inv p] p show ?thesis by auto
qed

lemma Put_euid: "Put ctx data q = (r, q') \<Longrightarrow> fs_euid (q_fs q') = fs_euid (q_fs q)"
proof (erule Put_cases)
  fix p q1 s1 r1
  assume q1: "q1 = q\<lparr>q_manifest := (q_manifest q)\<lparr>m_next := m_next (q_manifest q) + 1\<rparr>\<rparr>"
    and m: "disk_saveManifest (q_manifest q1) (q_fs q) = (r1, s1)"
    and out: "case r1 of Inl e \<Rightarrow> r = Inl e \<and> q' = q1\<lparr>q_fs := s1, q_closed := True\<rparr>
       | Inr _ \<Rightarrow> (\<exists>r2 s2. disk_write (rec_name (m_next (q_manifest q))) (put_record p) s1 = (r2, s2) \<and>
           (case r2 of Inl e \<Rightarrow> r = Inl e \<and> q' = q1\<lparr>q_fs := s2, q_closed := True\<rparr>
            | Inr _ \<Rightarrow> r = Inr (rec_name (m_next (q_manifest q)))
                \<and> q' = q1\<lparr>q_fs := s2, q_names := q_names q @ [rec_name (m_next (q_manifest q))],
                    q_count := q_count q + 1, q_bytes := q_bytes q + charge (int (length (put_record p))), q_wake := True\<rparr>))"
  have e1: "fs_euid s1 = fs_euid (q_fs q)" using framesD[OF frames_disk_saveManifest m] by (simp add: framed_def)
  show ?thesis
  proof (cases r1)
    case (Inl e)
    with out e1 show ?thesis by simp
  next
    case (Inr u)
    obtain r2 s2 where w: "disk_write (rec_name (m_next (q_manifest q))) (put_record p) s1 = (r2, s2)" by fastforce
    from out Inr w have q': "q_fs q' = s2" by (cases r2) auto
    from framesD[OF frames_disk_write w] e1 q' show ?thesis by (simp add: framed_def)
  qed
qed simp

lemma disk_read_healthy:
  assumes "healthy s" "live s n = Some f" "\<not> unsafe_inode s f k" shows "disk_read n k s = (Inr (f_data f), s)"
  using assms by (simp add: disk_read_def andThen_def lstat_def healthy_syscall open_read_def read_all_def unsafe_inode_def ret_def)

lemma Next_head_healthy:
  assumes "q_names q = n # rest" "\<not> q_closed q" "healthy (q_fs q)" "live (q_fs q) n = Some f"
    "\<not> unsafe_inode (q_fs q) f 5242880" "decodeRecord (f_data f) = Inr d"
  shows "\<exists>q'. Next None q = (Inr (Item n d), q')"
  using assms disk_read_healthy[OF assms(3,4,5)] by (subst Next.simps) (simp add: on_fs_def)

text \<open>A JSON string of \<open>n\<close> angle brackets: each takes one byte on input and six in the record.\<close>

definition angle_payload :: "nat \<Rightarrow> bytes" where
  "angle_payload n = QUOTE # replicate n (CHR ''<'') @ [QUOTE]"

definition escaped_angles :: "nat \<Rightarrow> bytes" where
  "escaped_angles n = QUOTE # concat (replicate n (BSLASH # ''u003c'')) @ [QUOTE]"

lemma html_esc_angles: "html_esc (replicate n (CHR ''<'')) = concat (replicate n (BSLASH # ''u003c''))"
  by (induction n) simp_all

lemma angle_compact: "compact (angle_payload n) = Some (escaped_angles n)"
proof -
  have "body (replicate n (CHR ''<''))" by (rule body_plain) (simp add: list_all_iff plain_def char_consts)
  then have "json_wf maxNestingDepth (JStr (replicate n (CHR ''<'')))" by simp
  from json_parse_pr[OF this] have "json_parse (angle_payload n) = Some (JStr (replicate n (CHR ''<'')))"
    by (simp add: angle_payload_def)
  then show ?thesis by (simp add: compact_def escaped_angles_def html_esc_angles)
qed

lemma angle_lengths: "length (angle_payload n) = n + 2" "length (escaped_angles n) = 6 * n + 2"
proof -
  show "length (angle_payload n) = n + 2" by (simp add: angle_payload_def)
  have "length (concat (replicate n (BSLASH # ''u003c''))) = 6 * n" by (induction n) simp_all
  then show "length (escaped_angles n) = 6 * n + 2" by (simp add: escaped_angles_def)
qed

lemma Next_head_oversized:
  assumes "q_names q = n # rest" "\<not> q_closed q" "healthy (q_fs q)" "live (q_fs q) n = Some f" "unsafe_inode (q_fs q) f 5242880"
  shows "Next None q = (Inl (Failure ''unsafe or oversized spool file''), q)"
proof -
  have "disk_read n 5242880 (q_fs q) = (Inl (Failure ''unsafe or oversized spool file''), q_fs q)"
    using assms(3,4,5) by (simp add: disk_read_def andThen_def lstat_def healthy_syscall raise_def)
  then show ?thesis using assms(1,2) by (subst Next.simps) (simp add: on_fs_def)
qed

text \<open>
  C28: Take an open, empty queue with room for one more record in items and bytes and a sequence number left,
  on a directory where no call fails, no file \<open>.pending\<close> is left over and no directory stands in the place of
  the manifest, its backup or the new record. Then a payload of at most 4 MiB of valid JSON is accepted, and
  its stored form, the compacted payload in a frame of 98 bytes, decides what comes next. If that form has at
  most 5 MiB and the payload is nested at least one level below the decoder's limit, the next \<open>Next\<close>
  delivers exactly the compacted payload under the receipt of \<open>Put\<close>. If it is longer, because compaction
  escapes characters, the next \<open>Next\<close> reports an error, delivers nothing, and leaves the queue as it is.
\<close>

theorem Put_then_Next_roundtrip:
  assumes inv: "open_inv q" and h: "healthy (q_fs q)" "live (q_fs q) ''.pending'' = None"
    "\<not> is_dir (q_fs q) ''manifest.backup''" "\<not> is_dir (q_fs q) ''manifest.json''"
    "\<not> is_dir (q_fs q) (rec_name (m_next (q_manifest q)))"
    and c: "\<not> q_closed q" "q_names q = []" "length data \<le> 4194304" "compact data = Some p"
    "q_count q < q_maxItems q" "q_bytes q + charge (int (98 + length p)) \<le> q_maxBytes q" "m_next (q_manifest q) \<noteq> - 1"
  shows "\<exists>rid q1. Put None data q = (Inr rid, q1) \<and> q_names q1 = [rid] \<and>
    (if 98 + length p \<le> 5242880
     then nested_within (maxNestingDepth - 1) data \<longrightarrow> (\<exists>q2. Next None q1 = (Inr (Item rid p), q2))
     else \<exists>e. Next None q1 = (Inl e, q1))"
proof -
  let ?r = "rec_name (m_next (q_manifest q))"
  have len: "length (put_record p) = 98 + length p" using compact_stable[OF c(4)] by (rule put_record_length)
  obtain q1 where put: "Put None data q = (Inr ?r, q1)" "healthy (q_fs q1)"
    using Put_healthy[OF inv h c(1,3,4,5) _ c(7)] c(6) len by auto
  note e = Put_effect[OF inv put(1)]
  then obtain f where f: "stable (q_fs q1) ?r f" "f_data f = put_record p"
    "f = new_file (q_fs q) (put_record p)" "\<not> q_closed q1" using c(4) by auto
  have names: "q_names q1 = [?r]" using e c(2) by simp
  have live: "live (q_fs q1) ?r = Some f" using f(1) by (simp add: stable_def)
  have "unsafe_inode (q_fs q1) f 5242880 \<longleftrightarrow> 98 + length p > 5242880"
    using f(3) len Put_euid[OF put(1)] by (auto simp: unsafe_inode_def new_file_def fresh_file_def)
  moreover have "decodeRecord (f_data f) = Inr p" if "nested_within (maxNestingDepth - 1) data"
    using f(2) decode_marshal[OF c(4) that] by (simp add: put_record_def)
  ultimately show ?thesis
    using put(1) names Next_head_healthy[OF names f(4) put(2) live] Next_head_oversized[OF names f(4) put(2) live]
    by (intro exI[of _ ?r] exI[of _ q1]) auto
qed

theorem Put_then_Next_roundtrip_witness:
  "(\<exists>rid q1 q2. Put None ''1'' sample_disk = (Inr rid, q1) \<and> Next None q1 = (Inr (Item rid ''1''), q2))
   \<and> (\<exists>rid q1 e. Put None (angle_payload 900000) sample_disk = (Inr rid, q1) \<and> q_names q1 = [rid] \<and> Next None q1 = (Inl e, q1))"
proof
  have "\<exists>rid q1. Put None ''1'' sample_disk = (Inr rid, q1) \<and> q_names q1 = [rid] \<and>
    (if 98 + length ''1'' \<le> 5242880
     then nested_within (maxNestingDepth - 1) ''1'' \<longrightarrow> (\<exists>q2. Next None q1 = (Inr (Item rid ''1''), q2))
     else \<exists>e. Next None q1 = (Inl e, q1))"
    by (rule Put_then_Next_roundtrip[OF sample_open_inv sample_healthy(1,2,3,3,3) _ _ _ one_compact(1)])
      (simp_all add: sample_disk_def charge_def)
  then show "\<exists>rid q1 q2. Put None ''1'' sample_disk = (Inr rid, q1) \<and> Next None q1 = (Inr (Item rid ''1''), q2)"
    using one_compact(2) by auto
  have "\<exists>rid q1. Put None (angle_payload 900000) sample_disk = (Inr rid, q1) \<and> q_names q1 = [rid] \<and>
    (if 98 + length (escaped_angles 900000) \<le> 5242880
     then nested_within (maxNestingDepth - 1) (angle_payload 900000)
       \<longrightarrow> (\<exists>q2. Next None q1 = (Inr (Item rid (escaped_angles 900000)), q2))
     else \<exists>e. Next None q1 = (Inl e, q1))"
    by (rule Put_then_Next_roundtrip[OF sample_open_inv sample_healthy(1,2,3,3,3) _ _ _ angle_compact])
      (simp_all add: sample_disk_def charge_def angle_lengths)
  then show "\<exists>rid q1 e. Put None (angle_payload 900000) sample_disk = (Inr rid, q1) \<and> q_names q1 = [rid] \<and> Next None q1 = (Inl e, q1)"
    by (simp add: angle_lengths)
qed

text \<open>
  \<open>Next\<close> delivers the oldest readable record: what it skipped was readable as a file and did not decode
  (those files are quarantined), what it returns is the payload stored under the returned receipt, and
  that receipt stays at the head of the queue until it is acknowledged.
\<close>

theorem Next_returns_oldest_readable:
  assumes "open_inv q" "Next ctx q = (Inr (Item rid d), q')"
  shows "open_inv q' \<and> (\<exists>dropped rest. q_names q = dropped @ rid # rest \<and> q_names q' = rid # rest
    \<and> (\<forall>n \<in> set dropped. undecodable q n) \<and> disk_content q rid = Some d \<and> disk_content q' rid = Some d)"
proof -
  from Next_effect[OF assms] obtain dropped where e: "open_inv q'" "q_names q = dropped @ q_names q'"
    "\<forall>n \<in> set dropped. undecodable q n"
    "\<exists>rest f. q_names q' = rid # rest \<and> live (q_fs q) rid = Some f \<and> live (q_fs q') rid = Some f \<and> decodeRecord (f_data f) = Inr d"
    by auto
  from e(4) obtain rest f where f: "q_names q' = rid # rest" "live (q_fs q) rid = Some f" "live (q_fs q') rid = Some f"
    "decodeRecord (f_data f) = Inr d" by blast
  have "disk_content q rid = Some d" "disk_content q' rid = Some d" using f by (simp_all add: disk_content_def)
  with e f(1) show ?thesis by (intro conjI exI[of _ dropped] exI[of _ rest]) simp_all
qed

lemma sample_next: "\<exists>rid q1 q2. Put None ''1'' sample_disk = (Inr rid, q1) \<and> open_inv q1 \<and> q_names q1 = [rid] \<and> healthy (q_fs q1)
    \<and> Next None q1 = (Inr (Item rid ''1''), q2)"
proof -
  obtain q1 where p: "Put None ''1'' sample_disk = (Inr (rec_name 1), q1)" "healthy (q_fs q1)" using sample_put by blast
  note e = Put_effect[OF sample_open_inv p(1)]
  then obtain f where f: "stable (q_fs q1) (rec_name 1) f" "f = new_file (q_fs sample_disk) (put_record ''1'')" "\<not> q_closed q1"
    by (auto simp: one_compact)
  have "\<not> unsafe_inode (q_fs q1) f 5242880" using f(2) Put_euid[OF p(1)]
    by (simp add: unsafe_inode_def new_file_def fresh_file_def put_record_length one_compact)
  moreover have "decodeRecord (f_data f) = Inr ''1''"
    using f(2) decode_marshal[OF one_compact] by (simp add: put_record_def new_file_def)
  moreover have n: "q_names q1 = [rec_name 1]" using e by (simp add: sample_disk_def)
  ultimately show ?thesis using Next_head_healthy[of q1 "rec_name 1" "[]" f "''1''"] e p f by (auto simp: stable_def)
qed

theorem Next_returns_oldest_readable_witness:
  "\<exists>rid q1 q2. Put None ''1'' sample_disk = (Inr rid, q1) \<and> Next None q1 = (Inr (Item rid ''1''), q2)
     \<and> q_names q2 = [rid] \<and> disk_content q2 rid = Some ''1''"
proof -
  obtain rid q1 q2 where s: "Put None ''1'' sample_disk = (Inr rid, q1)" "open_inv q1" "q_names q1 = [rid]"
    "Next None q1 = (Inr (Item rid ''1''), q2)" using sample_next by blast
  from Next_returns_oldest_readable[OF s(2,4)] s show ?thesis by (auto simp: Cons_eq_append_conv)
qed

text \<open>
  A successful \<open>Ack\<close> removes exactly the head, and durably: after a crash the acknowledged record is
  gone and every other queued record is unchanged. An \<open>Ack\<close> that fails removes nothing from the queue's
  list, and unless the record file is untouched the queue is closed.
\<close>

theorem Ack_removes_exactly_the_head:
  assumes "open_inv q" "Ack ctx rid q = (r, q')"
  shows "open_inv q' \<and>
    (case r of
       Inr _ \<Rightarrow> q_names q = rid # q_names q' \<and> (\<forall>img. crash_image (q_fs q') img \<longrightarrow> img rid = None)
     | Inl _ \<Rightarrow> q_names q' = q_names q \<and> (q_closed q' \<or> keeps (set (q_names q)) q q')) \<and>
    (\<forall>img. crash_image (q_fs q') img \<longrightarrow>
       (\<forall>n \<in> set (q_names q). n \<noteq> rid \<and> held q n \<longrightarrow> img n = live (q_fs q) n))"
proof -
  note e = Ack_effect[OF assms]
  have "img n = live (q_fs q) n" if "crash_image (q_fs q') img" "n \<in> set (q_names q)" "n \<noteq> rid" "held q n" for img n
    using e keeps_crash[of "set (q_names q) - {rid}" q q' n img] that by blast
  moreover have "img rid = None" if "crash_image (q_fs q') img" "poss (q_fs q') rid = {None}" for img
    using that by (auto simp: crash_image_def survives_def dest: spec[of _ rid])
  ultimately show ?thesis using e by (cases r) auto
qed

theorem Ack_removes_exactly_the_head_witness:
  "\<exists>rid q1. Put None ''1'' sample_disk = (Inr rid, q1) \<and>
     (case Ack None rid q1 of (Inr _, q2) \<Rightarrow> q_names q2 = [] | (Inl _, q2) \<Rightarrow> q_names q2 = [rid])"
proof -
  obtain rid q1 where s: "Put None ''1'' sample_disk = (Inr rid, q1)" "open_inv q1" "q_names q1 = [rid]" using sample_next by blast
  obtain r q2 where a: "Ack None rid q1 = (r, q2)" by fastforce
  from Ack_removes_exactly_the_head[OF s(2) a] s a show ?thesis by (cases r) auto
qed

section \<open>Budget and opening\<close>

text \<open>
  C9: The budget and the order hold forever: after any sequence of calls on an opened spool, under any
  faults, the reserve and the cost of every queued record are within the byte count, which is within the
  configured budget, the number of queued records is within the item limit, the receipts ascend strictly
  in sequence order below the next sequence number, and every record behind the head is on disk.
\<close>

theorem spool_stays_within_budget:
  assumes "open_inv q0" "disk_run q0 q"
  shows "base_cost (q_maxItems q) + sum_list (map (file_cost q) (q_names q)) \<le> q_bytes q \<and> q_bytes q \<le> q_maxBytes q
    \<and> int (length (q_names q)) \<le> q_count q \<and> q_count q \<le> q_maxItems q
    \<and> sorted_wrt (<) (q_names q) \<and> (\<forall>n \<in> set (q_names q). is_rec (m_next (q_manifest q)) n)
    \<and> (\<forall>n \<in> set (tl (q_names q)). held q n)"
  using disk_run_inv[OF assms(2,1)] by (simp add: open_inv_def)

theorem spool_stays_within_budget_witness:
  "q_bytes (snd (Next None (snd (Put None ''1'' sample_disk)))) \<le> q_maxBytes (snd (Next None (snd (Put None ''1'' sample_disk))))"
  using spool_stays_within_budget[OF sample_open_inv disk_more[OF disk_more[OF disk_start do_put] do_next]] by simp

definition fresh_fs :: fs where
  "fresh_fs = \<lparr>fs_dir = [], fs_disk = [], fs_recent = [], fs_fates = [], fs_euid = 1000, fs_locked = False\<rparr>"

lemma fresh_settled: "settled fresh_fs"
  by (simp add: settled_def good_def live_def fresh_fs_def)

lemma fresh_open:
  "\<exists>q s'. openDisk ''/var/lib/observe'' sample_env ''s'' 100000 4 None fresh_fs = (Inr q, s')"
  by (simp add: openDisk_def check_spool_def sample_env_def fresh_fs_def
      open_lock_def syscall_def fate_of_def spend_def live_def put_entry_def fresh_file_def ins_def flock_def
      list_spool_def andThen_def open_dir_def read_dir_def ret_def raise_def
      loadManifest_def check_pending_def attempt_def disk_read_def lstat_def read_manifest_def fresh_manifest_def
      disk_saveManifest_def disk_write_def create_excl_def fill_def write_all_def set_data_def fsync_def close_file_def
      rename_def syncDir_def fsync_dir_def remove_def scan_entry_def finish_open_def on_fs_def charge_def Let_def)

text \<open>
  C8: Opening a spool, with or without a scope migration, successful or not, at whatever call the file system
  fails, leaves every decodable record as it was: the file is there with the same contents, and nothing
  else can be found in its place after a crash.
\<close>

theorem opening_loses_no_record:
  "records_kept s0 (snd (openDisk dir env scope maxBytes maxItems upgrade s0))"
  by (rule opening_records_kept) (rule prod.collapse[symmetric])

text \<open>
  C27: A spool that opens on a directory whose decodable records have reached the disk lists exactly these records, in
  sequence order, holds the exclusive lock, and satisfies the invariant all operations maintain, with the configured limits.
\<close>

theorem opened_spool_lists_the_records:
  assumes "openDisk dir env scope maxBytes maxItems upgrade s0 = (Inr q, s')" "settled s0"
  shows "open_inv q \<and> q_fs q = s' \<and> \<not> q_closed q \<and> fs_locked s' \<and> q_maxBytes q = maxBytes \<and> q_maxItems q = maxItems
    \<and> set (q_names q) = {n. \<exists>f. good s0 n f} \<and> sorted (q_names q)"
  using opening_establishes[OF assms] by (auto simp: open_inv_def strict_sorted_iff)

theorem opened_spool_lists_the_records_witness:
  "\<exists>q s'. openDisk ''/var/lib/observe'' sample_env ''s'' 100000 4 None fresh_fs = (Inr q, s') \<and> open_inv q \<and> q_names q = []"
proof -
  obtain q s' where o: "openDisk ''/var/lib/observe'' sample_env ''s'' 100000 4 None fresh_fs = (Inr q, s')"
    using fresh_open by blast
  have "{n. \<exists>f. good fresh_fs n f} = {}" by (simp add: good_def live_def fresh_fs_def)
  with opened_spool_lists_the_records[OF o fresh_settled] o show ?thesis by auto
qed

section \<open>Delivery\<close>

text \<open>
  C5: Records leave the metrics spool only by acceptance: whatever the interleaving of scrapes and delivery,
  the outcomes of the sends and the faults of the disk, the records that entered are, in order, those
  that left followed by those still queued; each one that left was accepted by the backend with exactly
  its stored payload, or never was readable; each one still queued reads as it entered, unless the
  backend accepted it and only the acknowledgement failed.
\<close>

theorem metrics_delivered_only_by_acceptance:
  assumes "open_inv q" "worker_run Put Next Ack q_names disk_stored (launch q_names disk_content q) w"
  shows "accounted q_names disk_content w"
  using assms(2,1) by (rule dq.run_accounted)

theorem metrics_delivered_only_by_acceptance_witness:
  "accounted q_names disk_content
     (deliver_ack Ack None (deliver_outcome Accepted (deliver_next Next q_names None
       (snd (enqueue Put disk_stored None ''1'' (launch q_names disk_content sample_disk))))))
   \<and> (\<exists>rid. w_sent (deliver_ack Ack None (deliver_outcome Accepted (deliver_next Next q_names None
       (snd (enqueue Put disk_stored None ''1'' (launch q_names disk_content sample_disk)))))) = {(rid, ''1'')})"
proof -
  obtain rid q1 q2 where s: "Put None ''1'' sample_disk = (Inr rid, q1)" "Next None q1 = (Inr (Item rid ''1''), q2)"
    using sample_next by blast
  let ?w0 = "launch q_names disk_content sample_disk"
  let ?w1 = "snd (enqueue Put disk_stored None ''1'' ?w0)"
  let ?w2 = "deliver_next Next q_names None ?w1"
  let ?w3 = "deliver_outcome Accepted ?w2"
  have p1: "w_phase ?w1 = Fetching" using s by (simp add: enqueue_def launch_def Let_def)
  have p2: "w_phase ?w2 = Sending rid ''1''" using s by (simp add: enqueue_def launch_def Let_def deliver_next_def)
  have e2: "w_sent ?w2 = {}" using s by (simp add: enqueue_def launch_def Let_def deliver_next_def)
  have p3: "w_phase ?w3 = Acking rid ''1''" "w_sent ?w3 = {(rid, ''1'')}" using p2 e2 by (simp_all add: deliver_outcome_def)
  have run: "worker_run Put Next Ack q_names disk_stored ?w0 (deliver_ack Ack None ?w3)"
    by (rule run_more[OF run_more[OF run_more[OF run_more[OF run_start step_put] step_next[OF p1]] step_outcome[OF p2]] step_ack[OF p3(1)]])
  have "w_sent (deliver_ack Ack None ?w3) = {(rid, ''1'')}" using p3
    by (auto simp: deliver_ack_def split: sum.splits prod.splits)
  with metrics_delivered_only_by_acceptance[OF sample_open_inv run] show ?thesis by blast
qed

section \<open>Accepted but never deliverable\<close>

text \<open>
  A payload within the 4 MiB limit whose characters are escaped on storage can be accepted and then never
  be delivered: the record exceeds the 5 MiB read limit, so \<open>Next\<close> reports an error, and it does so again
  on the state it left, with the record still at the head.
\<close>

theorem accepted_record_can_be_unreadable:
  assumes inv: "open_inv q" and h: "healthy (q_fs q)" "live (q_fs q) ''.pending'' = None"
    "\<not> is_dir (q_fs q) ''manifest.backup''" "\<not> is_dir (q_fs q) ''manifest.json''"
    "\<not> is_dir (q_fs q) (rec_name (m_next (q_manifest q)))"
    and c: "\<not> q_closed q" "q_names q = []" "q_count q < q_maxItems q" "m_next (q_manifest q) \<noteq> - 1"
    and n: "873797 \<le> n" "n \<le> 4194302" "q_bytes q + charge (100 + 6 * int n) \<le> q_maxBytes q"
  shows "\<exists>rid q1 e. Put None (angle_payload n) q = (Inr rid, q1) \<and> q_names q1 = [rid] \<and> Next None q1 = (Inl e, q1)"
proof -
  let ?r = "rec_name (m_next (q_manifest q))" and ?p = "put_record (escaped_angles n)"
  have len: "length ?p = 100 + 6 * n"
    using put_record_length[OF compact_stable[OF angle_compact]] angle_lengths(2) by simp
  have room: "q_bytes q + charge (int (length ?p)) \<le> q_maxBytes q" using n(3) len by simp
  have fits: "length (angle_payload n) \<le> 4194304" using n(2) angle_lengths(1) by simp
  obtain q1 where put: "Put None (angle_payload n) q = (Inr ?r, q1)" "healthy (q_fs q1)"
    using Put_healthy[OF inv h c(1) fits angle_compact c(3) room c(4)] by blast
  note e = Put_effect[OF inv put(1)]
  then obtain f where f: "stable (q_fs q1) ?r f" "f_data f = ?p" "\<not> q_closed q1" by (auto simp: angle_compact)
  have names: "q_names q1 = [?r]" using e c(2) by simp
  have "unsafe_inode (q_fs q1) f 5242880" using f(2) len n(1) by (simp add: unsafe_inode_def)
  then have "Next None q1 = (Inl (Failure ''unsafe or oversized spool file''), q1)"
    using Next_head_oversized[OF names f(3) put(2)] f(1) by (simp add: stable_def)
  with put names show ?thesis by blast
qed

theorem accepted_record_can_be_unreadable_witness:
  "\<exists>rid q1 e. Put None (angle_payload 900000) sample_disk = (Inr rid, q1) \<and> q_names q1 = [rid] \<and> Next None q1 = (Inl e, q1)"
  by (rule accepted_record_can_be_unreadable[OF sample_open_inv sample_healthy(1,2,3,3,3)])
    (simp_all add: sample_disk_def charge_def)

end
