(* ===== verification/LogQueue.thy ===== *)
theory LogQueue
  imports DiskFacts
begin

text \<open>
  The logs spool (\<^verbatim>\<open>src/internal/queue/logs_disk_linux.go\<close>). A record is admitted under the identity the reader
  of its source gives it and becomes deliverable only when it is activated, after the reader has saved
  its position. The record \<open>log_disk\<close> is the Go struct \<^verbatim>\<open>LogDisk\<close> with the directory it owns as \<open>l_fs\<close>; the map
  \<^verbatim>\<open>admissions\<close> is an association list.
\<close>

section \<open>Data\<close>

record log_manifest =
  lm_version :: int
  lm_scope :: bytes
  lm_next :: u64

record log_record =
  lr_version :: int
  lr_admission :: bytes
  lr_ready :: bool
  lr_hash :: bytes
  lr_payload :: bytes

record log_disk =
  l_lock :: bool
  l_manifest :: log_manifest
  l_names :: "bytes list"
  l_admissions :: "(bytes \<times> bytes) list"
  l_bytes :: int
  l_count :: int
  l_maxItems :: int
  l_maxBytes :: int
  l_closed :: bool
  l_wake :: bool
  l_corrupt :: u64
  l_fs :: fs

definition lrec_name :: "u64 \<Rightarrow> bytes" where
  "lrec_name n = pad 20 (unat n) @ ''.lrec''"

text \<open>A lookup in the Go map \<^verbatim>\<open>admissions\<close>: the empty string where the key is missing.\<close>

definition admitted_name :: "log_disk \<Rightarrow> bytes \<Rightarrow> bytes" where
  "admitted_name q a = (case map_of (l_admissions q) a of None \<Rightarrow> [] | Some n \<Rightarrow> n)"

definition zero_log_manifest :: log_manifest where
  "zero_log_manifest = \<lparr>lm_version = 0, lm_scope = [], lm_next = 0\<rparr>"

definition json_log_manifest :: "log_manifest \<Rightarrow> json" where
  "json_log_manifest m = JObj
     [(''version'', JNum (dec_int (lm_version m))), (''scope'', JStr (quote_body (lm_scope m))),
      (''next'', JNum (dec (unat (lm_next m))))]"

definition marshal_log_manifest :: "log_manifest \<Rightarrow> bytes" where
  "marshal_log_manifest m = pr (json_log_manifest m)"

definition set_log_manifest :: "bytes \<Rightarrow> bytes \<Rightarrow> log_manifest \<Rightarrow> log_manifest option" where
  "set_log_manifest f v m =
     (if f = ''version'' then map_option (\<lambda>x. m\<lparr>lm_version := x\<rparr>) (get_int v (lm_version m))
      else if f = ''scope'' then map_option (\<lambda>x. m\<lparr>lm_scope := x\<rparr>) (get_string v (lm_scope m))
      else map_option (\<lambda>x. m\<lparr>lm_next := x\<rparr>) (get_u64 v (lm_next m)))"

definition unmarshal_log_manifest :: "bytes \<Rightarrow> log_manifest option" where
  "unmarshal_log_manifest b =
     (case json_fields b of
        None \<Rightarrow> None
      | Some kvs \<Rightarrow> set_fields [''version'', ''scope'', ''next''] set_log_manifest kvs zero_log_manifest)"

text \<open>The payload is a \<^verbatim>\<open>RawMessage\<close>: \<^verbatim>\<open>json.Marshal\<close> compacts it, and a failure leaves no bytes.\<close>

definition marshal_log_record :: "log_record \<Rightarrow> bytes" where
  "marshal_log_record r =
     (case compact (lr_payload r) of
        None \<Rightarrow> []
      | Some p \<Rightarrow> CHR ''{'' # QUOTE # ''version'' @ [QUOTE, CHR '':''] @ dec_int (lr_version r)
          @ [CHR '','', QUOTE] @ ''admission_id'' @ [QUOTE, CHR '':'', QUOTE] @ quote_body (lr_admission r)
          @ [QUOTE, CHR '','', QUOTE] @ ''ready'' @ [QUOTE, CHR '':''] @ (if lr_ready r then ''true'' else ''false'')
          @ [CHR '','', QUOTE] @ ''hash'' @ [QUOTE, CHR '':'', QUOTE] @ quote_body (lr_hash r)
          @ [QUOTE, CHR '','', QUOTE] @ ''payload'' @ [QUOTE, CHR '':''] @ p @ [CHR ''}''])"

definition log_fields :: "bytes list" where
  "log_fields = [''version'', ''admission_id'', ''ready'', ''hash'', ''payload'']"

definition set_log_record :: "bytes \<Rightarrow> bytes \<Rightarrow> log_record \<Rightarrow> log_record option" where
  "set_log_record f v r =
     (if f = ''version'' then map_option (\<lambda>x. r\<lparr>lr_version := x\<rparr>) (get_int v (lr_version r))
      else if f = ''admission_id'' then map_option (\<lambda>x. r\<lparr>lr_admission := x\<rparr>) (get_string v (lr_admission r))
      else if f = ''ready'' then map_option (\<lambda>x. r\<lparr>lr_ready := x\<rparr>) (get_bool v (lr_ready r))
      else if f = ''hash'' then map_option (\<lambda>x. r\<lparr>lr_hash := x\<rparr>) (get_string v (lr_hash r))
      else Some (r\<lparr>lr_payload := v\<rparr>))"

definition zero_log_record :: log_record where
  "zero_log_record = \<lparr>lr_version = 0, lr_admission = [], lr_ready = False, lr_hash = [], lr_payload = []\<rparr>"

definition unmarshal_log_record :: "bytes \<Rightarrow> log_record option" where
  "unmarshal_log_record b =
     (case json_fields b of None \<Rightarrow> None | Some kvs \<Rightarrow> set_fields log_fields set_log_record kvs zero_log_record)"

definition validAdmission :: "bytes \<Rightarrow> bool" where
  "validAdmission v \<longleftrightarrow> length v = 64 \<and> DecodeString v \<noteq> None"

definition decodeLogRecord :: "bytes \<Rightarrow> log_record result" where
  "decodeLogRecord b =
     (case unmarshal_log_record b of
        None \<Rightarrow> Inl (Failure ''corrupt logs record'')
      | Some r \<Rightarrow>
          if lr_version r \<noteq> 1 \<or> \<not> validAdmission (lr_admission r) \<or> \<not> json_Valid (lr_payload r)
          then Inl (Failure ''corrupt logs record'')
          else if Sum256_hex (lr_payload r) \<noteq> lr_hash r then Inl (Failure ''logs record checksum mismatch'')
          else Inr r)"

section \<open>Files of the spool\<close>

definition on_log_fs :: "'a io \<Rightarrow> log_disk \<Rightarrow> 'a result \<times> log_disk" where
  "on_log_fs m q = (case m (l_fs q) of (r, s) \<Rightarrow> (r, q\<lparr>l_fs := s\<rparr>))"

definition readPrivateFile :: "bytes \<Rightarrow> nat \<Rightarrow> bytes io" where
  "readPrivateFile name limit =
     andThen (lstat name) (\<lambda>f s.
       if unsafe_inode s f limit then raise (Failure ''unsafe logs spool file'') s
       else andThen (open_read name) (\<lambda>_. read_all name limit) s)"

definition log_read :: "bytes \<Rightarrow> bytes io" where
  "log_read name = readPrivateFile name 5242880"

definition log_syncDir :: "unit io" where
  "log_syncDir = andThen open_dir (\<lambda>_. fsync_dir)"

text \<open>Filling a staged file, renaming it over the target and syncing the directory; a failure leaves the stage.\<close>

definition publish :: "bytes \<Rightarrow> bytes \<Rightarrow> bytes \<Rightarrow> unit io" where
  "publish stage name b =
     andThen (fill stage b) (\<lambda>_. andThen (rename stage name) (\<lambda>_. log_syncDir))"

definition log_write :: "bytes \<Rightarrow> bytes \<Rightarrow> unit io" where
  "log_write name b = andThen (create_excl ''.pending'') (\<lambda>_. publish ''.pending'' name b)"

definition writeReplacement :: "bytes \<Rightarrow> bytes \<Rightarrow> unit io" where
  "writeReplacement name b = andThen (create_excl ''.replace.pending'') (\<lambda>_. publish ''.replace.pending'' name b)"

definition log_saveManifest :: "log_manifest \<Rightarrow> unit io" where
  "log_saveManifest m =
     andThen (create_trunc ''.manifest.pending'') (\<lambda>_.
       publish ''.manifest.pending'' ''manifest.json'' (marshal_log_manifest m))"

definition log_quarantine :: "bytes \<Rightarrow> log_disk \<Rightarrow> unit result \<times> log_disk" where
  "log_quarantine name q =
     (case on_log_fs (rename name (TrimSuffix name ''.lrec'' @ ''.bad'')) q of
        (Inl e, q1) \<Rightarrow> (Inl e, q1)
      | (Inr _, q1) \<Rightarrow> on_log_fs log_syncDir (q1\<lparr>l_corrupt := l_corrupt q1 + 1\<rparr>))"

section \<open>Operations\<close>

text \<open>The answer is the receipt and whether the admission was there already.\<close>

definition PutAdmission :: "error option \<Rightarrow> bytes \<Rightarrow> bytes \<Rightarrow> log_disk \<Rightarrow> (bytes \<times> bool) result \<times> log_disk" where
  "PutAdmission ctx admissionID payload q =
     (case ctx of Some e \<Rightarrow> (Inl e, q) | None \<Rightarrow>
      if l_closed q then (Inl (Failure ''logs spool closed''), q)
      else if \<not> validAdmission admissionID \<or> 4194304 < length payload \<or> \<not> json_Valid payload
        then (Inl (Failure ''invalid logs spool record''), q)
      else if admitted_name q admissionID \<noteq> [] then (Inr (admitted_name q admissionID, True), q)
      else (case compact payload of None \<Rightarrow> (Inl (Failure ''json''), q) | Some normalized \<Rightarrow>
        let b = marshal_log_record \<lparr>lr_version = 1, lr_admission = admissionID, lr_ready = False,
                  lr_hash = Sum256_hex normalized, lr_payload = normalized\<rparr>;
            cost = charge (int (length b))
        in if l_maxItems q \<le> l_count q \<or> l_maxBytes q < l_bytes q + cost then (Inl ErrFull, q)
           else
             let name = lrec_name (lm_next (l_manifest q));
                 q1 = q\<lparr>l_manifest := (l_manifest q)\<lparr>lm_next := lm_next (l_manifest q) + 1\<rparr>\<rparr>
             in (case on_log_fs (log_saveManifest (l_manifest q1)) q1 of
                   (Inl e, q2) \<Rightarrow> (Inl e, q2\<lparr>l_closed := True\<rparr>)
                 | (Inr _, q2) \<Rightarrow>
                     (case on_log_fs (log_write name b) q2 of
                        (Inl e, q3) \<Rightarrow> (Inl e, q3\<lparr>l_closed := True\<rparr>)
                      | (Inr _, q3) \<Rightarrow>
                          (Inr (name, False), q3\<lparr>l_admissions := l_admissions q3 @ [(admissionID, name)],
                             l_count := l_count q3 + 1, l_bytes := l_bytes q3 + cost\<rparr>)))))"

text \<open>\<open>Activate\<close> does not ask whether the queue is closed.\<close>

definition Activate :: "error option \<Rightarrow> bytes \<Rightarrow> log_disk \<Rightarrow> unit result \<times> log_disk" where
  "Activate ctx admissionID q =
     (case ctx of Some e \<Rightarrow> (Inl e, q) | None \<Rightarrow>
      let name = admitted_name q admissionID in
      if name = [] then (Inr (), q)
      else if name \<in> set (l_names q) then (Inr (), q)
      else (case on_log_fs (log_read name) q of
        (Inl e, q1) \<Rightarrow> (Inl e, q1)
      | (Inr b, q1) \<Rightarrow>
          (case decodeLogRecord b of
             Inl e \<Rightarrow> (Inl e, q1)
           | Inr r \<Rightarrow>
               (case on_log_fs (writeReplacement name (marshal_log_record (r\<lparr>lr_ready := True\<rparr>))) q1 of
                  (Inl e, q2) \<Rightarrow> (Inl e, q2\<lparr>l_closed := True\<rparr>)
                | (Inr _, q2) \<Rightarrow> (Inr (), q2\<lparr>l_names := sort (l_names q2 @ [name]), l_wake := True\<rparr>)))))"

fun forget_name :: "bytes \<Rightarrow> (bytes \<times> bytes) list \<Rightarrow> (bytes \<times> bytes) list" where
  "forget_name name [] = []"
| "forget_name name ((a, n) # as) = (if n = name then as else (a, n) # forget_name name as)"

definition forget_admission :: "bytes \<Rightarrow> (bytes \<times> bytes) list \<Rightarrow> (bytes \<times> bytes) list" where
  "forget_admission a as = filter (\<lambda>e. fst e \<noteq> a) as"

text \<open>As in the metrics spool, \<open>Waiting\<close> is where the call blocks until the next wake-up.\<close>

function LogNext :: "error option \<Rightarrow> log_disk \<Rightarrow> next_item result \<times> log_disk" where
  "LogNext ctx q =
     (case ctx of Some e \<Rightarrow> (Inl e, q) | None \<Rightarrow>
      if l_closed q then (Inl (Failure ''logs spool closed''), q)
      else (case l_names q of
        [] \<Rightarrow> (Inr Waiting, q\<lparr>l_wake := False\<rparr>)
      | name # rest \<Rightarrow>
          (case on_log_fs (log_read name) q of
             (Inl e, q1) \<Rightarrow> (Inl e, q1)
           | (Inr b, q1) \<Rightarrow>
               (case decodeLogRecord b of
                  Inr r \<Rightarrow> (Inr (Item name (lr_payload r)), q1)
                | Inl _ \<Rightarrow>
                    (case log_quarantine name q1 of
                       (Inl e, q2) \<Rightarrow> (Inl e, q2)
                     | (Inr _, q2) \<Rightarrow>
                         LogNext ctx (q2\<lparr>l_admissions := forget_name name (l_admissions q2), l_names := rest,
                           l_count := l_count q2 - 1, l_bytes := l_bytes q2 - charge (int (length b))\<rparr>))))))"
  by pat_completeness auto
termination
  by (relation "measure (\<lambda>(_, q). length (l_names q))") auto

declare LogNext.simps [simp del]

definition LogAck :: "error option \<Rightarrow> bytes \<Rightarrow> log_disk \<Rightarrow> unit result \<times> log_disk" where
  "LogAck ctx receipt q =
     (case ctx of Some e \<Rightarrow> (Inl e, q) | None \<Rightarrow>
      if l_closed q \<or> l_names q = [] \<or> hd (l_names q) \<noteq> receipt
      then (Inl (Failure ''logs receipt is not current FIFO head''), q)
      else (case on_log_fs (log_read receipt) q of
        (Inl e, q1) \<Rightarrow> (Inl e, q1)
      | (Inr b, q1) \<Rightarrow>
          (case decodeLogRecord b of
             Inl e \<Rightarrow> (Inl e, q1)
           | Inr r \<Rightarrow>
               (case on_log_fs (remove receipt) q1 of
                  (Inl e, q2) \<Rightarrow> (Inl e, q2)
                | (Inr _, q2) \<Rightarrow>
                    (case on_log_fs log_syncDir q2 of
                       (Inl e, q3) \<Rightarrow> (Inl e, q3\<lparr>l_closed := True\<rparr>)
                     | (Inr _, q3) \<Rightarrow>
                         (Inr (), q3\<lparr>l_admissions := forget_admission (lr_admission r) (l_admissions q3),
                            l_names := tl (l_names q3), l_count := l_count q3 - 1,
                            l_bytes := l_bytes q3 - charge (int (length b))\<rparr>))))))"

definition CloseLog :: "log_disk \<Rightarrow> unit result \<times> log_disk" where
  "CloseLog q =
     (let q1 = q\<lparr>l_closed := True, l_wake := True\<rparr> in
      if \<not> l_lock q1 then (Inr (), q1)
      else (case on_log_fs close_file q1 of (r, q2) \<Rightarrow> (r, q2\<lparr>l_lock := False, l_fs := unlock (l_fs q2)\<rparr>)))"

definition LogCorrupt :: "log_disk \<Rightarrow> u64" where
  "LogCorrupt q = l_corrupt q"

end
