(* ===== verification/JsonDepth.thy ===== *)
theory JsonDepth
  imports JsonFacts
begin

text \<open>The nesting limit of the JSON decoder: a printed value that parses is the value, within the limit.\<close>

text \<open>Allowing more nesting changes no answer.\<close>

lemma pval_deeper:
  "pval n d s = Some x \<Longrightarrow> d \<le> d' \<Longrightarrow> pval n d' s = Some x"
  "pelems n d s = Some y \<Longrightarrow> d \<le> d' \<Longrightarrow> pelems n d' s = Some y"
  "pmembers n d s = Some z \<Longrightarrow> d \<le> d' \<Longrightarrow> pmembers n d' s = Some z"
proof (induction n d s and n d s and n d s arbitrary: d' x and d' y and d' z rule: pval_pelems_pmembers.induct)
  case (2 n d s)
  obtain c r where c: "skip_ws s = c # r" using "2.prems"(1) by (auto simp: pval.simps split: list.splits)
  have e: "eat (CHR ''}'') r = None \<Longrightarrow> 0 < d \<Longrightarrow> c = CHR ''{'' \<Longrightarrow> pmembers n (d - 1) r = Some y \<Longrightarrow> pmembers n (d' - 1) r = Some y" for y
    by (rule "2.IH"(1)[OF c]) (use "2.prems"(2) in \<open>auto simp: QUOTE_def\<close>)
  have a: "eat (CHR '']'') r = None \<Longrightarrow> 0 < d \<Longrightarrow> c = CHR ''['' \<Longrightarrow> pelems n (d - 1) r = Some y \<Longrightarrow> pelems n (d' - 1) r = Some y" for y
    by (rule "2.IH"(2)[OF c]) (use "2.prems"(2) in \<open>auto simp: QUOTE_def\<close>)
  show ?case
  proof (cases "c = CHR ''{'' \<or> c = CHR ''[''")
    case False
    then have "pval (Suc n) d' s = pval (Suc n) d s"
      by (simp only: pval.simps(2) c list.case de_Morgan_disj if_False)
    with "2.prems"(1) show ?thesis by simp
  next
    case True
    have d: "0 < d" "0 < d'" using True "2.prems" c by (auto simp: pval.simps QUOTE_def split: if_splits)
    show ?thesis
    proof (cases "c = CHR ''{''")
      case True
      with "2.prems"(1) c d e show ?thesis
        by (cases "eat (CHR ''}'') r") (auto simp: pval.simps QUOTE_def)
    next
      case False
      with \<open>c = CHR ''{'' \<or> c = CHR ''[''\<close> have "c = CHR ''[''" by simp
      with "2.prems"(1) c d a show ?thesis
        by (cases "eat (CHR '']'') r") (auto simp: pval.simps QUOTE_def)
    qed
  qed
next
  case (4 n d s)
  from "4.prems"(1) obtain v r where v: "pval n d s = Some (v, r)" by (auto simp: pelems.simps bind_eq_Some_conv)
  have v': "pval n d' s = Some (v, r)" by (rule "4.IH"(1)[OF v "4.prems"(2)])
  show ?case
  proof (cases "eat (CHR '','') r")
    case None
    with "4.prems"(1) v v' show ?thesis by (simp add: pelems.simps)
  next
    case (Some r')
    with "4.prems"(1) v obtain w where w: "pelems n d r' = Some w" "y = (v # fst w, snd w)"
      by (auto simp: pelems.simps)
    have "pelems n d' r' = Some w" by (rule "4.IH"(2)[OF v refl Some w(1) "4.prems"(2)])
    with w(2) v' Some show ?thesis by (simp add: pelems.simps case_prod_beta)
  qed
next
  case (6 n d s)
  from "6.prems"(1) obtain r0 k r1 r2 v r where k: "eat QUOTE s = Some r0" "scan_str r0 = Some (k, r1)"
    "eat (CHR '':'') r1 = Some r2" and v: "pval n d r2 = Some (v, r)"
    by (auto simp: pmembers.simps bind_eq_Some_conv)
  have v': "pval n d' r2 = Some (v, r)" by (rule "6.IH"(1)[OF k(1) k(2) refl k(3) v "6.prems"(2)])
  show ?case
  proof (cases "eat (CHR '','') r")
    case None
    with "6.prems"(1) k v v' show ?thesis by (simp add: pmembers.simps)
  next
    case (Some r')
    with "6.prems"(1) k v obtain w where w: "pmembers n d r' = Some w" "z = ((k, v) # fst w, snd w)"
      by (auto simp: pmembers.simps)
    have "pmembers n d' r' = Some w" by (rule "6.IH"(2)[OF k(1) k(2) refl k(3) v refl Some w(1) "6.prems"(2)])
    with w(2) k v' Some show ?thesis by (simp add: pmembers.simps case_prod_beta)
  qed
qed (simp_all add: pval.simps pelems.simps pmembers.simps)

lemma parse_printed:
  assumes wf: "json_wf (Suc maxNestingDepth) v" and p: "json_parse (pr v) = Some x"
  shows "x = v \<and> json_wf maxNestingDepth v"
proof -
  obtain n r where r: "pval n maxNestingDepth (pr v) = Some (x, r)" using p by (auto simp: json_parse_def split: option.splits if_splits)
  from pval_deeper(1)[OF r] have d: "pval n (Suc maxNestingDepth) (pr v) = Some (x, r)" by simp
  obtain m where m: "pval m (Suc maxNestingDepth) (pr v) = Some (v, [])" using pval_pr(1)[OF wf, of "[]"] by auto
  have "x = v" using pval_fuel[OF d, of "2 * length (pr v) + 2"] pval_fuel[OF m, of "2 * length (pr v) + 2"] by simp
  with json_parse_wf[OF p] show ?thesis by simp
qed

end
