(* ===== verification/LogFacts.thy ===== *)
theory LogFacts
  imports LogQueue JsonDepth
begin

text \<open>
  What the logs spool writes and reads: its records decode to what was written, and each of its file
  operations touches only the names it is about, whatever fails.
\<close>

section \<open>Records are read back\<close>

text \<open>The record \<open>PutAdmission\<close> writes for the identity \<open>a\<close> and the stored payload \<open>p\<close>, before or after activation.\<close>

definition log_entry :: "bytes \<Rightarrow> bool \<Rightarrow> bytes \<Rightarrow> log_record" where
  "log_entry a b p = \<lparr>lr_version = 1, lr_admission = a, lr_ready = b, lr_hash = Sum256_hex p, lr_payload = p\<rparr>"

lemma log_entry_simps [simp]:
  "lr_admission (log_entry a b p) = a" "lr_ready (log_entry a b p) = b" "lr_payload (log_entry a b p) = p"
  "log_entry a b p\<lparr>lr_ready := c\<rparr> = log_entry a c p"
  by (simp_all add: log_entry_def)

definition json_log_entry :: "bytes \<Rightarrow> bool \<Rightarrow> bytes \<Rightarrow> json \<Rightarrow> (bytes \<times> json) list" where
  "json_log_entry a b h v =
     [(''version'', JNum (dec 1)), (''admission_id'', JStr a), (''ready'', JBool b), (''hash'', JStr h), (''payload'', v)]"

lemma log_names_text:
  "list_all text_char ''version''" "list_all text_char ''admission_id''" "list_all text_char ''ready''"
  "list_all text_char ''hash''" "list_all text_char ''payload''" "list_all text_char ''scope''" "list_all text_char ''next''"
  by (simp_all add: text_char_def plain_def char_consts)

lemmas log_names_unquote = log_names_text[THEN unquote_text]
lemmas log_names_body = log_names_text[THEN text_body]

lemma validAdmission_text: "validAdmission a \<Longrightarrow> list_all text_char a"
  by (auto simp: validAdmission_def dest: DecodeString_Some_length intro: hex_text)

lemma marshal_log_entry:
  assumes "validAdmission a" "compact p = Some (pr v)"
  shows "marshal_log_record (log_entry a b p) = pr (JObj (json_log_entry a b (Sum256_hex p) v))"
  using assms(2) dec_int_of_nat[of 1]
  by (simp add: marshal_log_record_def log_entry_def json_log_entry_def quote_body_text[OF Sum256_text]
      quote_body_text[OF validAdmission_text[OF assms(1)]])

lemma json_wf_log_entry:
  "validAdmission a \<Longrightarrow> json_wf (Suc d) (JObj (json_log_entry a b (Sum256_hex p) v)) \<longleftrightarrow> json_wf d v"
  by (simp add: json_log_entry_def num_ok_dec log_names_body text_body[OF Sum256_text] text_body[OF validAdmission_text])

lemma maxNesting_Suc: "maxNestingDepth = Suc (maxNestingDepth - 1)"
  by (simp add: maxNestingDepth_def)

lemma decode_log_entry:
  assumes a: "validAdmission a" and v: "json_wf (maxNestingDepth - 1) v" "compact (pr v) = Some (pr v)"
  shows "decodeLogRecord (marshal_log_record (log_entry a b (pr v))) = Inr (log_entry a b (pr v))"
proof -
  have wf: "json_wf maxNestingDepth (JObj (json_log_entry a b (Sum256_hex (pr v)) v))"
    using json_wf_log_entry[OF a, of "maxNestingDepth - 1"] v(1) maxNesting_Suc by simp
  define B where "B = pr (JObj (json_log_entry a b (Sum256_hex (pr v)) v))"
  have f: "json_fields B = Some [(''version'', dec 1), (''admission_id'', QUOTE # a @ [QUOTE]), (''ready'', pr (JBool b)),
      (''hash'', QUOTE # Sum256_hex (pr v) @ [QUOTE]), (''payload'', pr v)]"
    using json_fields_pr[OF wf] by (simp add: B_def json_log_entry_def log_names_unquote del: pr.simps(2) pr.simps(6))
  have "unmarshal_log_record B = Some (log_entry a b (pr v))"
    using get_int_dec[of 1 0] get_string_text[OF Sum256_text] get_string_text[OF validAdmission_text[OF a]] get_bool_pr[of b]
    by (simp add: unmarshal_log_record_def f log_fields_def match_field_def set_log_record_def zero_log_record_def log_entry_def)
  then show ?thesis using marshal_log_entry[OF a v(2), of b] compact_is_Valid[OF v(2)] a
    by (simp add: decodeLogRecord_def B_def log_entry_def)
qed

text \<open>A written record that decodes at all decodes to what was written, also after activation.\<close>

lemma decode_log_only:
  assumes a: "validAdmission a" and p: "compact p = Some p" and d: "decodeLogRecord (marshal_log_record (log_entry a b p)) = Inr r"
  shows "r = log_entry a b p \<and> decodeLogRecord (marshal_log_record (log_entry a c p)) = Inr (log_entry a c p)"
proof -
  obtain v0 where v0: "json_parse p = Some v0" "p = pr (jesc v0)" using p by (auto simp: compact_def)
  let ?v = "jesc v0"
  have wf: "json_wf maxNestingDepth ?v" using json_parse_wf[OF v0(1)] by (rule json_wf_jesc)
  let ?O = "JObj (json_log_entry a b (Sum256_hex p) ?v)"
  have m: "marshal_log_record (log_entry a b p) = pr ?O" using marshal_log_entry[OF a, of p ?v b] p v0(2) by simp
  obtain x where x: "json_parse (pr ?O) = Some x" using d m
    by (auto simp: decodeLogRecord_def unmarshal_log_record_def json_fields_def simp del: pr.simps split: option.splits)
  have "json_wf (Suc maxNestingDepth) ?O" using wf json_wf_log_entry[OF a] by simp
  from parse_printed[OF this x] have "json_wf maxNestingDepth ?O" by simp
  then have "json_wf (maxNestingDepth - 1) ?v" using json_wf_log_entry[OF a, of "maxNestingDepth - 1"] maxNesting_Suc by simp
  from decode_log_entry[OF a this] d p v0(2) show ?thesis by auto
qed

lemma length_log_entry:
  assumes "validAdmission a" "compact p = Some p"
  shows "length (marshal_log_record (log_entry a True p)) + 1 = length (marshal_log_record (log_entry a False p))"
  using assms by (simp add: marshal_log_record_def log_entry_def)

lemma unmarshal_log_marshal_manifest:
  assumes "list_all text_char (lm_scope m)" "lm_version m = 1"
  shows "unmarshal_log_manifest (marshal_log_manifest m) = Some m"
proof -
  let ?kvs = "[(''version'', JNum (dec 1)), (''scope'', JStr (lm_scope m)), (''next'', JNum (dec (unat (lm_next m))))]"
  have j: "json_log_manifest m = JObj ?kvs"
    using dec_int_of_nat[of 1] by (simp add: json_log_manifest_def assms quote_body_text[OF assms(1)])
  have "json_wf maxNestingDepth (JObj ?kvs)"
    by (simp add: num_ok_dec log_names_body text_body[OF assms(1)] maxNestingDepth_def)
  define B where "B = pr (JObj ?kvs)"
  from json_fields_pr[OF \<open>json_wf maxNestingDepth (JObj ?kvs)\<close>]
  have f: "json_fields B = Some [(''version'', dec 1), (''scope'', QUOTE # lm_scope m @ [QUOTE]), (''next'', dec (unat (lm_next m)))]"
    by (simp add: B_def log_names_unquote del: pr.simps(6))
  have m: "marshal_log_manifest m = B" by (simp add: marshal_log_manifest_def j B_def del: pr.simps)
  show ?thesis
    using get_int_dec[of 1] get_string_text[OF assms(1)] get_u64_dec assms(2)
    by (simp add: unmarshal_log_manifest_def m f match_field_def set_log_manifest_def zero_log_manifest_def)
qed

section \<open>Reading and writing under faults\<close>

lemma log_syncDir_eq [simp]: "log_syncDir = syncDir"
  by (simp add: log_syncDir_def syncDir_def)

lemma frames_readPrivateFile [inv_intros]: "frames T (readPrivateFile n k)"
proof -
  have "framed T s (snd (readPrivateFile n k s))" for s
  proof -
    obtain r s1 where l: "lstat n s = (r, s1)" by fastforce
    have fr: "frames T (andThen (open_read n) (\<lambda>_. read_all n k))" by (intro inv_intros)
    have "framed T s s1" using framesD[OF frames_reads(1) l] .
    moreover have "framed T s1 (snd (andThen (open_read n) (\<lambda>_. read_all n k) s1))" using fr by (simp add: frames_def)
    ultimately show ?thesis
      using l by (auto simp: readPrivateFile_def andThen_def[of "lstat n"] raise_def split: sum.splits intro: framed_trans)
  qed
  then show ?thesis by (simp add: frames_def)
qed

lemma frames_log_read [inv_intros]: "frames T (log_read n)"
  unfolding log_read_def by (intro inv_intros)

lemma readPrivateFile_Inr:
  assumes "readPrivateFile n k s = (Inr b, s')"
  shows "\<exists>f. live s n = Some f \<and> b = f_data f \<and> \<not> unsafe_inode s f k"
proof -
  obtain f s1 where l: "lstat n s = (Inr f, s1)" using assms
    by (cases "lstat n s"; cases "fst (lstat n s)") (auto simp: readPrivateFile_def andThen_def)
  note ls = lstat_Inr[OF l]
  have ne: "unsafe_inode s1 f k = unsafe_inode s f k" using ls by (simp add: unsafe_inode_def)
  have ns: "\<not> unsafe_inode s f k" using assms l ne by (auto simp: readPrivateFile_def andThen_def split: if_splits)
  with assms l ne obtain s2 where r: "open_read n s1 = (Inr (), s2)" "read_all n k s2 = (Inr b, s')"
    by (auto simp: readPrivateFile_def andThen_Inr split: if_splits)
  have "live s2 n = Some f" using open_read_state[OF r(1)] ls by simp
  with read_all_Inr[OF r(2)] have "b = take k (f_data f)" by auto
  with ns ls show ?thesis by (auto simp: unsafe_inode_def)
qed

lemma log_read_Inr: "log_read n s = (Inr b, s') \<Longrightarrow> \<exists>f. live s n = Some f \<and> b = f_data f"
  unfolding log_read_def using readPrivateFile_Inr by blast

lemma frames_publish [inv_intros]: "stage \<in> T \<Longrightarrow> n \<in> T \<Longrightarrow> frames T (publish stage n d)"
  unfolding publish_def log_syncDir_eq by (intro inv_intros)

lemma frames_log_write [inv_intros]: "frames {''.pending'', n} (log_write n d)"
  unfolding log_write_def by (intro inv_intros) auto

lemma frames_writeReplacement [inv_intros]: "frames {''.replace.pending'', n} (writeReplacement n d)"
  unfolding writeReplacement_def by (intro inv_intros) auto

lemma frames_log_saveManifest [inv_intros]: "frames {''.manifest.pending'', ''manifest.json''} (log_saveManifest m)"
  unfolding log_saveManifest_def by (intro inv_intros) auto

text \<open>A published file is durable; where publishing fails the target has its old entry or the complete new one.\<close>

lemma publish_Inr:
  assumes p: "publish stage n d s = (Inr u, s')" and l: "live s stage = Some f" and n: "n \<noteq> stage"
  shows "stable s' n (f\<lparr>f_data := f_data f @ d, f_synced := True\<rparr>) \<and> live s' stage = None \<and> (\<forall>m. poss s' m = {live s' m})"
proof -
  from p obtain s1 s2 where f: "fill stage d s = (Inr (), s1)" "rename stage n s1 = (Inr (), s2)" "syncDir s2 = (Inr u, s')"
    by (auto simp: publish_def andThen_Inr)
  from rename_Inr[OF f(2)] fill_Inr[OF f(1) l] n
  have "live s2 n = Some (f\<lparr>f_data := f_data f @ d, f_synced := True\<rparr>)" "live s2 stage = None" by auto
  with syncDir_Inr[OF f(3)] show ?thesis by (auto simp: stable_def)
qed

lemma publish_atomic:
  assumes p: "publish stage n d s = (r, s')" and l: "live s stage = Some f" and n: "n \<noteq> stage"
  shows "live s' n \<in> {live s n, Some (f\<lparr>f_data := f_data f @ d, f_synced := True\<rparr>)}
     \<and> poss s' n \<subseteq> insert (live s n) (insert (Some (f\<lparr>f_data := f_data f @ d, f_synced := True\<rparr>)) (poss s n))"
proof -
  obtain x s1 where fl: "fill stage d s = (x, s1)" by fastforce
  have f1: "live s1 n = live s n" "poss s1 n \<subseteq> insert (live s n) (poss s n)"
    using framesD[OF frames_fill fl, of "{stage}"] n by (auto simp: framed_def)
  show ?thesis
  proof (cases x)
    case (Inl e)
    then have "s' = s1" using p fl by (simp add: publish_def andThen_def)
    with f1 show ?thesis by auto
  next
    case (Inr y)
    note l1 = fill_Inr[OF fl[unfolded Inr] l]
    obtain z s2 where re: "rename stage n s1 = (z, s2)" by fastforce
    show ?thesis
    proof (cases z)
      case (Inl e)
      then have "s' = spend s1" using p fl Inr re rename_Inl[OF re[unfolded Inl]] by (simp add: publish_def andThen_def)
      with f1 show ?thesis by auto
    next
      case z: (Inr w)
      then obtain c where sy: "syncDir s2 = (c, s')" using p fl Inr re by (simp add: publish_def andThen_def)
      have "live s2 n = Some (f\<lparr>f_data := f_data f @ d, f_synced := True\<rparr>)" "poss s2 n = insert (Some (f\<lparr>f_data := f_data f @ d, f_synced := True\<rparr>)) (poss s1 n)"
        using rename_Inr[OF re[unfolded z]] n l1 by auto
      with framesD[OF frames_syncDir sy, of "{}"] f1 show ?thesis by (auto simp: framed_def)
    qed
  qed
qed

lemma log_write_Inr:
  "log_write n d s = (Inr u, s') \<Longrightarrow> n \<noteq> ''.pending'' \<Longrightarrow> stable s' n (new_file s d)"
  by (auto simp: log_write_def andThen_Inr new_file_def fresh_file_def dest!: create_excl_Inr publish_Inr)

lemma writeReplacement_Inr:
  "writeReplacement n d s = (Inr u, s') \<Longrightarrow> n \<noteq> ''.replace.pending'' \<Longrightarrow> stable s' n (new_file s d)"
  by (auto simp: writeReplacement_def andThen_Inr new_file_def fresh_file_def dest!: create_excl_Inr publish_Inr)

lemma writeReplacement_atomic:
  assumes "writeReplacement n d s = (r, s')" "n \<noteq> ''.replace.pending''"
  shows "live s' n \<in> {live s n, Some (new_file s d)} \<and> poss s' n \<subseteq> insert (live s n) (insert (Some (new_file s d)) (poss s n))"
proof (cases "create_excl ''.replace.pending'' s")
  case (Pair x s1)
  show ?thesis
  proof (cases x)
    case (Inl e)
    then have "s' = spend s" using assms(1) Pair create_excl_Inl[OF Pair[unfolded Inl]] by (simp add: writeReplacement_def andThen_def)
    then show ?thesis by auto
  next
    case (Inr y)
    note c = create_excl_Inr[OF Pair[unfolded Inr]]
    have p: "publish ''.replace.pending'' n d s1 = (r, s')" using assms(1) Pair Inr by (simp add: writeReplacement_def andThen_def)
    have "live s1 ''.replace.pending'' = Some (fresh_file s)" using c by (simp add: fresh_file_def)
    from publish_atomic[OF p this assms(2)] c assms(2) show ?thesis by (simp add: new_file_def fresh_file_def)
  qed
qed

end
