(* ===== verification/LogInv.thy ===== *)
theory LogInv
  imports LogFacts DiskInv
begin

text \<open>
  The invariant of an open logs spool and the effect of each of its operations on it, under every script
  of faults.
\<close>

section \<open>Names\<close>

lemma unat_u64_10: "unat (k :: u64) < 10 ^ 20"
proof -
  have "unat k < 2 ^ 64" using unsigned_less[of k] by simp
  then show ?thesis by simp
qed

lemma lrec_name_length: "length (lrec_name k) = 25"
  using unat_u64_10[of k] by (simp add: lrec_name_def length_pad)

lemma lrec_name_inj: "lrec_name a = lrec_name b \<longleftrightarrow> a = b"
  by (auto simp: lrec_name_def word_unat_eq_iff dest: pad_inj)

definition is_lrec :: "u64 \<Rightarrow> bytes \<Rightarrow> bool" where
  "is_lrec next n \<longleftrightarrow> (\<exists>k. n = lrec_name k \<and> 0 < k \<and> k < next)"

lemma is_lrec_length: "is_lrec nx n \<Longrightarrow> length n = 25"
  by (auto simp: is_lrec_def lrec_name_length)

lemma is_lrec_mono: "is_lrec a n \<Longrightarrow> a \<le> b \<Longrightarrow> is_lrec b n"
  by (auto simp: is_lrec_def intro: order_less_le_trans)

lemma is_lrec_fresh: "\<not> is_lrec k (lrec_name k)"
  by (auto simp: is_lrec_def lrec_name_inj)

definition log_bad_name :: "u64 \<Rightarrow> bytes" where
  "log_bad_name k = pad 20 (unat k) @ ''.bad''"

lemma log_quarantine_target: "TrimSuffix (lrec_name k) ''.lrec'' @ ''.bad'' = log_bad_name k"
  by (simp add: lrec_name_def log_bad_name_def)

lemma log_bad_name_length: "length (log_bad_name k) = 24"
  using unat_u64_10[of k] by (simp add: log_bad_name_def length_pad)

section \<open>What is kept\<close>

definition log_content :: "log_disk \<Rightarrow> bytes \<Rightarrow> bytes option" where
  "log_content q n =
     (case live (l_fs q) n of None \<Rightarrow> None
      | Some f \<Rightarrow> (case decodeLogRecord (f_data f) of Inl _ \<Rightarrow> None | Inr r \<Rightarrow> Some (lr_payload r)))"

text \<open>A synced file with the record of identity \<open>a\<close> and payload \<open>p\<close>, activated or not.\<close>

definition entry_file :: "bytes \<Rightarrow> bytes \<Rightarrow> inode \<Rightarrow> bool" where
  "entry_file a p f \<longleftrightarrow> f_synced f \<and> validAdmission a \<and> compact p = Some p \<and>
     (\<exists>b. f_data f = marshal_log_record (log_entry a b p)) \<and> is_ok (decodeLogRecord (f_data f))"

lemma entry_file_decode: "entry_file a p f \<Longrightarrow> \<exists>b. f_data f = marshal_log_record (log_entry a b p) \<and> decodeLogRecord (f_data f) = Inr (log_entry a b p)"
  by (auto simp: entry_file_def is_ok_iff dest: decode_log_only)

text \<open>The entry for \<open>n\<close> has this record now and after any crash.\<close>

definition kept :: "fs \<Rightarrow> bytes \<Rightarrow> bytes \<Rightarrow> bytes \<Rightarrow> bool" where
  "kept s a p n \<longleftrightarrow> (\<forall>v \<in> insert (live s n) (poss s n). \<exists>f. v = Some f \<and> entry_file a p f)"

definition junk :: "fs \<Rightarrow> bytes \<Rightarrow> bool" where
  "junk s n \<longleftrightarrow> (\<exists>f. stable s n f \<and> \<not> is_ok (decodeLogRecord (f_data f)))"

definition sound :: "fs \<Rightarrow> bytes \<Rightarrow> bytes \<Rightarrow> bool" where
  "sound s a n \<longleftrightarrow> live s n = None \<or> junk s n \<or> (\<exists>p. kept s a p n)"

lemma kept_framed: "kept s a p n \<Longrightarrow> framed T s s' \<Longrightarrow> n \<notin> T \<Longrightarrow> kept s' a p n"
  by (auto simp: kept_def framed_def)

lemma sound_framed: "sound s a n \<Longrightarrow> framed T s s' \<Longrightarrow> n \<notin> T \<Longrightarrow> sound s' a n"
  unfolding sound_def junk_def using kept_framed[of s a _ n T s'] stable_framed[of s n _ T s'] live_framed[of T s s' n] by metis

definition log_cost :: "fs \<Rightarrow> bytes \<Rightarrow> int" where
  "log_cost s n = (case live s n of None \<Rightarrow> 0 | Some f \<Rightarrow> charge (int (length (f_data f))))"

lemma log_cost_nonneg: "0 \<le> log_cost s n"
  by (simp add: log_cost_def charge_nonneg split: option.splits)

lemma log_cost_framed: "framed T s s' \<Longrightarrow> n \<notin> T \<Longrightarrow> log_cost s' n = log_cost s n"
  by (simp add: log_cost_def live_framed)

section \<open>The invariant\<close>

text \<open>
  \<open>log_ok s nx ns as c mi b mb\<close>: over the directory \<open>s\<close> with next sequence number \<open>nx\<close>, the deliverable
  receipts \<open>ns\<close> ascend, the admissions \<open>as\<close> pair distinct identities with distinct receipts below \<open>nx\<close> whose
  files are sound, and the counters cover them within the limits.
\<close>

definition log_ok :: "fs \<Rightarrow> u64 \<Rightarrow> bytes list \<Rightarrow> (bytes \<times> bytes) list \<Rightarrow> int \<Rightarrow> int \<Rightarrow> int \<Rightarrow> int \<Rightarrow> bool" where
  "log_ok s nx ns as c mi b mb \<longleftrightarrow>
     sorted_wrt (<) ns \<and> set ns \<subseteq> snd ` set as \<and> distinct (map fst as) \<and> distinct (map snd as)
   \<and> (\<forall>(a, n) \<in> set as. is_lrec nx n \<and> sound s a n) \<and> 0 < nx
   \<and> c = int (length as) \<and> c \<le> mi
   \<and> base_cost mi + sum_list (map (\<lambda>(a, n). log_cost s n) as) \<le> b \<and> b \<le> mb"

definition log_inv :: "log_disk \<Rightarrow> bool" where
  "log_inv q \<longleftrightarrow> log_ok (l_fs q) (lm_next (l_manifest q)) (l_names q) (l_admissions q) (l_count q) (l_maxItems q) (l_bytes q) (l_maxBytes q)"

lemma log_costs_framed:
  "framed T s s' \<Longrightarrow> \<forall>n \<in> snd ` set as. n \<notin> T \<Longrightarrow>
   map (\<lambda>(a, n). log_cost s' n) as = map (\<lambda>(a, n). log_cost s n) as"
  using log_cost_framed[of T s s'] by (intro map_cong) auto

lemma log_ok_frame:
  assumes ok: "log_ok s nx ns as c mi b mb" and fr: "framed T s s'" and dis: "\<forall>n \<in> snd ` set as. n \<notin> T" and nx: "nx \<le> nx'"
  shows "log_ok s' nx' ns as c mi b mb"
proof -
  have "is_lrec nx' n \<and> sound s' a n" if "(a, n) \<in> set as" for a n
    using that ok dis nx sound_framed[OF _ fr, of a n] is_lrec_mono[of nx n nx'] unfolding log_ok_def by force
  moreover have "0 < nx'" using ok nx unfolding log_ok_def by (auto intro: order_less_le_trans)
  ultimately show ?thesis using ok unfolding log_ok_def log_costs_framed[OF fr dis] by auto
qed

lemma log_ok_add:
  assumes ok: "log_ok s nx ns as c mi b mb" and nx: "nx < nx'" and a: "a \<notin> fst ` set as"
    and s: "sound s a (lrec_name nx)" and lim: "c < mi" "b + log_cost s (lrec_name nx) \<le> mb"
  shows "log_ok s nx' ns (as @ [(a, lrec_name nx)]) (c + 1) mi (b + log_cost s (lrec_name nx)) mb"
proof -
  have old: "is_lrec nx' n \<and> sound s a n" if "(a, n) \<in> set as" for a n
    using that ok is_lrec_mono[OF _ order_less_imp_le[OF nx]] unfolding log_ok_def by force
  have "lrec_name nx \<notin> snd ` set as" using ok is_lrec_fresh[of nx] unfolding log_ok_def by force
  moreover have "is_lrec nx' (lrec_name nx)" using ok nx unfolding log_ok_def is_lrec_def by blast
  ultimately show ?thesis using assms old unfolding log_ok_def by auto
qed

text \<open>The admission of \<open>n\<close> is dropped; its file may have changed.\<close>

definition without :: "bytes \<Rightarrow> (bytes \<times> bytes) list \<Rightarrow> (bytes \<times> bytes) list" where
  "without n as = filter (\<lambda>e. snd e \<noteq> n) as"

lemma without_split:
  "distinct (map snd as) \<Longrightarrow> (a, n) \<in> set as \<Longrightarrow> \<exists>xs ys. as = xs @ (a, n) # ys \<and> without n as = xs @ ys"
proof (induction as)
  case (Cons e as)
  show ?case
  proof (cases "e = (a, n)")
    case True
    with Cons.prems have "n \<notin> snd ` set as" by auto
    then have "without n as = as" unfolding without_def filter_id_conv by (metis image_eqI)
    with True have "e # as = [] @ (a, n) # as \<and> without n (e # as) = [] @ as" by (simp add: without_def)
    then show ?thesis by blast
  next
    case False
    with Cons.prems have m: "(a, n) \<in> set as" by auto
    then have "n \<in> snd ` set as" by force
    with Cons.prems have "snd e \<noteq> n" by auto
    note m
    with Cons.IH Cons.prems m obtain xs ys where "as = xs @ (a, n) # ys" "without n as = xs @ ys" by auto
    then have "e # as = (e # xs) @ (a, n) # ys \<and> without n (e # as) = (e # xs) @ ys"
      using \<open>snd e \<noteq> n\<close> by (simp add: without_def)
    then show ?thesis by blast
  qed
qed simp

lemma forget_name_without: "distinct (map snd as) \<Longrightarrow> forget_name n as = without n as"
proof (induction n as rule: forget_name.induct)
  case (2 name a n as)
  have "n \<notin> snd ` set as" using "2.prems" by auto
  then have "without n as = as" unfolding without_def filter_id_conv by (metis image_eqI)
  with 2 show ?case by (cases "n = name") (simp_all add: without_def)
qed (simp add: without_def)

lemma forget_admission_without:
  assumes "distinct (map fst as)" "distinct (map snd as)" "(a, n) \<in> set as"
  shows "forget_admission a as = without n as"
proof -
  have "fst e = a \<longleftrightarrow> snd e = n" if "e \<in> set as" for e
    using assms that by (metis distinct_map inj_onD fst_conv snd_conv)
  then show ?thesis unfolding forget_admission_def without_def by (intro filter_cong) auto
qed

lemma log_ok_drop:
  assumes ok: "log_ok s nx ns as c mi b mb" and fr: "framed T s s'"
    and dis: "\<forall>m \<in> snd ` set as. m \<noteq> n \<longrightarrow> m \<notin> T" and n: "ns = n # rest" and cost: "cost = log_cost s n"
  shows "log_ok s' nx rest (without n as) (c - 1) mi (b - cost) mb"
proof -
  have "n \<in> snd ` set as" using ok n unfolding log_ok_def by auto
  then obtain a where a: "(a, n) \<in> set as" by auto
  then obtain xs ys where sp: "as = xs @ (a, n) # ys" "without n as = xs @ ys"
    using without_split ok unfolding log_ok_def by blast
  have nn: "n \<notin> snd ` set (xs @ ys)" using ok sp(1) unfolding log_ok_def by auto
  have rest: "set rest \<subseteq> snd ` set (xs @ ys)" using ok n sp(1) unfolding log_ok_def by auto
  have 1: "log_ok s nx rest (xs @ ys) (c - 1) mi (b - cost) mb"
    using ok n sp(1) rest cost log_cost_nonneg[of s n] unfolding log_ok_def by auto
  have "\<forall>m \<in> snd ` set (xs @ ys). m \<notin> T" using dis nn sp(1) by auto
  from log_ok_frame[OF 1 fr this] show ?thesis unfolding sp(2) by simp
qed

lemma log_ok_replace:
  assumes ok: "log_ok s nx ns as c mi b mb" and fr: "framed T s s'" and dis: "\<forall>m \<in> snd ` set as. m \<noteq> n \<longrightarrow> m \<notin> T"
    and a: "(a, n) \<in> set as" and new: "sound s' a n" "log_cost s' n \<le> log_cost s n"
    and names: "sorted_wrt (<) ns'" "set ns' \<subseteq> snd ` set as"
  shows "log_ok s' nx ns' as c mi b mb"
proof -
  have d: "distinct (map snd as)" "distinct (map fst as)" using ok by (simp_all add: log_ok_def)
  from without_split[OF d(1) a] obtain xs ys where sp: "as = xs @ (a, n) # ys" by blast
  have dis': "\<forall>m \<in> snd ` set (xs @ ys). m \<notin> T" using dis d(1) sp by auto
  note cs = log_costs_framed[OF fr dis']
  have so: "sound s' a' n'" if "(a', n') \<in> set as" for a' n'
  proof (cases "n' = n")
    case True
    with that a d(1) have "a' = a" by (metis Pair_inject distinct_map inj_onD snd_conv)
    with True new show ?thesis by simp
  next
    case False
    with that dis have "n' \<notin> T" by force
    with that ok sound_framed[OF _ fr] show ?thesis unfolding log_ok_def by auto
  qed
  have "sum_list (map (\<lambda>(a, n). log_cost s' n) as) \<le> sum_list (map (\<lambda>(a, n). log_cost s n) as)"
  proof -
    from cs have "map (\<lambda>(a, n). log_cost s' n) xs = map (\<lambda>(a, n). log_cost s n) xs"
      "map (\<lambda>(a, n). log_cost s' n) ys = map (\<lambda>(a, n). log_cost s n) ys" by simp_all
    then show ?thesis unfolding sp map_append list.map sum_list.append using new(2) by (simp del: map_eq_conv)
  qed
  with ok so names show ?thesis unfolding log_ok_def by auto
qed

lemma stable_sound:
  assumes "stable s n f" "f_data f = marshal_log_record (log_entry a b p)" "validAdmission a" "compact p = Some p"
  shows "sound s a n"
proof (cases "is_ok (decodeLogRecord (f_data f))")
  case True
  with assms have "kept s a p n" by (auto simp: kept_def stable_def entry_file_def)
  then show ?thesis by (auto simp: sound_def)
next
  case False
  with assms show ?thesis by (auto simp: sound_def junk_def)
qed

lemma admitted_name_Some:
  assumes "log_inv q" "admitted_name q a \<noteq> []"
  shows "(a, admitted_name q a) \<in> set (l_admissions q)"
  using assms by (auto simp: admitted_name_def dest: map_of_SomeD split: option.splits)

lemma admitted_name_None:
  assumes "log_inv q"
  shows "admitted_name q a = [] \<longleftrightarrow> a \<notin> fst ` set (l_admissions q)"
proof -
  have "n \<noteq> []" if "(b, n) \<in> set (l_admissions q)" for b n
    using that assms is_lrec_length[of "lm_next (l_manifest q)" n] unfolding log_inv_def log_ok_def by force
  note ne = this
  show ?thesis
  proof (cases "map_of (l_admissions q) a")
    case None
    then have "a \<notin> fst ` set (l_admissions q)" by (simp add: map_of_eq_None_iff)
    with None show ?thesis by (simp add: admitted_name_def)
  next
    case (Some n)
    then have "(a, n) \<in> set (l_admissions q)" by (rule map_of_SomeD)
    with ne Some have "admitted_name q a \<noteq> []" "a \<in> fst ` set (l_admissions q)" by (auto simp: admitted_name_def intro: rev_image_eqI)
    then show ?thesis by simp
  qed
qed

lemma admitted_name_in:
  assumes "log_inv q" "(a, n) \<in> set (l_admissions q)"
  shows "admitted_name q a = n"
  using assms by (simp add: admitted_name_def log_inv_def log_ok_def)

lemma log_names_length: "log_inv q \<Longrightarrow> n \<in> snd ` set (l_admissions q) \<Longrightarrow> length n = 25"
  unfolding log_inv_def log_ok_def using is_lrec_length[of "lm_next (l_manifest q)"] by force

section \<open>Admission\<close>

definition untouched :: "log_disk \<Rightarrow> log_disk \<Rightarrow> bool" where
  "untouched q q' \<longleftrightarrow> (\<exists>T. framed T (l_fs q) (l_fs q') \<and> (\<forall>n \<in> snd ` set (l_admissions q). n \<notin> T))"

lemma untouched_refl [simp]: "untouched q q"
  unfolding untouched_def by (rule exI[of _ "{}"]) simp

lemma untouched_live: "untouched q q' \<Longrightarrow> n \<in> snd ` set (l_admissions q) \<Longrightarrow> live (l_fs q') n = live (l_fs q) n"
  by (auto simp: untouched_def framed_def)

lemma PutAdmission_cases:
  assumes "PutAdmission ctx a d q = (r, q')"
  obtains (refused) e where "r = Inl e" "q' = q"
  | (existed) "r = Inr (admitted_name q a, True)" "q' = q" "admitted_name q a \<noteq> []"
  | (manifest) e p s1 where "r = Inl e" "compact d = Some p" "\<not> l_closed q"
      "log_saveManifest ((l_manifest q)\<lparr>lm_next := lm_next (l_manifest q) + 1\<rparr>) (l_fs q) = (Inl e, s1)"
      "q' = q\<lparr>l_manifest := (l_manifest q)\<lparr>lm_next := lm_next (l_manifest q) + 1\<rparr>, l_fs := s1, l_closed := True\<rparr>"
  | (record_lost) e p s1 s2 where "r = Inl e" "compact d = Some p" "\<not> l_closed q"
      "log_saveManifest ((l_manifest q)\<lparr>lm_next := lm_next (l_manifest q) + 1\<rparr>) (l_fs q) = (Inr (), s1)"
      "log_write (lrec_name (lm_next (l_manifest q))) (marshal_log_record (log_entry a False p)) s1 = (Inl e, s2)"
      "q' = q\<lparr>l_manifest := (l_manifest q)\<lparr>lm_next := lm_next (l_manifest q) + 1\<rparr>, l_fs := s2, l_closed := True\<rparr>"
  | (stored) p s1 s2 where "r = Inr (lrec_name (lm_next (l_manifest q)), False)" "compact d = Some p" "\<not> l_closed q"
      "validAdmission a" "admitted_name q a = []" "l_count q < l_maxItems q"
      "l_bytes q + charge (int (length (marshal_log_record (log_entry a False p)))) \<le> l_maxBytes q"
      "log_saveManifest ((l_manifest q)\<lparr>lm_next := lm_next (l_manifest q) + 1\<rparr>) (l_fs q) = (Inr (), s1)"
      "log_write (lrec_name (lm_next (l_manifest q))) (marshal_log_record (log_entry a False p)) s1 = (Inr (), s2)"
      "q' = q\<lparr>l_manifest := (l_manifest q)\<lparr>lm_next := lm_next (l_manifest q) + 1\<rparr>, l_fs := s2,
            l_admissions := l_admissions q @ [(a, lrec_name (lm_next (l_manifest q)))], l_count := l_count q + 1,
            l_bytes := l_bytes q + charge (int (length (marshal_log_record (log_entry a False p))))\<rparr>"
proof -
  let ?m = "(l_manifest q)\<lparr>lm_next := lm_next (l_manifest q) + 1\<rparr>"
  have d: "PutAdmission ctx a d q = (r, q')" by (rule assms)
  show ?thesis
  proof (cases "ctx = None \<and> \<not> l_closed q \<and> validAdmission a \<and> length d \<le> 4194304 \<and> json_Valid d")
    case False
    then have "\<exists>e. r = Inl e \<and> q' = q" using d by (auto simp: PutAdmission_def split: option.splits if_splits)
    then show ?thesis using refused by blast
  next
    case g: True
    show ?thesis
    proof (cases "admitted_name q a = []")
      case False
      then have "r = Inr (admitted_name q a, True)" "q' = q" using g d by (auto simp: PutAdmission_def)
      with False show ?thesis by (intro existed)
    next
      case new: True
      obtain p where p: "compact d = Some p" using g compact_Valid by blast
      let ?b = "marshal_log_record (log_entry a False p)"
      show ?thesis
      proof (cases "l_count q < l_maxItems q \<and> l_bytes q + charge (int (length ?b)) \<le> l_maxBytes q")
        case False
        then have "r = Inl ErrFull \<and> q' = q" using d g new p
          by (auto simp: PutAdmission_def log_entry_def[symmetric] Let_def)
        then show ?thesis using refused by blast
      next
        case lim: True
        obtain x1 s1 where m: "log_saveManifest ?m (l_fs q) = (x1, s1)" by fastforce
        obtain x2 s2 where w: "log_write (lrec_name (lm_next (l_manifest q))) ?b s1 = (x2, s2)" by fastforce
        note ex = d[unfolded PutAdmission_def log_entry_def[symmetric]]
        show ?thesis
        proof (cases x1)
          case (Inl e)
          have "r = Inl e" "q' = q\<lparr>l_manifest := ?m, l_fs := s1, l_closed := True\<rparr>"
            using ex g new p lim m Inl by (auto simp add: Let_def on_log_fs_def)
          with m[unfolded Inl] g show ?thesis by (intro manifest[OF _ p]) simp_all
        next
          case (Inr u)
          show ?thesis
          proof (cases x2)
            case (Inl e)
            have "r = Inl e" "q' = q\<lparr>l_manifest := ?m, l_fs := s2, l_closed := True\<rparr>"
              using ex g new p lim m Inr w Inl by (auto simp add: Let_def on_log_fs_def)
            with m[unfolded Inr] w[unfolded Inl] g show ?thesis by (intro record_lost[OF _ p]) simp_all
          next
            case v: (Inr v)
            have "r = Inr (lrec_name (lm_next (l_manifest q)), False)"
              "q' = q\<lparr>l_manifest := ?m, l_fs := s2,
                  l_admissions := l_admissions q @ [(a, lrec_name (lm_next (l_manifest q)))], l_count := l_count q + 1,
                  l_bytes := l_bytes q + charge (int (length ?b))\<rparr>"
              using ex g new p lim m Inr w v by (auto simp add: Let_def on_log_fs_def)
            with m[unfolded Inr] w[unfolded v] g new lim show ?thesis by (intro stored[OF _ p]) simp_all
          qed
        qed
      qed
    qed
  qed
qed

lemma PutAdmission_effect:
  assumes inv: "log_inv q" and fits: "lm_next (l_manifest q) \<noteq> - 1" and put: "PutAdmission ctx a d q = (r, q')"
  shows "log_inv q' \<and> l_names q' = l_names q \<and> untouched q q' \<and>
    (case r of
       Inl e \<Rightarrow> l_admissions q' = l_admissions q
     | Inr (n, existed) \<Rightarrow>
         if existed then (a, n) \<in> set (l_admissions q) \<and> q' = q
         else a \<notin> fst ` set (l_admissions q) \<and> n \<notin> snd ` set (l_admissions q) \<and> l_admissions q' = l_admissions q @ [(a, n)]
            \<and> validAdmission a \<and> (\<exists>p f. compact d = Some p \<and> stable (l_fs q') n f \<and> f_data f = marshal_log_record (log_entry a False p)))"
proof -
  let ?nx = "lm_next (l_manifest q)"
  let ?m = "(l_manifest q)\<lparr>lm_next := ?nx + 1\<rparr>"
  let ?T = "{''.manifest.pending'', ''manifest.json'', ''.pending'', lrec_name ?nx}"
  have nx: "?nx < ?nx + 1" using fits by (rule next_succ)
  note ok = inv[unfolded log_inv_def]
  have fresh: "lrec_name ?nx \<notin> snd ` set (l_admissions q)"
    using ok is_lrec_fresh[of ?nx] unfolding log_ok_def by force
  have dis: "\<forall>n \<in> snd ` set (l_admissions q). n \<notin> ?T"
  proof
    fix n assume n: "n \<in> snd ` set (l_admissions q)"
    from n fresh have "n \<noteq> lrec_name ?nx" by blast
    with log_names_length[OF inv n] show "n \<notin> ?T" by auto
  qed
  have fm: "framed ?T (l_fs q) s1" if "log_saveManifest ?m (l_fs q) = (x, s1)" for x s1
    using framesD[OF frames_log_saveManifest that] by (rule framed_mono) auto
  have fw: "framed ?T s1 s2" if "log_write (lrec_name ?nx) b s1 = (x, s2)" for b x s1 s2
    using framesD[OF frames_log_write that] by (rule framed_mono) auto
  from put show ?thesis
  proof (cases rule: PutAdmission_cases)
    case (refused e)
    then show ?thesis using inv by simp
  next
    case existed
    then show ?thesis using inv admitted_name_Some[OF inv] by simp
  next
    case (manifest e p s1)
    have "log_inv q'" unfolding log_inv_def manifest(5)
      using log_ok_frame[OF ok fm[OF manifest(4)] dis, of "?nx + 1"] nx by simp
    moreover have "untouched q q'" unfolding untouched_def manifest(5) using fm[OF manifest(4)] dis by (intro exI[of _ ?T]) simp
    ultimately show ?thesis using manifest by simp
  next
    case (record_lost e p s1 s2)
    note fr = framed_trans[OF fm[OF record_lost(4)] fw[OF record_lost(5)]]
    have "log_inv q'" unfolding log_inv_def record_lost(6)
      using log_ok_frame[OF ok fr dis, of "?nx + 1"] nx by simp
    moreover have "untouched q q'" unfolding untouched_def record_lost(6) using fr dis by (intro exI[of _ ?T]) simp
    ultimately show ?thesis using record_lost by simp
  next
    case (stored p s1 s2)
    let ?b = "marshal_log_record (log_entry a False p)"
    note fr = framed_trans[OF fm[OF stored(8)] fw[OF stored(9)]]
    have st: "stable s2 (lrec_name ?nx) (new_file s1 ?b)"
      using log_write_Inr[OF stored(9)] lrec_name_length[of ?nx] by force
    have so: "sound s2 a (lrec_name ?nx)"
      by (rule stable_sound[OF st _ stored(4) compact_stable[OF stored(2)]]) (simp add: new_file_def)
    have cost: "log_cost s2 (lrec_name ?nx) = charge (int (length ?b))"
      using st by (simp add: log_cost_def stable_def new_file_def)
    have ok2: "log_ok s2 ?nx (l_names q) (l_admissions q) (l_count q) (l_maxItems q) (l_bytes q) (l_maxBytes q)"
      by (rule log_ok_frame[OF ok fr dis]) simp
    have anew: "a \<notin> fst ` set (l_admissions q)" using admitted_name_None[OF inv] stored(5) by simp
    from log_ok_add[OF ok2 nx anew so stored(6)] stored(7) cost have "log_inv q'"
      unfolding log_inv_def stored(10) by simp
    moreover have "untouched q q'" unfolding untouched_def stored(10) using fr dis by (intro exI[of _ ?T]) simp
    ultimately show ?thesis using stored anew fresh st by (auto simp: new_file_def)
  qed
qed

section \<open>Activation\<close>

lemma kept_content: "kept (l_fs q) a p n \<Longrightarrow> log_content q n = Some p"
  by (auto simp: kept_def log_content_def dest!: entry_file_decode)

lemma kept_replace:
  assumes "kept s a p n" "live s' n \<in> {live s n, Some g} \<and> poss s' n \<subseteq> insert (live s n) (insert (Some g) (poss s n))"
    "entry_file a p g"
  shows "kept s' a p n"
  using assms unfolding kept_def by blast

lemma entry_file_new:
  assumes "entry_file a p f"
  shows "entry_file a p (new_file s (marshal_log_record (log_entry a c p)))"
proof -
  obtain b where b: "decodeLogRecord (marshal_log_record (log_entry a b p)) = Inr (log_entry a b p)"
    using entry_file_decode[OF assms] by auto
  have v: "validAdmission a" "compact p = Some p" using assms by (simp_all add: entry_file_def)
  from decode_log_only[OF v b, of c] v show ?thesis by (auto simp: entry_file_def new_file_def)
qed

lemma charge_mono: "m \<le> n \<Longrightarrow> charge m \<le> charge n"
  by (simp add: charge_def zdiv_mono1)

lemma read_kept:
  assumes ok: "sound s a n" and l: "live s n = Some f" and d: "decodeLogRecord (f_data f) = Inr r"
  shows "\<exists>b p. kept s a p n \<and> entry_file a p f \<and> r = log_entry a b p \<and> f_data f = marshal_log_record (log_entry a b p)"
proof -
  have "\<not> junk s n" using l d by (auto simp: junk_def stable_def)
  with ok l obtain p where k: "kept s a p n" by (auto simp: sound_def)
  with l have e: "entry_file a p f" by (auto simp: kept_def)
  with entry_file_decode[OF e] d k show ?thesis by auto
qed

lemma replaced_cost:
  assumes e: "entry_file a p f" and l: "live s n = Some f"
    and l': "live s' n \<in> {live s n, Some (new_file t (marshal_log_record (log_entry a True p)))}"
  shows "log_cost s' n \<le> log_cost s n"
proof -
  from e obtain b where b: "f_data f = marshal_log_record (log_entry a b p)" "validAdmission a" "compact p = Some p"
    by (auto simp: entry_file_def)
  have "length (marshal_log_record (log_entry a True p)) \<le> length (f_data f)"
    using b length_log_entry[OF b(2,3)] by (cases b) auto
  then show ?thesis using l l' charge_mono by (auto simp: log_cost_def new_file_def)
qed

lemma log_content_fs: "log_content (q\<lparr>l_fs := s\<rparr>) n = log_content (q'\<lparr>l_fs := s\<rparr>) n"
  by (simp add: log_content_def)

lemma log_content_live: "live (l_fs q') n = live (l_fs q) n \<Longrightarrow> log_content q' n = log_content q n"
  by (simp add: log_content_def)

lemma log_sound: "log_inv q \<Longrightarrow> (a, n) \<in> set (l_admissions q) \<Longrightarrow> sound (l_fs q) a n"
  by (auto simp: log_inv_def log_ok_def)

lemma log_inv_same:
  assumes "log_inv q" "untouched q q'" "l_manifest q' = l_manifest q" "l_names q' = l_names q" "l_admissions q' = l_admissions q"
    "l_count q' = l_count q" "l_maxItems q' = l_maxItems q" "l_bytes q' = l_bytes q" "l_maxBytes q' = l_maxBytes q"
  shows "log_inv q'"
  using assms log_ok_frame[OF _ _ _ order_refl] unfolding log_inv_def untouched_def by metis

lemma untouched_fs: "framed {} (l_fs q) (l_fs q') \<Longrightarrow> untouched q q'"
  unfolding untouched_def by (rule exI[of _ "{}"]) simp

lemma Activate_effect:
  assumes inv: "log_inv q" and act: "Activate ctx a q = (y, q')"
  shows "log_inv q' \<and> l_admissions q' = l_admissions q
     \<and> (\<forall>n \<in> snd ` set (l_admissions q). log_content q' n = log_content q n)
     \<and> set (l_names q') = (case y of Inl _ \<Rightarrow> set (l_names q)
         | Inr _ \<Rightarrow> set (l_names q) \<union> (if ctx = None then {n. (a, n) \<in> set (l_admissions q)} else {}))
     \<and> (ctx \<noteq> None \<longrightarrow> (\<exists>e. y = Inl e))"
proof (cases "ctx = None \<and> admitted_name q a \<noteq> [] \<and> admitted_name q a \<notin> set (l_names q)")
  case False
  have same: "q' = q" "ctx \<noteq> None \<longrightarrow> (\<exists>e. y = Inl e)" using False act by (auto simp: Activate_def Let_def split: option.splits if_splits)
  have "set (l_names q) = set (l_names q) \<union> {n. (a, n) \<in> set (l_admissions q)}" if "y = Inr ()"
  proof -
    have "n \<in> set (l_names q)" if n: "(a, n) \<in> set (l_admissions q)" for n
    proof -
      have "a \<in> fst ` set (l_admissions q)" using n by force
      then have "admitted_name q a \<noteq> []" using admitted_name_None[OF inv] by blast
      moreover have "admitted_name q a = n" by (rule admitted_name_in[OF inv n])
      moreover have "ctx = None" using same(2) that \<open>y = Inr ()\<close> by auto
      ultimately show ?thesis using False by simp
    qed
    then show ?thesis by blast
  qed
  then have "set (l_names q) = (case y of Inl _ \<Rightarrow> set (l_names q)
         | Inr _ \<Rightarrow> set (l_names q) \<union> (if ctx = None then {n. (a, n) \<in> set (l_admissions q)} else {}))"
    by (cases y) simp_all
  then show ?thesis unfolding same(1) by (intro conjI ballI refl inv same(2))
next
  case True
  define n where "n = admitted_name q a"
  have an: "(a, n) \<in> set (l_admissions q)" "n \<notin> set (l_names q)"
    unfolding n_def using True by (blast intro: admitted_name_Some[OF inv])+
  have in_n: "n \<in> snd ` set (l_admissions q)" using an(1) by (rule rev_image_eqI) simp
  have only: "{m. (a, m) \<in> set (l_admissions q)} = {n}" using admitted_name_in[OF inv] an(1) n_def by blast
  obtain x s1 where rd: "log_read n (l_fs q) = (x, s1)" by fastforce
  have f1: "framed {} (l_fs q) s1" by (rule framesD[OF frames_log_read rd])
  let ?q1 = "q\<lparr>l_fs := s1\<rparr>"
  have u1: "untouched q ?q1" by (rule untouched_fs) (simp add: f1)
  have inv1: "log_inv ?q1" by (rule log_inv_same[OF inv u1]) simp_all
  have live1: "live s1 m = live (l_fs q) m" for m using f1 by (simp add: framed_def)
  have same1: ?thesis if "y = Inl e" "q' = ?q1" for e
    using that inv1 True log_content_live[of ?q1 _ q] live1 by simp
  note act' = act[unfolded Activate_def Let_def on_log_fs_def]
  show ?thesis
  proof (cases x)
    case (Inl e)
    then show ?thesis using same1[of e] act' rd True by (auto simp: n_def[symmetric])
  next
    case b: (Inr b)
    show ?thesis
    proof (cases "decodeLogRecord b")
      case (Inl e)
      then show ?thesis using same1[of e] act' rd b True by (auto simp: n_def[symmetric])
    next
      case r: (Inr r)
      obtain f where f: "live (l_fs q) n = Some f" "b = f_data f" using log_read_Inr rd b by blast
      have s1s: "sound s1 a n" using log_sound[OF inv1, of a n] an(1) by simp
      obtain c p where k: "kept s1 a p n" "entry_file a p f" "r = log_entry a c p"
        using read_kept[OF s1s] f live1 r by metis
      let ?b = "marshal_log_record (log_entry a True p)"
      obtain z s2 where w: "writeReplacement n ?b s1 = (z, s2)" by fastforce
      have n25: "length n = 25" by (rule log_names_length[OF inv in_n])
      have nr: "n \<noteq> ''.replace.pending''" using n25 by auto
      note at = writeReplacement_atomic[OF w nr]
      have k2: "kept s2 a p n" by (rule kept_replace[OF k(1) at entry_file_new[OF k(2)]])
      have fr: "framed {''.replace.pending'', n} s1 s2" by (rule framesD[OF frames_writeReplacement w])
      have lv: "live s1 n = Some f" using f live1 by simp
      have dis: "\<forall>m \<in> snd ` set (l_admissions q). m \<noteq> n \<longrightarrow> m \<notin> {''.replace.pending'', n}"
      proof (intro ballI impI)
        fix m assume m: "m \<in> snd ` set (l_admissions q)" "m \<noteq> n"
        with log_names_length[OF inv m(1)] show "m \<notin> {''.replace.pending'', n}" by auto
      qed
      have ok: "log_ok s2 (lm_next (l_manifest q)) ns (l_admissions q) (l_count q) (l_maxItems q) (l_bytes q) (l_maxBytes q)"
        if "sorted_wrt (<) ns" "set ns \<subseteq> snd ` set (l_admissions q)" for ns
        by (rule log_ok_replace[OF inv1[unfolded log_inv_def, simplified] fr dis an(1) _ replaced_cost[OF k(2) lv] that])
           (use k2 at in \<open>auto simp: sound_def\<close>)
      have srt: "sorted_wrt (<) (l_names q)" "set (l_names q) \<subseteq> snd ` set (l_admissions q)"
        using inv by (simp_all add: log_inv_def log_ok_def)
      have cont: "log_content p' m = log_content q m" if "l_fs p' = s2" "m \<in> snd ` set (l_admissions q)" for p' m
      proof (cases "m = n")
        case True
        have "kept (l_fs p') a p n" "kept (l_fs ?q1) a p n" using k2 k(1) that(1) by simp_all
        from kept_content[OF this(1)] kept_content[OF this(2)] True log_content_live[of ?q1 n q] live1 show ?thesis by simp
      next
        case False
        with dis that fr have "live s2 m = live s1 m" by (auto simp: framed_def)
        with live1 that show ?thesis by (intro log_content_live) simp
      qed
      show ?thesis
      proof (cases z)
        case (Inl e)
        then have q': "y = Inl e" "q' = q\<lparr>l_fs := s2, l_closed := True\<rparr>"
          using act' rd b r k(3) w True by (auto simp: n_def[symmetric])
        have "log_inv q'" unfolding q'(2) log_inv_def using ok[OF srt] by simp
        then show ?thesis using q' cont[of q'] True by simp
      next
        case (Inr u)
        then have q': "y = Inr ()" "q' = q\<lparr>l_fs := s2, l_names := sort (l_names q @ [n]), l_wake := True\<rparr>"
          using act' rd b r k(3) w True by (auto simp: n_def[symmetric])
        have "distinct (l_names q @ [n])" using srt(1) an(2) by (simp add: strict_sorted_iff)
        then have "sorted_wrt (<) (sort (l_names q @ [n]))" by (simp add: strict_sorted_iff)
        moreover have "set (sort (l_names q @ [n])) \<subseteq> snd ` set (l_admissions q)" using srt(2) in_n by auto
        ultimately have "log_inv q'" unfolding q'(2) log_inv_def using ok by simp
        then show ?thesis using q' cont[of q'] True only by auto
      qed
    qed
  qed
qed

section \<open>Delivery\<close>

lemma log_inv_read:
  assumes inv: "log_inv q" and rd: "log_read n (l_fs q) = (x, s1)"
  shows "log_inv (q\<lparr>l_fs := s1\<rparr>)" "live s1 = live (l_fs q)" "log_content (q\<lparr>l_fs := s1\<rparr>) = log_content q"
proof -
  have f1: "framed {} (l_fs q) s1" by (rule framesD[OF frames_log_read rd])
  have "untouched q (q\<lparr>l_fs := s1\<rparr>)" by (rule untouched_fs) (simp add: f1)
  then show "log_inv (q\<lparr>l_fs := s1\<rparr>)" by (rule log_inv_same[OF inv]) simp_all
  show l: "live s1 = live (l_fs q)" using f1 by (simp add: framed_def fun_eq_iff)
  show "log_content (q\<lparr>l_fs := s1\<rparr>) = log_content q"
    using l by (simp add: log_content_def fun_eq_iff)
qed

text \<open>The quarantine of an undecodable deliverable record: its entry is gone, the others are as they were.\<close>

lemma log_quarantine_cases:
  assumes inv: "log_inv q" and n: "n \<in> snd ` set (l_admissions q)" and und: "log_content q n = None"
    and qu: "log_quarantine n q = (x, q')"
  shows "(\<exists>s c. q' = q\<lparr>l_fs := s, l_corrupt := c\<rparr> \<and> framed {n, TrimSuffix n ''.lrec'' @ ''.bad''} (l_fs q) s
        \<and> (live s n = live (l_fs q) n \<and> framed {} (l_fs q) s \<or> live s n = None)
        \<and> (x = Inr () \<longrightarrow> live s n = None))"
    and "\<forall>m \<in> snd ` set (l_admissions q). m \<noteq> n \<longrightarrow> m \<notin> {n, TrimSuffix n ''.lrec'' @ ''.bad''}"
proof -
  obtain k where k: "n = lrec_name k" using n inv by (auto simp: log_inv_def log_ok_def is_lrec_def)
  let ?b = "TrimSuffix n ''.lrec'' @ ''.bad''"
  have b: "?b = log_bad_name k" by (simp add: k log_quarantine_target)
  have nb: "n \<noteq> ?b" using lrec_name_length[of k] log_bad_name_length[of k] by (metis b k numeral_eq_iff semiring_norm(88) verit_eq_simplify(12))
  show "\<forall>m \<in> snd ` set (l_admissions q). m \<noteq> n \<longrightarrow> m \<notin> {n, ?b}"
  proof (intro ballI impI)
    fix m assume m: "m \<in> snd ` set (l_admissions q)" "m \<noteq> n"
    from log_names_length[OF inv m(1)] log_bad_name_length[of k] have "m \<noteq> ?b" unfolding b by auto
    with m show "m \<notin> {n, ?b}" by simp
  qed
  obtain y s1 where re: "rename n ?b (l_fs q) = (y, s1)" by fastforce
  have fr: "framed {n, ?b} (l_fs q) s1" by (rule framesD[OF frames_rename re]) auto
  show "\<exists>s c. q' = q\<lparr>l_fs := s, l_corrupt := c\<rparr> \<and> framed {n, ?b} (l_fs q) s
        \<and> (live s n = live (l_fs q) n \<and> framed {} (l_fs q) s \<or> live s n = None) \<and> (x = Inr () \<longrightarrow> live s n = None)"
  proof (cases y)
    case (Inl e)
    then have "q' = q\<lparr>l_fs := s1\<rparr>" "x = Inl e" using qu re by (auto simp: log_quarantine_def on_log_fs_def)
    moreover have "q\<lparr>l_fs := s1\<rparr> = q\<lparr>l_fs := s1, l_corrupt := l_corrupt q\<rparr>" by simp
    ultimately show ?thesis using fr rename_Inl[OF re[unfolded Inl]]
      by (intro exI[of _ s1] exI[of _ "l_corrupt q"]) simp
  next
    case (Inr u)
    obtain z s2 where sy: "syncDir s1 = (z, s2)" by fastforce
    have q': "q' = q\<lparr>l_fs := s2, l_corrupt := l_corrupt q + 1\<rparr>"
      using qu re Inr sy by (auto simp: log_quarantine_def on_log_fs_def)
    have "live s2 n = None" using rename_Inr[OF re[unfolded Inr] nb] syncDir_live[OF sy] by auto
    with q' framed_trans[OF fr framesD[OF frames_syncDir sy]] show ?thesis
      by (intro exI[of _ s2] exI[of _ "l_corrupt q + 1"]) simp
  qed
qed

lemma LogNext_effect:
  "LogNext ctx q = (x, q') \<Longrightarrow> log_inv q \<Longrightarrow>
   log_inv q'
   \<and> (\<exists>dropped. l_names q = dropped @ l_names q' \<and> l_admissions q' = filter (\<lambda>e. snd e \<notin> set dropped) (l_admissions q)
        \<and> (\<forall>n \<in> set dropped. log_content q n = None))
   \<and> (\<forall>n \<in> snd ` set (l_admissions q'). log_content q' n = log_content q n)
   \<and> (case x of Inl _ \<Rightarrow> True | Inr Waiting \<Rightarrow> l_names q' = []
      | Inr (Item n d) \<Rightarrow> (\<exists>rest. l_names q' = n # rest) \<and> log_content q n = Some d)"
proof (induction ctx q arbitrary: x q' rule: LogNext.induct)
  case (1 ctx q)
  note inv = "1.prems"(2)
  have here: ?case if "log_inv q'" "l_names q' = l_names q" "l_admissions q' = l_admissions q"
      "\<forall>n \<in> snd ` set (l_admissions q). log_content q' n = log_content q n"
      "case x of Inl _ \<Rightarrow> True | Inr Waiting \<Rightarrow> l_names q' = []
      | Inr (Item n d) \<Rightarrow> (\<exists>rest. l_names q' = n # rest) \<and> log_content q n = Some d"
    using that by (intro conjI exI[of _ "[]"]) simp_all
  note nx = "1.prems"(1)[unfolded LogNext.simps[of ctx q]]
  show ?case
  proof (cases "ctx = None \<and> \<not> l_closed q")
    case False
    then have "q' = q" "\<exists>e. x = Inl e" using nx by (auto split: option.splits if_splits)
    then show ?thesis using inv here by auto
  next
    case True
    then have cl: "ctx = None" "\<not> l_closed q" by auto
    show ?thesis
    proof (cases "l_names q")
      case Nil
      then have q': "q' = q\<lparr>l_wake := False\<rparr>" "x = Inr Waiting" using nx cl by auto
      show ?thesis by (rule here) (use inv q' Nil in \<open>simp_all add: log_inv_def log_content_def\<close>)
    next
      case (Cons n rest)
      have n: "n \<in> snd ` set (l_admissions q)" using inv Cons by (auto simp: log_inv_def log_ok_def)
      obtain y s1 where rd: "log_read n (l_fs q) = (y, s1)" by fastforce
      let ?q1 = "q\<lparr>l_fs := s1\<rparr>"
      note inv1 = log_inv_read[OF inv rd]
      show ?thesis
      proof (cases y)
        case (Inl e)
        then have q': "q' = ?q1" "x = Inl e" using nx cl Cons rd by (auto simp: on_log_fs_def)
        show ?thesis by (rule here) (use inv1 q' in simp_all)
      next
        case y: (Inr b)
        obtain f where f: "live (l_fs q) n = Some f" "b = f_data f" using log_read_Inr rd y by blast
        show ?thesis
        proof (cases "decodeLogRecord b")
          case (Inr r)
          then have q': "q' = ?q1" "x = Inr (Item n (lr_payload r))" using nx cl Cons rd y by (auto simp: on_log_fs_def)
          show ?thesis by (rule here) (use inv1 q' Cons f Inr in \<open>simp_all add: log_content_def\<close>)
        next
          case d: (Inl e)
          have und: "log_content ?q1 n = None" using f d inv1(2) by (simp add: log_content_def)
          obtain z q2 where qu: "log_quarantine n ?q1 = (z, q2)" by fastforce
          have n1: "n \<in> snd ` set (l_admissions ?q1)" using n by simp
          from log_quarantine_cases[OF inv1(1) n1 und qu] obtain s2 c where
            q2: "q2 = q\<lparr>l_fs := s2, l_corrupt := c\<rparr>" and
            fr: "framed {n, TrimSuffix n ''.lrec'' @ ''.bad''} s1 s2" and
            dis: "\<forall>m \<in> snd ` set (l_admissions q). m \<noteq> n \<longrightarrow> m \<notin> {n, TrimSuffix n ''.lrec'' @ ''.bad''}" and
            how: "live s2 n = live s1 n \<and> framed {} s1 s2 \<or> live s2 n = None" and gone: "z = Inr () \<longrightarrow> live s2 n = None" by auto
          have live2: "live s2 m = live (l_fs q) m" if "m \<in> snd ` set (l_admissions q)" "m \<noteq> n" for m
            using dis that fr inv1(2) by (auto simp: framed_def)
          show ?thesis
          proof (cases z)
            case (Inl e')
            then have q': "q' = q2" "x = Inl e'" using nx cl Cons rd y d qu by (auto simp: on_log_fs_def)
            have ok1: "log_ok s1 (lm_next (l_manifest q)) (l_names q) (l_admissions q) (l_count q) (l_maxItems q) (l_bytes q) (l_maxBytes q)"
              using inv1(1) by (simp add: log_inv_def)
            have ok2: "log_ok s2 (lm_next (l_manifest q)) (l_names q) (l_admissions q) (l_count q) (l_maxItems q) (l_bytes q) (l_maxBytes q)"
            proof (cases "live s2 n = None")
              case True
              obtain a where a: "(a, n) \<in> set (l_admissions q)" using n by auto
              show ?thesis
                by (rule log_ok_replace[OF ok1 fr dis a]) (use True ok1 log_cost_nonneg[of s1 n] in \<open>auto simp: sound_def log_cost_def log_ok_def\<close>)
            next
              case False
              with how have "framed {} s1 s2" by blast
              from log_ok_frame[OF ok1 this _ order_refl] show ?thesis by simp
            qed
            have cont: "log_content q2 m = log_content q m" if m: "m \<in> snd ` set (l_admissions q)" for m
            proof (cases "m = n")
              case True
              have "log_content q n = None" using und inv1(3) by simp
              with True q2 how inv1(2) show ?thesis by (auto simp: log_content_def)
            next
              case False
              with live2 m q2 show ?thesis by (intro log_content_live) simp
            qed
            show ?thesis by (rule here) (use q' q2 ok2 cont in \<open>simp_all add: log_inv_def\<close>)
          next
            case z: (Inr u)
            let ?q3 = "q2\<lparr>l_admissions := forget_name n (l_admissions q2), l_names := rest,
                           l_count := l_count q2 - 1, l_bytes := l_bytes q2 - charge (int (length b))\<rparr>"
            have dist: "distinct (map snd (l_admissions q))" using inv by (simp add: log_inv_def log_ok_def)
            have fg: "forget_name n (l_admissions q2) = without n (l_admissions q)"
              using forget_name_without[OF dist] q2 by simp
            have cost: "charge (int (length b)) = log_cost s1 n" using f inv1(2) by (simp add: log_cost_def)
            have inv3: "log_inv ?q3"
              using log_ok_drop[OF inv1(1)[unfolded log_inv_def, simplified] fr dis Cons cost] fg q2
              by (simp add: log_inv_def)
            have rec: "LogNext ctx ?q3 = (x, q')" using nx cl Cons rd y d qu z by (simp add: on_log_fs_def)
            have ih: "log_inv q'
   \<and> (\<exists>dropped. l_names ?q3 = dropped @ l_names q' \<and> l_admissions q' = filter (\<lambda>e. snd e \<notin> set dropped) (l_admissions ?q3)
        \<and> (\<forall>n \<in> set dropped. log_content ?q3 n = None))
   \<and> (\<forall>n \<in> snd ` set (l_admissions q'). log_content q' n = log_content ?q3 n)
   \<and> (case x of Inl _ \<Rightarrow> True | Inr Waiting \<Rightarrow> l_names q' = []
      | Inr (Item n d) \<Rightarrow> (\<exists>rest. l_names q' = n # rest) \<and> log_content ?q3 n = Some d)"
              by (rule "1.IH"[OF cl(1) cl(2) Cons _ y d qu[symmetric] z rec inv3]) (simp add: on_log_fs_def rd)
            have other: "m \<noteq> n" "m \<in> snd ` set (l_admissions q)" if "m \<in> snd ` set (without n (l_admissions q))" for m
              using that by (auto simp: without_def)
            have c3: "log_content ?q3 m = log_content q m" if "m \<in> snd ` set (without n (l_admissions q))" for m
              using live2[OF other(2)[OF that] other(1)[OF that]] q2 by (intro log_content_live) simp
            have rin: "m \<in> snd ` set (without n (l_admissions q))" if "m \<in> set rest" for m
              using inv3 fg that by (auto simp: log_inv_def log_ok_def)
            obtain dropped where dr: "rest = dropped @ l_names q'" "l_admissions q' = filter (\<lambda>e. snd e \<notin> set dropped) (without n (l_admissions q))"
              "\<forall>m \<in> set dropped. log_content ?q3 m = None" using ih fg by auto
            have a: "l_admissions q' = filter (\<lambda>e. snd e \<notin> set (n # dropped)) (l_admissions q)"
              using dr(2) by (auto simp: without_def intro: filter_cong)
            have "\<forall>m \<in> set (n # dropped). log_content q m = None"
              using dr c3 rin und inv1(3) by auto
            moreover have "l_names q = (n # dropped) @ l_names q'" using Cons dr(1) by simp
            moreover have "\<forall>m \<in> snd ` set (l_admissions q'). log_content q' m = log_content q m"
              using ih c3 dr(2) by auto
            moreover have "case x of Inl _ \<Rightarrow> True | Inr Waiting \<Rightarrow> l_names q' = []
      | Inr (Item m d) \<Rightarrow> (\<exists>rest. l_names q' = m # rest) \<and> log_content q m = Some d"
              using ih c3 rin dr(1) by (auto split: sum.splits next_item.splits)
            ultimately show ?thesis using ih a by blast
          qed
        qed
      qed
    qed
  qed
qed

section \<open>Acknowledgement\<close>

lemma LogAck_effect:
  assumes inv: "log_inv q" and ack: "LogAck ctx n q = (y, q')"
  shows "log_inv q' \<and> (\<forall>m \<in> snd ` set (l_admissions q) - {n}. log_content q' m = log_content q m) \<and>
    (case y of
       Inl e \<Rightarrow> l_names q' = l_names q \<and> l_admissions q' = l_admissions q
     | Inr _ \<Rightarrow> \<not> l_closed q \<and> l_names q = n # l_names q' \<and> l_admissions q' = without n (l_admissions q)
         \<and> live (l_fs q') n = None \<and> poss (l_fs q') n = {None})"
proof (cases "ctx = None \<and> \<not> l_closed q \<and> l_names q \<noteq> [] \<and> hd (l_names q) = n")
  case False
  then have "(\<exists>e. y = Inl e) \<and> q' = q" using ack by (auto simp: LogAck_def split: option.splits if_splits)
  then show ?thesis using inv by auto
next
  case True
  then obtain rest where names: "l_names q = n # rest" by (cases "l_names q") auto
  have n: "n \<in> snd ` set (l_admissions q)" using inv names by (auto simp: log_inv_def log_ok_def)
  obtain x s1 where rd: "log_read n (l_fs q) = (x, s1)" by fastforce
  note inv1 = log_inv_read[OF inv rd]
  let ?q1 = "q\<lparr>l_fs := s1\<rparr>"
  have stop: ?thesis if "y = Inl e" "q' = ?q1" for e
    using that inv1 by simp
  note ack' = ack[unfolded LogAck_def on_log_fs_def]
  show ?thesis
  proof (cases x)
    case (Inl e)
    then have "y = Inl e" "q' = ?q1" using ack' rd True by auto
    then show ?thesis by (rule stop)
  next
    case x: (Inr b)
    obtain f where f: "live (l_fs q) n = Some f" "b = f_data f" using log_read_Inr rd x by blast
    show ?thesis
    proof (cases "decodeLogRecord b")
      case (Inl e)
      then have "y = Inl e" "q' = ?q1" using ack' rd True x by auto
      then show ?thesis by (rule stop)
    next
      case r: (Inr r)
      obtain a where a: "(a, n) \<in> set (l_admissions q)" using n by auto
      obtain c p where "r = log_entry a c p" using read_kept[OF log_sound[OF inv a] f(1)] r f(2) by auto
      then have ra: "lr_admission r = a" by simp
      obtain z s2 where rm: "remove n s1 = (z, s2)" by fastforce
      show ?thesis
      proof (cases z)
        case (Inl e)
        then have q': "y = Inl e" "q' = q\<lparr>l_fs := s2\<rparr>" using ack' rd True x r rm by auto
        have "framed {} s1 s2" using remove_Inl[OF rm[unfolded Inl]] by simp
        moreover have "framed {} (l_fs q) s1" by (rule framesD[OF frames_log_read rd])
        ultimately have fr: "framed {} (l_fs q) s2" by (rule framed_trans[rotated])
        have "log_inv q'" by (rule log_inv_same[OF inv untouched_fs]) (simp_all add: q'(2) fr)
        moreover have "log_content q' m = log_content q m" for m
          by (rule log_content_live) (use fr q'(2) in \<open>simp add: framed_def\<close>)
        ultimately show ?thesis using q' by simp
      next
        case z: (Inr u)
        obtain w s3 where sy: "syncDir s2 = (w, s3)" by fastforce
        have f3: "framed {n} s1 s3"
          by (rule framed_trans[OF framesD[OF frames_remove rm] framesD[OF frames_syncDir sy]]) simp
        have gone: "live s3 n = None" using remove_Inr[OF rm[unfolded z]] syncDir_live[OF sy] by simp
        have dis: "\<forall>m \<in> snd ` set (l_admissions q). m \<noteq> n \<longrightarrow> m \<notin> {n}" by simp
        have live3: "live s3 m = live (l_fs q) m" if "m \<noteq> n" for m using f3 that inv1(2) by (simp add: framed_def)
        note ok1 = inv1(1)[unfolded log_inv_def, simplified]
        show ?thesis
        proof (cases w)
          case (Inl e)
          then have q': "y = Inl e" "q' = q\<lparr>l_fs := s3, l_closed := True\<rparr>"
            using ack' rd True x r rm z sy by auto
          have "log_ok s3 (lm_next (l_manifest q)) (l_names q) (l_admissions q) (l_count q) (l_maxItems q) (l_bytes q) (l_maxBytes q)"
            by (rule log_ok_replace[OF ok1 f3 dis a]) (use gone ok1 log_cost_nonneg[of s1 n] in \<open>auto simp: sound_def log_cost_def log_ok_def\<close>)
          then have "log_inv q'" by (simp add: q'(2) log_inv_def)
          moreover have "log_content q' m = log_content q m" if "m \<noteq> n" for m
            by (rule log_content_live) (use live3[OF that] q'(2) in simp)
          ultimately show ?thesis using q' by simp
        next
          case w: (Inr v)
          have cost: "charge (int (length b)) = log_cost s1 n" using f inv1(2) by (simp add: log_cost_def)
          have fg: "forget_admission a (l_admissions q) = without n (l_admissions q)"
            using inv by (intro forget_admission_without[OF _ _ a]) (simp_all add: log_inv_def log_ok_def)
          have q': "y = Inr ()" "q' = q\<lparr>l_fs := s3, l_admissions := without n (l_admissions q), l_names := rest,
              l_count := l_count q - 1, l_bytes := l_bytes q - log_cost s1 n\<rparr>"
            using ack' rd True x r rm z sy w ra fg names cost by auto
          have "log_inv q'" unfolding q'(2) log_inv_def using log_ok_drop[OF ok1 f3 dis names refl] by simp
          moreover have "log_content q' m = log_content q m" if "m \<noteq> n" for m
            by (rule log_content_live) (use live3[OF that] q'(2) in simp)
          moreover have "poss s3 n = {None}" using syncDir_Inr[OF sy[unfolded w]] gone by auto
          ultimately show ?thesis using q' names True gone by simp
        qed
      qed
    qed
  qed
qed

end
