(* ===== verification/LogDelivery.thy ===== *)
theory LogDelivery
  imports Delivery
begin

text \<open>
  The logs capability's callbacks and delivery loop (\<^verbatim>\<open>src/internal/collectors/logs_linux.go\<close>, \<open>Start\<close> and
  \<open>deliver\<close>) over any spool with two-step acceptance. \<open>lw_entered\<close>, \<open>lw_active\<close>, \<open>lw_left\<close> and \<open>lw_sent\<close> record
  what happened, no code reads them.
\<close>

record log_counters =
  RecordsQueued :: u64
  RecordsDelivered :: u64
  RecordsRetriedLogs :: u64
  RecordsRejectedLocal :: u64
  QueueRejectedLogs :: u64
  AuthenticationPaused :: u64

record 'q log_worker =
  lw_queue :: 'q
  lw_phase :: phase
  lw_blocked :: bool
  lw_stats :: log_counters
  lw_points :: u64
  lw_before :: u64
  lw_entered :: "(bytes \<times> bytes option) set"
  lw_active :: "bytes set"
  lw_left :: "(bytes \<times> bytes option) set"
  lw_sent :: "(bytes \<times> bytes) set"

section \<open>The sources\<close>

text \<open>
  The admission callback handed to a tailer and to the journal reader; \<open>encoded\<close> is what \<^verbatim>\<open>pipeline.LogJSON\<close>
  made of the record. The answer is the error the source sees.
\<close>

definition log_admit ::
    "(error option \<Rightarrow> bytes \<Rightarrow> bytes \<Rightarrow> 'q \<Rightarrow> (bytes \<times> bool) result \<times> 'q) \<Rightarrow> (bytes \<Rightarrow> bytes \<Rightarrow> bytes option) \<Rightarrow> error option
     \<Rightarrow> bytes \<Rightarrow> bytes result \<Rightarrow> 'q log_worker \<Rightarrow> error option \<times> 'q log_worker" where
  "log_admit admit stored ctx a encoded w =
     (case encoded of
        Inl _ \<Rightarrow> (None, w\<lparr>lw_stats := (lw_stats w)\<lparr>RecordsRejectedLocal := RecordsRejectedLocal (lw_stats w) + 1\<rparr>\<rparr>)
      | Inr raw \<Rightarrow>
          (case admit ctx a raw (lw_queue w) of
             (Inl e, q') \<Rightarrow> (Some e, w\<lparr>lw_queue := q',
                 lw_stats := (lw_stats w)\<lparr>QueueRejectedLogs := QueueRejectedLogs (lw_stats w) + 1\<rparr>\<rparr>)
           | (Inr (n, existed), q') \<Rightarrow>
               if existed then (None, w\<lparr>lw_queue := q'\<rparr>)
               else (None, w\<lparr>lw_queue := q', lw_entered := insert (n, stored a raw) (lw_entered w),
                       lw_stats := (lw_stats w)\<lparr>RecordsQueued := RecordsQueued (lw_stats w) + 1\<rparr>\<rparr>)))"

definition log_activate ::
    "(error option \<Rightarrow> bytes \<Rightarrow> 'q \<Rightarrow> unit result \<times> 'q) \<Rightarrow> ('q \<Rightarrow> (bytes \<times> bytes) list) \<Rightarrow> error option \<Rightarrow> bytes
     \<Rightarrow> 'q log_worker \<Rightarrow> 'q log_worker" where
  "log_activate activate admitted ctx a w =
     (case activate ctx a (lw_queue w) of
        (Inl _, q') \<Rightarrow> w\<lparr>lw_queue := q'\<rparr>
      | (Inr _, q') \<Rightarrow> w\<lparr>lw_queue := q', lw_active := lw_active w \<union> {n. (a, n) \<in> set (admitted (lw_queue w))}\<rparr>)"

section \<open>The delivery loop\<close>

definition log_fetch ::
    "(error option \<Rightarrow> 'q \<Rightarrow> next_item result \<times> 'q) \<Rightarrow> ('q \<Rightarrow> bytes list) \<Rightarrow> error option \<Rightarrow> 'q log_worker \<Rightarrow> 'q log_worker" where
  "log_fetch fetch pending ctx w =
     (case fetch ctx (lw_queue w) of (r, q') \<Rightarrow>
        let w1 = w\<lparr>lw_queue := q', lw_left := lw_left w \<union> (\<lambda>n. (n, None)) ` (set (pending (lw_queue w)) - set (pending q'))\<rparr>
        in (case r of
              Inl e \<Rightarrow> w1\<lparr>lw_phase := Stopped\<rparr>
            | Inr Waiting \<Rightarrow> w1
            | Inr (Item n d) \<Rightarrow> w1\<lparr>lw_phase := Sending n d, lw_before := lw_points w1\<rparr>))"

text \<open>\<open>points\<close> is the counter of rejected points after the call of \<^verbatim>\<open>Send\<close>.\<close>

definition log_outcome :: "outcome \<Rightarrow> u64 \<Rightarrow> 'q log_worker \<Rightarrow> 'q log_worker" where
  "log_outcome out points w =
     (case lw_phase w of
        Sending n d \<Rightarrow>
          let w1 = w\<lparr>lw_points := points\<rparr> in
          (case out of
             Accepted \<Rightarrow> w1\<lparr>lw_phase := Acking n d, lw_sent := insert (n, d) (lw_sent w1)\<rparr>
           | Unauthorized \<Rightarrow> w1\<lparr>lw_phase := Stopped, lw_blocked := True, lw_stats := (lw_stats w1)\<lparr>AuthenticationPaused := 1\<rparr>\<rparr>
           | Rejected \<Rightarrow> w1\<lparr>lw_phase := Stopped, lw_blocked := True\<rparr>
           | Cancelled \<Rightarrow> w1\<lparr>lw_phase := Stopped\<rparr>
           | Exhausted \<Rightarrow> w1\<lparr>lw_phase := Fetching,
               lw_stats := (lw_stats w1)\<lparr>RecordsRetriedLogs := RecordsRetriedLogs (lw_stats w1) + 1\<rparr>\<rparr>)
      | _ \<Rightarrow> w)"

definition log_acknowledge ::
    "(error option \<Rightarrow> bytes \<Rightarrow> 'q \<Rightarrow> unit result \<times> 'q) \<Rightarrow> error option \<Rightarrow> 'q log_worker \<Rightarrow> 'q log_worker" where
  "log_acknowledge ack ctx w =
     (case lw_phase w of
        Acking n d \<Rightarrow>
          (case ack ctx n (lw_queue w) of
             (Inl e, q') \<Rightarrow> w\<lparr>lw_queue := q', lw_phase := Stopped, lw_blocked := True\<rparr>
           | (Inr _, q') \<Rightarrow>
               let w1 = w\<lparr>lw_queue := q', lw_phase := Fetching, lw_left := insert (n, Some d) (lw_left w)\<rparr>
               in if lw_points w1 = lw_before w1
                  then w1\<lparr>lw_stats := (lw_stats w1)\<lparr>RecordsDelivered := RecordsDelivered (lw_stats w1) + 1\<rparr>\<rparr> else w1)
      | _ \<Rightarrow> w)"

text \<open>
  Sources and delivery interleave at their calls on the spool. An admission step needs a sequence number
  that is left; after the wait of an exhausted cycle the loop may stop.
\<close>

inductive log_step ::
    "(error option \<Rightarrow> bytes \<Rightarrow> bytes \<Rightarrow> 'q \<Rightarrow> (bytes \<times> bool) result \<times> 'q) \<Rightarrow> (error option \<Rightarrow> bytes \<Rightarrow> 'q \<Rightarrow> unit result \<times> 'q)
     \<Rightarrow> (error option \<Rightarrow> 'q \<Rightarrow> next_item result \<times> 'q) \<Rightarrow> (error option \<Rightarrow> bytes \<Rightarrow> 'q \<Rightarrow> unit result \<times> 'q)
     \<Rightarrow> ('q \<Rightarrow> bytes list) \<Rightarrow> ('q \<Rightarrow> (bytes \<times> bytes) list) \<Rightarrow> ('q \<Rightarrow> bool) \<Rightarrow> (bytes \<Rightarrow> bytes \<Rightarrow> bytes option)
     \<Rightarrow> 'q log_worker \<Rightarrow> 'q log_worker \<Rightarrow> bool"
  for admit activate fetch ack pending admitted fits stored
where
  log_step_admit: "fits (lw_queue w) \<Longrightarrow>
    log_step admit activate fetch ack pending admitted fits stored w (snd (log_admit admit stored ctx a encoded w))"
| log_step_activate: "log_step admit activate fetch ack pending admitted fits stored w (log_activate activate admitted ctx a w)"
| log_step_fetch: "lw_phase w = Fetching \<Longrightarrow>
    log_step admit activate fetch ack pending admitted fits stored w (log_fetch fetch pending ctx w)"
| log_step_outcome: "lw_phase w = Sending n d \<Longrightarrow>
    log_step admit activate fetch ack pending admitted fits stored w (log_outcome out points w)"
| log_step_ack: "lw_phase w = Acking n d \<Longrightarrow>
    log_step admit activate fetch ack pending admitted fits stored w (log_acknowledge ack ctx w)"
| log_step_cancel: "lw_phase w = Fetching \<Longrightarrow>
    log_step admit activate fetch ack pending admitted fits stored w (w\<lparr>lw_phase := Stopped\<rparr>)"

inductive log_run for admit activate fetch ack pending admitted fits stored where
  log_run_start: "log_run admit activate fetch ack pending admitted fits stored w w"
| log_run_more: "log_run admit activate fetch ack pending admitted fits stored w w' \<Longrightarrow>
    log_step admit activate fetch ack pending admitted fits stored w' w'' \<Longrightarrow>
    log_run admit activate fetch ack pending admitted fits stored w w''"

definition log_launch ::
    "('q \<Rightarrow> bytes list) \<Rightarrow> ('q \<Rightarrow> (bytes \<times> bytes) list) \<Rightarrow> ('q \<Rightarrow> bytes \<Rightarrow> bytes option) \<Rightarrow> 'q \<Rightarrow> 'q log_worker" where
  "log_launch pending admitted content q =
     \<lparr>lw_queue = q, lw_phase = Fetching, lw_blocked = False,
      lw_stats = \<lparr>RecordsQueued = 0, RecordsDelivered = 0, RecordsRetriedLogs = 0, RecordsRejectedLocal = 0,
        QueueRejectedLogs = 0, AuthenticationPaused = 0\<rparr>,
      lw_points = 0, lw_before = 0, lw_entered = (\<lambda>(a, n). (n, content q n)) ` set (admitted q),
      lw_active = set (pending q), lw_left = {}, lw_sent = {}\<rparr>"

section \<open>Delivery only after activation, removal only by acceptance\<close>

text \<open>
  Every record that entered has left or is still admitted with its payload (unless it was accepted
  and only its acknowledgement failed); what left was accepted with exactly its payload or never was
  readable; only activated records were ever sent.
\<close>

definition log_accounted ::
    "('q \<Rightarrow> (bytes \<times> bytes) list) \<Rightarrow> ('q \<Rightarrow> bytes \<Rightarrow> bytes option) \<Rightarrow> 'q log_worker \<Rightarrow> bool" where
  "log_accounted admitted content w \<longleftrightarrow>
     (\<forall>(n, v) \<in> lw_entered w. (n, v) \<in> lw_left w
        \<or> (n \<in> snd ` set (admitted (lw_queue w))
           \<and> (content (lw_queue w) n = v
              \<or> (lw_phase w = Stopped \<and> lw_blocked w \<and> (\<exists>d. v = Some d \<and> (n, d) \<in> lw_sent w)))))
   \<and> (\<forall>(n, v) \<in> lw_left w. case v of None \<Rightarrow> True | Some d \<Rightarrow> (n, d) \<in> lw_sent w)
   \<and> (\<forall>(n, d) \<in> lw_sent w. n \<in> lw_active w)"

context admission_queue
begin

definition log_phase_ok :: "'q log_worker \<Rightarrow> bool" where
  "log_phase_ok w \<longleftrightarrow>
     (case lw_phase w of
        Sending n d \<Rightarrow> n \<in> set (pending (lw_queue w)) \<and> content (lw_queue w) n = Some d
      | Acking n d \<Rightarrow> n \<in> set (pending (lw_queue w)) \<and> content (lw_queue w) n = Some d \<and> (n, d) \<in> lw_sent w
      | _ \<Rightarrow> True)"

definition log_winv :: "'q log_worker \<Rightarrow> bool" where
  "log_winv w \<longleftrightarrow> invar (lw_queue w) \<and> log_accounted admitted content w \<and> log_phase_ok w \<and> set (pending (lw_queue w)) \<subseteq> lw_active w"

lemma log_winvI:
  assumes "invar (lw_queue w)" "log_phase_ok w" "set (pending (lw_queue w)) \<subseteq> lw_active w"
    "\<And>n v. (n, v) \<in> lw_entered w \<Longrightarrow> (n, v) \<notin> lw_left w \<Longrightarrow> n \<in> snd ` set (admitted (lw_queue w))
           \<and> (content (lw_queue w) n = v
              \<or> (lw_phase w = Stopped \<and> lw_blocked w \<and> (\<exists>d. v = Some d \<and> (n, d) \<in> lw_sent w)))"
    "\<And>n d. (n, Some d) \<in> lw_left w \<Longrightarrow> (n, d) \<in> lw_sent w" "\<And>n d. (n, d) \<in> lw_sent w \<Longrightarrow> n \<in> lw_active w"
  shows "log_winv w"
  using assms unfolding log_winv_def log_accounted_def by (auto split: option.splits)

lemma log_winvD:
  assumes "log_winv w"
  shows "invar (lw_queue w)" "log_phase_ok w" "set (pending (lw_queue w)) \<subseteq> lw_active w"
    "\<And>n v. (n, v) \<in> lw_entered w \<Longrightarrow> (n, v) \<notin> lw_left w \<Longrightarrow> n \<in> snd ` set (admitted (lw_queue w))
           \<and> (content (lw_queue w) n = v
              \<or> (lw_phase w = Stopped \<and> lw_blocked w \<and> (\<exists>d. v = Some d \<and> (n, d) \<in> lw_sent w)))"
    "\<And>n d. (n, Some d) \<in> lw_left w \<Longrightarrow> (n, d) \<in> lw_sent w" "\<And>n d. (n, d) \<in> lw_sent w \<Longrightarrow> n \<in> lw_active w"
  using assms unfolding log_winv_def log_accounted_def by (auto split: option.splits)

lemma log_winv_admit:
  assumes inv: "log_winv w" and f: "fits (lw_queue w)"
  shows "log_winv (snd (log_admit admit stored ctx a encoded w))"
proof (cases encoded)
  case (Inl e)
  then show ?thesis using log_winvD[OF inv] by (intro log_winvI) (auto simp: log_admit_def log_phase_ok_def split: phase.splits)
next
  case (Inr raw)
  obtain r q' where ad: "admit ctx a raw (lw_queue w) = (r, q')" by fastforce
  note i = log_winvD[OF inv]
  note law = admit_law[OF i(1) f ad]
  have pin: "n \<in> snd ` set (admitted (lw_queue w))" if "n \<in> set (pending (lw_queue w))" for n
    using pending_admitted[OF i(1)] that by blast
  let ?w = "snd (log_admit admit stored ctx a encoded w)"
  have w: "lw_queue ?w = q'" "lw_phase ?w = lw_phase w" "lw_blocked ?w = lw_blocked w" "lw_left ?w = lw_left w" "lw_sent ?w = lw_sent w"
    "lw_active ?w = lw_active w"
    "lw_entered ?w = lw_entered w \<union> (case r of Inr (n, False) \<Rightarrow> {(n, stored a raw)} | _ \<Rightarrow> {})"
    using Inr ad by (auto simp: log_admit_def split: sum.splits prod.splits bool.splits)
  have keep: "content q' n = content (lw_queue w) n" if "n \<in> snd ` set (admitted (lw_queue w))" for n using law that by blast
  have more: "snd ` set (admitted (lw_queue w)) \<subseteq> snd ` set (admitted q')"
    using law by (auto split: sum.splits prod.splits if_splits)
  show ?thesis
  proof (rule log_winvI)
    show "log_phase_ok ?w" using i(2) law keep pin by (auto simp: log_phase_ok_def w split: phase.splits)
    fix n v assume nv: "(n, v) \<in> lw_entered ?w" "(n, v) \<notin> lw_left ?w"
    show "n \<in> snd ` set (admitted (lw_queue ?w)) \<and> (content (lw_queue ?w) n = v
        \<or> (lw_phase ?w = Stopped \<and> lw_blocked ?w \<and> (\<exists>d. v = Some d \<and> (n, d) \<in> lw_sent ?w)))"
    proof (cases "(n, v) \<in> lw_entered w")
      case True
      have old: "n \<in> snd ` set (admitted (lw_queue w))" using i(4)[OF True] nv(2) w by simp
      then show ?thesis using i(4)[OF True] nv(2) more keep[OF old] unfolding w by auto
    next
      case False
      with nv w law show ?thesis by (auto split: sum.splits prod.splits bool.splits if_splits)
    qed
  qed (use i law in \<open>auto simp: w\<close>)
qed

lemma log_winv_activate:
  assumes inv: "log_winv w" shows "log_winv (log_activate activate admitted ctx a w)"
proof -
  obtain r q' where ac: "activate ctx a (lw_queue w) = (r, q')" by fastforce
  note i = log_winvD[OF inv]
  note law = activate_law[OF i(1) ac]
  have pin: "n \<in> snd ` set (admitted (lw_queue w))" if "n \<in> set (pending (lw_queue w))" for n
    using pending_admitted[OF i(1)] that by blast
  let ?w = "log_activate activate admitted ctx a w"
  have w: "lw_queue ?w = q'" "lw_phase ?w = lw_phase w" "lw_blocked ?w = lw_blocked w" "lw_left ?w = lw_left w" "lw_sent ?w = lw_sent w"
    "lw_entered ?w = lw_entered w" "lw_active w \<subseteq> lw_active ?w" "set (pending q') \<subseteq> lw_active ?w"
    using ac law i(3) by (auto simp: log_activate_def split: sum.splits)
  have grow: "set (pending (lw_queue w)) \<subseteq> set (pending q')" using law by (cases r) auto
  have keep: "content q' n = content (lw_queue w) n" if "n \<in> snd ` set (admitted (lw_queue w))" for n using law that by blast
  show ?thesis
  proof (rule log_winvI)
    show "log_phase_ok ?w" using i(2) keep pin grow by (auto simp: log_phase_ok_def w split: phase.splits)
    fix n v assume nv: "(n, v) \<in> lw_entered ?w" "(n, v) \<notin> lw_left ?w"
    have old: "n \<in> snd ` set (admitted (lw_queue w))" using i(4)[of n v] nv w by simp
    then show "n \<in> snd ` set (admitted (lw_queue ?w)) \<and> (content (lw_queue ?w) n = v
        \<or> (lw_phase ?w = Stopped \<and> lw_blocked ?w \<and> (\<exists>d. v = Some d \<and> (n, d) \<in> lw_sent ?w)))"
      using i(4)[of n v] nv law keep[OF old] unfolding w by auto
  qed (use i law w in auto)
qed

lemma log_winv_fetch:
  assumes inv: "log_winv w" and ph: "lw_phase w = Fetching" shows "log_winv (log_fetch fetch pending ctx w)"
proof -
  obtain r q' where f: "fetch ctx (lw_queue w) = (r, q')" by fastforce
  note i = log_winvD[OF inv]
  note law = fetch_law[OF i(1) f]
  note adm = fetch_admitted[OF i(1) f]
  let ?gone = "set (pending (lw_queue w)) - set (pending q')"
  have sub: "set (pending q') \<subseteq> set (pending (lw_queue w))" using law by auto
  have none: "content (lw_queue w) n = None" if "n \<in> ?gone" for n
    using law that by auto
  let ?w = "log_fetch fetch pending ctx w"
  have w: "lw_queue ?w = q'" "lw_left ?w = lw_left w \<union> (\<lambda>n. (n, None)) ` ?gone" "lw_sent ?w = lw_sent w"
    "lw_entered ?w = lw_entered w" "lw_active ?w = lw_active w"
    using f by (auto simp: log_fetch_def Let_def split: sum.splits next_item.splits)
  show ?thesis
  proof (rule log_winvI)
    show "log_phase_ok ?w" using f law sub ph
      by (auto simp: log_fetch_def Let_def log_phase_ok_def split: sum.splits next_item.splits)
    fix n v assume nv: "(n, v) \<in> lw_entered ?w" "(n, v) \<notin> lw_left ?w"
    then have o: "n \<in> snd ` set (admitted (lw_queue w))" "content (lw_queue w) n = v" using i(4)[of n v] ph by (auto simp: w)
    have "n \<notin> ?gone" using nv(2) none o(2) by (auto simp: w)
    then have a: "n \<in> snd ` set (admitted q')" using o(1) adm by force
    then have "content q' n = v" using adm o(2) by auto
    with a show "n \<in> snd ` set (admitted (lw_queue ?w)) \<and> (content (lw_queue ?w) n = v
        \<or> (lw_phase ?w = Stopped \<and> lw_blocked ?w \<and> (\<exists>d. v = Some d \<and> (n, d) \<in> lw_sent ?w)))"
      by (simp add: w)
  qed (use i law sub in \<open>auto simp: w\<close>)
qed

lemma log_winv_outcome: "log_winv w \<Longrightarrow> lw_phase w = Sending n d \<Longrightarrow> log_winv (log_outcome out points w)"
proof -
  assume inv: "log_winv w" and ph: "lw_phase w = Sending n d"
  note i = log_winvD[OF inv]
  have "n \<in> lw_active w" using i(2,3) ph by (auto simp: log_phase_ok_def)
  then show ?thesis using i ph
    by (intro log_winvI; cases out) (auto simp: log_outcome_def log_phase_ok_def Let_def)
qed

lemma log_winv_ack:
  assumes inv: "log_winv w" and ph: "lw_phase w = Acking n d" shows "log_winv (log_acknowledge ack ctx w)"
proof -
  obtain r q' where ac: "ack ctx n (lw_queue w) = (r, q')" by fastforce
  note i = log_winvD[OF inv]
  note law = ack_law[OF i(1) ac]
  note adm = ack_admitted[OF i(1) ac]
  have cur: "n \<in> set (pending (lw_queue w))" "content (lw_queue w) n = Some d" "(n, d) \<in> lw_sent w"
    using i(2) ph by (auto simp: log_phase_ok_def)
  have entry: "m \<in> snd ` set (admitted (lw_queue w)) \<and> content (lw_queue w) m = v"
    if "(m, v) \<in> lw_entered w" "(m, v) \<notin> lw_left w" for m v using i(4)[OF that] ph by simp
  let ?w = "log_acknowledge ack ctx w"
  show ?thesis
  proof (cases r)
    case (Inl e)
    have w: "lw_queue ?w = q'" "lw_phase ?w = Stopped" "lw_blocked ?w" "lw_entered ?w = lw_entered w" "lw_left ?w = lw_left w"
      "lw_sent ?w = lw_sent w" "lw_active ?w = lw_active w" using Inl ph ac by (simp_all add: log_acknowledge_def)
    show ?thesis
    proof (rule log_winvI)
      fix m v assume mv: "(m, v) \<in> lw_entered ?w" "(m, v) \<notin> lw_left ?w"
      with entry[of m v] show "m \<in> snd ` set (admitted (lw_queue ?w)) \<and> (content (lw_queue ?w) m = v
        \<or> (lw_phase ?w = Stopped \<and> lw_blocked ?w \<and> (\<exists>d. v = Some d \<and> (m, d) \<in> lw_sent ?w)))"
        using adm Inl cur by (cases "m = n") (auto simp: w)
    qed (use i law Inl w in \<open>auto simp: log_phase_ok_def\<close>)
  next
    case (Inr u)
    have w: "lw_queue ?w = q'" "lw_phase ?w = Fetching" "lw_entered ?w = lw_entered w" "lw_left ?w = insert (n, Some d) (lw_left w)"
      "lw_sent ?w = lw_sent w" "lw_active ?w = lw_active w" using Inr ph ac by (simp_all add: log_acknowledge_def Let_def)
    show ?thesis
    proof (rule log_winvI)
      fix m v assume mv: "(m, v) \<in> lw_entered ?w" "(m, v) \<notin> lw_left ?w"
      then have e: "m \<in> snd ` set (admitted (lw_queue w))" "content (lw_queue w) m = v" using entry[of m v] by (auto simp: w)
      have mn: "m \<noteq> n" using e(2) cur(2) mv(2) by (auto simp: w)
      have "m \<in> snd ` set (admitted q')" using adm Inr e(1) mn by force
      moreover have "content q' m = v" using adm e mn by auto
      ultimately show "m \<in> snd ` set (admitted (lw_queue ?w)) \<and> (content (lw_queue ?w) m = v
        \<or> (lw_phase ?w = Stopped \<and> lw_blocked ?w \<and> (\<exists>d. v = Some d \<and> (m, d) \<in> lw_sent ?w)))" by (simp add: w)
    qed (use i law Inr w cur in \<open>auto simp: log_phase_ok_def\<close>)
  qed
qed

lemma log_winv_step:
  "log_step admit activate fetch ack pending admitted fits stored w w' \<Longrightarrow> log_winv w \<Longrightarrow> log_winv w'"
proof (induction rule: log_step.induct)
  case (log_step_cancel w)
  then show ?case using log_winvD[OF log_step_cancel(2)] by (intro log_winvI) (auto simp: log_phase_ok_def)
qed (auto intro: log_winv_admit log_winv_activate log_winv_fetch log_winv_outcome log_winv_ack)

lemma log_winv_launch: "invar q \<Longrightarrow> log_winv (log_launch pending admitted content q)"
  by (rule log_winvI) (auto simp: log_launch_def log_phase_ok_def, force)

lemma log_winv_run:
  assumes "log_run admit activate fetch ack pending admitted fits stored (log_launch pending admitted content q) w" "invar q"
  shows "log_winv w"
  using assms(1)
proof (induction "log_launch pending admitted content q" w rule: log_run.induct)
  case log_run_start
  show ?case using assms(2) by (rule log_winv_launch)
next
  case (log_run_more w' w'')
  then show ?case using log_winv_step by blast
qed

lemma log_run_accounted:
  "log_run admit activate fetch ack pending admitted fits stored (log_launch pending admitted content q) w \<Longrightarrow> invar q
   \<Longrightarrow> log_accounted admitted content w"
  using log_winv_run by (simp add: log_winv_def)

end

end
