(* ===== verification/LogContract.thy ===== *)
theory LogContract
  imports LogInv LogDelivery
begin

text \<open>The logs spool keeps the contract of two-step acceptance, whatever the file system fails to do.\<close>

definition log_stored :: "bytes \<Rightarrow> bytes \<Rightarrow> bytes option" where
  "log_stored a d =
     (case compact d of None \<Rightarrow> None
      | Some p \<Rightarrow> (case decodeLogRecord (marshal_log_record (log_entry a False p)) of Inl _ \<Rightarrow> None | Inr r \<Rightarrow> Some (lr_payload r)))"

definition log_fits :: "log_disk \<Rightarrow> bool" where
  "log_fits q \<longleftrightarrow> lm_next (l_manifest q) \<noteq> - 1"

lemma log_pending: "log_inv q \<Longrightarrow> set (l_names q) \<subseteq> snd ` set (l_admissions q)"
  by (simp add: log_inv_def log_ok_def)

interpretation lq: admission_queue LogNext LogAck log_inv l_names log_content PutAdmission Activate l_admissions log_fits log_stored
proof
  fix c x and q q' :: log_disk
  assume a: "log_inv q" "LogNext c q = (x, q')"
  note e = LogNext_effect[OF a(2,1)]
  have sub: "set (l_names q') \<subseteq> snd ` set (l_admissions q')" using e log_pending by blast
  from e sub show "log_inv q' \<and> (\<forall>n \<in> set (l_names q'). log_content q' n = log_content q n) \<and>
      (\<exists>dropped. l_names q = dropped @ l_names q' \<and> (\<forall>n \<in> set dropped. log_content q n = None)) \<and>
      (case x of Inr (Item n d) \<Rightarrow> (\<exists>rest. l_names q' = n # rest) \<and> log_content q n = Some d | _ \<Rightarrow> True)"
    by (auto split: sum.splits next_item.splits)
  obtain dropped where d: "l_names q = dropped @ l_names q'" "l_admissions q' = filter (\<lambda>e. snd e \<notin> set dropped) (l_admissions q)"
    using e by blast
  have "distinct (l_names q)" using a(1) by (simp add: log_inv_def log_ok_def strict_sorted_iff)
  with d(1) have "set dropped = set (l_names q) - set (l_names q')" by auto
  with d(2) e show "set (l_admissions q') = {e \<in> set (l_admissions q). snd e \<notin> set (l_names q) - set (l_names q')} \<and>
      (\<forall>n \<in> snd ` set (l_admissions q'). log_content q' n = log_content q n)" by auto
next
  fix c n y and q q' :: log_disk
  assume a: "log_inv q" "LogAck c n q = (y, q')"
  note e = LogAck_effect[OF a]
  show "log_inv q' \<and> (\<forall>m \<in> set (l_names q) - {n}. log_content q' m = log_content q m) \<and>
      (case y of Inl e \<Rightarrow> l_names q' = l_names q | Inr _ \<Rightarrow> l_names q = n # l_names q')"
    using e log_pending[OF a(1)] by (cases y) auto
  show "set (l_admissions q') = (case y of Inl _ \<Rightarrow> set (l_admissions q) | Inr _ \<Rightarrow> {e \<in> set (l_admissions q). snd e \<noteq> n}) \<and>
      (\<forall>m \<in> snd ` set (l_admissions q) - {n}. log_content q' m = log_content q m)"
    using e by (cases y) (auto simp: without_def)
next
  fix q :: log_disk
  assume "log_inv q"
  then show "distinct (l_names q)" "distinct (map fst (l_admissions q)) \<and> distinct (map snd (l_admissions q))"
    "set (l_names q) \<subseteq> snd ` set (l_admissions q)"
    by (simp_all add: log_inv_def log_ok_def strict_sorted_iff)
next
  fix c a d r and q q' :: log_disk
  assume p: "log_inv q" "log_fits q" "PutAdmission c a d q = (r, q')"
  note e = PutAdmission_effect[OF p(1) p(2)[unfolded log_fits_def] p(3)]
  have "\<forall>n \<in> snd ` set (l_admissions q). log_content q' n = log_content q n"
    using e untouched_live log_content_live by blast
  moreover have "log_content q' n = log_stored a d" if "r = Inr (n, False)" for n
    using e that by (auto simp: log_content_def log_stored_def stable_def)
  ultimately show "log_inv q' \<and> l_names q' = l_names q \<and> (\<forall>n \<in> snd ` set (l_admissions q). log_content q' n = log_content q n) \<and>
      (case r of
         Inl e \<Rightarrow> l_admissions q' = l_admissions q
       | Inr (n, existed) \<Rightarrow>
           if existed then (a, n) \<in> set (l_admissions q) \<and> l_admissions q' = l_admissions q
           else a \<notin> fst ` set (l_admissions q) \<and> n \<notin> snd ` set (l_admissions q) \<and> l_admissions q' = l_admissions q @ [(a, n)]
              \<and> log_content q' n = log_stored a d)"
    using e by (auto split: sum.splits prod.splits)
next
  fix c a y and q q' :: log_disk
  assume p: "log_inv q" "Activate c a q = (y, q')"
  note e = Activate_effect[OF p]
  show "log_inv q' \<and> l_admissions q' = l_admissions q \<and> (\<forall>n \<in> snd ` set (l_admissions q). log_content q' n = log_content q n) \<and>
      set (l_names q') = (case y of Inl _ \<Rightarrow> set (l_names q) | Inr _ \<Rightarrow> set (l_names q) \<union> {n. (a, n) \<in> set (l_admissions q)})"
    using e by (cases y; cases c) auto
qed

end
