(* ===== verification/LogOpen.thy ===== *)
theory LogOpen
  imports LogQueue DiskOpen
begin

text \<open>
  Opening the logs spool (\<^verbatim>\<open>src/internal/queue/logs_disk_linux.go\<close>): the recovery of what an interrupted
  manifest replacement, admission or activation left behind, and the scan of the directory.
\<close>

section \<open>Recovery\<close>

definition decodeLogManifest :: "bytes \<Rightarrow> bytes \<Rightarrow> log_manifest result" where
  "decodeLogManifest raw scope =
     (case unmarshal_log_manifest raw of
        None \<Rightarrow> Inl (Failure ''logs spool pending manifest invalid or scope changed'')
      | Some m \<Rightarrow>
          if lm_version m \<noteq> 1 \<or> lm_scope m \<noteq> scope \<or> lm_next m = 0
          then Inl (Failure ''logs spool pending manifest invalid or scope changed'') else Inr m)"

definition recoverLogManifest :: "bytes \<Rightarrow> unit io" where
  "recoverLogManifest scope =
     andThen (attempt (readPrivateFile ''.manifest.pending'' 1048576)) (\<lambda>pending_raw.
       case pending_raw of
         Inl e \<Rightarrow> if e = NotExist then ret () else raise e
       | Inr raw \<Rightarrow>
           (case decodeLogManifest raw scope of
              Inl e \<Rightarrow> raise e
            | Inr pending \<Rightarrow>
                andThen (attempt (readPrivateFile ''manifest.json'' 1048576)) (\<lambda>current_raw.
                andThen (case current_raw of
                           Inr b \<Rightarrow>
                             (case decodeLogManifest b scope of
                                Inl e \<Rightarrow> raise e
                              | Inr current \<Rightarrow>
                                  if lm_next pending < lm_next current
                                  then raise (Failure ''logs spool pending manifest is older than current manifest'') else ret ())
                         | Inl e \<Rightarrow> if e = NotExist then ret () else raise e) (\<lambda>_.
                andThen (rename ''.manifest.pending'' ''manifest.json'') (\<lambda>_.
                andThen open_dir (\<lambda>_. fsync_dir))))))"

definition recoverPendingRecord :: "u64 \<Rightarrow> unit io" where
  "recoverPendingRecord next =
     andThen (attempt (log_read ''.pending'')) (\<lambda>pending_raw.
       case pending_raw of
         Inl e \<Rightarrow> if e = NotExist then ret () else raise e
       | Inr raw \<Rightarrow>
           (case decodeLogRecord raw of
              Inl e \<Rightarrow> raise e
            | Inr pending \<Rightarrow>
                if next \<le> 1 then raise (Failure ''logs spool pending record has no reserved sequence'')
                else
                  let name = lrec_name (next - 1) in
                  andThen (attempt (log_read name)) (\<lambda>target_raw.
                    case target_raw of
                      Inr b \<Rightarrow>
                        (case decodeLogRecord b of
                           Inl _ \<Rightarrow> raise (Failure ''logs spool pending record conflicts with reserved sequence'')
                         | Inr target \<Rightarrow>
                             if lr_admission target \<noteq> lr_admission pending \<or> lr_hash target \<noteq> lr_hash pending
                                \<or> lr_payload target \<noteq> lr_payload pending
                             then raise (Failure ''logs spool pending record conflicts with reserved sequence'')
                             else andThen (remove ''.pending'') (\<lambda>_. log_syncDir))
                    | Inl e \<Rightarrow>
                        if e \<noteq> NotExist then raise e
                        else andThen (rename ''.pending'' name) (\<lambda>_. log_syncDir))))"

definition recoverPendingActivation :: "log_disk \<Rightarrow> unit result \<times> log_disk" where
  "recoverPendingActivation q =
     (case on_log_fs (log_read ''.replace.pending'') q of
        (Inl e, q1) \<Rightarrow> if e = NotExist then (Inr (), q1) else (Inl e, q1)
      | (Inr raw, q1) \<Rightarrow>
          (case decodeLogRecord raw of
             Inl _ \<Rightarrow> (Inl (Failure ''logs spool pending activation invalid''), q1)
           | Inr pending \<Rightarrow>
               if \<not> lr_ready pending then (Inl (Failure ''logs spool pending activation invalid''), q1)
               else
                 let name = admitted_name q1 (lr_admission pending) in
                 if name = [] then (Inl (Failure ''logs spool pending activation has no admitted record''), q1)
                 else (case on_log_fs (log_read name) q1 of
                   (Inl e, q2) \<Rightarrow> (Inl e, q2)
                 | (Inr b, q2) \<Rightarrow>
                     (case decodeLogRecord b of
                        Inl _ \<Rightarrow> (Inl (Failure ''logs spool pending activation conflicts with admitted record''), q2)
                      | Inr current \<Rightarrow>
                          if lr_hash current \<noteq> lr_hash pending \<or> lr_payload current \<noteq> lr_payload pending
                          then (Inl (Failure ''logs spool pending activation conflicts with admitted record''), q2)
                          else (case on_log_fs (rename ''.replace.pending'' name) q2 of
                            (Inl e, q3) \<Rightarrow> (Inl e, q3)
                          | (Inr _, q3) \<Rightarrow>
                              on_log_fs log_syncDir
                                (if lr_ready current then q3 else q3\<lparr>l_names := l_names q3 @ [name]\<rparr>))))))"

section \<open>Opening\<close>

definition check_logs_spool :: "bytes \<Rightarrow> spool_env \<Rightarrow> int \<Rightarrow> int \<Rightarrow> nat \<Rightarrow> error option" where
  "check_logs_spool dir env maxBytes maxItems euid =
     (if \<not> HasPrefix dir ''/'' \<or> maxBytes < 32768 \<or> maxItems < 1 \<or> 4096 < maxItems
      then Some (Failure ''invalid logs spool options'')
      else case check_path (e_components env) of Some e \<Rightarrow> Some e | None \<Rightarrow>
      (case e_mkdir env of Some e \<Rightarrow> Some e | None \<Rightarrow>
      (case e_dirstat env of Inl e \<Rightarrow> Some e | Inr (dirp, mode, uid) \<Rightarrow>
       if \<not> dirp \<or> mode \<noteq> 448 \<or> uid \<noteq> euid
       then Some (Failure ''logs spool directory must be owned by current user with mode 0700'') else None)))"

definition load_log_manifest :: "bytes \<Rightarrow> log_manifest io" where
  "load_log_manifest scope =
     andThen (attempt (readPrivateFile ''manifest.json'' 1048576)) (\<lambda>r.
       case r of
         Inl e \<Rightarrow>
           if e = NotExist
           then let m = \<lparr>lm_version = 1, lm_scope = scope, lm_next = 1\<rparr> in andThen (log_saveManifest m) (\<lambda>_. ret m)
           else raise e
       | Inr raw \<Rightarrow>
           (case unmarshal_log_manifest raw of
              None \<Rightarrow> raise (Failure ''logs spool manifest invalid or scope changed'')
            | Some m \<Rightarrow>
                if lm_version m \<noteq> 1 \<or> lm_scope m \<noteq> scope \<or> lm_next m = 0
                then raise (Failure ''logs spool manifest invalid or scope changed'') else ret m))"

definition log_scan_entry :: "bytes \<Rightarrow> log_disk \<Rightarrow> unit result \<times> log_disk" where
  "log_scan_entry name q =
     (if name = ''lock'' \<or> name = ''manifest.json'' \<or> name = ''.replace.pending'' \<or> HasSuffix name ''.bad'' then (Inr (), q)
      else if length name \<noteq> 25 \<or> \<not> HasSuffix name ''.lrec'' then (Inl (Failure ''unexpected logs spool entry retained''), q)
      else (case on_log_fs (log_read name) q of
              (Inl e, q1) \<Rightarrow> (Inl e, q1)
            | (Inr b, q1) \<Rightarrow>
                (case decodeLogRecord b of
                   Inl _ \<Rightarrow> log_quarantine name q1
                 | Inr r \<Rightarrow>
                     if admitted_name q1 (lr_admission r) \<noteq> [] then (Inl (Failure ''duplicate admission identity in logs spool''), q1)
                     else (Inr (), q1\<lparr>l_names := (if lr_ready r then l_names q1 @ [name] else l_names q1),
                            l_admissions := l_admissions q1 @ [(lr_admission r, name)], l_count := l_count q1 + 1,
                            l_bytes := l_bytes q1 + charge (int (length b))\<rparr>))))"

fun log_scan :: "bytes list \<Rightarrow> log_disk \<Rightarrow> unit result \<times> log_disk" where
  "log_scan [] q = (Inr (), q)"
| "log_scan (n # ns) q = (case log_scan_entry n q of (Inl e, q1) \<Rightarrow> (Inl e, q1) | (Inr _, q1) \<Rightarrow> log_scan ns q1)"

definition log_failed :: "error \<Rightarrow> fs \<Rightarrow> log_disk result \<times> fs" where
  "log_failed e s = (Inl e, unlock s)"

definition finish_log_open :: "log_disk \<Rightarrow> log_disk result \<times> fs" where
  "finish_log_open q =
     (case recoverPendingActivation q of
        (Inl e, q1) \<Rightarrow> log_failed e (l_fs q1)
      | (Inr _, q1) \<Rightarrow>
          if l_maxBytes q1 < l_bytes q1 \<or> l_maxItems q1 < l_count q1
          then log_failed (Failure ''existing logs spool exceeds configured budget'') (l_fs q1)
          else let q2 = q1\<lparr>l_names := sort (l_names q1)\<rparr> in (Inr q2, l_fs q2))"

definition OpenLogDisk :: "bytes \<Rightarrow> spool_env \<Rightarrow> scope \<Rightarrow> int \<Rightarrow> int \<Rightarrow> fs \<Rightarrow> log_disk result \<times> fs" where
  "OpenLogDisk dir env sc maxBytes maxItems s0 =
     (case LogsHash sc of Inl e \<Rightarrow> (Inl e, s0) | Inr h \<Rightarrow>
     (case check_logs_spool dir env maxBytes maxItems (fs_euid s0) of Some e \<Rightarrow> (Inl e, s0) | None \<Rightarrow>
     (case open_lock s0 of (Inl e, s1) \<Rightarrow> (Inl e, s1) | (Inr _, s1) \<Rightarrow>
     (case flock s1 of (Inl _, s2) \<Rightarrow> (Inl (Failure ''logs spool already in use''), s2) | (Inr _, s2) \<Rightarrow>
     (case recoverLogManifest h s2 of (Inl e, s3) \<Rightarrow> log_failed e s3 | (Inr _, s3) \<Rightarrow>
     (case load_log_manifest h s3 of (Inl e, s4) \<Rightarrow> log_failed e s4 | (Inr m, s4) \<Rightarrow>
     (case recoverPendingRecord (lm_next m) s4 of (Inl e, s5) \<Rightarrow> log_failed e s5 | (Inr _, s5) \<Rightarrow>
     (case read_dir s5 of (Inl e, s6) \<Rightarrow> log_failed e s6 | (Inr entries, s6) \<Rightarrow>
        if maxItems + 16 < int (length entries) then log_failed (Failure ''too many logs spool entries'') s6
        else
          let q = \<lparr>l_lock = True, l_manifest = m, l_names = [], l_admissions = [],
                   l_bytes = 16384 + charge (maxItems * 256), l_count = 0, l_maxItems = maxItems, l_maxBytes = maxBytes,
                   l_closed = False, l_wake = False, l_corrupt = 0, l_fs = s6\<rparr>
          in (case log_scan entries q of
                (Inl e, q1) \<Rightarrow> log_failed e (l_fs q1)
              | (Inr _, q1) \<Rightarrow> finish_log_open q1)))))))))"

end
