(* ===== verification/LogOpenFacts.thy ===== *)
theory LogOpenFacts
  imports LogContract LogOpen OpenFacts
begin

text \<open>
  What opening the logs spool does to the records in the directory: which it lists, which it keeps, and
  what stops it.
\<close>

section \<open>Reading does not change the directory\<close>

lemma log_read_live: "log_read n s = (r, s') \<Longrightarrow> framed {} s s'"
  by (rule framesD[OF frames_log_read])

lemma lstat_error: "lstat n s = (Inl e, s') \<Longrightarrow> e = NotExist \<Longrightarrow> live s n = None"
  using lstat_NotExist by blast

lemma readPrivateFile_NotExist: "readPrivateFile n k s = (Inl NotExist, s') \<Longrightarrow> live s n = None"
proof -
  assume r: "readPrivateFile n k s = (Inl NotExist, s')"
  obtain x s1 where l: "lstat n s = (x, s1)" by fastforce
  show ?thesis
  proof (cases x)
    case (Inl e)
    with r l show ?thesis using lstat_NotExist[of n s s1] by (simp add: readPrivateFile_def andThen_def)
  next
    case (Inr f)
    note ls = lstat_Inr[OF l[unfolded Inr]]
    obtain y s2 where o: "open_read n s1 = (y, s2)" by fastforce
    show ?thesis
    proof (cases y)
      case (Inl e)
      with r l Inr o have "open_read n s1 = (Inl NotExist, s2)"
        by (auto simp: readPrivateFile_def andThen_def split: if_splits)
      from open_read_NotExist[OF this] ls show ?thesis by simp
    next
      case u: (Inr u)
      with r l Inr o have "read_all n k s2 = (Inl NotExist, s')"
        by (auto simp: readPrivateFile_def andThen_def split: if_splits)
      from read_all_error[OF this] show ?thesis by simp
    qed
  qed
qed

lemma log_read_NotExist: "log_read n s = (Inl NotExist, s') \<Longrightarrow> live s n = None"
  unfolding log_read_def by (rule readPrivateFile_NotExist)

section \<open>An undecodable pending record disables the spool\<close>

lemma frames_recoverLogManifest [inv_intros]: "frames {''.manifest.pending'', ''manifest.json''} (recoverLogManifest h)"
  unfolding recoverLogManifest_def by (intro inv_intros) auto

lemma frames_load_log_manifest [inv_intros]: "frames {''.manifest.pending'', ''manifest.json''} (load_log_manifest h)"
  unfolding load_log_manifest_def Let_def by (intro inv_intros)

lemma recoverPendingRecord_stuck:
  assumes l: "live s ''.pending'' = Some f" and d: "\<not> is_ok (decodeLogRecord (f_data f))"
  shows "\<exists>e s'. recoverPendingRecord next s = (Inl e, s') \<and> live s' ''.pending'' = Some f"
proof -
  obtain r s1 where rd: "log_read ''.pending'' s = (r, s1)" by fastforce
  have l1: "live s1 ''.pending'' = Some f" using live_framed[OF log_read_live[OF rd], of "''.pending''"] l by simp
  show ?thesis
  proof (cases r)
    case (Inl e)
    then have "e \<noteq> NotExist" using log_read_NotExist rd l by auto
    then show ?thesis using rd l1 Inl by (simp add: recoverPendingRecord_def andThen_def attempt_def)
  next
    case (Inr b)
    then have "b = f_data f" using log_read_Inr rd l by fastforce
    then obtain e where "decodeLogRecord b = Inl e" using d by (auto simp: not_is_ok_iff)
    then show ?thesis using rd l1 Inr by (simp add: recoverPendingRecord_def andThen_def attempt_def)
  qed
qed

lemma frames_open_lock_file: "frames {''lock''} open_lock"
  unfolding open_lock_def by (rule frames_syscall) (auto simp: framed_put_entry split: option.splits)

lemma flock_live: "flock s = (r, s') \<Longrightarrow> live s' = live s \<and> poss s' = poss s"
  unfolding flock_def by (drule syscall_cases) (auto simp: live_def poss_def fun_eq_iff split: if_splits)

lemma unlock_live [simp]: "live (unlock s) = live s" "poss (unlock s) = poss s"
  by (auto simp: unlock_def live_def poss_def fun_eq_iff)

text \<open>The steps of a successful or failed opening.\<close>

lemma OpenLogDisk_cases:
  assumes "OpenLogDisk dir env sc mb mi s0 = (r, s')"
  obtains (early) e where "r = Inl e" "live s' = live s0"
  | (locked) e s1 x where "r = Inl e" "open_lock s0 = (x, s1)" "live s' = live s1"
  | (manifest) e h s1 s2 s3 x where "r = Inl e" "open_lock s0 = (Inr (), s1)" "flock s1 = (Inr (), s2)"
      "recoverLogManifest h s2 = (x, s3)" "live s' = live s3"
  | (load) e h s1 s2 s3 s4 x where "r = Inl e" "open_lock s0 = (Inr (), s1)" "flock s1 = (Inr (), s2)"
      "recoverLogManifest h s2 = (Inr (), s3)" "load_log_manifest h s3 = (x, s4)" "live s' = live s4"
  | (loaded) h m s1 s2 s3 s4 where "open_lock s0 = (Inr (), s1)" "flock s1 = (Inr (), s2)"
      "recoverLogManifest h s2 = (Inr (), s3)" "load_log_manifest h s3 = (Inr m, s4)" "LogsHash sc = Inr h"
      "(case recoverPendingRecord (lm_next m) s4 of (Inl e, s5) \<Rightarrow> log_failed e s5 | (Inr _, s5) \<Rightarrow>
       (case read_dir s5 of (Inl e, s6) \<Rightarrow> log_failed e s6 | (Inr entries, s6) \<Rightarrow>
        if mi + 16 < int (length entries) then log_failed (Failure ''too many logs spool entries'') s6
        else
          let q = \<lparr>l_lock = True, l_manifest = m, l_names = [], l_admissions = [],
                   l_bytes = 16384 + charge (mi * 256), l_count = 0, l_maxItems = mi, l_maxBytes = mb,
                   l_closed = False, l_wake = False, l_corrupt = 0, l_fs = s6\<rparr>
          in (case log_scan entries q of
                (Inl e, q1) \<Rightarrow> log_failed e (l_fs q1)
              | (Inr _, q1) \<Rightarrow> finish_log_open q1))) = (r, s')"
proof (cases "LogsHash sc")
  case (Inl e)
  then show ?thesis using assms early by (auto simp: OpenLogDisk_def)
next
  case h: (Inr h)
  note o = assms[unfolded OpenLogDisk_def h sum.case]
  show ?thesis
  proof (cases "check_logs_spool dir env mb mi (fs_euid s0)")
    case (Some e)
    then show ?thesis using o early by auto
  next
    case c: None
    obtain x1 s1 where l: "open_lock s0 = (x1, s1)" by fastforce
    show ?thesis
    proof (cases x1)
      case (Inl e)
      then show ?thesis using o c l locked by auto
    next
      case x1: (Inr u)
      obtain x2 s2 where f: "flock s1 = (x2, s2)" by fastforce
      show ?thesis
      proof (cases x2)
        case (Inl e)
        then show ?thesis using o c l x1 f flock_live[OF f] locked[of _ x1 s1] by auto
      next
        case x2: (Inr u)
        obtain x3 s3 where m: "recoverLogManifest h s2 = (x3, s3)" by fastforce
        show ?thesis
        proof (cases x3)
          case (Inl e)
          then show ?thesis using o c l x1 f x2 m manifest[of e s1 s2 h x3 s3] by (simp add: log_failed_def) (metis unlock_live(1))
        next
          case x3: (Inr u)
          obtain x4 s4 where ld: "load_log_manifest h s3 = (x4, s4)" by fastforce
          show ?thesis
          proof (cases x4)
            case (Inl e)
            then show ?thesis using o c l x1 f x2 m x3 ld load[of e s1 s2 h s3 x4 s4] by (simp add: log_failed_def) (metis unlock_live(1))
          next
            case x4: (Inr m)
            show ?thesis by (rule loaded[of s1 s2 h s3 m s4]) (use o c l x1 f x2 m x3 ld x4 h in auto)
          qed
        qed
      qed
    qed
  qed
qed

text \<open>No options, no faults and no repetition ever open a spool whose pending record does not decode.\<close>

lemma OpenLogDisk_stuck:
  assumes l: "live s0 ''.pending'' = Some f" and d: "\<not> is_ok (decodeLogRecord (f_data f))"
  shows "\<exists>e. OpenLogDisk dir env sc mb mi s0 = (Inl e, snd (OpenLogDisk dir env sc mb mi s0))
     \<and> live (snd (OpenLogDisk dir env sc mb mi s0)) ''.pending'' = Some f"
proof -
  obtain r s' where o: "OpenLogDisk dir env sc mb mi s0 = (r, s')" by fastforce
  have lk: "live s1 ''.pending'' = Some f" if "open_lock s0 = (x, s1)" for x s1
    using live_framed[OF framesD[OF frames_open_lock_file that], of "''.pending''"] l by simp
  have rm: "live s3 ''.pending'' = Some f" if "open_lock s0 = (x, s1)" "flock s1 = (y, s2)" "recoverLogManifest h s2 = (z, s3)" for x y z s1 s2 s3 h
    using live_framed[OF framesD[OF frames_recoverLogManifest that(3)], of "''.pending''"] lk[OF that(1)] flock_live[OF that(2)] by simp
  have ld: "live s4 ''.pending'' = Some f" if "open_lock s0 = (x, s1)" "flock s1 = (y, s2)" "recoverLogManifest h s2 = (z, s3)"
    "load_log_manifest h s3 = (w, s4)" for x y z w s1 s2 s3 s4 h
    using live_framed[OF framesD[OF frames_load_log_manifest that(4)], of "''.pending''"] rm[OF that(1-3)] by simp
  from o have "(\<exists>e. r = Inl e) \<and> live s' ''.pending'' = Some f"
  proof (cases rule: OpenLogDisk_cases)
    case (early e) then show ?thesis using l by simp
  next
    case (locked e s1 x) then show ?thesis using lk[OF locked(2)] by simp
  next
    case (manifest e h s1 s2 s3 x) then show ?thesis using rm[OF manifest(2-4)] by simp
  next
    case (load e h s1 s2 s3 s4 x) then show ?thesis using ld[OF load(2-5)] by simp
  next
    case (loaded h m s1 s2 s3 s4)
    obtain e s5 where p: "recoverPendingRecord (lm_next m) s4 = (Inl e, s5)" "live s5 ''.pending'' = Some f"
      using recoverPendingRecord_stuck[OF ld[OF loaded(1-4)] d] by blast
    with loaded(6) show ?thesis by (auto simp: log_failed_def)
  qed
  with o show ?thesis by auto
qed

section \<open>Opening a directory at rest\<close>

text \<open>
  A directory at rest, as after a restart: each record or pending entry is what a crash would leave, and
  every record that decodes is as the agent writes it.
\<close>

definition record_entry :: "bytes \<Rightarrow> bool" where
  "record_entry n \<longleftrightarrow> length n = 25 \<or> n = ''.pending'' \<or> n = ''.replace.pending''"

definition written :: "inode \<Rightarrow> bool" where
  "written f \<longleftrightarrow> f_synced f \<and>
     (is_ok (decodeLogRecord (f_data f)) \<longrightarrow>
       (\<exists>a b p. validAdmission a \<and> compact p = Some p \<and> f_data f = marshal_log_record (log_entry a b p)))"

definition calm :: "fs \<Rightarrow> bool" where
  "calm s \<longleftrightarrow> (\<forall>n. record_entry n \<longrightarrow> poss s n = {live s n} \<and> (\<forall>f. live s n = Some f \<longrightarrow> written f))"

lemma calmD: "calm s \<Longrightarrow> record_entry n \<Longrightarrow> live s n = Some f \<Longrightarrow> written f \<and> poss s n = {Some f}"
  by (simp add: calm_def)

lemma calm_framed:
  assumes "calm s" "framed T s s'" "\<forall>n \<in> T. \<not> record_entry n"
  shows "calm s'"
proof -
  have "poss s' n = {live s' n} \<and> (\<forall>f. live s' n = Some f \<longrightarrow> written f)" if n: "record_entry n" for n
  proof -
    have l: "live s' n = live s n" "poss s' n \<subseteq> insert (live s n) (poss s n)" using assms n by (auto simp: framed_def)
    have c: "poss s n = {live s n}" "\<forall>f. live s n = Some f \<longrightarrow> written f" using assms(1) n by (simp_all add: calm_def)
    show ?thesis using l c poss_nonempty[of s' n] by (auto simp: subset_singleton_iff)
  qed
  then show ?thesis by (simp add: calm_def)
qed

lemma calm_live_poss: "live s' = live s \<Longrightarrow> poss s' = poss s \<Longrightarrow> calm s' = calm s"
  by (simp add: calm_def)

lemma written_entry: "written f \<Longrightarrow> decodeLogRecord (f_data f) = Inr r \<Longrightarrow> \<exists>a b p. r = log_entry a b p \<and> entry_file a p f"
proof -
  assume w: "written f" and r: "decodeLogRecord (f_data f) = Inr r"
  from w r obtain a b p where e: "validAdmission a" "compact p = Some p" "f_data f = marshal_log_record (log_entry a b p)" "f_synced f"
    by (auto simp: written_def)
  then have "r = log_entry a b p" using decode_log_only r by auto
  with e r have "r = log_entry a b p \<and> entry_file a p f" by (auto simp: entry_file_def)
  then show ?thesis by blast
qed

lemma entry_not_record: "n \<in> {''lock'', ''.manifest.pending'', ''manifest.json''} \<Longrightarrow> \<not> record_entry n"
  by (auto simp: record_entry_def)

text \<open>The recovery of a pending record adds at most one entry and changes none that is there.\<close>

definition grown :: "fs \<Rightarrow> fs \<Rightarrow> bool" where
  "grown s s' \<longleftrightarrow> (\<forall>n f. length n = 25 \<longrightarrow> live s n = Some f \<longrightarrow> live s' n = Some f)"

lemma after_syncDir:
  assumes "syncDir s = (Inr u, s')" "\<And>n f. record_entry n \<Longrightarrow> live s n = Some f \<Longrightarrow> written f"
  shows "calm s'"
  using syncDir_Inr[OF assms(1)] assms(2) by (simp add: calm_def)

lemma recoverPendingRecord_calm:
  assumes c: "calm s" and r: "recoverPendingRecord next s = (Inr u, s')"
  shows "calm s' \<and> grown s s'"
proof -
  obtain x s1 where rd: "log_read ''.pending'' s = (x, s1)" by fastforce
  have f1: "framed {} s s1" by (rule log_read_live[OF rd])
  have c1: "calm s1" by (rule calm_framed[OF c f1]) simp
  have l1: "live s1 = live s" using f1 by (simp add: framed_def fun_eq_iff)
  note r' = r[unfolded recoverPendingRecord_def andThen_def attempt_def Let_def]
  show ?thesis
  proof (cases x)
    case (Inl e)
    then have "s' = s1" using r' rd by (auto split: if_splits)
    with c1 l1 show ?thesis by (simp add: grown_def)
  next
    case (Inr raw)
    obtain f where f: "live s ''.pending'' = Some f" "raw = f_data f" using log_read_Inr rd Inr by blast
    have wf: "written f" using calmD[OF c _ f(1)] by (simp add: record_entry_def)
    obtain pend where pd: "decodeLogRecord raw = Inr pend" "\<not> next \<le> 1" using r' rd Inr by (auto split: sum.splits if_splits)
    define n where "n = lrec_name (next - 1)"
    have n25: "length n = 25" by (simp add: n_def lrec_name_length)
    obtain y s2 where rt: "log_read n s1 = (y, s2)" by fastforce
    have f2: "framed {} s1 s2" by (rule log_read_live[OF rt])
    have c2: "calm s2" by (rule calm_framed[OF c1 f2]) simp
    have l2: "live s2 = live s" using f2 l1 by (simp add: framed_def fun_eq_iff)
    show ?thesis
    proof (cases y)
      case y: (Inr b)
      then obtain s3 where rm: "remove ''.pending'' s2 = (Inr (), s3)" "syncDir s3 = (Inr u, s')"
        using r' rd Inr pd rt by (auto simp: n_def[symmetric] split: sum.splits if_splits prod.splits)
      have f3: "framed {''.pending''} s2 s3" by (rule framesD[OF frames_remove rm(1)]) simp
      have "calm s'"
      proof (rule after_syncDir[OF rm(2)])
        fix m g assume m: "record_entry m" "live s3 m = Some g"
        then have "m \<noteq> ''.pending''" using remove_Inr[OF rm(1)] by auto
        with f3 m have "live s2 m = Some g" by (simp add: framed_def)
        with calmD[OF c2 m(1)] show "written g" by blast
      qed
      moreover have "grown s s'"
      proof -
        have "live s' m = Some g" if "length m = 25" "live s m = Some g" for m g
        proof -
          have "m \<notin> {''.pending''}" using that(1) by auto
          with f3 l2 syncDir_live[OF rm(2)] that show ?thesis by (simp add: framed_def)
        qed
        then show ?thesis by (simp add: grown_def)
      qed
      ultimately show ?thesis by blast
    next
      case y: (Inl e)
      then have en: "e = NotExist" using r' rd Inr pd rt by (auto simp: n_def[symmetric] split: if_splits)
      then obtain s3 where rn: "rename ''.pending'' n s2 = (Inr (), s3)" "syncDir s3 = (Inr u, s')"
        using r' rd Inr pd rt y by (auto simp: n_def[symmetric] split: sum.splits if_splits prod.splits)
      have gone: "live s n = None" using log_read_NotExist[of n s1 s2] rt y en l1 by simp
      have pn: "''.pending'' \<noteq> n" using n25 by auto
      have f3: "framed {''.pending'', n} s2 s3" by (rule framesD[OF frames_rename rn(1)]) simp_all
      have moved: "live s3 n = Some f" "live s3 ''.pending'' = None" using rename_Inr[OF rn(1) pn] l2 f(1) by auto
      have "calm s'"
      proof (rule after_syncDir[OF rn(2)])
        fix m g assume m: "record_entry m" "live s3 m = Some g"
        show "written g"
        proof (cases "m = n")
          case True
          with m moved wf show ?thesis by simp
        next
          case False
          with m moved have "m \<notin> {''.pending'', n}" by auto
          with f3 m have "live s2 m = Some g" by (simp add: framed_def)
          with calmD[OF c2 m(1)] show ?thesis by blast
        qed
      qed
      moreover have "grown s s'"
      proof -
        have "live s' m = Some g" if "length m = 25" "live s m = Some g" for m g
        proof -
          have "m \<notin> {''.pending'', n}" using that gone by auto
          with f3 l2 syncDir_live[OF rn(2)] that show ?thesis by (simp add: framed_def)
        qed
        then show ?thesis by (simp add: grown_def)
      qed
      ultimately show ?thesis by blast
    qed
  qed
qed

section \<open>The scan\<close>

text \<open>What the scan has established about the entries \<open>D\<close> it has seen, from the directory \<open>s\<close> it started on.\<close>

definition log_shaped :: "bytes \<Rightarrow> bool" where
  "log_shaped n \<longleftrightarrow> length n = 25 \<and> HasSuffix n ''.lrec''"

definition scanned :: "fs \<Rightarrow> bytes set \<Rightarrow> log_disk \<Rightarrow> bool" where
  "scanned s D q \<longleftrightarrow> calm (l_fs q)
     \<and> (\<forall>n. length n = 25 \<longrightarrow> live (l_fs q) n = None \<or> live (l_fs q) n = live s n)
     \<and> (\<forall>(a, n) \<in> set (l_admissions q). log_shaped n \<and> n \<in> D \<and> (\<exists>p f. live (l_fs q) n = Some f \<and> entry_file a p f))
     \<and> distinct (map fst (l_admissions q)) \<and> distinct (map snd (l_admissions q))
     \<and> (\<forall>n \<in> D. \<forall>f. log_shaped n \<longrightarrow> live s n = Some f \<longrightarrow> is_ok (decodeLogRecord (f_data f)) \<longrightarrow> n \<in> snd ` set (l_admissions q))
     \<and> (\<forall>n. n \<notin> D \<longrightarrow> length n = 25 \<longrightarrow> live (l_fs q) n = live s n)
     \<and> distinct (l_names q)
     \<and> (\<forall>n. n \<in> set (l_names q) \<longleftrightarrow> n \<in> snd ` set (l_admissions q) \<and> (\<exists>f r. live (l_fs q) n = Some f \<and> decodeLogRecord (f_data f) = Inr r \<and> lr_ready r))
     \<and> l_count q = int (length (l_admissions q))
     \<and> l_bytes q = base_cost (l_maxItems q) + sum_list (map (\<lambda>(a, n). log_cost (l_fs q) n) (l_admissions q))"

lemma scanned_live:
  assumes "scanned s D q" "live s1 = live (l_fs q)" "calm s1"
  shows "scanned s D (q\<lparr>l_fs := s1\<rparr>)"
proof -
  have "log_cost s1 = log_cost (l_fs q)" using assms(2) by (simp add: log_cost_def fun_eq_iff)
  with assms show ?thesis unfolding scanned_def by simp
qed

lemma scanned_insert:
  assumes "scanned s D q" "\<not> log_shaped n"
  shows "scanned s (insert n D) q"
  using assms unfolding scanned_def by auto

lemma HasSuffix_app: "HasSuffix n p \<Longrightarrow> \<exists>m. n = m @ p"
  by (simp add: HasSuffix_iff)

lemma bad_not_record:
  assumes "log_shaped n"
  shows "length (TrimSuffix n ''.lrec'' @ ''.bad'') = 24"
proof -
  obtain m where "n = m @ ''.lrec''" using assms HasSuffix_app by (auto simp: log_shaped_def)
  with assms show ?thesis by (auto simp: log_shaped_def)
qed

lemma scanned_adm:
  assumes "scanned s D q" "(a, n) \<in> set (l_admissions q)"
  shows "log_shaped n" "n \<in> D" "\<exists>p f. live (l_fs q) n = Some f \<and> entry_file a p f"
proof -
  have "\<forall>(a, n) \<in> set (l_admissions q). log_shaped n \<and> n \<in> D \<and> (\<exists>p f. live (l_fs q) n = Some f \<and> entry_file a p f)"
    using assms(1) unfolding scanned_def by (elim conjE)
  with assms(2) show "log_shaped n" "n \<in> D" "\<exists>p f. live (l_fs q) n = Some f \<and> entry_file a p f" by auto
qed

lemma scanned_name:
  assumes "scanned s D q" "n \<in> snd ` set (l_admissions q)"
  shows "log_shaped n" "n \<in> D"
  using scanned_adm(1,2)[OF assms(1)] assms(2) by auto

lemma scanned_names_nonempty:
  assumes "scanned s D q" shows "admitted_name q a = [] \<longleftrightarrow> a \<notin> fst ` set (l_admissions q)"
proof (cases "map_of (l_admissions q) a")
  case None
  then have "a \<notin> fst ` set (l_admissions q)" by (simp add: map_of_eq_None_iff)
  with None show ?thesis by (simp add: admitted_name_def)
next
  case (Some n)
  then have m: "(a, n) \<in> set (l_admissions q)" by (rule map_of_SomeD)
  have "n \<noteq> []" using scanned_adm(1)[OF assms m] by (auto simp: log_shaped_def)
  then have "admitted_name q a \<noteq> []" using Some by (simp add: admitted_name_def)
  moreover have "a \<in> fst ` set (l_admissions q)" using m by (rule rev_image_eqI) simp
  ultimately show ?thesis by simp
qed

lemma scanned_add:
  assumes sc: "scanned s D q" and n: "n \<notin> D" "log_shaped n" and f: "live (l_fs q) n = Some f" "decodeLogRecord (f_data f) = Inr r"
    and new: "lr_admission r \<notin> fst ` set (l_admissions q)"
  shows "scanned s (insert n D) (q\<lparr>l_names := (if lr_ready r then l_names q @ [n] else l_names q),
      l_admissions := l_admissions q @ [(lr_admission r, n)], l_count := l_count q + 1,
      l_bytes := l_bytes q + charge (int (length (f_data f)))\<rparr>)" (is "scanned s _ ?q")
proof -
  have calm: "calm (l_fs q)" using sc by (simp add: scanned_def)
  have "record_entry n" using n(2) by (simp add: record_entry_def log_shaped_def)
  from calmD[OF calm this f(1)] have "written f" by blast
  from written_entry[OF this f(2)] obtain p where e: "entry_file (lr_admission r) p f" by auto
  have nn: "n \<notin> snd ` set (l_admissions q)" using scanned_name(2)[OF sc] n(1) by blast
  have nm: "n \<notin> set (l_names q)" using sc nn unfolding scanned_def by blast
  have fs: "l_fs ?q = l_fs q" "l_admissions ?q = l_admissions q @ [(lr_admission r, n)]" "l_maxItems ?q = l_maxItems q" by simp_all
  have cost: "log_cost (l_fs q) n = charge (int (length (f_data f)))" using f(1) by (simp add: log_cost_def)
  show ?thesis unfolding scanned_def
  proof (intro conjI)
    show "calm (l_fs ?q)" using calm by simp
    show "\<forall>m. length m = 25 \<longrightarrow> live (l_fs ?q) m = None \<or> live (l_fs ?q) m = live s m" using sc by (simp add: scanned_def)
    show "\<forall>(a, m) \<in> set (l_admissions ?q). log_shaped m \<and> m \<in> insert n D \<and> (\<exists>p f. live (l_fs ?q) m = Some f \<and> entry_file a p f)"
      using sc n f e unfolding scanned_def fs by auto
    show "distinct (map fst (l_admissions ?q))" "distinct (map snd (l_admissions ?q))" using sc new nn unfolding scanned_def fs by auto
    show "\<forall>m \<in> insert n D. \<forall>f. log_shaped m \<longrightarrow> live s m = Some f \<longrightarrow> is_ok (decodeLogRecord (f_data f)) \<longrightarrow> m \<in> snd ` set (l_admissions ?q)"
      using sc unfolding scanned_def fs by auto
    show "\<forall>m. m \<notin> insert n D \<longrightarrow> length m = 25 \<longrightarrow> live (l_fs ?q) m = live s m" using sc by (simp add: scanned_def)
    show "distinct (l_names ?q)" using sc nm by (simp add: scanned_def)
    show "\<forall>m. (m \<in> set (l_names ?q)) = (m \<in> snd ` set (l_admissions ?q) \<and> (\<exists>f r. live (l_fs ?q) m = Some f \<and> decodeLogRecord (f_data f) = Inr r \<and> lr_ready r))"
    proof
      fix m
      have old: "(m \<in> set (l_names q)) = (m \<in> snd ` set (l_admissions q) \<and> (\<exists>f r. live (l_fs q) m = Some f \<and> decodeLogRecord (f_data f) = Inr r \<and> lr_ready r))"
        using sc unfolding scanned_def by blast
      show "(m \<in> set (l_names ?q)) = (m \<in> snd ` set (l_admissions ?q) \<and> (\<exists>f r. live (l_fs ?q) m = Some f \<and> decodeLogRecord (f_data f) = Inr r \<and> lr_ready r))"
        using old nn nm f by (cases "m = n") (auto simp: fs)
    qed
    show "l_count ?q = int (length (l_admissions ?q))" using sc by (simp add: scanned_def)
    show "l_bytes ?q = base_cost (l_maxItems ?q) + sum_list (map (\<lambda>(a, n). log_cost (l_fs ?q) n) (l_admissions ?q))"
      using sc cost by (simp add: scanned_def)
  qed
qed

lemma scanned_quarantined:
  assumes sc: "scanned s D q" and n: "n \<notin> D" "log_shaped n" and f: "live (l_fs q) n = Some f" "\<not> is_ok (decodeLogRecord (f_data f))"
    and qu: "log_quarantine n q = (Inr u, q')"
  shows "scanned s (insert n D) q' \<and> l_maxItems q' = l_maxItems q \<and> l_maxBytes q' = l_maxBytes q \<and> l_manifest q' = l_manifest q"
proof -
  let ?b = "TrimSuffix n ''.lrec'' @ ''.bad''"
  have b24: "length ?b = 24" by (rule bad_not_record[OF n(2)])
  have "length n \<noteq> length ?b" using b24 n(2) by (simp add: log_shaped_def)
  then have nb: "n \<noteq> ?b" by metis
  obtain s1 s2 where st: "rename n ?b (l_fs q) = (Inr (), s1)" "syncDir s1 = (Inr u, s2)"
    and q': "q' = q\<lparr>l_fs := s2, l_corrupt := l_corrupt q + 1\<rparr>"
    using qu by (auto simp: log_quarantine_def on_log_fs_def split: prod.splits sum.splits)
  have fr: "framed {n, ?b} (l_fs q) s1" by (rule framesD[OF frames_rename st(1)]) simp_all
  have gone: "live s2 n = None" using rename_Inr[OF st(1) nb] syncDir_live[OF st(2)] by auto
  have lv: "live s2 m = live (l_fs q) m" if "length m = 25" "m \<noteq> n" for m
  proof -
    have "m \<notin> {n, ?b}" using that b24 by auto
    with fr syncDir_live[OF st(2)] show ?thesis by (simp add: framed_def)
  qed
  have calm: "calm s2"
  proof (rule after_syncDir[OF st(2)])
    fix m g assume m: "record_entry m" "live s1 m = Some g"
    have "m \<noteq> n" using m(2) rename_Inr[OF st(1) nb] by auto
    moreover have "m \<noteq> ?b" using m(1) b24 by (auto simp: record_entry_def)
    ultimately have "live (l_fs q) m = Some g" using fr m(2) by (simp add: framed_def)
    with calmD[of "l_fs q" m g] sc m(1) show "written g" by (simp add: scanned_def)
  qed
  have nn: "n \<notin> snd ` set (l_admissions q)" using scanned_name(2)[OF sc] n(1) by blast
  have same: "live s2 m = live (l_fs q) m" if "m \<in> snd ` set (l_admissions q)" for m
  proof -
    have "log_shaped m" using scanned_name(1)[OF sc that] .
    moreover have "m \<noteq> n" using that nn by blast
    ultimately show ?thesis using lv by (simp add: log_shaped_def)
  qed
  have costs: "map (\<lambda>(a, n). log_cost s2 n) (l_admissions q) = map (\<lambda>(a, n). log_cost (l_fs q) n) (l_admissions q)"
  proof (rule map_cong[OF refl])
    fix e assume "e \<in> set (l_admissions q)"
    then have "snd e \<in> snd ` set (l_admissions q)" by simp
    from same[OF this] show "(case e of (a, n) \<Rightarrow> log_cost s2 n) = (case e of (a, n) \<Rightarrow> log_cost (l_fs q) n)"
      by (cases e) (simp add: log_cost_def)
  qed
  have fs: "l_fs q' = s2" "l_admissions q' = l_admissions q" "l_names q' = l_names q" "l_count q' = l_count q" "l_bytes q' = l_bytes q"
    "l_maxItems q' = l_maxItems q" by (simp_all add: q')
  have "scanned s (insert n D) q'" unfolding scanned_def
  proof (intro conjI)
    show "calm (l_fs q')" by (simp add: fs calm)
    show "\<forall>m. length m = 25 \<longrightarrow> live (l_fs q') m = None \<or> live (l_fs q') m = live s m"
      using sc gone lv unfolding scanned_def fs by metis
    show "\<forall>(a, m) \<in> set (l_admissions q'). log_shaped m \<and> m \<in> insert n D \<and> (\<exists>p f. live (l_fs q') m = Some f \<and> entry_file a p f)"
    proof (clarify)
      fix a m assume "(a, m) \<in> set (l_admissions q')"
      then have am: "(a, m) \<in> set (l_admissions q)" by (simp add: fs)
      then have "live s2 m = live (l_fs q) m" by (intro same) force
      with sc am show "log_shaped m \<and> m \<in> insert n D \<and> (\<exists>p f. live (l_fs q') m = Some f \<and> entry_file a p f)"
        unfolding scanned_def fs by auto
    qed
    show "distinct (map fst (l_admissions q'))" "distinct (map snd (l_admissions q'))" using sc by (simp_all add: scanned_def fs)
    have orig: "live s n = live (l_fs q) n" using sc n by (auto simp: scanned_def log_shaped_def)
    show "\<forall>m \<in> insert n D. \<forall>f. log_shaped m \<longrightarrow> live s m = Some f \<longrightarrow> is_ok (decodeLogRecord (f_data f)) \<longrightarrow> m \<in> snd ` set (l_admissions q')"
      using sc f orig unfolding scanned_def fs by auto
    show "\<forall>m. m \<notin> insert n D \<longrightarrow> length m = 25 \<longrightarrow> live (l_fs q') m = live s m" using sc lv unfolding scanned_def fs by auto
    show "distinct (l_names q')" using sc by (simp add: scanned_def fs)
    show "\<forall>m. (m \<in> set (l_names q')) = (m \<in> snd ` set (l_admissions q') \<and> (\<exists>f r. live (l_fs q') m = Some f \<and> decodeLogRecord (f_data f) = Inr r \<and> lr_ready r))"
    proof
      fix m
      have "(m \<in> set (l_names q)) = (m \<in> snd ` set (l_admissions q) \<and> (\<exists>f r. live (l_fs q) m = Some f \<and> decodeLogRecord (f_data f) = Inr r \<and> lr_ready r))"
        using sc unfolding scanned_def by blast
      then show "(m \<in> set (l_names q')) = (m \<in> snd ` set (l_admissions q') \<and> (\<exists>f r. live (l_fs q') m = Some f \<and> decodeLogRecord (f_data f) = Inr r \<and> lr_ready r))"
        unfolding fs using same[of m] by (cases "m \<in> snd ` set (l_admissions q)") simp_all
    qed
    show "l_count q' = int (length (l_admissions q'))" using sc by (simp add: scanned_def fs)
    show "l_bytes q' = base_cost (l_maxItems q') + sum_list (map (\<lambda>(a, n). log_cost (l_fs q') n) (l_admissions q'))"
      using sc unfolding scanned_def fs costs by simp
  qed
  then show ?thesis by (simp add: q')
qed

lemma log_scan_entry_scanned:
  assumes sc: "scanned s D q" and n: "n \<notin> D" and e: "log_scan_entry n q = (Inr u, q')"
  shows "scanned s (insert n D) q' \<and> l_maxItems q' = l_maxItems q \<and> l_maxBytes q' = l_maxBytes q \<and> l_manifest q' = l_manifest q"
proof (cases "log_shaped n \<and> \<not> (n = ''lock'' \<or> n = ''manifest.json'' \<or> n = ''.replace.pending'' \<or> HasSuffix n ''.bad'')")
  case False
  have "\<not> log_shaped n"
  proof
    assume ls: "log_shaped n"
    then obtain m where "n = m @ ''.lrec''" using HasSuffix_app by (auto simp: log_shaped_def)
    then have "rev n = rev ''.lrec'' @ rev m" by simp
    moreover have "HasSuffix n ''.bad'' \<Longrightarrow> \<exists>k. rev n = rev ''.bad'' @ rev k" by (auto dest: HasSuffix_app)
    ultimately have "\<not> HasSuffix n ''.bad''" by auto
    with False ls show False by (auto simp: log_shaped_def)
  qed
  moreover have "q' = q" using e \<open>\<not> log_shaped n\<close> by (auto simp: log_scan_entry_def log_shaped_def split: if_splits)
  ultimately show ?thesis using scanned_insert[OF sc] by simp
next
  case True
  then have ls: "log_shaped n" by blast
  note e' = e[unfolded log_scan_entry_def]
  obtain y s1 where rd: "log_read n (l_fs q) = (y, s1)" by fastforce
  have f1: "framed {} (l_fs q) s1" by (rule log_read_live[OF rd])
  have l1: "live s1 = live (l_fs q)" using f1 by (simp add: framed_def fun_eq_iff)
  have c1: "calm s1" by (rule calm_framed[OF _ f1]) (use sc in \<open>simp_all add: scanned_def\<close>)
  let ?q1 = "q\<lparr>l_fs := s1\<rparr>"
  have sc1: "scanned s D ?q1" by (rule scanned_live[OF sc l1 c1])
  obtain b where b: "y = Inr b" using e' True rd by (cases y) (auto simp: log_shaped_def on_log_fs_def split: if_splits)
  obtain f where f: "live (l_fs q) n = Some f" "b = f_data f" using log_read_Inr rd b by blast
  have f': "live (l_fs ?q1) n = Some f" using f l1 by simp
  show ?thesis
  proof (cases "decodeLogRecord b")
    case (Inl x)
    then have "log_quarantine n ?q1 = (Inr u, q')" using e' True rd b by (simp add: log_shaped_def on_log_fs_def)
    from scanned_quarantined[OF sc1 n ls f' _ this] Inl f show ?thesis by simp
  next
    case (Inr r)
    have a: "admitted_name ?q1 (lr_admission r) = []" using e' True rd b Inr by (auto simp: log_shaped_def on_log_fs_def split: if_splits)
    have q': "q' = ?q1\<lparr>l_names := (if lr_ready r then l_names ?q1 @ [n] else l_names ?q1),
          l_admissions := l_admissions ?q1 @ [(lr_admission r, n)], l_count := l_count ?q1 + 1,
          l_bytes := l_bytes ?q1 + charge (int (length (f_data f)))\<rparr>"
      using e' True rd b Inr a f(2) by (auto simp: log_shaped_def on_log_fs_def)
    have "decodeLogRecord (f_data f) = Inr r" using Inr f by simp
    from scanned_add[OF sc1 n ls f' this] a scanned_names_nonempty[OF sc1] show ?thesis by (simp add: q')
  qed
qed

lemma log_scan_scanned:
  assumes "scanned s D q" "distinct ns" "D \<inter> set ns = {}" "log_scan ns q = (Inr u, q')"
  shows "scanned s (D \<union> set ns) q' \<and> l_maxItems q' = l_maxItems q \<and> l_maxBytes q' = l_maxBytes q \<and> l_manifest q' = l_manifest q"
  using assms
proof (induction ns arbitrary: D q)
  case (Cons n ns)
  obtain v q1 where e: "log_scan_entry n q = (Inr v, q1)" "log_scan ns q1 = (Inr u, q')"
    using Cons.prems(4) by (auto split: prod.splits sum.splits)
  have "n \<notin> D" using Cons.prems(3) by auto
  from log_scan_entry_scanned[OF Cons.prems(1) this e(1)]
  have 1: "scanned s (insert n D) q1" "l_maxItems q1 = l_maxItems q" "l_maxBytes q1 = l_maxBytes q" "l_manifest q1 = l_manifest q" by auto
  have "insert n D \<inter> set ns = {}" using Cons.prems by auto
  from Cons.IH[OF 1(1) _ this e(2)] Cons.prems(2) 1 show ?case by (simp add: Un_assoc)
qed simp

section \<open>Pending activations\<close>

text \<open>The two states of the queue around the recovery: the same admissions with the same payloads.\<close>

definition recovered :: "log_disk \<Rightarrow> log_disk \<Rightarrow> bool" where
  "recovered q q' \<longleftrightarrow> calm (l_fs q') \<and> l_admissions q' = l_admissions q \<and> l_count q' = l_count q \<and> l_bytes q' = l_bytes q
     \<and> l_maxItems q' = l_maxItems q \<and> l_maxBytes q' = l_maxBytes q \<and> l_manifest q' = l_manifest q \<and> l_closed q' = l_closed q
     \<and> (\<forall>a n p f. (a, n) \<in> set (l_admissions q) \<longrightarrow> live (l_fs q) n = Some f \<longrightarrow> entry_file a p f \<longrightarrow>
          (\<exists>f'. live (l_fs q') n = Some f' \<and> entry_file a p f'))
     \<and> (\<forall>n \<in> snd ` set (l_admissions q). log_cost (l_fs q') n \<le> log_cost (l_fs q) n)
     \<and> distinct (l_names q')
     \<and> (\<forall>n. n \<in> set (l_names q') \<longleftrightarrow> n \<in> snd ` set (l_admissions q)
          \<and> (\<exists>f r. live (l_fs q') n = Some f \<and> decodeLogRecord (f_data f) = Inr r \<and> lr_ready r))"

lemma scanned_ready:
  "scanned s D q \<Longrightarrow> n \<in> set (l_names q) \<longleftrightarrow> n \<in> snd ` set (l_admissions q)
     \<and> (\<exists>f r. live (l_fs q) n = Some f \<and> decodeLogRecord (f_data f) = Inr r \<and> lr_ready r)"
  unfolding scanned_def by (elim conjE allE[of _ n]) assumption

lemma scanned_calm: "scanned s D q \<Longrightarrow> calm (l_fs q)" "scanned s D q \<Longrightarrow> distinct (l_names q)"
  "scanned s D q \<Longrightarrow> distinct (map fst (l_admissions q)) \<and> distinct (map snd (l_admissions q))"
  by (simp_all add: scanned_def)

lemma recovered_same:
  assumes sc: "scanned s D q" and q': "q' = q\<lparr>l_fs := s1\<rparr>" and f1: "framed {} (l_fs q) s1"
  shows "recovered q q'"
proof -
  have l1: "live s1 = live (l_fs q)" using f1 by (simp add: framed_def fun_eq_iff)
  have c1: "calm s1" by (rule calm_framed[OF scanned_calm(1)[OF sc] f1]) simp
  have "log_cost s1 = log_cost (l_fs q)" using l1 by (simp add: log_cost_def fun_eq_iff)
  then show ?thesis using c1 scanned_calm(2)[OF sc] allI[of "\<lambda>n. _ n", OF scanned_ready[OF sc]]
    unfolding q' recovered_def by (simp add: l1)
qed

lemma log_entry_inj: "log_entry a b p = log_entry a' b' p' \<longleftrightarrow> a = a' \<and> b = b' \<and> p = p'"
  by (auto simp: log_entry_def)

lemma recoverPendingActivation_effect:
  assumes sc: "scanned s D q" and r: "recoverPendingActivation q = (Inr u, q')"
  shows "recovered q q'"
proof -
  let ?rp = "''.replace.pending''"
  note r' = r[unfolded recoverPendingActivation_def on_log_fs_def Let_def]
  obtain x s1 where rd: "log_read ?rp (l_fs q) = (x, s1)" by fastforce
  have f1: "framed {} (l_fs q) s1" by (rule log_read_live[OF rd])
  show ?thesis
  proof (cases x)
    case (Inl e)
    then have "q' = q\<lparr>l_fs := s1\<rparr>" using r' rd by (auto split: if_splits)
    then show ?thesis by (rule recovered_same[OF sc _ f1])
  next
    case (Inr raw)
    obtain g where g: "live (l_fs q) ?rp = Some g" "raw = f_data g" using log_read_Inr rd Inr by blast
    obtain pend where pd: "decodeLogRecord raw = Inr pend" "lr_ready pend" using r' rd Inr by (auto split: sum.splits if_splits)
    have "written g" using calmD[OF scanned_calm(1)[OF sc] _ g(1)] by (simp add: record_entry_def)
    from written_entry[OF this] pd g(2) obtain a b p where e: "pend = log_entry a b p" "entry_file a p g" by blast
    have b: "b" using pd(2) e(1) by simp
    define n where "n = admitted_name q a"
    have an: "n \<noteq> []" using r' rd Inr pd e(1) by (auto simp: n_def admitted_name_def split: if_splits)
    then have adm: "(a, n) \<in> set (l_admissions q)" by (auto simp: n_def admitted_name_def dest: map_of_SomeD split: option.splits)
    from scanned_adm[OF sc adm] obtain p0 f where f: "live (l_fs q) n = Some f" "entry_file a p0 f" and sh: "log_shaped n" by blast
    have l1: "live s1 = live (l_fs q)" using f1 by (simp add: framed_def fun_eq_iff)
    obtain y s2 where rt: "log_read n s1 = (y, s2)" by fastforce
    have f2: "framed {} s1 s2" by (rule log_read_live[OF rt])
    have l2: "live s2 = live (l_fs q)" using f2 l1 by (simp add: framed_def fun_eq_iff)
    have nq: "admitted_name (q\<lparr>l_fs := s1\<rparr>) a = n" by (simp add: n_def admitted_name_def)
    obtain c where c: "y = Inr c" using r' rd Inr pd e(1) an rt nq by (cases y) auto
    have cf: "c = f_data f" using log_read_Inr rt c l1 f(1) by fastforce
    obtain b0 where dec: "decodeLogRecord c = Inr (log_entry a b0 p0)" "f_data f = marshal_log_record (log_entry a b0 p0)"
      using entry_file_decode[OF f(2)] cf by auto
    have pp: "p0 = p" using r' rd Inr pd e(1) an rt nq c dec(1) by (auto split: if_splits)
    obtain s3 where rn: "rename ?rp n s2 = (Inr (), s3)"
      using r' rd Inr pd e(1) an rt nq c dec(1) pp by (cases "rename ?rp n s2"; cases "fst (rename ?rp n s2)") (auto split: if_splits)
    let ?names = "if b0 then l_names q else l_names q @ [n]"
    obtain s4 where sy: "syncDir s3 = (Inr u, s4)" "q' = q\<lparr>l_fs := s4, l_names := ?names\<rparr>"
      using r' rd Inr pd e(1) an rt nq c dec(1) pp rn
      by (cases "syncDir s3") (auto simp: log_entry_def split: if_splits)
    have rpn: "?rp \<noteq> n" using sh by (auto simp: log_shaped_def)
    have f3: "framed {?rp, n} s2 s3" by (rule framesD[OF frames_rename rn]) simp_all
    have moved: "live s4 n = Some g" "live s4 ?rp = None" using rename_Inr[OF rn rpn] l2 g(1) syncDir_live[OF sy(1)] by auto
    have other: "live s4 m = live (l_fs q) m" if "m \<noteq> n" "m \<noteq> ?rp" for m
      using that f3 l2 syncDir_live[OF sy(1)] by (simp add: framed_def)
    have calm: "calm s4"
    proof (rule after_syncDir[OF sy(1)])
      fix m h assume m: "record_entry m" "live s3 m = Some h"
      show "written h"
      proof (cases "m = n")
        case True
        with m moved syncDir_live[OF sy(1)] \<open>written g\<close> show ?thesis by simp
      next
        case False
        moreover have "m \<noteq> ?rp" using m(2) moved(2) syncDir_live[OF sy(1)] by auto
        ultimately have "live (l_fs q) m = Some h" using other[of m] m(2) syncDir_live[OF sy(1)] by simp
        with calmD[OF scanned_calm(1)[OF sc] m(1)] show ?thesis by blast
      qed
    qed
    have admrp: "m \<noteq> ?rp" if "m \<in> snd ` set (l_admissions q)" for m
      using scanned_name(1)[OF sc that] by (auto simp: log_shaped_def)
    have uniq: "a' = a" if "(a', n) \<in> set (l_admissions q)" for a'
      using scanned_calm(3)[OF sc] adm that by (metis Pair_inject distinct_map inj_onD snd_conv)
    have gd: "f_data g = marshal_log_record (log_entry a True p)" "decodeLogRecord (f_data g) = Inr (log_entry a True p)"
      using entry_file_decode[OF e(2)] pd(1) g(2) e(1) b by (auto simp: log_entry_inj)
    have shorter: "length (f_data g) \<le> length (f_data f)"
      using gd(1) dec(2) pp length_log_entry[of a p] e(2) by (cases b0) (auto simp: entry_file_def)
    show ?thesis unfolding recovered_def
    proof (intro conjI)
      show "calm (l_fs q')" by (simp add: sy(2) calm)
      show "\<forall>a' m p' h. (a', m) \<in> set (l_admissions q) \<longrightarrow> live (l_fs q) m = Some h \<longrightarrow> entry_file a' p' h \<longrightarrow>
          (\<exists>f'. live (l_fs q') m = Some f' \<and> entry_file a' p' f')"
      proof (intro allI impI)
        fix a' m p' h assume h: "(a', m) \<in> set (l_admissions q)" "live (l_fs q) m = Some h" "entry_file a' p' h"
        show "\<exists>f'. live (l_fs q') m = Some f' \<and> entry_file a' p' f'"
        proof (cases "m = n")
          case True
          with h uniq f have "a' = a" "h = f" by auto
          with h(3) entry_file_decode[OF h(3)] dec(1) cf pp have "p' = p" by (auto simp: log_entry_inj)
          with True \<open>a' = a\<close> moved(1) e(2) sy(2) show ?thesis by simp
        next
          case False
          moreover have "m \<in> snd ` set (l_admissions q)" using h(1) by force
          ultimately have "live s4 m = live (l_fs q) m" using other admrp by blast
          with h sy(2) show ?thesis by simp
        qed
      qed
      show "\<forall>m \<in> snd ` set (l_admissions q). log_cost (l_fs q') m \<le> log_cost (l_fs q) m"
      proof
        fix m assume m: "m \<in> snd ` set (l_admissions q)"
        show "log_cost (l_fs q') m \<le> log_cost (l_fs q) m"
        proof (cases "m = n")
          case True
          with moved(1) f(1) shorter charge_mono show ?thesis by (simp add: sy(2) log_cost_def)
        next
          case False
          with other admrp[OF m] show ?thesis by (simp add: sy(2) log_cost_def)
        qed
      qed
      have nn: "b0 \<longleftrightarrow> n \<in> set (l_names q)"
        using scanned_ready[OF sc, of n] f(1) dec(1) cf adm by (auto simp: rev_image_eqI)
      show "distinct (l_names q')" using scanned_calm(2)[OF sc] nn by (simp add: sy(2))
      show "\<forall>m. m \<in> set (l_names q') \<longleftrightarrow> m \<in> snd ` set (l_admissions q)
          \<and> (\<exists>f r. live (l_fs q') m = Some f \<and> decodeLogRecord (f_data f) = Inr r \<and> lr_ready r)"
      proof
        fix m
        have nadm: "n \<in> snd ` set (l_admissions q)" using adm by (rule rev_image_eqI) simp
        show "m \<in> set (l_names q') \<longleftrightarrow> m \<in> snd ` set (l_admissions q)
          \<and> (\<exists>f r. live (l_fs q') m = Some f \<and> decodeLogRecord (f_data f) = Inr r \<and> lr_ready r)"
        proof (cases "m = n")
          case True
          then show ?thesis using nadm nn moved(1) gd(2) by (simp add: sy(2))
        next
          case False
          then have "m \<in> set (l_names q') \<longleftrightarrow> m \<in> set (l_names q)" by (simp add: sy(2))
          with scanned_ready[OF sc, of m] other[OF False] admrp[of m] show ?thesis
            by (cases "m \<in> snd ` set (l_admissions q)") (simp_all add: sy(2))
        qed
      qed
    qed (simp_all add: sy(2))
  qed
qed

section \<open>The opened spool\<close>

lemma load_log_manifest_next: "load_log_manifest h s = (Inr m, s') \<Longrightarrow> 0 < lm_next m \<and> lm_scope m = h"
proof -
  assume a: "load_log_manifest h s = (Inr m, s')"
  obtain x s1 where rd: "readPrivateFile ''manifest.json'' 1048576 s = (x, s1)" by fastforce
  note a' = a[unfolded load_log_manifest_def andThen_def attempt_def rd prod.case sum.case Let_def]
  show ?thesis
  proof (cases x)
    case (Inl e)
    with a' have "m = \<lparr>lm_version = 1, lm_scope = h, lm_next = 1\<rparr>" by (auto split: if_splits prod.splits sum.splits)
    then show ?thesis by simp
  next
    case (Inr raw)
    with a' show ?thesis by (auto simp: word_gt_0 split: option.splits if_splits)
  qed
qed

lemma read_dir_Inr: "read_dir s = (Inr es, s') \<Longrightarrow> distinct es \<and> set es = {n. live s n \<noteq> None} \<and> live s' = live s \<and> poss s' = poss s"
  unfolding read_dir_def by (drule syscall_Inr) (auto simp: live_def map_of_eq_None_iff, force)

text \<open>The invariant of an open spool needs the receipts below the next sequence number, which opening does not check.\<close>

definition numbered :: "log_disk \<Rightarrow> bool" where
  "numbered q \<longleftrightarrow> (\<forall>n \<in> snd ` set (l_admissions q). is_lrec (lm_next (l_manifest q)) n)"

lemma calm_sound:
  assumes "calm s" "length n = 25" "live s n = Some f" "entry_file a p f"
  shows "sound s a n"
proof -
  have "poss s n = {live s n}" using assms(1,2) by (simp add: calm_def record_entry_def)
  then have "kept s a p n" using assms by (simp add: kept_def)
  then show ?thesis by (auto simp: sound_def)
qed

lemma OpenLogDisk_effect:
  assumes c0: "calm s0" and o: "OpenLogDisk dir env sc mb mi s0 = (Inr q, s')"
  shows "l_fs q = s' \<and> \<not> l_closed q \<and> calm s' \<and> l_maxBytes q = mb \<and> l_maxItems q = mi
     \<and> LogsHash sc = Inr (lm_scope (l_manifest q))
     \<and> distinct (map fst (l_admissions q)) \<and> sorted_wrt (<) (l_names q)
     \<and> (\<forall>n. n \<in> set (l_names q) \<longleftrightarrow> n \<in> snd ` set (l_admissions q)
          \<and> (\<exists>f r. live s' n = Some f \<and> decodeLogRecord (f_data f) = Inr r \<and> lr_ready r))
     \<and> (\<forall>n f a p. log_shaped n \<longrightarrow> live s0 n = Some f \<longrightarrow> entry_file a p f \<longrightarrow>
          (a, n) \<in> set (l_admissions q) \<and> log_content q n = Some p)
     \<and> (numbered q \<longrightarrow> log_inv q)"
  using o
proof (cases rule: OpenLogDisk_cases)
  case (loaded h m s1 s2 s3 s4)
  have c1: "calm s1" by (rule calm_framed[OF c0 framesD[OF frames_open_lock_file loaded(1)]]) (auto simp: record_entry_def)
  have c2: "calm s2" using flock_live[OF loaded(2)] calm_live_poss c1 by blast
  have c3: "calm s3" by (rule calm_framed[OF c2 framesD[OF frames_recoverLogManifest loaded(3)]]) (auto simp: record_entry_def)
  have c4: "calm s4" by (rule calm_framed[OF c3 framesD[OF frames_load_log_manifest loaded(4)]]) (auto simp: record_entry_def)
  have l4: "live s4 n = live s0 n" if "length n = 25" for n
  proof -
    have "n \<notin> {''lock''}" "n \<notin> {''.manifest.pending'', ''manifest.json''}" using that by auto
    then have "live s1 n = live s0 n" "live s3 n = live s2 n" "live s4 n = live s3 n"
      using live_framed[OF framesD[OF frames_open_lock_file loaded(1)]] live_framed[OF framesD[OF frames_recoverLogManifest loaded(3)]]
        live_framed[OF framesD[OF frames_load_log_manifest loaded(4)]] by blast+
    with flock_live[OF loaded(2)] show ?thesis by simp
  qed
  obtain y s5 where rp: "recoverPendingRecord (lm_next m) s4 = (y, s5)" by fastforce
  with loaded(6) obtain w where y: "y = Inr w" by (cases y) (auto simp: log_failed_def)
  have c5: "calm s5" "grown s4 s5" using recoverPendingRecord_calm[OF c4 rp[unfolded y]] by auto
  obtain z s6 where rd: "read_dir s5 = (z, s6)" by fastforce
  with loaded(6) rp y obtain es where z: "z = Inr es" by (cases z) (auto simp: log_failed_def)
  note es = read_dir_Inr[OF rd[unfolded z]]
  have c6: "calm s6" using c5 es calm_live_poss by blast
  let ?q = "\<lparr>l_lock = True, l_manifest = m, l_names = [], l_admissions = [],
                   l_bytes = 16384 + charge (mi * 256), l_count = 0, l_maxItems = mi, l_maxBytes = mb,
                   l_closed = False, l_wake = False, l_corrupt = 0, l_fs = s6\<rparr>"
  obtain v q1 where sn: "log_scan es ?q = (v, q1)" by fastforce
  with loaded(6) rp y rd z obtain u where v: "v = Inr u" by (cases v) (auto simp: log_failed_def split: if_splits)
  have fin: "finish_log_open q1 = (Inr q, s')" using loaded(6) rp y rd z sn v by (auto simp: log_failed_def split: if_splits)
  have sc0: "scanned s6 {} ?q" using c6 by (simp add: scanned_def base_cost_def)
  from log_scan_scanned[OF sc0 _ _ sn[unfolded v]] es
  have sc1: "scanned s6 (set es) q1" and same1: "l_maxItems q1 = mi" "l_maxBytes q1 = mb" "l_manifest q1 = m" by auto
  obtain x q2 where ra: "recoverPendingActivation q1 = (x, q2)" by fastforce
  with fin obtain t where x: "x = Inr t" by (cases x) (auto simp: finish_log_open_def log_failed_def)
  note rec = recoverPendingActivation_effect[OF sc1 ra[unfolded x]]
  have lim: "l_bytes q2 \<le> l_maxBytes q2" "l_count q2 \<le> l_maxItems q2" and q: "q = q2\<lparr>l_names := sort (l_names q2)\<rparr>" "s' = l_fs q2"
    using fin ra x by (auto simp: finish_log_open_def log_failed_def Let_def split: if_splits)
  have dist: "distinct (l_names q2)" using rec by (simp add: recovered_def)
  then have srt: "sorted_wrt (<) (l_names q)" by (simp add: q strict_sorted_iff)
  have closed: "\<not> l_closed q"
  proof -
    have "l_closed q1 = l_closed ?q" using sn v
    proof -
      have e1: "l_closed q'' = l_closed q'" if "log_scan_entry n q' = (Inr u', q'')" for n q' q'' u'
        using that by (auto simp: log_scan_entry_def on_log_fs_def log_quarantine_def split: if_splits prod.splits sum.splits)
      have "log_scan ns q' = (Inr u', q'') \<Longrightarrow> l_closed q'' = l_closed q'" for ns q' q'' u'
      proof (induction ns arbitrary: q')
        case (Cons n ns)
        then obtain k where "log_scan_entry n q' = (Inr (), k)" "log_scan ns k = (Inr u', q'')"
          by (auto split: prod.splits sum.splits)
        with Cons.IH e1 show ?case by auto
      qed simp
      with sn v show ?thesis by blast
    qed
    then show ?thesis using rec q(1) by (simp add: recovered_def)
  qed
  have adm: "l_admissions q = l_admissions q1" "l_manifest q = m" "l_fs q = s'" using rec q same1 by (auto simp: recovered_def)
  have keepf: "\<exists>f'. live s' n = Some f' \<and> entry_file a p f'" if "(a, n) \<in> set (l_admissions q1)" "live (l_fs q1) n = Some f" "entry_file a p f" for a n p f
    using rec that q(2) by (simp add: recovered_def)
  have entry: "\<exists>p f. live s' n = Some f \<and> entry_file a p f" if "(a, n) \<in> set (l_admissions q1)" for a n
    using scanned_adm(3)[OF sc1 that] keepf[OF that] by blast
  have names: "\<forall>n. n \<in> set (l_names q) \<longleftrightarrow> n \<in> snd ` set (l_admissions q)
          \<and> (\<exists>f r. live s' n = Some f \<and> decodeLogRecord (f_data f) = Inr r \<and> lr_ready r)"
    using rec unfolding recovered_def q adm(1)[unfolded q(1)] by simp
  have listed: "(a, n) \<in> set (l_admissions q) \<and> log_content q n = Some p"
    if n: "log_shaped n" "live s0 n = Some f" "entry_file a p f" for n f a p
  proof -
    have len: "length n = 25" using n(1) by (simp add: log_shaped_def)
    have "live s4 n = Some f" using l4[OF len] n(2) by simp
    then have l6: "live s6 n = Some f" using c5(2) len es by (simp add: grown_def)
    then have ne: "n \<in> set es" using es by simp
    have ok: "is_ok (decodeLogRecord (f_data f))" using n(3) by (simp add: entry_file_def)
    have "\<forall>n \<in> set es. \<forall>f. log_shaped n \<longrightarrow> live s6 n = Some f \<longrightarrow> is_ok (decodeLogRecord (f_data f)) \<longrightarrow> n \<in> snd ` set (l_admissions q1)"
      using sc1 unfolding scanned_def by (elim conjE)
    with ne n(1) l6 ok have "n \<in> snd ` set (l_admissions q1)" by blast
    then obtain a' where a': "(a', n) \<in> set (l_admissions q1)" by auto
    from scanned_adm(3)[OF sc1 a'] obtain p' f' where f': "live (l_fs q1) n = Some f'" "entry_file a' p' f'" by blast
    have "live (l_fs q1) n = None \<or> live (l_fs q1) n = live s6 n" using sc1 len by (simp add: scanned_def)
    with f' l6 have "f' = f" by auto
    with f'(2) n(3) entry_file_decode[OF f'(2)] entry_file_decode[OF n(3)] have "a' = a" by (auto simp: log_entry_inj)
    with a' have an: "(a, n) \<in> set (l_admissions q1)" by simp
    from keepf[OF an] f' \<open>f' = f\<close> n(3) obtain g where g: "live s' n = Some g" "entry_file a p g" by blast
    from entry_file_decode[OF g(2)] g(1) adm(3) have "log_content q n = Some p" by (auto simp: log_content_def)
    with an adm(1) show ?thesis by simp
  qed
  have inv: "log_inv q" if num: "numbered q"
  proof -
    have "is_lrec (lm_next m) n \<and> sound s' a n" if an: "(a, n) \<in> set (l_admissions q1)" for a n
    proof -
      have in_n: "n \<in> snd ` set (l_admissions q1)" using an by (rule rev_image_eqI) simp
      have len: "length n = 25" using scanned_name(1)[OF sc1 in_n] by (simp add: log_shaped_def)
      obtain p f where f: "live s' n = Some f" "entry_file a p f" using entry[OF an] by blast
      have "calm s'" using rec q by (simp add: recovered_def)
      from calm_sound[OF this len f] have "sound s' a n" .
      moreover have "is_lrec (lm_next m) n" using num in_n unfolding numbered_def adm by blast
      ultimately show ?thesis by simp
    qed
    moreover have "sum_list (map (\<lambda>(a, n). log_cost s' n) (l_admissions q1)) \<le> sum_list (map (\<lambda>(a, n). log_cost (l_fs q1) n) (l_admissions q1))"
    proof (rule sum_list_mono)
      fix e assume "e \<in> set (l_admissions q1)"
      then have "snd e \<in> snd ` set (l_admissions q1)" by simp
      moreover have "\<forall>n \<in> snd ` set (l_admissions q1). log_cost (l_fs q2) n \<le> log_cost (l_fs q1) n"
        using rec unfolding recovered_def by (elim conjE)
      ultimately show "(case e of (a, n) \<Rightarrow> log_cost s' n) \<le> (case e of (a, n) \<Rightarrow> log_cost (l_fs q1) n)"
        unfolding q(2) by (cases e) auto
    qed
    moreover have "l_count q = int (length (l_admissions q1))" "l_bytes q = base_cost mi + sum_list (map (\<lambda>(a, n). log_cost (l_fs q1) n) (l_admissions q1))"
      "l_maxItems q = mi" "l_maxBytes q = mb" using rec sc1 same1 unfolding recovered_def scanned_def q by simp_all
    moreover have "set (l_names q) \<subseteq> snd ` set (l_admissions q1)" using names adm(1) by auto
    moreover have "0 < lm_next m" using load_log_manifest_next[OF loaded(4)] by simp
    moreover have "l_count q \<le> mi" "l_bytes q \<le> mb" using lim rec same1 unfolding recovered_def q by simp_all
    ultimately show ?thesis using srt scanned_calm(3)[OF sc1] unfolding log_inv_def log_ok_def adm by auto
  qed
  have "calm s'" "l_maxBytes q = mb" "l_maxItems q = mi" using rec same1 q by (simp_all add: recovered_def)
  moreover have "LogsHash sc = Inr (lm_scope (l_manifest q))" using loaded(5) load_log_manifest_next[OF loaded(4)] adm(2) by simp
  moreover have "distinct (map fst (l_admissions q))" using scanned_calm(3)[OF sc1] adm(1) by simp
  ultimately show ?thesis using srt closed names listed inv adm(3) by blast
qed auto

end
