(* ===== verification/LogHealthy.thy ===== *)
theory LogHealthy
  imports LogOpenFacts
begin

text \<open>The operations of the logs spool on a directory where no call fails: what each of them returns.\<close>

section \<open>A directory without faults\<close>

definition tidy :: "fs \<Rightarrow> bool" where
  "tidy s \<longleftrightarrow> healthy s \<and> live s ''.pending'' = None \<and> live s ''.replace.pending'' = None \<and> live s ''.manifest.pending'' = None
     \<and> (\<forall>n. \<not> is_dir s n)"

lemma tidy_framed:
  assumes "tidy s" "framed T s s'" "healthy s'" "\<forall>n \<in> T. \<not> is_dir s' n"
    "\<forall>n \<in> T. n \<in> {''.pending'', ''.replace.pending'', ''.manifest.pending''} \<longrightarrow> live s' n = None"
  shows "tidy s'"
proof -
  have o: "live s' n = live s n" if "n \<notin> T" for n using assms(2) that by (simp add: framed_def)
  have "\<not> is_dir s' n" for n using o[of n] assms(1,4) by (cases "n \<in> T") (auto simp: tidy_def is_dir_def)
  moreover have "live s' n = None" if "n \<in> {''.pending'', ''.replace.pending'', ''.manifest.pending''}" for n
    using o[of n] assms(1,5) that by (cases "n \<in> T") (auto simp: tidy_def)
  ultimately show ?thesis using assms(3) by (simp add: tidy_def)
qed

lemma healthy_publish:
  assumes h: "healthy s" and l: "live s stage = Some f" and n: "\<not> is_dir s n" "n \<noteq> stage"
  shows "\<exists>s'. publish stage n d s = (Inr (), s') \<and> healthy s'"
proof -
  obtain s1 where f1: "fill stage d s = (Inr (), s1)" "healthy s1" using healthy_fill[OF h l] by blast
  have "live s1 n = live s n" using live_framed[OF framesD[OF frames_fill f1(1)], of "{stage}" n] n by simp
  then have "\<not> is_dir s1 n" using n by (simp add: is_dir_def)
  moreover have "live s1 stage \<noteq> None" using fill_Inr[OF f1(1) l] by simp
  ultimately obtain s2 where s2: "rename stage n s1 = (Inr (), s2)" "healthy s2" using healthy_rename[OF f1(2)] by blast
  obtain s3 where "syncDir s2 = (Inr (), s3)" "healthy s3" using healthy_syncDir[OF s2(2)] by blast
  with f1 s2 show ?thesis by (simp add: publish_def andThen_def)
qed

lemma tidy_publish:
  assumes t: "tidy s" and c: "s1 = put_entry stage (fresh_file s) s"
    and n: "n \<noteq> stage" "n \<notin> {''.pending'', ''.replace.pending'', ''.manifest.pending''}"
  shows "\<exists>s'. publish stage n d s1 = (Inr (), s') \<and> tidy s' \<and> live s' n = Some (new_file s d)"
proof -
  have h: "healthy s1" "live s1 stage = Some (fresh_file s)" "\<not> is_dir s1 n" using t n by (simp_all add: c tidy_def is_dir_def)
  obtain s' where p: "publish stage n d s1 = (Inr (), s')" "healthy s'" using healthy_publish[OF h n(1)] by blast
  have st: "live s' n = Some (new_file s d)" "live s' stage = None"
    using publish_Inr[OF p(1) h(2) n(1)] by (simp_all add: new_file_def fresh_file_def stable_def)
  have "framed {stage, n} s1 s'" by (rule framesD[OF frames_publish p(1)]) simp_all
  moreover have "framed {stage, n} s s1" unfolding c by (rule framed_put_entry) simp
  ultimately have fr: "framed {stage, n} s s'" by (rule framed_trans[rotated])
  have "tidy s'" by (rule tidy_framed[OF t fr p(2)]) (use st n in \<open>auto simp: is_dir_def new_file_def fresh_file_def\<close>)
  with p st show ?thesis by blast
qed

lemma tidy_log_write:
  assumes t: "tidy s" and n: "n \<notin> {''.pending'', ''.replace.pending'', ''.manifest.pending''}"
  shows "\<exists>s'. log_write n d s = (Inr (), s') \<and> tidy s' \<and> live s' n = Some (new_file s d)"
proof -
  have "create_excl ''.pending'' s = (Inr (), put_entry ''.pending'' (fresh_file s) s)"
    using t by (simp add: create_excl_def healthy_syscall tidy_def)
  with tidy_publish[OF t refl, of n "''.pending''" d] n show ?thesis by (simp add: log_write_def andThen_def)
qed

lemma tidy_writeReplacement:
  assumes t: "tidy s" and n: "n \<notin> {''.pending'', ''.replace.pending'', ''.manifest.pending''}"
  shows "\<exists>s'. writeReplacement n d s = (Inr (), s') \<and> tidy s' \<and> live s' n = Some (new_file s d)"
proof -
  have "create_excl ''.replace.pending'' s = (Inr (), put_entry ''.replace.pending'' (fresh_file s) s)"
    using t by (simp add: create_excl_def healthy_syscall tidy_def)
  with tidy_publish[OF t refl, of n "''.replace.pending''" d] n show ?thesis by (simp add: writeReplacement_def andThen_def)
qed

lemma tidy_log_saveManifest:
  assumes t: "tidy s"
  shows "\<exists>s'. log_saveManifest m s = (Inr (), s') \<and> tidy s'"
proof -
  have "create_trunc ''.manifest.pending'' s = (Inr (), put_entry ''.manifest.pending'' (fresh_file s) s)"
    using t by (simp add: create_trunc_def healthy_syscall tidy_def)
  with tidy_publish[OF t refl, of "''manifest.json''" "''.manifest.pending''" "marshal_log_manifest m"]
  show ?thesis by (auto simp: log_saveManifest_def andThen_def)
qed

lemma tidy_log_read:
  assumes "tidy s" "live s n = Some (new_file t d)" "fs_euid t = fs_euid s" "length d \<le> 5242880"
  shows "log_read n s = (Inr d, s)"
  using assms by (simp add: log_read_def readPrivateFile_def andThen_def lstat_def open_read_def read_all_def healthy_syscall
      tidy_def unsafe_inode_def new_file_def fresh_file_def)

lemma log_write_euid: "frames T m \<Longrightarrow> m s = (r, s') \<Longrightarrow> fs_euid s' = fs_euid s"
  using framesD framed_def by blast

section \<open>One record from admission to acknowledgement\<close>

text \<open>The states a record goes through when nothing fails.\<close>

lemma lrec_name_plain: "lrec_name k \<notin> {''.pending'', ''.replace.pending'', ''.manifest.pending''}" "lrec_name k \<noteq> []"
  using lrec_name_length[of k] by auto

lemma tidy_PutAdmission:
  assumes inv: "log_inv q" "log_fits q" and t: "tidy (l_fs q)" and c: "\<not> l_closed q" "validAdmission a" "length d \<le> 4194304"
    "compact d = Some p" "a \<notin> fst ` set (l_admissions q)" "l_count q < l_maxItems q"
    "l_bytes q + charge (int (length (marshal_log_record (log_entry a False p)))) \<le> l_maxBytes q"
  shows "\<exists>s t. PutAdmission None a d q = (Inr (lrec_name (lm_next (l_manifest q)), False),
      q\<lparr>l_manifest := (l_manifest q)\<lparr>lm_next := lm_next (l_manifest q) + 1\<rparr>, l_fs := s,
        l_admissions := l_admissions q @ [(a, lrec_name (lm_next (l_manifest q)))], l_count := l_count q + 1,
        l_bytes := l_bytes q + charge (int (length (marshal_log_record (log_entry a False p))))\<rparr>)
    \<and> tidy s \<and> fs_euid t = fs_euid s \<and> fs_euid s = fs_euid (l_fs q)
    \<and> live s (lrec_name (lm_next (l_manifest q))) = Some (new_file t (marshal_log_record (log_entry a False p)))
    \<and> (\<forall>n \<in> snd ` set (l_admissions q). live s n = live (l_fs q) n)"
proof -
  let ?nx = "lm_next (l_manifest q)" and ?b = "marshal_log_record (log_entry a False p)"
  obtain s1 where m: "log_saveManifest ((l_manifest q)\<lparr>lm_next := ?nx + 1\<rparr>) (l_fs q) = (Inr (), s1)" "tidy s1"
    using tidy_log_saveManifest[OF t] by blast
  obtain s2 where w: "log_write (lrec_name ?nx) ?b s1 = (Inr (), s2)" "tidy s2" "live s2 (lrec_name ?nx) = Some (new_file s1 ?b)"
    using tidy_log_write[OF m(2) lrec_name_plain(1)] by blast
  have e: "fs_euid s1 = fs_euid s2" "fs_euid s2 = fs_euid (l_fs q)"
    using log_write_euid[OF frames_log_write w(1)] log_write_euid[OF frames_log_saveManifest m(1)] by simp_all
  have new: "admitted_name q a = []" using admitted_name_None[OF inv(1)] c(5) by simp
  have v: "json_Valid d" using c(4) compact_Valid by blast
  have put: "PutAdmission None a d q = (Inr (lrec_name ?nx, False),
      q\<lparr>l_manifest := (l_manifest q)\<lparr>lm_next := ?nx + 1\<rparr>, l_fs := s2,
        l_admissions := l_admissions q @ [(a, lrec_name ?nx)], l_count := l_count q + 1,
        l_bytes := l_bytes q + charge (int (length ?b))\<rparr>)"
    using c new v m(1) w(1) by (simp add: PutAdmission_def log_entry_def[symmetric] Let_def on_log_fs_def)
  have "\<forall>n \<in> snd ` set (l_admissions q). live s2 n = live (l_fs q) n"
  proof
    fix n assume n: "n \<in> snd ` set (l_admissions q)"
    have "untouched q (q\<lparr>l_manifest := (l_manifest q)\<lparr>lm_next := ?nx + 1\<rparr>, l_fs := s2,
        l_admissions := l_admissions q @ [(a, lrec_name ?nx)], l_count := l_count q + 1,
        l_bytes := l_bytes q + charge (int (length ?b))\<rparr>)"
      using PutAdmission_effect[OF inv(1) inv(2)[unfolded log_fits_def] put] by blast
    from untouched_live[OF this n] show "live s2 n = live (l_fs q) n" by simp
  qed
  with put w e show ?thesis by (intro exI[of _ s2] exI[of _ s1]) simp
qed

lemma tidy_Activate:
  assumes inv: "log_inv q" and t: "tidy (l_fs q)" and a: "(a, n) \<in> set (l_admissions q)" "n \<notin> set (l_names q)"
    and l: "live (l_fs q) n = Some (new_file t0 (marshal_log_record (log_entry a False p)))" "fs_euid t0 = fs_euid (l_fs q)"
    and p: "validAdmission a" "compact p = Some p" "json_wf (maxNestingDepth - 1) v" "p = pr v"
      "length (marshal_log_record (log_entry a False p)) \<le> 5242880"
  shows "\<exists>s t1. Activate None a q = (Inr (), q\<lparr>l_fs := s, l_names := sort (l_names q @ [n]), l_wake := True\<rparr>) \<and> tidy s
    \<and> fs_euid t1 = fs_euid s \<and> fs_euid s = fs_euid (l_fs q) \<and> live s n = Some (new_file t1 (marshal_log_record (log_entry a True p)))
    \<and> (\<forall>m. length m = 25 \<longrightarrow> m \<noteq> n \<longrightarrow> live s m = live (l_fs q) m)"
proof -
  have in_n: "n \<in> snd ` set (l_admissions q)" using a(1) by (rule rev_image_eqI) simp
  have n25: "length n = 25" by (rule log_names_length[OF inv in_n])
  have rd: "log_read n (l_fs q) = (Inr (marshal_log_record (log_entry a False p)), l_fs q)"
    by (rule tidy_log_read[OF t l(1) l(2) p(5)])
  have dec: "decodeLogRecord (marshal_log_record (log_entry a False p)) = Inr (log_entry a False p)"
    using decode_log_entry[OF p(1) p(3), of False] p(2,4) by simp
  have nn: "n \<notin> {''.pending'', ''.replace.pending'', ''.manifest.pending''}" "n \<noteq> []" using n25 by auto
  obtain s where w: "writeReplacement n (marshal_log_record (log_entry a True p)) (l_fs q) = (Inr (), s)" "tidy s"
    "live s n = Some (new_file (l_fs q) (marshal_log_record (log_entry a True p)))"
    using tidy_writeReplacement[OF t nn(1)] by blast
  have e: "fs_euid (l_fs q) = fs_euid s" using log_write_euid[OF frames_writeReplacement w(1)] by simp
  have "live s m = live (l_fs q) m" if "length m = 25" "m \<noteq> n" for m
  proof -
    have "m \<notin> {''.replace.pending'', n}" using that by auto
    then show ?thesis using live_framed[OF framesD[OF frames_writeReplacement w(1)]] by simp
  qed
  moreover have "Activate None a q = (Inr (), q\<lparr>l_fs := s, l_names := sort (l_names q @ [n]), l_wake := True\<rparr>)"
    using admitted_name_in[OF inv a(1)] nn(2) a(2) rd dec w(1) by (simp add: Activate_def on_log_fs_def)
  ultimately show ?thesis using w(2,3) e by (metis (no_types, lifting))
qed

lemma tidy_LogNext:
  assumes t: "tidy (l_fs q)" and n: "\<not> l_closed q" "l_names q = n # rest"
    and l: "live (l_fs q) n = Some (new_file t0 (marshal_log_record (log_entry a True p)))" "fs_euid t0 = fs_euid (l_fs q)"
    and p: "validAdmission a" "compact p = Some p" "json_wf (maxNestingDepth - 1) v" "p = pr v"
      "length (marshal_log_record (log_entry a True p)) \<le> 5242880"
  shows "LogNext None q = (Inr (Item n p), q)"
proof -
  have rd: "log_read n (l_fs q) = (Inr (marshal_log_record (log_entry a True p)), l_fs q)"
    by (rule tidy_log_read[OF t l p(5)])
  have dec: "decodeLogRecord (marshal_log_record (log_entry a True p)) = Inr (log_entry a True p)"
    using decode_log_entry[OF p(1) p(3), of True] p(2,4) by simp
  show ?thesis using n rd dec by (subst LogNext.simps) (simp add: on_log_fs_def)
qed

lemma tidy_remove:
  assumes "tidy s" "live s n = Some f" "f_kind f = Regular"
  shows "\<exists>s'. remove n s = (Inr (), s') \<and> healthy s'"
  using assms by (simp add: tidy_def remove_def healthy_syscall) (simp add: healthy_def)

lemma tidy_LogAck:
  assumes t: "tidy (l_fs q)" and n: "\<not> l_closed q" "l_names q = n # rest"
    and l: "live (l_fs q) n = Some (new_file t0 (marshal_log_record (log_entry a True p)))" "fs_euid t0 = fs_euid (l_fs q)"
    and p: "validAdmission a" "compact p = Some p" "json_wf (maxNestingDepth - 1) v" "p = pr v"
      "length (marshal_log_record (log_entry a True p)) \<le> 5242880"
  shows "\<exists>s. LogAck None n q = (Inr (), q\<lparr>l_fs := s, l_admissions := forget_admission a (l_admissions q), l_names := rest,
      l_count := l_count q - 1, l_bytes := l_bytes q - charge (int (length (marshal_log_record (log_entry a True p))))\<rparr>)"
proof -
  have rd: "log_read n (l_fs q) = (Inr (marshal_log_record (log_entry a True p)), l_fs q)"
    by (rule tidy_log_read[OF t l p(5)])
  have dec: "decodeLogRecord (marshal_log_record (log_entry a True p)) = Inr (log_entry a True p)"
    using decode_log_entry[OF p(1) p(3), of True] p(2,4) by simp
  obtain s1 where r: "remove n (l_fs q) = (Inr (), s1)" "healthy s1"
    using tidy_remove[OF t l(1)] by (auto simp: new_file_def fresh_file_def)
  obtain s2 where "syncDir s1 = (Inr (), s2)" using healthy_syncDir[OF r(2)] by blast
  then show ?thesis using n rd dec r(1) by (intro exI[of _ s2]) (simp add: LogAck_def on_log_fs_def)
qed

end
