(* ===== verification/LogsSpool.thy ===== *)
theory LogsSpool
  imports LogHealthy
begin

text \<open>
  What the logs spool promises, and where it breaks its promise: durable and idempotent admission, delivery
  after activation only, removal by acceptance only, a budget, recovery after a crash.
\<close>

section \<open>Runs\<close>

text \<open>Any sequence of calls; the script of faults may be replaced before each of them.\<close>

inductive logs_step :: "log_disk \<Rightarrow> log_disk \<Rightarrow> bool" where
  logs_put: "log_fits q \<Longrightarrow> logs_step q (snd (PutAdmission ctx a d q))"
| logs_activate: "logs_step q (snd (Activate ctx a q))"
| logs_next: "logs_step q (snd (LogNext ctx q))"
| logs_ack: "logs_step q (snd (LogAck ctx rid q))"
| logs_close: "logs_step q (snd (CloseLog q))"
| logs_faults: "logs_step q (q\<lparr>l_fs := (l_fs q)\<lparr>fs_fates := fates\<rparr>\<rparr>)"

inductive logs_run :: "log_disk \<Rightarrow> log_disk \<Rightarrow> bool" where
  logs_start: "logs_run q q"
| logs_more: "logs_run q q' \<Longrightarrow> logs_step q' q'' \<Longrightarrow> logs_run q q''"

inductive_cases logs_stepE: "logs_step q q'"

lemma log_inv_live_poss:
  assumes "log_inv q" "live (l_fs q') = live (l_fs q)" "poss (l_fs q') = poss (l_fs q)" "l_manifest q' = l_manifest q"
    "l_names q' = l_names q" "l_admissions q' = l_admissions q" "l_count q' = l_count q" "l_maxItems q' = l_maxItems q"
    "l_bytes q' = l_bytes q" "l_maxBytes q' = l_maxBytes q"
  shows "log_inv q'"
proof -
  have "sound (l_fs q') = sound (l_fs q)" "log_cost (l_fs q') = log_cost (l_fs q)"
    using assms(2,3) by (simp_all add: sound_def junk_def kept_def stable_def log_cost_def fun_eq_iff)
  with assms show ?thesis by (simp add: log_inv_def log_ok_def)
qed

lemma CloseLog_inv: "log_inv q \<Longrightarrow> log_inv (snd (CloseLog q))"
proof -
  assume inv: "log_inv q"
  obtain r s where c: "close_file (l_fs q) = (r, s)" by fastforce
  show ?thesis
  proof (cases "l_lock q")
    case True
    then have e: "snd (CloseLog q) = q\<lparr>l_closed := True, l_wake := True, l_fs := unlock s, l_lock := False\<rparr>"
      using c by (simp add: CloseLog_def Let_def on_log_fs_def)
    show ?thesis unfolding e by (rule log_inv_live_poss[OF inv]) (simp_all add: close_file_state[OF c])
  next
    case False
    then have e: "snd (CloseLog q) = q\<lparr>l_closed := True, l_wake := True\<rparr>" by (simp add: CloseLog_def Let_def)
    show ?thesis unfolding e by (rule log_inv_live_poss[OF inv]) simp_all
  qed
qed

lemma logs_step_inv: "logs_step q q' \<Longrightarrow> log_inv q \<Longrightarrow> log_inv q'"
proof (induction rule: logs_step.induct)
  case (logs_put q ctx a d)
  then show ?case using lq.admit_law[of q ctx a d] by (metis surjective_pairing)
next
  case (logs_activate q ctx a)
  then show ?case using lq.activate_law[of q ctx a] by (metis surjective_pairing)
next
  case (logs_next q ctx)
  then show ?case using lq.fetch_law[of q ctx] by (metis surjective_pairing)
next
  case (logs_ack q ctx rid)
  then show ?case using lq.ack_law[of q ctx rid] by (metis surjective_pairing)
next
  case (logs_close q)
  then show ?case by (rule CloseLog_inv)
next
  case (logs_faults q fates)
  have "live ((l_fs q)\<lparr>fs_fates := fates\<rparr>) = live (l_fs q)" "poss ((l_fs q)\<lparr>fs_fates := fates\<rparr>) = poss (l_fs q)"
    by (auto simp: live_def poss_def fun_eq_iff)
  then show ?case by (intro log_inv_live_poss[OF logs_faults(1)]) simp_all
qed

lemma logs_run_inv: "logs_run q q' \<Longrightarrow> log_inv q \<Longrightarrow> log_inv q'"
  by (induction rule: logs_run.induct) (auto intro: logs_step_inv)

section \<open>A sample\<close>

definition sample_identity :: bytes where
  "sample_identity = replicate 64 (CHR ''a'')"

definition sample_identity2 :: bytes where
  "sample_identity2 = replicate 64 (CHR ''b'')"

lemma sample_identity_valid: "validAdmission sample_identity" "validAdmission sample_identity2" "sample_identity \<noteq> sample_identity2"
proof -
  have "list_all is_hex sample_identity" "length sample_identity = 2 * 32" "list_all is_hex sample_identity2" "length sample_identity2 = 2 * 32"
    by (simp_all add: sample_identity_def sample_identity2_def list_all_iff is_hex_def is_digit_def)
  then show "validAdmission sample_identity" "validAdmission sample_identity2"
    using DecodeString_hex[of sample_identity 32] DecodeString_hex[of sample_identity2 32]
    by (auto simp: validAdmission_def)
  show "sample_identity \<noteq> sample_identity2" by (simp add: sample_identity_def sample_identity2_def)
qed

definition empty_dir :: fs where
  "empty_dir = \<lparr>fs_dir = [], fs_disk = [], fs_recent = [], fs_fates = [], fs_euid = 1000, fs_locked = True\<rparr>"

definition sample_log :: log_disk where
  "sample_log = \<lparr>l_lock = True, l_manifest = \<lparr>lm_version = 1, lm_scope = ''s'', lm_next = 1\<rparr>, l_names = [], l_admissions = [],
     l_bytes = base_cost 8, l_count = 0, l_maxItems = 8, l_maxBytes = 1000000, l_closed = False, l_wake = False, l_corrupt = 0,
     l_fs = empty_dir\<rparr>"

lemma sample_log_inv: "log_inv sample_log" "log_fits sample_log" "tidy (l_fs sample_log)"
  by (simp_all add: log_inv_def log_ok_def sample_log_def log_fits_def base_cost_def charge_def tidy_def empty_dir_def
      healthy_def live_def is_dir_def)

text \<open>A payload that fits any record: digits.\<close>

lemma digits_payload:
  assumes "0 < n"
  shows "compact (dec n) = Some (dec n)" "json_wf d (JNum (dec n))" "dec n = pr (JNum (dec n))"
proof -
  show "json_wf d (JNum (dec n))" by (rule json_wf_dec)
  have "json_parse (dec n) = Some (JNum (dec n))" using json_parse_pr[of "JNum (dec n)"] json_wf_dec by simp
  then show "compact (dec n) = Some (dec n)" by (simp add: compact_def)
  show "dec n = pr (JNum (dec n))" by simp
qed

lemma log_entry_length:
  assumes "validAdmission a" "compact p = Some p"
  shows "length (marshal_log_record (log_entry a False p)) = 194 + length p"
    "length (marshal_log_record (log_entry a True p)) = 193 + length p"
proof -
  have "length a = 64" using assms(1) by (simp add: validAdmission_def)
  then show "length (marshal_log_record (log_entry a False p)) = 194 + length p"
    "length (marshal_log_record (log_entry a True p)) = 193 + length p"
    using assms(2) dec_int_of_nat[of 1] dec.simps[of 1]
    by (simp_all add: marshal_log_record_def log_entry_def quote_body_text[OF Sum256_text] quote_body_text[OF validAdmission_text[OF assms(1)]])
qed

section \<open>Acceptance\<close>

text \<open>
  C10: An admission that reports success is durable and idempotent: the receipt is bound to the identity, its
  file has the record now and after any crash, and admitting the identity again, with whatever valid
  payload, answers the same receipt, says that it existed and changes nothing.
\<close>

theorem admission_is_durable_and_idempotent:
  assumes "log_inv q" "log_fits q" "PutAdmission ctx a d q = (Inr (n, False), q')"
    and "\<not> l_closed q'" "length d2 \<le> 4194304" "json_Valid d2"
  shows "(a, n) \<in> set (l_admissions q') \<and> log_content q' n = log_stored a d
    \<and> (\<forall>img. crash_image (l_fs q') img \<longrightarrow> (\<exists>f p. img n = Some f \<and> compact d = Some p \<and> f_data f = marshal_log_record (log_entry a False p)))
    \<and> PutAdmission None a d2 q' = (Inr (n, True), q')"
proof -
  note e = PutAdmission_effect[OF assms(1) assms(2)[unfolded log_fits_def] assms(3)]
  have inv: "log_inv q'" and adm: "l_admissions q' = l_admissions q @ [(a, n)]" and v: "validAdmission a" using e by auto
  obtain p f where f: "compact d = Some p" "stable (l_fs q') n f" "f_data f = marshal_log_record (log_entry a False p)" using e by auto
  have an: "(a, n) \<in> set (l_admissions q')" using adm by simp
  have "n \<in> snd ` set (l_admissions q')" using an by (rule rev_image_eqI) simp
  from log_names_length[OF inv this] have ne: "n \<noteq> []" by auto
  have "log_content q' n = log_stored a d" using lq.admit_law[OF assms(1,2,3)] by simp
  moreover have "PutAdmission None a d2 q' = (Inr (n, True), q')"
    using admitted_name_in[OF inv an] ne assms(4-6) v by (simp add: PutAdmission_def)
  ultimately show ?thesis using an f stable_crash by blast
qed

lemma sample_log_put:
  "\<exists>q1. PutAdmission None sample_identity (dec 1) sample_log = (Inr (lrec_name 1, False), q1) \<and> \<not> l_closed q1"
proof -
  have c: "compact (dec 1) = Some (dec 1)" by (rule digits_payload) simp
  have l: "length (marshal_log_record (log_entry sample_identity False (dec 1))) = 195"
    using log_entry_length(1)[OF sample_identity_valid(1) c] dec.simps[of 1] by simp
  have g: "sample_identity \<notin> fst ` set (l_admissions sample_log)" "\<not> l_closed sample_log" "length (dec 1) \<le> 4194304"
    "l_count sample_log < l_maxItems sample_log"
    "l_bytes sample_log + charge (int (length (marshal_log_record (log_entry sample_identity False (dec 1))))) \<le> l_maxBytes sample_log"
    unfolding l using dec.simps[of 1] by (simp_all add: sample_log_def base_cost_def charge_def)
  obtain q1 where q1: "PutAdmission None sample_identity (dec 1) sample_log = (Inr (lrec_name (lm_next (l_manifest sample_log)), False), q1)"
      "l_closed q1 = l_closed sample_log"
    using tidy_PutAdmission[OF sample_log_inv g(2) sample_identity_valid(1) g(3) c g(1,4,5)] by force
  from q1 show ?thesis by (simp add: sample_log_def)
qed

theorem admission_is_durable_and_idempotent_witness:
  "\<exists>q1. PutAdmission None sample_identity (dec 1) sample_log = (Inr (lrec_name 1, False), q1)
     \<and> PutAdmission None sample_identity (dec 2) q1 = (Inr (lrec_name 1, True), q1)"
proof -
  obtain q1 where q1: "PutAdmission None sample_identity (dec 1) sample_log = (Inr (lrec_name 1, False), q1)" "\<not> l_closed q1"
    using sample_log_put by blast
  have c: "compact (dec 2) = Some (dec 2)" by (rule digits_payload) simp
  then have v: "json_Valid (dec 2)" using compact_Valid by blast
  have "length (dec 2) \<le> 4194304" using dec.simps[of 2] by simp
  from admission_is_durable_and_idempotent[OF sample_log_inv(1,2) q1(1) q1(2) this v] q1(1) show ?thesis by blast
qed

section \<open>The budget\<close>

text \<open>
  C33: The logs spool stays within its budget: after any sequence of calls, under any faults, the reserve and
  the cost of every admitted record are within the byte count, which is within the configured budget, the
  count is the number of admissions and within the item limit, and the deliverable receipts ascend in
  sequence order, each of them admitted, with distinct identities.
\<close>

theorem logs_spool_stays_within_budget:
  assumes "log_inv q0" "logs_run q0 q"
  shows "base_cost (l_maxItems q) + sum_list (map (\<lambda>(a, n). log_cost (l_fs q) n) (l_admissions q)) \<le> l_bytes q
    \<and> l_bytes q \<le> l_maxBytes q \<and> l_count q = int (length (l_admissions q)) \<and> l_count q \<le> l_maxItems q
    \<and> sorted_wrt (<) (l_names q) \<and> set (l_names q) \<subseteq> snd ` set (l_admissions q)
    \<and> distinct (map fst (l_admissions q)) \<and> distinct (map snd (l_admissions q))"
  using logs_run_inv[OF assms(2,1)] by (simp add: log_inv_def log_ok_def)

theorem logs_spool_stays_within_budget_witness:
  "l_bytes (snd (Activate None sample_identity (snd (PutAdmission None sample_identity (dec 1) sample_log))))
     \<le> l_maxBytes (snd (Activate None sample_identity (snd (PutAdmission None sample_identity (dec 1) sample_log))))"
  using logs_spool_stays_within_budget[OF sample_log_inv(1)
      logs_more[OF logs_more[OF logs_start logs_put[OF sample_log_inv(2)]] logs_activate]] by simp

text \<open>
  The budget leaks: a record whose stored form is one byte more than a multiple of 4096 while it waits for
  activation is charged one unit more when it is admitted than is returned when it is acknowledged,
  because activation shortens the record by one byte. After its whole life on a faultless disk the spool
  is as empty as before and has 4096 bytes less to give, until it is opened again.
\<close>

theorem budget_leaks_a_unit:
  assumes "log_inv q" "log_fits q" "tidy (l_fs q)" "\<not> l_closed q" "l_names q = []" "validAdmission a"
    "a \<notin> fst ` set (l_admissions q)" "l_count q < l_maxItems q" "json_wf (maxNestingDepth - 1) v" "jesc v = v"
    "(194 + length (pr v)) mod 4096 = 1" "194 + length (pr v) \<le> 4194304"
    "l_bytes q + charge (int (194 + length (pr v))) \<le> l_maxBytes q"
  shows "\<exists>n q1 q2 q4. PutAdmission None a (pr v) q = (Inr (n, False), q1) \<and> Activate None a q1 = (Inr (), q2)
    \<and> LogNext None q2 = (Inr (Item n (pr v)), q2) \<and> LogAck None n q2 = (Inr (), q4)
    \<and> l_admissions q4 = l_admissions q \<and> l_names q4 = [] \<and> l_count q4 = l_count q \<and> l_bytes q4 = l_bytes q + 4096"
proof -
  define p where "p = pr v"
  let ?n = "lrec_name (lm_next (l_manifest q))"
  have "json_wf maxNestingDepth v" using json_wf_mono[OF assms(9)] by simp
  then have c: "compact p = Some p" using json_parse_pr[of v] assms(10) by (simp add: compact_def p_def)
  note len = log_entry_length[OF assms(6) c]
  note ps = assms(11-13)[folded p_def]
  obtain s t where put: "PutAdmission None a p q = (Inr (?n, False),
      q\<lparr>l_manifest := (l_manifest q)\<lparr>lm_next := lm_next (l_manifest q) + 1\<rparr>, l_fs := s,
        l_admissions := l_admissions q @ [(a, ?n)], l_count := l_count q + 1,
        l_bytes := l_bytes q + charge (int (length (marshal_log_record (log_entry a False p))))\<rparr>)" (is "_ = (_, ?q1)")
    and s: "tidy s" "fs_euid t = fs_euid s" "live s ?n = Some (new_file t (marshal_log_record (log_entry a False p)))"
    using tidy_PutAdmission[OF assms(1-4,6) _ c assms(7,8)] ps len by auto
  have inv1: "log_inv ?q1" using lq.admit_law[OF assms(1,2) put] by simp
  have an: "(a, ?n) \<in> set (l_admissions ?q1)" "?n \<notin> set (l_names ?q1)" using assms(5) by simp_all
  have small: "length (marshal_log_record (log_entry a False p)) \<le> 5242880" "length (marshal_log_record (log_entry a True p)) \<le> 5242880"
    using ps(2) len by simp_all
  have s': "tidy (l_fs ?q1)" "live (l_fs ?q1) ?n = Some (new_file t (marshal_log_record (log_entry a False p)))" "fs_euid t = fs_euid (l_fs ?q1)"
    using s by simp_all
  obtain s2 t2 where act: "Activate None a ?q1 = (Inr (), ?q1\<lparr>l_fs := s2, l_names := sort (l_names ?q1 @ [?n]), l_wake := True\<rparr>)" (is "_ = (_, ?q2)")
    and s2: "tidy s2" "fs_euid t2 = fs_euid s2" "live s2 ?n = Some (new_file t2 (marshal_log_record (log_entry a True p)))"
    using tidy_Activate[OF inv1 s'(1) an s'(2,3) assms(6) c assms(9) p_def small(1)] by blast
  have st2: "tidy (l_fs ?q2)" "live (l_fs ?q2) ?n = Some (new_file t2 (marshal_log_record (log_entry a True p)))" "fs_euid t2 = fs_euid (l_fs ?q2)"
    using s2 by simp_all
  have q2: "\<not> l_closed ?q2" "l_names ?q2 = ?n # []" using assms(4,5) by simp_all
  have nx: "LogNext None ?q2 = (Inr (Item ?n p), ?q2)"
    by (rule tidy_LogNext[OF st2(1) q2 st2(2,3) assms(6) c assms(9) p_def small(2)])
  obtain s4 where ack: "LogAck None ?n ?q2 = (Inr (), ?q2\<lparr>l_fs := s4, l_admissions := forget_admission a (l_admissions ?q2), l_names := [],
      l_count := l_count ?q2 - 1, l_bytes := l_bytes ?q2 - charge (int (length (marshal_log_record (log_entry a True p))))\<rparr>)" (is "_ = (_, ?q4)")
    using tidy_LogAck[OF st2(1) q2 st2(2,3) assms(6) c assms(9) p_def small(2)] by blast
  have fg: "forget_admission a (l_admissions ?q2) = l_admissions q"
    using assms(7) by (auto simp: forget_admission_def filter_id_conv)
  have "194 + length p = 4096 * ((194 + length p) div 4096) + 1" using ps(1) by (metis mult_div_mod_eq)
  then obtain m where "194 + length p = 4096 * m + 1" by blast
  then have "int (193 + length p) = 4096 * int m" "int (194 + length p) = 4096 * int m + 1" by linarith+
  moreover have "charge (4096 * k + 1) = 4096 * k + 4096" "charge (4096 * k) = 4096 * k" for k
    by (simp_all add: charge_def)
  ultimately have "charge (int (194 + length p)) = charge (int (193 + length p)) + 4096" by metis
  with fg len have "l_admissions ?q4 = l_admissions q" "l_bytes ?q4 = l_bytes q + 4096" "l_count ?q4 = l_count q" "l_names ?q4 = []"
    by simp_all
  with put act nx ack show ?thesis unfolding p_def[symmetric] by blast
qed

definition plain_payload :: "nat \<Rightarrow> json" where
  "plain_payload n = JStr (replicate n (CHR ''x''))"

lemma plain_payload_ok:
  "json_wf d (plain_payload n)" "jesc (plain_payload n) = plain_payload n" "length (pr (plain_payload n)) = n + 2"
proof -
  have t: "list_all text_char (replicate n (CHR ''x''))" by (simp add: list_all_iff text_char_def plain_def char_consts)
  show "json_wf d (plain_payload n)" using text_body[OF t] by (simp add: plain_payload_def)
  show "jesc (plain_payload n) = plain_payload n" using text_html[OF t] by (simp add: plain_payload_def)
  show "length (pr (plain_payload n)) = n + 2" by (simp add: plain_payload_def)
qed

theorem budget_leaks_a_unit_witness:
  "\<exists>n q1 q2 q4. PutAdmission None sample_identity (pr (plain_payload 3901)) sample_log = (Inr (n, False), q1)
    \<and> Activate None sample_identity q1 = (Inr (), q2) \<and> LogNext None q2 = (Inr (Item n (pr (plain_payload 3901))), q2)
    \<and> LogAck None n q2 = (Inr (), q4) \<and> l_admissions q4 = [] \<and> l_bytes sample_log < l_bytes q4"
proof -
  have s: "\<not> l_closed sample_log" "l_names sample_log = []" "l_admissions sample_log = []" "l_count sample_log < l_maxItems sample_log"
    "l_bytes sample_log + charge (int (194 + length (pr (plain_payload 3901)))) \<le> l_maxBytes sample_log"
    by (simp_all add: sample_log_def base_cost_def charge_def plain_payload_ok)
  have "sample_identity \<notin> fst ` set (l_admissions sample_log)" using s(3) by simp
  from budget_leaks_a_unit[OF sample_log_inv s(1,2) sample_identity_valid(1) this s(4) plain_payload_ok(1,2) _ _ s(5)] s(3)
  show ?thesis by (force simp: plain_payload_ok)
qed

section \<open>Restart\<close>

text \<open>
  C32: A logs spool that opens on a directory at rest, whose record files are on disk and, where they decode, are
  ones the spool wrote, lists every record that decodes under its identity with its payload, delivers exactly those that were activated, in sequence order, is bound to the scope and
  the limits it was opened with, and satisfies the invariant of its operations when the receipts are below
  the next sequence number.
\<close>

theorem opened_logs_spool_lists_the_records:
  assumes "calm s0" "OpenLogDisk dir env sc mb mi s0 = (Inr q, s')"
  shows "l_fs q = s' \<and> \<not> l_closed q \<and> l_maxBytes q = mb \<and> l_maxItems q = mi \<and> LogsHash sc = Inr (lm_scope (l_manifest q))
     \<and> (\<forall>n f a p. log_shaped n \<longrightarrow> live s0 n = Some f \<longrightarrow> entry_file a p f \<longrightarrow>
          (a, n) \<in> set (l_admissions q) \<and> log_content q n = Some p)
     \<and> (\<forall>n. n \<in> set (l_names q) \<longleftrightarrow> n \<in> snd ` set (l_admissions q)
          \<and> (\<exists>f r. live s' n = Some f \<and> decodeLogRecord (f_data f) = Inr r \<and> lr_ready r))
     \<and> sorted_wrt (<) (l_names q) \<and> (numbered q \<longrightarrow> log_inv q)"
  using OpenLogDisk_effect[OF assms] by blast

lemma admitted_survives:
  assumes "log_inv q" "(a, n) \<in> set (l_admissions q)" "log_content q n = Some p"
    and "crash_image (l_fs q) img" "\<forall>m. live s0 m = img m" "calm s0" "OpenLogDisk dir env sc mb mi s0 = (Inr q2, s2)"
  shows "(a, n) \<in> set (l_admissions q2)" "log_content q2 n = Some p" "validAdmission a" "n \<noteq> []"
proof -
  have "sound (l_fs q) a n" by (rule log_sound[OF assms(1,2)])
  moreover have "live (l_fs q) n \<noteq> None" using assms(3) by (auto simp: log_content_def split: option.splits)
  moreover have "\<not> junk (l_fs q) n" using assms(3) by (auto simp: log_content_def junk_def stable_def split: sum.splits option.splits)
  ultimately obtain p' where k: "kept (l_fs q) a p' n" by (auto simp: sound_def)
  with kept_content[OF k] assms(3) have k: "kept (l_fs q) a p n" by simp
  obtain v where v: "v \<in> poss (l_fs q) n" "survives v (img n)" using assms(4) unfolding crash_image_def by blast
  with k obtain f where f: "v = Some f" "entry_file a p f" by (auto simp: kept_def)
  with v(2) have "img n = Some f" by (simp add: survives_def entry_file_def)
  then have l0: "live s0 n = Some f" using assms(5) by simp
  have "is_lrec (lm_next (l_manifest q)) n" using assms(1,2) by (auto simp: log_inv_def log_ok_def)
  then have sh: "log_shaped n"
    using lrec_name_length by (auto simp: is_lrec_def log_shaped_def lrec_name_def HasSuffix_iff)
  show "(a, n) \<in> set (l_admissions q2)" "log_content q2 n = Some p" using OpenLogDisk_effect[OF assms(6,7)] sh l0 f(2) by blast+
  show "validAdmission a" "n \<noteq> []" using f(2) sh by (auto simp: entry_file_def log_shaped_def)
qed

text \<open>
  C31: An admission survives crash and restart: a record that was admitted and readable at any point, with
  whatever operations in progress, is listed again under its receipt after any crash and reopening with any
  limits that opens at all, the record files of the crashed directory being ones the spool wrote; it has the same payload, and
  admitting its identity once more, with any valid JSON of at most 4 MiB, stores nothing.
\<close>

theorem admission_survives_restart:
  assumes "log_inv q" "(a, n) \<in> set (l_admissions q)" "log_content q n = Some p"
    and "crash_image (l_fs q) img" "\<forall>m. live s0 m = img m" "calm s0" "OpenLogDisk dir env sc mb mi s0 = (Inr q2, s2)"
    and "length d \<le> 4194304" "json_Valid d"
  shows "(a, n) \<in> set (l_admissions q2) \<and> log_content q2 n = Some p \<and> PutAdmission None a d q2 = (Inr (n, True), q2)"
proof -
  note an = admitted_survives[OF assms(1-7)]
  have "map_of (l_admissions q2) a = Some n" using an(1) OpenLogDisk_effect[OF assms(6,7)] by simp
  then have "PutAdmission None a d q2 = (Inr (n, True), q2)"
    using an OpenLogDisk_effect[OF assms(6,7)] assms(8,9) by (simp add: PutAdmission_def admitted_name_def)
  with an show ?thesis by simp
qed

section \<open>A restart in detail\<close>

definition log_file :: "bytes \<Rightarrow> inode" where
  "log_file d = \<lparr>f_kind = Regular, f_mode = 384, f_uid = 1000, f_nlink = 1, f_data = d, f_synced = True\<rparr>"

definition restart_entries :: "scope \<Rightarrow> bytes \<Rightarrow> bool \<Rightarrow> (bytes \<times> inode) list" where
  "restart_entries sc a b =
     [(''lock'', log_file []),
      (''manifest.json'', log_file (marshal_log_manifest \<lparr>lm_version = 1, lm_scope = Sum256_hex (logs_preimage sc), lm_next = 2\<rparr>)),
      (lrec_name 1, log_file (marshal_log_record (log_entry a b (dec 1))))]"

definition restart_fs :: "scope \<Rightarrow> bytes \<Rightarrow> bool \<Rightarrow> fs" where
  "restart_fs sc a b = \<lparr>fs_dir = restart_entries sc a b, fs_disk = restart_entries sc a b, fs_recent = [], fs_fates = [], fs_euid = 1000, fs_locked = False\<rparr>"

lemma lrec_1:
  "length (lrec_name 1) = 25" "HasSuffix (lrec_name 1) ''.lrec''" "\<not> HasSuffix (lrec_name 1) ''.bad''"
proof -
  show "length (lrec_name 1) = 25" by (rule lrec_name_length)
  show "HasSuffix (lrec_name 1) ''.lrec''" by (auto simp: lrec_name_def HasSuffix_iff)
  have "HasSuffix (lrec_name 1) ''.bad'' \<Longrightarrow> False"
  proof -
    assume "HasSuffix (lrec_name 1) ''.bad''"
    then obtain m where "lrec_name 1 = m @ ''.bad''" by (auto simp: HasSuffix_iff)
    then have "rev (lrec_name 1) = rev ''.bad'' @ rev m" by simp
    then show False by (simp add: lrec_name_def)
  qed
  then show "\<not> HasSuffix (lrec_name 1) ''.bad''" by blast
qed

lemma restart_decode:
  assumes "validAdmission a"
  shows "decodeLogRecord (marshal_log_record (log_entry a b (dec 1))) = Inr (log_entry a b (dec 1))"
    "length (marshal_log_record (log_entry a b (dec 1))) \<le> 195"
    "entry_file a (dec 1) (log_file (marshal_log_record (log_entry a b (dec 1))))"
proof -
  have c: "compact (dec 1) = Some (dec 1)" "json_wf (maxNestingDepth - 1) (JNum (dec 1))" "dec 1 = pr (JNum (dec 1))"
    using digits_payload[of 1] by simp_all
  show d: "decodeLogRecord (marshal_log_record (log_entry a b (dec 1))) = Inr (log_entry a b (dec 1))"
    using decode_log_entry[OF assms c(2), of b] c(1,3) by simp
  show "length (marshal_log_record (log_entry a b (dec 1))) \<le> 195"
    using log_entry_length[OF assms c(1)] dec.simps[of 1] by (cases b) simp_all
  show "entry_file a (dec 1) (log_file (marshal_log_record (log_entry a b (dec 1))))"
    using d c(1) assms by (auto simp: entry_file_def log_file_def)
qed

lemma restart_calm: "validAdmission a \<Longrightarrow> calm (restart_fs sc a b)"
proof -
  assume a: "validAdmission a"
  have w: "written (log_file (marshal_log_record (log_entry a b (dec 1))))"
    using restart_decode(3)[OF a, of b] by (auto simp: written_def entry_file_def)
  have "poss (restart_fs sc a b) n = {live (restart_fs sc a b) n}" for n by (simp add: poss_def live_def restart_fs_def)
  moreover have "written f" if "record_entry n" "live (restart_fs sc a b) n = Some f" for n f
    using that w by (auto simp: live_def restart_fs_def restart_entries_def record_entry_def split: if_splits)
  ultimately show ?thesis by (simp add: calm_def)
qed

lemma restart_live: "live (restart_fs sc a b) (lrec_name 1) = Some (log_file (marshal_log_record (log_entry a b (dec 1))))"
  using lrec_1(1) by (auto simp: live_def restart_fs_def restart_entries_def)

lemma restart_image: "crash_image ((restart_fs sc a b)\<lparr>fs_locked := True\<rparr>) (live (restart_fs sc a b))"
  by (auto simp: crash_image_def poss_def live_def survives_def restart_fs_def restart_entries_def log_file_def)

lemma is_lrec_1: "is_lrec 2 (lrec_name 1)"
  by (auto simp: is_lrec_def)

text \<open>A spool with one record, opened with room for one or for eight.\<close>

lemma restart_open:
  assumes a: "validAdmission a" and mi: "1 \<le> mi" "mi \<le> 16" and sc: "scope_ok sc" and dir': "HasPrefix dir ''/''" and mb: "32768 \<le> mb"
  shows "\<exists>q. OpenLogDisk dir sample_env sc mb mi (restart_fs sc a b) = (Inr q, (restart_fs sc a b)\<lparr>fs_locked := True\<rparr>)
     \<and> lm_next (l_manifest q) = 2 \<and> l_admissions q = [(a, lrec_name 1)] \<and> l_names q = (if b then [lrec_name 1] else []) \<and>
     l_count q = 1 \<and> l_maxItems q = mi \<and> \<not> l_closed q"
proof -
  define B where "B = marshal_log_record (log_entry a b (dec 1))"
  define h where "h = Sum256_hex (logs_preimage sc)"
  define M where "M = marshal_log_manifest \<lparr>lm_version = 1, lm_scope = h, lm_next = 2\<rparr>"
  define n where "n = lrec_name 1"
  have n: "length n = 25" "HasSuffix n ''.lrec''" "\<not> HasSuffix n ''.bad''" using lrec_1 by (simp_all add: n_def)
  have ne: "n \<noteq> ''lock''" "n \<noteq> ''manifest.json''" "n \<noteq> ''.replace.pending''" "n \<noteq> ''.pending''" "n \<noteq> ''.manifest.pending''" using n(1) by auto
  have hs: "LogsHash sc = Inr h" using sc by (simp add: LogsHash_eq h_def)
  have m: "unmarshal_log_manifest M = Some \<lparr>lm_version = 1, lm_scope = h, lm_next = 2\<rparr>"
    unfolding M_def by (rule unmarshal_log_marshal_manifest) (simp_all add: h_def Sum256_text)
  have ml: "length M \<le> 1048576"
    using dec_int_of_nat[of 1] dec.simps[of 1] dec.simps[of 2]
    by (simp add: M_def marshal_log_manifest_def json_log_manifest_def quote_body_text[OF Sum256_text] h_def)
  have ml': "\<not> 1048576 < length M" using ml by simp
  have B: "decodeLogRecord B = Inr (log_entry a b (dec 1))" using restart_decode[OF a] by (simp add: B_def)
  have Bl: "length B \<le> 5242880" "\<not> 5242880 < length B" using restart_decode(2)[OF a, of b] by (simp_all add: B_def)
  have "length B = 194 \<or> length B = 195"
    using log_entry_length[OF a] digits_payload[of 1] dec.simps[of 1] by (cases b) (simp_all add: B_def)
  then have Bc: "charge (int (length B)) = 4096" by (auto simp: charge_def)
  have "length a = 64" using a by (simp add: validAdmission_def)
  then have an: "a \<noteq> []" by auto
  have dir: "fs_dir (restart_fs sc a b) = [(''lock'', log_file []), (''manifest.json'', log_file M), (n, log_file B)]"
    by (simp add: restart_fs_def restart_entries_def B_def M_def h_def n_def)
  have rest: "fs_fates (restart_fs sc a b) = []" "fs_euid (restart_fs sc a b) = 1000" "fs_locked (restart_fs sc a b) = False" by (simp_all add: restart_fs_def)
  have suff: "\<not> HasSuffix ''lock'' ''.bad''" "\<not> HasSuffix ''manifest.json'' ''.bad''" by (simp_all add: HasSuffix_def)
  have mc: "charge 256 = 4096" "charge 2048 = 4096" by (simp_all add: charge_def)
  have e: "lr_ready (log_entry a b (dec 1)) = b" "lr_admission (log_entry a b (dec 1)) = a" by (simp_all add: log_entry_def)
  have "(mi * 256 + 4095) div 4096 = 1" using mi by (intro div_pos_geq[THEN trans] arg_cong2[of _ _ _ _ "(+)"]) auto
  then have c: "charge (mi * 256) = 4096" by (simp add: charge_def)
  have mi': "\<not> mi < 1" "\<not> 4096 < mi" "charge (mi * 256) = 4096" "\<not> mi \<le> 0" "mi \<noteq> 0" "0 < mi" "\<not> 13 + mi < 0" using mi c by auto
  have mb': "\<not> mb < 32768" "\<not> mb < 24576" "\<not> mb < 28672" "\<not> mb < 20480" "HasPrefix dir ''/''" using mb dir' by auto
  show ?thesis
    unfolding n_def[symmetric]
    using ne n suff
    by (simp add: OpenLogDisk_def hs check_logs_spool_def sample_env_def rest open_lock_def syscall_def fate_of_def spend_def live_def
        dir flock_def log_file_def recoverLogManifest_def andThen_def attempt_def readPrivateFile_def lstat_def ret_def raise_def
        load_log_manifest_def unsafe_inode_def ml ml' open_read_def read_all_def m recoverPendingRecord_def log_read_def read_dir_def
        log_scan_entry_def on_log_fs_def B Bl Bc mi' mb' e admitted_name_def finish_log_open_def recoverPendingActivation_def Let_def an)
qed

theorem opened_logs_spool_lists_the_records_witness:
  "\<exists>q s'. OpenLogDisk ''/var/lib/observe/queue'' sample_env sample_scope 1000000 8 (restart_fs sample_scope sample_identity False) = (Inr q, s')
     \<and> (sample_identity, lrec_name 1) \<in> set (l_admissions q) \<and> log_content q (lrec_name 1) = Some (dec 1) \<and> log_inv q"
proof -
  obtain q where o: "OpenLogDisk ''/var/lib/observe/queue'' sample_env sample_scope 1000000 8 (restart_fs sample_scope sample_identity False) = (Inr q, (restart_fs sample_scope sample_identity False)\<lparr>fs_locked := True\<rparr>)"
    and q: "lm_next (l_manifest q) = 2" "l_admissions q = [(sample_identity, lrec_name 1)]"
    using restart_open[OF sample_identity_valid(1) _ _ sample_scope_ok, of 8 "''/var/lib/observe/queue''" 1000000 False] by auto
  have n: "numbered q" using q by (simp add: numbered_def is_lrec_1)
  have "log_shaped (lrec_name 1)" using lrec_1 by (simp add: log_shaped_def)
  with opened_logs_spool_lists_the_records[OF restart_calm[OF sample_identity_valid(1)] o] restart_live[of sample_scope sample_identity False] restart_decode(3)[OF sample_identity_valid(1), of False] n
  have "(sample_identity, lrec_name 1) \<in> set (l_admissions q) \<and> log_content q (lrec_name 1) = Some (dec 1) \<and> log_inv q" by simp
  with o show ?thesis by blast
qed

theorem admission_survives_restart_witness:
  "\<exists>q q2 s2. log_inv q \<and> OpenLogDisk ''/var/lib/observe/queue'' sample_env sample_scope 1000000 8 (restart_fs sample_scope sample_identity False) = (Inr q2, s2)
     \<and> log_content q2 (lrec_name 1) = Some (dec 1) \<and> PutAdmission None sample_identity (dec 7) q2 = (Inr (lrec_name 1, True), q2)"
proof -
  obtain q where o: "OpenLogDisk ''/var/lib/observe/queue'' sample_env sample_scope 1000000 8 (restart_fs sample_scope sample_identity False) = (Inr q, (restart_fs sample_scope sample_identity False)\<lparr>fs_locked := True\<rparr>)"
    and q: "lm_next (l_manifest q) = 2" "l_admissions q = [(sample_identity, lrec_name 1)]"
    using restart_open[OF sample_identity_valid(1) _ _ sample_scope_ok, of 8 "''/var/lib/observe/queue''" 1000000 False] by auto
  have n: "numbered q" using q by (simp add: numbered_def is_lrec_1)
  have sh: "log_shaped (lrec_name 1)" using lrec_1 by (simp add: log_shaped_def)
  note e = OpenLogDisk_effect[OF restart_calm[OF sample_identity_valid(1)] o]
  have i: "log_inv q" "l_fs q = (restart_fs sample_scope sample_identity False)\<lparr>fs_locked := True\<rparr>" using e n by simp_all
  have c: "log_content q (lrec_name 1) = Some (dec 1)" using e sh restart_live restart_decode(3)[OF sample_identity_valid(1)] by blast
  have im: "crash_image (l_fs q) (live (restart_fs sample_scope sample_identity False))" using i(2) restart_image by simp
  have "length (dec 7) \<le> 4194304" by (simp add: dec.simps[of 7])
  moreover have "json_Valid (dec 7)" using digits_payload(1)[of 7] by (auto simp: json_Valid_def compact_def)
  ultimately have "PutAdmission None sample_identity (dec 7) q = (Inr (lrec_name 1, True), q)"
    using admission_survives_restart[OF i(1) _ c im _ restart_calm[OF sample_identity_valid(1)] o] q(2) by simp
  with i(1) o c show ?thesis by blast
qed

section \<open>Delivery\<close>

text \<open>
  C11: Log records leave the spool only by acceptance, and only after their activation: whatever the
  interleaving of sources and delivery, the outcomes of the sends and the faults of the disk, each record
  that entered has left or is still admitted and reads as it entered (unless it was accepted and only its
  acknowledgement failed); each record that left was accepted with exactly its payload, or never was
  readable; each record that was accepted had been activated.
\<close>

theorem logs_delivered_only_by_acceptance:
  assumes "log_inv q"
    "log_run PutAdmission Activate LogNext LogAck l_names l_admissions log_fits log_stored (log_launch l_names l_admissions log_content q) w"
  shows "log_accounted l_admissions log_content w"
  using assms(2,1) by (rule lq.log_run_accounted)

text \<open>
  A late activation stops the delivery. The backend has accepted the record \<open>m\<close> and the loop is about to
  acknowledge it; another source activates an earlier receipt \<open>n\<close>. Then the acknowledgement fails since \<open>m\<close> no
  longer is the head, the loop ends, the capability reports itself blocked, and \<open>m\<close> stays queued with its
  payload although it was delivered.
\<close>

theorem late_activation_stops_delivery:
  assumes "log_inv (lw_queue w)" "lw_phase w = Acking m d" "l_names (lw_queue w) = m # rest" "log_content (lw_queue w) m = Some d"
    and "(a, n) \<in> set (l_admissions (lw_queue w))" "n < m" "Activate None a (lw_queue w) = (Inr (), q2)"
    and "w2 = log_acknowledge LogAck ctx (log_activate Activate l_admissions None a w)"
  shows "lw_phase w2 = Stopped \<and> lw_blocked w2 \<and> m \<in> set (l_names (lw_queue w2)) \<and> log_content (lw_queue w2) m = Some d"
proof -
  let ?q = "lw_queue w"
  note act = lq.activate_law[OF assms(1,7)]
  have inv2: "log_inv q2" using act by simp
  have nm: "n \<in> set (l_names q2)" "m \<in> set (l_names q2)" using act assms(3,5) by auto
  have "sorted_wrt (<) (l_names q2)" using inv2 by (simp add: log_inv_def log_ok_def)
  with nm assms(6) have hd: "hd (l_names q2) \<noteq> m" by (cases "l_names q2") auto
  have ack: "LogAck ctx m q2 = (fst (LogAck ctx m q2), q2) \<and> \<not> is_ok (fst (LogAck ctx m q2))"
    using hd by (auto simp: LogAck_def split: option.splits)
  then obtain e where ack: "LogAck ctx m q2 = (Inl e, q2)" by (cases "fst (LogAck ctx m q2)") auto
  have "m \<in> snd ` set (l_admissions ?q)" using log_pending[OF assms(1)] assms(3) by auto
  then have "log_content q2 m = Some d" using act assms(4) by auto
  with ack nm assms(2,7) show ?thesis by (simp add: assms(8) log_activate_def log_acknowledge_def)
qed

section \<open>A record cut off in the middle\<close>

text \<open>
  An undecodable file \<^verbatim>\<open>.pending\<close> disables the spool: every attempt to open the directory fails, with
  whatever limits, scope and faults, and leaves that file in place, so that the next attempt fails too.
\<close>

theorem undecodable_pending_disables_logs_spool:
  assumes "live s0 ''.pending'' = Some f" "\<not> is_ok (decodeLogRecord (f_data f))"
  shows "\<exists>e s'. OpenLogDisk dir env sc mb mi s0 = (Inl e, s') \<and> live s' ''.pending'' = Some f"
  using OpenLogDisk_stuck[OF assms] by blast

text \<open>A fault in the ninth call of an admission, the write of the staged record, leaves such a file.\<close>

definition cut_off :: log_disk where
  "cut_off = sample_log\<lparr>l_fs := empty_dir\<lparr>fs_fates := [Fine, Fine, Fine, Fine, Fine, Fine, Fine, Fine, Fault 0]\<rparr>\<rparr>"

lemma decode_nothing: "\<not> is_ok (decodeLogRecord [])"
  by code_simp

theorem undecodable_pending_disables_logs_spool_witness:
  "\<exists>e q f e' s'. PutAdmission None sample_identity (dec 1) cut_off = (Inl e, q) \<and> live (l_fs q) ''.pending'' = Some f
     \<and> OpenLogDisk ''/var/lib/observe/queue'' sample_env sample_scope 1000000 8 ((l_fs q)\<lparr>fs_locked := False\<rparr>) = (Inl e', s')
     \<and> live s' ''.pending'' = Some f"
proof -
  define p where "p = dec 1"
  define B where "B = marshal_log_record (log_entry sample_identity False p)"
  have c: "compact p = Some p" "json_Valid p" "\<not> 4194304 < length p"
    using digits_payload(1)[of 1] compact_Valid dec.simps[of 1] by (auto simp: p_def)
  have B: "length B = 195" using log_entry_length(1)[OF sample_identity_valid(1), of p] c(1) dec.simps[of 1] by (simp add: B_def p_def)
  have "\<exists>e q f. PutAdmission None sample_identity p cut_off = (Inl e, q) \<and> live (l_fs q) ''.pending'' = Some f \<and> f_data f = []"
    using c sample_identity_valid(1) B
    by (simp add: PutAdmission_def log_entry_def[symmetric] B_def[symmetric] cut_off_def sample_log_def empty_dir_def
        admitted_name_def charge_def base_cost_def Let_def on_log_fs_def log_saveManifest_def publish_def fill_def andThen_def attempt_def ret_def
        raise_def create_trunc_def create_excl_def syscall_def fate_of_def spend_def write_all_def fsync_def close_file_def rename_def
        log_syncDir_def syncDir_def open_dir_def fsync_dir_def live_def put_entry_def set_data_def ins_def fresh_file_def log_write_def)
  then obtain e q f where q: "PutAdmission None sample_identity p cut_off = (Inl e, q)" "live (l_fs q) ''.pending'' = Some f" "f_data f = []"
    by blast
  have l: "live ((l_fs q)\<lparr>fs_locked := False\<rparr>) ''.pending'' = Some f" using q(2) by (simp add: live_def)
  have "\<not> is_ok (decodeLogRecord (f_data f))" using decode_nothing q(3) by simp
  from undecodable_pending_disables_logs_spool[OF l this] q show ?thesis unfolding p_def by blast
qed

section \<open>Two sources\<close>

lemma lrec_name_less: "lrec_name a < lrec_name b \<longleftrightarrow> a < b"
proof -
  have lt: "unat k < 10 ^ 20" for k :: u64
  proof -
    have "unat k < 2 ^ 64" using unsigned_less[of k] by simp
    then show ?thesis by simp
  qed
  have "lrec_name a < lrec_name b \<longleftrightarrow> pad 20 (unat a) < pad 20 (unat b)"
    unfolding lrec_name_def using lt by (intro list_less_append) (simp add: length_pad)
  also have "\<dots> \<longleftrightarrow> unat a < unat b" using lt by (intro pad_less) simp_all
  finally show ?thesis by (simp add: word_less_nat_alt)
qed

text \<open>Two admissions, the second of which is activated and being delivered.\<close>

lemma two_sources:
  "\<exists>q q2. log_inv q \<and> l_names q = [lrec_name 2] \<and> l_admissions q = [(sample_identity, lrec_name 1), (sample_identity2, lrec_name 2)]
     \<and> log_content q (lrec_name 2) = Some (dec 1) \<and> Activate None sample_identity q = (Inr (), q2)
     \<and> LogNext None q = (Inr (Item (lrec_name 2) (dec 1)), q)"
proof -
  define p where "p = dec 1"
  have c: "compact p = Some p" "json_wf (maxNestingDepth - 1) (JNum p)" "p = pr (JNum p)" "length p \<le> 4194304"
    using digits_payload[of 1] dec.simps[of 1] by (simp_all add: p_def)
  note v = sample_identity_valid
  have len: "length (marshal_log_record (log_entry sample_identity False p)) = 195" "length (marshal_log_record (log_entry sample_identity2 False p)) = 195"
    using log_entry_length(1)[OF v(1) c(1)] log_entry_length(1)[OF v(2) c(1)] dec.simps[of 1] by (simp_all add: p_def)
  let ?a = sample_identity and ?b = sample_identity2
  obtain s t where put: "PutAdmission None ?a p sample_log = (Inr (lrec_name 1, False), sample_log\<lparr>l_manifest := (l_manifest sample_log)\<lparr>lm_next := 2\<rparr>, l_fs := s,
      l_admissions := [(?a, lrec_name 1)], l_count := 1, l_bytes := l_bytes sample_log + 4096\<rparr>)" (is "_ = (_, ?q1)")
    and s: "tidy s" "fs_euid t = fs_euid s" "live s (lrec_name 1) = Some (new_file t (marshal_log_record (log_entry ?a False p)))"
    using tidy_PutAdmission[OF sample_log_inv _ v(1) c(4,1)] len by (auto simp: sample_log_def charge_def base_cost_def)
  have inv1: "log_inv ?q1" using lq.admit_law[OF sample_log_inv(1,2) put] by simp
  have fits1: "log_fits ?q1" by (simp add: log_fits_def)
  obtain s' t' where put2: "PutAdmission None ?b p ?q1 = (Inr (lrec_name 2, False), ?q1\<lparr>l_manifest := (l_manifest ?q1)\<lparr>lm_next := 3\<rparr>, l_fs := s',
      l_admissions := [(?a, lrec_name 1), (?b, lrec_name 2)], l_count := 2, l_bytes := l_bytes ?q1 + 4096\<rparr>)" (is "_ = (_, ?q2)")
    and s': "tidy s'" "fs_euid t' = fs_euid s'" "fs_euid s' = fs_euid s" "live s' (lrec_name 2) = Some (new_file t' (marshal_log_record (log_entry ?b False p)))"
      "live s' (lrec_name 1) = live s (lrec_name 1)"
    using tidy_PutAdmission[OF inv1 fits1 _ _ v(2) c(4,1)] s(1) len v(3) by (auto simp: sample_log_def charge_def base_cost_def)
  have inv2: "log_inv ?q2" using lq.admit_law[OF inv1 fits1 put2] by simp
  have st2: "tidy (l_fs ?q2)" "(?b, lrec_name 2) \<in> set (l_admissions ?q2)" "lrec_name 2 \<notin> set (l_names ?q2)"
    "live (l_fs ?q2) (lrec_name 2) = Some (new_file t' (marshal_log_record (log_entry ?b False p)))" "fs_euid t' = fs_euid (l_fs ?q2)"
    "length (marshal_log_record (log_entry ?b False p)) \<le> 5242880" "sort (l_names ?q2 @ [lrec_name 2]) = [lrec_name 2]"
    using s' len by (simp_all add: sample_log_def)
  have ne: "lrec_name 1 \<noteq> lrec_name 2" "length (lrec_name 1) = 25" by (simp_all add: lrec_name_inj lrec_name_length)
  obtain s2 t2 where act: "Activate None ?b ?q2 = (Inr (), ?q2\<lparr>l_fs := s2, l_names := [lrec_name 2], l_wake := True\<rparr>)" (is "_ = (_, ?q3)")
    and s2: "tidy s2" "fs_euid t2 = fs_euid s2" "fs_euid s2 = fs_euid s'" "live s2 (lrec_name 2) = Some (new_file t2 (marshal_log_record (log_entry ?b True p)))"
      "live s2 (lrec_name 1) = live s' (lrec_name 1)"
    using tidy_Activate[OF inv2 st2(1-5) v(2) c(1-3) st2(6)] ne unfolding st2(7) by auto
  have inv3: "log_inv ?q3" using lq.activate_law[OF inv2 act] by simp
  have st3: "tidy (l_fs ?q3)" "(?a, lrec_name 1) \<in> set (l_admissions ?q3)" "lrec_name 1 \<notin> set (l_names ?q3)"
    "live (l_fs ?q3) (lrec_name 1) = Some (new_file t (marshal_log_record (log_entry ?a False p)))" "fs_euid t = fs_euid (l_fs ?q3)"
    "length (marshal_log_record (log_entry ?a False p)) \<le> 5242880"
    using s s' s2 len ne by simp_all
  obtain q4 where "Activate None ?a ?q3 = (Inr (), q4)"
    using tidy_Activate[OF inv3 st3(1-5) v(1) c(1-3) st3(6)] by blast
  moreover have "log_content ?q3 (lrec_name 2) = Some p"
    using s2(4) decode_log_entry[OF v(2) c(2), of True] c(1,3) by (simp add: log_content_def new_file_def fresh_file_def)
  moreover have "LogNext None ?q3 = (Inr (Item (lrec_name 2) p), ?q3)"
    by (rule tidy_LogNext[of ?q3 "lrec_name 2" "[]" t2 ?b p "JNum p"])
      (use s2 c v len log_entry_length(2)[OF v(2) c(1)] in \<open>simp_all add: sample_log_def\<close>)
  ultimately show ?thesis using inv3 unfolding p_def by (intro exI[of _ ?q3] exI[of _ q4]) simp
qed

text \<open>The loop has sent the record of the second source; the first one activates its record.\<close>

theorem late_activation_stops_delivery_witness:
  "\<exists>w. lw_phase w = Acking (lrec_name 2) (dec 1)
     \<and> lw_phase (log_acknowledge LogAck None (log_activate Activate l_admissions None sample_identity w)) = Stopped
     \<and> lw_blocked (log_acknowledge LogAck None (log_activate Activate l_admissions None sample_identity w))"
proof -
  obtain q q2 where q: "log_inv q" "l_names q = [lrec_name 2]" "l_admissions q = [(sample_identity, lrec_name 1), (sample_identity2, lrec_name 2)]"
    "log_content q (lrec_name 2) = Some (dec 1)" "Activate None sample_identity q = (Inr (), q2)"
    using two_sources by blast
  let ?w = "(log_launch l_names l_admissions log_content q)\<lparr>lw_phase := Acking (lrec_name 2) (dec 1)\<rparr>"
  have w: "lw_queue ?w = q" "lw_phase ?w = Acking (lrec_name 2) (dec 1)" by (simp_all add: log_launch_def)
  have "lrec_name 1 < lrec_name 2" by (simp add: lrec_name_less)
  then have "lw_phase (log_acknowledge LogAck None (log_activate Activate l_admissions None sample_identity ?w)) = Stopped
     \<and> lw_blocked (log_acknowledge LogAck None (log_activate Activate l_admissions None sample_identity ?w))"
    using late_activation_stops_delivery[OF _ w(2) _ _ _ _ _ refl, of "[]" sample_identity "lrec_name 1" q2 None] q w(1) by simp
  with w(2) show ?thesis by blast
qed

theorem logs_delivered_only_by_acceptance_witness:
  "\<exists>q w. log_inv q \<and> (lrec_name 2, dec 1) \<in> lw_sent w \<and> log_accounted l_admissions log_content w
     \<and> lw_entered w = {(lrec_name 1, log_content q (lrec_name 1)), (lrec_name 2, Some (dec 1))}"
proof -
  obtain q where q: "log_inv q" "l_names q = [lrec_name 2]" "l_admissions q = [(sample_identity, lrec_name 1), (sample_identity2, lrec_name 2)]"
    "log_content q (lrec_name 2) = Some (dec 1)" "LogNext None q = (Inr (Item (lrec_name 2) (dec 1)), q)"
    using two_sources by blast
  let ?w = "log_launch l_names l_admissions log_content q"
  let ?w1 = "log_fetch LogNext l_names None ?w"
  let ?w2 = "log_outcome Accepted 0 ?w1"
  have p: "lw_phase ?w = Fetching" by (simp add: log_launch_def)
  have w1: "lw_phase ?w1 = Sending (lrec_name 2) (dec 1)" "lw_entered ?w1 = lw_entered ?w" using q(5) by (simp_all add: log_fetch_def log_launch_def)
  have run: "log_run PutAdmission Activate LogNext LogAck l_names l_admissions log_fits log_stored ?w ?w2"
    by (rule log_run_more[OF log_run_more[OF log_run_start log_step_fetch[OF p]] log_step_outcome[OF w1(1)]])
  have "(lrec_name 2, dec 1) \<in> lw_sent ?w2" "lw_entered ?w2 = {(lrec_name 1, log_content q (lrec_name 1)), (lrec_name 2, Some (dec 1))}"
    using w1 q by (simp_all add: log_outcome_def log_launch_def)
  with logs_delivered_only_by_acceptance[OF q(1) run] q(1) show ?thesis by blast
qed

end
