(* ===== verification/Policy.thy ===== *)
theory Policy
  imports Prelude
begin

text \<open>
  Model of \<^verbatim>\<open>internal/policy/policy.go\<close>: the closed set of capabilities and the policy
  document. A Go map of type \<open>map[Capability]bool\<close> is an association list read through \<open>map_of\<close>; reading a
  missing key gives Go's zero value \<open>False\<close>.
\<close>

section \<open>Capabilities\<close>

type_synonym capability = string

definition Metrics :: capability where "Metrics = ''metrics''"
definition Logs :: capability where "Logs = ''logs''"
definition Traces :: capability where "Traces = ''traces''"
definition Processes :: capability where "Processes = ''processes''"
definition Containers :: capability where "Containers = ''containers''"

lemmas capability_defs = Metrics_def Logs_def Traces_def Processes_def Containers_def

definition AllCaps :: "capability list" where
  "AllCaps = [Metrics, Logs, Traces, Processes, Containers]"

definition Known :: "capability \<Rightarrow> bool" where
  "Known c \<longleftrightarrow> list_ex (\<lambda>x. c = x) AllCaps"

lemma Known_iff: "Known c \<longleftrightarrow> c \<in> set AllCaps"
  by (auto simp: Known_def list_ex_iff)

lemma distinct_All: "distinct AllCaps"
  by (simp add: AllCaps_def capability_defs)

section \<open>Documents\<close>

record document =
  version :: u64
  enabled :: "(capability \<times> bool) list"

definition zero_document :: document where
  "zero_document = \<lparr>version = 0, enabled = []\<rparr>"

definition on :: "document \<Rightarrow> capability \<Rightarrow> bool" where
  "on p c = (case map_of (enabled p) c of None \<Rightarrow> False | Some b \<Rightarrow> b)"

definition on_set :: "document \<Rightarrow> capability set" where
  "on_set p = {c \<in> set AllCaps. on p c}"

definition Validate :: "document \<Rightarrow> error option" where
  "Validate p =
     (if version p = 0 then Some (Failure ''policy version must be positive'')
      else if list_ex (\<lambda>(c, _). \<not> Known c) (enabled p) then Some (Failure ''unknown capability'')
      else None)"

fun copy_entries :: "(capability \<times> bool) list \<Rightarrow> (capability \<times> bool) list" where
  "copy_entries [] = []"
| "copy_entries ((k, v) # es) = (k, v) # copy_entries es"

definition Clone :: "document \<Rightarrow> document" where
  "Clone p = \<lparr>version = version p, enabled = copy_entries (enabled p)\<rparr>"

definition Equal :: "document \<Rightarrow> document \<Rightarrow> bool" where
  "Equal p q =
     (if version p \<noteq> version q then False
      else list_all (\<lambda>c. on p c = on q c) AllCaps)"

lemma copy_entries_id [simp]: "copy_entries es = es"
  by (induction es rule: copy_entries.induct) auto

lemma Clone_id [simp]: "Clone p = p"
  by (simp add: Clone_def)

lemma Validate_None_iff:
  "Validate p = None \<longleftrightarrow> version p \<noteq> 0 \<and> (\<forall>c \<in> fst ` set (enabled p). Known c)"
  by (force simp: Validate_def list_ex_iff)

lemma on_Known: "Validate p = None \<Longrightarrow> on p c \<Longrightarrow> Known c"
  by (force simp: Validate_None_iff on_def dest: map_of_SomeD split: option.splits)

lemma on_set_subset: "on_set p \<subseteq> set AllCaps"
  by (auto simp: on_set_def)

lemma Equal_iff: "Equal p q \<longleftrightarrow> version p = version q \<and> on_set p = on_set q"
  by (auto simp: Equal_def on_set_def list_all_iff)

section \<open>Declarations\<close>

record access =
  resource :: string
  privilege :: string
  writes :: bool

record descriptor =
  d_capability :: capability
  d_access :: "access list"
  implemented :: bool

definition Catalogue :: "descriptor list" where
  "Catalogue =
     [\<lparr>d_capability = Metrics, d_access = [\<lparr>resource = ''OS CPU/memory/network/disk counters'', privilege = ''restricted service account where supported'', writes = False\<rparr>], implemented = False\<rparr>,
      \<lparr>d_capability = Logs, d_access = [\<lparr>resource = ''locally approved log paths'', privilege = ''read ACL on each configured path'', writes = False\<rparr>], implemented = False\<rparr>,
      \<lparr>d_capability = Traces, d_access = [\<lparr>resource = ''locally approved loopback OTLP listener'', privilege = ''bind configured non-privileged port'', writes = False\<rparr>], implemented = False\<rparr>,
      \<lparr>d_capability = Processes, d_access = [\<lparr>resource = ''process metadata/counters'', privilege = ''OS- and process-owner-specific read access'', writes = False\<rparr>], implemented = False\<rparr>,
      \<lparr>d_capability = Containers, d_access = [\<lparr>resource = ''explicitly approved container endpoint'', privilege = ''socket access may imply host control; opt-in required'', writes = False\<rparr>], implemented = False\<rparr>]"

lemma Catalogue_complete: "map d_capability Catalogue = AllCaps"
  by (simp add: Catalogue_def AllCaps_def)

section \<open>The interface of a policy applier\<close>

text \<open>
  The contract behind \<^verbatim>\<open>fleet.Applier\<close>: whoever applies documents keeps track of the document in force
  and of the capabilities that are running. A successful application puts exactly the given
  document in force and runs exactly its enabled capabilities; a failed one does not change which
  document is in force.
\<close>

locale policy_applier =
  fixes apply_doc :: "document \<Rightarrow> 's \<Rightarrow> error option \<times> 's"
    and in_force :: "'s \<Rightarrow> document"
    and doing :: "'s \<Rightarrow> capability set"
    and invar :: "'s \<Rightarrow> bool"
  assumes invar_apply: "invar s \<Longrightarrow> apply_doc d s = (r, s') \<Longrightarrow> invar s'"
    and apply_nil_in_force:
      "invar s \<Longrightarrow> apply_doc d s = (None, s') \<Longrightarrow> version (in_force s') = version d \<and> on_set (in_force s') = on_set d"
    and apply_nil_doing: "invar s \<Longrightarrow> apply_doc d s = (None, s') \<Longrightarrow> doing s' = on_set d"
    and apply_err_in_force: "invar s \<Longrightarrow> apply_doc d s = (Some e, s') \<Longrightarrow> in_force s' = in_force s"
begin

lemma in_force_cases:
  assumes "invar s" and "apply_doc d s = (r, s')"
  shows "in_force s' = in_force s \<or> version (in_force s') = version d \<and> on_set (in_force s') = on_set d"
  using assms apply_nil_in_force apply_err_in_force by (cases r) auto

end

end
