(* ===== verification/GoPath.thy ===== *)
theory GoPath
  imports Json
begin

text \<open>
  The parts of Go's \<^verbatim>\<open>path\<close> and \<^verbatim>\<open>path/filepath\<close> packages that the agent uses on Linux: \<open>IsAbs\<close>, \<open>Clean\<close> and
  the glob matching of \<open>Match\<close>.
\<close>

section \<open>Absolute and clean paths\<close>

definition IsAbs :: "bytes \<Rightarrow> bool" where
  "IsAbs p = HasPrefix p ''/''"

fun split_slash :: "bytes \<Rightarrow> bytes list" where
  "split_slash [] = [[]]"
| "split_slash (c # s) =
     (if c = CHR ''/'' then [] # split_slash s
      else (case split_slash s of [] \<Rightarrow> [[c]] | e # es \<Rightarrow> (c # e) # es))"

text \<open>The elements that are left so far, the last one first.\<close>

fun clean_elems :: "bool \<Rightarrow> bytes list \<Rightarrow> bytes list \<Rightarrow> bytes list" where
  "clean_elems rooted out [] = out"
| "clean_elems rooted out (e # es) =
     (if e = [] \<or> e = ''.'' then clean_elems rooted out es
      else if e = ''..'' then
        (if out \<noteq> [] \<and> hd out \<noteq> ''..'' then clean_elems rooted (tl out) es
         else if rooted then clean_elems rooted out es
         else clean_elems rooted (e # out) es)
      else clean_elems rooted (e # out) es)"

fun join_slash :: "bytes list \<Rightarrow> bytes" where
  "join_slash [] = []"
| "join_slash [e] = e"
| "join_slash (e # es) = e @ CHR ''/'' # join_slash es"

definition Clean :: "bytes \<Rightarrow> bytes" where
  "Clean p =
     (let b = join_slash (rev (clean_elems (IsAbs p) [] (split_slash p)))
      in if IsAbs p then CHR ''/'' # b else if b = [] then ''.'' else b)"

section \<open>Glob patterns\<close>

text \<open>\<^verbatim>\<open>utf8.DecodeRuneInString\<close>: the rune and its width.\<close>

definition decode_rune :: "bytes \<Rightarrow> nat \<times> nat" where
  "decode_rune s =
     (let b = (\<lambda>i. of_char (s ! i) mod 64) in
      if rune1 s then (of_char (hd s), 1)
      else if rune2 s then (of_char (hd s) mod 32 * 64 + b 1, 2)
      else if rune3 s then (of_char (hd s) mod 16 * 4096 + b 1 * 64 + b 2, 3)
      else if rune4 s then (of_char (hd s) mod 8 * 262144 + b 1 * 4096 + b 2 * 64 + b 3, 4)
      else (65533, if s = [] then 0 else 1))"

text \<open>\<open>None\<close> stands for \<^verbatim>\<open>ErrBadPattern\<close>.\<close>

definition getEsc :: "bytes \<Rightarrow> (nat \<times> bytes) option" where
  "getEsc chunk =
     (if chunk = [] \<or> hd chunk = CHR ''-'' \<or> hd chunk = CHR '']'' then None
      else let c = (if hd chunk = BSLASH then tl chunk else chunk) in
        if c = [] then None
        else (case decode_rune c of (r, n) \<Rightarrow>
          if r = 65533 \<and> n = 1 then None
          else let nchunk = drop n c in if nchunk = [] then None else Some (r, nchunk)))"

lemma decode_rune_width: "s \<noteq> [] \<Longrightarrow> 1 \<le> snd (decode_rune s)"
  by (simp add: decode_rune_def Let_def)

lemma getEsc_shorter: "getEsc c = Some (r, c') \<Longrightarrow> length c' < length c \<and> c' \<noteq> []"
  using decode_rune_width[of c] decode_rune_width[of "tl c"]
  by (auto simp: getEsc_def Let_def split: if_splits prod.splits)

text \<open>The ranges of a character class, up to its closing bracket; \<open>k\<close> counts them.\<close>

function class_ranges :: "nat \<Rightarrow> bool \<Rightarrow> nat \<Rightarrow> bytes \<Rightarrow> (bool \<times> bytes) option" where
  "class_ranges r m k chunk =
     (if chunk \<noteq> [] \<and> hd chunk = CHR '']'' \<and> 0 < k then Some (m, tl chunk)
      else (case getEsc chunk of
        None \<Rightarrow> None
      | Some (lo, c1) \<Rightarrow>
          (case (if hd c1 = CHR ''-'' then getEsc (tl c1) else Some (lo, c1)) of
             None \<Rightarrow> None
           | Some (hi, c2) \<Rightarrow> class_ranges r (m \<or> lo \<le> r \<and> r \<le> hi) (k + 1) c2)))"
  by pat_completeness auto
termination
  by (relation "measure (\<lambda>(_, _, _, c). length c)")
    (auto split: if_splits dest!: getEsc_shorter)

declare class_ranges.simps [simp del]

lemma class_ranges_shorter: "class_ranges r m k c = Some (m', c') \<Longrightarrow> length c' < length c"
proof (induction r m k c rule: class_ranges.induct)
  case (1 r m k c)
  show ?case
  proof (cases "c \<noteq> [] \<and> hd c = CHR '']'' \<and> 0 < k")
    case True
    with "1.prems" show ?thesis by (subst (asm) class_ranges.simps) auto
  next
    case False
    with "1.prems" obtain lo c1 hi c2 where e: "getEsc c = Some (lo, c1)"
      "(if hd c1 = CHR ''-'' then getEsc (tl c1) else Some (lo, c1)) = Some (hi, c2)"
      "class_ranges r (m \<or> lo \<le> r \<and> r \<le> hi) (k + 1) c2 = Some (m', c')"
      by (subst (asm) class_ranges.simps) (auto split: option.splits prod.splits)
    have "length c2 \<le> length c1" using e(2) getEsc_shorter[of "tl c1" hi c2] by (auto split: if_splits)
    moreover have "length c' < length c2" by (rule "1.IH"[OF False e(1) refl e(2) refl e(3)])
    ultimately show ?thesis using getEsc_shorter[OF e(1)] by linarith
  qed
qed

lemma class_head:
  "class_ranges r m k (if b then tl (tl c) else tl c) = Some (x, c') \<Longrightarrow> c \<noteq> [] \<Longrightarrow> length c' < length c"
  by (cases c; cases "tl c") (auto dest!: class_ranges_shorter split: if_splits)

text \<open>\<open>Some (Some t)\<close>: the chunk matches a prefix, \<open>t\<close> is left; \<open>Some None\<close>: no match, but a good pattern.\<close>

function match_chunk :: "bool \<Rightarrow> bytes \<Rightarrow> bytes \<Rightarrow> bytes option option" where
  "match_chunk failed s chunk =
     (if chunk = [] then Some (if failed then None else Some s)
      else
        let failed = (failed \<or> s = []) in
        if hd chunk = CHR ''['' then
          (let (r, n) = (if failed then (0, 0) else decode_rune s);
               s' = drop n s;
               negated = (tl chunk \<noteq> [] \<and> hd (tl chunk) = CHR ''^'')
           in (case class_ranges r False 0 (if negated then tl (tl chunk) else tl chunk) of
                 None \<Rightarrow> None
               | Some (m, c) \<Rightarrow> match_chunk (failed \<or> m = negated) s' c))
        else if hd chunk = CHR ''?'' then
          (if failed then match_chunk True s (tl chunk)
           else match_chunk (hd s = CHR ''/'') (drop (snd (decode_rune s)) s) (tl chunk))
        else
          (let c = (if hd chunk = BSLASH then tl chunk else chunk) in
           if c = [] then None
           else if failed then match_chunk True s (tl c)
           else match_chunk (hd c \<noteq> hd s) (tl s) (tl c)))"
  by pat_completeness auto
termination
  by (relation "measure (\<lambda>(_, _, c). length c)") (auto dest!: class_head)

declare match_chunk.simps [simp del]

text \<open>The literal part of a chunk: up to the first star outside of brackets.\<close>

fun scan_literal :: "bool \<Rightarrow> bytes \<Rightarrow> bytes \<times> bytes" where
  "scan_literal inrange [] = ([], [])"
| "scan_literal inrange (c # p) =
     (if c = BSLASH then
        (case p of [] \<Rightarrow> ([c], []) | d # p' \<Rightarrow> (case scan_literal inrange p' of (a, b) \<Rightarrow> (c # d # a, b)))
      else if c = CHR ''*'' \<and> \<not> inrange then ([], c # p)
      else (case scan_literal (if c = CHR ''['' then True else if c = CHR '']'' then False else inrange) p of
              (a, b) \<Rightarrow> (c # a, b)))"

definition scan_chunk :: "bytes \<Rightarrow> bool \<times> bytes \<times> bytes" where
  "scan_chunk p =
     (let q = dropWhile (\<lambda>c. c = CHR ''*'') p in (q \<noteq> p, scan_literal False q))"

lemma scan_literal_append: "scan_literal b p = (a, r) \<Longrightarrow> p = a @ r"
  by (induction b p arbitrary: a r rule: scan_literal.induct) (auto split: if_splits list.splits prod.splits)

lemma scan_chunk_shorter: "p \<noteq> [] \<Longrightarrow> scan_chunk p = (st, c, r) \<Longrightarrow> length r < length p"
proof -
  assume p: "p \<noteq> []" "scan_chunk p = (st, c, r)"
  let ?q = "dropWhile (\<lambda>c. c = CHR ''*'') p"
  have l: "scan_literal False ?q = (c, r)" using p(2) by (simp add: scan_chunk_def Let_def)
  show ?thesis
  proof (cases "?q = p")
    case False
    then have "length ?q < length p"
      using length_dropWhile_le[of "\<lambda>c. c = CHR ''*''" "tl p"] by (cases p) (auto split: if_splits)
    moreover have "length r \<le> length ?q" using scan_literal_append[OF l] by simp
    ultimately show ?thesis by simp
  next
    case True
    then obtain x xs where x: "p = x # xs" "x \<noteq> CHR ''*''" using p(1) length_dropWhile_le[of "\<lambda>c. c = CHR ''*''" "tl p"]
      by (cases p) (auto split: if_splits dest: arg_cong[of _ _ length])
    then have "c \<noteq> []" using l True by (auto split: if_splits list.splits prod.splits)
    with scan_literal_append[OF l] True show ?thesis by auto
  qed
qed

text \<open>The loop after a star: skip bytes other than a slash until the chunk matches.\<close>

fun match_skip :: "bool \<Rightarrow> bytes \<Rightarrow> bytes \<Rightarrow> bytes option option" where
  "match_skip final chunk [] = Some None"
| "match_skip final chunk (c # name) =
     (if c = CHR ''/'' then Some None
      else (case match_chunk False name chunk of
              None \<Rightarrow> None
            | Some (Some t) \<Rightarrow> if final \<and> t \<noteq> [] then match_skip final chunk name else Some (Some t)
            | Some None \<Rightarrow> match_skip final chunk name))"

function good_rest :: "bytes \<Rightarrow> bool" where
  "good_rest p =
     (if p = [] then True
      else (case scan_chunk p of (_, chunk, rest) \<Rightarrow> match_chunk False [] chunk \<noteq> None \<and> good_rest rest))"
  by pat_completeness auto
termination
  by (relation "measure length") (auto dest: scan_chunk_shorter[OF _ sym])

declare good_rest.simps [simp del]

function glob_match :: "bytes \<Rightarrow> bytes \<Rightarrow> bool option" where
  "glob_match pattern name =
     (if pattern = [] then Some (name = [])
      else (case scan_chunk pattern of (star, chunk, rest) \<Rightarrow>
        if star \<and> chunk = [] then Some (CHR ''/'' \<notin> set name)
        else (case match_chunk False name chunk of
                None \<Rightarrow> None
              | Some here \<Rightarrow>
                  (case (if (case here of Some t \<Rightarrow> t = [] \<or> rest \<noteq> [] | None \<Rightarrow> False) then Some here
                         else if star then match_skip (rest = []) chunk name else Some None) of
                     None \<Rightarrow> None
                   | Some (Some t) \<Rightarrow> glob_match rest t
                   | Some None \<Rightarrow> if good_rest rest then Some False else None))))"
  by pat_completeness auto
termination
  by (relation "measure (\<lambda>(p, _). length p)") (auto dest: scan_chunk_shorter[OF _ sym])

declare glob_match.simps [simp del]


section \<open>Bad patterns\<close>

text \<open>Whether a pattern is bad does not depend on the name it is matched against.\<close>

lemma class_ranges_uniform: "map_option snd (class_ranges r m k c) = map_option snd (class_ranges r' m' k c)"
proof (induction r m k c arbitrary: r' m' rule: class_ranges.induct)
  case (1 r m k c)
  show ?case
  proof (cases "c \<noteq> [] \<and> hd c = CHR '']'' \<and> 0 < k")
    case True
    then show ?thesis by (simp add: class_ranges.simps)
  next
    case F: False
    show ?thesis
    proof (cases "getEsc c")
      case None
      then show ?thesis using F by (simp add: class_ranges.simps)
    next
      case (Some e)
      obtain lo c1 where e: "e = (lo, c1)" by fastforce
      show ?thesis
      proof (cases "if hd c1 = CHR ''-'' then getEsc (tl c1) else Some (lo, c1)")
        case None
        then show ?thesis using F Some e by (simp add: class_ranges.simps[of r m k c] class_ranges.simps[of r' m' k c])
      next
        case (Some g)
        obtain hi c2 where g: "g = (hi, c2)" by fastforce
        have step: "class_ranges a b k c = class_ranges a (b \<or> lo \<le> a \<and> a \<le> hi) (k + 1) c2" for a b
          by (subst class_ranges.simps, subst if_not_P[OF F]) (simp add: \<open>getEsc c = Some e\<close> e Some g)
        show ?thesis
          using "1.IH"[OF F \<open>getEsc c = Some e\<close> e[symmetric] Some g[symmetric], of r' "m' \<or> lo \<le> r' \<and> r' \<le> hi"] step[of r m] step[of r' m'] by simp
      qed
    qed
  qed
qed

lemma class_ranges_result:
  "class_ranges r m k c = None \<longleftrightarrow> class_ranges r' m' k c = None"
  "class_ranges r m k c = Some (x, d) \<Longrightarrow> \<exists>x'. class_ranges r' m' k c = Some (x', d)"
proof -
  note u = class_ranges_uniform[of r m k c r' m']
  show "class_ranges r m k c = None \<longleftrightarrow> class_ranges r' m' k c = None"
    using u by (cases "class_ranges r m k c"; cases "class_ranges r' m' k c") simp_all
  show "\<exists>x'. class_ranges r' m' k c = Some (x', d)" if "class_ranges r m k c = Some (x, d)"
  proof (cases "class_ranges r' m' k c")
    case None
    with u that show ?thesis by simp
  next
    case (Some e)
    with u that show ?thesis by (cases e) simp
  qed
qed

definition class_start :: "bytes \<Rightarrow> bytes" where
  "class_start c = (if tl c \<noteq> [] \<and> hd (tl c) = CHR ''^'' then tl (tl c) else tl c)"

lemma match_class:
  "c \<noteq> [] \<Longrightarrow> hd c = CHR ''['' \<Longrightarrow>
   \<exists>r F s1. match_chunk f s c = (case class_ranges r False 0 (class_start c) of None \<Rightarrow> None | Some (m, d) \<Rightarrow> match_chunk (F m) s1 d)"
proof -
  assume c: "c \<noteq> []" "hd c = CHR ''[''"
  obtain r n where d: "decode_rune s = (r, n)" by fastforce
  have "match_chunk f s c = (case class_ranges (if f \<or> s = [] then 0 else r) False 0 (class_start c) of None \<Rightarrow> None
      | Some (m, d) \<Rightarrow> match_chunk ((f \<or> s = []) \<or> m = (tl c \<noteq> [] \<and> hd (tl c) = CHR ''^'')) (drop (if f \<or> s = [] then 0 else n) s) d)"
    unfolding match_chunk.simps[of f s c] class_start_def Let_def using c d by (simp split: prod.split)
  then show ?thesis by (intro exI)
qed

lemma match_query: "c \<noteq> [] \<Longrightarrow> hd c = CHR ''?'' \<Longrightarrow> \<exists>f1 s1. match_chunk f s c = match_chunk f1 s1 (tl c)"
  by (subst match_chunk.simps) (auto simp: Let_def)

lemma match_plain:
  "c \<noteq> [] \<Longrightarrow> hd c \<noteq> CHR ''['' \<Longrightarrow> hd c \<noteq> CHR ''?'' \<Longrightarrow> d = (if hd c = BSLASH then tl c else c) \<Longrightarrow>
   \<exists>f1 s1. match_chunk f s c = (if d = [] then None else match_chunk f1 s1 (tl d))"
  by (subst match_chunk.simps) (auto simp: Let_def)

lemma match_chunk_uniform: "match_chunk f s c = None \<longleftrightarrow> match_chunk f' s' c = None"
proof (induction c arbitrary: f s f' s' rule: length_induct)
  case (1 c)
  have IH: "match_chunk g t d = None \<longleftrightarrow> match_chunk g' t' d = None" if "length d < length c" for g t g' t' d
    using 1 that by blast
  consider "c = []" | "c \<noteq> []" "hd c = CHR ''[''" | "c \<noteq> []" "hd c = CHR ''?''" | "c \<noteq> []" "hd c \<noteq> CHR ''[''" "hd c \<noteq> CHR ''?''" by blast
  then show ?case
  proof cases
    case 1
    then show ?thesis by (simp add: match_chunk.simps)
  next
    case 2
    obtain r F s1 where a: "match_chunk f s c = (case class_ranges r False 0 (class_start c) of None \<Rightarrow> None | Some (m, d) \<Rightarrow> match_chunk (F m) s1 d)"
      using match_class[OF 2] by blast
    obtain r' F' s2 where b: "match_chunk f' s' c = (case class_ranges r' False 0 (class_start c) of None \<Rightarrow> None | Some (m, d) \<Rightarrow> match_chunk (F' m) s2 d)"
      using match_class[OF 2] by blast
    show ?thesis
    proof (cases "class_ranges r False 0 (class_start c)")
      case None
      then show ?thesis using a b class_ranges_result(1)[of r False 0 "class_start c" r' False] by simp
    next
      case (Some e)
      obtain m d where e: "e = (m, d)" by fastforce
      then obtain m' where "class_ranges r' False 0 (class_start c) = Some (m', d)" using class_ranges_result(2)[OF Some[unfolded e]] by blast
      moreover have "length d < length c" using class_head[OF Some[unfolded e class_start_def]] 2 by simp
      ultimately show ?thesis using a b Some e IH[of d] by simp
    qed
  next
    case 3
    obtain f1 s1 f2 s2 where "match_chunk f s c = match_chunk f1 s1 (tl c)" "match_chunk f' s' c = match_chunk f2 s2 (tl c)"
      using match_query[OF 3] by metis
    then show ?thesis using IH[of "tl c" f1 s1 f2 s2] 3(1) by simp
  next
    case 4
    define d where "d = (if hd c = BSLASH then tl c else c)"
    have "length (tl d) < length c" using 4(1) by (cases c) (auto simp: d_def)
    moreover obtain f1 s1 f2 s2 where "match_chunk f s c = (if d = [] then None else match_chunk f1 s1 (tl d))"
      "match_chunk f' s' c = (if d = [] then None else match_chunk f2 s2 (tl d))"
      using match_plain[OF 4 d_def] by metis
    ultimately show ?thesis using IH[of "tl d" f1 s1 f2 s2] by simp
  qed
qed

lemma match_skip_bad: "match_skip b c n = None \<Longrightarrow> match_chunk f s c = None"
  by (induction b c n rule: match_skip.induct) (auto split: if_splits option.splits simp: match_chunk_uniform[of False _ _ f s])

lemma scan_chunk_empty: "scan_chunk p = (st, [], r) \<Longrightarrow> r = []"
proof -
  assume a: "scan_chunk p = (st, [], r)"
  let ?q = "dropWhile (\<lambda>c. c = CHR ''*'') p"
  have l: "scan_literal False ?q = ([], r)" using a by (simp add: scan_chunk_def Let_def)
  show "r = []"
  proof (cases ?q)
    case Nil
    with l show ?thesis by simp
  next
    case (Cons x xs)
    then have "x \<noteq> CHR ''*''" using hd_dropWhile[of "\<lambda>c. c = CHR ''*''" p] by simp
    with l Cons show ?thesis by (auto split: if_splits list.splits prod.splits)
  qed
qed

lemma glob_match_bad: "glob_match p n = None \<longleftrightarrow> \<not> good_rest p"
proof (induction p n rule: glob_match.induct)
  case (1 p n)
  show ?case
  proof (cases "p = []")
    case True
    then show ?thesis by (simp add: glob_match.simps[of "[]" n] good_rest.simps[of "[]"])
  next
    case F: False
    obtain st c r where sc: "scan_chunk p = (st, c, r)" by (metis prod_cases3)
    have gp: "good_rest p \<longleftrightarrow> match_chunk False [] c \<noteq> None \<and> good_rest r" using F sc by (simp add: good_rest.simps[of p])
    show ?thesis
    proof (cases "match_chunk False [] c = None \<or> st \<and> c = []")
      case True
      have "match_chunk False [] [] \<noteq> None" by (simp add: match_chunk.simps)
      then have "good_rest p \<longleftrightarrow> match_chunk False [] c \<noteq> None" using gp scan_chunk_empty[of p st r] sc True by (auto simp: good_rest.simps[of "[]"])
      moreover have "glob_match p n = None \<longleftrightarrow> match_chunk False [] c = None"
      proof (cases "st \<and> c = []")
        case True
        then show ?thesis using F sc \<open>match_chunk False [] [] \<noteq> None\<close> by (simp add: glob_match.simps[of p n])
      next
        case g: False
        then have "match_chunk False n c = None" using True match_chunk_uniform[of False n c False "[]"] by blast
        then show ?thesis using F sc g True by (auto simp: glob_match.simps[of p n])
      qed
      ultimately show ?thesis by simp
    next
      case False
      then obtain here where here: "match_chunk False n c = Some here" using match_chunk_uniform[of False n c False "[]"] by blast
      define found where "found = (if (case here of Some t \<Rightarrow> t = [] \<or> r \<noteq> [] | None \<Rightarrow> False) then Some here
          else if st then match_skip (r = []) c n else Some None)"
      have g: "glob_match p n = (case found of None \<Rightarrow> None | Some (Some t) \<Rightarrow> glob_match r t
          | Some None \<Rightarrow> if good_rest r then Some False else None)"
      proof -
        have "\<not> (st \<and> c = [])" using False by blast
        then have "c = [] \<Longrightarrow> \<not> st" by blast
        then show ?thesis using F sc here by (cases "c = []") (simp_all add: glob_match.simps[of p n] found_def)
      qed
      have "found \<noteq> None" using match_skip_bad[of "r = []" c n False "[]"] False by (cases "match_skip (r = []) c n") (auto simp: found_def)
      then obtain res where res: "found = Some res" by blast
      show ?thesis
      proof (cases res)
        case None
        then show ?thesis using g res gp False by auto
      next
        case (Some t)
        have "glob_match r t = None \<longleftrightarrow> \<not> good_rest r"
          using "1.IH"[OF F sc[symmetric] refl _ here, of res t] False Some res by (auto simp: found_def)
        then show ?thesis using g res Some gp False by auto
      qed
    qed
  qed
qed

end
