(* ===== verification/Secrets.thy ===== *)
theory Secrets
  imports Fs Json
begin

text \<open>
  Ingestion credentials (\<^verbatim>\<open>src/internal/security/security.go\<close>, \<^verbatim>\<open>credential.go\<close>, \<^verbatim>\<open>private_linux.go\<close>). The environment is
  a function from names to values (\<^verbatim>\<open>os.Getenv\<close>: empty where unset), the file system a function from paths
  to files. Clearing a buffer has no effect the model can see.
\<close>

section \<open>Protected files\<close>

text \<open>\<open>euid\<close> is the effective user of the process; opening refuses a symbolic link at the last element.\<close>

definition OpenPrivate :: "(bytes \<Rightarrow> inode option) \<Rightarrow> nat \<Rightarrow> bytes \<Rightarrow> inode result" where
  "OpenPrivate files euid path =
     (case files path of
        None \<Rightarrow> Inl (Failure ''protected file unavailable'')
      | Some f \<Rightarrow>
          if f_kind f = Symlink then Inl (Failure ''protected file unavailable'')
          else if f_kind f \<noteq> Regular \<or> and (int (f_mode f mod 512)) 23 \<noteq> 0 \<or> (f_uid f \<noteq> 0 \<and> f_uid f \<noteq> euid) \<or> f_nlink f \<noteq> 1
          then Inl (Failure ''protected file ownership or permissions invalid'') else Inr f)"

section \<open>Providers\<close>

definition key_breaks :: "char list" where
  "key_breaks = [CHR 0x20, CHR 0x09, CHR 0x0D, CHR 0x0A, CHR 0x00]"

definition Environment_Authorization :: "(bytes \<Rightarrow> bytes) \<Rightarrow> error option \<Rightarrow> bytes \<Rightarrow> bytes result" where
  "Environment_Authorization getenv ctx name =
     (case ctx of Some e \<Rightarrow> Inl e | None \<Rightarrow>
      let value = getenv name in
      if \<not> HasPrefix value ''ApiKey '' \<or> length value \<le> 7 \<or> 4096 < length value \<or> ContainsAny (drop 7 value) key_breaks
      then Inl (Failure ''ingestion authorization unavailable or invalid'') else Inr value)"

record credential =
  cr_inline :: bytes
  cr_env :: bytes
  cr_file :: bytes

definition NewCredential :: "bytes \<Rightarrow> bytes \<Rightarrow> bytes \<Rightarrow> credential" where
  "NewCredential i e f = \<lparr>cr_inline = i, cr_env = e, cr_file = f\<rparr>"

text \<open>What any dump of a credential shows.\<close>

definition credential_String :: "credential \<Rightarrow> bytes" where
  "credential_String c = ''[credential redacted]''"

definition credential_MarshalJSON :: "credential \<Rightarrow> bytes" where
  "credential_MarshalJSON c = [QUOTE] @ ''[redacted]'' @ [QUOTE]"

text \<open>\<open>rd\<close> is what reading an open file gives; \<open>None\<close> is an error.\<close>

definition credential_value ::
    "(bytes \<Rightarrow> bytes) \<Rightarrow> (bytes \<Rightarrow> inode option) \<Rightarrow> (inode \<Rightarrow> bytes option) \<Rightarrow> nat \<Rightarrow> credential \<Rightarrow> bytes result" where
  "credential_value getenv files rd euid c =
     (if cr_env c \<noteq> [] then Inr (getenv (cr_env c))
      else if cr_file c \<noteq> [] then
        (case OpenPrivate files euid (cr_file c) of
           Inl _ \<Rightarrow> Inl (Failure ''credential reference unavailable or unsafe'')
         | Inr f \<Rightarrow>
             (case rd f of
                None \<Rightarrow> Inl (Failure ''credential reference invalid'')
              | Some content \<Rightarrow>
                  let b = take 4097 content in
                  if 4096 < length b then Inl (Failure ''credential reference invalid'') else Inr (TrimSpace b)))
      else Inr (cr_inline c))"

text \<open>The loop over the runes refuses every byte outside of 33 to 126.\<close>

definition Credential_Authorization ::
    "(bytes \<Rightarrow> bytes) \<Rightarrow> (bytes \<Rightarrow> inode option) \<Rightarrow> (inode \<Rightarrow> bytes option) \<Rightarrow> nat \<Rightarrow> credential \<Rightarrow> error option \<Rightarrow> bytes result" where
  "Credential_Authorization getenv files rd euid c ctx =
     (case ctx of Some e \<Rightarrow> Inl e | None \<Rightarrow>
     (case credential_value getenv files rd euid c of Inl e \<Rightarrow> Inl e | Inr v \<Rightarrow>
      let value = TrimPrefix v ''ApiKey '' in
      if list_ex (\<lambda>r. \<not> in_range 33 126 r) value then Inl (Failure ''ingestion authorization unavailable or invalid'')
      else if value = [] \<or> 4089 < length value \<or> ContainsAny value key_breaks \<or> ContainsAny value ''<>''
      then Inl (Failure ''ingestion authorization unavailable or invalid'')
      else Inr (''ApiKey '' @ value)))"

section \<open>What a header looks like\<close>

text \<open>The form every consumer of an authorization insists on.\<close>

definition valid_header :: "bytes \<Rightarrow> bool" where
  "valid_header a \<longleftrightarrow> HasPrefix a ''ApiKey '' \<and> 7 < length a \<and> length a \<le> 4096 \<and> \<not> ContainsAny (drop 7 a) key_breaks"

lemma Environment_valid: "Environment_Authorization getenv ctx name = Inr a \<Longrightarrow> valid_header a"
  by (auto simp: Environment_Authorization_def valid_header_def Let_def split: option.splits if_splits)

lemma Credential_valid: "Credential_Authorization getenv files rd euid c ctx = Inr a \<Longrightarrow> valid_header a"
  by (auto simp: Credential_Authorization_def valid_header_def Let_def HasPrefix_iff split: option.splits sum.splits if_splits)

lemma OpenPrivate_safe:
  "OpenPrivate files euid path = Inr f \<Longrightarrow>
   files path = Some f \<and> f_kind f = Regular \<and> (f_uid f = 0 \<or> f_uid f = euid) \<and> f_nlink f = 1 \<and> and (int (f_mode f mod 512)) 23 = 0"
  by (auto simp: OpenPrivate_def split: option.splits if_splits)

end
