(* ===== verification/Config.thy ===== *)
theory Config
  imports Policy GoPath Secrets
begin

text \<open>
  The configuration (\<^verbatim>\<open>src/internal/config/config.go\<close>, \<^verbatim>\<open>runtime.go\<close>, \<^verbatim>\<open>scope.go\<close>): its data, the defaults of the
  runtime and the validation. \<^verbatim>\<open>url.Parse\<close> and \<^verbatim>\<open>regexp.Compile\<close> are parameters: \<open>parse\<close> answers the parts of
  the URL the code looks at or nothing, \<open>compiles\<close> says whether an expression is well formed. The
  expressions written in the code are translated to predicates on characters.
\<close>

section \<open>Data\<close>

record exporter_config =
  BackendID :: bytes
  OrganizationID :: bytes
  PreviousEndpoint :: bytes
  Type :: bytes
  Endpoint :: bytes
  HeadersEnv :: "(bytes \<times> bytes) list"

record limits =
  RequestBytes :: int
  lim_QueueBytes :: int
  MemoryMiB :: int
  ShutdownSeconds :: int

record collection =
  IntervalSeconds :: int
  MaxPoints :: int
  MaxDevices :: int
  MaxInterfaces :: int
  MaxMounts :: int

record ec2_metadata =
  ec2_Enabled :: "bool option"
  ec2_Required :: bool
  TimeoutSeconds :: int

record delivery_config =
  del_StateDirectory :: bytes
  del_OverflowPolicy :: bytes
  BatchPoints :: int
  del_QueueItems :: int
  MaxAttempts :: int
  RequestTimeoutSeconds :: int

record log_multiline =
  ml_Enabled :: bool
  StartPattern :: bytes
  FlushTimeoutMillis :: int
  MaxLines :: int
  ml_MaxBytes :: int

record log_source =
  src_ID :: bytes
  src_Root :: bytes
  Include :: "bytes list"
  Exclude :: "bytes list"
  src_StartAt :: bytes
  ServiceName :: bytes
  Environment :: bytes
  MaxOpenFiles :: int
  MaxLineBytes :: int
  Multiline :: log_multiline

record journald_source =
  jd_Enabled :: bool
  Units :: "bytes list"
  Identifiers :: "bytes list"
  jd_Priority :: bytes
  jd_StartAt :: bytes

record logs_config =
  StateDirectory :: bytes
  QueueBytes :: int
  QueueItems :: int
  OverflowPolicy :: bytes
  PollIntervalMillis :: int
  MaxFiles :: int
  Sources :: "log_source list"
  Journald :: journald_source

record config =
  yamlConfig :: bool
  cfg_credential :: credential
  cfg_Collection :: collection
  cfg_Logs :: logs_config
  EC2 :: ec2_metadata
  Delivery :: delivery_config
  AgentID :: bytes
  Exporter :: exporter_config
  cfg_Policy :: document
  RemoteAllowed :: "capability list"
  cfg_Limits :: limits

text \<open>The parts of a parsed URL: \<open>u_Hostname\<close> is \<^verbatim>\<open>Hostname()\<close>, \<open>u_User\<close> says that there is user information.\<close>

record url =
  Scheme :: bytes
  u_Hostname :: bytes
  u_User :: bool
  RawQuery :: bytes
  Fragment :: bytes
  RawPath :: bytes
  u_Path :: bytes

section \<open>Patterns\<close>

definition is_alpha :: "char \<Rightarrow> bool" where
  "is_alpha c \<longleftrightarrow> in_range 65 90 c \<or> in_range 97 122 c"

definition is_alnum :: "char \<Rightarrow> bool" where
  "is_alnum c \<longleftrightarrow> is_alpha c \<or> is_digit c"

text \<open>A first character, then at most \<open>n\<close> others (any number for \<open>None\<close>), up to the end of the text.\<close>

definition word_pattern :: "(char \<Rightarrow> bool) \<Rightarrow> (char \<Rightarrow> bool) \<Rightarrow> nat option \<Rightarrow> bytes \<Rightarrow> bool" where
  "word_pattern first others n s \<longleftrightarrow>
     (case s of [] \<Rightarrow> False
      | c # t \<Rightarrow> first c \<and> list_all others t \<and> (case n of None \<Rightarrow> True | Some k \<Rightarrow> length t \<le> k))"

definition envName :: "bytes \<Rightarrow> bool" where
  "envName = word_pattern (\<lambda>c. is_alpha c \<or> c = CHR ''_'') (\<lambda>c. is_alnum c \<or> c = CHR ''_'') None"

definition logicalID :: "bytes \<Rightarrow> bool" where
  "logicalID = word_pattern is_alnum (\<lambda>c. is_alnum c \<or> c \<in> set ''._:-'') (Some 127)"

definition logID :: "bytes \<Rightarrow> bool" where
  "logID = word_pattern is_alnum (\<lambda>c. is_alnum c \<or> c \<in> set ''._-'') (Some 63)"

definition journalFilter :: "bytes \<Rightarrow> bool" where
  "journalFilter = word_pattern is_alnum (\<lambda>c. is_alnum c \<or> c \<in> set ''_.@:-'') (Some 255)"

text \<open>\<open>"\x00\r\n"\<close>\<close>

definition line_breaks :: "char list" where
  "line_breaks = [CHR 0x00, CHR 0x0D, CHR 0x0A]"

section \<open>Defaults\<close>

definition or_int :: "int \<Rightarrow> int \<Rightarrow> int" where
  "or_int d v = (if v = 0 then d else v)"

definition or_string :: "bytes \<Rightarrow> bytes \<Rightarrow> bytes" where
  "or_string d v = (if v = [] then d else v)"

definition source_defaults :: "log_source \<Rightarrow> log_source" where
  "source_defaults s =
     s\<lparr>src_StartAt := or_string ''end'' (src_StartAt s), MaxOpenFiles := or_int 32 (MaxOpenFiles s),
       MaxLineBytes := or_int 262144 (MaxLineBytes s),
       Multiline := (Multiline s)\<lparr>FlushTimeoutMillis := or_int 5000 (FlushTimeoutMillis (Multiline s)),
         MaxLines := or_int 200 (MaxLines (Multiline s)), ml_MaxBytes := or_int 262144 (ml_MaxBytes (Multiline s))\<rparr>\<rparr>"

definition LogsRuntime :: "config \<Rightarrow> logs_config" where
  "LogsRuntime c =
     (let l = cfg_Logs c in
      l\<lparr>StateDirectory := or_string ''/var/lib/observe-agent/logs'' (StateDirectory l), QueueBytes := or_int 67108864 (QueueBytes l),
        QueueItems := or_int 1024 (QueueItems l), OverflowPolicy := or_string ''reject_new'' (OverflowPolicy l),
        PollIntervalMillis := or_int 1000 (PollIntervalMillis l), MaxFiles := or_int 256 (MaxFiles l),
        Sources := map source_defaults (Sources l),
        Journald := (Journald l)\<lparr>jd_StartAt := or_string ''end'' (jd_StartAt (Journald l))\<rparr>\<rparr>)"

definition Runtime :: "config \<Rightarrow> collection \<times> ec2_metadata \<times> delivery_config" where
  "Runtime c =
     (let a = cfg_Collection c; b = EC2 c; d = Delivery c in
      (a\<lparr>IntervalSeconds := or_int 15 (IntervalSeconds a), MaxPoints := or_int 4096 (MaxPoints a),
         MaxDevices := or_int 128 (MaxDevices a), MaxInterfaces := or_int 64 (MaxInterfaces a), MaxMounts := or_int 64 (MaxMounts a)\<rparr>,
       b\<lparr>ec2_Enabled := (case ec2_Enabled b of None \<Rightarrow> Some True | Some v \<Rightarrow> Some v), TimeoutSeconds := or_int 2 (TimeoutSeconds b)\<rparr>,
       d\<lparr>del_StateDirectory := or_string ''/var/lib/observe-agent/metrics'' (del_StateDirectory d),
         del_OverflowPolicy := or_string ''reject_new'' (del_OverflowPolicy d), BatchPoints := or_int 500 (BatchPoints d),
         del_QueueItems := or_int 64 (del_QueueItems d), MaxAttempts := or_int 4 (MaxAttempts d),
         RequestTimeoutSeconds := or_int 15 (RequestTimeoutSeconds d)\<rparr>))"

section \<open>Validation\<close>

definition validateLogPattern :: "bytes \<Rightarrow> bool" where
  "validateLogPattern v =
     (if v = [] \<or> 256 < length v \<or> ContainsAny v [BSLASH, CHR ''/'', CHR 0x00, CHR 0x0D, CHR 0x0A] \<or> v = ''.'' \<or> v = ''..'' then False
      else glob_match v ''candidate.log'' \<noteq> None)"

definition outside :: "int \<Rightarrow> int \<Rightarrow> int \<Rightarrow> bool" where
  "outside lo hi v \<longleftrightarrow> v < lo \<or> hi < v"

definition validate_multiline :: "(bytes \<Rightarrow> bool) \<Rightarrow> log_source \<Rightarrow> error option" where
  "validate_multiline compiles s =
     (let m = Multiline s in
      if ml_Enabled m \<and> (StartPattern m = [] \<or> 1024 < length (StartPattern m)) then Some (Failure ''logs multiline pattern required'')
      else if ml_Enabled m \<and> \<not> compiles (StartPattern m) then Some (Failure ''logs multiline pattern invalid'')
      else if outside 100 60000 (FlushTimeoutMillis m) \<or> outside 1 1000 (MaxLines m) \<or> outside 256 1048576 (ml_MaxBytes m)
              \<or> MaxLineBytes s < ml_MaxBytes m
      then Some (Failure ''logs multiline limits invalid'') else None)"

text \<open>One round of the loop over the sources; \<open>seen\<close> lists the identifiers so far.\<close>

definition validate_source :: "(bytes \<Rightarrow> bool) \<Rightarrow> bytes list \<Rightarrow> log_source \<Rightarrow> error option" where
  "validate_source compiles seen s =
     (if \<not> logID (src_ID s) \<or> src_ID s \<in> set seen \<or> \<not> IsAbs (src_Root s) \<or> Clean (src_Root s) \<noteq> src_Root s \<or> src_Root s = ''/''
         \<or> ContainsAny (src_Root s) line_breaks \<or> 4096 < length (src_Root s)
      then Some (Failure ''logs source identity or root invalid'')
      else if Include s = [] \<or> 32 < length (Include s) \<or> 32 < length (Exclude s) then Some (Failure ''logs source patterns invalid'')
      else if list_ex (\<lambda>p. \<not> validateLogPattern p) (Include s @ Exclude s) then Some (Failure ''logs source pattern invalid'')
      else if src_StartAt s \<noteq> ''beginning'' \<and> src_StartAt s \<noteq> ''end'' then Some (Failure ''logs start_at invalid'')
      else if outside 1 128 (MaxOpenFiles s) \<or> outside 256 1048576 (MaxLineBytes s) \<or> 256 < length (ServiceName s)
              \<or> 256 < length (Environment s) \<or> ContainsAny (ServiceName s @ Environment s) line_breaks
      then Some (Failure ''logs source limits invalid'')
      else validate_multiline compiles s)"

fun validate_sources :: "(bytes \<Rightarrow> bool) \<Rightarrow> bytes list \<Rightarrow> log_source list \<Rightarrow> error option" where
  "validate_sources compiles seen [] = None"
| "validate_sources compiles seen (s # ss) =
     (case validate_source compiles seen s of Some e \<Rightarrow> Some e | None \<Rightarrow> validate_sources compiles (src_ID s # seen) ss)"

definition priorities :: "bytes list" where
  "priorities = [''0'', ''1'', ''2'', ''3'', ''4'', ''5'', ''6'', ''7'', ''emerg'', ''alert'', ''crit'', ''err'', ''warning'',
     ''notice'', ''info'', ''debug'']"

definition validate_journald :: "journald_source \<Rightarrow> error option" where
  "validate_journald j =
     (if 64 < length (Units j) \<or> 64 < length (Identifiers j) \<or> (jd_StartAt j \<noteq> ''beginning'' \<and> jd_StartAt j \<noteq> ''end'')
      then Some (Failure ''journald source limits invalid'')
      else if list_ex (\<lambda>v. \<not> journalFilter v) (Units j @ Identifiers j) then Some (Failure ''journald filter invalid'')
      else if jd_Priority j \<noteq> [] \<and> jd_Priority j \<notin> set priorities then Some (Failure ''journald priority invalid'') else None)"

definition validateLogs :: "(bytes \<Rightarrow> bool) \<Rightarrow> config \<Rightarrow> error option" where
  "validateLogs compiles c =
     (let l = LogsRuntime c in
      if \<not> IsAbs (StateDirectory l) \<or> ContainsAny (StateDirectory l) line_breaks \<or> outside 1048576 1073741824 (QueueBytes l)
         \<or> outside 1 4096 (QueueItems l) \<or> OverflowPolicy l \<noteq> ''reject_new'' \<or> outside 200 60000 (PollIntervalMillis l)
         \<or> outside 1 1024 (MaxFiles l) \<or> 16 < length (Sources l)
      then Some (Failure ''logs delivery limits invalid'')
      else (case validate_sources compiles [] (Sources l) of Some e \<Rightarrow> Some e | None \<Rightarrow> validate_journald (Journald l)))"

definition ValidateRuntime :: "(bytes \<Rightarrow> bool) \<Rightarrow> config \<Rightarrow> error option" where
  "ValidateRuntime compiles c =
     (case Runtime c of (a, b, d) \<Rightarrow>
        if del_OverflowPolicy d \<noteq> ''reject_new''
           \<or> (del_StateDirectory d \<noteq> ''/var/lib/observe-agent/metrics'' \<and> \<not> IsAbs (del_StateDirectory d))
        then Some (Failure ''invalid persistent delivery options'')
        else if outside 5 3600 (IntervalSeconds a) \<or> outside 32 16384 (MaxPoints a) \<or> outside 1 256 (MaxDevices a)
             \<or> outside 1 256 (MaxInterfaces a) \<or> outside 1 128 (MaxMounts a)
        then Some (Failure ''collection limits invalid'')
        else if outside 1 10 (TimeoutSeconds b) \<or> (ec2_Required b \<and> ec2_Enabled b \<noteq> Some True)
        then Some (Failure ''EC2 metadata options invalid'')
        else if outside 1 1000 (BatchPoints d) \<or> outside 1 1024 (del_QueueItems d) \<or> outside 1 8 (MaxAttempts d)
             \<or> outside 1 60 (RequestTimeoutSeconds d)
        then Some (Failure ''delivery limits invalid'')
        else validateLogs compiles c)"

text \<open>The checks on a base URL that the endpoint and the previous endpoint share.\<close>

definition plain_https :: "url \<Rightarrow> bool" where
  "plain_https u \<longleftrightarrow> Scheme u = ''https'' \<and> u_Hostname u \<noteq> [] \<and> \<not> u_User u \<and> RawQuery u = [] \<and> Fragment u = [] \<and> RawPath u = []"

definition header :: "exporter_config \<Rightarrow> bytes \<Rightarrow> bytes" where
  "header x k = (case map_of (HeadersEnv x) k of None \<Rightarrow> [] | Some v \<Rightarrow> v)"

definition ValidateConfig :: "(bytes \<Rightarrow> url option) \<Rightarrow> (bytes \<Rightarrow> bool) \<Rightarrow> config \<Rightarrow> error option" where
  "ValidateConfig parse compiles c =
     (case ValidateRuntime compiles c of Some e \<Rightarrow> Some e | None \<Rightarrow>
      if 256 < length (AgentID c) \<or> ContainsAny (AgentID c) line_breaks then Some (Failure ''invalid agent identity configuration'')
      else (case Policy.Validate (cfg_Policy c) of Some e \<Rightarrow> Some e | None \<Rightarrow>
      if list_ex (\<lambda>x. \<not> Known x) (RemoteAllowed c) then Some (Failure ''unknown locally allowed capability'')
      else if Type (Exporter c) \<noteq> ''otlp_http'' then Some (Failure ''foundation requires otlp_http exporter'')
      else if (case parse (Endpoint (Exporter c)) of None \<Rightarrow> True
               | Some u \<Rightarrow> \<not> plain_https u \<or> TrimSuffix (u_Path u) ''/'' \<noteq> ''/api/v1/otlp'')
      then Some (Failure ''exporter endpoint must be an HTTPS Observe /api/v1/otlp base without credentials or query'')
      else if length (HeadersEnv (Exporter c)) \<noteq> 1 \<or> \<not> envName (header (Exporter c) ''Authorization'')
      then Some (Failure ''headers_env requires only Authorization with an environment variable name'')
      else if outside 1024 4194304 (RequestBytes (cfg_Limits c)) \<or> outside 1048576 1073741824 (lim_QueueBytes (cfg_Limits c))
           \<or> outside 32 4096 (MemoryMiB (cfg_Limits c)) \<or> outside 1 120 (ShutdownSeconds (cfg_Limits c))
      then Some (Failure ''limits outside allowed bounds'') else None))"

definition ValidateQueueIdentity :: "(bytes \<Rightarrow> url option) \<Rightarrow> config \<Rightarrow> error option" where
  "ValidateQueueIdentity parse c =
     (if \<not> logicalID (BackendID (Exporter c)) \<or> \<not> logicalID (OrganizationID (Exporter c))
      then Some (Failure ''queue_scope_identity_required: configure stable observe.backend_id and observe.organization_id (JSON: exporter fields)'')
      else if PreviousEndpoint (Exporter c) = [] then None
      else (case parse (PreviousEndpoint (Exporter c)) of
        None \<Rightarrow> Some (Failure ''queue_scope_previous_endpoint_invalid: use the exact original HTTPS OTLP base without credentials/query'')
      | Some u \<Rightarrow>
          if \<not> plain_https u \<or> (u_Path u \<noteq> ''/api/v1/otlp'' \<and> u_Path u \<noteq> ''/api/v1/otlp/'')
          then Some (Failure ''queue_scope_previous_endpoint_invalid: use the exact original HTTPS OTLP base without credentials/query'') else None))"

section \<open>Credentials\<close>

text \<open>The provider answers the authorization for a context and the name of a variable.\<close>

definition SecretProvider ::
    "(bytes \<Rightarrow> bytes) \<Rightarrow> (bytes \<Rightarrow> inode option) \<Rightarrow> (inode \<Rightarrow> bytes option) \<Rightarrow> nat \<Rightarrow> config \<Rightarrow> error option \<Rightarrow> bytes \<Rightarrow> bytes result" where
  "SecretProvider getenv files rd euid c ctx name =
     (if yamlConfig c then Credential_Authorization getenv files rd euid (cfg_credential c) ctx
      else Environment_Authorization getenv ctx name)"

definition config_String :: "config \<Rightarrow> bytes" where
  "config_String c = ''ObserveConfig{credentials:redacted}''"

definition CheckCredentials ::
    "(bytes \<Rightarrow> url option) \<Rightarrow> (bytes \<Rightarrow> bytes) \<Rightarrow> (bytes \<Rightarrow> inode option) \<Rightarrow> (inode \<Rightarrow> bytes option) \<Rightarrow> nat \<Rightarrow> error option \<Rightarrow> config \<Rightarrow> error option" where
  "CheckCredentials parse getenv files rd euid ctx c =
     (let identity = (if on (cfg_Policy c) ''metrics'' \<or> on (cfg_Policy c) ''logs'' then ValidateQueueIdentity parse c else None) in
      case identity of Some e \<Rightarrow> Some e | None \<Rightarrow>
      if \<not> yamlConfig c then None
      else (case Credential_Authorization getenv files rd euid (cfg_credential c) ctx of Inl e \<Rightarrow> Some e | Inr _ \<Rightarrow> None))"

definition Join :: "bytes \<Rightarrow> bytes \<Rightarrow> bytes" where
  "Join a b = Clean (a @ CHR ''/'' # b)"

lemma IsAbs_Clean: "IsAbs p \<Longrightarrow> IsAbs (Clean p)"
  by (simp add: IsAbs_def Clean_def Let_def)

lemma IsAbs_Join: "IsAbs a \<Longrightarrow> IsAbs (Join a b)"
  unfolding Join_def by (rule IsAbs_Clean) (auto simp: IsAbs_def HasPrefix_iff)

section \<open>What a valid configuration guarantees\<close>

lemma outside_iff: "\<not> outside lo hi v \<longleftrightarrow> lo \<le> v \<and> v \<le> hi"
  by (auto simp: outside_def)

lemma validate_sources_None:
  "validate_sources compiles seen ss = None \<Longrightarrow>
   distinct (map src_ID ss) \<and> set (map src_ID ss) \<inter> set seen = {} \<and> (\<forall>s \<in> set ss. validate_source compiles [] s = None)"
proof (induction compiles seen ss rule: validate_sources.induct)
  case (2 compiles seen s ss)
  then have s: "validate_source compiles seen s = None" and ss: "validate_sources compiles (src_ID s # seen) ss = None"
    by (auto split: option.splits)
  from s have "validate_source compiles [] s = None" "src_ID s \<notin> set seen" by (auto simp: validate_source_def split: if_splits)
  with "2.IH"[OF s ss] show ?case by auto
qed simp

lemma valid_runtime:
  assumes "ValidateRuntime compiles c = None" "Runtime c = (a, b, d)"
  shows "validateLogs compiles c = None" "1 \<le> MaxAttempts d" "MaxAttempts d \<le> 8" "1 \<le> del_QueueItems d" "del_QueueItems d \<le> 1024"
    "IsAbs (del_StateDirectory d)" "1 \<le> BatchPoints d" "BatchPoints d \<le> 1000"
  using assms by (auto simp: ValidateRuntime_def outside_def IsAbs_def split: if_splits)

lemma valid_logs:
  assumes "validateLogs compiles c = None"
  shows "IsAbs (StateDirectory (LogsRuntime c))" "1048576 \<le> QueueBytes (LogsRuntime c)" "1 \<le> QueueItems (LogsRuntime c)"
    "QueueItems (LogsRuntime c) \<le> 4096" "validate_sources compiles [] (Sources (LogsRuntime c)) = None"
  using assms by (auto simp: validateLogs_def outside_def Let_def split: if_splits option.splits)

lemma valid_config:
  assumes "ValidateConfig parse compiles c = None"
  shows "ValidateRuntime compiles c = None" "1024 \<le> RequestBytes (cfg_Limits c)" "RequestBytes (cfg_Limits c) \<le> 4194304"
    "1048576 \<le> lim_QueueBytes (cfg_Limits c)" "Policy.Validate (cfg_Policy c) = None"
    "\<exists>u. parse (Endpoint (Exporter c)) = Some u \<and> plain_https u \<and> TrimSuffix (u_Path u) ''/'' = ''/api/v1/otlp''"
  using assms by (auto simp: ValidateConfig_def outside_def split: if_splits option.splits)

lemma or_idem: "or_int d (or_int d v) = or_int d v" "or_string e (or_string e w) = or_string e w"
  by (simp_all add: or_int_def or_string_def)

text \<open>
  The defaults are applied once and for all: resolving an already resolved configuration changes nothing.
  The Go code fills in the defaults of the sources in the array that the configuration shares with its copies, so
  that every call but the first one meets its own results.
\<close>

theorem logs_defaults_are_idempotent:
  "LogsRuntime (c\<lparr>cfg_Logs := LogsRuntime c\<rparr>) = LogsRuntime c"
  by (simp add: LogsRuntime_def Let_def or_idem source_defaults_def comp_def)

text \<open>
  C37: The sources of a valid configuration can be used: their identifiers differ, their roots are clean
  absolute paths other than the root directory, and no include or exclude pattern can fail to match,
  whatever the file name, so that the tailer may ignore the error of the match.
\<close>

theorem valid_sources_are_usable:
  assumes "ValidateConfig parse compiles c = None"
  shows "distinct (map src_ID (Sources (LogsRuntime c)))
     \<and> (\<forall>s \<in> set (Sources (LogsRuntime c)). IsAbs (src_Root s) \<and> Clean (src_Root s) = src_Root s \<and> src_Root s \<noteq> ''/''
          \<and> (\<forall>p \<in> set (Include s) \<union> set (Exclude s). \<forall>name. glob_match p name \<noteq> None))"
proof -
  have v: "validate_sources compiles [] (Sources (LogsRuntime c)) = None"
    using valid_config(1)[OF assms] valid_runtime(1) valid_logs(5) by (metis prod_cases3)
  note vs = validate_sources_None[OF v]
  show ?thesis
  proof (intro conjI ballI)
    show "distinct (map src_ID (Sources (LogsRuntime c)))" using vs by simp
    fix s assume "s \<in> set (Sources (LogsRuntime c))"
    then have s: "validate_source compiles [] s = None" using vs by blast
    then show "IsAbs (src_Root s)" "Clean (src_Root s) = src_Root s" "src_Root s \<noteq> ''/''"
      by (auto simp: validate_source_def split: if_splits)
    fix p assume "p \<in> set (Include s) \<union> set (Exclude s)"
    with s have "validateLogPattern p" by (auto simp: validate_source_def list_ex_iff split: if_splits)
    then have "good_rest p" using glob_match_bad[of p] by (auto simp: validateLogPattern_def split: if_splits)
    then show "\<forall>name. glob_match p name \<noteq> None" using glob_match_bad[of p] by blast
  qed
qed

section \<open>A sample\<close>

definition sample_source :: log_source where
  "sample_source = \<lparr>src_ID = ''app'', src_Root = ''/var/log/app'', Include = [''*.log''], Exclude = [''[.]*''], src_StartAt = [],
     ServiceName = ''app'', Environment = [], MaxOpenFiles = 0, MaxLineBytes = 0,
     Multiline = \<lparr>ml_Enabled = False, StartPattern = [], FlushTimeoutMillis = 0, MaxLines = 0, ml_MaxBytes = 0\<rparr>\<rparr>"

definition sample_config :: config where
  "sample_config = \<lparr>yamlConfig = False, cfg_credential = NewCredential [] [] [], cfg_Collection = \<lparr>IntervalSeconds = 0, MaxPoints = 0, MaxDevices = 0, MaxInterfaces = 0, MaxMounts = 0\<rparr>,
     cfg_Logs = \<lparr>StateDirectory = [], QueueBytes = 1048576, QueueItems = 4096, OverflowPolicy = [], PollIntervalMillis = 0, MaxFiles = 0,
       Sources = [sample_source], Journald = \<lparr>jd_Enabled = False, Units = [], Identifiers = [], jd_Priority = [], jd_StartAt = []\<rparr>\<rparr>,
     EC2 = \<lparr>ec2_Enabled = None, ec2_Required = False, TimeoutSeconds = 0\<rparr>,
     Delivery = \<lparr>del_StateDirectory = [], del_OverflowPolicy = [], BatchPoints = 0, del_QueueItems = 0, MaxAttempts = 0, RequestTimeoutSeconds = 0\<rparr>,
     AgentID = [], Exporter = \<lparr>BackendID = ''backend'', OrganizationID = ''org'', PreviousEndpoint = [], Type = ''otlp_http'',
       Endpoint = ''https://observe.example/api/v1/otlp'', HeadersEnv = [(''Authorization'', ''OBSERVE_KEY'')]\<rparr>,
     cfg_Policy = \<lparr>version = 1, enabled = [(Metrics, True), (Logs, True)]\<rparr>, RemoteAllowed = [Metrics],
     cfg_Limits = \<lparr>RequestBytes = 4194304, lim_QueueBytes = 67108864, MemoryMiB = 128, ShutdownSeconds = 15\<rparr>\<rparr>"

text \<open>A parser that knows the host of the sample.\<close>

definition sample_parse :: "bytes \<Rightarrow> url option" where
  "sample_parse s = (if HasPrefix s ''https://observe.example/''
     then Some \<lparr>Scheme = ''https'', u_Hostname = ''observe.example'', u_User = False, RawQuery = [], Fragment = [], RawPath = [],
       u_Path = drop 23 s\<rparr> else None)"

lemma sample_config_valid: "ValidateConfig sample_parse (\<lambda>_. True) sample_config = None"
proof -
  have "glob_match ''*.log'' ''candidate.log'' \<noteq> None" "glob_match ''[.]*'' ''candidate.log'' \<noteq> None"
    unfolding glob_match_bad
    by (simp_all add: good_rest.simps[of "_ # _"] good_rest.simps[of "[]"] match_chunk.simps[of _ _ "_ # _"] match_chunk.simps[of _ _ "[]"]
        class_ranges.simps[of _ _ _ "_ # _"] scan_chunk_def getEsc_def decode_rune_def BSLASH_def)
  then have p: "validateLogPattern ''*.log''" "validateLogPattern ''[.]*''"
    by (simp_all add: validateLogPattern_def ContainsAny_def BSLASH_def)
  have r: "logID ''app''" "IsAbs ''/var/log/app''" "Clean ''/var/log/app'' = ''/var/log/app''" "envName ''OBSERVE_KEY''"
    "IsAbs ''/var/lib/observe-agent/logs''" "Policy.Validate \<lparr>version = 1, enabled = [(Metrics, True), (Logs, True)]\<rparr> = None" "Known Metrics"
    by code_simp+
  have "validate_source (\<lambda>_. True) [] (source_defaults sample_source) = None"
    using p r by (simp add: validate_source_def source_defaults_def sample_source_def or_int_def or_string_def outside_def ContainsAny_def
        line_breaks_def validate_multiline_def Let_def)
  then show ?thesis
    using r by (simp add: ValidateConfig_def ValidateRuntime_def validateLogs_def LogsRuntime_def Runtime_def sample_config_def or_int_def or_string_def outside_def
        ContainsAny_def line_breaks_def validate_journald_def sample_parse_def plain_https_def TrimSuffix_def HasSuffix_def header_def Let_def)
qed

lemma sample_config_identity: "ValidateQueueIdentity sample_parse sample_config = None"
  by code_simp

theorem valid_sources_are_usable_witness:
  "(\<forall>name. glob_match ''*.log'' name \<noteq> None) \<and> Clean ''/var/log/app'' = ''/var/log/app''"
  using valid_sources_are_usable[OF sample_config_valid]
  by (simp add: LogsRuntime_def sample_config_def sample_source_def source_defaults_def Let_def)

end
