(* ===== verification/Sender.thy ===== *)
theory Sender
  imports Config Delivery
begin

text \<open>
  The exporter (\<^verbatim>\<open>src/internal/exporter/exporter.go\<close>, \<^verbatim>\<open>sender.go\<close>): building a request, sending it with retries
  and classifying the answer. The network is a script with one entry per attempt: what the credentials,
  the exchange, the clock and the wait before the next attempt do. Times are in nanoseconds.
\<close>

section \<open>Requests\<close>

record request =
  req_URL :: bytes
  req_Authorization :: bytes
  req_Body :: bytes

text \<open>\<open>payload\<close> and \<open>secrets\<close> are \<open>None\<close> for \<^verbatim>\<open>nil\<close>. \<^verbatim>\<open>http.NewRequest\<close> fails where the URL does not parse.\<close>

definition Request ::
    "(bytes \<Rightarrow> url option) \<Rightarrow> (bytes \<Rightarrow> bool) \<Rightarrow> error option \<Rightarrow> config \<Rightarrow> capability \<Rightarrow> bytes option
     \<Rightarrow> (error option \<Rightarrow> bytes \<Rightarrow> bytes result) option \<Rightarrow> request result" where
  "Request parse compiles ctx cfg signal payload secrets =
     (case ValidateConfig parse compiles cfg of Some e \<Rightarrow> Inl e | None \<Rightarrow>
      if signal \<noteq> Metrics \<and> signal \<noteq> Logs \<and> signal \<noteq> Traces then Inl (Failure ''invalid OTLP signal'')
      else if \<not> on (cfg_Policy cfg) signal then Inl (Failure ''signal disabled by policy'')
      else (case payload of None \<Rightarrow> Inl (Failure ''OTLP payload required'') | Some b \<Rightarrow>
        let raw = take (nat (RequestBytes (cfg_Limits cfg) + 1)) b in
        if RequestBytes (cfg_Limits cfg) < int (length raw) \<or> \<not> json_Valid raw
        then Inl (Failure ''OTLP JSON payload invalid or exceeds bound'')
        else (case secrets of None \<Rightarrow> Inl (Failure ''secret provider unavailable'') | Some provider \<Rightarrow>
          (case provider ctx (header (Exporter cfg) ''Authorization'') of
             Inl _ \<Rightarrow> Inl (Failure ''ingestion authorization unavailable'')
           | Inr auth \<Rightarrow>
               if \<not> HasPrefix auth ''ApiKey '' \<or> length auth \<le> 7 \<or> 4096 < length auth \<or> ContainsAny (drop 7 auth) key_breaks
               then Inl (Failure ''ingestion authorization invalid'')
               else
                 let url = TrimSuffix (Endpoint (Exporter cfg)) ''/'' @ ''/v1/'' @ signal in
                 (case parse url of
                    None \<Rightarrow> Inl (Failure ''cannot construct OTLP request'')
                  | Some _ \<Rightarrow> Inr \<lparr>req_URL = url, req_Authorization = auth, req_Body = raw\<rparr>)))))"

section \<open>Delays\<close>

definition second :: int where "second = 1000000000"

definition maxDuration :: int where "maxDuration = 2 ^ 63 - 1"

text \<open>
  \<open>date\<close> is \<^verbatim>\<open>http.ParseTime\<close> of the header, as a distance from now, which \<^verbatim>\<open>Sub\<close> caps; \<open>jitter\<close> is
  \<^verbatim>\<open>rand.IntN(500)\<close>. The shift and the product of the backoff are of 64 bits.
\<close>

definition backoff :: "nat \<Rightarrow> nat \<Rightarrow> int" where
  "backoff tries jitter = min (sint (push_bit tries 1 * 1000000000 :: 64 word)) (30 * second) + int jitter * 1000000"

definition retryDelay :: "bytes \<Rightarrow> nat \<Rightarrow> int option \<Rightarrow> nat \<Rightarrow> int" where
  "retryDelay hdr tries date jitter =
     (let later = backoff tries jitter;
          dated = (case date of Some d \<Rightarrow> if 0 < d then min d maxDuration else later | None \<Rightarrow> later)
      in case ParseInt hdr of
           Some seconds \<Rightarrow>
             if 0 \<le> seconds then (if maxDuration div second < seconds then maxDuration else seconds * second)
             else dated
         | None \<Rightarrow> dated)"

definition retryDelayForSignal :: "capability \<Rightarrow> bytes \<Rightarrow> nat \<Rightarrow> int option \<Rightarrow> nat \<Rightarrow> int" where
  "retryDelayForSignal signal hdr tries date jitter =
     (let delay = retryDelay hdr tries date jitter in if signal = Logs then min delay (30 * 60 * second) else delay)"

section \<open>Answers\<close>

text \<open>The counters that sending changes.\<close>

record send_stats =
  st_RetriedRecords :: u64
  st_AuthFailures :: u64
  st_ExportFailures :: u64
  st_Retries :: u64
  st_Throttles :: u64
  st_PointsRejected :: u64
  st_BatchesAccepted :: u64

definition add_export_failure :: "send_stats \<Rightarrow> send_stats" where
  "add_export_failure st = st\<lparr>st_ExportFailures := st_ExportFailures st + 1\<rparr>"

definition unauthorized :: "send_stats \<Rightarrow> send_stats" where
  "unauthorized st = add_export_failure (st\<lparr>st_AuthFailures := st_AuthFailures st + 1\<rparr>)"

text \<open>
  Decoding a JSON object into a Go map that may hold entries already: later members replace earlier ones, \<open>null\<close>
  empties the map, anything else is an error.
\<close>

definition unmarshal_map :: "bytes \<Rightarrow> (bytes \<times> bytes) list \<Rightarrow> (bytes \<times> bytes) list option" where
  "unmarshal_map raw old =
     (case json_parse raw of
        Some JNull \<Rightarrow> Some []
      | _ \<Rightarrow> map_option (\<lambda>kvs. rev kvs @ old) (json_fields raw))"

text \<open>A \<^verbatim>\<open>json.Number\<close> field takes a number, or a string that spells one.\<close>

definition get_number :: "bytes \<Rightarrow> bytes \<Rightarrow> bytes option" where
  "get_number raw old =
     (case json_parse raw of
        Some JNull \<Rightarrow> Some old
      | Some (JNum l) \<Rightarrow> Some l
      | Some (JStr b) \<Rightarrow> if num_ok (unquote b) then Some (unquote b) else None
      | _ \<Rightarrow> None)"

definition partial_success :: "bytes \<Rightarrow> (bytes \<times> bytes) option" where
  "partial_success raw =
     (case json_fields raw of
        None \<Rightarrow> None
      | Some kvs \<Rightarrow>
          set_fields [''rejectedDataPoints'', ''rejectedLogRecords'']
            (\<lambda>f v (points, records).
               if f = ''rejectedDataPoints'' then map_option (\<lambda>n. (n, records)) (get_number v points)
               else map_option (\<lambda>n. (points, n)) (get_number v records)) kvs ([], []))"

text \<open>What the body of a successful answer says: \<open>None\<close> where it cannot be read, else the number of rejected points.\<close>

definition rejected_points :: "capability \<Rightarrow> bytes \<Rightarrow> u64 option" where
  "rejected_points signal raw =
     (if TrimSpace raw = [] then Some 0
      else (case unmarshal_map raw [] of None \<Rightarrow> None | Some outer \<Rightarrow>
        (case (case map_of outer ''data'' of None \<Rightarrow> Some outer | Some wrapped \<Rightarrow> unmarshal_map wrapped outer) of
           None \<Rightarrow> None
         | Some inner \<Rightarrow>
             (case map_of inner ''partialSuccess'' of
                None \<Rightarrow> Some 0
              | Some part \<Rightarrow>
                  (case partial_success part of
                     None \<Rightarrow> None
                   | Some (points, records) \<Rightarrow>
                       let rejected = (if signal = Logs then records else points) in
                       if rejected = [] then Some 0 else ParseUint rejected)))))"

record reply =
  rep_status :: int
  rep_body :: bytes
  rep_readable :: bool
  rep_retry_after :: bytes

definition accept_reply :: "capability \<Rightarrow> reply \<Rightarrow> send_stats \<Rightarrow> outcome \<times> send_stats" where
  "accept_reply signal r st =
     (let raw = take 65537 (rep_body r) in
      if \<not> rep_readable r \<or> 65536 < length raw then (Rejected, add_export_failure st)
      else (case rejected_points signal raw of
        None \<Rightarrow> (Rejected, add_export_failure st)
      | Some n \<Rightarrow>
          if 0 < n then
            let st1 = st\<lparr>st_PointsRejected := st_PointsRejected st + n\<rparr> in
            if signal \<noteq> Logs then (Rejected, add_export_failure st1)
            else (Accepted, st1\<lparr>st_BatchesAccepted := st_BatchesAccepted st1 + 1\<rparr>)
          else (Accepted, st\<lparr>st_BatchesAccepted := st_BatchesAccepted st + 1\<rparr>)))"

section \<open>Sending\<close>

text \<open>How an exchange may end: refused for good (redirect, certificate, host name), failed otherwise, answered.\<close>

datatype exchange = Refused | Failed | Answered reply

record send_attempt =
  at_ctx :: "error option"
  at_secrets :: "(error option \<Rightarrow> bytes \<Rightarrow> bytes result) option"
  at_exchange :: "request \<Rightarrow> exchange"
  at_ctx_after :: "error option"
  at_date :: "int option"
  at_jitter :: nat
  at_slept :: bool

text \<open>
  One attempt: either the call returns, or it goes on after a wait. \<open>final\<close> says that no attempt is left. The wait is
  the delay the code asked for.
\<close>

datatype verdict = Return outcome | Wait int

definition try_once ::
    "(bytes \<Rightarrow> url option) \<Rightarrow> (bytes \<Rightarrow> bool) \<Rightarrow> config \<Rightarrow> capability \<Rightarrow> bytes \<Rightarrow> nat \<Rightarrow> bool \<Rightarrow> send_attempt
     \<Rightarrow> send_stats \<Rightarrow> verdict \<times> send_stats" where
  "try_once parse compiles cfg signal payload i final a st0 =
     (let st = (if 0 < i then st0\<lparr>st_RetriedRecords := st_RetriedRecords st0 + 1\<rparr> else st0) in
      if at_ctx a \<noteq> None then (Return Cancelled, st)
      else (case Request parse compiles (at_ctx a) cfg signal (Some payload) (at_secrets a) of
        Inl _ \<Rightarrow> (Return Unauthorized, unauthorized st)
      | Inr req \<Rightarrow>
          (case at_exchange a req of
             Refused \<Rightarrow> (Return Rejected, add_export_failure st)
           | Failed \<Rightarrow>
               let st1 = add_export_failure st in
               if at_ctx_after a \<noteq> None then (Return Cancelled, st1)
               else if final then (Return Exhausted, st1)
               else (Wait (retryDelayForSignal signal [] i None (at_jitter a)),
                     st1\<lparr>st_Retries := st_Retries st1 + 1\<rparr>)
           | Answered r \<Rightarrow>
               if rep_status r = 401 \<or> rep_status r = 403 then (Return Unauthorized, unauthorized st)
               else if 200 \<le> rep_status r \<and> rep_status r < 300 then
                 (case accept_reply signal r st of (out, st1) \<Rightarrow> (Return out, st1))
               else
                 let st1 = add_export_failure st;
                     retry = (rep_status r = 429 \<or> (500 \<le> rep_status r \<and> rep_status r \<noteq> 501 \<and> rep_status r \<noteq> 505));
                     st2 = (if rep_status r = 429 then st1\<lparr>st_Throttles := st_Throttles st1 + 1\<rparr> else st1)
                 in if \<not> retry then (Return Rejected, st2)
                    else (Wait (retryDelayForSignal signal (TrimSpace (rep_retry_after r)) i (at_date a) (at_jitter a)),
                          if final then st2 else st2\<lparr>st_Retries := st_Retries st2 + 1\<rparr>))))"

text \<open>
  The loop: \<open>i\<close> counts the attempts, \<open>n\<close> those that are left. The date of an attempt belongs to the header it got.
\<close>

fun attempts ::
    "(bytes \<Rightarrow> url option) \<Rightarrow> (bytes \<Rightarrow> bool) \<Rightarrow> config \<Rightarrow> capability \<Rightarrow> bytes \<Rightarrow> (nat \<Rightarrow> send_attempt) \<Rightarrow> nat \<Rightarrow> nat
     \<Rightarrow> send_stats \<Rightarrow> outcome \<times> send_stats" where
  "attempts parse compiles cfg signal payload env i 0 st = (Exhausted, st)"
| "attempts parse compiles cfg signal payload env i (Suc n) st =
     (case try_once parse compiles cfg signal payload i (n = 0) (env i) st of
        (Return out, st') \<Rightarrow> (out, st')
      | (Wait _, st') \<Rightarrow>
          if \<not> at_slept (env i) then (Cancelled, st')
          else if n = 0 then (Exhausted, st')
          else attempts parse compiles cfg signal payload env (i + 1) n st')"

definition Send ::
    "(bytes \<Rightarrow> url option) \<Rightarrow> (bytes \<Rightarrow> bool) \<Rightarrow> config \<Rightarrow> capability \<Rightarrow> bytes \<Rightarrow> (nat \<Rightarrow> send_attempt)
     \<Rightarrow> send_stats \<Rightarrow> outcome \<times> send_stats" where
  "Send parse compiles cfg signal payload env st =
     (case Runtime cfg of (_, _, options) \<Rightarrow>
        attempts parse compiles cfg signal payload env 0 (nat (MaxAttempts options)) st)"

end
