(* ===== verification/SenderFacts.thy ===== *)
theory SenderFacts
  imports Sender
begin

text \<open>What the exporter promises: classification of answers, delays, requests.\<close>

section \<open>Delays\<close>

lemma backoff_tries:
  assumes "i \<le> 7" shows "backoff i j = min (2 ^ i) 30 * second + int j * 1000000"
proof -
  have "i \<in> {0, 1, 2, 3, 4, 5, 6, 7}" using assms by auto
  then show ?thesis by (auto simp: backoff_def second_def push_bit_eq_mult)
qed

lemma backoff_bounds:
  assumes "i \<le> 7" "j < 500"
  shows "min (2 ^ i) 30 * second \<le> backoff i j" "backoff i j < min (2 ^ i) 30 * second + 500000000"
    "1 \<le> min (2 ^ i :: int) 30" "min (2 ^ i :: int) 30 \<le> 30"
  using assms(2) one_le_power[of "2 :: int" i] by (auto simp: backoff_tries[OF assms(1)] second_def)

text \<open>What a delay is cut to.\<close>

definition delay_cap :: "capability \<Rightarrow> int \<Rightarrow> int" where
  "delay_cap signal d = (if signal = Logs then min d (30 * 60 * second) else d)"

text \<open>
  C36: The delay before a retry, at the eight attempts a valid configuration allows at most. A Retry-After header is followed
  in both of its forms: a number of seconds is kept exactly, as far as a duration reaches, and so is a date in the future;
  only logs are cut off at half an hour. Without a usable header the delay is the power of two of the attempt in seconds, at most
  thirty, and less than half a second more. It never overflows, is never negative, and is zero only where the server asked for zero
  seconds.
\<close>

theorem retry_delay_bounds:
  assumes "i \<le> 7" "j < 500"
  shows "let D = retryDelayForSignal signal hdr i date j; asked = (\<lambda>s. ParseInt hdr = Some s \<and> 0 \<le> s) in
     (\<forall>s. asked s \<longrightarrow> D = delay_cap signal (min (s * second) maxDuration))
     \<and> (\<forall>d. (\<nexists>s. asked s) \<longrightarrow> date = Some d \<longrightarrow> 0 < d \<longrightarrow> D = delay_cap signal (min d maxDuration))
     \<and> ((\<nexists>s. asked s) \<longrightarrow> (\<forall>d. date = Some d \<longrightarrow> d \<le> 0) \<longrightarrow>
          second \<le> D \<and> min (2 ^ i) 30 * second \<le> D \<and> D < min (2 ^ i) 30 * second + 500000000)
     \<and> 0 \<le> D \<and> D \<le> maxDuration \<and> (signal = Logs \<longrightarrow> D \<le> 30 * 60 * second) \<and> (D = 0 \<longrightarrow> asked 0)"
proof -
  define p :: int where "p = min (2 ^ i) 30"
  have "p * second \<le> backoff i j" "backoff i j < p * second + 500000000" "1 \<le> p" "p \<le> 30"
    using backoff_bounds[OF assms] by (simp_all add: p_def)
  then show ?thesis
    unfolding p_def[symmetric]
    by (auto simp: retryDelayForSignal_def retryDelay_def delay_cap_def Let_def second_def maxDuration_def split: option.splits)
qed

theorem retry_delay_bounds_witness:
  "retryDelayForSignal Metrics ''120'' 3 None 7 = 120 * second \<and> retryDelayForSignal Logs ''99999999999999'' 0 None 0 = 30 * 60 * second
   \<and> retryDelayForSignal Metrics [] 0 (Some 5) 7 = 5 \<and> 30 * second \<le> retryDelayForSignal Metrics [] 7 None 499"
proof -
  have p: "ParseInt ''120'' = Some 120" "ParseInt ''99999999999999'' = Some 99999999999999" "ParseInt [] = None"
    by (simp_all add: ParseInt_def undec_def is_digit_def digit_val_def)
  show ?thesis
    using retry_delay_bounds[of 3 7 Metrics "''120''" None] retry_delay_bounds[of 0 0 Logs "''99999999999999''" None]
      retry_delay_bounds[of 0 7 Metrics "[]" "Some 5"] retry_delay_bounds[of 7 499 Metrics "[]" None] p
    by (simp add: Let_def second_def maxDuration_def delay_cap_def capability_defs)
qed

section \<open>Requests\<close>

text \<open>The agent's providers of credentials answer only with what every consumer accepts.\<close>

lemma SecretProvider_valid: "SecretProvider getenv files rd euid cfg ctx name = Inr a \<Longrightarrow> valid_header a"
  using Environment_valid Credential_valid by (auto simp: SecretProvider_def split: if_splits)

lemma Request_iff:
  assumes "provider = SecretProvider getenv files rd euid cfg" "url = TrimSuffix (Endpoint (Exporter cfg)) ''/'' @ ''/v1/'' @ signal"
  shows "Request parse compiles ctx cfg signal (Some payload) (Some provider) = Inr req \<longleftrightarrow>
     ValidateConfig parse compiles cfg = None \<and> signal \<in> {Metrics, Logs, Traces} \<and> on (cfg_Policy cfg) signal
     \<and> int (length payload) \<le> RequestBytes (cfg_Limits cfg) \<and> json_Valid payload \<and> parse url \<noteq> None
     \<and> (\<exists>auth. provider ctx (header (Exporter cfg) ''Authorization'') = Inr auth \<and> valid_header auth
          \<and> req = \<lparr>req_URL = url, req_Authorization = auth, req_Body = payload\<rparr>)" (is "?L \<longleftrightarrow> ?R")
proof -
  have v: "valid_header a" if "provider c n = Inr a" for c n a
    using that assms(1) SecretProvider_valid by blast
  let ?n = "RequestBytes (cfg_Limits cfg)"
  have t: "take (nat (?n + 1)) payload = payload" if "int (length payload) \<le> ?n" using that by simp
  have u: "?n < int (length (take (nat (?n + 1)) payload))" if "\<not> int (length payload) \<le> ?n" using that by simp
  have vh: "(\<not> HasPrefix a ''ApiKey '' \<or> length a \<le> 7 \<or> 4096 < length a \<or> ContainsAny (drop 7 a) key_breaks) \<longleftrightarrow> \<not> valid_header a" for a
    by (auto simp: valid_header_def)
  have sg: "(signal \<noteq> Metrics \<and> signal \<noteq> Logs \<and> signal \<noteq> Traces) \<longleftrightarrow> signal \<notin> {Metrics, Logs, Traces}" by simp
  show ?thesis
  proof (cases "ValidateConfig parse compiles cfg = None \<and> signal \<in> {Metrics, Logs, Traces} \<and> on (cfg_Policy cfg) signal
      \<and> int (length payload) \<le> ?n \<and> json_Valid payload")
    case True
    then have tt: "take (nat (?n + 1)) payload = payload" by (intro t) simp
    from True have "Request parse compiles ctx cfg signal (Some payload) (Some provider) =
       (case provider ctx (header (Exporter cfg) ''Authorization'') of
          Inl _ \<Rightarrow> Inl (Failure ''ingestion authorization unavailable'')
        | Inr auth \<Rightarrow> if \<not> valid_header auth then Inl (Failure ''ingestion authorization invalid'')
            else (case parse url of None \<Rightarrow> Inl (Failure ''cannot construct OTLP request'')
                  | Some _ \<Rightarrow> Inr \<lparr>req_URL = url, req_Authorization = auth, req_Body = payload\<rparr>))"
      unfolding Request_def Let_def vh sg assms(2)[symmetric] option.case tt by simp
    then show ?thesis using True v by (cases "provider ctx (header (Exporter cfg) ''Authorization'')"; cases "parse url") auto
  next
    case False
    then have "\<nexists>req. Request parse compiles ctx cfg signal (Some payload) (Some provider) = Inr req"
      unfolding Request_def Let_def vh sg using t u by (cases "int (length payload) \<le> ?n"; cases "ValidateConfig parse compiles cfg") auto
    with False show ?thesis by blast
  qed
qed

text \<open>
  C35: With the agent's own providers of credentials, a request is made exactly when the configuration is valid, the signal is
  known and on, the record is valid JSON within the bound, the URL of the signal parses, and the provider has an answer: the check
  that the request makes of the authorization never refuses one that the environment or a protected file gave. The request
  carries the whole record and nothing else, to the configured endpoint, and what follows the scheme in its
  authorization is one word of at most 4089 bytes, so that it cannot break the header.
\<close>

theorem request_carries_the_record:
  assumes "provider = SecretProvider getenv files rd euid cfg" "url = TrimSuffix (Endpoint (Exporter cfg)) ''/'' @ ''/v1/'' @ signal"
  shows "(Request parse compiles ctx cfg signal (Some payload) (Some provider) = Inr req \<longleftrightarrow>
       ValidateConfig parse compiles cfg = None \<and> signal \<in> {Metrics, Logs, Traces} \<and> on (cfg_Policy cfg) signal
       \<and> int (length payload) \<le> RequestBytes (cfg_Limits cfg) \<and> json_Valid payload \<and> parse url \<noteq> None
       \<and> (\<exists>auth. provider ctx (header (Exporter cfg) ''Authorization'') = Inr auth
            \<and> req = \<lparr>req_URL = url, req_Authorization = auth, req_Body = payload\<rparr>))
     \<and> (Request parse compiles ctx cfg signal (Some payload) (Some provider) = Inr req \<longrightarrow>
          (\<exists>key. req_Authorization req = ''ApiKey '' @ key \<and> key \<noteq> [] \<and> length key \<le> 4089 \<and> \<not> ContainsAny key key_breaks))"
proof -
  have v: "valid_header a" if "provider c n = Inr a" for c n a using that assms(1) SecretProvider_valid by blast
  have "\<exists>key. a = ''ApiKey '' @ key \<and> key \<noteq> [] \<and> length key \<le> 4089 \<and> \<not> ContainsAny key key_breaks" if "valid_header a" for a
    using that by (auto simp: valid_header_def HasPrefix_iff)
  then show ?thesis using v by (auto simp: Request_iff[OF assms])
qed

section \<open>Attempts\<close>

text \<open>The verdict on an attempt does not depend on the counters.\<close>

abbreviation verdict_on where
  "verdict_on parse compiles cfg signal payload i final a \<equiv>
     fst (try_once parse compiles cfg signal payload i final a
       \<lparr>st_RetriedRecords = 0, st_AuthFailures = 0, st_ExportFailures = 0, st_Retries = 0, st_Throttles = 0, st_PointsRejected = 0,
        st_BatchesAccepted = 0\<rparr>)"

lemma accept_reply_outcome: "fst (accept_reply signal r st) = fst (accept_reply signal r st')"
  by (simp add: accept_reply_def Let_def split: option.splits)

lemma try_once_verdict:
  "fst (try_once parse compiles cfg signal payload i final a st) = fst (try_once parse compiles cfg signal payload i final a st')"
proof (cases "at_ctx a")
  case None
  note ctx = this
  show ?thesis
  proof (cases "Request parse compiles None cfg signal (Some payload) (at_secrets a)")
    case (Inl e)
    then show ?thesis by (simp add: try_once_def Let_def ctx)
  next
    case (Inr req)
    show ?thesis
    proof (cases "at_exchange a req")
      case (Answered r)
      have "fst (accept_reply signal r s) = fst (accept_reply signal r s')" for s s' by (rule accept_reply_outcome)
      then show ?thesis using Inr Answered by (simp add: try_once_def Let_def case_prod_beta ctx)
    qed (use Inr in \<open>simp_all add: try_once_def Let_def ctx\<close>)
  qed
qed (simp add: try_once_def Let_def)

lemma attempts_end:
  assumes "attempts parse compiles cfg signal payload env i n st = (out, st')" "0 < n"
  defines "V \<equiv> \<lambda>j. verdict_on parse compiles cfg signal payload (i + j) (Suc j = n) (env (i + j))"
  shows "\<exists>k < n. (\<forall>j < k. (\<exists>d. V j = Wait d) \<and> at_slept (env (i + j)))
     \<and> (V k = Return out \<or> ((\<exists>d. V k = Wait d) \<and> \<not> at_slept (env (i + k)) \<and> out = Cancelled)
        \<or> ((\<exists>d. V k = Wait d) \<and> at_slept (env (i + k)) \<and> Suc k = n \<and> out = Exhausted))"
  using assms(1,2) unfolding V_def
proof (induction n arbitrary: i st)
  case (Suc m)
  let ?V = "\<lambda>i j n. verdict_on parse compiles cfg signal payload (i + j) (Suc j = n) (env (i + j))"
  obtain v st1 where t: "try_once parse compiles cfg signal payload i (m = 0) (env i) st = (v, st1)" by fastforce
  then have "fst (try_once parse compiles cfg signal payload i (m = 0) (env i) st) = v" by simp
  then have v: "?V i 0 (Suc m) = v" by (subst (asm) try_once_verdict) simp
  show ?case
  proof (cases v)
    case (Return o')
    then show ?thesis using Suc.prems(1) t v by (intro exI[of _ 0]) simp
  next
    case (Wait d)
    show ?thesis
    proof (cases "at_slept (env i) \<and> m \<noteq> 0")
      case False
      then show ?thesis using Suc.prems(1) t v Wait by (intro exI[of _ 0]) (auto split: if_splits)
    next
      case True
      then have "attempts parse compiles cfg signal payload env (i + 1) m st1 = (out, st')" using Suc.prems(1) t Wait by simp
      from Suc.IH[OF this] True obtain k where k: "k < m" "\<forall>j < k. (\<exists>d. ?V (i + 1) j m = Wait d) \<and> at_slept (env (i + 1 + j))"
        "?V (i + 1) k m = Return out \<or> ((\<exists>d. ?V (i + 1) k m = Wait d) \<and> \<not> at_slept (env (i + 1 + k)) \<and> out = Cancelled)
        \<or> ((\<exists>d. ?V (i + 1) k m = Wait d) \<and> at_slept (env (i + 1 + k)) \<and> Suc k = m \<and> out = Exhausted)" by blast
      have s: "?V (i + 1) j m = ?V i (Suc j) (Suc m)" for j by simp
      have a: "(\<exists>d. ?V i j (Suc m) = Wait d) \<and> at_slept (env (i + j))" if "j < Suc k" for j
      proof (cases j)
        case 0
        then show ?thesis using v Wait True by auto
      next
        case (Suc j')
        then show ?thesis using k(2)[rule_format, of j'] that s[of j'] by simp
      qed
      show ?thesis using k(1,3) a s[of k] by (intro exI[of _ "Suc k"]) simp
    qed
  qed
qed simp

section \<open>Classification\<close>

text \<open>An answer that acknowledges the record: for metrics nothing may have been rejected.\<close>

definition acknowledges :: "capability \<Rightarrow> reply \<Rightarrow> bool" where
  "acknowledges signal r \<longleftrightarrow> 200 \<le> rep_status r \<and> rep_status r < 300 \<and> rep_readable r \<and> length (rep_body r) \<le> 65536
     \<and> (case rejected_points signal (rep_body r) of None \<Rightarrow> False | Some n \<Rightarrow> signal = Logs \<or> n = 0)"

definition retryable :: "exchange \<Rightarrow> bool" where
  "retryable x \<longleftrightarrow>
     (case x of Refused \<Rightarrow> False | Failed \<Rightarrow> True
      | Answered r \<Rightarrow> rep_status r = 429 \<or> (500 \<le> rep_status r \<and> rep_status r \<noteq> 501 \<and> rep_status r \<noteq> 505))"

lemma accept_reply_Accepted:
  assumes "200 \<le> rep_status r" "rep_status r < 300"
  shows "fst (accept_reply signal r st) = Accepted \<longleftrightarrow> acknowledges signal r"
    "fst (accept_reply signal r st) \<in> {Accepted, Rejected}"
proof -
  have "length (take 65537 (rep_body r)) \<le> 65536 \<longleftrightarrow> length (rep_body r) \<le> 65536" by auto
  moreover have "take 65537 (rep_body r) = rep_body r" if "length (rep_body r) \<le> 65536" using that by simp
  moreover have "0 < n \<longleftrightarrow> n \<noteq> 0" for n :: u64 by (simp add: word_gt_0)
  ultimately show "fst (accept_reply signal r st) = Accepted \<longleftrightarrow> acknowledges signal r"
    using assms by (cases "length (rep_body r) \<le> 65536")
      (auto simp: accept_reply_def acknowledges_def Let_def split: option.splits)
  show "fst (accept_reply signal r st) \<in> {Accepted, Rejected}" by (auto simp: accept_reply_def Let_def split: option.splits)
qed

lemma verdict_cases:
  assumes "at_ctx a = None" "Request parse compiles None cfg signal (Some payload) (at_secrets a) = Inr req"
  shows "verdict_on parse compiles cfg signal payload i final a = Return Accepted
      \<longleftrightarrow> (\<exists>r. at_exchange a req = Answered r \<and> acknowledges signal r)"
    "(\<exists>d. verdict_on parse compiles cfg signal payload i final a = Wait d)
       \<or> verdict_on parse compiles cfg signal payload i final a = Return Exhausted \<Longrightarrow> retryable (at_exchange a req)"
    "verdict_on parse compiles cfg signal payload i final a = Return Unauthorized
      \<longleftrightarrow> (\<exists>r. at_exchange a req = Answered r \<and> rep_status r \<in> {401, 403})"
    "verdict_on parse compiles cfg signal payload i final a = Return Exhausted \<Longrightarrow> final"
proof -
  let ?v = "verdict_on parse compiles cfg signal payload i final a"
  have "(?v = Return Accepted \<longleftrightarrow> (\<exists>r. at_exchange a req = Answered r \<and> acknowledges signal r))
    \<and> ((\<exists>d. ?v = Wait d) \<or> ?v = Return Exhausted \<longrightarrow> retryable (at_exchange a req))
    \<and> (?v = Return Unauthorized \<longleftrightarrow> (\<exists>r. at_exchange a req = Answered r \<and> rep_status r \<in> {401, 403}))
    \<and> (?v = Return Exhausted \<longrightarrow> final)"
  proof (cases "at_exchange a req")
    case (Answered r)
    consider "200 \<le> rep_status r \<and> rep_status r < 300" | "\<not> (200 \<le> rep_status r \<and> rep_status r < 300)" by blast
    then show ?thesis
    proof cases
      case 1
      then show ?thesis using assms Answered accept_reply_Accepted[of r signal]
        by (simp add: try_once_def Let_def case_prod_beta retryable_def) force
    next
      case 2
      then have "\<not> acknowledges signal r" by (auto simp: acknowledges_def)
      with 2 show ?thesis using assms Answered by (auto simp: try_once_def Let_def retryable_def)
    qed
  qed (use assms in \<open>simp_all add: try_once_def Let_def retryable_def\<close>)
  then show "?v = Return Accepted \<longleftrightarrow> (\<exists>r. at_exchange a req = Answered r \<and> acknowledges signal r)"
    "(\<exists>d. ?v = Wait d) \<or> ?v = Return Exhausted \<Longrightarrow> retryable (at_exchange a req)"
    "?v = Return Unauthorized \<longleftrightarrow> (\<exists>r. at_exchange a req = Answered r \<and> rep_status r \<in> {401, 403})"
    "?v = Return Exhausted \<Longrightarrow> final" by blast+
qed

lemma verdict_early:
  "at_ctx a = Some e \<Longrightarrow> verdict_on parse compiles cfg signal payload i final a = Return Cancelled"
  "at_ctx a = None \<Longrightarrow> Request parse compiles None cfg signal (Some payload) (at_secrets a) = Inl e
   \<Longrightarrow> verdict_on parse compiles cfg signal payload i final a = Return Unauthorized"
  by (simp_all add: try_once_def Let_def)

text \<open>
  C34: The sender reports what happened. It accepts a record only after some attempt was answered with success, within the
  size bound, readable, and rejecting no metric point, every earlier attempt having failed for a transient reason; it
  reports exhaustion only after every one of the configured attempts failed for a transient reason.
\<close>

theorem send_reports_what_happened:
  assumes "Send parse compiles cfg signal payload env st = (out, st')" "ValidateConfig parse compiles cfg = None"
  defines "n \<equiv> nat (MaxAttempts (snd (snd (Runtime cfg))))"
    and "tried \<equiv> \<lambda>j x. at_ctx (env j) = None \<and> (\<exists>req. Request parse compiles None cfg signal (Some payload) (at_secrets (env j)) = Inr req
            \<and> at_exchange (env j) req = x)"
  shows "\<exists>k < n. (\<forall>j < k. \<exists>x. tried j x \<and> retryable x)
     \<and> (out = Accepted \<longrightarrow> (\<exists>r. tried k (Answered r) \<and> acknowledges signal r))
     \<and> (out = Exhausted \<longrightarrow> Suc k = n \<and> (\<exists>x. tried k x \<and> retryable x))"
proof -
  obtain a b d where rt: "Runtime cfg = (a, b, d)" by (metis prod_cases3)
  have n: "0 < n" using valid_runtime(2)[OF valid_config(1)[OF assms(2)] rt] by (simp add: n_def rt)
  define V where "V j = verdict_on parse compiles cfg signal payload (0 + j) (Suc j = n) (env (0 + j))" for j
  have at: "attempts parse compiles cfg signal payload env 0 n st = (out, st')" using assms(1) by (simp add: Send_def rt n_def)
  obtain k where k: "k < n" "\<forall>j < k. (\<exists>d. V j = Wait d) \<and> at_slept (env j)"
    "V k = Return out \<or> ((\<exists>d. V k = Wait d) \<and> \<not> at_slept (env k) \<and> out = Cancelled) \<or> ((\<exists>d. V k = Wait d) \<and> at_slept (env k) \<and> Suc k = n \<and> out = Exhausted)"
    using attempts_end[OF at n, folded V_def, unfolded add_0] by blast
  have made: "\<exists>req. at_ctx (env j) = None \<and> Request parse compiles None cfg signal (Some payload) (at_secrets (env j)) = Inr req"
    if "(\<exists>d. V j = Wait d) \<or> V j = Return Accepted \<or> V j = Return Exhausted" for j
    using that verdict_early by (cases "at_ctx (env j)"; cases "Request parse compiles None cfg signal (Some payload) (at_secrets (env j))")
      (auto simp: V_def)
  have retry: "\<exists>x. tried j x \<and> retryable x" if w: "(\<exists>d. V j = Wait d) \<or> V j = Return Exhausted" for j
  proof -
    obtain req where r: "at_ctx (env j) = None" "Request parse compiles None cfg signal (Some payload) (at_secrets (env j)) = Inr req"
      using made[of j] w by blast
    from verdict_cases(2)[OF r] w have "retryable (at_exchange (env j) req)" unfolding V_def add_0 by blast
    with r show ?thesis by (auto simp: tried_def)
  qed
  show ?thesis
  proof (intro exI[of _ k] conjI impI)
    show "\<forall>j < k. \<exists>x. tried j x \<and> retryable x" using k(2) retry by blast
    show "\<exists>r. tried k (Answered r) \<and> acknowledges signal r" if "out = Accepted"
    proof -
      have v: "V k = Return Accepted" using k(3) that by simp
      then obtain req where r: "at_ctx (env k) = None" "Request parse compiles None cfg signal (Some payload) (at_secrets (env k)) = Inr req"
        using made[of k] by blast
      from verdict_cases(1)[OF r] v obtain x where "at_exchange (env k) req = Answered x" "acknowledges signal x" unfolding V_def add_0 by blast
      with r show ?thesis by (auto simp: tried_def)
    qed
    show "Suc k = n" if "out = Exhausted"
    proof (cases "V k = Return Exhausted")
      case True
      then obtain req where r: "at_ctx (env k) = None" "Request parse compiles None cfg signal (Some payload) (at_secrets (env k)) = Inr req"
        using made[of k] by blast
      from verdict_cases(4)[OF r] True show ?thesis unfolding V_def add_0 by blast
    qed (use k(3) that in auto)
    show "\<exists>x. tried k x \<and> retryable x" if "out = Exhausted" using k(3) that retry by blast
  qed (rule k(1))
qed

section \<open>A sample\<close>

definition sample_getenv :: "bytes \<Rightarrow> bytes" where
  "sample_getenv n = (if n = ''OBSERVE_KEY'' then ''ApiKey k1'' else [])"

definition sample_provider :: "error option \<Rightarrow> bytes \<Rightarrow> bytes result" where
  "sample_provider = SecretProvider sample_getenv (\<lambda>_. None) (\<lambda>_. None) 1000 sample_config"

definition sample_answer :: "int \<Rightarrow> bytes \<Rightarrow> send_attempt" where
  "sample_answer status b = \<lparr>at_ctx = None, at_secrets = Some sample_provider,
     at_exchange = (\<lambda>_. Answered \<lparr>rep_status = status, rep_body = b, rep_readable = True, rep_retry_after = []\<rparr>),
     at_ctx_after = None, at_date = None, at_jitter = 0, at_slept = True\<rparr>"

definition sample_request :: "capability \<Rightarrow> bytes \<Rightarrow> request" where
  "sample_request signal payload = \<lparr>req_URL = ''https://observe.example/api/v1/otlp/v1/'' @ signal,
     req_Authorization = ''ApiKey k1'', req_Body = payload\<rparr>"

lemma sample_Request:
  assumes "signal \<in> {Metrics, Logs}" "length payload \<le> 4194304" "json_Valid payload"
  shows "Request sample_parse (\<lambda>_. True) None sample_config signal (Some payload) (Some sample_provider) = Inr (sample_request signal payload)"
proof -
  have p: "sample_provider None (header (Exporter sample_config) ''Authorization'') = Inr ''ApiKey k1''" by code_simp
  have h: "valid_header ''ApiKey k1''" by code_simp
  have t: "TrimSuffix (Endpoint (Exporter sample_config)) ''/'' = ''https://observe.example/api/v1/otlp''" by code_simp
  have o: "on (cfg_Policy sample_config) signal" using assms(1) by (auto simp: sample_config_def on_def capability_defs)
  have u: "sample_parse (''https://observe.example/api/v1/otlp'' @ ''/v1/'' @ signal) \<noteq> None" by (simp add: sample_parse_def)
  show ?thesis
    unfolding sample_provider_def
    by (rule iffD2[OF Request_iff[OF refl refl]])
      (use assms p[unfolded sample_provider_def] h t o u sample_config_valid in \<open>auto simp: sample_request_def sample_config_def\<close>)
qed

theorem request_carries_the_record_witness:
  "\<exists>req. Request sample_parse (\<lambda>_. True) None sample_config Metrics (Some ''1'') (Some (SecretProvider sample_getenv (\<lambda>_. None) (\<lambda>_. None) 1000 sample_config))
     = Inr req \<and> req_Body req = ''1''"
proof -
  have j: "json_Valid ''1''" by code_simp
  have "Request sample_parse (\<lambda>_. True) None sample_config Metrics (Some ''1'') (Some (SecretProvider sample_getenv (\<lambda>_. None) (\<lambda>_. None) 1000 sample_config))
     = Inr (sample_request Metrics ''1'')"
    using sample_Request[of Metrics "''1''"] j by (simp add: sample_provider_def)
  with request_carries_the_record[OF refl refl, of sample_parse "\<lambda>_. True" None sample_config Metrics "''1''" sample_getenv "\<lambda>_. None" "\<lambda>_. None" 1000
      "sample_request Metrics ''1''"] show ?thesis by auto
qed

lemma sample_send:
  "\<exists>st'. Send sample_parse (\<lambda>_. True) sample_config Metrics ''1'' (\<lambda>i. if i = 0 then sample_answer 503 [] else sample_answer 200 ''{}'') st = (Accepted, st')"
proof -
  have j: "json_Valid ''1''" by code_simp
  have r: "Request sample_parse (\<lambda>_. True) None sample_config Metrics (Some ''1'') (Some sample_provider) = Inr (sample_request Metrics ''1'')"
    by (rule sample_Request) (use j in simp_all)
  have n: "nat (MaxAttempts (snd (snd (Runtime sample_config)))) = Suc (Suc (Suc (Suc 0)))"
    by (simp add: eval_nat_numeral Runtime_def sample_config_def or_int_def Let_def)
  have p: "rejected_points Metrics ''{}'' = Some 0" by code_simp
  show ?thesis
    by (simp only: Send_def case_prod_beta n attempts.simps)
      (simp add: try_once_def sample_answer_def r Let_def accept_reply_def p)
qed

definition zero_stats :: send_stats where
  "zero_stats = \<lparr>st_RetriedRecords = 0, st_AuthFailures = 0, st_ExportFailures = 0, st_Retries = 0, st_Throttles = 0,
     st_PointsRejected = 0, st_BatchesAccepted = 0\<rparr>"

theorem send_reports_what_happened_witness:
  "\<exists>st' r. Send sample_parse (\<lambda>_. True) sample_config Metrics ''1'' (\<lambda>i. if i = 0 then sample_answer 503 [] else sample_answer 200 ''{}'') zero_stats
       = (Accepted, st') \<and> acknowledges Metrics r"
proof -
  obtain st' where s: "Send sample_parse (\<lambda>_. True) sample_config Metrics ''1'' (\<lambda>i. if i = 0 then sample_answer 503 [] else sample_answer 200 ''{}'') zero_stats
      = (Accepted, st')"
    using sample_send by blast
  from send_reports_what_happened[OF s sample_config_valid] s show ?thesis by blast
qed

section \<open>Records the sender cannot send\<close>

lemma send_stuck:
  assumes "ValidateConfig parse compiles cfg = None" "\<exists>e. Request parse compiles None cfg signal (Some payload) (at_secrets (env 0)) = Inl e"
    "at_ctx (env 0) = None"
  shows "fst (Send parse compiles cfg signal payload env st) = Unauthorized"
proof -
  obtain a b d where rt: "Runtime cfg = (a, b, d)" by (metis prod_cases3)
  obtain m where "nat (MaxAttempts d) = Suc m" using valid_runtime(2)[OF valid_config(1)[OF assms(1)] rt]
    by (metis Suc_nat_eq_nat_zadd1 not0_implies_Suc nat_0_iff not_one_le_zero zero_less_nat_eq zless_nat_eq_int_zless gr0_conv_Suc zero_less_one order_less_le_trans)
  then show ?thesis using assms(2,3) by (auto simp: Send_def rt try_once_def Let_def)
qed

end
