(* ===== verification/Composition.thy ===== *)
theory Composition
  imports MetricsSpool LogsSpool SenderFacts
begin

text \<open>
  Properties that span components: a valid configuration meets the spools and the exporter.
\<close>

section \<open>Configuration and spools\<close>

lemma log_scan_grows: "log_scan ns q = (Inr (), q1) \<Longrightarrow> l_bytes q \<le> l_bytes q1 \<and> l_maxBytes q1 = l_maxBytes q"
proof (induction ns arbitrary: q)
  case (Cons n ns)
  from Cons.prems obtain q2 where e: "log_scan_entry n q = (Inr (), q2)" "log_scan ns q2 = (Inr (), q1)"
    by (auto split: prod.splits sum.splits)
  have "0 \<le> charge (int k)" for k by (simp add: charge_def)
  then have "l_bytes q \<le> l_bytes q2 \<and> l_maxBytes q2 = l_maxBytes q" using e(1)
    by (auto simp: log_scan_entry_def log_quarantine_def on_log_fs_def Let_def split: if_splits prod.splits sum.splits)
  with Cons.IH[OF e(2)] show ?case by simp
qed simp

lemma recoverPendingActivation_bytes:
  "recoverPendingActivation q = (r, q1) \<Longrightarrow> l_bytes q1 = l_bytes q \<and> l_maxBytes q1 = l_maxBytes q"
  by (auto simp: recoverPendingActivation_def on_log_fs_def Let_def split: if_splits prod.splits sum.splits)

lemma OpenLogDisk_base:
  assumes "OpenLogDisk dir env sc mb mi s0 = (Inr q, s')"
  shows "16384 + charge (mi * 256) \<le> mb"
  using assms
proof (cases rule: OpenLogDisk_cases)
  case (loaded h m s1 s2 s3 s4)
  then show ?thesis
    by (auto simp: log_failed_def finish_log_open_def Let_def split: prod.splits sum.splits if_splits
        dest!: log_scan_grows recoverPendingActivation_bytes)
qed simp_all

text \<open>
  A valid configuration is accepted by the spools: on a private directory without symbolic links both the metrics
  spool and the logs spool pass every check of their options with what the runtime derives from it, and the fixed cost
  of the metrics spool leaves at least 700,000 bytes of its budget.
\<close>

theorem valid_configuration_fits_the_spools:
  assumes "ValidateConfig parse compiles c = None" "Runtime c = (a, b, d)" "scope \<noteq> []"
    and "check_path (e_components env) = None" "e_mkdir env = None" "e_dirstat env = Inr (True, 448, euid)"
      "e_bsize env = Inr bs" "bs \<le> 4096"
  shows "check_spool (del_StateDirectory d) env scope (lim_QueueBytes (cfg_Limits c)) (del_QueueItems d) euid = None
     \<and> check_logs_spool (Join (StateDirectory (LogsRuntime c)) ''queue'') env (QueueBytes (LogsRuntime c)) (QueueItems (LogsRuntime c)) euid = None
     \<and> 16384 + charge (del_QueueItems d * 256) + 8192 + 700000 \<le> lim_QueueBytes (cfg_Limits c)"
proof -
  note v = valid_config[OF assms(1)] and r = valid_runtime[OF valid_config(1)[OF assms(1)] assms(2)]
  note l = valid_logs[OF r(1)]
  have "charge (del_QueueItems d * 256) \<le> 262144 + 4095" using r(5) by (simp add: charge_def)
  then show ?thesis
    using v(4) r(4-6) l(1-4) IsAbs_Join[OF l(1)] assms(3-8) by (simp add: check_spool_def check_logs_spool_def IsAbs_def)
qed

theorem valid_configuration_fits_the_spools_witness:
  "check_logs_spool (Join (StateDirectory (LogsRuntime sample_config)) ''queue'') sample_env (QueueBytes (LogsRuntime sample_config))
     (QueueItems (LogsRuntime sample_config)) 1000 = None"
proof -
  obtain a b d where rt: "Runtime sample_config = (a, b, d)" by (metis prod_cases3)
  show ?thesis
    using valid_configuration_fits_the_spools[OF sample_config_valid rt, of "''s''" sample_env 1000 4096] by (simp add: sample_env_def)
qed

text \<open>
  A valid configuration whose logs spool never opens: the validation allows a budget of one mebibyte together with
  4096 items, but the fixed cost that the spool charges for that many items exceeds that budget, so that every attempt
  to open it fails, with an empty directory, whatever the scope, the directory and the faults.
\<close>

theorem valid_configuration_without_logs_spool:
  assumes "QueueBytes (LogsRuntime c) < 16384 + charge (QueueItems (LogsRuntime c) * 256)"
  shows "\<not> is_ok (fst (OpenLogDisk dir env sc (QueueBytes (LogsRuntime c)) (QueueItems (LogsRuntime c)) s0))"
proof
  assume "is_ok (fst (OpenLogDisk dir env sc (QueueBytes (LogsRuntime c)) (QueueItems (LogsRuntime c)) s0))"
  then obtain q s' where "OpenLogDisk dir env sc (QueueBytes (LogsRuntime c)) (QueueItems (LogsRuntime c)) s0 = (Inr q, s')"
    by (auto simp: is_ok_iff) (metis surjective_pairing)
  from OpenLogDisk_base[OF this] assms show False by simp
qed

theorem valid_configuration_without_logs_spool_witness:
  "ValidateConfig sample_parse (\<lambda>_. True) sample_config = None
   \<and> \<not> is_ok (fst (OpenLogDisk ''/var/lib/observe-agent/logs/queue'' sample_env sample_scope (QueueBytes (LogsRuntime sample_config))
        (QueueItems (LogsRuntime sample_config)) fresh_fs))"
proof -
  have "QueueBytes (LogsRuntime sample_config) < 16384 + charge (QueueItems (LogsRuntime sample_config) * 256)"
    by (simp add: LogsRuntime_def sample_config_def or_int_def charge_def Let_def)
  from valid_configuration_without_logs_spool[OF this] sample_config_valid show ?thesis by simp
qed

section \<open>Spools and the exporter\<close>

text \<open>
  A record can be admitted although its stored form can never be sent. The encoder bounds the record by the request
  limit, but the spools store and deliver it with its HTML characters escaped, and the request checks the limit again on that
  form. Where the escaped form is longer than the limit, every send reports a failed authorization before anything goes over the
  network, and the delivery loops of metrics and of logs stop and report themselves blocked.
\<close>

theorem escaped_record_blocks_delivery:
  assumes "ValidateConfig parse compiles cfg = None" "RequestBytes (cfg_Limits cfg) < int (length p)" "at_ctx (env 0) = None"
  shows "fst (Send parse compiles cfg signal p env st) = Unauthorized
     \<and> (w_phase w = Sending rid p \<longrightarrow>
          w_phase (deliver_outcome (fst (Send parse compiles cfg signal p env st)) w) = Stopped
        \<and> w_blocked (deliver_outcome (fst (Send parse compiles cfg signal p env st)) w))
     \<and> (lw_phase lw = Sending rid p \<longrightarrow>
          lw_phase (log_outcome (fst (Send parse compiles cfg signal p env st)) points lw) = Stopped
        \<and> lw_blocked (log_outcome (fst (Send parse compiles cfg signal p env st)) points lw))"
proof -
  let ?n = "RequestBytes (cfg_Limits cfg)"
  have "?n < int (length (take (nat (?n + 1)) p))" using assms(2) by simp
  then have "\<exists>e. Request parse compiles None cfg signal (Some p) (at_secrets (env 0)) = Inl e"
    by (auto simp: Request_def Let_def split: option.splits)
  from send_stuck[of parse compiles cfg signal p env st, OF assms(1) this assms(3)] show ?thesis by (simp add: deliver_outcome_def log_outcome_def Let_def)
qed


lemma ValidateConfig_limits:
  assumes "ValidateConfig parse compiles c = None" "\<not> outside 1024 4194304 (RequestBytes l)" "\<not> outside 1048576 1073741824 (lim_QueueBytes l)"
    "\<not> outside 32 4096 (MemoryMiB l)" "\<not> outside 1 120 (ShutdownSeconds l)"
  shows "ValidateConfig parse compiles (c\<lparr>cfg_Limits := l\<rparr>) = None"
proof -
  have "ValidateRuntime compiles (c\<lparr>cfg_Limits := l\<rparr>) = ValidateRuntime compiles c"
    by (simp add: ValidateRuntime_def Runtime_def validateLogs_def LogsRuntime_def Let_def)
  with assms show ?thesis by (auto simp: ValidateConfig_def split: option.splits if_splits)
qed

definition tight_config :: config where
  "tight_config = sample_config\<lparr>cfg_Limits := (cfg_Limits sample_config)\<lparr>RequestBytes := 1024\<rparr>\<rparr>"

theorem escaped_record_blocks_delivery_witness:
  "length (angle_payload 1000) \<le> 1024 \<and> compact (angle_payload 1000) = Some (escaped_angles 1000)
   \<and> fst (Send sample_parse (\<lambda>_. True) tight_config Metrics (escaped_angles 1000) (\<lambda>_. sample_answer 200 ''{}'') zero_stats) = Unauthorized"
proof -
  have "ValidateConfig sample_parse (\<lambda>_. True) tight_config = None"
    unfolding tight_config_def by (rule ValidateConfig_limits[OF sample_config_valid]) (simp_all add: outside_def sample_config_def)
  moreover have "RequestBytes (cfg_Limits tight_config) < int (length (escaped_angles 1000))"
    by (simp add: tight_config_def escaped_angles_def length_concat sum_list_replicate)
  moreover have "length (angle_payload 1000) \<le> 1024" by (simp add: angle_payload_def)
  moreover have "at_ctx (sample_answer 200 ''{}'') = None" by (simp add: sample_answer_def)
  ultimately show ?thesis
    using escaped_record_blocks_delivery[of sample_parse "\<lambda>_. True" tight_config "escaped_angles 1000" "\<lambda>_. sample_answer 200 ''{}''" Metrics zero_stats]
      angle_compact[of 1000] by blast
qed

end
