(* ===== verification/MemoryQueue.thy ===== *)
theory MemoryQueue
  imports Prelude
begin

text \<open>
  The memory queue (\<^verbatim>\<open>src/internal/queue/memory.go\<close>), kept for tests beside the spools. \<open>mem_wake\<close> says that the wake
  channel of capacity one holds a token.
\<close>

record memory =
  mem_items :: "bytes list"
  mem_bytes :: int
  mem_maxBytes :: int
  mem_maxItems :: int
  mem_closed :: bool
  mem_wake :: bool

definition NewMemory :: "int \<Rightarrow> int \<Rightarrow> memory" where
  "NewMemory b n = \<lparr>mem_items = [], mem_bytes = 0, mem_maxBytes = b, mem_maxItems = n, mem_closed = False, mem_wake = False\<rparr>"

definition Push :: "bytes \<Rightarrow> memory \<Rightarrow> error option \<times> memory" where
  "Push b q =
     (if mem_closed q then (Some ErrClosed, q)
      else if b = [] \<or> mem_maxBytes q - mem_bytes q < int (length b) \<or> mem_maxItems q \<le> int (length (mem_items q))
      then (Some ErrFull, q)
      else (None, q\<lparr>mem_items := mem_items q @ [b], mem_bytes := mem_bytes q + int (length b), mem_wake := True\<rparr>))"

text \<open>
  One round of the loop of \<^verbatim>\<open>Pop\<close>, up to the point where it returns or waits: \<open>None\<close> in the answer means that the call
  waits for the context or for a token.
\<close>

definition Pop :: "error option \<Rightarrow> memory \<Rightarrow> bytes result option \<times> memory" where
  "Pop ctx q =
     (case ctx of Some e \<Rightarrow> (Some (Inl e), q) | None \<Rightarrow>
      (case mem_items q of
         b # rest \<Rightarrow> (Some (Inr b), q\<lparr>mem_items := rest, mem_bytes := mem_bytes q - int (length b)\<rparr>)
       | [] \<Rightarrow> if mem_closed q then (Some (Inl ErrClosed), q) else (None, q)))"

text \<open>A waiting call takes the token, if there is one, and starts over.\<close>

definition mem_awake :: "memory \<Rightarrow> (memory) option" where
  "mem_awake q = (if mem_wake q then Some (q\<lparr>mem_wake := False\<rparr>) else None)"

definition Size :: "memory \<Rightarrow> int \<times> int" where
  "Size q = (int (length (mem_items q)), mem_bytes q)"

definition CloseMemory :: "memory \<Rightarrow> memory" where
  "CloseMemory q = q\<lparr>mem_closed := True, mem_wake := True\<rparr>"

section \<open>A bounded queue\<close>

definition mem_ok :: "memory \<Rightarrow> bool" where
  "mem_ok q \<longleftrightarrow> mem_bytes q = int (sum_list (map length (mem_items q))) \<and> mem_bytes q \<le> mem_maxBytes q
     \<and> int (length (mem_items q)) \<le> mem_maxItems q \<and> [] \<notin> set (mem_items q)"

text \<open>
  A consumer blocks for ever only on an empty queue: \<open>parked\<close> consumers are those that wait without a token. The
  steps interleave one consumer with producers and with closing.
\<close>

inductive mem_step :: "memory \<times> bool \<Rightarrow> memory \<times> bool \<Rightarrow> bool" where
  mem_push: "mem_step (q, parked) (snd (Push b q), parked)"
| mem_close: "mem_step (q, parked) (CloseMemory q, parked)"
| mem_pop: "mem_step (q, False) (snd (Pop ctx q), fst (Pop ctx q) = None)"
| mem_wakeup: "mem_awake q = Some q' \<Longrightarrow> mem_step (q, True) (q', False)"
| mem_give_up: "mem_step (q, True) (q, False)"

inductive mem_run :: "memory \<times> bool \<Rightarrow> memory \<times> bool \<Rightarrow> bool" where
  mem_start: "mem_run c c"
| mem_more: "mem_run c c' \<Longrightarrow> mem_step c' c'' \<Longrightarrow> mem_run c c''"

inductive_cases mem_stepE: "mem_step c c'"

lemma Push_ok: "mem_ok q \<Longrightarrow> mem_ok (snd (Push b q))"
  by (auto simp: mem_ok_def Push_def)

lemma Pop_ok: "mem_ok q \<Longrightarrow> mem_ok (snd (Pop ctx q))"
  by (auto simp: mem_ok_def Pop_def split: option.splits list.splits)

lemma mem_step_ok:
  "mem_step c c' \<Longrightarrow> mem_ok (fst c) \<and> (snd c \<longrightarrow> mem_items (fst c) = [] \<and> \<not> mem_closed (fst c) \<or> mem_wake (fst c)) \<Longrightarrow>
   mem_ok (fst c') \<and> (snd c' \<longrightarrow> mem_items (fst c') = [] \<and> \<not> mem_closed (fst c') \<or> mem_wake (fst c'))"
proof (induction rule: mem_step.induct)
  case (mem_push q parked b)
  then show ?case using Push_ok[of q b] by (auto simp: Push_def)
next
  case (mem_close q parked)
  then show ?case by (auto simp: mem_ok_def CloseMemory_def)
next
  case (mem_pop q ctx)
  then show ?case using Pop_ok[of q ctx] by (auto simp: Pop_def split: option.splits list.splits)
next
  case (mem_wakeup q q')
  then show ?case by (auto simp: mem_awake_def mem_ok_def split: if_splits)
qed simp

text \<open>
  C38: The memory queue stays within its budget and never leaves its consumer asleep: in every run the recorded bytes
  are those of the items, both bounds hold, and a waiting consumer either has nothing to take on an
  open queue or has a token that lets it go on.
\<close>

theorem memory_queue_bounded_and_awake:
  assumes "0 \<le> maxb" "0 \<le> maxi" "mem_run (NewMemory maxb maxi, False) (q, parked)"
  shows "mem_bytes q = int (sum_list (map length (mem_items q))) \<and> mem_bytes q \<le> mem_maxBytes q \<and> int (length (mem_items q)) \<le> mem_maxItems q
     \<and> (parked \<longrightarrow> mem_items q = [] \<and> \<not> mem_closed q \<or> mem_wake q)"
proof -
  have "mem_ok (fst c) \<and> (snd c \<longrightarrow> mem_items (fst c) = [] \<and> \<not> mem_closed (fst c) \<or> mem_wake (fst c))"
    if "mem_run (NewMemory maxb maxi, False) c" for c
    using that
  proof (induction "(NewMemory maxb maxi, False)" c rule: mem_run.induct)
    case mem_start
    then show ?case using assms(1,2) by (simp add: mem_ok_def NewMemory_def)
  next
    case (mem_more c' c'')
    then show ?case using mem_step_ok by blast
  qed
  from this[OF assms(3)] show ?thesis by (auto simp: mem_ok_def)
qed

theorem memory_queue_bounded_and_awake_witness:
  "mem_bytes (snd (Push ''ab'' (NewMemory 10 2))) = 2 \<and> mem_items (snd (Push ''ab'' (NewMemory 10 2))) = [''ab'']"
proof -
  have "mem_run (NewMemory 10 2, False) (snd (Push ''ab'' (NewMemory 10 2)), False)"
    by (rule mem_more[OF mem_start mem_push])
  from memory_queue_bounded_and_awake[OF _ _ this] show ?thesis by (simp add: Push_def NewMemory_def)
qed

end
