(* ===== verification/Lines.thy ===== *)
theory Lines
  imports Json
begin

text \<open>
  Reading lines from a log file (\<^verbatim>\<open>src/internal/logtail/tailer_linux.go\<close>, \<open>readLine\<close> and \<open>bytesWithoutLineEnding\<close>), and what a line
  of a file is.
\<close>

definition NL :: char where "NL = CHR 0x0A"
definition CR :: char where "CR = CHR 0x0D"

record line_read =
  rl_out :: bytes
  rl_end :: nat
  rl_complete :: bool
  rl_tooLarge :: bool

text \<open>The loop over one buffer; \<open>rl_complete\<close> becomes true at the first newline, where the loop returns.\<close>

fun scan_buffer :: "nat \<Rightarrow> bytes \<Rightarrow> line_read \<Rightarrow> line_read" where
  "scan_buffer lim [] r = r"
| "scan_buffer lim (c # buf) r =
     (let r1 = r\<lparr>rl_end := rl_end r + 1\<rparr>;
          r2 = (if rl_tooLarge r1 then r1
                else if lim \<le> length (rl_out r1) then r1\<lparr>rl_tooLarge := True\<rparr>
                else r1\<lparr>rl_out := rl_out r1 @ [c]\<rparr>)
      in if c = NL then r2\<lparr>rl_complete := True\<rparr> else scan_buffer lim buf r2)"

lemma scan_buffer_end: "\<not> rl_complete r \<Longrightarrow> \<not> rl_complete (scan_buffer lim buf r) \<Longrightarrow> rl_end (scan_buffer lim buf r) = rl_end r + length buf"
  by (induction lim buf r rule: scan_buffer.induct) (auto simp: Let_def split: if_splits)

text \<open>The loop over the buffers of 4096 bytes; a short one is the end of the file.\<close>

function read_loop :: "bytes \<Rightarrow> nat \<Rightarrow> line_read \<Rightarrow> line_read" where
  "read_loop f lim r =
     (let buf = take 4096 (drop (rl_end r) f); r1 = scan_buffer lim buf (r\<lparr>rl_complete := False\<rparr>) in
      if rl_complete r1 then r1 else if length buf < 4096 then r1 else read_loop f lim r1)"
  by pat_completeness auto
termination
proof (relation "measure (\<lambda>(f, _, r). length f - rl_end r)", goal_cases)
  case (2 f lim r buf r1)
  then have "rl_end r1 = rl_end r + length buf" using scan_buffer_end[of "r\<lparr>rl_complete := False\<rparr>" lim buf] by simp
  moreover have "length buf = 4096" using 2 by simp
  moreover have "length buf \<le> length f - rl_end r" using 2(1) by simp
  ultimately show ?case by simp
qed simp

declare read_loop.simps [simp del]

definition readLine :: "bytes \<Rightarrow> nat \<Rightarrow> nat \<Rightarrow> line_read" where
  "readLine f offset lim = read_loop f lim \<lparr>rl_out = [], rl_end = offset, rl_complete = False, rl_tooLarge = False\<rparr>"

definition bytesWithoutLineEnding :: "bytes \<Rightarrow> bytes" where
  "bytesWithoutLineEnding b =
     (let b1 = (if b \<noteq> [] \<and> last b = NL then butlast b else b)
      in if b1 \<noteq> [] \<and> last b1 = CR then butlast b1 else b1)"

section \<open>The line at an offset\<close>

text \<open>The line that starts at an offset, with its newline if there is one.\<close>

definition line_at :: "bytes \<Rightarrow> nat \<Rightarrow> bytes" where
  "line_at f o' = (let r = drop o' f in if NL \<in> set r then takeWhile (\<lambda>c. c \<noteq> NL) r @ [NL] else r)"

definition whole_line :: "bytes \<Rightarrow> nat \<Rightarrow> bool" where
  "whole_line f o' \<longleftrightarrow> NL \<in> set (drop o' f)"

fun upto_newline :: "bytes \<Rightarrow> bytes" where
  "upto_newline [] = []"
| "upto_newline (c # s) = (if c = NL then [c] else c # upto_newline s)"

lemma upto_newline_eq: "upto_newline s = (if NL \<in> set s then takeWhile (\<lambda>c. c \<noteq> NL) s @ [NL] else s)"
  by (induction s) auto

lemma scan_buffer_eq:
  assumes "rl_tooLarge r \<Longrightarrow> length (rl_out r) = lim" "length (rl_out r) \<le> lim" "\<not> rl_complete r"
  shows "scan_buffer lim buf r =
     r\<lparr>rl_out := take lim (rl_out r @ upto_newline buf), rl_end := rl_end r + length (upto_newline buf),
       rl_complete := NL \<in> set buf, rl_tooLarge := rl_tooLarge r \<or> lim < length (rl_out r) + length (upto_newline buf)\<rparr>"
  using assms
proof (induction buf arbitrary: r)
  case Nil
  then show ?case by simp
next
  case (Cons c buf)
  define r2 where "r2 = (if rl_tooLarge r then r\<lparr>rl_end := rl_end r + 1\<rparr>
      else if lim \<le> length (rl_out r) then r\<lparr>rl_end := rl_end r + 1, rl_tooLarge := True\<rparr>
      else r\<lparr>rl_end := rl_end r + 1, rl_out := rl_out r @ [c]\<rparr>)"
  have step: "scan_buffer lim (c # buf) r = (if c = NL then r2\<lparr>rl_complete := True\<rparr> else scan_buffer lim buf r2)"
    by (simp add: r2_def Let_def)
  have r2: "rl_tooLarge r2 \<Longrightarrow> length (rl_out r2) = lim" "length (rl_out r2) \<le> lim" "\<not> rl_complete r2" "rl_end r2 = rl_end r + 1"
    "rl_tooLarge r2 \<longleftrightarrow> rl_tooLarge r \<or> lim < length (rl_out r) + 1" "rl_out r2 = take lim (rl_out r @ [c])"
    using Cons.prems by (auto simp: r2_def)
  show ?case
  proof (cases "c = NL")
    case True
    then show ?thesis using step r2 Cons.prems by (intro line_read.equality) (auto simp: r2_def)
  next
    case False
    have "scan_buffer lim buf r2 = r2\<lparr>rl_out := take lim (rl_out r2 @ upto_newline buf), rl_end := rl_end r2 + length (upto_newline buf),
       rl_complete := NL \<in> set buf, rl_tooLarge := rl_tooLarge r2 \<or> lim < length (rl_out r2) + length (upto_newline buf)\<rparr>"
      by (rule Cons.IH) (use r2(1-3) in auto)
    then have e: "scan_buffer lim (c # buf) r = r2\<lparr>rl_out := take lim (rl_out r2 @ upto_newline buf), rl_end := rl_end r2 + length (upto_newline buf),
       rl_complete := NL \<in> set buf, rl_tooLarge := rl_tooLarge r2 \<or> lim < length (rl_out r2) + length (upto_newline buf)\<rparr>"
      using step False by simp
    have t: "take lim (take lim (rl_out r @ [c]) @ upto_newline buf) = take lim (rl_out r @ c # upto_newline buf)"
      by (auto simp: take_append min_def take_Cons')
    have l: "(rl_tooLarge r \<or> lim < length (rl_out r) + 1) \<or> lim < length (take lim (rl_out r @ [c])) + length (upto_newline buf)
        \<longleftrightarrow> rl_tooLarge r \<or> lim < length (rl_out r) + Suc (length (upto_newline buf))" by auto
    show ?thesis unfolding e r2(4-6) l using t False by (intro line_read.equality) simp_all
  qed
qed

lemma upto_newline_split:
  "upto_newline s = (if NL \<in> set (take n s) then upto_newline (take n s) else take n s @ upto_newline (drop n s))"
proof (induction s arbitrary: n)
  case (Cons c s)
  show ?case
  proof (cases n)
    case (Suc k)
    then show ?thesis using Cons.IH[of k] by simp
  qed simp
qed simp

lemma read_loop_eq:
  assumes "rl_tooLarge r \<Longrightarrow> length (rl_out r) = lim" "length (rl_out r) \<le> lim"
  shows "read_loop f lim r =
     r\<lparr>rl_out := take lim (rl_out r @ upto_newline (drop (rl_end r) f)), rl_end := rl_end r + length (upto_newline (drop (rl_end r) f)),
       rl_complete := NL \<in> set (drop (rl_end r) f),
       rl_tooLarge := rl_tooLarge r \<or> lim < length (rl_out r) + length (upto_newline (drop (rl_end r) f))\<rparr>"
  using assms
proof (induction f lim r rule: read_loop.induct)
  case (1 f lim r)
  let ?s = "drop (rl_end r) f" and ?r0 = "r\<lparr>rl_complete := False\<rparr>"
  define buf where "buf = take 4096 ?s"
  define r1 where "r1 = scan_buffer lim buf ?r0"
  have r1: "r1 = ?r0\<lparr>rl_out := take lim (rl_out r @ upto_newline buf), rl_end := rl_end r + length (upto_newline buf),
       rl_complete := NL \<in> set buf, rl_tooLarge := rl_tooLarge r \<or> lim < length (rl_out r) + length (upto_newline buf)\<rparr>"
    unfolding r1_def by (subst scan_buffer_eq) (use "1.prems" in auto)
  have step: "read_loop f lim r = (if rl_complete r1 then r1 else if length buf < 4096 then r1 else read_loop f lim r1)"
    by (subst read_loop.simps) (simp add: buf_def r1_def Let_def)
  show ?case
  proof (cases "NL \<in> set buf")
    case True
    then have "upto_newline ?s = upto_newline buf" "NL \<in> set ?s" using upto_newline_split[of ?s 4096] set_take_subset[of 4096 ?s] by (auto simp: buf_def)
    then show ?thesis using step r1 True by (intro line_read.equality) simp_all
  next
    case F: False
    then have u: "upto_newline buf = buf" by (simp add: upto_newline_eq)
    have sp: "upto_newline ?s = buf @ upto_newline (drop 4096 ?s)" using upto_newline_split[of ?s 4096] F by (simp add: buf_def)
    show ?thesis
    proof (cases "length buf < 4096")
      case True
      then have "buf = ?s" by (auto simp: buf_def)
      then show ?thesis using step r1 F u True by (intro line_read.equality) simp_all
    next
      case False
      then have lb: "length buf = 4096" by (simp add: buf_def)
      have ih: "read_loop f lim r1 = r1\<lparr>rl_out := take lim (rl_out r1 @ upto_newline (drop (rl_end r1) f)),
          rl_end := rl_end r1 + length (upto_newline (drop (rl_end r1) f)), rl_complete := NL \<in> set (drop (rl_end r1) f),
          rl_tooLarge := rl_tooLarge r1 \<or> lim < length (rl_out r1) + length (upto_newline (drop (rl_end r1) f))\<rparr>"
        by (rule "1.IH"[OF refl refl, folded buf_def, folded r1_def]) (use F False r1 u "1.prems" in auto)
      have d: "drop (rl_end r1) f = drop 4096 ?s" using r1 u lb by (simp add: add.commute)
      have nl: "NL \<in> set ?s \<longleftrightarrow> NL \<in> set (drop 4096 ?s)" using F by (metis append_take_drop_id buf_def Un_iff set_append)
      have t: "take lim (take lim (rl_out r @ buf) @ z) = take lim (rl_out r @ buf @ z)" for z
        by (auto simp: take_append min_def)
      show ?thesis using step F False ih d nl sp r1 u t by (intro line_read.equality) (auto simp: min_def)
    qed
  qed
qed

lemma readLine_eq:
  "readLine f off lim = \<lparr>rl_out = take lim (line_at f off), rl_end = off + length (line_at f off), rl_complete = whole_line f off,
     rl_tooLarge = (lim < length (line_at f off))\<rparr>"
  unfolding readLine_def by (subst read_loop_eq) (simp_all add: line_at_def whole_line_def upto_newline_eq Let_def)

text \<open>
  C39: Reading a line in buffers of 4096 bytes is reading up to the next newline: the bytes are those of the line at the offset, its
  newline included, cut off at the limit; the end is the end of the line; the read is complete exactly where there is a newline; and the
  line is too large exactly where it does not fit the limit together with its newline.
\<close>

theorem readLine_reads_the_line:
  "readLine f off lim = \<lparr>rl_out = take lim (line_at f off), rl_end = off + length (line_at f off), rl_complete = whole_line f off,
     rl_tooLarge = (lim < length (line_at f off))\<rparr>"
  by (rule readLine_eq)

end
