(* ===== verification/Checkpoint.thy ===== *)
theory Checkpoint
  imports LogFacts "HOL-Library.AList"
begin

text \<open>
  The checkpoint files of the log sources (\<^verbatim>\<open>src/internal/logtail/tailer_linux.go\<close> and
  \<^verbatim>\<open>src/internal/journaltail/reader_linux.go\<close>): how they are written and read, and the encoding of the checkpoints of
  a file tailer. A file name stands for its path in the private checkpoint directory.

  A Go map is an association list with distinct keys; \<open>None\<close> is the nil map.
\<close>

section \<open>Writing and reading a checkpoint file\<close>

text \<open>
  Both sources write the bytes to a staged file, which is created or truncated, sync it, rename it over the
  target and sync the directory.
\<close>

definition save_file :: "bytes \<Rightarrow> bytes \<Rightarrow> unit io" where
  "save_file name b =
     andThen (create_trunc (name @ ''.pending'')) (\<lambda>_. publish (name @ ''.pending'') name b)"

text \<open>Both open without following a link, where no file is no error, check what they opened, and read it.\<close>

definition load_file :: "bytes \<Rightarrow> nat \<Rightarrow> string \<Rightarrow> bytes option io" where
  "load_file name limit message =
     andThen (attempt (open_read name)) (\<lambda>o'.
       case o' of
         Inl e \<Rightarrow> if e = NotExist then ret None else raise e
       | Inr _ \<Rightarrow>
           andThen (stat name) (\<lambda>f s.
             if unsafe_inode s f limit then raise (Failure message) s
             else andThen (read_all name limit) (\<lambda>b. ret (Some b)) s))"

section \<open>Checkpoints of a tailer\<close>

record checkpoint =
  Offset :: int
  Generation :: u64
  Fingerprint :: bytes
  RelativePath :: bytes
  UpdatedAt :: int
  AdmissionID :: bytes

record checkpointState =
  cs_Version :: int
  SourceID :: bytes
  Files :: "(bytes \<times> checkpoint) list option"

definition zero_checkpoint :: checkpoint where
  "zero_checkpoint = \<lparr>Offset = 0, Generation = 0, Fingerprint = [], RelativePath = [], UpdatedAt = 0, AdmissionID = []\<rparr>"

definition json_text :: "bytes \<Rightarrow> json" where
  "json_text s = JStr (quote_body s)"

definition json_checkpoint :: "checkpoint \<Rightarrow> json" where
  "json_checkpoint c = JObj
     ([(''offset'', JNum (dec_int (Offset c))), (''generation'', JNum (dec (unat (Generation c)))),
       (''fingerprint'', json_text (Fingerprint c)), (''relative_path'', json_text (RelativePath c)),
       (''updated_at'', JNum (dec_int (UpdatedAt c)))] @
      (if AdmissionID c = [] then [] else [(''admission_id'', json_text (AdmissionID c))]))"

text \<open>\<^verbatim>\<open>json.Marshal\<close> writes the keys of a map in order.\<close>

definition json_state :: "checkpointState \<Rightarrow> json" where
  "json_state st = JObj
     [(''version'', JNum (dec_int (cs_Version st))), (''source_id'', json_text (SourceID st)),
      (''files'', case Files st of None \<Rightarrow> JNull
         | Some m \<Rightarrow> JObj (map (\<lambda>(k, c). (quote_body k, json_checkpoint c)) (sort_key fst m)))]"

definition marshal_state :: "checkpointState \<Rightarrow> bytes" where
  "marshal_state st = pr (json_state st)"

definition checkpoint_fields :: "bytes list" where
  "checkpoint_fields = [''offset'', ''generation'', ''fingerprint'', ''relative_path'', ''updated_at'', ''admission_id'']"

definition set_checkpoint :: "bytes \<Rightarrow> bytes \<Rightarrow> checkpoint \<Rightarrow> checkpoint option" where
  "set_checkpoint f v c =
     (if f = ''offset'' then map_option (\<lambda>x. c\<lparr>Offset := x\<rparr>) (get_int v (Offset c))
      else if f = ''generation'' then map_option (\<lambda>x. c\<lparr>Generation := x\<rparr>) (get_u64 v (Generation c))
      else if f = ''fingerprint'' then map_option (\<lambda>x. c\<lparr>Fingerprint := x\<rparr>) (get_string v (Fingerprint c))
      else if f = ''relative_path'' then map_option (\<lambda>x. c\<lparr>RelativePath := x\<rparr>) (get_string v (RelativePath c))
      else if f = ''updated_at'' then map_option (\<lambda>x. c\<lparr>UpdatedAt := x\<rparr>) (get_int v (UpdatedAt c))
      else map_option (\<lambda>x. c\<lparr>AdmissionID := x\<rparr>) (get_string v (AdmissionID c)))"

definition unmarshal_checkpoint :: "bytes \<Rightarrow> checkpoint option" where
  "unmarshal_checkpoint b =
     (case json_fields b of None \<Rightarrow> None | Some kvs \<Rightarrow> set_fields checkpoint_fields set_checkpoint kvs zero_checkpoint)"

text \<open>Decoding into a map adds to it; a \<^verbatim>\<open>null\<close> makes it nil.\<close>

fun add_files :: "(bytes \<times> bytes) list \<Rightarrow> (bytes \<times> checkpoint) list \<Rightarrow> (bytes \<times> checkpoint) list option" where
  "add_files [] m = Some m"
| "add_files ((k, v) # kvs) m =
     (case unmarshal_checkpoint v of None \<Rightarrow> None | Some c \<Rightarrow> add_files kvs (AList.update k c m))"

definition get_files :: "bytes \<Rightarrow> (bytes \<times> checkpoint) list option \<Rightarrow> (bytes \<times> checkpoint) list option option" where
  "get_files v old =
     (case json_parse v of
        Some JNull \<Rightarrow> Some None
      | _ \<Rightarrow> (case json_fields v of None \<Rightarrow> None
              | Some kvs \<Rightarrow> map_option Some (add_files kvs (case old of None \<Rightarrow> [] | Some m \<Rightarrow> m))))"

definition set_state :: "bytes \<Rightarrow> bytes \<Rightarrow> checkpointState \<Rightarrow> checkpointState option" where
  "set_state f v st =
     (if f = ''version'' then map_option (\<lambda>x. st\<lparr>cs_Version := x\<rparr>) (get_int v (cs_Version st))
      else if f = ''source_id'' then map_option (\<lambda>x. st\<lparr>SourceID := x\<rparr>) (get_string v (SourceID st))
      else map_option (\<lambda>x. st\<lparr>Files := x\<rparr>) (get_files v (Files st)))"

definition unmarshal_state :: "bytes \<Rightarrow> checkpointState option" where
  "unmarshal_state b =
     (case json_fields b of None \<Rightarrow> None
      | Some kvs \<Rightarrow> set_fields [''version'', ''source_id'', ''files''] set_state kvs
          \<lparr>cs_Version = 0, SourceID = [], Files = None\<rparr>)"

definition checkpointPath :: "bytes \<Rightarrow> bytes" where
  "checkpointPath source = Sum256_hex source @ ''.json''"

definition saveCheckpoint :: "bytes \<Rightarrow> checkpointState \<Rightarrow> unit io" where
  "saveCheckpoint source st = save_file (checkpointPath source) (marshal_state st)"

text \<open>The limit of 4 MiB is 4194304.\<close>

definition loadCheckpoint :: "bytes \<Rightarrow> int \<Rightarrow> checkpointState io" where
  "loadCheckpoint source maxFiles =
     andThen (load_file (checkpointPath source) 4194304 ''log checkpoint is unsafe; retained'') (\<lambda>o'.
       case o' of
         None \<Rightarrow> ret \<lparr>cs_Version = 1, SourceID = source, Files = Some []\<rparr>
       | Some b \<Rightarrow>
           (case unmarshal_state b of
              None \<Rightarrow> raise (Failure ''log checkpoint invalid; retained'')
            | Some st \<Rightarrow>
                if cs_Version st \<noteq> 1 \<or> SourceID st \<noteq> source \<or> Files st = None
                   \<or> maxFiles * 4 < int (length (the (Files st)))
                then raise (Failure ''log checkpoint invalid; retained'') else ret st))"

section \<open>Encoding and decoding\<close>

definition checkpoint_ok :: "checkpoint \<Rightarrow> bool" where
  "checkpoint_ok c \<longleftrightarrow> 0 \<le> Offset c \<and> Offset c < 2 ^ 63 \<and> 0 \<le> UpdatedAt c \<and> UpdatedAt c < 2 ^ 63 \<and>
     utf8_Valid (Fingerprint c) \<and> utf8_Valid (RelativePath c) \<and> utf8_Valid (AdmissionID c)"

lemma get_string_quoted: "utf8_Valid s \<Longrightarrow> get_string (pr (json_text s)) old = Some s"
  using json_parse_pr[of "JStr (quote_body s)"] quote_body_body[of s]
  by (simp add: get_string_def json_text_def unquote_quote_body)

lemma json_wf_text: "json_wf d (json_text s)"
  by (simp add: json_text_def quote_body_body)

lemma checkpoint_names_text:
  "list_all text_char ''offset''" "list_all text_char ''generation''" "list_all text_char ''fingerprint''"
  "list_all text_char ''relative_path''" "list_all text_char ''updated_at''" "list_all text_char ''source_id''" "list_all text_char ''files''"
  by (simp_all add: text_char_def plain_def char_consts)

lemmas checkpoint_names_unquote = checkpoint_names_text[THEN unquote_text] log_names_unquote
lemmas checkpoint_names_body = checkpoint_names_text[THEN text_body] log_names_body

lemma dec_int_nonneg: "0 \<le> i \<Longrightarrow> dec_int i = dec (nat i)"
  using dec_int_of_nat[of "nat i"] by simp

lemma get_int_nonneg: "0 \<le> i \<Longrightarrow> i < 2 ^ 63 \<Longrightarrow> get_int (pr (JNum (dec_int i))) old = Some i"
  using get_int_dec[of "nat i" old] by (simp add: dec_int_nonneg nat_less_iff)

lemma json_wf_num: "0 \<le> i \<Longrightarrow> json_wf d (JNum (dec_int i))"
  by (simp add: dec_int_nonneg json_wf_dec del: json_wf.simps)

lemma json_wf_checkpoint: "checkpoint_ok c \<Longrightarrow> json_wf (Suc d) (json_checkpoint c)"
  using json_wf_num[of "Offset c" d] json_wf_num[of "UpdatedAt c" d] json_wf_dec[of d "unat (Generation c)"]
  by (simp add: json_checkpoint_def checkpoint_ok_def checkpoint_names_body json_wf_text)

lemma unmarshal_json_checkpoint:
  assumes "checkpoint_ok c"
  shows "unmarshal_checkpoint (pr (json_checkpoint c)) = Some c"
proof -
  define adm where "adm = (if AdmissionID c = [] then [] else [(''admission_id'', pr (json_text (AdmissionID c)))])"
  have wf: "json_wf maxNestingDepth (json_checkpoint c)"
    using json_wf_checkpoint[OF assms, of "maxNestingDepth - 1"] maxNesting_Suc by simp
  have f: "json_fields (pr (json_checkpoint c)) = Some
     ([(''offset'', pr (JNum (dec_int (Offset c)))), (''generation'', pr (JNum (dec (unat (Generation c))))),
       (''fingerprint'', pr (json_text (Fingerprint c))), (''relative_path'', pr (json_text (RelativePath c))),
       (''updated_at'', pr (JNum (dec_int (UpdatedAt c))))] @ adm)"
    using json_fields_pr[OF wf[unfolded json_checkpoint_def]]
    by (simp add: json_checkpoint_def checkpoint_names_unquote adm_def del: pr.simps)
  have ok: "get_int (pr (JNum (dec_int (Offset c)))) old = Some (Offset c)" "get_int (pr (JNum (dec_int (UpdatedAt c)))) old = Some (UpdatedAt c)"
    "get_u64 (pr (JNum (dec (unat (Generation c))))) old' = Some (Generation c)"
    "get_string (pr (json_text (Fingerprint c))) olds = Some (Fingerprint c)" "get_string (pr (json_text (RelativePath c))) olds = Some (RelativePath c)"
    "get_string (pr (json_text (AdmissionID c))) olds = Some (AdmissionID c)" for old old' olds
    using assms get_u64_dec by (simp_all add: checkpoint_ok_def get_int_nonneg get_string_quoted del: pr.simps) simp
  show ?thesis
    by (simp add: unmarshal_checkpoint_def f checkpoint_fields_def match_field_def set_checkpoint_def zero_checkpoint_def ok adm_def del: pr.simps)
qed

lemma add_files_append:
  "distinct (map fst m @ map fst kvs) \<Longrightarrow> \<forall>(k, c) \<in> set kvs. checkpoint_ok c \<Longrightarrow>
   add_files (map (\<lambda>(k, c). (k, pr (json_checkpoint c))) kvs) m = Some (m @ kvs)"
proof (induction kvs arbitrary: m)
  case (Cons kc kvs)
  obtain k c where kc: "kc = (k, c)" by fastforce
  have "AList.update k c m = m @ [(k, c)]" using Cons.prems(1) kc by (induction m) auto
  then show ?case using Cons.IH[of "m @ [(k, c)]"] Cons.prems kc by (simp add: unmarshal_json_checkpoint)
qed simp

definition state_ok :: "bytes \<Rightarrow> checkpointState \<Rightarrow> bool" where
  "state_ok source st \<longleftrightarrow> cs_Version st = 1 \<and> SourceID st = source \<and> utf8_Valid source \<and>
     (\<exists>m. Files st = Some m \<and> distinct (map fst m) \<and> (\<forall>(k, c) \<in> set m. utf8_Valid k \<and> checkpoint_ok c))"

lemma unmarshal_marshal_state:
  assumes "state_ok source st" "Files st = Some m"
  shows "unmarshal_state (marshal_state st) = Some (st\<lparr>Files := Some (sort_key fst m)\<rparr>)"
proof -
  let ?m = "sort_key fst m"
  define fs where "fs = JObj (map (\<lambda>(k, c). (quote_body k, json_checkpoint c)) ?m)"
  have st: "cs_Version st = 1" "SourceID st = source" "utf8_Valid source" "distinct (map fst m)"
    "\<forall>(k, c) \<in> set ?m. utf8_Valid k \<and> checkpoint_ok c"
    using assms by (auto simp: state_ok_def)
  have d: "distinct (map fst ?m)" using st(4) by (simp add: distinct_map inj_on_def)
  define D where "D = maxNestingDepth - 2"
  have D: "maxNestingDepth = Suc (Suc D)" by (simp add: D_def maxNestingDepth_def)
  have wf2: "json_wf (Suc (Suc d)) fs" if "0 < d" for d
  proof -
    have "json_wf (Suc d) (json_checkpoint c)" if "(k, c) \<in> set ?m" for k c using st(5) that json_wf_checkpoint by blast
    then show ?thesis by (auto simp: fs_def quote_body_body)
  qed
  have D0: "0 < D - 1" by (simp add: D_def maxNestingDepth_def)
  have wf: "json_wf maxNestingDepth (json_state st)"
    using wf2[of "D - 1"] D0 json_wf_num[of 1] st(1) unfolding D
    by (simp add: json_state_def assms(2) checkpoint_names_body json_wf_text flip: fs_def)
  have wfs: "json_wf maxNestingDepth fs" using wf2[of D] D0 unfolding D by simp
  have f: "json_fields (marshal_state st) = Some
     [(''version'', pr (JNum (dec_int 1))), (''source_id'', pr (json_text source)), (''files'', pr fs)]"
    using json_fields_pr[OF wf[unfolded json_state_def]]
    by (simp add: marshal_state_def json_state_def checkpoint_names_unquote assms(2) st(1,2) del: pr.simps flip: fs_def)
  have "json_fields (pr fs) = Some (map (\<lambda>(k, c). (k, pr (json_checkpoint c))) ?m)"
    using json_fields_pr[OF wfs[unfolded fs_def]] st(5)
    by (auto simp: fs_def unquote_quote_body simp del: pr.simps)
  moreover have "json_parse (pr fs) = Some fs" using json_parse_pr[OF wfs] .
  moreover have "add_files (map (\<lambda>(k, c). (k, pr (json_checkpoint c))) ?m) [] = Some ?m"
    using add_files_append[of "[]" ?m] d st(5) by auto
  ultimately have "get_files (pr fs) None = Some (Some ?m)" by (simp add: get_files_def fs_def)
  moreover have "get_int (pr (JNum (dec_int 1))) 0 = Some 1" using get_int_nonneg[of 1 0] by simp
  ultimately show ?thesis
    using get_string_quoted[OF st(3)]
    by (simp add: unmarshal_state_def f match_field_def set_state_def st(1,2) del: pr.simps)
qed

lemma map_of_sort_key: "distinct (map fst m) \<Longrightarrow> map_of (sort_key fst m) = map_of m"
  by (subst map_of_inject_set) (simp_all add: distinct_map inj_on_def)

section \<open>What a restart finds\<close>

definition private_file :: "fs \<Rightarrow> inode \<Rightarrow> bool" where
  "private_file s f \<longleftrightarrow> f_kind f = Regular \<and> f_mode f = 384 \<and> f_uid f = fs_euid s \<and> f_nlink f = 1"

text \<open>A staged file of an earlier save may have been left behind.\<close>

definition stage_ok :: "fs \<Rightarrow> bytes \<Rightarrow> bool" where
  "stage_ok s name \<longleftrightarrow> (\<forall>f. live s (name @ ''.pending'') = Some f \<longrightarrow> private_file s f)"

text \<open>The directory entry \<open>name\<close> is the same now and after any crash.\<close>

definition settled :: "fs \<Rightarrow> bytes \<Rightarrow> bool" where
  "settled s name \<longleftrightarrow> poss s name = {live s name} \<and> (\<forall>f. live s name = Some f \<longrightarrow> f_synced f)"

text \<open>A file system as it comes up after a crash of \<open>s\<close>, for the same user and without further faults.\<close>

definition reboots :: "fs \<Rightarrow> fs \<Rightarrow> bool" where
  "reboots s s2 \<longleftrightarrow> crash_image s (live s2) \<and> fs_euid s2 = fs_euid s \<and> fs_fates s2 = []"

lemma frames_save_file [inv_intros]: "frames {name @ ''.pending'', name} (save_file name b)"
  unfolding save_file_def by (intro inv_intros) auto

lemma create_trunc_Inr:
  assumes "create_trunc n s = (Inr u, s1)"
  shows "\<exists>f. live s1 n = Some f \<and> f_data f = [] \<and> f_synced f = False \<and> (\<forall>m. m \<noteq> n \<longrightarrow> live s1 m = live s m \<and> poss s1 m = poss s m)
    \<and> fs_euid s1 = fs_euid s \<and> ((\<forall>g. live s n = Some g \<longrightarrow> private_file s g) \<longrightarrow> private_file s f)"
  using assms unfolding create_trunc_def
  by (auto dest!: syscall_Inr split: option.splits if_splits simp: fresh_file_def private_file_def)

lemma create_trunc_Inl: "create_trunc n s = (Inl e, s1) \<Longrightarrow> s1 = spend s"
  unfolding create_trunc_def by (drule syscall_cases) (auto split: option.splits if_splits)

lemma save_file_outcome:
  assumes sv: "save_file name b s = (r, s')" and st: "stage_ok s name" and old: "settled s name"
  shows "\<exists>f. private_file s f \<and> f_data f = b \<and> f_synced f \<and>
     poss s' name \<subseteq> {live s name, Some f} \<and> (r = Inr () \<longrightarrow> stable s' name f \<and> live s' (name @ ''.pending'') = None)
     \<and> live s' name \<in> {live s name, Some f}"
proof -
  let ?stage = "name @ ''.pending''"
  have ne: "name \<noteq> ?stage" by simp
  obtain x s1 where c: "create_trunc ?stage s = (x, s1)" by fastforce
  show ?thesis
  proof (cases x)
    case (Inl e)
    then have "s' = spend s" "r = Inl e" using sv c create_trunc_Inl[of ?stage s e s1] by (auto simp: save_file_def andThen_def)
    then show ?thesis using old
      by (intro exI[of _ "\<lparr>f_kind = Regular, f_mode = 384, f_uid = fs_euid s, f_nlink = 1, f_data = b, f_synced = True\<rparr>"])
         (auto simp: private_file_def settled_def)
  next
    case (Inr u)
    from create_trunc_Inr[OF c[unfolded Inr]] st obtain f where f: "live s1 ?stage = Some f" "f_data f = []"
      "live s1 name = live s name" "poss s1 name = poss s name" "private_file s f"
      using ne by (auto simp: stage_ok_def)
    have p: "publish ?stage name b s1 = (r, s')" using sv c Inr by (simp add: save_file_def andThen_def)
    let ?f = "f\<lparr>f_data := f_data f @ b, f_synced := True\<rparr>"
    have "private_file s ?f" "f_data ?f = b" "f_synced ?f" using f(2,5) by (simp_all add: private_file_def)
    moreover have "poss s' name \<subseteq> {live s name, Some ?f}" "live s' name \<in> {live s name, Some ?f}"
      using publish_atomic[OF p f(1) ne] f(3,4) old by (auto simp: settled_def)
    moreover have "r = Inr () \<longrightarrow> stable s' name ?f \<and> live s' ?stage = None" using publish_Inr[OF _ f(1) ne] p by auto
    ultimately show ?thesis by blast
  qed
qed

lemma load_file_found:
  assumes "live s name = Some f" "private_file s f" "length (f_data f) \<le> limit" "fs_fates s = []"
  shows "load_file name limit msg s = (Inr (Some (f_data f)), s)"
proof -
  have sp: "spend s = s" using assms(4) by (simp add: spend_def)
  have "unsafe_inode s f limit = False" using assms(2,3) by (auto simp: unsafe_inode_def private_file_def)
  then show ?thesis using assms sp
    by (simp add: load_file_def andThen_def attempt_def open_read_def stat_def read_all_def syscall_def fate_of_def ret_def private_file_def)
qed

text \<open>What a restart finds after a save that failed anywhere, and after one that did not.\<close>

lemma load_file_too_large:
  assumes "live s name = Some f" "private_file s f" "limit < length (f_data f)" "fs_fates s = []"
  shows "load_file name limit msg s = (Inl (Failure msg), s)"
proof -
  have "spend s = s" using assms(4) by (simp add: spend_def)
  moreover have "unsafe_inode s f limit" using assms(3) by (simp add: unsafe_inode_def)
  ultimately show ?thesis using assms
    by (simp add: load_file_def andThen_def attempt_def open_read_def stat_def raise_def syscall_def fate_of_def private_file_def)
qed

lemma restart_after_save:
  assumes sv: "saveCheckpoint source st s = (r, s')" and st: "state_ok source st" "Files st = Some m"
    and s: "stage_ok s (checkpointPath source)" "settled s (checkpointPath source)" and rb: "reboots s' s2"
  shows "(r \<noteq> Inr () \<and> live s2 (checkpointPath source) = live s (checkpointPath source)) \<or>
     (\<exists>fi. live s2 (checkpointPath source) = Some fi \<and> private_file s2 fi \<and> f_data fi = marshal_state st \<and>
        loadCheckpoint source maxFiles s2 =
          (if 4194304 < length (marshal_state st) then (Inl (Failure ''log checkpoint is unsafe; retained''), s2)
           else if maxFiles * 4 < int (length m) then (Inl (Failure ''log checkpoint invalid; retained''), s2)
           else (Inr (st\<lparr>Files := Some (sort_key fst m)\<rparr>), s2)))" (is "_ \<or> (\<exists>fi. ?found fi)")
proof -
  let ?p = "checkpointPath source"
  from save_file_outcome[OF sv[unfolded saveCheckpoint_def] s] obtain f where f: "private_file s f" "f_data f = marshal_state st"
    "f_synced f" "poss s' ?p \<subseteq> {live s ?p, Some f}" "r = Inr () \<longrightarrow> stable s' ?p f" by blast
  have eu: "fs_euid s' = fs_euid s"
    using framesD[OF frames_save_file sv[unfolded saveCheckpoint_def]] by (simp add: framed_def)
  obtain v where v: "v \<in> poss s' ?p" "survives v (live s2 ?p)" using rb by (auto simp: reboots_def crash_image_def)
  have new: "?found f" if l: "live s2 ?p = Some f"
  proof -
    have pf: "private_file s2 f" using f(1) rb eu by (simp add: private_file_def reboots_def)
    have q: "fs_fates s2 = []" using rb by (simp add: reboots_def)
    have "load_file ?p 4194304 ''log checkpoint is unsafe; retained'' s2 =
       (if 4194304 < length (marshal_state st) then (Inl (Failure ''log checkpoint is unsafe; retained''), s2)
        else (Inr (Some (marshal_state st)), s2))"
      using load_file_found[OF l pf, of 4194304] load_file_too_large[OF l pf, of 4194304] q f(2) by simp
    then show ?thesis using unmarshal_marshal_state[OF st] st l pf f(2)
      by (simp add: loadCheckpoint_def andThen_def ret_def raise_def state_ok_def)
  qed
  have sf: "live s2 ?p = Some f" if "v = Some f" using v(2) that f(3) by (simp add: survives_def)
  show ?thesis
  proof (cases "r = Inr ()")
    case True
    then have "v = Some f" using f(5) v(1) by (simp add: stable_def)
    then show ?thesis using sf new by blast
  next
    case False
    have "live s2 ?p = live s ?p" if "v = live s ?p" using v(2) that s(2) by (auto simp: survives_def settled_def split: option.splits)
    then show ?thesis using f(4) v(1) sf new False by blast
  qed
qed

section \<open>The checkpoint file while it is replaced\<close>

definition all_private :: "fs \<Rightarrow> bytes \<Rightarrow> bool" where
  "all_private s n \<longleftrightarrow> (\<forall>f. live s n = Some f \<longrightarrow> private_file s f)"

lemma private_file_euid: "fs_euid s' = fs_euid s \<Longrightarrow> private_file s' = private_file s"
  by (simp add: private_file_def fun_eq_iff)

lemma all_private_set_data:
  "(\<And>f. private_file s f \<Longrightarrow> private_file s (g f)) \<Longrightarrow> all_private s n \<Longrightarrow> all_private (set_data n g s) n"
  by (auto simp: all_private_def set_data_def private_file_euid[of "put_entry _ _ _"] split: option.splits)

lemma all_private_spend [simp]: "all_private (spend s) n = all_private s n"
  by (simp add: all_private_def private_file_def)

lemma all_private_fill: "fill n d s = (r, s') \<Longrightarrow> all_private s n \<Longrightarrow> all_private s' n"
proof -
  assume f: "fill n d s = (r, s')" and p: "all_private s n"
  obtain x s1 where w: "write_all n d s = (x, s1)" by fastforce
  have p1: "all_private s1 n" using w p all_private_set_data[of "spend s" _ n]
    by (auto simp: write_all_def private_file_def split: fate.splits)
  have fs: "all_private s2 n" if "fsync n s1 = (y, s2)" for y s2
    using that p1 all_private_set_data[of "spend s1" _ n] by (auto simp: fsync_def syscall_def private_file_def split: fate.splits)
  have cl: "all_private s2 n" if "close_file s1' = (y, s2)" "all_private s1' n" for y s1' s2
    using that close_file_state[OF that(1)] by simp
  show ?thesis using f w p1 fs cl
    by (auto simp: fill_def andThen_def attempt_def ret_def raise_def split: sum.splits prod.splits)
qed

lemma save_file_step:
  assumes sv: "save_file name b s = (r, s')" and st: "stage_ok s name"
  shows "stage_ok s' name \<and> fs_euid s' = fs_euid s \<and>
    (\<exists>f. private_file s f \<and> f_data f = b \<and> f_synced f \<and> live s' name \<in> {live s name, Some f} \<and>
         poss s' name \<subseteq> insert (live s name) (insert (Some f) (poss s name)) \<and> (r = Inr () \<longrightarrow> poss s' name = {Some f} \<and> live s' name = Some f))"
proof -
  let ?stage = "name @ ''.pending''"
  have ne: "name \<noteq> ?stage" by simp
  have eu: "fs_euid s' = fs_euid s" using framesD[OF frames_save_file sv] by (simp add: framed_def)
  obtain x s1 where c: "create_trunc ?stage s = (x, s1)" by fastforce
  show ?thesis
  proof (cases x)
    case (Inl e)
    then have "s' = spend s" "r = Inl e" using sv c create_trunc_Inl[of ?stage s e s1] by (auto simp: save_file_def andThen_def)
    then show ?thesis using st eu
      by (intro conjI exI[of _ "\<lparr>f_kind = Regular, f_mode = 384, f_uid = fs_euid s, f_nlink = 1, f_data = b, f_synced = True\<rparr>"])
         (auto simp: private_file_def stage_ok_def)
  next
    case (Inr u)
    from create_trunc_Inr[OF c[unfolded Inr]] st obtain f where f: "live s1 ?stage = Some f" "f_data f = []"
      "live s1 name = live s name" "poss s1 name = poss s name" "private_file s f" "fs_euid s1 = fs_euid s"
      using ne by (auto simp: stage_ok_def)
    have p: "publish ?stage name b s1 = (r, s')" using sv c Inr by (simp add: save_file_def andThen_def)
    let ?f = "f\<lparr>f_data := f_data f @ b, f_synced := True\<rparr>"
    have pf: "private_file s ?f" "f_data ?f = b" "f_synced ?f" using f(2,5) by (simp_all add: private_file_def)
    have at: "live s' name \<in> {live s name, Some ?f}" "poss s' name \<subseteq> insert (live s name) (insert (Some ?f) (poss s name))"
      using publish_atomic[OF p f(1) ne] f(3,4) by auto
    have ok: "r = Inr () \<longrightarrow> poss s' name = {Some ?f} \<and> live s' name = Some ?f"
      using publish_Inr[OF _ f(1) ne] p by (auto simp: stable_def)
    have "all_private s1 ?stage" using f(1,5,6) by (simp add: all_private_def private_file_def)
    obtain y s2 where fl: "fill ?stage b s1 = (y, s2)" by fastforce
    have p2: "all_private s2 ?stage" by (rule all_private_fill[OF fl]) fact
    have "all_private s' ?stage"
    proof (cases y)
      case (Inl e)
      then show ?thesis using p fl p2 by (simp add: publish_def andThen_def)
    next
      case y: (Inr z)
      obtain q s3 where re: "rename ?stage name s2 = (q, s3)" by fastforce
      show ?thesis
      proof (cases q)
        case (Inl e)
        then have "s' = spend s2" using p fl y re rename_Inl[OF re[unfolded Inl]] by (simp add: publish_def andThen_def)
        then show ?thesis using p2 by simp
      next
        case (Inr q')
        then obtain w where sy: "syncDir s3 = (w, s')" using p fl y re by (simp add: publish_def andThen_def)
        have "live s3 ?stage = None" using rename_Inr[OF re[unfolded Inr]] by auto
        then have "live s' ?stage = None" using framesD[OF frames_syncDir sy, of "{}"] by (simp add: framed_def)
        then show ?thesis by (simp add: all_private_def)
      qed
    qed
    then show ?thesis using eu pf at ok by (auto simp: stage_ok_def all_private_def)
  qed
qed

section \<open>A saved checkpoint is the checkpoint a restart loads\<close>

text \<open>A private directory with nothing in it but \<open>d\<close>, all of it durable.\<close>

definition quiet_fs :: "(bytes \<times> inode) list \<Rightarrow> fs" where
  "quiet_fs d = \<lparr>fs_dir = d, fs_disk = d, fs_recent = [], fs_fates = [], fs_euid = 1000, fs_locked = False\<rparr>"

definition private_of :: "bytes \<Rightarrow> inode" where
  "private_of b = \<lparr>f_kind = Regular, f_mode = 384, f_uid = 1000, f_nlink = 1, f_data = b, f_synced = True\<rparr>"

lemmas fs_eval = andThen_def attempt_def ret_def raise_def syscall_def fate_of_def spend_def live_def

lemma save_file_empty: "save_file name b (quiet_fs []) = (Inr (), quiet_fs [(name, private_of b)])"
  by (simp add: save_file_def quiet_fs_def private_of_def create_trunc_def publish_def fill_def write_all_def fsync_def close_file_def
      rename_def syncDir_def open_dir_def fsync_dir_def put_entry_def set_data_def fresh_file_def ins_def fs_eval)

lemma quiet_fs_empty: "stage_ok (quiet_fs []) n" "settled (quiet_fs []) n"
  by (simp_all add: quiet_fs_def stage_ok_def settled_def live_def poss_def)

lemma quiet_fs_reboots: "\<forall>(n, f) \<in> set d. f_synced f \<Longrightarrow> reboots (quiet_fs d) (quiet_fs d)"
  by (auto simp: reboots_def crash_image_def quiet_fs_def live_def poss_def survives_def split: option.splits dest: map_of_SomeD)

definition sample_state :: checkpointState where
  "sample_state = \<lparr>cs_Version = 1, SourceID = ''app'', Files = Some
     [(''fd00:2b'', \<lparr>Offset = 512, Generation = 1, Fingerprint = ''00ff'', RelativePath = ''app.log'', UpdatedAt = 7, AdmissionID = ''ab''\<rparr>),
      (''fd00:1c'', \<lparr>Offset = 40, Generation = 0, Fingerprint = ''1122'', RelativePath = ''old.log'', UpdatedAt = 3, AdmissionID = []\<rparr>)]\<rparr>"

lemma sample_state_ok: "state_ok ''app'' sample_state"
proof -
  have "utf8_Valid ''app'' \<and> utf8_Valid ''fd00:2b'' \<and> utf8_Valid ''fd00:1c'' \<and> utf8_Valid ''00ff'' \<and> utf8_Valid ''1122'' \<and>
    utf8_Valid ''app.log'' \<and> utf8_Valid ''old.log'' \<and> utf8_Valid ''ab''" by code_simp
  then show ?thesis by (simp add: state_ok_def sample_state_def checkpoint_ok_def)
qed

lemma sample_state_length: "length (marshal_state sample_state) \<le> 4194304"
proof -
  have "length (marshal_state sample_state) \<le> 400" by code_simp
  then show ?thesis by simp
qed

text \<open>
  C20: A save of a checkpoint state whose numbers and texts fit their encoding, in a directory where a staged file that was left
  behind is private and the old checkpoint file, or its absence, is already durable. Whatever call of the save fails, a restart
  after a crash at any moment finds the checkpoint file either as it was before the save, and that only when the save reported an error, or complete with
  the encoding of the new state. In the second case the restart loads it, with the same source and for every file the offset,
  generation, fingerprint and admission that were saved, exactly when the encoding is within 4 MiB and the state has at most four times
  \<^verbatim>\<open>maxFiles\<close> entries; the save checks neither, and beyond them the restart is an error and leaves the file as it is.
\<close>

theorem checkpoint_survives_restart:
  assumes "saveCheckpoint source st s = (r, s')" and "state_ok source st" "Files st = Some m"
    and "stage_ok s (checkpointPath source)" "settled s (checkpointPath source)" "reboots s' s2"
  shows "(r \<noteq> Inr () \<and> live s2 (checkpointPath source) = live s (checkpointPath source)) \<or>
     (\<exists>fi. live s2 (checkpointPath source) = Some fi \<and> private_file s2 fi \<and> f_data fi = marshal_state st \<and>
        (if length (marshal_state st) \<le> 4194304 \<and> int (length m) \<le> maxFiles * 4
         then \<exists>st' m'. loadCheckpoint source maxFiles s2 = (Inr st', s2) \<and> SourceID st' = source \<and> Files st' = Some m' \<and> map_of m' = map_of m
         else \<exists>e. loadCheckpoint source maxFiles s2 = (Inl (Failure e), s2)))"
proof -
  have "distinct (map fst m)" "SourceID st = source" using assms(2,3) by (auto simp: state_ok_def)
  then have "map_of (sort_key fst m) = map_of m" "SourceID (st\<lparr>Files := Some (sort_key fst m)\<rparr>) = source"
    using map_of_sort_key by simp_all
  with restart_after_save[OF assms, of maxFiles] show ?thesis by (auto 0 4)
qed

theorem checkpoint_survives_restart_witness:
  "\<exists>st' m'. loadCheckpoint ''app'' 1 (snd (saveCheckpoint ''app'' sample_state (quiet_fs []))) =
       (Inr st', snd (saveCheckpoint ''app'' sample_state (quiet_fs []))) \<and> Files st' = Some m' \<and>
     map_option Offset (map_of m' ''fd00:2b'') = Some 512"
proof -
  obtain m where m: "Files sample_state = Some m" "map_option Offset (map_of m ''fd00:2b'') = Some 512" "length m = 2"
    by (simp add: sample_state_def)
  let ?d = "[(checkpointPath ''app'', private_of (marshal_state sample_state))]"
  have sv: "saveCheckpoint ''app'' sample_state (quiet_fs []) = (Inr (), quiet_fs ?d)" by (simp add: saveCheckpoint_def save_file_empty)
  have "reboots (quiet_fs ?d) (quiet_fs ?d)" by (rule quiet_fs_reboots) (simp add: private_of_def)
  from checkpoint_survives_restart[OF sv sample_state_ok m(1) quiet_fs_empty this, of 1] sample_state_length m(3)
  show ?thesis using sv m(2) by auto
qed

end
