(* ===== verification/Tailer.thy ===== *)
theory Tailer
  imports Config Lines Checkpoint
begin

text \<open>
  The file tailer (\<^verbatim>\<open>src/internal/logtail/tailer_linux.go\<close>): discovery of files, reading of lines, admission, and the
  checkpoints that say how far a file has been admitted.

  A tailer works on a world \<open>'w\<close> that it only sees through the functions it was given: durable admission, activation
  and the clock. The content of an open file and its size, the names in the root directory and the answers of the
  operating system are inputs of a poll; the checkpoint directory is the file system \<open>tl_fs\<close>. One poll sees one
  content of each file, which may be longer than the size that was measured first.
\<close>

section \<open>State\<close>

record tail_record =
  tr_AdmissionID :: bytes
  tr_Body :: bytes
  tr_RelativePath :: bytes
  tr_FileIdentity :: bytes
  tr_StartOffset :: int
  tr_EndOffset :: int
  tr_ObservedAt :: int

record counters =
  FilesDiscovered :: u64
  FilesOpen :: u64
  RecordsRead :: u64
  RecordsRejectedLocal :: u64
  PermissionErrors :: u64
  CheckpointErrors :: u64
  MultilineFlushes :: u64

record pending =
  pd_body :: bytes
  pd_start :: int
  pd_end :: int
  pd_lines :: nat
  pd_since :: int

text \<open>\<open>None\<close> is the zero time of \<^verbatim>\<open>lostAt\<close>; the open file is identified by \<open>os_identity\<close>.\<close>

record openState =
  os_identity :: bytes
  os_relative :: bytes
  os_fingerprint :: bytes
  os_committed :: int
  os_readOffset :: int
  os_generation :: u64
  os_pending :: pending
  os_lostAt :: "int option"

text \<open>\<open>tl_root\<close> says whether the root directory is open and \<open>tl_running\<close> whether \<^verbatim>\<open>cancel\<close> is set.\<close>

record 'w tailer =
  tl_source :: log_source
  tl_maxFiles :: int
  tl_admit :: "(tail_record \<Rightarrow> 'w \<Rightarrow> error option \<times> 'w) option"
  tl_activate :: "(bytes \<Rightarrow> 'w \<Rightarrow> error option \<times> 'w) option"
  tl_clock :: "'w \<Rightarrow> int \<times> 'w"
  tl_root :: bool
  tl_states :: "(bytes \<times> openState) list"
  tl_checkpoints :: checkpointState
  tl_start :: "bytes \<Rightarrow> bool"
  tl_running :: bool
  tl_stats :: counters
  tl_fs :: fs
  tl_world :: 'w

definition no_counters :: counters where
  "no_counters = \<lparr>FilesDiscovered = 0, FilesOpen = 0, RecordsRead = 0, RecordsRejectedLocal = 0, PermissionErrors = 0,
     CheckpointErrors = 0, MultilineFlushes = 0\<rparr>"

definition no_pending :: pending where
  "no_pending = \<lparr>pd_body = [], pd_start = 0, pd_end = 0, pd_lines = 0, pd_since = 0\<rparr>"

definition fresh_checkpoints :: "bytes \<Rightarrow> checkpointState" where
  "fresh_checkpoints source = \<lparr>cs_Version = 1, SourceID = source, Files = Some []\<rparr>"

definition tick :: "'w tailer \<Rightarrow> int \<times> 'w tailer" where
  "tick t = (case tl_clock t (tl_world t) of (n, w) \<Rightarrow> (n, t\<lparr>tl_world := w\<rparr>))"

definition files_of :: "'w tailer \<Rightarrow> (bytes \<times> checkpoint) list" where
  "files_of t = (case Files (tl_checkpoints t) of None \<Rightarrow> [] | Some m \<Rightarrow> m)"

definition set_files :: "(bytes \<times> checkpoint) list \<Rightarrow> 'w tailer \<Rightarrow> 'w tailer" where
  "set_files m t = t\<lparr>tl_checkpoints := (tl_checkpoints t)\<lparr>Files := Some m\<rparr>\<rparr>"

definition save :: "'w tailer \<Rightarrow> unit result \<times> 'w tailer" where
  "save t = (case saveCheckpoint (src_ID (tl_source t)) (tl_checkpoints t) (tl_fs t) of (r, s) \<Rightarrow> (r, t\<lparr>tl_fs := s\<rparr>))"

text \<open>Counting an event.\<close>

definition count_read :: "'w tailer \<Rightarrow> 'w tailer" where
  "count_read t = t\<lparr>tl_stats := (tl_stats t)\<lparr>RecordsRead := RecordsRead (tl_stats t) + 1\<rparr>\<rparr>"

definition count_rejected :: "'w tailer \<Rightarrow> 'w tailer" where
  "count_rejected t = t\<lparr>tl_stats := (tl_stats t)\<lparr>RecordsRejectedLocal := RecordsRejectedLocal (tl_stats t) + 1\<rparr>\<rparr>"

definition count_permission :: "error \<Rightarrow> 'w tailer \<Rightarrow> 'w tailer" where
  "count_permission e t =
     (if e = Permission then t\<lparr>tl_stats := (tl_stats t)\<lparr>PermissionErrors := PermissionErrors (tl_stats t) + 1\<rparr>\<rparr> else t)"

definition count_checkpoint_error :: "'w tailer \<Rightarrow> 'w tailer" where
  "count_checkpoint_error t = t\<lparr>tl_stats := (tl_stats t)\<lparr>CheckpointErrors := CheckpointErrors (tl_stats t) + 1\<rparr>\<rparr>"

definition count_flush :: "'w tailer \<Rightarrow> 'w tailer" where
  "count_flush t = t\<lparr>tl_stats := (tl_stats t)\<lparr>MultilineFlushes := MultilineFlushes (tl_stats t) + 1\<rparr>\<rparr>"

definition count_discovered :: "'w tailer \<Rightarrow> 'w tailer" where
  "count_discovered t = t\<lparr>tl_stats := (tl_stats t)\<lparr>FilesDiscovered := FilesDiscovered (tl_stats t) + 1\<rparr>\<rparr>"

definition Stats :: "'w tailer \<Rightarrow> counters" where
  "Stats t = (tl_stats t)\<lparr>FilesOpen := of_nat (length (tl_states t))\<rparr>"

section \<open>Admission and commitment of a record\<close>

text \<open>\<^verbatim>\<open>Sprintf\<close> of the identity of a record; the parts are separated by NUL bytes.\<close>

definition NUL :: bytes where "NUL = [CHR 0x00]"

definition admission_text :: "bytes \<Rightarrow> bytes \<Rightarrow> u64 \<Rightarrow> int \<Rightarrow> int \<Rightarrow> bytes" where
  "admission_text source identity generation start end' =
     ''observe-log-admission-v1'' @ NUL @ source @ NUL @ identity @ NUL @ dec (unat generation) @ NUL @ dec_int start @ NUL @ dec_int end'"

definition admissionID :: "bytes \<Rightarrow> bytes \<Rightarrow> u64 \<Rightarrow> int \<Rightarrow> int \<Rightarrow> bytes" where
  "admissionID source identity generation start end' = Sum256_hex (admission_text source identity generation start end')"

text \<open>The checkpoint of the file is saved with the new offset; where that fails the old one is put back in memory.\<close>

definition commit :: "openState \<Rightarrow> int \<Rightarrow> bytes \<Rightarrow> 'w tailer \<Rightarrow> bool \<times> openState \<times> 'w tailer" where
  "commit st offset admission t =
     (let m = files_of t; (now, t1) = tick t;
          cp = \<lparr>Offset = offset, Generation = os_generation st, Fingerprint = os_fingerprint st,
                RelativePath = os_relative st, UpdatedAt = now, AdmissionID = admission\<rparr>
      in case save (set_files (AList.update (os_identity st) cp m) t1) of
           (Inl e, t2) \<Rightarrow> (False, st, count_checkpoint_error
              (set_files (case map_of m (os_identity st) of
                 Some old \<Rightarrow> AList.update (os_identity st) old (files_of t2)
               | None \<Rightarrow> AList.delete (os_identity st) (files_of t2)) t2))
         | (Inr _, t2) \<Rightarrow>
             (True, st\<lparr>os_committed := offset, os_readOffset := max (os_readOffset st) offset\<rparr>, t2))"

text \<open>\<open>Start\<close> makes sure that there is an admission function; calling a nil function would be a panic.\<close>

definition emit :: "openState \<Rightarrow> int \<Rightarrow> int \<Rightarrow> bytes \<Rightarrow> int \<Rightarrow> 'w tailer \<Rightarrow> bool \<times> openState \<times> 'w tailer" where
  "emit st start end' body' now t =
     (let i = admissionID (src_ID (tl_source t)) (os_identity st) (os_generation st) start end' in
      case tl_admit t of None \<Rightarrow> (False, st, t) | Some adm \<Rightarrow>
      (case adm \<lparr>tr_AdmissionID = i, tr_Body = body', tr_RelativePath = os_relative st, tr_FileIdentity = os_identity st,
                 tr_StartOffset = start, tr_EndOffset = end', tr_ObservedAt = now\<rparr> (tl_world t) of
         (Some e, w) \<Rightarrow> (False, st, t\<lparr>tl_world := w\<rparr>)
       | (None, w) \<Rightarrow>
           (case commit st end' i (t\<lparr>tl_world := w\<rparr>) of
              (False, st1, t1) \<Rightarrow> (False, st1, t1)
            | (True, st1, t1) \<Rightarrow>
                (case tl_activate t1 of None \<Rightarrow> (True, st1, t1) | Some act \<Rightarrow>
                 (case act i (tl_world t1) of
                    (Some e, w1) \<Rightarrow> (False, st1, t1\<lparr>tl_world := w1\<rparr>)
                  | (None, w1) \<Rightarrow> (True, st1, t1\<lparr>tl_world := w1\<rparr>))))))"

definition flush :: "openState \<Rightarrow> int \<Rightarrow> 'w tailer \<Rightarrow> bool \<times> openState \<times> 'w tailer" where
  "flush st now t =
     (if pd_lines (os_pending st) = 0 then (True, st, t)
      else let p = os_pending st in
        case emit st (pd_start p) (pd_end p) (pd_body p) now t of
          (False, st1, t1) \<Rightarrow> (False, st1, t1)
        | (True, st1, t1) \<Rightarrow> (True, st1\<lparr>os_pending := no_pending\<rparr>, count_flush t1))"

text \<open>The map is visited in an unspecified order: \<open>ids\<close> lists its keys.\<close>

fun recoverAdmissions :: "bytes list \<Rightarrow> 'w tailer \<Rightarrow> 'w tailer" where
  "recoverAdmissions [] t = t"
| "recoverAdmissions (i # ids) t =
     recoverAdmissions ids
       (case tl_activate t of None \<Rightarrow> t | Some act \<Rightarrow>
        (case map_of (files_of t) i of None \<Rightarrow> t | Some cp \<Rightarrow>
         if AdmissionID cp = [] then t else t\<lparr>tl_world := snd (act (AdmissionID cp) (tl_world t))\<rparr>))"

section \<open>Consuming a file\<close>

definition fingerprint :: "bytes result \<Rightarrow> bytes result" where
  "fingerprint data = (case data of Inl e \<Rightarrow> Inl e | Inr b \<Rightarrow> Inr (Sum256_hex (take 256 b)))"

text \<open>What a poll sees of an open file: the size \<^verbatim>\<open>Stat\<close> reports and what \<^verbatim>\<open>ReadAt\<close> reads.\<close>

record file_view =
  fv_size :: "int result"
  fv_data :: "bytes result"

text \<open>How an iteration of the loop ends: with the next one, by \<^verbatim>\<open>break\<close>, or by returning from \<open>consume\<close>.\<close>

datatype flow = Again | Break | Return

definition valid_line :: "bytes \<Rightarrow> bytes" where
  "valid_line b = (if utf8_Valid b then b else ToValidUTF8 b RuneError)"

text \<open>A rejected line: it is counted and committed past.\<close>

definition reject_line :: "int \<Rightarrow> openState \<Rightarrow> 'w tailer \<Rightarrow> flow \<times> openState \<times> 'w tailer" where
  "reject_line end' st t =
     (case commit st end' [] (count_rejected t) of
        (False, st1, t1) \<Rightarrow> (Return, st1, t1)
      | (True, st1, t1) \<Rightarrow> (Again, st1, t1))"

definition single_line :: "int \<Rightarrow> int \<Rightarrow> bytes \<Rightarrow> int \<Rightarrow> openState \<Rightarrow> 'w tailer \<Rightarrow> flow \<times> openState \<times> 'w tailer" where
  "single_line start end' line now st t =
     (if line = [] then reject_line end' st t
      else case emit st start end' line now t of
        (False, st1, t1) \<Rightarrow> (Return, st1\<lparr>os_readOffset := os_committed st1\<rparr>, t1)
      | (True, st1, t1) \<Rightarrow> (Again, st1, t1))"

text \<open>The line joins the pending record, after that has been flushed where the line starts a new one or does not fit.\<close>

definition join_line :: "int \<Rightarrow> int \<Rightarrow> bytes \<Rightarrow> int \<Rightarrow> openState \<Rightarrow> 'w tailer \<Rightarrow> flow \<times> openState \<times> 'w tailer" where
  "join_line start end' line now st t =
     (let fresh = no_pending\<lparr>pd_start := start, pd_since := now\<rparr>;
          st1 = (if pd_lines (os_pending st) = 0 then st\<lparr>os_pending := fresh\<rparr> else st);
          additional = length line + (if 0 < pd_lines (os_pending st1) then 1 else 0);
          m = Multiline (tl_source t);
          full = (MaxLines m \<le> int (pd_lines (os_pending st1)) \<or> ml_MaxBytes m < int (length (pd_body (os_pending st1)) + additional))
      in case (if full then flush st1 now t else (True, st1, t)) of
           (False, st2, t2) \<Rightarrow> (Return, st2\<lparr>os_readOffset := start\<rparr>, t2)
         | (True, st2, t2) \<Rightarrow>
             let p = (if full then fresh else os_pending st2) in
             (Again, st2\<lparr>os_pending := p\<lparr>pd_body := pd_body p @ (if 0 < pd_lines p then [NL] else []) @ line,
                                          pd_lines := pd_lines p + 1, pd_end := end'\<rparr>\<rparr>, t2))"

definition multi_line :: "int \<Rightarrow> int \<Rightarrow> bytes \<Rightarrow> int \<Rightarrow> openState \<Rightarrow> 'w tailer \<Rightarrow> flow \<times> openState \<times> 'w tailer" where
  "multi_line start end' line now st t =
     (if tl_start t line \<and> 0 < pd_lines (os_pending st)
      then (case flush st now t of
              (False, st1, t1) \<Rightarrow> (Return, st1\<lparr>os_readOffset := start\<rparr>, t1)
            | (True, st1, t1) \<Rightarrow> join_line start end' line now st1 t1)
      else join_line start end' line now st t)"

definition consume_line :: "bytes result \<Rightarrow> int \<Rightarrow> openState \<Rightarrow> 'w tailer \<Rightarrow> flow \<times> openState \<times> 'w tailer" where
  "consume_line data now st t =
     (if os_readOffset st < 0 then (Break, st, t) else
      case data of Inl e \<Rightarrow> (Break, st, t) | Inr f \<Rightarrow>
      (let r = readLine f (nat (os_readOffset st)) (nat (MaxLineBytes (tl_source t))) in
       if \<not> rl_complete r then (Break, st, t)
       else
         let start = os_readOffset st; end' = int (rl_end r);
             st1 = st\<lparr>os_readOffset := end'\<rparr>; t1 = count_read t;
             line = valid_line (bytesWithoutLineEnding (rl_out r))
         in if rl_tooLarge r then reject_line end' st1 t1
            else if \<not> ml_Enabled (Multiline (tl_source t)) then single_line start end' line now st1 t1
            else multi_line start end' line now st1 t1))"

lemma commit_readOffset: "commit st offset i t = (ok, st', t') \<Longrightarrow> os_readOffset st \<le> os_readOffset st'"
  by (auto simp: commit_def Let_def split: prod.splits sum.splits)

lemma emit_readOffset: "emit st a b x now t = (ok, st', t') \<Longrightarrow> os_readOffset st \<le> os_readOffset st'"
  by (auto simp: emit_def Let_def split: prod.splits option.splits bool.splits dest: commit_readOffset)

lemma flush_readOffset: "flush st now t = (ok, st', t') \<Longrightarrow> os_readOffset st \<le> os_readOffset st'"
  by (auto simp: flush_def Let_def split: prod.splits bool.splits if_splits dest: emit_readOffset)

lemma join_line_readOffset: "join_line a b l now st t = (Again, st', t') \<Longrightarrow> os_readOffset st \<le> os_readOffset st'"
  by (auto simp: join_line_def Let_def split: prod.splits bool.splits if_splits dest: flush_readOffset)

lemma consume_line_progress:
  assumes "consume_line data now st t = (Again, st', t')" shows "os_readOffset st < os_readOffset st'"
proof -
  obtain f where f: "data = Inr f" "0 \<le> os_readOffset st" using assms by (auto simp: consume_line_def split: if_splits sum.splits)
  define o' where "o' = nat (os_readOffset st)"
  define r where "r = readLine f o' (nat (MaxLineBytes (tl_source t)))"
  have c: "rl_complete r" using assms f by (auto simp: consume_line_def Let_def r_def o'_def split: if_splits)
  then have "o' < rl_end r" by (auto simp: r_def readLine_eq whole_line_def line_at_def)
  moreover have "int (rl_end r) \<le> os_readOffset st'"
    using assms f c
    by (auto simp: consume_line_def Let_def reject_line_def single_line_def multi_line_def split: if_splits prod.splits bool.splits
        dest!: commit_readOffset emit_readOffset flush_readOffset join_line_readOffset simp flip: r_def o'_def)
  ultimately show ?thesis using f(2) by (simp add: o'_def)
qed

text \<open>The loop; the flag is false where \<open>consume\<close> has returned.\<close>

function consume_loop :: "bytes result \<Rightarrow> int \<Rightarrow> int \<Rightarrow> openState \<Rightarrow> 'w tailer \<Rightarrow> bool \<times> openState \<times> 'w tailer" where
  "consume_loop data size' now st t =
     (if \<not> os_readOffset st < size' then (True, st, t)
      else case consume_line data now st t of
        (Again, st1, t1) \<Rightarrow> consume_loop data size' now st1 t1
      | (Break, st1, t1) \<Rightarrow> (True, st1, t1)
      | (Return, st1, t1) \<Rightarrow> (False, st1, t1))"
  by pat_completeness auto
termination
  by (relation "measure (\<lambda>(data, size', now, st, t). nat (size' - os_readOffset st))") (auto dest!: consume_line_progress[OF sym])

declare consume_loop.simps [simp del]

text \<open>A file that shrank is read from the start as a new generation.\<close>

definition restart_file :: "bytes result \<Rightarrow> openState \<Rightarrow> 'w tailer \<Rightarrow> bool \<times> openState \<times> 'w tailer" where
  "restart_file data st t =
     (let st1 = st\<lparr>os_generation := os_generation st + 1, os_committed := 0, os_readOffset := 0, os_pending := no_pending\<rparr>;
          st2 = (case fingerprint data of Inl e \<Rightarrow> st1 | Inr fp \<Rightarrow> st1\<lparr>os_fingerprint := fp\<rparr>)
      in commit st2 0 [] t)"

definition consume :: "file_view \<Rightarrow> int \<Rightarrow> openState \<Rightarrow> 'w tailer \<Rightarrow> openState \<times> 'w tailer" where
  "consume v now st t =
     (case fv_size v of Inl e \<Rightarrow> (st, t) | Inr size' \<Rightarrow>
      (case (if size' < os_committed st then restart_file (fv_data v) st t else (True, st, t)) of
         (False, st1, t1) \<Rightarrow> (st1, t1)
       | (True, st1, t1) \<Rightarrow>
           (case consume_loop (fv_data v) size' now st1 t1 of
              (False, st2, t2) \<Rightarrow> (st2, t2)
            | (True, st2, t2) \<Rightarrow>
                if 0 < pd_lines (os_pending st2)
                   \<and> FlushTimeoutMillis (Multiline (tl_source t2)) * 1000000 \<le> now - pd_since (os_pending st2)
                then snd (flush st2 now t2) else (st2, t2))))"

section \<open>Opening files\<close>

text \<open>How \<^verbatim>\<open>openat2\<close> answers; \<open>Unsupported\<close> stands for \<^verbatim>\<open>ENOSYS\<close> and \<^verbatim>\<open>EINVAL\<close>.\<close>

datatype openat2 = Opened | Unsupported | Refused error

text \<open>
  The answers of the operating system to one poll. \<open>pe_order\<close> is the order in which a map with the given keys is
  visited; \<open>pe_fstat\<close> gives device, inode, kind and size of the file that a name opens, and \<open>pe_view\<close> what reading
  an open file gives.
\<close>

record poll_env =
  pe_canceled :: bool
  pe_order :: "bytes list \<Rightarrow> bytes list"
  pe_dir :: "error option"
  pe_names :: "bytes list result"
  pe_openat2 :: "bytes \<Rightarrow> openat2"
  pe_openat :: "bytes \<Rightarrow> error option"
  pe_fstat :: "bytes \<Rightarrow> (nat \<times> nat \<times> kind \<times> int) result"
  pe_view :: "bytes \<Rightarrow> file_view"

fun hexn :: "nat \<Rightarrow> bytes" where
  "hexn n = (if n < 16 then [hex_digit n] else hexn (n div 16) @ [hex_digit (n mod 16)])"

declare hexn.simps [simp del]

text \<open>The identity \<^verbatim>\<open>%x:%x\<close> of a file.\<close>

definition file_identity :: "nat \<Rightarrow> nat \<Rightarrow> bytes" where
  "file_identity dev ino = hexn dev @ '':'' @ hexn ino"

definition openBeneath :: "poll_env \<Rightarrow> bytes \<Rightarrow> (bytes \<times> int) result" where
  "openBeneath env name =
     (if ContainsAny name [CHR ''/'', BSLASH, CHR 0x00] \<or> name = ''.'' \<or> name = ''..'' then Inl (Failure ''unsafe log path'')
      else case (case pe_openat2 env name of Opened \<Rightarrow> None | Refused e \<Rightarrow> Some e | Unsupported \<Rightarrow> pe_openat env name) of
        Some e \<Rightarrow> Inl e
      | None \<Rightarrow>
          (case pe_fstat env name of Inl e \<Rightarrow> Inl e
           | Inr (dev, ino, k, size') \<Rightarrow>
               if k \<noteq> Regular then Inl (Failure ''log source is not a regular file'')
               else Inr (file_identity dev ino, size')))"

text \<open>\<^verbatim>\<open>Readdirnames(limit)\<close> returns at most that many names where the limit is positive, and all of them otherwise.\<close>

definition readRootNames :: "poll_env \<Rightarrow> int \<Rightarrow> bytes list result" where
  "readRootNames env limit =
     (case pe_dir env of Some e \<Rightarrow> Inl e | None \<Rightarrow>
      (case pe_names env of Inl e \<Rightarrow> Inl e
       | Inr names \<Rightarrow> Inr (if 0 < limit then take (nat limit) names else names)))"

definition matches :: "log_source \<Rightarrow> bytes \<Rightarrow> bool" where
  "matches source name \<longleftrightarrow>
     list_ex (\<lambda>p. glob_match p name = Some True) (Include source) \<and>
     \<not> list_ex (\<lambda>p. glob_match p name = Some True) (Exclude source)"

section \<open>Discovery\<close>

text \<open>
  The offset a newly opened file starts at, its generation, and whether it has a checkpoint already: a checkpoint of a
  file with another fingerprint is of an earlier generation.
\<close>

definition start_position :: "log_source \<Rightarrow> checkpoint option \<Rightarrow> bytes \<Rightarrow> int \<Rightarrow> bool \<times> u64 \<times> int" where
  "start_position source cp fp size' =
     (case cp of
        None \<Rightarrow> (False, 0, if src_StartAt source = ''end'' then size' else 0)
      | Some c \<Rightarrow>
          if Fingerprint c \<noteq> fp
          then (False, Generation c + 1, if src_StartAt source = ''end'' then size' else Offset c)
          else (True, Generation c, Offset c))"

definition open_name :: "poll_env \<Rightarrow> bytes \<Rightarrow> bytes list \<times> 'w tailer \<Rightarrow> bytes list \<times> 'w tailer" where
  "open_name env name = (\<lambda>(seen, t).
     if \<not> matches (tl_source t) name then (seen, t)
     else case openBeneath env name of
       Inl e \<Rightarrow> (seen, count_permission e t)
     | Inr (identity, size') \<Rightarrow>
         let seen' = identity # seen in
         (case map_of (tl_states t) identity of
            Some st \<Rightarrow> (seen', t\<lparr>tl_states := AList.update identity (st\<lparr>os_relative := name, os_lostAt := None\<rparr>) (tl_states t)\<rparr>)
          | None \<Rightarrow>
              if MaxOpenFiles (tl_source t) \<le> int (length (tl_states t)) then (seen', t)
              else (case fingerprint (fv_data (pe_view env identity)) of
                 Inl e \<Rightarrow> (seen', t)
               | Inr fp \<Rightarrow>
                   (case start_position (tl_source t) (map_of (files_of t) identity) fp size' of (known, generation, offset) \<Rightarrow>
                    let (r, t2) = (if known then (Inr (), t)
                       else case tick t of (now, t1) \<Rightarrow>
                         save (set_files (AList.update identity \<lparr>Offset = offset, Generation = generation, Fingerprint = fp,
                            RelativePath = name, UpdatedAt = now, AdmissionID = []\<rparr> (files_of t)) t1))
                    in if \<not> is_ok r then (seen', count_checkpoint_error t2)
                       else (seen', count_discovered (t2\<lparr>tl_states := tl_states t2 @ [(identity,
                          \<lparr>os_identity = identity, os_relative = name, os_fingerprint = fp, os_committed = offset,
                           os_readOffset = offset, os_generation = generation, os_pending = no_pending, os_lostAt = None\<rparr>)]\<rparr>))))))"

text \<open>One minute is 60000000000 ns; a file that has been gone for longer is closed unless a record is pending.\<close>

definition poll_state :: "poll_env \<Rightarrow> bytes list \<Rightarrow> int \<Rightarrow> bytes \<Rightarrow> 'w tailer \<Rightarrow> 'w tailer" where
  "poll_state env seen now identity t =
     (case map_of (tl_states t) identity of None \<Rightarrow> t | Some st \<Rightarrow>
      (let st1 = (if identity \<notin> set seen \<and> os_lostAt st = None then st\<lparr>os_lostAt := Some now\<rparr> else st) in
       case consume (pe_view env identity) now st1 t of (st2, t2) \<Rightarrow>
       if (case os_lostAt st2 of None \<Rightarrow> False | Some l \<Rightarrow> 60000000000 < now - l) \<and> pd_lines (os_pending st2) = 0
       then t2\<lparr>tl_states := AList.delete identity (tl_states t2)\<rparr>
       else t2\<lparr>tl_states := AList.update identity st2 (tl_states t2)\<rparr>))"

definition pollOnce :: "poll_env \<Rightarrow> 'w tailer \<Rightarrow> 'w tailer" where
  "pollOnce env t =
     (if pe_canceled env \<or> \<not> tl_root t then t
      else let t1 = recoverAdmissions (pe_order env (map fst (files_of t))) t in
        case readRootNames env (tl_maxFiles t1 + 1) of
          Inl e \<Rightarrow> count_permission e t1
        | Inr names \<Rightarrow>
            (case fold (open_name env) (sort (take (nat (tl_maxFiles t1)) names)) ([], t1) of (seen, t2) \<Rightarrow>
             case tick t2 of (now, t3) \<Rightarrow>
             fold (poll_state env seen now) (pe_order env (map fst (tl_states t3))) t3))"

section \<open>Starting and stopping\<close>

text \<open>What \<open>openRoot\<close> asks of the operating system: opening the root, \<^verbatim>\<open>openat2\<close>, \<^verbatim>\<open>dup\<close>, and \<^verbatim>\<open>openat\<close> of each component.\<close>

record root_env =
  rc_slash :: "error option"
  rc_openat2 :: "bytes \<Rightarrow> openat2"
  rc_dup :: "error option"
  rc_openat :: "bytes list \<Rightarrow> error option"

fun walk_root :: "root_env \<Rightarrow> bytes list \<Rightarrow> bytes list \<Rightarrow> error option" where
  "walk_root env done' [] = None"
| "walk_root env done' (part # parts) =
     (if part = [] \<or> part = ''.'' \<or> part = ''..'' then Some (Failure ''unsafe log root'')
      else case rc_openat env (done' @ [part]) of Some e \<Rightarrow> Some e | None \<Rightarrow> walk_root env (done' @ [part]) parts)"

definition openRoot :: "root_env \<Rightarrow> bytes \<Rightarrow> error option" where
  "openRoot env root =
     (case rc_slash env of Some e \<Rightarrow> Some e | None \<Rightarrow>
      (let relative = TrimPrefix (Clean root) ''/'' in
       case rc_openat2 env relative of
         Opened \<Rightarrow> None
       | Refused e \<Rightarrow> Some e
       | Unsupported \<Rightarrow> (case rc_dup env of Some e \<Rightarrow> Some e | None \<Rightarrow> walk_root env [] (split_slash relative))))"

definition redactOpen :: "error \<Rightarrow> error" where
  "redactOpen e = (if e = Permission then Permission else Failure ''configured log root is unavailable or unsafe'')"

text \<open>
  The private directory of the checkpoints: \<^verbatim>\<open>Lstat\<close> of the path and its parents (an error, or whether it is a symbolic
  link), \<^verbatim>\<open>MkdirAll\<close>, and \<^verbatim>\<open>Lstat\<close> of the directory (is it a directory, permissions, owner). Mode 0700 is 448.
\<close>

record dir_env =
  de_components :: "bool result list"
  de_mkdir :: "error option"
  de_stat :: "(bool \<times> nat \<times> nat) result"
  de_euid :: nat

fun check_components :: "string \<Rightarrow> bool result list \<Rightarrow> error option" where
  "check_components msg [] = None"
| "check_components msg (Inr True # cs) = Some (Failure msg)"
| "check_components msg (Inr False # cs) = check_components msg cs"
| "check_components msg (Inl e # cs) = (if e = NotExist then check_components msg cs else Some e)"

definition private_dir :: "string \<Rightarrow> string \<Rightarrow> string \<Rightarrow> dir_env \<Rightarrow> bytes \<Rightarrow> error option" where
  "private_dir relative linked exposed env dir =
     (if \<not> IsAbs dir then Some (Failure relative)
      else case check_components linked (de_components env) of Some e \<Rightarrow> Some e | None \<Rightarrow>
      (case de_mkdir env of Some e \<Rightarrow> Some e | None \<Rightarrow>
      (case de_stat env of Inl e \<Rightarrow> Some e
       | Inr (dirp, mode, uid) \<Rightarrow> if \<not> dirp \<or> mode \<noteq> 448 \<or> uid \<noteq> de_euid env then Some (Failure exposed) else None)))"

definition ensurePrivateDir :: "dir_env \<Rightarrow> bytes \<Rightarrow> error option" where
  "ensurePrivateDir = private_dir ''checkpoint directory must be absolute'' ''checkpoint path contains symlink''
     ''checkpoint directory must be owned by current user with mode 0700''"

definition NewTailer :: "log_source \<Rightarrow> int \<Rightarrow> (tail_record \<Rightarrow> 'w \<Rightarrow> error option \<times> 'w) option \<Rightarrow> (bytes \<Rightarrow> 'w \<Rightarrow> error option \<times> 'w) option
    \<Rightarrow> ('w \<Rightarrow> int \<times> 'w) \<Rightarrow> fs \<Rightarrow> 'w \<Rightarrow> 'w tailer" where
  "NewTailer source maxFiles adm act clock s w =
     \<lparr>tl_source = source, tl_maxFiles = maxFiles, tl_admit = adm, tl_activate = act, tl_clock = clock, tl_root = False,
      tl_states = [], tl_checkpoints = \<lparr>cs_Version = 0, SourceID = [], Files = None\<rparr>, tl_start = (\<lambda>_. False),
      tl_running = False, tl_stats = no_counters, tl_fs = s, tl_world = w\<rparr>"

text \<open>
  \<open>compile\<close> is \<^verbatim>\<open>regexp.Compile\<close>: the matcher of a pattern, if it is valid. Starting the goroutine that polls has no
  counterpart but \<open>tl_running\<close>; its polls are calls of \<open>pollOnce\<close>.
\<close>

definition Start :: "(bytes \<Rightarrow> (bytes \<Rightarrow> bool) option) \<Rightarrow> root_env \<Rightarrow> dir_env \<Rightarrow> bytes \<Rightarrow> (bytes list \<Rightarrow> bytes list) \<Rightarrow> 'w tailer
    \<Rightarrow> error option \<times> 'w tailer" where
  "Start compile rc de dir order' t =
     (let source = tl_source t in
      if tl_running t then (Some (Failure ''log source already started''), t)
      else if tl_admit t = None then (Some (Failure ''log durable admission unavailable''), t)
      else case (if ml_Enabled (Multiline source) then compile (StartPattern (Multiline source)) else Some (tl_start t)) of
        None \<Rightarrow> (Some (Failure ''log multiline pattern invalid''), t)
      | Some start \<Rightarrow>
          let t1 = t\<lparr>tl_start := start\<rparr> in
          (case openRoot rc (src_Root source) of Some e \<Rightarrow> (Some (redactOpen e), t1) | None \<Rightarrow>
          (case ensurePrivateDir de dir of Some e \<Rightarrow> (Some e, t1) | None \<Rightarrow>
          (case loadCheckpoint (src_ID source) (tl_maxFiles t1) (tl_fs t1) of
             (Inl e, s) \<Rightarrow> (Some e, t1\<lparr>tl_fs := s, tl_checkpoints := fresh_checkpoints (src_ID source), tl_root := False\<rparr>)
           | (Inr cs, s) \<Rightarrow>
               let t2 = t1\<lparr>tl_fs := s, tl_checkpoints := cs, tl_root := True\<rparr>;
                   t3 = recoverAdmissions (order' (map fst (files_of t2))) t2
               in (None, t3\<lparr>tl_running := True\<rparr>)))))"

text \<open>\<open>finished\<close>: the polling goroutine ended before the deadline.\<close>

definition StopTailer :: "bool \<Rightarrow> 'w tailer \<Rightarrow> error option \<times> 'w tailer" where
  "StopTailer finished t =
     (if \<not> tl_running t then (None, t)
      else if \<not> finished then (Some (Failure ''log source did not stop before deadline''), t\<lparr>tl_running := False\<rparr>)
      else (None, t\<lparr>tl_running := False, tl_states := [], tl_root := False\<rparr>))"

end
