(* ===== verification/TailerFacts.thy ===== *)
theory TailerFacts
  imports Tailer
begin

text \<open>
  What a tailer guarantees (\<^verbatim>\<open>src/internal/logtail/tailer_linux.go\<close>): in single-line mode the committed offset never passes
  a line that was not admitted.
\<close>

section \<open>The lines of a file\<close>

lemma line_at_pos: "whole_line f a \<Longrightarrow> 0 < length (line_at f a)"
  by (auto simp: whole_line_def line_at_def Let_def)

lemma line_shrinks: "a < b \<and> whole_line f a \<Longrightarrow> b - (a + length (line_at f a)) < b - a"
  using line_at_pos[of f a] by linarith

text \<open>The offsets at which the complete lines from \<open>a\<close> to \<open>b\<close> start, and whether \<open>b\<close> is the end of one of them, or \<open>a\<close>.\<close>

function line_starts :: "bytes \<Rightarrow> nat \<Rightarrow> nat \<Rightarrow> nat list" where
  "line_starts f a b = (if a < b \<and> whole_line f a then a # line_starts f (a + length (line_at f a)) b else [])"
  by pat_completeness auto
termination
  by (relation "measure (\<lambda>(f, a, b). b - a)") (simp_all add: line_shrinks)

function reaches :: "bytes \<Rightarrow> nat \<Rightarrow> nat \<Rightarrow> bool" where
  "reaches f a b = (if a < b \<and> whole_line f a then reaches f (a + length (line_at f a)) b else a = b)"
  by pat_completeness auto
termination
  by (relation "measure (\<lambda>(f, a, b). b - a)") (simp_all add: line_shrinks)

declare line_starts.simps [simp del] reaches.simps [simp del]

lemma reaches_refl [simp]: "reaches f a a" "line_starts f a a = []"
  by (simp_all add: reaches.simps line_starts.simps)

lemma reaches_le: "reaches f a b \<Longrightarrow> a \<le> b"
  by (subst (asm) reaches.simps) (auto split: if_splits)

lemma reaches_line: "whole_line f a \<Longrightarrow> reaches f a (a + length (line_at f a)) \<and> line_starts f a (a + length (line_at f a)) = [a]"
  using line_at_pos[of f a] by (subst reaches.simps, subst line_starts.simps) simp

lemma reaches_trans: "reaches f a b \<Longrightarrow> reaches f b c \<Longrightarrow> reaches f a c"
proof (induction f a b rule: reaches.induct)
  case (1 f a b)
  show ?case
  proof (cases "a < b \<and> whole_line f a")
    case True
    then have "reaches f (a + length (line_at f a)) c" using 1 by (subst (asm) reaches.simps[of f a b]) simp
    then show ?thesis using True reaches_le[OF "1.prems"(2)] by (subst reaches.simps) simp
  qed (use 1 in \<open>subst (asm) reaches.simps[of f a b], auto split: if_splits\<close>)
qed

lemma line_starts_append: "reaches f a b \<Longrightarrow> b \<le> c \<Longrightarrow> line_starts f a c = line_starts f a b @ line_starts f b c"
proof (induction f a b rule: reaches.induct)
  case (1 f a b)
  show ?case
  proof (cases "a < b \<and> whole_line f a")
    case True
    then have r: "reaches f (a + length (line_at f a)) b" using 1(2) by (subst (asm) reaches.simps[of f a b]) simp
    show ?thesis using True 1(1)[OF True r 1(3)] 1(3)
      by (simp add: line_starts.simps[of f a b] line_starts.simps[of f a c])
  qed (use 1 in \<open>subst (asm) reaches.simps[of f a b], auto split: if_splits\<close>)
qed

text \<open>The lines that become records: those that fit and are not empty.\<close>

definition kept :: "log_source \<Rightarrow> bytes \<Rightarrow> nat \<Rightarrow> bool" where
  "kept source f a \<longleftrightarrow> length (line_at f a) \<le> nat (MaxLineBytes source) \<and> bytesWithoutLineEnding (line_at f a) \<noteq> []"

definition line_record :: "log_source \<Rightarrow> openState \<Rightarrow> int \<Rightarrow> bytes \<Rightarrow> nat \<Rightarrow> tail_record" where
  "line_record source st now f a =
     (let e = a + length (line_at f a) in
      \<lparr>tr_AdmissionID = admissionID (src_ID source) (os_identity st) (os_generation st) (int a) (int e),
       tr_Body = valid_line (bytesWithoutLineEnding (line_at f a)), tr_RelativePath = os_relative st,
       tr_FileIdentity = os_identity st, tr_StartOffset = int a, tr_EndOffset = int e, tr_ObservedAt = now\<rparr>)"

definition line_records :: "log_source \<Rightarrow> openState \<Rightarrow> int \<Rightarrow> bytes \<Rightarrow> nat \<Rightarrow> nat \<Rightarrow> tail_record list" where
  "line_records source st now f a b = map (line_record source st now f) (filter (kept source f) (line_starts f a b))"

lemma line_records_simps [simp]: "line_records source st now f a a = []"
  by (simp add: line_records_def)

lemma line_records_append:
  "reaches f a b \<Longrightarrow> b \<le> c \<Longrightarrow> line_records source st now f a c = line_records source st now f a b @ line_records source st now f b c"
  using line_starts_append[of f a b c] by (simp add: line_records_def)

lemma line_records_line:
  "whole_line f a \<Longrightarrow> line_records source st now f a (a + length (line_at f a)) = (if kept source f a then [line_record source st now f a] else [])"
  using reaches_line[of f a] by (simp add: line_records_def)

text \<open>An open file as far as its records depend on it.\<close>

definition same_file :: "openState \<Rightarrow> openState \<Rightarrow> bool" where
  "same_file st st' \<longleftrightarrow> os_identity st' = os_identity st \<and> os_generation st' = os_generation st \<and> os_relative st' = os_relative st"

lemma line_records_same: "same_file st st' \<Longrightarrow> line_records source st' now f a b = line_records source st now f a b"
  by (simp add: line_records_def line_record_def same_file_def)

lemma to_valid_nonempty: "s \<noteq> [] \<Longrightarrow> to_valid RuneError False s \<noteq> []"
  using rune_len_le[of s] by (simp add: to_valid.simps[of _ _ s] RuneError_def)

lemma valid_line_Nil: "valid_line b = [] \<longleftrightarrow> b = []"
  using to_valid_nonempty[of b] by (cases "b = []") (auto simp: valid_line_def ToValidUTF8_def)

section \<open>Tailers that record what they admit\<close>

text \<open>
  The world of a tailer with a history: the records that were admitted, in order. Only a successful admission adds to
  it, and neither activation nor the clock does.
\<close>

type_synonym 'v recorded = "tail_record list \<times> 'v"

definition recording :: "'v recorded tailer \<Rightarrow> bool" where
  "recording t \<longleftrightarrow>
     (\<exists>adm. tl_admit t = Some adm \<and>
        (\<forall>r w. case adm r w of (None, w') \<Rightarrow> fst w' = fst w @ [r] | (Some _, w') \<Rightarrow> fst w' = fst w)) \<and>
     (\<forall>act i w. tl_activate t = Some act \<longrightarrow> fst (snd (act i w)) = fst w) \<and>
     (\<forall>w. fst (snd (tl_clock t w)) = fst w)"

definition sent :: "'v recorded tailer \<Rightarrow> tail_record list" where
  "sent t = fst (tl_world t)"

text \<open>The parts of a tailer that consuming a file leaves alone.\<close>

definition same_setup :: "'w tailer \<Rightarrow> 'w tailer \<Rightarrow> bool" where
  "same_setup t t' \<longleftrightarrow> tl_source t' = tl_source t \<and> tl_admit t' = tl_admit t \<and> tl_activate t' = tl_activate t \<and>
     tl_clock t' = tl_clock t \<and> tl_start t' = tl_start t \<and> tl_states t' = tl_states t \<and> tl_maxFiles t' = tl_maxFiles t"

lemma same_setup_refl [simp]: "same_setup t t"
  by (simp add: same_setup_def)

lemma same_setup_trans: "same_setup a b \<Longrightarrow> same_setup b c \<Longrightarrow> same_setup a c"
  by (simp add: same_setup_def)

lemma recording_same: "same_setup t t' \<Longrightarrow> recording t \<Longrightarrow> recording t'"
  by (simp add: same_setup_def recording_def)

lemma same_file_refl [simp]: "same_file st st"
  by (simp add: same_file_def)

lemma same_file_trans: "same_file a b \<Longrightarrow> same_file b c \<Longrightarrow> same_file a c"
  by (simp add: same_file_def)

lemma recording_tick: "recording t \<Longrightarrow> tick t = (n, t') \<Longrightarrow> sent t' = sent t \<and> same_setup t t' \<and> tl_checkpoints t' = tl_checkpoints t"
proof -
  assume r: "recording t" and k: "tick t = (n, t')"
  have "fst (snd (tl_clock t (tl_world t))) = fst (tl_world t)" using r unfolding recording_def by blast
  then show ?thesis using k by (auto simp: tick_def sent_def same_setup_def split: prod.splits)
qed

lemma save_frame: "save t = (r, t') \<Longrightarrow> tl_world t' = tl_world t \<and> same_setup t t' \<and> tl_checkpoints t' = tl_checkpoints t"
  by (auto simp: save_def same_setup_def split: prod.splits)

lemma set_files_frame [simp]:
  "tl_world (set_files m t) = tl_world t" "same_setup t (set_files m t)" "files_of (set_files m t) = m"
  by (simp_all add: set_files_def same_setup_def files_of_def)

lemma count_frame [simp]:
  "tl_world (count_read t) = tl_world t" "same_setup t (count_read t)" "files_of (count_read t) = files_of t"
  "tl_world (count_rejected t) = tl_world t" "same_setup t (count_rejected t)" "files_of (count_rejected t) = files_of t"
  "tl_world (count_flush t) = tl_world t" "same_setup t (count_flush t)" "files_of (count_flush t) = files_of t"
  "tl_world (count_checkpoint_error t) = tl_world t" "same_setup t (count_checkpoint_error t)" "files_of (count_checkpoint_error t) = files_of t"
  by (simp_all add: count_read_def count_rejected_def count_flush_def count_checkpoint_error_def same_setup_def files_of_def)

lemma same_setup_steps [simp]:
  "same_setup t (set_files m t') \<longleftrightarrow> same_setup t t'" "same_setup t (count_read t') \<longleftrightarrow> same_setup t t'"
  "same_setup t (count_rejected t') \<longleftrightarrow> same_setup t t'" "same_setup t (count_flush t') \<longleftrightarrow> same_setup t t'"
  "same_setup t (count_checkpoint_error t') \<longleftrightarrow> same_setup t t'" "same_setup t (t'\<lparr>tl_world := w\<rparr>) \<longleftrightarrow> same_setup t t'"
  by (simp_all add: set_files_def count_read_def count_rejected_def count_flush_def count_checkpoint_error_def same_setup_def)

lemma same_setup_left [simp]:
  "same_setup (count_read t) t' \<longleftrightarrow> same_setup t t'" "same_setup (count_rejected t) t' \<longleftrightarrow> same_setup t t'"
  "same_setup (t\<lparr>tl_world := w\<rparr>) t' \<longleftrightarrow> same_setup t t'" "tl_source (count_read t) = tl_source t"
  by (simp_all add: count_read_def count_rejected_def same_setup_def)

lemma sent_steps [simp]:
  "sent (set_files m t) = sent t" "sent (count_read t) = sent t" "sent (count_rejected t) = sent t" "sent (count_flush t) = sent t"
  "sent (count_checkpoint_error t) = sent t" "sent (t\<lparr>tl_world := w\<rparr>) = fst w"
  by (simp_all add: sent_def)

lemma recording_steps [simp]:
  "recording (count_rejected t) \<longleftrightarrow> recording t" "recording (count_read t) \<longleftrightarrow> recording t" "recording (t\<lparr>tl_world := w\<rparr>) \<longleftrightarrow> recording t"
  by (simp_all add: recording_def count_read_def count_rejected_def)

lemma commit_effect:
  assumes "recording t" "commit st off i t = (ok, st', t')"
  shows "sent t' = sent t \<and> same_setup t t' \<and> same_file st st' \<and> os_pending st' = os_pending st \<and>
     (if ok then os_committed st' = off \<and> os_readOffset st' = max (os_readOffset st) off \<and>
                 map_option Offset (map_of (files_of t') (os_identity st)) = Some off
      else st' = st \<and> map_of (files_of t') = map_of (files_of t))"
proof -
  obtain n t1 where k: "tick t = (n, t1)" by fastforce
  define m where "m = AList.update (os_identity st) \<lparr>Offset = off, Generation = os_generation st, Fingerprint = os_fingerprint st,
                RelativePath = os_relative st, UpdatedAt = n, AdmissionID = i\<rparr> (files_of t)"
  obtain r t2 where s: "save (set_files m t1) = (r, t2)" by fastforce
  note kk = recording_tick[OF assms(1) k] and ss = save_frame[OF s]
  have base: "sent t2 = sent t" "same_setup t t2" "files_of t2 = m"
    using kk ss same_setup_trans[OF _ same_setup_trans[OF set_files_frame(2)[of t1 m]]]
    by (auto simp: sent_def files_of_def set_files_def)
  show ?thesis
  proof (cases r)
    case (Inl e)
    then have e: "ok = False" "st' = st" "t' = count_checkpoint_error (set_files (case map_of (files_of t) (os_identity st) of
         Some old \<Rightarrow> AList.update (os_identity st) old m | None \<Rightarrow> AList.delete (os_identity st) m) t2)"
      using assms(2) k s base by (auto simp: commit_def Let_def simp flip: m_def)
    have "map_of (files_of t') = map_of (files_of t)"
      by (auto simp: e m_def fun_eq_iff update_conv' delete_conv' split: option.splits)
    then show ?thesis using e base by simp
  next
    case (Inr u)
    then have e: "ok = True" "st' = st\<lparr>os_committed := off, os_readOffset := max (os_readOffset st) off\<rparr>" "t' = t2"
      using assms(2) k s by (auto simp: commit_def Let_def simp flip: m_def)
    have "map_option Offset (map_of m (os_identity st)) = Some off" by (simp add: m_def update_conv')
    then show ?thesis using e base by (simp add: same_file_def)
  qed
qed

lemma emit_effect:
  assumes "recording t" "emit st a b x now t = (ok, st', t')"
  defines "r \<equiv> \<lparr>tr_AdmissionID = admissionID (src_ID (tl_source t)) (os_identity st) (os_generation st) a b, tr_Body = x,
     tr_RelativePath = os_relative st, tr_FileIdentity = os_identity st, tr_StartOffset = a, tr_EndOffset = b, tr_ObservedAt = now\<rparr>"
  shows "same_setup t t' \<and> same_file st st' \<and> os_pending st' = os_pending st \<and>
     ((st' = st \<and> \<not> ok \<and> (sent t' = sent t \<or> sent t' = sent t @ [r])) \<or>
      (sent t' = sent t @ [r] \<and> os_committed st' = b \<and> os_readOffset st' = max (os_readOffset st) b))"
proof -
  obtain adm where adm: "tl_admit t = Some adm" and
    a: "\<And>r w. case adm r w of (None, w') \<Rightarrow> fst w' = fst w @ [r] | (Some _, w') \<Rightarrow> fst w' = fst w"
    using assms(1) unfolding recording_def by blast
  obtain o' w where aw: "adm r (tl_world t) = (o', w)" by (cases "adm r (tl_world t)")
  show ?thesis
  proof (cases o')
    case (Some e)
    then have "ok = False \<and> st' = st \<and> t' = t\<lparr>tl_world := w\<rparr>" using assms(2) adm aw by (simp add: emit_def Let_def r_def)
    then show ?thesis using a[where r = r and w = "tl_world t"] aw Some by (simp add: sent_def)
  next
    case None
    have w: "fst w = sent t @ [r]" using a[where r = r and w = "tl_world t"] aw None by (simp add: sent_def)
    define i where "i = admissionID (src_ID (tl_source t)) (os_identity st) (os_generation st) a b"
    obtain c st1 t1 where cm: "commit st b i (t\<lparr>tl_world := w\<rparr>) = (c, st1, t1)" by (metis prod_cases3)
    note ce = commit_effect[OF _ cm]
    have ce: "sent t1 = sent t @ [r] \<and> same_setup t t1 \<and> same_file st st1 \<and> os_pending st1 = os_pending st \<and>
      (if c then os_committed st1 = b \<and> os_readOffset st1 = max (os_readOffset st) b else st1 = st)"
      using ce assms(1) w by (auto simp: same_setup_def split: if_splits)
    have rest: "(ok, st', t') = (if \<not> c then (False, st1, t1) else (case tl_activate t1 of None \<Rightarrow> (True, st1, t1) | Some act \<Rightarrow>
                 (case act i (tl_world t1) of
                    (Some e, w1) \<Rightarrow> (False, st1, t1\<lparr>tl_world := w1\<rparr>)
                  | (None, w1) \<Rightarrow> (True, st1, t1\<lparr>tl_world := w1\<rparr>))))"
      using assms(2) adm aw None cm unfolding i_def by (cases c) (auto simp: emit_def Let_def r_def)
    have act: "fst (snd (act i (tl_world t1))) = fst (tl_world t1)" if "tl_activate t1 = Some act" for act
    proof -
      have "tl_activate t = Some act" using that ce by (simp add: same_setup_def)
      then show ?thesis using assms(1) unfolding recording_def by blast
    qed
    show ?thesis
    proof (cases c)
      case False
      then show ?thesis using rest ce by simp
    next
      case True
      have "st' = st1 \<and> (\<exists>w1. t' = t1\<lparr>tl_world := w1\<rparr> \<and> fst w1 = fst (tl_world t1))"
      proof (cases "tl_activate t1")
        case N: None
        then show ?thesis using rest True by (intro conjI exI[of _ "tl_world t1"]) auto
      next
        case (Some act)
        obtain y w1 where y: "act i (tl_world t1) = (y, w1)" by (cases "act i (tl_world t1)")
        have "fst w1 = fst (tl_world t1)" using act[OF Some] y by simp
        moreover have "st' = st1 \<and> t' = t1\<lparr>tl_world := w1\<rparr>" using rest True Some y by (cases y) simp_all
        ultimately show ?thesis by blast
      qed
      then show ?thesis using ce True by (auto simp: sent_def)
    qed
  qed
qed

section \<open>No line is passed without admission\<close>

text \<open>The lines between the committed offset and the offset read so far are none that become records.\<close>

definition in_step :: "log_source \<Rightarrow> bytes \<Rightarrow> openState \<Rightarrow> bool" where
  "in_step source f st \<longleftrightarrow> pd_lines (os_pending st) = 0 \<and> 0 \<le> os_committed st \<and> 0 \<le> os_readOffset st \<and>
     reaches f (nat (os_committed st)) (nat (os_readOffset st)) \<and>
     filter (kept source f) (line_starts f (nat (os_committed st)) (nat (os_readOffset st))) = []"

lemma in_step_start: "pd_lines (os_pending st) = 0 \<Longrightarrow> 0 \<le> os_committed st \<Longrightarrow> os_readOffset st = os_committed st \<Longrightarrow> in_step source f st"
  by (simp add: in_step_def)

text \<open>
  From \<open>(st, t)\<close> to \<open>(st', t')\<close> exactly the records of the lines from the committed offset up to \<open>e\<close> were admitted, in order;
  \<open>e\<close> is the new committed offset, or the end of one record after it, whose admission was not committed.
\<close>

definition admits_lines :: "int \<Rightarrow> bytes \<Rightarrow> openState \<Rightarrow> 'v recorded tailer \<Rightarrow> openState \<Rightarrow> 'v recorded tailer \<Rightarrow> nat \<Rightarrow> bool" where
  "admits_lines now f st t st' t' e \<longleftrightarrow>
     same_setup t t' \<and> same_file st st' \<and> in_step (tl_source t) f st' \<and>
     reaches f (nat (os_committed st)) (nat (os_committed st')) \<and> reaches f (nat (os_committed st')) e \<and>
     sent t' = sent t @ line_records (tl_source t) st now f (nat (os_committed st)) e \<and>
     length (line_records (tl_source t) st now f (nat (os_committed st')) e) \<le> 1"

lemma admits_lines_refl: "in_step (tl_source t) f st \<Longrightarrow> admits_lines now f st t st t (nat (os_committed st))"
  by (simp add: admits_lines_def)

lemma admits_lines_trans:
  assumes "admits_lines now f st t st1 t1 (nat (os_committed st1))" "admits_lines now f st1 t1 st2 t2 e"
  shows "admits_lines now f st t st2 t2 e"
proof -
  have so: "tl_source t1 = tl_source t" using assms(1) by (simp add: admits_lines_def same_setup_def)
  have r: "reaches f (nat (os_committed st)) (nat (os_committed st1))" "reaches f (nat (os_committed st1)) (nat (os_committed st2))"
    "reaches f (nat (os_committed st2)) e" using assms by (simp_all add: admits_lines_def)
  have "line_records (tl_source t) st now f (nat (os_committed st)) e =
      line_records (tl_source t) st now f (nat (os_committed st)) (nat (os_committed st1)) @
      line_records (tl_source t) st now f (nat (os_committed st1)) e"
    using line_records_append[OF r(1)] r(2,3) reaches_le by (meson le_trans)
  moreover have "line_records (tl_source t) st1 now f = line_records (tl_source t) st now f"
    using assms(1) by (auto simp: admits_lines_def fun_eq_iff line_records_same)
  ultimately show ?thesis using assms so reaches_trans[OF r(1,2)]
    by (auto simp: admits_lines_def dest: same_setup_trans same_file_trans)
qed

lemma consume_line_admits:
  assumes rec: "recording t" and single: "\<not> ml_Enabled (Multiline (tl_source t))" and st: "in_step (tl_source t) f st"
    and c: "consume_line (Inr f) now st t = (fl, st', t')"
  shows "\<exists>e. admits_lines now f st t st' t' e \<and> (fl \<noteq> Return \<longrightarrow> e = nat (os_committed st'))"
proof -
  define a where "a = nat (os_readOffset st)"
  define b where "b = a + length (line_at f a)"
  define cc where "cc = nat (os_committed st)"
  let ?src = "tl_source t"
  have ia: "int a = os_readOffset st" "0 \<le> os_committed st" "int cc = os_committed st" using st by (simp_all add: in_step_def a_def cc_def)
  have ca: "reaches f cc a" "filter (kept ?src f) (line_starts f cc a) = []" using st by (simp_all add: in_step_def a_def cc_def)
  define r where "r = readLine f a (nat (MaxLineBytes ?src))"
  have r: "rl_out r = take (nat (MaxLineBytes ?src)) (line_at f a)" "rl_end r = b" "rl_complete r = whole_line f a"
    "rl_tooLarge r = (nat (MaxLineBytes ?src) < length (line_at f a))" by (simp_all add: r_def readLine_eq b_def)
  show ?thesis
  proof (cases "whole_line f a")
    case False
    then have "st' = st \<and> t' = t" using c ia r by (simp add: consume_line_def Let_def flip: a_def r_def)
    then show ?thesis using admits_lines_refl[OF st] by auto
  next
    case w: True
    define st0 where "st0 = st\<lparr>os_readOffset := int b\<rparr>"
    define line where "line = valid_line (bytesWithoutLineEnding (rl_out r))"
    have ab: "reaches f a b" "line_starts f a b = [a]" "a \<le> b" using reaches_line[OF w] by (simp_all add: b_def)
    have cb: "reaches f cc b" "line_starts f cc b = line_starts f cc a @ [a]"
      using reaches_trans[OF ca(1) ab(1)] line_starts_append[OF ca(1) ab(3)] ab(2) by simp_all
    have "consume_line (Inr f) now st t = (if rl_tooLarge r then reject_line (int b) st0 (count_read t) else single_line (int a) (int b) line now st0 (count_read t))"
      using w r ia single by (simp add: consume_line_def Let_def st0_def line_def flip: a_def r_def)
    then have step: "(fl, st', t') = (if rl_tooLarge r then reject_line (int b) st0 (count_read t) else single_line (int a) (int b) line now st0 (count_read t))"
      using c by simp
    have cm0: "os_committed st0 = os_committed st" "os_readOffset st0 = int b" "same_file st st0" "pd_lines (os_pending st0) = 0" by (use st in \<open>simp_all add: st0_def same_file_def in_step_def\<close>)
    have reject: ?thesis if rj: "(fl, st', t') = reject_line (int b) st0 (count_read t)" and k: "\<not> kept ?src f a"
    proof -
      obtain ok st1 t1 where cm: "commit st0 (int b) [] (count_rejected (count_read t)) = (ok, st1, t1)" by (metis prod_cases3)
      have e: "st' = st1" "t' = t1" "ok \<or> fl = Return" using rj cm by (cases ok; simp add: reject_line_def)+
      have nil: "filter (kept ?src f) (line_starts f cc b) = []" using cb ca k by simp
      have ce: "sent t1 = sent t" "same_setup t t1" "same_file st st1" "pd_lines (os_pending st1) = 0"
        "if ok then os_committed st1 = int b \<and> os_readOffset st1 = int b else st1 = st0"
        using commit_effect[OF _ cm] rec cm0 by (auto simp: same_file_def split: if_splits)
      show ?thesis
      proof (cases ok)
        case True
        then show ?thesis using ce e nil cb(1)
          by (intro exI[of _ b]) (simp add: admits_lines_def in_step_def line_records_def flip: cc_def)
      next
        case False
        then show ?thesis using ce e nil cb(1) cm0 ia
          by (intro exI[of _ cc]) (simp add: admits_lines_def in_step_def line_records_def flip: cc_def)
      qed
    qed
    show ?thesis
    proof (cases "rl_tooLarge r \<or> line = []")
      case True
      then have "\<not> kept ?src f a" "(fl, st', t') = reject_line (int b) st0 (count_read t)"
        using step r by (auto simp: kept_def line_def valid_line_Nil single_line_def split: if_splits)
      then show ?thesis by (rule reject[rotated])
    next
      case False
      then have k: "kept ?src f a" and rec_eq: "line_record ?src st now f a = \<lparr>tr_AdmissionID = admissionID (src_ID ?src) (os_identity st0) (os_generation st0) (int a) (int b),
          tr_Body = line, tr_RelativePath = os_relative st0, tr_FileIdentity = os_identity st0, tr_StartOffset = int a, tr_EndOffset = int b, tr_ObservedAt = now\<rparr>"
        using r by (auto simp: kept_def line_def valid_line_Nil line_record_def Let_def b_def st0_def)
      have recs: "line_records ?src st now f cc b = [line_record ?src st now f a]" using cb ca k by (simp add: line_records_def)
      obtain ok st1 t1 where em: "emit st0 (int a) (int b) line now (count_read t) = (ok, st1, t1)" by (metis prod_cases3)
      have e: "t' = t1" "st' = (if ok then st1 else st1\<lparr>os_readOffset := os_committed st1\<rparr>)" "ok \<or> fl = Return"
        using step False em by (cases ok; simp add: single_line_def)+
      have ee: "same_setup t t1" "same_file st st1" "pd_lines (os_pending st1) = 0"
        "(st1 = st0 \<and> \<not> ok \<and> (sent t1 = sent t \<or> sent t1 = sent t @ [line_record ?src st now f a])) \<or>
         (sent t1 = sent t @ [line_record ?src st now f a] \<and> os_committed st1 = int b \<and> os_readOffset st1 = int b)"
        using emit_effect[OF _ em] rec cm0 rec_eq by (auto simp: same_file_def)
      have sf: "same_file st st'" "pd_lines (os_pending st') = 0" using e ee by (simp_all add: same_file_def)
      consider "os_committed st' = int b" "os_readOffset st' = int b" "sent t1 = sent t @ [line_record ?src st now f a]"
        | "os_committed st' = int cc" "os_readOffset st' = int cc" "sent t1 = sent t" "fl = Return"
        | "os_committed st' = int cc" "os_readOffset st' = int cc" "sent t1 = sent t @ [line_record ?src st now f a]" "fl = Return"
        using ee(4) e cm0 ia by auto
      then show ?thesis
      proof cases
        case 1
        then show ?thesis using ee(1) sf recs cb(1) e by (intro exI[of _ b]) (simp add: admits_lines_def in_step_def flip: cc_def)
      next
        case 2
        then show ?thesis using ee(1) sf e by (intro exI[of _ cc]) (simp add: admits_lines_def in_step_def flip: cc_def)
      next
        case 3
        then show ?thesis using ee(1) sf recs cb(1) e by (intro exI[of _ b]) (simp add: admits_lines_def in_step_def flip: cc_def)
      qed
    qed
  qed
qed

lemma consume_loop_admits:
  assumes "recording t" "\<not> ml_Enabled (Multiline (tl_source t))" "in_step (tl_source t) f st"
    and "consume_loop (Inr f) size' now st t = (go, st', t')"
  shows "\<exists>e. admits_lines now f st t st' t' e"
  using assms
proof (induction "Inr f :: bytes result" size' now st t rule: consume_loop.induct)
  case (1 size' now st t)
  note eq = "1.prems"(4)[unfolded consume_loop.simps[of _ size' now st t]]
  show ?case
  proof (cases "os_readOffset st < size'")
    case False
    then show ?thesis using eq admits_lines_refl[OF "1.prems"(3)] by auto
  next
    case True
    obtain fl st1 t1 where s: "consume_line (Inr f) now st t = (fl, st1, t1)" by (metis prod_cases3)
    from consume_line_admits[OF "1.prems"(1-3) s] obtain e where e: "admits_lines now f st t st1 t1 e" "fl \<noteq> Return \<longrightarrow> e = nat (os_committed st1)"
      by blast
    show ?thesis
    proof (cases "fl = Again")
      case F: True
      have ss: "same_setup t t1" "in_step (tl_source t) f st1" using e by (simp_all add: admits_lines_def)
      have "consume_loop (Inr f) size' now st1 t1 = (go, st', t')" using eq True s F by simp
      from "1.hyps"[OF _ s[symmetric, unfolded F] refl refl recording_same[OF ss(1) "1.prems"(1)] _ _ this] ss "1.prems"(2) True
      obtain e' where "admits_lines now f st1 t1 st' t' e'" by (auto simp: same_setup_def)
      then show ?thesis using admits_lines_trans e F by blast
    next
      case F: False
      then have "st' = st1 \<and> t' = t1" using eq True s by (cases fl) auto
      then show ?thesis using e by blast
    qed
  qed
qed

lemma consume_admits:
  assumes "recording t" "\<not> ml_Enabled (Multiline (tl_source t))" "in_step (tl_source t) f st" "os_committed st \<le> size'"
    and "consume \<lparr>fv_size = Inr size', fv_data = Inr f\<rparr> now st t = (st', t')"
  shows "\<exists>e. admits_lines now f st t st' t' e"
proof -
  obtain go st1 t1 where l: "consume_loop (Inr f) size' now st t = (go, st1, t1)" by (metis prod_cases3)
  obtain e where e: "admits_lines now f st t st1 t1 e" using consume_loop_admits[OF assms(1-3) l] by blast
  then have "pd_lines (os_pending st1) = 0" by (simp add: admits_lines_def in_step_def)
  then have "st' = st1 \<and> t' = t1" using assms(4,5) l by (auto simp: consume_def split: bool.splits)
  then show ?thesis using e by blast
qed

end
