(* ===== verification/TailerRun.thy ===== *)
theory TailerRun
  imports TailerFacts "HOL-Library.Multiset"
begin

text \<open>
  A log file over many polls (\<^verbatim>\<open>src/internal/logtail/tailer_linux.go\<close>): while the file grows, other files are read by the
  same tailer and any call fails, no line is lost to a crash: the checkpoint a restart finds never lies beyond a line
  that was not admitted.
\<close>

section \<open>Growing files\<close>

lemma line_at_append: "whole_line f a \<Longrightarrow> line_at (f @ x) a = line_at f a \<and> whole_line (f @ x) a"
  by (auto simp: whole_line_def line_at_def Let_def takeWhile_append)

lemma reaches_append: "reaches f a b \<Longrightarrow> reaches (f @ x) a b \<and> line_starts (f @ x) a b = line_starts f a b"
proof (induction f a b rule: reaches.induct)
  case (1 f a b)
  show ?case
  proof (cases "a < b \<and> whole_line f a")
    case True
    note la = line_at_append[OF conjunct2[OF True], of x]
    have "reaches f (a + length (line_at f a)) b" using "1.prems" True by (simp add: reaches.simps[of f a b])
    from "1.IH"[OF True this] True la show ?thesis
      by (simp add: reaches.simps[of "f @ x" a b] line_starts.simps[of "f @ x" a b] line_starts.simps[of f a b])
  next
    case False
    then have "a = b" using "1.prems" by (simp add: reaches.simps[of f a b])
    then show ?thesis by simp
  qed
qed

lemma line_starts_whole: "a' \<in> set (line_starts f a b) \<Longrightarrow> whole_line f a'"
  by (induction f a b rule: line_starts.induct) (subst (asm) (2) line_starts.simps, auto split: if_splits)

lemma kept_append: "whole_line f a \<Longrightarrow> kept source (f @ x) a = kept source f a"
  using line_at_append[of f a x] by (simp add: kept_def)

section \<open>Admitted lines\<close>

text \<open>The line at \<open>a\<close> of the file \<open>i\<close> in its generation \<open>g\<close> is among the records \<open>rs\<close>.\<close>

definition admitted :: "log_source \<Rightarrow> bytes \<Rightarrow> u64 \<Rightarrow> tail_record list \<Rightarrow> bytes \<Rightarrow> nat \<Rightarrow> bool" where
  "admitted source i g rs f a \<longleftrightarrow>
     (\<exists>r \<in> set rs. tr_AdmissionID r = admissionID (src_ID source) i g (int a) (int (a + length (line_at f a))) \<and>
        tr_Body r = valid_line (bytesWithoutLineEnding (line_at f a)) \<and> tr_FileIdentity r = i \<and>
        tr_StartOffset r = int a \<and> tr_EndOffset r = int (a + length (line_at f a)))"

text \<open>All lines from \<open>c\<close> up to the line end \<open>n\<close> that become records are among \<open>rs\<close>.\<close>

definition covered :: "log_source \<Rightarrow> bytes \<Rightarrow> u64 \<Rightarrow> nat \<Rightarrow> tail_record list \<Rightarrow> bytes \<Rightarrow> nat \<Rightarrow> bool" where
  "covered source i g c rs f n \<longleftrightarrow> reaches f c n \<and> (\<forall>a \<in> set (line_starts f c n). kept source f a \<longrightarrow> admitted source i g rs f a)"

lemma admitted_mono: "admitted source i g rs f a \<Longrightarrow> set rs \<subseteq> set rs' \<Longrightarrow> admitted source i g rs' f a"
  by (auto simp: admitted_def)

lemma covered_mono: "covered source i g c rs f n \<Longrightarrow> set rs \<subseteq> set rs' \<Longrightarrow> covered source i g c rs' f n"
  by (auto simp: covered_def intro: admitted_mono)

lemma covered_append: "covered source i g c rs f n \<Longrightarrow> covered source i g c rs (f @ x) n"
proof -
  assume c: "covered source i g c rs f n"
  then have r: "reaches f c n" by (simp add: covered_def)
  have "admitted source i g rs (f @ x) a" if "a \<in> set (line_starts f c n)" "kept source (f @ x) a" for a
  proof -
    note w = line_starts_whole[OF that(1)]
    have "admitted source i g rs f a" using c that kept_append[OF w] by (simp add: covered_def)
    then show ?thesis using line_at_append[OF w, of x] by (simp add: admitted_def)
  qed
  then show ?thesis using reaches_append[OF r] by (simp add: covered_def)
qed

lemma covered_refl: "covered source i g c rs f c"
  by (simp add: covered_def)

lemma covered_trans: "covered source i g c rs f n \<Longrightarrow> reaches f n n' \<Longrightarrow>
   (\<And>a. a \<in> set (line_starts f n n') \<Longrightarrow> kept source f a \<Longrightarrow> admitted source i g rs f a) \<Longrightarrow> covered source i g c rs f n'"
  using line_starts_append[of f c n n'] reaches_trans[of f c n n'] reaches_le[of f n n'] by (auto simp: covered_def)

lemma line_record_admits:
  "os_identity st = i \<Longrightarrow> os_generation st = g \<Longrightarrow> line_record source st now f a \<in> set rs \<Longrightarrow> admitted source i g rs f a"
  unfolding admitted_def by (rule bexI[rotated], assumption) (simp add: line_record_def Let_def)

lemma covered_admits:
  assumes c: "covered (tl_source t) (os_identity st) (os_generation st) c (sent t) f (nat (os_committed st))"
    and a: "admits_lines now f st t st' t' e"
  shows "covered (tl_source t) (os_identity st) (os_generation st) c (sent t') f (nat (os_committed st'))"
proof -
  have s: "sent t' = sent t @ line_records (tl_source t) st now f (nat (os_committed st)) e"
    and r: "reaches f (nat (os_committed st)) (nat (os_committed st'))" "reaches f (nat (os_committed st')) e"
    using a by (simp_all add: admits_lines_def)
  have sub: "set (line_starts f (nat (os_committed st)) (nat (os_committed st'))) \<subseteq> set (line_starts f (nat (os_committed st)) e)"
    using line_starts_append[OF r(1) reaches_le[OF r(2)]] by simp
  show ?thesis
  proof (rule covered_trans[OF covered_mono[OF c] r(1)])
    show "set (sent t) \<subseteq> set (sent t')" by (simp add: s)
    fix a assume "a \<in> set (line_starts f (nat (os_committed st)) (nat (os_committed st')))" "kept (tl_source t) f a"
    then have "line_record (tl_source t) st now f a \<in> set (sent t')" using sub by (auto simp: s line_records_def)
    then show "admitted (tl_source t) (os_identity st) (os_generation st) (sent t') f a" by (rule line_record_admits[OF refl refl])
  qed
qed

section \<open>Checkpoints never lie beyond what was admitted\<close>

text \<open>The checkpoint of the file \<open>i\<close> in a checkpoint map lies at the end of a line up to which everything was admitted.\<close>

definition covered_in :: "log_source \<Rightarrow> bytes \<Rightarrow> u64 \<Rightarrow> nat \<Rightarrow> tail_record list \<Rightarrow> bytes \<Rightarrow> (bytes \<times> checkpoint) list \<Rightarrow> bool" where
  "covered_in source i g c rs f m \<longleftrightarrow> (\<exists>cp n. map_of m i = Some cp \<and> Offset cp = int n \<and> covered source i g c rs f n)"

text \<open>A checkpoint file that a restart can read, with such a checkpoint in it.\<close>

definition covered_file :: "fs \<Rightarrow> log_source \<Rightarrow> bytes \<Rightarrow> u64 \<Rightarrow> nat \<Rightarrow> tail_record list \<Rightarrow> bytes \<Rightarrow> inode \<Rightarrow> bool" where
  "covered_file s source i g c rs f fi \<longleftrightarrow> private_file s fi \<and> f_synced fi \<and>
     (\<exists>cs m. f_data fi = marshal_state cs \<and> Files cs = Some m \<and> covered_in source i g c rs f m)"

definition crash_safe :: "log_source \<Rightarrow> bytes \<Rightarrow> u64 \<Rightarrow> nat \<Rightarrow> bytes \<Rightarrow> 'v recorded tailer \<Rightarrow> bool" where
  "crash_safe source i g c f t \<longleftrightarrow>
     recording t \<and> tl_source t = source \<and> covered_in source i g c (sent t) f (files_of t) \<and>
     stage_ok (tl_fs t) (checkpointPath (src_ID source)) \<and>
     (\<forall>v \<in> insert (live (tl_fs t) (checkpointPath (src_ID source))) (poss (tl_fs t) (checkpointPath (src_ID source))).
        \<exists>fi. v = Some fi \<and> covered_file (tl_fs t) source i g c (sent t) f fi)"

lemma covered_in_mono: "covered_in source i g c rs f m \<Longrightarrow> set rs \<subseteq> set rs' \<Longrightarrow> covered_in source i g c rs' f m"
  unfolding covered_in_def using covered_mono by blast

lemma covered_file_mono: "covered_file s source i g c rs f fi \<Longrightarrow> set rs \<subseteq> set rs' \<Longrightarrow> covered_file s source i g c rs' f fi"
  unfolding covered_file_def using covered_in_mono by blast

lemma covered_file_euid: "fs_euid s' = fs_euid s \<Longrightarrow> covered_file s' = covered_file s"
  by (simp add: covered_file_def fun_eq_iff private_file_euid[of s' s])

lemma crash_safe_grows: "crash_safe source i g c f t \<Longrightarrow> crash_safe source i g c (f @ x) t"
proof -
  have ci: "covered_in source i g c rs (f @ x) m" if "covered_in source i g c rs f m" for rs m
    using that covered_append unfolding covered_in_def by blast
  have "covered_file s source i g c rs (f @ x) fi" if "covered_file s source i g c rs f fi" for s rs fi
    using that ci unfolding covered_file_def by blast
  moreover assume "crash_safe source i g c f t"
  ultimately show ?thesis using ci unfolding crash_safe_def by metis
qed

text \<open>Steps that keep the files and only add records.\<close>

lemma crash_safe_step:
  assumes "crash_safe source i g c f t" "same_setup t t'" "set (sent t) \<subseteq> set (sent t')" "tl_fs t' = tl_fs t"
    "map_of (files_of t') i = map_of (files_of t) i"
  shows "crash_safe source i g c f t'"
proof -
  have "covered_in source i g c (sent t') f (files_of t')"
    using assms(1,5) covered_in_mono[OF _ assms(3)] by (auto simp: crash_safe_def covered_in_def)
  moreover have "recording t'" "tl_source t' = source"
    using assms(1,2) recording_same[OF assms(2)] by (simp_all add: crash_safe_def same_setup_def)
  ultimately show ?thesis using assms(1,4) covered_file_mono[OF _ assms(3)] unfolding crash_safe_def by metis
qed

lemma crash_safe_save:
  assumes cs: "crash_safe source i g c f t" and sv: "save t = (r, t')" and fl: "Files (tl_checkpoints t) = Some m"
  shows "crash_safe source i g c f t'"
proof -
  let ?p = "checkpointPath (src_ID source)"
  have so: "tl_source t = source" using cs by (simp add: crash_safe_def)
  have fs: "save_file ?p (marshal_state (tl_checkpoints t)) (tl_fs t) = (r, tl_fs t')"
    using sv so by (auto simp: save_def saveCheckpoint_def split: prod.splits)
  note fr = save_frame[OF sv]
  have same: "sent t' = sent t" "files_of t' = files_of t" using fr by (simp_all add: sent_def files_of_def)
  from save_file_step[OF fs] cs obtain fi where fi: "stage_ok (tl_fs t') ?p" "fs_euid (tl_fs t') = fs_euid (tl_fs t)"
    "private_file (tl_fs t) fi" "f_data fi = marshal_state (tl_checkpoints t)" "f_synced fi"
    "live (tl_fs t') ?p \<in> {live (tl_fs t) ?p, Some fi}" "poss (tl_fs t') ?p \<subseteq> insert (live (tl_fs t) ?p) (insert (Some fi) (poss (tl_fs t) ?p))"
    by (auto simp: crash_safe_def)
  have ci: "covered_in source i g c (sent t) f m" using cs fl by (simp add: crash_safe_def files_of_def)
  then have "covered_file (tl_fs t) source i g c (sent t) f fi" using fi(3-5) fl by (auto simp: covered_file_def)
  moreover have "\<forall>v \<in> insert (live (tl_fs t) ?p) (poss (tl_fs t) ?p). \<exists>fi. v = Some fi \<and> covered_file (tl_fs t) source i g c (sent t) f fi"
    using cs by (simp add: crash_safe_def)
  ultimately have "\<forall>v \<in> insert (live (tl_fs t') ?p) (poss (tl_fs t') ?p). \<exists>fi. v = Some fi \<and> covered_file (tl_fs t) source i g c (sent t) f fi"
    using fi(6,7) by blast
  then show ?thesis using cs fr same fi(1) covered_file_euid[OF fi(2)] recording_same[OF conjunct1[OF conjunct2[OF fr]]]
    by (simp add: crash_safe_def same_setup_def)
qed

lemma crash_safe_tick: "crash_safe source i g c f t \<Longrightarrow> tick t = (n, t') \<Longrightarrow> crash_safe source i g c f t'"
  using recording_tick[of t n t'] by (intro crash_safe_step[of source i g c f t t'])
    (auto simp: crash_safe_def tick_def files_of_def split: prod.splits)

text \<open>Committing an offset of another file, or one of this file up to which everything was admitted.\<close>

lemma crash_safe_commit:
  assumes cs: "crash_safe source i g c f t"
    and off: "os_identity st = i \<Longrightarrow> \<exists>n. off = int n \<and> covered source i g c (sent t) f n"
    and cm: "commit st off adm t = (ok, st', t')"
  shows "crash_safe source i g c f t'"
proof -
  obtain n t1 where k: "tick t = (n, t1)" by fastforce
  define m where "m = AList.update (os_identity st) \<lparr>Offset = off, Generation = os_generation st, Fingerprint = os_fingerprint st,
                RelativePath = os_relative st, UpdatedAt = n, AdmissionID = adm\<rparr> (files_of t)"
  define tm where "tm = set_files m t1"
  obtain r t2 where sv: "save tm = (r, t2)" by fastforce
  have rec: "recording t" using cs by (simp add: crash_safe_def)
  note c1 = crash_safe_tick[OF cs k] and kt = recording_tick[OF rec k]
  have im: "covered_in source i g c (sent t) f m"
  proof (cases "os_identity st = i")
    case True
    then show ?thesis using off by (auto simp: covered_in_def m_def update_conv')
  next
    case False
    then show ?thesis using cs by (simp add: covered_in_def m_def update_conv' crash_safe_def)
  qed
  have "crash_safe source i g c f tm"
  proof -
    have "tl_fs tm = tl_fs t1" "sent tm = sent t" "recording tm" "tl_source tm = source" "files_of tm = m"
      using c1 kt by (simp_all add: tm_def set_files_def recording_def crash_safe_def sent_def files_of_def)
    then show ?thesis using c1 im kt by (simp add: crash_safe_def)
  qed
  from crash_safe_save[OF this sv] have c2: "crash_safe source i g c f t2" by (simp add: tm_def set_files_def)
  note ce = commit_effect[OF rec cm]
  show ?thesis
  proof (cases r)
    case (Inr u)
    then have "t' = t2" using cm k sv by (simp add: commit_def Let_def m_def tm_def)
    then show ?thesis using c2 by simp
  next
    case (Inl e)
    then have t': "\<not> ok" "t' = count_checkpoint_error (set_files (case map_of (files_of t) (os_identity st) of
         Some old \<Rightarrow> AList.update (os_identity st) old (files_of t2) | None \<Rightarrow> AList.delete (os_identity st) (files_of t2)) t2)"
      using cm k sv by (auto simp: commit_def Let_def m_def tm_def)
    have "covered_in source i g c (sent t') f (files_of t')"
      using cs ce t'(1) by (simp add: crash_safe_def covered_in_def)
    moreover have "tl_fs t' = tl_fs t2" "recording t'" "tl_source t' = source" "sent t' = sent t2"
      using c2 t' recording_same[of t2 t'] by (simp_all add: count_checkpoint_error_def set_files_def crash_safe_def sent_def recording_def)
    ultimately show ?thesis using c2 by (simp add: crash_safe_def)
  qed
qed

lemma crash_safe_world: "crash_safe source i g c f t \<Longrightarrow> set (sent t) \<subseteq> set (fst w) \<Longrightarrow> crash_safe source i g c f (t\<lparr>tl_world := w\<rparr>)"
  by (rule crash_safe_step) (simp_all add: files_of_def)

lemma count_fs [simp]:
  "tl_fs (count_read t) = tl_fs t" "tl_fs (count_rejected t) = tl_fs t" "tl_fs (count_flush t) = tl_fs t"
  by (simp_all add: count_read_def count_rejected_def count_flush_def)

lemma crash_safe_counts:
  "crash_safe source i g c f t \<Longrightarrow> crash_safe source i g c f (count_read t)"
  "crash_safe source i g c f t \<Longrightarrow> crash_safe source i g c f (count_rejected t)"
  "crash_safe source i g c f t \<Longrightarrow> crash_safe source i g c f (count_flush t)"
  by (erule crash_safe_step; simp)+

lemma crash_safe_emit:
  assumes cs: "crash_safe source i g c f t"
    and em: "emit st a b x now t = (ok, st', t')"
    and off: "os_identity st = i \<Longrightarrow> \<exists>n. b = int n \<and> covered source i g c (sent t @
       [\<lparr>tr_AdmissionID = admissionID (src_ID (tl_source t)) (os_identity st) (os_generation st) a b, tr_Body = x,
         tr_RelativePath = os_relative st, tr_FileIdentity = os_identity st, tr_StartOffset = a, tr_EndOffset = b, tr_ObservedAt = now\<rparr>]) f n"
  shows "crash_safe source i g c f t'"
proof -
  define j where "j = admissionID (src_ID (tl_source t)) (os_identity st) (os_generation st) a b"
  define r where "r = \<lparr>tr_AdmissionID = j, tr_Body = x,
     tr_RelativePath = os_relative st, tr_FileIdentity = os_identity st, tr_StartOffset = a, tr_EndOffset = b, tr_ObservedAt = now\<rparr>"
  have rec: "recording t" using cs by (simp add: crash_safe_def)
  obtain adm where adm: "tl_admit t = Some adm" and
    a: "\<And>r w. case adm r w of (None, w') \<Rightarrow> fst w' = fst w @ [r] | (Some _, w') \<Rightarrow> fst w' = fst w"
    using rec unfolding recording_def by blast
  obtain o' w where aw: "adm r (tl_world t) = (o', w)" by (cases "adm r (tl_world t)")
  show ?thesis
  proof (cases o')
    case (Some e)
    then have "t' = t\<lparr>tl_world := w\<rparr>" using em adm aw by (simp add: emit_def Let_def r_def j_def)
    then show ?thesis using a[where r = r and w = "tl_world t"] aw Some crash_safe_world[OF cs] by (simp add: sent_def)
  next
    case None
    have w: "fst w = sent t @ [r]" using a[where r = r and w = "tl_world t"] aw None by (simp add: sent_def)
    obtain k st1 t1 where cm: "commit st b j (t\<lparr>tl_world := w\<rparr>) = (k, st1, t1)" by (metis prod_cases3)
    have c0: "crash_safe source i g c f (t\<lparr>tl_world := w\<rparr>)" by (rule crash_safe_world[OF cs]) (auto simp: w)
    have c1: "crash_safe source i g c f t1"
      by (rule crash_safe_commit[OF c0 _ cm]) (use off w in \<open>simp add: r_def j_def\<close>)
    then have rec1: "recording t1" by (simp add: crash_safe_def)
    have rest: "(ok, st', t') = (if \<not> k then (False, st1, t1) else (case tl_activate t1 of None \<Rightarrow> (True, st1, t1) | Some act \<Rightarrow>
                 (case act j (tl_world t1) of
                    (Some e, w1) \<Rightarrow> (False, st1, t1\<lparr>tl_world := w1\<rparr>)
                  | (None, w1) \<Rightarrow> (True, st1, t1\<lparr>tl_world := w1\<rparr>))))"
      using em adm aw None cm unfolding j_def by (cases k) (auto simp: emit_def Let_def r_def j_def)
    have "t' = t1 \<or> (\<exists>act w1. tl_activate t1 = Some act \<and> w1 = snd (act j (tl_world t1)) \<and> t' = t1\<lparr>tl_world := w1\<rparr>)"
    proof (cases "\<not> k \<or> tl_activate t1 = None")
      case True
      then have "t' = t1" using rest by (auto split: if_splits)
      then show ?thesis by (rule disjI1)
    next
      case False
      then obtain act where act: "tl_activate t1 = Some act" "k" by auto
      obtain y w1 where y: "act j (tl_world t1) = (y, w1)" by (cases "act j (tl_world t1)")
      then have "t' = t1\<lparr>tl_world := w1\<rparr>" using rest act by (cases y) simp_all
      then show ?thesis using y act(1) by (intro disjI2 exI[of _ act] exI[of _ w1]) simp
    qed
    then show ?thesis
    proof (elim disjE exE conjE)
      fix act w1 assume act: "tl_activate t1 = Some act" "w1 = snd (act j (tl_world t1))" "t' = t1\<lparr>tl_world := w1\<rparr>"
      have "fst w1 = fst (tl_world t1)" using rec1 act unfolding recording_def by blast
      then show ?thesis using crash_safe_world[OF c1] act by (simp add: sent_def)
    qed (use c1 in simp)
  qed
qed

text \<open>Reading another file.\<close>

lemma identity_commit: "commit st off a t = (ok, st', t') \<Longrightarrow> os_identity st' = os_identity st"
  by (auto simp: commit_def Let_def split: prod.splits sum.splits)

lemma identity_emit: "emit st a b x now t = (ok, st', t') \<Longrightarrow> os_identity st' = os_identity st"
  by (auto simp: emit_def Let_def split: prod.splits option.splits bool.splits dest: identity_commit)

definition step_safe :: "log_source \<Rightarrow> bytes \<Rightarrow> u64 \<Rightarrow> nat \<Rightarrow> bytes \<Rightarrow> bytes \<Rightarrow> 'v recorded tailer \<Rightarrow> openState \<Rightarrow> 'v recorded tailer \<Rightarrow> bool" where
  "step_safe source i g c f j t0 st t \<longleftrightarrow> os_identity st = j \<and> j \<noteq> i \<and> crash_safe source i g c f t \<and>
     same_setup t0 t \<and> set (sent t0) \<subseteq> set (sent t)"

lemma step_safe_commit: "commit st off a t = (ok, st', t') \<Longrightarrow> step_safe source i g c f j t0 st t \<Longrightarrow> step_safe source i g c f j t0 st' t'"
proof -
  assume cm: "commit st off a t = (ok, st', t')" and s: "step_safe source i g c f j t0 st t"
  then have "recording t" by (simp add: step_safe_def crash_safe_def)
  note ce = commit_effect[OF this cm]
  have "crash_safe source i g c f t'" by (rule crash_safe_commit[OF _ _ cm]) (use s in \<open>auto simp: step_safe_def\<close>)
  then show ?thesis using s ce identity_commit[OF cm] same_setup_trans by (auto simp: step_safe_def)
qed

lemma step_safe_emit: "emit st a b x now t = (ok, st', t') \<Longrightarrow> step_safe source i g c f j t0 st t \<Longrightarrow> step_safe source i g c f j t0 st' t'"
proof -
  assume em: "emit st a b x now t = (ok, st', t')" and s: "step_safe source i g c f j t0 st t"
  then have "recording t" by (simp add: step_safe_def crash_safe_def)
  note ee = emit_effect[OF this em]
  have "crash_safe source i g c f t'" by (rule crash_safe_emit[OF _ em]) (use s in \<open>auto simp: step_safe_def\<close>)
  then show ?thesis using s ee identity_emit[OF em] same_setup_trans by (auto simp: step_safe_def)
qed

lemma step_safe_simps [simp]:
  "step_safe source i g c f j t0 (st\<lparr>os_readOffset := n\<rparr>) t = step_safe source i g c f j t0 st t"
  "step_safe source i g c f j t0 (st\<lparr>os_committed := n\<rparr>) t = step_safe source i g c f j t0 st t"
  "step_safe source i g c f j t0 (st\<lparr>os_generation := k\<rparr>) t = step_safe source i g c f j t0 st t"
  "step_safe source i g c f j t0 (st\<lparr>os_fingerprint := fp\<rparr>) t = step_safe source i g c f j t0 st t"
  "step_safe source i g c f j t0 (st\<lparr>os_pending := p\<rparr>) t = step_safe source i g c f j t0 st t"
  by (simp_all add: step_safe_def)

lemma step_safe_counts:
  "step_safe source i g c f j t0 st t \<Longrightarrow> step_safe source i g c f j t0 st (count_read t)"
  "step_safe source i g c f j t0 st t \<Longrightarrow> step_safe source i g c f j t0 st (count_rejected t)"
  "step_safe source i g c f j t0 st t \<Longrightarrow> step_safe source i g c f j t0 st (count_flush t)"
  by (simp_all add: step_safe_def crash_safe_counts)

lemma step_safe_flush: "flush st now t = (ok, st', t') \<Longrightarrow> step_safe source i g c f j t0 st t \<Longrightarrow> step_safe source i g c f j t0 st' t'"
  by (auto simp: flush_def Let_def split: if_splits prod.splits bool.splits dest!: step_safe_emit intro!: step_safe_counts)

lemma step_safe_join: "join_line a b l now st t = (fl, st', t') \<Longrightarrow> step_safe source i g c f j t0 st t \<Longrightarrow> step_safe source i g c f j t0 st' t'"
  by (auto simp: join_line_def Let_def split: if_splits prod.splits bool.splits dest!: step_safe_flush)

lemma step_safe_line:
  assumes "consume_line data now st t = (fl, st', t')" "step_safe source i g c f j t0 st t" shows "step_safe source i g c f j t0 st' t'"
proof -
  have rj: "step_safe source i g c f j tb st' t'" if "reject_line e st0 t0 = (fl, st', t')" "step_safe source i g c f j tb st0 t0" for e st0 t0 tb
    using that by (auto simp: reject_line_def split: prod.splits bool.splits dest!: step_safe_commit[OF _ step_safe_counts(2)])
  have sl: "step_safe source i g c f j tb st' t'" if "single_line a b l now st0 t0 = (fl, st', t')" "step_safe source i g c f j tb st0 t0" for a b l st0 t0 tb
    using that rj by (auto simp: single_line_def split: if_splits prod.splits bool.splits dest!: step_safe_emit)
  have ml: "step_safe source i g c f j tb st' t'" if "multi_line a b l now st0 t0 = (fl, st', t')" "step_safe source i g c f j tb st0 t0" for a b l st0 t0 tb
    using that step_safe_join by (auto simp: multi_line_def split: if_splits prod.splits bool.splits dest!: step_safe_flush)
  show ?thesis using assms step_safe_counts(1)[OF assms(2)]
    by (auto simp: consume_line_def Let_def split: if_splits sum.splits dest!: rj sl ml)
qed

lemma step_safe_loop:
  "consume_loop data size' now st t = (go, st', t') \<Longrightarrow> step_safe source i g c f j t0 st t \<Longrightarrow> step_safe source i g c f j t0 st' t'"
proof (induction data size' now st t rule: consume_loop.induct)
  case (1 data size' now st t)
  obtain fl st1 t1 where s: "consume_line data now st t = (fl, st1, t1)" by (metis prod_cases3)
  note s1 = step_safe_line[OF s "1.prems"(2)]
  note eq = "1.prems"(1)[unfolded consume_loop.simps[of data size' now st t]]
  show ?case
  proof (cases "os_readOffset st < size'")
    case False
    then show ?thesis using eq "1.prems"(2) by simp
  next
    case True
    show ?thesis
    proof (cases fl)
      case Again
      then have "consume_loop data size' now st1 t1 = (go, st', t')" using eq True s by simp
      from "1.IH"[OF _ s[symmetric] Again refl this s1] True show ?thesis by simp
    qed (use eq True s s1 in auto)
  qed
qed

lemma step_safe_consume:
  assumes "consume v now st t = (st', t')" "step_safe source i g c f j t0 st t" shows "step_safe source i g c f j t0 st' t'"
proof -
  have rs: "step_safe source i g c f j t0 st1 t1" if "restart_file d st t = (ok, st1, t1)" for d ok st1 t1
    using that assms(2) by (auto simp: restart_file_def Let_def split: sum.splits dest!: step_safe_commit)
  show ?thesis
  proof (cases "fv_size v")
    case (Inl e)
    then show ?thesis using assms by (simp add: consume_def)
  next
    case (Inr n)
    obtain ok st1 t1 where s1: "(if n < os_committed st then restart_file (fv_data v) st t else (True, st, t)) = (ok, st1, t1)" by (metis prod_cases3)
    then have p1: "step_safe source i g c f j t0 st1 t1" using rs assms(2) by (auto split: if_splits)
    obtain go st2 t2 where s2: "consume_loop (fv_data v) n now st1 t1 = (go, st2, t2)" by (metis prod_cases3)
    note p2 = step_safe_loop[OF s2 p1]
    obtain k st3 t3 where s3: "flush st2 now t2 = (k, st3, t3)" by (metis prod_cases3)
    note p3 = step_safe_flush[OF s3 p2]
    show ?thesis using assms(1) Inr s1 s2 s3 p1 p2 p3 by (auto simp: consume_def split: bool.splits if_splits)
  qed
qed

text \<open>Reading the file itself, one line at a time.\<close>

lemma crash_safe_line:
  assumes cs: "crash_safe source i g c f t" and id: "os_identity st = i" "os_generation st = g"
    and single: "\<not> ml_Enabled (Multiline source)" and st: "in_step source f st"
    and cov: "covered source i g c (sent t) f (nat (os_committed st))"
    and cl: "consume_line (Inr f) now st t = (fl, st', t')"
  shows "crash_safe source i g c f t'"
proof -
  define a where "a = nat (os_readOffset st)"
  define b where "b = a + length (line_at f a)"
  have so: "tl_source t = source" using cs by (simp add: crash_safe_def)
  have ia: "int a = os_readOffset st" using st by (simp add: in_step_def a_def)
  have "covered source i g c (sent t) f a"
    by (rule covered_trans[OF cov]) (use st in \<open>auto simp: in_step_def a_def filter_empty_conv\<close>)
  note ca = covered_mono[OF this]
  define r where "r = readLine f a (nat (MaxLineBytes source))"
  have r: "rl_out r = take (nat (MaxLineBytes source)) (line_at f a)" "rl_end r = b" "rl_complete r = whole_line f a"
    "rl_tooLarge r = (nat (MaxLineBytes source) < length (line_at f a))" by (simp_all add: r_def readLine_eq b_def)
  show ?thesis
  proof (cases "whole_line f a")
    case False
    then have "t' = t" using cl ia r so by (simp add: consume_line_def Let_def flip: a_def r_def)
    then show ?thesis using cs by simp
  next
    case w: True
    have ab: "reaches f a b" "line_starts f a b = [a]" using reaches_line[OF w] by (simp_all add: b_def)
    define st0 where "st0 = st\<lparr>os_readOffset := int b\<rparr>"
    define line where "line = valid_line (bytesWithoutLineEnding (rl_out r))"
    have "consume_line (Inr f) now st t = (if rl_tooLarge r then reject_line (int b) st0 (count_read t) else single_line (int a) (int b) line now st0 (count_read t))"
      using w r ia single so by (simp add: consume_line_def Let_def st0_def line_def flip: a_def r_def)
    then have step: "(fl, st', t') = (if rl_tooLarge r then reject_line (int b) st0 (count_read t) else single_line (int a) (int b) line now st0 (count_read t))"
      using cl by simp
    show ?thesis
    proof (cases "rl_tooLarge r \<or> line = []")
      case True
      then have rj: "\<not> kept source f a" "(fl, st', t') = reject_line (int b) st0 (count_read t)"
        using step r by (auto simp: kept_def line_def valid_line_Nil single_line_def split: if_splits)
      obtain ok st1 t1 where cm: "commit st0 (int b) [] (count_rejected (count_read t)) = (ok, st1, t1)" by (metis prod_cases3)
      have "t' = t1" using rj(2) cm by (cases ok) (simp_all add: reject_line_def)
      moreover have "covered source i g c (sent t) f b" by (rule covered_trans[OF ca ab(1)]) (use ab rj in auto)
      ultimately show ?thesis
        using crash_safe_commit[OF crash_safe_counts(2)[OF crash_safe_counts(1)[OF cs]] _ cm] by auto
    next
      case False
      define rr where "rr = line_record source st now f a"
      have rr: "rr = \<lparr>tr_AdmissionID = admissionID (src_ID source) (os_identity st0) (os_generation st0) (int a) (int b),
          tr_Body = line, tr_RelativePath = os_relative st0, tr_FileIdentity = os_identity st0, tr_StartOffset = int a, tr_EndOffset = int b, tr_ObservedAt = now\<rparr>"
        using r False by (auto simp: rr_def line_def line_record_def Let_def b_def st0_def)
      obtain ok st1 t1 where em: "emit st0 (int a) (int b) line now (count_read t) = (ok, st1, t1)" by (metis prod_cases3)
      have "t' = t1" using step False em by (cases ok) (simp_all add: single_line_def)
      moreover have "covered source i g c (sent t @ [rr]) f b"
      proof (rule covered_trans[OF ca ab(1)])
        have "admitted source i g (sent t @ [rr]) f a" by (rule line_record_admits[OF id, where now = now]) (simp add: rr_def)
        then show "\<And>a'. a' \<in> set (line_starts f a b) \<Longrightarrow> kept source f a' \<Longrightarrow> admitted source i g (sent t @ [rr]) f a'" using ab(2) by simp
      qed auto
      then have "crash_safe source i g c f t1" unfolding rr
        by (intro crash_safe_emit[OF crash_safe_counts(1)[OF cs] em]) (auto simp: so)
      ultimately show ?thesis by simp
    qed
  qed
qed

lemma crash_safe_loop:
  assumes "crash_safe source i g c f t" "os_identity st = i" "os_generation st = g" "\<not> ml_Enabled (Multiline source)" "in_step source f st"
    "covered source i g c (sent t) f (nat (os_committed st))" "consume_loop (Inr f) size' now st t = (go, st', t')"
  shows "crash_safe source i g c f t'"
  using assms
proof (induction "Inr f :: bytes result" size' now st t rule: consume_loop.induct)
  case (1 size' now st t)
  note eq = "1.prems"(7)[unfolded consume_loop.simps[of _ size' now st t]]
  show ?case
  proof (cases "os_readOffset st < size'")
    case False
    then show ?thesis using eq "1.prems"(1) by auto
  next
    case True
    obtain fl st1 t1 where s: "consume_line (Inr f) now st t = (fl, st1, t1)" by (metis prod_cases3)
    have so: "tl_source t = source" "recording t" using "1.prems"(1) by (simp_all add: crash_safe_def)
    note c1 = crash_safe_line[OF "1.prems"(1-6) s]
    show ?thesis
    proof (cases "fl = Again")
      case F: True
      obtain e where e: "admits_lines now f st t st1 t1 e"
        using consume_line_admits[OF so(2) _ _ s] so(1) "1.prems"(4,5) by auto
      have k: "os_identity st1 = i" "os_generation st1 = g" "in_step source f st1"
        using e "1.prems"(2,3) so(1) by (simp_all add: admits_lines_def same_file_def)
      have cv: "covered source i g c (sent t1) f (nat (os_committed st1))"
        using covered_admits[OF _ e, of c] "1.prems"(2,3,6) so(1) by simp
      have "consume_loop (Inr f) size' now st1 t1 = (go, st', t')" using eq True s F by simp
      from "1.hyps"[OF _ s[symmetric, unfolded F] refl refl c1 k(1,2) "1.prems"(4) k(3) cv this] True show ?thesis by simp
    next
      case F: False
      then have "t' = t1" using eq True s by (cases fl) auto
      then show ?thesis using c1 by simp
    qed
  qed
qed

lemma crash_safe_consume:
  assumes "crash_safe source i g c f t" "os_identity st = i" "os_generation st = g" "\<not> ml_Enabled (Multiline source)" "in_step source f st"
    "covered source i g c (sent t) f (nat (os_committed st))" "os_committed st \<le> size'"
    "consume \<lparr>fv_size = Inr size', fv_data = Inr f\<rparr> now st t = (st', t')"
  shows "crash_safe source i g c f t'"
proof -
  obtain go st1 t1 where l: "consume_loop (Inr f) size' now st t = (go, st1, t1)" by (metis prod_cases3)
  have so: "tl_source t = source" "recording t" using assms(1) by (simp_all add: crash_safe_def)
  obtain e where "admits_lines now f st t st1 t1 e" using consume_loop_admits[OF so(2) _ _ l] so(1) assms(4,5) by auto
  then have "pd_lines (os_pending st1) = 0" by (simp add: admits_lines_def in_step_def)
  then have "t' = t1" using assms(7,8) l by (auto simp: consume_def split: bool.splits)
  then show ?thesis using crash_safe_loop[OF assms(1-6) l] by simp
qed

lemma crash_safe_recover: "crash_safe source i g c f t \<Longrightarrow> crash_safe source i g c f (recoverAdmissions ids t)"
proof (induction ids t rule: recoverAdmissions.induct)
  case (2 j ids t)
  define w where "w = (case tl_activate t of None \<Rightarrow> t | Some act \<Rightarrow>
        (case map_of (files_of t) j of None \<Rightarrow> t | Some cp \<Rightarrow>
         if AdmissionID cp = [] then t else t\<lparr>tl_world := snd (act (AdmissionID cp) (tl_world t))\<rparr>))"
  have "crash_safe source i g c f w"
  proof (cases "tl_activate t")
    case (Some act)
    have "recording t" using "2.prems" by (simp add: crash_safe_def)
    then have "fst (snd (act x y)) = fst y" for x y using Some unfolding recording_def by blast
    then show ?thesis using "2.prems" Some crash_safe_world[OF "2.prems"]
      by (auto simp: w_def sent_def split: option.splits)
  qed (use "2.prems" in \<open>simp add: w_def\<close>)
  from "2.IH"[OF this[unfolded w_def]] show ?case by simp
qed simp

lemma crash_safe_states: "crash_safe source i g c f t \<Longrightarrow> crash_safe source i g c f (t\<lparr>tl_states := x\<rparr>)"
  by (simp add: crash_safe_def recording_def sent_def files_of_def)

lemma crash_safe_stats:
  "crash_safe source i g c f t \<Longrightarrow> crash_safe source i g c f (count_permission e t)"
  "crash_safe source i g c f t \<Longrightarrow> crash_safe source i g c f (count_checkpoint_error t)"
  "crash_safe source i g c f t \<Longrightarrow> crash_safe source i g c f (count_discovered t)"
  by (simp_all add: crash_safe_def recording_def sent_def files_of_def count_permission_def count_checkpoint_error_def count_discovered_def)

text \<open>Discovering a file: another one, or the file itself, which is open already.\<close>

lemma crash_safe_open_name:
  assumes cs: "crash_safe source i g c f t" and op: "open_name env name (seen, t) = (seen', t')"
    and i: "map_of (tl_states t) i \<noteq> None"
  shows "crash_safe source i g c f t'"
proof (cases "matches (tl_source t) name \<and> is_ok (openBeneath env name)")
  case False
  then have "t' = t \<or> (\<exists>e. t' = count_permission e t)"
    using op by (cases "openBeneath env name") (auto simp: open_name_def split: if_splits)
  then show ?thesis using cs crash_safe_stats(1) by auto
next
  case True
  then obtain j n where o': "openBeneath env name = Inr (j, n)" by (cases "openBeneath env name") auto
  show ?thesis
  proof (cases "map_of (tl_states t) j \<noteq> None \<or> MaxOpenFiles (tl_source t) \<le> int (length (tl_states t)) \<or> \<not> is_ok (fingerprint (fv_data (pe_view env j)))")
    case T: True
    then have "t' = t \<or> (\<exists>x. t' = t\<lparr>tl_states := x\<rparr>)"
      using op True o' by (cases "fingerprint (fv_data (pe_view env j))") (auto simp: open_name_def Let_def split: option.splits if_splits)
    then show ?thesis using cs crash_safe_states by auto
  next
    case F: False
    then obtain fp where fp: "fingerprint (fv_data (pe_view env j)) = Inr fp" "map_of (tl_states t) j = None" by (auto simp: is_ok_iff)
    obtain known gen off where sp: "start_position (tl_source t) (map_of (files_of t) j) fp n = (known, gen, off)" by (metis prod_cases3)
    have ji: "j \<noteq> i" using fp i by auto
    obtain now t1 where k: "tick t = (now, t1)" by fastforce
    define m where "m = AList.update j \<lparr>Offset = off, Generation = gen, Fingerprint = fp,
                            RelativePath = name, UpdatedAt = now, AdmissionID = []\<rparr> (files_of t)"
    obtain r t2 where sv: "(if known then (Inr (), t) else save (set_files m t1)) = (r, t2)" by fastforce
    have c2: "crash_safe source i g c f t2"
    proof (cases known)
      case False
      note c1 = crash_safe_tick[OF cs k]
      have "recording t" using cs by (simp add: crash_safe_def)
      note kt = recording_tick[OF this k]
      have "covered_in source i g c (sent t) f m" using cs ji by (simp add: crash_safe_def covered_in_def m_def update_conv')
      then have "crash_safe source i g c f (set_files m t1)"
        using c1 kt by (simp add: crash_safe_def set_files_def recording_def sent_def files_of_def)
      from crash_safe_save[OF this, of r t2 m] sv False show ?thesis by (simp add: set_files_def)
    qed (use sv cs in simp)
    have "t' = count_checkpoint_error t2 \<or> (\<exists>x. t' = count_discovered (t2\<lparr>tl_states := x\<rparr>))"
      using op True o' F fp sp sv k by (auto simp: open_name_def Let_def m_def split: if_splits)
    then show ?thesis using crash_safe_stats(2)[OF c2] crash_safe_stats(3)[OF crash_safe_states[OF c2]] by auto
  qed
qed

section \<open>Polls of a tailer\<close>

text \<open>What holds of an open file \<open>i\<close> with content \<open>f\<close> whose lines are followed since the offset \<open>c\<close>.\<close>

definition tracked :: "log_source \<Rightarrow> bytes \<Rightarrow> u64 \<Rightarrow> nat \<Rightarrow> bytes \<Rightarrow> 'v recorded tailer \<Rightarrow> bool" where
  "tracked source i g c f t \<longleftrightarrow>
     crash_safe source i g c f t \<and> distinct (map fst (tl_states t)) \<and> (\<forall>(j, st) \<in> set (tl_states t). os_identity st = j) \<and>
     (\<forall>st. map_of (tl_states t) i = Some st \<longrightarrow> os_generation st = g \<and> in_step source f st \<and>
        covered source i g c (sent t) f (nat (os_committed st)))"

definition committed_of :: "bytes \<Rightarrow> 'w tailer \<Rightarrow> int option" where
  "committed_of i t = map_option os_committed (map_of (tl_states t) i)"

lemma in_step_append: "in_step source f st \<Longrightarrow> in_step source (f @ x) st"
proof -
  assume s: "in_step source f st"
  then have "reaches f (nat (os_committed st)) (nat (os_readOffset st))" by (simp add: in_step_def)
  note r = reaches_append[OF this, of x]
  have "\<forall>a \<in> set (line_starts f (nat (os_committed st)) (nat (os_readOffset st))). \<not> kept source (f @ x) a"
  proof
    fix a assume a: "a \<in> set (line_starts f (nat (os_committed st)) (nat (os_readOffset st)))"
    then have "\<not> kept source f a" using s by (simp add: in_step_def filter_empty_conv)
    then show "\<not> kept source (f @ x) a" using kept_append[OF line_starts_whole[OF a]] by simp
  qed
  then show ?thesis using s r unfolding in_step_def filter_empty_conv by presburger
qed

lemma tracked_grows: "tracked source i g c f t \<Longrightarrow> tracked source i g c (f @ x) t"
  using crash_safe_grows[of source i g c f t x] in_step_append[of source f _ x] covered_append[of source i g c "sent t" f _ x]
  by (simp add: tracked_def)

text \<open>A step that leaves the open files alone.\<close>

lemma tracked_step:
  assumes "tracked source i g c f t" "crash_safe source i g c f t'" "tl_states t' = tl_states t" "set (sent t) \<subseteq> set (sent t')"
  shows "tracked source i g c f t' \<and> committed_of i t' = committed_of i t"
  using assms covered_mono[OF _ assms(4)] unfolding tracked_def committed_of_def by metis

lemma sent_recover: "recording t \<Longrightarrow> sent (recoverAdmissions ids t) = sent t \<and> tl_states (recoverAdmissions ids t) = tl_states t
    \<and> tl_maxFiles (recoverAdmissions ids t) = tl_maxFiles t"
proof (induction ids t rule: recoverAdmissions.induct)
  case (2 j ids t)
  define w where "w = (case tl_activate t of None \<Rightarrow> t | Some act \<Rightarrow>
        (case map_of (files_of t) j of None \<Rightarrow> t | Some cp \<Rightarrow>
         if AdmissionID cp = [] then t else t\<lparr>tl_world := snd (act (AdmissionID cp) (tl_world t))\<rparr>))"
  have "fst (snd (act x y)) = fst y" if "tl_activate t = Some act" for act x y using "2.prems" that unfolding recording_def by blast
  then have "sent w = sent t \<and> tl_states w = tl_states t \<and> recording w \<and> tl_maxFiles w = tl_maxFiles t"
    using "2.prems" by (auto simp: w_def sent_def split: option.splits)
  then show ?case using "2.IH"[folded w_def] by (simp add: w_def)
qed simp

lemma tracked_recover: "tracked source i g c f t \<Longrightarrow>
   tracked source i g c f (recoverAdmissions ids t) \<and> committed_of i (recoverAdmissions ids t) = committed_of i t"
  using crash_safe_recover[of source i g c f t ids] sent_recover[of t ids]
  by (intro tracked_step) (auto simp: tracked_def crash_safe_def)

lemma tracked_tick: "tracked source i g c f t \<Longrightarrow> tick t = (n, t') \<Longrightarrow> tracked source i g c f t' \<and> committed_of i t' = committed_of i t"
  using crash_safe_tick[of source i g c f t n t'] recording_tick[of t n t']
  by (intro tracked_step) (auto simp: tracked_def crash_safe_def same_setup_def)

text \<open>Changing what the map of open files holds for one file.\<close>

lemma tracked_states:
  assumes "tracked source i g c f t" "distinct (map fst x)" "\<forall>(j, st) \<in> set x. os_identity st = j"
    and "\<And>st. map_of x i = Some st \<Longrightarrow> \<exists>st0. map_of (tl_states t) i = Some st0 \<and> os_generation st = os_generation st0 \<and>
        os_committed st = os_committed st0 \<and> os_readOffset st = os_readOffset st0 \<and> os_pending st = os_pending st0"
  shows "tracked source i g c f (t\<lparr>tl_states := x\<rparr>)"
  using assms crash_safe_states[of source i g c f t x] by (fastforce simp: tracked_def sent_def in_step_def)

lemma set_update: "distinct (map fst m) \<Longrightarrow> (k, v) \<in> set (AList.update j w m) \<Longrightarrow> (k = j \<and> v = w) \<or> (k \<noteq> j \<and> (k, v) \<in> set m)"
proof -
  assume d: "distinct (map fst m)" and k: "(k, v) \<in> set (AList.update j w m)"
  have "map_of (AList.update j w m) k = Some v" using distinct_update[OF d] k by (simp add: map_of_eq_Some_iff)
  then show ?thesis by (auto simp: update_conv' split: if_splits dest: map_of_SomeD)
qed

lemma tracked_open_name:
  assumes tr: "tracked source i g c f t" and op: "open_name env name (seen, t) = (seen', t')" and i: "committed_of i t \<noteq> None"
  shows "tracked source i g c f t' \<and> committed_of i t' = committed_of i t"
proof -
  have cs: "crash_safe source i g c f t" "distinct (map fst (tl_states t))" "\<forall>(j, st) \<in> set (tl_states t). os_identity st = j"
    using tr by (simp_all add: tracked_def)
  have i': "map_of (tl_states t) i \<noteq> None" using i by (simp add: committed_of_def)
  note cs' = crash_safe_open_name[OF cs(1) op i']
  have rec: "recording t" using cs(1) by (simp add: crash_safe_def)
  have tkt: "tl_states t1 = tl_states t \<and> sent t1 = sent t" if "tick t = (n, t1)" for n t1
    using recording_tick[OF rec that] by (simp add: same_setup_def)
  have svt: "tl_states t2 = tl_states t1 \<and> sent t2 = sent t1" if "save (set_files m t1) = (r, t2)" for m t1 r t2
    using save_frame[OF that] by (simp add: same_setup_def set_files_def sent_def)
  consider (same) "tl_states t' = tl_states t" "sent t' = sent t"
    | (known) j st where "t' = t\<lparr>tl_states := AList.update j (st\<lparr>os_relative := name, os_lostAt := None\<rparr>) (tl_states t)\<rparr>" "map_of (tl_states t) j = Some st"
    | (new) j st where "tl_states t' = tl_states t @ [(j, st)]" "sent t' = sent t" "map_of (tl_states t) j = None" "os_identity st = j"
  proof (cases "matches (tl_source t) name \<and> is_ok (openBeneath env name)")
    case False
    then have "t' = t \<or> (\<exists>e. t' = count_permission e t)"
      using op by (cases "openBeneath env name") (auto simp: open_name_def split: if_splits)
    then show ?thesis by (intro same) (auto simp: count_permission_def sent_def)
  next
    case True
    then obtain j n where o': "openBeneath env name = Inr (j, n)" by (cases "openBeneath env name") auto
    show ?thesis
    proof (cases "map_of (tl_states t) j")
      case (Some st)
      then show ?thesis using op True o' known[of j st] by (auto simp: open_name_def Let_def)
    next
      case N: None
      show ?thesis
      proof (cases "MaxOpenFiles (tl_source t) \<le> int (length (tl_states t)) \<or> \<not> is_ok (fingerprint (fv_data (pe_view env j)))")
        case T: True
        then have "t' = t" using op True o' N
          by (cases "fingerprint (fv_data (pe_view env j))") (auto simp: open_name_def Let_def split: if_splits)
        then show ?thesis by (intro same) simp_all
      next
        case F: False
        then obtain fp where fp: "fingerprint (fv_data (pe_view env j)) = Inr fp" by (auto simp: is_ok_iff)
        obtain kn gen off where sp: "start_position (tl_source t) (map_of (files_of t) j) fp n = (kn, gen, off)" by (metis prod_cases3)
        obtain now t1 where k: "tick t = (now, t1)" by fastforce
        define m where "m = AList.update j \<lparr>Offset = off, Generation = gen, Fingerprint = fp,
                            RelativePath = name, UpdatedAt = now, AdmissionID = []\<rparr> (files_of t)"
        obtain r t2 where sv: "(if kn then (Inr (), t) else save (set_files m t1)) = (r, t2)" by fastforce
        have t2: "tl_states t2 = tl_states t" "sent t2 = sent t" using sv tkt[OF k] svt[of m t1 r t2] by (auto split: if_splits)
        define sn where "sn = \<lparr>os_identity = j, os_relative = name, os_fingerprint = fp, os_committed = off,
                           os_readOffset = off, os_generation = gen, os_pending = no_pending, os_lostAt = None\<rparr>"
        have "t' = (if is_ok r then count_discovered (t2\<lparr>tl_states := tl_states t2 @ [(j, sn)]\<rparr>) else count_checkpoint_error t2)"
          using op True o' N F fp sp sv k by (auto simp: open_name_def Let_def m_def sn_def split: if_splits)
        then show ?thesis
          using t2 N same new[of j sn]
          by (auto simp: count_discovered_def count_checkpoint_error_def sent_def sn_def split: if_splits)
      qed
    qed
  qed
  then show ?thesis
  proof cases
    case same
    then show ?thesis using tracked_step[OF tr cs'] by simp
  next
    case (known j st)
    let ?x = "AList.update j (st\<lparr>os_relative := name, os_lostAt := None\<rparr>) (tl_states t)"
    have st: "os_identity st = j" using known(2) cs(3) by (auto dest: map_of_SomeD)
    have "\<forall>(k, s) \<in> set ?x. os_identity s = k" using cs(3) st by (auto dest!: set_update[OF cs(2)])
    then have "tracked source i g c f (t\<lparr>tl_states := ?x\<rparr>)"
      by (intro tracked_states[OF tr]) (use cs(2) known(2) in \<open>auto simp: distinct_update update_conv' split: if_splits\<close>)
    then show ?thesis using known by (simp add: committed_of_def update_conv')
  next
    case (new j st)
    have ji: "j \<noteq> i" using new(3) i' by auto
    have jn: "j \<notin> fst ` set (tl_states t)" using new(3) by (simp add: map_of_eq_None_iff)
    have mi: "map_of (tl_states t') i = map_of (tl_states t) i" using new(1) ji by (simp add: map_add_def split: option.splits)
    have "distinct (map fst (tl_states t'))" "\<forall>(k, s) \<in> set (tl_states t'). os_identity s = k" using new cs jn by auto
    then show ?thesis using cs' tr mi new(2) by (simp add: tracked_def committed_of_def)
  qed
qed

text \<open>What \<open>poll_state\<close> does with the state it has read.\<close>

definition put_state :: "bytes \<Rightarrow> int \<Rightarrow> openState \<Rightarrow> 'w tailer \<Rightarrow> 'w tailer" where
  "put_state j now st t =
     (if (case os_lostAt st of None \<Rightarrow> False | Some l \<Rightarrow> 60000000000 < now - l) \<and> pd_lines (os_pending st) = 0
      then t\<lparr>tl_states := AList.delete j (tl_states t)\<rparr> else t\<lparr>tl_states := AList.update j st (tl_states t)\<rparr>)"

lemma poll_state_eq:
  "poll_state env seen now j t =
     (case map_of (tl_states t) j of None \<Rightarrow> t | Some st \<Rightarrow>
      (case consume (pe_view env j) now (if j \<notin> set seen \<and> os_lostAt st = None then st\<lparr>os_lostAt := Some now\<rparr> else st) t of
         (st2, t2) \<Rightarrow> put_state j now st2 t2))"
  unfolding poll_state_def put_state_def Let_def by (rule refl)

lemma crash_safe_put: "crash_safe source i g c f t \<Longrightarrow> crash_safe source i g c f (put_state j now st t)"
  by (simp add: put_state_def crash_safe_states)

lemma set_delete: "(k, v) \<in> set (AList.delete j m) \<Longrightarrow> (k, v) \<in> set m"
  by (auto simp: AList.delete_eq)

lemma put_state_keys:
  assumes "distinct (map fst (tl_states t))" "\<forall>(k, st) \<in> set (tl_states t). os_identity st = k" "os_identity st = j"
  shows "distinct (map fst (tl_states (put_state j now st t)))" "\<forall>(k, st) \<in> set (tl_states (put_state j now st t)). os_identity st = k"
    "map_of (tl_states (put_state j now st t)) i =
       (if i = j then map_of (tl_states (put_state j now st t)) j else map_of (tl_states t) i)"
    "map_of (tl_states (put_state j now st t)) j \<in> {None, Some st}" "sent (put_state j now st t) = sent t"
proof -
  define b where "b = ((case os_lostAt st of None \<Rightarrow> False | Some l \<Rightarrow> 60000000000 < now - l) \<and> pd_lines (os_pending st) = 0)"
  have p: "put_state j now st t = (if b then t\<lparr>tl_states := AList.delete j (tl_states t)\<rparr> else t\<lparr>tl_states := AList.update j st (tl_states t)\<rparr>)"
    by (simp add: put_state_def b_def)
  show "distinct (map fst (tl_states (put_state j now st t)))" using assms(1) by (simp add: p distinct_update distinct_delete)
  show "\<forall>(k, st) \<in> set (tl_states (put_state j now st t)). os_identity st = k"
    using assms(2,3) by (auto simp: p dest: set_delete set_update[OF assms(1)])
  show "map_of (tl_states (put_state j now st t)) i =
       (if i = j then map_of (tl_states (put_state j now st t)) j else map_of (tl_states t) i)"
    "map_of (tl_states (put_state j now st t)) j \<in> {None, Some st}" "sent (put_state j now st t) = sent t"
    by (simp_all add: p update_conv' delete_conv' sent_def)
qed

lemma tracked_poll_other:
  assumes tr: "tracked source i g c f t" and j: "j \<noteq> i"
  shows "tracked source i g c f (poll_state env seen now j t) \<and> committed_of i (poll_state env seen now j t) = committed_of i t"
proof (cases "map_of (tl_states t) j")
  case None
  then show ?thesis using tr by (simp add: poll_state_eq)
next
  case (Some st)
  have cs: "crash_safe source i g c f t" "distinct (map fst (tl_states t))" "\<forall>(k, st) \<in> set (tl_states t). os_identity st = k"
    using tr by (simp_all add: tracked_def)
  define st1 where "st1 = (if j \<notin> set seen \<and> os_lostAt st = None then st\<lparr>os_lostAt := Some now\<rparr> else st)"
  have "os_identity st1 = j" using cs(3) Some by (auto simp: st1_def dest: map_of_SomeD)
  then have ss: "step_safe source i g c f j t st1 t" using j cs(1) by (simp add: step_safe_def)
  obtain st2 t2 where c2: "consume (pe_view env j) now st1 t = (st2, t2)" by fastforce
  have s2: "os_identity st2 = j" "crash_safe source i g c f t2" "tl_states t2 = tl_states t" "set (sent t) \<subseteq> set (sent t2)"
    using step_safe_consume[OF c2 ss] by (simp_all add: step_safe_def same_setup_def)
  have eq: "poll_state env seen now j t = put_state j now st2 t2" using Some c2 by (simp add: poll_state_eq flip: st1_def)
  note pk = put_state_keys[of t2 st2 j now, unfolded s2(3), OF cs(2,3) s2(1)]
  have mi: "map_of (tl_states (put_state j now st2 t2)) i = map_of (tl_states t) i" using pk(3) j by simp
  show ?thesis unfolding eq
    using crash_safe_put[OF s2(2)] pk(1,2,5) mi tr covered_mono[OF _ s2(4)] by (simp add: tracked_def committed_of_def)
qed

text \<open>What a poll sees of a file with the content \<open>f\<close>: \<^verbatim>\<open>Stat\<close> and \<^verbatim>\<open>ReadAt\<close> may fail, and then nothing is consumed.\<close>

definition sees :: "int \<Rightarrow> bytes \<Rightarrow> file_view \<Rightarrow> bool" where
  "sees o' f v \<longleftrightarrow> (\<forall>n. fv_size v = Inr n \<longrightarrow> o' \<le> n) \<and> (\<forall>d. fv_data v = Inr d \<longrightarrow> d = f)"

lemma consume_unread:
  assumes "\<not> (is_ok (fv_size v) \<and> is_ok (fv_data v))" "sees (os_committed st) f v" "in_step source f st"
  shows "consume v now st t = (st, t)"
proof (cases "fv_size v")
  case (Inr n)
  then obtain e where e: "fv_data v = Inl e" using assms(1) by (cases "fv_data v") auto
  have "consume_line (Inl e) now st t = (Break, st, t)" by (simp add: consume_line_def)
  then have "consume_loop (Inl e) n now st t = (True, st, t)" by (simp add: consume_loop.simps)
  then show ?thesis using Inr e assms(2,3) by (simp add: consume_def sees_def in_step_def)
qed (simp add: consume_def)

lemma tracked_poll_own:
  assumes tr: "tracked source i g c f t" and single: "\<not> ml_Enabled (Multiline source)"
    and v: "\<And>o'. committed_of i t = Some o' \<Longrightarrow> sees o' f (pe_view env i)"
  shows "tracked source i g c f (poll_state env seen now i t)"
proof (cases "map_of (tl_states t) i")
  case None
  then show ?thesis using tr by (simp add: poll_state_eq)
next
  case (Some st)
  have cs: "crash_safe source i g c f t" "distinct (map fst (tl_states t))" "\<forall>(k, st) \<in> set (tl_states t). os_identity st = k"
    using tr by (simp_all add: tracked_def)
  define st1 where "st1 = (if i \<notin> set seen \<and> os_lostAt st = None then st\<lparr>os_lostAt := Some now\<rparr> else st)"
  have so: "tl_source t = source" "recording t" using cs(1) by (simp_all add: crash_safe_def)
  have st1: "os_identity st1 = i" "os_generation st1 = g" "in_step source f st1"
    "covered source i g c (sent t) f (nat (os_committed st1))" "sees (os_committed st1) f (pe_view env i)"
    using cs(3) Some tr v by (auto simp: st1_def tracked_def in_step_def committed_of_def dest: map_of_SomeD)
  obtain st2 t2 where c2: "consume (pe_view env i) now st1 t = (st2, t2)" by fastforce
  have "crash_safe source i g c f t2 \<and> (\<exists>e. admits_lines now f st1 t st2 t2 e)"
  proof (cases "is_ok (fv_size (pe_view env i)) \<and> is_ok (fv_data (pe_view env i))")
    case True
    then obtain size' where c2': "pe_view env i = \<lparr>fv_size = Inr size', fv_data = Inr f\<rparr>" "os_committed st1 \<le> size'"
      using st1(5) by (cases "pe_view env i") (auto simp: sees_def is_ok_iff)
    have "consume \<lparr>fv_size = Inr size', fv_data = Inr f\<rparr> now st1 t = (st2, t2)" using c2 c2'(1) by simp
    then show ?thesis using crash_safe_consume[OF cs(1) st1(1,2) single st1(3,4) c2'(2)] consume_admits[OF so(2) _ _ c2'(2)] so(1) single st1(3)
      by auto
  next
    case False
    then have "(st2, t2) = (st1, t)" using c2 consume_unread[of "pe_view env i" st1 f source now t] st1(3,5) by auto
    then show ?thesis using cs(1) admits_lines_refl[of t f st1 now] st1(3) so(1) by auto
  qed
  then obtain e where cs2: "crash_safe source i g c f t2" and e: "admits_lines now f st1 t st2 t2 e" by blast
  have s2: "os_identity st2 = i" "os_generation st2 = g" "in_step source f st2" "tl_states t2 = tl_states t"
    using e st1 so(1) by (simp_all add: admits_lines_def same_file_def same_setup_def)
  have cv: "covered source i g c (sent t2) f (nat (os_committed st2))" using covered_admits[OF _ e, of c] st1 so(1) by simp
  have eq: "poll_state env seen now i t = put_state i now st2 t2" using Some c2 by (simp add: poll_state_eq flip: st1_def)
  note pk = put_state_keys[of t2 st2 i now, unfolded s2(4), OF cs(2,3) s2(1)]
  have un: "st = st2" if "map_of (tl_states (put_state i now st2 t2)) i = Some st" for st using pk(4) that by auto
  show ?thesis unfolding eq tracked_def
    using crash_safe_put[OF cs2, of i now st2] pk(1,2,5) un s2(2,3) cv by metis
qed

lemma tracked_poll_others:
  "tracked source i g c f t \<Longrightarrow> i \<notin> set ids \<Longrightarrow>
   tracked source i g c f (fold (poll_state env seen now) ids t) \<and> committed_of i (fold (poll_state env seen now) ids t) = committed_of i t"
proof (induction ids arbitrary: t)
  case (Cons j ids)
  have "j \<noteq> i" using Cons.prems by auto
  from tracked_poll_other[OF Cons.prems(1) this, of env seen now] Cons.IH Cons.prems(2) show ?case by simp
qed simp

lemma tracked_poll_all:
  assumes "tracked source i g c f t" "\<not> ml_Enabled (Multiline source)" "distinct ids"
    "\<And>o'. committed_of i t = Some o' \<Longrightarrow> sees o' f (pe_view env i)"
  shows "tracked source i g c f (fold (poll_state env seen now) ids t)"
proof (cases "i \<in> set ids")
  case False
  then show ?thesis using tracked_poll_others[OF assms(1)] by blast
next
  case True
  then obtain ys zs where ids: "ids = ys @ i # zs" by (meson split_list)
  then have n: "i \<notin> set ys" "i \<notin> set zs" using assms(3) by auto
  note t1 = tracked_poll_others[OF assms(1) n(1), of env seen now]
  have "tracked source i g c f (poll_state env seen now i (fold (poll_state env seen now) ys t))"
    by (rule tracked_poll_own[OF conjunct1[OF t1] assms(2)]) (use t1 assms(4) in auto)
  from tracked_poll_others[OF this n(2)] show ?thesis by (simp add: ids)
qed

lemma tracked_open_all:
  "tracked source i g c f t \<Longrightarrow> committed_of i t \<noteq> None \<Longrightarrow> fold (open_name env) names (seen, t) = (seen', t') \<Longrightarrow>
   tracked source i g c f t' \<and> committed_of i t' = committed_of i t"
proof (induction names arbitrary: seen t)
  case (Cons n names)
  obtain s1 t1 where o1: "open_name env n (seen, t) = (s1, t1)" by fastforce
  note tr = tracked_open_name[OF Cons.prems(1) o1 Cons.prems(2)]
  have "fold (open_name env) names (s1, t1) = (seen', t')" using Cons.prems(3) o1 by simp
  from Cons.IH[OF _ _ this] tr Cons.prems(2) show ?case by simp
qed simp

lemma tracked_pollOnce:
  assumes tr: "tracked source i g c f t" and single: "\<not> ml_Enabled (Multiline source)" and op: "committed_of i t = Some o'"
    and v: "sees o' (f @ x) (pe_view env i)" and ord: "\<forall>xs. mset (pe_order env xs) = mset xs"
  shows "tracked source i g c (f @ x) (pollOnce env t)"
proof -
  note tr0 = tracked_grows[OF tr, of x]
  define t1 where "t1 = recoverAdmissions (pe_order env (map fst (files_of t))) t"
  have t1: "tracked source i g c (f @ x) t1" "committed_of i t1 = Some o'"
    using tracked_recover[OF tr0] op by (simp_all add: t1_def)
  show ?thesis
  proof (cases "pe_canceled env \<or> \<not> tl_root t \<or> \<not> is_ok (readRootNames env (tl_maxFiles t1 + 1))")
    case True
    then have "pollOnce env t = t \<or> (\<exists>e. pollOnce env t = count_permission e t1)"
      by (cases "readRootNames env (tl_maxFiles t1 + 1)") (auto simp: pollOnce_def Let_def t1_def)
    moreover have "tracked source i g c (f @ x) (count_permission e t1)" for e
    proof -
      have "crash_safe source i g c (f @ x) t1" using t1(1) by (simp add: tracked_def)
      from tracked_step[OF t1(1) crash_safe_stats(1)[OF this, of e]] show ?thesis by (simp add: count_permission_def sent_def)
    qed
    ultimately show ?thesis using tr0 by auto
  next
    case False
    then obtain names where n: "readRootNames env (tl_maxFiles t1 + 1) = Inr names" by (auto simp: is_ok_iff)
    obtain seen t2 where o2: "fold (open_name env) (sort (take (nat (tl_maxFiles t1)) names)) ([], t1) = (seen, t2)" by fastforce
    have t2: "tracked source i g c (f @ x) t2" "committed_of i t2 = Some o'"
      using tracked_open_all[OF t1(1) _ o2] t1(2) by simp_all
    obtain now t3 where k: "tick t2 = (now, t3)" by fastforce
    have t3: "tracked source i g c (f @ x) t3" "committed_of i t3 = Some o'" using tracked_tick[OF t2(1) k] t2(2) by simp_all
    have "distinct (map fst (tl_states t3))" using t3(1) by (simp add: tracked_def)
    moreover have "mset (pe_order env (map fst (tl_states t3))) = mset (map fst (tl_states t3))" using ord by blast
    ultimately have d: "distinct (pe_order env (map fst (tl_states t3)))"
      using mset_eq_setD distinct_count_atmost_1 by metis
    have "pollOnce env t = fold (poll_state env seen now) (pe_order env (map fst (tl_states t3))) t3"
      using False n o2 k by (simp add: pollOnce_def Let_def flip: t1_def)
    then show ?thesis using tracked_poll_all[OF t3(1) single d] t3(2) v by simp
  qed
qed

text \<open>
  Polls while the file \<open>i\<close> is open and only grows: each one that can read it sees its content, extended by any bytes, and a size that
  does not lie before what was committed. The order in which maps are visited is any order.
\<close>

inductive polls :: "bytes \<Rightarrow> bytes \<Rightarrow> 'w tailer \<Rightarrow> bytes \<Rightarrow> 'w tailer \<Rightarrow> bool" for i f0 t0 where
  start: "polls i f0 t0 f0 t0"
| poll: "polls i f0 t0 f t \<Longrightarrow> committed_of i t = Some o' \<Longrightarrow> sees o' (f @ x) (pe_view env i) \<Longrightarrow> \<forall>xs. mset (pe_order env xs) = mset xs \<Longrightarrow>
    polls i f0 t0 (f @ x) (pollOnce env t)"

text \<open>A file as its discovery leaves it: read so far up to the offset of its checkpoint, which is on disk.\<close>

definition newly_opened :: "log_source \<Rightarrow> bytes \<Rightarrow> u64 \<Rightarrow> nat \<Rightarrow> 'v recorded tailer \<Rightarrow> bool" where
  "newly_opened source i g c t \<longleftrightarrow>
     tl_source t = source \<and> distinct (map fst (tl_states t)) \<and> (\<forall>(j, st) \<in> set (tl_states t). os_identity st = j) \<and>
     (\<exists>st. map_of (tl_states t) i = Some st \<and> os_generation st = g \<and> os_committed st = int c \<and> os_readOffset st = int c \<and>
        pd_lines (os_pending st) = 0) \<and>
     (\<exists>cp. map_of (files_of t) i = Some cp \<and> Offset cp = int c) \<and> Files (tl_checkpoints t) \<noteq> None \<and>
     stage_ok (tl_fs t) (checkpointPath (src_ID source)) \<and>
     (\<exists>fi. stable (tl_fs t) (checkpointPath (src_ID source)) fi \<and> private_file (tl_fs t) fi \<and> f_data fi = marshal_state (tl_checkpoints t))"

lemma newly_opened_tracked:
  assumes "recording t" "newly_opened source i g c t" shows "tracked source i g c f t"
proof -
  let ?p = "checkpointPath (src_ID source)"
  obtain fi where fi: "stable (tl_fs t) ?p fi" "private_file (tl_fs t) fi" "f_data fi = marshal_state (tl_checkpoints t)"
    using assms(2) by (auto simp: newly_opened_def)
  have ci: "covered_in source i g c (sent t) f (files_of t)"
    using assms(2) covered_refl by (fastforce simp: newly_opened_def covered_in_def)
  have "covered_file (tl_fs t) source i g c (sent t) f fi"
    using fi ci assms(2) by (auto simp: covered_file_def newly_opened_def files_of_def stable_def split: option.splits)
  then have "crash_safe source i g c f t"
    using fi(1) ci assms by (simp add: crash_safe_def newly_opened_def stable_def)
  moreover have "in_step source f st \<and> os_generation st = g \<and> covered source i g c (sent t) f (nat (os_committed st))"
    if "map_of (tl_states t) i = Some st" for st
    using assms(2) that covered_refl by (auto simp: newly_opened_def in_step_def)
  ultimately show ?thesis using assms(2) by (simp add: tracked_def newly_opened_def)
qed

lemma polls_tracked:
  "polls i f0 t0 f t \<Longrightarrow> recording t0 \<Longrightarrow> newly_opened source i g c t0 \<Longrightarrow> \<not> ml_Enabled (Multiline source) \<Longrightarrow> tracked source i g c f t"
proof (induction rule: polls.induct)
  case start
  then show ?case using newly_opened_tracked by blast
next
  case (poll f t o' env x)
  then show ?case using tracked_pollOnce by blast
qed

lemma crash_image_exists: "\<exists>img. crash_image s img"
proof -
  have "\<exists>w. \<exists>v \<in> poss s n. survives v w" for n
  proof -
    obtain v where "v \<in> poss s n" using poss_nonempty by blast
    moreover have "survives v (map_option (\<lambda>f. if f_synced f then f else f\<lparr>f_data := [], f_synced := True\<rparr>) v)"
      by (auto simp: survives_def split: option.splits)
    ultimately show ?thesis by blast
  qed
  then show ?thesis unfolding crash_image_def by metis
qed

definition sample_log_source :: log_source where
  "sample_log_source = sample_source\<lparr>MaxOpenFiles := 4, MaxLineBytes := 256, src_StartAt := ''beginning''\<rparr>"

definition sample_file_state :: openState where
  "sample_file_state = \<lparr>os_identity = ''1:2'', os_relative = ''a.log'', os_fingerprint = ''00'', os_committed = 0, os_readOffset = 0,
     os_generation = 0, os_pending = no_pending, os_lostAt = None\<rparr>"

definition sample_checkpoints :: checkpointState where
  "sample_checkpoints = \<lparr>cs_Version = 1, SourceID = ''app'', Files = Some [(''1:2'', \<lparr>Offset = 0, Generation = 0, Fingerprint = ''00'',
     RelativePath = ''a.log'', UpdatedAt = 1, AdmissionID = []\<rparr>)]\<rparr>"

text \<open>A tailer with one file open, which admits everything it is given.\<close>

definition sample_tailer :: "unit recorded tailer" where
  "sample_tailer = \<lparr>tl_source = sample_log_source, tl_maxFiles = 4, tl_admit = Some (\<lambda>r w. (None, (fst w @ [r], snd w))),
     tl_activate = None, tl_clock = (\<lambda>w. (5, w)), tl_root = True, tl_states = [(''1:2'', sample_file_state)],
     tl_checkpoints = sample_checkpoints, tl_start = (\<lambda>_. False), tl_running = True, tl_stats = no_counters,
     tl_fs = quiet_fs [(checkpointPath ''app'', private_of (marshal_state sample_checkpoints))], tl_world = ([], ())\<rparr>"

definition sample_poll :: "bytes \<Rightarrow> poll_env" where
  "sample_poll data = \<lparr>pe_canceled = False, pe_order = (\<lambda>xs. xs), pe_dir = None, pe_names = Inr [''a.log''], pe_openat2 = (\<lambda>_. Opened),
     pe_openat = (\<lambda>_. None), pe_fstat = (\<lambda>_. Inr (1, 2, Regular, int (length data))),
     pe_view = (\<lambda>_. \<lparr>fv_size = Inr (int (length data)), fv_data = Inr data\<rparr>)\<rparr>"

lemma sample_tailer_ok:
  "recording sample_tailer" "newly_opened sample_log_source ''1:2'' 0 0 sample_tailer" "\<not> ml_Enabled (Multiline sample_log_source)"
proof -
  have m: "Multiline sample_log_source = Multiline sample_source" "src_ID sample_log_source = ''app''"
    by (simp_all add: sample_log_source_def sample_source_def)
  show "\<not> ml_Enabled (Multiline sample_log_source)" by (simp add: m sample_source_def)
  show "recording sample_tailer" by (simp add: recording_def sample_tailer_def)
  have "stage_ok (tl_fs sample_tailer) (checkpointPath ''app'')"
    by (simp add: sample_tailer_def stage_ok_def quiet_fs_def live_def)
  then show "newly_opened sample_log_source ''1:2'' 0 0 sample_tailer"
    by (simp add: newly_opened_def m) (simp add: sample_tailer_def sample_file_state_def sample_checkpoints_def files_of_def no_pending_def
        stable_def quiet_fs_def live_def poss_def private_of_def private_file_def)
qed

section \<open>A poll that admits one line\<close>

lemma save_quiet:
  assumes "tl_fs t = quiet_fs [(checkpointPath (src_ID (tl_source t)), private_of b)]"
  shows "\<exists>t'. save t = (Inr (), t') \<and> same_setup t t'"
  by (simp add: assms save_def same_setup_def saveCheckpoint_def save_file_def quiet_fs_def private_of_def create_trunc_def publish_def fill_def write_all_def fsync_def close_file_def
      rename_def syncDir_def open_dir_def fsync_dir_def put_entry_def set_data_def fresh_file_def ins_def fs_eval)

lemma commit_quiet:
  assumes "tl_fs t = quiet_fs [(checkpointPath (src_ID (tl_source t)), private_of b)]"
  shows "\<exists>t'. commit st n a t = (True, st\<lparr>os_committed := n, os_readOffset := max (os_readOffset st) n\<rparr>, t') \<and> same_setup t t'"
proof -
  obtain now w where k: "tl_clock t (tl_world t) = (now, w)" by fastforce
  define t1 where "t1 = set_files (AList.update (os_identity st) \<lparr>Offset = n, Generation = os_generation st, Fingerprint = os_fingerprint st,
      RelativePath = os_relative st, UpdatedAt = now, AdmissionID = a\<rparr> (files_of t)) (t\<lparr>tl_world := w\<rparr>)"
  have "tl_fs t1 = quiet_fs [(checkpointPath (src_ID (tl_source t1)), private_of b)]" "same_setup t t1"
    using assms by (simp_all add: t1_def set_files_def same_setup_def)
  with save_quiet[of t1 b] obtain t2 where "save t1 = (Inr (), t2)" "same_setup t t2" by (auto dest: same_setup_trans)
  then show ?thesis by (simp add: commit_def tick_def k t1_def)
qed

lemma sample_line:
  "readLine (''ab'' @ [NL]) 0 256 = \<lparr>rl_out = ''ab'' @ [NL], rl_end = 3, rl_complete = True, rl_tooLarge = False\<rparr>"
  by (simp add: readLine_eq whole_line_def line_at_def NL_def)

lemma sample_text: "valid_line (bytesWithoutLineEnding (''ab'' @ [NL])) = ''ab''"
  by code_simp

lemma sample_consumed:
  assumes "tl_source t = sample_log_source" "tl_fs t = quiet_fs [(checkpointPath ''app'', private_of b)]" "tl_admit t = Some adm"
    and "\<And>r. tr_AdmissionID r = admissionID ''app'' ''1:2'' 0 0 3 \<Longrightarrow> fst (adm r (tl_world t)) = None"
    and "os_identity st = ''1:2''" "os_generation st = 0" "os_committed st = 0" "os_readOffset st = 0" "os_pending st = no_pending"
    and c: "consume \<lparr>fv_size = Inr 3, fv_data = Inr (''ab'' @ [NL])\<rparr> now st t = (st', t')"
  shows "os_committed st' = 3 \<and> os_pending st' = no_pending \<and> os_lostAt st' = os_lostAt st \<and> tl_states t' = tl_states t"
proof -
  let ?s = "st\<lparr>os_readOffset := 3\<rparr>" and ?t = "count_read t" and ?f = "''ab'' @ [NL]"
  have src: "src_ID (tl_source t) = ''app''" "MaxLineBytes (tl_source t) = 256" "\<not> ml_Enabled (Multiline (tl_source t))"
    using assms(1) by (simp_all add: sample_log_source_def sample_source_def)
  obtain ok st1 t1 where e: "emit ?s 0 3 ''ab'' now ?t = (ok, st1, t1)" by (metis prod_cases3)
  have s1: "os_committed st1 = 3 \<and> os_readOffset st1 = 3 \<and> os_pending st1 = no_pending \<and> os_lostAt st1 = os_lostAt st \<and> tl_states t1 = tl_states t
      \<and> tl_source t1 = tl_source t"
  proof -
    define r where "r = \<lparr>tr_AdmissionID = admissionID ''app'' ''1:2'' 0 0 3, tr_Body = ''ab'', tr_RelativePath = os_relative st, tr_FileIdentity = ''1:2'',
                 tr_StartOffset = 0, tr_EndOffset = 3, tr_ObservedAt = now\<rparr>"
    obtain w where w: "adm r (tl_world t) = (None, w)" using assms(4)[of r] by (cases "adm r (tl_world t)") (auto simp: r_def)
    obtain t2 where t2: "commit ?s 3 (admissionID ''app'' ''1:2'' 0 0 3) (?t\<lparr>tl_world := w\<rparr>) = (True, ?s\<lparr>os_committed := 3, os_readOffset := 3\<rparr>, t2)" "same_setup (?t\<lparr>tl_world := w\<rparr>) t2"
      using commit_quiet[of "?t\<lparr>tl_world := w\<rparr>" b ?s 3] assms(2) src by (auto simp: count_read_def)
    show ?thesis using e w t2 assms(3,5-9) src
      by (auto simp: emit_def Let_def count_read_def same_setup_def simp flip: r_def split: option.splits prod.splits)
  qed
  have "consume_line (Inr ?f) now st t = (if ok then Again else Return, if ok then st1 else st1\<lparr>os_readOffset := os_committed st1\<rparr>, t1)"
    using e src assms(8) by (auto simp: consume_line_def Let_def sample_line[simplified] sample_text[simplified] single_line_def)
  then have "consume_loop (Inr ?f) 3 now st t = (ok, if ok then st1 else st1\<lparr>os_readOffset := os_committed st1\<rparr>, t1)"
    using s1 assms(8) by (subst consume_loop.simps) (auto simp: consume_loop.simps)
  then show ?thesis using c s1 assms(7) by (auto simp: consume_def no_pending_def split: if_splits)
qed

lemma sample_poll_commits:
  assumes "tl_source t = sample_log_source" "tl_root t" "0 < tl_maxFiles t" "tl_states t = [(''1:2'', sample_file_state)]"
    and "tl_checkpoints t = sample_checkpoints" "tl_fs t = quiet_fs [(checkpointPath ''app'', private_of b)]" "tl_admit t = Some adm"
    and adm: "\<And>r. tr_AdmissionID r = admissionID ''app'' ''1:2'' 0 0 3 \<Longrightarrow> fst (adm r (snd (tl_clock t (tl_world t)))) = None"
  shows "committed_of ''1:2'' (pollOnce (sample_poll (''ab'' @ [NL])) t) = Some 3"
proof -
  let ?env = "sample_poll (''ab'' @ [NL])"
  have fo: "files_of t = [(''1:2'', \<lparr>Offset = 0, Generation = 0, Fingerprint = ''00'', RelativePath = ''a.log'', UpdatedAt = 1, AdmissionID = []\<rparr>)]"
    using assms(5) by (simp add: files_of_def sample_checkpoints_def)
  have rec: "recoverAdmissions (pe_order ?env (map fst (files_of t))) t = t"
    by (simp add: fo sample_poll_def split: option.splits)
  have names: "readRootNames ?env (tl_maxFiles t + 1) = Inr [''a.log'']" "sort (take (nat (tl_maxFiles t)) [''a.log'']) = [''a.log'']"
    using assms(3) by (simp_all add: readRootNames_def sample_poll_def take_Cons')
  have ob: "openBeneath ?env ''a.log'' = Inr (''1:2'', 3)"
  proof -
    have "file_identity 1 2 = ''1:2''" by code_simp
    then show ?thesis by (simp add: openBeneath_def sample_poll_def ContainsAny_def BSLASH_def)
  qed
  obtain seen t1 where o1: "open_name ?env ''a.log'' ([], t) = (seen, t1)" by fastforce
  then have t1: "t1 = t"
    using ob assms(4) by (auto simp: open_name_def sample_file_state_def Let_def split: if_splits)
  obtain now w where k: "tl_clock t (tl_world t) = (now, w)" by fastforce
  define t2 where "t2 = t\<lparr>tl_world := w\<rparr>"
  define st where "st = (if ''1:2'' \<notin> set seen then sample_file_state\<lparr>os_lostAt := Some now\<rparr> else sample_file_state)"
  obtain st' t' where c: "consume \<lparr>fv_size = Inr 3, fv_data = Inr (''ab'' @ [NL])\<rparr> now st t2 = (st', t')" by fastforce
  have "os_committed st' = 3 \<and> os_pending st' = no_pending \<and> os_lostAt st' = os_lostAt st \<and> tl_states t' = tl_states t2"
    by (rule sample_consumed[OF _ _ _ _ _ _ _ _ _ c]) (use assms(1,6,7) adm k in \<open>auto simp: t2_def st_def sample_file_state_def\<close>)
  then have s: "os_committed st' = 3" "map_of (tl_states (put_state ''1:2'' now st' t')) ''1:2'' = Some st'"
    by (auto simp: put_state_def st_def sample_file_state_def update_conv' split: option.splits)
  have "pollOnce ?env t = poll_state ?env seen now ''1:2'' t2"
    using assms(2,4) names o1 t1 k rec by (simp add: pollOnce_def Let_def tick_def t2_def) (simp add: sample_poll_def)
  also have "\<dots> = put_state ''1:2'' now st' t'"
  proof -
    have "map_of (tl_states t2) ''1:2'' = Some sample_file_state" "os_lostAt sample_file_state = None"
      "pe_view ?env ''1:2'' = \<lparr>fv_size = Inr 3, fv_data = Inr (''ab'' @ [NL])\<rparr>"
      using assms(4) by (simp_all add: t2_def sample_file_state_def sample_poll_def)
    then show ?thesis using c by (simp add: poll_state_eq st_def)
  qed
  finally show ?thesis using s by (simp add: committed_of_def)
qed

lemma sample_kept: "line_starts (''ab'' @ [NL]) 0 3 = [0]" "TailerFacts.kept sample_log_source (''ab'' @ [NL]) 0" "line_at (''ab'' @ [NL]) 0 = ''ab'' @ [NL]"
proof -
  show l: "line_at (''ab'' @ [NL]) 0 = ''ab'' @ [NL]" by (simp add: line_at_def NL_def)
  show "line_starts (''ab'' @ [NL]) 0 3 = [0]" using reaches_line[of "''ab'' @ [NL]" 0] l by (simp add: whole_line_def numeral_3_eq_3)
  have "bytesWithoutLineEnding (''ab'' @ [NL]) = ''ab''" by code_simp
  then show "TailerFacts.kept sample_log_source (''ab'' @ [NL]) 0" using l by (simp add: TailerFacts.kept_def sample_log_source_def)
qed



end
