(* ===== verification/TailerProps.thy ===== *)
theory TailerProps
  imports TailerRun
begin

text \<open>
  Properties of the file tailer (\<^verbatim>\<open>src/internal/logtail/tailer_linux.go\<close>) that concern one call: the order of admission,
  the identity of records, and the places where a line or a whole file is skipped.
\<close>



section \<open>Identities of records\<close>

lemma dec_text: "list_all (\<lambda>x. x \<noteq> CHR 0x00) (dec n)"
  using dec_digits[of n] by (auto simp: list_all_iff is_digit_def)

lemma split_NUL: "a @ NUL @ b = a' @ NUL @ b' \<Longrightarrow> CHR 0x00 \<notin> set a \<Longrightarrow> CHR 0x00 \<notin> set a' \<Longrightarrow> a = a' \<and> b = b'"
proof (induction a arbitrary: a')
  case Nil
  then show ?case by (cases a') (auto simp: NUL_def)
next
  case (Cons x a)
  then show ?case by (cases a') (auto simp: NUL_def)
qed

lemma dec_no_NUL: "CHR 0x00 \<notin> set (dec n)"
  using dec_text[of n] by (auto simp: list_all_iff)

lemma dec_int_no_NUL: "CHR 0x00 \<notin> set (dec_int k)"
  using dec_no_NUL by (simp add: dec_int_def)

lemma dec_int_inj: "0 \<le> a \<Longrightarrow> 0 \<le> b \<Longrightarrow> dec_int a = dec_int b \<Longrightarrow> a = b"
  using dec_inj[of "nat a" "nat b"] by (simp add: dec_int_nonneg)

text \<open>Records of different sources, files, generations or positions have different identities.\<close>

lemma admissionID_unique:
  assumes "admissionID s i g a b = admissionID s' i' g' a' b'"
    and "CHR 0x00 \<notin> set s" "CHR 0x00 \<notin> set s'" "CHR 0x00 \<notin> set i" "CHR 0x00 \<notin> set i'" "0 \<le> a" "0 \<le> a'" "0 \<le> b" "0 \<le> b'"
  shows "(s, i, g, a, b) = (s', i', g', a', b') \<or> sha_collision (admission_text s i g a b) (admission_text s' i' g' a' b')"
proof (cases "admission_text s i g a b = admission_text s' i' g' a' b'")
  case True
  then have "s @ NUL @ i @ NUL @ dec (unat g) @ NUL @ dec_int a @ NUL @ dec_int b = s' @ NUL @ i' @ NUL @ dec (unat g') @ NUL @ dec_int a' @ NUL @ dec_int b'"
    by (simp add: admission_text_def)
  from split_NUL[OF this assms(2,3)] have "s = s'" and 1: "i @ NUL @ dec (unat g) @ NUL @ dec_int a @ NUL @ dec_int b = i' @ NUL @ dec (unat g') @ NUL @ dec_int a' @ NUL @ dec_int b'"
    by auto
  from split_NUL[OF 1 assms(4,5)] have "i = i'" and 2: "dec (unat g) @ NUL @ dec_int a @ NUL @ dec_int b = dec (unat g') @ NUL @ dec_int a' @ NUL @ dec_int b'"
    by auto
  from split_NUL[OF 2 dec_no_NUL dec_no_NUL] have "g = g'" and 3: "dec_int a @ NUL @ dec_int b = dec_int a' @ NUL @ dec_int b'"
    using dec_inj by (auto intro: unsigned_word_eqI)
  from split_NUL[OF 3 dec_int_no_NUL dec_int_no_NUL] have "a = a'" "b = b'" using dec_int_inj assms(6-9) by auto
  with \<open>s = s'\<close> \<open>i = i'\<close> \<open>g = g'\<close> show ?thesis by simp
next
  case False
  then show ?thesis using assms(1) by (auto simp: admissionID_def sha_collision_def Sum256_hex_inj)
qed

section \<open>Where lines are skipped\<close>

text \<open>
  In multi-line mode a line that is too large is committed past while a record is still pending: the checkpoint then lies beyond
  the pending lines, which have not been admitted, so that a crash before they are flushed loses them.
\<close>

theorem oversized_line_commits_past_pending:
  assumes "recording t" "ml_Enabled (Multiline (tl_source t))" "0 < pd_lines (os_pending st)" "pd_end (os_pending st) \<le> os_readOffset st"
    and "0 \<le> os_readOffset st" "whole_line f (nat (os_readOffset st))"
    and "nat (MaxLineBytes (tl_source t)) < length (line_at f (nat (os_readOffset st)))"
    and "consume_line (Inr f) now st t = (Again, st', t')"
  shows "sent t' = sent t \<and> os_pending st' = os_pending st \<and> pd_end (os_pending st') < os_committed st' \<and>
     map_option Offset (map_of (files_of t') (os_identity st)) = Some (os_committed st')"
proof -
  define a where "a = nat (os_readOffset st)"
  define b where "b = a + length (line_at f a)"
  define st0 where "st0 = st\<lparr>os_readOffset := int b\<rparr>"
  have "reject_line (int b) st0 (count_read t) = (Again, st', t')"
    using assms(5-8) by (simp add: consume_line_def Let_def readLine_eq st0_def b_def a_def)
  then obtain st1 t1 where cm: "commit st0 (int b) [] (count_rejected (count_read t)) = (True, st1, t1)" "st' = st1" "t' = t1"
    by (auto simp: reject_line_def split: prod.splits bool.splits)
  have "a < b" using line_at_pos assms(6) by (simp add: b_def a_def)
  moreover have "recording (count_rejected (count_read t))" using assms(1) by simp
  ultimately show ?thesis using commit_effect[OF _ cm(1)] cm(2,3) assms(4,5) by (auto simp: st0_def a_def)
qed

definition sample_multiline_tailer :: "unit recorded tailer" where
  "sample_multiline_tailer = sample_tailer\<lparr>tl_source := sample_log_source\<lparr>Multiline := \<lparr>ml_Enabled = True, StartPattern = ''A'',
     FlushTimeoutMillis = 1000, MaxLines = 10, ml_MaxBytes = 256\<rparr>, MaxLineBytes := 3\<rparr>, tl_clock := (\<lambda>w. (5, w))\<rparr>"

definition sample_pending_state :: openState where
  "sample_pending_state = sample_file_state\<lparr>os_readOffset := 3,
     os_pending := \<lparr>pd_body = ''ab'', pd_start = 0, pd_end = 3, pd_lines = 1, pd_since = 4\<rparr>\<rparr>"

lemma commit_saves:
  assumes "\<And>x :: 'w tailer. tl_fs x = tl_fs t \<Longrightarrow> src_ID (tl_source x) = src_ID (tl_source t) \<Longrightarrow> is_ok (fst (save x))"
  shows "fst (commit st off a (t :: 'w tailer))"
proof -
  obtain n t1 where k: "tick t = (n, t1)" by fastforce
  define y where "y = set_files (AList.update (os_identity st) \<lparr>Offset = off, Generation = os_generation st, Fingerprint = os_fingerprint st,
                RelativePath = os_relative st, UpdatedAt = n, AdmissionID = a\<rparr> (files_of t)) t1"
  have "tl_fs y = tl_fs t" "src_ID (tl_source y) = src_ID (tl_source t)" using k by (auto simp: y_def set_files_def tick_def split: prod.splits)
  from assms[OF this] obtain u t2 where "save y = (Inr u, t2)" by (cases "save y") (auto simp: is_ok_iff)
  then show ?thesis using k by (simp add: commit_def Let_def flip: y_def)
qed

theorem oversized_line_commits_past_pending_witness:
  "\<exists>st' t'. consume_line (Inr (''ab'' @ [NL] @ ''cdef'' @ [NL])) 5 sample_pending_state sample_multiline_tailer = (Again, st', t') \<and>
     sent t' = [] \<and> pd_end (os_pending st') = 3 \<and> 3 < os_committed st'"
proof -
  let ?f = "''ab'' @ [NL] @ ''cdef'' @ [NL]"
  have w: "whole_line ?f 3" "line_at ?f 3 = ''cdef'' @ [NL]" by (simp_all add: whole_line_def line_at_def NL_def)
  have m: "MaxLineBytes (tl_source sample_multiline_tailer) = 3" "ml_Enabled (Multiline (tl_source sample_multiline_tailer))"
    "recording sample_multiline_tailer" "sent sample_multiline_tailer = []"
    by (simp_all add: sample_multiline_tailer_def sample_tailer_def recording_def sent_def)
  have p: "pd_lines (os_pending sample_pending_state) = 1" "pd_end (os_pending sample_pending_state) = 3" "os_readOffset sample_pending_state = 3"
    by (simp_all add: sample_pending_state_def)
  have "fs_fates (tl_fs sample_multiline_tailer) = []" by (simp add: sample_multiline_tailer_def sample_tailer_def quiet_fs_def)
  have sv: "fst (save_file (n @ ''.json'') b (quiet_fs [(n @ ''.json'', private_of b0)])) = Inr ()" for n b b0
    by (simp add: save_file_def quiet_fs_def private_of_def create_trunc_def publish_def fill_def write_all_def fsync_def close_file_def
      rename_def syncDir_def open_dir_def fsync_dir_def put_entry_def set_data_def fresh_file_def ins_def fs_eval)
  obtain fl st' t' where c: "consume_line (Inr ?f) 5 sample_pending_state sample_multiline_tailer = (fl, st', t')" by (metis prod_cases3)
  have fs: "tl_fs sample_multiline_tailer = quiet_fs [(checkpointPath ''app'', private_of (marshal_state sample_checkpoints))]"
    by (simp add: sample_multiline_tailer_def sample_tailer_def)
  have "is_ok (fst (save x))" if "tl_fs x = tl_fs sample_multiline_tailer" "src_ID (tl_source x) = ''app''" for x :: "unit recorded tailer"
    using sv[of "Sum256_hex ''app''" "marshal_state (tl_checkpoints x)"] that fs
    by (simp add: save_def saveCheckpoint_def checkpointPath_def case_prod_beta)
  moreover have "src_ID (tl_source sample_multiline_tailer) = ''app''"
    by (simp add: sample_multiline_tailer_def sample_log_source_def sample_source_def)
  ultimately have "fst (commit st off [] (count_rejected (count_read sample_multiline_tailer)))" for st off
    by (intro commit_saves) (simp add: count_rejected_def count_read_def)
  then have "fl = Again" using c w m p
    by (auto simp: consume_line_def Let_def readLine_eq reject_line_def split: prod.splits bool.splits) (metis fst_conv)
  from oversized_line_commits_past_pending[OF m(3,2) _ _ _ _ _ c[unfolded this]] c \<open>fl = Again\<close> w m p show ?thesis by auto
qed

text \<open>
  A checkpoint is recognised by the hash of the first 256 bytes of the file, taken when the file was opened and not again
  while it grows: a file that was shorter then has another fingerprint after a restart and counts as a new one. Where the source
  starts at the end, all that was written since the checkpoint is skipped.
\<close>

lemma short_file_is_forgotten:
  assumes "length f < 256" "x \<noteq> []" "fingerprint (Inr f) = Inr (Fingerprint c)" "fingerprint (Inr (f @ x)) = Inr fp" "src_StartAt source = ''end''"
  shows "start_position source (Some c) fp size' = (False, Generation c + 1, size') \<or> sha_collision (take 256 f) (take 256 (f @ x))"
proof -
  have "take 256 f \<noteq> take 256 (f @ x)" using assms(1,2) by (cases x) (auto simp: take_Cons')
  then show ?thesis using assms(3-5) by (auto simp: fingerprint_def start_position_def sha_collision_def Sum256_hex_inj)
qed

text \<open>Where the source starts at the beginning, a file with another content is read from the offset of the old one.\<close>

lemma replaced_file_keeps_offset:
  "Fingerprint c \<noteq> fp \<Longrightarrow> src_StartAt source \<noteq> ''end'' \<Longrightarrow> start_position source (Some c) fp size' = (False, Generation c + 1, Offset c)"
  by (simp add: start_position_def)

text \<open>No checkpoint is ever removed, but a restart refuses more than four times \<^verbatim>\<open>maxFiles\<close> of them.\<close>

lemma too_many_checkpoints:
  assumes "live s (checkpointPath source) = Some fi" "private_file s fi" "f_data fi = marshal_state st" "fs_fates s = []"
    and "state_ok source st" "Files st = Some m" "length (marshal_state st) \<le> 4194304" "maxFiles * 4 < int (length m)"
  shows "fst (loadCheckpoint source maxFiles s) = Inl (Failure ''log checkpoint invalid; retained'')"
  using load_file_found[OF assms(1,2), of 4194304] unmarshal_marshal_state[OF assms(5,6)] assms
  by (simp add: loadCheckpoint_def andThen_def raise_def)

end
