(* ===== verification/Journal.thy ===== *)
theory Journal
  imports Tailer
begin

text \<open>
  The journal reader (\<^verbatim>\<open>src/internal/journaltail/reader_linux.go\<close>): the arguments of \<^verbatim>\<open>journalctl\<close>, the parsing of its
  records, their admission, and the cursor checkpoint.

  The output of a process is the list of bytes it writes before its end, and whether reading it ended in an error. As for
  the file tailer, admission, activation and the clock act on a world \<open>'w\<close>. Times are in nanoseconds.
\<close>

section \<open>State\<close>

record journal_record =
  jr_AdmissionID :: bytes
  jr_Body :: bytes
  jr_ObservedAt :: int
  jr_ServiceName :: bytes
  jr_SeverityText :: bytes
  jr_Attributes :: "(bytes \<times> bytes) list"

record journal_stats =
  js_RecordsRead :: u64
  js_RecordsRejectedLocal :: u64
  js_PermissionErrors :: u64
  js_CheckpointErrors :: u64
  js_ReaderErrors :: u64

record journal_checkpoint =
  jc_Version :: int
  jc_SourceID :: bytes
  jc_Cursor :: bytes
  jc_SinceMicros :: int
  jc_AdmissionID :: bytes
  jc_UpdatedAt :: int

record 'w reader =
  rd_cfg :: journald_source
  rd_admit :: "journal_record \<Rightarrow> 'w \<Rightarrow> error option \<times> 'w"
  rd_activate :: "(bytes \<Rightarrow> 'w \<Rightarrow> error option \<times> 'w) option"
  rd_clock :: "'w \<Rightarrow> int \<times> 'w"
  rd_running :: bool
  rd_stats :: journal_stats
  rd_cp :: journal_checkpoint
  rd_fs :: fs
  rd_world :: 'w

definition maxJournalRecordBytes :: nat where "maxJournalRecordBytes = 1048576"

definition fresh_journal :: journal_checkpoint where
  "fresh_journal = \<lparr>jc_Version = 1, jc_SourceID = ''journald'', jc_Cursor = [], jc_SinceMicros = 0, jc_AdmissionID = [], jc_UpdatedAt = 0\<rparr>"

definition rd_tick :: "'w reader \<Rightarrow> int \<times> 'w reader" where
  "rd_tick r = (case rd_clock r (rd_world r) of (n, w) \<Rightarrow> (n, r\<lparr>rd_world := w\<rparr>))"

definition count_journal_read :: "'w reader \<Rightarrow> 'w reader" where
  "count_journal_read r = r\<lparr>rd_stats := (rd_stats r)\<lparr>js_RecordsRead := js_RecordsRead (rd_stats r) + 1\<rparr>\<rparr>"

definition count_journal_rejected :: "'w reader \<Rightarrow> 'w reader" where
  "count_journal_rejected r = r\<lparr>rd_stats := (rd_stats r)\<lparr>js_RecordsRejectedLocal := js_RecordsRejectedLocal (rd_stats r) + 1\<rparr>\<rparr>"

definition count_journal_checkpoint :: "'w reader \<Rightarrow> 'w reader" where
  "count_journal_checkpoint r = r\<lparr>rd_stats := (rd_stats r)\<lparr>js_CheckpointErrors := js_CheckpointErrors (rd_stats r) + 1\<rparr>\<rparr>"

text \<open>The errors of one run of the process are counted, permission errors once more.\<close>

definition count_reader_error :: "error option \<Rightarrow> 'w reader \<Rightarrow> 'w reader" where
  "count_reader_error e r =
     (let s = rd_stats r; s1 = s\<lparr>js_ReaderErrors := js_ReaderErrors s + 1\<rparr> in
      r\<lparr>rd_stats := (if e = Some Permission then s1\<lparr>js_PermissionErrors := js_PermissionErrors s1 + 1\<rparr> else s1)\<rparr>)"

section \<open>The checkpoint\<close>

definition json_journal :: "journal_checkpoint \<Rightarrow> json" where
  "json_journal c = JObj
     ([(''version'', JNum (dec_int (jc_Version c))), (''source_id'', json_text (jc_SourceID c)), (''cursor'', json_text (jc_Cursor c))] @
      (if jc_SinceMicros c = 0 then [] else [(''since_micros'', JNum (dec_int (jc_SinceMicros c)))]) @
      (if jc_AdmissionID c = [] then [] else [(''admission_id'', json_text (jc_AdmissionID c))]) @
      [(''updated_at'', JNum (dec_int (jc_UpdatedAt c)))])"

definition set_journal :: "bytes \<Rightarrow> bytes \<Rightarrow> journal_checkpoint \<Rightarrow> journal_checkpoint option" where
  "set_journal f v c =
     (if f = ''version'' then map_option (\<lambda>x. c\<lparr>jc_Version := x\<rparr>) (get_int v (jc_Version c))
      else if f = ''source_id'' then map_option (\<lambda>x. c\<lparr>jc_SourceID := x\<rparr>) (get_string v (jc_SourceID c))
      else if f = ''cursor'' then map_option (\<lambda>x. c\<lparr>jc_Cursor := x\<rparr>) (get_string v (jc_Cursor c))
      else if f = ''since_micros'' then map_option (\<lambda>x. c\<lparr>jc_SinceMicros := x\<rparr>) (get_int v (jc_SinceMicros c))
      else if f = ''admission_id'' then map_option (\<lambda>x. c\<lparr>jc_AdmissionID := x\<rparr>) (get_string v (jc_AdmissionID c))
      else map_option (\<lambda>x. c\<lparr>jc_UpdatedAt := x\<rparr>) (get_int v (jc_UpdatedAt c)))"

definition unmarshal_journal :: "bytes \<Rightarrow> journal_checkpoint option" where
  "unmarshal_journal b =
     (case json_fields b of None \<Rightarrow> None
      | Some kvs \<Rightarrow> set_fields [''version'', ''source_id'', ''cursor'', ''since_micros'', ''admission_id'', ''updated_at''] set_journal kvs
          \<lparr>jc_Version = 0, jc_SourceID = [], jc_Cursor = [], jc_SinceMicros = 0, jc_AdmissionID = [], jc_UpdatedAt = 0\<rparr>)"

definition journal_saveCheckpoint :: "journal_checkpoint \<Rightarrow> unit io" where
  "journal_saveCheckpoint c = save_file ''journald.json'' (pr (json_journal c))"

text \<open>The limit of 16 KiB is 16384.\<close>

definition journal_loadCheckpoint :: "journal_checkpoint io" where
  "journal_loadCheckpoint =
     andThen (load_file ''journald.json'' 16384 ''journald checkpoint is unsafe; retained'') (\<lambda>o'.
       case o' of
         None \<Rightarrow> ret fresh_journal
       | Some b \<Rightarrow>
           (case unmarshal_journal b of
              None \<Rightarrow> raise (Failure ''journald checkpoint invalid; retained'')
            | Some c \<Rightarrow>
                if jc_Version c \<noteq> 1 \<or> jc_SourceID c \<noteq> ''journald'' \<or> 4096 < length (jc_Cursor c) \<or> jc_SinceMicros c < 0
                then raise (Failure ''journald checkpoint invalid; retained'') else ret c))"

definition rd_save :: "'w reader \<Rightarrow> unit result \<times> 'w reader" where
  "rd_save r = (case journal_saveCheckpoint (rd_cp r) (rd_fs r) of (x, s) \<Rightarrow> (x, r\<lparr>rd_fs := s\<rparr>))"

section \<open>Records\<close>

text \<open>
  Decoding into \<^verbatim>\<open>map[string]any\<close> fails for a number that no \<^verbatim>\<open>float64\<close> is near: one of absolute value
  2 to the 1024 less 2 to the 970, or more.
\<close>

definition float_overflows :: "bytes \<Rightarrow> bool" where
  "float_overflows l =
     (let a = (if l \<noteq> [] \<and> hd l = CHR ''-'' then tl l else l);
          mantissa = takeWhile (\<lambda>c. c \<noteq> CHR ''e'' \<and> c \<noteq> CHR ''E'') a;
          ex = tl (dropWhile (\<lambda>c. c \<noteq> CHR ''e'' \<and> c \<noteq> CHR ''E'') a);
          frac = tl (dropWhile (\<lambda>c. c \<noteq> CHR ''.'') mantissa);
          m = undec (filter is_digit mantissa);
          x = (if ex \<noteq> [] \<and> hd ex = CHR ''-'' then - int (undec (tl ex))
               else int (undec (if ex \<noteq> [] \<and> hd ex = CHR ''+'' then tl ex else ex))) - int (length frac);
          bound = 2 ^ 1024 - 2 ^ 970
      in m \<noteq> 0 \<and> (if 0 \<le> x then bound \<le> m * 10 ^ nat x else bound * 10 ^ nat (- x) \<le> m))"

fun any_ok :: "json \<Rightarrow> bool" where
  "any_ok (JNum l) = (\<not> float_overflows l)"
| "any_ok (JArr vs) = list_all any_ok vs"
| "any_ok (JObj kvs) = list_all (\<lambda>(_, v). any_ok v) kvs"
| "any_ok _ = True"

text \<open>The values of the record: a later member replaces an earlier one; \<open>None\<close> where decoding fails.\<close>

definition journal_values :: "bytes \<Rightarrow> (bytes \<times> json) list option" where
  "journal_values raw =
     (case json_parse raw of
        Some JNull \<Rightarrow> Some []
      | Some (JObj kvs) \<Rightarrow> if any_ok (JObj kvs) then Some (rev (map (\<lambda>(k, v). (unquote k, v)) kvs)) else None
      | _ \<Rightarrow> None)"

definition stringValue :: "json option \<Rightarrow> bytes" where
  "stringValue v = (case v of Some (JStr b) \<Rightarrow> unquote b | _ \<Rightarrow> [])"

definition bounded :: "bytes \<Rightarrow> nat \<Rightarrow> bytes" where
  "bounded s m = (if m < length s \<or> CHR 0x00 \<in> set s then [] else s)"

definition severity :: "bytes \<Rightarrow> bytes" where
  "severity p =
     (if p = ''0'' \<or> p = ''1'' \<or> p = ''2'' then ''FATAL'' else if p = ''3'' then ''ERROR'' else if p = ''4'' then ''WARN''
      else if p = ''5'' \<or> p = ''6'' then ''INFO'' else if p = ''7'' then ''DEBUG'' else [])"

definition journal_admission :: "bytes \<Rightarrow> bytes" where
  "journal_admission cursor = Sum256_hex (''observe-journald-admission-v1'' @ NUL @ ''journald'' @ NUL @ cursor)"

definition put_attribute :: "bytes \<Rightarrow> bytes \<Rightarrow> nat \<Rightarrow> (bytes \<times> bytes) list" where
  "put_attribute key value m = (if bounded value m = [] then [] else [(key, bounded value m)])"

text \<open>The record and its cursor.\<close>

definition parseRecord :: "bytes \<Rightarrow> int \<Rightarrow> (journal_record \<times> bytes) option" where
  "parseRecord raw fallback =
     (if raw = [] \<or> maxJournalRecordBytes < length raw then None
      else case journal_values raw of None \<Rightarrow> None | Some values \<Rightarrow>
      (let str = (\<lambda>k. stringValue (map_of values k)); cursor = str ''__CURSOR''; body' = str ''MESSAGE'' in
       if cursor = [] \<or> 4096 < length cursor \<or> body' = [] \<or> maxJournalRecordBytes < length body' then None
       else
         let observed = (case ParseInt (str ''__REALTIME_TIMESTAMP'') of
                           Some micros \<Rightarrow> if 0 < micros then micros * 1000 else fallback | None \<Rightarrow> fallback);
             unit' = bounded (str ''_SYSTEMD_UNIT'') 256;
             identifier' = bounded (str ''SYSLOG_IDENTIFIER'') 256;
             service = (if identifier' = [] then TrimSuffix unit' ''.service'' else identifier')
         in Some (\<lparr>jr_AdmissionID = journal_admission cursor, jr_Body = body', jr_ObservedAt = observed, jr_ServiceName = service,
               jr_SeverityText = severity (str ''PRIORITY''),
               jr_Attributes = put_attribute ''systemd.unit'' (str ''_SYSTEMD_UNIT'') 256 @
                 put_attribute ''log.syslog.identifier'' (str ''SYSLOG_IDENTIFIER'') 256 @
                 put_attribute ''log.syslog.priority'' (str ''PRIORITY'') 8 @ put_attribute ''process.pid'' (str ''_PID'') 32 @
                 put_attribute ''process.executable.name'' (str ''_COMM'') 256 @ put_attribute ''journald.transport'' (str ''_TRANSPORT'') 64\<rparr>, cursor)))"

section \<open>The stream\<close>

text \<open>
  \<^verbatim>\<open>bufio.Scanner\<close> over lines with a buffer of at most \<open>maxJournalRecordBytes\<close>: the tokens, without their line endings, and
  whether the scan ended with an error. A line that fills the buffer without a newline in it is an error.
\<close>

definition drop_CR :: "bytes \<Rightarrow> bytes" where
  "drop_CR s = (if s \<noteq> [] \<and> last s = CR then butlast s else s)"

function scan_lines :: "nat \<Rightarrow> bytes \<Rightarrow> bool \<Rightarrow> bytes list \<times> bool" where
  "scan_lines lim s failed =
     (let l = takeWhile (\<lambda>c. c \<noteq> NL) s in
      if s = [] then ([], failed)
      else if lim \<le> length l then ([], True)
      else if NL \<notin> set s then ([drop_CR l], failed)
      else let (ts, e) = scan_lines lim (drop (length l + 1) s) failed in (drop_CR l # ts, e))"
  by pat_completeness auto
termination
  by (relation "measure (\<lambda>(lim, s, failed). length s)") (auto simp: diff_less)

declare scan_lines.simps [simp del]

text \<open>One record: \<open>Some e\<close> where \<open>consume\<close> returns the error \<open>e\<close>.\<close>

definition consume_record :: "bytes \<Rightarrow> 'w reader \<Rightarrow> error option \<times> 'w reader" where
  "consume_record token r =
     (case rd_tick r of (fallback, r1) \<Rightarrow>
      case parseRecord token fallback of None \<Rightarrow> (None, count_journal_rejected r1) | Some (record', cursor) \<Rightarrow>
      (case rd_admit r1 record' (rd_world r1) of
         (Some e, w) \<Rightarrow> (Some e, r1\<lparr>rd_world := w\<rparr>)
       | (None, w) \<Rightarrow>
           (case rd_tick (r1\<lparr>rd_world := w\<rparr>) of (now, r2) \<Rightarrow>
            case rd_save (r2\<lparr>rd_cp := \<lparr>jc_Version = 1, jc_SourceID = ''journald'', jc_Cursor = cursor, jc_SinceMicros = 0,
                 jc_AdmissionID = jr_AdmissionID record', jc_UpdatedAt = now\<rparr>\<rparr>) of
              (Inl e, r3) \<Rightarrow> (Some e, count_journal_checkpoint (r3\<lparr>rd_cp := rd_cp r\<rparr>))
            | (Inr _, r3) \<Rightarrow>
                (case rd_activate r3 of None \<Rightarrow> (None, count_journal_read r3) | Some act \<Rightarrow>
                 (case act (jr_AdmissionID record') (rd_world r3) of
                    (Some e, w') \<Rightarrow> (Some e, r3\<lparr>rd_world := w'\<rparr>)
                  | (None, w') \<Rightarrow> (None, count_journal_read (r3\<lparr>rd_world := w'\<rparr>)))))))"

fun consume_tokens :: "bytes list \<Rightarrow> 'w reader \<Rightarrow> error option \<times> 'w reader" where
  "consume_tokens [] r = (None, r)"
| "consume_tokens (t # ts) r =
     (case consume_record t r of (Some e, r1) \<Rightarrow> (Some e, r1) | (None, r1) \<Rightarrow> consume_tokens ts r1)"

definition consume_journal :: "bytes \<Rightarrow> bool \<Rightarrow> 'w reader \<Rightarrow> error option \<times> 'w reader" where
  "consume_journal input failed r =
     (case scan_lines maxJournalRecordBytes input failed of (ts, bad) \<Rightarrow>
      case consume_tokens ts r of
        (Some e, r1) \<Rightarrow> (Some e, r1)
      | (None, r1) \<Rightarrow> (if bad then Some (Failure ''journal record stream invalid or exceeds bound'') else None, r1))"

section \<open>Running the process\<close>

definition arguments :: "journald_source \<Rightarrow> journal_checkpoint \<Rightarrow> bytes list" where
  "arguments cfg c =
     [''--output=json'', ''--follow'', ''--no-pager'', ''--quiet''] @
     (if jc_Cursor c \<noteq> [] then [''--after-cursor='' @ jc_Cursor c]
      else if 0 < jc_SinceMicros c then [''--since=@'' @ dec_int (jc_SinceMicros c div 1000000)]
      else if jd_StartAt cfg = ''beginning'' then [''--lines=all''] else [''--lines=0'']) @
     map (\<lambda>u. ''--unit='' @ u) (Units cfg) @ map (\<lambda>u. ''--identifier='' @ u) (Identifiers cfg) @
     (if jd_Priority cfg = [] then [] else [''--priority='' @ jd_Priority cfg])"

text \<open>How \<^verbatim>\<open>commandStarter\<close> starts the process: the pipe and the start may fail.\<close>

definition commandStarter :: "error option \<Rightarrow> error option \<Rightarrow> error option" where
  "commandStarter pipe begin' =
     (if pipe \<noteq> None then Some (Failure ''journal reader unavailable'')
      else case begin' of None \<Rightarrow> None
      | Some e \<Rightarrow> if e = Permission then Some Permission else Some (Failure ''journal reader unavailable''))"

text \<open>
  One run of the process: an error at its start, or its output and how waiting for it ends; the output is a function of
  the arguments it was given. Afterwards the context may have been cancelled.
\<close>

record process =
  pr_start :: "error option"
  pr_output :: "bytes list \<Rightarrow> bytes \<times> bool"
  pr_wait :: "error option"
  pr_canceled :: bool

definition run_process :: "process \<Rightarrow> 'w reader \<Rightarrow> error option \<times> 'w reader" where
  "run_process p r =
     (case pr_start p of Some e \<Rightarrow> (Some e, r) | None \<Rightarrow>
      (case pr_output p (arguments (rd_cfg r) (rd_cp r)) of (input, failed) \<Rightarrow>
       case consume_journal input failed r of
         (Some e, r1) \<Rightarrow> (Some e, r1)
       | (None, r1) \<Rightarrow> (pr_wait p, r1)))"

text \<open>The loop of \<open>run\<close> over the runs of the process until the context ends.\<close>

fun run :: "process list \<Rightarrow> 'w reader \<Rightarrow> 'w reader" where
  "run [] r = r"
| "run (p # ps) r =
     (case run_process p r of (e, r1) \<Rightarrow> if pr_canceled p then r1 else run ps (count_reader_error e r1))"

definition journal_ensurePrivateDir :: "dir_env \<Rightarrow> bytes \<Rightarrow> error option" where
  "journal_ensurePrivateDir = private_dir ''journald checkpoint directory must be absolute'' ''journald checkpoint path contains symlink''
     ''journald checkpoint directory must be private''"

definition NewReader :: "journald_source \<Rightarrow> (journal_record \<Rightarrow> 'w \<Rightarrow> error option \<times> 'w) \<Rightarrow> (bytes \<Rightarrow> 'w \<Rightarrow> error option \<times> 'w) option
    \<Rightarrow> ('w \<Rightarrow> int \<times> 'w) \<Rightarrow> fs \<Rightarrow> 'w \<Rightarrow> 'w reader" where
  "NewReader cfg adm act clock s w =
     \<lparr>rd_cfg = cfg, rd_admit = adm, rd_activate = act, rd_clock = clock, rd_running = False,
      rd_stats = \<lparr>js_RecordsRead = 0, js_RecordsRejectedLocal = 0, js_PermissionErrors = 0, js_CheckpointErrors = 0, js_ReaderErrors = 0\<rparr>,
      rd_cp = \<lparr>jc_Version = 0, jc_SourceID = [], jc_Cursor = [], jc_SinceMicros = 0, jc_AdmissionID = [], jc_UpdatedAt = 0\<rparr>,
      rd_fs = s, rd_world = w\<rparr>"

text \<open>The watermark of a source that starts at the end; microseconds are thousands of nanoseconds.\<close>

definition initial_watermark :: "'w reader \<Rightarrow> error option \<times> 'w reader" where
  "initial_watermark r =
     (if jd_StartAt (rd_cfg r) = ''end'' \<and> jc_Cursor (rd_cp r) = [] \<and> jc_SinceMicros (rd_cp r) = 0
      then (case rd_tick r of (n1, r1) \<Rightarrow> case rd_tick r1 of (n2, r2) \<Rightarrow>
            case rd_save (r2\<lparr>rd_cp := (rd_cp r2)\<lparr>jc_SinceMicros := n1 div 1000, jc_UpdatedAt := n2\<rparr>\<rparr>) of
              (Inl e, r3) \<Rightarrow> (Some (Failure ''journald initial checkpoint unavailable''), r3)
            | (Inr _, r3) \<Rightarrow> (None, r3))
      else (None, r))"

text \<open>\<open>lookup\<close>: whether \<^verbatim>\<open>journalctl\<close> was found.\<close>

definition StartJournal :: "dir_env \<Rightarrow> bytes \<Rightarrow> bool \<Rightarrow> 'w reader \<Rightarrow> error option \<times> 'w reader" where
  "StartJournal de dir lookup r =
     (if \<not> jd_Enabled (rd_cfg r) then (Some (Failure ''journald source disabled''), r)
      else case journal_ensurePrivateDir de dir of Some e \<Rightarrow> (Some e, r) | None \<Rightarrow>
      (case journal_loadCheckpoint (rd_fs r) of
         (Inl e, s) \<Rightarrow> (Some e, r\<lparr>rd_fs := s, rd_cp := fresh_journal\<rparr>)
       | (Inr c, s) \<Rightarrow>
           (case initial_watermark (r\<lparr>rd_fs := s, rd_cp := c\<rparr>) of
              (Some e, r1) \<Rightarrow> (Some e, r1)
            | (None, r1) \<Rightarrow>
                (case (case rd_activate r1 of
                         Some act \<Rightarrow> if jc_AdmissionID (rd_cp r1) = [] then (None, rd_world r1)
                                     else act (jc_AdmissionID (rd_cp r1)) (rd_world r1)
                       | None \<Rightarrow> (None, rd_world r1)) of
                   (Some e, w) \<Rightarrow> (Some (Failure ''journald admission recovery failed''), r1\<lparr>rd_world := w\<rparr>)
                 | (None, w) \<Rightarrow>
                     if \<not> lookup then (Some (Failure ''journalctl unavailable''), r1\<lparr>rd_world := w\<rparr>)
                     else (None, r1\<lparr>rd_world := w, rd_running := True\<rparr>)))))"

definition StopJournal :: "bool \<Rightarrow> 'w reader \<Rightarrow> error option" where
  "StopJournal finished r = (if rd_running r \<and> \<not> finished then Some (Failure ''journal reader did not stop'') else None)"

definition JournalStats :: "'w reader \<Rightarrow> journal_stats" where
  "JournalStats r = rd_stats r"

end
