(* ===== verification/JournalFacts.thy ===== *)
theory JournalFacts
  imports Journal "HOL-Library.Sublist"
begin

text \<open>
  What the journal reader guarantees (\<^verbatim>\<open>src/internal/journaltail/reader_linux.go\<close>): its cursor never passes a record that was
  not admitted, not even the cursor a restart finds after a crash; and where it gets stuck.
\<close>

section \<open>The checkpoint is read back\<close>

lemma journal_names_text:
  "list_all text_char ''cursor''" "list_all text_char ''since_micros''"
  by (simp_all add: text_char_def plain_def char_consts)

lemmas journal_names_unquote = journal_names_text[THEN unquote_text] checkpoint_names_unquote
lemmas journal_names_body = journal_names_text[THEN text_body] checkpoint_names_body

definition journal_ok :: "journal_checkpoint \<Rightarrow> bool" where
  "journal_ok c \<longleftrightarrow> jc_Version c = 1 \<and> jc_SourceID c = ''journald'' \<and> utf8_Valid (jc_Cursor c) \<and> length (jc_Cursor c) \<le> 4096 \<and>
     0 \<le> jc_SinceMicros c \<and> jc_SinceMicros c < 2 ^ 63 \<and> utf8_Valid (jc_AdmissionID c) \<and> 0 \<le> jc_UpdatedAt c \<and> jc_UpdatedAt c < 2 ^ 63"

lemma unmarshal_json_journal:
  assumes "journal_ok c" shows "unmarshal_journal (pr (json_journal c)) = Some c"
proof -
  define sm where "sm = (if jc_SinceMicros c = 0 then [] else [(''since_micros'', pr (JNum (dec_int (jc_SinceMicros c))))])"
  define adm where "adm = (if jc_AdmissionID c = [] then [] else [(''admission_id'', pr (json_text (jc_AdmissionID c)))])"
  have src: "utf8_Valid ''journald''" by code_simp
  have "json_wf (Suc d) (json_journal c)" for d
    using json_wf_num[of 1 d] json_wf_num[of "jc_SinceMicros c" d] json_wf_num[of "jc_UpdatedAt c" d] assms
    by (simp add: json_journal_def journal_ok_def journal_names_body json_wf_text)
  from this[of "maxNestingDepth - 1"] have wf: "json_wf maxNestingDepth (json_journal c)" using maxNesting_Suc by simp
  have f: "json_fields (pr (json_journal c)) = Some
     ([(''version'', pr (JNum (dec_int 1))), (''source_id'', pr (json_text ''journald'')), (''cursor'', pr (json_text (jc_Cursor c)))] @ sm @ adm @
      [(''updated_at'', pr (JNum (dec_int (jc_UpdatedAt c))))])"
    using json_fields_pr[OF wf[unfolded json_journal_def]] assms
    by (simp add: json_journal_def journal_names_unquote sm_def adm_def journal_ok_def del: pr.simps)
  have ok: "get_int (pr (JNum (dec_int 1))) old = Some 1" "get_int (pr (JNum (dec_int (jc_SinceMicros c)))) old = Some (jc_SinceMicros c)"
    "get_int (pr (JNum (dec_int (jc_UpdatedAt c)))) old = Some (jc_UpdatedAt c)"
    "get_string (pr (json_text ''journald'')) olds = Some ''journald''" "get_string (pr (json_text (jc_Cursor c))) olds = Some (jc_Cursor c)"
    "get_string (pr (json_text (jc_AdmissionID c))) olds = Some (jc_AdmissionID c)" for old olds
    using assms src get_int_nonneg[of 1 old] by (simp_all add: journal_ok_def get_int_nonneg get_string_quoted del: pr.simps)
  show ?thesis using assms
    by (simp add: unmarshal_journal_def f match_field_def set_journal_def ok sm_def adm_def journal_ok_def del: pr.simps)
qed

lemma journal_checkpoint_loads:
  assumes "live s ''journald.json'' = Some fi" "private_file s fi" "f_data fi = pr (json_journal c)" "journal_ok c"
    "length (f_data fi) \<le> 16384" "fs_fates s = []"
  shows "journal_loadCheckpoint s = (Inr c, s)"
  using load_file_found[OF assms(1,2,5,6)] unmarshal_json_journal[OF assms(4)] assms(3,4)
  by (simp add: journal_loadCheckpoint_def andThen_def ret_def journal_ok_def)

section \<open>Readers that record what they admit\<close>

text \<open>The records that were admitted, in order. Only a successful admission adds to them.\<close>

type_synonym 'v journaled = "(journal_record list \<times> 'v) reader"

definition journaling :: "'v journaled \<Rightarrow> bool" where
  "journaling r \<longleftrightarrow>
     (\<forall>x w. case rd_admit r x w of (None, w') \<Rightarrow> fst w' = fst w @ [x] | (Some _, w') \<Rightarrow> fst w' = fst w) \<and>
     (\<forall>act i w. rd_activate r = Some act \<longrightarrow> fst (snd (act i w)) = fst w) \<and> (\<forall>w. fst (snd (rd_clock r w)) = fst w)"

definition delivered :: "'v journaled \<Rightarrow> journal_record list" where
  "delivered r = fst (rd_world r)"

text \<open>The records of a list of lines, each with the time that stands in for a missing one, and the cursor after them.\<close>

fun records_of :: "bytes list \<Rightarrow> int list \<Rightarrow> (journal_record \<times> bytes) list" where
  "records_of (t # ts) (n # ns) = (case parseRecord t n of None \<Rightarrow> [] | Some x \<Rightarrow> [x]) @ records_of ts ns"
| "records_of _ _ = []"

definition last_cursor :: "bytes \<Rightarrow> (journal_record \<times> bytes) list \<Rightarrow> bytes" where
  "last_cursor old xs = (if xs = [] then old else snd (last xs))"

lemma records_of_snoc: "length ts = length ns \<Longrightarrow>
   records_of (ts @ [t]) (ns @ [n]) = records_of ts ns @ (case parseRecord t n of None \<Rightarrow> [] | Some x \<Rightarrow> [x])"
  by (induction ts ns rule: list_induct2) simp_all

text \<open>
  \<open>admitted_up_to r0 r ts ns\<close>: all records of the lines \<open>ts\<close> have been admitted between \<open>r0\<close> and \<open>r\<close>, in order and before any others.
\<close>

definition admitted_up_to :: "'v journaled \<Rightarrow> 'v journaled \<Rightarrow> bytes list \<Rightarrow> int list \<Rightarrow> bool" where
  "admitted_up_to r0 r ts ns \<longleftrightarrow> length ns = length ts \<and> prefix (delivered r0 @ map fst (records_of ts ns)) (delivered r)"

text \<open>A checkpoint file whose cursor is the one after lines whose records have all been admitted.\<close>

definition cursor_file :: "'v journaled \<Rightarrow> 'v journaled \<Rightarrow> bytes list \<Rightarrow> inode \<Rightarrow> bool" where
  "cursor_file r0 r lines fi \<longleftrightarrow> private_file (rd_fs r) fi \<and> f_synced fi \<and>
     (\<exists>c ts ns. prefix ts lines \<and> f_data fi = pr (json_journal c) \<and>
        jc_Cursor c = last_cursor (jc_Cursor (rd_cp r0)) (records_of ts ns) \<and> admitted_up_to r0 r ts ns)"

definition entries :: "'w reader \<Rightarrow> inode option set" where
  "entries r = insert (live (rd_fs r) ''journald.json'') (poss (rd_fs r) ''journald.json'')"

definition cursor_safe :: "'v journaled \<Rightarrow> 'v journaled \<Rightarrow> bytes list \<Rightarrow> bool" where
  "cursor_safe r0 r lines \<longleftrightarrow> journaling r \<and> fs_euid (rd_fs r) = fs_euid (rd_fs r0) \<and> stage_ok (rd_fs r) ''journald.json'' \<and>
     (\<forall>v \<in> entries r. v \<in> entries r0 \<or> (\<exists>fi. v = Some fi \<and> cursor_file r0 r lines fi))"

text \<open>The state after the lines \<open>ts\<close>.\<close>

definition after_lines :: "'v journaled \<Rightarrow> 'v journaled \<Rightarrow> bytes list \<Rightarrow> int list \<Rightarrow> bool" where
  "after_lines r0 r ts ns \<longleftrightarrow> length ns = length ts \<and> delivered r = delivered r0 @ map fst (records_of ts ns) \<and>
     jc_Cursor (rd_cp r) = last_cursor (jc_Cursor (rd_cp r0)) (records_of ts ns)"

lemma cursor_safe_step:
  assumes "cursor_safe r0 r ls" "rd_admit r' = rd_admit r" "rd_activate r' = rd_activate r" "rd_clock r' = rd_clock r"
    "rd_fs r' = rd_fs r" "prefix (delivered r) (delivered r')"
  shows "cursor_safe r0 r' ls"
proof -
  have "admitted_up_to r0 r' ts ns" if "admitted_up_to r0 r ts ns" for ts ns
    using that prefix_order.trans[OF _ assms(6)] by (auto simp: admitted_up_to_def)
  then have "cursor_file r0 r' ls fi" if "cursor_file r0 r ls fi" for fi
    using that assms(5) unfolding cursor_file_def by metis
  moreover have "journaling r'" using assms(1-4) by (simp add: cursor_safe_def journaling_def)
  moreover have "entries r' = entries r" using assms(5) by (simp add: entries_def)
  ultimately show ?thesis using assms(1,5) unfolding cursor_safe_def by auto
qed

lemma cursor_safe_save:
  assumes cs: "cursor_safe r0 r ls" and sv: "rd_save r = (x, r')"
    and new: "prefix ts ls" "jc_Cursor (rd_cp r) = last_cursor (jc_Cursor (rd_cp r0)) (records_of ts ns)" "admitted_up_to r0 r ts ns"
  shows "cursor_safe r0 r' ls \<and> delivered r' = delivered r \<and> rd_cp r' = rd_cp r \<and> rd_activate r' = rd_activate r"
proof -
  have fs: "save_file ''journald.json'' (pr (json_journal (rd_cp r))) (rd_fs r) = (x, rd_fs r')" and r': "r' = r\<lparr>rd_fs := rd_fs r'\<rparr>"
    using sv by (auto simp: rd_save_def journal_saveCheckpoint_def split: prod.splits)
  have d: "delivered r' = delivered r" by (subst r') (simp add: delivered_def)
  from save_file_step[OF fs] cs obtain fi where fi: "stage_ok (rd_fs r') ''journald.json''" "fs_euid (rd_fs r') = fs_euid (rd_fs r)"
    "private_file (rd_fs r) fi" "f_data fi = pr (json_journal (rd_cp r))" "f_synced fi" "entries r' \<subseteq> insert (Some fi) (entries r)"
    by (auto simp: cursor_safe_def entries_def)
  have au: "admitted_up_to r0 r' = admitted_up_to r0 r" by (simp add: admitted_up_to_def d fun_eq_iff)
  have cf: "cursor_file r0 r' ls = cursor_file r0 r ls"
    by (simp add: cursor_file_def au private_file_euid[OF fi(2)] fun_eq_iff)
  have "cursor_file r0 r ls fi" using fi(3-5) new by (auto simp: cursor_file_def)
  then have "\<forall>v \<in> entries r'. v \<in> entries r0 \<or> (\<exists>fi. v = Some fi \<and> cursor_file r0 r ls fi)"
    using fi(6) cs unfolding cursor_safe_def by blast
  moreover have "journaling r'" using cs by (subst r') (simp add: cursor_safe_def journaling_def)
  ultimately have "cursor_safe r0 r' ls" using cs fi(1,2) cf by (simp add: cursor_safe_def)
  moreover have "rd_cp r' = rd_cp r \<and> rd_activate r' = rd_activate r" by (subst (1 2) r') simp
  ultimately show ?thesis using d by blast
qed

lemma cursor_safe_tick:
  "cursor_safe r0 r ls \<Longrightarrow> rd_tick r = (n, r') \<Longrightarrow> cursor_safe r0 r' ls \<and> delivered r' = delivered r \<and> rd_cp r' = rd_cp r \<and>
     rd_admit r' = rd_admit r \<and> rd_activate r' = rd_activate r"
proof -
  assume cs: "cursor_safe r0 r ls" and k: "rd_tick r = (n, r')"
  obtain w where r': "r' = r\<lparr>rd_world := w\<rparr>" "rd_clock r (rd_world r) = (n, w)" using k by (auto simp: rd_tick_def split: prod.splits)
  have "\<forall>w. fst (snd (rd_clock r w)) = fst w" using cs unfolding cursor_safe_def journaling_def by blast
  then have "fst w = fst (rd_world r)" using r'(2) by (metis snd_conv)
  then show ?thesis using cursor_safe_step[OF cs, of r'] r'(1) by (simp add: delivered_def)
qed

text \<open>Consuming one record.\<close>

lemma consume_record_safe:
  assumes cs: "cursor_safe r0 r ls" and st: "after_lines r0 r ts ns" and pf: "prefix (ts @ [t]) ls"
    and c: "consume_record t r = (e, r')"
  shows "cursor_safe r0 r' ls \<and>
    (\<exists>n. after_lines r0 r' (ts @ [t]) (ns @ [n])) \<or>
    cursor_safe r0 r' ls \<and> e \<noteq> None \<and> jc_Cursor (rd_cp r') = jc_Cursor (rd_cp r) \<and>
      (delivered r' = delivered r \<or> (\<exists>n x k. parseRecord t n = Some (x, k) \<and> delivered r' = delivered r @ [x]))"
proof -
  obtain n r1 where k1: "rd_tick r = (n, r1)" by fastforce
  note c1 = cursor_safe_tick[OF cs k1]
  have ln: "length ns = length ts" "delivered r = delivered r0 @ map fst (records_of ts ns)"
    "jc_Cursor (rd_cp r) = last_cursor (jc_Cursor (rd_cp r0)) (records_of ts ns)" using st by (simp_all add: after_lines_def)
  show ?thesis
  proof (cases "parseRecord t n")
    case None
    then have r': "e = None" "r' = count_journal_rejected r1" using c k1 by (simp_all add: consume_record_def)
    have "cursor_safe r0 r' ls" "delivered r' = delivered r" "rd_cp r' = rd_cp r"
      using cursor_safe_step[OF conjunct1[OF c1], of r'] c1 r' by (simp_all add: count_journal_rejected_def delivered_def)
    then show ?thesis using ln None records_of_snoc[of ts ns t n]
      by (intro disjI1 conjI exI[of _ n]) (simp_all add: after_lines_def)
  next
    case (Some xk)
    obtain x k where xk: "xk = (x, k)" by fastforce
    obtain o' w where aw: "rd_admit r1 x (rd_world r1) = (o', w)" by (cases "rd_admit r1 x (rd_world r1)")
    have jr: "journaling r1" using c1 by (simp add: cursor_safe_def)
    have adm: "case rd_admit r1 y v of (None, w') \<Rightarrow> fst w' = fst v @ [y] | (Some _, w') \<Rightarrow> fst w' = fst v" for y v
      using jr[unfolded journaling_def, THEN conjunct1] by (elim allE)
    show ?thesis
    proof (cases o')
      case (Some e')
      then have r': "e = Some e'" "r' = r1\<lparr>rd_world := w\<rparr>" using c k1 aw xk \<open>parseRecord t n = Some xk\<close> by (simp_all add: consume_record_def)
      have "fst w = fst (rd_world r1)" using adm[where y = x and v = "rd_world r1"] aw Some by simp
      then have "cursor_safe r0 r' ls" "delivered r' = delivered r" "rd_cp r' = rd_cp r"
        using cursor_safe_step[OF conjunct1[OF c1], of r'] c1 r' by (simp_all add: delivered_def)
      then show ?thesis using r' by simp
    next
      case None
      define r1w where "r1w = r1\<lparr>rd_world := w\<rparr>"
      have w: "fst w = fst (rd_world r1) @ [x]" using adm[where y = x and v = "rd_world r1"] aw None by simp
      have c2: "cursor_safe r0 r1w ls" "delivered r1w = delivered r @ [x]" "rd_cp r1w = rd_cp r"
        using cursor_safe_step[OF conjunct1[OF c1], of r1w] c1 w by (simp_all add: delivered_def r1w_def)
      obtain m r2 where k2: "rd_tick r1w = (m, r2)" by fastforce
      note c3 = cursor_safe_tick[OF c2(1) k2]
      define r2c where "r2c = r2\<lparr>rd_cp := \<lparr>jc_Version = 1, jc_SourceID = ''journald'', jc_Cursor = k, jc_SinceMicros = 0,
                 jc_AdmissionID = jr_AdmissionID x, jc_UpdatedAt = m\<rparr>\<rparr>"
      have c4: "cursor_safe r0 r2c ls" "delivered r2c = delivered r @ [x]" "jc_Cursor (rd_cp r2c) = k"
        using cursor_safe_step[OF conjunct1[OF c3], of r2c] c3 c2 by (simp_all add: r2c_def delivered_def)
      have rs: "records_of (ts @ [t]) (ns @ [n]) = records_of ts ns @ [(x, k)]"
        using records_of_snoc[of ts ns t n] ln(1) \<open>parseRecord t n = Some xk\<close> xk by simp
      have au: "admitted_up_to r0 r2c (ts @ [t]) (ns @ [n])" "jc_Cursor (rd_cp r2c) = last_cursor (jc_Cursor (rd_cp r0)) (records_of (ts @ [t]) (ns @ [n]))"
        using ln c4 rs by (simp_all add: admitted_up_to_def last_cursor_def)
      obtain s r3 where sv: "rd_save r2c = (s, r3)" by fastforce
      note c5 = cursor_safe_save[OF c4(1) sv pf au(2,1)]
      have eq: "(e, r') = (case s of Inl e \<Rightarrow> (Some e, count_journal_checkpoint (r3\<lparr>rd_cp := rd_cp r\<rparr>))
            | Inr _ \<Rightarrow> (case rd_activate r3 of None \<Rightarrow> (None, count_journal_read r3) | Some act \<Rightarrow>
                 (case act (jr_AdmissionID x) (rd_world r3) of
                    (Some e, w') \<Rightarrow> (Some e, r3\<lparr>rd_world := w'\<rparr>)
                  | (None, w') \<Rightarrow> (None, count_journal_read (r3\<lparr>rd_world := w'\<rparr>)))))"
        using c k1 aw None xk \<open>parseRecord t n = Some xk\<close> k2 sv
        by (cases s) (simp_all add: consume_record_def flip: r1w_def r2c_def)
      show ?thesis
      proof (cases s)
        case (Inl e')
        then have r': "e = Some e'" "r' = count_journal_checkpoint (r3\<lparr>rd_cp := rd_cp r\<rparr>)" using eq by simp_all
        have "cursor_safe r0 r' ls" "delivered r' = delivered r @ [x]" "rd_cp r' = rd_cp r"
          using cursor_safe_step[OF conjunct1[OF c5], of r'] c5 c4 r' by (simp_all add: count_journal_checkpoint_def delivered_def)
        then show ?thesis using r' xk \<open>parseRecord t n = Some xk\<close> by auto
      next
        case (Inr u)
        have j3: "journaling r3" using c5 by (simp add: cursor_safe_def)
        have act: "fst (snd (act i v)) = fst v" if "rd_activate r3 = Some act" for act i v
          using j3 that unfolding journaling_def by blast
        have "cursor_safe r0 r' ls \<and> delivered r' = delivered r3 \<and> rd_cp r' = rd_cp r3"
        proof (cases "rd_activate r3")
          case None
          then show ?thesis using eq Inr cursor_safe_step[OF conjunct1[OF c5], of r'] by (simp add: count_journal_read_def delivered_def)
        next
          case (Some f)
          obtain y w' where y: "f (jr_AdmissionID x) (rd_world r3) = (y, w')" by (cases "f (jr_AdmissionID x) (rd_world r3)")
          have "fst w' = fst (rd_world r3)" using act[OF Some, of "jr_AdmissionID x" "rd_world r3"] y by simp
          moreover have "r' = r3\<lparr>rd_world := w'\<rparr> \<or> r' = count_journal_read (r3\<lparr>rd_world := w'\<rparr>)" using eq Inr Some y by (cases y) simp_all
          ultimately show ?thesis using cursor_safe_step[OF conjunct1[OF c5], of r'] by (auto simp: count_journal_read_def delivered_def)
        qed
        then have "after_lines r0 r' (ts @ [t]) (ns @ [n])" "cursor_safe r0 r' ls"
          using c5 c4 ln rs au by (simp_all add: after_lines_def)
        then show ?thesis by blast
      qed
    qed
  qed
qed

text \<open>Consuming the lines of a stream.\<close>

lemma consume_tokens_safe:
  assumes "cursor_safe r0 r ls" "after_lines r0 r done' ns" "ls = done' @ ts" "consume_tokens ts r = (e, r')"
  shows "cursor_safe r0 r' ls \<and> (\<exists>k ms extra. k \<le> length ls \<and> length ms = k \<and>
     delivered r' = delivered r0 @ map fst (records_of (take k ls) ms) @ extra \<and>
     jc_Cursor (rd_cp r') = last_cursor (jc_Cursor (rd_cp r0)) (records_of (take k ls) ms) \<and>
     (e = None \<longrightarrow> k = length ls \<and> extra = []) \<and>
     (extra \<noteq> [] \<longrightarrow> k < length ls \<and> (\<exists>n x c. extra = [x] \<and> parseRecord (ls ! k) n = Some (x, c))))"
  using assms
proof (induction ts arbitrary: r done' ns)
  case Nil
  then show ?case by (intro conjI exI[of _ "length done'"] exI[of _ ns] exI[of _ "[]"]) (auto simp: after_lines_def)
next
  case (Cons t ts)
  obtain e1 r1 where c: "consume_record t r = (e1, r1)" by fastforce
  have pf: "prefix (done' @ [t]) ls" using Cons.prems(3) by (simp add: prefix_def)
  have ln: "length ns = length done'" using Cons.prems(2) by (simp add: after_lines_def)
  consider (go) n where "cursor_safe r0 r1 ls" "after_lines r0 r1 (done' @ [t]) (ns @ [n])"
    | (stop) "cursor_safe r0 r1 ls" "e1 \<noteq> None" "jc_Cursor (rd_cp r1) = jc_Cursor (rd_cp r)"
        "delivered r1 = delivered r \<or> (\<exists>n x k. parseRecord t n = Some (x, k) \<and> delivered r1 = delivered r @ [x])"
    using consume_record_safe[OF Cons.prems(1,2) pf c] by blast
  then show ?case
  proof cases
    case go
    show ?thesis
    proof (cases e1)
      case None
      have "consume_tokens ts r1 = (e, r')" using Cons.prems(4) c None by simp
      from Cons.IH[OF go _ this] Cons.prems(3) show ?thesis by simp
    next
      case (Some x)
      then have "e = e1" "r' = r1" using Cons.prems(4) c by simp_all
      then show ?thesis using go ln Some Cons.prems(3)
        by (intro conjI exI[of _ "length (done' @ [t])"] exI[of _ "ns @ [n]"] exI[of _ "[]"]) (auto simp: after_lines_def)
    qed
  next
    case stop
    then have e: "e = e1" "r' = r1" using Cons.prems(4) c by auto
    have nth: "ls ! length done' = t" "length done' < length ls" "take (length done') ls = done'" using Cons.prems(3) by simp_all
    show ?thesis
    proof (cases "delivered r1 = delivered r")
      case True
      then show ?thesis using e stop Cons.prems(2) nth
        by (intro conjI exI[of _ "length done'"] exI[of _ ns] exI[of _ "[]"]) (auto simp: after_lines_def)
    next
      case False
      then obtain n x k where "parseRecord t n = Some (x, k)" "delivered r1 = delivered r @ [x]" using stop(4) by blast
      then show ?thesis using e stop Cons.prems(2) nth
        by (intro conjI exI[of _ "length done'"] exI[of _ ns] exI[of _ "[x]"]) (auto simp: after_lines_def)
    qed
  qed
qed

text \<open>
  C19: Of the lines a journal process writes, the reader consumes a prefix: all records in it are admitted, in order, and the cursor is that of
  the last of them; where it stops, at most the next record was admitted as well, without a checkpoint. Whatever failed, the
  checkpoint file that a restart finds after a crash is the one from before, or holds a cursor behind which nothing was
  left out: the records of all lines up to that cursor have been admitted.
\<close>

theorem cursor_never_passes_a_record:
  assumes "journaling r" "stage_ok (rd_fs r) ''journald.json''"
    and "scan_lines maxJournalRecordBytes input failed = (ls, bad)" "consume_journal input failed r = (e, r')"
  shows "(\<exists>k ms extra. k \<le> length ls \<and> length ms = k \<and>
       delivered r' = delivered r @ map fst (records_of (take k ls) ms) @ extra \<and>
       jc_Cursor (rd_cp r') = last_cursor (jc_Cursor (rd_cp r)) (records_of (take k ls) ms) \<and>
       (e = None \<longrightarrow> k = length ls \<and> extra = []) \<and>
       (extra \<noteq> [] \<longrightarrow> k < length ls \<and> (\<exists>n x c. extra = [x] \<and> parseRecord (ls ! k) n = Some (x, c)))) \<and>
     (\<forall>v \<in> entries r'. v \<in> entries r \<or>
       (\<exists>fi c ts ns. v = Some fi \<and> private_file (rd_fs r') fi \<and> f_synced fi \<and> f_data fi = pr (json_journal c) \<and> prefix ts ls \<and>
          jc_Cursor c = last_cursor (jc_Cursor (rd_cp r)) (records_of ts ns) \<and> length ns = length ts \<and>
          prefix (delivered r @ map fst (records_of ts ns)) (delivered r')))"
proof -
  obtain e1 r1 where c: "consume_tokens ls r = (e1, r1)" by fastforce
  have e: "r' = r1" "e = None \<longrightarrow> e1 = None" using assms(3,4) c by (auto simp: consume_journal_def split: option.splits)
  have "cursor_safe r r ls" "after_lines r r [] []"
    using assms(1,2) by (simp_all add: cursor_safe_def after_lines_def last_cursor_def)
  note * = consume_tokens_safe[OF this _ c]
  then have "\<forall>v \<in> entries r1. v \<in> entries r \<or> (\<exists>fi. v = Some fi \<and> cursor_file r r1 ls fi)" by (simp add: cursor_safe_def)
  then have "\<forall>v \<in> entries r'. v \<in> entries r \<or>
       (\<exists>fi c ts ns. v = Some fi \<and> private_file (rd_fs r') fi \<and> f_synced fi \<and> f_data fi = pr (json_journal c) \<and> prefix ts ls \<and>
          jc_Cursor c = last_cursor (jc_Cursor (rd_cp r)) (records_of ts ns) \<and> length ns = length ts \<and>
          prefix (delivered r @ map fst (records_of ts ns)) (delivered r'))"
    unfolding cursor_file_def admitted_up_to_def e(1) by blast
  moreover have "\<exists>k ms extra. k \<le> length ls \<and> length ms = k \<and>
       delivered r' = delivered r @ map fst (records_of (take k ls) ms) @ extra \<and>
       jc_Cursor (rd_cp r') = last_cursor (jc_Cursor (rd_cp r)) (records_of (take k ls) ms) \<and>
       (e = None \<longrightarrow> k = length ls \<and> extra = []) \<and>
       (extra \<noteq> [] \<longrightarrow> k < length ls \<and> (\<exists>n x c. extra = [x] \<and> parseRecord (ls ! k) n = Some (x, c)))"
    using * e by simp blast
  ultimately show ?thesis by blast
qed

definition sample_reader :: "unit journaled" where
  "sample_reader = NewReader \<lparr>jd_Enabled = True, Units = [''ssh.service''], Identifiers = [], jd_Priority = [], jd_StartAt = ''beginning''\<rparr>
     (\<lambda>x w. (None, (fst w @ [x], snd w))) None (\<lambda>w. (7, w)) (quiet_fs []) ([], ())"

lemma sample_reader_ok: "journaling sample_reader" "stage_ok (rd_fs sample_reader) ''journald.json''"
  by (simp_all add: journaling_def sample_reader_def NewReader_def quiet_fs_empty)

definition sample_line :: bytes where
  "sample_line = ''{'' @ [QUOTE] @ ''__CURSOR'' @ [QUOTE, CHR '':'', QUOTE] @ ''s1'' @ [QUOTE, CHR '','', QUOTE] @ ''MESSAGE'' @
     [QUOTE, CHR '':'', QUOTE] @ ''hi'' @ [QUOTE] @ ''}''"

theorem cursor_never_passes_a_record_witness:
  "\<exists>ls bad e r' k ms extra. scan_lines maxJournalRecordBytes (sample_line @ [NL]) False = (ls, bad) \<and>
     consume_journal (sample_line @ [NL]) False sample_reader = (e, r') \<and> k \<le> length ls \<and>
     delivered r' = map fst (records_of (take k ls) ms) @ extra \<and> length extra \<le> 1"
proof -
  obtain ls bad where l: "scan_lines maxJournalRecordBytes (sample_line @ [NL]) False = (ls, bad)" by fastforce
  obtain e r' where c: "consume_journal (sample_line @ [NL]) False sample_reader = (e, r')" by fastforce
  from cursor_never_passes_a_record[OF sample_reader_ok l c] obtain k ms extra where
    "k \<le> length ls" "delivered r' = delivered sample_reader @ map fst (records_of (take k ls) ms) @ extra"
    "extra \<noteq> [] \<longrightarrow> (\<exists>n x c. extra = [x] \<and> parseRecord (ls ! k) n = Some (x, c))" by blast
  moreover have "delivered sample_reader = []" by (simp add: delivered_def sample_reader_def NewReader_def)
  moreover have "length extra \<le> 1" using calculation(3) by (cases "extra = []") auto
  ultimately show ?thesis using l c by auto
qed

text \<open>
  A record that does not fit the buffer of the scanner stops the journal for good: the reader fails, starts the process again after the
  same cursor and meets the same record, however often it tries; nothing behind it is ever admitted.
\<close>

theorem oversized_journal_record_stalls:
  assumes "\<forall>p \<in> set ps. pr_start p = None \<and> \<not> pr_canceled p \<and>
     maxJournalRecordBytes \<le> length (takeWhile (\<lambda>c. c \<noteq> NL) (fst (pr_output p (arguments (rd_cfg r) (rd_cp r)))))"
  shows "rd_cp (run ps r) = rd_cp r \<and> rd_world (run ps r) = rd_world r \<and> rd_fs (run ps r) = rd_fs r \<and>
     js_ReaderErrors (rd_stats (run ps r)) = js_ReaderErrors (rd_stats r) + of_nat (length ps)"
  using assms
proof (induction ps arbitrary: r)
  case (Cons p ps)
  obtain input failed where o': "pr_output p (arguments (rd_cfg r) (rd_cp r)) = (input, failed)" by fastforce
  have long: "maxJournalRecordBytes \<le> length (takeWhile (\<lambda>c. c \<noteq> NL) input)" using Cons.prems o' by simp
  then have "input \<noteq> []" by (auto simp: maxJournalRecordBytes_def)
  with long have sc: "scan_lines maxJournalRecordBytes input failed = ([], True)" by (subst scan_lines.simps) (simp add: Let_def)
  have rp: "run_process p r = (Some (Failure ''journal record stream invalid or exceeds bound''), r)"
    using Cons.prems o' sc by (simp add: run_process_def consume_journal_def)
  define r1 where "r1 = count_reader_error (Some (Failure ''journal record stream invalid or exceeds bound'')) r"
  have r1: "rd_cfg r1 = rd_cfg r" "rd_cp r1 = rd_cp r" "rd_world r1 = rd_world r" "rd_fs r1 = rd_fs r"
    "js_ReaderErrors (rd_stats r1) = js_ReaderErrors (rd_stats r) + 1" by (simp_all add: r1_def count_reader_error_def Let_def)
  have "run (p # ps) r = run ps r1" using rp Cons.prems by (simp add: r1_def)
  then show ?case using Cons.IH[of r1] Cons.prems r1 by (simp add: algebra_simps)
qed simp

theorem oversized_journal_record_stalls_witness:
  "js_ReaderErrors (rd_stats (run (replicate 3 \<lparr>pr_start = None, pr_output = (\<lambda>_. (replicate 1048576 (CHR ''x''), False)), pr_wait = None,
      pr_canceled = False\<rparr>) sample_reader)) = 3"
proof -
  let ?p = "\<lparr>pr_start = None, pr_output = (\<lambda>_. (replicate 1048576 (CHR ''x''), False)), pr_wait = None, pr_canceled = False\<rparr>"
  have "takeWhile (\<lambda>c. c \<noteq> NL) (replicate 1048576 (CHR ''x'')) = replicate 1048576 (CHR ''x'')"
    by (rule takeWhile_eq_all_conv[THEN iffD2]) (auto simp: NL_def)
  then have "js_ReaderErrors (rd_stats (run (replicate 3 ?p) sample_reader)) = js_ReaderErrors (rd_stats sample_reader) + of_nat (length (replicate 3 ?p))"
    by (intro oversized_journal_record_stalls[THEN conjunct2, THEN conjunct2, THEN conjunct2])
       (simp add: maxJournalRecordBytes_def)
  then show ?thesis by (simp add: sample_reader_def NewReader_def)
qed

end
