(* ===== verification/TailerWorld.thy ===== *)
theory TailerWorld
  imports Tailer
begin

text \<open>
  What the world of a tailer goes through: a tailer touches it only through the two callbacks and the clock, so that whatever they
  preserve holds of it after any poll.
\<close>

definition tame :: "('w \<Rightarrow> bool) \<Rightarrow> 'w tailer \<Rightarrow> bool" where
  "tame I t \<longleftrightarrow>
     (\<forall>adm r w. tl_admit t = Some adm \<longrightarrow> I w \<longrightarrow> I (snd (adm r w))) \<and> (\<forall>act i w. tl_activate t = Some act \<longrightarrow> I w \<longrightarrow> I (snd (act i w))) \<and>
     (\<forall>w. I w \<longrightarrow> I (snd (tl_clock t w))) \<and> I (tl_world t)"

text \<open>The steps in between: same callbacks, and a world that still satisfies the invariant.\<close>

definition tames :: "('w \<Rightarrow> bool) \<Rightarrow> 'w tailer \<Rightarrow> 'w tailer \<Rightarrow> bool" where
  "tames I t t' \<longleftrightarrow> (tame I t \<longrightarrow> tame I t') \<and> tl_admit t' = tl_admit t \<and> tl_activate t' = tl_activate t \<and>
     tl_clock t' = tl_clock t \<and> tl_source t' = tl_source t"

lemma tames_refl [simp]: "tames I t t"
  by (simp add: tames_def)

lemma tames_trans: "tames I t t' \<Longrightarrow> tames I t' t'' \<Longrightarrow> tames I t t''"
  by (auto simp: tames_def)

lemma tames_world:
  "tl_admit t' = tl_admit t \<Longrightarrow> tl_activate t' = tl_activate t \<Longrightarrow> tl_clock t' = tl_clock t \<Longrightarrow> tl_source t' = tl_source t \<Longrightarrow> (tame I t \<Longrightarrow> I (tl_world t')) \<Longrightarrow> tames I t t'"
  by (auto simp: tames_def tame_def)

lemma tames_frame:
  "tl_admit t' = tl_admit t \<Longrightarrow> tl_activate t' = tl_activate t \<Longrightarrow> tl_clock t' = tl_clock t \<Longrightarrow> tl_source t' = tl_source t \<Longrightarrow> tl_world t' = tl_world t \<Longrightarrow> tames I t t'"
  by (rule tames_world) (auto simp: tame_def)

lemma tames_counts [simp]:
  "tames I t (count_read t)" "tames I t (count_rejected t)" "tames I t (count_permission e t)" "tames I t (count_checkpoint_error t)"
  "tames I t (count_flush t)" "tames I t (count_discovered t)" "tames I t (set_files m t)"
  by (simp_all add: tames_frame count_read_def count_rejected_def count_permission_def count_checkpoint_error_def count_flush_def
      count_discovered_def set_files_def)

lemma tames_save: "save t = (r, t') \<Longrightarrow> tames I t t'"
  by (auto simp: save_def intro!: tames_frame split: prod.splits)

lemma tames_tick: "tick t = (n, t') \<Longrightarrow> tames I t t'"
  by (rule tames_world) (auto simp: tick_def tame_def split: prod.splits dest: spec[of _ "tl_world t"])

lemma tames_admit: "tl_admit t = Some adm \<Longrightarrow> adm r (tl_world t) = (e, w) \<Longrightarrow> tames I t (t\<lparr>tl_world := w\<rparr>)"
  by (rule tames_world) (auto simp: tame_def, metis snd_conv)

lemma tames_activate: "tl_activate t = Some act \<Longrightarrow> act i (tl_world t) = (e, w) \<Longrightarrow> tames I t (t\<lparr>tl_world := w\<rparr>)"
  by (rule tames_world) (auto simp: tame_def, metis snd_conv)

lemma tames_commit:
  assumes "commit st offset i t = (ok, st', t')"
  shows "tames I t t'"
proof -
  obtain now t1 where k: "tick t = (now, t1)" by fastforce
  define cp where "cp = \<lparr>Offset = offset, Generation = os_generation st, Fingerprint = os_fingerprint st,
                RelativePath = os_relative st, UpdatedAt = now, AdmissionID = i\<rparr>"
  obtain r t2 where s: "save (set_files (AList.update (os_identity st) cp (files_of t)) t1) = (r, t2)" by fastforce
  have t2: "tames I t t2" using tames_trans[OF tames_tick[OF k] tames_trans[OF tames_counts(7) tames_save[OF s]]] .
  have "\<exists>m. t' = t2 \<or> t' = count_checkpoint_error (set_files m t2)"
    using assms k s by (auto simp: commit_def Let_def cp_def split: sum.splits)
  then show ?thesis using t2 tames_trans tames_counts by metis
qed

lemma tames_emit:
  assumes "emit st a b x now t = (ok, st', t')"
  shows "tames I t t'"
proof (cases "tl_admit t")
  case None
  then show ?thesis using assms by (simp add: emit_def Let_def)
next
  case (Some adm)
  define i where "i = admissionID (src_ID (tl_source t)) (os_identity st) (os_generation st) a b"
  define r where "r = \<lparr>tr_AdmissionID = i, tr_Body = x, tr_RelativePath = os_relative st, tr_FileIdentity = os_identity st,
                 tr_StartOffset = a, tr_EndOffset = b, tr_ObservedAt = now\<rparr>"
  obtain e w where ad: "adm r (tl_world t) = (e, w)" by fastforce
  have t1: "tames I t (t\<lparr>tl_world := w\<rparr>)" by (rule tames_admit[OF Some ad])
  show ?thesis
  proof (cases e)
    case (Some e')
    then show ?thesis using assms \<open>tl_admit t = Some adm\<close> ad t1 by (simp add: emit_def Let_def r_def i_def)
  next
    case None
    obtain ok2 st2 t2 where c: "commit st b i (t\<lparr>tl_world := w\<rparr>) = (ok2, st2, t2)" by (metis prod_cases3)
    have t2: "tames I t t2" by (rule tames_trans[OF t1 tames_commit[OF c]])
    have "t' = t2 \<or> (\<exists>act e w. tl_activate t2 = Some act \<and> act i (tl_world t2) = (e, w) \<and> t' = t2\<lparr>tl_world := w\<rparr>)"
      using assms Some None ad c by (auto simp: emit_def Let_def r_def i_def split: bool.splits option.splits prod.splits)
    then show ?thesis using t2 tames_trans tames_activate by metis
  qed
qed

lemma tames_flush: "flush st now t = (ok, st', t') \<Longrightarrow> tames I t t'"
  using tames_trans[OF tames_emit tames_counts(5)]
  by (auto simp: flush_def Let_def split: if_splits prod.splits bool.splits dest: tames_emit)

lemma tames_reject_line: "reject_line e st t = (fl, st', t') \<Longrightarrow> tames I t t'"
  using tames_trans[OF tames_counts(2) tames_commit] by (auto simp: reject_line_def split: prod.splits bool.splits)

lemma tames_single_line: "single_line a b l now st t = (fl, st', t') \<Longrightarrow> tames I t t'"
  by (auto simp: single_line_def split: if_splits prod.splits bool.splits dest: tames_reject_line tames_emit)

lemma tames_join_line: "join_line a b l now st t = (fl, st', t') \<Longrightarrow> tames I t t'"
  by (auto simp: join_line_def Let_def split: if_splits prod.splits bool.splits dest: tames_flush)

lemma tames_multi_line: "multi_line a b l now st t = (fl, st', t') \<Longrightarrow> tames I t t'"
  using tames_trans[OF tames_flush tames_join_line]
  by (auto simp: multi_line_def split: if_splits prod.splits bool.splits dest: tames_flush tames_join_line)

lemma tames_consume_line: "consume_line data now st t = (fl, st', t') \<Longrightarrow> tames I t t'"
  using tames_trans[OF tames_counts(1) tames_reject_line] tames_trans[OF tames_counts(1) tames_single_line]
    tames_trans[OF tames_counts(1) tames_multi_line]
  by (auto simp: consume_line_def Let_def split: if_splits sum.splits)

lemma tames_consume_loop: "consume_loop data n now st t = (ok, st', t') \<Longrightarrow> tames I t t'"
proof (induction data n now st t arbitrary: ok st' t' rule: consume_loop.induct)
  case (1 data n now st t)
  obtain fl st1 t1 where l: "consume_line data now st t = (fl, st1, t1)" by (metis prod_cases3)
  show ?case
  proof (cases "os_readOffset st < n \<and> fl = Again")
    case True
    then have "consume_loop data n now st1 t1 = (ok, st', t')" using "1.prems" l by (simp add: consume_loop.simps[of data n now st t])
    then have "tames I t1 t'" using "1.IH"[OF _ sym[OF l] _ refl] True by simp
    then show ?thesis using tames_trans[OF tames_consume_line[OF l]] by blast
  next
    case False
    then have "t' = t \<or> t' = t1" using "1.prems" l
      by (cases fl) (auto simp: consume_loop.simps[of data n now st t] split: if_splits)
    then show ?thesis using tames_consume_line[OF l] by auto
  qed
qed

lemma tames_consume: "consume v now st t = (st', t') \<Longrightarrow> tames I t t'"
proof (cases "fv_size v")
  case (Inr n)
  assume c: "consume v now st t = (st', t')"
  obtain ok st1 t1 where r: "(if n < os_committed st then restart_file (fv_data v) st t else (True, st, t)) = (ok, st1, t1)" by (metis prod_cases3)
  have t1: "tames I t t1" using r tames_commit by (auto simp: restart_file_def Let_def split: if_splits)
  obtain ok2 st2 t2 where l: "consume_loop (fv_data v) n now st1 t1 = (ok2, st2, t2)" by (metis prod_cases3)
  have t2: "tames I t t2" by (rule tames_trans[OF t1 tames_consume_loop[OF l]])
  obtain ok3 st3 t3 where f: "flush st2 now t2 = (ok3, st3, t3)" by (metis prod_cases3)
  have "t' = t1 \<or> t' = t2 \<or> t' = t3"
    using c Inr r l f by (auto simp: consume_def split: if_splits bool.splits prod.splits)
  then show ?thesis using t1 t2 tames_trans[OF t2 tames_flush[OF f]] by blast
qed (simp add: consume_def)

lemma tames_open_name: "open_name env n (seen, t) = (seen', t') \<Longrightarrow> tames I t t'"
proof -
  assume o: "open_name env n (seen, t) = (seen', t')"
  have s: "tames I t (count_checkpoint_error t2)" "tames I t (count_discovered (t2\<lparr>tl_states := x\<rparr>))"
    if "tick t = (now, t1)" "save (set_files m t1) = (r, t2)" for now t1 m r t2 x
  proof -
    have t2: "tames I t t2" by (rule tames_trans[OF tames_tick[OF that(1)] tames_trans[OF tames_counts(7) tames_save[OF that(2)]]])
    have "tames I t2 (t2\<lparr>tl_states := x\<rparr>)" by (rule tames_frame) simp_all
    then show "tames I t (count_checkpoint_error t2)" "tames I t (count_discovered (t2\<lparr>tl_states := x\<rparr>))"
      using tames_trans[OF t2] tames_trans tames_counts by metis+
  qed
  have f: "tames I t (t\<lparr>tl_states := x\<rparr>)" "tames I t (count_discovered (t\<lparr>tl_states := x\<rparr>))" for x
    by (rule tames_frame; simp add: count_discovered_def)+
  show ?thesis using o
    by (auto simp: open_name_def Let_def is_ok_iff s f split: if_splits sum.splits prod.splits option.splits)
qed

lemma tames_open_all: "fold (open_name env) names (seen, t) = (seen', t') \<Longrightarrow> tames I t t'"
proof (induction names arbitrary: seen t)
  case (Cons n names)
  obtain s1 t1 where "open_name env n (seen, t) = (s1, t1)" by fastforce
  then show ?case using Cons.IH[of s1 t1] Cons.prems tames_trans[OF tames_open_name] by auto
qed simp

lemma tames_poll_state: "tames I t (poll_state env seen now i t)"
proof (cases "map_of (tl_states t) i")
  case (Some st)
  define st1 where "st1 = (if i \<notin> set seen \<and> os_lostAt st = None then st\<lparr>os_lostAt := Some now\<rparr> else st)"
  obtain st2 t2 where c: "consume (pe_view env i) now st1 t = (st2, t2)" by fastforce
  have "\<exists>x. poll_state env seen now i t = t2\<lparr>tl_states := x\<rparr>"
    using Some c by (auto simp: poll_state_def Let_def st1_def)
  moreover have "tames I t2 (t2\<lparr>tl_states := x\<rparr>)" for x by (rule tames_frame) simp_all
  ultimately show ?thesis using tames_trans[OF tames_consume[OF c]] by metis
qed (simp add: poll_state_def)

lemma tames_poll_all: "tames I t (fold (poll_state env seen now) ids t)"
proof (induction ids arbitrary: t)
  case (Cons i ids)
  show ?case using tames_trans[OF tames_poll_state Cons.IH] by simp
qed simp

lemma tames_recover: "tames I t (recoverAdmissions ids t)"
proof (induction ids arbitrary: t)
  case (Cons i ids)
  define t1 where "t1 = (case tl_activate t of None \<Rightarrow> t | Some act \<Rightarrow>
        (case map_of (files_of t) i of None \<Rightarrow> t | Some cp \<Rightarrow>
         if AdmissionID cp = [] then t else t\<lparr>tl_world := snd (act (AdmissionID cp) (tl_world t))\<rparr>))"
  have "t1 = t \<or> (\<exists>act i e w. tl_activate t = Some act \<and> act i (tl_world t) = (e, w) \<and> t1 = t\<lparr>tl_world := w\<rparr>)"
    by (auto simp: t1_def split: option.splits) (metis surjective_pairing)
  then have "tames I t t1" by (elim disjE exE conjE) (simp_all add: tames_activate)
  then show ?case using tames_trans[OF _ Cons.IH] by (simp add: t1_def)
qed simp

text \<open>A poll keeps what the callbacks and the clock keep.\<close>

lemma tames_pollOnce: "tames I t (pollOnce env t)"
proof -
  define t1 where "t1 = recoverAdmissions (pe_order env (map fst (files_of t))) t"
  have t1: "tames I t t1" by (simp add: t1_def tames_recover)
  show ?thesis
  proof (cases "pe_canceled env \<or> \<not> tl_root t")
    case True
    then show ?thesis by (auto simp: pollOnce_def)
  next
    case False
    show ?thesis
    proof (cases "readRootNames env (tl_maxFiles t1 + 1)")
      case (Inl e)
      then show ?thesis using False tames_trans[OF t1 tames_counts(3)] by (simp add: pollOnce_def Let_def t1_def)
    next
      case (Inr names)
      obtain seen t2 where o: "fold (open_name env) (sort (take (nat (tl_maxFiles t1)) names)) ([], t1) = (seen, t2)" by fastforce
      obtain now t3 where k: "tick t2 = (now, t3)" by fastforce
      have "tames I t t3" by (rule tames_trans[OF t1 tames_trans[OF tames_open_all[OF o] tames_tick[OF k]]])
      then show ?thesis using False Inr o k tames_trans[OF _ tames_poll_all] by (simp add: pollOnce_def Let_def flip: t1_def)
    qed
  qed
qed

lemma tame_pollOnce: "tame I t \<Longrightarrow> tame I (pollOnce env t)"
  using tames_pollOnce by (auto simp: tames_def)

lemma tames_Start:
  assumes "Start compile rc de dir order' t = (e, t')" shows "tames I t t'"
proof -
  have fr: "tames I t (t\<lparr>tl_start := start\<rparr>)" "tames I t (t\<lparr>tl_start := start, tl_fs := s, tl_checkpoints := cs, tl_root := b\<rparr>)"
    "tames I t (t\<lparr>tl_fs := s, tl_checkpoints := cs, tl_root := b\<rparr>)" for start s cs b
    by (rule tames_frame; simp)+
  have run: "tames I a (a\<lparr>tl_running := True\<rparr>)" for a by (rule tames_frame) simp_all
  have rec: "tames I t ((recoverAdmissions ids (t\<lparr>tl_start := start, tl_fs := s, tl_checkpoints := cs, tl_root := b\<rparr>))\<lparr>tl_running := True\<rparr>)"
    "tames I t ((recoverAdmissions ids (t\<lparr>tl_fs := s, tl_checkpoints := cs, tl_root := b\<rparr>))\<lparr>tl_running := True\<rparr>)"
    for ids start s cs b by (rule tames_trans[OF fr(2) tames_trans[OF tames_recover run]], rule tames_trans[OF fr(3) tames_trans[OF tames_recover run]])
  show ?thesis using assms
    by (auto simp: Start_def Let_def fr rec split: if_splits option.splits prod.splits sum.splits)
qed

end
