(* ===== verification/Float64.thy ===== *)
theory Float64
  imports Complex_Main "HOL-Library.Log_Nat"
begin

text \<open>
  Go's \<^verbatim>\<open>float64\<close>, the binary64 format of IEEE 754: the result of an operation is the exact result rounded to 53 significant bits, ties to even.
  The code computes with non-negative values far from the limits of the exponent, so that overflow and subnormal numbers are left out; the two zeros are one.
\<close>

section \<open>Values\<close>

datatype float64 = NaN | Infinite bool | Finite rat

section \<open>Rounding\<close>

definition round_even :: "rat \<Rightarrow> int" where
  "round_even z = (let q = \<lfloor>z\<rfloor>; r = z - of_int q in if r < 1 / 2 \<or> (r = 1 / 2 \<and> even q) then q else q + 1)"

text \<open>The exponent of the leading bit of a positive number.\<close>

definition exponent :: "rat \<Rightarrow> int" where
  "exponent x = (if 1 \<le> x then int (floorlog 2 (nat \<lfloor>x\<rfloor>)) - 1 else - int (floorlog 2 (nat \<lceil>1 / x\<rceil> - 1)))"

definition round64 :: "rat \<Rightarrow> rat" where
  "round64 x = (if x \<le> 0 then 0 else let u = 2 powi (exponent x - 52) in of_int (round_even (x / u)) * u)"

section \<open>Laws\<close>

lemma round_even_bounds: "\<lfloor>z\<rfloor> \<le> round_even z" "round_even z \<le> \<lfloor>z\<rfloor> + 1"
  by (auto simp: round_even_def Let_def)

lemma round_even_int [simp]: "round_even (of_int m) = m"
  by (simp add: round_even_def)

lemma round_even_mono: "z \<le> w \<Longrightarrow> round_even z \<le> round_even w"
proof -
  assume le: "z \<le> w"
  show ?thesis
  proof (cases "\<lfloor>z\<rfloor> = \<lfloor>w\<rfloor>")
    case True
    then show ?thesis using le by (auto simp: round_even_def Let_def)
  next
    case False
    then have "\<lfloor>z\<rfloor> + 1 \<le> \<lfloor>w\<rfloor>" using floor_mono[OF le] by linarith
    then show ?thesis using round_even_bounds[of z] round_even_bounds[of w] by linarith
  qed
qed

lemma nat_bits:
  assumes "0 < n" obtains k where "floorlog 2 n = Suc k" "(2 :: rat) ^ k \<le> of_nat n" "of_nat n + 1 \<le> (2 :: rat) ^ Suc k"
proof -
  obtain k where k: "floorlog 2 n = Suc k" using assms by (cases "floorlog 2 n") (simp_all add: floorlog_def)
  have b: "2 ^ k \<le> n" "n + 1 \<le> 2 ^ Suc k" using floorlog_bounds[of n 2] assms k by simp_all
  show ?thesis using that[OF k] b[THEN of_nat_mono[where 'a = rat]] by simp
qed

lemma exponent_bounds:
  assumes "0 < x" shows "2 powi exponent x \<le> x" "x < 2 powi (exponent x + 1)"
proof -
  have "2 powi exponent x \<le> x \<and> x < 2 powi (exponent x + 1)"
  proof (cases "1 \<le> x")
    case True
    define n where "n = nat \<lfloor>x\<rfloor>"
    have f: "1 \<le> \<lfloor>x\<rfloor>" using True by simp
    then have n: "0 < n" "of_nat n = (of_int \<lfloor>x\<rfloor> :: rat)" by (simp_all add: n_def)
    obtain k where k: "floorlog 2 n = Suc k" "(2 :: rat) ^ k \<le> of_nat n" "of_nat n + 1 \<le> (2 :: rat) ^ Suc k" by (rule nat_bits[OF n(1)])
    have "of_int \<lfloor>x\<rfloor> \<le> x" "x < of_int \<lfloor>x\<rfloor> + 1" by linarith+
    then have "2 ^ k \<le> x" "x < 2 ^ Suc k" using k(2,3) n(2) by linarith+
    moreover have e: "exponent x = int k" using True k(1) by (simp add: exponent_def n_def)
    moreover have "(2 :: rat) powi (int k + 1) = 2 ^ Suc k" by (simp add: power_int_def nat_add_distrib)
    ultimately show ?thesis by (simp add: power_int_def)
  next
    case False
    define y where "y = 1 / x"
    define m where "m = nat \<lceil>y\<rceil> - 1"
    have y: "1 < y" using False assms by (simp add: y_def)
    then have c: "1 < \<lceil>y\<rceil>" by simp
    moreover have "m = nat (\<lceil>y\<rceil> - 1)" by (simp add: m_def nat_diff_distrib)
    ultimately have m: "0 < m" "of_nat m = (of_int \<lceil>y\<rceil> - 1 :: rat)" by simp_all
    obtain k where k: "floorlog 2 m = Suc k" "(2 :: rat) ^ k \<le> of_nat m" "of_nat m + 1 \<le> (2 :: rat) ^ Suc k" by (rule nat_bits[OF m(1)])
    have "y \<le> of_int \<lceil>y\<rceil>" "of_int \<lceil>y\<rceil> - 1 < y" by linarith+
    then have b: "2 ^ k < y" "y \<le> 2 ^ Suc k" using k(2,3) m(2) by linarith+
    have x: "x = 1 / y" by (simp add: y_def)
    have "1 / 2 ^ Suc k \<le> x" "x < 1 / 2 ^ k" using b y unfolding x by (auto intro!: divide_left_mono divide_strict_left_mono)
    moreover have "exponent x = - int (Suc k)" using False k(1) by (simp add: exponent_def m_def y_def)
    moreover have "(2 :: rat) powi (- int (Suc k) + 1) = 1 / 2 ^ k" by (simp add: power_int_def power_divide)
    moreover have "(2 :: rat) powi (- int (Suc k)) = 1 / 2 ^ Suc k" by (simp add: power_int_def power_divide nat_add_distrib del: of_nat_Suc)
    ultimately show ?thesis by simp
  qed
  then show "2 powi exponent x \<le> x" "x < 2 powi (exponent x + 1)" by simp_all
qed

text \<open>The mantissa before rounding, and what rounding does to it.\<close>

lemma mantissa:
  assumes "0 < x" shows "2 ^ 52 \<le> x / 2 powi (exponent x - 52)" "x / 2 powi (exponent x - 52) < 2 ^ 53"
proof -
  have p: "(0 :: rat) < 2 powi (exponent x - 52)" by simp
  have "(2 :: rat) powi exponent x = 2 ^ 52 * 2 powi (exponent x - 52)" "(2 :: rat) powi (exponent x + 1) = 2 ^ 53 * 2 powi (exponent x - 52)"
    using power_int_add[of "2 :: rat" 52 "exponent x - 52"] power_int_add[of "2 :: rat" 53 "exponent x - 52"] by (simp_all add: add.commute)
  then show "2 ^ 52 \<le> x / 2 powi (exponent x - 52)" "x / 2 powi (exponent x - 52) < 2 ^ 53"
    using exponent_bounds[OF assms] p by (simp_all add: pos_le_divide_eq pos_divide_less_eq)
qed

lemma round64_zero [simp]: "round64 0 = 0"
  by (simp add: round64_def)

lemma round64_bits:
  assumes "0 < x" obtains m where "round64 x = of_int m * 2 powi (exponent x - 52)" "2 ^ 52 \<le> m" "m \<le> 2 ^ 53"
proof -
  let ?z = "x / 2 powi (exponent x - 52)"
  have "round_even (of_int (2 ^ 52)) \<le> round_even ?z" "round_even ?z \<le> round_even (of_int (2 ^ 53))"
    using mantissa[OF assms] by (auto intro!: round_even_mono)
  then show ?thesis using that[of "round_even ?z"] assms by (simp only: round_even_int) (simp add: round64_def Let_def)
qed

lemma round64_pos: "0 < x \<Longrightarrow> 0 < round64 x"
  by (erule round64_bits) (simp add: order_less_le_trans[of 0 "2 ^ 52"])

lemma round64_nonneg [simp]: "0 \<le> round64 x"
  using round64_pos[of x, THEN less_imp_le] by (cases "0 < x") (simp_all add: round64_def)

lemma exponent_mono: "0 < x \<Longrightarrow> x \<le> y \<Longrightarrow> exponent x \<le> exponent y"
proof (rule ccontr)
  assume a: "0 < x" "x \<le> y" "\<not> exponent x \<le> exponent y"
  then have "(2 :: rat) powi (exponent y + 1) \<le> 2 powi exponent x" by (intro power_int_increasing) auto
  then show False using exponent_bounds(1)[OF a(1)] exponent_bounds(2)[of y] a by linarith
qed

lemma round64_mono: "x \<le> y \<Longrightarrow> round64 x \<le> round64 y"
proof -
  assume le: "x \<le> y"
  consider "x \<le> 0" | "0 < x" "exponent x = exponent y" | "0 < x" "exponent x + 1 \<le> exponent y" using exponent_mono[OF _ le] by linarith
  then show ?thesis
  proof cases
    case 1
    then show ?thesis by (simp add: round64_def[of x])
  next
    case 2
    then show ?thesis using le
      by (auto simp: round64_def Let_def intro!: mult_right_mono of_int_le_iff[THEN iffD2] round_even_mono divide_right_mono)
  next
    case 3
    obtain m where m: "round64 x = of_int m * 2 powi (exponent x - 52)" "m \<le> 2 ^ 53" by (rule round64_bits[OF 3(1)])
    obtain k where k: "round64 y = of_int k * 2 powi (exponent y - 52)" "2 ^ 52 \<le> k" using round64_bits[of y] 3(1) le by (metis order_less_le_trans)
    have "round64 x \<le> of_int (2 ^ 53) * 2 powi (exponent x - 52)" unfolding m(1) using m(2) by (intro mult_right_mono) (simp_all flip: of_int_power)
    also have "\<dots> = of_int (2 ^ 52) * 2 powi (exponent x + 1 - 52)" using power_int_add[of "2 :: rat" 1 "exponent x - 52"] by simp
    also have "\<dots> \<le> of_int (2 ^ 52) * 2 powi (exponent y - 52)" using 3(2) by (intro mult_left_mono power_int_increasing) auto
    also have "\<dots> \<le> round64 y" unfolding k(1) using k(2) by (intro mult_right_mono) (simp_all flip: of_int_power)
    finally show ?thesis .
  qed
qed

text \<open>A number of at most 53 bits is its own rounding.\<close>

lemma round64_short:
  assumes "0 < m" "m < 2 ^ 53" shows "round64 (of_int m * 2 powi k) = of_int m * 2 powi k"
proof -
  define x where "x = of_int m * (2 :: rat) powi k"
  have x: "0 < x" using assms by (simp add: x_def)
  have "x < of_int (2 ^ 53) * 2 powi k" unfolding x_def using assms(2) by (intro mult_strict_right_mono) (simp_all flip: of_int_power)
  also have "\<dots> = 2 powi (k + 53)" using power_int_add[of "2 :: rat" k 53] by simp
  finally have "x < 2 powi (k + 53)" .
  then have "\<not> k + 53 \<le> exponent x" using exponent_bounds(1)[OF x] power_int_increasing[of "k + 53" "exponent x" "2 :: rat"] by auto
  then have "exponent x - 52 \<le> k" by linarith
  then obtain d where d: "k = exponent x - 52 + int d" using zle_iff_zadd by blast
  obtain u where u: "u = (2 :: rat) powi (exponent x - 52)" "0 < u" by simp
  have "(2 :: rat) powi (exponent x - 52 + int d) = 2 powi (exponent x - 52) * 2 powi int d" by (rule power_int_add) simp
  then have p: "(2 :: rat) powi k = 2 ^ d * u" by (simp only: d u(1) power_int_of_nat mult.commute)
  have xu: "x = of_int (m * 2 ^ d) * u" by (simp add: x_def p)
  then have "x / u = of_int (m * 2 ^ d)" using u(2) by simp
  then have "round64 x = of_int (m * 2 ^ d) * u" using x by (simp add: round64_def Let_def u(1)[symmetric] del: of_int_mult)
  then show ?thesis using xu by (simp only: x_def)
qed

lemma round64_exact:
  assumes "0 \<le> m" "m \<le> 2 ^ 53" shows "round64 (of_int m * 2 powi k) = of_int m * 2 powi k"
proof -
  consider "m = 0" | "0 < m" "m < 2 ^ 53" | "m = 2 ^ 53" using assms by linarith
  then show ?thesis
  proof cases
    case 3
    then have "of_int m * (2 :: rat) powi k = of_int (2 ^ 52) * 2 powi (k + 1)" using power_int_add[of "2 :: rat" k 1] by simp
    then show ?thesis using round64_short[of "2 ^ 52" "k + 1"] by simp
  qed (simp_all add: round64_short)
qed

lemma round64_round64 [simp]: "round64 (round64 x) = round64 x"
proof (cases "0 < x")
  case True
  then show ?thesis by (rule round64_bits) (simp add: round64_exact)
qed (simp add: round64_def[of x])

lemma round64_int: "0 \<le> m \<Longrightarrow> m \<le> 2 ^ 53 \<Longrightarrow> round64 (of_int m) = of_int m"
  using round64_exact[of m 0] by simp

end
