(* ===== verification/Pipeline.thy ===== *)
theory Pipeline
  imports Float64 GoStrings "HOL-Library.AList" "HOL-Library.Multiset"
begin

text \<open>
  The construction of the requests (\<^verbatim>\<open>src/internal/pipeline/metrics.go\<close>, \<^verbatim>\<open>src/internal/pipeline/logs.go\<close>, and the snapshot type
  of \<^verbatim>\<open>src/internal/platform/platform.go\<close>).

  The OpenTelemetry data model is a library. What the code puts into it is kept as records here, and its JSON encoder is
  the parameter \<open>marshal\<close>: \<open>None\<close> is its error. Times are in nanoseconds, \<open>None\<close> is the zero time.
\<close>

section \<open>Snapshots\<close>

record measurement =
  ms_Name :: bytes
  ms_Unit :: bytes
  ms_Kind :: bytes
  ms_Value :: float64
  ms_Attributes :: "(bytes \<times> bytes) list"

record snapshot =
  sn_StartTime :: "int option"
  sn_ObservedAt :: int
  sn_Values :: "measurement list"
  sn_Issues :: "(bytes \<times> bytes) list"

section \<open>Metrics\<close>

record data_point =
  dp_start :: "int option"
  dp_time :: int
  dp_value :: float64
  dp_attributes :: "(bytes \<times> bytes) list"

record metric =
  mt_name :: bytes
  mt_unit :: bytes
  mt_sum :: bool
  mt_points :: "data_point list"

record resource_metrics =
  rm_attributes :: "(bytes \<times> bytes) list"
  rm_scope :: "bytes \<times> bytes"
  rm_metrics :: "metric list"

text \<open>\<^verbatim>\<open>PutStr\<close> for each entry in turn.\<close>

definition put_all :: "(bytes \<times> bytes) list \<Rightarrow> (bytes \<times> bytes) list \<Rightarrow> (bytes \<times> bytes) list" where
  "put_all kvs m = fold (\<lambda>(k, v). AList.update k v) kvs m"

definition usable :: "measurement \<Rightarrow> bool" where
  "usable p \<longleftrightarrow> (case ms_Value p of NaN \<Rightarrow> False | Infinite _ \<Rightarrow> False | Finite x \<Rightarrow> 0 \<le> x) \<and>
     (HasPrefix (ms_Name p) ''system.'' \<or> HasPrefix (ms_Name p) ''host.'')"

definition metric_key :: "measurement \<Rightarrow> bytes" where
  "metric_key p = ms_Name p @ ''|'' @ ms_Kind p @ ''|'' @ ms_Unit p"

text \<open>At most the first sixteen attributes in the order of their keys are considered, and of these only short ones are kept.\<close>

definition point_attributes :: "(bytes \<times> bytes) list \<Rightarrow> (bytes \<times> bytes) list" where
  "point_attributes attrs = filter (\<lambda>(k, v). length k \<le> 64 \<and> length v \<le> 256) (take 16 (sort_key fst attrs))"

definition data_point_of :: "snapshot \<Rightarrow> measurement \<Rightarrow> data_point" where
  "data_point_of s p =
     (let start = (if ms_Kind p = ''sum'' then sn_StartTime s else None);
          boot = (case start of None \<Rightarrow> [] | Some t \<Rightarrow> [(''_boot_time_unix'', dec_int (t div 1000000000))])
      in \<lparr>dp_start = start, dp_time = sn_ObservedAt s, dp_value = ms_Value p,
          dp_attributes = put_all (boot @ point_attributes (ms_Attributes p)) []\<rparr>)"

text \<open>The metrics under construction, each with its key.\<close>

definition add_measurement :: "snapshot \<Rightarrow> measurement \<Rightarrow> (bytes \<times> metric) list \<Rightarrow> (bytes \<times> metric) list" where
  "add_measurement s p ms =
     (if \<not> usable p then ms
      else case map_of ms (metric_key p) of
        None \<Rightarrow> ms @ [(metric_key p, \<lparr>mt_name = ms_Name p, mt_unit = ms_Unit p, mt_sum = (ms_Kind p = ''sum''), mt_points = [data_point_of s p]\<rparr>)]
      | Some m \<Rightarrow> AList.update (metric_key p) (m\<lparr>mt_points := mt_points m @ [data_point_of s p]\<rparr>) ms)"

definition Metrics_of :: "snapshot \<Rightarrow> (bytes \<times> bytes) list \<Rightarrow> resource_metrics" where
  "Metrics_of s resource =
     \<lparr>rm_attributes = put_all resource [], rm_scope = (''observe-agent.hostmetrics'', ''1''),
      rm_metrics = map snd (fold (add_measurement s) (sn_Values s) [])\<rparr>"

section \<open>Batches\<close>

text \<open>A list of points that is too long when encoded is split in the middle; \<open>enc\<close> encodes a list of points.\<close>

function encode_points :: "('p list \<Rightarrow> bytes option) \<Rightarrow> nat \<Rightarrow> 'p list \<Rightarrow> bytes list result" where
  "encode_points enc maxBytes points =
     (case enc points of
        None \<Rightarrow> Inl (Failure ''OTLP serialization failed'')
      | Some raw \<Rightarrow>
          if length raw \<le> maxBytes then Inr [raw]
          else if length points \<le> 1 then Inl (Failure ''metric exceeds request bound'')
          else let middle = length points div 2 in
            (case encode_points enc maxBytes (take middle points) of
               Inl e \<Rightarrow> Inl e
             | Inr a \<Rightarrow> (case encode_points enc maxBytes (drop middle points) of Inl e \<Rightarrow> Inl e | Inr b \<Rightarrow> Inr (a @ b))))"
  by pat_completeness auto
termination
  by (relation "measure (\<lambda>(enc, maxBytes, points). length points)") auto

declare encode_points.simps [simp del]

function encode_chunks :: "('p list \<Rightarrow> bytes option) \<Rightarrow> nat \<Rightarrow> nat \<Rightarrow> 'p list \<Rightarrow> bytes list result" where
  "encode_chunks enc maxBytes maxPoints points =
     (if points = [] \<or> maxPoints = 0 then Inr []
      else case encode_points enc maxBytes (take maxPoints points) of
        Inl e \<Rightarrow> Inl e
      | Inr a \<Rightarrow> (case encode_chunks enc maxBytes maxPoints (drop maxPoints points) of Inl e \<Rightarrow> Inl e | Inr b \<Rightarrow> Inr (a @ b)))"
  by pat_completeness auto
termination
  by (relation "measure (\<lambda>(enc, maxBytes, maxPoints, points). length points)") (auto simp: diff_less)

declare encode_chunks.simps [simp del]

definition encode_part :: "(resource_metrics \<Rightarrow> bytes option) \<Rightarrow> snapshot \<Rightarrow> (bytes \<times> bytes) list \<Rightarrow> measurement list \<Rightarrow> bytes option" where
  "encode_part marshal s resource points = marshal (Metrics_of (s\<lparr>sn_Values := points\<rparr>) resource)"

definition Batches :: "(resource_metrics \<Rightarrow> bytes option) \<Rightarrow> snapshot \<Rightarrow> (bytes \<times> bytes) list \<Rightarrow> int \<Rightarrow> int \<Rightarrow> bytes list result" where
  "Batches marshal s resource maxPoints maxBytes =
     (if maxPoints < 1 \<or> 1000 < maxPoints \<or> maxBytes < 1024 then Inl (Failure ''batch limits invalid'')
      else encode_chunks (encode_part marshal s resource) (nat maxBytes) (nat maxPoints) (sn_Values s))"

text \<open>The parts into which the points were split, with their encodings.\<close>

definition parts_of :: "('p list \<Rightarrow> bytes option) \<Rightarrow> nat \<Rightarrow> nat \<Rightarrow> 'p list list \<Rightarrow> bytes list \<Rightarrow> bool" where
  "parts_of enc maxBytes maxPoints parts out \<longleftrightarrow>
     list_all2 (\<lambda>p raw. enc p = Some raw \<and> length raw \<le> maxBytes \<and> 0 < length p \<and> length p \<le> maxPoints) parts out"

lemma parts_append: "parts_of enc b n p1 o1 \<Longrightarrow> parts_of enc b n p2 o2 \<Longrightarrow> parts_of enc b n (p1 @ p2) (o1 @ o2)"
  by (simp add: parts_of_def list_all2_appendI)

lemma encode_points_parts:
  "encode_points enc b points = Inr out \<Longrightarrow> points \<noteq> [] \<Longrightarrow> length points \<le> n \<Longrightarrow>
   \<exists>parts. concat parts = points \<and> parts_of enc b n parts out"
proof (induction enc b points arbitrary: out rule: encode_points.induct)
  case (1 enc b points)
  obtain raw where raw: "enc points = Some raw" using "1.prems"(1) by (subst (asm) encode_points.simps) (auto split: option.splits)
  show ?case
  proof (cases "length raw \<le> b")
    case True
    then have "out = [raw]" using "1.prems"(1) raw by (subst (asm) encode_points.simps) simp
    then show ?thesis using True raw "1.prems" by (intro exI[of _ "[points]"]) (simp add: parts_of_def)
  next
    case False
    let ?m = "length points div 2"
    have two: "\<not> length points \<le> 1" using "1.prems"(1) raw False by (subst (asm) encode_points.simps) (auto split: if_splits)
    then obtain o1 o2 where o12: "encode_points enc b (take ?m points) = Inr o1" "encode_points enc b (drop ?m points) = Inr o2" "out = o1 @ o2"
      using "1.prems"(1) raw False by (subst (asm) encode_points.simps) (auto simp: Let_def split: sum.splits)
    have ne: "take ?m points \<noteq> []" "drop ?m points \<noteq> []" using two by auto
    have le: "length (take ?m points) \<le> n" "length (drop ?m points) \<le> n" using "1.prems"(3) by simp_all
    obtain p1 where p1: "concat p1 = take ?m points" "parts_of enc b n p1 o1"
      using "1.IH"(1)[OF raw False two refl o12(1) ne(1) le(1)] by blast
    obtain p2 where p2: "concat p2 = drop ?m points" "parts_of enc b n p2 o2"
      using "1.IH"(2)[OF raw False two refl o12(1,2) ne(2) le(2)] by blast
    show ?thesis using p1 p2 o12(3) parts_append[OF p1(2) p2(2)] by (intro exI[of _ "p1 @ p2"]) simp
  qed
qed

lemma encode_chunks_parts:
  "encode_chunks enc b n points = Inr out \<Longrightarrow> 0 < n \<Longrightarrow> \<exists>parts. concat parts = points \<and> parts_of enc b n parts out"
proof (induction enc b n points arbitrary: out rule: encode_chunks.induct)
  case (1 enc b n points)
  show ?case
  proof (cases "points = []")
    case True
    then show ?thesis using "1.prems" by (intro exI[of _ "[]"]) (simp add: encode_chunks.simps[of enc b n "[]"] parts_of_def)
  next
    case False
    then have c: "\<not> (points = [] \<or> n = 0)" using "1.prems"(2) by simp
    then obtain o1 o2 where o12: "encode_points enc b (take n points) = Inr o1" "encode_chunks enc b n (drop n points) = Inr o2" "out = o1 @ o2"
      using "1.prems"(1) by (subst (asm) encode_chunks.simps) (auto split: sum.splits)
    obtain p1 where p1: "concat p1 = take n points" "parts_of enc b n p1 o1" using encode_points_parts[OF o12(1), of n] c by auto
    obtain p2 where p2: "concat p2 = drop n points" "parts_of enc b n p2 o2" using "1.IH"[OF c o12(1,2)] "1.prems"(2) by auto
    show ?thesis using p1 p2 o12(3) parts_append[OF p1(2) p2(2)] by (intro exI[of _ "p1 @ p2"]) simp
  qed
qed

text \<open>Encoding fails only where the encoder fails or where a single point does not fit.\<close>

lemma encode_points_total:
  "\<forall>p. set p \<subseteq> set points \<longrightarrow> enc p \<noteq> None \<Longrightarrow> \<forall>x \<in> set points. \<exists>raw. enc [x] = Some raw \<and> length raw \<le> b \<Longrightarrow>
   points \<noteq> [] \<Longrightarrow> \<exists>out. encode_points enc b points = Inr out"
proof (induction enc b points rule: encode_points.induct)
  case (1 enc b points)
  obtain raw where raw: "enc points = Some raw" using "1.prems"(1) by blast
  show ?case
  proof (cases "length raw \<le> b")
    case True
    then show ?thesis using raw by (subst encode_points.simps) simp
  next
    case False
    let ?m = "length points div 2"
    have two: "\<not> length points \<le> 1"
    proof
      assume "length points \<le> 1"
      then obtain x where "points = [x]" using "1.prems"(3) by (cases points) auto
      then show False using raw "1.prems"(2) False by auto
    qed
    have sub: "set (take ?m points) \<subseteq> set points" "set (drop ?m points) \<subseteq> set points" by (auto dest: in_set_takeD in_set_dropD)
    have ne: "take ?m points \<noteq> []" "drop ?m points \<noteq> []" using two by auto
    obtain o1 where o1: "encode_points enc b (take ?m points) = Inr o1"
      using "1.IH"(1)[OF raw False two refl] "1.prems"(1,2) sub(1) ne(1) by (meson subset_trans subsetD)
    obtain o2 where o2: "encode_points enc b (drop ?m points) = Inr o2"
      using "1.IH"(2)[OF raw False two refl o1] "1.prems"(1,2) sub(2) ne(2) by (meson subset_trans subsetD)
    show ?thesis using raw False two o1 o2 by (subst encode_points.simps) (simp add: Let_def)
  qed
qed

lemma encode_chunks_total:
  "\<forall>p. set p \<subseteq> set points \<longrightarrow> enc p \<noteq> None \<Longrightarrow> \<forall>x \<in> set points. \<exists>raw. enc [x] = Some raw \<and> length raw \<le> b \<Longrightarrow>
   0 < n \<Longrightarrow> \<exists>out. encode_chunks enc b n points = Inr out"
proof (induction enc b n points rule: encode_chunks.induct)
  case (1 enc b n points)
  show ?case
  proof (cases "points = []")
    case True
    then show ?thesis by (simp add: encode_chunks.simps[of enc b n "[]"])
  next
    case False
    then have c: "\<not> (points = [] \<or> n = 0)" using "1.prems"(3) by simp
    have sub: "set (take n points) \<subseteq> set points" "set (drop n points) \<subseteq> set points" by (auto dest: in_set_takeD in_set_dropD)
    obtain o1 where o1: "encode_points enc b (take n points) = Inr o1"
      using encode_points_total[of "take n points" enc b] "1.prems"(1,2) sub(1) c by (metis subset_trans subsetD take_eq_Nil)
    obtain o2 where o2: "encode_chunks enc b n (drop n points) = Inr o2"
      using "1.IH"[OF c o1] "1.prems" sub(2) by (meson subset_trans subsetD)
    show ?thesis using c o1 o2 by (subst encode_chunks.simps) simp
  qed
qed

text \<open>Every usable measurement becomes one data point.\<close>

lemma mset_points_update: "distinct (map fst ms) \<Longrightarrow> map_of ms k = Some m \<Longrightarrow>
   mset (concat (map (mt_points \<circ> snd) (AList.update k (m\<lparr>mt_points := mt_points m @ ps\<rparr>) ms))) = mset (concat (map (mt_points \<circ> snd) ms)) + mset ps"
proof (induction ms)
  case (Cons x ms)
  obtain j y where x: "x = (j, y)" by fastforce
  show ?case
  proof (cases "j = k")
    case True
    then show ?thesis using Cons.prems x by simp
  next
    case False
    then show ?thesis using Cons x by simp
  qed
qed simp

lemma add_measurement_points:
  "distinct (map fst ms) \<Longrightarrow> distinct (map fst (add_measurement s p ms)) \<and>
   mset (concat (map (mt_points \<circ> snd) (add_measurement s p ms))) =
     mset (concat (map (mt_points \<circ> snd) ms)) + mset (if usable p then [data_point_of s p] else [])"
  using mset_points_update[of ms "metric_key p" _ "[data_point_of s p]"]
  by (auto simp: add_measurement_def distinct_update map_of_eq_None_iff split: option.splits)

lemma add_measurements_points:
  "distinct (map fst ms) \<Longrightarrow> mset (concat (map (mt_points \<circ> snd) (fold (add_measurement s) ps ms))) =
     mset (concat (map (mt_points \<circ> snd) ms)) + mset (map (data_point_of s) (filter usable ps))"
proof (induction ps arbitrary: ms)
  case (Cons p ps)
  note a = add_measurement_points[OF Cons.prems, of s p]
  show ?case using Cons.IH[OF conjunct1[OF a]] conjunct2[OF a] by (simp add: comp_def)
qed simp

lemma Metrics_of_points:
  "mset (concat (map mt_points (rm_metrics (Metrics_of s resource)))) = mset (map (data_point_of s) (filter usable (sn_Values s)))"
  using add_measurements_points[of "[]" s "sn_Values s"] by (simp add: Metrics_of_def)

section \<open>Log records\<close>

record pipeline_record =
  pl_Body :: bytes
  pl_SourceID :: bytes
  pl_RelativePath :: bytes
  pl_FileIdentity :: bytes
  pl_StartOffset :: int
  pl_EndOffset :: int
  pl_ObservedAt :: int
  pl_ServiceName :: bytes
  pl_Environment :: bytes
  pl_SourceType :: bytes
  pl_SeverityText :: bytes
  pl_Attributes :: "(bytes \<times> bytes) list"

record log_request =
  rq_resource :: "(bytes \<times> bytes) list"
  rq_scope :: "bytes \<times> bytes"
  rq_body :: bytes
  rq_observed :: int
  rq_time :: int
  rq_severity :: bytes
  rq_attributes :: "(bytes \<times> bytes) list"

text \<open>\<^verbatim>\<open>filepath.Base\<close>.\<close>

definition Base :: "bytes \<Rightarrow> bytes" where
  "Base p =
     (if p = [] then ''.''
      else let b = rev (takeWhile (\<lambda>c. c \<noteq> CHR ''/'') (dropWhile (\<lambda>c. c = CHR ''/'') (rev p))) in if b = [] then ''/'' else b)"

definition unless_empty :: "bytes \<Rightarrow> bytes \<Rightarrow> (bytes \<times> bytes) list" where
  "unless_empty k v = (if v = [] then [] else [(k, v)])"

definition log_resource :: "pipeline_record \<Rightarrow> (bytes \<times> bytes) list \<Rightarrow> (bytes \<times> bytes) list" where
  "log_resource r resource =
     put_all (resource @ unless_empty ''service.name'' (pl_ServiceName r) @ unless_empty ''deployment.environment.name'' (pl_Environment r)) []"

definition log_attributes :: "pipeline_record \<Rightarrow> (bytes \<times> bytes) list" where
  "log_attributes r = put_all
     ([(''observe.log.source.id'', pl_SourceID r)] @ unless_empty ''observe.log.source.type'' (pl_SourceType r) @
      (if pl_RelativePath r = [] then []
       else [(''log.file.name'', Base (pl_RelativePath r)), (''log.file.path'', pl_RelativePath r), (''log.file.identity'', pl_FileIdentity r),
             (''log.file.record_offset'', dec_int (pl_StartOffset r)), (''log.file.record_end_offset'', dec_int (pl_EndOffset r))]) @
      filter (\<lambda>(k, v). k \<noteq> [] \<and> v \<noteq> []) (pl_Attributes r)) []"

definition log_request_of :: "pipeline_record \<Rightarrow> (bytes \<times> bytes) list \<Rightarrow> log_request" where
  "log_request_of r resource =
     \<lparr>rq_resource = log_resource r resource,
      rq_scope = (if pl_SourceType r = ''journald'' then ''observe-agent.journald'' else ''observe-agent.filelog'', ''1''),
      rq_body = pl_Body r, rq_observed = pl_ObservedAt r, rq_time = pl_ObservedAt r, rq_severity = pl_SeverityText r,
      rq_attributes = log_attributes r\<rparr>"

definition LogJSON :: "(log_request \<Rightarrow> bytes option) \<Rightarrow> pipeline_record \<Rightarrow> (bytes \<times> bytes) list \<Rightarrow> int \<Rightarrow> bytes result" where
  "LogJSON marshal r resource maxBytes =
     (if pl_Body r = [] \<or> 1048576 < length (pl_Body r) \<or> maxBytes < 1024 then Inl (Failure ''log record invalid'')
      else case marshal (log_request_of r resource) of
        None \<Rightarrow> Inl (Failure ''OTLP log serialization failed or exceeds request bound'')
      | Some raw \<Rightarrow>
          if maxBytes < int (length raw) then Inl (Failure ''OTLP log serialization failed or exceeds request bound'') else Inr raw)"

lemma LogJSON_iff:
  "LogJSON marshal r resource maxBytes = Inr raw \<longleftrightarrow>
     pl_Body r \<noteq> [] \<and> length (pl_Body r) \<le> 1048576 \<and> 1024 \<le> maxBytes \<and> marshal (log_request_of r resource) = Some raw \<and>
     int (length raw) \<le> maxBytes"
  by (auto simp: LogJSON_def split: option.splits)

lemma map_of_put_all: "map_of (put_all kvs m) k = (case map_of (rev kvs) k of None \<Rightarrow> map_of m k | Some v \<Rightarrow> Some v)"
  by (induction kvs arbitrary: m) (auto simp: put_all_def map_add_def update_conv' split: option.splits)

text \<open>A record of a file names its place in the file, which together with the identity of the file identifies the record.\<close>

lemma log_attributes_place:
  assumes "pl_RelativePath r \<noteq> []" "pl_Attributes r = []" "pl_SourceType r = []"
  shows "map_of (log_attributes r) ''log.file.identity'' = Some (pl_FileIdentity r)"
    "map_of (log_attributes r) ''log.file.record_offset'' = Some (dec_int (pl_StartOffset r))"
    "map_of (log_attributes r) ''log.file.record_end_offset'' = Some (dec_int (pl_EndOffset r))"
    "map_of (log_attributes r) ''observe.log.source.id'' = Some (pl_SourceID r)"
  using assms by (simp_all add: log_attributes_def map_of_put_all unless_empty_def)

text \<open>The service and the environment of a source replace those of the host.\<close>

lemma log_resource_service:
  "map_of (log_resource r resource) ''service.name'' = (if pl_ServiceName r = [] then map_of (put_all resource []) ''service.name'' else Some (pl_ServiceName r))"
  by (simp add: log_resource_def map_of_put_all unless_empty_def)


section \<open>Batching\<close>

text \<open>
  C23: Batching loses, repeats and reorders nothing. Where it succeeds, the measurements are cut into consecutive parts of at least one and at most
  \<open>maxPoints\<close> measurements, and the result holds the encoding of each part, in order, each within the byte bound; every usable measurement of a part
  is one data point of its request. Where every list of measurements can be encoded and every single measurement fits the bound,
  it does succeed.
\<close>

theorem batches_cover_all_points:
  assumes "1 \<le> maxPoints" "maxPoints \<le> 1000" "1024 \<le> maxBytes"
  shows "(\<forall>out. Batches marshal s resource maxPoints maxBytes = Inr out \<longrightarrow>
       (\<exists>parts. concat parts = sn_Values s \<and> parts_of (encode_part marshal s resource) (nat maxBytes) (nat maxPoints) parts out)) \<and>
     ((\<forall>p. set p \<subseteq> set (sn_Values s) \<longrightarrow> encode_part marshal s resource p \<noteq> None) \<longrightarrow>
      (\<forall>x \<in> set (sn_Values s). \<exists>raw. encode_part marshal s resource [x] = Some raw \<and> length raw \<le> nat maxBytes) \<longrightarrow>
      (\<exists>out. Batches marshal s resource maxPoints maxBytes = Inr out)) \<and>
     (\<forall>p. mset (concat (map mt_points (rm_metrics (Metrics_of (s\<lparr>sn_Values := p\<rparr>) resource)))) =
        mset (map (data_point_of (s\<lparr>sn_Values := p\<rparr>)) (filter usable p)))"
proof -
  have b: "Batches marshal s resource maxPoints maxBytes = encode_chunks (encode_part marshal s resource) (nat maxBytes) (nat maxPoints) (sn_Values s)"
    using assms(1-3) by (simp add: Batches_def)
  have n: "0 < nat maxPoints" using assms(1) by simp
  show ?thesis using encode_chunks_parts[of "encode_part marshal s resource" "nat maxBytes" "nat maxPoints" "sn_Values s"]
      encode_chunks_total[of "sn_Values s" "encode_part marshal s resource" "nat maxBytes" "nat maxPoints"] n Metrics_of_points[of "s\<lparr>sn_Values := _\<rparr>" resource]
    unfolding b by simp
qed

definition sample_snapshot :: snapshot where
  "sample_snapshot = \<lparr>sn_StartTime = Some 1000000000, sn_ObservedAt = 5000000000, sn_Values =
     [\<lparr>ms_Name = ''system.cpu.time'', ms_Unit = ''s'', ms_Kind = ''sum'', ms_Value = Finite 1, ms_Attributes = []\<rparr>,
      \<lparr>ms_Name = ''host.load'', ms_Unit = ''1'', ms_Kind = ''gauge'', ms_Value = Finite 2, ms_Attributes = []\<rparr>],
     sn_Issues = []\<rparr>"

text \<open>An encoder for the example: 800 bytes for every data point.\<close>

definition sample_marshal :: "resource_metrics \<Rightarrow> bytes option" where
  "sample_marshal m = Some (concat (map (\<lambda>_. replicate 800 (CHR ''x'')) (concat (map mt_points (rm_metrics m)))))"

theorem batches_cover_all_points_witness:
  "\<exists>parts. concat parts = sn_Values sample_snapshot \<and> parts_of (encode_part sample_marshal sample_snapshot []) 1024 100 parts
     (case Batches sample_marshal sample_snapshot [] 100 1024 of Inr out \<Rightarrow> out | Inl _ \<Rightarrow> [])"
proof -
  have one: "length (concat (map mt_points (rm_metrics (Metrics_of (sample_snapshot\<lparr>sn_Values := [x]\<rparr>) [])))) \<le> 1" for x
    by (simp add: Metrics_of_def add_measurement_def)
  have "length (concat (map (\<lambda>_. replicate 800 (CHR ''x'')) xs)) = 800 * length xs" for xs :: "data_point list" by (induction xs) simp_all
  then have "\<exists>raw. encode_part sample_marshal sample_snapshot [] [x] = Some raw \<and> length raw \<le> nat 1024" for x
    using one[of x] by (simp add: sample_marshal_def encode_part_def)
  then obtain out where "Batches sample_marshal sample_snapshot [] 100 1024 = Inr out"
    using batches_cover_all_points[of 100 1024 sample_marshal sample_snapshot "[]"] by (auto simp: sample_marshal_def encode_part_def)
  then show ?thesis using batches_cover_all_points[of 100 1024 sample_marshal sample_snapshot "[]"] by simp
qed

end
