(* ===== verification/Identity.thy ===== *)
theory Identity
  imports Config Pipeline Scope
begin

text \<open>
  The identity of the host (\<^verbatim>\<open>src/internal/identity/identity.go\<close>, \<^verbatim>\<open>src/internal/cloud/\<close>,
  \<^verbatim>\<open>src/internal/platform/ec2_linux.go\<close> and \<open>MachineID\<close> of \<^verbatim>\<open>native_linux.go\<close>), which the collectors put into every request
  and into the scope of their spools. The answers of the metadata service and the contents of files are parameters.
\<close>

section \<open>The metadata service\<close>

record evidence =
  ev_Verified :: bool
  ev_Provider :: bytes
  ev_Platform :: bytes
  ev_Account :: bytes
  ev_Region :: bytes
  ev_AvailabilityZone :: bytes
  ev_InstanceID :: bytes
  ev_InstanceType :: bytes
  ev_ResourceID :: bytes

definition no_evidence :: evidence where
  "no_evidence = \<lparr>ev_Verified = False, ev_Provider = [], ev_Platform = [], ev_Account = [], ev_Region = [], ev_AvailabilityZone = [],
     ev_InstanceID = [], ev_InstanceType = [], ev_ResourceID = []\<rparr>"

definition ErrUnavailable :: error where "ErrUnavailable = Failure ''EC2 metadata unavailable''"

definition ErrInvalid :: error where "ErrInvalid = Failure ''EC2 metadata identity invalid''"

definition is_lower :: "char \<Rightarrow> bool" where
  "is_lower = in_range 97 122"

definition is_lower_hex :: "char \<Rightarrow> bool" where
  "is_lower_hex c \<longleftrightarrow> is_digit c \<or> in_range 97 102 c"

definition accountPattern :: "bytes \<Rightarrow> bool" where
  "accountPattern s \<longleftrightarrow> length s = 12 \<and> list_all is_digit s"

definition instancePattern :: "bytes \<Rightarrow> bool" where
  "instancePattern s \<longleftrightarrow> HasPrefix s ''i-'' \<and> length (drop 2 s) \<in> {8, 17} \<and> list_all is_lower_hex (drop 2 s)"

fun split_dash :: "bytes \<Rightarrow> bytes list" where
  "split_dash [] = [[]]"
| "split_dash (c # s) =
     (if c = CHR ''-'' then [] # split_dash s else (case split_dash s of [] \<Rightarrow> [[c]] | p # ps \<Rightarrow> (c # p) # ps))"

text \<open>Two letters, at least one group of letters, digits, separated by dashes.\<close>

definition regionPattern :: "bytes \<Rightarrow> bool" where
  "regionPattern s \<longleftrightarrow>
     (let ps = split_dash s in
      3 \<le> length ps \<and> length (hd ps) = 2 \<and> list_all (\<lambda>p. p \<noteq> []) ps \<and> list_all (list_all is_lower) (butlast ps) \<and> list_all is_digit (last ps))"

fun Contains :: "bytes \<Rightarrow> bytes \<Rightarrow> bool" where
  "Contains [] p = (p = [])"
| "Contains (c # s) p = (HasPrefix (c # s) p \<or> Contains s p)"

text \<open>The answer to a request, if there is one; \<open>md_broken\<close> says that reading on after \<open>md_body\<close> fails.\<close>

record metadata_reply =
  md_status :: int
  md_body :: bytes
  md_broken :: bool

definition read_metadata :: "nat \<Rightarrow> metadata_reply option \<Rightarrow> bytes result" where
  "read_metadata limit reply' =
     (case reply' of
        None \<Rightarrow> Inl ErrUnavailable
      | Some r \<Rightarrow>
          if md_status r \<noteq> 200 then Inl ErrUnavailable
          else if md_broken r \<or> limit < length (md_body r) then Inl ErrInvalid else Inr (md_body r))"

record instance_document =
  doc_Account :: bytes
  doc_Region :: bytes
  doc_AZ :: bytes
  doc_Instance :: bytes
  doc_Type :: bytes

definition set_document :: "bytes \<Rightarrow> bytes \<Rightarrow> instance_document \<Rightarrow> instance_document option" where
  "set_document f v d =
     (if f = ''accountId'' then map_option (\<lambda>x. d\<lparr>doc_Account := x\<rparr>) (get_string v (doc_Account d))
      else if f = ''region'' then map_option (\<lambda>x. d\<lparr>doc_Region := x\<rparr>) (get_string v (doc_Region d))
      else if f = ''availabilityZone'' then map_option (\<lambda>x. d\<lparr>doc_AZ := x\<rparr>) (get_string v (doc_AZ d))
      else if f = ''instanceId'' then map_option (\<lambda>x. d\<lparr>doc_Instance := x\<rparr>) (get_string v (doc_Instance d))
      else map_option (\<lambda>x. d\<lparr>doc_Type := x\<rparr>) (get_string v (doc_Type d)))"

definition unmarshal_document :: "bytes \<Rightarrow> instance_document option" where
  "unmarshal_document b =
     (case json_fields b of None \<Rightarrow> None | Some kvs \<Rightarrow>
      set_fields [''accountId'', ''region'', ''availabilityZone'', ''instanceId'', ''instanceType''] set_document kvs
        \<lparr>doc_Account = [], doc_Region = [], doc_AZ = [], doc_Instance = [], doc_Type = []\<rparr>)"

definition document_ok :: "instance_document \<Rightarrow> bool" where
  "document_ok d \<longleftrightarrow> accountPattern (doc_Account d) \<and> regionPattern (doc_Region d) \<and> instancePattern (doc_Instance d) \<and>
     HasPrefix (doc_AZ d) (doc_Region d) \<and> length (doc_AZ d) \<le> 64 \<and> length (doc_Type d) \<le> 128"

definition partition_of :: "bytes \<Rightarrow> bytes" where
  "partition_of region =
     (if HasPrefix region ''us-gov-'' then ''aws-us-gov'' else if HasPrefix region ''cn-'' then ''aws-cn'' else ''aws'')"

text \<open>The second answer depends on the token of the first.\<close>

definition Detect :: "metadata_reply option \<Rightarrow> (bytes \<Rightarrow> metadata_reply option) \<Rightarrow> evidence result" where
  "Detect token_reply document_reply =
     (case read_metadata 4096 token_reply of Inl _ \<Rightarrow> Inl ErrUnavailable | Inr token \<Rightarrow>
      if token = [] \<or> ContainsAny token line_breaks then Inl ErrInvalid
      else (case read_metadata 16384 (document_reply token) of Inl _ \<Rightarrow> Inl ErrInvalid | Inr raw \<Rightarrow>
      (case unmarshal_document raw of None \<Rightarrow> Inl ErrInvalid | Some d \<Rightarrow>
      if \<not> document_ok d then Inl ErrInvalid
      else if Contains (doc_Region d) ''iso'' then Inl ErrInvalid
      else Inr \<lparr>ev_Verified = True, ev_Provider = ''aws'', ev_Platform = ''aws_ec2'', ev_Account = doc_Account d, ev_Region = doc_Region d,
        ev_AvailabilityZone = doc_AZ d, ev_InstanceID = doc_Instance d, ev_InstanceType = doc_Type d,
        ev_ResourceID = ''arn:'' @ partition_of (doc_Region d) @ '':ec2:'' @ doc_Region d @ '':'' @ doc_Account d @ '':instance/'' @ doc_Instance d\<rparr>)))"

text \<open>Lower case as far as it matters for the two words looked for, which are written in ASCII.\<close>

definition ToLower :: "bytes \<Rightarrow> bytes" where
  "ToLower s = map (\<lambda>c. if in_range 65 90 c then char_of (of_char c + (32 :: nat)) else c) s"

definition EC2Expected :: "(bytes \<Rightarrow> bytes option) \<Rightarrow> bool" where
  "EC2Expected files \<longleftrightarrow>
     list_ex (\<lambda>path. case files path of None \<Rightarrow> False | Some raw \<Rightarrow>
        let value = ToLower (TrimSpace raw) in Contains value ''amazon ec2'' \<or> HasPrefix value ''ec2'')
       [''/sys/devices/virtual/dmi/id/sys_vendor'', ''/sys/hypervisor/uuid'']"

section \<open>The machine\<close>

text \<open>\<open>contents\<close> is what can be read from the file, if it can be opened, and whether reading it fails in the end.\<close>

definition MachineID :: "error option \<Rightarrow> (bytes \<times> bool) option \<Rightarrow> bytes result" where
  "MachineID ctx contents =
     (case ctx of Some e \<Rightarrow> Inl e | None \<Rightarrow>
      (case contents of None \<Rightarrow> Inl (Failure ''machine identity unavailable'') | Some (b, broken) \<Rightarrow>
       if broken \<or> 256 < length b then Inl (Failure ''machine identity invalid'')
       else let s = TrimSpace b in
         if length s \<noteq> 32 \<or> \<not> list_all is_lower_hex s then Inl (Failure ''stable machine identity unavailable'') else Inr s))"

section \<open>Resolution\<close>

record resolved =
  rs_AgentID :: bytes
  rs_HostID :: bytes
  rs_Cloud :: evidence

definition safe :: "bytes \<Rightarrow> bool" where
  "safe s \<longleftrightarrow> 0 < length s \<and> length s \<le> 256 \<and> \<not> ContainsAny s line_breaks"

definition instance_host :: "evidence \<Rightarrow> bool" where
  "instance_host e \<longleftrightarrow> ev_Verified e \<and> ev_Provider e = ''aws'' \<and> ev_Platform e = ''aws_ec2'' \<and> instancePattern (ev_InstanceID e)"

definition Resolve :: "bytes \<Rightarrow> evidence \<Rightarrow> bytes result \<Rightarrow> resolved result" where
  "Resolve configured ev machine =
     (let configured' = TrimSpace configured in
      if configured' \<noteq> [] \<and> \<not> safe configured' then Inl (Failure ''configured agent identity invalid'')
      else let (host, ev') =
          (if instance_host ev then (ev_InstanceID ev, ev)
           else (case machine of Inl _ \<Rightarrow> [] | Inr v \<Rightarrow> if safe (TrimSpace v) then TrimSpace v else [], no_evidence));
        agent = (if configured' = [] then host else configured')
      in if agent = [] then Inl (Failure ''all supported agent identity sources unavailable'')
         else Inr \<lparr>rs_AgentID = agent, rs_HostID = host, rs_Cloud = ev'\<rparr>)"

definition RequireHost :: "resolved \<Rightarrow> error option" where
  "RequireHost r = (if rs_HostID r = [] then Some (Failure ''canonical host identity unavailable'') else None)"

definition Resource :: "resolved \<Rightarrow> bytes \<Rightarrow> bytes \<Rightarrow> bytes \<Rightarrow> bytes \<Rightarrow> (bytes \<times> bytes) list" where
  "Resource r osType arch version' service =
     [(''host.name'', rs_AgentID r), (''service.name'', if service = [] then rs_AgentID r else service), (''telemetry.distro.name'', ''agent-i''),
      (''telemetry.distro.version'', version'), (''os.type'', osType), (''host.arch'', arch)] @
     unless_empty ''host.id'' (rs_HostID r) @
     (if ev_Verified (rs_Cloud r) then
        unless_empty ''cloud.provider'' (ev_Provider (rs_Cloud r)) @ unless_empty ''cloud.platform'' (ev_Platform (rs_Cloud r)) @
        unless_empty ''cloud.account.id'' (ev_Account (rs_Cloud r)) @ unless_empty ''cloud.region'' (ev_Region (rs_Cloud r)) @
        unless_empty ''cloud.availability_zone'' (ev_AvailabilityZone (rs_Cloud r)) @ unless_empty ''cloud.resource_id'' (ev_ResourceID (rs_Cloud r)) @
        unless_empty ''host.type'' (ev_InstanceType (rs_Cloud r))
      else [])"

text \<open>The identity both capabilities resolve before they start; a detector that fails leaves no evidence.\<close>

definition capability_identity :: "config \<Rightarrow> evidence result \<Rightarrow> bool \<Rightarrow> bytes result \<Rightarrow> resolved result" where
  "capability_identity c detected expected machine =
     (case Runtime c of (_, ec2, _) \<Rightarrow>
      case (if ec2_Enabled ec2 = Some True
            then (case detected of
                    Inr ev \<Rightarrow> Inr ev
                  | Inl e \<Rightarrow> if ec2_Required ec2 \<or> expected \<or> e = ErrInvalid then Inl (Failure ''EC2 identity required but unavailable'')
                      else Inr no_evidence)
            else Inr no_evidence) of
        Inl e \<Rightarrow> Inl e
      | Inr ev \<Rightarrow>
          (case Resolve (AgentID c) ev machine of Inl e \<Rightarrow> Inl e | Inr r \<Rightarrow>
           (case RequireHost r of Some e \<Rightarrow> Inl e | None \<Rightarrow> Inr r)))"

definition attribute :: "(bytes \<times> bytes) list \<Rightarrow> bytes \<Rightarrow> bytes" where
  "attribute attrs k = (case map_of attrs k of None \<Rightarrow> [] | Some v \<Rightarrow> v)"

definition capability_scope :: "config \<Rightarrow> (bytes \<times> bytes) list \<Rightarrow> scope" where
  "capability_scope c attrs =
     \<lparr>BackendID = Config.BackendID (Exporter c), OrganizationID = Config.OrganizationID (Exporter c), HostID = attribute attrs ''host.id'',
      Account = attribute attrs ''cloud.account.id'', Region = attribute attrs ''cloud.region''\<rparr>"


section \<open>Identities fit the spools\<close>

lemma alnum_not_space: "is_alnum c \<Longrightarrow> c \<notin> set (concat space_runes)"
proof
  assume a: "is_alnum c" and m: "c \<in> set (concat space_runes)"
  have "list_all (\<lambda>c. \<not> is_alnum c) (concat space_runes)"
    by (simp add: space_runes_def is_alnum_def is_alpha_def is_digit_def in_range_def)
  then show False using a m by (auto simp: list_all_iff)
qed

lemma trim_fuel_keeps: "c \<in> set s \<Longrightarrow> c \<notin> set (concat sp) \<Longrightarrow> c \<in> set (trim_fuel sp n s)"
proof (induction sp n s rule: trim_fuel.induct)
  case (2 sp n s)
  show ?case
  proof (cases "find (HasPrefix s) sp")
    case (Some r)
    then have r: "r \<in> set sp" "HasPrefix s r" by (auto simp: find_Some_iff)
    then obtain t where t: "s = r @ t" by (auto simp: HasPrefix_iff)
    then have "c \<in> set (drop (length r) s)" using 2(2,3) r(1) by auto
    then show ?thesis using 2(1)[OF Some] 2(3) Some by simp
  qed (use 2 in simp)
qed simp

lemma TrimSpace_keeps: "c \<in> set s \<Longrightarrow> is_alnum c \<Longrightarrow> TrimSpace s \<noteq> []"
proof -
  assume c: "c \<in> set s" "is_alnum c"
  have "c \<in> set (TrimLeftSpace s)" unfolding TrimLeftSpace_def by (rule trim_fuel_keeps[OF c(1) alnum_not_space[OF c(2)]])
  then have "c \<in> set (trim_fuel (map rev space_runes) (length (TrimLeftSpace s)) (rev (TrimLeftSpace s)))"
    using alnum_not_space[OF c(2)] by (intro trim_fuel_keeps) auto
  then show ?thesis by (auto simp: TrimSpace_def TrimRightSpace_def)
qed

lemma word_pattern_chars: "word_pattern first others n s \<Longrightarrow> list_all (\<lambda>c. first c \<or> others c) s \<and> s \<noteq> []"
  by (cases s) (auto simp: word_pattern_def list_all_iff)

lemma plain_text: "list_all (\<lambda>c. c \<notin> set line_breaks) s \<Longrightarrow> \<not> ContainsAny s line_breaks"
  by (auto simp: ContainsAny_def list_all_iff list_ex_iff)

lemma break_not_alnum: "c \<in> set line_breaks \<Longrightarrow> \<not> is_alnum c \<and> c \<notin> set ''._:-''"
  by (auto simp: line_breaks_def is_alnum_def is_alpha_def is_digit_def in_range_def)

lemma logicalID_value: "logicalID s \<Longrightarrow> \<not> bad_value i s"
proof -
  assume l: "logicalID s"
  then obtain c t where s: "s = c # t" "is_alnum c" "length t \<le> 127" "list_all (\<lambda>c. is_alnum c \<or> c \<in> set ''._:-'') t"
    by (auto simp: logicalID_def word_pattern_def split: list.splits)
  have "list_all (\<lambda>c. c \<notin> set line_breaks) s" using s break_not_alnum by (fastforce simp: list_all_iff)
  then have "\<not> ContainsAny s line_breaks" by (rule plain_text)
  then show ?thesis using s TrimSpace_keeps[of c s] by (simp add: bad_value_def line_breaks_def)
qed

lemma hex_alnum: "is_lower_hex c \<Longrightarrow> is_alnum c"
  by (auto simp: is_lower_hex_def is_alnum_def is_alpha_def is_digit_def in_range_def)

lemma dashed_value:
  assumes "list_all (\<lambda>c. is_alnum c \<or> c = CHR ''-'') s" "length s \<le> 256" "i < 3 \<longrightarrow> (\<exists>c \<in> set s. is_alnum c)"
  shows "\<not> bad_value i s"
proof -
  have "list_all (\<lambda>c. c \<notin> set line_breaks) s" using assms(1) break_not_alnum by (fastforce simp: list_all_iff)
  then have "\<not> ContainsAny s line_breaks" by (rule plain_text)
  then show ?thesis using assms TrimSpace_keeps[of _ s] by (auto simp: bad_value_def line_breaks_def)
qed

lemma instancePattern_chars:
  assumes "instancePattern s"
  shows "list_all (\<lambda>c. is_alnum c \<or> c = CHR ''-'') s \<and> length s \<le> 19 \<and> (\<exists>c \<in> set s. is_alnum c)"
proof -
  obtain t where t: "s = ''i-'' @ t" "length t \<in> {8, 17}" "list_all is_lower_hex t"
    using assms by (auto simp: instancePattern_def HasPrefix_iff)
  have i: "is_alnum (CHR ''i'')" by (simp add: is_alnum_def is_alpha_def in_range_def)
  have "list_all is_alnum t" using t(3) hex_alnum by (auto simp: list_all_iff)
  then show ?thesis using t(1,2) i by (auto simp: list_all_iff)
qed

lemma split_dash_ne [simp]: "split_dash s \<noteq> []"
  by (induction s rule: split_dash.induct) (auto split: list.splits)

lemma split_dash_chars: "c \<in> set s \<Longrightarrow> c = CHR ''-'' \<or> (\<exists>p \<in> set (split_dash s). c \<in> set p)"
proof (induction s)
  case (Cons d s)
  then show ?case by (cases "split_dash s") auto
qed simp

lemma regionPattern_chars: "regionPattern s \<Longrightarrow> list_all (\<lambda>c. is_alnum c \<or> c = CHR ''-'') s"
proof -
  assume r: "regionPattern s"
  have l: "list_all is_alnum p" if "p \<in> set (butlast (split_dash s)) \<or> p = last (split_dash s)" for p
    using r that by (auto simp: regionPattern_def Let_def list_all_iff is_lower_def is_alnum_def is_alpha_def)
  have "list_all is_alnum p" if "p \<in> set (split_dash s)" for p
    using l that by (metis append_butlast_last_id rotate1.simps(2) set_ConsD set_rotate1 split_dash_ne)
  then show ?thesis using split_dash_chars[of _ s] by (fastforce simp: list_all_iff)
qed

lemma alnum_no_space_prefix:
  assumes "list_all is_alnum s" "sp = space_runes \<or> sp = map rev space_runes"
  shows "find (HasPrefix s) sp = None"
proof -
  have "\<not> HasPrefix s r" if r: "r \<in> set sp" for r
  proof
    assume "HasPrefix s r"
    then have "set r \<subseteq> set s" by (auto simp: HasPrefix_iff)
    moreover have "r \<noteq> []" using r assms(2) by (auto simp: space_runes_def)
    ultimately obtain c where c: "c \<in> set r" "c \<in> set s" by (cases r) auto
    then have "c \<in> set (concat space_runes)" using r assms(2) by fastforce
    then show False using c(2) assms(1) alnum_not_space by (auto simp: list_all_iff)
  qed
  then show ?thesis by (simp add: find_None_iff)
qed

lemma alnum_TrimSpace: "list_all is_alnum s \<Longrightarrow> TrimSpace s = s"
  using alnum_no_space_prefix[of s space_runes] alnum_no_space_prefix[of "rev s" "map rev space_runes"]
  by (simp add: TrimSpace_def TrimLeftSpace_def TrimRightSpace_def trim_fuel_nonspace)

lemma Detect_evidence:
  assumes "Detect token document = Inr ev"
  shows "instance_host ev \<and> accountPattern (ev_Account ev) \<and> regionPattern (ev_Region ev) \<and> length (ev_Region ev) \<le> 64"
proof -
  obtain d where d: "document_ok d" "ev_Account ev = doc_Account d" "ev_Region ev = doc_Region d" "ev_InstanceID ev = doc_Instance d"
      "ev_Verified ev" "ev_Provider ev = ''aws''" "ev_Platform ev = ''aws_ec2''"
    using assms by (auto simp: Detect_def split: sum.splits if_splits option.splits)
  have "length (doc_Region d) \<le> length (doc_AZ d)" using d(1) by (auto simp: document_ok_def HasPrefix_iff)
  then show ?thesis using d by (simp add: document_ok_def instance_host_def)
qed

lemma MachineID_value: "MachineID ctx contents = Inr s \<Longrightarrow> length s = 32 \<and> list_all is_alnum s"
  using hex_alnum by (auto simp: MachineID_def Let_def list_all_iff split: option.splits if_splits)

lemma attribute_Resource:
  "attribute (Resource r os arch v svc) ''host.id'' = rs_HostID r"
  "attribute (Resource r os arch v svc) ''cloud.account.id'' = (if ev_Verified (rs_Cloud r) then ev_Account (rs_Cloud r) else [])"
  "attribute (Resource r os arch v svc) ''cloud.region'' = (if ev_Verified (rs_Cloud r) then ev_Region (rs_Cloud r) else [])"
  by (simp_all add: attribute_def Resource_def unless_empty_def)

lemma bad_value_Nil: "3 \<le> i \<Longrightarrow> \<not> bad_value i []"
  by (simp add: bad_value_def ContainsAny_def)

text \<open>Who the host is: the instance that the metadata service named, or else the machine.\<close>

lemma identity_sources:
  assumes "capability_identity c (Detect token document) expected (MachineID ctx contents) = Inr r"
  shows "(Detect token document = Inr (rs_Cloud r) \<and> rs_HostID r = ev_InstanceID (rs_Cloud r)) \<or>
     (rs_Cloud r = no_evidence \<and> MachineID ctx contents = Inr (rs_HostID r) \<and>
      (ec2_Enabled (fst (snd (Runtime c))) = Some True \<longrightarrow>
         \<not> ec2_Required (fst (snd (Runtime c))) \<and> \<not> expected \<and> Detect token document = Inl ErrUnavailable))"
proof -
  obtain a e d where rt: "Runtime c = (a, e, d)" by (metis prod_cases3)
  let ?fallback = "ec2_Enabled e = Some True \<longrightarrow> \<not> ec2_Required e \<and> \<not> expected \<and> Detect token document = Inl ErrUnavailable"
  have inl: "x = ErrUnavailable \<or> x = ErrInvalid" if "Detect token document = Inl x" for x
    using that by (auto simp: Detect_def split: sum.splits if_splits option.splits)
  obtain ev where ev: "Resolve (AgentID c) ev (MachineID ctx contents) = Inr r" "RequireHost r = None"
      "Detect token document = Inr ev \<or> (ev = no_evidence \<and> ?fallback)"
    using assms rt inl by (auto simp: capability_identity_def split: if_splits sum.splits option.splits)
  show ?thesis
  proof (cases "instance_host ev")
    case True
    then have "Detect token document = Inr ev" using ev(3) by (auto simp: instance_host_def no_evidence_def)
    then show ?thesis using True ev(1) by (auto simp: Resolve_def Let_def split: if_splits)
  next
    case False
    then have ev': "ev = no_evidence" "?fallback" using ev(3) Detect_evidence by blast+
    have host: "rs_HostID r \<noteq> []" using ev(2) by (simp add: RequireHost_def split: if_splits)
    then obtain v where v: "MachineID ctx contents = Inr v" "rs_HostID r = TrimSpace v" "rs_Cloud r = no_evidence"
      using ev(1) False by (auto simp: Resolve_def Let_def split: if_splits sum.splits)
    then have "rs_HostID r = v" using MachineID_value[OF v(1)] alnum_TrimSpace by simp
    then show ?thesis using v ev'(2) rt by simp
  qed
qed

lemma identity_scope_ok:
  assumes "ValidateQueueIdentity parse c = None" "capability_identity c (Detect token document) expected (MachineID ctx contents) = Inr r"
  shows "scope_ok (capability_scope c (Resource r os arch v svc))"
proof -
  have ids: "\<not> bad_value 0 (Config.BackendID (Exporter c))" "\<not> bad_value 1 (Config.OrganizationID (Exporter c))"
    using assms(1) logicalID_value by (auto simp: ValidateQueueIdentity_def split: if_splits)
  have dash: "list_all (\<lambda>c. is_alnum c \<or> c = CHR ''-'') s" if "list_all is_alnum s" for s
    using that by (auto simp: list_all_iff)
  show ?thesis
  proof (cases "Detect token document = Inr (rs_Cloud r) \<and> rs_HostID r = ev_InstanceID (rs_Cloud r)")
    case True
    note d = Detect_evidence[OF conjunct1[OF True]]
    have i: "instancePattern (rs_HostID r)" "ev_Verified (rs_Cloud r)" using d True by (simp_all add: instance_host_def)
    have "list_all is_alnum (ev_Account (rs_Cloud r))" using d by (auto simp: accountPattern_def list_all_iff is_alnum_def)
    then have "\<not> bad_value 3 (ev_Account (rs_Cloud r))" using d dash by (intro dashed_value) (auto simp: accountPattern_def)
    moreover have "\<not> bad_value 4 (ev_Region (rs_Cloud r))" using d regionPattern_chars by (intro dashed_value) auto
    moreover have "\<not> bad_value 2 (rs_HostID r)" using instancePattern_chars[OF i(1)] by (intro dashed_value) auto
    ultimately show ?thesis using ids i(2) by (simp add: capability_scope_def attribute_Resource scope_ok_def scope_values_def eval_nat_numeral True)
  next
    case False
    then have m: "rs_Cloud r = no_evidence" "MachineID ctx contents = Inr (rs_HostID r)" using identity_sources[OF assms(2)] by blast+
    note v = MachineID_value[OF m(2)]
    obtain x xs where "rs_HostID r = x # xs" using v by (cases "rs_HostID r") auto
    then have "\<not> bad_value 2 (rs_HostID r)" using v dash by (intro dashed_value) auto
    then show ?thesis
      using ids m(1) by (simp add: capability_scope_def attribute_Resource scope_ok_def scope_values_def no_evidence_def bad_value_Nil eval_nat_numeral)
  qed
qed

text \<open>
  C24: The identity under which a capability starts. The host is the instance that the metadata service named, with its document checked, or the
  machine of the machine-id file; the machine takes the place of the instance only where the service is not enabled, or it gave no answer, is not
  required and nothing on the machine suggests that it is an instance. The spool scope that is built from it always passes the check of the scope
  and carries that host.
\<close>

theorem host_identity_is_verified:
  assumes "ValidateQueueIdentity parse c = None" "capability_identity c (Detect token document) expected (MachineID ctx contents) = Inr r"
  shows "scope_ok (capability_scope c (Resource r os arch v svc)) \<and> HostID (capability_scope c (Resource r os arch v svc)) = rs_HostID r \<and>
     ((Detect token document = Inr (rs_Cloud r) \<and> instance_host (rs_Cloud r) \<and> rs_HostID r = ev_InstanceID (rs_Cloud r)) \<or>
      (rs_Cloud r = no_evidence \<and> MachineID ctx contents = Inr (rs_HostID r) \<and> length (rs_HostID r) = 32 \<and>
       (ec2_Enabled (fst (snd (Runtime c))) = Some True \<longrightarrow>
          \<not> ec2_Required (fst (snd (Runtime c))) \<and> \<not> expected \<and> Detect token document = Inl ErrUnavailable)))"
proof -
  have "HostID (capability_scope c (Resource r os arch v svc)) = rs_HostID r" by (simp add: capability_scope_def attribute_Resource)
  moreover have "instance_host (rs_Cloud r)" if "Detect token document = Inr (rs_Cloud r)" using Detect_evidence[OF that] by simp
  moreover have "length (rs_HostID r) = 32" if "MachineID ctx contents = Inr (rs_HostID r)" using MachineID_value[OF that] by simp
  ultimately show ?thesis using identity_sources[OF assms(2)] identity_scope_ok[OF assms] by blast
qed

definition sample_machine :: "(bytes \<times> bool) option" where
  "sample_machine = Some (replicate 32 (CHR ''a'') @ [CHR 0x0A], False)"

theorem host_identity_is_verified_witness:
  "\<exists>r. capability_identity sample_config (Detect None (\<lambda>_. None)) False (MachineID None sample_machine) = Inr r \<and>
     scope_ok (capability_scope sample_config (Resource r ''linux'' ''amd64'' ''1'' []))"
proof -
  have "TrimSpace (replicate 32 (CHR ''a'') @ [CHR 0x0A]) = replicate 32 (CHR ''a'')"
    by code_simp
  moreover have "list_all is_lower_hex (replicate 32 (CHR ''a''))" by (simp add: list_all_length is_lower_hex_def in_range_def)
  ultimately have m: "MachineID None sample_machine = Inr (replicate 32 (CHR ''a''))"
    by (simp add: MachineID_def sample_machine_def Let_def)
  have a: "list_all is_alnum (replicate 32 (CHR ''a''))" by (simp add: list_all_length is_alnum_def is_alpha_def in_range_def)
  have s: "safe (replicate 32 (CHR ''a''))" by (simp add: safe_def ContainsAny_def line_breaks_def list_ex_length)
  have d: "Detect None (\<lambda>_. None) = Inl ErrUnavailable" by (simp add: Detect_def read_metadata_def)
  have t: "TrimSpace [] = []" using alnum_TrimSpace[of "[]"] by simp
  have "capability_identity sample_config (Detect None (\<lambda>_. None)) False (MachineID None sample_machine) =
      Inr \<lparr>rs_AgentID = replicate 32 (CHR ''a''), rs_HostID = replicate 32 (CHR ''a''), rs_Cloud = no_evidence\<rparr>"
    unfolding m d using alnum_TrimSpace[OF a] s t
    by (simp add: capability_identity_def Runtime_def sample_config_def Let_def ErrUnavailable_def ErrInvalid_def Resolve_def instance_host_def
        no_evidence_def RequireHost_def)
  moreover have "ValidateQueueIdentity sample_parse sample_config = None"
    by (simp add: ValidateQueueIdentity_def sample_config_def logicalID_def word_pattern_def is_alnum_def is_alpha_def in_range_def)
  ultimately show ?thesis using host_identity_is_verified[of sample_parse sample_config None "\<lambda>_. None" False None sample_machine] by blast
qed

section \<open>A sample identity\<close>

definition sample_host :: bytes where
  "sample_host = replicate 32 (CHR ''a'')"

definition sample_who :: resolved where
  "sample_who = \<lparr>rs_AgentID = sample_host, rs_HostID = sample_host, rs_Cloud = no_evidence\<rparr>"

definition sample_resource :: "(bytes \<times> bytes) list" where
  "sample_resource = Resource sample_who ''linux'' ''amd64'' ''1'' []"

lemma sample_who_resolved:
  "capability_identity sample_config (Inl ErrUnavailable) False (Inr sample_host) = Inr sample_who"
  "scope_ok (capability_scope sample_config sample_resource)"
proof -
  have a: "list_all is_alnum sample_host" by (simp add: sample_host_def list_all_length is_alnum_def is_alpha_def in_range_def)
  have s: "safe sample_host" by (simp add: sample_host_def safe_def ContainsAny_def line_breaks_def list_ex_length)
  have t: "TrimSpace [] = []" using alnum_TrimSpace[of "[]"] by simp
  have ne: "sample_host \<noteq> []" by (simp add: sample_host_def)
  show "capability_identity sample_config (Inl ErrUnavailable) False (Inr sample_host) = Inr sample_who"
    using alnum_TrimSpace[OF a] s t ne
    by (simp add: capability_identity_def Runtime_def sample_config_def Let_def ErrUnavailable_def ErrInvalid_def Resolve_def instance_host_def
        no_evidence_def RequireHost_def sample_who_def)
  have "\<not> bad_value 2 sample_host" using a by (intro dashed_value) (auto simp: sample_host_def list_all_iff)
  moreover have "logicalID ''backend''" "logicalID ''org''" by (simp_all add: logicalID_def word_pattern_def is_alnum_def is_alpha_def in_range_def)
  ultimately show "scope_ok (capability_scope sample_config sample_resource)"
    using logicalID_value
    by (simp add: capability_scope_def sample_resource_def attribute_Resource scope_ok_def scope_values_def eval_nat_numeral sample_who_def no_evidence_def
        bad_value_Nil sample_config_def)
qed

end
