(* ===== verification/LogsWorld.thy ===== *)
theory LogsWorld
  imports TailerWorld TailerRun Journal LogsSpool Sender Identity
begin

text \<open>
  The logs capability (\<^verbatim>\<open>src/internal/collectors/logs_linux.go\<close>, \<^verbatim>\<open>src/internal/selftelemetry/logs.go\<close>): the callbacks
  it hands to its sources, its start, stop and counters.
\<close>

section \<open>The callbacks\<close>

text \<open>
  The world the callbacks act on: the delivery worker with the spool, and a schedule, which says for each call whether its context is done and
  what the other goroutines have done to the worker before it, and what the clock will show. The rest is history that no code reads: what each successful admission answered
  (identity, receipt, whether the record existed, its stored payload), and whether an admission came after the last sequence number.
\<close>

record logs_world =
  wd_worker :: "log_disk log_worker"
  wd_schedule :: "(error option \<times> (log_disk log_worker \<Rightarrow> log_disk log_worker)) list"
  wd_clock :: "int list"
  wd_receipts :: "(bytes \<times> bytes \<times> bool \<times> bytes option) list"
  wd_overflow :: bool

definition meanwhile :: "logs_world \<Rightarrow> error option \<times> logs_world" where
  "meanwhile w =
     (case wd_schedule w of
        [] \<Rightarrow> (None, w)
      | (ctx, others) # rest \<Rightarrow> (ctx, w\<lparr>wd_worker := others (wd_worker w), wd_schedule := rest\<rparr>))"

text \<open>What both callbacks do with an encoded record.\<close>

definition admit_encoded :: "bytes \<Rightarrow> bytes result \<Rightarrow> logs_world \<Rightarrow> error option \<times> logs_world" where
  "admit_encoded a encoded w0 =
     (case meanwhile w0 of (ctx, w) \<Rightarrow>
      (case log_admit PutAdmission log_stored ctx a encoded (wd_worker w) of (e, k) \<Rightarrow>
       let receipt = (case encoded of Inl _ \<Rightarrow> [] | Inr raw \<Rightarrow>
             (case PutAdmission ctx a raw (lw_queue (wd_worker w)) of
                (Inl _, _) \<Rightarrow> []
              | (Inr (n, existed), q) \<Rightarrow> [(a, n, existed, log_content q n)]))
       in (e, w\<lparr>wd_worker := k, wd_receipts := wd_receipts w @ receipt,
                wd_overflow := (wd_overflow w \<or> \<not> log_fits (lw_queue (wd_worker w)))\<rparr>)))"

definition file_record :: "log_source \<Rightarrow> tail_record \<Rightarrow> pipeline_record" where
  "file_record source r =
     \<lparr>pl_Body = tr_Body r, pl_SourceID = src_ID source, pl_RelativePath = tr_RelativePath r, pl_FileIdentity = tr_FileIdentity r,
      pl_StartOffset = tr_StartOffset r, pl_EndOffset = tr_EndOffset r, pl_ObservedAt = tr_ObservedAt r, pl_ServiceName = ServiceName source,
      pl_Environment = Environment source, pl_SourceType = [], pl_SeverityText = [], pl_Attributes = []\<rparr>"

definition file_encoded :: "(log_request \<Rightarrow> bytes option) \<Rightarrow> config \<Rightarrow> (bytes \<times> bytes) list \<Rightarrow> log_source \<Rightarrow> tail_record \<Rightarrow> bytes result" where
  "file_encoded marshal c attrs source r = LogJSON marshal (file_record source r) attrs (RequestBytes (cfg_Limits c))"

definition admit_file ::
    "(log_request \<Rightarrow> bytes option) \<Rightarrow> config \<Rightarrow> (bytes \<times> bytes) list \<Rightarrow> log_source \<Rightarrow> tail_record \<Rightarrow> logs_world \<Rightarrow> error option \<times> logs_world" where
  "admit_file marshal c attrs source r w = admit_encoded (tr_AdmissionID r) (file_encoded marshal c attrs source r) w"

definition journal_pipeline_record :: "journal_record \<Rightarrow> pipeline_record" where
  "journal_pipeline_record r =
     \<lparr>pl_Body = jr_Body r, pl_SourceID = ''journald'', pl_RelativePath = [], pl_FileIdentity = [], pl_StartOffset = 0, pl_EndOffset = 0,
      pl_ObservedAt = jr_ObservedAt r, pl_ServiceName = jr_ServiceName r, pl_Environment = [], pl_SourceType = ''journald'',
      pl_SeverityText = jr_SeverityText r, pl_Attributes = jr_Attributes r\<rparr>"

definition journal_encoded :: "(log_request \<Rightarrow> bytes option) \<Rightarrow> config \<Rightarrow> (bytes \<times> bytes) list \<Rightarrow> journal_record \<Rightarrow> bytes result" where
  "journal_encoded marshal c attrs r = LogJSON marshal (journal_pipeline_record r) attrs (RequestBytes (cfg_Limits c))"

definition admit_journal ::
    "(log_request \<Rightarrow> bytes option) \<Rightarrow> config \<Rightarrow> (bytes \<times> bytes) list \<Rightarrow> journal_record \<Rightarrow> logs_world \<Rightarrow> error option \<times> logs_world" where
  "admit_journal marshal c attrs r w =
     admit_encoded (jr_AdmissionID r) (journal_encoded marshal c attrs r) w"

definition activate_record :: "bytes \<Rightarrow> logs_world \<Rightarrow> error option \<times> logs_world" where
  "activate_record a w0 =
     (case meanwhile w0 of (ctx, w) \<Rightarrow>
       ((case Activate ctx a (lw_queue (wd_worker w)) of (Inl e, _) \<Rightarrow> Some e | (Inr _, _) \<Rightarrow> None),
        w\<lparr>wd_worker := log_activate Activate l_admissions ctx a (wd_worker w)\<rparr>))"

section \<open>What becomes of an admitted record\<close>

text \<open>It has left the spool, it was accepted by the backend, or it is still in the spool with its payload.\<close>

definition settled :: "('q \<Rightarrow> (bytes \<times> bytes) list) \<Rightarrow> ('q \<Rightarrow> bytes \<Rightarrow> bytes option) \<Rightarrow> bytes \<Rightarrow> bytes \<Rightarrow> bytes option \<Rightarrow> 'q log_worker \<Rightarrow> bool" where
  "settled adm content a n v w \<longleftrightarrow>
     (n, v) \<in> lw_left w \<or> (\<exists>d. v = Some d \<and> (n, d) \<in> lw_sent w) \<or>
     ((a, n) \<in> set (adm (lw_queue w)) \<and> content (lw_queue w) n = v)"

lemma image_snd: "(a, n) \<in> S \<Longrightarrow> n \<in> snd ` S"
  by (metis image_eqI snd_conv)

context admission_queue
begin

lemma settled_admit:
  assumes "log_winv w" "fits (lw_queue w)" "settled admitted content a n v w"
  shows "settled admitted content a n v (snd (log_admit admit stored ctx b encoded w))"
proof (cases encoded)
  case (Inl e)
  then show ?thesis using assms(3) by (simp add: settled_def log_admit_def)
next
  case (Inr raw)
  obtain r q' where ad: "admit ctx b raw (lw_queue w) = (r, q')" by fastforce
  note law = admit_law[OF log_winvD(1)[OF assms(1)] assms(2) ad]
  let ?w = "snd (log_admit admit stored ctx b encoded w)"
  have w: "lw_queue ?w = q'" "lw_left ?w = lw_left w" "lw_sent ?w = lw_sent w"
    using Inr ad by (auto simp: log_admit_def split: sum.splits prod.splits bool.splits)
  have "(a, n) \<in> set (admitted q') \<and> content q' n = content (lw_queue w) n" if "(a, n) \<in> set (admitted (lw_queue w))"
    using law that image_snd[OF that] by (auto split: sum.splits prod.splits if_splits)
  then show ?thesis using assms(3) by (auto simp: settled_def w)
qed

lemma settled_activate:
  assumes "log_winv w" "settled admitted content a n v w" shows "settled admitted content a n v (log_activate activate admitted ctx b w)"
proof -
  obtain r q' where ac: "activate ctx b (lw_queue w) = (r, q')" by fastforce
  note law = activate_law[OF log_winvD(1)[OF assms(1)] ac]
  let ?w = "log_activate activate admitted ctx b w"
  have w: "lw_queue ?w = q'" "lw_left ?w = lw_left w" "lw_sent ?w = lw_sent w"
    using ac by (auto simp: log_activate_def split: sum.splits)
  have "(a, n) \<in> set (admitted q') \<and> content q' n = content (lw_queue w) n" if "(a, n) \<in> set (admitted (lw_queue w))"
    using law that image_snd[OF that] by auto
  then show ?thesis using assms(2) by (auto simp: settled_def w)
qed

lemma settled_fetch:
  assumes "log_winv w" "settled admitted content a n v w" shows "settled admitted content a n v (log_fetch fetch pending ctx w)"
proof -
  obtain r q' where f: "fetch ctx (lw_queue w) = (r, q')" by fastforce
  note law = fetch_law[OF log_winvD(1)[OF assms(1)] f]
  note adm = fetch_admitted[OF log_winvD(1)[OF assms(1)] f]
  let ?gone = "set (pending (lw_queue w)) - set (pending q')"
  let ?w = "log_fetch fetch pending ctx w"
  have w: "lw_queue ?w = q'" "lw_left ?w = lw_left w \<union> (\<lambda>n. (n, None)) ` ?gone" "lw_sent ?w = lw_sent w"
    using f by (auto simp: log_fetch_def Let_def split: sum.splits next_item.splits)
  have none: "content (lw_queue w) n = None" if "n \<in> ?gone" using law that by auto
  have stay: "(a, n) \<in> set (admitted q') \<and> content q' n = content (lw_queue w) n" if "(a, n) \<in> set (admitted (lw_queue w))" "n \<notin> ?gone"
  proof -
    have i: "(a, n) \<in> set (admitted q')" using adm that by auto
    then show ?thesis using adm image_snd[OF i] by auto
  qed
  show ?thesis using assms(2) none stay by (cases "n \<in> ?gone") (auto simp: settled_def w)
qed

lemma settled_ack:
  assumes "log_winv w" "settled admitted content a m v w" "lw_phase w = Acking n d"
  shows "settled admitted content a m v (log_acknowledge ack ctx w)"
proof -
  obtain r q' where ac: "ack ctx n (lw_queue w) = (r, q')" by fastforce
  note adm = ack_admitted[OF log_winvD(1)[OF assms(1)] ac]
  have cur: "content (lw_queue w) n = Some d" "(n, d) \<in> lw_sent w"
    using log_winvD(2)[OF assms(1)] assms(3) by (auto simp: log_phase_ok_def)
  let ?w = "log_acknowledge ack ctx w"
  have w: "lw_queue ?w = q'" "lw_left w \<subseteq> lw_left ?w" "lw_sent ?w = lw_sent w"
    using ac assms(3) by (auto simp: log_acknowledge_def Let_def split: sum.splits)
  have stay: "(a, m) \<in> set (admitted q') \<and> content q' m = content (lw_queue w) m" if i: "(a, m) \<in> set (admitted (lw_queue w))" "m \<noteq> n"
    using adm i image_snd[OF i(1)] by (cases r) auto
  show ?thesis using assms(2) cur stay w(2) by (cases "m = n") (auto simp: settled_def w(1,3))
qed

lemma settled_outcome: "settled admitted content a n v w \<Longrightarrow> settled admitted content a n v (log_outcome out points w)"
  by (cases "lw_phase w"; cases out) (auto simp: settled_def log_outcome_def Let_def)

lemma settled_step:
  "log_step admit activate fetch ack pending admitted fits stored w w' \<Longrightarrow> log_winv w \<Longrightarrow> settled admitted content a n v w \<Longrightarrow>
   settled admitted content a n v w'"
proof (induction rule: log_step.induct)
  case (log_step_cancel w)
  then show ?case by (simp add: settled_def)
qed (auto intro: settled_admit settled_activate settled_fetch settled_outcome settled_ack)

lemma settled_run:
  "log_run admit activate fetch ack pending admitted fits stored w w' \<Longrightarrow> log_winv w \<Longrightarrow>
   log_winv w' \<and> (settled admitted content a n v w \<longrightarrow> settled admitted content a n v w')"
  by (induction rule: log_run.induct) (auto intro: log_winv_step settled_step)

end

text \<open>The other goroutines only do what the delivery loop and the other sources do.\<close>

definition others_behave :: "logs_world \<Rightarrow> bool" where
  "others_behave w \<longleftrightarrow>
     (\<forall>ctx f k. (ctx, f) \<in> set (wd_schedule w) \<longrightarrow> log_run PutAdmission Activate LogNext LogAck l_names l_admissions log_fits log_stored k (f k))"

text \<open>A record that was given to the callback: its encoding was refused, or the spool gave a receipt for it.\<close>

definition handled :: "bytes \<Rightarrow> bytes result \<Rightarrow> logs_world \<Rightarrow> bool" where
  "handled a encoded w \<longleftrightarrow>
     (case encoded of
        Inl _ \<Rightarrow> True
      | Inr raw \<Rightarrow> \<exists>n existed v. (a, n, existed, v) \<in> set (wd_receipts w) \<and> (existed \<or> v = log_stored a raw))"

lemma handled_mono: "handled a encoded w \<Longrightarrow> set (wd_receipts w) \<subseteq> set (wd_receipts w') \<Longrightarrow> handled a encoded w'"
  by (fastforce simp: handled_def split: sum.splits)

definition world_ok :: "logs_world \<Rightarrow> bool" where
  "world_ok w \<longleftrightarrow> lq.log_winv (wd_worker w) \<and> others_behave w \<and>
     (\<forall>a n existed v. (a, n, existed, v) \<in> set (wd_receipts w) \<longrightarrow> settled l_admissions log_content a n v (wd_worker w))"

lemma world_ok_run:
  assumes "world_ok w" "log_run PutAdmission Activate LogNext LogAck l_names l_admissions log_fits log_stored (wd_worker w) k"
  shows "world_ok (w\<lparr>wd_worker := k\<rparr>)"
  using assms lq.settled_run[OF assms(2)] by (auto simp: world_ok_def others_behave_def)

lemma meanwhile_ok:
  assumes "meanwhile w = (ctx, w')" "world_ok w"
  shows "world_ok w' \<and> wd_receipts w' = wd_receipts w \<and> wd_overflow w' = wd_overflow w"
proof (cases "wd_schedule w")
  case Nil
  then show ?thesis using assms by (simp add: meanwhile_def)
next
  case (Cons x rest)
  obtain c f where x: "x = (c, f)" by fastforce
  have w': "w' = w\<lparr>wd_worker := f (wd_worker w), wd_schedule := rest\<rparr>" using assms(1) Cons x by (simp add: meanwhile_def)
  have "log_run PutAdmission Activate LogNext LogAck l_names l_admissions log_fits log_stored (wd_worker w) (f (wd_worker w))"
    using assms(2) Cons x by (simp add: world_ok_def others_behave_def)
  from world_ok_run[OF assms(2) this] show ?thesis using Cons by (auto simp: w' world_ok_def others_behave_def)
qed

lemma admit_encoded_ok:
  assumes "admit_encoded a encoded w0 = (e, w)" "world_ok w0" "\<not> wd_overflow w"
  shows "world_ok w \<and> \<not> wd_overflow w0 \<and> set (wd_receipts w0) \<subseteq> set (wd_receipts w) \<and>
     (e = None \<longrightarrow> handled a encoded w)"
proof -
  obtain ctx w1 where m: "meanwhile w0 = (ctx, w1)" by fastforce
  note w1 = meanwhile_ok[OF m assms(2)]
  obtain e' k where la: "log_admit PutAdmission log_stored ctx a encoded (wd_worker w1) = (e', k)" by fastforce
  define rec where "rec = (case encoded of Inl _ \<Rightarrow> [] | Inr raw \<Rightarrow>
             (case PutAdmission ctx a raw (lw_queue (wd_worker w1)) of
                (Inl _, _) \<Rightarrow> []
              | (Inr (n, existed), q) \<Rightarrow> [(a, n, existed, log_content q n)]))"
  have w: "w = w1\<lparr>wd_worker := k, wd_receipts := wd_receipts w1 @ rec, wd_overflow := (wd_overflow w1 \<or> \<not> log_fits (lw_queue (wd_worker w1)))\<rparr>" "e' = e"
    using assms(1) m la by (simp_all add: admit_encoded_def rec_def)
  have fits: "log_fits (lw_queue (wd_worker w1))" "\<not> wd_overflow w0" using assms(3) w1 by (simp_all add: w)
  have winv: "lq.log_winv (wd_worker w1)" using w1 by (simp add: world_ok_def)
  have k: "k = snd (log_admit PutAdmission log_stored ctx a encoded (wd_worker w1))" using la by simp
  have old: "lq.log_winv k" "settled l_admissions log_content b n v (wd_worker w1) \<Longrightarrow> settled l_admissions log_content b n v k" for b n v
    using lq.log_winv_admit[OF winv fits(1)] lq.settled_admit[OF winv fits(1)] by (simp_all add: k)
  have new: "settled l_admissions log_content b n v k \<and> b = a" if mem: "(b, n, x, v) \<in> set rec" for b n x v
  proof -
    obtain raw where raw: "encoded = Inr raw" using mem by (cases encoded) (auto simp: rec_def)
    obtain res q where pa: "PutAdmission ctx a raw (lw_queue (wd_worker w1)) = (res, q)" by fastforce
    have p: "res = Inr (n, x)" "b = a" "v = log_content q n" using mem raw pa by (auto simp: rec_def split: sum.splits prod.splits)
    note p = raw pa[unfolded p(1)] p(2,3)
    have "lw_queue k = q" using p la by (auto simp: log_admit_def split: if_splits)
    moreover have "(a, n) \<in> set (l_admissions q)"
      using lq.admit_law[OF lq.log_winvD(1)[OF winv] fits(1) p(2)] by (auto split: if_splits)
    ultimately show ?thesis using p by (simp add: settled_def)
  qed
  have got: "\<exists>n x v. (a, n, x, v) \<in> set rec \<and> (x \<or> v = log_stored a raw)" if e: "e = None" "encoded = Inr raw" for raw
  proof -
    obtain n x q where p: "PutAdmission ctx a raw (lw_queue (wd_worker w1)) = (Inr (n, x), q)"
      using la e w(2) by (auto simp: log_admit_def split: prod.splits sum.splits)
    have "x \<or> log_content q n = log_stored a raw" using lq.admit_law[OF lq.log_winvD(1)[OF winv] fits(1) p] by (auto split: if_splits)
    then show ?thesis using p e(2) by (auto simp: rec_def)
  qed
  have "world_ok w" using w1 old new by (auto simp: world_ok_def w(1) others_behave_def)
  moreover have "wd_receipts w = wd_receipts w0 @ rec" using w1 by (simp add: w(1))
  ultimately show ?thesis using fits(2) got by (cases encoded) (simp_all add: handled_def, blast)
qed

lemma activate_record_ok:
  assumes "activate_record a w0 = (e, w)" "world_ok w0"
  shows "world_ok w \<and> wd_receipts w = wd_receipts w0 \<and> wd_overflow w = wd_overflow w0"
proof -
  obtain ctx w1 where m: "meanwhile w0 = (ctx, w1)" by fastforce
  note w1 = meanwhile_ok[OF m assms(2)]
  have w: "w = w1\<lparr>wd_worker := log_activate Activate l_admissions ctx a (wd_worker w1)\<rparr>" using assms(1) m by (simp add: activate_record_def)
  have winv: "lq.log_winv (wd_worker w1)" using w1 by (simp add: world_ok_def)
  show ?thesis using w1 lq.log_winv_activate[OF winv] lq.settled_activate[OF winv] by (auto simp: world_ok_def w others_behave_def)
qed

section \<open>A source whose admissions are recorded\<close>

definition recorded_admit :: "('r \<Rightarrow> 'v \<Rightarrow> error option \<times> 'v) \<Rightarrow> 'r \<Rightarrow> 'r list \<times> 'v \<Rightarrow> error option \<times> ('r list \<times> 'v)" where
  "recorded_admit adm r w = (case adm r (snd w) of (None, v) \<Rightarrow> (None, (fst w @ [r], v)) | (Some e, v) \<Rightarrow> (Some e, (fst w, v)))"

definition recorded_activate :: "(bytes \<Rightarrow> 'v \<Rightarrow> error option \<times> 'v) \<Rightarrow> bytes \<Rightarrow> 'r list \<times> 'v \<Rightarrow> error option \<times> ('r list \<times> 'v)" where
  "recorded_activate act i w = (case act i (snd w) of (e, v) \<Rightarrow> (e, (fst w, v)))"

definition recorded_clock :: "'r list \<times> logs_world \<Rightarrow> int \<times> ('r list \<times> logs_world)" where
  "recorded_clock w =
     (case wd_clock (snd w) of [] \<Rightarrow> (0, w) | n # rest \<Rightarrow> (n, (fst w, (snd w)\<lparr>wd_clock := rest\<rparr>)))"

text \<open>The tailer that the capability makes for a source.\<close>

definition file_tailer ::
    "(log_request \<Rightarrow> bytes option) \<Rightarrow> config \<Rightarrow> (bytes \<times> bytes) list \<Rightarrow> log_source \<Rightarrow> fs \<Rightarrow> logs_world \<Rightarrow> logs_world recorded tailer" where
  "file_tailer marshal c attrs source s w =
     NewTailer source (MaxFiles (LogsRuntime c)) (Some (recorded_admit (admit_file marshal c attrs source)))
       (Some (recorded_activate activate_record)) recorded_clock s ([], w)"

definition wired :: "(log_request \<Rightarrow> bytes option) \<Rightarrow> config \<Rightarrow> (bytes \<times> bytes) list \<Rightarrow> log_source \<Rightarrow> logs_world recorded tailer \<Rightarrow> bool" where
  "wired marshal c attrs source t \<longleftrightarrow>
     tl_admit t = Some (recorded_admit (admit_file marshal c attrs source)) \<and> tl_activate t = Some (recorded_activate activate_record) \<and>
     tl_clock t = recorded_clock"

lemma wired_file_tailer: "wired marshal c attrs source (file_tailer marshal c attrs source s w)"
  by (simp add: wired_def file_tailer_def NewTailer_def)

lemma wired_recording: "wired marshal c attrs source t \<Longrightarrow> recording t"
  by (auto simp: wired_def recording_def recorded_admit_def recorded_activate_def recorded_clock_def split: prod.splits option.splits list.splits)

text \<open>
  What holds of the world of a source until the sequence numbers are used up; \<open>ident\<close> and \<open>encode\<close> are the identity and the
  encoding of its records.
\<close>

definition source_ok :: "('r \<Rightarrow> bytes) \<Rightarrow> ('r \<Rightarrow> bytes result) \<Rightarrow> 'r list \<times> logs_world \<Rightarrow> bool" where
  "source_ok ident encode w \<longleftrightarrow> wd_overflow (snd w) \<or> (world_ok (snd w) \<and> (\<forall>r \<in> set (fst w). handled (ident r) (encode r) (snd w)))"

lemma meanwhile_overflow: "meanwhile w = (ctx, w') \<Longrightarrow> wd_overflow w' = wd_overflow w"
  by (auto simp: meanwhile_def split: list.splits prod.splits)

lemma source_ok_admit: "source_ok ident encode w \<Longrightarrow> source_ok ident encode (snd (recorded_admit (\<lambda>r. admit_encoded (ident r) (encode r)) r w))"
proof -
  assume ok: "source_ok ident encode w"
  obtain e v where a: "admit_encoded (ident r) (encode r) (snd w) = (e, v)" by fastforce
  have res: "snd (recorded_admit (\<lambda>r. admit_encoded (ident r) (encode r)) r w) = (fst w @ (if e = None then [r] else []), v)"
    using a by (simp add: recorded_admit_def split: option.splits)
  have over: "wd_overflow v" if "wd_overflow (snd w)"
    using a that by (auto simp: admit_encoded_def Let_def split: prod.splits dest!: meanwhile_overflow)
  show ?thesis
  proof (cases "wd_overflow v")
    case False
    then have w: "world_ok (snd w)" "\<forall>r \<in> set (fst w). handled (ident r) (encode r) (snd w)" using ok over by (auto simp: source_ok_def)
    note ad = admit_encoded_ok[OF a w(1) False]
    moreover have "\<forall>r \<in> set (fst w). handled (ident r) (encode r) v" using w(2) ad handled_mono by blast
    ultimately show ?thesis using ad by (auto simp: res source_ok_def)
  qed (simp add: res source_ok_def)
qed

lemma source_ok_activate: "source_ok ident encode w \<Longrightarrow> source_ok ident encode (snd (recorded_activate activate_record i w))"
proof -
  assume ok: "source_ok ident encode w"
  obtain e v where a: "activate_record i (snd w) = (e, v)" by fastforce
  have res: "snd (recorded_activate activate_record i w) = (fst w, v)" using a by (simp add: recorded_activate_def)
  have over: "wd_overflow v = wd_overflow (snd w)"
    using a by (auto simp: activate_record_def split: prod.splits dest!: meanwhile_overflow)
  show ?thesis
  proof (cases "wd_overflow v")
    case False
    then have w: "world_ok (snd w)" "\<forall>r \<in> set (fst w). handled (ident r) (encode r) (snd w)" using ok over by (auto simp: source_ok_def)
    note ac = activate_record_ok[OF a w(1)]
    then show ?thesis using w(2) handled_mono[of _ _ "snd w" v] by (auto simp: res source_ok_def)
  qed (simp add: res source_ok_def)
qed

lemma source_ok_clock: "source_ok ident encode w \<Longrightarrow> source_ok ident encode (snd (recorded_clock w))"
proof -
  assume ok: "source_ok ident encode w"
  obtain xs where xs: "snd (recorded_clock w) = (fst w, (snd w)\<lparr>wd_clock := xs\<rparr>)"
    by (cases "wd_clock (snd w)") (auto simp: recorded_clock_def prod_eq_iff intro: that[of "[]"])
  have "handled a x ((snd w)\<lparr>wd_clock := xs\<rparr>) = handled a x (snd w)" for a x by (simp add: handled_def split: sum.splits)
  then show ?thesis using ok by (simp add: xs source_ok_def world_ok_def others_behave_def)
qed

lemma admit_callbacks:
  "admit_file marshal c attrs source = (\<lambda>r. admit_encoded (tr_AdmissionID r) (file_encoded marshal c attrs source r))"
  "admit_journal marshal c attrs = (\<lambda>r. admit_encoded (jr_AdmissionID r) (journal_encoded marshal c attrs r))"
  by (simp_all add: fun_eq_iff admit_file_def admit_journal_def)

lemma wired_tame: "wired marshal c attrs source t \<Longrightarrow> source_ok tr_AdmissionID (file_encoded marshal c attrs source) (tl_world t) \<Longrightarrow>
   tame (source_ok tr_AdmissionID (file_encoded marshal c attrs source)) t"
  by (auto simp: tame_def wired_def admit_callbacks intro: source_ok_admit source_ok_activate source_ok_clock)

lemma tame_polls: "polls i f0 t0 f t \<Longrightarrow> tame I t0 \<Longrightarrow> tame I t"
  by (induction rule: polls.induct) (auto dest: tame_pollOnce)

section \<open>From the line to the backend\<close>

text \<open>
  A record that was admitted, after the delivery has gone on to \<open>k\<close> and a restart has opened the spool \<open>q\<close>: its encoding was refused, or what the
  spool stored for it was accepted by the backend or is in the spool; \<open>None\<close> stands for what the spool cannot read.
\<close>

definition delivered_or_kept :: "logs_world \<Rightarrow> log_disk log_worker \<Rightarrow> log_disk \<Rightarrow> bytes \<Rightarrow> bytes result \<Rightarrow> bool" where
  "delivered_or_kept w k q a encoded \<longleftrightarrow>
     (case encoded of
        Inl _ \<Rightarrow> True
      | Inr raw \<Rightarrow> \<exists>n existed v. (a, n, existed, v) \<in> set (wd_receipts w) \<and> (existed \<or> v = log_stored a raw) \<and>
          (case v of None \<Rightarrow> True | Some d \<Rightarrow> (n, d) \<in> lw_sent k \<or> ((a, n) \<in> set (l_admissions q) \<and> log_content q n = Some d)))"

lemma handled_delivered_or_kept:
  assumes "handled a encoded w"
    and "\<And>n existed d. (a, n, existed, Some d) \<in> set (wd_receipts w) \<Longrightarrow> (n, d) \<in> lw_sent k \<or> ((a, n) \<in> set (l_admissions q) \<and> log_content q n = Some d)"
  shows "delivered_or_kept w k q a encoded"
proof (cases encoded)
  case (Inr raw)
  obtain n x v where v: "(a, n, x, v) \<in> set (wd_receipts w)" "x \<or> v = log_stored a raw"
    using assms(1)[unfolded handled_def Inr] by auto
  have "case v of None \<Rightarrow> True | Some d \<Rightarrow> (n, d) \<in> lw_sent k \<or> ((a, n) \<in> set (l_admissions q) \<and> log_content q n = Some d)"
    using assms(2) v(1) by (auto split: option.splits)
  then show ?thesis using v Inr unfolding delivered_or_kept_def by auto
qed (simp add: delivered_or_kept_def)

text \<open>The lines from \<open>c\<close> to \<open>m\<close> of a file, each of which became a record of which this holds.\<close>

definition lines_settled ::
    "log_source \<Rightarrow> bytes \<Rightarrow> u64 \<Rightarrow> (tail_record \<Rightarrow> bool) \<Rightarrow> bytes \<Rightarrow> nat \<Rightarrow> nat \<Rightarrow> bool" where
  "lines_settled source i g P f c m \<longleftrightarrow> reaches f c m \<and>
     (\<forall>a \<in> set (line_starts f c m). TailerFacts.kept source f a \<longrightarrow>
        (\<exists>r. tr_AdmissionID r = admissionID (src_ID source) i g (int a) (int (a + length (line_at f a))) \<and>
           tr_Body r = valid_line (bytesWithoutLineEnding (line_at f a)) \<and> tr_FileIdentity r = i \<and> tr_StartOffset r = int a \<and> P r))"

lemma covered_settled: "covered source i g c rs f m \<Longrightarrow> (\<And>r. r \<in> set rs \<Longrightarrow> P r) \<Longrightarrow> lines_settled source i g P f c m"
  unfolding covered_def lines_settled_def admitted_def by blast

lemma settled_survives:
  assumes "lq.log_winv k" "settled l_admissions log_content a n (Some d) k"
    and "crash_image (l_fs (lw_queue k)) img" "\<forall>m. live s0 m = img m" "calm s0" "OpenLogDisk dir env sc mb mi s0 = (Inr q, s2)"
  shows "(n, d) \<in> lw_sent k \<or> ((a, n) \<in> set (l_admissions q) \<and> log_content q n = Some d)"
proof (cases "(n, d) \<in> lw_sent k")
  case False
  then have "(n, Some d) \<notin> lw_left k" using lq.log_winvD(5)[OF assms(1)] by blast
  then have "(a, n) \<in> set (l_admissions (lw_queue k))" "log_content (lw_queue k) n = Some d"
    using assms(2) False by (auto simp: settled_def)
  then show ?thesis using admitted_survives(1,2)[OF lq.log_winvD(1)[OF assms(1)] _ _ assms(3-6)] by blast
qed simp


text \<open>The identities of a tailer are identities for the spool.\<close>

lemma admissionID_valid: "validAdmission (admissionID source i g a b)"
  using DecodeString_hex[OF Sum256_hex_is_hex, of _ 32] by (auto simp: validAdmission_def admissionID_def)

definition sample_admission :: bytes where
  "sample_admission = admissionID ''app'' ''1:2'' 0 0 3"

text \<open>A tailer of the capability with one file open, over the spool \<open>q\<close>.\<close>

definition wired_sample :: "(log_request \<Rightarrow> bytes option) \<Rightarrow> log_disk \<Rightarrow> logs_world recorded tailer" where
  "wired_sample marshal q = (file_tailer marshal sample_config [] sample_log_source
       (quiet_fs [(checkpointPath ''app'', private_of (marshal_state sample_checkpoints))])
       \<lparr>wd_worker = log_launch l_names l_admissions log_content q, wd_schedule = [], wd_clock = [], wd_receipts = [], wd_overflow = False\<rparr>)
     \<lparr>tl_root := True, tl_states := [(''1:2'', sample_file_state)], tl_checkpoints := sample_checkpoints, tl_running := True\<rparr>"

lemma wired_sample_opened: "newly_opened sample_log_source ''1:2'' 0 0 (wired_sample marshal q)"
  using sample_tailer_ok(2)
  by (simp add: newly_opened_def wired_sample_def file_tailer_def NewTailer_def sample_tailer_def files_of_def)

text \<open>A spool that is full and whose only record may be delivered already answers without changing.\<close>

lemma full_spool_still:
  assumes "l_count q = l_maxItems q" "l_admissions q = [(a, n)]" "l_names q = [n]"
  shows "snd (PutAdmission ctx b raw q) = q" "snd (Activate ctx b q) = q"
  using assms
  by (auto simp: PutAdmission_def Activate_def admitted_name_def Let_def split: option.splits)

definition still_world :: "log_disk \<Rightarrow> 'r list \<times> logs_world \<Rightarrow> bool" where
  "still_world q w \<longleftrightarrow> lw_queue (wd_worker (snd w)) = q \<and> wd_schedule (snd w) = [] \<and> \<not> wd_overflow (snd w)"

lemma still_world_tame:
  assumes "l_count q = l_maxItems q" "l_admissions q = [(a, n)]" "l_names q = [n]" "log_fits q"
    and "wired marshal c attrs source t" "still_world q (tl_world t)"
  shows "tame (still_world q) t"
proof -
  note still = full_spool_still[OF assms(1-3)]
  have put: "lw_queue (snd (log_admit PutAdmission log_stored ctx b enc k)) = q" if "lw_queue k = q" for ctx b enc k
    using still(1)[of ctx b] that by (auto simp: log_admit_def split: sum.splits prod.splits) (metis snd_conv)+
  have act: "lw_queue (log_activate Activate l_admissions ctx b k) = q" if "lw_queue k = q" for ctx b k
    using still(2)[of ctx b] that by (auto simp: log_activate_def split: sum.splits prod.splits)
  have a: "still_world q (snd (recorded_admit (admit_file marshal c attrs source) r w))" if "still_world q w" for r w
    using that put assms(4) by (auto simp: still_world_def recorded_admit_def admit_file_def admit_encoded_def meanwhile_def Let_def split: prod.splits option.splits)
      (metis snd_conv)+
  have b: "still_world q (snd (recorded_activate activate_record j w))" if "still_world q w" for j and w :: "logs_world recorded"
    using that act by (auto simp: still_world_def recorded_activate_def activate_record_def meanwhile_def split: prod.splits)
  have c: "still_world q (snd (recorded_clock w))" if "still_world q w" for w :: "logs_world recorded"
    using that by (auto simp: still_world_def recorded_clock_def split: list.splits)
  show ?thesis using a b c assms(5,6) by (auto simp: tame_def wired_def)
qed

lemma full_spool_world:
  assumes "l_count q = l_maxItems q" "l_admissions q = [(a, n)]" "l_names q = [n]" "log_fits q"
    and "polls i f0 (wired_sample marshal q) f t"
  shows "lw_queue (wd_worker (snd (tl_world t))) = q \<and> \<not> wd_overflow (snd (tl_world t))"
proof -
  have "wired marshal sample_config [] sample_log_source (wired_sample marshal q)"
    by (simp add: wired_def wired_sample_def file_tailer_def NewTailer_def)
  moreover have "still_world q (tl_world (wired_sample marshal q))"
    by (simp add: still_world_def wired_sample_def file_tailer_def NewTailer_def log_launch_def)
  ultimately have "tame (still_world q) (wired_sample marshal q)" by (rule still_world_tame[OF assms(1-4)])
  then have "tame (still_world q) t" by (rule tame_polls[OF assms(5)])
  then show ?thesis by (simp add: tame_def still_world_def)
qed

lemma sample_payload: "json_Valid (dec 1)" "length (dec 1) = 1"
proof -
  show "json_Valid (dec 1)" using digits_payload(1)[of 1] by (auto simp: json_Valid_def compact_def)
  have "dec 1 = ''1''" by code_simp
  then show "length (dec 1) = 1" by simp
qed

lemma wired_sample_commits:
  assumes "l_admissions q = [(sample_admission, n)]" "n \<noteq> []" "\<not> l_closed q"
  shows "committed_of ''1:2'' (pollOnce (sample_poll (''ab'' @ [NL])) (wired_sample (\<lambda>_. Some (dec 1)) q)) = Some 3"
proof -
  let ?t = "wired_sample (\<lambda>_. Some (dec 1)) q"
  have v: "validAdmission sample_admission" by (simp add: sample_admission_def admissionID_valid)
  have put: "PutAdmission None sample_admission (dec 1) q = (Inr (n, True), q)"
    using assms v sample_payload by (simp add: PutAdmission_def admitted_name_def)
  have json: "raw = dec 1" if "LogJSON (\<lambda>_. Some (dec 1)) x y z = Inr raw" for x y z raw
    using that by (auto simp: LogJSON_def split: if_splits)
  have adm: "fst (recorded_admit (admit_file (\<lambda>_. Some (dec 1)) sample_config [] sample_log_source) r (tl_world ?t)) = None"
    if "tr_AdmissionID r = sample_admission" for r
    using that put
    by (auto simp: recorded_admit_def admit_file_def admit_encoded_def meanwhile_def file_encoded_def log_admit_def wired_sample_def file_tailer_def
        NewTailer_def log_launch_def Let_def dest!: json[unfolded One_nat_def] split: sum.splits prod.splits option.splits)
  have mf: "0 < MaxFiles (LogsRuntime sample_config)" by (simp add: LogsRuntime_def sample_config_def or_int_def)
  show ?thesis
    by (rule sample_poll_commits[where adm = "recorded_admit (admit_file (\<lambda>_. Some (dec 1)) sample_config [] sample_log_source)"])
      (use adm mf in \<open>simp_all add: wired_sample_def file_tailer_def NewTailer_def recorded_clock_def sample_admission_def\<close>)
qed


end
