(* ===== verification/LogsCapability.thy ===== *)
theory LogsCapability
  imports LogsWorld
begin

text \<open>
  The life of the logs capability (\<open>Start\<close>, \<open>Stop\<close> and \<open>Snapshot\<close> of \<^verbatim>\<open>src/internal/collectors/logs_linux.go\<close> and the
  counters of \<^verbatim>\<open>src/internal/selftelemetry/\<close>): several sources and the journal over one spool.
\<close>

section \<open>Counters\<close>

text \<open>\<^verbatim>\<open>LogCounters\<close> without those of the worker, and the delivery counters that its snapshot reads.\<close>

record source_counters =
  sc_FilesDiscovered :: u64
  sc_FilesOpen :: u64
  sc_RecordsRead :: u64
  sc_PermissionErrors :: u64
  sc_CheckpointErrors :: u64
  sc_MultilineFlushes :: u64
  sc_JournalRecordsRead :: u64
  sc_JournalReaderErrors :: u64
  sc_JournalCheckpointErrors :: u64

definition no_source_counters :: source_counters where
  "no_source_counters = \<lparr>sc_FilesDiscovered = 0, sc_FilesOpen = 0, sc_RecordsRead = 0, sc_PermissionErrors = 0, sc_CheckpointErrors = 0,
     sc_MultilineFlushes = 0, sc_JournalRecordsRead = 0, sc_JournalReaderErrors = 0, sc_JournalCheckpointErrors = 0\<rparr>"

text \<open>\<^verbatim>\<open>LogCounters.Snapshot\<close>; \<open>retried\<close> and \<open>rejected\<close> are the delivery counters \<^verbatim>\<open>RetriedRecords\<close> and \<^verbatim>\<open>PointsRejected\<close>.\<close>

definition log_counters_map :: "source_counters \<Rightarrow> log_counters \<Rightarrow> u64 \<Rightarrow> u64 \<Rightarrow> (bytes \<times> u64) list" where
  "log_counters_map s k retried rejected =
     [(''files_discovered'', sc_FilesDiscovered s), (''files_open'', sc_FilesOpen s), (''records_read'', sc_RecordsRead s),
      (''records_accepted'', RecordsQueued k), (''records_queued'', RecordsQueued k), (''records_delivered'', RecordsDelivered k),
      (''records_retried'', retried + RecordsRetriedLogs k), (''records_dropped'', log_counters.RecordsRejectedLocal k + rejected),
      (''records_rejected_local'', log_counters.RecordsRejectedLocal k), (''records_rejected_server'', rejected),
      (''permission_errors'', sc_PermissionErrors s), (''checkpoint_errors'', sc_CheckpointErrors s), (''queue_rejected'', QueueRejectedLogs k),
      (''authentication_paused'', AuthenticationPaused k), (''multiline_flushes'', sc_MultilineFlushes s),
      (''journal_records_read'', sc_JournalRecordsRead s), (''journal_reader_errors'', sc_JournalReaderErrors s),
      (''journal_checkpoint_errors'', sc_JournalCheckpointErrors s)]"

section \<open>The capability\<close>

text \<open>
  The world is shared by the sources; each gets it before it runs, and what it leaves is the world of the next (\<open>lc_world\<close>).
  \<open>lc_cancel\<close> says whether the capability has been started and not stopped. The counters outlive the capability; those of the
  worker are \<open>lc_own\<close> until there is one.
\<close>

record logs_capability =
  lc_cfg :: config
  lc_stats :: source_counters
  lc_resource :: "(bytes \<times> bytes) list"
  lc_tailers :: "logs_world recorded tailer list"
  lc_journal :: "(journal_record list \<times> logs_world) reader option"
  lc_cancel :: bool
  lc_own :: log_counters
  lc_world :: "logs_world option"

definition NewLogs :: "config \<Rightarrow> source_counters \<Rightarrow> log_counters \<Rightarrow> logs_capability" where
  "NewLogs c stats own = \<lparr>lc_cfg = c, lc_stats = stats, lc_resource = [], lc_tailers = [], lc_journal = None, lc_cancel = False, lc_own = own, lc_world = None\<rparr>"

text \<open>
  What the environment answers during a start: the detector, the hint, the machine identity, the credentials, the operating system's
  answers to the spool and to each source, and the schedule and clock of the world.
\<close>

record logs_env =
  le_detected :: "evidence result"
  le_expected :: bool
  le_machine :: "bytes result"
  le_ctx :: "error option"
  le_secrets :: "error option \<Rightarrow> bytes \<Rightarrow> bytes result"
  le_arch :: bytes
  le_version :: bytes
  le_spool :: spool_env
  le_queue_fs :: fs
  le_root :: "bytes \<Rightarrow> root_env"
  le_dir :: "bytes \<Rightarrow> dir_env"
  le_fs :: "bytes \<Rightarrow> fs"
  le_order :: "bytes list \<Rightarrow> bytes list"
  le_journalctl :: bool
  le_points :: u64
  le_schedule :: "(error option \<times> (log_disk log_worker \<Rightarrow> log_disk log_worker)) list"
  le_clock :: "int list"

definition fresh_world :: "logs_env \<Rightarrow> log_counters \<Rightarrow> log_disk \<Rightarrow> logs_world" where
  "fresh_world env own q = \<lparr>wd_worker = (log_launch l_names l_admissions log_content q)\<lparr>lw_stats := own, lw_points := le_points env\<rparr>, wd_schedule = le_schedule env, wd_clock = le_clock env,
     wd_receipts = [], wd_overflow = False\<rparr>"

definition count_source_error :: "logs_capability \<Rightarrow> logs_capability" where
  "count_source_error l = l\<lparr>lc_stats := (lc_stats l)\<lparr>sc_PermissionErrors := sc_PermissionErrors (lc_stats l) + 1\<rparr>\<rparr>"

text \<open>One source: it is kept if it starts and counted if it does not.\<close>

definition start_source ::
    "(log_request \<Rightarrow> bytes option) \<Rightarrow> (bytes \<Rightarrow> (bytes \<Rightarrow> bool) option) \<Rightarrow> logs_env \<Rightarrow> log_source \<Rightarrow> logs_capability \<times> logs_world
     \<Rightarrow> logs_capability \<times> logs_world" where
  "start_source marshal compile env source = (\<lambda>(l, w).
     case Tailer.Start compile (le_root env (src_ID source)) (le_dir env (src_ID source)) (Join (StateDirectory (LogsRuntime (lc_cfg l))) ''checkpoints'')
            (le_order env) (file_tailer marshal (lc_cfg l) (lc_resource l) source (le_fs env (src_ID source)) w) of
       (Some e, t) \<Rightarrow> (count_source_error l, snd (tl_world t))
     | (None, t) \<Rightarrow> (l\<lparr>lc_tailers := lc_tailers l @ [t]\<rparr>, snd (tl_world t)))"

definition journal_reader ::
    "(log_request \<Rightarrow> bytes option) \<Rightarrow> config \<Rightarrow> (bytes \<times> bytes) list \<Rightarrow> fs \<Rightarrow> logs_world \<Rightarrow> (journal_record list \<times> logs_world) reader" where
  "journal_reader marshal c attrs s w =
     NewReader (Journald (LogsRuntime c)) (recorded_admit (admit_journal marshal c attrs)) (Some (recorded_activate activate_record)) recorded_clock s ([], w)"

definition start_journal :: "(log_request \<Rightarrow> bytes option) \<Rightarrow> logs_env \<Rightarrow> logs_capability \<times> logs_world \<Rightarrow> logs_capability \<times> logs_world" where
  "start_journal marshal env = (\<lambda>(l, w).
     if \<not> jd_Enabled (Journald (LogsRuntime (lc_cfg l))) then (l, w)
     else case StartJournal (le_dir env ''journald'') (Join (StateDirectory (LogsRuntime (lc_cfg l))) ''checkpoints'') (le_journalctl env)
            (journal_reader marshal (lc_cfg l) (lc_resource l) (le_fs env ''journald'') w) of
       (Some e, r) \<Rightarrow> (count_source_error l, snd (rd_world r))
     | (None, r) \<Rightarrow> (l\<lparr>lc_journal := Some r\<rparr>, snd (rd_world r)))"

definition close_world :: "logs_world \<Rightarrow> unit result \<times> logs_world" where
  "close_world w =
     (case CloseLog (lw_queue (wd_worker w)) of (r, q) \<Rightarrow> (r, w\<lparr>wd_worker := (wd_worker w)\<lparr>lw_queue := q\<rparr>\<rparr>))"

definition logs_spool :: "logs_env \<Rightarrow> logs_capability \<Rightarrow> log_disk result" where
  "logs_spool env l =
     (let r = LogsRuntime (lc_cfg l) in
      fst (OpenLogDisk (Join (StateDirectory r) ''queue'') (le_spool env) (capability_scope (lc_cfg l) (lc_resource l)) (QueueBytes r) (QueueItems r)
        (le_queue_fs env)))"

definition StartLogs ::
    "(bytes \<Rightarrow> url option) \<Rightarrow> (log_request \<Rightarrow> bytes option) \<Rightarrow> (bytes \<Rightarrow> (bytes \<Rightarrow> bool) option) \<Rightarrow> logs_env \<Rightarrow> logs_capability
     \<Rightarrow> error option \<times> logs_capability" where
  "StartLogs parse marshal compile env l =
     (let c = lc_cfg l in
      if \<not> on (cfg_Policy c) Logs then (Some (Failure ''logs capability disabled''), l)
      else case ValidateConfig parse (\<lambda>p. compile p \<noteq> None) c of Some e \<Rightarrow> (Some e, l) | None \<Rightarrow>
      (case ValidateQueueIdentity parse c of Some e \<Rightarrow> (Some e, l) | None \<Rightarrow>
      (case capability_identity c (le_detected env) (le_expected env) (le_machine env) of Inl e \<Rightarrow> (Some e, l) | Inr who \<Rightarrow>
      (case le_secrets env (le_ctx env) (header (Exporter c) ''Authorization'') of
         Inl e \<Rightarrow> (Some (Failure ''ingestion authorization unavailable''), l)
       | Inr _ \<Rightarrow>
          let l1 = l\<lparr>lc_resource := Resource who ''linux'' (le_arch env) (le_version env) []\<rparr>; r = LogsRuntime c in
          if Sources r = [] \<and> \<not> jd_Enabled (Journald r) then (Some (Failure ''logs enabled without file or journald sources''), l1)
          else (case logs_spool env l1 of
            Inl e \<Rightarrow> (Some e, l1)
          | Inr q \<Rightarrow>
              (case start_journal marshal env (fold (start_source marshal compile env) (Sources r) (l1\<lparr>lc_cancel := True\<rparr>, fresh_world env (lc_own l) q)) of
                 (l2, w) \<Rightarrow>
                   if lc_tailers l2 = [] \<and> lc_journal l2 = None
                   then (Some (Failure ''no configured log source could start''), l2\<lparr>lc_world := Some (snd (close_world w))\<rparr>)
                   else (None, l2\<lparr>lc_world := Some w\<rparr>)))))))"

text \<open>
  \<open>finished\<close> says for each tailer whether its goroutine ended before the deadline, then for the journal and for the delivery loop. The last error of a source is
  the result; an error of closing the spool only counts where there is no other.
\<close>

fun stop_tailers :: "bool list \<Rightarrow> logs_world recorded tailer list \<Rightarrow> error option \<Rightarrow> error option \<times> logs_world recorded tailer list" where
  "stop_tailers (f # fs) (t # ts) e =
     (case StopTailer f t of (e1, t1) \<Rightarrow> case stop_tailers fs ts (if e1 = None then e else e1) of (e2, ts2) \<Rightarrow> (e2, t1 # ts2))"
| "stop_tailers _ _ e = (e, [])"

definition StopLogs :: "bool list \<Rightarrow> bool \<Rightarrow> bool \<Rightarrow> logs_capability \<Rightarrow> error option \<times> logs_capability" where
  "StopLogs finished journal_finished delivery_finished l =
     (if \<not> lc_cancel l then (None, l)
      else case stop_tailers finished (lc_tailers l) None of (e1, ts) \<Rightarrow>
        let e2 = (case lc_journal l of None \<Rightarrow> e1
              | Some r \<Rightarrow> (case StopJournal journal_finished r of None \<Rightarrow> e1 | Some e \<Rightarrow> Some e));
            e3 = (if delivery_finished then e2 else Some (Failure ''logs workers did not stop before deadline''));
            l1 = l\<lparr>lc_cancel := False, lc_tailers := ts\<rparr>
        in case lc_world l of None \<Rightarrow> (e3, l1)
         | Some w \<Rightarrow>
             (case close_world w of (r, w1) \<Rightarrow>
               ((case (r, e3) of (Inl e, None) \<Rightarrow> Some e | _ \<Rightarrow> e3), l1\<lparr>lc_world := Some w1\<rparr>)))"

text \<open>\<open>Snapshot\<close> stores what the sources counted over the capability's own counters.\<close>

definition SnapshotLogs :: "u64 \<Rightarrow> u64 \<Rightarrow> logs_capability \<Rightarrow> (bytes \<times> u64) list \<times> logs_capability" where
  "SnapshotLogs retried rejected l =
     (let ss = map Stats (lc_tailers l);
          total = (\<lambda>f. sum_list (map f ss));
          j = (\<lambda>f. case lc_journal l of None \<Rightarrow> 0 | Some r \<Rightarrow> f (JournalStats r));
          prev = lc_stats l;
          s = \<lparr>sc_FilesDiscovered = total FilesDiscovered, sc_FilesOpen = total FilesOpen,
               sc_RecordsRead = total RecordsRead + j js_RecordsRead, sc_PermissionErrors = total PermissionErrors + j js_PermissionErrors,
               sc_CheckpointErrors = total CheckpointErrors + j js_CheckpointErrors, sc_MultilineFlushes = total MultilineFlushes,
               sc_JournalRecordsRead = (if lc_journal l = None then sc_JournalRecordsRead prev else j js_RecordsRead),
               sc_JournalReaderErrors = (if lc_journal l = None then sc_JournalReaderErrors prev else j js_ReaderErrors),
               sc_JournalCheckpointErrors = (if lc_journal l = None then sc_JournalCheckpointErrors prev else j js_CheckpointErrors)\<rparr>;
          rejected_local = total counters.RecordsRejectedLocal + j js_RecordsRejectedLocal
      in case lc_world l of
           None \<Rightarrow> let own = (lc_own l)\<lparr>log_counters.RecordsRejectedLocal := rejected_local\<rparr>
             in (log_counters_map s own retried rejected, l\<lparr>lc_stats := s, lc_own := own\<rparr>)
         | Some w \<Rightarrow>
             let k = (wd_worker w)\<lparr>lw_stats := (lw_stats (wd_worker w))\<lparr>log_counters.RecordsRejectedLocal := rejected_local\<rparr>\<rparr>
             in (log_counters_map s (lw_stats k) retried rejected, l\<lparr>lc_stats := s, lc_world := Some (w\<lparr>wd_worker := k\<rparr>)\<rparr>))"

text \<open>A stop closes the spool for good, whatever else fails, and a second one does nothing.\<close>

lemma CloseLog_closed: "l_closed (snd (CloseLog q))"
  by (simp add: CloseLog_def on_log_fs_def Let_def split: prod.splits)

lemma StopLogs_closes:
  assumes "StopLogs f jf df l = (e, l')" "lc_cancel l" "lc_world l = Some w"
  obtains w' where "lc_world l' = Some w'" "l_closed (lw_queue (wd_worker w'))" "StopLogs f' jf' df' l' = (None, l')"
    "PutAdmission None a raw (lw_queue (wd_worker w')) = (Inl (Failure ''logs spool closed''), lw_queue (wd_worker w'))"
proof -
  obtain r q where c: "CloseLog (lw_queue (wd_worker w)) = (r, q)" by fastforce
  then have "l_closed q" using CloseLog_closed[of "lw_queue (wd_worker w)"] by simp
  moreover have "lc_world l' = Some (w\<lparr>wd_worker := (wd_worker w)\<lparr>lw_queue := q\<rparr>\<rparr>)" "\<not> lc_cancel l'"
    using assms c by (auto simp: StopLogs_def close_world_def Let_def split: prod.splits)
  ultimately show ?thesis using that by (simp add: StopLogs_def PutAdmission_def)
qed

section \<open>Journal readers and their world\<close>

definition rd_tame :: "('w \<Rightarrow> bool) \<Rightarrow> 'w reader \<Rightarrow> bool" where
  "rd_tame I r \<longleftrightarrow>
     (\<forall>x w. I w \<longrightarrow> I (snd (rd_admit r x w))) \<and> (\<forall>act i w. rd_activate r = Some act \<longrightarrow> I w \<longrightarrow> I (snd (act i w))) \<and>
     (\<forall>w. I w \<longrightarrow> I (snd (rd_clock r w))) \<and> I (rd_world r)"

definition rd_tames :: "('w \<Rightarrow> bool) \<Rightarrow> 'w reader \<Rightarrow> 'w reader \<Rightarrow> bool" where
  "rd_tames I r r' \<longleftrightarrow> (rd_tame I r \<longrightarrow> rd_tame I r' \<and> rd_admit r' = rd_admit r \<and> rd_activate r' = rd_activate r \<and> rd_clock r' = rd_clock r)"

lemma rd_tames_refl [simp]: "rd_tames I r r"
  by (simp add: rd_tames_def)

lemma rd_tames_trans: "rd_tames I a b \<Longrightarrow> rd_tames I b c \<Longrightarrow> rd_tames I a c"
  by (auto simp: rd_tames_def)

lemma rd_tames_world:
  "rd_admit r' = rd_admit r \<Longrightarrow> rd_activate r' = rd_activate r \<Longrightarrow> rd_clock r' = rd_clock r \<Longrightarrow> (rd_tame I r \<Longrightarrow> I (rd_world r')) \<Longrightarrow> rd_tames I r r'"
  by (auto simp: rd_tames_def rd_tame_def)

lemma rd_tames_frame:
  "rd_admit r' = rd_admit r \<Longrightarrow> rd_activate r' = rd_activate r \<Longrightarrow> rd_clock r' = rd_clock r \<Longrightarrow> rd_world r' = rd_world r \<Longrightarrow> rd_tames I r r'"
  by (rule rd_tames_world) (auto simp: rd_tame_def)

lemma rd_tames_counts [simp]:
  "rd_tames I r (count_journal_read r)" "rd_tames I r (count_journal_rejected r)" "rd_tames I r (count_journal_checkpoint r)"
  "rd_tames I r (count_reader_error e r)" "rd_tames I r (r\<lparr>rd_cp := cp\<rparr>)" "rd_tames I r (r\<lparr>rd_fs := s\<rparr>)" "rd_tames I r (r\<lparr>rd_running := b\<rparr>)"
  by (rule rd_tames_frame; simp add: count_journal_read_def count_journal_rejected_def count_journal_checkpoint_def count_reader_error_def Let_def)+

lemma rd_tames_save: "rd_save r = (x, r') \<Longrightarrow> rd_tames I r r'"
  by (auto simp: rd_save_def intro!: rd_tames_frame split: prod.splits)

lemma rd_tames_tick: "rd_tick r = (n, r') \<Longrightarrow> rd_tames I r r'"
  by (rule rd_tames_world) (auto simp: rd_tick_def rd_tame_def split: prod.splits dest: spec[of _ "rd_world r"])

lemma rd_tames_admit: "rd_admit r x (rd_world r) = (e, w) \<Longrightarrow> rd_tames I r (r\<lparr>rd_world := w\<rparr>)"
  by (rule rd_tames_world) (auto simp: rd_tame_def, metis snd_conv)

lemma rd_tames_activate: "rd_activate r = Some act \<Longrightarrow> act i (rd_world r) = (e, w) \<Longrightarrow> rd_tames I r (r\<lparr>rd_world := w\<rparr>)"
  by (rule rd_tames_world) (auto simp: rd_tame_def, metis snd_conv)

lemma rd_tames_consume_record: "consume_record token r = (e, r') \<Longrightarrow> rd_tames I r r'"
proof -
  assume c: "consume_record token r = (e, r')"
  obtain fallback r1 where k: "rd_tick r = (fallback, r1)" by fastforce
  note t1 = rd_tames_tick[OF k]
  show ?thesis
  proof (cases "parseRecord token fallback")
    case None
    then show ?thesis using c k rd_tames_trans[OF t1 rd_tames_counts(2)] by (simp add: consume_record_def)
  next
    case (Some p)
    obtain x cursor where p: "p = (x, cursor)" by fastforce
    obtain e1 w where ad: "rd_admit r1 x (rd_world r1) = (e1, w)" by fastforce
    have t2: "rd_tames I r (r1\<lparr>rd_world := w\<rparr>)" by (rule rd_tames_trans[OF t1 rd_tames_admit[OF ad]])
    show ?thesis
    proof (cases e1)
      case (Some e')
      then show ?thesis using c k \<open>parseRecord token fallback = Some p\<close> p ad t2 by (simp add: consume_record_def)
    next
      case None
      obtain now r2 where k2: "rd_tick (r1\<lparr>rd_world := w\<rparr>) = (now, r2)" by fastforce
      define cp where "cp = \<lparr>jc_Version = 1, jc_SourceID = ''journald'', jc_Cursor = cursor, jc_SinceMicros = 0,
                 jc_AdmissionID = jr_AdmissionID x, jc_UpdatedAt = now\<rparr>"
      obtain s r3 where sv: "rd_save (r2\<lparr>rd_cp := cp\<rparr>) = (s, r3)" by fastforce
      have t3: "rd_tames I r r3" using rd_tames_trans[OF t2 rd_tames_trans[OF rd_tames_tick[OF k2] rd_tames_trans[OF rd_tames_counts(5) rd_tames_save[OF sv]]]] .
      have "(\<exists>cp. r' = count_journal_checkpoint (r3\<lparr>rd_cp := cp\<rparr>)) \<or> r' = count_journal_read r3 \<or>
          (\<exists>act i e w. rd_activate r3 = Some act \<and> act i (rd_world r3) = (e, w) \<and> (r' = r3\<lparr>rd_world := w\<rparr> \<or> r' = count_journal_read (r3\<lparr>rd_world := w\<rparr>)))"
        using c k \<open>parseRecord token fallback = Some p\<close> p ad None k2 sv
        by (auto simp: consume_record_def cp_def split: sum.splits option.splits prod.splits)
      moreover have "rd_tames I r (count_journal_checkpoint (r3\<lparr>rd_cp := cp'\<rparr>))" for cp'
        by (rule rd_tames_trans[OF t3 rd_tames_trans[OF rd_tames_counts(5) rd_tames_counts(3)]])
      moreover have "rd_tames I r (count_journal_read r3)" by (rule rd_tames_trans[OF t3 rd_tames_counts(1)])
      moreover have "rd_tames I r (r3\<lparr>rd_world := w'\<rparr>)" "rd_tames I r (count_journal_read (r3\<lparr>rd_world := w'\<rparr>))"
        if "rd_activate r3 = Some act" "act i (rd_world r3) = (e', w')" for act i e' w'
        using rd_tames_trans[OF t3 rd_tames_activate[OF that]] rd_tames_trans[OF rd_tames_trans[OF t3 rd_tames_activate[OF that]] rd_tames_counts(1)] by blast+
      ultimately show ?thesis by blast
    qed
  qed
qed

lemma rd_tames_consume_tokens: "consume_tokens ts r = (e, r') \<Longrightarrow> rd_tames I r r'"
proof (induction ts arbitrary: r)
  case (Cons t ts)
  obtain e1 r1 where c: "consume_record t r = (e1, r1)" by fastforce
  then show ?case using Cons rd_tames_consume_record[OF c] rd_tames_trans[OF rd_tames_consume_record[OF c]] by (auto split: option.splits)
qed simp

lemma rd_tames_run_process: "run_process p r = (e, r') \<Longrightarrow> rd_tames I r r'"
  by (auto simp: run_process_def consume_journal_def split: option.splits prod.splits dest: rd_tames_consume_tokens)

lemma rd_tames_run: "rd_tames I r (run ps r)"
proof (induction ps arbitrary: r)
  case (Cons p ps)
  obtain e r1 where c: "run_process p r = (e, r1)" by fastforce
  show ?case using c rd_tames_run_process[OF c] rd_tames_trans[OF rd_tames_trans[OF rd_tames_run_process[OF c] rd_tames_counts(4)] Cons.IH] by auto
qed simp

lemma rd_tames_StartJournal: "StartJournal de dir lookup r = (e, r') \<Longrightarrow> rd_tames I r r'"
proof -
  assume st: "StartJournal de dir lookup r = (e, r')"
  have wm: "rd_tames I a b" if "initial_watermark a = (x, b)" for a b x
  proof -
    obtain n1 r1 where k1: "rd_tick a = (n1, r1)" by fastforce
    obtain n2 r2 where k2: "rd_tick r1 = (n2, r2)" by fastforce
    define cp where "cp = (rd_cp r2)\<lparr>jc_SinceMicros := n1 div 1000, jc_UpdatedAt := n2\<rparr>"
    obtain y r3 where sv: "rd_save (r2\<lparr>rd_cp := cp\<rparr>) = (y, r3)" by fastforce
    have "rd_tames I a r3"
      using rd_tames_trans[OF rd_tames_tick[OF k1] rd_tames_trans[OF rd_tames_tick[OF k2] rd_tames_trans[OF rd_tames_counts(5) rd_tames_save[OF sv]]]] .
    moreover have "b = a \<or> b = r3" using that k1 k2 sv by (auto simp: initial_watermark_def cp_def split: if_splits sum.splits)
    ultimately show ?thesis by auto
  qed
  obtain y s where ld: "journal_loadCheckpoint (rd_fs r) = (y, s)" by fastforce
  have f: "rd_tames I r (r\<lparr>rd_fs := s, rd_cp := cp\<rparr>)" for cp by (rule rd_tames_frame) simp_all
  show ?thesis
  proof (cases "jd_Enabled (rd_cfg r) \<and> journal_ensurePrivateDir de dir = None")
    case False
    then show ?thesis using st by (auto simp: StartJournal_def split: if_splits option.splits)
  next
    case True
    show ?thesis
    proof (cases y)
      case (Inl z)
      then show ?thesis using st True ld f by (auto simp: StartJournal_def)
    next
      case (Inr c)
      obtain x r1 where i: "initial_watermark (r\<lparr>rd_fs := s, rd_cp := c\<rparr>) = (x, r1)" by fastforce
      have t1: "rd_tames I r r1" by (rule rd_tames_trans[OF f wm[OF i]])
      show ?thesis
      proof (cases x)
        case (Some z)
        then show ?thesis using st True ld Inr i t1 by (simp add: StartJournal_def)
      next
        case None
        obtain z w where a: "(case rd_activate r1 of
                         Some act \<Rightarrow> if jc_AdmissionID (rd_cp r1) = [] then (None, rd_world r1)
                                     else act (jc_AdmissionID (rd_cp r1)) (rd_world r1)
                       | None \<Rightarrow> (None, rd_world r1)) = (z, w)" by fastforce
        have t2: "rd_tames I r1 (r1\<lparr>rd_world := w\<rparr>)" using a rd_tames_activate rd_tames_frame[of "r1\<lparr>rd_world := w\<rparr>" r1 I]
          by (auto split: option.splits if_splits)
        have t3: "rd_tames I r (r1\<lparr>rd_world := w\<rparr>)" "rd_tames I r (r1\<lparr>rd_world := w, rd_running := True\<rparr>)"
          using rd_tames_trans[OF t1 t2] rd_tames_trans[OF rd_tames_trans[OF t1 t2] rd_tames_counts(7)[of I _ True]] by simp_all
        have "r' = r1\<lparr>rd_world := w\<rparr> \<or> r' = r1\<lparr>rd_world := w, rd_running := True\<rparr>"
          using st True ld Inr i None a by (auto simp: StartJournal_def split: option.splits if_splits)
        then show ?thesis using t3 by blast
      qed
    qed
  qed
qed

section \<open>The life of the capability\<close>

text \<open>A poll of a source, a run of the journal process, whatever the delivery loop does in between, and a report of the counters.\<close>

definition poll_source :: "poll_env \<Rightarrow> nat \<Rightarrow> logs_world \<Rightarrow> logs_capability \<Rightarrow> logs_capability" where
  "poll_source env i w l =
     (let t = lc_tailers l ! i; t1 = pollOnce env (t\<lparr>tl_world := (sent t, w)\<rparr>)
      in l\<lparr>lc_tailers := (lc_tailers l)[i := t1], lc_world := Some (snd (tl_world t1))\<rparr>)"

definition run_journal :: "process list \<Rightarrow> (journal_record list \<times> logs_world) reader \<Rightarrow> logs_world \<Rightarrow> logs_capability \<Rightarrow> logs_capability" where
  "run_journal ps r w l =
     (let r1 = run ps (r\<lparr>rd_world := (fst (rd_world r), w)\<rparr>) in l\<lparr>lc_journal := Some r1, lc_world := Some (snd (rd_world r1))\<rparr>)"

inductive logs_life_step :: "logs_capability \<Rightarrow> logs_capability \<Rightarrow> bool" where
  life_poll: "lc_world l = Some w \<Longrightarrow> i < length (lc_tailers l) \<Longrightarrow> logs_life_step l (poll_source env i w l)"
| life_journal: "lc_world l = Some w \<Longrightarrow> lc_journal l = Some r \<Longrightarrow> logs_life_step l (run_journal ps r w l)"
| life_delivery: "lc_world l = Some w \<Longrightarrow> log_run PutAdmission Activate LogNext LogAck l_names l_admissions log_fits log_stored (wd_worker w) k \<Longrightarrow>
    logs_life_step l (l\<lparr>lc_world := Some (w\<lparr>wd_worker := k\<rparr>)\<rparr>)"
| life_report: "lc_world l = Some w \<Longrightarrow> logs_life_step l (snd (SnapshotLogs retried rejected l))"

inductive logs_life :: "logs_capability \<Rightarrow> logs_capability \<Rightarrow> bool" where
  life_start: "logs_life l l"
| life_more: "logs_life l l' \<Longrightarrow> logs_life_step l' l'' \<Longrightarrow> logs_life l l''"

text \<open>What holds of the sources and the world: every record a source admitted was handled.\<close>

definition wired_journal :: "(log_request \<Rightarrow> bytes option) \<Rightarrow> config \<Rightarrow> (bytes \<times> bytes) list \<Rightarrow> (journal_record list \<times> logs_world) reader \<Rightarrow> bool" where
  "wired_journal marshal c attrs r \<longleftrightarrow>
     rd_admit r = recorded_admit (admit_journal marshal c attrs) \<and> rd_activate r = Some (recorded_activate activate_record) \<and> rd_clock r = recorded_clock"

definition tailer_handled :: "(log_request \<Rightarrow> bytes option) \<Rightarrow> config \<Rightarrow> (bytes \<times> bytes) list \<Rightarrow> logs_world \<Rightarrow> logs_world recorded tailer \<Rightarrow> bool" where
  "tailer_handled marshal c attrs w t \<longleftrightarrow>
     (\<forall>r \<in> set (sent t). handled (tr_AdmissionID r) (file_encoded marshal c attrs (tl_source t) r) w)"

definition journal_handled :: "(log_request \<Rightarrow> bytes option) \<Rightarrow> config \<Rightarrow> (bytes \<times> bytes) list \<Rightarrow> logs_world \<Rightarrow> (journal_record list \<times> logs_world) reader \<Rightarrow> bool" where
  "journal_handled marshal c attrs w r \<longleftrightarrow>
     (\<forall>x \<in> set (fst (rd_world r)). handled (jr_AdmissionID x) (journal_encoded marshal c attrs x) w)"

definition capability_wired :: "(log_request \<Rightarrow> bytes option) \<Rightarrow> logs_capability \<Rightarrow> bool" where
  "capability_wired marshal l \<longleftrightarrow>
     list_all (\<lambda>t. wired marshal (lc_cfg l) (lc_resource l) (tl_source t) t) (lc_tailers l) \<and>
     (\<forall>r. lc_journal l = Some r \<longrightarrow> wired_journal marshal (lc_cfg l) (lc_resource l) r)"

definition capability_ok :: "(log_request \<Rightarrow> bytes option) \<Rightarrow> logs_capability \<Rightarrow> logs_world \<Rightarrow> bool" where
  "capability_ok marshal l w \<longleftrightarrow> wd_overflow w \<or> (world_ok w \<and>
     list_all (tailer_handled marshal (lc_cfg l) (lc_resource l) w) (lc_tailers l) \<and>
     (\<forall>r. lc_journal l = Some r \<longrightarrow> journal_handled marshal (lc_cfg l) (lc_resource l) w r))"

text \<open>The world only moves on: receipts are kept, and used up sequence numbers stay used up.\<close>

definition later :: "logs_world \<Rightarrow> 'r list \<times> logs_world \<Rightarrow> bool" where
  "later w0 w \<longleftrightarrow> (wd_overflow w0 \<longrightarrow> wd_overflow (snd w)) \<and> set (wd_receipts w0) \<subseteq> set (wd_receipts (snd w))"

lemma later_meanwhile: "meanwhile w = (ctx, w') \<Longrightarrow> wd_overflow w' = wd_overflow w \<and> wd_receipts w' = wd_receipts w"
  by (auto simp: meanwhile_def split: list.splits prod.splits)

lemma later_admit: "later w0 w \<Longrightarrow> later w0 (snd (recorded_admit (\<lambda>r. admit_encoded (ident r) (encode r)) r w))"
proof -
  assume l: "later w0 w"
  obtain e v where a: "admit_encoded (ident r) (encode r) (snd w) = (e, v)" by fastforce
  have "snd (snd (recorded_admit (\<lambda>r. admit_encoded (ident r) (encode r)) r w)) = v" using a by (simp add: recorded_admit_def split: option.splits)
  moreover have "(wd_overflow (snd w) \<longrightarrow> wd_overflow v) \<and> set (wd_receipts (snd w)) \<subseteq> set (wd_receipts v)"
    using a by (auto simp: admit_encoded_def Let_def split: prod.splits dest!: later_meanwhile)
  ultimately show ?thesis using l by (auto simp: later_def)
qed

lemma later_activate: "later w0 w \<Longrightarrow> later w0 (snd (recorded_activate activate_record i w))"
  by (auto simp: later_def recorded_activate_def activate_record_def split: prod.splits dest!: later_meanwhile)

lemma later_clock: "later w0 w \<Longrightarrow> later w0 (snd (recorded_clock w))"
  by (auto simp: later_def recorded_clock_def split: list.splits)

lemma wired_tame_later: "wired marshal c attrs source t \<Longrightarrow> later w0 (tl_world t) \<Longrightarrow> tame (later w0) t"
  by (auto simp: tame_def wired_def admit_callbacks intro: later_admit later_activate later_clock)

lemma wired_journal_tame:
  "wired_journal marshal c attrs r \<Longrightarrow> later w0 (rd_world r) \<Longrightarrow> rd_tame (later w0) r"
  "wired_journal marshal c attrs r \<Longrightarrow> source_ok jr_AdmissionID (journal_encoded marshal c attrs) (rd_world r) \<Longrightarrow>
     rd_tame (source_ok jr_AdmissionID (journal_encoded marshal c attrs)) r"
  by (auto simp: rd_tame_def wired_journal_def admit_callbacks intro: later_admit later_activate later_clock source_ok_admit source_ok_activate source_ok_clock)

lemma tames_wired: "tames I t t' \<Longrightarrow> wired marshal c attrs source t \<Longrightarrow> wired marshal c attrs source t'"
  by (simp add: tames_def wired_def)

lemma tailer_handled_later: "tailer_handled marshal c attrs w t \<Longrightarrow> later w (hist, w') \<Longrightarrow> tailer_handled marshal c attrs w' t"
  using handled_mono unfolding tailer_handled_def later_def by (metis snd_conv)

lemma journal_handled_later: "journal_handled marshal c attrs w r \<Longrightarrow> later w (hist, w') \<Longrightarrow> journal_handled marshal c attrs w' r"
  using handled_mono unfolding journal_handled_def later_def by (metis snd_conv)

lemma capability_ok_later: "capability_ok marshal l w \<Longrightarrow> later w (hist, w') \<Longrightarrow> wd_overflow w' \<or> world_ok w' \<Longrightarrow> capability_ok marshal l w'"
  using tailer_handled_later journal_handled_later unfolding capability_ok_def by (fastforce simp: later_def list_all_iff)

text \<open>A tailer that starts or polls in a world, and a journal reader.\<close>

lemma tailer_step:
  assumes "tames (source_ok tr_AdmissionID (file_encoded marshal c attrs (tl_source t))) t t'" "tames (later w) t t'"
    and "tl_world t = (hist, w)" "wired marshal c attrs (tl_source t) t" "w' = snd (tl_world t')"
    and "\<not> wd_overflow w \<Longrightarrow> world_ok w \<and> (\<forall>r \<in> set hist. handled (tr_AdmissionID r) (file_encoded marshal c attrs (tl_source t) r) w)"
  shows "later w (hist', w')" "wired marshal c attrs (tl_source t') t'" "tl_source t' = tl_source t"
    "wd_overflow w' \<or> (world_ok w' \<and> tailer_handled marshal c attrs w' t')"
proof -
  have l: "later w (hist, w)" by (simp add: later_def)
  have "source_ok tr_AdmissionID (file_encoded marshal c attrs (tl_source t)) (hist, w)" using assms(6) by (auto simp: source_ok_def)
  then have "tame (source_ok tr_AdmissionID (file_encoded marshal c attrs (tl_source t))) t'"
    using assms(1,3) wired_tame[OF assms(4)] by (simp add: tames_def)
  then have so: "source_ok tr_AdmissionID (file_encoded marshal c attrs (tl_source t)) (tl_world t')" by (simp add: tame_def)
  have "tame (later w) t'" using assms(2,3) wired_tame_later[OF assms(4), of w] l by (simp add: tames_def)
  then have "later w (tl_world t')" by (simp add: tame_def)
  then show "later w (hist', w')" using assms(5) by (simp add: later_def)
  show src: "tl_source t' = tl_source t" using assms(1) by (simp add: tames_def)
  show "wired marshal c attrs (tl_source t') t'" using tames_wired[OF assms(1,4)] src by simp
  show "wd_overflow w' \<or> (world_ok w' \<and> tailer_handled marshal c attrs w' t')"
    using so src assms(5) by (auto simp: source_ok_def tailer_handled_def sent_def)
qed

lemma journal_step:
  assumes "rd_tames (source_ok jr_AdmissionID (journal_encoded marshal c attrs)) r r'" "rd_tames (later w) r r'"
    and "rd_world r = (hist, w)" "wired_journal marshal c attrs r" "w' = snd (rd_world r')"
    and "\<not> wd_overflow w \<Longrightarrow> world_ok w \<and> (\<forall>x \<in> set hist. handled (jr_AdmissionID x) (journal_encoded marshal c attrs x) w)"
  shows "later w (hist', w')" "wired_journal marshal c attrs r'"
    "wd_overflow w' \<or> (world_ok w' \<and> journal_handled marshal c attrs w' r')"
proof -
  have l: "later w (hist, w)" by (simp add: later_def)
  have "source_ok jr_AdmissionID (journal_encoded marshal c attrs) (hist, w)" using assms(6) by (auto simp: source_ok_def)
  then have t: "rd_tame (source_ok jr_AdmissionID (journal_encoded marshal c attrs)) r"
    using assms(3) wired_journal_tame(2)[OF assms(4)] by simp
  then have so: "source_ok jr_AdmissionID (journal_encoded marshal c attrs) (rd_world r')"
    using assms(1) by (simp add: rd_tames_def rd_tame_def)
  show "wired_journal marshal c attrs r'" using assms(1,4) t by (simp add: rd_tames_def wired_journal_def)
  have "rd_tame (later w) r'" using assms(2,3) wired_journal_tame(1)[OF assms(4), of w] l by (simp add: rd_tames_def)
  then have "later w (rd_world r')" by (simp add: rd_tame_def)
  then show "later w (hist', w')" using assms(5) by (simp add: later_def)
  show "wd_overflow w' \<or> (world_ok w' \<and> journal_handled marshal c attrs w' r')"
    using so assms(5) by (auto simp: source_ok_def journal_handled_def)
qed

lemma tames_rewired: "tames I (t\<lparr>tl_world := x\<rparr>) t' \<Longrightarrow> tl_source t' = tl_source t"
  by (simp add: tames_def)

lemma life_poll_ok:
  assumes "capability_wired marshal l" "capability_ok marshal l w" "i < length (lc_tailers l)"
  shows "\<exists>w'. lc_world (poll_source env i w l) = Some w' \<and> capability_wired marshal (poll_source env i w l) \<and> capability_ok marshal (poll_source env i w l) w'"
proof -
  define t where "t = (lc_tailers l ! i)\<lparr>tl_world := (sent (lc_tailers l ! i), w)\<rparr>"
  define t1 where "t1 = pollOnce env t"
  define w' where "w' = snd (tl_world t1)"
  have p: "poll_source env i w l = l\<lparr>lc_tailers := (lc_tailers l)[i := t1], lc_world := Some w'\<rparr>"
    by (simp add: poll_source_def Let_def t1_def t_def w'_def)
  have mem: "lc_tailers l ! i \<in> set (lc_tailers l)" using assms(3) by simp
  have wt: "wired marshal (lc_cfg l) (lc_resource l) (tl_source t) t"
    using assms(1) mem by (auto simp: capability_wired_def list_all_iff t_def wired_def)
  have h: "\<not> wd_overflow w \<Longrightarrow> world_ok w \<and>
      (\<forall>r \<in> set (sent (lc_tailers l ! i)). handled (tr_AdmissionID r) (file_encoded marshal (lc_cfg l) (lc_resource l) (tl_source t) r) w)"
    using assms(2) mem by (auto simp: capability_ok_def list_all_iff tailer_handled_def t_def)
  note st = tailer_step[OF tames_pollOnce tames_pollOnce _ wt, of "sent (lc_tailers l ! i)" w w' env, folded t1_def, OF _ w'_def h]
  have st: "later w (hist', w')" "wired marshal (lc_cfg l) (lc_resource l) (tl_source t1) t1"
      "wd_overflow w' \<or> (world_ok w' \<and> tailer_handled marshal (lc_cfg l) (lc_resource l) w' t1)" for hist' :: "tail_record list"
    using st by (simp_all add: t_def)
  have ok: "capability_ok marshal l w'" by (rule capability_ok_later[OF assms(2) st(1)]) (use st(3) in blast)
  have "capability_wired marshal (poll_source env i w l)"
    using assms(1) st(2) by (auto simp: p capability_wired_def list_all_iff dest!: set_update_subset_insert[THEN subsetD])
  moreover have "capability_ok marshal (poll_source env i w l) w'"
    using ok st(3) by (auto simp: p capability_ok_def list_all_iff dest!: set_update_subset_insert[THEN subsetD])
  ultimately show ?thesis by (simp add: p)
qed

lemma life_journal_ok:
  assumes "capability_wired marshal l" "capability_ok marshal l w" "lc_journal l = Some r"
  shows "\<exists>w'. lc_world (run_journal ps r w l) = Some w' \<and> capability_wired marshal (run_journal ps r w l) \<and> capability_ok marshal (run_journal ps r w l) w'"
proof -
  define r0 where "r0 = r\<lparr>rd_world := (fst (rd_world r), w)\<rparr>"
  define r1 where "r1 = run ps r0"
  define w' where "w' = snd (rd_world r1)"
  have p: "run_journal ps r w l = l\<lparr>lc_journal := Some r1, lc_world := Some w'\<rparr>"
    by (simp add: run_journal_def Let_def r1_def r0_def w'_def)
  have wt: "wired_journal marshal (lc_cfg l) (lc_resource l) r0"
    using assms(1,3) by (auto simp: capability_wired_def r0_def wired_journal_def)
  have h: "\<not> wd_overflow w \<Longrightarrow> world_ok w \<and>
      (\<forall>x \<in> set (fst (rd_world r)). handled (jr_AdmissionID x) (journal_encoded marshal (lc_cfg l) (lc_resource l) x) w)"
    using assms(2,3) by (auto simp: capability_ok_def journal_handled_def)
  note st = journal_step[OF rd_tames_run rd_tames_run _ wt, of "fst (rd_world r)" w w' ps, folded r1_def, OF _ w'_def h]
  have st: "later w (hist', w')" "wired_journal marshal (lc_cfg l) (lc_resource l) r1"
      "wd_overflow w' \<or> (world_ok w' \<and> journal_handled marshal (lc_cfg l) (lc_resource l) w' r1)" for hist' :: "tail_record list"
    using st by (simp_all add: r0_def later_def)
  have ok: "capability_ok marshal l w'" by (rule capability_ok_later[OF assms(2) st(1)]) (use st(3) in blast)
  have "capability_wired marshal (run_journal ps r w l)" using assms(1) st(2) by (auto simp: p capability_wired_def)
  moreover have "capability_ok marshal (run_journal ps r w l) w'" using ok st(3) by (auto simp: p capability_ok_def)
  ultimately show ?thesis by (simp add: p)
qed

lemma handled_worker [simp]: "handled a x (w\<lparr>wd_worker := k\<rparr>) = handled a x w"
  by (simp add: handled_def split: sum.splits)

lemma life_step_ok:
  "logs_life_step l l' \<Longrightarrow> lc_world l = Some w \<Longrightarrow> capability_wired marshal l \<Longrightarrow> capability_ok marshal l w \<Longrightarrow>
   lc_cfg l' = lc_cfg l \<and> lc_resource l' = lc_resource l \<and>
   (\<exists>w'. lc_world l' = Some w' \<and> capability_wired marshal l' \<and> capability_ok marshal l' w')"
proof (induction rule: logs_life_step.induct)
  case (life_poll l w0 i env)
  then show ?case using life_poll_ok[of marshal l w i env] by (simp add: poll_source_def Let_def)
next
  case (life_journal l w0 r ps)
  then show ?case using life_journal_ok[of marshal l w r ps] by (simp add: run_journal_def Let_def)
next
  case (life_delivery l w0 k)
  have w0: "w0 = w" using life_delivery by simp
  have "wd_overflow w \<or> world_ok (w\<lparr>wd_worker := k\<rparr>)" using life_delivery(2,5) world_ok_run[of w k] w0 by (auto simp: capability_ok_def)
  then have "capability_ok marshal l (w\<lparr>wd_worker := k\<rparr>)" using capability_ok_later[OF life_delivery(5), of "[] :: tail_record list"] by (simp add: later_def)
  then show ?case using life_delivery(4) w0 by (simp add: capability_ok_def capability_wired_def)
next
  case (life_report l w0 retried rejected)
  have w0: "w0 = w" using life_report by simp
  obtain s k where k: "snd (SnapshotLogs retried rejected l) = l\<lparr>lc_stats := s, lc_world := Some (w\<lparr>wd_worker := (wd_worker w)\<lparr>lw_stats := k\<rparr>\<rparr>)\<rparr>"
    using life_report(1) w0 by (simp add: SnapshotLogs_def Let_def)
  have "lq.log_winv ((wd_worker w)\<lparr>lw_stats := k\<rparr>) = lq.log_winv (wd_worker w)"
    by (simp add: lq.log_winv_def log_accounted_def lq.log_phase_ok_def cong: phase.case_cong option.case_cong)
  then have "wd_overflow w \<or> world_ok (w\<lparr>wd_worker := (wd_worker w)\<lparr>lw_stats := k\<rparr>\<rparr>)"
    using life_report(4) by (auto simp: capability_ok_def world_ok_def others_behave_def settled_def)
  then have "capability_ok marshal l (w\<lparr>wd_worker := (wd_worker w)\<lparr>lw_stats := k\<rparr>\<rparr>)"
    using capability_ok_later[OF life_report(4), of "[] :: tail_record list"] by (simp add: later_def)
  then show ?case using life_report(3) by (simp add: k capability_ok_def capability_wired_def)
qed

lemma life_ok:
  "logs_life l l' \<Longrightarrow> lc_world l = Some w \<Longrightarrow> capability_wired marshal l \<Longrightarrow> capability_ok marshal l w \<Longrightarrow>
   lc_cfg l' = lc_cfg l \<and> lc_resource l' = lc_resource l \<and>
   (\<exists>w'. lc_world l' = Some w' \<and> capability_wired marshal l' \<and> capability_ok marshal l' w')"
proof (induction rule: logs_life.induct)
  case (life_more l l' l'')
  then show ?case using life_step_ok by metis
qed simp

section \<open>Starting\<close>

lemma start_source_ok:
  assumes "start_source marshal compile env source (l, w) = (l', w')" "capability_wired marshal l" "capability_ok marshal l w"
  shows "capability_wired marshal l' \<and> capability_ok marshal l' w' \<and> lc_cfg l' = lc_cfg l \<and> lc_resource l' = lc_resource l \<and>
     lc_journal l' = lc_journal l \<and> lc_cancel l' = lc_cancel l \<and> lc_own l' = lc_own l"
proof -
  define t where "t = file_tailer marshal (lc_cfg l) (lc_resource l) source (le_fs env (src_ID source)) w"
  have tw: "tl_world t = ([], w)" "tl_source t = source" by (simp_all add: t_def file_tailer_def NewTailer_def)
  have wt: "wired marshal (lc_cfg l) (lc_resource l) (tl_source t) t" using wired_file_tailer tw(2) by (simp add: t_def)
  obtain e t1 where st: "Tailer.Start compile (le_root env (src_ID source)) (le_dir env (src_ID source))
      (Join (StateDirectory (LogsRuntime (lc_cfg l))) ''checkpoints'') (le_order env) t = (e, t1)" by fastforce
  have w': "w' = snd (tl_world t1)" and l': "l' = (if e = None then l\<lparr>lc_tailers := lc_tailers l @ [t1]\<rparr> else count_source_error l)"
    using assms(1) st by (auto simp: start_source_def t_def split: option.splits)
  have h: "\<not> wd_overflow w \<Longrightarrow> world_ok w \<and> (\<forall>r \<in> set []. handled (tr_AdmissionID r) (file_encoded marshal (lc_cfg l) (lc_resource l) (tl_source t) r) w)"
    using assms(3) by (auto simp: capability_ok_def)
  note step = tailer_step[OF tames_Start[OF st] tames_Start[OF st] tw(1) wt w']
  have step: "later w ([] :: tail_record list, w')" "wired marshal (lc_cfg l) (lc_resource l) (tl_source t1) t1"
      "wd_overflow w' \<or> (world_ok w' \<and> tailer_handled marshal (lc_cfg l) (lc_resource l) w' t1)"
    using step(1,2,4) h by simp_all
  have ok: "capability_ok marshal l w'" by (rule capability_ok_later[OF assms(3) step(1)]) (use step(3) in blast)
  show ?thesis
    using ok assms(2) step(2,3) by (auto simp: l' count_source_error_def capability_wired_def capability_ok_def)
qed

lemma start_sources_ok:
  assumes "fold (start_source marshal compile env) ss (l, w) = (l', w')" "capability_wired marshal l" "capability_ok marshal l w"
  shows "capability_wired marshal l' \<and> capability_ok marshal l' w' \<and> lc_cfg l' = lc_cfg l \<and> lc_resource l' = lc_resource l \<and>
     lc_journal l' = lc_journal l \<and> lc_cancel l' = lc_cancel l \<and> lc_own l' = lc_own l"
  using assms
proof (induction ss arbitrary: l w)
  case (Cons s ss)
  obtain l1 w1 where s1: "start_source marshal compile env s (l, w) = (l1, w1)" by fastforce
  note ok = start_source_ok[OF s1 Cons.prems(2,3)]
  have "fold (start_source marshal compile env) ss (l1, w1) = (l', w')" using Cons.prems(1) s1 by simp
  from Cons.IH[OF this] ok show ?case by simp
qed simp

lemma start_journal_ok:
  assumes "start_journal marshal env (l, w) = (l', w')" "capability_wired marshal l" "capability_ok marshal l w" "lc_journal l = None"
  shows "capability_wired marshal l' \<and> capability_ok marshal l' w' \<and> lc_cfg l' = lc_cfg l \<and> lc_resource l' = lc_resource l \<and>
     lc_cancel l' = lc_cancel l \<and> lc_own l' = lc_own l \<and> lc_tailers l' = lc_tailers l"
proof (cases "jd_Enabled (Journald (LogsRuntime (lc_cfg l)))")
  case False
  then show ?thesis using assms by (simp add: start_journal_def)
next
  case True
  define r where "r = journal_reader marshal (lc_cfg l) (lc_resource l) (le_fs env ''journald'') w"
  have rw: "rd_world r = ([], w)" and wr: "wired_journal marshal (lc_cfg l) (lc_resource l) r"
    by (simp_all add: r_def journal_reader_def NewReader_def wired_journal_def)
  obtain e r1 where st: "StartJournal (le_dir env ''journald'') (Join (StateDirectory (LogsRuntime (lc_cfg l))) ''checkpoints'') (le_journalctl env) r = (e, r1)"
    by fastforce
  have w': "w' = snd (rd_world r1)" and l': "l' = (if e = None then l\<lparr>lc_journal := Some r1\<rparr> else count_source_error l)"
    using assms(1) st True by (auto simp: start_journal_def r_def split: option.splits)
  have h: "\<not> wd_overflow w \<Longrightarrow> world_ok w \<and> (\<forall>x \<in> set []. handled (jr_AdmissionID x) (journal_encoded marshal (lc_cfg l) (lc_resource l) x) w)"
    using assms(3) by (auto simp: capability_ok_def)
  note step = journal_step[OF rd_tames_StartJournal[OF st] rd_tames_StartJournal[OF st] rw wr w']
  have step: "later w ([] :: tail_record list, w')" "wired_journal marshal (lc_cfg l) (lc_resource l) r1"
      "wd_overflow w' \<or> (world_ok w' \<and> journal_handled marshal (lc_cfg l) (lc_resource l) w' r1)"
    using step h by simp_all
  have ok: "capability_ok marshal l w'"
    by (rule capability_ok_later[OF assms(3) step(1)]) (use step(3) in blast)
  show ?thesis
    using ok assms(2,4) step(2,3) by (auto simp: l' count_source_error_def capability_wired_def capability_ok_def)
qed

lemma start_source_frame:
  "start_source marshal compile env source (l, w) = (l', w') \<Longrightarrow>
   lc_cfg l' = lc_cfg l \<and> lc_resource l' = lc_resource l \<and> lc_journal l' = lc_journal l \<and> lc_cancel l' = lc_cancel l \<and> lc_own l' = lc_own l"
  by (auto simp: start_source_def count_source_error_def split: prod.splits option.splits)

lemma start_sources_frame:
  "fold (start_source marshal compile env) ss (l, w) = (l', w') \<Longrightarrow>
   lc_cfg l' = lc_cfg l \<and> lc_resource l' = lc_resource l \<and> lc_journal l' = lc_journal l \<and> lc_cancel l' = lc_cancel l \<and> lc_own l' = lc_own l"
proof (induction ss arbitrary: l w)
  case (Cons s ss)
  obtain l1 w1 where s1: "start_source marshal compile env s (l, w) = (l1, w1)" by fastforce
  then show ?case using Cons start_source_frame[OF s1] by simp
qed simp

lemma start_journal_frame:
  "start_journal marshal env (l, w) = (l', w') \<Longrightarrow>
   lc_cfg l' = lc_cfg l \<and> lc_resource l' = lc_resource l \<and> lc_tailers l' = lc_tailers l \<and> lc_cancel l' = lc_cancel l \<and> lc_own l' = lc_own l"
  by (auto simp: start_journal_def count_source_error_def split: if_splits prod.splits option.splits)

text \<open>A successful start.\<close>

lemma StartLogs_cases:
  assumes "StartLogs parse marshal compile env (NewLogs c stats own) = (None, l')"
  obtains who l1 q l2 w where
    "capability_identity c (le_detected env) (le_expected env) (le_machine env) = Inr who" "ValidateQueueIdentity parse c = None"
    "ValidateConfig parse (\<lambda>p. compile p \<noteq> None) c = None"
    "l1 = (NewLogs c stats own)\<lparr>lc_resource := Resource who ''linux'' (le_arch env) (le_version env) []\<rparr>" "logs_spool env l1 = Inr q"
    "start_journal marshal env (fold (start_source marshal compile env) (Sources (LogsRuntime c)) (l1\<lparr>lc_cancel := True\<rparr>, fresh_world env own q)) = (l2, w)"
    "l' = l2\<lparr>lc_world := Some w\<rparr>" "lc_tailers l2 \<noteq> [] \<or> lc_journal l2 \<noteq> None"
  using assms
  by (auto simp: StartLogs_def Let_def NewLogs_def split: if_splits option.splits sum.splits prod.splits)

lemma logs_spool_frame: "lc_cfg l = lc_cfg l' \<Longrightarrow> lc_resource l = lc_resource l' \<Longrightarrow> logs_spool env l = logs_spool env l'"
  by (simp add: logs_spool_def)

lemma log_winv_launch_stats: "log_inv q \<Longrightarrow> lq.log_winv ((log_launch l_names l_admissions log_content q)\<lparr>lw_stats := own, lw_points := n\<rparr>)"
  using lq.log_winv_launch[of q]
  by (simp add: lq.log_winv_def log_accounted_def lq.log_phase_ok_def cong: phase.case_cong option.case_cong)

lemma StartLogs_ok:
  assumes st: "StartLogs parse marshal compile env (NewLogs c stats own) = (None, l')"
    and fs: "calm (le_queue_fs env)" "\<forall>q. logs_spool env l' = Inr q \<longrightarrow> numbered q"
    and others: "\<forall>ctx f k. (ctx, f) \<in> set (le_schedule env) \<longrightarrow> log_run PutAdmission Activate LogNext LogAck l_names l_admissions log_fits log_stored k (f k)"
  shows "lc_cfg l' = c \<and> (\<exists>w. lc_world l' = Some w \<and> capability_wired marshal l' \<and> capability_ok marshal l' w)"
  using st
proof (cases rule: StartLogs_cases)
  case (1 who l1 q l2 w)
  let ?l = "l1\<lparr>lc_cancel := True\<rparr>"
  obtain l3 w3 where f: "fold (start_source marshal compile env) (Sources (LogsRuntime c)) (?l, fresh_world env own q) = (l3, w3)" by fastforce
  have wired: "capability_wired marshal ?l" using 1(4) by (simp add: capability_wired_def NewLogs_def)
  have same: "lc_cfg l1 = c" "lc_journal l1 = None" using 1(4) by (simp_all add: NewLogs_def)
  have j: "start_journal marshal env (l3, w3) = (l2, w)" using 1(6) f by simp
  note f3 = start_sources_frame[OF f] and f2 = start_journal_frame[OF j]
  have sp: "logs_spool env l' = Inr q" using 1(5,7) f2 f3 logs_spool_frame[of l' l1 env] by simp
  then have n: "numbered q" using fs(2) by simp
  obtain s' where "OpenLogDisk (Join (StateDirectory (LogsRuntime (lc_cfg l1))) ''queue'') (le_spool env) (capability_scope (lc_cfg l1) (lc_resource l1))
      (QueueBytes (LogsRuntime (lc_cfg l1))) (QueueItems (LogsRuntime (lc_cfg l1))) (le_queue_fs env) = (Inr q, s')"
    using 1(5) by (auto simp: logs_spool_def Let_def) (metis surjective_pairing)
  from OpenLogDisk_effect[OF fs(1) this] n have "log_inv q" by blast
  then have "world_ok (fresh_world env own q)"
    using others log_winv_launch_stats by (simp add: world_ok_def fresh_world_def others_behave_def)
  then have ok: "capability_ok marshal ?l (fresh_world env own q)"
    using 1(4) by (simp add: capability_ok_def NewLogs_def)
  note ok3 = start_sources_ok[OF f wired ok]
  note ok2 = start_journal_ok[OF j]
  have "capability_wired marshal l2 \<and> capability_ok marshal l2 w" using ok2 ok3 f3 same by simp
  then show ?thesis using 1(7) f2 f3 same by (simp add: capability_wired_def capability_ok_def)
qed

text \<open>
  C2: The logs capability keeps every record. After a successful start, through any sequence of polls of its sources, runs of the journal process, steps of the
  delivery loop and reports, under any faults: every record that any source has admitted was refused by the encoder, or its stored payload has been accepted by the backend,
  or it is in the spool under its receipt with that payload. Only what the spool stored unreadably is excepted, and runs that use up the
  sequence numbers.
\<close>

theorem logs_capability_keeps_every_record:
  assumes "StartLogs parse marshal compile env (NewLogs c stats own) = (None, l0)"
    and "calm (le_queue_fs env)" "\<forall>q. logs_spool env l0 = Inr q \<longrightarrow> numbered q"
    and "\<forall>ctx f k. (ctx, f) \<in> set (le_schedule env) \<longrightarrow> log_run PutAdmission Activate LogNext LogAck l_names l_admissions log_fits log_stored k (f k)"
    and "logs_life l0 l" "lc_world l = Some w" "\<not> wd_overflow w"
  shows "(\<forall>t \<in> set (lc_tailers l). \<forall>r \<in> set (sent t).
       delivered_or_kept w (wd_worker w) (lw_queue (wd_worker w)) (tr_AdmissionID r) (file_encoded marshal c (lc_resource l) (tl_source t) r)) \<and>
     (\<forall>j. lc_journal l = Some j \<longrightarrow> (\<forall>r \<in> set (fst (rd_world j)).
       delivered_or_kept w (wd_worker w) (lw_queue (wd_worker w)) (jr_AdmissionID r) (journal_encoded marshal c (lc_resource l) r)))"
proof -
  obtain w0 where w0: "lc_cfg l0 = c" "lc_world l0 = Some w0" "capability_wired marshal l0" "capability_ok marshal l0 w0"
    using StartLogs_ok[OF assms(1-4)] by blast
  note ok = life_ok[OF assms(5) w0(2-4)]
  then have c: "lc_cfg l = c" and cw: "capability_ok marshal l w" using w0(1) assms(6) by simp_all
  have wo: "world_ok w" using cw assms(7) by (simp add: capability_ok_def)
  have kept: "(n, d) \<in> lw_sent (wd_worker w) \<or> ((a, n) \<in> set (l_admissions (lw_queue (wd_worker w))) \<and> log_content (lw_queue (wd_worker w)) n = Some d)"
    if r: "(a, n, x, Some d) \<in> set (wd_receipts w)" for a n x d
  proof -
    have "settled l_admissions log_content a n (Some d) (wd_worker w)" using wo r unfolding world_ok_def by blast
    moreover have "(n, d) \<in> lw_sent (wd_worker w)" if "(n, Some d) \<in> lw_left (wd_worker w)"
      using lq.log_winvD(5)[of "wd_worker w"] wo that by (simp add: world_ok_def)
    ultimately show ?thesis by (auto simp: settled_def)
  qed
  show ?thesis
    using cw assms(7) c handled_delivered_or_kept[OF _ kept]
    by (auto simp: capability_ok_def list_all_iff tailer_handled_def journal_handled_def)
qed

section \<open>A start that succeeds\<close>

definition small_config :: config where
  "small_config = sample_config\<lparr>cfg_Logs := (cfg_Logs sample_config)\<lparr>QueueItems := 1\<rparr>\<rparr>"

lemma small_config_valid: "ValidateConfig sample_parse (\<lambda>_. True) small_config = None"
proof -
  have l: "LogsRuntime small_config = (LogsRuntime sample_config)\<lparr>QueueItems := 1\<rparr>"
    by (simp add: LogsRuntime_def small_config_def Let_def or_int_def)
  have i: "QueueItems (LogsRuntime sample_config) = 4096" by (simp add: LogsRuntime_def sample_config_def or_int_def Let_def)
  have "validateLogs (\<lambda>_. True) small_config = validateLogs (\<lambda>_. True) sample_config"
    by (simp add: validateLogs_def l i Let_def outside_def cong: option.case_cong)
  moreover have "Runtime small_config = Runtime sample_config" by (simp add: Runtime_def small_config_def)
  ultimately have "ValidateRuntime (\<lambda>_. True) small_config = ValidateRuntime (\<lambda>_. True) sample_config"
    by (cases "Runtime sample_config") (simp add: ValidateRuntime_def)
  moreover have "AgentID small_config = AgentID sample_config" "cfg_Policy small_config = cfg_Policy sample_config"
    "RemoteAllowed small_config = RemoteAllowed sample_config" "Exporter small_config = Exporter sample_config"
    "cfg_credential small_config = cfg_credential sample_config" "cfg_Limits small_config = cfg_Limits sample_config" "yamlConfig small_config = yamlConfig sample_config"
    by (simp_all add: small_config_def)
  moreover have "ValidateRuntime (\<lambda>_. True) sample_config = None" using sample_config_valid by (auto simp: ValidateConfig_def split: option.splits)
  ultimately have "ValidateConfig sample_parse (\<lambda>_. True) small_config = ValidateConfig sample_parse (\<lambda>_. True) sample_config"
    by (simp add: ValidateConfig_def cong: option.case_cong if_cong)
  then show ?thesis using sample_config_valid by simp
qed

lemma sample_identity_resolved:
  "capability_identity small_config (Inl ErrUnavailable) False (Inr sample_host) = Inr sample_who"
  "scope_ok (capability_scope small_config sample_resource)"
proof -
  have same: "Runtime small_config = Runtime sample_config" "AgentID small_config = AgentID sample_config" "Exporter small_config = Exporter sample_config"
    by (simp_all add: small_config_def Runtime_def)
  have "capability_identity small_config = capability_identity sample_config" unfolding capability_identity_def same ..
  then show "capability_identity small_config (Inl ErrUnavailable) False (Inr sample_host) = Inr sample_who" using sample_who_resolved(1) by simp
  show "scope_ok (capability_scope small_config sample_resource)" using sample_who_resolved(2) by (simp add: capability_scope_def same)
qed

text \<open>An environment in which everything works: a spool that holds one activated record and is full, and an empty checkpoint directory.\<close>

definition sample_logs_env :: logs_env where
  "sample_logs_env = \<lparr>le_detected = Inl ErrUnavailable, le_expected = False, le_machine = Inr sample_host, le_ctx = None,
     le_secrets = (\<lambda>_ _. Inr ''ApiKey k''), le_arch = ''amd64'', le_version = ''1'', le_spool = sample_env,
     le_queue_fs = restart_fs (capability_scope small_config sample_resource) sample_admission True,
     le_root = (\<lambda>_. \<lparr>rc_slash = None, rc_openat2 = (\<lambda>_. Opened), rc_dup = None, rc_openat = (\<lambda>_. None)\<rparr>),
     le_dir = (\<lambda>_. \<lparr>de_components = [], de_mkdir = None, de_stat = Inr (True, 448, 1000), de_euid = 1000\<rparr>),
     le_fs = (\<lambda>_. quiet_fs []), le_order = (\<lambda>xs. xs), le_journalctl = False, le_points = 0, le_schedule = [], le_clock = []\<rparr>"

definition no_log_counters :: log_counters where
  "no_log_counters = \<lparr>RecordsQueued = 0, RecordsDelivered = 0, RecordsRetriedLogs = 0, RecordsRejectedLocal = 0, QueueRejectedLogs = 0, AuthenticationPaused = 0\<rparr>"

lemma sample_admission_valid: "validAdmission sample_admission"
  by (simp add: sample_admission_def admissionID_valid)

lemma sample_spool:
  assumes "lc_cfg l = small_config" "lc_resource l = sample_resource"
  obtains q where "logs_spool sample_logs_env l = Inr q" "log_inv q" "numbered q" "lm_next (l_manifest q) = 2"
    "l_admissions q = [(sample_admission, lrec_name 1)]" "l_names q = [lrec_name 1]" "l_count q = 1" "l_maxItems q = 1"
proof -
  let ?sc = "capability_scope small_config sample_resource"
  have r: "StateDirectory (LogsRuntime small_config) = ''/var/lib/observe-agent/logs''" "QueueBytes (LogsRuntime small_config) = 1048576"
    "QueueItems (LogsRuntime small_config) = 1"
    by (simp_all add: LogsRuntime_def small_config_def sample_config_def or_int_def or_string_def Let_def)
  have d: "HasPrefix (Join ''/var/lib/observe-agent/logs'' ''queue'') ''/''"
    by (simp add: Join_def Clean_def IsAbs_def Let_def)
  obtain q where o: "OpenLogDisk (Join ''/var/lib/observe-agent/logs'' ''queue'') sample_env ?sc 1048576 1 (restart_fs ?sc sample_admission True)
      = (Inr q, (restart_fs ?sc sample_admission True)\<lparr>fs_locked := True\<rparr>)"
    and q: "lm_next (l_manifest q) = 2" "l_admissions q = [(sample_admission, lrec_name 1)]" "l_names q = [lrec_name 1]" "l_count q = 1" "l_maxItems q = 1"
    using restart_open[OF sample_admission_valid _ _ sample_identity_resolved(2) d, of 1 1048576 True] by auto
  have n: "numbered q" using q by (simp add: numbered_def is_lrec_1)
  have i: "log_inv q" using OpenLogDisk_effect[OF restart_calm[OF sample_admission_valid] o] n by blast
  have "logs_spool sample_logs_env l = Inr q" using o by (simp add: logs_spool_def assms r sample_logs_env_def)
  then show ?thesis using that i n q by blast
qed

lemma sample_start_app:
  "fst (Tailer.Start compile (le_root sample_logs_env i) (le_dir sample_logs_env i) (Join ''/var/lib/observe-agent/logs'' ''checkpoints'')
     (le_order sample_logs_env) (file_tailer marshal c attrs (source_defaults sample_source) (le_fs sample_logs_env i) w)) = None"
proof -
  have d: "IsAbs (Join ''/var/lib/observe-agent/logs'' ''checkpoints'')" by (rule IsAbs_Join) (simp add: IsAbs_def)
  have m: "\<not> ml_Enabled (Multiline (source_defaults sample_source))" by (simp add: source_defaults_def sample_source_def)
  have "loadCheckpoint s n (quiet_fs []) = (Inr (fresh_checkpoints s), quiet_fs [])" for s n
    by (simp add: loadCheckpoint_def load_file_def andThen_def attempt_def open_read_def syscall_def fate_of_def spend_def ret_def live_def quiet_fs_def
        fresh_checkpoints_def)
  then show ?thesis
    using d m by (simp add: Tailer.Start_def file_tailer_def NewTailer_def Let_def openRoot_def ensurePrivateDir_def private_dir_def sample_logs_env_def)
qed


text \<open>The start of the capability in that environment.\<close>

lemma sample_start:
  assumes "logs_spool sample_logs_env ((NewLogs small_config no_source_counters no_log_counters)\<lparr>lc_resource := sample_resource\<rparr>) = Inr q"
  obtains t where
    "StartLogs sample_parse (\<lambda>_. Some (dec 1)) (\<lambda>_. Some (\<lambda>_. False)) sample_logs_env (NewLogs small_config no_source_counters no_log_counters) =
       (None, (NewLogs small_config no_source_counters no_log_counters)\<lparr>lc_resource := sample_resource, lc_cancel := True, lc_tailers := [t],
          lc_world := Some (snd (tl_world t))\<rparr>)"
    "tames I (file_tailer (\<lambda>_. Some (dec 1)) small_config sample_resource (source_defaults sample_source) (quiet_fs []) (fresh_world sample_logs_env no_log_counters q)) t"
proof -
  let ?m = "\<lambda>_ :: log_request. Some (dec 1)"
  let ?t0 = "file_tailer ?m small_config sample_resource (source_defaults sample_source) (quiet_fs []) (fresh_world sample_logs_env no_log_counters q)"
  let ?l = "NewLogs small_config no_source_counters no_log_counters"
  have r: "StateDirectory (LogsRuntime small_config) = ''/var/lib/observe-agent/logs''" "Sources (LogsRuntime small_config) = [source_defaults sample_source]"
    "jd_Enabled (Journald (LogsRuntime small_config)) = False"
    by (simp_all add: LogsRuntime_def small_config_def sample_config_def or_int_def or_string_def Let_def)
  obtain e t where st: "Tailer.Start (\<lambda>_. Some (\<lambda>_. False)) (le_root sample_logs_env ''app'') (le_dir sample_logs_env ''app'')
      (Join ''/var/lib/observe-agent/logs'' ''checkpoints'') (le_order sample_logs_env) ?t0 = (e, t)" by fastforce
  have e: "e = None"
    using sample_start_app[of "\<lambda>_. Some (\<lambda>_. False)" "''app''" ?m small_config sample_resource "fresh_world sample_logs_env no_log_counters q"] st
    by (simp add: sample_logs_env_def)
  have id: "src_ID (source_defaults sample_source) = ''app''" by (simp add: source_defaults_def sample_source_def)
  have fs: "le_fs sample_logs_env i = quiet_fs []" for i by (simp add: sample_logs_env_def)
  have src: "start_source ?m (\<lambda>_. Some (\<lambda>_. False)) sample_logs_env (source_defaults sample_source)
      (?l\<lparr>lc_resource := sample_resource, lc_cancel := True\<rparr>, fresh_world sample_logs_env no_log_counters q) =
      (?l\<lparr>lc_resource := sample_resource, lc_cancel := True, lc_tailers := [t]\<rparr>, snd (tl_world t))"
    using st e by (simp add: start_source_def NewLogs_def r id fs)
  have on: "on (cfg_Policy small_config) Logs" by (simp add: small_config_def sample_config_def on_def)
  have qi: "ValidateQueueIdentity sample_parse small_config = None"
    using sample_config_identity by (simp add: ValidateQueueIdentity_def small_config_def split: if_splits)
  have sec: "le_secrets sample_logs_env c n = Inr ''ApiKey k''" for c n by (simp add: sample_logs_env_def)
  have who: "capability_identity small_config (le_detected sample_logs_env) (le_expected sample_logs_env) (le_machine sample_logs_env) = Inr sample_who"
    using sample_identity_resolved(1) by (simp add: sample_logs_env_def)
  have res: "Resource sample_who ''linux'' (le_arch sample_logs_env) (le_version sample_logs_env) [] = sample_resource"
    by (simp add: sample_logs_env_def sample_resource_def)
  have "StartLogs sample_parse ?m (\<lambda>_. Some (\<lambda>_. False)) sample_logs_env ?l =
       (None, ?l\<lparr>lc_resource := sample_resource, lc_cancel := True, lc_tailers := [t], lc_world := Some (snd (tl_world t))\<rparr>)"
    using assms src
    by (simp add: StartLogs_def NewLogs_def on small_config_valid qi who sec res r start_journal_def Let_def)
  then show ?thesis using that tames_Start[OF st] by blast
qed


theorem logs_capability_keeps_every_record_witness:
  "\<exists>l0 l w. StartLogs sample_parse (\<lambda>_. Some (dec 1)) (\<lambda>_. Some (\<lambda>_. False)) sample_logs_env (NewLogs small_config no_source_counters no_log_counters) = (None, l0)
     \<and> l = poll_source (sample_poll (''ab'' @ [NL])) 0 (the (lc_world l0)) l0 \<and> lc_world l = Some w \<and>
     (\<forall>t \<in> set (lc_tailers l). \<forall>r \<in> set (sent t).
       delivered_or_kept w (wd_worker w) (lw_queue (wd_worker w)) (tr_AdmissionID r)
         (file_encoded (\<lambda>_. Some (dec 1)) small_config (lc_resource l) (tl_source t) r))"
proof -
  let ?m = "\<lambda>_ :: log_request. Some (dec 1)" and ?l = "NewLogs small_config no_source_counters no_log_counters"
  have ll: "lc_cfg (?l\<lparr>lc_resource := sample_resource\<rparr>) = small_config" "lc_resource (?l\<lparr>lc_resource := sample_resource\<rparr>) = sample_resource"
    by (simp_all add: NewLogs_def)
  obtain q where q: "logs_spool sample_logs_env (?l\<lparr>lc_resource := sample_resource\<rparr>) = Inr q" "log_inv q" "numbered q" "lm_next (l_manifest q) = 2"
    "l_admissions q = [(sample_admission, lrec_name 1)]" "l_names q = [lrec_name 1]" "l_count q = 1" "l_maxItems q = 1"
    by (rule sample_spool[OF ll])
  have fits: "log_fits q" using q(4) by (simp add: log_fits_def)
  let ?t0 = "file_tailer ?m small_config sample_resource (source_defaults sample_source) (quiet_fs []) (fresh_world sample_logs_env no_log_counters q)"
  obtain t where t: "StartLogs sample_parse ?m (\<lambda>_. Some (\<lambda>_. False)) sample_logs_env ?l =
       (None, ?l\<lparr>lc_resource := sample_resource, lc_cancel := True, lc_tailers := [t], lc_world := Some (snd (tl_world t))\<rparr>)"
    "tames (still_world q) ?t0 t"
    by (rule sample_start[OF q(1)])
  define l0 where "l0 = ?l\<lparr>lc_resource := sample_resource, lc_cancel := True, lc_tailers := [t], lc_world := Some (snd (tl_world t))\<rparr>"
  define l where "l = poll_source (sample_poll (''ab'' @ [NL])) 0 (the (lc_world l0)) l0"
  define t1 where "t1 = pollOnce (sample_poll (''ab'' @ [NL])) (t\<lparr>tl_world := (sent t, snd (tl_world t))\<rparr>)"
  have w: "lc_world l = Some (snd (tl_world t1))" by (simp add: l_def l0_def poll_source_def Let_def t1_def)
  have wired: "wired ?m small_config sample_resource (tl_source ?t0) ?t0" by (simp add: wired_def file_tailer_def NewTailer_def)
  have "still_world q (tl_world ?t0)" by (simp add: still_world_def file_tailer_def NewTailer_def fresh_world_def log_launch_def sample_logs_env_def)
  then have "tame (still_world q) ?t0" using still_world_tame[OF _ q(5,6) fits wired] q(7,8) by simp
  then have "tame (still_world q) t" using t(2) by (simp add: tames_def)
  then have "tame (still_world q) (t\<lparr>tl_world := (sent t, snd (tl_world t))\<rparr>)" by (simp add: tame_def sent_def)
  then have "tame (still_world q) t1" unfolding t1_def by (rule tame_pollOnce)
  then have over: "\<not> wd_overflow (snd (tl_world t1))" by (simp add: tame_def still_world_def)
  have life: "logs_life l0 l" unfolding l_def
    by (rule logs_life.life_more[OF logs_life.life_start], rule logs_life_step.life_poll) (simp_all add: l0_def)
  have "logs_spool sample_logs_env l0 = Inr q" using q(1) logs_spool_frame[of l0 "?l\<lparr>lc_resource := sample_resource\<rparr>"]
    by (simp add: l0_def NewLogs_def logs_spool_def)
  then have n: "\<forall>q. logs_spool sample_logs_env l0 = Inr q \<longrightarrow> numbered q" using q(3) by simp
  have calm: "calm (le_queue_fs sample_logs_env)" using restart_calm[OF sample_admission_valid] by (simp add: sample_logs_env_def)
  have "\<forall>ctx f k. (ctx, f) \<in> set (le_schedule sample_logs_env) \<longrightarrow> log_run PutAdmission Activate LogNext LogAck l_names l_admissions log_fits log_stored k (f k)"
    by (simp add: sample_logs_env_def)
  from logs_capability_keeps_every_record[OF t(1)[folded l0_def] calm n this life w over]
  show ?thesis using t(1)[folded l0_def] w l_def by blast
qed

end
