(* ===== verification/MetricsCapability.thy ===== *)
theory MetricsCapability
  imports MetricsSpool Identity Sender "HOL-Library.Sublist"
begin

text \<open>
  The metrics capability (\<^verbatim>\<open>src/internal/collectors/metrics.go\<close>, \<^verbatim>\<open>src/internal/selftelemetry/metrics.go\<close>): start, scrapes, stop
  and counters, around the workers of the theory Delivery.
\<close>

section \<open>Counters\<close>

text \<open>
  The counters that neither the workers nor the sender own. \<^verbatim>\<open>RetriedRecords\<close> and \<^verbatim>\<open>ExportFailures\<close> are counted by both, so that the value of
  the counter is the sum.
\<close>

record scrape_counters =
  mn_Scrapes :: u64
  mn_ReadErrors :: u64
  mn_OversizePoints :: u64
  mn_CorruptRecords :: u64

definition counters_map :: "scrape_counters \<Rightarrow> counters \<Rightarrow> send_stats \<Rightarrow> (bytes \<times> u64) list" where
  "counters_map n k st =
     [(''accepted_records'', AcceptedRecords k), (''queued_records'', QueuedRecords k), (''retried_records'', RetriedRecords k + st_RetriedRecords st),
      (''delivered_records'', DeliveredRecords k), (''corrupt_records'', mn_CorruptRecords n), (''delivery_paused'', DeliveryPaused k),
      (''scrapes'', mn_Scrapes n), (''read_errors'', mn_ReadErrors n), (''queue_rejected'', QueueRejected k),
      (''batches_accepted'', st_BatchesAccepted st), (''points_rejected'', st_PointsRejected st),
      (''export_failures'', ExportFailures k + st_ExportFailures st), (''retries'', st_Retries st), (''throttles'', st_Throttles st),
      (''auth_failures'', st_AuthFailures st), (''dropped_batches'', DroppedBatches k), (''oversize_points'', mn_OversizePoints n)]"

section \<open>One scrape\<close>

text \<open>One point for each distinct issue.\<close>

fun issue_points :: "bytes list \<Rightarrow> (bytes \<times> bytes) list \<Rightarrow> measurement list" where
  "issue_points seen [] = []"
| "issue_points seen ((capability, code) # rest) =
     (let key = capability @ '':'' @ code in
      if key \<in> set seen then issue_points seen rest
      else \<lparr>ms_Name = ''host.agent.collection.issue'', ms_Unit = ''1'', ms_Kind = ''gauge'', ms_Value = Finite 1,
             ms_Attributes = [(''collector'', capability), (''reason'', code)]\<rparr> # issue_points (key # seen) rest)"

definition self_point :: "bytes \<times> u64 \<Rightarrow> measurement" where
  "self_point = (\<lambda>(name, value). \<lparr>ms_Name = ''host.agent.'' @ name, ms_Unit = ''{events}'', ms_Kind = ''gauge'', ms_Value = Finite (round64 (of_nat (unat value))),
     ms_Attributes = []\<rparr>)"

text \<open>What a scrape sends for a sample; \<open>order\<close> is the order in which Go walks the map of counters.\<close>

definition scrape_values :: "((bytes \<times> u64) list \<Rightarrow> (bytes \<times> u64) list) \<Rightarrow> scrape_counters \<Rightarrow> counters \<Rightarrow> send_stats \<Rightarrow> snapshot \<Rightarrow> measurement list" where
  "scrape_values order n k st s = sn_Values s @ issue_points [] (sn_Issues s) @ map self_point (order (counters_map n k st))"

text \<open>
  The workers share the queue and the counters. A schedule says before each call of the scraper whether its context is done and what the
  delivery loop has done meanwhile. Once it is used up nothing else happens.
\<close>

type_synonym workers = "scrape_counters \<times> disk worker"
type_synonym schedule = "(error option \<times> (workers \<Rightarrow> workers)) list"

fun take_turn :: "schedule \<Rightarrow> error option \<times> (workers \<Rightarrow> workers) \<times> schedule" where
  "take_turn [] = (None, (\<lambda>w. w), [])"
| "take_turn ((ctx, others) # rest) = (ctx, others, rest)"

fun put_batches :: "schedule \<Rightarrow> bytes list \<Rightarrow> workers \<Rightarrow> workers" where
  "put_batches turns [] x = x"
| "put_batches turns (b # bs) x =
     (case take_turn turns of (ctx, others, rest) \<Rightarrow>
      case others x of (n, w) \<Rightarrow>
      case enqueue Put disk_stored ctx b w of (go, w') \<Rightarrow> if go then put_batches rest bs (n, w') else (n, w'))"

definition scrape ::
    "(resource_metrics \<Rightarrow> bytes option) \<Rightarrow> ((bytes \<times> u64) list \<Rightarrow> (bytes \<times> u64) list) \<Rightarrow> config \<Rightarrow> (bytes \<times> bytes) list \<Rightarrow> send_stats \<Rightarrow> error option
     \<Rightarrow> snapshot \<times> error option \<Rightarrow> schedule \<Rightarrow> workers \<Rightarrow> workers" where
  "scrape marshal order c attrs st ctx sample turns = (\<lambda>(n0, w0).
     if w_blocked w0 \<or> ctx \<noteq> None then (n0, w0)
     else case sample of (s, e) \<Rightarrow>
       case take_turn turns of (_, others, rest) \<Rightarrow>
       case others (n0\<lparr>mn_CorruptRecords := Corrupt (w_queue w0)\<rparr>, w0) of (n1, w) \<Rightarrow>
       let n = n1\<lparr>mn_Scrapes := mn_Scrapes n1 + 1, mn_ReadErrors := mn_ReadErrors n1 + of_nat (length (sn_Issues s))\<rparr>
       in if e \<noteq> None then (n\<lparr>mn_ReadErrors := mn_ReadErrors n + 1\<rparr>, w)
          else case Batches marshal (s\<lparr>sn_Values := scrape_values order n (w_stats w) st s\<rparr>) attrs
                 (BatchPoints (snd (snd (Runtime c)))) (RequestBytes (cfg_Limits c)) of
            Inl _ \<Rightarrow> (n\<lparr>mn_OversizePoints := mn_OversizePoints n + 1\<rparr>, w)
          | Inr batches \<Rightarrow> put_batches rest batches (n, w))"

section \<open>The capability\<close>

text \<open>\<open>mc_worker\<close> is the queue with the workers on it; \<open>mc_cancel\<close> says whether the capability was started, \<open>mc_finalized\<close> whether the queue has been closed.\<close>

record metrics_capability =
  mc_cfg :: config
  mc_stats :: scrape_counters
  mc_own :: counters
  mc_resource :: "(bytes \<times> bytes) list"
  mc_worker :: "disk worker option"
  mc_cancel :: bool
  mc_finalized :: bool

definition NewMetrics :: "config \<Rightarrow> scrape_counters \<Rightarrow> counters \<Rightarrow> metrics_capability" where
  "NewMetrics c stats own = \<lparr>mc_cfg = c, mc_stats = stats, mc_own = own, mc_resource = [], mc_worker = None, mc_cancel = False, mc_finalized = False\<rparr>"

record metrics_env =
  me_detected :: "evidence result"
  me_expected :: bool
  me_machine :: "bytes result"
  me_ctx :: "error option"
  me_ctx_late :: "error option"
  me_secrets :: "error option \<Rightarrow> bytes \<Rightarrow> bytes result"
  me_arch :: bytes
  me_version :: bytes
  me_spool :: spool_env
  me_fs :: fs

definition metrics_spool :: "metrics_env \<Rightarrow> metrics_capability \<Rightarrow> disk result" where
  "metrics_spool env m =
     (let c = mc_cfg m; d = snd (snd (Runtime c)) in
      fst (OpenScopedDisk (del_StateDirectory d) (me_spool env) (capability_scope c (mc_resource m))
        (if PreviousEndpoint (Exporter c) = [] then Endpoint (Exporter c) else PreviousEndpoint (Exporter c))
        (lim_QueueBytes (cfg_Limits c)) (del_QueueItems d) (me_fs env)))"

definition StartMetrics ::
    "(bytes \<Rightarrow> url option) \<Rightarrow> (bytes \<Rightarrow> bool) \<Rightarrow> metrics_env \<Rightarrow> metrics_capability \<Rightarrow> error option \<times> metrics_capability" where
  "StartMetrics parse compiles env m =
     (let c = mc_cfg m in
      if \<not> on (cfg_Policy c) Metrics then (Some (Failure ''metrics capability disabled''), m)
      else case ValidateConfig parse compiles c of Some e \<Rightarrow> (Some e, m) | None \<Rightarrow>
      (case ValidateQueueIdentity parse c of Some e \<Rightarrow> (Some e, m) | None \<Rightarrow>
      (case capability_identity c (me_detected env) (me_expected env) (me_machine env) of Inl e \<Rightarrow> (Some e, m) | Inr who \<Rightarrow>
      (case me_secrets env (me_ctx env) (header (Exporter c) ''Authorization'') of
         Inl e \<Rightarrow> (Some (Failure ''ingestion authorization unavailable''), m)
       | Inr _ \<Rightarrow>
          if me_ctx_late env \<noteq> None then (me_ctx_late env, m)
          else let m1 = m\<lparr>mc_resource := Resource who ''linux'' (me_arch env) (me_version env) []\<rparr> in
          (case metrics_spool env m1 of
             Inl e \<Rightarrow> (Some e, m1)
           | Inr q \<Rightarrow> (None, m1\<lparr>mc_stats := (mc_stats m1)\<lparr>mn_CorruptRecords := Corrupt q\<rparr>, mc_cancel := True,
                          mc_worker := Some ((launch q_names disk_content q)\<lparr>w_stats := mc_own m1\<rparr>)\<rparr>)))))) "

text \<open>\<open>finished\<close> says whether both workers ended before the deadline; the queue is closed once.\<close>

definition StopMetrics :: "bool \<Rightarrow> metrics_capability \<Rightarrow> error option \<times> metrics_capability" where
  "StopMetrics finished m =
     (if \<not> mc_cancel m then (None, m)
      else if \<not> finished then (Some (Failure ''metric workers did not stop before deadline''), m)
      else if mc_finalized m then (None, m)
      else (None, m\<lparr>mc_finalized := True,
              mc_worker := (case mc_worker m of None \<Rightarrow> None | Some w \<Rightarrow> Some (w\<lparr>w_queue := snd (CloseDisk (w_queue w))\<rparr>))\<rparr>))"

section \<open>The life of the capability\<close>

text \<open>The delivery loop, which reports the corrupt records after each item it gets.\<close>

definition fetch_record :: "error option \<Rightarrow> workers \<Rightarrow> workers" where
  "fetch_record ctx = (\<lambda>(n, w). let w' = deliver_next Next q_names ctx w in
     (case w_phase w' of Sending _ _ \<Rightarrow> n\<lparr>mn_CorruptRecords := Corrupt (w_queue w')\<rparr> | _ \<Rightarrow> n, w'))"

inductive delivery_run :: "workers \<Rightarrow> workers \<Rightarrow> bool" where
  dr_start: "delivery_run x x"
| dr_next: "delivery_run x y \<Longrightarrow> w_phase (snd y) = Fetching \<Longrightarrow> delivery_run x (fetch_record ctx y)"
| dr_outcome: "delivery_run x (n, w) \<Longrightarrow> w_phase w = Sending rid d \<Longrightarrow> delivery_run x (n, deliver_outcome out w)"
| dr_ack: "delivery_run x (n, w) \<Longrightarrow> w_phase w = Acking rid d \<Longrightarrow> delivery_run x (n, deliver_ack Ack ctx w)"
| dr_cancel: "delivery_run x (n, w) \<Longrightarrow> w_phase w = Fetching \<Longrightarrow> delivery_run x (n, w\<lparr>w_phase := Stopped\<rparr>)"

definition only_delivers :: "schedule \<Rightarrow> bool" where
  "only_delivers turns \<longleftrightarrow> (\<forall>ctx f x. (ctx, f) \<in> set turns \<longrightarrow> delivery_run x (f x))"

definition with_workers :: "metrics_capability \<Rightarrow> workers \<Rightarrow> metrics_capability" where
  "with_workers m x = m\<lparr>mc_stats := fst x, mc_worker := Some (snd x)\<rparr>"

inductive metrics_step :: "(resource_metrics \<Rightarrow> bytes option) \<Rightarrow> metrics_capability \<Rightarrow> metrics_capability \<Rightarrow> bool" for marshal where
  ms_scrape: "mc_worker m = Some w \<Longrightarrow> \<not> mc_finalized m \<Longrightarrow> only_delivers turns \<Longrightarrow>
     metrics_step marshal m (with_workers m (scrape marshal order (mc_cfg m) (mc_resource m) st ctx sample turns (mc_stats m, w)))"
| ms_deliver: "mc_worker m = Some w \<Longrightarrow> \<not> mc_finalized m \<Longrightarrow> delivery_run (mc_stats m, w) x \<Longrightarrow> metrics_step marshal m (with_workers m x)"
| ms_stop: "metrics_step marshal m (snd (StopMetrics finished m))"

inductive metrics_life :: "(resource_metrics \<Rightarrow> bytes option) \<Rightarrow> metrics_capability \<Rightarrow> metrics_capability \<Rightarrow> bool" for marshal where
  ml_start: "metrics_life marshal m m"
| ml_more: "metrics_life marshal m m' \<Longrightarrow> metrics_step marshal m' m'' \<Longrightarrow> metrics_life marshal m m''"

section \<open>Every batch is accounted for\<close>

text \<open>The counters of the workers agree with what happened, since they were at \<open>own\<close> with \<open>backlog\<close> records in the queue.\<close>

definition delivered_count :: "disk worker \<Rightarrow> nat" where
  "delivered_count w = length (filter (\<lambda>(n, v). v \<noteq> None) (w_left w))"

definition tallied :: "counters \<Rightarrow> nat \<Rightarrow> disk worker \<Rightarrow> bool" where
  "tallied own backlog w \<longleftrightarrow>
     backlog \<le> length (w_entered w) \<and>
     QueuedRecords (w_stats w) = QueuedRecords own + of_nat (length (w_entered w) - backlog) \<and>
     AcceptedRecords (w_stats w) - AcceptedRecords own = (QueuedRecords (w_stats w) - QueuedRecords own) + (QueueRejected (w_stats w) - QueueRejected own) \<and>
     DroppedBatches (w_stats w) - DroppedBatches own = QueueRejected (w_stats w) - QueueRejected own \<and>
     DeliveredRecords (w_stats w) = DeliveredRecords own + of_nat (delivered_count w)"

lemma tallied_enqueue: "tallied own b w \<Longrightarrow> tallied own b (snd (enqueue Put disk_stored ctx batch w))"
  by (auto simp: tallied_def enqueue_def delivered_count_def Let_def Suc_diff_le split: prod.splits sum.splits)

lemma tallied_outcome: "tallied own b w \<Longrightarrow> tallied own b (deliver_outcome out w)"
  by (auto simp: tallied_def deliver_outcome_def delivered_count_def split: phase.splits outcome.splits)

lemma tallied_next: "tallied own b w \<Longrightarrow> tallied own b (deliver_next Next q_names ctx w)"
  by (auto simp: tallied_def deliver_next_def delivered_count_def Let_def split: prod.splits sum.splits next_item.splits)

lemma tallied_ack: "tallied own b w \<Longrightarrow> tallied own b (deliver_ack Ack ctx w)"
  by (auto simp: tallied_def deliver_ack_def delivered_count_def split: phase.splits prod.splits sum.splits)

text \<open>What holds of the workers at every moment of the capability's life.\<close>

definition workers_ok :: "counters \<Rightarrow> nat \<Rightarrow> disk worker \<Rightarrow> bool" where
  "workers_ok own b w \<longleftrightarrow> dq.winv w \<and> tallied own b w"

lemma workers_ok_put: "workers_ok own b w \<Longrightarrow> workers_ok own b (snd (enqueue Put disk_stored ctx batch w))"
  using dq.winv_enqueue tallied_enqueue by (simp add: workers_ok_def)

lemma fetch_record_worker [simp]: "snd (fetch_record ctx y) = deliver_next Next q_names ctx (snd y)"
  by (simp add: fetch_record_def Let_def split: prod.splits)

lemma workers_ok_delivery: "delivery_run x y \<Longrightarrow> workers_ok own b (snd x) \<Longrightarrow> workers_ok own b (snd y)"
proof (induction rule: delivery_run.induct)
  case (dr_next x y ctx)
  then show ?case using dq.winv_next tallied_next by (simp add: workers_ok_def)
next
  case (dr_outcome x n w rid d out)
  then show ?case using dq.winv_outcome tallied_outcome by (simp add: workers_ok_def)
next
  case (dr_ack x n w rid d ctx)
  then show ?case using dq.winv_ack tallied_ack by (simp add: workers_ok_def)
next
  case (dr_cancel x n w)
  then show ?case using dq.winv_step[OF step_cancel, of w] by (simp add: workers_ok_def tallied_def delivered_count_def)
qed simp

lemma only_delivers_turn:
  assumes "only_delivers turns" "take_turn turns = (ctx, f, rest)" shows "delivery_run x (f x)" "only_delivers rest"
proof -
  show "delivery_run x (f x)"
  proof (cases turns)
    case Nil
    then show ?thesis using assms(2) by (auto intro: dr_start)
  next
    case (Cons t ts)
    then show ?thesis using assms unfolding only_delivers_def by (cases t; cases x) auto
  qed
  show "only_delivers rest" using assms by (cases turns) (auto simp: only_delivers_def)
qed

lemma workers_ok_puts: "only_delivers turns \<Longrightarrow> workers_ok own b (snd x) \<Longrightarrow> workers_ok own b (snd (put_batches turns bs x))"
proof (induction turns bs x rule: put_batches.induct)
  case (2 turns batch bs x)
  obtain ctx f rest where t: "take_turn turns = (ctx, f, rest)" by (metis prod_cases3)
  obtain n w where f: "f x = (n, w)" by fastforce
  obtain go w' where e: "enqueue Put disk_stored ctx batch w = (go, w')" by fastforce
  have "workers_ok own b w" using workers_ok_delivery[OF only_delivers_turn(1)[OF 2(2) t, of x]] 2(3) f by simp
  then have "workers_ok own b w'" using workers_ok_put[of own b w ctx batch] e by simp
  then show ?case using 2(1)[OF t[symmetric] refl f[symmetric] e[symmetric]] only_delivers_turn(2)[OF 2(2) t] t f e by auto
qed simp


lemma workers_ok_scrape:
  assumes "only_delivers turns" "workers_ok own b (snd x)" shows "workers_ok own b (snd (scrape marshal order c attrs st ctx sample turns x))"
proof -
  obtain n0 w0 where x: "x = (n0, w0)" by fastforce
  obtain s e where sm: "sample = (s, e)" by fastforce
  obtain ctx' f rest where t: "take_turn turns = (ctx', f, rest)" by (metis prod_cases3)
  obtain n1 w where f: "f (n0\<lparr>mn_CorruptRecords := Corrupt (w_queue w0)\<rparr>, w0) = (n1, w)" by fastforce
  note d = only_delivers_turn[OF assms(1) t]
  have "workers_ok own b w" using workers_ok_delivery[OF d(1)[of "(n0\<lparr>mn_CorruptRecords := Corrupt (w_queue w0)\<rparr>, w0)"], of own b] assms(2) x f by simp
  then show ?thesis
    using assms(2) x sm t f workers_ok_puts[OF d(2), of own b "(_, w)"]
    by (auto simp: scrape_def Let_def split: sum.splits)
qed

text \<open>Closing the queue changes nothing of this.\<close>

lemma CloseDisk_content: "CloseDisk q = (r, q') \<Longrightarrow> disk_content q' n = disk_content q n"
  by (auto simp: CloseDisk_def disk_content_def Let_def on_fs_def close_file_def syscall_def spend_def live_def unlock_def
      split: prod.splits if_splits fate.splits list.splits)

lemma workers_ok_close: "workers_ok own b w \<Longrightarrow> workers_ok own b (w\<lparr>w_queue := snd (CloseDisk (w_queue w))\<rparr>)"
proof -
  assume ok: "workers_ok own b w"
  obtain r q where c: "CloseDisk (w_queue w) = (r, q)" by fastforce
  have inv: "open_inv (w_queue w)" using ok by (simp add: workers_ok_def dq.winv_def)
  note e = CloseDisk_effect[OF inv c] and k = CloseDisk_content[OF c]
  have "dq.winv (w\<lparr>w_queue := q\<rparr>)"
    using ok e k by (auto simp: workers_ok_def dq.winv_def accounted_def dq.phase_ok_def split: phase.splits)
  then show ?thesis using ok c by (simp add: workers_ok_def tallied_def delivered_count_def)
qed

definition capability_tallied :: "counters \<Rightarrow> nat \<Rightarrow> metrics_capability \<Rightarrow> bool" where
  "capability_tallied own b m \<longleftrightarrow> (\<exists>w. mc_worker m = Some w \<and> workers_ok own b w)"

lemma metrics_step_tallied: "metrics_step marshal m m' \<Longrightarrow> capability_tallied own b m \<Longrightarrow> capability_tallied own b m'"
proof (induction rule: metrics_step.induct)
  case (ms_scrape m w turns order st ctx sample)
  then show ?case using workers_ok_scrape[of turns own b "(mc_stats m, w)"] by (simp add: capability_tallied_def with_workers_def)
next
  case (ms_deliver m w x)
  then show ?case using workers_ok_delivery[OF ms_deliver(3)] by (simp add: capability_tallied_def with_workers_def)
next
  case (ms_stop m finished)
  then show ?case using workers_ok_close by (auto simp: capability_tallied_def StopMetrics_def split: option.splits)
qed

lemma metrics_life_tallied: "metrics_life marshal m m' \<Longrightarrow> capability_tallied own b m \<Longrightarrow> capability_tallied own b m'"
  by (induction rule: metrics_life.induct) (auto dest: metrics_step_tallied)

text \<open>A successful start.\<close>

lemma StartMetrics_cases:
  assumes "StartMetrics parse compiles env m = (None, m')"
  obtains who q where "capability_identity (mc_cfg m) (me_detected env) (me_expected env) (me_machine env) = Inr who"
    "ValidateConfig parse compiles (mc_cfg m) = None" "ValidateQueueIdentity parse (mc_cfg m) = None"
    "metrics_spool env m' = Inr q" "mc_worker m' = Some ((launch q_names disk_content q)\<lparr>w_stats := mc_own m\<rparr>)"
    "mc_cfg m' = mc_cfg m" "mc_own m' = mc_own m" "mc_cancel m'" "mc_finalized m' = mc_finalized m"
    "mc_resource m' = Resource who ''linux'' (me_arch env) (me_version env) []"
  using assms by (auto simp: StartMetrics_def Let_def metrics_spool_def split: if_splits option.splits sum.splits)

lemma metrics_spool_inv:
  assumes "metrics_spool env m = Inr q" "OpenFacts.settled (me_fs env)"
  shows "open_inv q" "set (q_names q) = {n. \<exists>f. good (me_fs env) n f}"
proof -
  obtain dir sc ep mb mi s' where "OpenScopedDisk dir (me_spool env) sc ep mb mi (me_fs env) = (Inr q, s')"
    using assms(1) unfolding metrics_spool_def Let_def by (metis prod.collapse)
  then obtain up h where "openDisk dir (me_spool env) h mb mi (Some up) (me_fs env) = (Inr q, s')"
    by (auto simp: OpenScopedDisk_def split: sum.splits)
  from opening_establishes[OF this assms(2)] show "open_inv q" "set (q_names q) = {n. \<exists>f. good (me_fs env) n f}" by auto
qed

lemma workers_ok_launch: "open_inv q \<Longrightarrow> workers_ok own (length (q_names q)) ((launch q_names disk_content q)\<lparr>w_stats := own\<rparr>)"
proof -
  assume "open_inv q"
  then have "dq.winv (launch q_names disk_content q)" by (rule dq.winv_launch)
  then have "dq.winv ((launch q_names disk_content q)\<lparr>w_stats := own\<rparr>)"
    by (rule dq.winv_same_queue) (simp_all add: launch_def dq.phase_ok_def)
  then show ?thesis by (simp add: workers_ok_def tallied_def launch_def delivered_count_def)
qed

text \<open>
  C3: The metrics capability accounts for every batch. After a successful start and through any sequence of scrapes, deliveries and stops, interleaved in any way
  and with any faults: what entered the spool is what has left it followed by what is in it, nothing that could be read leaves it unless the backend has
  accepted its stored payload, and the counters say so. The batches accepted from scrapes are those queued and those refused, each refusal is a dropped batch, the queued
  ones are those that entered since the start, and the delivered ones those that left with a payload.
\<close>

theorem metrics_capability_accounts_for_every_batch:
  assumes "StartMetrics parse compiles env (NewMetrics c stats own) = (None, m0)" "OpenFacts.settled (me_fs env)"
    and "metrics_life marshal m0 m"
  shows "\<exists>q w. metrics_spool env m0 = Inr q \<and> mc_worker m = Some w \<and> accounted q_names disk_content w \<and> tallied own (length (q_names q)) w"
proof -
  from StartMetrics_cases[OF assms(1)] obtain q where q: "metrics_spool env m0 = Inr q"
    "mc_worker m0 = Some ((launch q_names disk_content q)\<lparr>w_stats := own\<rparr>)" by (metis NewMetrics_def metrics_capability.select_convs(3))
  have "capability_tallied own (length (q_names q)) m0"
    using workers_ok_launch[OF metrics_spool_inv(1)[OF q(1) assms(2)]] q(2) by (simp add: capability_tallied_def)
  from metrics_life_tallied[OF assms(3) this] obtain w where "mc_worker m = Some w" "workers_ok own (length (q_names q)) w"
    by (auto simp: capability_tallied_def)
  then show ?thesis using q(1) by (auto simp: workers_ok_def dq.winv_def)
qed


section \<open>Every point of a sample enters the spool or is counted\<close>

lemma delivery_frame:
  "delivery_run x y \<Longrightarrow> w_entered (snd y) = w_entered (snd x) \<and> AcceptedRecords (w_stats (snd y)) = AcceptedRecords (w_stats (snd x)) \<and>
     QueuedRecords (w_stats (snd y)) = QueuedRecords (w_stats (snd x)) \<and> QueueRejected (w_stats (snd y)) = QueueRejected (w_stats (snd x)) \<and>
     (w_blocked (snd x) \<longrightarrow> w_blocked (snd y))"
proof (induction rule: delivery_run.induct)
  case (dr_next x y ctx)
  then show ?case by (auto simp: deliver_next_def Let_def split: prod.splits sum.splits next_item.splits)
next
  case (dr_outcome x n w rid d out)
  then show ?case by (auto simp: deliver_outcome_def split: phase.splits outcome.splits)
next
  case (dr_ack x n w rid d ctx)
  then show ?case by (auto simp: deliver_ack_def split: phase.splits prod.splits sum.splits)
qed simp_all

text \<open>The effect of putting \<open>done\<close> batches of which the queue took \<open>kept\<close>.\<close>

definition puts_effect :: "bytes list \<Rightarrow> bytes list \<Rightarrow> disk worker \<Rightarrow> disk worker \<Rightarrow> bool" where
  "puts_effect tried kept w w' \<longleftrightarrow> subseq kept tried \<and>
     (\<exists>entries. w_entered w' = w_entered w @ entries \<and> map snd entries = map disk_stored kept) \<and>
     AcceptedRecords (w_stats w') = AcceptedRecords (w_stats w) + of_nat (length tried) \<and>
     QueuedRecords (w_stats w') = QueuedRecords (w_stats w) + of_nat (length kept) \<and>
     QueueRejected (w_stats w') = QueueRejected (w_stats w) + of_nat (length tried - length kept)"

lemma enqueue_effect:
  assumes "enqueue Put disk_stored ctx b w = (go, w')"
  obtains kept where "puts_effect [b] kept w w'" "go \<or> w_blocked w'" "w_blocked w \<longrightarrow> w_blocked w'"
proof (cases "Put ctx b (w_queue w)")
  case (Pair r q')
  show ?thesis
  proof (cases r)
    case (Inl e)
    then show ?thesis using assms Pair that[of "[]"] by (auto simp: enqueue_def puts_effect_def Let_def split: if_splits)
  next
    case (Inr rid)
    then show ?thesis using assms Pair that[of "[b]"] by (auto simp: enqueue_def puts_effect_def Let_def)
  qed
qed

lemma puts_effect_append:
  assumes "puts_effect [b] k1 w w1" "puts_effect bs k2 w1 w2" shows "puts_effect (b # bs) (k1 @ k2) w w2"
proof -
  have s: "subseq k1 [b]" "subseq k2 bs" using assms by (simp_all add: puts_effect_def)
  then have "subseq (k1 @ k2) (b # bs)" using list_emb_append_mono[OF s] by simp
  moreover have l: "length k1 \<le> 1" "length k2 \<le> length bs" using s[THEN list_emb_length] by simp_all
  have "Suc (length bs) - (length k1 + length k2) = (1 - length k1) + (length bs - length k2)" using l by simp
  then have "of_nat (Suc (length bs) - (length k1 + length k2)) = (of_nat (1 - length k1) + of_nat (length bs - length k2) :: u64)" by simp
  moreover obtain e1 e2 where "w_entered w2 = w_entered w @ e1 @ e2" "map snd (e1 @ e2) = map disk_stored (k1 @ k2)"
    using assms by (auto simp: puts_effect_def)
  ultimately show ?thesis using assms by (auto simp: puts_effect_def algebra_simps)
qed

lemma put_batches_effect:
  "only_delivers turns \<Longrightarrow> \<exists>tried kept. prefix tried bs \<and> puts_effect tried kept (snd x) (snd (put_batches turns bs x)) \<and>
     (tried = bs \<or> w_blocked (snd (put_batches turns bs x)))"
proof (induction turns bs x rule: put_batches.induct)
  case (1 turns x)
  show ?case by (auto simp: puts_effect_def)
next
  case (2 turns batch bs x)
  obtain ctx f rest where t: "take_turn turns = (ctx, f, rest)" by (metis prod_cases3)
  obtain n w where f: "f x = (n, w)" by fastforce
  obtain go w' where e: "enqueue Put disk_stored ctx batch w = (go, w')" by fastforce
  note fr = delivery_frame[OF only_delivers_turn(1)[OF 2(2) t, of x], unfolded f snd_conv]
  obtain k1 where k1: "puts_effect [batch] k1 w w'" "go \<or> w_blocked w'" by (rule enqueue_effect[OF e])
  have k1': "puts_effect [batch] k1 (snd x) w'" using k1(1) fr by (simp add: puts_effect_def)
  show ?case
  proof (cases go)
    case False
    then have "put_batches turns (batch # bs) x = (n, w')" using t f e by simp
    moreover have "w_blocked w'" using k1(2) False by simp
    ultimately show ?thesis using k1' by (intro exI[of _ "[batch]"] exI[of _ k1]) simp
  next
    case True
    then have p: "put_batches turns (batch # bs) x = put_batches rest bs (n, w')" using t f e by simp
    from 2(1)[OF t[symmetric] refl f[symmetric] e[symmetric] True only_delivers_turn(2)[OF 2(2) t]]
    obtain tried kept where tk: "prefix tried bs" "puts_effect tried kept w' (snd (put_batches rest bs (n, w')))"
      "tried = bs \<or> w_blocked (snd (put_batches rest bs (n, w')))" by auto
    show ?thesis unfolding p using puts_effect_append[OF k1' tk(2)] tk
      by (intro exI[of _ "batch # tried"] exI[of _ "k1 @ kept"]) auto
  qed
qed


lemma delivery_counters:
  "delivery_run x y \<Longrightarrow> mn_Scrapes (fst y) = mn_Scrapes (fst x) \<and> mn_OversizePoints (fst y) = mn_OversizePoints (fst x)"
  by (induction rule: delivery_run.induct) (auto simp: fetch_record_def Let_def split: prod.splits phase.splits)

lemma put_batches_counters:
  "only_delivers turns \<Longrightarrow> mn_Scrapes (fst (put_batches turns bs x)) = mn_Scrapes (fst x) \<and> mn_OversizePoints (fst (put_batches turns bs x)) = mn_OversizePoints (fst x)"
proof (induction turns bs x rule: put_batches.induct)
  case (2 turns batch bs x)
  obtain ctx f rest where t: "take_turn turns = (ctx, f, rest)" by (metis prod_cases3)
  obtain n w where f: "f x = (n, w)" by fastforce
  obtain go w' where e: "enqueue Put disk_stored ctx batch w = (go, w')" by fastforce
  note fr = delivery_counters[OF only_delivers_turn(1)[OF 2(2) t, of x], unfolded f fst_conv]
  show ?case using 2(1)[OF t[symmetric] refl f[symmetric] e[symmetric] _ only_delivers_turn(2)[OF 2(2) t]] fr t f e by auto
qed simp

text \<open>
  C4: A scrape stores every point or counts what it could not store. When the capability is not blocked and the sample succeeds, what is to be sent is the sample with one
  point for each distinct issue and one for each counter. Either it could not be encoded, because the encoder fails or a single point is too large, which is counted and stores
  nothing; or consecutive parts that make up all of it, each within the configured bounds, are offered to the spool in order, until the last or until the workers are blocked. The
  batches the spool took are there with their stored form, in order, whatever the delivery loop does meanwhile; every other one is counted as rejected.
\<close>

theorem scrape_stores_every_point:
  assumes "scrape marshal order c attrs st None (s, None) turns (n0, w0) = (n, w)"
    and "only_delivers turns" "\<not> w_blocked w0" "ValidateConfig parse compiles c = None"
  shows "mn_Scrapes n = mn_Scrapes n0 + 1 \<and>
     (\<exists>n1 k vs. vs = scrape_values order n1 k st s \<and>
       ((mn_OversizePoints n = mn_OversizePoints n0 + 1 \<and> w_entered w = w_entered w0 \<and>
         ((\<exists>p. set p \<subseteq> set vs \<and> encode_part marshal s attrs p = None) \<or>
          (\<exists>x \<in> set vs. \<forall>raw. encode_part marshal s attrs [x] = Some raw \<longrightarrow> nat (RequestBytes (cfg_Limits c)) < length raw))) \<or>
        (\<exists>parts out tried kept. concat parts = vs \<and>
           parts_of (encode_part marshal s attrs) (nat (RequestBytes (cfg_Limits c))) (nat (BatchPoints (snd (snd (Runtime c))))) parts out \<and>
           prefix tried out \<and> puts_effect tried kept w0 w \<and> (tried = out \<or> w_blocked w))))"
proof -
  obtain ctx f rest where t: "take_turn turns = (ctx, f, rest)" by (metis prod_cases3)
  define x0 where "x0 = (n0\<lparr>mn_CorruptRecords := Corrupt (w_queue w0)\<rparr>, w0)"
  obtain n1 w1 where f: "f x0 = (n1, w1)" by fastforce
  note d = only_delivers_turn[OF assms(2) t]
  have fr: "w_entered w1 = w_entered w0" "AcceptedRecords (w_stats w1) = AcceptedRecords (w_stats w0)"
    "QueuedRecords (w_stats w1) = QueuedRecords (w_stats w0)" "QueueRejected (w_stats w1) = QueueRejected (w_stats w0)"
    "mn_Scrapes n1 = mn_Scrapes n0" "mn_OversizePoints n1 = mn_OversizePoints n0"
    using delivery_frame[OF d(1)[of x0]] delivery_counters[OF d(1)[of x0]] f by (simp_all add: x0_def)
  define n2 where "n2 = n1\<lparr>mn_Scrapes := mn_Scrapes n1 + 1, mn_ReadErrors := mn_ReadErrors n1 + of_nat (length (sn_Issues s))\<rparr>"
  define vs where "vs = scrape_values order n2 (w_stats w1) st s"
  define r where "r = Batches marshal (s\<lparr>sn_Values := vs\<rparr>) attrs (BatchPoints (snd (snd (Runtime c)))) (RequestBytes (cfg_Limits c))"
  have res: "(n, w) = (case r of Inl _ \<Rightarrow> (n2\<lparr>mn_OversizePoints := mn_OversizePoints n2 + 1\<rparr>, w1) | Inr batches \<Rightarrow> put_batches rest batches (n2, w1))"
    using assms(1,3) t f by (simp add: scrape_def Let_def x0_def r_def vs_def n2_def cong: sum.case_cong)
  obtain a b del where rt: "Runtime c = (a, b, del)" by (metis prod_cases3)
  have lim: "1 \<le> BatchPoints del" "BatchPoints del \<le> 1000" "1024 \<le> RequestBytes (cfg_Limits c)"
    using valid_runtime[OF valid_config(1)[OF assms(4)] rt] valid_config[OF assms(4)] by auto
  have enc: "encode_part marshal (s\<lparr>sn_Values := vs\<rparr>) attrs = encode_part marshal s attrs" by (simp add: encode_part_def fun_eq_iff)
  have r': "r = encode_chunks (encode_part marshal s attrs) (nat (RequestBytes (cfg_Limits c))) (nat (BatchPoints del)) vs"
    using lim by (simp add: r_def Batches_def rt enc)
  show ?thesis
  proof (cases r)
    case (Inl e)
    then have nw: "n = n2\<lparr>mn_OversizePoints := mn_OversizePoints n2 + 1\<rparr>" "w = w1" using res by simp_all
    have "\<not> ((\<forall>p. set p \<subseteq> set vs \<longrightarrow> encode_part marshal s attrs p \<noteq> None) \<and>
       (\<forall>x \<in> set vs. \<exists>raw. encode_part marshal s attrs [x] = Some raw \<and> length raw \<le> nat (RequestBytes (cfg_Limits c))))"
    proof
      assume a: "(\<forall>p. set p \<subseteq> set vs \<longrightarrow> encode_part marshal s attrs p \<noteq> None) \<and>
        (\<forall>x \<in> set vs. \<exists>raw. encode_part marshal s attrs [x] = Some raw \<and> length raw \<le> nat (RequestBytes (cfg_Limits c)))"
      have "0 < nat (BatchPoints del)" using lim by simp
      from encode_chunks_total[OF conjunct1[OF a] conjunct2[OF a] this] show False using Inl r' by simp
    qed
    then have "(\<exists>p. set p \<subseteq> set vs \<and> encode_part marshal s attrs p = None) \<or>
          (\<exists>x \<in> set vs. \<forall>raw. encode_part marshal s attrs [x] = Some raw \<longrightarrow> nat (RequestBytes (cfg_Limits c)) < length raw)"
      by (meson not_le)
    moreover have "mn_OversizePoints n = mn_OversizePoints n0 + 1" "w_entered w = w_entered w0" "mn_Scrapes n = mn_Scrapes n0 + 1" using nw fr by (simp_all add: n2_def)
    ultimately show ?thesis unfolding vs_def by blast
  next
    case (Inr out)
    have "0 < nat (BatchPoints del)" using lim by simp
    from encode_chunks_parts[OF Inr[unfolded r'] this] obtain parts where parts: "concat parts = vs"
      "parts_of (encode_part marshal s attrs) (nat (RequestBytes (cfg_Limits c))) (nat (BatchPoints del)) parts out" by auto
    have nw: "(n, w) = put_batches rest out (n2, w1)" using res Inr by simp
    obtain tried kept where tk: "prefix tried out" "puts_effect tried kept w1 w" "tried = out \<or> w_blocked w"
      using put_batches_effect[OF d(2), of out "(n2, w1)"] nw by (metis snd_conv)
    have "puts_effect tried kept w0 w" using tk(2) fr by (simp add: puts_effect_def)
    moreover have "mn_Scrapes n = mn_Scrapes n0 + 1" using put_batches_counters[OF d(2), of out "(n2, w1)"] nw fr 
      by (simp add: n2_def prod_eq_iff)
    ultimately show ?thesis using parts tk(1,3) unfolding vs_def rt snd_conv by blast
  qed
qed

section \<open>A start on an empty spool\<close>

lemma fresh_open_scoped:
  "h \<noteq> [] \<Longrightarrow> \<exists>q s'. openDisk ''/var/lib/observe-agent/metrics'' sample_env h 67108864 64 (Some u) fresh_fs = (Inr q, s')"
  by (simp add: openDisk_def check_spool_def sample_env_def fresh_fs_def
      open_lock_def syscall_def fate_of_def spend_def live_def put_entry_def fresh_file_def ins_def flock_def
      list_spool_def andThen_def open_dir_def read_dir_def ret_def raise_def
      loadManifest_def check_pending_def attempt_def disk_read_def lstat_def read_manifest_def fresh_manifest_def
      disk_saveManifest_def disk_write_def create_excl_def fill_def write_all_def set_data_def fsync_def close_file_def
      rename_def syncDir_def fsync_dir_def remove_def scan_entry_def finish_open_def on_fs_def charge_def Let_def)


definition sample_metrics_env :: metrics_env where
  "sample_metrics_env = \<lparr>me_detected = Inl ErrUnavailable, me_expected = False, me_machine = Inr sample_host, me_ctx = None, me_ctx_late = None,
     me_secrets = (\<lambda>_ _. Inr ''ApiKey k''), me_arch = ''amd64'', me_version = ''1'', me_spool = sample_env, me_fs = fresh_fs\<rparr>"

definition no_scrape_counters :: scrape_counters where
  "no_scrape_counters = \<lparr>mn_Scrapes = 0, mn_ReadErrors = 0, mn_OversizePoints = 0, mn_CorruptRecords = 0\<rparr>"

lemma sample_metrics_start:
  obtains m0 where "StartMetrics sample_parse (\<lambda>_. True) sample_metrics_env (NewMetrics sample_config no_scrape_counters zero_counters) = (None, m0)"
proof -
  let ?m = "(NewMetrics sample_config no_scrape_counters zero_counters)\<lparr>mc_resource := sample_resource\<rparr>"
  have r: "del_StateDirectory (snd (snd (Runtime sample_config))) = ''/var/lib/observe-agent/metrics''"
    "del_QueueItems (snd (snd (Runtime sample_config))) = 64" "lim_QueueBytes (cfg_Limits sample_config) = 67108864"
    by (simp_all add: Runtime_def sample_config_def or_int_def or_string_def Let_def)
  obtain h where h: "Hash (capability_scope sample_config sample_resource) = Inr h" "h \<noteq> []"
    using sample_who_resolved(2) by (auto simp: Hash_eq simp flip: length_0_conv)
  obtain q where "metrics_spool sample_metrics_env ?m = Inr q"
    using fresh_open_scoped[OF h(2)] h(1) r
    by (auto simp: metrics_spool_def sample_metrics_env_def NewMetrics_def OpenScopedDisk_def Let_def) (metis fst_conv)
  moreover have "on (cfg_Policy sample_config) Metrics" by (simp add: sample_config_def on_def)
  ultimately show ?thesis
    using that sample_config_valid sample_config_identity sample_who_resolved(1)
    by (auto simp: StartMetrics_def NewMetrics_def sample_metrics_env_def sample_resource_def Let_def)
qed

theorem metrics_capability_accounts_for_every_batch_witness:
  "\<exists>m0 q w. StartMetrics sample_parse (\<lambda>_. True) sample_metrics_env (NewMetrics sample_config no_scrape_counters zero_counters) = (None, m0) \<and>
     metrics_spool sample_metrics_env m0 = Inr q \<and> mc_worker (snd (StopMetrics True m0)) = Some w \<and> accounted q_names disk_content w \<and> tallied zero_counters (length (q_names q)) w"
proof -
  obtain m0 where st: "StartMetrics sample_parse (\<lambda>_. True) sample_metrics_env (NewMetrics sample_config no_scrape_counters zero_counters) = (None, m0)"
    by (rule sample_metrics_start)
  have "OpenFacts.settled (me_fs sample_metrics_env)" using fresh_settled by (simp add: sample_metrics_env_def)
  from metrics_capability_accounts_for_every_batch[OF st this ml_more[OF ml_start ms_stop], where finished2 = True] st show ?thesis by auto
qed

theorem scrape_stores_every_point_witness:
  "\<forall>st. \<exists>vs parts out tried kept. concat parts = sn_Values sample_snapshot @ vs \<and> length vs = 17 \<and>
     parts_of (encode_part (\<lambda>_. Some ''1'') sample_snapshot []) 4194304 500 parts out \<and> prefix tried out \<and>
     puts_effect tried kept (launch q_names disk_content sample_disk)
       (snd (scrape (\<lambda>_. Some ''1'') (\<lambda>x. x) sample_config [] st None (sample_snapshot, None) [] (no_scrape_counters, launch q_names disk_content sample_disk)))"
proof
  fix st
  obtain n w where s: "scrape (\<lambda>_. Some ''1'') (\<lambda>x. x) sample_config [] st None (sample_snapshot, None) [] (no_scrape_counters, launch q_names disk_content sample_disk) = (n, w)"
    by fastforce
  have lim: "BatchPoints (snd (snd (Runtime sample_config))) = 500" "RequestBytes (cfg_Limits sample_config) = 4194304"
    by (simp_all add: Runtime_def sample_config_def or_int_def Let_def)
  have "only_delivers []" "\<not> w_blocked (launch q_names disk_content sample_disk)" by (simp_all add: only_delivers_def launch_def)
  from scrape_stores_every_point[OF s this sample_config_valid] obtain n1 k parts out tried kept where
    p: "concat parts = scrape_values (\<lambda>x. x) n1 k st sample_snapshot" "parts_of (encode_part (\<lambda>_. Some ''1'') sample_snapshot []) 4194304 500 parts out"
      "prefix tried out" "puts_effect tried kept (launch q_names disk_content sample_disk) w"
    unfolding lim by (fastforce simp: encode_part_def)
  have "scrape_values (\<lambda>x. x) n1 k st sample_snapshot = sn_Values sample_snapshot @ map self_point (counters_map n1 k st)"
    by (simp add: scrape_values_def sample_snapshot_def)
  moreover have "length (map self_point (counters_map n1 k st)) = 17" by (simp add: counters_map_def)
  ultimately show "\<exists>vs parts out tried kept. concat parts = sn_Values sample_snapshot @ vs \<and> length vs = 17 \<and>
     parts_of (encode_part (\<lambda>_. Some ''1'') sample_snapshot []) 4194304 500 parts out \<and> prefix tried out \<and>
     puts_effect tried kept (launch q_names disk_content sample_disk)
       (snd (scrape (\<lambda>_. Some ''1'') (\<lambda>x. x) sample_config [] st None (sample_snapshot, None) [] (no_scrape_counters, launch q_names disk_content sample_disk)))"
    using p s by (metis snd_conv)
qed

end
