(* ===== verification/HostMetrics.thy ===== *)
theory HostMetrics
  imports Pipeline Config
begin

text \<open>
  The samples of a Linux host (\<^verbatim>\<open>src/internal/platform/metrics_linux.go\<close>). The readings of the \<^verbatim>\<open>gopsutil\<close> library and the
  contents of \<^verbatim>\<open>/proc/stat\<close> are inputs. \<^verbatim>\<open>sort.Slice\<close> may put equal names in any order: the two sorting functions are inputs too.
\<close>

section \<open>Processor counters\<close>

text \<open>\<^verbatim>\<open>strings.Fields\<close> and \<^verbatim>\<open>strings.Split\<close> at a byte.\<close>

function fields_of :: "bytes \<Rightarrow> bytes \<Rightarrow> bytes list" where
  "fields_of word [] = (if word = [] then [] else [rev word])"
| "fields_of word (c # s) =
     (case find (HasPrefix (c # s)) space_runes of
        Some r \<Rightarrow> (if word = [] then [] else [rev word]) @ fields_of [] (drop (length r - 1) s)
      | None \<Rightarrow> fields_of (c # word) s)"
  by pat_completeness auto
termination
  by (relation "measure (\<lambda>(word, s). length s)") auto

definition Fields :: "bytes \<Rightarrow> bytes list" where
  "Fields s = fields_of [] s"

fun Split :: "char \<Rightarrow> bytes \<Rightarrow> bytes list" where
  "Split d [] = [[]]"
| "Split d (c # s) = (if c = d then [] # Split d s else (case Split d s of [] \<Rightarrow> [[c]] | p # ps \<Rightarrow> (c # p) # ps))"

text \<open>\<^verbatim>\<open>float64(n)\<close> for an unsigned number.\<close>

definition f64 :: "u64 \<Rightarrow> rat" where
  "f64 n = round64 (of_nat (unat n))"

definition parse_counters :: "bytes list \<Rightarrow> rat list option" where
  "parse_counters fs = those (map (\<lambda>f. map_option (\<lambda>n. round64 (f64 n / 100)) (ParseUint f)) (take 8 (tl fs)))"

fun scan_stat :: "bytes list \<Rightarrow> rat list \<times> int option \<Rightarrow> (rat list \<times> int option) option" where
  "scan_stat [] acc = Some acc"
| "scan_stat (line # rest) (vs, boot) =
     (let fs = Fields line in
      case (if 9 \<le> length fs \<and> hd fs = ''cpu'' then parse_counters fs else Some vs) of
        None \<Rightarrow> None
      | Some vs' \<Rightarrow>
          scan_stat rest (vs',
            if length fs = 2 \<and> hd fs = ''btime''
            then (case ParseInt (fs ! 1) of None \<Rightarrow> boot | Some n \<Rightarrow> if 0 < n then Some (n * 1000000000) else boot)
            else boot))"

text \<open>\<open>file\<close> is what can be read of the file, with whether reading ended without an error; \<open>None\<close> where it cannot be opened.\<close>

definition procCPU :: "(bytes \<times> bool) option \<Rightarrow> (rat list \<times> int option) option" where
  "procCPU file =
     (case file of None \<Rightarrow> None
      | Some (content, readable) \<Rightarrow>
          if \<not> readable \<or> 2097152 < length content then None
          else case scan_stat (Split (CHR 0x0A) content) ([], None) of
            None \<Rightarrow> None
          | Some (vs, boot) \<Rightarrow> if length vs \<noteq> 8 then None else Some (vs, boot))"

text \<open>The loop of \<^verbatim>\<open>CounterRatio\<close> over the counters with their indices; \<open>None\<close> where one has gone back.\<close>

fun ratio_loop :: "nat \<Rightarrow> (rat \<times> rat) list \<Rightarrow> rat \<times> rat \<Rightarrow> (rat \<times> rat) option" where
  "ratio_loop i [] acc = Some acc"
| "ratio_loop i ((p, c) # rest) (whole, idle) =
     (if c < p then None
      else let d = round64 (c - p) in
        ratio_loop (Suc i) rest (round64 (whole + d), if i = 3 \<or> i = 4 then round64 (idle + d) else idle))"

definition CounterRatio :: "rat list \<Rightarrow> rat list \<Rightarrow> int \<Rightarrow> rat option" where
  "CounterRatio previous current gap =
     (if length previous \<noteq> 8 \<or> length current \<noteq> 8 \<or> gap \<le> 0 \<or> 120000000000 < gap then None
      else case ratio_loop 0 (zip previous current) (0, 0) of
        None \<Rightarrow> None
      | Some (whole, idle) \<Rightarrow>
          if whole \<le> 0 then None else Some (round64 (round64 (100 * round64 (whole - idle)) / whole)))"

section \<open>Readings\<close>

record disk_counters =
  dk_ReadBytes :: u64
  dk_ReadCount :: u64
  dk_ReadTime :: u64
  dk_WriteBytes :: u64
  dk_WriteCount :: u64
  dk_WriteTime :: u64
  dk_IopsInProgress :: u64

record interface_counters =
  if_Name :: bytes
  if_BytesRecv :: u64
  if_PacketsRecv :: u64
  if_Errin :: u64
  if_Dropin :: u64
  if_BytesSent :: u64
  if_PacketsSent :: u64
  if_Errout :: u64
  if_Dropout :: u64

record mount =
  mnt_Device :: bytes
  mnt_Mountpoint :: bytes
  mnt_Fstype :: bytes

text \<open>
  What one sample reads: the state of its context, the wall and the monotonic clock, and the answer of each source, \<open>None\<close> where it fails. \<open>hr_ctxs\<close> are the states of
  the context before each file system is asked.
\<close>

record readings =
  hr_ctx :: "error option"
  hr_now :: int
  hr_clock :: int
  hr_stat :: "(bytes \<times> bool) option"
  hr_memory :: "(u64 \<times> u64) option"
  hr_load :: "(float64 \<times> float64 \<times> float64) option"
  hr_disks :: "(bytes \<times> disk_counters) list option"
  hr_interfaces :: "interface_counters list option"
  hr_sort_interfaces :: "interface_counters list \<Rightarrow> interface_counters list"
  hr_mounts :: "mount list option"
  hr_sort_mounts :: "mount list \<Rightarrow> mount list"
  hr_ctxs :: "error option list"
  hr_usage :: "bytes \<Rightarrow> (u64 \<times> u64) option"

record linux_metrics =
  lm_limits :: collection
  lm_previous :: "rat list"
  lm_last :: "int option"

definition NewHostMetrics :: "collection \<Rightarrow> linux_metrics" where
  "NewHostMetrics limits = \<lparr>lm_limits = limits, lm_previous = [], lm_last = None\<rparr>"

section \<open>Sampling\<close>

definition issue :: "bytes \<Rightarrow> snapshot \<Rightarrow> snapshot" where
  "issue c s = s\<lparr>sn_Issues := sn_Issues s @ [(c, ''unavailable_or_denied'')]\<rparr>"

definition add_point :: "int \<Rightarrow> measurement \<Rightarrow> snapshot \<Rightarrow> snapshot" where
  "add_point limit p s =
     (if limit \<le> int (length (sn_Values s)) then s
      else if ms_Kind p = ''sum'' \<and> sn_StartTime s = None then s
      else s\<lparr>sn_Values := sn_Values s @ [p]\<rparr>)"

definition point :: "bytes \<Rightarrow> bytes \<Rightarrow> bytes \<Rightarrow> rat \<Rightarrow> (bytes \<times> bytes) list \<Rightarrow> measurement" where
  "point name u kind v attrs = \<lparr>ms_Name = name, ms_Unit = u, ms_Kind = kind, ms_Value = Finite v, ms_Attributes = attrs\<rparr>"

definition add_points :: "int \<Rightarrow> measurement list \<Rightarrow> snapshot \<Rightarrow> snapshot" where
  "add_points limit ps s = fold (add_point limit) ps s"

definition cpu_states :: "bytes list" where
  "cpu_states = [''user'', ''nice'', ''system'', ''idle'', ''wait'', ''interrupt'', ''softirq'', ''steal'']"

definition maxGap :: int where
  "maxGap = 9223372036854775807"

definition sample_cpu :: "readings \<Rightarrow> linux_metrics \<Rightarrow> snapshot \<Rightarrow> snapshot \<times> linux_metrics" where
  "sample_cpu r m s =
     (case procCPU (hr_stat r) of
        None \<Rightarrow> (issue ''cpu'' s, m)
      | Some (cpu, boot) \<Rightarrow>
          let limit = MaxPoints (lm_limits m);
              s1 = s\<lparr>sn_StartTime := boot\<rparr>;
              s2 = (if boot = None then issue ''counter_origin'' s1 else s1);
              s3 = add_points limit (map (\<lambda>(state, v). point ''system.cpu.time'' ''s'' ''sum'' v [(''state'', state)]) (zip cpu_states cpu)) s2;
              gap = (case lm_last m of None \<Rightarrow> maxGap | Some l \<Rightarrow> max (- maxGap - 1) (min maxGap (hr_clock r - l)));
              s4 = (case CounterRatio (lm_previous m) cpu gap of
                      None \<Rightarrow> s3
                    | Some v \<Rightarrow> add_points limit
                        [point ''host.cpu.used_pct'' ''%'' ''gauge'' v [],
                         point ''system.cpu.utilization'' ''1'' ''gauge'' (round64 (v / 100)) [(''state'', ''used'')]] s3)
          in (s4, m\<lparr>lm_previous := cpu, lm_last := Some (hr_clock r)\<rparr>))"

definition sample_memory :: "int \<Rightarrow> readings \<Rightarrow> snapshot \<Rightarrow> snapshot" where
  "sample_memory limit r s =
     (case hr_memory r of
        None \<Rightarrow> issue ''memory'' s
      | Some (whole, available) \<Rightarrow>
          if whole = 0 \<or> whole < available then issue ''memory'' s
          else let used = whole - available in
            add_points limit
              [point ''host.memory.used_pct'' ''%'' ''gauge'' (round64 (round64 (f64 used / f64 whole) * 100)) [],
               point ''system.memory.usage'' ''By'' ''gauge'' (f64 used) [(''state'', ''used'')],
               point ''system.memory.usage'' ''By'' ''gauge'' (f64 available) [(''state'', ''available'')],
               point ''system.memory.utilization'' ''1'' ''gauge'' (round64 (f64 used / f64 whole)) [(''state'', ''used'')]] s)"

definition load_point :: "bytes \<Rightarrow> float64 \<Rightarrow> measurement" where
  "load_point name v = \<lparr>ms_Name = name, ms_Unit = ''1'', ms_Kind = ''gauge'', ms_Value = v, ms_Attributes = []\<rparr>"

definition sample_load :: "int \<Rightarrow> readings \<Rightarrow> snapshot \<Rightarrow> snapshot" where
  "sample_load limit r s =
     (case hr_load r of
        None \<Rightarrow> issue ''load'' s
      | Some (a, b, c) \<Rightarrow> add_points limit
          [load_point ''system.cpu.load_average.1m'' a, load_point ''system.cpu.load_average.5m'' b, load_point ''system.cpu.load_average.15m'' c] s)"

text \<open>A loop that stops with an issue after \<open>limit\<close> elements.\<close>

fun capped :: "int \<Rightarrow> bytes \<Rightarrow> ('x \<Rightarrow> snapshot \<Rightarrow> snapshot) \<Rightarrow> int \<Rightarrow> 'x list \<Rightarrow> snapshot \<Rightarrow> snapshot" where
  "capped limit tag step i [] s = s"
| "capped limit tag step i (x # xs) s = (if limit \<le> i then issue tag s else capped limit tag step (i + 1) xs (step x s))"

definition disk_points :: "bytes \<times> disk_counters \<Rightarrow> measurement list" where
  "disk_points = (\<lambda>(n, v).
     concat (map (\<lambda>(direction, bs, ops, ms).
       let a = [(''device'', n), (''direction'', direction)] in
       [point ''system.disk.io'' ''By'' ''sum'' (f64 bs) a, point ''system.disk.operations'' ''{operations}'' ''sum'' (f64 ops) a,
        point ''system.disk.operation_time'' ''s'' ''sum'' (round64 (f64 ms / 1000)) a])
       [(''read'', dk_ReadBytes v, dk_ReadCount v, dk_ReadTime v), (''write'', dk_WriteBytes v, dk_WriteCount v, dk_WriteTime v)])
     @ [point ''system.disk.pending_operations'' ''{operations}'' ''gauge'' (f64 (dk_IopsInProgress v)) [(''device'', n)]])"

definition sample_disks :: "int \<Rightarrow> int \<Rightarrow> readings \<Rightarrow> snapshot \<Rightarrow> snapshot" where
  "sample_disks limit devices r s =
     (case hr_disks r of
        None \<Rightarrow> issue ''disk'' s
      | Some ds \<Rightarrow> capped devices ''disk_cardinality'' (\<lambda>d. add_points limit (disk_points d)) 0 (sort_key fst ds) s)"

definition interface_points :: "interface_counters \<Rightarrow> measurement list" where
  "interface_points v =
     concat (map (\<lambda>(direction, bs, packets, errs, drops).
       let a = [(''device'', if_Name v), (''direction'', direction)] in
       [point ''system.network.io'' ''By'' ''sum'' (f64 bs) a, point ''system.network.packets'' ''{packets}'' ''sum'' (f64 packets) a,
        point ''system.network.errors'' ''{errors}'' ''sum'' (f64 errs) a, point ''system.network.dropped'' ''{packets}'' ''sum'' (f64 drops) a])
       [(''receive'', if_BytesRecv v, if_PacketsRecv v, if_Errin v, if_Dropin v),
        (''transmit'', if_BytesSent v, if_PacketsSent v, if_Errout v, if_Dropout v)])"

definition sample_network :: "int \<Rightarrow> int \<Rightarrow> readings \<Rightarrow> snapshot \<Rightarrow> snapshot" where
  "sample_network limit interfaces r s =
     (case hr_interfaces r of
        None \<Rightarrow> issue ''network'' s
      | Some vs \<Rightarrow> capped interfaces ''network_cardinality'' (\<lambda>v. add_points limit (interface_points v)) 0 (hr_sort_interfaces r vs) s)"

definition localFilesystem :: "bytes \<Rightarrow> bool" where
  "localFilesystem kind \<longleftrightarrow> kind \<in> {''ext2'', ''ext3'', ''ext4'', ''xfs'', ''btrfs'', ''zfs'', ''tmpfs'', ''overlay''}"

definition mount_points :: "mount \<Rightarrow> u64 \<times> u64 \<Rightarrow> measurement list" where
  "mount_points m = (\<lambda>(used, free).
     map (\<lambda>(state, v). point ''system.filesystem.usage'' ''By'' ''gauge'' (f64 v)
        [(''device'', mnt_Device m), (''mountpoint'', mnt_Mountpoint m), (''type'', mnt_Fstype m), (''state'', state)])
       [(''used'', used), (''available'', free)])"

fun mount_loop ::
    "int \<Rightarrow> int \<Rightarrow> (bytes \<Rightarrow> (u64 \<times> u64) option) \<Rightarrow> error option list \<Rightarrow> bytes list \<Rightarrow> int \<Rightarrow> mount list \<Rightarrow> snapshot \<Rightarrow> error option \<times> snapshot" where
  "mount_loop limit mounts usage ctxs seen taken [] s = (None, s)"
| "mount_loop limit mounts usage ctxs seen taken (m # ms) s =
     (if \<not> localFilesystem (mnt_Fstype m) \<or> mnt_Mountpoint m \<in> set seen then mount_loop limit mounts usage ctxs seen taken ms s
      else if mounts \<le> taken then (None, issue ''filesystem_cardinality'' s)
      else case (case ctxs of [] \<Rightarrow> None | c # _ \<Rightarrow> c) of
        Some e \<Rightarrow> (Some e, s)
      | None \<Rightarrow> mount_loop limit mounts usage (tl ctxs) (mnt_Mountpoint m # seen) (taken + 1) ms
          (case usage (mnt_Mountpoint m) of None \<Rightarrow> issue ''filesystem'' s | Some v \<Rightarrow> add_points limit (mount_points m v) s))"

definition sample_mounts :: "int \<Rightarrow> int \<Rightarrow> readings \<Rightarrow> snapshot \<Rightarrow> error option \<times> snapshot" where
  "sample_mounts limit mounts r s =
     (case hr_mounts r of
        None \<Rightarrow> (None, issue ''filesystem'' s)
      | Some ms \<Rightarrow> mount_loop limit mounts (hr_usage r) (hr_ctxs r) [] 0 (hr_sort_mounts r ms) s)"

definition Sample :: "readings \<Rightarrow> linux_metrics \<Rightarrow> (snapshot \<times> error option) \<times> linux_metrics" where
  "Sample r m =
     (let empty = \<lparr>sn_StartTime = None, sn_ObservedAt = hr_now r, sn_Values = [], sn_Issues = []\<rparr>; l = lm_limits m; limit = MaxPoints l in
      if hr_ctx r \<noteq> None then ((empty\<lparr>sn_ObservedAt := 0\<rparr>, hr_ctx r), m)
      else case sample_cpu r m empty of (s1, m1) \<Rightarrow>
        case sample_mounts limit (MaxMounts l) r
            (sample_network limit (MaxInterfaces l) r (sample_disks limit (MaxDevices l) r (sample_load limit r (sample_memory limit r s1)))) of
          (Some e, s) \<Rightarrow> ((s, Some e), m1)
        | (None, s) \<Rightarrow> ((if limit \<le> int (length (sn_Values s)) then issue ''sample_cardinality'' s else s, None), m1))"


section \<open>Utilization\<close>

lemma round_even_upper: "of_int (round_even z) \<le> z + 1 / 2"
  using floor_correct[of z] unfolding round_even_def Let_def by (simp split: if_split) linarith

text \<open>Rounding errs by at most one part in \<open>2 ^ 53\<close>.\<close>

lemma round64_upper: "0 \<le> x \<Longrightarrow> round64 x \<le> x * (1 + 1 / 2 ^ 53)"
proof (cases "0 < x")
  case True
  define u where "u = (2 :: rat) powi (exponent x - 52)"
  have u: "0 < u" by (simp add: u_def)
  have m: "2 ^ 52 \<le> x / u" using mantissa(1)[OF True] by (simp add: u_def)
  have "of_int (round_even (x / u)) \<le> x / u + 1 / 2" by (rule round_even_upper)
  then have "of_int (round_even (x / u)) * u \<le> (x / u + 1 / 2) * u" using u by (intro mult_right_mono) simp_all
  moreover have "(x / u + 1 / 2) * u = x + u / 2" using u by (simp add: distrib_right)
  moreover have "2 ^ 52 * u \<le> x" using m u by (simp add: pos_le_divide_eq)
  then have "u / 2 \<le> x / 2 ^ 53" by simp
  ultimately show ?thesis using True by (simp add: round64_def Let_def u_def[symmetric] distrib_left)
qed simp

lemma ratio_loop_facts:
  "ratio_loop i pcs (t0, d0) = Some (t, d) \<Longrightarrow> 0 \<le> d0 \<Longrightarrow> d0 \<le> t0 \<Longrightarrow> round64 d0 = d0 \<Longrightarrow> round64 t0 = t0 \<Longrightarrow>
   0 \<le> d \<and> d \<le> t \<and> round64 t = t \<and> (\<forall>(p, c) \<in> set pcs. p \<le> c) \<and> ((\<forall>(p, c) \<in> set pcs. c \<le> p) \<longrightarrow> t = t0)"
proof (induction pcs arbitrary: i t0 d0)
  case (Cons pc pcs)
  obtain p c where pc: "pc = (p, c)" by fastforce
  define x where "x = round64 (c - p)"
  define t1 where "t1 = round64 (t0 + x)"
  define d1 where "d1 = (if i = 3 \<or> i = 4 then round64 (d0 + x) else d0)"
  have le: "p \<le> c" and rest: "ratio_loop (Suc i) pcs (t1, d1) = Some (t, d)"
    using Cons.prems(1) by (auto simp: pc x_def t1_def d1_def Let_def split: if_splits)
  have x: "0 \<le> x" by (simp add: x_def)
  have "round64 d0 \<le> round64 (t0 + x)" "round64 (d0 + x) \<le> round64 (t0 + x)" using Cons.prems(3) x by (auto intro!: round64_mono)
  then have d: "0 \<le> d1" "d1 \<le> t1" "round64 d1 = d1" "round64 t1 = t1" using Cons.prems(2,4) by (simp_all add: d1_def t1_def)
  have "c \<le> p \<Longrightarrow> t1 = t0" using le Cons.prems(5) by (simp add: t1_def x_def)
  then show ?case using Cons.IH[OF rest d] le by (auto simp: pc)
qed simp

text \<open>
  C26: The utilization of the processor. It is given only for two samples of all eight counters at most two minutes apart, of which no counter has gone back and one has advanced,
  and it is at least zero and at most one hundred, but for the two roundings it takes.
\<close>

theorem utilization_is_bounded:
  assumes "CounterRatio previous current gap = Some v"
  shows "length previous = 8 \<and> length current = 8 \<and> 0 < gap \<and> gap \<le> 120000000000 \<and>
     (\<forall>i < 8. previous ! i \<le> current ! i) \<and> (\<exists>i < 8. previous ! i < current ! i) \<and>
     0 \<le> v \<and> v \<le> 100 * (1 + 1 / 2 ^ 53) ^ 2"
proof -
  from assms obtain t d where l: "ratio_loop 0 (zip previous current) (0, 0) = Some (t, d)" and
    g: "length previous = 8" "length current = 8" "0 < gap" "gap \<le> 120000000000" "0 < t" and
    v: "v = round64 (round64 (100 * round64 (t - d)) / t)"
    by (auto simp: CounterRatio_def split: if_splits option.splits)
  have f: "0 \<le> d" "d \<le> t" "round64 t = t" "\<forall>(p, c) \<in> set (zip previous current). p \<le> c"
    "(\<forall>(p, c) \<in> set (zip previous current). c \<le> p) \<longrightarrow> t = 0"
    using ratio_loop_facts[OF l] by auto
  have mem: "(previous ! i, current ! i) \<in> set (zip previous current)" if "i < 8" for i using that g by (auto simp: set_zip)
  have le: "\<forall>i < 8. previous ! i \<le> current ! i" using f(4) mem by blast
  moreover have "\<exists>i < 8. previous ! i < current ! i"
  proof (rule ccontr)
    assume "\<not> ?thesis"
    then have "\<forall>i < 8. current ! i \<le> previous ! i" by (metis not_less)
    then have "\<forall>(p, c) \<in> set (zip previous current). c \<le> p" using g by (auto simp: set_zip)
    then show False using f(5) g(5) by simp
  qed
  moreover have "v \<le> 100 * (1 + 1 / 2 ^ 53) ^ 2"
  proof -
    have b: "round64 (t - d) \<le> t" using round64_mono[of "t - d" t] f by simp
    have "round64 (100 * round64 (t - d)) \<le> round64 (100 * t)" using b by (intro round64_mono) simp
    also have "\<dots> \<le> 100 * t * (1 + 1 / 2 ^ 53)" using round64_upper[of "100 * t"] g(5) by simp
    finally have q: "round64 (100 * round64 (t - d)) / t \<le> 100 * (1 + 1 / 2 ^ 53)" using g(5) by (simp add: pos_divide_le_eq mult_ac)
    have "v \<le> round64 (100 * (1 + 1 / 2 ^ 53))" unfolding v by (rule round64_mono[OF q])
    also have "\<dots> \<le> 100 * (1 + 1 / 2 ^ 53) * (1 + 1 / 2 ^ 53)" by (rule round64_upper) simp
    finally show ?thesis by (simp add: power2_eq_square)
  qed
  ultimately show ?thesis using g v by simp
qed

text \<open>The bound of one hundred is exceeded on a processor that was not idle at all.\<close>

lemma round64_by: "2 powi e \<le> x \<Longrightarrow> x < 2 powi (e + 1) \<Longrightarrow> round64 x = of_int (round_even (x / 2 powi (e - 52))) * 2 powi (e - 52)"
proof -
  assume b: "2 powi e \<le> x" "x < 2 powi (e + 1)"
  have x: "0 < x" using b(1) by (rule less_le_trans[rotated]) simp
  have "exponent x = e"
  proof (rule ccontr)
    assume "exponent x \<noteq> e"
    then have "exponent x + 1 \<le> e \<or> e + 1 \<le> exponent x" by linarith
    then have "(2 :: rat) powi (exponent x + 1) \<le> 2 powi e \<or> (2 :: rat) powi (e + 1) \<le> 2 powi exponent x"
      by (auto intro: power_int_increasing)
    then show False using b exponent_bounds[OF x] by linarith
  qed
  then show ?thesis using x by (simp add: round64_def Let_def)
qed

lemma floor_numerals: "\<lfloor>numeral a / numeral b :: rat\<rfloor> = numeral a div numeral b"
  by (metis floor_divide_of_int_eq of_int_numeral)

lemma utilization_above_hundred:
  "\<exists>v. CounterRatio (replicate 8 0) (round64 (270083153 / 100) # replicate 7 0) 1000000000 = Some v \<and> 100 < v"
proof -
  have t: "round64 (270083153 / 100) = 5799991546677821 / 2147483648" by (subst round64_by[of 21]) (simp_all add: power_int_def power_one_over round_even_def floor_numerals Let_def)
  have a: "round64 (100 * (5799991546677821 / 2147483648)) = 270083153 / 1"
    by (subst round64_by[of 28]) (simp_all add: power_int_def power_one_over round_even_def floor_numerals Let_def)
  have v: "round64 (270083153 / 1 / (5799991546677821 / 2147483648)) = 7036874417766401 / 70368744177664"
    by (subst round64_by[of 6]) (simp_all add: power_int_def power_one_over round_even_def floor_numerals Let_def)
  have i: "round64 (5799991546677821 / 2147483648) = 5799991546677821 / 2147483648" using round64_round64[of "270083153 / 100"] unfolding t .
  show ?thesis using a v by (simp add: CounterRatio_def t i eval_nat_numeral)
qed


section \<open>What the limit on points cuts off\<close>

text \<open>\<open>s\<close> is what a smaller limit leaves of \<open>s'\<close>.\<close>

definition cut_of :: "int \<Rightarrow> snapshot \<Rightarrow> snapshot \<Rightarrow> bool" where
  "cut_of limit s s' \<longleftrightarrow> sn_Values s = take (nat limit) (sn_Values s') \<and> sn_StartTime s = sn_StartTime s' \<and> sn_Issues s = sn_Issues s'"

lemma cut_of_issue: "cut_of limit s s' \<Longrightarrow> cut_of limit (issue c s) (issue c s')"
  by (simp add: cut_of_def issue_def)

lemma cut_of_add:
  assumes "cut_of limit s s'" "0 \<le> limit" "limit \<le> big" shows "cut_of limit (add_point limit p s) (add_point big p s')"
proof (cases "limit \<le> int (length (sn_Values s))")
  case True
  then have "nat limit \<le> length (sn_Values s')" using assms(1,2) by (auto simp: cut_of_def)
  then show ?thesis using True assms(1) by (simp add: cut_of_def add_point_def)
next
  case False
  then have "sn_Values s = sn_Values s'" "length (sn_Values s') < nat limit" using assms(1,2) by (auto simp: cut_of_def)
  then show ?thesis using False assms by (auto simp: cut_of_def add_point_def)
qed

lemma cut_of_adds: "cut_of limit s s' \<Longrightarrow> 0 \<le> limit \<Longrightarrow> limit \<le> big \<Longrightarrow> cut_of limit (add_points limit ps s) (add_points big ps s')"
  unfolding add_points_def by (induction ps arbitrary: s s') (simp_all add: cut_of_add)

lemma cut_of_capped:
  "(\<And>x a b. cut_of limit a b \<Longrightarrow> cut_of limit (f x a) (g x b)) \<Longrightarrow> cut_of limit s s' \<Longrightarrow>
   cut_of limit (capped n tag f i xs s) (capped n tag g i xs s')"
  by (induction xs arbitrary: i s s') (simp_all add: cut_of_issue)

lemma cut_of_mounts:
  assumes "0 \<le> limit" "limit \<le> big"
  shows "cut_of limit s s' \<Longrightarrow> fst (mount_loop limit n usage ctxs seen k ms s) = fst (mount_loop big n usage ctxs seen k ms s') \<and>
     cut_of limit (snd (mount_loop limit n usage ctxs seen k ms s)) (snd (mount_loop big n usage ctxs seen k ms s'))"
proof (induction ms arbitrary: ctxs seen k s s')
  case (Cons m ms)
  have "cut_of limit (case usage (mnt_Mountpoint m) of None \<Rightarrow> issue ''filesystem'' s | Some v \<Rightarrow> add_points limit (mount_points m v) s)
      (case usage (mnt_Mountpoint m) of None \<Rightarrow> issue ''filesystem'' s' | Some v \<Rightarrow> add_points big (mount_points m v) s')"
    using Cons.prems assms by (simp add: cut_of_issue cut_of_adds split: option.splits)
  then show ?case using Cons.IH Cons.prems cut_of_issue[OF Cons.prems] by (auto split: list.splits option.splits)
qed simp

lemma cut_of_cpu:
  assumes "0 \<le> MaxPoints l" "MaxPoints l \<le> big" "cut_of (MaxPoints l) s s'"
  shows "cut_of (MaxPoints l) (fst (sample_cpu r (m\<lparr>lm_limits := l\<rparr>) s)) (fst (sample_cpu r (m\<lparr>lm_limits := l\<lparr>MaxPoints := big\<rparr>\<rparr>) s'))"
    "snd (sample_cpu r (m\<lparr>lm_limits := l\<lparr>MaxPoints := big\<rparr>\<rparr>) s') = (snd (sample_cpu r (m\<lparr>lm_limits := l\<rparr>) s))\<lparr>lm_limits := l\<lparr>MaxPoints := big\<rparr>\<rparr>"
proof -
  have start: "cut_of (MaxPoints l) (s\<lparr>sn_StartTime := b\<rparr>) (s'\<lparr>sn_StartTime := b\<rparr>)" for b using assms(3) by (simp add: cut_of_def)
  show "cut_of (MaxPoints l) (fst (sample_cpu r (m\<lparr>lm_limits := l\<rparr>) s)) (fst (sample_cpu r (m\<lparr>lm_limits := l\<lparr>MaxPoints := big\<rparr>\<rparr>) s'))"
    using assms start by (auto simp: sample_cpu_def Let_def intro!: cut_of_issue cut_of_adds split: option.splits)
  show "snd (sample_cpu r (m\<lparr>lm_limits := l\<lparr>MaxPoints := big\<rparr>\<rparr>) s') = (snd (sample_cpu r (m\<lparr>lm_limits := l\<rparr>) s))\<lparr>lm_limits := l\<lparr>MaxPoints := big\<rparr>\<rparr>"
    by (simp add: sample_cpu_def Let_def split: option.splits)
qed

lemma cut_of_sections:
  assumes "0 \<le> limit" "limit \<le> big" "cut_of limit s s'"
  shows "cut_of limit (sample_memory limit r s) (sample_memory big r s')" "cut_of limit (sample_load limit r s) (sample_load big r s')"
    "cut_of limit (sample_disks limit n r s) (sample_disks big n r s')" "cut_of limit (sample_network limit n r s) (sample_network big n r s')"
    "fst (sample_mounts limit n r s) = fst (sample_mounts big n r s')" "cut_of limit (snd (sample_mounts limit n r s)) (snd (sample_mounts big n r s'))"
  using assms cut_of_mounts[OF assms(1,2)]
  by (auto simp: sample_memory_def sample_load_def sample_disks_def sample_network_def sample_mounts_def Let_def
      intro!: cut_of_issue cut_of_adds cut_of_capped split: option.splits)

text \<open>The points themselves.\<close>

definition sound_points :: "measurement list \<Rightarrow> snapshot \<Rightarrow> bool" where
  "sound_points loads s \<longleftrightarrow> (\<forall>p \<in> set (sn_Values s). (usable p \<or> p \<in> set loads) \<and> (ms_Kind p = ''sum'' \<longrightarrow> sn_StartTime s \<noteq> None))"

lemma sound_issue [simp]: "sound_points loads (issue c s) = sound_points loads s"
  by (simp add: sound_points_def issue_def)

lemma sound_add: "sound_points loads s \<Longrightarrow> usable p \<or> p \<in> set loads \<Longrightarrow> sound_points loads (add_point limit p s)"
  by (auto simp: add_point_def sound_points_def)

lemma sound_adds: "sound_points loads s \<Longrightarrow> \<forall>p \<in> set ps. usable p \<or> p \<in> set loads \<Longrightarrow> sound_points loads (add_points limit ps s)"
  unfolding add_points_def by (induction ps arbitrary: s) (simp_all add: sound_add)

lemma sound_capped:
  "(\<And>x s. x \<in> set xs \<Longrightarrow> sound_points loads s \<Longrightarrow> sound_points loads (f x s)) \<Longrightarrow> sound_points loads s \<Longrightarrow> sound_points loads (capped n tag f i xs s)"
  by (induction xs arbitrary: i s) auto

lemma usable_point: "0 \<le> v \<Longrightarrow> HasPrefix name ''system.'' \<or> HasPrefix name ''host.'' \<Longrightarrow> usable (point name u k v a)"
  by (simp add: usable_def point_def)

lemma f64_nonneg [simp]: "0 \<le> f64 n"
  by (simp add: f64_def)

lemma usable_lists:
  "\<forall>p \<in> set (disk_points d). usable p" "\<forall>p \<in> set (interface_points v). usable p" "\<forall>p \<in> set (mount_points mt x). usable p"
  by (auto simp: disk_points_def interface_points_def mount_points_def Let_def intro!: usable_point split: prod.splits)

lemma sound_mounts: "sound_points loads s \<Longrightarrow> sound_points loads (snd (mount_loop limit n usage ctxs seen k ms s))"
proof (induction ms arbitrary: ctxs seen k s)
  case (Cons m ms)
  have "sound_points loads (case usage (mnt_Mountpoint m) of None \<Rightarrow> issue ''filesystem'' s | Some v \<Rightarrow> add_points limit (mount_points m v) s)"
    using Cons.prems usable_lists(3) by (auto intro: sound_adds split: option.splits)
  then show ?case using Cons by (auto split: list.splits option.splits)
qed simp

lemma scan_stat_nonneg: "scan_stat lines (vs, b) = Some (vs', b') \<Longrightarrow> \<forall>v \<in> set vs. 0 \<le> v \<Longrightarrow> \<forall>v \<in> set vs'. 0 \<le> v"
proof (induction lines arbitrary: vs b)
  case (Cons line lines)
  have pc: "\<forall>v \<in> set x. 0 \<le> v" if "parse_counters fs = Some x" for fs x
  proof -
    have "those ys = Some x \<Longrightarrow> \<forall>v \<in> set x. Some v \<in> set ys" for ys :: "rat option list"
      by (induction ys arbitrary: x) (auto split: option.splits)
    then have "\<forall>v \<in> set x. \<exists>f. Some v = map_option (\<lambda>n. round64 (f64 n / 100)) (ParseUint f)" using that unfolding parse_counters_def by fastforce
    then show ?thesis by (auto simp: map_option_case split: option.splits)
  qed
  from Cons.prems obtain vs1 b1 where "scan_stat lines (vs1, b1) = Some (vs', b')" "vs1 = vs \<or> (\<exists>fs. parse_counters fs = Some vs1)"
    by (auto simp: Let_def split: option.splits if_splits)
  then show ?case using Cons.IH[of vs1 b1] Cons.prems(2) pc by blast
qed simp

lemma procCPU_nonneg: "procCPU file = Some (cpu, boot) \<Longrightarrow> \<forall>v \<in> set cpu. 0 \<le> v"
  by (auto simp: procCPU_def split: option.splits if_splits prod.splits dest: scan_stat_nonneg)

lemma sound_cpu:
  assumes "sn_Values s = []" shows "sound_points loads (fst (sample_cpu r m s))"
proof (cases "procCPU (hr_stat r)")
  case None
  then show ?thesis using assms by (simp add: sample_cpu_def sound_points_def issue_def)
next
  case (Some x)
  obtain cpu boot where x: "x = (cpu, boot)" by fastforce
  have pos: "\<forall>v \<in> set cpu. 0 \<le> v" using procCPU_nonneg Some x by blast
  have a: "sound_points loads t \<Longrightarrow> sound_points loads (add_points n (map (\<lambda>(state, v). point ''system.cpu.time'' ''s'' ''sum'' v [(''state'', state)]) (zip cpu_states cpu)) t)" for n t
    by (rule sound_adds) (use pos in \<open>auto intro!: usable_point dest: set_zip_rightD\<close>)
  have nn: "CounterRatio a b g = Some v \<Longrightarrow> 0 \<le> v" for a b g v by (auto simp: CounterRatio_def split: if_splits option.splits)
  have b: "sound_points loads (add_points n [point ''host.cpu.used_pct'' ''%'' ''gauge'' v [],
      point ''system.cpu.utilization'' ''1'' ''gauge'' (round64 (v / 100)) [(''state'', ''used'')]] t)"
    if "CounterRatio a b g = Some v" "sound_points loads t" for a b g v n t
    using nn[OF that(1)] that(2) by (intro sound_adds) (auto intro!: usable_point)
  have c: "sound_points loads (s\<lparr>sn_StartTime := boot\<rparr>)" using assms by (simp add: sound_points_def)
  show ?thesis using Some x c
    by (cases boot; cases "lm_last m") (auto simp: sample_cpu_def Let_def intro!: a b split: option.splits)
qed


definition load_points :: "readings \<Rightarrow> measurement list" where
  "load_points r = (case hr_load r of None \<Rightarrow> [] | Some (a, b, c) \<Rightarrow>
     [load_point ''system.cpu.load_average.1m'' a, load_point ''system.cpu.load_average.5m'' b, load_point ''system.cpu.load_average.15m'' c])"

lemma sound_sections:
  assumes "sound_points (load_points r) s"
  shows "sound_points (load_points r) (sample_memory limit r s)" "sound_points (load_points r) (sample_load limit r s)"
    "sound_points (load_points r) (sample_disks limit n r s)" "sound_points (load_points r) (sample_network limit n r s)"
    "sound_points (load_points r) (snd (sample_mounts limit n r s))"
proof -
  show "sound_points (load_points r) (sample_memory limit r s)"
    using assms by (auto simp: sample_memory_def Let_def intro!: sound_adds usable_point split: option.splits)
  show "sound_points (load_points r) (sample_load limit r s)"
    using assms by (auto simp: sample_load_def load_points_def intro!: sound_adds split: option.splits)
  show "sound_points (load_points r) (sample_disks limit n r s)" "sound_points (load_points r) (sample_network limit n r s)"
    using assms usable_lists(1,2) by (auto simp: sample_disks_def sample_network_def intro!: sound_capped sound_adds split: option.splits)
  show "sound_points (load_points r) (snd (sample_mounts limit n r s))"
    using assms by (auto simp: sample_mounts_def intro!: sound_mounts split: option.splits)
qed

text \<open>
  C25: A sample is cut off visibly and holds nothing the encoder refuses. With a limit on the points, the sample is the first points, up to the limit, of the sample that a larger
  limit gives, with the same outcome and the same memory for the next sample; where something was cut off, an issue says so. Every point has a name and a value that the encoder
  takes, the load averages aside, which are passed on as they are read, and a cumulative point is only there together with the time it counts from.
\<close>

theorem sample_is_cut_visibly:
  assumes "0 \<le> MaxPoints l" "MaxPoints l \<le> big"
    and "Sample r (m\<lparr>lm_limits := l\<rparr>) = ((s, e), m1)" "Sample r (m\<lparr>lm_limits := l\<lparr>MaxPoints := big\<rparr>\<rparr>) = ((s', e'), m2)"
  shows "e' = e \<and> lm_previous m2 = lm_previous m1 \<and> lm_last m2 = lm_last m1 \<and>
     sn_Values s = take (nat (MaxPoints l)) (sn_Values s') \<and>
     (e = None \<longrightarrow> length (sn_Values s) < length (sn_Values s') \<longrightarrow> (''sample_cardinality'', ''unavailable_or_denied'') \<in> set (sn_Issues s)) \<and>
     (\<forall>p \<in> set (sn_Values s). (usable p \<or> p \<in> set (load_points r)) \<and> (ms_Kind p = ''sum'' \<longrightarrow> sn_StartTime s \<noteq> None))"
proof (cases "hr_ctx r")
  case (Some x)
  from assms show ?thesis by (auto simp: Some Sample_def Let_def)
next
  case None
  let ?l = "l\<lparr>MaxPoints := big\<rparr>" and ?L = "MaxPoints l"
  define s0 where "s0 = \<lparr>sn_StartTime = None, sn_ObservedAt = hr_now r, sn_Values = [], sn_Issues = []\<rparr>"
  obtain a m3 where a: "sample_cpu r (m\<lparr>lm_limits := l\<rparr>) s0 = (a, m3)" by fastforce
  obtain a' m4 where a': "sample_cpu r (m\<lparr>lm_limits := ?l\<rparr>) s0 = (a', m4)" by fastforce
  have "cut_of ?L s0 s0" by (simp add: cut_of_def s0_def)
  note c1 = cut_of_cpu[OF assms(1,2) this, of r m, unfolded a a' fst_conv snd_conv]
  define b where "b = sample_network ?L (MaxInterfaces l) r (sample_disks ?L (MaxDevices l) r (sample_load ?L r (sample_memory ?L r a)))"
  define b' where "b' = sample_network big (MaxInterfaces l) r (sample_disks big (MaxDevices l) r (sample_load big r (sample_memory big r a')))"
  note sec = cut_of_sections[OF assms(1,2)]
  have c2: "cut_of ?L b b'" unfolding b_def b'_def by (intro sec(1-4) c1(1))
  obtain e1 t where t: "sample_mounts ?L (MaxMounts l) r b = (e1, t)" by fastforce
  obtain e1' t' where t': "sample_mounts big (MaxMounts l) r b' = (e1', t')" by fastforce
  have c3: "e1' = e1" "cut_of ?L t t'" using sec(5,6)[OF c2, of "MaxMounts l" r] t t' by simp_all
  have fin: "((s, e), m1) = (case e1 of Some x \<Rightarrow> ((t, Some x), m3)
      | None \<Rightarrow> ((if ?L \<le> int (length (sn_Values t)) then issue ''sample_cardinality'' t else t, None), m3))"
    using assms(3) None a t by (auto simp: Sample_def Let_def s0_def b_def split: option.splits if_splits)
  have fin': "((s', e'), m2) = (case e1' of Some x \<Rightarrow> ((t', Some x), m4)
      | None \<Rightarrow> ((if big \<le> int (length (sn_Values t')) then issue ''sample_cardinality'' t' else t', None), m4))"
    using assms(4) None a' t' by (auto simp: Sample_def Let_def s0_def b'_def split: option.splits if_splits)
  have v: "sn_Values s = sn_Values t" "sn_StartTime s = sn_StartTime t" "e = e1" "m1 = m3" using fin by (auto simp: issue_def split: option.splits if_splits)
  have v': "sn_Values s' = sn_Values t'" "e' = e1'" "m2 = m4" using fin' by (auto simp: issue_def split: option.splits if_splits)
  have "sound_points (load_points r) a" using sound_cpu[of s0 "load_points r" r "m\<lparr>lm_limits := l\<rparr>"] a by (simp add: s0_def)
  then have "sound_points (load_points r) (snd (sample_mounts ?L (MaxMounts l) r b))" unfolding b_def by (intro sound_sections)
  then have snd: "sound_points (load_points r) t" using t by simp
  have "?L \<le> int (length (sn_Values t))" if "length (sn_Values s) < length (sn_Values s')"
    using that c3(2) v v' assms(1) by (auto simp: cut_of_def)
  then have "(''sample_cardinality'', ''unavailable_or_denied'') \<in> set (sn_Issues s)" if "e = None" "length (sn_Values s) < length (sn_Values s')"
    using that fin v by (auto simp: issue_def split: option.splits if_splits)
  moreover have "sn_Values s = take (nat ?L) (sn_Values s')" using c3(2) v v' by (simp add: cut_of_def)
  ultimately show ?thesis using c3(1) v v' c1(2) snd by (auto simp: sound_points_def)
qed

text \<open>A host with a readable processor and memory, and one disk.\<close>

definition sample_readings :: readings where
  "sample_readings = \<lparr>hr_ctx = None, hr_now = 5, hr_clock = 5, hr_stat = Some (''cpu 1 2 3 4 5 6 7 8'' @ [CHR 0x0A] @ ''btime 7'' @ [CHR 0x0A], True),
     hr_memory = Some (8, 2), hr_load = Some (Finite 1, Finite 1, NaN), hr_disks = None, hr_interfaces = None, hr_sort_interfaces = (\<lambda>xs. xs),
     hr_mounts = Some [], hr_sort_mounts = (\<lambda>xs. xs), hr_ctxs = [], hr_usage = (\<lambda>_. None)\<rparr>"

definition sample_limits :: collection where
  "sample_limits = \<lparr>IntervalSeconds = 15, MaxPoints = 3, MaxDevices = 1, MaxInterfaces = 1, MaxMounts = 1\<rparr>"

theorem sample_is_cut_visibly_witness:
  "sn_Values (fst (fst (Sample sample_readings (NewHostMetrics sample_limits)))) =
     take 3 (sn_Values (fst (fst (Sample sample_readings (NewHostMetrics (sample_limits\<lparr>MaxPoints := 4096\<rparr>))))))"
proof -
  obtain s e m1 where a: "Sample sample_readings ((NewHostMetrics sample_limits)\<lparr>lm_limits := sample_limits\<rparr>) = ((s, e), m1)" by (metis prod.exhaust)
  obtain s' e' m2 where b: "Sample sample_readings ((NewHostMetrics sample_limits)\<lparr>lm_limits := sample_limits\<lparr>MaxPoints := 4096\<rparr>\<rparr>) = ((s', e'), m2)" by (metis prod.exhaust)
  show ?thesis using sample_is_cut_visibly[OF _ _ a b] a b by (simp add: NewHostMetrics_def sample_limits_def)
qed

theorem utilization_is_bounded_witness:
  "\<exists>v. CounterRatio (replicate 8 0) (1 # replicate 7 0) 1000000000 = Some v \<and> 0 \<le> v \<and> v \<le> 100 * (1 + 1 / 2 ^ 53) ^ 2"
proof -
  have i: "round64 1 = 1" "round64 100 = 100" using round64_int[of 1] round64_int[of 100] by simp_all
  have "CounterRatio (replicate 8 0) (1 # replicate 7 0) 1000000000 = Some 100" by (simp add: CounterRatio_def i eval_nat_numeral)
  from utilization_is_bounded[OF this] this show ?thesis by simp
qed

end
