(* ===== verification/Manager.thy ===== *)
theory Manager
  imports Policy
begin

text \<open>
  Model of \<^verbatim>\<open>internal/app/app.go\<close>: the lifecycle manager that moves the set of running
  collectors from one policy document to the next and rolls back when a step fails.

  Collectors, the policy store and the audit sink are interfaces in the code. A call to one of them
  is an event; whether the call succeeds is the environment's choice, read from the list
  \<open>answers\<close> (a call beyond its end succeeds). The list \<open>events\<close> records the calls made, in order,
  with the answer each got. Contexts are sampled where the code samples them (\<open>apply_ctx\<close>).
\<close>

section \<open>State\<close>

datatype event =
    ENew capability bool
  | EStart capability bool
  | ECancel capability
  | EStop capability bool
  | ESave u64 bool
  | EAudit string u64

record registration =
  r_descriptor :: descriptor
  new_nonnil :: bool

type_synonym registry = "(capability \<times> registration) list"

record manager =
  registry :: registry
  active :: "capability set"
  current :: document
  has_store :: bool
  degraded :: bool
  m_closed :: bool
  answers :: "bool list"
  events :: "event list"

record apply_ctx =
  ctx_done :: bool
  root_done :: bool
  ctx_done_late :: bool

definition New_manager :: "registry \<Rightarrow> bool \<Rightarrow> bool list \<Rightarrow> manager" where
  "New_manager reg store ans =
     \<lparr>registry = reg, active = {}, current = zero_document, has_store = store, degraded = False,
      m_closed = False, answers = ans, events = []\<rparr>"

section \<open>Calls to the environment\<close>

definition record_event :: "event \<Rightarrow> manager \<Rightarrow> manager" where
  "record_event e m = m\<lparr>events := events m @ [e]\<rparr>"

definition call :: "(bool \<Rightarrow> event) \<Rightarrow> manager \<Rightarrow> bool \<times> manager" where
  "call e m =
     (case answers m of
        [] \<Rightarrow> (True, record_event (e True) m)
      | b # bs \<Rightarrow> (b, record_event (e b) (m\<lparr>answers := bs\<rparr>)))"

section \<open>Operations\<close>

definition start :: "capability \<Rightarrow> manager \<Rightarrow> error option \<times> manager" where
  "start c m =
     (let (made, m1) = call (ENew c) m in
      if \<not> made then (Some (Failure ''collector construction failed''), m1)
      else
        let (started, m2) = call (EStart c) m1 in
        if \<not> started then
          let (stopped, m3) = call (EStop c) (record_event (ECancel c) m2);
              m4 = (if stopped then m3 else m3\<lparr>degraded := True\<rparr>)
          in (Some (Failure ''collector start failed''), m4)
        else (None, m2\<lparr>active := insert c (active m2)\<rparr>))"

definition stop :: "capability \<Rightarrow> manager \<Rightarrow> error option \<times> manager" where
  "stop c m =
     (if c \<notin> active m then (None, m)
      else
        let (stopped, m1) = call (EStop c) (record_event (ECancel c) m) in
        if \<not> stopped then (Some (Failure ''collector did not stop cleanly''), m1\<lparr>degraded := True\<rparr>)
        else (None, m1\<lparr>active := active m1 - {c}\<rparr>))"

text \<open>The two loops of \<open>restore\<close>: they go on after a failure and remember it in \<open>bad\<close>.\<close>

fun restore_stops :: "document \<Rightarrow> capability list \<Rightarrow> bool \<times> manager \<Rightarrow> bool \<times> manager" where
  "restore_stops old [] bm = bm"
| "restore_stops old (c # cs) (bad, m) =
     restore_stops old cs
       (if on old c then (bad, m)
        else case stop c m of (None, m') \<Rightarrow> (bad, m') | (Some _, m') \<Rightarrow> (True, m'))"

fun restore_starts :: "document \<Rightarrow> capability list \<Rightarrow> bool \<times> manager \<Rightarrow> bool \<times> manager" where
  "restore_starts old [] bm = bm"
| "restore_starts old (c # cs) (bad, m) =
     restore_starts old cs
       (if on old c \<and> c \<notin> active m
        then case start c m of (None, m') \<Rightarrow> (bad, m') | (Some _, m') \<Rightarrow> (True, m')
        else (bad, m))"

definition restore :: "document \<Rightarrow> manager \<Rightarrow> error option \<times> manager" where
  "restore old m =
     (let (bad, m') = restore_starts old AllCaps (restore_stops old AllCaps (False, m)) in
      if bad
      then (Some (Failure ''policy rollback incomplete; service requires attention''), m'\<lparr>degraded := True\<rparr>)
      else (None, m'))"

text \<open>The two loops of \<open>Apply\<close>: they end at the first failure (result \<open>False\<close>).\<close>

fun apply_stops :: "document \<Rightarrow> capability list \<Rightarrow> manager \<Rightarrow> bool \<times> manager" where
  "apply_stops nxt [] m = (True, m)"
| "apply_stops nxt (c # cs) m =
     (if \<not> on nxt c
      then case stop c m of (None, m') \<Rightarrow> apply_stops nxt cs m' | (Some _, m') \<Rightarrow> (False, m')
      else apply_stops nxt cs m)"

fun apply_starts :: "document \<Rightarrow> capability list \<Rightarrow> manager \<Rightarrow> bool \<times> manager" where
  "apply_starts nxt [] m = (True, m)"
| "apply_starts nxt (c # cs) m =
     (if on nxt c \<and> c \<notin> active m
      then case start c m of (None, m') \<Rightarrow> apply_starts nxt cs m' | (Some _, m') \<Rightarrow> (False, m')
      else apply_starts nxt cs m)"

definition registered :: "registry \<Rightarrow> capability \<Rightarrow> bool" where
  "registered reg c =
     (case map_of reg c of
        None \<Rightarrow> False
      | Some r \<Rightarrow> implemented (r_descriptor r) \<and> new_nonnil r \<and> d_capability (r_descriptor r) = c)"

definition apply_fail :: "document \<Rightarrow> document \<Rightarrow> manager \<Rightarrow> error option \<times> manager" where
  "apply_fail old nxt m =
     (let (rollback, m1) = restore old m;
          m2 = record_event (EAudit ''policy_apply_failed'' (version nxt)) m1
      in case rollback of
           Some e \<Rightarrow> (Some e, m2)
         | None \<Rightarrow>
             (if degraded m2 then (Some (Failure ''policy failure requires service attention''), m2)
              else (Some (Failure ''policy apply failed; prior policy retained''), m2)))"

text \<open>The body of \<open>Apply\<close> after its guards: stop, start, persist, commit.\<close>

definition apply_transition :: "apply_ctx \<Rightarrow> document \<Rightarrow> manager \<Rightarrow> error option \<times> manager" where
  "apply_transition ctx nxt m =
     (let old = Clone (current m); (stopped, m1) = apply_stops nxt AllCaps m in
      if \<not> stopped then apply_fail old nxt m1
      else
        let (started, m2) = apply_starts nxt AllCaps m1 in
        if \<not> started then apply_fail old nxt m2
        else if ctx_done_late ctx then apply_fail old nxt m2
        else
          let (saved, m3) = (if has_store m2 then call (ESave (version nxt)) m2 else (True, m2)) in
          if \<not> saved then apply_fail old nxt (m3\<lparr>degraded := True\<rparr>)
          else (None, record_event (EAudit ''policy_applied'' (version nxt)) (m3\<lparr>current := nxt\<rparr>)))"

definition Apply :: "apply_ctx \<Rightarrow> document \<Rightarrow> manager \<Rightarrow> error option \<times> manager" where
  "Apply ctx nxt0 m =
     (let nxt = Clone nxt0 in
      if m_closed m \<or> degraded m then (Some (Failure ''lifecycle unavailable''), m)
      else if ctx_done ctx then (Some Canceled, m)
      else if root_done ctx then (Some Canceled, m)
      else case Validate nxt of Some e \<Rightarrow> (Some e, m) | None \<Rightarrow>
      if Equal nxt (current m) then (None, m)
      else if version nxt \<le> version (current m) then (Some (Failure ''policy version must advance''), m)
      else case find (\<lambda>c. on nxt c \<and> \<not> registered (registry m) c) AllCaps of
        Some c \<Rightarrow> (Some (Failure (''capability '' @ c @ '' not implemented'')), m)
      | None \<Rightarrow> apply_transition ctx nxt m)"

fun close_loop :: "capability list \<Rightarrow> error option \<times> manager \<Rightarrow> error option \<times> manager" where
  "close_loop [] rm = rm"
| "close_loop (c # cs) (result, m) =
     close_loop cs (case stop c m of (None, m') \<Rightarrow> (result, m') | (Some e, m') \<Rightarrow> (Some e, m'))"

definition Close :: "manager \<Rightarrow> error option \<times> manager" where
  "Close m = close_loop AllCaps (None, m\<lparr>m_closed := True\<rparr>)"

definition Current :: "manager \<Rightarrow> document" where
  "Current m = Clone (current m)"

definition Degraded :: "manager \<Rightarrow> bool" where
  "Degraded m = degraded m"

section \<open>Collectors that hold resources\<close>

text \<open>
  A collector holds resources from the moment its \<open>Start\<close> is called (a failed start may have been
  partial) until its \<open>Stop\<close> succeeds.
\<close>

fun holds_after :: "event \<Rightarrow> capability set \<Rightarrow> capability set" where
  "holds_after (EStart c _) S = insert c S"
| "holds_after (EStop c True) S = S - {c}"
| "holds_after _ S = S"

definition holding :: "manager \<Rightarrow> capability set" where
  "holding m = fold holds_after (events m) {}"

definition tracked :: "manager \<Rightarrow> bool" where
  "tracked m \<longleftrightarrow> active m \<subseteq> holding m \<and> (\<not> degraded m \<longrightarrow> holding m = active m)"

lemma holding_record [simp]: "holding (record_event e m) = holds_after e (holding m)"
  by (simp add: holding_def record_event_def)

lemma holding_updates [simp]:
  "holding (m\<lparr>active := A\<rparr>) = holding m" "holding (m\<lparr>degraded := d\<rparr>) = holding m"
  "holding (m\<lparr>current := p\<rparr>) = holding m" "holding (m\<lparr>m_closed := b\<rparr>) = holding m"
  "holding (m\<lparr>answers := as\<rparr>) = holding m"
  by (simp_all add: holding_def)

lemma record_event_fields [simp]:
  "active (record_event e m) = active m" "degraded (record_event e m) = degraded m"
  "current (record_event e m) = current m" "m_closed (record_event e m) = m_closed m"
  "registry (record_event e m) = registry m" "has_store (record_event e m) = has_store m"
  by (simp_all add: record_event_def)

lemma call_cases:
  obtains b as where "call e m = (b, record_event (e b) (m\<lparr>answers := as\<rparr>))"
proof (cases "answers m")
  case Nil
  then have "call e m = (True, record_event (e True) (m\<lparr>answers := []\<rparr>))"
    by (simp add: call_def record_event_def)
  then show ?thesis by (rule that)
next
  case (Cons b bs)
  then have "call e m = (b, record_event (e b) (m\<lparr>answers := bs\<rparr>))"
    by (simp add: call_def)
  then show ?thesis by (rule that)
qed

section \<open>Effects of one start and one stop\<close>

lemma start_cases:
  assumes "start c m = (r, m')"
  obtains (unmade) "r \<noteq> None" "active m' = active m" "holding m' = holding m" "degraded m' = degraded m"
  | (cleaned) "r \<noteq> None" "active m' = active m" "holding m' = holding m - {c}" "degraded m' = degraded m"
  | (leaked) "r \<noteq> None" "active m' = active m" "holding m' = insert c (holding m)" "degraded m'"
  | (started) "r = None" "active m' = insert c (active m)" "holding m' = insert c (holding m)" "degraded m' = degraded m"
proof -
  obtain b1 as1 where 1: "call (ENew c) m = (b1, record_event (ENew c b1) (m\<lparr>answers := as1\<rparr>))"
    by (rule call_cases)
  let ?m1 = "record_event (ENew c b1) (m\<lparr>answers := as1\<rparr>)"
  obtain b2 as2 where 2: "call (EStart c) ?m1 = (b2, record_event (EStart c b2) (?m1\<lparr>answers := as2\<rparr>))"
    by (rule call_cases)
  let ?m2 = "record_event (ECancel c) (record_event (EStart c b2) (?m1\<lparr>answers := as2\<rparr>))"
  obtain b3 as3 where 3: "call (EStop c) ?m2 = (b3, record_event (EStop c b3) (?m2\<lparr>answers := as3\<rparr>))"
    by (rule call_cases)
  note eq = assms [unfolded start_def 1 Let_def prod.case 2 3]
  show ?thesis
  proof (cases b1)
    case False
    with eq show ?thesis by (intro unmade) auto
  next
    case b1: True
    show ?thesis
    proof (cases b2)
      case True
      with b1 eq show ?thesis by (intro started) auto
    next
      case b2: False
      show ?thesis
      proof (cases b3)
        case True
        with b1 b2 eq show ?thesis by (intro cleaned) auto
      next
        case False
        with b1 b2 eq show ?thesis by (intro leaked) auto
      qed
    qed
  qed
qed

lemma stop_cases:
  assumes "stop c m = (r, m')"
  obtains (absent) "c \<notin> active m" "r = None" "m' = m"
  | (stopped) "c \<in> active m" "r = None" "active m' = active m - {c}" "holding m' = holding m - {c}" "degraded m' = degraded m"
  | (stuck) "c \<in> active m" "r \<noteq> None" "active m' = active m" "holding m' = holding m" "degraded m'"
proof -
  obtain b as where "call (EStop c) (record_event (ECancel c) m)
      = (b, record_event (EStop c b) ((record_event (ECancel c) m)\<lparr>answers := as\<rparr>))"
    by (rule call_cases)
  with assms that show ?thesis
    by (cases b) (auto simp: stop_def split: if_splits)
qed

text \<open>Fields that no collector call touches.\<close>

definition same_policy :: "manager \<Rightarrow> manager \<Rightarrow> bool" where
  "same_policy m m' \<longleftrightarrow> current m' = current m \<and> m_closed m' = m_closed m \<and> registry m' = registry m
     \<and> has_store m' = has_store m \<and> (degraded m \<longrightarrow> degraded m')"

lemma same_policy_refl [simp, intro]: "same_policy m m"
  by (simp add: same_policy_def)

lemma same_policy_trans: "same_policy a b \<Longrightarrow> same_policy b c \<Longrightarrow> same_policy a c"
  by (auto simp: same_policy_def)

lemma call_same: "call e m = (b, m') \<Longrightarrow> same_policy m m'"
  by (auto simp: call_def same_policy_def split: list.splits)

lemma start_same: "start c m = (r, m') \<Longrightarrow> same_policy m m'"
  by (auto simp: start_def call_def same_policy_def Let_def split: list.splits if_splits prod.splits)

lemma stop_same: "stop c m = (r, m') \<Longrightarrow> same_policy m m'"
  by (auto simp: stop_def call_def same_policy_def Let_def split: list.splits if_splits prod.splits)

lemma start_tracked: "tracked m \<Longrightarrow> c \<notin> active m \<Longrightarrow> start c m = (r, m') \<Longrightarrow> tracked m'"
  by (erule start_cases) (auto simp: tracked_def)

lemma stop_tracked: "tracked m \<Longrightarrow> stop c m = (r, m') \<Longrightarrow> tracked m'"
  by (erule stop_cases) (auto simp: tracked_def)

section \<open>Effects of the loops\<close>

lemma restore_stops_effect:
  "restore_stops old cs (bad, m) = (bad', m') \<Longrightarrow> tracked m \<Longrightarrow>
   same_policy m m' \<and> tracked m' \<and> (bad \<longrightarrow> bad') \<and>
   (\<not> bad' \<longrightarrow> active m' = active m - {c \<in> set cs. \<not> on old c} \<and> degraded m' = degraded m)"
proof (induction old cs "(bad, m)" arbitrary: bad m rule: restore_stops.induct)
  case (1 old)
  then show ?case by auto
next
  case (2 old c cs bad m)
  show ?case
  proof (cases "on old c")
    case True
    with 2 show ?thesis by auto
  next
    case False
    obtain r m1 where st: "stop c m = (r, m1)" by force
    have m1: "same_policy m m1" "tracked m1"
      using st "2.prems" by (auto intro: stop_same stop_tracked)
    have eff: "r = None \<Longrightarrow> active m1 = active m - {c} \<and> degraded m1 = degraded m"
      using st by (cases rule: stop_cases) auto
    show ?thesis
    proof (cases r)
      case None
      have "same_policy m1 m' \<and> tracked m' \<and> (bad \<longrightarrow> bad') \<and>
        (\<not> bad' \<longrightarrow> active m' = active m1 - {c \<in> set cs. \<not> on old c} \<and> degraded m' = degraded m1)"
        using 2 False st None m1 by simp
      then show ?thesis using m1 eff None False by (auto intro: same_policy_trans [OF m1(1)])
    next
      case (Some e)
      have "same_policy m1 m' \<and> tracked m' \<and> bad'"
        using 2 False st Some m1 by simp
      then show ?thesis using m1 by (auto intro: same_policy_trans [OF m1(1)])
    qed
  qed
qed

lemma restore_starts_effect:
  "restore_starts old cs (bad, m) = (bad', m') \<Longrightarrow> tracked m \<Longrightarrow>
   same_policy m m' \<and> tracked m' \<and> (bad \<longrightarrow> bad') \<and>
   (\<not> bad' \<longrightarrow> active m' = active m \<union> {c \<in> set cs. on old c} \<and> degraded m' = degraded m)"
proof (induction old cs "(bad, m)" arbitrary: bad m rule: restore_starts.induct)
  case (1 old)
  then show ?case by auto
next
  case (2 old c cs bad m)
  show ?case
  proof (cases "on old c \<and> c \<notin> active m")
    case False
    with 2 show ?thesis by auto
  next
    case True
    obtain r m1 where st: "start c m = (r, m1)" by force
    have m1: "same_policy m m1" "tracked m1"
      using st True "2.prems" by (auto intro: start_same start_tracked)
    have eff: "r = None \<Longrightarrow> active m1 = insert c (active m) \<and> degraded m1 = degraded m"
      using st by (cases rule: start_cases) auto
    show ?thesis
    proof (cases r)
      case None
      have "same_policy m1 m' \<and> tracked m' \<and> (bad \<longrightarrow> bad') \<and>
        (\<not> bad' \<longrightarrow> active m' = active m1 \<union> {c \<in> set cs. on old c} \<and> degraded m' = degraded m1)"
        using 2 True st None m1 by simp
      then show ?thesis using m1 eff None True by (auto intro: same_policy_trans [OF m1(1)])
    next
      case (Some e)
      have "same_policy m1 m' \<and> tracked m' \<and> bad'"
        using 2 True st Some m1 by simp
      then show ?thesis using m1 by (auto intro: same_policy_trans [OF m1(1)])
    qed
  qed
qed

lemma apply_stops_effect:
  "apply_stops d cs m = (ok, m') \<Longrightarrow> tracked m \<Longrightarrow>
   same_policy m m' \<and> tracked m' \<and>
   (if ok then active m' = active m - {c \<in> set cs. \<not> on d c} \<and> degraded m' = degraded m
    else active m' \<subseteq> active m \<and> degraded m')"
proof (induction d cs m rule: apply_stops.induct)
  case (1 d m)
  then show ?case by auto
next
  case (2 d c cs m)
  show ?case
  proof (cases "on d c")
    case True
    with 2 show ?thesis by auto
  next
    case False
    obtain r m1 where st: "stop c m = (r, m1)" by force
    have m1: "same_policy m m1" "tracked m1"
      using st "2.prems" by (auto intro: stop_same stop_tracked)
    have eff: "(r = None \<longrightarrow> active m1 = active m - {c} \<and> degraded m1 = degraded m)
        \<and> (r \<noteq> None \<longrightarrow> active m1 = active m \<and> degraded m1)"
      using st by (cases rule: stop_cases) auto
    show ?thesis
    proof (cases r)
      case None
      have IH: "same_policy m1 m' \<and> tracked m' \<and>
        (if ok then active m' = active m1 - {c \<in> set cs. \<not> on d c} \<and> degraded m' = degraded m1
         else active m' \<subseteq> active m1 \<and> degraded m')"
        using 2 False st None m1 by simp
      have A: "active m1 = active m - {c}" "degraded m1 = degraded m" using eff None by auto
      from IH have "same_policy m m'" by (blast intro: same_policy_trans [OF m1(1)])
      with IH False show ?thesis by (cases ok) (auto simp: A)
    next
      case (Some e)
      then show ?thesis using "2.prems" False st m1 eff by auto
    qed
  qed
qed

lemma apply_starts_effect:
  "apply_starts d cs m = (ok, m') \<Longrightarrow> tracked m \<Longrightarrow>
   same_policy m m' \<and> tracked m' \<and>
   (if ok then active m' = active m \<union> {c \<in> set cs. on d c} \<and> degraded m' = degraded m
    else active m' \<subseteq> active m \<union> {c \<in> set cs. on d c})"
proof (induction d cs m rule: apply_starts.induct)
  case (1 d m)
  then show ?case by auto
next
  case (2 d c cs m)
  show ?case
  proof (cases "on d c \<and> c \<notin> active m")
    case False
    with 2 show ?thesis by auto
  next
    case True
    obtain r m1 where st: "start c m = (r, m1)" by force
    have m1: "same_policy m m1" "tracked m1"
      using st True "2.prems" by (auto intro: start_same start_tracked)
    have eff: "(r = None \<longrightarrow> active m1 = insert c (active m) \<and> degraded m1 = degraded m)
        \<and> (r \<noteq> None \<longrightarrow> active m1 = active m)"
      using st by (cases rule: start_cases) auto
    show ?thesis
    proof (cases r)
      case None
      have IH: "same_policy m1 m' \<and> tracked m' \<and>
        (if ok then active m' = active m1 \<union> {c \<in> set cs. on d c} \<and> degraded m' = degraded m1
         else active m' \<subseteq> active m1 \<union> {c \<in> set cs. on d c})"
        using 2 True st None m1 by simp
      have A: "active m1 = insert c (active m)" "degraded m1 = degraded m" using eff None by auto
      from IH have "same_policy m m'" by (blast intro: same_policy_trans [OF m1(1)])
      with IH True show ?thesis by (cases ok) (auto simp: A)
    next
      case (Some e)
      then show ?thesis using "2.prems" True st m1 eff by auto
    qed
  qed
qed

lemma close_loop_effect:
  "close_loop cs (res, m) = (res', m') \<Longrightarrow> tracked m \<Longrightarrow>
   same_policy m m' \<and> tracked m' \<and> active m' \<subseteq> active m \<and> (res \<noteq> None \<longrightarrow> res' \<noteq> None) \<and>
   (if res' = None then active m' = active m - set cs \<and> degraded m' = degraded m
    else res = None \<longrightarrow> degraded m')"
proof (induction cs "(res, m)" arbitrary: res m rule: close_loop.induct)
  case 1
  then show ?case by auto
next
  case (2 c cs res m)
  obtain r m1 where st: "stop c m = (r, m1)" by force
  have m1: "same_policy m m1" "tracked m1"
    using st "2.prems" by (auto intro: stop_same stop_tracked)
  have eff: "(r = None \<longrightarrow> active m1 = active m - {c} \<and> degraded m1 = degraded m)
      \<and> (r \<noteq> None \<longrightarrow> active m1 = active m \<and> degraded m1)"
    using st by (cases rule: stop_cases) auto
  show ?case
  proof (cases r)
    case None
    have "same_policy m1 m' \<and> tracked m' \<and> active m' \<subseteq> active m1 \<and> (res \<noteq> None \<longrightarrow> res' \<noteq> None) \<and>
      (if res' = None then active m' = active m1 - set cs \<and> degraded m' = degraded m1
       else res = None \<longrightarrow> degraded m')"
      using 2 st None m1 by simp
    then show ?thesis using m1 eff None by (auto intro: same_policy_trans [OF m1(1)] split: if_splits)
  next
    case (Some e)
    have "same_policy m1 m' \<and> tracked m' \<and> active m' \<subseteq> active m1 \<and> res' \<noteq> None"
      using "2.hyps" [of "Some e" m1] "2.prems" st Some m1 by simp
    moreover have "degraded m1" using eff Some by simp
    ultimately show ?thesis using m1 eff Some
      by (auto simp: same_policy_def split: if_splits)
  qed
qed

lemma start_active: "start c m = (r, m') \<Longrightarrow> active m' \<subseteq> insert c (active m)"
  by (erule start_cases) auto

lemma stop_active: "stop c m = (r, m') \<Longrightarrow> active m' \<subseteq> active m"
  by (erule stop_cases) auto

lemma restore_stops_active: "restore_stops old cs (bad, m) = (bad', m') \<Longrightarrow> active m' \<subseteq> active m"
proof (induction old cs "(bad, m)" arbitrary: bad m rule: restore_stops.induct)
  case (2 old c cs bad m)
  then show ?case
    by (fastforce dest: stop_active split: if_splits prod.splits option.splits)
qed simp

lemma restore_starts_active:
  "restore_starts old cs (bad, m) = (bad', m') \<Longrightarrow> active m' \<subseteq> active m \<union> set cs"
proof (induction old cs "(bad, m)" arbitrary: bad m rule: restore_starts.induct)
  case (2 old c cs bad m)
  then show ?case
    by (fastforce dest: start_active split: if_splits prod.splits option.splits)
qed simp

section \<open>The invariant of the manager\<close>

text \<open>
  While the manager is neither degraded nor closed, the collectors that hold resources are exactly
  the capabilities of the document in force; every one of them was registered.
\<close>

definition mgr_inv :: "manager \<Rightarrow> bool" where
  "mgr_inv m \<longleftrightarrow> tracked m \<and> active m \<subseteq> set AllCaps
     \<and> (\<not> degraded m \<and> \<not> m_closed m \<longrightarrow> active m = on_set (current m))
     \<and> (\<forall>c \<in> on_set (current m). registered (registry m) c)"

lemma mgr_inv_New: "mgr_inv (New_manager reg store ans)"
  by (simp add: mgr_inv_def New_manager_def tracked_def holding_def on_set_def on_def zero_document_def)

lemma mgr_inv_tracked: "mgr_inv m \<Longrightarrow> tracked m"
  by (simp add: mgr_inv_def)

lemma mgr_inv_holding:
  "mgr_inv m \<Longrightarrow> \<not> degraded m \<Longrightarrow> \<not> m_closed m \<Longrightarrow> holding m = on_set (current m)"
  by (simp add: mgr_inv_def tracked_def)

lemma restore_effect:
  assumes "restore old m = (r, m')" and "tracked m" and "active m \<subseteq> set AllCaps"
  shows "tracked m' \<and> same_policy m m' \<and> active m' \<subseteq> set AllCaps \<and>
    (if r = None then active m' = on_set old \<and> degraded m' = degraded m else degraded m')"
proof -
  obtain b1 m1 where 1: "restore_stops old AllCaps (False, m) = (b1, m1)" by force
  obtain b2 m2 where 2: "restore_starts old AllCaps (b1, m1) = (b2, m2)" by force
  note e1 = restore_stops_effect [OF 1 assms(2)]
  then have e2: "same_policy m1 m2 \<and> tracked m2 \<and> (b1 \<longrightarrow> b2) \<and>
      (\<not> b2 \<longrightarrow> active m2 = active m1 \<union> {c \<in> set AllCaps. on old c} \<and> degraded m2 = degraded m1)"
    using restore_starts_effect [OF 2] by blast
  have sp: "same_policy m m2" using e1 e2 same_policy_trans by blast
  have sub: "active m1 \<subseteq> set AllCaps \<and> active m2 \<subseteq> set AllCaps"
    using 1 2 assms(3) by (auto dest: restore_stops_active restore_starts_active)
  show ?thesis
  proof (cases b2)
    case True
    with assms(1) 1 2 have "m' = m2\<lparr>degraded := True\<rparr>" "r \<noteq> None"
      by (auto simp: restore_def)
    with e2 sp sub show ?thesis by (auto simp: tracked_def same_policy_def)
  next
    case False
    with assms(1) 1 2 have "m' = m2" "r = None" by (auto simp: restore_def)
    with False e1 e2 sp sub assms(3) show ?thesis by (auto simp: on_set_def)
  qed
qed

lemma apply_fail_effect:
  assumes "apply_fail old d m = (r, m')" and "tracked m" and "active m \<subseteq> set AllCaps"
    and "current m = old" and "\<forall>c \<in> on_set old. registered (registry m) c"
  shows "mgr_inv m' \<and> r \<noteq> None \<and> current m' = current m \<and> m_closed m' = m_closed m
    \<and> registry m' = registry m \<and> (degraded m \<longrightarrow> degraded m')"
proof -
  obtain rb m1 where 1: "restore old m = (rb, m1)" by force
  note e = restore_effect [OF 1 assms(2,3)]
  have "m' = record_event (EAudit ''policy_apply_failed'' (version d)) m1" "r \<noteq> None"
    using assms(1) 1 by (auto simp: apply_fail_def Let_def split: option.splits if_splits)
  with e assms(4,5) show ?thesis
    by (auto simp: mgr_inv_def tracked_def same_policy_def split: if_splits)
qed

section \<open>Effects of \<open>Apply\<close> and \<open>Close\<close>\<close>

lemma save_effect:
  assumes "(if has_store m then call (ESave v) m else (True, m)) = (ok, m')"
  shows "active m' = active m \<and> holding m' = holding m \<and> degraded m' = degraded m \<and>
    current m' = current m \<and> m_closed m' = m_closed m \<and> registry m' = registry m"
  using assms by (auto simp: call_def split: if_splits list.splits)

lemma apply_transition_effect:
  assumes tr: "apply_transition ctx d m = (r, m')" and inv: "mgr_inv m" and nd: "\<not> degraded m"
    and reg: "\<forall>c \<in> on_set d. registered (registry m) c"
  shows "mgr_inv m' \<and> m_closed m' = m_closed m \<and> registry m' = registry m \<and>
    (if r = None then current m' = d \<and> active m' = on_set d \<and> \<not> degraded m' else current m' = current m)"
proof -
  obtain b1 m1 where 1: "apply_stops d AllCaps m = (b1, m1)" by force
  obtain b2 m2 where 2: "apply_starts d AllCaps m1 = (b2, m2)" by force
  obtain b3 m3 where 3: "(if has_store m2 then call (ESave (version d)) m2 else (True, m2)) = (b3, m3)"
    by force
  have A: "active m \<subseteq> set AllCaps" and T: "tracked m"
    and R: "\<forall>c \<in> on_set (current m). registered (registry m) c"
    using inv by (auto simp: mgr_inv_def)
  note e1 = apply_stops_effect [OF 1 T]
  have s1: "same_policy m m1" "tracked m1" "active m1 \<subseteq> set AllCaps" using e1 A by (auto split: if_splits)
  note e2 = apply_starts_effect [OF 2 s1(2)]
  have s2: "same_policy m m2" "tracked m2" "active m2 \<subseteq> set AllCaps"
    using e2 s1 same_policy_trans by (auto split: if_splits)
  note e3 = save_effect [OF 3]
  have f: "mgr_inv m' \<and> r \<noteq> None \<and> current m' = current m \<and> m_closed m' = m_closed m \<and> registry m' = registry m"
    if F: "apply_fail (current m) d mx = (r, m')" and X: "tracked mx" "active mx \<subseteq> set AllCaps"
      "current mx = current m" "m_closed mx = m_closed m" "registry mx = registry m" for mx
    using apply_fail_effect [OF F X(1,2,3)] R X by auto
  consider (stop) "\<not> b1" "apply_fail (current m) d m1 = (r, m')"
    | (start) "b1" "\<not> b2 \<or> ctx_done_late ctx" "apply_fail (current m) d m2 = (r, m')"
    | (save) "b1" "b2" "\<not> b3" "apply_fail (current m) d (m3\<lparr>degraded := True\<rparr>) = (r, m')"
    | (commit) "b1" "b2" "r = None" "m' = record_event (EAudit ''policy_applied'' (version d)) (m3\<lparr>current := d\<rparr>)"
    using tr 3 by (cases "has_store m2") (auto simp: apply_transition_def Let_def 1 2 split: if_splits)
  then show ?thesis
  proof cases
    case stop
    then show ?thesis using f [OF stop(2)] s1 by (auto simp: same_policy_def)
  next
    case start
    then show ?thesis using f [OF start(3)] s2 by (auto simp: same_policy_def)
  next
    case save
    then show ?thesis using f [OF save(4)] s2 e3 by (auto simp: same_policy_def tracked_def)
  next
    case commit
    have "active m2 = on_set d" using e1 e2 commit A by (auto simp: on_set_def)
    moreover have "\<not> degraded m2" using e1 e2 commit nd by simp
    ultimately show ?thesis using commit s2 e3 reg
      by (auto simp: mgr_inv_def tracked_def same_policy_def on_set_def)
  qed
qed

lemma Apply_cases:
  assumes "Apply ctx d m = (r, m')"
  obtains (refused) e where "r = Some e" "m' = m"
  | (unchanged) "r = None" "m' = m" "Equal d (current m)" "\<not> m_closed m" "\<not> degraded m"
  | (transition) "apply_transition ctx d m = (r, m')" "\<not> m_closed m" "\<not> degraded m"
      "version (current m) < version d" "Validate d = None" "\<forall>c \<in> on_set d. registered (registry m) c"
proof (cases "m_closed m \<or> degraded m \<or> ctx_done ctx \<or> root_done ctx \<or> Validate d \<noteq> None")
  case True
  then have "fst (Apply ctx d m) \<noteq> None \<and> snd (Apply ctx d m) = m"
    by (cases "Validate d") (auto simp: Apply_def)
  with assms refused show ?thesis by fastforce
next
  case False
  then have guards: "\<not> m_closed m" "\<not> degraded m" "\<not> ctx_done ctx" "\<not> root_done ctx" "Validate d = None"
    by auto
  consider (eq) "Equal d (current m)" | (old) "\<not> Equal d (current m)" "version d \<le> version (current m)"
    | (new) "\<not> Equal d (current m)" "version (current m) < version d" by fastforce
  then show ?thesis
  proof cases
    case eq
    with assms guards have "r = None" "m' = m" by (simp_all add: Apply_def)
    with eq guards unchanged show ?thesis by blast
  next
    case old
    with assms guards have "r \<noteq> None" "m' = m" by (auto simp: Apply_def)
    with refused show ?thesis by blast
  next
    case new
    show ?thesis
    proof (cases "find (\<lambda>c. on d c \<and> \<not> registered (registry m) c) AllCaps")
      case None
      with assms guards new have "apply_transition ctx d m = (r, m')" by (simp add: Apply_def not_le [symmetric])
      moreover from None have "\<forall>c \<in> on_set d. registered (registry m) c"
        by (auto simp: on_set_def find_None_iff)
      ultimately show ?thesis using guards new transition by blast
    next
      case (Some c)
      with assms guards new have "r \<noteq> None" "m' = m" by (auto simp: Apply_def not_le [symmetric])
      with refused show ?thesis by blast
    qed
  qed
qed

lemma Apply_effect:
  assumes "Apply ctx d m = (r, m')" and "mgr_inv m"
  shows "mgr_inv m' \<and> m_closed m' = m_closed m \<and> registry m' = registry m \<and>
    (if r = None then version (current m') = version d \<and> on_set (current m') = on_set d
        \<and> holding m' = on_set d \<and> \<not> degraded m' \<and> \<not> m_closed m'
     else current m' = current m)"
  using assms(1)
proof (cases rule: Apply_cases)
  case refused
  with assms(2) show ?thesis by auto
next
  case unchanged
  with assms(2) show ?thesis by (auto simp: Equal_iff mgr_inv_holding)
next
  case transition
  note e = apply_transition_effect [OF transition(1) assms(2) transition(3,6)]
  then have "r = None \<Longrightarrow> holding m' = on_set d"
    by (auto simp: mgr_inv_def tracked_def)
  with e transition(2) show ?thesis by auto
qed

lemma Close_effect:
  assumes "Close m = (r, m')" and "mgr_inv m"
  shows "mgr_inv m' \<and> m_closed m' \<and> current m' = current m \<and> registry m' = registry m \<and>
    (if r = None \<and> \<not> degraded m then holding m' = {} else degraded m')"
proof -
  have T: "tracked (m\<lparr>m_closed := True\<rparr>)" and A: "active m \<subseteq> set AllCaps"
    using assms(2) by (auto simp: mgr_inv_def tracked_def)
  note e = close_loop_effect [OF assms(1) [unfolded Close_def] T]
  have "active m - set AllCaps = {}" using A by auto
  with e A assms(2) show ?thesis
    by (auto simp: mgr_inv_def tracked_def same_policy_def split: if_splits)
qed

section \<open>Constructors that were called\<close>

fun news_after :: "event \<Rightarrow> capability set \<Rightarrow> capability set" where
  "news_after (ENew c _) S = insert c S"
| "news_after _ S = S"

definition constructed :: "manager \<Rightarrow> capability set" where
  "constructed m = fold news_after (events m) {}"

lemma constructed_record [simp]: "constructed (record_event e m) = news_after e (constructed m)"
  by (simp add: constructed_def record_event_def)

lemma constructed_updates [simp]:
  "constructed (m\<lparr>active := A\<rparr>) = constructed m" "constructed (m\<lparr>degraded := d\<rparr>) = constructed m"
  "constructed (m\<lparr>current := p\<rparr>) = constructed m" "constructed (m\<lparr>m_closed := b\<rparr>) = constructed m"
  "constructed (m\<lparr>answers := as\<rparr>) = constructed m"
  by (simp_all add: constructed_def)

lemma call_constructed: "call e m = (b, m') \<Longrightarrow> constructed m' = news_after (e b) (constructed m)"
  by (auto simp: call_def split: list.splits)

lemma stop_constructed: "stop c m = (r, m') \<Longrightarrow> constructed m' = constructed m"
  by (auto simp: stop_def Let_def dest!: call_constructed split: if_splits prod.splits)

lemma start_constructed:
  assumes "start c m = (r, m')"
  shows "constructed m' = insert c (constructed m)"
proof -
  obtain b1 m1 where 1: "call (ENew c) m = (b1, m1)" by force
  obtain b2 m2 where 2: "call (EStart c) m1 = (b2, m2)" by force
  obtain b3 m3 where 3: "call (EStop c) (record_event (ECancel c) m2) = (b3, m3)" by force
  note eq = assms [unfolded start_def 1 Let_def prod.case 2 3]
  have "constructed m1 = insert c (constructed m)" "constructed m2 = constructed m1"
    "constructed m3 = constructed m2"
    using call_constructed [OF 1] call_constructed [OF 2] call_constructed [OF 3] by simp_all
  moreover have "m' = m1 \<or> m' = m3 \<or> m' = m3\<lparr>degraded := True\<rparr> \<or> m' = m2\<lparr>active := insert c (active m2)\<rparr>"
    using eq by (cases b1; cases b2; cases b3) simp_all
  ultimately show ?thesis by (elim disjE) simp_all
qed

lemma restore_stops_constructed:
  "restore_stops old cs (bad, m) = (bad', m') \<Longrightarrow> constructed m' = constructed m"
proof (induction old cs "(bad, m)" arbitrary: bad m rule: restore_stops.induct)
  case (2 old c cs bad m)
  then show ?case
    by (fastforce dest: stop_constructed split: if_splits prod.splits option.splits)
qed simp

lemma restore_starts_constructed:
  "restore_starts old cs (bad, m) = (bad', m') \<Longrightarrow> constructed m' \<subseteq> constructed m \<union> {c \<in> set cs. on old c}"
proof (induction old cs "(bad, m)" arbitrary: bad m rule: restore_starts.induct)
  case (2 old c cs bad m)
  then show ?case
    by (fastforce dest: start_constructed split: if_splits prod.splits option.splits)
qed simp

lemma apply_stops_constructed: "apply_stops d cs m = (ok, m') \<Longrightarrow> constructed m' = constructed m"
  by (induction d cs m rule: apply_stops.induct)
    (auto dest: stop_constructed split: if_splits prod.splits option.splits)

lemma apply_starts_constructed:
  "apply_starts d cs m = (ok, m') \<Longrightarrow> constructed m' \<subseteq> constructed m \<union> {c \<in> set cs. on d c}"
proof (induction d cs m rule: apply_starts.induct)
  case (2 d c cs m)
  then show ?case
    by (fastforce dest: start_constructed split: if_splits prod.splits option.splits)
qed simp

lemma close_loop_constructed: "close_loop cs (res, m) = (res', m') \<Longrightarrow> constructed m' = constructed m"
proof (induction cs "(res, m)" arbitrary: res m rule: close_loop.induct)
  case (2 c cs res m)
  then show ?case
    by (fastforce dest: stop_constructed split: prod.splits option.splits)
qed simp

lemma apply_fail_constructed:
  assumes "apply_fail old d m = (r, m')"
  shows "constructed m' \<subseteq> constructed m \<union> on_set old"
proof -
  obtain b1 m1 where 1: "restore_stops old AllCaps (False, m) = (b1, m1)" by force
  obtain b2 m2 where 2: "restore_starts old AllCaps (b1, m1) = (b2, m2)" by force
  have "constructed m' = constructed m2"
    using assms 1 2 by (auto simp: apply_fail_def restore_def Let_def split: if_splits)
  with restore_stops_constructed [OF 1] restore_starts_constructed [OF 2] show ?thesis
    by (auto simp: on_set_def)
qed

lemma apply_transition_constructed:
  assumes "apply_transition ctx d m = (r, m')"
  shows "constructed m' \<subseteq> constructed m \<union> on_set d \<union> on_set (current m)"
proof -
  obtain b1 m1 where 1: "apply_stops d AllCaps m = (b1, m1)" by force
  obtain b2 m2 where 2: "apply_starts d AllCaps m1 = (b2, m2)" by force
  obtain b3 m3 where 3: "(if has_store m2 then call (ESave (version d)) m2 else (True, m2)) = (b3, m3)"
    by force
  have c1: "constructed m1 = constructed m" by (rule apply_stops_constructed [OF 1])
  have c2: "constructed m2 \<subseteq> constructed m \<union> on_set d"
    using apply_starts_constructed [OF 2] c1 by (auto simp: on_set_def)
  have c3: "constructed m3 = constructed m2"
    using 3 by (auto dest: call_constructed split: if_splits)
  note eq = assms [unfolded apply_transition_def Clone_id Let_def 1 prod.case 2 3]
  consider "apply_fail (current m) d m1 = (r, m')" | "apply_fail (current m) d m2 = (r, m')"
    | "apply_fail (current m) d (m3\<lparr>degraded := True\<rparr>) = (r, m')"
    | "m' = record_event (EAudit ''policy_applied'' (version d)) (m3\<lparr>current := d\<rparr>)"
    using eq by (auto split: if_splits)
  then have "constructed m' \<subseteq> constructed m1 \<union> on_set (current m)
      \<or> constructed m' \<subseteq> constructed m2 \<union> on_set (current m)
      \<or> constructed m' \<subseteq> constructed m3 \<union> on_set (current m)"
    by cases (auto dest!: apply_fail_constructed)
  with c1 c2 c3 show ?thesis by auto
qed

section \<open>Runs of the manager\<close>

text \<open>
  A step is one call of \<open>Apply\<close> or \<open>Close\<close>; the manager's mutex makes them atomic. The list of
  answers of the initial manager is arbitrary, so the runs range over every way in which
  constructors, starts, stops and saves can succeed or fail.
\<close>

inductive mgr_step :: "manager \<Rightarrow> manager \<Rightarrow> bool" where
  apply_step: "Apply ctx d m = (r, m') \<Longrightarrow> mgr_step m m'"
| close_step: "Close m = (r, m') \<Longrightarrow> mgr_step m m'"

inductive mgr_run :: "manager \<Rightarrow> manager \<Rightarrow> bool" where
  stay: "mgr_run m m"
| more: "mgr_run m m1 \<Longrightarrow> mgr_step m1 m2 \<Longrightarrow> mgr_run m m2"

inductive_cases mgr_stepE: "mgr_step m m'"

lemma mgr_step_inv: "mgr_step m m' \<Longrightarrow> mgr_inv m \<Longrightarrow> mgr_inv m'"
  by (auto elim!: mgr_stepE dest: Apply_effect Close_effect)

lemma mgr_run_inv: "mgr_run m m' \<Longrightarrow> mgr_inv m \<Longrightarrow> mgr_inv m'"
  by (induction rule: mgr_run.induct) (auto intro: mgr_step_inv)

lemma mgr_step_registry: "mgr_step m m' \<Longrightarrow> mgr_inv m \<Longrightarrow> registry m' = registry m"
  by (auto elim!: mgr_stepE dest: Apply_effect Close_effect)

lemma mgr_step_constructed:
  assumes "mgr_step m m'" and "mgr_inv m"
  shows "constructed m' \<subseteq> constructed m \<union> {c. registered (registry m) c}"
  using assms(1)
proof cases
  case (apply_step ctx d r)
  from apply_step show ?thesis
  proof (cases rule: Apply_cases)
    case transition
    with apply_transition_constructed [OF transition(1)] assms(2) show ?thesis
      by (fastforce simp: mgr_inv_def)
  qed auto
next
  case (close_step r)
  then show ?thesis
    using close_loop_constructed [of AllCaps None "m\<lparr>m_closed := True\<rparr>" r m'] by (simp add: Close_def)
qed

lemma mgr_run_constructed:
  "mgr_run m m' \<Longrightarrow> mgr_inv m \<Longrightarrow>
   registry m' = registry m \<and> constructed m' \<subseteq> constructed m \<union> {c. registered (registry m) c}"
proof (induction rule: mgr_run.induct)
  case (stay m)
  then show ?case by simp
next
  case (more m m1 m2)
  then have "mgr_inv m1" by (blast intro: mgr_run_inv)
  with more mgr_step_constructed [of m1 m2] mgr_step_registry [of m1 m2] show ?case by auto
qed

lemma mgr_step_version: "mgr_step m m' \<Longrightarrow> mgr_inv m \<Longrightarrow> version (current m) \<le> version (current m')"
proof (erule mgr_stepE)
  fix ctx d r
  assume inv: "mgr_inv m" and "Apply ctx d m = (r, m')"
  from this(2) show "version (current m) \<le> version (current m')"
  proof (cases rule: Apply_cases)
    case transition
    from apply_transition_effect [OF transition(1) inv transition(3,6)] transition(4)
    show ?thesis by (auto split: if_splits)
  qed auto
qed (auto dest: Close_effect)

lemma mgr_step_degraded:
  assumes "mgr_step m m'" and "degraded m"
  shows "degraded m' \<and> current m' = current m"
  using assms(1)
proof cases
  case (apply_step ctx d r)
  then have "m' = m" using assms(2) by (auto simp: Apply_def)
  then show ?thesis using assms(2) by simp
next
  case (close_step r)
  show ?thesis
  proof -
    have "same_policy a b" if "close_loop cs (res, a) = (res', b)" for cs res a res' b
      using that
    proof (induction cs "(res, a)" arbitrary: res a rule: close_loop.induct)
      case (2 c cs res m)
      then show ?case
        by (auto split: prod.splits option.splits dest!: stop_same intro: same_policy_trans)
    qed auto
    from this [OF close_step [unfolded Close_def]] assms(2) show ?thesis
      by (simp add: same_policy_def)
  qed
qed

section \<open>The manager is a policy applier\<close>

interpretation mgr: policy_applier "Apply ctx" current holding mgr_inv for ctx
proof unfold_locales
  fix s d r s'
  assume "mgr_inv s" and "Apply ctx d s = (r, s')"
  then show "mgr_inv s'" by (blast dest: Apply_effect)
next
  fix s d s'
  assume "mgr_inv s" and "Apply ctx d s = (None, s')"
  then show "version (current s') = version d \<and> on_set (current s') = on_set d" "holding s' = on_set d"
    by (auto dest: Apply_effect)
next
  fix s d e s'
  assume "mgr_inv s" and "Apply ctx d s = (Some e, s')"
  then show "current s' = current s"
    by (auto dest: Apply_effect)
qed

section \<open>Properties of the manager\<close>

definition reachable_mgr :: "manager \<Rightarrow> bool" where
  "reachable_mgr m \<longleftrightarrow> (\<exists>reg store ans. mgr_run (New_manager reg store ans) m)"

lemma reachable_mgr_inv: "reachable_mgr m \<Longrightarrow> mgr_inv m"
  by (auto simp: reachable_mgr_def intro: mgr_run_inv mgr_inv_New)

lemma reachable_mgr_New: "reachable_mgr (New_manager reg store ans)"
  by (auto simp: reachable_mgr_def intro: mgr_run.intros)

lemma reachable_mgr_step: "reachable_mgr m \<Longrightarrow> mgr_step m m' \<Longrightarrow> reachable_mgr m'"
  by (auto simp: reachable_mgr_def intro: mgr_run.intros)

lemma news_mono: "c \<in> S \<Longrightarrow> c \<in> fold news_after es S"
proof (induction es arbitrary: S)
  case (Cons e es)
  then show ?case by (cases e) auto
qed simp

lemma news_in_fold: "ENew c b \<in> set es \<Longrightarrow> c \<in> fold news_after es S"
  by (induction es arbitrary: S) (auto intro: news_mono)

text \<open>A concrete registry and policy, for the witnesses below.\<close>

definition sample_registry :: registry where
  "sample_registry =
     [(''metrics'', \<lparr>r_descriptor = \<lparr>d_capability = ''metrics'', d_access = [], implemented = True\<rparr>, new_nonnil = True\<rparr>),
      (''logs'', \<lparr>r_descriptor = \<lparr>d_capability = ''logs'', d_access = [], implemented = True\<rparr>, new_nonnil = True\<rparr>)]"

definition sample_doc :: "u64 \<Rightarrow> bool \<Rightarrow> bool \<Rightarrow> document" where
  "sample_doc v m l = \<lparr>version = v, enabled = [(''metrics'', m), (''logs'', l)]\<rparr>"

definition quiet_ctx :: apply_ctx where
  "quiet_ctx = \<lparr>ctx_done = False, root_done = False, ctx_done_late = False\<rparr>"

definition sample_mgr :: "bool list \<Rightarrow> manager" where
  "sample_mgr ans = snd (Apply quiet_ctx (sample_doc 1 True False) (New_manager sample_registry True ans))"

lemma sample_mgr_reachable: "reachable_mgr (sample_mgr ans)"
  unfolding sample_mgr_def
  by (rule reachable_mgr_step [OF reachable_mgr_New mgr_step.apply_step [OF surjective_pairing]])

lemma u64_two_not_le_one: "\<not> (2 :: u64) \<le> 1"
  by (simp add: word_le_nat_alt)

lemmas mgr_eval = u64_two_not_le_one sample_mgr_def sample_registry_def sample_doc_def quiet_ctx_def New_manager_def
  Apply_def apply_transition_def apply_fail_def restore_def start_def stop_def call_def record_event_def
  Validate_def Known_def Equal_def on_def registered_def AllCaps_def capability_defs zero_document_def
  Let_def holding_def on_set_def

text \<open>
  C12: In every reachable state, whatever the collectors, the store and the contexts did, a manager
  that is neither degraded nor closed runs exactly the capabilities of the document in force: no
  started collector is leaked and none is missing.
\<close>

theorem running_equals_policy:
  assumes "reachable_mgr m" and "\<not> degraded m" and "\<not> m_closed m"
  shows "holding m = on_set (current m)"
  using mgr_inv_holding [OF reachable_mgr_inv [OF assms(1)] assms(2,3)] .

theorem running_equals_policy_witness:
  "holding (sample_mgr []) = on_set (current (sample_mgr [])) \<and> holding (sample_mgr []) = {''metrics''}"
  using running_equals_policy [OF sample_mgr_reachable, of "[]"] by (simp add: mgr_eval)

text \<open>
  An application that reports success has put a document with the given version and the given
  enabled capabilities in force, runs exactly those capabilities, and leaves the manager healthy.
\<close>

theorem Apply_success:
  assumes "reachable_mgr m" and "Apply ctx d m = (None, m')"
  shows "version (current m') = version d \<and> on_set (current m') = on_set d \<and> holding m' = on_set d
    \<and> \<not> degraded m'"
  using Apply_effect [OF assms(2) reachable_mgr_inv [OF assms(1)]] by simp

theorem Apply_success_witness:
  "holding (snd (Apply quiet_ctx (sample_doc 2 False True) (sample_mgr []))) = {''logs''}"
  using Apply_success [OF sample_mgr_reachable, of quiet_ctx "sample_doc 2 False True" "[]"
      "snd (Apply quiet_ctx (sample_doc 2 False True) (sample_mgr []))"]
  by (simp add: mgr_eval)

text \<open>
  C13: An application that reports an error never commits the new document. On a manager that was
  serving, it either leaves the manager degraded, or every collector of the prior policy runs again
  and no collector of the failed one is left behind.
\<close>

theorem Apply_failure_rolls_back:
  assumes "reachable_mgr m" and "Apply ctx d m = (Some e, m')" and "\<not> m_closed m"
  shows "current m' = current m \<and> (degraded m' \<or> holding m' = on_set (current m))"
proof -
  from Apply_effect [OF assms(2) reachable_mgr_inv [OF assms(1)]] assms(3)
  have "mgr_inv m' \<and> \<not> m_closed m' \<and> current m' = current m" by simp
  then show ?thesis using mgr_inv_holding by auto
qed

theorem Apply_failure_rolls_back_witness:
  "let m = sample_mgr [True, True, True, True, True, False];
       (r, m') = Apply quiet_ctx (sample_doc 2 False True) m
   in r = Some (Failure ''policy apply failed; prior policy retained'')
      \<and> \<not> degraded m' \<and> holding m' = {''metrics''}"
  using Apply_failure_rolls_back [OF sample_mgr_reachable, of quiet_ctx "sample_doc 2 False True"
      "[True, True, True, True, True, False]"
      "Failure ''policy apply failed; prior policy retained''"
      "snd (Apply quiet_ctx (sample_doc 2 False True) (sample_mgr [True, True, True, True, True, False]))"]
  by (simp add: mgr_eval)

text \<open>
  No run ever invokes the constructor of a capability that is not registered, implemented and
  described under its own name: a policy naming one is refused before any collector is touched.
\<close>

theorem only_registered_constructed:
  assumes "mgr_run (New_manager reg store ans) m"
  shows "\<forall>c b. ENew c b \<in> set (events m) \<longrightarrow> registered reg c"
proof -
  have "constructed m \<subseteq> {c. registered reg c}"
    using mgr_run_constructed [OF assms mgr_inv_New] by (simp add: New_manager_def constructed_def)
  moreover have "ENew c b \<in> set (events m) \<Longrightarrow> c \<in> constructed m" for c b
    unfolding constructed_def by (rule news_in_fold)
  ultimately show ?thesis by blast
qed

theorem only_registered_constructed_witness:
  "ENew ''metrics'' True \<in> set (events (sample_mgr [])) \<and> registered sample_registry ''metrics''"
proof -
  have run: "mgr_run (New_manager sample_registry True []) (sample_mgr [])"
    unfolding sample_mgr_def
    by (rule mgr_run.more [OF mgr_run.stay mgr_step.apply_step [OF surjective_pairing]])
  have "ENew ''metrics'' True \<in> set (events (sample_mgr []))" by (simp add: mgr_eval)
  with only_registered_constructed [OF run] show ?thesis by blast
qed

text \<open>
  From any reachable state the version of the document in force never decreases, and once the
  manager is degraded no call changes the document in force or clears the flag.
\<close>

theorem version_monotone_degraded_sticky:
  assumes "reachable_mgr m" and "mgr_run m m'"
  shows "version (current m) \<le> version (current m') \<and> (degraded m \<longrightarrow> degraded m' \<and> current m' = current m)"
  using assms(2,1)
proof (induction rule: mgr_run.induct)
  case (stay m)
  then show ?case by simp
next
  case (more m m1 m2)
  have "mgr_inv m1" using mgr_run_inv [OF more(1) reachable_mgr_inv [OF more(4)]] .
  with more mgr_step_version [of m1 m2] mgr_step_degraded [of m1 m2] show ?case by force
qed

theorem version_monotone_degraded_sticky_witness:
  "version (current (sample_mgr [])) = 1
      \<and> version (current (sample_mgr [])) \<le> version (current (snd (Apply quiet_ctx (sample_doc 2 False True) (sample_mgr []))))"
  using version_monotone_degraded_sticky [OF sample_mgr_reachable
      mgr_run.more [OF mgr_run.stay mgr_step.apply_step [OF surjective_pairing]], of "[]" quiet_ctx "sample_doc 2 False True"]
  by (simp add: mgr_eval)

text \<open>
  C29: \<open>Close\<close> closes the manager for good; if it reports no error on a manager that is not degraded, no
  collector holds resources any more, and if it reports one the manager is degraded.
\<close>

theorem Close_releases_all:
  assumes "reachable_mgr m" and "Close m = (r, m')"
  shows "m_closed m' \<and> (r \<noteq> None \<longrightarrow> degraded m') \<and> (r = None \<and> \<not> degraded m \<longrightarrow> holding m' = {})"
  using Close_effect [OF assms(2) reachable_mgr_inv [OF assms(1)]] by (auto split: if_splits)

theorem Close_releases_all_witness:
  "fst (Close (sample_mgr [])) = None \<and> holding (snd (Close (sample_mgr []))) = {}
   \<and> fst (Close (sample_mgr [True, True, True, False])) \<noteq> None"
  using Close_releases_all [OF sample_mgr_reachable surjective_pairing, of "[]"]
  by (simp add: mgr_eval Close_def)

end
