(* ===== verification/Fleet.thy ===== *)
theory Fleet
  imports Manager
begin

text \<open>
  Model of the remote-policy gate of \<^verbatim>\<open>internal/fleet/fleet.go\<close>. The verifier is an interface with
  no implementation in the repository, so it is a parameter: a function from the received bytes to
  an error or an envelope. The applier is an interface too; what the gate relies on is the locale
  \<open>policy_applier\<close>, which the lifecycle manager provides.
\<close>

section \<open>State\<close>

definition MaxPolicyBytes :: nat where "MaxPolicyBytes = 65536"

text \<open>Times are nanoseconds.\<close>

record envelope =
  OrganizationID :: bytes
  InstallationID :: bytes
  ExpiresAt :: int
  e_policy :: document

record gate =
  organization :: bytes
  installation :: bytes
  allowed :: "(capability \<times> bool) list"
  verifier :: "(bytes \<Rightarrow> envelope result) option"
  has_applier :: bool

definition NewGate :: "bytes \<Rightarrow> bytes \<Rightarrow> capability list \<Rightarrow> (bytes \<Rightarrow> envelope result) option \<Rightarrow> bool \<Rightarrow> gate" where
  "NewGate org inst allow v a =
     \<lparr>organization = org, installation = inst, allowed = map (\<lambda>c. (c, True)) allow, verifier = v, has_applier = a\<rparr>"

definition gate_allows :: "gate \<Rightarrow> capability \<Rightarrow> bool" where
  "gate_allows g c = (case map_of (allowed g) c of None \<Rightarrow> False | Some b \<Rightarrow> b)"

section \<open>Acceptance\<close>

text \<open>\<open>apply_doc\<close> is the applier, \<open>now\<close> the value of the gate's clock.\<close>

definition Accept ::
  "(document \<Rightarrow> 's \<Rightarrow> error option \<times> 's) \<Rightarrow> gate \<Rightarrow> int \<Rightarrow> bytes \<Rightarrow> 's \<Rightarrow> error option \<times> 's" where
  "Accept apply_doc g now raw s =
     (if raw = [] \<or> MaxPolicyBytes < length raw \<or> verifier g = None \<or> \<not> has_applier g
         \<or> organization g = [] \<or> installation g = []
      then (Some (Failure ''remote policy unavailable''), s)
      else case the (verifier g) raw of
        Inl _ \<Rightarrow> (Some (Failure ''remote policy authentication failed''), s)
      | Inr e \<Rightarrow>
          if OrganizationID e \<noteq> organization g \<or> InstallationID e \<noteq> installation g
          then (Some (Failure ''remote policy scope mismatch''), s)
          else if \<not> now < ExpiresAt e then (Some (Failure ''remote policy expired''), s)
          else case Validate (e_policy e) of
            Some err \<Rightarrow> (Some err, s)
          | None \<Rightarrow>
              if list_ex (\<lambda>(c, _). on (e_policy e) c \<and> \<not> gate_allows g c) (enabled (e_policy e))
              then (Some (Failure ''remote capability exceeds local allowance''), s)
              else apply_doc (e_policy e) s)"

text \<open>What an envelope must satisfy to reach the applier.\<close>

definition admissible :: "gate \<Rightarrow> int \<Rightarrow> bytes \<Rightarrow> envelope \<Rightarrow> bool" where
  "admissible g now raw e \<longleftrightarrow>
     (\<exists>v. verifier g = Some v \<and> v raw = Inr e) \<and> raw \<noteq> [] \<and> length raw \<le> MaxPolicyBytes \<and>
     OrganizationID e = organization g \<and> InstallationID e = installation g \<and>
     organization g \<noteq> [] \<and> installation g \<noteq> [] \<and> now < ExpiresAt e \<and>
     Validate (e_policy e) = None \<and> (\<forall>c. on (e_policy e) c \<longrightarrow> gate_allows g c)"

lemma on_in_enabled: "on p c \<Longrightarrow> (c, True) \<in> set (enabled p)"
  by (auto simp: on_def dest: map_of_SomeD split: option.splits)

lemma allowance_check:
  "list_ex (\<lambda>(c, _). on p c \<and> \<not> gate_allows g c) (enabled p) \<longleftrightarrow> \<not> (\<forall>c. on p c \<longrightarrow> gate_allows g c)"
proof
  assume "\<not> (\<forall>c. on p c \<longrightarrow> gate_allows g c)"
  then obtain c where "on p c" "\<not> gate_allows g c" by blast
  with on_in_enabled [of p c] show "list_ex (\<lambda>(c, _). on p c \<and> \<not> gate_allows g c) (enabled p)"
    unfolding list_ex_iff by (intro bexI [of _ "(c, True)"]) simp_all
qed (auto simp: list_ex_iff)

lemma Accept_admissible:
  assumes "admissible g now raw e" and "has_applier g"
  shows "Accept ap g now raw s = ap (e_policy e) s"
proof -
  have "\<not> list_ex (\<lambda>(c, _). on (e_policy e) c \<and> \<not> gate_allows g c) (enabled (e_policy e))"
    using assms(1) by (simp add: allowance_check admissible_def)
  with assms show ?thesis
    by (auto simp: Accept_def admissible_def)
qed

lemma Accept_inadmissible:
  assumes "\<not> (has_applier g \<and> (\<exists>e. admissible g now raw e))"
  shows "fst (Accept ap g now raw s) \<noteq> None \<and> snd (Accept ap g now raw s) = s"
proof (cases "raw = [] \<or> MaxPolicyBytes < length raw \<or> verifier g = None \<or> \<not> has_applier g
    \<or> organization g = [] \<or> installation g = []")
  case True
  then show ?thesis by (simp add: Accept_def)
next
  case False
  then obtain v where v: "verifier g = Some v" by auto
  show ?thesis
  proof (cases "v raw")
    case (Inl e)
    with False v show ?thesis by (simp add: Accept_def)
  next
    case (Inr e)
    with False v assms have "OrganizationID e \<noteq> organization g \<or> InstallationID e \<noteq> installation g
        \<or> \<not> now < ExpiresAt e \<or> Validate (e_policy e) \<noteq> None \<or> \<not> (\<forall>c. on (e_policy e) c \<longrightarrow> gate_allows g c)"
      by (auto simp: admissible_def not_less)
    with False v Inr show ?thesis
      by (auto simp: Accept_def allowance_check split: option.splits)
  qed
qed

lemma Accept_cases:
  assumes "Accept ap g now raw s = (r, s')"
  obtains (refused) e where "r = Some e" "s' = s"
  | (applied) e where "admissible g now raw e" "ap (e_policy e) s = (r, s')"
  using assms Accept_admissible [of g now raw _ ap s] Accept_inadmissible [of g now raw ap s]
  by fastforce

lemma gate_allows_NewGate: "gate_allows (NewGate org inst allow v a) c \<longleftrightarrow> c \<in> set allow"
proof -
  have "map_of (map (\<lambda>c. (c, True)) allow) c = (if c \<in> set allow then Some True else None)"
    by (induction allow) auto
  then show ?thesis by (simp add: gate_allows_def NewGate_def)
qed

section \<open>What the gate guarantees over any applier\<close>

context policy_applier begin

lemma accept_preserves: "invar s \<Longrightarrow> Accept apply_doc g now raw s = (r, s') \<Longrightarrow> invar s'"
  by (erule Accept_cases) (auto intro: invar_apply)

lemma accept_nil:
  assumes "invar s" and "Accept apply_doc g now raw s = (None, s')"
  obtains e where "admissible g now raw e" "version (in_force s') = version (e_policy e)"
    "doing s' = on_set (e_policy e)" "doing s' \<subseteq> {c. gate_allows g c}"
  using assms(2)
proof (cases rule: Accept_cases)
  case (applied e)
  with apply_nil_in_force [OF assms(1)] apply_nil_doing [OF assms(1)] that [OF applied(1)]
  show ?thesis by (force simp: admissible_def on_set_def)
qed simp

lemma accept_err_in_force:
  "invar s \<Longrightarrow> Accept apply_doc g now raw s = (Some e, s') \<Longrightarrow> in_force s' = in_force s"
  by (erule Accept_cases) (auto intro: apply_err_in_force)

end

section \<open>Properties of the gate in front of the lifecycle manager\<close>

text \<open>
  C14: When the gate accepts a remote document, its bytes were within the size limit and verified into
  an unexpired envelope for this organization and installation with a valid policy, and the manager
  now runs exactly the policy's capabilities, each of which the local configuration allows.
\<close>

theorem Accept_within_allowance:
  assumes "reachable_mgr m"
    and "Accept (Apply ctx) (NewGate org inst allow v True) now raw m = (None, m')"
  shows "\<exists>e. admissible (NewGate org inst allow v True) now raw e
    \<and> version (current m') = version (e_policy e) \<and> holding m' = on_set (e_policy e)
    \<and> holding m' \<subseteq> set allow"
proof -
  from mgr.accept_nil [OF reachable_mgr_inv [OF assms(1)] assms(2)] show ?thesis
    by (metis gate_allows_NewGate mem_Collect_eq subset_iff)
qed

definition sample_verifier :: "bytes \<Rightarrow> envelope result" where
  "sample_verifier raw =
     (if raw = ''signed''
      then Inr \<lparr>OrganizationID = ''org'', InstallationID = ''inst'', ExpiresAt = 100, e_policy = sample_doc 2 False True\<rparr>
      else Inl (Failure ''bad signature''))"

definition sample_gate :: "capability list \<Rightarrow> gate" where
  "sample_gate allow = NewGate ''org'' ''inst'' allow (Some sample_verifier) True"

lemmas gate_eval = mgr_eval sample_gate_def NewGate_def sample_verifier_def Accept_def MaxPolicyBytes_def
  gate_allows_def

theorem Accept_within_allowance_witness:
  "fst (Accept (Apply quiet_ctx) (sample_gate [''logs'']) 50 ''signed'' (sample_mgr [])) = None
   \<and> holding (snd (Accept (Apply quiet_ctx) (sample_gate [''logs'']) 50 ''signed'' (sample_mgr []))) \<subseteq> {''logs''}"
proof -
  have nil: "fst (Accept (Apply quiet_ctx) (sample_gate [''logs'']) 50 ''signed'' (sample_mgr [])) = None"
    by (simp add: gate_eval)
  then have "Accept (Apply quiet_ctx) (NewGate ''org'' ''inst'' [''logs''] (Some sample_verifier) True) 50 ''signed'' (sample_mgr [])
      = (None, snd (Accept (Apply quiet_ctx) (sample_gate [''logs'']) 50 ''signed'' (sample_mgr [])))"
    by (simp add: sample_gate_def prod_eq_iff)
  from Accept_within_allowance [OF sample_mgr_reachable this] nil show ?thesis by auto
qed

text \<open>
  When the gate refuses or the application fails, the document in force is unchanged; when the
  bytes do not verify into an admissible envelope, the manager is not touched at all.
\<close>

theorem Accept_refusal_is_inert:
  assumes "reachable_mgr m" and "Accept (Apply ctx) g now raw m = (Some e, m')"
  shows "current m' = current m \<and> (\<not> (\<exists>env. admissible g now raw env) \<longrightarrow> m' = m)"
  using mgr.accept_err_in_force [OF reachable_mgr_inv [OF assms(1)] assms(2)]
    Accept_inadmissible [of g now raw "Apply ctx" m] assms(2) by auto

theorem Accept_refusal_is_inert_witness:
  "snd (Accept (Apply quiet_ctx) (sample_gate [''metrics'']) 50 ''signed'' (sample_mgr [])) = sample_mgr []
   \<and> fst (Accept (Apply quiet_ctx) (sample_gate [''metrics'']) 50 ''signed'' (sample_mgr []))
       = Some (Failure ''remote capability exceeds local allowance'')"
proof -
  let ?g = "sample_gate [''metrics'']"
  have err: "fst (Accept (Apply quiet_ctx) ?g 50 ''signed'' (sample_mgr []))
       = Some (Failure ''remote capability exceeds local allowance'')"
    by (simp add: gate_eval)
  have "on (sample_doc 2 False True) ''logs'' \<and> \<not> gate_allows ?g ''logs''"
    by (simp add: gate_eval)
  then have "\<not> (\<exists>env. admissible ?g 50 ''signed'' env)"
    by (auto simp: admissible_def sample_gate_def NewGate_def sample_verifier_def)
  then show ?thesis
    using err Accept_refusal_is_inert [OF sample_mgr_reachable, of quiet_ctx ?g 50 "''signed''" "[]" _
        "snd (Accept (Apply quiet_ctx) ?g 50 ''signed'' (sample_mgr []))"]
    by (metis prod.collapse)
qed

end
