(* ===== verification/PolicyStore.thy ===== *)
theory PolicyStore
  imports Fleet Checkpoint
begin

text \<open>
  The stored policy: the state files of the platform (\<^verbatim>\<open>Read\<close> and \<^verbatim>\<open>Replace\<close> of
  \<^verbatim>\<open>src/internal/platform/native_linux.go\<close>) and the local store of \<^verbatim>\<open>src/internal/fleet/fleet.go\<close> over
  them. What the store relies on is the locale \<open>state_files\<close>, which the platform provides.
\<close>

section \<open>State files of the platform\<close>

text \<open>
  \<^verbatim>\<open>os.Open\<close>. A link would lead out of the directory and a directory cannot be read; the model
  answers with an error for both.
\<close>

definition os_open :: "bytes \<Rightarrow> unit io" where
  "os_open n = syscall (\<lambda>s. case live s n of None \<Rightarrow> (Inl NotExist, s)
     | Some f \<Rightarrow> if f_kind f = Regular then (Inr (), s) else (Inl OSError, s))"

text \<open>\<open>cancelled\<close> is whether \<^verbatim>\<open>ctx.Err()\<close> is set.\<close>

definition StateRead :: "bool \<Rightarrow> bytes \<Rightarrow> bytes io" where
  "StateRead cancelled name =
     (if cancelled then raise Canceled
      else andThen (os_open name) (\<lambda>_. andThen (read_all name 65537) (\<lambda>b.
        if 65536 < length b then raise (Failure ''state exceeds bound'') else ret b)))"

text \<open>\<^verbatim>\<open>os.CreateTemp\<close> tries random names, which are an argument, as long as they exist.\<close>

definition temp_name :: "32 word \<Rightarrow> bytes" where
  "temp_name r = ''.agent-state-'' @ dec (unat r)"

fun CreateTemp :: "32 word list \<Rightarrow> bytes io" where
  "CreateTemp [] s = raise OSError s"
| "CreateTemp (r # rs) s =
     (if live s (temp_name r) \<noteq> None \<and> fate_of s = Fine then CreateTemp rs (spend s)
      else andThen (create_excl (temp_name r)) (\<lambda>_. ret (temp_name r)) s)"

text \<open>
  The answers of the system to one call of \<^verbatim>\<open>Replace\<close>: \<^verbatim>\<open>os.Lstat\<close> of the directory, the random names, and
  the two checks of the context.
\<close>

record replace_env =
  re_dir :: "inode result"
  re_names :: "32 word list"
  re_first :: bool
  re_second :: bool

text \<open>\<^verbatim>\<open>d.Sync()\<close>; the deferred \<^verbatim>\<open>d.Close()\<close> is ignored.\<close>

definition sync_state_dir :: "unit io" where
  "sync_state_dir = andThen open_dir (\<lambda>_. andThen (attempt fsync_dir) (\<lambda>r.
     andThen (attempt close_file) (\<lambda>_. case r of Inl e \<Rightarrow> raise e | Inr _ \<Rightarrow> ret ())))"

text \<open>The body from the creation of the temporary file on, which is removed on every path.\<close>

definition replace_staged :: "bool \<Rightarrow> bytes \<Rightarrow> bytes \<Rightarrow> bytes \<Rightarrow> unit io" where
  "replace_staged cancelled temp name data =
     andThen (attempt
       (andThen (fill temp data) (\<lambda>_.
        if cancelled then raise Canceled
        else andThen (rename temp name) (\<lambda>_. sync_state_dir)))) (\<lambda>r.
     andThen (attempt (remove temp)) (\<lambda>_. case r of Inl e \<Rightarrow> raise e | Inr _ \<Rightarrow> ret ()))"

definition private_state_dir :: "nat \<Rightarrow> inode \<Rightarrow> bool" where
  "private_state_dir euid d \<longleftrightarrow> f_kind d = Directory \<and> f_mode d mod 64 = 0 \<and> f_uid d = euid"

definition StateReplace :: "bytes \<Rightarrow> replace_env \<Rightarrow> bytes \<Rightarrow> unit io" where
  "StateReplace name e data s =
     (if re_first e then raise Canceled s
      else if 65536 < length data then raise (Failure ''state exceeds bound'') s
      else case re_dir e of
        Inl x \<Rightarrow> raise x s
      | Inr d \<Rightarrow>
          if \<not> private_state_dir (fs_euid s) d
          then raise (Failure ''state directory must be private and owned by service user'') s
          else andThen (CreateTemp (take 10000 (re_names e)))
                 (\<lambda>temp. replace_staged (re_second e) temp name data) s)"

section \<open>Other primitives\<close>

definition ErrUnsupported :: error where
  "ErrUnsupported = Failure ''platform capability not implemented''"

text \<open>The device and inode that \<^verbatim>\<open>f.Stat()\<close> gives.\<close>

definition NativeID :: "(64 word \<times> 64 word) result \<Rightarrow> bytes result" where
  "NativeID st = (case st of Inl e \<Rightarrow> Inl e | Inr (dev, ino) \<Rightarrow> Inr (dec (unat dev) @ '':'' @ dec (unat ino)))"

definition NativeCheck :: "bool \<Rightarrow> bool \<Rightarrow> bytes \<Rightarrow> unit io" where
  "NativeCheck cancelled wr name =
     (if cancelled then raise Canceled
      else if wr then raise ErrUnsupported
      else andThen (attempt (os_open name)) (\<lambda>r. case r of
        Inl _ \<Rightarrow> raise (Failure ''read permission unavailable'') | Inr _ \<Rightarrow> close_file))"

lemma NativeID_identifies: "NativeID (Inr f) = NativeID (Inr g) \<Longrightarrow> f = g"
proof -
  assume a: "NativeID (Inr f) = NativeID (Inr g)"
  obtain d i d' i' where p: "f = (d, i)" "g = (d', i')" by (cases f, cases g)
  have t: "takeWhile (\<lambda>c. c \<noteq> CHR '':'') (dec n @ '':'' @ s) = dec n" for n s
    using dec_digits[of n] by (subst takeWhile_append2) (auto simp: list_all_iff is_digit_def)
  have e: "dec (unat d) @ '':'' @ dec (unat i) = dec (unat d') @ '':'' @ dec (unat i')" using a p by (simp add: NativeID_def)
  from arg_cong[where f = "takeWhile (\<lambda>c. c \<noteq> CHR '':'')", OF e] have "dec (unat d) = dec (unat d')" by (simp only: t)
  moreover from this e have "dec (unat i) = dec (unat i')" by simp
  ultimately have "undec (dec (unat d)) = undec (dec (unat d'))" "undec (dec (unat i)) = undec (dec (unat i'))" by simp_all
  then show ?thesis using p by (simp add: word_unat_eq_iff)
qed

text \<open>The check changes no file, now or after a crash, and reports one of three errors.\<close>

lemma NativeCheck_reads:
  "NativeCheck c w n s = (r, s') \<Longrightarrow> live s' = live s \<and> poss s' = poss s \<and>
     r \<in> {Inr (), Inl Canceled, Inl ErrUnsupported, Inl (Failure ''read permission unavailable''), Inl OSError}"
  by (auto simp: NativeCheck_def andThen_def attempt_def os_open_def syscall_def close_file_def raise_def spend_def live_def poss_def fun_eq_iff
      split: if_splits fate.splits option.splits sum.splits prod.splits)

section \<open>Policy documents as JSON\<close>

text \<open>A document keeps its map as a list of entries; \<open>is_nil\<close> tells whether a map without entries is the nil map.\<close>

definition json_document :: "bool \<Rightarrow> document \<Rightarrow> json" where
  "json_document is_nil p = JObj
     [(''version'', JNum (dec (unat (version p)))),
      (''enabled'', if is_nil \<and> enabled p = [] then JNull
         else JObj (map (\<lambda>(k, b). (quote_body k, JBool b)) (sort_key fst (enabled p))))]"

definition marshal_document :: "bool \<Rightarrow> document \<Rightarrow> bytes" where
  "marshal_document is_nil p = pr (json_document is_nil p)"

text \<open>Decoding into a map adds to it; a \<^verbatim>\<open>null\<close> makes it nil, and a \<^verbatim>\<open>null\<close> element is the zero value.\<close>

fun add_enabled :: "(bytes \<times> bytes) list \<Rightarrow> (capability \<times> bool) list \<Rightarrow> (capability \<times> bool) list option" where
  "add_enabled [] m = Some m"
| "add_enabled ((k, v) # kvs) m =
     (case get_bool v False of None \<Rightarrow> None | Some b \<Rightarrow> add_enabled kvs (AList.update k b m))"

definition get_enabled :: "bytes \<Rightarrow> (capability \<times> bool) list \<Rightarrow> (capability \<times> bool) list option" where
  "get_enabled v old =
     (case json_parse v of
        Some JNull \<Rightarrow> Some []
      | _ \<Rightarrow> (case json_fields v of None \<Rightarrow> None | Some kvs \<Rightarrow> add_enabled kvs old))"

definition set_policy_document :: "bytes \<Rightarrow> bytes \<Rightarrow> document \<Rightarrow> document option" where
  "set_policy_document f v p =
     (if f = ''version'' then map_option (\<lambda>x. p\<lparr>version := x\<rparr>) (get_u64 v (version p))
      else map_option (\<lambda>x. p\<lparr>enabled := x\<rparr>) (get_enabled v (enabled p)))"

definition unmarshal_policy_document :: "bytes \<Rightarrow> document option" where
  "unmarshal_policy_document b =
     (case json_fields b of None \<Rightarrow> None
      | Some kvs \<Rightarrow> set_fields [''version'', ''enabled''] set_policy_document kvs zero_document)"

section \<open>The local store\<close>

text \<open>
  \<open>repl\<close> and \<open>fetch\<close> are the state files at the store's path; \<open>None\<close> is no storage. \<^verbatim>\<open>json.Marshal\<close> has
  no error for a document.
\<close>

definition Save ::
  "('e \<Rightarrow> bytes \<Rightarrow> 's \<Rightarrow> unit result \<times> 's) option \<Rightarrow> 'e \<Rightarrow> bool \<Rightarrow> document \<Rightarrow> 's \<Rightarrow> unit result \<times> 's" where
  "Save repl e is_nil p s =
     (case repl of
        None \<Rightarrow> (Inl (Failure ''state storage unavailable''), s)
      | Some w \<Rightarrow>
          (case Validate p of Some x \<Rightarrow> (Inl x, s) | None \<Rightarrow> w e (marshal_document is_nil p) s))"

definition Load :: "('s \<Rightarrow> bytes result \<times> 's) option \<Rightarrow> 's \<Rightarrow> document result \<times> 's" where
  "Load fetch s =
     (case fetch of
        None \<Rightarrow> (Inl (Failure ''state storage unavailable''), s)
      | Some g \<Rightarrow>
          (case g s of
             (Inl x, s') \<Rightarrow> (Inl x, s')
           | (Inr raw, s') \<Rightarrow>
               if MaxPolicyBytes < length raw then (Inl (Failure ''stored policy too large''), s')
               else case unmarshal_policy_document raw of
                 None \<Rightarrow> (Inl (Failure ''stored policy invalid''), s')
               | Some p \<Rightarrow> (case Validate p of Some x \<Rightarrow> (Inl x, s') | None \<Rightarrow> (Inr p, s'))))"

section \<open>Encoding and decoding\<close>

lemma document_names_text: "list_all text_char ''version''" "list_all text_char ''enabled''"
  by (simp_all add: text_char_def plain_def char_consts)

lemma Known_text: "Known c \<Longrightarrow> list_all text_char c"
  by (auto simp: Known_iff AllCaps_def capability_defs text_char_def plain_def char_consts)

lemma add_enabled_append:
  "distinct (map fst m @ map fst kvs) \<Longrightarrow> add_enabled (map (\<lambda>(k, b). (k, pr (JBool b))) kvs) m = Some (m @ kvs)"
proof (induction kvs arbitrary: m)
  case (Cons kb kvs)
  obtain k b where kb: "kb = (k, b)" by fastforce
  have "AList.update k b m = m @ [(k, b)]" using Cons.prems(1) kb by (induction m) auto
  then show ?case using Cons.IH[of "m @ [(k, b)]"] Cons.prems kb by (simp add: get_bool_pr del: pr.simps)
qed simp

definition sorted_document :: "document \<Rightarrow> document" where
  "sorted_document p = p\<lparr>enabled := sort_key fst (enabled p)\<rparr>"

lemma unmarshal_marshal_policy:
  assumes v: "Validate p = None" and d: "distinct (map fst (enabled p))"
  shows "unmarshal_policy_document (marshal_document is_nil p) = Some (sorted_document p)"
proof -
  let ?m = "sort_key fst (enabled p)"
  let ?kvs = "map (\<lambda>(k, b). (quote_body k, JBool b)) ?m"
  define en where "en = (if is_nil \<and> enabled p = [] then JNull else JObj ?kvs)"
  have kn: "utf8_Valid k" if "(k, b) \<in> set ?m" for k b
    using v that utf8_text[OF Known_text] by (force simp: Validate_None_iff)
  have wf: "json_wf maxNestingDepth (JObj ?kvs)"
    by (auto simp: maxNestingDepth_def quote_body_body)
  have wfp: "json_wf maxNestingDepth (json_document is_nil p)"
    using json_wf_dec[of 9999 "unat (version p)"]
    by (auto simp: json_document_def maxNestingDepth_def quote_body_body document_names_text[THEN text_body])
  have f: "json_fields (marshal_document is_nil p) = Some [(''version'', pr (JNum (dec (unat (version p))))), (''enabled'', pr en)]"
    using json_fields_pr[OF wfp[unfolded json_document_def]]
    by (simp add: marshal_document_def json_document_def document_names_text[THEN unquote_text] en_def del: pr.simps)
  have fe: "json_fields (pr (JObj ?kvs)) = Some (map (\<lambda>(k, b). (k, pr (JBool b))) ?m)"
    using json_fields_pr[OF wf] kn by (auto simp: unquote_quote_body simp del: pr.simps)
  have "add_enabled (map (\<lambda>(k, b). (k, pr (JBool b))) ?m) [] = Some ?m"
    using add_enabled_append[of "[]" ?m] d by (simp add: distinct_map inj_on_def)
  moreover have "json_parse (pr JNull) = Some JNull" using json_parse_pr[of JNull] by simp
  ultimately have "get_enabled (pr en) [] = Some ?m"
    using fe json_parse_pr[OF wf] by (auto simp: get_enabled_def en_def simp del: pr.simps)
  moreover have "get_u64 (pr (JNum (dec (unat (version p))))) 0 = Some (version p)" using get_u64_dec by simp
  ultimately show ?thesis
    by (simp add: unmarshal_policy_document_def f match_field_def set_policy_document_def zero_document_def sorted_document_def del: pr.simps)
qed

lemma sorted_document_same:
  assumes "distinct (map fst (enabled p))"
  shows "version (sorted_document p) = version p" "on (sorted_document p) = on p"
    "Validate (sorted_document p) = Validate p" "Equal (sorted_document p) p"
  using map_of_sort_key[OF assms]
  by (simp_all add: sorted_document_def on_def fun_eq_iff Validate_def list_ex_iff Equal_def list_all_iff)

section \<open>The interface of the state files\<close>

text \<open>
  \<open>content\<close> is what the file holds now, \<open>after\<close> what it may hold after a crash. A replacement that
  succeeds leaves the new bytes, also after a crash; one that fails leaves the old or the new bytes. \<open>calm\<close>
  are the states without faults.
\<close>

locale state_files =
  fixes fetch :: "'s \<Rightarrow> bytes result \<times> 's"
    and repl :: "'e \<Rightarrow> bytes \<Rightarrow> 's \<Rightarrow> unit result \<times> 's"
    and content :: "'s \<Rightarrow> bytes option"
    and after :: "'s \<Rightarrow> bytes option set"
    and invar :: "'s \<Rightarrow> bool"
    and calm :: "'s \<Rightarrow> bool"
  assumes read_content: "invar s \<Longrightarrow> fetch s = (Inr b, s') \<Longrightarrow> content s = Some b"
    and read_calm: "invar s \<Longrightarrow> calm s \<Longrightarrow> content s = Some b \<Longrightarrow> fetch s = (Inr b, s)"
    and write_ok: "invar s \<Longrightarrow> repl e b s = (Inr (), s') \<Longrightarrow> content s' = Some b \<and> after s' = {Some b}"
    and write_failed:
      "invar s \<Longrightarrow> repl e b s = (Inl x, s') \<Longrightarrow> content s' \<in> {content s, Some b} \<and> after s' \<subseteq> insert (Some b) (insert (content s) (after s))"
    and write_bound: "invar s \<Longrightarrow> repl e b s = (r, s') \<Longrightarrow> invar s'"
begin

text \<open>What a reader of the file finds is a valid document, whatever the file holds.\<close>

lemma load_valid: "Load (Some fetch) s = (Inr p, s') \<Longrightarrow> Validate p = None"
  by (auto simp: Load_def split: prod.splits sum.splits option.splits if_splits)

lemma load_marshalled:
  assumes "invar s" "calm s" "content s = Some (marshal_document n p)" "length (marshal_document n p) \<le> MaxPolicyBytes"
    "Validate p = None" "distinct (map fst (enabled p))"
  shows "Load (Some fetch) s = (Inr (sorted_document p), s)"
  using assms read_calm[OF assms(1-3)] unmarshal_marshal_policy[OF assms(5,6), of n] sorted_document_same(3)[OF assms(6)]
  by (simp add: Load_def)

text \<open>The contents the file may have after a run of saves.\<close>

lemma save_after:
  assumes s: "invar s" and acc: "content s \<in> acc" "after s \<subseteq> acc" and sv: "Save (Some repl) e n p s = (r, s')"
  shows "invar s' \<and> content s' \<in> (if r = Inr () then {Some (marshal_document n p)}
      else if Validate p = None then insert (Some (marshal_document n p)) acc else acc) \<and>
    after s' \<subseteq> (if r = Inr () then {Some (marshal_document n p)}
      else if Validate p = None then insert (Some (marshal_document n p)) acc else acc)"
proof (cases "Validate p")
  case (Some x)
  then show ?thesis using sv s acc by (auto simp: Save_def)
next
  case None
  then have w: "repl e (marshal_document n p) s = (r, s')" using sv by (simp add: Save_def)
  then have "invar s'" using write_bound s by blast
  moreover have ?thesis if "r = Inr ()" using write_ok[OF s w[unfolded that]] that \<open>invar s'\<close> by simp
  moreover have ?thesis if "r = Inl x" for x
    using write_failed[OF s w[unfolded that]] that \<open>invar s'\<close> acc None by auto
  ultimately show ?thesis by (cases r) auto
qed

end

section \<open>A run of saves\<close>

text \<open>
  A run saves one document after the other. It keeps the documents a later reader may find: the last one that
  was saved and those whose save failed since; \<open>True\<close> says that none was saved yet, so that the initial content
  is still possible.
\<close>

type_synonym possible = "bool \<times> document list"

fun remember :: "document \<Rightarrow> unit result \<Rightarrow> possible \<Rightarrow> possible" where
  "remember p (Inr _) _ = (False, [p])"
| "remember p (Inl _) (old, ps) = (old, if Validate p = None then p # ps else ps)"

fun save_run ::
  "('e \<Rightarrow> bytes \<Rightarrow> 's \<Rightarrow> unit result \<times> 's) \<Rightarrow> ('e \<times> bool \<times> document) list \<Rightarrow> possible \<Rightarrow> 's \<Rightarrow> possible \<times> 's" where
  "save_run repl [] q s = (q, s)"
| "save_run repl ((e, n, p) # xs) q s =
     (case Save (Some repl) e n p s of (r, s') \<Rightarrow> save_run repl xs (remember p r q) s')"

definition contents_of :: "bytes option set \<Rightarrow> possible \<Rightarrow> bytes option set" where
  "contents_of init q = (if fst q then init else {}) \<union>
     {Some (marshal_document n p) | n p. p \<in> set (snd q) \<and> Validate p = None}"

lemma contents_of_remember:
  "(if r = Inr () then {Some (marshal_document n p)}
      else if Validate p = None then insert (Some (marshal_document n p)) (contents_of init q) else contents_of init q)
    \<subseteq> contents_of init (remember p r q)" if "r = Inr () \<longrightarrow> Validate p = None"
  using that by (cases r; cases q) (auto simp: contents_of_def)



lemma save_valid: "Save w e n p s = (Inr (), s') \<Longrightarrow> Validate p = None"
  by (auto simp: Save_def split: option.splits)

context state_files begin

lemma run_after:
  "save_run repl xs q s = (q', s') \<Longrightarrow> invar s \<Longrightarrow> content s \<in> contents_of init q \<Longrightarrow> after s \<subseteq> contents_of init q \<Longrightarrow>
   invar s' \<and> content s' \<in> contents_of init q' \<and> after s' \<subseteq> contents_of init q'"
proof (induction xs arbitrary: q s)
  case (Cons x xs)
  obtain e n p where x: "x = (e, n, p)" by (cases x) auto
  obtain r s1 where sv: "Save (Some repl) e n p s = (r, s1)" by fastforce
  have ok: "r = Inr () \<longrightarrow> Validate p = None" using save_valid[of "Some repl" e n p s s1] sv by auto
  have "invar s1 \<and> content s1 \<in> contents_of init (remember p r q) \<and> after s1 \<subseteq> contents_of init (remember p r q)"
    using save_after[OF Cons.prems(2-4) sv] contents_of_remember[OF ok, of n init q] by blast
  then show ?case using Cons.IH[of "remember p r q" s1] Cons.prems(1) x sv by simp
qed simp

end

lemma save_run_docs:
  "save_run w xs (old, qs) s = ((old', ps), s') \<Longrightarrow> set ps \<subseteq> set qs \<union> (\<lambda>(e, n, p). p) ` set xs"
proof (induction xs arbitrary: old qs s)
  case (Cons x xs)
  obtain e n p where x: "x = (e, n, p)" by (cases x) auto
  obtain r s1 where sv: "Save (Some w) e n p s = (r, s1)" by fastforce
  obtain o1 q1 where q: "remember p r (old, qs) = (o1, q1)" by fastforce
  then have "set q1 \<subseteq> insert p (set qs)" by (cases r) (auto split: if_splits)
  then show ?case using Cons.IH[of o1 q1 s1] Cons.prems x sv q by auto
qed simp

section \<open>The platform provides it\<close>

lemma os_open_state: "os_open n s = (r, s') \<Longrightarrow> s' = spend s"
  unfolding os_open_def by (drule syscall_cases) (auto split: option.splits if_splits)

lemma frames_sync_state_dir [inv_intros]: "frames T sync_state_dir"
  unfolding sync_state_dir_def by (intro inv_intros)

lemma sync_state_dir_Inr: "sync_state_dir s = (Inr u, s') \<Longrightarrow> live s' = live s \<and> (\<forall>n. poss s' n = {live s n})"
proof -
  assume a: "sync_state_dir s = (Inr u, s')"
  obtain x s1 where o1: "open_dir s = (x, s1)" by fastforce
  obtain y s2 where o2: "fsync_dir s1 = (y, s2)" by fastforce
  obtain z s3 where o3: "close_file s2 = (z, s3)" by fastforce
  have "x = Inr ()" "y = Inr ()" "s' = s3" using a o1 o2 o3
    by (cases x; cases y; simp add: sync_state_dir_def andThen_def attempt_def raise_def ret_def)+
  then show ?thesis
    using live_frames_nil[OF frames_reads(6) o1] o2 close_file_state[OF o3] fsync_dir_Inr[of s1 "()" s2] by simp
qed

lemma CreateTemp_Inr:
  "CreateTemp rs s = (Inr t, s') \<Longrightarrow> t \<in> range temp_name \<and> live s t = None \<and> framed {t} s s' \<and> live s' t = Some (fresh_file s)"
proof (induction rs arbitrary: s)
  case (Cons r rs)
  show ?case
  proof (cases "live s (temp_name r) \<noteq> None \<and> fate_of s = Fine")
    case True
    then show ?thesis using Cons.IH[of "spend s"] Cons.prems framed_trans[OF spend_simps(8)]
      by (auto simp: fresh_file_def)
  next
    case False
    from Cons.prems have "andThen (create_excl (temp_name r)) (\<lambda>_. ret (temp_name r)) s = (Inr t, s')"
      unfolding CreateTemp.simps if_not_P[OF False] .
    then show ?thesis using framesD[OF frames_create(1)[of "temp_name r" "{temp_name r}"]]
      by (auto simp: andThen_Inr dest: create_excl_Inr)
  qed
qed simp

lemma CreateTemp_Inl: "CreateTemp rs s = (Inl x, s') \<Longrightarrow> framed {} s s'"
proof (induction rs arbitrary: s)
  case (Cons r rs)
  show ?case
  proof (cases "live s (temp_name r) \<noteq> None \<and> fate_of s = Fine")
    case True
    then show ?thesis using Cons.IH[of "spend s"] Cons.prems framed_trans[OF spend_simps(8)] by auto
  next
    case False
    from Cons.prems have "andThen (create_excl (temp_name r)) (\<lambda>_. ret (temp_name r)) s = (Inl x, s')"
      unfolding CreateTemp.simps if_not_P[OF False] .
    then show ?thesis by (auto simp: andThen_Inl dest: create_excl_Inl)
  qed
qed simp

lemma replace_staged_atomic:
  assumes r: "replace_staged c t n d s = (r, s')" and l: "live s t = Some f" and n: "n \<noteq> t"
  defines "g \<equiv> f\<lparr>f_data := f_data f @ d, f_synced := True\<rparr>"
  shows "live s' n \<in> {live s n, Some g}" "poss s' n \<subseteq> insert (live s n) (insert (Some g) (poss s n))"
    "r = Inr () \<longrightarrow> live s' n = Some g \<and> poss s' n = {Some g}" "fs_euid s' = fs_euid s"
proof -
  let ?body = "andThen (fill t d) (\<lambda>_. if c then raise Canceled else andThen (rename t n) (\<lambda>_. sync_state_dir))"
  obtain x s1 where b: "?body s = (x, s1)" by fastforce
  obtain y where y: "remove t s1 = (y, s')" "r = (case x of Inl e \<Rightarrow> Inl e | Inr _ \<Rightarrow> Inr ())"
    using r b by (auto simp: replace_staged_def andThen_def attempt_def raise_def ret_def split: prod.splits sum.splits)
  have fr: "framed {t} s1 s'" using framesD[OF frames_remove y(1)] by simp
  obtain z s2 where fl: "fill t d s = (z, s2)" by fastforce
  have f2: "live s2 n = live s n" "poss s2 n \<subseteq> insert (live s n) (poss s n)" "fs_euid s2 = fs_euid s"
    using framesD[OF frames_fill fl, of "{t}"] n by (simp_all add: framed_def)
  have key: "(live s1 n = live s n \<and> poss s1 n \<subseteq> insert (live s n) (poss s n) \<and> x \<noteq> Inr ()
      \<or> live s1 n = Some g \<and> poss s1 n \<subseteq> insert (live s n) (insert (Some g) (poss s n)) \<and> (x = Inr () \<longrightarrow> poss s1 n = {Some g}))
      \<and> fs_euid s1 = fs_euid s"
  proof (cases z)
    case (Inl e)
    then have "s1 = s2" "x = Inl e" using b fl by (auto simp: andThen_def)
    then show ?thesis using f2 by auto
  next
    case (Inr u)
    note l2 = fill_Inr[OF fl[unfolded Inr] l]
    obtain v s3 where re: "rename t n s2 = (v, s3)" by fastforce
    show ?thesis
    proof (cases "c \<or> v \<noteq> Inr ()")
      case True
      then have "s1 = s2 \<or> s1 = spend s2" "x \<noteq> Inr ()" using b fl Inr re rename_Inl[of t n s2 _ s3]
        by (cases c; cases v; auto simp: andThen_def raise_def)+
      then show ?thesis using f2 by auto
    next
      case False
      then have sy: "sync_state_dir s3 = (x, s1)" using b fl Inr re by (simp add: andThen_def)
      have l3: "live s3 n = Some g" "poss s3 n = insert (Some g) (poss s2 n)"
        using rename_Inr[of t n s2 "()" s3] re False n l2 by (auto simp: g_def)
      have "fs_euid s3 = fs_euid s2" using framesD[OF frames_rename[of t "{t, n}" n] re] by (simp add: framed_def)
      have f1: "live s1 n = live s3 n" "poss s1 n \<subseteq> insert (live s3 n) (poss s3 n)" "fs_euid s1 = fs_euid s3"
        using framesD[OF frames_sync_state_dir sy, of "{}"] by (simp_all add: framed_def)
      have "x = Inr () \<longrightarrow> poss s1 n = {Some g}" using sync_state_dir_Inr[of s3 "()" s1] sy l3 by auto
      moreover have "poss s1 n \<subseteq> insert (live s n) (insert (Some g) (poss s n))" using f1(2) l3 f2(2) by blast
      ultimately show ?thesis using f1 f2(3) l3 \<open>fs_euid s3 = fs_euid s2\<close> by simp
    qed
  qed
  with fr n show "live s' n \<in> {live s n, Some g}" "poss s' n \<subseteq> insert (live s n) (insert (Some g) (poss s n))" "fs_euid s' = fs_euid s"
    by (auto simp: framed_def)
  have "poss s' n = {Some g}" "live s' n = Some g" if "r = Inr ()"
  proof -
    have "x = Inr ()" using y(2) that by (cases x) auto
    then have "live s1 n = Some g" "poss s1 n = {Some g}" using key by auto
    moreover have "live s' n = live s1 n" "poss s' n \<subseteq> insert (live s1 n) (poss s1 n)" using fr n by (simp_all add: framed_def)
    ultimately show "live s' n = Some g" "poss s' n = {Some g}" using poss_nonempty[of s' n] by auto
  qed
  then show "r = Inr () \<longrightarrow> live s' n = Some g \<and> poss s' n = {Some g}" by simp
qed

section \<open>The contract of the platform\<close>

definition entry_ok :: "inode option \<Rightarrow> bool" where
  "entry_ok v \<longleftrightarrow> (\<forall>f. v = Some f \<longrightarrow> f_kind f = Regular \<and> f_synced f \<and> length (f_data f) \<le> 65536)"

definition state_content :: "bytes \<Rightarrow> fs \<Rightarrow> bytes option" where
  "state_content name s = map_option f_data (live s name)"

definition state_after :: "bytes \<Rightarrow> fs \<Rightarrow> bytes option set" where
  "state_after name s = map_option f_data ` poss s name"

definition state_invar :: "bytes \<Rightarrow> fs \<Rightarrow> bool" where
  "state_invar name s \<longleftrightarrow> name \<notin> range temp_name \<and> entry_ok (live s name) \<and> (\<forall>v \<in> poss s name. entry_ok v)"

definition faultless :: "fs \<Rightarrow> bool" where
  "faultless s \<longleftrightarrow> fs_fates s = []"

lemma StateReplace_effect:
  assumes w: "StateReplace name e b s = (r, s')" and i: "state_invar name s"
  shows "(\<exists>g. f_data g = b \<and> entry_ok (Some g) \<and> live s' name \<in> {live s name, Some g} \<and>
      poss s' name \<subseteq> insert (live s name) (insert (Some g) (poss s name)) \<and>
      (r = Inr () \<longrightarrow> live s' name = Some g \<and> poss s' name = {Some g}))
    \<or> r \<noteq> Inr () \<and> live s' name = live s name \<and> poss s' name \<subseteq> insert (live s name) (poss s name)"
proof (cases "\<exists>t s1. CreateTemp (take 10000 (re_names e)) s = (Inr t, s1) \<and> length b \<le> 65536
    \<and> replace_staged (re_second e) t name b s1 = (r, s')")
  case True
  then obtain t s1 where t: "CreateTemp (take 10000 (re_names e)) s = (Inr t, s1)" "length b \<le> 65536"
    "replace_staged (re_second e) t name b s1 = (r, s')" by blast
  note c = CreateTemp_Inr[OF t(1)]
  have ne: "name \<noteq> t" using c i by (auto simp: state_invar_def)
  have f1: "live s1 name = live s name" "poss s1 name \<subseteq> insert (live s name) (poss s name)"
    using c ne by (auto simp: framed_def)
  have l: "live s1 t = Some (fresh_file s)" using c by simp
  define g where "g = (fresh_file s)\<lparr>f_data := f_data (fresh_file s) @ b, f_synced := True\<rparr>"
  have g: "f_data g = b" "entry_ok (Some g)" using t(2) by (simp_all add: g_def fresh_file_def entry_ok_def)
  note a = replace_staged_atomic[OF t(3) l ne, folded g_def]
  have "live s' name \<in> {live s name, Some g}" "poss s' name \<subseteq> insert (live s name) (insert (Some g) (poss s name))"
    using a(1,2) f1 by auto
  with g a(3) show ?thesis by (intro disjI1 exI[of _ g] conjI) simp_all
next
  case False
  then have "r \<noteq> Inr () \<and> framed {} s s'" using w CreateTemp_Inl[of "take 10000 (re_names e)" s _ s']
    by (fastforce simp: StateReplace_def andThen_def split: if_splits sum.splits prod.splits)
  then show ?thesis by (auto simp: framed_def)
qed

lemma StateRead_content: "StateRead c name s = (Inr b, s') \<Longrightarrow> state_invar name s \<Longrightarrow> state_content name s = Some b"
  by (auto simp: StateRead_def andThen_Inr state_content_def state_invar_def entry_ok_def
      dest!: os_open_state read_all_Inr split: if_splits)

lemma StateRead_faultless:
  assumes "state_invar name s" "faultless s" "state_content name s = Some b"
  shows "StateRead False name s = (Inr b, s)"
proof -
  obtain f where f: "live s name = Some f" "f_data f = b" using assms(3) by (auto simp: state_content_def)
  moreover have "f_kind f = Regular" "length b \<le> 65536" using assms(1) f by (auto simp: state_invar_def entry_ok_def)
  moreover have "spend s = s" "fate_of s = Fine" using assms(2) by (simp_all add: faultless_def spend_def fate_of_def)
  ultimately show ?thesis
    by (simp add: StateRead_def andThen_def os_open_def read_all_def syscall_def ret_def)
qed

interpretation native: state_files "StateRead False name" "StateReplace name" "state_content name" "state_after name"
    "state_invar name" faultless for name
proof unfold_locales
  fix s s' e b r x
  show "state_invar name s \<Longrightarrow> StateRead False name s = (Inr b, s') \<Longrightarrow> state_content name s = Some b"
    by (rule StateRead_content)
  show "state_invar name s \<Longrightarrow> faultless s \<Longrightarrow> state_content name s = Some b \<Longrightarrow> StateRead False name s = (Inr b, s)"
    by (rule StateRead_faultless)
  show "state_invar name s \<Longrightarrow> StateReplace name e b s = (Inr (), s') \<Longrightarrow>
      state_content name s' = Some b \<and> state_after name s' = {Some b}"
    by (drule (1) StateReplace_effect[rotated]) (auto simp: state_content_def state_after_def)
  show "state_invar name s \<Longrightarrow> StateReplace name e b s = (Inl x, s') \<Longrightarrow> state_content name s' \<in> {state_content name s, Some b} \<and>
      state_after name s' \<subseteq> insert (Some b) (insert (state_content name s) (state_after name s))"
    by (drule (1) StateReplace_effect[rotated]) (auto simp: state_content_def state_after_def)
  show "state_invar name s \<Longrightarrow> StateReplace name e b s = (r, s') \<Longrightarrow> state_invar name s'"
    using StateReplace_effect[of name e b s r s'] by (auto simp: state_invar_def)
qed

text \<open>The file system of a restarted machine.\<close>

definition restarted :: "fs \<Rightarrow> fs \<Rightarrow> bool" where
  "restarted s s2 \<longleftrightarrow> reboots s s2 \<and> fs_recent s2 = [] \<and> map_of (fs_disk s2) = live s2"

lemma restarted_content:
  assumes "restarted s s2" "state_invar name s"
  shows "state_invar name s2" "faultless s2" "state_content name s2 \<in> state_after name s"
proof -
  obtain v where v: "v \<in> poss s name" "survives v (live s2 name)" using assms(1) by (auto simp: restarted_def reboots_def crash_image_def)
  moreover from this have "live s2 name = v" using assms(2)
    by (auto simp: state_invar_def entry_ok_def survives_def split: option.splits)
  moreover have "poss s2 name = {live s2 name}" using assms(1) by (simp add: restarted_def poss_def)
  ultimately show "state_invar name s2" "faultless s2" "state_content name s2 \<in> state_after name s" using assms
    by (auto simp: state_invar_def faultless_def restarted_def reboots_def state_content_def state_after_def)
qed

section \<open>The stored policy\<close>

text \<open>
  C17: After any run of saves, each with any failure of the system, the machine may crash: what the local store
  loads then is the last document that was saved or one whose save failed since, in full and equal to what was
  given; as long as no save succeeded the file may also be as it was at first.
\<close>

theorem stored_policy_survives_crash:
  assumes run: "save_run (StateReplace name) xs (True, []) s = ((old, ps), s')"
    and inv: "state_invar name s" and docs: "\<forall>(e, n, p) \<in> set xs. distinct (map fst (enabled p))"
    and crash: "restarted s' s2"
  shows "(\<exists>p \<in> set ps. Load (Some (StateRead False name)) s2 = (Inr (sorted_document p), s2) \<and> Equal (sorted_document p) p)
    \<or> old \<and> state_content name s2 \<in> insert (state_content name s) (state_after name s)"
proof -
  let ?init = "insert (state_content name s) (state_after name s)"
  have a: "state_invar name s'" "state_after name s' \<subseteq> contents_of ?init (old, ps)"
    using native.run_after[OF run inv, of ?init] by (simp_all add: contents_of_def subset_insertI)
  have d: "\<forall>p \<in> set ps. distinct (map fst (enabled p))" using save_run_docs[OF run] docs by force
  note b = restarted_content[OF crash a(1)]
  have "state_content name s2 \<in> contents_of ?init (old, ps)" using b(3) a(2) by blast
  then consider "old" "state_content name s2 \<in> ?init"
    | n p where "p \<in> set ps" "Validate p = None" "state_content name s2 = Some (marshal_document n p)"
    by (auto simp: contents_of_def split: if_splits)
  then show ?thesis
  proof cases
    case 2
    have "length (marshal_document n p) \<le> MaxPolicyBytes"
      using b(1) 2(3) by (auto simp: state_invar_def entry_ok_def state_content_def MaxPolicyBytes_def)
    then show ?thesis using native.load_marshalled[OF b(1,2) 2(3) _ 2(2)] d 2(1) sorted_document_same(4) by blast
  qed blast
qed

section \<open>A run that fails once\<close>

definition sample_replace :: replace_env where
  "sample_replace = \<lparr>re_dir = Inr \<lparr>f_kind = Directory, f_mode = 448, f_uid = 0, f_nlink = 2, f_data = [], f_synced = True\<rparr>,
     re_names = [7], re_first = False, re_second = False\<rparr>"

definition sample_policy :: "u64 \<Rightarrow> document" where
  "sample_policy v = \<lparr>version = v, enabled = [(Metrics, True), (Logs, False)]\<rparr>"

text \<open>The directory sync of the first save fails, after its rename.\<close>

definition sample_state_fs :: fs where
  "sample_state_fs = \<lparr>fs_dir = [], fs_disk = [], fs_recent = [], fs_fates = [Fine, Fine, Fine, Fine, Fine, Fine, Fault 0],
     fs_euid = 0, fs_locked = False\<rparr>"

lemma sample_replaced:
  assumes "length b \<le> 65536"
  shows "\<exists>s' g. StateReplace ''policy.json'' sample_replace b sample_state_fs = (Inl OSError, s')
    \<and> fs_dir s' = [(''policy.json'', g)] \<and> f_data g = b \<and> f_synced g \<and> fs_disk s' = [] \<and> (''policy.json'', Some g) \<in> set (fs_recent s')"
  using assms
  by (simp add: sample_state_fs_def sample_replace_def StateReplace_def private_state_dir_def temp_name_def live_def fate_of_def
      andThen_def attempt_def ret_def raise_def create_excl_def syscall_def spend_def fresh_file_def put_entry_def ins_def
      replace_staged_def fill_def write_all_def fsync_def set_data_def close_file_def rename_def remove_def sync_state_dir_def
      open_dir_def fsync_dir_def)

lemma sample_marshalled: "length (marshal_document False (sample_policy 1)) \<le> 65536"
proof -
  have "quote_body Metrics = Metrics" "quote_body Logs = Logs"
    using quote_body_text[OF Known_text] by (simp_all add: Known_iff AllCaps_def)
  moreover have "dec 1 = ''1''" by code_simp
  ultimately show ?thesis by (simp add: marshal_document_def json_document_def sample_policy_def capability_defs)
qed

lemma sample_saved:
  "Save (Some (StateReplace ''policy.json'')) sample_replace False (sample_policy 1) s
     = StateReplace ''policy.json'' sample_replace (marshal_document False (sample_policy 1)) s"
  by (simp add: Save_def sample_policy_def Validate_def Known_def AllCaps_def capability_defs)

lemma policy_name: "''policy.json'' \<notin> range temp_name"
  by (auto simp: temp_name_def)

lemma survived_restart:
  assumes "fs_dir s = [(n, g)]" "f_synced g" "fs_disk s = []" "(n, Some g) \<in> set (fs_recent s)"
  shows "restarted s (s\<lparr>fs_disk := fs_dir s, fs_recent := [], fs_fates := []\<rparr>)"
  using assms by (auto simp: restarted_def reboots_def crash_image_def live_def poss_def survives_def)

theorem stored_policy_survives_crash_witness:
  "\<exists>s' s2. save_run (StateReplace ''policy.json'') [(sample_replace, False, sample_policy 1)] (True, []) sample_state_fs
      = ((True, [sample_policy 1]), s') \<and> restarted s' s2 \<and>
     Load (Some (StateRead False ''policy.json'')) s2 = (Inr (sorted_document (sample_policy 1)), s2)"
proof -
  from sample_replaced[OF sample_marshalled] obtain s' g where s': "StateReplace ''policy.json'' sample_replace
      (marshal_document False (sample_policy 1)) sample_state_fs = (Inl OSError, s')" "fs_dir s' = [(''policy.json'', g)]"
    "f_data g = marshal_document False (sample_policy 1)" "f_synced g" "fs_disk s' = []" "(''policy.json'', Some g) \<in> set (fs_recent s')"
    by blast
  define s2 where "s2 = s'\<lparr>fs_disk := fs_dir s', fs_recent := [], fs_fates := []\<rparr>"
  have rs: "restarted s' s2" using survived_restart[OF s'(2,4,5,6)] by (simp add: s2_def)
  have "Validate (sample_policy 1) = None" by (simp add: sample_policy_def Validate_def Known_def AllCaps_def capability_defs)
  then have run: "save_run (StateReplace ''policy.json'') [(sample_replace, False, sample_policy 1)] (True, []) sample_state_fs
      = ((True, [sample_policy 1]), s')" using s'(1) by (simp add: sample_saved)
  have "state_invar ''policy.json'' sample_state_fs"
    using policy_name by (simp add: state_invar_def entry_ok_def sample_state_fs_def live_def poss_def)
  from stored_policy_survives_crash[OF run this _ rs] have
    "Load (Some (StateRead False ''policy.json'')) s2 = (Inr (sorted_document (sample_policy 1)), s2)
      \<or> state_content ''policy.json'' s2 = None"
    by (auto simp: sample_policy_def capability_defs state_content_def state_after_def sample_state_fs_def live_def poss_def)
  moreover have "state_content ''policy.json'' s2 \<noteq> None" using s'(2) by (simp add: s2_def state_content_def live_def)
  ultimately show ?thesis using run rs by blast
qed

end
