(* ===== verification/DuplicateKeys.thy ===== *)
theory DuplicateKeys
  imports JsonFacts
begin

text \<open>
  The check of a JSON configuration for repeated keys (\<^verbatim>\<open>rejectDuplicateKeys\<close> of
  \<^verbatim>\<open>src/internal/config/config.go\<close>) over the token stream of Go's \<^verbatim>\<open>json.Decoder\<close>: what it accepts, and
  that it always answers.
\<close>

section \<open>The token stream\<close>

datatype token_state =
    TopValue | ArrayStart | ArrayValue | ArrayComma | ObjectStart | ObjectKey | ObjectColon | ObjectValue | ObjectComma

record decoder =
  dc_rest :: bytes
  dc_state :: token_state
  dc_stack :: "token_state list"

text \<open>A token is a delimiter, a string or another scalar, which the check does not look at.\<close>

datatype token = Delim char | Text bytes | Scalar

datatype token_answer = Token token | EndOfInput | BadToken

definition value_allowed :: "token_state \<Rightarrow> bool" where
  "value_allowed st \<longleftrightarrow> st \<in> {TopValue, ArrayStart, ArrayValue, ObjectValue}"

fun value_end :: "token_state \<Rightarrow> token_state" where
  "value_end ArrayStart = ArrayComma"
| "value_end ArrayValue = ArrayComma"
| "value_end ObjectValue = ObjectComma"
| "value_end st = st"

text \<open>
  A number becomes a \<^verbatim>\<open>float64\<close>, which is an error when it is too large: \<^verbatim>\<open>strconv.ParseFloat\<close> rounds to an
  infinity from \<open>2 ^ 1024 - 2 ^ 970\<close> on. It stops reading an exponent at 10000.
\<close>

definition clipped_exponent :: "bytes \<Rightarrow> nat" where
  "clipped_exponent ds = foldl (\<lambda>e c. if e < 10000 then 10 * e + digit_val c else e) 0 ds"

definition float_ok :: "bytes \<Rightarrow> bool" where
  "float_ok l =
     (let s = (if HasPrefix l ''-'' then tl l else l);
          i = takeWhile is_digit s; r = dropWhile is_digit s;
          f = (if HasPrefix r ''.'' then takeWhile is_digit (tl r) else []);
          x = (if f = [] then r else drop (Suc (length f)) r);
          e = (case x of
                 [] \<Rightarrow> 0
               | _ # y \<Rightarrow> if HasPrefix y ''-'' then - int (clipped_exponent (tl y))
                          else if HasPrefix y ''+'' then int (clipped_exponent (tl y)) else int (clipped_exponent y));
          k = e - int (length f); m = undec (i @ f)
      in if 0 \<le> k then m * 10 ^ nat k < 2 ^ 1024 - 2 ^ 970 else m < (2 ^ 1024 - 2 ^ 970) * 10 ^ nat (- k))"

definition scalar_ok :: "json \<Rightarrow> bool" where
  "scalar_ok v = (case v of JNum l \<Rightarrow> float_ok l | _ \<Rightarrow> True)"

definition close_value :: "bytes \<Rightarrow> decoder \<Rightarrow> decoder" where
  "close_value r d = d\<lparr>dc_rest := r, dc_state := value_end (hd (dc_stack d)), dc_stack := tl (dc_stack d)\<rparr>"

lemma skip_ws_le: "length (skip_ws s) \<le> length s"
  by (simp add: skip_ws_def length_dropWhile_le)

text \<open>\<^verbatim>\<open>Decoder.Token\<close>; what it decodes after all delimiters are set aside is a scalar.\<close>

function next_token :: "decoder \<Rightarrow> token_answer \<times> decoder" where
  "next_token d =
     (case skip_ws (dc_rest d) of
        [] \<Rightarrow> (EndOfInput, d)
      | c # r \<Rightarrow>
          if c = CHR ''['' then
            (if value_allowed (dc_state d)
             then (Token (Delim c), d\<lparr>dc_rest := r, dc_state := ArrayStart, dc_stack := dc_state d # dc_stack d\<rparr>)
             else (BadToken, d))
          else if c = CHR '']'' then
            (if dc_state d \<in> {ArrayStart, ArrayComma} then (Token (Delim c), close_value r d) else (BadToken, d))
          else if c = CHR ''{'' then
            (if value_allowed (dc_state d)
             then (Token (Delim c), d\<lparr>dc_rest := r, dc_state := ObjectStart, dc_stack := dc_state d # dc_stack d\<rparr>)
             else (BadToken, d))
          else if c = CHR ''}'' then
            (if dc_state d \<in> {ObjectStart, ObjectComma} then (Token (Delim c), close_value r d) else (BadToken, d))
          else if c = CHR '':'' then
            (if dc_state d = ObjectColon then next_token (d\<lparr>dc_rest := r, dc_state := ObjectValue\<rparr>) else (BadToken, d))
          else if c = CHR '','' then
            (if dc_state d = ArrayComma then next_token (d\<lparr>dc_rest := r, dc_state := ArrayValue\<rparr>)
             else if dc_state d = ObjectComma then next_token (d\<lparr>dc_rest := r, dc_state := ObjectKey\<rparr>)
             else (BadToken, d))
          else if c = QUOTE \<and> dc_state d \<in> {ObjectStart, ObjectKey} then
            (case scan_str r of
               None \<Rightarrow> (BadToken, d)
             | Some (k, r') \<Rightarrow> (Token (Text (unquote k)), d\<lparr>dc_rest := r', dc_state := ObjectColon\<rparr>))
          else if \<not> value_allowed (dc_state d) then (BadToken, d)
          else (case pval 1 0 (c # r) of
                  None \<Rightarrow> (BadToken, d)
                | Some (v, r') \<Rightarrow>
                    if scalar_ok v
                    then (Token (case v of JStr b \<Rightarrow> Text (unquote b) | _ \<Rightarrow> Scalar),
                          d\<lparr>dc_rest := r', dc_state := value_end (dc_state d)\<rparr>)
                    else (BadToken, d)))"
  by pat_completeness auto
termination
proof (relation "measure (\<lambda>d. length (dc_rest d))", simp)
  fix d c r assume "skip_ws (dc_rest d) = c # r"
  then show "(d\<lparr>dc_rest := r, dc_state := ObjectValue\<rparr>, d) \<in> measure (\<lambda>d. length (dc_rest d))"
    "(d\<lparr>dc_rest := r, dc_state := ArrayValue\<rparr>, d) \<in> measure (\<lambda>d. length (dc_rest d))"
    "(d\<lparr>dc_rest := r, dc_state := ObjectKey\<rparr>, d) \<in> measure (\<lambda>d. length (dc_rest d))"
    using skip_ws_le[of "dc_rest d"] by simp_all
qed

declare next_token.simps [simp del]

text \<open>\<^verbatim>\<open>Decoder.More\<close>.\<close>

definition more_tokens :: "decoder \<Rightarrow> bool" where
  "more_tokens d = (case skip_ws (dc_rest d) of [] \<Rightarrow> False | c # _ \<Rightarrow> c \<noteq> CHR '']'' \<and> c \<noteq> CHR ''}'')"

section \<open>The check\<close>

datatype dup_error = DuplicateKey | ScanError | TrailingContent

definition scan_outcome :: "token_answer \<Rightarrow> dup_error option" where
  "scan_outcome a = (case a of Token _ \<Rightarrow> None | _ \<Rightarrow> Some ScanError)"

text \<open>
  The recursion of \<open>value\<close> and its two loops. The first argument is fuel: \<open>None\<close> is running out of it, which
  never happens with \<open>dup_fuel\<close>.
\<close>

fun dup_value :: "nat \<Rightarrow> decoder \<Rightarrow> (dup_error option \<times> decoder) option"
  and dup_members :: "nat \<Rightarrow> bytes list \<Rightarrow> decoder \<Rightarrow> (dup_error option \<times> decoder) option"
  and dup_elems :: "nat \<Rightarrow> decoder \<Rightarrow> (dup_error option \<times> decoder) option"
where
  "dup_value 0 d = None"
| "dup_value (Suc n) d =
     (case next_token d of
        (Token t, d1) \<Rightarrow>
          if t = Delim (CHR ''{'') then dup_members n [] d1
          else if t = Delim (CHR ''['') then dup_elems n d1 else Some (None, d1)
      | (_, d1) \<Rightarrow> Some (Some ScanError, d1))"
| "dup_members 0 seen d = None"
| "dup_members (Suc n) seen d =
     (if more_tokens d then
        (case next_token d of
           (Token t, d1) \<Rightarrow>
             (case t of
                Text k \<Rightarrow>
                  if k \<in> set seen then Some (Some DuplicateKey, d1)
                  else (case dup_value n d1 of
                          None \<Rightarrow> None
                        | Some (Some e, d2) \<Rightarrow> Some (Some e, d2)
                        | Some (None, d2) \<Rightarrow> dup_members n (k # seen) d2)
              | _ \<Rightarrow> Some (Some DuplicateKey, d1))
         | (_, d1) \<Rightarrow> Some (Some ScanError, d1))
      else case next_token d of (a, d1) \<Rightarrow> Some (scan_outcome a, d1))"
| "dup_elems 0 d = None"
| "dup_elems (Suc n) d =
     (if more_tokens d then
        (case dup_value n d of
           None \<Rightarrow> None
         | Some (Some e, d2) \<Rightarrow> Some (Some e, d2)
         | Some (None, d2) \<Rightarrow> dup_elems n d2)
      else case next_token d of (a, d1) \<Rightarrow> Some (scan_outcome a, d1))"

definition start_decoder :: "bytes \<Rightarrow> decoder" where
  "start_decoder raw = \<lparr>dc_rest = raw, dc_state = TopValue, dc_stack = []\<rparr>"

definition dup_fuel :: "bytes \<Rightarrow> nat" where
  "dup_fuel raw = 2 * length raw + 2"

definition rejectDuplicateKeys :: "bytes \<Rightarrow> dup_error option" where
  "rejectDuplicateKeys raw =
     (case dup_value (dup_fuel raw) (start_decoder raw) of
        None \<Rightarrow> Some ScanError
      | Some (Some e, _) \<Rightarrow> Some e
      | Some (None, d) \<Rightarrow> (case next_token d of (EndOfInput, _) \<Rightarrow> None | _ \<Rightarrow> Some TrailingContent))"

section \<open>It always answers\<close>

lemma next_token_consumes: "next_token d = (Token t, d1) \<Longrightarrow> length (dc_rest d1) < length (dc_rest d)"
proof (induction d rule: next_token.induct)
  case (1 d)
  show ?case
  proof (cases "skip_ws (dc_rest d)")
    case Nil
    then show ?thesis using "1.prems" by (simp add: next_token.simps)
  next
    case (Cons c r)
    have l: "length r < length (dc_rest d)" using skip_ws_le[of "dc_rest d"] Cons by simp
    have p: "length r' \<le> length r" if "pval 1 0 (c # r) = Some (v, r')" for v r'
      using enough(1)[OF that] by (simp add: ok_val_def)
    note ih = "1.IH"[OF Cons]
    show ?thesis using "1.prems" l p scan_str_length[of r] ih Cons
      by (subst (asm) next_token.simps)
        (auto simp: close_value_def split: if_splits option.splits)
  qed
qed

lemma dup_consumes:
  "dup_value n d = Some (e, d') \<Longrightarrow> e = None \<Longrightarrow> length (dc_rest d') < length (dc_rest d)"
  "dup_members n seen d = Some (e, d') \<Longrightarrow> e = None \<Longrightarrow> length (dc_rest d') < length (dc_rest d)"
  "dup_elems n d = Some (e, d') \<Longrightarrow> e = None \<Longrightarrow> length (dc_rest d') < length (dc_rest d)"
proof (induction n d and n seen d and n d arbitrary: e d' and e d' and e d' rule: dup_value_dup_members_dup_elems.induct)
  case (2 n d)
  obtain a d1 where t: "next_token d = (a, d1)" by fastforce
  then obtain x where a: "a = Token x" using "2.prems" by (cases a) auto
  have l: "length (dc_rest d1) < length (dc_rest d)" using next_token_consumes t a by simp
  then show ?case using "2.prems" "2.IH"[OF t[symmetric] a] t a less_trans[OF _ l] by (fastforce split: if_splits)
next
  case (4 n seen d)
  show ?case
  proof (cases "more_tokens d")
    case False
    obtain a d1 where t: "next_token d = (a, d1)" by fastforce
    with False "4.prems" obtain x where "a = Token x" by (auto simp: scan_outcome_def split: token_answer.splits)
    then show ?thesis using t False "4.prems" next_token_consumes by simp
  next
    case True
    obtain a d1 where t: "next_token d = (a, d1)" by fastforce
    then obtain x where a: "a = Token x" using True "4.prems" by (cases a) auto
    have l: "length (dc_rest d1) < length (dc_rest d)" using next_token_consumes t a by simp
    obtain k where x: "x = Text k" using True t a "4.prems" by (cases x) auto
    have k: "k \<notin> set seen" using True t a x "4.prems" by (auto split: if_splits)
    obtain d2 where v: "dup_value n d1 = Some (None, d2)" and r: "dup_members n (k # seen) d2 = Some (e, d')"
      using True t a x k "4.prems" by (auto split: option.splits)
    have "length (dc_rest d2) < length (dc_rest d1)" using "4.IH"(1)[OF True t[symmetric] a x k v refl] .
    moreover have "length (dc_rest d') < length (dc_rest d2)"
      using "4.IH"(2)[OF True t[symmetric] a x k v _ refl r "4.prems"(2)] by simp
    ultimately show ?thesis using l by simp
  qed
next
  case (6 n d)
  show ?case
  proof (cases "more_tokens d")
    case False
    obtain a d1 where t: "next_token d = (a, d1)" by fastforce
    with False "6.prems" obtain x where "a = Token x" by (auto simp: scan_outcome_def split: token_answer.splits)
    then show ?thesis using t False "6.prems" next_token_consumes by simp
  next
    case True
    obtain d2 where v: "dup_value n d = Some (None, d2)" and r: "dup_elems n d2 = Some (e, d')"
      using True "6.prems" by (auto split: option.splits)
    have "length (dc_rest d2) < length (dc_rest d)" using "6.IH"(1)[OF True v refl] .
    moreover have "length (dc_rest d') < length (dc_rest d2)" using "6.IH"(2)[OF True v _ refl r "6.prems"(2)] by simp
    ultimately show ?thesis by simp
  qed
qed simp_all

lemma dup_enough:
  "2 * length (dc_rest d) < n \<Longrightarrow> dup_value n d \<noteq> None"
  "2 * length (dc_rest d) + 1 < n \<Longrightarrow> dup_members n seen d \<noteq> None"
  "2 * length (dc_rest d) + 1 < n \<Longrightarrow> dup_elems n d \<noteq> None"
proof (induction n arbitrary: d seen)
  case (Suc n)
  {
    case 1
    obtain a d1 where t: "next_token d = (a, d1)" by fastforce
    show ?case
    proof (cases a)
      case (Token x)
      have l: "2 * length (dc_rest d1) + 1 < n" using next_token_consumes[OF t[unfolded Token]] 1 by simp
      show ?thesis using t Token Suc.IH(2)[OF l, of "[]"] Suc.IH(3)[OF l] by simp
    qed (use t in simp_all)
  next
    case 2
    obtain a d1 where t: "next_token d = (a, d1)" by fastforce
    show ?case
    proof (cases "\<exists>k. a = Token (Text k) \<and> k \<notin> set seen \<and> more_tokens d")
      case True
      then obtain k where k: "a = Token (Text k)" "k \<notin> set seen" "more_tokens d" by blast
      have l: "2 * length (dc_rest d1) + 1 < n" using next_token_consumes[OF t[unfolded k(1)]] 2 by simp
      then have "dup_value n d1 \<noteq> None" using Suc.IH(1) by simp
      then obtain e d2 where v: "dup_value n d1 = Some (e, d2)" by auto
      have "dup_members n (k # seen) d2 \<noteq> None" if "e = None"
        using dup_consumes(1)[OF v that] l Suc.IH(2)[of d2 "k # seen"] by simp
      then show ?thesis using t k v by (cases e) simp_all
    next
      case False
      then show ?thesis using t by (auto split: token_answer.splits token.splits)
    qed
  next
    case 3
    then have "dup_value n d \<noteq> None" using Suc.IH(1) by simp
    then obtain e d2 where v: "dup_value n d = Some (e, d2)" by auto
    have "dup_elems n d2 \<noteq> None" if "e = None" using dup_consumes(1)[OF v that] 3 Suc.IH(3)[of d2] by simp
    then show ?case using v by (cases e) (auto split: prod.splits)
  }
qed simp_all

lemma dup_more_fuel:
  "dup_value n d = Some x \<Longrightarrow> dup_value (Suc n) d = Some x"
  "dup_members n seen d = Some x \<Longrightarrow> dup_members (Suc n) seen d = Some x"
  "dup_elems n d = Some x \<Longrightarrow> dup_elems (Suc n) d = Some x"
proof (induction n arbitrary: d seen x)
  case (Suc n)
  note step = dup_value.simps(2) dup_members.simps(2) dup_elems.simps(2)
  {
    case 1
    then show ?case unfolding step(1)[of n] step(1)[of "Suc n"]
      by (auto intro: Suc.IH split: token_answer.splits prod.splits if_splits simp del: step)
  next
    case 2
    obtain a d1 where t: "next_token d = (a, d1)" by fastforce
    show ?case
    proof (cases "\<exists>k. a = Token (Text k) \<and> k \<notin> set seen \<and> more_tokens d")
      case True
      then obtain k where k: "a = Token (Text k)" "k \<notin> set seen" "more_tokens d" by blast
      obtain e d2 where v: "dup_value n d1 = Some (e, d2)" using 2 t k by (auto split: option.splits)
      have v': "dup_value (Suc n) d1 = Some (e, d2)" using Suc.IH(1)[OF v] .
      show ?thesis
      proof (cases e)
        case None
        then have "dup_members n (k # seen) d2 = Some x" using 2 t k v by simp
        then show ?thesis using t k v' None Suc.IH(2)[of "k # seen" d2 x] by (simp del: step add: step(2)[of "Suc n"])
      qed (use 2 t k v v' in \<open>auto simp del: step simp: step(2)\<close>)
    next
      case False
      then show ?thesis using 2 t unfolding step(2)[of n] step(2)[of "Suc n"]
        by (auto split: token_answer.splits token.splits simp del: step)
    qed
  next
    case 3
    show ?case
    proof (cases "more_tokens d")
      case True
      obtain e d2 where v: "dup_value n d = Some (e, d2)" using 3 True by (auto split: option.splits)
      have v': "dup_value (Suc n) d = Some (e, d2)" using Suc.IH(1)[OF v] .
      show ?thesis
      proof (cases e)
        case None
        then have "dup_elems n d2 = Some x" using 3 True v by simp
        then show ?thesis using True v' None Suc.IH(3)[of d2 x] by (simp del: step add: step(3)[of "Suc n"])
      qed (use 3 True v v' in \<open>auto simp del: step simp: step(3)\<close>)
    qed (use 3 in \<open>simp del: step add: step(3)\<close>)
  }
qed simp_all

lemma dup_value_mono: "n \<le> m \<Longrightarrow> dup_value n d = Some x \<Longrightarrow> dup_value m d = Some x"
  by (induction m rule: dec_induct) (simp, blast intro: dup_more_fuel)

lemma dup_members_mono: "n \<le> m \<Longrightarrow> dup_members n seen d = Some x \<Longrightarrow> dup_members m seen d = Some x"
  by (induction m rule: dec_induct) (simp, blast intro: dup_more_fuel)

lemma dup_elems_mono: "n \<le> m \<Longrightarrow> dup_elems n d = Some x \<Longrightarrow> dup_elems m d = Some x"
  by (induction m rule: dec_induct) (simp, blast intro: dup_more_fuel)

text \<open>
  C40: The check always answers: it needs no more steps than twice the length of the input and two, so that the
  recursion and its loops end on every input, and allowing more steps never changes the answer.
\<close>

theorem duplicate_check_answers:
  "\<exists>x. \<forall>n. dup_value (dup_fuel raw + n) (start_decoder raw) = Some x"
proof -
  have "dup_value (dup_fuel raw) (start_decoder raw) \<noteq> None"
    by (rule dup_enough) (simp add: start_decoder_def dup_fuel_def)
  then obtain x where "dup_value (dup_fuel raw) (start_decoder raw) = Some x" by blast
  then have "dup_value (dup_fuel raw + n) (start_decoder raw) = Some x" for n by (rule dup_value_mono[rotated]) simp
  then show ?thesis by blast
qed

section \<open>What it accepts\<close>

text \<open>The reference: no object has two members of the same name, and every number fits a \<^verbatim>\<open>float64\<close>.\<close>

fun unique_keys :: "json \<Rightarrow> bool" where
  "unique_keys (JArr vs) = list_all unique_keys vs"
| "unique_keys (JObj kvs) = (distinct (map (\<lambda>(k, v). unquote k) kvs) \<and> list_all (\<lambda>(k, v). unique_keys v) kvs)"
| "unique_keys v = scalar_ok v"

lemma skip_ws_idem [simp]: "skip_ws (skip_ws s) = skip_ws s"
  by (simp add: skip_ws_def dropWhile_idem)

lemma skip_ws_Cons: "skip_ws s = c # r \<Longrightarrow> skip_ws (c # r) = c # r"
  using skip_ws_idem[of s] by simp

lemma eat_Some: "eat c s = Some r \<longleftrightarrow> skip_ws s = c # r"
  by (auto simp: eat_def split: list.splits)

lemma more_eat: "skip_ws s = c # r \<Longrightarrow> more_tokens \<lparr>dc_rest = s, dc_state = st, dc_stack = stk\<rparr> \<longleftrightarrow> c \<noteq> CHR '']'' \<and> c \<noteq> CHR ''}''"
  by (simp add: more_tokens_def)

lemma next_token_separators:
  "eat (CHR '':'') s = Some s' \<Longrightarrow> next_token \<lparr>dc_rest = s, dc_state = ObjectColon, dc_stack = stk\<rparr>
     = next_token \<lparr>dc_rest = s', dc_state = ObjectValue, dc_stack = stk\<rparr>"
  "eat (CHR '','') s = Some s' \<Longrightarrow> next_token \<lparr>dc_rest = s, dc_state = ArrayComma, dc_stack = stk\<rparr>
     = next_token \<lparr>dc_rest = s', dc_state = ArrayValue, dc_stack = stk\<rparr>"
  "eat (CHR '','') s = Some s' \<Longrightarrow> next_token \<lparr>dc_rest = s, dc_state = ObjectComma, dc_stack = stk\<rparr>
     = next_token \<lparr>dc_rest = s', dc_state = ObjectKey, dc_stack = stk\<rparr>"
  by (subst next_token.simps, simp add: eat_Some)+

lemma next_token_close:
  "eat (CHR '']'') s = Some s' \<Longrightarrow> st \<in> {ArrayStart, ArrayComma} \<Longrightarrow>
   next_token \<lparr>dc_rest = s, dc_state = st, dc_stack = st0 # stk\<rparr>
     = (Token (Delim (CHR '']'')), \<lparr>dc_rest = s', dc_state = value_end st0, dc_stack = stk\<rparr>)"
  "eat (CHR ''}'') s = Some s' \<Longrightarrow> st \<in> {ObjectStart, ObjectComma} \<Longrightarrow>
   next_token \<lparr>dc_rest = s, dc_state = st, dc_stack = st0 # stk\<rparr>
     = (Token (Delim (CHR ''}'')), \<lparr>dc_rest = s', dc_state = value_end st0, dc_stack = stk\<rparr>)"
  by (subst next_token.simps, auto simp: eat_Some close_value_def)+

lemma next_token_open:
  "skip_ws s = CHR ''['' # s' \<Longrightarrow> value_allowed st \<Longrightarrow> next_token \<lparr>dc_rest = s, dc_state = st, dc_stack = stk\<rparr>
     = (Token (Delim (CHR ''['')), \<lparr>dc_rest = s', dc_state = ArrayStart, dc_stack = st # stk\<rparr>)"
  "skip_ws s = CHR ''{'' # s' \<Longrightarrow> value_allowed st \<Longrightarrow> next_token \<lparr>dc_rest = s, dc_state = st, dc_stack = stk\<rparr>
     = (Token (Delim (CHR ''{'')), \<lparr>dc_rest = s', dc_state = ObjectStart, dc_stack = st # stk\<rparr>)"
  by (subst next_token.simps, simp)+

lemma next_token_key:
  assumes "eat QUOTE s = Some s0" "scan_str s0 = Some (k, s1)" "st \<in> {ObjectStart, ObjectKey}"
  shows "next_token \<lparr>dc_rest = s, dc_state = st, dc_stack = stk\<rparr>
     = (Token (Text (unquote k)), \<lparr>dc_rest = s1, dc_state = ObjectColon, dc_stack = stk\<rparr>)"
proof -
  have "skip_ws s = QUOTE # s0" using assms(1) by (simp add: eat_Some)
  moreover have "QUOTE \<noteq> CHR ''[''" "QUOTE \<noteq> CHR '']''" "QUOTE \<noteq> CHR ''{''" "QUOTE \<noteq> CHR ''}''" "QUOTE \<noteq> CHR '':''" "QUOTE \<noteq> CHR '',''"
    by (simp_all add: QUOTE_def)
  ultimately show ?thesis using assms(2,3) by (subst next_token.simps) simp
qed

lemma pval_scalar_eq:
  assumes "skip_ws s = c # t" "c \<noteq> CHR ''[''" "c \<noteq> CHR ''{''"
  shows "pval (Suc m) d s = pval (Suc 0) 0 (c # t)"
  by (simp only: pval.simps(2) assms(1) skip_ws_Cons[OF assms(1)] list.case assms(2,3) if_False)

lemma pval_scalar:
  assumes "pval n d s = Some (v, r)" "skip_ws s = c # t" "c \<noteq> CHR ''[''" "c \<noteq> CHR ''{''"
  shows "pval 1 0 (c # t) = Some (v, r)" "unique_keys v = scalar_ok v"
proof -
  obtain m where n: "n = Suc m" using assms(1) by (cases n) (simp_all add: pval.simps)
  show p: "pval 1 0 (c # t) = Some (v, r)" using assms(1) pval_scalar_eq[OF assms(2-4)] n by simp
  have "(\<forall>vs. v \<noteq> JArr vs) \<and> (\<forall>kvs. v \<noteq> JObj kvs)"
    using p assms(3,4) skip_ws_Cons[OF assms(2)]
    by (auto simp: pval.simps(2) simp del: drop.simps take.simps split: if_split_asm)
  then show "unique_keys v = scalar_ok v" by (cases v) simp_all
qed

lemma pval_separator:
  assumes "skip_ws s = c # t" "c \<in> {CHR '']'', CHR ''}'', CHR '':'', CHR '',''}"
  shows "pval n d s = None"
proof (cases n)
  case (Suc m)
  have "c \<noteq> QUOTE" "c \<noteq> CHR ''{''" "c \<noteq> CHR ''[''" "c \<noteq> CHR ''-''" "\<not> is_digit c" "c \<noteq> CHR ''n''" "c \<noteq> CHR ''t''" "c \<noteq> CHR ''f''"
    using assms(2) by (auto simp: QUOTE_def is_digit_def)
  then show ?thesis using assms(1) Suc by (simp add: pval.simps(2))
qed (simp add: pval.simps)

text \<open>With enough fuel the answer is no error exactly under \<open>P\<close>, and then the decoder is \<open>D1\<close>.\<close>

definition yields :: "(nat \<Rightarrow> (dup_error option \<times> decoder) option) \<Rightarrow> bool \<Rightarrow> decoder \<Rightarrow> bool" where
  "yields f P D1 \<longleftrightarrow> (\<exists>m e D'. f m = Some (e, D') \<and> (e = None \<longleftrightarrow> P) \<and> (e = None \<longrightarrow> D' = D1))"

lemma dup_value_cong: "next_token D = next_token D' \<Longrightarrow> dup_value m D = dup_value m D'"
  by (cases m) simp_all

lemma yields_array:
  assumes "next_token D = (Token (Delim (CHR ''['')), D0)" "yields (\<lambda>m. dup_elems m D0) P D1"
  shows "yields (\<lambda>m. dup_value m D) P D1"
proof -
  from assms(2) obtain m e D' where m: "dup_elems m D0 = Some (e, D')" "(e = None \<longleftrightarrow> P) \<and> (e = None \<longrightarrow> D' = D1)"
    by (auto simp: yields_def)
  then have "dup_value (Suc m) D = Some (e, D')" using assms(1) by simp
  then show ?thesis using m(2) unfolding yields_def by blast
qed

lemma yields_object:
  assumes "next_token D = (Token (Delim (CHR ''{'')), D0)" "yields (\<lambda>m. dup_members m [] D0) P D1"
  shows "yields (\<lambda>m. dup_value m D) P D1"
proof -
  from assms(2) obtain m e D' where m: "dup_members m [] D0 = Some (e, D')" "(e = None \<longleftrightarrow> P) \<and> (e = None \<longrightarrow> D' = D1)"
    by (auto simp: yields_def)
  then have "dup_value (Suc m) D = Some (e, D')" using assms(1) by simp
  then show ?thesis using m(2) unfolding yields_def by blast
qed

lemma yields_close:
  assumes "\<not> more_tokens D" "next_token D = (Token t, D1)"
  shows "yields (\<lambda>m. dup_elems m D) True D1" "yields (\<lambda>m. dup_members m seen D) True D1"
proof -
  have "dup_elems (Suc 0) D = Some (None, D1)" "dup_members (Suc 0) seen D = Some (None, D1)"
    using assms by (simp_all add: scan_outcome_def)
  then show "yields (\<lambda>m. dup_elems m D) True D1" "yields (\<lambda>m. dup_members m seen D) True D1"
    unfolding yields_def by blast+
qed

lemma yields_elems:
  assumes "more_tokens D" "yields (\<lambda>m. dup_value m D) P D1" "yields (\<lambda>m. dup_elems m D1) Q D2"
  shows "yields (\<lambda>m. dup_elems m D) (P \<and> Q) D2"
proof -
  from assms(2) obtain m e D' where m: "dup_value m D = Some (e, D')" "e = None \<longleftrightarrow> P" "e = None \<longrightarrow> D' = D1" by (auto simp: yields_def)
  from assms(3) obtain k x D'' where k: "dup_elems k D1 = Some (x, D'')" "x = None \<longleftrightarrow> Q" "x = None \<longrightarrow> D'' = D2" by (auto simp: yields_def)
  have m': "dup_value (max m k) D = Some (e, D')" using dup_value_mono[OF _ m(1)] by simp
  have k': "dup_elems (max m k) D1 = Some (x, D'')" using dup_elems_mono[OF _ k(1)] by simp
  show ?thesis
  proof (cases e)
    case None
    then have "dup_elems (Suc (max m k)) D = Some (x, D'')" using assms(1) m' k' m(3) by simp
    then show ?thesis using k(2,3) m(2) None unfolding yields_def by blast
  next
    case (Some y)
    then have "dup_elems (Suc (max m k)) D = Some (e, D')" using assms(1) m' by simp
    then show ?thesis using m(2) Some unfolding yields_def by blast
  qed
qed

lemma yields_members:
  assumes "more_tokens D" "next_token D = (Token (Text k), D0)" "yields (\<lambda>m. dup_value m D0) P D1" "yields (\<lambda>m. dup_members m (k # seen) D1) Q D2"
  shows "yields (\<lambda>m. dup_members m seen D) (k \<notin> set seen \<and> P \<and> Q) D2"
proof (cases "k \<in> set seen")
  case True
  then have "dup_members (Suc 0) seen D = Some (Some DuplicateKey, D0)" using assms(1,2) by simp
  then show ?thesis using True unfolding yields_def by blast
next
  case False
  from assms(3) obtain m e D' where m: "dup_value m D0 = Some (e, D')" "e = None \<longleftrightarrow> P" "e = None \<longrightarrow> D' = D1" by (auto simp: yields_def)
  from assms(4) obtain j x D'' where j: "dup_members j (k # seen) D1 = Some (x, D'')" "x = None \<longleftrightarrow> Q" "x = None \<longrightarrow> D'' = D2"
    by (auto simp: yields_def)
  have m': "dup_value (max m j) D0 = Some (e, D')" using dup_value_mono[OF _ m(1)] by simp
  have j': "dup_members (max m j) (k # seen) D1 = Some (x, D'')" using dup_members_mono[OF _ j(1)] by simp
  show ?thesis
  proof (cases e)
    case None
    then have "dup_members (Suc (max m j)) seen D = Some (x, D'')" using assms(1,2) m' j' m(3) False by simp
    then show ?thesis using j(2,3) m(2) None False unfolding yields_def by blast
  next
    case (Some y)
    then have "dup_members (Suc (max m j)) seen D = Some (e, D')" using assms(1,2) m' False by simp
    then show ?thesis using m(2) Some unfolding yields_def by blast
  qed
qed

lemma yields_scalar:
  assumes p: "pval n d s = Some (v, r)" and c: "skip_ws s = c # t" "c \<noteq> CHR ''[''" "c \<noteq> CHR ''{''" and st: "value_allowed st"
    and nt: "next_token D = next_token \<lparr>dc_rest = s, dc_state = st, dc_stack = stk\<rparr>"
  shows "yields (\<lambda>m. dup_value m D) (unique_keys v) \<lparr>dc_rest = r, dc_state = value_end st, dc_stack = stk\<rparr>"
proof -
  note sc = pval_scalar[OF p c]
  have sep: "c \<noteq> CHR '']''" "c \<noteq> CHR ''}''" "c \<noteq> CHR '':''" "c \<noteq> CHR '',''" using pval_separator[OF c(1), of n d] p by auto
  have st': "st \<notin> {ObjectStart, ObjectKey}" using st by (auto simp: value_allowed_def)
  define x where "x = (case v of JStr b \<Rightarrow> Text (unquote b) | _ \<Rightarrow> Scalar)"
  have x: "x \<noteq> Delim y" for y by (simp add: x_def split: json.splits)
  have "next_token D = (if scalar_ok v then (Token x, \<lparr>dc_rest = r, dc_state = value_end st, dc_stack = stk\<rparr>)
      else (BadToken, \<lparr>dc_rest = s, dc_state = st, dc_stack = stk\<rparr>))"
    unfolding nt by (subst next_token.simps) (use c sep st st' sc(1) in \<open>simp add: x_def\<close>)
  then have "dup_value (Suc 0) D = Some (if scalar_ok v then None else Some ScanError,
      if scalar_ok v then \<lparr>dc_rest = r, dc_state = value_end st, dc_stack = stk\<rparr> else \<lparr>dc_rest = s, dc_state = st, dc_stack = stk\<rparr>)"
    using x by simp
  then show ?thesis unfolding yields_def sc(2) by (metis option.distinct(1))
qed

abbreviation at :: "bytes \<Rightarrow> token_state \<Rightarrow> token_state list \<Rightarrow> decoder" where
  "at s st stk \<equiv> \<lparr>dc_rest = s, dc_state = st, dc_stack = stk\<rparr>"

lemma more_pval: "pval n d s = Some (v, r) \<Longrightarrow> more_tokens (at s st stk)"
  using pval_separator[of s] by (cases "skip_ws s") (auto simp: more_tokens_def pval.simps split: list.splits elim: pval.elims)

lemma pval_array:
  assumes "pval (Suc n) d s = Some (v, r)" "skip_ws s = CHR ''['' # s1"
  shows "(v = JArr [] \<and> eat (CHR '']'') s1 = Some r) \<or> (\<exists>vs. v = JArr vs \<and> pelems n (d - 1) s1 = Some (vs, r))"
  using assms by (auto simp: pval.simps QUOTE_def split: if_splits option.splits)

lemma pval_object:
  assumes "pval (Suc n) d s = Some (v, r)" "skip_ws s = CHR ''{'' # s1"
  shows "(v = JObj [] \<and> eat (CHR ''}'') s1 = Some r) \<or> (\<exists>kvs. v = JObj kvs \<and> pmembers n (d - 1) s1 = Some (kvs, r))"
  using assms by (auto simp: pval.simps QUOTE_def split: if_splits option.splits)

lemma check_agrees:
  "pval n d s = Some (v, r) \<Longrightarrow> value_allowed st \<Longrightarrow> next_token D = next_token (at s st stk) \<Longrightarrow>
     yields (\<lambda>m. dup_value m D) (unique_keys v) (at r (value_end st) stk)"
  "pelems n d s = Some (vs, r) \<Longrightarrow> st \<in> {ArrayStart, ArrayValue} \<Longrightarrow> next_token D = next_token (at s st (st0 # stk)) \<Longrightarrow> more_tokens D \<Longrightarrow>
     yields (\<lambda>m. dup_elems m D) (list_all unique_keys vs) (at r (value_end st0) stk)"
  "pmembers n d s = Some (kvs, r) \<Longrightarrow> st \<in> {ObjectStart, ObjectKey} \<Longrightarrow> next_token D = next_token (at s st (st0 # stk)) \<Longrightarrow> more_tokens D \<Longrightarrow>
     yields (\<lambda>m. dup_members m seen D) (distinct (map (\<lambda>(k, v). unquote k) kvs) \<and> (\<lambda>(k, v). unquote k) ` set kvs \<inter> set seen = {}
       \<and> list_all (\<lambda>(k, v). unique_keys v) kvs) (at r (value_end st0) stk)"
proof (induction n arbitrary: d s v r st D st0 stk vs kvs seen)
  case (Suc n)
  {
    case 1
    obtain c t where c: "skip_ws s = c # t" using 1(1) by (cases "skip_ws s") (simp_all add: pval.simps)
    consider "c = CHR ''[''" | "c = CHR ''{''" | "c \<noteq> CHR ''[''" "c \<noteq> CHR ''{''" by blast
    then show ?case
    proof cases
      case arr: 1
      have nt: "next_token D = (Token (Delim (CHR ''['')), at t ArrayStart (st # stk))"
        using 1(3) next_token_open(1)[OF c[unfolded arr] 1(2)] by simp
      from pval_array[OF 1(1) c[unfolded arr]] show ?thesis
      proof (elim disjE conjE exE)
        assume v: "v = JArr []" and e: "eat (CHR '']'') t = Some r"
        have "\<not> more_tokens (at t ArrayStart (st # stk))" using e by (simp add: eat_Some more_tokens_def)
        from yields_array[OF nt yields_close(1)[OF this next_token_close(1)[OF e]]] show ?thesis using v by simp
      next
        fix us assume v: "v = JArr us" and e: "pelems n (d - 1) t = Some (us, r)"
        obtain w r1 where "pval (n - 1) (d - 1) t = Some (w, r1)" using e by (cases n) (auto simp: pelems.simps bind_eq_Some_conv)
        then have "more_tokens (at t ArrayStart (st # stk))" by (rule more_pval)
        with yields_array[OF nt Suc.IH(2)[OF e _ refl]] show ?thesis using v by simp
      qed
    next
      case obj: 2
      have nt: "next_token D = (Token (Delim (CHR ''{'')), at t ObjectStart (st # stk))"
        using 1(3) next_token_open(2)[OF c[unfolded obj] 1(2)] by simp
      from pval_object[OF 1(1) c[unfolded obj]] show ?thesis
      proof (elim disjE conjE exE)
        assume v: "v = JObj []" and e: "eat (CHR ''}'') t = Some r"
        have "\<not> more_tokens (at t ObjectStart (st # stk))" using e by (simp add: eat_Some more_tokens_def)
        from yields_object[OF nt yields_close(2)[OF this next_token_close(2)[OF e]]] show ?thesis using v by simp
      next
        fix us assume v: "v = JObj us" and e: "pmembers n (d - 1) t = Some (us, r)"
        obtain w where "eat QUOTE t = Some w" using e by (cases n) (auto simp: pmembers.simps bind_eq_Some_conv)
        then have "more_tokens (at t ObjectStart (st # stk))" by (simp add: more_tokens_def eat_Some QUOTE_def)
        with yields_object[OF nt Suc.IH(3)[OF e _ refl, where seen = "[]"]] show ?thesis using v by simp
      qed
    next
      case 3
      from yields_scalar[OF 1(1) c this 1(2,3)] show ?thesis .
    qed
  next
    case 2
    obtain v1 r1 where p: "pval n d s = Some (v1, r1)" using 2(1) by (auto simp: pelems.simps bind_eq_Some_conv)
    have st: "value_allowed st" "value_end st = ArrayComma" using 2(2) by (auto simp: value_allowed_def)
    have v: "yields (\<lambda>m. dup_value m D) (unique_keys v1) (at r1 ArrayComma (st0 # stk))"
      using Suc.IH(1)[OF p st(1) 2(3)] st(2) by simp
    show ?case
    proof (cases "eat (CHR '','') r1")
      case None
      with 2(1) p have e: "vs = [v1]" "eat (CHR '']'') r1 = Some r" by (auto simp: pelems.simps)
      have "\<not> more_tokens (at r1 ArrayComma (st0 # stk))" using e(2) by (simp add: eat_Some more_tokens_def)
      from yields_elems[OF 2(4) v yields_close(1)[OF this next_token_close(1)[OF e(2)]]] show ?thesis using e(1) by simp
    next
      case (Some r2)
      with 2(1) p obtain us where us: "vs = v1 # us" "pelems n d r2 = Some (us, r)" by (auto simp: pelems.simps)
      have "more_tokens (at r1 ArrayComma (st0 # stk))" using Some by (simp add: eat_Some more_tokens_def)
      from yields_elems[OF 2(4) v Suc.IH(2)[OF us(2) _ next_token_separators(2)[OF Some] this]] show ?thesis using us(1) by simp
    qed
  next
    case 3
    obtain s0 k s1 s2 v1 r1 where k: "eat QUOTE s = Some s0" "scan_str s0 = Some (k, s1)"
      "eat (CHR '':'') s1 = Some s2" and p: "pval n d s2 = Some (v1, r1)"
      using 3(1) by (auto simp: pmembers.simps bind_eq_Some_conv)
    have nt: "next_token D = (Token (Text (unquote k)), at s1 ObjectColon (st0 # stk))"
      using 3(3) next_token_key[OF k(1,2) 3(2)] by simp
    have v: "yields (\<lambda>m. dup_value m (at s1 ObjectColon (st0 # stk))) (unique_keys v1) (at r1 ObjectComma (st0 # stk))"
      using Suc.IH(1)[OF p _ next_token_separators(1)[OF k(3)]] by (simp add: value_allowed_def)
    show ?case
    proof (cases "eat (CHR '','') r1")
      case None
      with 3(1) k p have e: "kvs = [(k, v1)]" "eat (CHR ''}'') r1 = Some r" by (auto simp: pmembers.simps)
      have "\<not> more_tokens (at r1 ObjectComma (st0 # stk))" using e(2) by (simp add: eat_Some more_tokens_def)
      from yields_members[OF 3(4) nt v yields_close(2)[OF this next_token_close(2)[OF e(2)]]] show ?thesis using e(1) by simp
    next
      case (Some r2)
      with 3(1) k p obtain us where us: "kvs = (k, v1) # us" "pmembers n d r2 = Some (us, r)" by (auto simp: pmembers.simps)
      have "more_tokens (at r1 ObjectComma (st0 # stk))" using Some by (simp add: eat_Some more_tokens_def)
      note y = yields_members[OF 3(4) nt v Suc.IH(3)[OF us(2) _ next_token_separators(3)[OF Some] this]]
      have "(unquote k \<notin> set seen \<and> unique_keys v1 \<and> distinct (map (\<lambda>(k, v). unquote k) us) \<and>
          (\<lambda>(k, v). unquote k) ` set us \<inter> set (unquote k # seen) = {} \<and> list_all (\<lambda>(k, v). unique_keys v) us) =
        (distinct (map (\<lambda>(k, v). unquote k) kvs) \<and> (\<lambda>(k, v). unquote k) ` set kvs \<inter> set seen = {} \<and>
          list_all (\<lambda>(k, v). unique_keys v) kvs)" using us(1) by auto
      then show ?thesis by (intro back_subst[where P = "\<lambda>b. yields _ b _", OF y]) simp_all
    qed
  }
qed (simp_all add: pval.simps pelems.simps pmembers.simps)

text \<open>
  C21: On valid JSON the check accepts exactly the documents in which no object, at any depth, has two members of
  the same name after decoding, escapes included, and whose numbers fit a \<^verbatim>\<open>float64\<close>.
\<close>

theorem duplicate_keys_are_rejected:
  assumes "json_parse raw = Some v"
  shows "rejectDuplicateKeys raw = None \<longleftrightarrow> unique_keys v"
proof -
  from assms obtain r where p: "pval (2 * length raw + 2) maxNestingDepth raw = Some (v, r)" "skip_ws r = []"
    by (auto simp: json_parse_def split: option.splits if_splits)
  have "yields (\<lambda>m. dup_value m (start_decoder raw)) (unique_keys v) (at r TopValue [])"
    using check_agrees(1)[OF p(1), of TopValue "start_decoder raw" "[]"] by (simp add: value_allowed_def start_decoder_def)
  then obtain m e D' where m: "dup_value m (start_decoder raw) = Some (e, D')" "e = None \<longleftrightarrow> unique_keys v"
    "e = None \<longrightarrow> D' = at r TopValue []" by (auto simp: yields_def)
  obtain x where "dup_value (dup_fuel raw) (start_decoder raw) = Some x"
    using dup_enough(1)[of "start_decoder raw" "dup_fuel raw"] by (auto simp: start_decoder_def dup_fuel_def simp del: dup_value.simps)
  then have f: "dup_value (dup_fuel raw) (start_decoder raw) = Some (e, D')"
    using dup_value_mono[of m "max m (dup_fuel raw)"] dup_value_mono[of "dup_fuel raw" "max m (dup_fuel raw)"] m(1) by fastforce
  have "next_token (at r TopValue []) = (EndOfInput, at r TopValue [])" using p(2) by (simp add: next_token.simps)
  then show ?thesis using f m(2,3) by (cases e) (auto simp: rejectDuplicateKeys_def)
qed

text \<open>A repeated name behind an escape is found, names that differ in case are not taken for the same.\<close>

definition twice :: bytes where "twice = ''{\"a\":1,\"'' @ BSLASH # ''u0061\":2}''"
definition cases_differ :: bytes where "cases_differ = ''{\"a\":1,\"A\":2}''"

lemma parse_twice: "json_parse twice = Some (JObj [(''a'', JNum ''1''), (BSLASH # ''u0061'', JNum ''2'')])"
  by code_simp

lemma parse_cases_differ: "json_parse cases_differ = Some (JObj [(''a'', JNum ''1''), (''A'', JNum ''2'')])"
  by code_simp

lemma small_floats: "float_ok ''1''" "float_ok ''2''"
proof -
  have "undec ''1'' = 1" "undec ''2'' = 2" by code_simp+
  then show "float_ok ''1''" "float_ok ''2''" by (simp_all add: float_ok_def is_digit_def)
qed

lemma sample_names: "unquote (BSLASH # ''u0061'') = ''a''" "unquote ''a'' = ''a''" "unquote ''A'' = ''A''"
proof -
  show "unquote ''a'' = ''a''" "unquote ''A'' = ''A''"
    by (rule unquote_text, simp add: text_char_def plain_def char_consts)+
  have "u00 (CHR ''a'') = BSLASH # ''u0061''" by code_simp
  then show "unquote (BSLASH # ''u0061'') = ''a''" using unquote_u00[of "CHR ''a''" "[]"] by (simp add: unquote.simps[of "[]"])
qed

theorem duplicate_keys_are_rejected_witness:
  "rejectDuplicateKeys twice \<noteq> None \<and> rejectDuplicateKeys cases_differ = None"
  unfolding duplicate_keys_are_rejected[OF parse_twice] duplicate_keys_are_rejected[OF parse_cases_differ]
  by (simp add: sample_names small_floats scalar_ok_def)

end
