(* ===== verification/ConfigJson.thy ===== *)
theory ConfigJson
  imports Config PolicyStore DuplicateKeys
begin

text \<open>
  Decoding a JSON configuration (\<^verbatim>\<open>Parse\<close> of \<^verbatim>\<open>src/internal/config/config.go\<close> and the tags of its types): what
  Go's decoder with \<^verbatim>\<open>DisallowUnknownFields\<close> does to the structs of the configuration.

  A value decodes into what the field holds already, so that a second member that matches the same field
  adds to the first one. \<open>None\<close> is an error of the decoder; it goes on after most of them, but its
  caller drops the result.
\<close>

section \<open>Strict structs, lists and maps\<close>

fun strict_fields :: "bytes list \<Rightarrow> (bytes \<Rightarrow> bytes \<Rightarrow> 'r \<Rightarrow> 'r option) \<Rightarrow> (bytes \<times> bytes) list \<Rightarrow> 'r \<Rightarrow> 'r option" where
  "strict_fields fs upd [] r = Some r"
| "strict_fields fs upd ((k, v) # kvs) r =
     (case match_field fs k of
        None \<Rightarrow> None
      | Some f \<Rightarrow> (case upd f v r of None \<Rightarrow> None | Some r' \<Rightarrow> strict_fields fs upd kvs r'))"

definition get_struct :: "bytes list \<Rightarrow> (bytes \<Rightarrow> bytes \<Rightarrow> 'r \<Rightarrow> 'r option) \<Rightarrow> bytes \<Rightarrow> 'r \<Rightarrow> 'r option" where
  "get_struct fs upd v old = (case json_fields v of None \<Rightarrow> None | Some kvs \<Rightarrow> strict_fields fs upd kvs old)"

text \<open>
  An element decodes into the slot of the old slice, where there is one. Slots behind the length of the
  old slice count as empty.
\<close>

fun decode_elems :: "(bytes \<Rightarrow> 'a \<Rightarrow> 'a option) \<Rightarrow> 'a \<Rightarrow> json list \<Rightarrow> 'a list \<Rightarrow> 'a list option" where
  "decode_elems dec1 zero [] old = Some []"
| "decode_elems dec1 zero (v # vs) old =
     (case dec1 (pr v) (case old of [] \<Rightarrow> zero | x # _ \<Rightarrow> x) of
        None \<Rightarrow> None
      | Some y \<Rightarrow> map_option (\<lambda>ys. y # ys) (decode_elems dec1 zero vs (tl old)))"

definition get_list :: "(bytes \<Rightarrow> 'a \<Rightarrow> 'a option) \<Rightarrow> 'a \<Rightarrow> bytes \<Rightarrow> 'a list \<Rightarrow> 'a list option" where
  "get_list dec1 zero v old =
     (case json_parse v of
        Some JNull \<Rightarrow> Some []
      | Some (JArr vs) \<Rightarrow> decode_elems dec1 zero vs old
      | _ \<Rightarrow> None)"

definition get_strings :: "bytes \<Rightarrow> bytes list \<Rightarrow> bytes list option" where
  "get_strings = get_list get_string []"

text \<open>\<^verbatim>\<open>map[string]string\<close>\<close>

fun add_strings :: "(bytes \<times> bytes) list \<Rightarrow> (bytes \<times> bytes) list \<Rightarrow> (bytes \<times> bytes) list option" where
  "add_strings [] m = Some m"
| "add_strings ((k, v) # kvs) m =
     (case get_string v [] of None \<Rightarrow> None | Some x \<Rightarrow> add_strings kvs (AList.update k x m))"

definition get_string_map :: "bytes \<Rightarrow> (bytes \<times> bytes) list \<Rightarrow> (bytes \<times> bytes) list option" where
  "get_string_map v old =
     (case json_parse v of
        Some JNull \<Rightarrow> Some []
      | _ \<Rightarrow> (case json_fields v of None \<Rightarrow> None | Some kvs \<Rightarrow> add_strings kvs old))"

text \<open>\<^verbatim>\<open>*bool\<close>\<close>

definition get_bool_ptr :: "bytes \<Rightarrow> bool option \<Rightarrow> bool option option" where
  "get_bool_ptr v old =
     (case json_parse v of
        Some JNull \<Rightarrow> Some None
      | _ \<Rightarrow> map_option Some (get_bool v (case old of None \<Rightarrow> False | Some b \<Rightarrow> b)))"

section \<open>The structs of the configuration\<close>

definition set_exporter :: "bytes \<Rightarrow> bytes \<Rightarrow> exporter_config \<Rightarrow> exporter_config option" where
  "set_exporter f v x =
     (if f = ''backend_id'' then map_option (\<lambda>y. x\<lparr>exporter_config.BackendID := y\<rparr>) (get_string v (exporter_config.BackendID x))
      else if f = ''organization_id'' then map_option (\<lambda>y. x\<lparr>exporter_config.OrganizationID := y\<rparr>) (get_string v (exporter_config.OrganizationID x))
      else if f = ''previous_endpoint'' then map_option (\<lambda>y. x\<lparr>PreviousEndpoint := y\<rparr>) (get_string v (PreviousEndpoint x))
      else if f = ''type'' then map_option (\<lambda>y. x\<lparr>Type := y\<rparr>) (get_string v (Type x))
      else if f = ''endpoint'' then map_option (\<lambda>y. x\<lparr>Endpoint := y\<rparr>) (get_string v (Endpoint x))
      else map_option (\<lambda>y. x\<lparr>HeadersEnv := y\<rparr>) (get_string_map v (HeadersEnv x)))"

definition get_exporter :: "bytes \<Rightarrow> exporter_config \<Rightarrow> exporter_config option" where
  "get_exporter = get_struct [''backend_id'', ''organization_id'', ''previous_endpoint'', ''type'', ''endpoint'', ''headers_env''] set_exporter"

definition set_limits :: "bytes \<Rightarrow> bytes \<Rightarrow> limits \<Rightarrow> limits option" where
  "set_limits f v x =
     (if f = ''request_bytes'' then map_option (\<lambda>y. x\<lparr>RequestBytes := y\<rparr>) (get_int v (RequestBytes x))
      else if f = ''queue_bytes'' then map_option (\<lambda>y. x\<lparr>lim_QueueBytes := y\<rparr>) (get_int v (lim_QueueBytes x))
      else if f = ''memory_mib'' then map_option (\<lambda>y. x\<lparr>MemoryMiB := y\<rparr>) (get_int v (MemoryMiB x))
      else map_option (\<lambda>y. x\<lparr>ShutdownSeconds := y\<rparr>) (get_int v (ShutdownSeconds x)))"

definition get_limits :: "bytes \<Rightarrow> limits \<Rightarrow> limits option" where
  "get_limits = get_struct [''request_bytes'', ''queue_bytes'', ''memory_mib'', ''shutdown_seconds''] set_limits"

definition set_collection :: "bytes \<Rightarrow> bytes \<Rightarrow> collection \<Rightarrow> collection option" where
  "set_collection f v x =
     (if f = ''interval_seconds'' then map_option (\<lambda>y. x\<lparr>IntervalSeconds := y\<rparr>) (get_int v (IntervalSeconds x))
      else if f = ''max_points'' then map_option (\<lambda>y. x\<lparr>MaxPoints := y\<rparr>) (get_int v (MaxPoints x))
      else if f = ''max_devices'' then map_option (\<lambda>y. x\<lparr>MaxDevices := y\<rparr>) (get_int v (MaxDevices x))
      else if f = ''max_interfaces'' then map_option (\<lambda>y. x\<lparr>MaxInterfaces := y\<rparr>) (get_int v (MaxInterfaces x))
      else map_option (\<lambda>y. x\<lparr>MaxMounts := y\<rparr>) (get_int v (MaxMounts x)))"

definition get_collection :: "bytes \<Rightarrow> collection \<Rightarrow> collection option" where
  "get_collection = get_struct [''interval_seconds'', ''max_points'', ''max_devices'', ''max_interfaces'', ''max_mounts''] set_collection"

definition set_ec2 :: "bytes \<Rightarrow> bytes \<Rightarrow> ec2_metadata \<Rightarrow> ec2_metadata option" where
  "set_ec2 f v x =
     (if f = ''enabled'' then map_option (\<lambda>y. x\<lparr>ec2_Enabled := y\<rparr>) (get_bool_ptr v (ec2_Enabled x))
      else if f = ''required'' then map_option (\<lambda>y. x\<lparr>ec2_Required := y\<rparr>) (get_bool v (ec2_Required x))
      else map_option (\<lambda>y. x\<lparr>TimeoutSeconds := y\<rparr>) (get_int v (TimeoutSeconds x)))"

definition get_ec2 :: "bytes \<Rightarrow> ec2_metadata \<Rightarrow> ec2_metadata option" where
  "get_ec2 = get_struct [''enabled'', ''required'', ''timeout_seconds''] set_ec2"

definition set_delivery :: "bytes \<Rightarrow> bytes \<Rightarrow> delivery_config \<Rightarrow> delivery_config option" where
  "set_delivery f v x =
     (if f = ''state_directory'' then map_option (\<lambda>y. x\<lparr>del_StateDirectory := y\<rparr>) (get_string v (del_StateDirectory x))
      else if f = ''overflow_policy'' then map_option (\<lambda>y. x\<lparr>del_OverflowPolicy := y\<rparr>) (get_string v (del_OverflowPolicy x))
      else if f = ''batch_points'' then map_option (\<lambda>y. x\<lparr>BatchPoints := y\<rparr>) (get_int v (BatchPoints x))
      else if f = ''queue_items'' then map_option (\<lambda>y. x\<lparr>del_QueueItems := y\<rparr>) (get_int v (del_QueueItems x))
      else if f = ''max_attempts'' then map_option (\<lambda>y. x\<lparr>MaxAttempts := y\<rparr>) (get_int v (MaxAttempts x))
      else map_option (\<lambda>y. x\<lparr>RequestTimeoutSeconds := y\<rparr>) (get_int v (RequestTimeoutSeconds x)))"

definition get_delivery :: "bytes \<Rightarrow> delivery_config \<Rightarrow> delivery_config option" where
  "get_delivery = get_struct [''state_directory'', ''overflow_policy'', ''batch_points'', ''queue_items'', ''max_attempts'', ''request_timeout_seconds''] set_delivery"

definition set_multiline :: "bytes \<Rightarrow> bytes \<Rightarrow> log_multiline \<Rightarrow> log_multiline option" where
  "set_multiline f v x =
     (if f = ''enabled'' then map_option (\<lambda>y. x\<lparr>ml_Enabled := y\<rparr>) (get_bool v (ml_Enabled x))
      else if f = ''start_pattern'' then map_option (\<lambda>y. x\<lparr>StartPattern := y\<rparr>) (get_string v (StartPattern x))
      else if f = ''flush_timeout_millis'' then map_option (\<lambda>y. x\<lparr>FlushTimeoutMillis := y\<rparr>) (get_int v (FlushTimeoutMillis x))
      else if f = ''max_lines'' then map_option (\<lambda>y. x\<lparr>MaxLines := y\<rparr>) (get_int v (MaxLines x))
      else map_option (\<lambda>y. x\<lparr>ml_MaxBytes := y\<rparr>) (get_int v (ml_MaxBytes x)))"

definition get_multiline :: "bytes \<Rightarrow> log_multiline \<Rightarrow> log_multiline option" where
  "get_multiline = get_struct [''enabled'', ''start_pattern'', ''flush_timeout_millis'', ''max_lines'', ''max_bytes''] set_multiline"

definition zero_multiline :: log_multiline where
  "zero_multiline = \<lparr>ml_Enabled = False, StartPattern = [], FlushTimeoutMillis = 0, MaxLines = 0, ml_MaxBytes = 0\<rparr>"

definition set_source :: "bytes \<Rightarrow> bytes \<Rightarrow> log_source \<Rightarrow> log_source option" where
  "set_source f v x =
     (if f = ''id'' then map_option (\<lambda>y. x\<lparr>src_ID := y\<rparr>) (get_string v (src_ID x))
      else if f = ''root'' then map_option (\<lambda>y. x\<lparr>src_Root := y\<rparr>) (get_string v (src_Root x))
      else if f = ''include'' then map_option (\<lambda>y. x\<lparr>Include := y\<rparr>) (get_strings v (Include x))
      else if f = ''exclude'' then map_option (\<lambda>y. x\<lparr>Exclude := y\<rparr>) (get_strings v (Exclude x))
      else if f = ''start_at'' then map_option (\<lambda>y. x\<lparr>src_StartAt := y\<rparr>) (get_string v (src_StartAt x))
      else if f = ''service_name'' then map_option (\<lambda>y. x\<lparr>ServiceName := y\<rparr>) (get_string v (ServiceName x))
      else if f = ''environment'' then map_option (\<lambda>y. x\<lparr>Environment := y\<rparr>) (get_string v (Environment x))
      else if f = ''max_open_files'' then map_option (\<lambda>y. x\<lparr>MaxOpenFiles := y\<rparr>) (get_int v (MaxOpenFiles x))
      else if f = ''max_line_bytes'' then map_option (\<lambda>y. x\<lparr>MaxLineBytes := y\<rparr>) (get_int v (MaxLineBytes x))
      else map_option (\<lambda>y. x\<lparr>Multiline := y\<rparr>) (get_multiline v (Multiline x)))"

definition get_source :: "bytes \<Rightarrow> log_source \<Rightarrow> log_source option" where
  "get_source = get_struct [''id'', ''root'', ''include'', ''exclude'', ''start_at'', ''service_name'', ''environment'',
     ''max_open_files'', ''max_line_bytes'', ''multiline''] set_source"

definition zero_source :: log_source where
  "zero_source = \<lparr>src_ID = [], src_Root = [], Include = [], Exclude = [], src_StartAt = [], ServiceName = [], Environment = [],
     MaxOpenFiles = 0, MaxLineBytes = 0, Multiline = zero_multiline\<rparr>"

definition set_journald :: "bytes \<Rightarrow> bytes \<Rightarrow> journald_source \<Rightarrow> journald_source option" where
  "set_journald f v x =
     (if f = ''enabled'' then map_option (\<lambda>y. x\<lparr>jd_Enabled := y\<rparr>) (get_bool v (jd_Enabled x))
      else if f = ''units'' then map_option (\<lambda>y. x\<lparr>Units := y\<rparr>) (get_strings v (Units x))
      else if f = ''identifiers'' then map_option (\<lambda>y. x\<lparr>Identifiers := y\<rparr>) (get_strings v (Identifiers x))
      else if f = ''priority'' then map_option (\<lambda>y. x\<lparr>jd_Priority := y\<rparr>) (get_string v (jd_Priority x))
      else map_option (\<lambda>y. x\<lparr>jd_StartAt := y\<rparr>) (get_string v (jd_StartAt x)))"

definition get_journald :: "bytes \<Rightarrow> journald_source \<Rightarrow> journald_source option" where
  "get_journald = get_struct [''enabled'', ''units'', ''identifiers'', ''priority'', ''start_at''] set_journald"

definition zero_journald :: journald_source where
  "zero_journald = \<lparr>jd_Enabled = False, Units = [], Identifiers = [], jd_Priority = [], jd_StartAt = []\<rparr>"

definition set_logs :: "bytes \<Rightarrow> bytes \<Rightarrow> logs_config \<Rightarrow> logs_config option" where
  "set_logs f v x =
     (if f = ''state_directory'' then map_option (\<lambda>y. x\<lparr>StateDirectory := y\<rparr>) (get_string v (StateDirectory x))
      else if f = ''queue_bytes'' then map_option (\<lambda>y. x\<lparr>QueueBytes := y\<rparr>) (get_int v (QueueBytes x))
      else if f = ''queue_items'' then map_option (\<lambda>y. x\<lparr>QueueItems := y\<rparr>) (get_int v (QueueItems x))
      else if f = ''overflow_policy'' then map_option (\<lambda>y. x\<lparr>OverflowPolicy := y\<rparr>) (get_string v (OverflowPolicy x))
      else if f = ''poll_interval_millis'' then map_option (\<lambda>y. x\<lparr>PollIntervalMillis := y\<rparr>) (get_int v (PollIntervalMillis x))
      else if f = ''max_files'' then map_option (\<lambda>y. x\<lparr>MaxFiles := y\<rparr>) (get_int v (MaxFiles x))
      else if f = ''files'' then map_option (\<lambda>y. x\<lparr>Sources := y\<rparr>) (get_list get_source zero_source v (Sources x))
      else map_option (\<lambda>y. x\<lparr>Journald := y\<rparr>) (get_journald v (Journald x)))"

definition get_logs :: "bytes \<Rightarrow> logs_config \<Rightarrow> logs_config option" where
  "get_logs = get_struct [''state_directory'', ''queue_bytes'', ''queue_items'', ''overflow_policy'', ''poll_interval_millis'', ''max_files'',
     ''files'', ''journald''] set_logs"

definition get_document :: "bytes \<Rightarrow> document \<Rightarrow> document option" where
  "get_document = get_struct [''version'', ''enabled''] set_policy_document"

definition set_config :: "bytes \<Rightarrow> bytes \<Rightarrow> config \<Rightarrow> config option" where
  "set_config f v x =
     (if f = ''collection'' then map_option (\<lambda>y. x\<lparr>cfg_Collection := y\<rparr>) (get_collection v (cfg_Collection x))
      else if f = ''logs'' then map_option (\<lambda>y. x\<lparr>cfg_Logs := y\<rparr>) (get_logs v (cfg_Logs x))
      else if f = ''ec2_metadata'' then map_option (\<lambda>y. x\<lparr>EC2 := y\<rparr>) (get_ec2 v (EC2 x))
      else if f = ''delivery'' then map_option (\<lambda>y. x\<lparr>Delivery := y\<rparr>) (get_delivery v (Delivery x))
      else if f = ''agent_id'' then map_option (\<lambda>y. x\<lparr>AgentID := y\<rparr>) (get_string v (AgentID x))
      else if f = ''exporter'' then map_option (\<lambda>y. x\<lparr>Exporter := y\<rparr>) (get_exporter v (Exporter x))
      else if f = ''policy'' then map_option (\<lambda>y. x\<lparr>cfg_Policy := y\<rparr>) (get_document v (cfg_Policy x))
      else if f = ''remote_allowed'' then map_option (\<lambda>y. x\<lparr>RemoteAllowed := y\<rparr>) (get_strings v (RemoteAllowed x))
      else map_option (\<lambda>y. x\<lparr>cfg_Limits := y\<rparr>) (get_limits v (cfg_Limits x)))"

definition get_config :: "bytes \<Rightarrow> config \<Rightarrow> config option" where
  "get_config = get_struct [''collection'', ''logs'', ''ec2_metadata'', ''delivery'', ''agent_id'', ''exporter'', ''policy'', ''remote_allowed'',
     ''limits''] set_config"

definition zero_limits :: limits where
  "zero_limits = \<lparr>RequestBytes = 0, lim_QueueBytes = 0, MemoryMiB = 0, ShutdownSeconds = 0\<rparr>"

definition zero_exporter :: exporter_config where
  "zero_exporter = \<lparr>exporter_config.BackendID = [], exporter_config.OrganizationID = [], PreviousEndpoint = [], Type = [], Endpoint = [], HeadersEnv = []\<rparr>"

definition zero_collection :: collection where
  "zero_collection = \<lparr>IntervalSeconds = 0, MaxPoints = 0, MaxDevices = 0, MaxInterfaces = 0, MaxMounts = 0\<rparr>"

definition zero_logs :: logs_config where
  "zero_logs = \<lparr>StateDirectory = [], QueueBytes = 0, QueueItems = 0, OverflowPolicy = [], PollIntervalMillis = 0, MaxFiles = 0,
     Sources = [], Journald = zero_journald\<rparr>"

definition zero_ec2 :: ec2_metadata where
  "zero_ec2 = \<lparr>ec2_Enabled = None, ec2_Required = False, TimeoutSeconds = 0\<rparr>"

definition zero_delivery :: delivery_config where
  "zero_delivery = \<lparr>del_StateDirectory = [], del_OverflowPolicy = [], BatchPoints = 0, del_QueueItems = 0, MaxAttempts = 0, RequestTimeoutSeconds = 0\<rparr>"

definition zero_config :: config where
  "zero_config = \<lparr>yamlConfig = False, cfg_credential = NewCredential [] [] [], cfg_Collection = zero_collection, cfg_Logs = zero_logs,
     EC2 = zero_ec2, Delivery = zero_delivery, AgentID = [], Exporter = zero_exporter, cfg_Policy = zero_document, RemoteAllowed = [],
     cfg_Limits = zero_limits\<rparr>"

definition default_limits :: "config \<Rightarrow> config" where
  "default_limits c =
     (if cfg_Limits c = zero_limits
      then c\<lparr>cfg_Limits := \<lparr>RequestBytes = 4194304, lim_QueueBytes = 67108864, MemoryMiB = 128, ShutdownSeconds = 15\<rparr>\<rparr> else c)"

text \<open>\<^verbatim>\<open>Decode\<close> reads the first value of the stream and leaves the rest.\<close>

definition first_value :: "bytes \<Rightarrow> (bytes \<times> bytes) option" where
  "first_value raw =
     (case pval (2 * length raw + 2) maxNestingDepth raw of
        None \<Rightarrow> None
      | Some (_, r) \<Rightarrow> Some (take (length raw - length r) raw, r))"

text \<open>The part of \<^verbatim>\<open>Parse\<close> that reads JSON.\<close>

definition parseJSON :: "(bytes \<Rightarrow> url option) \<Rightarrow> (bytes \<Rightarrow> bool) \<Rightarrow> bytes \<Rightarrow> config result" where
  "parseJSON parse compiles raw =
     (if rejectDuplicateKeys raw \<noteq> None then Inl (Failure ''configuration contains ambiguous or invalid JSON'')
      else case first_value raw of
        None \<Rightarrow> Inl (Failure ''configuration schema invalid'')
      | Some (v, r) \<Rightarrow>
          (case get_config v zero_config of
             None \<Rightarrow> Inl (Failure ''configuration schema invalid'')
           | Some c \<Rightarrow>
               if skip_ws r \<noteq> [] then Inl (Failure ''configuration must contain one object'')
               else let c1 = default_limits c in
                 (case ValidateConfig parse compiles c1 of Some e \<Rightarrow> Inl e | None \<Rightarrow> Inr c1)))"

section \<open>Decoded strings are valid UTF-8\<close>

lemma utf8_RuneError: "utf8_Valid RuneError"
  by code_simp

lemma utf8_ascii: "of_char c < (128 :: nat) \<Longrightarrow> utf8_Valid [c]"
  using rune_len_ascii[of c "[]"] by (simp add: utf8_Valid.simps)

lemma utf8_one: "rune_len s = length s \<Longrightarrow> utf8_Valid s"
  by (cases "s = []") (simp_all add: utf8_Valid.simps)

lemma of_char_byte: "n < 256 \<Longrightarrow> of_char (char_of n) = (n :: nat)"
  by (simp add: of_char_of)

lemma utf8_encode_rune: "utf8_Valid (encode_rune r)"
proof -
  consider "r < 128" | "128 \<le> r" "r < 2048" | "55296 \<le> r \<and> r \<le> 57343 \<or> 1114111 < r"
    | "2048 \<le> r" "r < 65536" "\<not> (55296 \<le> r \<and> r \<le> 57343)" | "65536 \<le> r" "r \<le> 1114111" by linarith
  then show ?thesis
  proof cases
    case 1
    then show ?thesis by (simp add: encode_rune_def utf8_ascii of_char_byte)
  next
    case 2
    have "2 \<le> r div 64" "r div 64 \<le> 31" using 2 by simp_all
    moreover have "r mod 64 < 64" by simp
    ultimately show ?thesis using 2 by (intro utf8_one) (simp add: encode_rune_def rune_len_def in_range_def of_char_byte)
  next
    case 3
    then show ?thesis by (auto simp: encode_rune_def utf8_RuneError)
  next
    case 4
    define q where "q = r div 64"
    have q: "r div 4096 = q div 64" "32 \<le> q" "q < 1024" "\<not> (864 \<le> q \<and> q \<le> 895)"
      using 4 by (auto simp: q_def div_mult2_eq[symmetric])
    have h: "q = 64 * (q div 64) + q mod 64" "q mod 64 < 64" by simp_all
    have d: "q div 64 < 16" using q by simp
    have "q div 64 = 0 \<longrightarrow> 32 \<le> q mod 64" "q div 64 = 13 \<longrightarrow> q mod 64 \<le> 31" using q h by linarith+
    moreover have "r mod 64 < 64" by simp
    ultimately show ?thesis using 4 d h(2) unfolding encode_rune_def q(1) q_def[symmetric]
      by (intro utf8_one) (auto simp add: rune_len_def in_range_def of_char_byte)
  next
    case 5
    define q where "q = r div 4096"
    have q: "r div 262144 = q div 64" "16 \<le> q" "q \<le> 271" using 5 by (auto simp: q_def div_mult2_eq[symmetric])
    have h: "q = 64 * (q div 64) + q mod 64" "q mod 64 < 64" by simp_all
    have d: "q div 64 < 5" using q by simp
    have "q div 64 = 0 \<longrightarrow> 16 \<le> q mod 64" "q div 64 = 4 \<longrightarrow> q mod 64 \<le> 15" using q h by linarith+
    moreover have "r mod 64 < 64" "r div 64 mod 64 < 64" by simp_all
    ultimately show ?thesis using 5 d h(2) unfolding encode_rune_def q(1) q_def[symmetric]
      by (intro utf8_one) (auto simp add: rune_len_def in_range_def of_char_byte)
  qed
qed

lemma body_cases:
  assumes "body s" "s \<noteq> []"
  obtains (plain) c t where "s = c # t" "plain c" "body t"
  | (esc) x t where "s = BSLASH # x # t" "x \<in> set esc_chars" "body t"
  | (u) a b c d t where "s = BSLASH # CHR ''u'' # a # b # c # d # t" "list_all is_hex [a, b, c, d]" "body t"
  using assms by (cases rule: body.cases) (auto elim!: elem.cases)

lemma utf8_unescape: "x \<in> set esc_chars \<Longrightarrow> utf8_Valid [unescape x]"
proof -
  have "list_all (\<lambda>x. of_char (unescape x) < (128 :: nat)) esc_chars" by code_simp
  then show "x \<in> set esc_chars \<Longrightarrow> utf8_Valid [unescape x]" by (auto simp: list_all_iff intro: utf8_ascii)
qed

lemma body_no_escape: "body (xs @ t) \<Longrightarrow> \<forall>c \<in> set xs. c \<noteq> BSLASH \<Longrightarrow> body t"
  by (induction xs) (auto dest: body_plain_tail)

lemma body_drop_rune:
  assumes "body s" "s \<noteq> []" "hd s \<noteq> BSLASH"
  shows "body (drop (rune_len s) s)"
proof (cases "rune_len s \<le> 1")
  case True
  then have "rune_len s = 0 \<or> rune_len s = 1" by auto
  then show ?thesis using assms by (cases s) (auto dest: body_plain_tail)
next
  case False
  have "\<forall>c \<in> set (take (rune_len s) s). c \<noteq> BSLASH" using rune_high[of s] False by (auto simp: list_all_iff BSLASH_def)
  then show ?thesis using assms(1) body_no_escape[of "take (rune_len s) s" "drop (rune_len s) s"] by simp
qed

lemma body_after_u:
  assumes "body t" "elem_len t = 6"
  shows "body (drop 6 t)"
proof (cases "t = []")
  case False
  with assms(1) show ?thesis
  proof (cases rule: body_cases)
    case (plain c r)
    then show ?thesis using elem_len_elem[OF elem_plain, of c r] assms(2) by simp
  next
    case (esc x r)
    then show ?thesis using elem_len_elem[OF elem_esc, of x r] assms(2) by simp
  qed simp
qed (use assms in simp)

lemma utf8_unquote: "body s \<Longrightarrow> utf8_Valid (unquote s)"
proof (induction s rule: unquote.induct)
  case (1 s)
  show ?case
  proof (cases "s = []")
    case False
    show ?thesis
    proof (cases "hd s = BSLASH")
      case True
      from "1.prems" False show ?thesis
      proof (cases rule: body_cases)
        case (plain c t)
        then show ?thesis using True by (simp add: plain_def)
      next
        case (esc x t)
        have "elem_len s \<noteq> 6" "drop 2 s = t" using elem_len_elem[OF elem_esc, of x t] esc by simp_all
        then have "utf8_Valid (unquote t)" using "1.IH"(2) False True esc by simp
        then show ?thesis using utf8_unescape[OF esc(2)] utf8_Valid_append[of "[unescape x]"] esc by (simp add: unquote_esc)
      next
        case (u a b c d t)
        have e: "elem_len s = 6" using elem_len_elem[OF elem_u, of a b c d t] u by simp
        have "drop 6 s = t" using u by simp
        then have "body (drop (snd (unicode_escape s)) s)"
          using u(3) body_after_u[OF u(3)] drop_drop[of 6 6 s] by (auto simp: unicode_escape_def Let_def)
        then have "utf8_Valid (unquote (drop (snd (unicode_escape s)) s))" using "1.IH"(1) False True e by simp
        moreover have "utf8_Valid (fst (unicode_escape s))"
          by (auto simp: unicode_escape_def Let_def utf8_encode_rune utf8_RuneError)
        ultimately show ?thesis using e False True by (subst unquote.simps) (simp add: utf8_Valid_append)
      qed
    next
      case nb: False
      show ?thesis
      proof (cases "rune_len s = 0")
        case True
        have "body (tl s)" using "1.prems" False nb body_plain_tail[of "hd s" "tl s"] by simp
        then have "utf8_Valid (unquote (tl s))" using "1.IH"(3) False nb True by simp
        then show ?thesis using True False nb by (subst unquote.simps) (simp add: utf8_Valid_append utf8_RuneError)
      next
        case pos: False
        have "body (drop (rune_len s) s)" using body_drop_rune "1.prems" False nb by blast
        then have "utf8_Valid (unquote (drop (rune_len s) s))" using "1.IH"(4) False nb pos by simp
        then show ?thesis using pos False nb utf8_Valid_take[of s] by (subst unquote.simps) (simp add: utf8_Valid_append)
      qed
    qed
  qed (simp add: unquote.simps utf8_Valid.simps)
qed

lemma get_string_utf8: "get_string v old = Some s \<Longrightarrow> utf8_Valid old \<Longrightarrow> utf8_Valid s"
  using json_parse_wf[of v] by (auto simp: get_string_def body_ok_iff utf8_unquote split: option.splits json.splits)

text \<open>What every field keeps, the struct keeps.\<close>

lemma strict_fields_keep:
  "strict_fields fs upd kvs r = Some r' \<Longrightarrow> P r \<Longrightarrow> (\<And>f v r r'. upd f v r = Some r' \<Longrightarrow> P r \<Longrightarrow> P r') \<Longrightarrow> P r'"
  by (induction kvs arbitrary: r) (auto split: option.splits)

lemma get_struct_keep:
  "get_struct fs upd v old = Some r \<Longrightarrow> P old \<Longrightarrow> (\<And>f v r r'. upd f v r = Some r' \<Longrightarrow> P r \<Longrightarrow> P r') \<Longrightarrow> P r"
  by (auto simp: get_struct_def split: option.splits elim: strict_fields_keep[where P = P])

lemma decode_elems_keep:
  "decode_elems d z vs old = Some ys \<Longrightarrow> P z \<Longrightarrow> list_all P old \<Longrightarrow> (\<And>v x y. d v x = Some y \<Longrightarrow> P x \<Longrightarrow> P y) \<Longrightarrow> list_all P ys"
proof (induction vs arbitrary: old ys)
  case (Cons v vs)
  define x where "x = (case old of [] \<Rightarrow> z | x # _ \<Rightarrow> x)"
  have "P x" using Cons.prems(2,3) by (auto simp: x_def split: list.splits)
  moreover obtain y zs where y: "d (pr v) x = Some y" "decode_elems d z vs (tl old) = Some zs" "ys = y # zs"
    using Cons.prems(1) by (auto simp: x_def split: option.splits)
  moreover have "list_all P (tl old)" using Cons.prems(3) by (cases old) auto
  ultimately show ?case using Cons.IH[OF y(2) Cons.prems(2) _ Cons.prems(4)] Cons.prems(4)[OF y(1)] by simp
qed simp

lemma get_list_keep:
  "get_list d z v old = Some ys \<Longrightarrow> P z \<Longrightarrow> list_all P old \<Longrightarrow> (\<And>v x y. d v x = Some y \<Longrightarrow> P x \<Longrightarrow> P y) \<Longrightarrow> list_all P ys"
  by (auto simp: get_list_def split: option.splits json.splits elim: decode_elems_keep[where P = P])

lemma utf8_Nil [simp]: "utf8_Valid []"
  by (simp add: utf8_Valid.simps)

lemma get_strings_utf8: "get_strings v old = Some ys \<Longrightarrow> list_all utf8_Valid old \<Longrightarrow> list_all utf8_Valid ys"
  unfolding get_strings_def by (erule get_list_keep) (auto dest: get_string_utf8)

definition text_exporter :: "exporter_config \<Rightarrow> bool" where
  "text_exporter x \<longleftrightarrow> utf8_Valid (exporter_config.BackendID x) \<and> utf8_Valid (exporter_config.OrganizationID x) \<and>
     utf8_Valid (PreviousEndpoint x) \<and> utf8_Valid (Type x) \<and> utf8_Valid (Endpoint x)"

definition text_source :: "log_source \<Rightarrow> bool" where
  "text_source x \<longleftrightarrow> utf8_Valid (src_ID x) \<and> utf8_Valid (src_Root x) \<and> list_all utf8_Valid (Include x) \<and>
     list_all utf8_Valid (Exclude x) \<and> utf8_Valid (src_StartAt x) \<and> utf8_Valid (ServiceName x) \<and>
     utf8_Valid (Environment x) \<and> utf8_Valid (StartPattern (Multiline x))"

definition text_journald :: "journald_source \<Rightarrow> bool" where
  "text_journald x \<longleftrightarrow> list_all utf8_Valid (Units x) \<and> list_all utf8_Valid (Identifiers x) \<and> utf8_Valid (jd_Priority x) \<and> utf8_Valid (jd_StartAt x)"

definition text_logs :: "logs_config \<Rightarrow> bool" where
  "text_logs x \<longleftrightarrow> utf8_Valid (StateDirectory x) \<and> utf8_Valid (OverflowPolicy x) \<and> list_all text_source (Sources x) \<and> text_journald (Journald x)"

definition text_config :: "config \<Rightarrow> bool" where
  "text_config c \<longleftrightarrow> text_exporter (Exporter c) \<and> text_logs (cfg_Logs c) \<and> utf8_Valid (AgentID c) \<and>
     utf8_Valid (del_StateDirectory (Delivery c)) \<and> utf8_Valid (del_OverflowPolicy (Delivery c)) \<and> list_all utf8_Valid (RemoteAllowed c)"

lemma text_get_exporter: "get_exporter v old = Some x \<Longrightarrow> text_exporter old \<Longrightarrow> text_exporter x"
  unfolding get_exporter_def
  by (erule get_struct_keep) (auto simp: set_exporter_def text_exporter_def split: if_splits dest: get_string_utf8)

lemma text_get_multiline: "get_multiline v old = Some x \<Longrightarrow> utf8_Valid (StartPattern old) \<Longrightarrow> utf8_Valid (StartPattern x)"
  unfolding get_multiline_def
  by (erule get_struct_keep) (auto simp: set_multiline_def split: if_splits dest: get_string_utf8)

lemma text_get_source: "get_source v old = Some x \<Longrightarrow> text_source old \<Longrightarrow> text_source x"
  unfolding get_source_def
  by (erule get_struct_keep)
     (auto simp: set_source_def text_source_def split: if_splits dest: get_string_utf8 get_strings_utf8 text_get_multiline)

lemma text_get_journald: "get_journald v old = Some x \<Longrightarrow> text_journald old \<Longrightarrow> text_journald x"
  unfolding get_journald_def
  by (erule get_struct_keep)
     (auto simp: set_journald_def text_journald_def split: if_splits dest: get_string_utf8 get_strings_utf8)

lemma text_get_sources: "get_list get_source zero_source v old = Some xs \<Longrightarrow> list_all text_source old \<Longrightarrow> list_all text_source xs"
  by (erule get_list_keep) (auto simp: zero_source_def zero_multiline_def text_source_def dest: text_get_source)

lemma text_get_logs: "get_logs v old = Some x \<Longrightarrow> text_logs old \<Longrightarrow> text_logs x"
  unfolding get_logs_def
  by (erule get_struct_keep)
     (auto simp: set_logs_def text_logs_def split: if_splits dest: get_string_utf8 text_get_sources text_get_journald)

lemma text_get_delivery: "get_delivery v old = Some x \<Longrightarrow> utf8_Valid (del_StateDirectory old) \<and> utf8_Valid (del_OverflowPolicy old) \<Longrightarrow>
   utf8_Valid (del_StateDirectory x) \<and> utf8_Valid (del_OverflowPolicy x)"
  unfolding get_delivery_def
  by (erule get_struct_keep) (auto simp: set_delivery_def split: if_splits dest: get_string_utf8)

lemma text_get_config: "get_config v old = Some c \<Longrightarrow> text_config old \<Longrightarrow> text_config c"
  unfolding get_config_def
  by (erule get_struct_keep)
     (auto simp: set_config_def text_config_def split: if_splits
       dest: get_string_utf8 get_strings_utf8 text_get_exporter text_get_logs text_get_delivery)

lemma text_zero_config: "text_config zero_config"
  by (simp add: text_config_def zero_config_def text_exporter_def zero_exporter_def text_logs_def zero_logs_def
      text_journald_def zero_journald_def zero_delivery_def)

lemma default_limits_text [simp]: "text_config (default_limits c) = text_config c"
  by (simp add: default_limits_def text_config_def)

lemma parseJSON_Inr:
  "parseJSON parse compiles raw = Inr c \<Longrightarrow> ValidateConfig parse compiles c = None \<and> text_config c"
  by (auto simp: parseJSON_def Let_def text_zero_config split: if_splits option.splits dest!: text_get_config)

end
