(* ===== verification/ConfigYaml.thy ===== *)
theory ConfigYaml
  imports ConfigJson Float64
begin

text \<open>
  The YAML front end of the configuration (\<^verbatim>\<open>src/internal/config/yaml.go\<close>). The YAML library is a parameter: the
  nodes it reads, and the value of a scalar node. \<^verbatim>\<open>time.ParseDuration\<close> is modelled with its overflow checks
  and its floating point fraction.
\<close>

section \<open>Durations\<close>

fun leadingInt :: "nat \<Rightarrow> bytes \<Rightarrow> (nat \<times> bytes) option" where
  "leadingInt x [] = Some (x, [])"
| "leadingInt x (c # s) =
     (if \<not> is_digit c then Some (x, c # s)
      else if 2 ^ 63 div 10 < x then None
      else let y = 10 * x + digit_val c in if 2 ^ 63 < y then None else leadingInt y s)"

text \<open>The fraction, the number of its digits that count, and the rest; after an overflow digits are skipped.\<close>

fun leadingFraction :: "nat \<Rightarrow> nat \<Rightarrow> bool \<Rightarrow> bytes \<Rightarrow> nat \<times> nat \<times> bytes" where
  "leadingFraction x k overflow [] = (x, k, [])"
| "leadingFraction x k overflow (c # s) =
     (if \<not> is_digit c then (x, k, c # s)
      else if overflow \<or> (2 ^ 63 - 1) div 10 < x then leadingFraction x k True s
      else let y = 10 * x + digit_val c in
        if 2 ^ 63 < y then leadingFraction x k True s else leadingFraction y (Suc k) False s)"

definition unitMap :: "(bytes \<times> nat) list" where
  "unitMap = [(''ns'', 1), (''us'', 1000), ([CHR 0xC2, CHR 0xB5, CHR ''s''], 1000), ([CHR 0xCE, CHR 0xBC, CHR ''s''], 1000),
     (''ms'', 1000000), (''s'', 1000000000), (''m'', 60000000000), (''h'', 3600000000000)]"

definition fraction_nanos :: "nat \<Rightarrow> nat \<Rightarrow> nat \<Rightarrow> nat" where
  "fraction_nanos f u k = nat \<lfloor>round64 (round64 (of_nat f) * round64 (of_nat u / 10 ^ k))\<rfloor>"

definition unit_char :: "char \<Rightarrow> bool" where
  "unit_char c \<longleftrightarrow> \<not> (c = CHR ''.'' \<or> is_digit c)"

text \<open>One round of the loop: a number and its unit.\<close>

definition duration_part :: "bytes \<Rightarrow> (nat \<times> bytes) option" where
  "duration_part s =
     (if unit_char (hd s) then None
      else case leadingInt 0 s of
        None \<Rightarrow> None
      | Some (v, s1) \<Rightarrow>
          let dot = HasPrefix s1 ''.'';
              (f, k, s2) = (if dot then leadingFraction 0 0 False (tl s1) else (0, 0, s1));
              pre = (length s1 \<noteq> length s);
              post = (dot \<and> length s2 \<noteq> length (tl s1));
              u = takeWhile unit_char s2
          in if \<not> pre \<and> \<not> post then None
             else if u = [] then None
             else case map_of unitMap u of
               None \<Rightarrow> None
             | Some n \<Rightarrow>
                 if 2 ^ 63 div n < v then None
                 else let w = v * n + (if 0 < f then fraction_nanos f n k else 0)
                      in if 2 ^ 63 < w then None else Some (w, drop (length u) s2))"

lemma leadingInt_length: "leadingInt x s = Some (v, r) \<Longrightarrow> length r \<le> length s"
  by (induction x s rule: leadingInt.induct) (auto simp: Let_def split: if_splits)

lemma leadingFraction_length: "leadingFraction x k b s = (v, j, r) \<Longrightarrow> length r \<le> length s"
  by (induction x k b s rule: leadingFraction.induct) (auto simp: Let_def split: if_splits)

lemma duration_part_length: "duration_part s = Some (v, r) \<Longrightarrow> length r < length s"
proof -
  assume a: "duration_part s = Some (v, r)"
  obtain w s1 where l: "leadingInt 0 s = Some (w, s1)" using a by (auto simp: duration_part_def split: if_splits option.splits)
  obtain f k s2 where f: "(if HasPrefix s1 ''.'' then leadingFraction 0 0 False (tl s1) else (0, 0, s1)) = (f, k, s2)"
    by (metis prod_cases3)
  have "length s2 \<le> length s1" using f leadingFraction_length[of 0 0 False "tl s1" f k s2] by (auto split: if_splits)
  moreover have "takeWhile unit_char s2 \<noteq> []" "r = drop (length (takeWhile unit_char s2)) s2"
    using a l f by (auto simp: duration_part_def Let_def split: if_splits option.splits)
  moreover from this have "length r < length s2" by (cases s2) auto
  ultimately show ?thesis using leadingInt_length[OF l] by simp
qed

text \<open>The sum is a \<^verbatim>\<open>uint64\<close>.\<close>

function duration_sum :: "nat \<Rightarrow> bytes \<Rightarrow> nat option" where
  "duration_sum d s =
     (if s = [] then Some d
      else case duration_part s of
        None \<Rightarrow> None
      | Some (v, r) \<Rightarrow> let d1 = (d + v) mod 2 ^ 64 in if 2 ^ 63 < d1 then None else duration_sum d1 r)"
  by pat_completeness auto
termination
  by (relation "measure (\<lambda>(d, s). length s)") (auto dest: duration_part_length)

declare duration_sum.simps [simp del]

definition ParseDuration :: "bytes \<Rightarrow> int option" where
  "ParseDuration s =
     (let neg = HasPrefix s ''-''; t = (if neg \<or> HasPrefix s ''+'' then tl s else s) in
      if t = ''0'' then Some 0
      else if t = [] then None
      else case duration_sum 0 t of
        None \<Rightarrow> None
      | Some d \<Rightarrow> if neg then Some (- int d) else if 2 ^ 63 - 1 < d then None else Some (int d))"

text \<open>\<^verbatim>\<open>int(d / time.Millisecond)\<close>, which rounds towards zero.\<close>

definition millis :: "int \<Rightarrow> int" where
  "millis d = (if d < 0 then - (- d div 1000000) else d div 1000000)"

section \<open>Nodes\<close>

text \<open>A node with its anchor; the content of a mapping comes in pairs.\<close>

datatype ynode =
    DocumentNode bytes "ynode list"
  | MappingNode bytes "(ynode \<times> ynode) list"
  | SequenceNode bytes "ynode list"
  | ScalarNode bytes bytes bytes
  | AliasNode bytes
  | OtherNode bytes

datatype any =
    ANull
  | ABool bool
  | ANumber bytes
  | AString bytes
  | AList "any list"
  | AMap "(bytes \<times> any) list"

text \<open>
  The library: the first document of the input, whether there is more, and the value of a scalar with its tag.
  A number is its literal as \<^verbatim>\<open>json.Marshal\<close> writes it.
\<close>

record yaml_library =
  yl_first :: "bytes \<Rightarrow> ynode option"
  yl_more :: "bytes \<Rightarrow> bool"
  yl_scalar :: "bytes \<Rightarrow> bytes \<Rightarrow> any option"

fun anchor :: "ynode \<Rightarrow> bytes" where
  "anchor (DocumentNode a _) = a"
| "anchor (MappingNode a _) = a"
| "anchor (SequenceNode a _) = a"
| "anchor (ScalarNode a _ _) = a"
| "anchor (AliasNode a) = a"
| "anchor (OtherNode a) = a"

fun is_alias :: "ynode \<Rightarrow> bool" where
  "is_alias (AliasNode _) = True"
| "is_alias _ = False"

text \<open>The key of a mapping, if the code accepts it.\<close>

fun key_of :: "ynode \<Rightarrow> bytes option" where
  "key_of (ScalarNode a t v) = (if t \<noteq> ''!!str'' \<or> v = ''<<'' then None else Some v)"
| "key_of _ = None"

definition refused_node :: "nat \<Rightarrow> nat \<Rightarrow> ynode \<Rightarrow> bool" where
  "refused_node count depth n \<longleftrightarrow> 2048 < count \<or> 16 < depth \<or> anchor n \<noteq> [] \<or> is_alias n"

text \<open>The closure \<^verbatim>\<open>convert\<close> threads the counter of nodes. \<open>None\<close> is the error.\<close>

fun convert :: "(bytes \<Rightarrow> bytes \<Rightarrow> any option) \<Rightarrow> ynode \<Rightarrow> nat \<Rightarrow> nat \<Rightarrow> any option \<times> nat"
  and convert_items :: "(bytes \<Rightarrow> bytes \<Rightarrow> any option) \<Rightarrow> ynode list \<Rightarrow> nat \<Rightarrow> nat \<Rightarrow> any list option \<times> nat"
  and convert_pairs :: "(bytes \<Rightarrow> bytes \<Rightarrow> any option) \<Rightarrow> (ynode \<times> ynode) list \<Rightarrow> bytes list \<Rightarrow> nat \<Rightarrow> nat \<Rightarrow> (bytes \<times> any) list option \<times> nat"
where
  "convert scalar (DocumentNode a ns) depth c =
     (if refused_node (Suc c) depth (DocumentNode a ns) then (None, Suc c)
      else case ns of [n] \<Rightarrow> convert scalar n (depth + 1) (Suc c) | _ \<Rightarrow> (None, Suc c))"
| "convert scalar (MappingNode a ps) depth c =
     (if refused_node (Suc c) depth (MappingNode a ps) then (None, Suc c)
      else case convert_pairs scalar ps [] (depth + 1) (Suc c) of
        (None, c1) \<Rightarrow> (None, c1) | (Some kvs, c1) \<Rightarrow> (Some (AMap kvs), c1))"
| "convert scalar (SequenceNode a ns) depth c =
     (if refused_node (Suc c) depth (SequenceNode a ns) then (None, Suc c)
      else case convert_items scalar ns (depth + 1) (Suc c) of
        (None, c1) \<Rightarrow> (None, c1) | (Some vs, c1) \<Rightarrow> (Some (AList vs), c1))"
| "convert scalar (ScalarNode a t v) depth c =
     (if refused_node (Suc c) depth (ScalarNode a t v) then (None, Suc c)
      else if t \<notin> {''!!str'', ''!!bool'', ''!!int'', ''!!null''} then (None, Suc c)
      else (scalar t v, Suc c))"
| "convert scalar (AliasNode a) depth c = (None, Suc c)"
| "convert scalar (OtherNode a) depth c = (None, Suc c)"
| "convert_items scalar [] depth c = (Some [], c)"
| "convert_items scalar (n # ns) depth c =
     (case convert scalar n depth c of
        (None, c1) \<Rightarrow> (None, c1)
      | (Some v, c1) \<Rightarrow>
          (case convert_items scalar ns depth c1 of (None, c2) \<Rightarrow> (None, c2) | (Some vs, c2) \<Rightarrow> (Some (v # vs), c2)))"
| "convert_pairs scalar [] seen depth c = (Some [], c)"
| "convert_pairs scalar ((k, n) # ps) seen depth c =
     (case key_of k of
        None \<Rightarrow> (None, c)
      | Some s \<Rightarrow>
          if s \<in> set seen then (None, c)
          else case convert scalar n depth c of
            (None, c1) \<Rightarrow> (None, c1)
          | (Some v, c1) \<Rightarrow>
              (case convert_pairs scalar ps (s # seen) depth c1 of
                 (None, c2) \<Rightarrow> (None, c2) | (Some kvs, c2) \<Rightarrow> (Some ((s, v) # kvs), c2)))"

section \<open>Back to JSON\<close>

text \<open>\<^verbatim>\<open>json.Marshal\<close> of the converted value; a number that is no JSON literal (an infinity) is its error.\<close>

fun numbers_ok :: "any \<Rightarrow> bool" where
  "numbers_ok (ANumber l) = num_ok l"
| "numbers_ok (AList vs) = list_all numbers_ok vs"
| "numbers_ok (AMap kvs) = list_all (\<lambda>(k, v). numbers_ok v) kvs"
| "numbers_ok _ = True"

fun json_any :: "any \<Rightarrow> json" where
  "json_any ANull = JNull"
| "json_any (ABool b) = JBool b"
| "json_any (ANumber l) = JNum l"
| "json_any (AString s) = JStr (quote_body s)"
| "json_any (AList vs) = JArr (map json_any vs)"
| "json_any (AMap kvs) = JObj (map snd (sort_key fst (map (\<lambda>(k, v). (k, quote_body k, json_any v)) kvs)))"

section \<open>The front end\<close>

record yaml_multiline =
  ym_Enabled :: bool
  ym_StartPattern :: bytes
  ym_FlushTimeout :: bytes
  ym_MaxLines :: int
  ym_MaxBytes :: int

record yaml_source =
  ys_ID :: bytes
  ys_Root :: bytes
  ys_Include :: "bytes list"
  ys_Exclude :: "bytes list"
  ys_StartAt :: bytes
  ys_ServiceName :: bytes
  ys_Environment :: bytes
  ys_MaxOpenFiles :: int
  ys_MaxLineBytes :: int
  ys_Multiline :: yaml_multiline

record yaml_logs =
  yl_Enabled :: bool
  yl_StateDirectory :: bytes
  yl_QueueBytes :: int
  yl_QueueItems :: int
  yl_OverflowPolicy :: bytes
  yl_PollInterval :: bytes
  yl_MaxFiles :: int
  yl_Files :: "yaml_source list"
  yl_Journald :: journald_source

record yaml_observe =
  yo_BackendID :: bytes
  yo_OrganizationID :: bytes
  yo_PreviousEndpoint :: bytes
  yo_Endpoint :: bytes
  yo_APIKey :: bytes
  yo_APIKeyEnv :: bytes
  yo_APIKeyFile :: bytes

record yaml_collection =
  yc_Metrics :: bool
  yc_Logs :: yaml_logs
  yc_Traces :: bool
  yc_Interval :: int

record yaml_frontend =
  yf_AgentID :: bytes
  yf_Observe :: yaml_observe
  yf_Collection :: yaml_collection
  yf_EC2 :: ec2_metadata
  yf_Delivery :: delivery_config
  yf_Limits :: limits

definition zero_yaml_multiline :: yaml_multiline where
  "zero_yaml_multiline = \<lparr>ym_Enabled = False, ym_StartPattern = [], ym_FlushTimeout = [], ym_MaxLines = 0, ym_MaxBytes = 0\<rparr>"

definition zero_yaml_source :: yaml_source where
  "zero_yaml_source = \<lparr>ys_ID = [], ys_Root = [], ys_Include = [], ys_Exclude = [], ys_StartAt = [], ys_ServiceName = [], ys_Environment = [],
     ys_MaxOpenFiles = 0, ys_MaxLineBytes = 0, ys_Multiline = zero_yaml_multiline\<rparr>"

definition zero_yaml_logs :: yaml_logs where
  "zero_yaml_logs = \<lparr>yl_Enabled = False, yl_StateDirectory = [], yl_QueueBytes = 0, yl_QueueItems = 0, yl_OverflowPolicy = [],
     yl_PollInterval = [], yl_MaxFiles = 0, yl_Files = [], yl_Journald = zero_journald\<rparr>"

definition zero_yaml_frontend :: yaml_frontend where
  "zero_yaml_frontend = \<lparr>yf_AgentID = [],
     yf_Observe = \<lparr>yo_BackendID = [], yo_OrganizationID = [], yo_PreviousEndpoint = [], yo_Endpoint = [], yo_APIKey = [], yo_APIKeyEnv = [], yo_APIKeyFile = []\<rparr>,
     yf_Collection = \<lparr>yc_Metrics = False, yc_Logs = zero_yaml_logs, yc_Traces = False, yc_Interval = 0\<rparr>,
     yf_EC2 = zero_ec2, yf_Delivery = zero_delivery, yf_Limits = zero_limits\<rparr>"

text \<open>\<^verbatim>\<open>yamlToggle\<close> has one field.\<close>

definition get_toggle :: "bytes \<Rightarrow> bool \<Rightarrow> bool option" where
  "get_toggle = get_struct [''enabled''] (\<lambda>f v b. get_bool v b)"

definition set_yaml_multiline :: "bytes \<Rightarrow> bytes \<Rightarrow> yaml_multiline \<Rightarrow> yaml_multiline option" where
  "set_yaml_multiline f v x =
     (if f = ''enabled'' then map_option (\<lambda>y. x\<lparr>ym_Enabled := y\<rparr>) (get_bool v (ym_Enabled x))
      else if f = ''start_pattern'' then map_option (\<lambda>y. x\<lparr>ym_StartPattern := y\<rparr>) (get_string v (ym_StartPattern x))
      else if f = ''flush_timeout'' then map_option (\<lambda>y. x\<lparr>ym_FlushTimeout := y\<rparr>) (get_string v (ym_FlushTimeout x))
      else if f = ''max_lines'' then map_option (\<lambda>y. x\<lparr>ym_MaxLines := y\<rparr>) (get_int v (ym_MaxLines x))
      else map_option (\<lambda>y. x\<lparr>ym_MaxBytes := y\<rparr>) (get_int v (ym_MaxBytes x)))"

definition get_yaml_multiline :: "bytes \<Rightarrow> yaml_multiline \<Rightarrow> yaml_multiline option" where
  "get_yaml_multiline = get_struct [''enabled'', ''start_pattern'', ''flush_timeout'', ''max_lines'', ''max_bytes''] set_yaml_multiline"

definition set_yaml_source :: "bytes \<Rightarrow> bytes \<Rightarrow> yaml_source \<Rightarrow> yaml_source option" where
  "set_yaml_source f v x =
     (if f = ''id'' then map_option (\<lambda>y. x\<lparr>ys_ID := y\<rparr>) (get_string v (ys_ID x))
      else if f = ''root'' then map_option (\<lambda>y. x\<lparr>ys_Root := y\<rparr>) (get_string v (ys_Root x))
      else if f = ''include'' then map_option (\<lambda>y. x\<lparr>ys_Include := y\<rparr>) (get_strings v (ys_Include x))
      else if f = ''exclude'' then map_option (\<lambda>y. x\<lparr>ys_Exclude := y\<rparr>) (get_strings v (ys_Exclude x))
      else if f = ''start_at'' then map_option (\<lambda>y. x\<lparr>ys_StartAt := y\<rparr>) (get_string v (ys_StartAt x))
      else if f = ''service_name'' then map_option (\<lambda>y. x\<lparr>ys_ServiceName := y\<rparr>) (get_string v (ys_ServiceName x))
      else if f = ''environment'' then map_option (\<lambda>y. x\<lparr>ys_Environment := y\<rparr>) (get_string v (ys_Environment x))
      else if f = ''max_open_files'' then map_option (\<lambda>y. x\<lparr>ys_MaxOpenFiles := y\<rparr>) (get_int v (ys_MaxOpenFiles x))
      else if f = ''max_line_bytes'' then map_option (\<lambda>y. x\<lparr>ys_MaxLineBytes := y\<rparr>) (get_int v (ys_MaxLineBytes x))
      else map_option (\<lambda>y. x\<lparr>ys_Multiline := y\<rparr>) (get_yaml_multiline v (ys_Multiline x)))"

definition get_yaml_source :: "bytes \<Rightarrow> yaml_source \<Rightarrow> yaml_source option" where
  "get_yaml_source = get_struct [''id'', ''root'', ''include'', ''exclude'', ''start_at'', ''service_name'', ''environment'',
     ''max_open_files'', ''max_line_bytes'', ''multiline''] set_yaml_source"

definition set_yaml_logs :: "bytes \<Rightarrow> bytes \<Rightarrow> yaml_logs \<Rightarrow> yaml_logs option" where
  "set_yaml_logs f v x =
     (if f = ''enabled'' then map_option (\<lambda>y. x\<lparr>yl_Enabled := y\<rparr>) (get_bool v (yl_Enabled x))
      else if f = ''state_directory'' then map_option (\<lambda>y. x\<lparr>yl_StateDirectory := y\<rparr>) (get_string v (yl_StateDirectory x))
      else if f = ''queue_bytes'' then map_option (\<lambda>y. x\<lparr>yl_QueueBytes := y\<rparr>) (get_int v (yl_QueueBytes x))
      else if f = ''queue_items'' then map_option (\<lambda>y. x\<lparr>yl_QueueItems := y\<rparr>) (get_int v (yl_QueueItems x))
      else if f = ''overflow_policy'' then map_option (\<lambda>y. x\<lparr>yl_OverflowPolicy := y\<rparr>) (get_string v (yl_OverflowPolicy x))
      else if f = ''poll_interval'' then map_option (\<lambda>y. x\<lparr>yl_PollInterval := y\<rparr>) (get_string v (yl_PollInterval x))
      else if f = ''max_files'' then map_option (\<lambda>y. x\<lparr>yl_MaxFiles := y\<rparr>) (get_int v (yl_MaxFiles x))
      else if f = ''files'' then map_option (\<lambda>y. x\<lparr>yl_Files := y\<rparr>) (get_list get_yaml_source zero_yaml_source v (yl_Files x))
      else map_option (\<lambda>y. x\<lparr>yl_Journald := y\<rparr>) (get_journald v (yl_Journald x)))"

definition get_yaml_logs :: "bytes \<Rightarrow> yaml_logs \<Rightarrow> yaml_logs option" where
  "get_yaml_logs = get_struct [''enabled'', ''state_directory'', ''queue_bytes'', ''queue_items'', ''overflow_policy'', ''poll_interval'',
     ''max_files'', ''files'', ''journald''] set_yaml_logs"

definition set_yaml_observe :: "bytes \<Rightarrow> bytes \<Rightarrow> yaml_observe \<Rightarrow> yaml_observe option" where
  "set_yaml_observe f v x =
     (if f = ''backend_id'' then map_option (\<lambda>y. x\<lparr>yo_BackendID := y\<rparr>) (get_string v (yo_BackendID x))
      else if f = ''organization_id'' then map_option (\<lambda>y. x\<lparr>yo_OrganizationID := y\<rparr>) (get_string v (yo_OrganizationID x))
      else if f = ''previous_endpoint'' then map_option (\<lambda>y. x\<lparr>yo_PreviousEndpoint := y\<rparr>) (get_string v (yo_PreviousEndpoint x))
      else if f = ''endpoint'' then map_option (\<lambda>y. x\<lparr>yo_Endpoint := y\<rparr>) (get_string v (yo_Endpoint x))
      else if f = ''api_key'' then map_option (\<lambda>y. x\<lparr>yo_APIKey := y\<rparr>) (get_string v (yo_APIKey x))
      else if f = ''api_key_env'' then map_option (\<lambda>y. x\<lparr>yo_APIKeyEnv := y\<rparr>) (get_string v (yo_APIKeyEnv x))
      else map_option (\<lambda>y. x\<lparr>yo_APIKeyFile := y\<rparr>) (get_string v (yo_APIKeyFile x)))"

definition get_yaml_observe :: "bytes \<Rightarrow> yaml_observe \<Rightarrow> yaml_observe option" where
  "get_yaml_observe = get_struct [''backend_id'', ''organization_id'', ''previous_endpoint'', ''endpoint'', ''api_key'', ''api_key_env'',
     ''api_key_file''] set_yaml_observe"

definition set_yaml_collection :: "bytes \<Rightarrow> bytes \<Rightarrow> yaml_collection \<Rightarrow> yaml_collection option" where
  "set_yaml_collection f v x =
     (if f = ''metrics'' then map_option (\<lambda>y. x\<lparr>yc_Metrics := y\<rparr>) (get_toggle v (yc_Metrics x))
      else if f = ''logs'' then map_option (\<lambda>y. x\<lparr>yc_Logs := y\<rparr>) (get_yaml_logs v (yc_Logs x))
      else if f = ''traces'' then map_option (\<lambda>y. x\<lparr>yc_Traces := y\<rparr>) (get_toggle v (yc_Traces x))
      else map_option (\<lambda>y. x\<lparr>yc_Interval := y\<rparr>) (get_int v (yc_Interval x)))"

definition get_yaml_collection :: "bytes \<Rightarrow> yaml_collection \<Rightarrow> yaml_collection option" where
  "get_yaml_collection = get_struct [''metrics'', ''logs'', ''traces'', ''interval_seconds''] set_yaml_collection"

definition set_yaml_frontend :: "bytes \<Rightarrow> bytes \<Rightarrow> yaml_frontend \<Rightarrow> yaml_frontend option" where
  "set_yaml_frontend f v x =
     (if f = ''agent_id'' then map_option (\<lambda>y. x\<lparr>yf_AgentID := y\<rparr>) (get_string v (yf_AgentID x))
      else if f = ''observe'' then map_option (\<lambda>y. x\<lparr>yf_Observe := y\<rparr>) (get_yaml_observe v (yf_Observe x))
      else if f = ''collection'' then map_option (\<lambda>y. x\<lparr>yf_Collection := y\<rparr>) (get_yaml_collection v (yf_Collection x))
      else if f = ''ec2_metadata'' then map_option (\<lambda>y. x\<lparr>yf_EC2 := y\<rparr>) (get_ec2 v (yf_EC2 x))
      else if f = ''delivery'' then map_option (\<lambda>y. x\<lparr>yf_Delivery := y\<rparr>) (get_delivery v (yf_Delivery x))
      else map_option (\<lambda>y. x\<lparr>yf_Limits := y\<rparr>) (get_limits v (yf_Limits x)))"

definition get_yaml_frontend :: "bytes \<Rightarrow> yaml_frontend \<Rightarrow> yaml_frontend option" where
  "get_yaml_frontend = get_struct [''agent_id'', ''observe'', ''collection'', ''ec2_metadata'', ''delivery'', ''limits''] set_yaml_frontend"

section \<open>The normalized configuration\<close>

text \<open>An empty duration leaves the field at zero.\<close>

definition duration_millis :: "bytes \<Rightarrow> int option" where
  "duration_millis s = (if s = [] then Some 0 else map_option millis (ParseDuration s))"

definition yaml_to_source :: "yaml_source \<Rightarrow> log_source option" where
  "yaml_to_source s =
     map_option (\<lambda>t. \<lparr>src_ID = ys_ID s, src_Root = ys_Root s, Include = ys_Include s, Exclude = ys_Exclude s, src_StartAt = ys_StartAt s,
       ServiceName = ys_ServiceName s, Environment = ys_Environment s, MaxOpenFiles = ys_MaxOpenFiles s, MaxLineBytes = ys_MaxLineBytes s,
       Multiline = \<lparr>ml_Enabled = ym_Enabled (ys_Multiline s), StartPattern = ym_StartPattern (ys_Multiline s), FlushTimeoutMillis = t,
         MaxLines = ym_MaxLines (ys_Multiline s), ml_MaxBytes = ym_MaxBytes (ys_Multiline s)\<rparr>\<rparr>)
       (duration_millis (ym_FlushTimeout (ys_Multiline s)))"

fun yaml_to_sources :: "yaml_source list \<Rightarrow> log_source list option" where
  "yaml_to_sources [] = Some []"
| "yaml_to_sources (s # ss) =
     (case yaml_to_source s of None \<Rightarrow> None | Some x \<Rightarrow> map_option (\<lambda>xs. x # xs) (yaml_to_sources ss))"

definition yaml_to_logs :: "yaml_logs \<Rightarrow> logs_config option" where
  "yaml_to_logs l =
     (case duration_millis (yl_PollInterval l) of
        None \<Rightarrow> None
      | Some t \<Rightarrow> map_option (\<lambda>ss. \<lparr>StateDirectory = yl_StateDirectory l, QueueBytes = yl_QueueBytes l, QueueItems = yl_QueueItems l,
          OverflowPolicy = yl_OverflowPolicy l, PollIntervalMillis = t, MaxFiles = yl_MaxFiles l, Sources = ss, Journald = yl_Journald l\<rparr>)
          (yaml_to_sources (yl_Files l)))"

definition yaml_to_config :: "yaml_frontend \<Rightarrow> logs_config \<Rightarrow> config" where
  "yaml_to_config f l =
     \<lparr>yamlConfig = True, cfg_credential = NewCredential (yo_APIKey (yf_Observe f)) (yo_APIKeyEnv (yf_Observe f)) (yo_APIKeyFile (yf_Observe f)),
      cfg_Collection = zero_collection\<lparr>IntervalSeconds := yc_Interval (yf_Collection f)\<rparr>, cfg_Logs = l, EC2 = yf_EC2 f, Delivery = yf_Delivery f,
      AgentID = yf_AgentID f,
      Exporter = \<lparr>exporter_config.BackendID = yo_BackendID (yf_Observe f), exporter_config.OrganizationID = yo_OrganizationID (yf_Observe f),
        PreviousEndpoint = yo_PreviousEndpoint (yf_Observe f), Type = ''otlp_http'', Endpoint = yo_Endpoint (yf_Observe f),
        HeadersEnv = [(''Authorization'', ''OBSERVE_CONFIG_CREDENTIAL'')]\<rparr>,
      cfg_Policy = \<lparr>version = 1, enabled = [(Metrics, yc_Metrics (yf_Collection f)), (Logs, yl_Enabled (yc_Logs (yf_Collection f))), (Traces, False)]\<rparr>,
      RemoteAllowed = [], cfg_Limits = yf_Limits f\<rparr>"

definition yaml_invalid :: error where
  "yaml_invalid = Failure ''YAML configuration invalid: check schema, unique keys and credential settings''"

text \<open>From the bytes to the front end, and from there to the configuration.\<close>

definition yaml_json :: "yaml_library \<Rightarrow> bytes \<Rightarrow> bytes option" where
  "yaml_json lib raw =
     (case yl_first lib raw of
        None \<Rightarrow> None
      | Some n \<Rightarrow>
          if yl_more lib raw then None
          else case fst (convert (yl_scalar lib) n 0 0) of
            None \<Rightarrow> None
          | Some v \<Rightarrow> if numbers_ok v then Some (pr (json_any v)) else None)"

definition parseYAML :: "(bytes \<Rightarrow> url option) \<Rightarrow> (bytes \<Rightarrow> bool) \<Rightarrow> yaml_library \<Rightarrow> bytes \<Rightarrow> config result" where
  "parseYAML parse compiles lib raw =
     (case yaml_json lib raw of
        None \<Rightarrow> Inl yaml_invalid
      | Some data \<Rightarrow>
          (case get_yaml_frontend data zero_yaml_frontend of
             None \<Rightarrow> Inl yaml_invalid
           | Some f \<Rightarrow>
               let ob = yf_Observe f in
               if yc_Traces (yf_Collection f) then Inl (Failure ''this package does not support traces'')
               else if yo_APIKeyEnv ob \<noteq> [] \<and> \<not> envName (yo_APIKeyEnv ob) then Inl yaml_invalid
               else if yo_APIKeyFile ob \<noteq> [] \<and> \<not> IsAbs (yo_APIKeyFile ob) then Inl yaml_invalid
               else if yo_APIKey ob = [] \<and> yo_APIKeyEnv ob = [] \<and> yo_APIKeyFile ob = []
               then Inl (Failure ''observe authentication must be configured'')
               else case yaml_to_logs (yc_Logs (yf_Collection f)) of
                 None \<Rightarrow> Inl yaml_invalid
               | Some l \<Rightarrow>
                   let c = default_limits (yaml_to_config f l) in
                   (case ValidateConfig parse compiles c of Some e \<Rightarrow> Inl e | None \<Rightarrow> Inr c)))"

section \<open>What a converted document looks like\<close>

fun any_nodes :: "any \<Rightarrow> nat" where
  "any_nodes (AList vs) = Suc (sum_list (map any_nodes vs))"
| "any_nodes (AMap kvs) = Suc (sum_list (map (\<lambda>(k, v). any_nodes v) kvs))"
| "any_nodes _ = 1"

fun any_depth :: "any \<Rightarrow> nat" where
  "any_depth (AList vs) = Suc (fold max (map any_depth vs) 0)"
| "any_depth (AMap kvs) = Suc (fold max (map (\<lambda>(k, v). any_depth v) kvs) 0)"
| "any_depth _ = 0"

fun any_unique :: "any \<Rightarrow> bool" where
  "any_unique (AList vs) = list_all any_unique vs"
| "any_unique (AMap kvs) = (distinct (map fst kvs) \<and> list_all (\<lambda>(k, v). any_unique v) kvs)"
| "any_unique _ = True"

text \<open>The library gives a scalar node with one of the accepted tags a scalar value.\<close>

definition scalar_values :: "yaml_library \<Rightarrow> bool" where
  "scalar_values lib \<longleftrightarrow> (\<forall>t v a. yl_scalar lib t v = Some a \<longrightarrow> (case a of AList _ \<Rightarrow> False | AMap _ \<Rightarrow> False | _ \<Rightarrow> True))"

lemma fold_max_le: "fold max (xs :: nat list) a \<le> m \<longleftrightarrow> a \<le> m \<and> (\<forall>x \<in> set xs. x \<le> m)"
  by (induction xs arbitrary: a) auto

lemma Suc_fold_max_le: "Suc (fold max (xs :: nat list) 0) \<le> m \<longleftrightarrow> 0 < m \<and> (\<forall>x \<in> set xs. x \<le> m - 1)"
  by (cases m) (simp_all add: fold_max_le)

definition plain_scalars :: "(bytes \<Rightarrow> bytes \<Rightarrow> any option) \<Rightarrow> bool" where
  "plain_scalars scalar \<longleftrightarrow> (\<forall>t v a. scalar t v = Some a \<longrightarrow> any_nodes a = 1 \<and> any_depth a = 0 \<and> any_unique a)"

lemma convert_bounded:
  "plain_scalars scalar \<Longrightarrow> convert scalar n depth c = (Some v, c') \<Longrightarrow>
      c' \<le> 2048 \<and> any_nodes v + c \<le> c' \<and> any_depth v + depth \<le> 17 \<and> any_unique v"
  "plain_scalars scalar \<Longrightarrow> convert_items scalar ns depth c = (Some vs, c') \<Longrightarrow> c \<le> 2048 \<Longrightarrow> depth \<le> 17 \<Longrightarrow>
      c' \<le> 2048 \<and> sum_list (map any_nodes vs) + c \<le> c' \<and> (\<forall>v \<in> set vs. any_depth v + depth \<le> 17) \<and> list_all any_unique vs"
  "plain_scalars scalar \<Longrightarrow> convert_pairs scalar ps seen depth c = (Some kvs, c') \<Longrightarrow> c \<le> 2048 \<Longrightarrow> depth \<le> 17 \<Longrightarrow>
      c' \<le> 2048 \<and> sum_list (map (\<lambda>(k, v). any_nodes v) kvs) + c \<le> c' \<and> (\<forall>(k, v) \<in> set kvs. any_depth v + depth \<le> 17) \<and>
      distinct (map fst kvs) \<and> fst ` set kvs \<inter> set seen = {} \<and> list_all (\<lambda>(k, v). any_unique v) kvs"
proof (induction scalar n depth c and scalar ns depth c and scalar ps seen depth c arbitrary: v c' and vs c' and kvs c'
    rule: convert_convert_items_convert_pairs.induct)
  case (1 scalar a ns depth c)
  then show ?case by (fastforce simp: refused_node_def split: if_splits list.splits)
next
  case (2 scalar a ps depth c)
  note h = "2.prems"(2)
  obtain kvs where k: "convert_pairs scalar ps [] (depth + 1) (Suc c) = (Some kvs, c')" "v = AMap kvs"
    "\<not> refused_node (Suc c) depth (MappingNode a ps)"
    using h by (auto split: if_splits prod.splits option.splits)
  have b: "Suc c \<le> 2048" "depth \<le> 16" using k(3) by (auto simp: refused_node_def)
  note ih = "2.IH"[OF k(3) "2.prems"(1) k(1)]
  have "fold max (map (\<lambda>(k, v). any_depth v) kvs) 0 \<le> 16 - depth" using ih b by (fastforce simp: fold_max_le)
  then show ?case using ih b k(2) by simp
next
  case (3 scalar a ns depth c)
  note h = "3.prems"(2)
  obtain vs where k: "convert_items scalar ns (depth + 1) (Suc c) = (Some vs, c')" "v = AList vs"
    "\<not> refused_node (Suc c) depth (SequenceNode a ns)"
    using h by (auto split: if_splits prod.splits option.splits)
  have b: "Suc c \<le> 2048" "depth \<le> 16" using k(3) by (auto simp: refused_node_def)
  note ih = "3.IH"[OF k(3) "3.prems"(1) k(1)]
  have "fold max (map any_depth vs) 0 \<le> 16 - depth" using ih b by (fastforce simp: fold_max_le)
  then show ?case using ih b k(2) by simp
next
  case (4 scalar a t v depth c w)
  from "4.prems"(2) have s: "scalar t v = Some w" "c' = Suc c" "\<not> refused_node (Suc c) depth (ScalarNode a t v)"
    by (auto split: if_splits)
  then have "any_nodes w = 1 \<and> any_depth w = 0 \<and> any_unique w" using "4.prems"(1) unfolding plain_scalars_def by blast
  with s show ?case by (simp add: refused_node_def)
next
  case (8 scalar n ns depth c)
  obtain w c1 ws where k: "convert scalar n depth c = (Some w, c1)" "convert_items scalar ns depth c1 = (Some ws, c')" "vs = w # ws"
    using "8.prems"(2) by (auto split: prod.splits option.splits)
  have a: "c1 \<le> 2048 \<and> any_nodes w + c \<le> c1 \<and> any_depth w + depth \<le> 17 \<and> any_unique w"
    using "8.IH"(1)[OF "8.prems"(1) k(1)] .
  then show ?case using "8.IH"(2)[OF k(1)[symmetric] refl "8.prems"(1) k(2)] "8.prems"(4) k(3) by simp
next
  case (10 scalar k n ps seen depth c)
  obtain s w c1 ws where k: "key_of k = Some s" "s \<notin> set seen" "convert scalar n depth c = (Some w, c1)"
    "convert_pairs scalar ps (s # seen) depth c1 = (Some ws, c')" "kvs = (s, w) # ws"
    using "10.prems"(2) by (auto split: prod.splits option.splits if_splits)
  have a: "c1 \<le> 2048 \<and> any_nodes w + c \<le> c1 \<and> any_depth w + depth \<le> 17 \<and> any_unique w"
    using "10.IH"(1)[OF k(1,2) "10.prems"(1) k(3)] .
  then show ?case using "10.IH"(2)[OF k(1,2) k(3)[symmetric] refl "10.prems"(1) k(4)] "10.prems"(4) k(2,5) by auto
qed auto

lemma scalar_values_any:
  assumes "scalar_values lib"
  shows "plain_scalars (yl_scalar lib)"
  unfolding plain_scalars_def
proof (intro allI impI)
  fix t v a assume "yl_scalar lib t v = Some a"
  then have "case a of AList _ \<Rightarrow> False | AMap _ \<Rightarrow> False | _ \<Rightarrow> True" using assms unfolding scalar_values_def by blast
  then show "any_nodes a = 1 \<and> any_depth a = 0 \<and> any_unique a" by (cases a) simp_all
qed

lemma json_any_wf: "numbers_ok v \<Longrightarrow> any_depth v \<le> d \<Longrightarrow> json_wf d (json_any v)"
proof (induction v arbitrary: d rule: json_any.induct)
  case (3 l)
  then have "l \<noteq> []" by (cases "l = []") (auto simp: num_ok_def scan_num_def scan_int_def)
  with 3 show ?case by simp
next
  case (5 vs)
  then show ?case by (auto simp: Suc_fold_max_le list_all_iff)
next
  case (6 kvs)
  have "json_wf (d - 1) (json_any v)" if "(k, v) \<in> set kvs" for k v
  proof (rule "6.IH"[OF that refl])
    show "numbers_ok v" "any_depth v \<le> d - 1" using "6.prems" that by (fastforce simp: Suc_fold_max_le list_all_iff)+
  qed
  then show ?case using "6.prems" by (auto simp: quote_body_body Suc_fold_max_le)
qed (simp_all add: quote_body_body)

text \<open>
  C22: What the YAML front end decodes is bounded and unambiguous: the converted document has at most 2048 nodes in at
  most 17 levels, no mapping has a key twice and nothing is an alias, and the bytes handed to the JSON decoder parse
  back to exactly that document.
\<close>

theorem yaml_document_is_bounded:
  assumes "scalar_values lib" "yaml_json lib raw = Some data"
  shows "\<exists>v. json_parse data = Some (json_any v) \<and> any_nodes v \<le> 2048 \<and> any_depth v \<le> 17 \<and> any_unique v"
proof -
  obtain n v c where v: "convert (yl_scalar lib) n 0 0 = (Some v, c)" "numbers_ok v" "data = pr (json_any v)"
    using assms(2) by (auto simp: yaml_json_def split: option.splits if_splits) (metis prod.collapse)
  have b: "c \<le> 2048 \<and> any_nodes v + 0 \<le> c \<and> any_depth v + 0 \<le> 17 \<and> any_unique v"
    by (rule convert_bounded(1)[OF scalar_values_any[OF assms(1)] v(1)])
  have "json_wf maxNestingDepth (json_any v)"
    by (rule json_any_wf[OF v(2)]) (use b in \<open>simp add: maxNestingDepth_def\<close>)
  then show ?thesis using json_parse_pr v(3) b by (intro exI[of _ v]) simp
qed

section \<open>Texts\<close>

definition text_yaml_source :: "yaml_source \<Rightarrow> bool" where
  "text_yaml_source x \<longleftrightarrow> utf8_Valid (ys_ID x) \<and> utf8_Valid (ys_Root x) \<and> list_all utf8_Valid (ys_Include x) \<and>
     list_all utf8_Valid (ys_Exclude x) \<and> utf8_Valid (ys_StartAt x) \<and> utf8_Valid (ys_ServiceName x) \<and>
     utf8_Valid (ys_Environment x) \<and> utf8_Valid (ym_StartPattern (ys_Multiline x))"

definition text_yaml_logs :: "yaml_logs \<Rightarrow> bool" where
  "text_yaml_logs x \<longleftrightarrow> utf8_Valid (yl_StateDirectory x) \<and> utf8_Valid (yl_OverflowPolicy x) \<and> list_all text_yaml_source (yl_Files x) \<and>
     text_journald (yl_Journald x)"

definition text_yaml_observe :: "yaml_observe \<Rightarrow> bool" where
  "text_yaml_observe x \<longleftrightarrow> utf8_Valid (yo_BackendID x) \<and> utf8_Valid (yo_OrganizationID x) \<and> utf8_Valid (yo_PreviousEndpoint x) \<and>
     utf8_Valid (yo_Endpoint x)"

definition text_yaml_frontend :: "yaml_frontend \<Rightarrow> bool" where
  "text_yaml_frontend x \<longleftrightarrow> utf8_Valid (yf_AgentID x) \<and> text_yaml_observe (yf_Observe x) \<and> text_yaml_logs (yc_Logs (yf_Collection x)) \<and>
     utf8_Valid (del_StateDirectory (yf_Delivery x)) \<and> utf8_Valid (del_OverflowPolicy (yf_Delivery x))"

lemma text_get_yaml_multiline: "get_yaml_multiline v old = Some x \<Longrightarrow> utf8_Valid (ym_StartPattern old) \<Longrightarrow> utf8_Valid (ym_StartPattern x)"
  unfolding get_yaml_multiline_def
  by (erule get_struct_keep) (auto simp: set_yaml_multiline_def split: if_splits dest: get_string_utf8)

lemma text_get_yaml_source: "get_yaml_source v old = Some x \<Longrightarrow> text_yaml_source old \<Longrightarrow> text_yaml_source x"
  unfolding get_yaml_source_def
  by (erule get_struct_keep)
     (auto simp: set_yaml_source_def text_yaml_source_def split: if_splits dest: get_string_utf8 get_strings_utf8 text_get_yaml_multiline)

lemma text_get_yaml_sources:
  "get_list get_yaml_source zero_yaml_source v old = Some xs \<Longrightarrow> list_all text_yaml_source old \<Longrightarrow> list_all text_yaml_source xs"
  by (erule get_list_keep) (auto simp: zero_yaml_source_def zero_yaml_multiline_def text_yaml_source_def dest: text_get_yaml_source)

lemma text_get_yaml_logs: "get_yaml_logs v old = Some x \<Longrightarrow> text_yaml_logs old \<Longrightarrow> text_yaml_logs x"
  unfolding get_yaml_logs_def
  by (erule get_struct_keep)
     (auto simp: set_yaml_logs_def text_yaml_logs_def split: if_splits dest: get_string_utf8 text_get_yaml_sources text_get_journald)

lemma text_get_yaml_observe: "get_yaml_observe v old = Some x \<Longrightarrow> text_yaml_observe old \<Longrightarrow> text_yaml_observe x"
  unfolding get_yaml_observe_def
  by (erule get_struct_keep) (auto simp: set_yaml_observe_def text_yaml_observe_def split: if_splits dest: get_string_utf8)

lemma text_get_yaml_collection: "get_yaml_collection v old = Some x \<Longrightarrow> text_yaml_logs (yc_Logs old) \<Longrightarrow> text_yaml_logs (yc_Logs x)"
  unfolding get_yaml_collection_def
  by (erule get_struct_keep) (auto simp: set_yaml_collection_def split: if_splits dest: text_get_yaml_logs)

lemma text_get_yaml_frontend: "get_yaml_frontend v old = Some x \<Longrightarrow> text_yaml_frontend old \<Longrightarrow> text_yaml_frontend x"
  unfolding get_yaml_frontend_def
  by (erule get_struct_keep)
     (auto simp: set_yaml_frontend_def text_yaml_frontend_def split: if_splits
       dest: get_string_utf8 text_get_yaml_observe text_get_yaml_collection text_get_delivery)

lemma text_zero_yaml_frontend: "text_yaml_frontend zero_yaml_frontend"
  by (simp add: text_yaml_frontend_def zero_yaml_frontend_def text_yaml_observe_def text_yaml_logs_def zero_yaml_logs_def
      text_journald_def zero_journald_def zero_delivery_def)

lemma text_yaml_to_sources: "yaml_to_sources ss = Some xs \<Longrightarrow> list_all text_yaml_source ss \<Longrightarrow> list_all text_source xs"
  by (induction ss arbitrary: xs)
     (auto simp: yaml_to_source_def text_yaml_source_def text_source_def split: option.splits)

lemma text_yaml_to_logs: "yaml_to_logs l = Some x \<Longrightarrow> text_yaml_logs l \<Longrightarrow> text_logs x"
  by (auto simp: yaml_to_logs_def text_yaml_logs_def text_logs_def dest: text_yaml_to_sources split: option.splits)

lemma text_otlp: "utf8_Valid ''otlp_http''"
  by code_simp

lemma parseYAML_Inr:
  assumes "parseYAML parse compiles lib raw = Inr c"
  shows "ValidateConfig parse compiles c = None" "text_config c"
    "\<exists>f l. yaml_to_logs (yc_Logs (yf_Collection f)) = Some l \<and> c = default_limits (yaml_to_config f l)"
proof -
  obtain data f l where f: "get_yaml_frontend data zero_yaml_frontend = Some f" "yaml_to_logs (yc_Logs (yf_Collection f)) = Some l"
    "c = default_limits (yaml_to_config f l)" and v: "ValidateConfig parse compiles c = None"
    using assms by (auto simp: parseYAML_def Let_def split: option.splits if_splits)
  show "ValidateConfig parse compiles c = None" by (rule v)
  have "text_yaml_frontend f" using text_get_yaml_frontend[OF f(1) text_zero_yaml_frontend] .
  then show "text_config c" using text_yaml_to_logs[OF f(2)] text_otlp unfolding f(3) default_limits_text
    by (simp add: yaml_to_config_def text_config_def text_exporter_def text_yaml_frontend_def text_yaml_observe_def)
  show "\<exists>f l. yaml_to_logs (yc_Logs (yf_Collection f)) = Some l \<and> c = default_limits (yaml_to_config f l)" using f(2,3) by blast
qed

section \<open>A small document\<close>

definition sample_yaml :: yaml_library where
  "sample_yaml = \<lparr>yl_first = (\<lambda>raw. Some (DocumentNode [] [MappingNode []
       [(ScalarNode [] ''!!str'' ''agent_id'', ScalarNode [] ''!!str'' ''a''), (ScalarNode [] ''!!str'' ''limits'', SequenceNode [] [])]])),
     yl_more = (\<lambda>raw. False), yl_scalar = (\<lambda>t v. if t = ''!!str'' then Some (AString v) else None)\<rparr>"

theorem yaml_document_is_bounded_witness:
  "\<exists>data v. yaml_json sample_yaml [] = Some data \<and> json_parse data = Some (json_any v) \<and> any_nodes v \<le> 2048 \<and> any_depth v \<le> 17 \<and> any_unique v"
proof -
  have "yaml_json sample_yaml [] \<noteq> None" by (simp add: yaml_json_def sample_yaml_def refused_node_def)
  then obtain data where d: "yaml_json sample_yaml [] = Some data" by blast
  have "scalar_values sample_yaml" by (simp add: scalar_values_def sample_yaml_def)
  from yaml_document_is_bounded[OF this d] d show ?thesis by blast
qed

end
