(* ===== verification/ConfigFile.thy ===== *)
theory ConfigFile
  imports ConfigYaml
begin

text \<open>
  Reading a configuration file (\<^verbatim>\<open>Parse\<close> in \<^verbatim>\<open>src/internal/config/config.go\<close>, \<^verbatim>\<open>Load\<close> in
  \<^verbatim>\<open>src/internal/config/yaml.go\<close>), and what a configuration that was read guarantees.
\<close>

section \<open>Parsing\<close>

text \<open>\<open>None\<close> is a reader that fails; \<^verbatim>\<open>MaxConfigBytes\<close> is 65536.\<close>

definition unavailable :: error where
  "unavailable = Failure ''configuration unavailable or exceeds size limit''"

definition Parse :: "(bytes \<Rightarrow> url option) \<Rightarrow> (bytes \<Rightarrow> bool) \<Rightarrow> yaml_library \<Rightarrow> bytes option \<Rightarrow> config result" where
  "Parse parse compiles lib r =
     (case r of
        None \<Rightarrow> Inl unavailable
      | Some content \<Rightarrow>
          let raw = take 65537 content in
          if 65536 < length raw then Inl unavailable
          else if \<not> HasPrefix (TrimSpace raw) ''{'' then parseYAML parse compiles lib raw
          else parseJSON parse compiles raw)"

section \<open>Loading\<close>

text \<open>
  What the system answers: \<^verbatim>\<open>os.Open\<close> of a path (\<open>None\<close>: it fails) with what reading gives (\<open>None\<close>: an error), the
  files \<^verbatim>\<open>OpenPrivate\<close> sees, the effective user, and what reading a protected file gives.
\<close>

record load_env =
  ld_open :: "bytes \<Rightarrow> bytes option option"
  ld_files :: "bytes \<Rightarrow> inode option"
  ld_euid :: nat
  ld_read :: "inode \<Rightarrow> bytes option"

definition Ext :: "bytes \<Rightarrow> bytes" where
  "Ext path =
     (let r = rev path; t = takeWhile (\<lambda>c. c \<noteq> CHR ''/'' \<and> c \<noteq> CHR ''.'') r in
      if HasPrefix (drop (length t) r) ''.'' then CHR ''.'' # rev t else [])"

text \<open>\<^verbatim>\<open>strings.EqualFold(filepath.Ext(path), ".json")\<close>\<close>

definition names_json :: "bytes \<Rightarrow> bool" where
  "names_json path \<longleftrightarrow> fold_name (Ext path) = fold_name ''.json''"

definition private_file_of :: "load_env \<Rightarrow> bytes \<Rightarrow> inode result" where
  "private_file_of env path = OpenPrivate (ld_files env) (ld_euid env) path"

definition open_config :: "load_env \<Rightarrow> bytes \<Rightarrow> bytes option option" where
  "open_config env path =
     (if names_json path then ld_open env path
      else case private_file_of env path of Inl _ \<Rightarrow> None | Inr f \<Rightarrow> Some (ld_read env f))"

definition LoadConfig :: "(bytes \<Rightarrow> url option) \<Rightarrow> (bytes \<Rightarrow> bool) \<Rightarrow> yaml_library \<Rightarrow> load_env \<Rightarrow> bytes \<Rightarrow> config result" where
  "LoadConfig parse compiles lib env path =
     (case open_config env path of
        None \<Rightarrow> Inl (Failure ''configuration unavailable or permissions unsafe'')
      | Some r \<Rightarrow>
          (case Parse parse compiles lib r of
             Inl e \<Rightarrow> Inl e
           | Inr c \<Rightarrow>
               if yamlConfig c \<and> names_json path
               then (case private_file_of env path of
                       Inl _ \<Rightarrow> Inl (Failure ''YAML configuration permissions unsafe'')
                     | Inr _ \<Rightarrow> Inr c)
               else Inr c))"

section \<open>The errors\<close>

text \<open>Every message is a constant of the program.\<close>

definition validation_errors :: "error list" where
  "validation_errors = map Failure
     [''invalid persistent delivery options'', ''collection limits invalid'', ''EC2 metadata options invalid'', ''delivery limits invalid'',
      ''logs delivery limits invalid'', ''logs source identity or root invalid'', ''logs source patterns invalid'', ''logs source pattern invalid'',
      ''logs start_at invalid'', ''logs source limits invalid'', ''logs multiline pattern required'', ''logs multiline pattern invalid'',
      ''logs multiline limits invalid'', ''journald source limits invalid'', ''journald filter invalid'', ''journald priority invalid'',
      ''invalid agent identity configuration'', ''policy version must be positive'', ''unknown capability'', ''unknown locally allowed capability'',
      ''foundation requires otlp_http exporter'',
      ''exporter endpoint must be an HTTPS Observe /api/v1/otlp base without credentials or query'',
      ''headers_env requires only Authorization with an environment variable name'', ''limits outside allowed bounds'']"

definition load_errors :: "error list" where
  "load_errors = validation_errors @ unavailable # yaml_invalid # map Failure
     [''configuration contains ambiguous or invalid JSON'', ''configuration schema invalid'', ''configuration must contain one object'',
      ''this package does not support traces'', ''observe authentication must be configured'',
      ''configuration unavailable or permissions unsafe'', ''YAML configuration permissions unsafe'']"

lemma multiline_errors: "validate_multiline compiles s = Some e \<Longrightarrow> e \<in> set validation_errors"
  by (auto simp: validate_multiline_def validation_errors_def Let_def split: if_splits)

lemma source_errors: "validate_source compiles seen s = Some e \<Longrightarrow> e \<in> set validation_errors"
  by (auto simp: validate_source_def multiline_errors split: if_splits) (auto simp: validation_errors_def)

lemma sources_errors: "validate_sources compiles seen ss = Some e \<Longrightarrow> e \<in> set validation_errors"
  by (induction compiles seen ss rule: validate_sources.induct) (auto split: option.splits dest: source_errors)

lemma journald_errors: "validate_journald j = Some e \<Longrightarrow> e \<in> set validation_errors"
  by (auto simp: validate_journald_def validation_errors_def split: if_splits)

lemma logs_errors: "validateLogs compiles c = Some e \<Longrightarrow> e \<in> set validation_errors"
  by (auto simp: validateLogs_def Let_def split: if_splits option.splits dest: sources_errors journald_errors)
     (auto simp: validation_errors_def)

lemma runtime_errors: "ValidateRuntime compiles c = Some e \<Longrightarrow> e \<in> set validation_errors"
  by (auto simp: ValidateRuntime_def split: if_splits prod.splits dest: logs_errors) (auto simp: validation_errors_def)

lemma policy_errors: "Policy.Validate p = Some e \<Longrightarrow> e \<in> set validation_errors"
  by (auto simp: Validate_def validation_errors_def split: if_splits)

lemma config_errors: "ValidateConfig parse compiles c = Some e \<Longrightarrow> e \<in> set validation_errors"
  unfolding ValidateConfig_def
  by (auto split: if_split_asm option.split_asm dest: runtime_errors policy_errors) (auto simp: validation_errors_def)

lemma json_errors: "parseJSON parse compiles raw = Inl e \<Longrightarrow> e \<in> set load_errors"
  by (auto simp: parseJSON_def Let_def load_errors_def split: if_splits option.splits dest: config_errors)

lemma yaml_errors: "parseYAML parse compiles lib raw = Inl e \<Longrightarrow> e \<in> set load_errors"
  by (auto simp: parseYAML_def Let_def load_errors_def split: if_splits option.splits dest: config_errors)

lemma parse_errors: "Parse parse compiles lib r = Inl e \<Longrightarrow> e \<in> set load_errors"
  by (auto simp: Parse_def Let_def split: if_splits option.splits dest: json_errors yaml_errors) (auto simp: load_errors_def)

section \<open>What a configuration that was read guarantees\<close>

lemma get_config_origin:
  "get_config v old = Some c \<Longrightarrow> yamlConfig old = False \<and> cfg_credential old = cr \<Longrightarrow> yamlConfig c = False \<and> cfg_credential c = cr"
  unfolding get_config_def by (erule get_struct_keep) (auto simp: set_config_def split: if_splits)

lemma parseJSON_origin: "parseJSON parse compiles raw = Inr c \<Longrightarrow> \<not> yamlConfig c \<and> cfg_credential c = NewCredential [] [] []"
  using get_config_origin[of _ zero_config]
  by (fastforce simp: parseJSON_def Let_def default_limits_def zero_config_def split: if_splits option.splits)

lemma parseYAML_origin:
  "parseYAML parse compiles lib raw = Inr c \<Longrightarrow>
     yamlConfig c \<and> \<not> on (cfg_Policy c) Traces \<and> RemoteAllowed c = [] \<and> cfg_credential c \<noteq> NewCredential [] [] []"
  by (auto simp: parseYAML_def Let_def default_limits_def yaml_to_config_def on_def capability_defs NewCredential_def split: if_splits option.splits)

lemma Parse_Inr:
  "Parse parse compiles lib r = Inr c \<Longrightarrow> ValidateConfig parse compiles c = None \<and> text_config c \<and>
     (if yamlConfig c then \<not> on (cfg_Policy c) Traces \<and> RemoteAllowed c = [] \<and> cfg_credential c \<noteq> NewCredential [] [] []
      else cfg_credential c = NewCredential [] [] [])"
  by (auto simp: Parse_def Let_def split: if_splits option.splits dest: parseJSON_Inr parseYAML_Inr parseJSON_origin parseYAML_origin)

text \<open>
  C16: A configuration that was loaded is valid and all its texts are valid UTF-8. It carries a credential exactly when
  it is YAML, and then the file was protected, traces are off and nothing is allowed remotely. What cannot be loaded
  is reported by one of the fixed messages of the program, so that no error repeats what the file holds.
\<close>

theorem loaded_configuration_is_trustworthy:
  "case LoadConfig parse compiles lib env path of
     Inl e \<Rightarrow> e \<in> set load_errors
   | Inr c \<Rightarrow> ValidateConfig parse compiles c = None \<and> text_config c \<and>
       (if yamlConfig c
        then cfg_credential c \<noteq> NewCredential [] [] [] \<and> \<not> on (cfg_Policy c) Traces \<and> RemoteAllowed c = [] \<and>
          (\<exists>f. private_file_of env path = Inr f \<and> f_kind f = Regular \<and> (f_uid f = 0 \<or> f_uid f = ld_euid env))
        else cfg_credential c = NewCredential [] [] [])"
proof (cases "LoadConfig parse compiles lib env path")
  case (Inl e)
  then have "e \<in> set load_errors"
    by (auto simp: LoadConfig_def split: if_splits option.splits sum.splits dest: parse_errors) (auto simp: load_errors_def)
  then show ?thesis using Inl by simp
next
  case (Inr c)
  then obtain r where r: "open_config env path = Some r" "Parse parse compiles lib r = Inr c"
    by (auto simp: LoadConfig_def split: if_splits option.splits sum.splits)
  have "\<exists>f. private_file_of env path = Inr f" if "yamlConfig c"
    using Inr r that by (auto simp: LoadConfig_def open_config_def split: if_splits option.splits sum.splits)
  moreover have "f_kind f = Regular \<and> (f_uid f = 0 \<or> f_uid f = ld_euid env)" if "private_file_of env path = Inr f" for f
    using OpenPrivate_safe that unfolding private_file_of_def by blast
  ultimately show ?thesis using Inr Parse_Inr[OF r(2)] by auto
qed

section \<open>A policy under two names\<close>

text \<open>
  Members whose names differ only in case pass the check for duplicates, and the decoder takes both for the same
  field: this configuration enables the metrics in one policy and the logs in the other, and both count.
\<close>

definition capability_policy :: "bytes \<Rightarrow> json" where
  "capability_policy c = JObj [(''enabled'', JObj [(c, JBool True)])]"

definition two_policies :: json where
  "two_policies = JObj [(''policy'', capability_policy Metrics), (''Policy'', capability_policy Logs)]"

lemma two_policies_names:
  "list_all text_char ''policy''" "list_all text_char ''Policy''" "list_all text_char ''enabled''" "list_all text_char Metrics"
  "list_all text_char Logs"
  by (simp_all add: text_char_def plain_def char_consts capability_defs)

lemmas two_policies_text = two_policies_names[THEN unquote_text] two_policies_names[THEN text_body]

lemma fold_Policy: "fold_name ''Policy'' = fold_name ''policy''"
  by (simp add: fold_name.simps[of "_ # _"]) code_simp

lemma fold_others: "list_all (\<lambda>f. fold_name f \<noteq> fold_name ''policy'') [''collection'', ''logs'', ''ec2_metadata'', ''delivery'', ''agent_id'', ''exporter'']"
  by (simp add: fold_name.simps[of "_ # _"] fold_name.simps[of "[]"])

lemma get_capability_policy:
  assumes "list_all text_char c"
  shows "get_document (pr (capability_policy c)) p = Some (p\<lparr>enabled := AList.update c True (enabled p)\<rparr>)"
proof -
  have b: "body c" "unquote c = c" using text_body unquote_text assms by blast+
  have w: "json_wf maxNestingDepth (capability_policy c)" "json_wf maxNestingDepth (JObj [(c, JBool True)])"
    by (simp_all add: capability_policy_def two_policies_text b maxNestingDepth_def)
  have f: "json_fields (pr (capability_policy c)) = Some [(''enabled'', pr (JObj [(c, JBool True)]))]"
    using json_fields_pr[OF w(1)[unfolded capability_policy_def]] by (simp add: capability_policy_def two_policies_text del: pr.simps)
  have "json_fields (pr (JObj [(c, JBool True)])) = Some [(c, pr (JBool True))]"
    using json_fields_pr[OF w(2)] by (simp add: b del: pr.simps)
  then have "get_enabled (pr (JObj [(c, JBool True)])) m = Some (AList.update c True m)" for m
    using json_parse_pr[OF w(2)] by (simp add: get_enabled_def get_bool_pr del: pr.simps)
  then show ?thesis by (simp add: get_document_def get_struct_def f match_field_def set_policy_document_def del: pr.simps)
qed

lemma policy_under_two_names:
  "rejectDuplicateKeys (pr two_policies) = None \<and>
   (\<exists>c. get_config (pr two_policies) zero_config = Some c \<and> on (cfg_Policy c) Metrics \<and> on (cfg_Policy c) Logs)"
proof
  have w: "json_wf maxNestingDepth two_policies"
    by (simp add: two_policies_def capability_policy_def two_policies_text maxNestingDepth_def)
  have u: "unique_keys two_policies"
    by (simp add: two_policies_def capability_policy_def two_policies_text scalar_ok_def)
  then show "rejectDuplicateKeys (pr two_policies) = None" using duplicate_keys_are_rejected[OF json_parse_pr[OF w]] by simp
  have f: "json_fields (pr two_policies) = Some [(''policy'', pr (capability_policy Metrics)), (''Policy'', pr (capability_policy Logs))]"
    using json_fields_pr[OF w[unfolded two_policies_def]] by (simp add: two_policies_def two_policies_text del: pr.simps)
  have m: "match_field [''collection'', ''logs'', ''ec2_metadata'', ''delivery'', ''agent_id'', ''exporter'', ''policy'', ''remote_allowed'', ''limits''] ''Policy''
      = Some ''policy''" using fold_others by (simp add: match_field_def fold_Policy)
  have "get_config (pr two_policies) zero_config = Some (zero_config\<lparr>cfg_Policy := \<lparr>version = 0, enabled = [(Metrics, True), (Logs, True)]\<rparr>\<rparr>)"
    using m two_policies_names(4,5)
    by (simp add: get_config_def get_struct_def f set_config_def get_capability_policy match_field_def[of _ "''policy''"]
        zero_config_def zero_document_def capability_defs del: pr.simps)
  then show "\<exists>c. get_config (pr two_policies) zero_config = Some c \<and> on (cfg_Policy c) Metrics \<and> on (cfg_Policy c) Logs"
    by (simp add: on_def capability_defs)
qed

end
