(* ===== verification/Service.thy ===== *)
theory Service
  imports ConfigFile Manager
begin

text \<open>
  The entry of the service (\<^verbatim>\<open>src/cmd/observe-agent/main.go\<close>, \<^verbatim>\<open>src/internal/app/runtime.go\<close>): the command line,
  what it checks before anything starts, and the life of the manager until the process is stopped.
\<close>

section \<open>Flags\<close>

record flags =
  fl_config :: bytes
  fl_check :: bool
  fl_run :: bool
  fl_version :: bool

text \<open>The package paths of \<^verbatim>\<open>platform.Defaults\<close> on Linux.\<close>

record layout =
  ly_config :: bytes
  ly_secrets :: bytes
  ly_state :: bytes
  ly_logs :: bytes

definition Defaults :: layout where
  "Defaults = \<lparr>ly_config = ''/etc/observe-agent/agent.yaml'', ly_secrets = ''/etc/observe-agent/env'', ly_state = ''/var/lib/observe-agent'', ly_logs = []\<rparr>"

definition default_flags :: flags where
  "default_flags = \<lparr>fl_config = ly_config Defaults, fl_check = False, fl_run = False, fl_version = False\<rparr>"

definition parse_bool :: "bytes \<Rightarrow> bool option" where
  "parse_bool s =
     (if s \<in> {''1'', ''t'', ''T'', ''true'', ''TRUE'', ''True''} then Some True
      else if s \<in> {''0'', ''f'', ''F'', ''false'', ''FALSE'', ''False''} then Some False else None)"

definition set_bool_flag :: "bytes \<Rightarrow> bool \<Rightarrow> flags \<Rightarrow> flags option" where
  "set_bool_flag name b f =
     (if name = ''check'' then Some (f\<lparr>fl_check := b\<rparr>)
      else if name = ''run'' then Some (f\<lparr>fl_run := b\<rparr>)
      else if name = ''version'' then Some (f\<lparr>fl_version := b\<rparr>) else None)"

text \<open>
  \<^verbatim>\<open>FlagSet.Parse\<close>: it stops at the first argument that is no flag and at \<open>--\<close>. \<open>None\<close> is an error, also the one
  for a request of help.
\<close>

fun parse_flags :: "bytes list \<Rightarrow> flags \<Rightarrow> flags option" where
  "parse_flags [] f = Some f"
| "parse_flags (s # args) f =
     (if length s < 2 \<or> hd s \<noteq> CHR ''-'' then Some f
      else if s = ''--'' then Some f
      else
        let name = (if HasPrefix (tl s) ''-'' then drop 2 s else tl s) in
        if name = [] \<or> hd name = CHR ''-'' \<or> hd name = CHR ''='' then None
        else
          let key = hd name # takeWhile (\<lambda>c. c \<noteq> CHR ''='') (tl name);
              has_value = (length key < length name);
              v = drop (Suc (length key)) name
          in if key = ''config'' then
               (if has_value then parse_flags args (f\<lparr>fl_config := v\<rparr>)
                else case args of [] \<Rightarrow> None | x # rest \<Rightarrow> parse_flags rest (f\<lparr>fl_config := x\<rparr>))
             else
               (case (if has_value then parse_bool v else Some True) of
                  None \<Rightarrow> None
                | Some b \<Rightarrow> (case set_bool_flag key b f of None \<Rightarrow> None | Some g \<Rightarrow> parse_flags args g)))"

section \<open>The runtime\<close>

definition service_registry :: registry where
  "service_registry =
     [(Metrics, \<lparr>r_descriptor = \<lparr>d_capability = Metrics, d_access = d_access (Catalogue ! 0), implemented = True\<rparr>, new_nonnil = True\<rparr>),
      (Logs, \<lparr>r_descriptor = \<lparr>d_capability = Logs, d_access = d_access (Catalogue ! 1), implemented = True\<rparr>, new_nonnil = True\<rparr>)]"

text \<open>
  What the environment decides: the outcomes of the collectors' calls, the contexts at the application of the
  policy, and the number of ticks until the process is stopped.
\<close>

record run_env =
  rn_answers :: "bool list"
  rn_ctx :: apply_ctx
  rn_ticks :: nat

text \<open>The report: the counters of the metrics, and those of the logs under a prefix when there is a logs collector.\<close>

definition report :: "(bytes \<times> int) list \<Rightarrow> (bytes \<times> int) list option \<Rightarrow> (bytes \<times> int) list" where
  "report counters logs =
     fold (\<lambda>(k, v) m. AList.update (''logs_'' @ k) v m) (case logs of None \<Rightarrow> [] | Some l \<Rightarrow> l) counters"

text \<open>\<^verbatim>\<open>Run\<close>: its error, the manager (\<open>None\<close>: none was made) and the number of reports.\<close>

definition RunApp ::
    "(bytes \<Rightarrow> url option) \<Rightarrow> (bytes \<Rightarrow> bool) \<Rightarrow> config \<Rightarrow> run_env \<Rightarrow> error option \<times> manager option \<times> nat" where
  "RunApp parse compiles c env =
     (case ValidateConfig parse compiles c of
        Some e \<Rightarrow> (Some e, None, 0)
      | None \<Rightarrow>
          (case Apply (rn_ctx env) (cfg_Policy c) (New_manager service_registry False (rn_answers env)) of
             (Some e, m) \<Rightarrow> (Some e, Some m, 0)
           | (None, m) \<Rightarrow> (case Close m of (r, m1) \<Rightarrow> (r, Some m1, Suc (rn_ticks env)))))"

section \<open>The command\<close>

record cli_env =
  ce_parse :: "bytes \<Rightarrow> url option"
  ce_compiles :: "bytes \<Rightarrow> bool"
  ce_yaml :: yaml_library
  ce_load :: load_env
  ce_getenv :: "bytes \<Rightarrow> bytes"
  ce_run :: run_env

datatype cli_output = Version | Usage | ConfigError error | CredentialError error | RunError error | ConfigurationValid

record cli_result =
  cr_code :: int
  cr_output :: "cli_output option"
  cr_manager :: "manager option"

definition exits :: "int \<Rightarrow> cli_output option \<Rightarrow> cli_result" where
  "exits n out = \<lparr>cr_code = n, cr_output = out, cr_manager = None\<rparr>"

definition run_command :: "cli_env \<Rightarrow> bytes list \<Rightarrow> cli_result" where
  "run_command env args =
     (case parse_flags args default_flags of
        None \<Rightarrow> exits 2 None
      | Some f \<Rightarrow>
          if fl_version f then exits 0 (Some Version)
          else if \<not> fl_check f \<and> \<not> fl_run f then exits 2 (Some Usage)
          else case LoadConfig (ce_parse env) (ce_compiles env) (ce_yaml env) (ce_load env) (fl_config f) of
            Inl e \<Rightarrow> exits 1 (Some (ConfigError e))
          | Inr c \<Rightarrow>
              (case CheckCredentials (ce_parse env) (ce_getenv env) (ld_files (ce_load env)) (ld_read (ce_load env)) (ld_euid (ce_load env)) None c of
                 Some e \<Rightarrow> exits 1 (Some (CredentialError e))
               | None \<Rightarrow>
                   if fl_run f \<and> \<not> fl_check f
                   then (case RunApp (ce_parse env) (ce_compiles env) c (ce_run env) of
                           (Some e, m, _) \<Rightarrow> \<lparr>cr_code = 1, cr_output = Some (RunError e), cr_manager = m\<rparr>
                         | (None, m, _) \<Rightarrow> \<lparr>cr_code = 0, cr_output = None, cr_manager = m\<rparr>)
                   else exits 0 (Some ConfigurationValid)))"

section \<open>Only what the policy enables is started\<close>

fun event_within :: "capability set \<Rightarrow> event \<Rightarrow> bool" where
  "event_within S (ENew c _) = (c \<in> S)"
| "event_within S (EStart c _) = (c \<in> S)"
| "event_within S _ = True"

definition confined :: "capability set \<Rightarrow> manager \<Rightarrow> bool" where
  "confined S m \<longleftrightarrow> list_all (event_within S) (events m)"

lemma confined_simps [simp]:
  "confined S (record_event e m) = (confined S m \<and> event_within S e)" "confined S (m\<lparr>degraded := b\<rparr>) = confined S m"
  "confined S (m\<lparr>active := A\<rparr>) = confined S m" "confined S (m\<lparr>answers := l\<rparr>) = confined S m" "confined S (m\<lparr>current := p\<rparr>) = confined S m"
  "confined S (m\<lparr>m_closed := b\<rparr>) = confined S m"
  by (auto simp: confined_def record_event_def)

lemma confined_call: "call e m = (b, m') \<Longrightarrow> confined S m \<Longrightarrow> (\<And>b. event_within S (e b)) \<Longrightarrow> confined S m'"
  by (auto simp: call_def split: list.splits)

lemma confined_start: "start c m = (r, m') \<Longrightarrow> confined S m \<Longrightarrow> c \<in> S \<Longrightarrow> confined S m'"
  by (auto simp: start_def Let_def call_def split: if_splits list.splits)

lemma confined_stop: "stop c m = (r, m') \<Longrightarrow> confined S m \<Longrightarrow> confined S m'"
  by (auto simp: stop_def Let_def call_def split: if_splits list.splits)

lemma confined_restore_stops: "restore_stops old cs (b, m) = (b', m') \<Longrightarrow> confined S m \<Longrightarrow> confined S m'"
  by (induction cs arbitrary: b m) (auto split: if_splits prod.splits option.splits dest: confined_stop)

lemma confined_restore_starts: "restore_starts old cs (b, m) = (b', m') \<Longrightarrow> confined S m \<Longrightarrow> {c. on old c} \<subseteq> S \<Longrightarrow> confined S m'"
  by (induction cs arbitrary: b m) (auto split: if_splits prod.splits option.splits dest: confined_start)

lemma confined_restore: "restore old m = (r, m') \<Longrightarrow> confined S m \<Longrightarrow> {c. on old c} \<subseteq> S \<Longrightarrow> confined S m'"
  unfolding restore_def Let_def
  by (cases "restore_stops old AllCaps (False, m)")
     (auto split: prod.splits if_splits dest: confined_restore_stops confined_restore_starts)

lemma confined_apply_stops: "apply_stops nxt cs m = (b, m') \<Longrightarrow> confined S m \<Longrightarrow> confined S m'"
  by (induction cs arbitrary: m) (auto split: if_splits prod.splits option.splits dest: confined_stop)

lemma confined_apply_starts: "apply_starts nxt cs m = (b, m') \<Longrightarrow> confined S m \<Longrightarrow> {c. on nxt c} \<subseteq> S \<Longrightarrow> confined S m'"
  by (induction cs arbitrary: m) (auto split: if_splits prod.splits option.splits dest: confined_start)

lemma confined_apply_fail: "apply_fail old nxt m = (r, m') \<Longrightarrow> confined S m \<Longrightarrow> {c. on old c} \<subseteq> S \<Longrightarrow> confined S m'"
  by (auto simp: apply_fail_def Let_def split: prod.splits option.splits if_splits dest: confined_restore)

lemma confined_transition:
  assumes "apply_transition ctx d m = (r, m')" "confined S m" "{c. on d c} \<subseteq> S" "{c. on (current m) c} \<subseteq> S"
  shows "confined S m'"
proof -
  obtain b1 m1 where 1: "apply_stops d AllCaps m = (b1, m1)" by fastforce
  obtain b2 m2 where 2: "apply_starts d AllCaps m1 = (b2, m2)" by fastforce
  have s: "confined S m1" using confined_apply_stops[OF 1 assms(2)] .
  then have t: "confined S m2" using confined_apply_starts[OF 2 _ assms(3)] by blast
  show ?thesis using assms(1,4) 1 2 s t
    by (auto simp: apply_transition_def Let_def call_def split: if_splits prod.splits list.splits dest: confined_apply_fail)
qed

lemma confined_Apply:
  assumes "Apply ctx d m = (r, m')" "confined S m" "{c. on d c} \<subseteq> S" "{c. on (current m) c} \<subseteq> S"
  shows "confined S m'"
  using assms(1) by (cases rule: Apply_cases) (use assms(2-4) confined_transition in blast)+

lemma confined_close_loop: "close_loop cs (r, m) = (r', m') \<Longrightarrow> confined S m \<Longrightarrow> confined S m'"
  by (induction cs arbitrary: r m) (auto split: prod.splits option.splits dest: confined_stop)

lemma confined_Close: "Close m = (r, m') \<Longrightarrow> confined S m \<Longrightarrow> confined S m'"
  unfolding Close_def by (erule confined_close_loop) simp

lemma registered_service: "registered service_registry c \<longleftrightarrow> c \<in> {Metrics, Logs}"
  by (auto simp: registered_def service_registry_def capability_defs)

lemma confined_service:
  assumes "Apply ctx d (New_manager service_registry False ans) = (r, m)"
  shows "confined ({c. on d c} \<inter> {Metrics, Logs}) m"
  using assms
proof (cases rule: Apply_cases)
  case transition
  have "c \<in> {Metrics, Logs}" if "on d c" for c
  proof -
    have "c \<in> on_set d" using on_Known[OF transition(5) that] that by (simp add: on_set_def Known_iff)
    then show ?thesis using transition(6) registered_service by (simp add: New_manager_def)
  qed
  then show ?thesis
    by (intro confined_Apply[OF assms]) (auto simp: confined_def New_manager_def zero_document_def on_def)
qed (simp_all add: confined_def New_manager_def)

lemma RunApp_effect:
  assumes "RunApp parse compiles c env = (r, Some m, n)"
  shows "ValidateConfig parse compiles c = None \<and> confined ({cap. on (cfg_Policy c) cap} \<inter> {Metrics, Logs}) m
    \<and> (if r = None then m_closed m \<and> holding m = {} else n = 0 \<or> degraded m)"
proof -
  let ?m0 = "New_manager service_registry False (rn_answers env)"
  let ?S = "{cap. on (cfg_Policy c) cap} \<inter> {Metrics, Logs}"
  have v: "ValidateConfig parse compiles c = None" using assms by (auto simp: RunApp_def split: option.splits)
  obtain a m1 where a: "Apply (rn_ctx env) (cfg_Policy c) ?m0 = (a, m1)" by fastforce
  note c1 = confined_service[OF a]
  have e: "mgr_inv m1 \<and> (a = None \<longrightarrow> \<not> degraded m1)"
    using Apply_effect[OF a mgr_inv_New] by (auto split: if_splits)
  show ?thesis
  proof (cases a)
    case (Some x)
    then show ?thesis using assms v a c1 by (auto simp: RunApp_def)
  next
    case None
    obtain q m2 where q: "Close m1 = (q, m2)" by fastforce
    have m: "m = m2" "r = q" using assms v a q None by (auto simp: RunApp_def)
    have "confined ?S m2" using confined_Close[OF q c1] .
    moreover have "if q = None then m_closed m2 \<and> holding m2 = {} else degraded m2"
      using Close_effect[OF q] e None by auto
    ultimately show ?thesis using v m by auto
  qed
qed

text \<open>
  C15: A manager exists, and with it a collector may run, only after the flags asked for a run and for nothing else, the
  configuration was loaded and is valid, and the credentials were checked; it starts no capability but those the policy
  enables, and of these only the metrics and the logs. When the command reports success everything is stopped again.
\<close>

theorem service_starts_only_what_was_checked:
  "case cr_manager (run_command env args) of
     None \<Rightarrow> cr_code (run_command env args) \<in> {0, 1, 2}
   | Some m \<Rightarrow> \<exists>f c. parse_flags args default_flags = Some f \<and> fl_run f \<and> \<not> fl_check f \<and> \<not> fl_version f \<and>
       LoadConfig (ce_parse env) (ce_compiles env) (ce_yaml env) (ce_load env) (fl_config f) = Inr c \<and>
       ValidateConfig (ce_parse env) (ce_compiles env) c = None \<and>
       CheckCredentials (ce_parse env) (ce_getenv env) (ld_files (ce_load env)) (ld_read (ce_load env)) (ld_euid (ce_load env)) None c = None \<and>
       confined ({cap. on (cfg_Policy c) cap} \<inter> {Metrics, Logs}) m \<and>
       (if cr_code (run_command env args) = 0 then m_closed m \<and> holding m = {} else cr_code (run_command env args) = 1)"
proof (cases "cr_manager (run_command env args)")
  case None
  have "cr_code (run_command env args) \<in> {0, 1, 2}"
    by (auto simp: run_command_def exits_def split: option.splits sum.splits prod.splits)
  then show ?thesis using None by simp
next
  case (Some m)
  obtain f c where f: "parse_flags args default_flags = Some f" "fl_run f" "\<not> fl_check f" "\<not> fl_version f"
    "LoadConfig (ce_parse env) (ce_compiles env) (ce_yaml env) (ce_load env) (fl_config f) = Inr c"
    "CheckCredentials (ce_parse env) (ce_getenv env) (ld_files (ce_load env)) (ld_read (ce_load env)) (ld_euid (ce_load env)) None c = None"
    using Some by (auto simp: run_command_def exits_def split: option.splits sum.splits if_splits)
  obtain r m' n where r: "RunApp (ce_parse env) (ce_compiles env) c (ce_run env) = (r, m', n)" by (metis prod_cases3)
  have run: "run_command env args = (case r of Some e \<Rightarrow> \<lparr>cr_code = 1, cr_output = Some (RunError e), cr_manager = m'\<rparr>
      | None \<Rightarrow> \<lparr>cr_code = 0, cr_output = None, cr_manager = m'\<rparr>)"
    using f r by (simp add: run_command_def split: option.splits)
  then have "m' = Some m" using Some by (auto split: option.splits)
  note e = RunApp_effect[OF r[unfolded this]]
  have "if cr_code (run_command env args) = 0 then m_closed m \<and> holding m = {} else cr_code (run_command env args) = 1"
    unfolding run using e by (auto split: option.splits)
  then show ?thesis using Some f e by auto
qed

section \<open>A run from the file to the end\<close>

definition ascii_text :: "bytes \<Rightarrow> bool" where
  "ascii_text s \<longleftrightarrow> list_all text_char s"

lemma object_fields:
  assumes "json_wf maxNestingDepth (JObj kvs)" "list_all (\<lambda>(k, v). ascii_text k) kvs"
  shows "json_fields (pr (JObj kvs)) = Some (map (\<lambda>(k, v). (k, pr v)) kvs)"
  using json_fields_pr[OF assms(1)] assms(2) by (auto simp: list_all_iff unquote_text ascii_text_def simp del: pr.simps)

lemma text_value: "ascii_text b \<Longrightarrow> get_string (pr (JStr b)) old = Some b"
  using json_parse_pr[of "JStr b"] by (simp add: get_string_def text_body unquote_text ascii_text_def)

definition sample_exporter :: json where
  "sample_exporter = JObj [(''backend_id'', JStr ''backend''), (''organization_id'', JStr ''org''), (''type'', JStr ''otlp_http''),
     (''endpoint'', JStr ''https://observe.example/api/v1/otlp''), (''headers_env'', JObj [(''Authorization'', JStr ''OBSERVE_KEY'')])]"

definition sample_document :: json where
  "sample_document = JObj [(''version'', JNum ''1''), (''enabled'', JObj [(''metrics'', JBool True)])]"

definition sample_json_file :: json where
  "sample_json_file = JObj [(''exporter'', sample_exporter), (''policy'', sample_document)]"

lemma sample_texts:
  "ascii_text ''backend_id''" "ascii_text ''organization_id''" "ascii_text ''type''" "ascii_text ''endpoint''"
  "ascii_text ''headers_env''" "ascii_text ''Authorization''" "ascii_text ''exporter''" "ascii_text ''policy''"
  "ascii_text ''version''" "ascii_text ''enabled''" "ascii_text ''metrics''" "ascii_text ''backend''"
  "ascii_text ''org''" "ascii_text ''otlp_http''" "ascii_text ''https://observe.example/api/v1/otlp''" "ascii_text ''OBSERVE_KEY''"
  by (simp_all add: ascii_text_def text_char_def plain_def char_consts)

lemmas sample_bodies = sample_texts[unfolded ascii_text_def, THEN text_body]
lemmas sample_unquoted = sample_texts[unfolded ascii_text_def, THEN unquote_text]

lemma sample_number: "num_ok ''1''" "ParseUint ''1'' = Some 1"
proof -
  have d: "dec (unat (1 :: u64)) = ''1''" by code_simp
  show "num_ok ''1''" "ParseUint ''1'' = Some 1" using num_ok_dec[of "unat (1 :: u64)"] ParseUint_dec_unat[of 1] unfolding d by simp_all
qed

lemma sample_wf:
  "json_wf maxNestingDepth (JObj [(''Authorization'', JStr ''OBSERVE_KEY'')])" "json_wf maxNestingDepth (JObj [(''metrics'', JBool True)])"
  "json_wf maxNestingDepth sample_exporter" "json_wf maxNestingDepth sample_document" "json_wf maxNestingDepth sample_json_file"
  by (simp_all add: sample_exporter_def sample_document_def sample_json_file_def sample_bodies sample_number maxNestingDepth_def)

lemma sample_unique: "unique_keys sample_json_file"
  by (simp add: sample_json_file_def sample_exporter_def sample_document_def sample_unquoted scalar_ok_def small_floats)

definition sample_loaded :: config where
  "sample_loaded = zero_config\<lparr>Exporter := \<lparr>exporter_config.BackendID = ''backend'', exporter_config.OrganizationID = ''org'', PreviousEndpoint = [],
       Type = ''otlp_http'', Endpoint = ''https://observe.example/api/v1/otlp'', HeadersEnv = [(''Authorization'', ''OBSERVE_KEY'')]\<rparr>,
     cfg_Policy := \<lparr>version = 1, enabled = [(Metrics, True)]\<rparr>\<rparr>"

lemma sample_exporter_read: "get_exporter (pr sample_exporter) zero_exporter = Some (Exporter sample_loaded)"
proof -
  have m: "get_string_map (pr (JObj [(''Authorization'', JStr ''OBSERVE_KEY'')])) [] = Some [(''Authorization'', ''OBSERVE_KEY'')]"
    using json_parse_pr[OF sample_wf(1)] object_fields[OF sample_wf(1)]
    by (simp add: get_string_map_def text_value sample_texts del: pr.simps)
  show ?thesis using object_fields[OF sample_wf(3)[unfolded sample_exporter_def]] m
    by (simp add: get_exporter_def get_struct_def sample_exporter_def sample_texts match_field_def set_exporter_def text_value
        zero_exporter_def sample_loaded_def del: pr.simps)
qed

lemma sample_document_read: "get_document (pr sample_document) zero_document = Some (cfg_Policy sample_loaded)"
proof -
  have m: "get_enabled (pr (JObj [(''metrics'', JBool True)])) [] = Some [(''metrics'', True)]"
    using json_parse_pr[OF sample_wf(2)] object_fields[OF sample_wf(2)]
    by (simp add: get_enabled_def get_bool_pr sample_texts del: pr.simps)
  have n: "get_u64 (pr (JNum ''1'')) 0 = Some 1" using json_parse_pr[of "JNum ''1''"] by (simp add: get_u64_def sample_number)
  show ?thesis using object_fields[OF sample_wf(4)[unfolded sample_document_def]] m n
    by (simp add: get_document_def get_struct_def sample_document_def sample_texts match_field_def set_policy_document_def
        zero_document_def sample_loaded_def Metrics_def del: pr.simps)
qed

lemma sample_json_file_read: "get_config (pr sample_json_file) zero_config = Some sample_loaded"
  using object_fields[OF sample_wf(5)[unfolded sample_json_file_def]] sample_exporter_read sample_document_read
  by (simp add: get_config_def get_struct_def sample_json_file_def sample_texts match_field_def set_config_def zero_config_def sample_loaded_def
      del: pr.simps)

lemma sample_loaded_valid: "ValidateConfig sample_parse (\<lambda>_. True) (default_limits sample_loaded) = None"
proof -
  have r: "envName ''OBSERVE_KEY''" "IsAbs ''/var/lib/observe-agent/logs''" "Policy.Validate \<lparr>version = 1, enabled = [(Metrics, True)]\<rparr> = None"
    by code_simp+
  show ?thesis
    using r by (simp add: ValidateConfig_def ValidateRuntime_def validateLogs_def LogsRuntime_def Runtime_def sample_loaded_def default_limits_def
        zero_config_def zero_logs_def zero_collection_def zero_ec2_def zero_delivery_def zero_journald_def zero_limits_def
        or_int_def or_string_def outside_def ContainsAny_def line_breaks_def validate_journald_def sample_parse_def plain_https_def
        TrimSuffix_def HasSuffix_def header_def Let_def)
qed

lemma printed_first_value:
  assumes "json_wf maxNestingDepth v"
  shows "first_value (pr v) = Some (pr v, [])"
proof -
  obtain n where "pval n maxNestingDepth (pr v) = Some (v, [])" using pval_pr(1)[OF assms, of "[]"] by auto
  then have "pval (2 * length (pr v) + 2) maxNestingDepth (pr v) = Some (v, [])" by (rule pval_fuel) simp
  then show ?thesis by (simp add: first_value_def)
qed

lemma printed_object: "TrimSpace (pr (JObj kvs)) = pr (JObj kvs)"
proof -
  have l: "find (HasPrefix (CHR ''{'' # s)) space_runes = None" "find (HasPrefix (CHR ''}'' # s)) (map rev space_runes) = None" for s
    by (simp_all add: space_runes_def)
  then show ?thesis by (simp add: TrimSpace_def TrimLeftSpace_def TrimRightSpace_def trim_fuel_nonspace)
qed

lemma sample_parsed: "Parse sample_parse (\<lambda>_. True) lib (Some (pr sample_json_file)) = Inr (default_limits sample_loaded)"
proof -
  have d: "rejectDuplicateKeys (pr sample_json_file) = None"
    using duplicate_keys_are_rejected[OF json_parse_pr[OF sample_wf(5)]] sample_unique by simp
  have "length (pr sample_json_file) \<le> 65536" by (simp add: sample_json_file_def sample_exporter_def sample_document_def)
  moreover have "HasPrefix (TrimSpace (pr sample_json_file)) ''{''" unfolding sample_json_file_def printed_object by simp
  ultimately show ?thesis
    using d printed_first_value[OF sample_wf(5)] sample_json_file_read sample_loaded_valid
    by (simp add: Parse_def parseJSON_def Let_def skip_ws_def)
qed

definition sample_cli :: cli_env where
  "sample_cli = \<lparr>ce_parse = sample_parse, ce_compiles = (\<lambda>_. True), ce_yaml = sample_yaml,
     ce_load = \<lparr>ld_open = (\<lambda>_. None), ld_files = (\<lambda>p. Some \<lparr>f_kind = Regular, f_mode = 384, f_uid = 0, f_nlink = 1, f_data = pr sample_json_file, f_synced = True\<rparr>),
       ld_euid = 0, ld_read = (\<lambda>f. Some (f_data f))\<rparr>,
     ce_getenv = (\<lambda>_. []), ce_run = \<lparr>rn_answers = [], rn_ctx = \<lparr>ctx_done = False, root_done = False, ctx_done_late = False\<rparr>, rn_ticks = 2\<rparr>\<rparr>"

text \<open>With this file and no failing call the metrics are started and stopped again, and the command succeeds.\<close>

lemma sample_service_runs:
  "cr_code (run_command sample_cli [''--run'']) = 0 \<and>
   (\<exists>m. cr_manager (run_command sample_cli [''--run'']) = Some m \<and> EStart Metrics True \<in> set (events m) \<and> holding m = {})"
proof -
  have f: "parse_flags [''--run''] default_flags = Some (default_flags\<lparr>fl_run := True\<rparr>)"
    by (simp add: set_bool_flag_def)
  have p: "\<not> names_json (ly_config Defaults)" by code_simp
  have l: "LoadConfig sample_parse (\<lambda>_. True) sample_yaml (ce_load sample_cli) (ly_config Defaults) = Inr (default_limits sample_loaded)"
    using p sample_parsed[of sample_yaml]
    by (simp add: LoadConfig_def open_config_def private_file_of_def OpenPrivate_def sample_cli_def)
  have c: "CheckCredentials sample_parse getenv files rd euid None (default_limits sample_loaded) = None" for getenv files rd euid
  proof -
    have "logicalID ''backend''" "logicalID ''org''" by code_simp+
    then show ?thesis by (simp add: CheckCredentials_def ValidateQueueIdentity_def sample_loaded_def default_limits_def zero_config_def)
  qed
  obtain r m n where a: "RunApp sample_parse (\<lambda>_. True) (default_limits sample_loaded) (ce_run sample_cli) = (r, Some m, n)"
    and e: "r = None" "EStart Metrics True \<in> set (events m)" "holding m = {}"
    using sample_loaded_valid
    by (simp add: RunApp_def sample_cli_def sample_loaded_def default_limits_def zero_config_def mgr_eval service_registry_def
        Catalogue_def Close_def holding_def)
  then show ?thesis using f l c
    by (simp add: run_command_def sample_cli_def default_flags_def)
qed

end
