(* ===== verification/Spec2Isabelle.thy ===== *)
theory Spec2Isabelle
  imports Composition MemoryQueue TailerProps JournalFacts LogsCapability MetricsCapability HostMetrics PolicyStore Service
begin

text \<open>
  Observe Agent: a verification development of the Go sources under \<^verbatim>\<open>src/\<close>.

  The agent collects metrics and logs on a Linux host and delivers them to one backend. It is built so that
  nothing accepted is lost: collectors put records into durable spools, delivery workers take a record
  off a spool only when the backend has accepted it, and a lifecycle manager moves the set of running
  collectors from one policy document to the next, or back.

  \<^bold>\<open>The program and its parts.\<close>
  The command (\<^verbatim>\<open>cmd/observe-agent/main.go\<close>) reads the flags, loads and checks the configuration and calls
  \<^verbatim>\<open>app.Run\<close> (\<^verbatim>\<open>internal/app/runtime.go\<close>), which makes the lifecycle manager (\<^verbatim>\<open>internal/app/app.go\<close>) and applies
  the policy of the configuration. The manager starts the two collectors. The metrics capability
  (\<^verbatim>\<open>internal/collectors/metrics.go\<close>) samples the host, encodes the sample into requests, and puts them into the
  metrics spool; its delivery loop sends what the spool holds. The logs capability
  (\<^verbatim>\<open>internal/collectors/logs_linux.go\<close>) runs one file tailer per source and a journal reader; they admit every
  record to the logs spool, save their position, and activate the record; its delivery loop sends what is active.
  Both loops use the exporter. A remote policy would pass the gate of \<^verbatim>\<open>internal/fleet/fleet.go\<close>, whose local
  store keeps documents in a state file.

  \<^bold>\<open>The theories, from the bottom.\<close>

  \<^item> \<open>Prelude\<close>, \<open>GoStrings\<close>, \<open>GoPath\<close>, \<open>Json\<close>, \<open>JsonFacts\<close>, \<open>JsonDepth\<close>, \<open>Sha256\<close>, \<open>Float64\<close>: byte strings, errors as
  values (\<open>'a result\<close>, \<open>error option\<close>), and what the program uses of Go's packages \<^verbatim>\<open>strings\<close>, \<^verbatim>\<open>strconv\<close>, \<^verbatim>\<open>fmt\<close>,
  \<^verbatim>\<open>unicode/utf8\<close>, \<^verbatim>\<open>path\<close>, \<^verbatim>\<open>path/filepath\<close>, \<^verbatim>\<open>encoding/json\<close>, \<^verbatim>\<open>crypto/sha256\<close> and of the type \<^verbatim>\<open>float64\<close>. \<open>JsonFacts\<close>
  shows that the JSON parser reads back what it prints and that its fuel is enough.
  \<^item> \<open>Fs\<close>: the calls on one private directory, with a script of faults and the effect of a crash.
  \<^item> \<open>Policy\<close>, \<open>Manager\<close>, \<open>Fleet\<close>: \<^verbatim>\<open>internal/policy/policy.go\<close>, \<^verbatim>\<open>internal/app/app.go\<close> (\<open>Apply\<close>, \<open>restore\<close>, \<open>Close\<close>) and the gate
  (\<open>Accept\<close>). Lemmas: what runs is what the document in force enables, a failed \<open>Apply\<close> rolls back or degrades,
  and a remote document is applied only within the local allowance.
  \<^item> \<open>Durable\<close>: the interfaces of the queues. \<open>Scope\<close>, \<open>DiskQueue\<close>, \<open>DiskFacts\<close>, \<open>DiskInv\<close>, \<open>DiskContract\<close>, \<open>DiskOpen\<close>, \<open>OpenFacts\<close>,
  \<open>MetricsSpool\<close>: \<^verbatim>\<open>internal/queue/scope.go\<close>, \<^verbatim>\<open>disk_linux.go\<close> (\<open>Put\<close>, \<open>Next\<close>, \<open>Ack\<close>, \<open>CloseDisk\<close>, \<open>openDisk\<close>) and
  \<^verbatim>\<open>migration_linux.go\<close> (\<open>loadManifest\<close>, \<open>finishMigration\<close>). Lemmas: each write is atomic and durable, the invariant
  of an open spool under every script of faults, opening without loss, budgets.
  \<^item> \<open>LogQueue\<close>, \<open>LogFacts\<close>, \<open>LogInv\<close>, \<open>LogContract\<close>, \<open>LogOpen\<close>, \<open>LogOpenFacts\<close>, \<open>LogHealthy\<close>, \<open>LogsSpool\<close>:
  \<^verbatim>\<open>internal/queue/logs_disk_linux.go\<close> (\<open>PutAdmission\<close>, \<open>Activate\<close>, \<open>LogNext\<close>, \<open>LogAck\<close>, \<open>CloseLog\<close>, \<open>OpenLogDisk\<close>) in the same
  way, with the idempotence of admission and the recovery of interrupted operations.
  \<^item> \<open>MemoryQueue\<close>: \<^verbatim>\<open>internal/queue/memory.go\<close>, its bounds and its wake-up token.
  \<^item> \<open>Secrets\<close>, \<open>Sender\<close>, \<open>SenderFacts\<close>: \<^verbatim>\<open>internal/security/\<close> and \<^verbatim>\<open>internal/exporter/\<close> (\<open>Request\<close>, \<open>retryDelay\<close>, \<open>Send\<close>).
  \<^item> \<open>Config\<close>, \<open>DuplicateKeys\<close>, \<open>ConfigJson\<close>, \<open>ConfigYaml\<close>, \<open>ConfigFile\<close>: \<^verbatim>\<open>internal/config/\<close>: the normalized configuration with its
  defaults and validation, the check for repeated keys over the token stream of the decoder, the strict decoding
  of JSON, the YAML front end with its conversion, and loading a file (\<open>LoadConfig\<close> is \<^verbatim>\<open>Load\<close> of \<^verbatim>\<open>yaml.go\<close>).
  \<^item> \<open>PolicyStore\<close>: \<open>StateRead\<close> and \<open>StateReplace\<close> (\<^verbatim>\<open>Read\<close> and \<^verbatim>\<open>Replace\<close> of \<^verbatim>\<open>internal/platform/native_linux.go\<close>) with the
  other primitives of the platform, and \<open>Save\<close> and \<open>Load\<close> of the local store.
  \<^item> \<open>Service\<close>: \<open>run_command\<close> (\<^verbatim>\<open>main.go\<close>) and \<open>RunApp\<close> (\<^verbatim>\<open>runtime.go\<close>).
  \<^item> \<open>Lines\<close>, \<open>Checkpoint\<close>, \<open>Tailer\<close>, \<open>TailerFacts\<close>, \<open>TailerRun\<close>, \<open>TailerProps\<close>, \<open>TailerWorld\<close>: \<^verbatim>\<open>internal/logtail/tailer_linux.go\<close>: reading
  lines, the checkpoint files, one poll (\<open>pollOnce\<close>, \<open>consume\<close>), many polls while a file grows, and what the world
  behind the callbacks goes through.
  \<^item> \<open>Journal\<close>, \<open>JournalFacts\<close>: \<^verbatim>\<open>internal/journaltail/reader_linux.go\<close>.
  \<^item> \<open>Pipeline\<close>, \<open>HostMetrics\<close>, \<open>Identity\<close>: \<^verbatim>\<open>internal/pipeline/\<close>, \<^verbatim>\<open>internal/platform/metrics_linux.go\<close>,
  \<^verbatim>\<open>internal/identity/\<close>, \<^verbatim>\<open>internal/cloud/\<close> and \<^verbatim>\<open>ec2_linux.go\<close>: requests, samples of the host, and the identity
  both go out under.
  \<^item> \<open>Delivery\<close>, \<open>LogDelivery\<close>: the loops of the two capabilities over any queue that keeps the interface.
  \<open>MetricsCapability\<close>, \<open>LogsWorld\<close>, \<open>LogsCapability\<close>: start, work, stop and counters of the capabilities, composed of the
  theories above. \<open>Composition\<close>: a valid configuration against the spools and the exporter.

  \<^bold>\<open>State and steps.\<close>
  A struct is a record with the fields of the source, a method is a function from the state before to the outcome
  and the state after. What a mutex makes atomic is one step; goroutines interleave as step relations
  (\<open>worker_step\<close>, \<open>log_step\<close>, \<open>metrics_life\<close>, \<open>logs_life\<close>, \<open>mgr_run\<close>, \<open>disk_run\<close>, \<open>logs_run\<close>, \<open>mem_run\<close>, \<open>polls\<close>), and the properties
  of runs are invariants by rule induction. The ghost fields that record what entered and left (\<open>w_entered\<close>, \<open>w_left\<close>,
  \<open>w_sent\<close> and those of the logs) and the list \<open>events\<close> of the manager are read by no code. A Go map is an association
  list; its order of iteration does not matter where the code leaves it open, or is an argument.

  \<^bold>\<open>Interfaces.\<close>
  \<open>delivery_queue\<close> with its extensions \<open>durable_queue\<close> (interpreted as \<open>dq\<close> by the metrics spool) and \<open>admission_queue\<close> (\<open>lq\<close>, by
  the logs spool) is what the delivery loops rely on; \<open>policy_applier\<close> (\<open>mgr\<close>, by the manager) is what the gate relies
  on; \<open>state_files\<close> (\<open>native\<close>, by the state files of the platform) is what the local store relies on.

  \<^bold>\<open>Parameters.\<close>
  What is not under \<^verbatim>\<open>src/\<close> is an argument: \<^verbatim>\<open>url.Parse\<close> (\<open>parse\<close>), \<^verbatim>\<open>regexp.Compile\<close> (\<open>compiles\<close>), the YAML library
  (\<open>yaml_library\<close>), the marshaller of the OpenTelemetry data (\<open>marshal\<close>), the readings of gopsutil, the output of
  journalctl, the HTTP exchanges (a script with one entry per attempt), the answers of the metadata service, of the
  operating system (records named \<open>..._env\<close>), the contents of a credential file or the failure to read it (\<open>rd\<close>) and of the collectors towards the manager, random names, and the clocks.
  Statements hold for all of them. A hypothesis about one is named in the statement: that SHA-256 has no collision
  where scopes are told apart, and that the YAML library gives scalars of the accepted tags scalar values.

  \<^bold>\<open>Bounds and fuel.\<close>
  The script of faults has one entry per call and is followed by success for ever, so that a statement about all
  scripts covers a fault at any call. A crash leaves every name of a directory at one of the values it had since the
  last sync, and arbitrary data in files that were not synced. The JSON parser has fuel of twice the length of its
  input and two, which \<open>pval_fuel\<close> shows to be enough, as the termination theorem of \<open>DuplicateKeys\<close> does for the check of repeated
  keys; trimming has the length of the string, each round dropping a byte. Loops over input end by a measure on
  what is left (\<open>consume_loop\<close>, \<open>read_loop\<close>, \<open>scan_lines\<close>, \<open>encode_chunks\<close>, \<open>duration_sum\<close>). Loops that wait for ever (the tickers and
  delivery loops) are step relations, those that retry are bounded by the configured attempts. Integers keep their
  width where it matters: sequence numbers are 64-bit words, the charges and the duration arithmetic wrap or are
  checked as the code does. Rounding of floating point numbers is to 53 bits without overflow and subnormals, which
  the values of the program do not reach.

  \<^bold>\<open>What the properties show.\<close>
  End to end: in single-line mode a line of a file that becomes a record, which leaves out empty lines and those longer than
  the limit, is passed only when it was admitted; an admitted record is delivered to the backend or kept
  in the spool, also after a crash at any point, for files and for the journal; the points of a sample are
  stored in encoded parts that make up the sample or are counted as dropped; a record leaves a spool only when the
  backend accepted its stored payload. Per component: durability, invariants and budgets of the spools and their
  opening, what a restart loads of a saved checkpoint and when it refuses, rollback of the manager, the allowance of the gate, survival of the stored policy, ambiguity and bounds of
  configuration input, what the service checks before it starts anything, classification and delays of the exporter,
  the identity of the host, and the limits of samples. Where the code falls short of this the exception is proved
  as a lemma (among others \<open>accepted_record_can_be_unreadable\<close>, \<open>late_activation_stops_delivery\<close>,
  \<open>escaped_record_blocks_delivery\<close>, \<open>oversized_line_commits_past_pending\<close>, \<open>oversized_journal_record_stalls\<close>,
  \<open>too_many_checkpoints\<close>, \<open>policy_under_two_names\<close>). In multi-line mode the order and the content of records are modelled, and
  \<open>oversized_line_commits_past_pending\<close> shows why no line can be promised there.

  \<^bold>\<open>Not modelled.\<close>
  The stubs for other platforms, which only refuse; declarations of interfaces without an implementation
  (\<^verbatim>\<open>receivers\<close>, \<^verbatim>\<open>processors\<close>, \<^verbatim>\<open>pipeline.go\<close>, \<^verbatim>\<open>Transport\<close> and the verifier of the gate); the clearing of buffers with
  secrets, which no result depends on; test hooks; the delivery of signals and tickers, of which the service sees only
  how many reports come before the stop; the text of diagnostics; memory limits and the scheduling of goroutines
  within one atomic step.
\<close>

end
